(* ===== verification/Prelude.thy ===== *)
theory Prelude
  imports Main "HOL-Library.Word" "HOL-Library.Signed_Division"
begin

text \<open>
  Shared vocabulary of the development: the machine integers of the C sources, the error
  numbers that its functions return, and the generic facts on lists and on unsigned words that
  several components use.

  A C function that returns \<open>0\<close> or a negative error number is modelled by a value of
  \<open>status\<close> (\<open>None\<close> is \<open>0\<close>); one that also stores a result through an out
  parameter returns a sum, the error on the left.
\<close>

section \<open>Machine integers\<close>

type_synonym u8 = "8 word"
type_synonym u32 = "32 word"
type_synonym u64 = "64 word"

section \<open>Error numbers\<close>

text \<open>The error numbers the modelled files name; any other is \<open>Eother\<close>.\<close>

datatype errno =
    EINVAL | ENOMEM | ENOENT | EALREADY | EBUSY | EPERM | EFAULT | ERANGE | ENODEV | EAGAIN | EACCES
  | EEXIST | EIO | ENOTSUP | ESRCH | ENOTCONN | EPIPE | ETIMEDOUT | Eother nat

type_synonym status = "errno option"

abbreviation ok :: status where
  "ok \<equiv> None"

abbreviation fails :: "errno \<Rightarrow> status" where
  "fails e \<equiv> Some e"

section \<open>Fact collections\<close>

named_theorems list_chunk \<open>splitting and joining of byte buffers by take and drop\<close>
named_theorems unsigned \<open>unsigned machine arithmetic read as natural numbers\<close>

section \<open>Lists\<close>

lemma take_append_take [list_chunk]:
  "n \<le> length xs \<Longrightarrow> take n xs @ take m (drop n xs) = take (n + m) xs"
  by (simp add: take_add)

lemma drop_concat_Cons [list_chunk]:
  "length x \<le> n \<Longrightarrow> drop n (concat (x # xs)) = drop (n - length x) (concat xs)"
  by simp

lemma list_update_append_length [simp]:
  "(xs @ y # ys)[length xs := z] = xs @ z # ys"
  by (induction xs) simp_all

lemma map_update_filter_neq:
  "x \<notin> set xs \<Longrightarrow> filter (\<lambda>y. y \<noteq> x) xs = xs"
  by (induction xs) auto

lemma fold_invariant:
  assumes "P s" and "\<And>x s. x \<in> set xs \<Longrightarrow> P s \<Longrightarrow> P (f x s)"
  shows "P (fold f xs s)"
  using assms by (induction xs arbitrary: s) auto

section \<open>Unsigned words\<close>

lemma unat_sub_le [unsigned]:
  "b \<le> (a :: 'a::len word) \<Longrightarrow> unat (a - b) = unat a - unat b"
  by (simp add: unat_sub)

lemma unat_min [unsigned]: "unat (min a b) = min (unat a) (unat (b :: 'a::len word))"
  by (simp add: min_def word_le_nat_alt)

lemma unat_max [unsigned]: "unat (max a b) = max (unat a) (unat (b :: 'a::len word))"
  by (simp add: max_def word_le_nat_alt)

lemma unat_add_small [unsigned]:
  "unat a + unat (b :: 'a::len word) < 2 ^ LENGTH('a) \<Longrightarrow> unat (a + b) = unat a + unat b"
  by (simp add: unat_word_ariths)

lemma unat_mult_small [unsigned]:
  "unat a * unat (b :: 'a::len word) < 2 ^ LENGTH('a) \<Longrightarrow> unat (a * b) = unat a * unat b"
  by (simp add: unat_word_ariths)

lemma sdiv_nonneg: "0 \<le> x \<Longrightarrow> 0 \<le> (k :: int) \<Longrightarrow> x sdiv k = x div k"
  by (cases "x = 0"; cases "k = 0") (auto simp: signed_divide_int_def sgn_if)

end
