(* ===== verification/Ring.thy ===== *)
theory Ring
  imports Prelude
begin

text \<open>
  The byte ring of \<open>src/shl/ring.h\<close>: a chain of 512-byte blocks that a writer appends to
  and a reader consumes from the front. It buffers the bytes on their way to the pseudo terminal.

  A block keeps its whole buffer, of which the first \<open>ent_len\<close> bytes are live, so that the
  copies of the code and their bounds are visible. The chain is the list of its blocks: the
  pointers \<open>first\<close> and \<open>last\<close> are its two ends.
\<close>

section \<open>The interface of a byte queue\<close>

text \<open>
  What a client of the ring relies on. \<open>contents\<close> are the queued bytes; \<open>putb\<close>
  reports whether it ran out of memory; \<open>peekb\<close> returns a chunk that starts at an offset.
\<close>

locale byte_queue =
  fixes putb :: "'q \<Rightarrow> 'b list \<Rightarrow> status \<times> 'q"
    and peekb :: "'q \<Rightarrow> nat \<Rightarrow> 'b list option"
    and dropb :: "'q \<Rightarrow> nat \<Rightarrow> 'q"
    and contents :: "'q \<Rightarrow> 'b list"
    and invar :: "'q \<Rightarrow> bool"
  assumes put_ok: "invar q \<Longrightarrow> putb q bs = (ok, q') \<Longrightarrow> contents q' = contents q @ bs"
    and put_invar: "invar q \<Longrightarrow> invar (snd (putb q bs))"
    and peek_Some: "invar q \<Longrightarrow> peekb q n = Some c \<Longrightarrow>
      c \<noteq> [] \<and> (\<exists>rest. drop n (contents q) = c @ rest)"
    and peek_None: "invar q \<Longrightarrow> peekb q n = None \<longleftrightarrow> length (contents q) \<le> n"
    and drop_contents: "invar q \<Longrightarrow> contents (dropb q n) = drop n (contents q)"
    and drop_invar: "invar q \<Longrightarrow> invar (dropb q n)"
begin

text \<open>
  A consumer that repeatedly peeks at the front and drops what it was able to hand on: each entry
  of \<open>ks\<close> bounds what the sink accepts in that round.
\<close>

fun drain :: "'q \<Rightarrow> nat list \<Rightarrow> 'b list \<times> 'q" where
  "drain q [] = ([], q)"
| "drain q (k # ks) =
     (case peekb q 0 of
        None \<Rightarrow> ([], q)
      | Some c \<Rightarrow>
          (let (out, q') = drain (dropb q (min k (length c))) ks
           in (take k c @ out, q')))"

lemma drain_in_order:
  "invar q \<Longrightarrow> fst (drain q ks) @ contents (snd (drain q ks)) = contents q"
proof (induction ks arbitrary: q)
  case Nil
  then show ?case by simp
next
  case (Cons k ks)
  show ?case
  proof (cases "peekb q 0")
    case None
    then show ?thesis by simp
  next
    case (Some c)
    then obtain rest where c: "contents q = c @ rest"
      using peek_Some [OF Cons.prems Some] by auto
    have "take k c @ contents (dropb q (min k (length c))) = contents q"
      using Cons.prems by (simp add: drop_contents c min_def)
    moreover have "invar (dropb q (min k (length c)))"
      by (rule drop_invar [OF Cons.prems])
    ultimately show ?thesis
      using Cons.IH [of "dropb q (min k (length c))"] Some by (simp add: case_prod_beta)
  qed
qed

lemma drain_invar: "invar q \<Longrightarrow> invar (snd (drain q ks))"
  by (induction ks arbitrary: q) (auto simp: case_prod_beta drop_invar split: option.splits)

text \<open>A reader whose sink accepts bytes in every round empties the queue in at most as many
  rounds as there are bytes.\<close>

lemma drain_progress:
  assumes "invar q" "contents q \<noteq> []" "0 < k"
  shows "fst (drain q (k # ks)) \<noteq> []"
proof -
  obtain c where c: "peekb q 0 = Some c"
    using assms peek_None [of q 0] by fastforce
  with assms(1) have "c \<noteq> []" by (blast dest: peek_Some)
  with c assms(3) show ?thesis by (simp add: case_prod_beta)
qed

end

section \<open>The ring\<close>

abbreviation SHL_RING_SIZE :: nat where
  "SHL_RING_SIZE \<equiv> 512"

record shl_ring_entry =
  ent_len :: nat
  ent_buf :: "u8 list"

type_synonym shl_ring = "shl_ring_entry list"

definition live :: "shl_ring_entry \<Rightarrow> u8 list" where
  "live e = take (ent_len e) (ent_buf e)"

definition ring_contents :: "shl_ring \<Rightarrow> u8 list" where
  "ring_contents r = concat (map live r)"

definition entry_ok :: "shl_ring_entry \<Rightarrow> bool" where
  "entry_ok e \<longleftrightarrow> length (ent_buf e) = SHL_RING_SIZE \<and> 0 < ent_len e \<and> ent_len e \<le> SHL_RING_SIZE"

definition ring_inv :: "shl_ring \<Rightarrow> bool" where
  "ring_inv r \<longleftrightarrow> list_all entry_ok r"

definition shl_ring_new :: "bool \<Rightarrow> errno + shl_ring" where
  "shl_ring_new mem = (if \<not> mem then Inl ENOMEM else Inr [])"

definition shl_ring_is_empty :: "shl_ring option \<Rightarrow> bool" where
  "shl_ring_is_empty ring = (case ring of None \<Rightarrow> True | Some r \<Rightarrow> r = [])"

text \<open>\<open>memcpy(&ent->buf[ent->len], val, cp)\<close>, then \<open>ent->len += cp\<close>.\<close>

definition entry_append :: "shl_ring_entry \<Rightarrow> u8 list \<Rightarrow> shl_ring_entry" where
  "entry_append e bs =
     e\<lparr>ent_buf := take (ent_len e) (ent_buf e) @ bs @ drop (ent_len e + length bs) (ent_buf e),
       ent_len := ent_len e + length bs\<rparr>"

text \<open>
  A fresh block. Its buffer is what \<open>malloc\<close> returned; the model fills it with zeros, and
  no byte of it is read before it is written.
\<close>

definition entry_fresh :: shl_ring_entry where
  "entry_fresh = \<lparr>ent_len = 0, ent_buf = replicate SHL_RING_SIZE 0\<rparr>"

text \<open>
  The loop of \<open>shl_ring_write\<close>. \<open>m\<close> is the number of allocations that succeed before
  one fails. A round first makes sure that the last block has room, then fills it.
  A failed allocation leaves the bytes written so far in the ring.
\<close>

definition ring_room :: "nat \<Rightarrow> shl_ring \<Rightarrow> (nat \<times> shl_ring) option" where
  "ring_room m r =
     (if r = [] \<or> SHL_RING_SIZE \<le> ent_len (last r)
      then (if m = 0 then None else Some (m - 1, r @ [entry_fresh]))
      else Some (m, r))"

lemma ring_room_space:
  "ring_room m r = Some (m', r1) \<Longrightarrow> r1 \<noteq> [] \<and> ent_len (last r1) < SHL_RING_SIZE"
  by (auto simp: ring_room_def entry_fresh_def split: if_splits)

definition ring_copy :: "shl_ring_entry \<Rightarrow> u8 list \<Rightarrow> nat" where
  "ring_copy ent val =
     (let space = SHL_RING_SIZE - ent_len ent in if space \<le> length val then space else length val)"

function ring_write_loop :: "nat \<Rightarrow> shl_ring \<Rightarrow> u8 list \<Rightarrow> status \<times> shl_ring" where
  "ring_write_loop m r val =
     (case ring_room m r of
        None \<Rightarrow> (fails ENOMEM, r)
      | Some (m', r1) \<Rightarrow>
          (let cp = ring_copy (last r1) val;
               r2 = butlast r1 @ [entry_append (last r1) (take cp val)]
           in if length val - cp = 0 then (ok, r2) else ring_write_loop m' r2 (drop cp val)))"
  by pat_completeness auto
termination
  by (relation "measure (\<lambda>(m, r, val). length val)")
    (auto simp: ring_copy_def Let_def dest!: ring_room_space split: if_splits)

declare ring_write_loop.simps [simp del]

definition shl_ring_write :: "nat \<Rightarrow> shl_ring option \<Rightarrow> u8 list option \<Rightarrow> status \<times> shl_ring option" where
  "shl_ring_write m ring val =
     (case (ring, val) of
        (Some r, Some v) \<Rightarrow>
          (if v = [] then (fails EINVAL, ring)
           else let (ret, r') = ring_write_loop m r v in (ret, Some r'))
      | _ \<Rightarrow> (fails EINVAL, ring))"

text \<open>The returned pointer and length are the list of the bytes they denote.\<close>

fun ring_peek_loop :: "shl_ring \<Rightarrow> nat \<Rightarrow> u8 list option" where
  "ring_peek_loop [] offset = None"
| "ring_peek_loop (e # r) offset =
     (if ent_len e \<le> offset
      then (if r = [] then None else ring_peek_loop r (offset - ent_len e))
      else Some (take (ent_len e - offset) (drop offset (ent_buf e))))"

definition shl_ring_peek :: "shl_ring option \<Rightarrow> nat \<Rightarrow> u8 list option" where
  "shl_ring_peek ring offset =
     (case ring of None \<Rightarrow> None | Some r \<Rightarrow> if r = [] then None else ring_peek_loop r offset)"

text \<open>\<open>memmove(ent->buf, &ent->buf[len], ent->len - len)\<close>, then \<open>ent->len -= len\<close>.\<close>

definition entry_shift :: "shl_ring_entry \<Rightarrow> nat \<Rightarrow> shl_ring_entry" where
  "entry_shift e n =
     e\<lparr>ent_buf := take (ent_len e - n) (drop n (ent_buf e)) @ drop (ent_len e - n) (ent_buf e),
       ent_len := ent_len e - n\<rparr>"

fun ring_drop_loop :: "shl_ring \<Rightarrow> nat \<Rightarrow> shl_ring" where
  "ring_drop_loop [] len = []"
| "ring_drop_loop (e # r) len =
     (if ent_len e \<le> len
      then (if len - ent_len e = 0 then r else ring_drop_loop r (len - ent_len e))
      else entry_shift e len # r)"

definition shl_ring_drop :: "shl_ring option \<Rightarrow> nat \<Rightarrow> shl_ring option" where
  "shl_ring_drop ring len =
     (case ring of None \<Rightarrow> None | Some r \<Rightarrow> if len = 0 then ring else Some (ring_drop_loop r len))"

definition shl_ring_flush :: "shl_ring option \<Rightarrow> shl_ring option" where
  "shl_ring_flush ring = (case ring of None \<Rightarrow> None | Some r \<Rightarrow> Some [])"

section \<open>Correctness\<close>

lemma live_append:
  assumes "length (ent_buf e) = SHL_RING_SIZE" "ent_len e + length bs \<le> SHL_RING_SIZE"
  shows "live (entry_append e bs) = live e @ bs"
  using assms by (simp add: live_def entry_append_def)

lemma entry_append_ok:
  assumes "length (ent_buf e) = SHL_RING_SIZE" "ent_len e + length bs \<le> SHL_RING_SIZE" "bs \<noteq> []"
  shows "entry_ok (entry_append e bs)"
  using assms by (auto simp: entry_ok_def entry_append_def)

lemma fresh_facts [simp]:
  "length (ent_buf entry_fresh) = SHL_RING_SIZE" "ent_len entry_fresh = 0" "live entry_fresh = []"
  by (simp_all add: entry_fresh_def live_def)

lemma length_live: "entry_ok e \<Longrightarrow> length (live e) = ent_len e"
  by (simp add: entry_ok_def live_def)

lemma ring_contents_simps [simp]:
  "ring_contents [] = []" "ring_contents (e # r) = live e @ ring_contents r"
  "ring_contents (r @ r') = ring_contents r @ ring_contents r'"
  by (simp_all add: ring_contents_def)

lemma ring_inv_simps [simp]:
  "ring_inv []" "ring_inv (e # r) \<longleftrightarrow> entry_ok e \<and> ring_inv r"
  "ring_inv (r @ r') \<longleftrightarrow> ring_inv r \<and> ring_inv r'"
  by (simp_all add: ring_inv_def)

lemma ring_room_correct:
  assumes "ring_inv r" "ring_room m r = Some (m', r1)"
  shows "ring_inv (butlast r1)" "length (ent_buf (last r1)) = SHL_RING_SIZE"
    "ring_contents (butlast r1) @ live (last r1) = ring_contents r"
proof -
  have "ring_inv (butlast r1) \<and> length (ent_buf (last r1)) = SHL_RING_SIZE \<and>
    ring_contents (butlast r1) @ live (last r1) = ring_contents r"
  proof (cases r rule: rev_cases)
    case Nil
    with assms show ?thesis by (auto simp: ring_room_def split: if_splits)
  next
    case (snoc ys y)
    with assms show ?thesis
      by (auto simp: ring_room_def entry_ok_def butlast_append split: if_splits)
  qed
  then show "ring_inv (butlast r1)" "length (ent_buf (last r1)) = SHL_RING_SIZE"
    "ring_contents (butlast r1) @ live (last r1) = ring_contents r" by auto
qed

text \<open>One round: the last block takes \<open>cp > 0\<close> more bytes.\<close>

lemma ring_fill_correct:
  assumes "ring_inv r" "val \<noteq> []" "ring_room m r = Some (m', r1)"
    and cp: "cp = ring_copy (last r1) val"
    and r2: "r2 = butlast r1 @ [entry_append (last r1) (take cp val)]"
  shows "ring_inv r2" "ring_contents r2 = ring_contents r @ take cp val" "0 < cp" "cp \<le> length val"
proof -
  note room = ring_room_correct [OF assms(1,3)] and space = ring_room_space [OF assms(3)]
  show b: "0 < cp" "cp \<le> length val"
    using space assms(2) by (auto simp: cp ring_copy_def Let_def)
  have fits: "ent_len (last r1) + length (take cp val) \<le> SHL_RING_SIZE"
    using space by (auto simp: cp ring_copy_def Let_def)
  show "ring_inv r2"
    unfolding r2 using room(1) entry_append_ok [OF room(2) fits] b assms(2) by simp
  show "ring_contents r2 = ring_contents r @ take cp val"
    unfolding r2 using live_append [OF room(2) fits] room(3) [symmetric] by simp
qed

lemma ring_write_loop_correct:
  assumes "ring_inv r" "val \<noteq> []"
  shows "ring_inv (snd (ring_write_loop m r val)) \<and>
    (\<exists>n. ring_contents (snd (ring_write_loop m r val)) = ring_contents r @ take n val \<and>
       (if fst (ring_write_loop m r val) = ok then n = length val
        else fst (ring_write_loop m r val) = fails ENOMEM \<and> n < length val))"
  using assms
proof (induction m r val rule: ring_write_loop.induct)
  case (1 m r val)
  show ?case
  proof (cases "ring_room m r")
    case None
    then show ?thesis
      using 1(2,3) by (auto simp: ring_write_loop.simps [of m r val] intro!: exI [of _ 0])
  next
    case (Some p)
    obtain m' r1 where p: "p = (m', r1)" by (cases p)
    define cp where "cp = ring_copy (last r1) val"
    define r2 where "r2 = butlast r1 @ [entry_append (last r1) (take cp val)]"
    note fill = ring_fill_correct [OF 1(2,3) Some [unfolded p] cp_def r2_def]
    have eq: "ring_write_loop m r val =
      (if length val - cp = 0 then (ok, r2) else ring_write_loop m' r2 (drop cp val))"
      using Some p by (simp add: ring_write_loop.simps [of m r val] Let_def cp_def r2_def)
    show ?thesis
    proof (cases "length val - cp = 0")
      case True
      with fill eq show ?thesis by (auto intro!: exI [of _ "length val"])
    next
      case False
      then have "drop cp val \<noteq> []" by simp
      from 1(1) [OF Some p [symmetric] cp_def r2_def False fill(1) this]
      obtain n where "ring_inv (snd (ring_write_loop m' r2 (drop cp val)))"
        "ring_contents (snd (ring_write_loop m' r2 (drop cp val))) = ring_contents r2 @ take n (drop cp val)"
        "if fst (ring_write_loop m' r2 (drop cp val)) = ok then n = length (drop cp val)
         else fst (ring_write_loop m' r2 (drop cp val)) = fails ENOMEM \<and> n < length (drop cp val)"
        by blast
      with fill eq False show ?thesis
        by (auto simp: take_add [symmetric] intro!: exI [of _ "cp + n"] split: if_splits)
    qed
  qed
qed

text \<open>Memory for one more block per 512 bytes is enough for the write to succeed.\<close>

lemma ring_write_loop_total:
  assumes "ring_inv r" "val \<noteq> []" "length val \<le> m * SHL_RING_SIZE"
  shows "fst (ring_write_loop m r val) = ok"
  using assms
proof (induction m r val rule: ring_write_loop.induct)
  case (1 m r val)
  from 1(3,4) have "m \<noteq> 0" by (cases m) auto
  then obtain m' r1 where room: "ring_room m r = Some (m', r1)"
    by (cases "r = [] \<or> SHL_RING_SIZE \<le> ent_len (last r)") (auto simp: ring_room_def)
  define cp where "cp = ring_copy (last r1) val"
  define r2 where "r2 = butlast r1 @ [entry_append (last r1) (take cp val)]"
  note fill = ring_fill_correct [OF 1(2,3) room cp_def r2_def]
  have "length (drop cp val) \<le> m' * SHL_RING_SIZE"
    using 1(4) room
    by (cases m) (auto simp: ring_room_def cp_def ring_copy_def Let_def split: if_splits)
  with 1(1) [OF room refl cp_def r2_def _ fill(1)] room show ?case
    by (auto simp: ring_write_loop.simps [of m r val] Let_def cp_def [symmetric] r2_def [symmetric])
qed

lemma ring_peek_loop_correct:
  assumes "ring_inv r"
  shows "ring_peek_loop r n = None \<longleftrightarrow> length (ring_contents r) \<le> n"
    and "ring_peek_loop r n = Some c \<Longrightarrow> c \<noteq> [] \<and> (\<exists>rest. drop n (ring_contents r) = c @ rest)"
proof -
  show "ring_peek_loop r n = None \<longleftrightarrow> length (ring_contents r) \<le> n"
    using assms
    by (induction r n rule: ring_peek_loop.induct) (auto simp: length_live)
  show "ring_peek_loop r n = Some c \<Longrightarrow> c \<noteq> [] \<and> (\<exists>rest. drop n (ring_contents r) = c @ rest)"
    using assms
  proof (induction r n rule: ring_peek_loop.induct)
    case (1 offset)
    then show ?case by simp
  next
    case (2 e r offset)
    then show ?case
      by (cases "ent_len e \<le> offset")
        (auto simp: length_live live_def entry_ok_def drop_take split: if_splits)
  qed
qed

lemma entry_shift_correct:
  assumes "entry_ok e" "n < ent_len e"
  shows "entry_ok (entry_shift e n)" "live (entry_shift e n) = drop n (live e)"
  using assms by (auto simp: entry_ok_def entry_shift_def live_def drop_take min_def)

lemma ring_drop_loop_correct:
  assumes "ring_inv r" "0 < n"
  shows "ring_inv (ring_drop_loop r n) \<and> ring_contents (ring_drop_loop r n) = drop n (ring_contents r)"
  using assms
  by (induction r n rule: ring_drop_loop.induct)
    (auto simp: length_live entry_shift_correct)

section \<open>The ring is a byte queue\<close>

text \<open>
  The client's view: a valid ring object, writes of one call (an empty write is rejected by the
  code before it reaches the loop and leaves the queue as it is), and \<open>m\<close> blocks of memory
  per write.
\<close>

definition ring_put :: "nat \<Rightarrow> shl_ring \<Rightarrow> u8 list \<Rightarrow> status \<times> shl_ring" where
  "ring_put m r bs = (let (ret, r') = shl_ring_write m (Some r) (Some bs) in (ret, the r'))"

definition ring_skip :: "shl_ring \<Rightarrow> nat \<Rightarrow> shl_ring" where
  "ring_skip r n = the (shl_ring_drop (Some r) n)"

lemma ring_put_eq:
  "ring_put m r bs = (if bs = [] then (fails EINVAL, r) else ring_write_loop m r bs)"
  by (simp add: ring_put_def shl_ring_write_def case_prod_beta)

lemma ring_skip_eq: "ring_skip r n = (if n = 0 then r else ring_drop_loop r n)"
  by (simp add: ring_skip_def shl_ring_drop_def)

lemma shl_ring_peek_eq: "shl_ring_peek (Some r) n = ring_peek_loop r n"
  by (cases r) (simp_all add: shl_ring_peek_def)

interpretation rq: byte_queue "ring_put m" "\<lambda>r. shl_ring_peek (Some r)" ring_skip ring_contents ring_inv
  for m
proof unfold_locales
  fix q q' bs
  assume "ring_inv q" "ring_put m q bs = (ok, q')"
  then show "ring_contents q' = ring_contents q @ bs"
    using ring_write_loop_correct [of q bs m] by (auto simp: ring_put_eq split: if_splits)
next
  fix q bs
  assume "ring_inv q"
  then show "ring_inv (snd (ring_put m q bs))"
    using ring_write_loop_correct [of q bs m] by (simp add: ring_put_eq)
next
  fix q n c
  assume "ring_inv q" "shl_ring_peek (Some q) n = Some c"
  then show "c \<noteq> [] \<and> (\<exists>rest. drop n (ring_contents q) = c @ rest)"
    using ring_peek_loop_correct(2) by (simp add: shl_ring_peek_eq)
next
  fix q n
  assume "ring_inv q"
  then show "shl_ring_peek (Some q) n = None \<longleftrightarrow> length (ring_contents q) \<le> n"
    by (simp add: shl_ring_peek_eq ring_peek_loop_correct(1))
next
  fix q n
  assume "ring_inv q"
  then show "ring_contents (ring_skip q n) = drop n (ring_contents q)"
    using ring_drop_loop_correct by (simp add: ring_skip_eq)
next
  fix q n
  assume "ring_inv q"
  then show "ring_inv (ring_skip q n)"
    using ring_drop_loop_correct by (simp add: ring_skip_eq)
qed

section \<open>Properties\<close>

text \<open>
  Property C19. What is written into the ring comes out unchanged, in order and exactly once: after
  any write that reports success, a reader that peeks at the front and drops what it consumed,
  in pieces of any sizes, gets a prefix of the old contents followed by the written bytes, and
  the ring holds exactly the rest.
\<close>

theorem ring_delivers_in_order:
  assumes "ring_inv r" "shl_ring_write m (Some r) (Some bs) = (ok, Some r')"
  shows "fst (rq.drain r' ks) @ ring_contents (snd (rq.drain r' ks)) = ring_contents r @ bs \<and>
    ring_inv (snd (rq.drain r' ks))"
proof -
  have put: "ring_put m r bs = (ok, r')"
    using assms(2) by (simp add: ring_put_def)
  have "ring_inv r'"
    using rq.put_invar [OF assms(1), of m bs] put by simp
  then show ?thesis
    using rq.drain_in_order rq.drain_invar rq.put_ok [OF assms(1) put] by simp
qed

theorem ring_delivers_in_order_witness:
  "fst (rq.drain (snd (ring_put 1 [] [1, 2, 3])) [2]) @
     ring_contents (snd (rq.drain (snd (ring_put 1 [] [1, 2, 3])) [2])) = [1, 2, 3]"
proof -
  have "fst (ring_write_loop 1 [] [1, 2, 3]) = ok"
    by (rule ring_write_loop_total) simp_all
  then have "shl_ring_write 1 (Some []) (Some [1, 2, 3]) = (ok, Some (snd (ring_put 1 [] [1, 2, 3])))"
    by (simp add: shl_ring_write_def ring_put_eq case_prod_beta)
  then show ?thesis
    using ring_delivers_in_order [of "[]" 1 "[1, 2, 3]" _ "[2]"] by simp
qed

text \<open>
  A write fails only for want of memory: one new block of 512 bytes per 512 bytes
  written is enough, and when memory runs out the ring stays well-formed and holds the old
  contents followed by a proper prefix of the written bytes.
\<close>

theorem ring_write_outcome:
  assumes "ring_inv r" "bs \<noteq> []"
  shows "case shl_ring_write m (Some r) (Some bs) of
      (ret, Some r') \<Rightarrow> ring_inv r' \<and> (length bs \<le> m * SHL_RING_SIZE \<longrightarrow> ret = ok) \<and>
        (\<exists>n. ring_contents r' = ring_contents r @ take n bs \<and>
           (if ret = ok then n = length bs else ret = fails ENOMEM \<and> n < length bs))
    | (ret, None) \<Rightarrow> False"
  using ring_write_loop_correct [OF assms, of m] ring_write_loop_total [OF assms, of m] assms(2)
  by (cases "fst (ring_write_loop m r bs)") (auto simp: shl_ring_write_def case_prod_beta)

theorem ring_write_outcome_witness:
  "ring_contents (the (snd (shl_ring_write 1 (Some []) (Some [7, 8])))) = [7, 8]"
  using ring_write_outcome [of "[]" "[7, 8]" 1]
  by (auto split: prod.splits option.splits if_splits)

end
