(* ===== verification/Misc.thy ===== *)
theory Misc
  imports Prelude
begin

text \<open>
  Helpers of \<open>src/shl/misc.h\<close>: matching of keyboard grabs, suffix tests, and the two string
  splitters. Both splitters run in two passes: the first counts the entries and the bytes of the
  result, one allocation is made for them, and the second pass fills it. The models keep the two
  passes apart, so that the agreement of the count with what is written can be proved.

  Strings are lists of characters without the terminating zero.
\<close>

section \<open>Keyboard grabs\<close>

text \<open>A set of keysyms is the list of its \<open>num_syms\<close> entries; \<open>memcmp\<close> compares them.\<close>

definition shl_grab_matches :: "u32 \<Rightarrow> u32 list \<Rightarrow> u32 \<Rightarrow> u32 list \<Rightarrow> bool" where
  "shl_grab_matches ev_mods ev_syms grab_mods grab_syms =
     (if ev_mods \<noteq> grab_mods then False
      else if length grab_syms \<noteq> 0 then
        (if length ev_syms \<noteq> length grab_syms then False
         else if ev_syms \<noteq> take (length ev_syms) grab_syms then False
         else True)
      else True)"

type_synonym conf_grab = "(u32 \<times> u32 list) list"

fun shl_grab_has_match :: "u32 \<Rightarrow> u32 list \<Rightarrow> conf_grab \<Rightarrow> bool" where
  "shl_grab_has_match ev_mods ev_syms [] = False"
| "shl_grab_has_match ev_mods ev_syms ((mods, syms) # gs) =
     (if shl_grab_matches ev_mods ev_syms mods syms then True
      else shl_grab_has_match ev_mods ev_syms gs)"

definition conf_grab_matches :: "conf_grab \<Rightarrow> u32 \<Rightarrow> u32 list \<Rightarrow> bool" where
  "conf_grab_matches grab ev_mods ev_syms = shl_grab_has_match ev_mods ev_syms grab"

lemma shl_grab_matches_iff:
  "shl_grab_matches m syms gm gsyms \<longleftrightarrow> m = gm \<and> (gsyms = [] \<or> syms = gsyms)"
  by (auto simp: shl_grab_matches_def)

lemma conf_grab_matches_iff:
  "conf_grab_matches g m syms \<longleftrightarrow> (\<exists>gs. (m, gs) \<in> set g \<and> (gs = [] \<or> syms = gs))"
  unfolding conf_grab_matches_def
  by (induction m syms g rule: shl_grab_has_match.induct) (auto simp: shl_grab_matches_iff)

section \<open>Suffixes\<close>

definition shl_ends_with :: "string \<Rightarrow> string \<Rightarrow> bool" where
  "shl_ends_with str suffix =
     (if length str < length suffix then False
      else drop (length str - length suffix) str = suffix)"

lemma shl_ends_with_iff: "shl_ends_with s t \<longleftrightarrow> (\<exists>p. s = p @ t)"
  by (auto simp: shl_ends_with_def) (metis append_take_drop_id)

section \<open>Splitting at a separator\<close>

text \<open>First pass: number of entries, bytes with their terminators, length of the open entry.\<close>

fun split_scan :: "char \<Rightarrow> bool \<Rightarrow> string \<Rightarrow> nat \<times> nat \<times> nat \<Rightarrow> nat \<times> nat \<times> nat" where
  "split_scan sep keep [] (num, sz, len) = (num, sz, len)"
| "split_scan sep keep (c # cs) (num, sz, len) =
     (if c \<noteq> sep then split_scan sep keep cs (num, sz, len + 1)
      else if keep \<or> len > 0 then split_scan sep keep cs (num + 1, sz + (len + 1), 0)
      else split_scan sep keep cs (num, sz, len))"

definition split_count :: "char \<Rightarrow> bool \<Rightarrow> string \<Rightarrow> nat \<times> nat" where
  "split_count sep keep arg =
     (let (num, sz, len) = split_scan sep keep arg (0, 0, 0)
      in if len > 0 \<or> (keep \<and> (arg = [] \<or> last arg = sep)) then (num + 1, sz + (len + 1))
         else (num, sz))"

text \<open>
  Second pass, one round per call. A round that finds an empty entry that is not kept tries
  again without counting it, so the loop ends only because the count is right: \<open>None\<close> is a
  loop that does not end.
\<close>

partial_function (option) split_fill :: "char \<Rightarrow> bool \<Rightarrow> nat \<Rightarrow> string \<Rightarrow> string list option" where
  "split_fill sep keep n arg =
     (if n = 0 then Some []
      else let tok = takeWhile (\<lambda>c. c \<noteq> sep) arg;
               rest = tl (dropWhile (\<lambda>c. c \<noteq> sep) arg)
           in if tok = [] \<and> \<not> keep then split_fill sep keep n rest
              else Option.bind (split_fill sep keep (n - 1) rest) (\<lambda>toks. Some (tok # toks)))"

definition shl_split_string :: "bool \<Rightarrow> string \<Rightarrow> char \<Rightarrow> bool \<Rightarrow> (errno + string list \<times> nat) option" where
  "shl_split_string mem arg sep keep =
     (if sep = CHR 0x00 then Some (Inl EINVAL)
      else if \<not> mem then Some (Inl ENOMEM)
      else let (num, sz) = split_count sep keep arg
           in Option.bind (split_fill sep keep num arg) (\<lambda>toks. Some (Inr (toks, num))))"

text \<open>The reference: the maximal runs between separators, in order.\<close>

fun split_at :: "char \<Rightarrow> string \<Rightarrow> string \<Rightarrow> string list" where
  "split_at sep acc [] = [rev acc]"
| "split_at sep acc (c # cs) =
     (if c = sep then rev acc # split_at sep [] cs else split_at sep (c # acc) cs)"

definition split_spec :: "char \<Rightarrow> bool \<Rightarrow> string \<Rightarrow> string list" where
  "split_spec sep keep arg = filter (\<lambda>t. keep \<or> t \<noteq> []) (split_at sep [] arg)"

text \<open>Bytes a list of entries takes with one terminator each.\<close>

definition packed_size :: "string list \<Rightarrow> nat" where
  "packed_size ts = sum_list (map (\<lambda>t. length t + 1) ts)"

lemma packed_size_simps [simp]:
  "packed_size [] = 0" "packed_size (t # ts) = length t + 1 + packed_size ts"
  "packed_size (ts @ us) = packed_size ts + packed_size us"
  by (simp_all add: packed_size_def)

lemma packed_size_rev [simp]: "packed_size (rev ts) = packed_size ts"
  by (induction ts) simp_all

lemma split_at_neq_Nil: "split_at sep acc cs \<noteq> []"
  by (induction sep acc cs rule: split_at.induct) auto

lemma split_at_acc:
  "split_at sep acc cs = (rev acc @ hd (split_at sep [] cs)) # tl (split_at sep [] cs)"
proof (induction cs arbitrary: acc)
  case Nil
  then show ?case by simp
next
  case (Cons c cs)
  show ?case
    by (simp add: Cons.IH [of "c # acc"] Cons.IH [of "[c]"])
qed

lemma split_at_step:
  "split_at sep [] arg =
     takeWhile (\<lambda>c. c \<noteq> sep) arg #
     (if dropWhile (\<lambda>c. c \<noteq> sep) arg = [] then [] else split_at sep [] (tl (dropWhile (\<lambda>c. c \<noteq> sep) arg)))"
proof (induction arg)
  case Nil
  then show ?case by simp
next
  case (Cons c cs)
  then show ?case by (cases "c = sep") (auto simp: split_at_acc [of sep "[c]" cs])
qed

text \<open>
  The scan counts the entries that the reference produces, the last one apart: it is open
  when the scan ends.
\<close>

lemma split_scan_spec:
  "split_scan sep keep arg (num, sz, length acc) =
     (let ts = split_at sep acc arg; fin = filter (\<lambda>t. keep \<or> t \<noteq> []) (butlast ts)
      in (num + length fin, sz + packed_size fin, length (last ts)))"
proof (induction sep acc arg arbitrary: num sz rule: split_at.induct)
  case (1 sep acc)
  then show ?case by simp
next
  case (2 sep acc c cs)
  show ?case
  proof (cases "c = sep")
    case True
    have "split_scan sep keep cs (n, s, 0) = (let ts = split_at sep [] cs;
        fin = filter (\<lambda>t. keep \<or> t \<noteq> []) (butlast ts)
      in (n + length fin, s + packed_size fin, length (last ts)))" for n s
      using 2(1) [OF True, of n s] by simp
    with True show ?thesis
      by (auto simp: Let_def split_at_neq_Nil)
  next
    case False
    then show ?thesis using 2(2) [OF False, of num sz] by simp
  qed
qed

lemma split_last_sep:
  "last (split_at sep acc arg) = [] \<longleftrightarrow> (if arg = [] then acc = [] else last arg = sep)"
  by (induction sep acc arg rule: split_at.induct) (auto simp: split_at_neq_Nil)

lemma split_count_spec:
  "split_count sep keep arg = (length (split_spec sep keep arg), packed_size (split_spec sep keep arg))"
proof -
  let ?ts = "split_at sep [] arg"
  have ts: "?ts = butlast ?ts @ [last ?ts]" by (simp add: split_at_neq_Nil)
  have spec: "split_spec sep keep arg =
      filter (\<lambda>t. keep \<or> t \<noteq> []) (butlast ?ts) @ (if keep \<or> last ?ts \<noteq> [] then [last ?ts] else [])"
    unfolding split_spec_def by (subst ts) simp
  have lst: "last ?ts = [] \<longleftrightarrow> arg = [] \<or> last arg = sep"
    using split_last_sep [of sep "[]" arg] by auto
  show ?thesis
    using split_scan_spec [of sep keep arg 0 0 "[]"] lst
    by (auto simp: split_count_def spec Let_def)
qed

lemma split_fill_0 [simp]: "split_fill sep keep 0 arg = Some []"
  by (subst split_fill.simps) simp

lemma split_fill_Suc:
  "split_fill sep keep (Suc n) arg =
     (let tok = takeWhile (\<lambda>c. c \<noteq> sep) arg; rest = tl (dropWhile (\<lambda>c. c \<noteq> sep) arg)
      in if tok = [] \<and> \<not> keep then split_fill sep keep (Suc n) rest
         else Option.bind (split_fill sep keep n rest) (\<lambda>toks. Some (tok # toks)))"
  by (subst split_fill.simps) (simp add: Let_def)

lemma split_fill_spec:
  "n = length (split_spec sep keep arg) \<Longrightarrow> split_fill sep keep n arg = Some (split_spec sep keep arg)"
proof (induction "length arg" arbitrary: arg n rule: less_induct)
  case less
  let ?tok = "takeWhile (\<lambda>c. c \<noteq> sep) arg" and ?dw = "dropWhile (\<lambda>c. c \<noteq> sep) arg"
  have step: "split_spec sep keep arg = (if keep \<or> ?tok \<noteq> [] then [?tok] else []) @
      (if ?dw = [] then [] else split_spec sep keep (tl ?dw))"
    by (simp only: split_spec_def split_at_step [of sep arg] filter.simps append.simps split: if_split) auto
  have rest: "split_fill sep keep m (tl ?dw) = Some (split_spec sep keep (tl ?dw))"
    if "?dw \<noteq> []" "m = length (split_spec sep keep (tl ?dw))" for m
  proof (rule less.hyps [OF _ that(2)])
    show "length (tl ?dw) < length arg"
      using that(1) length_dropWhile_le [of "\<lambda>c. c \<noteq> sep" arg] by (cases ?dw) auto
  qed
  show ?case
  proof (cases n)
    case 0
    with less.prems show ?thesis by simp
  next
    case (Suc k)
    note fill = split_fill_Suc [of sep keep k arg]
    show ?thesis
    proof (cases "keep \<or> ?tok \<noteq> []")
      case True
      have "split_fill sep keep k (tl ?dw) = Some (if ?dw = [] then [] else split_spec sep keep (tl ?dw))"
      proof (cases "?dw = []")
        case nil: True
        with less.prems Suc step True have "k = 0" by (simp del: dropWhile_eq_Nil_conv)
        with nil show ?thesis by (simp del: dropWhile_eq_Nil_conv)
      next
        case ne: False
        with less.prems Suc step True have "k = length (split_spec sep keep (tl ?dw))"
          by (simp del: dropWhile_eq_Nil_conv)
        from rest [OF ne this] ne show ?thesis by (simp del: dropWhile_eq_Nil_conv)
      qed
      then have "split_fill sep keep n arg =
          Some (?tok # (if ?dw = [] then [] else split_spec sep keep (tl ?dw)))"
        unfolding Suc fill Let_def using True by auto
      with True show ?thesis unfolding step by auto
    next
      case False
      with less.prems Suc step have "?dw \<noteq> []" "n = length (split_spec sep keep (tl ?dw))"
        by (auto split: if_splits)
      moreover from this(2) have "split_fill sep keep n (tl ?dw) = Some (split_spec sep keep (tl ?dw))"
        using rest \<open>?dw \<noteq> []\<close> by blast
      ultimately show ?thesis
        unfolding step using False fill [unfolded Let_def] Suc by auto
    qed
  qed
qed

lemma split_at_sep_free: "t \<in> set (split_at sep acc arg) \<Longrightarrow> sep \<notin> set acc \<Longrightarrow> sep \<notin> set t"
  by (induction sep acc arg rule: split_at.induct) (auto split: if_splits)

lemma split_spec_sep_free: "t \<in> set (split_spec sep keep arg) \<Longrightarrow> sep \<notin> set t"
  using split_at_sep_free [of t sep "[]" arg] by (simp add: split_spec_def)

section \<open>Splitting a command line\<close>

datatype quote_status = UNQUOTED | DOUBLE_QUOTED | SINGLE_QUOTED

abbreviation dquote :: char where "dquote \<equiv> CHR 0x22"
abbreviation squote :: char where "squote \<equiv> CHR 0x27"
abbreviation backslash :: char where "backslash \<equiv> CHR 0x5C"
abbreviation tab_char :: char where "tab_char \<equiv> CHR 0x09"

text \<open>
  First pass. An unquoted backslash at the end of the string is an error, and so are open quotes.
\<close>

fun cmd_scan :: "quote_status \<Rightarrow> string \<Rightarrow> nat \<times> nat \<times> nat \<Rightarrow> (quote_status \<times> nat \<times> nat \<times> nat) option" where
  "cmd_scan q [] (num, sz, len) = Some (q, num, sz, len)"
| "cmd_scan q (c # cs) (num, sz, len) =
     (if c = CHR '' '' \<or> c = tab_char then
        (case q of
           UNQUOTED \<Rightarrow> if len > 0 then cmd_scan q cs (num + 1, sz + (len + 1), 0)
                       else cmd_scan q cs (num, sz, len)
         | _ \<Rightarrow> cmd_scan q cs (num, sz, len + 1))
      else if c = dquote then
        (case q of
           UNQUOTED \<Rightarrow> cmd_scan DOUBLE_QUOTED cs (num, sz, len)
         | DOUBLE_QUOTED \<Rightarrow> cmd_scan UNQUOTED cs (num, sz, len)
         | SINGLE_QUOTED \<Rightarrow> cmd_scan q cs (num, sz, len + 1))
      else if c = squote then
        (case q of
           UNQUOTED \<Rightarrow> cmd_scan SINGLE_QUOTED cs (num, sz, len)
         | DOUBLE_QUOTED \<Rightarrow> cmd_scan q cs (num, sz, len + 1)
         | SINGLE_QUOTED \<Rightarrow> cmd_scan UNQUOTED cs (num, sz, len))
      else if c = backslash then
        (case q of
           UNQUOTED \<Rightarrow> (case cs of [] \<Rightarrow> None | d # ds \<Rightarrow> cmd_scan q ds (num, sz, len + 1))
         | DOUBLE_QUOTED \<Rightarrow>
             (case cs of
                d # ds \<Rightarrow> if d = dquote \<or> d = backslash then cmd_scan q ds (num, sz, len + 1)
                          else cmd_scan q cs (num, sz, len + 1)
              | [] \<Rightarrow> cmd_scan q cs (num, sz, len + 1))
         | SINGLE_QUOTED \<Rightarrow> cmd_scan q cs (num, sz, len + 1))
      else cmd_scan q cs (num, sz, len + 1))"

definition cmd_count :: "string \<Rightarrow> (nat \<times> nat) option" where
  "cmd_count arg =
     (case cmd_scan UNQUOTED arg (0, 0, 0) of
        None \<Rightarrow> None
      | Some (q, num, sz, len) \<Rightarrow>
          if q \<noteq> UNQUOTED then None
          else if len > 0 then Some (num + 1, sz + (len + 1)) else Some (num, sz))"

text \<open>
  Second pass. \<open>ws\<close> are the finished words (latest first) and \<open>w\<close> the characters of the
  word being written (latest first); \<open>None\<close> stands for \<open>in_word = false\<close>.
\<close>

definition cmd_put :: "char \<Rightarrow> string option \<Rightarrow> string option" where
  "cmd_put c w = (case w of None \<Rightarrow> Some [c] | Some s \<Rightarrow> Some (c # s))"

fun cmd_fill :: "quote_status \<Rightarrow> string \<Rightarrow> string list \<Rightarrow> string option \<Rightarrow> string list \<times> string option" where
  "cmd_fill q [] ws w = (ws, w)"
| "cmd_fill q (c # cs) ws w =
     (if c = CHR '' '' \<or> c = tab_char then
        (case q of
           UNQUOTED \<Rightarrow> (case w of Some s \<Rightarrow> cmd_fill q cs (rev s # ws) None | None \<Rightarrow> cmd_fill q cs ws w)
         | _ \<Rightarrow> cmd_fill q cs ws (cmd_put c w))
      else if c = dquote then
        (case q of
           UNQUOTED \<Rightarrow> cmd_fill DOUBLE_QUOTED cs ws w
         | DOUBLE_QUOTED \<Rightarrow> cmd_fill UNQUOTED cs ws w
         | SINGLE_QUOTED \<Rightarrow> cmd_fill q cs ws (cmd_put c w))
      else if c = squote then
        (case q of
           UNQUOTED \<Rightarrow> cmd_fill SINGLE_QUOTED cs ws w
         | DOUBLE_QUOTED \<Rightarrow> cmd_fill q cs ws (cmd_put c w)
         | SINGLE_QUOTED \<Rightarrow> cmd_fill UNQUOTED cs ws w)
      else if c = backslash then
        (case q of
           UNQUOTED \<Rightarrow> (case cs of [] \<Rightarrow> (ws, w) | d # ds \<Rightarrow> cmd_fill q ds ws (cmd_put d w))
         | DOUBLE_QUOTED \<Rightarrow>
             (case cs of
                d # ds \<Rightarrow> if d = dquote \<or> d = backslash then cmd_fill q ds ws (cmd_put d w)
                          else cmd_fill q cs ws (cmd_put c w)
              | [] \<Rightarrow> cmd_fill q cs ws (cmd_put c w))
         | SINGLE_QUOTED \<Rightarrow> cmd_fill q cs ws (cmd_put c w))
      else cmd_fill q cs ws (cmd_put c w))"

definition shl_split_command_string :: "bool \<Rightarrow> string \<Rightarrow> errno + string list \<times> nat" where
  "shl_split_command_string mem arg =
     (case cmd_count arg of
        None \<Rightarrow> Inl EINVAL
      | Some (num, sz) \<Rightarrow>
          if \<not> mem then Inl ENOMEM
          else let (ws, w) = cmd_fill UNQUOTED arg [] None
               in Inr (rev (case w of None \<Rightarrow> ws | Some s \<Rightarrow> rev s # ws), num))"

text \<open>
  The two passes agree at every point: the count is the number of finished words, the size is
  what they take, and a word is open exactly when its length is positive.
\<close>

definition cmd_sync :: "nat \<times> nat \<times> nat \<Rightarrow> string list \<Rightarrow> string option \<Rightarrow> bool" where
  "cmd_sync st ws w \<longleftrightarrow>
     st = (length ws, packed_size ws, case w of None \<Rightarrow> 0 | Some s \<Rightarrow> length s) \<and> w \<noteq> Some []"

lemma cmd_sync_put: "cmd_sync (n, s, l) ws w \<Longrightarrow> cmd_sync (n, s, Suc l) ws (cmd_put c w)"
  by (auto simp: cmd_sync_def cmd_put_def split: option.splits)

lemma cmd_sync_break:
  "cmd_sync (n, s, l) ws (Some v) \<Longrightarrow> 0 < l \<and> cmd_sync (Suc n, Suc (s + l), 0) (rev v # ws) None"
  by (auto simp: cmd_sync_def)

lemma cmd_sync_None: "cmd_sync (n, s, l) ws None \<Longrightarrow> l = 0"
  by (simp add: cmd_sync_def)

lemma cmd_scan_fill:
  "cmd_scan q cs st = Some (q', st') \<Longrightarrow> cmd_sync st ws w \<Longrightarrow>
     cmd_sync st' (fst (cmd_fill q cs ws w)) (snd (cmd_fill q cs ws w))"
proof (induction q cs st arbitrary: ws w rule: cmd_scan.induct)
  case (1 q num sz len)
  then show ?case by simp
next
  case (2 q c cs num sz len)
  note step = cmd_scan.simps(2) [where cs = cs] cmd_fill.simps(2) [where cs = cs]
  consider (space) "c = CHR '' '' \<or> c = tab_char"
    | (dq) "c = dquote" | (sq) "c = squote" | (bs) "c = backslash"
    | (plain) "c \<noteq> CHR '' ''" "c \<noteq> tab_char" "c \<noteq> dquote" "c \<noteq> squote" "c \<noteq> backslash"
    by blast
  then show ?case
  proof cases
    case space
    with 2 show ?thesis
      by (cases q; cases w)
        (auto simp: step cmd_sync_put simp del: cmd_scan.simps cmd_fill.simps
          split: if_splits dest: cmd_sync_break cmd_sync_None)
  next
    case dq
    with 2 show ?thesis
      by (cases q) (auto simp: step cmd_sync_put simp del: cmd_scan.simps cmd_fill.simps)
  next
    case sq
    with 2 show ?thesis
      by (cases q) (auto simp: step cmd_sync_put simp del: cmd_scan.simps cmd_fill.simps)
  next
    case bs
    with 2 show ?thesis
      by (cases q)
        (auto simp: step cmd_sync_put simp del: cmd_scan.simps cmd_fill.simps
          split: if_splits list.splits)
  next
    case plain
    with 2 show ?thesis
      by (simp add: step cmd_sync_put del: cmd_scan.simps cmd_fill.simps)
  qed
qed

section \<open>Properties\<close>

text \<open>
  Splitting a string never fails once memory is there, gives exactly the runs
  between the separators (the empty ones only when they are asked for), in order and free of the
  separator, and the count it returns is the number of entries it wrote: the second pass stays
  inside the allocation that the first one sized.
\<close>

theorem split_string_is_split:
  assumes "sep \<noteq> CHR 0x00"
  shows "\<exists>ts num. shl_split_string True arg sep keep = Some (Inr (ts, num)) \<and>
    ts = split_spec sep keep arg \<and> num = length ts \<and>
    split_count sep keep arg = (num, packed_size ts) \<and> list_all (\<lambda>t. sep \<notin> set t) ts"
  using assms split_count_spec [of sep keep arg] split_fill_spec [OF refl, of sep keep arg]
  by (auto simp: shl_split_string_def list_all_iff dest: split_spec_sep_free)

theorem split_string_is_split_witness:
  "shl_split_string True ''a,,b'' (CHR '','') False = Some (Inr ([''a'', ''b''], 2))"
  using split_string_is_split [of "CHR '',''" "''a,,b''" False] by (auto simp: split_spec_def)

text \<open>
  The two passes over a command line agree: when the line is accepted, the second
  pass writes exactly as many words as the first counted, none of them empty, and they take with
  their terminators exactly the bytes that the first pass reserved.
\<close>

theorem command_words_fill_reservation:
  assumes "cmd_count arg = Some (num, sz)"
  shows "\<exists>ws. shl_split_command_string True arg = Inr (ws, num) \<and> length ws = num \<and>
    packed_size ws = sz"
proof -
  obtain q n s l where sc: "cmd_scan UNQUOTED arg (0, 0, 0) = Some (q, n, s, l)"
    using assms by (cases "cmd_scan UNQUOTED arg (0, 0, 0)") (auto simp: cmd_count_def)
  obtain ws w where f: "cmd_fill UNQUOTED arg [] None = (ws, w)"
    by (cases "cmd_fill UNQUOTED arg [] None")
  have sync: "cmd_sync (n, s, l) ws w"
    using cmd_scan_fill [OF sc, of "[]" None] by (simp add: f cmd_sync_def)
  show ?thesis
    using assms sc sync
    by (auto simp: cmd_count_def shl_split_command_string_def f cmd_sync_def packed_size_rev
             split: option.splits if_splits)
qed

theorem command_words_fill_reservation_witness:
  "shl_split_command_string True ''a b'' = Inr ([''a'', ''b''], 2)"
proof -
  have c: "cmd_count ''a b'' = Some (2, 4)"
    by (simp add: cmd_count_def)
  have "shl_split_command_string True ''a b'' = Inr ([''a'', ''b''], 2)"
    by (simp add: shl_split_command_string_def c cmd_put_def)
  then show ?thesis
    using command_words_fill_reservation [OF c] by simp
qed

end
