(* ===== verification/Cstring.thy ===== *)
theory Cstring
  imports Prelude
begin

text \<open>
  What the parsers use of the C library: character classes, searching and splitting of byte
  strings, decimal numbers, bounded copies and a regular file that is read in pieces. A byte is a
  \<open>char\<close>, a buffer a \<open>string\<close>; a C string is the part of a buffer before its first zero byte.
\<close>

section \<open>Characters\<close>

definition code :: "char \<Rightarrow> nat" where
  "code c = of_char c"

definition between :: "char \<Rightarrow> char \<Rightarrow> char \<Rightarrow> bool" where
  "between lo hi c \<longleftrightarrow> code lo \<le> code c \<and> code c \<le> code hi"

abbreviation nl :: char where
  "nl \<equiv> CHR 0x0A"

abbreviation nul :: char where
  "nul \<equiv> CHR 0x00"

definition is_digit :: "char \<Rightarrow> bool" where
  "is_digit c \<longleftrightarrow> between CHR ''0'' CHR ''9'' c"

definition is_space :: "char \<Rightarrow> bool" where
  "is_space c \<longleftrightarrow> code c = 32 \<or> (9 \<le> code c \<and> code c \<le> 13)"

definition digit_of :: "char \<Rightarrow> nat" where
  "digit_of c = code c - 48"

lemma is_digit_bounds: "is_digit c \<longleftrightarrow> 48 \<le> code c \<and> code c \<le> 57"
  by (simp add: is_digit_def between_def code_def)

lemma digit_of_less: "is_digit c \<Longrightarrow> digit_of c < 10"
  unfolding is_digit_bounds digit_of_def by linarith

text \<open>The C string at the start of a buffer.\<close>

definition cstr :: "string \<Rightarrow> string" where
  "cstr s = takeWhile (\<lambda>c. c \<noteq> nul) s"

lemma cstr_id: "nul \<notin> set s \<Longrightarrow> cstr s = s"
  unfolding cstr_def by (subst takeWhile_eq_all_conv) blast

lemma cstr_no_nul: "nul \<notin> set (cstr s)"
  unfolding cstr_def using set_takeWhileD by fastforce

section \<open>Splitting\<close>

text \<open>The text before the first \<open>d\<close> and the text behind it, if there is one.\<close>

fun cut :: "char \<Rightarrow> string \<Rightarrow> (string \<times> string) option" where
  "cut d [] = None"
| "cut d (c # cs) = (if c = d then Some ([], cs) else map_option (\<lambda>(a, b). (c # a, b)) (cut d cs))"

lemma cut_Some: "cut d s = Some (a, b) \<longleftrightarrow> s = a @ d # b \<and> d \<notin> set a"
proof (induction s arbitrary: a)
  case (Cons c cs)
  then show ?case by (cases a) auto
qed simp

lemma cut_None: "cut d s = None \<longleftrightarrow> d \<notin> set s"
  by (induction s) auto

lemma cut_append [simp]: "d \<notin> set a \<Longrightarrow> cut d (a @ d # b) = Some (a, b)"
  by (simp add: cut_Some)

text \<open>What \<open>strtok_r\<close> with one delimiter returns call after call: the non-empty pieces.\<close>

fun strtok :: "char \<Rightarrow> string \<Rightarrow> string \<Rightarrow> string list" where
  "strtok d acc [] = (if acc = [] then [] else [acc])"
| "strtok d acc (c # cs) =
     (if c = d then (if acc = [] then strtok d [] cs else acc # strtok d [] cs)
      else strtok d (acc @ [c]) cs)"

lemma strtok_token: "d \<notin> set a \<Longrightarrow> strtok d acc (a @ d # b) =
    (if acc @ a = [] then strtok d [] b else (acc @ a) # strtok d [] b)"
  by (induction a arbitrary: acc) auto

lemma strtok_lines:
  "\<forall>l\<in>set ls. l \<noteq> [] \<and> d \<notin> set l \<Longrightarrow> strtok d [] (concat (map (\<lambda>l. l @ [d]) ls)) = ls"
  by (induction ls) (simp_all add: strtok_token [where acc = "[]", simplified])

lemma strtok_set: "d \<notin> set acc \<Longrightarrow> t \<in> set (strtok d acc s) \<Longrightarrow> t \<noteq> [] \<and> d \<notin> set t"
  by (induction d acc s rule: strtok.induct) (auto split: if_splits)

lemma strtok_chars: "t \<in> set (strtok d acc s) \<Longrightarrow> set t \<subseteq> set acc \<union> set s"
  by (induction d acc s rule: strtok.induct) (auto split: if_splits)

section \<open>Decimal numbers\<close>

text \<open>\<open>dec\<close> is \<open>printf\<close> of an unsigned number.\<close>

definition digit_char :: "nat \<Rightarrow> char" where
  "digit_char n = char_of (48 + n)"

fun dec :: "nat \<Rightarrow> string" where
  "dec n = (if n < 10 then [digit_char n] else dec (n div 10) @ [digit_char (n mod 10)])"

declare dec.simps [simp del]

definition undec :: "string \<Rightarrow> nat" where
  "undec s = foldl (\<lambda>n c. n * 10 + digit_of c) 0 s"

lemma code_digit_char: "n < 10 \<Longrightarrow> code (digit_char n) = 48 + n"
  by (simp add: code_def digit_char_def)

lemma digit_char [simp]: "n < 10 \<Longrightarrow> digit_of (digit_char n) = n" "n < 10 \<Longrightarrow> is_digit (digit_char n)"
  by (simp_all add: digit_of_def is_digit_bounds code_digit_char)

lemma undec_snoc: "undec (s @ [c]) = undec s * 10 + digit_of c"
  by (simp add: undec_def)

lemma undec_dec [simp]: "undec (dec n) = n"
proof (induction n rule: dec.induct)
  case (1 n)
  then show ?case
    by (subst dec.simps) (simp add: undec_snoc, simp add: undec_def)
qed

lemma dec_digits: "c \<in> set (dec n) \<Longrightarrow> is_digit c"
proof (induction n rule: dec.induct)
  case (1 n)
  then show ?case by (subst (asm) (2) dec.simps) (auto split: if_splits)
qed

lemma dec_not_Nil [simp]: "dec n \<noteq> []"
  by (subst dec.simps) simp

lemma length_dec: "n < 10 ^ k \<Longrightarrow> 0 < k \<Longrightarrow> length (dec n) \<le> k"
proof (induction n arbitrary: k rule: dec.induct)
  case (1 n)
  show ?case
  proof (cases "n < 10")
    case True
    then show ?thesis using 1(3) by (subst dec.simps) simp
  next
    case False
    then obtain j where k: "k = Suc j" "0 < j" using 1(2,3) by (cases k; cases "k - 1") auto
    then have "n div 10 < 10 ^ j" using 1(2) by (simp add: less_mult_imp_div_less mult.commute)
    then have "length (dec (n div 10)) \<le> j" using 1(1) False k(2) by blast
    then show ?thesis using False k(1) by (subst dec.simps) simp
  qed
qed

lemma undec_less: "(\<forall>c\<in>set s. is_digit c) \<Longrightarrow> undec s < 10 ^ length s"
proof (induction s rule: rev_induct)
  case (snoc c s)
  then show ?case using digit_of_less [of c] by (auto simp: undec_snoc)
qed (simp add: undec_def)

section \<open>Bounded copies\<close>

text \<open>\<open>strncpy (dst, src, n)\<close> into a zeroed buffer of \<open>n + 1\<close> bytes, and \<open>snprintf\<close> with a capacity.\<close>

definition strncpy :: "nat \<Rightarrow> string \<Rightarrow> string" where
  "strncpy n s = take n s"

definition snprintf :: "nat \<Rightarrow> string \<Rightarrow> string" where
  "snprintf cap s = take (cap - 1) s"

lemma strncpy_id: "length s \<le> n \<Longrightarrow> strncpy n s = s"
  by (simp add: strncpy_def)

lemma snprintf_id: "length s < cap \<Longrightarrow> snprintf cap s = s"
  by (simp add: snprintf_def)

lemma length_snprintf: "0 < cap \<Longrightarrow> length (snprintf cap s) < cap"
  unfolding snprintf_def by auto

text \<open>The part before the last \<open>d\<close> and the part behind it.\<close>

definition rcut :: "char \<Rightarrow> string \<Rightarrow> (string \<times> string) option" where
  "rcut d s = map_option (\<lambda>(a, b). (rev b, rev a)) (cut d (rev s))"

lemma rcut_Some: "rcut d s = Some (a, b) \<longleftrightarrow> s = a @ d # b \<and> d \<notin> set b"
proof -
  have "rcut d s = Some (a, b) \<longleftrightarrow> cut d (rev s) = Some (rev b, rev a)"
    unfolding rcut_def by (cases "cut d (rev s)") (auto simp: rev_swap)
  also have "\<dots> \<longleftrightarrow> rev s = rev b @ d # rev a \<and> d \<notin> set b"
    by (simp add: cut_Some)
  also have "rev s = rev b @ d # rev a \<longleftrightarrow> s = a @ d # b"
    by (metis append.assoc append_Cons append_Nil rev.simps(2) rev_append rev_rev_ident)
  finally show ?thesis .
qed

section \<open>Reading a regular file\<close>

record file_stat =
  st_reg :: bool
  st_nlink :: nat
  st_uid :: nat
  st_size :: int
  st_mode :: u32

text \<open>
  An opened file: whether it could be opened, what \<open>fstat\<close> says, and what \<open>read\<close> at an offset
  returns for a number of wanted bytes (\<open>None\<close> for an error, \<open>[]\<close> at the end).
\<close>

record file_io =
  io_open :: bool
  io_stat :: "file_stat option"
  io_read :: "nat \<Rightarrow> nat \<Rightarrow> string option"

text \<open>The loop that reads until \<open>amount\<close> bytes are there.\<close>

function read_full :: "file_io \<Rightarrow> nat \<Rightarrow> string \<Rightarrow> string option" where
  "read_full io amount acc =
     (if length acc < amount
      then (case io_read io (length acc) (amount - length acc) of
              None \<Rightarrow> None
            | Some bs \<Rightarrow> if bs = [] then None else read_full io amount (acc @ bs))
      else Some acc)"
  by pat_completeness auto
termination
  by (relation "measure (\<lambda>(io, amount, acc). amount - length acc)")
    (auto intro!: diff_less_mono2 simp flip: length_greater_0_conv)

declare read_full.simps [simp del]

text \<open>
  A file with contents \<open>bs\<close>: a read returns a piece of what is left, never more than wanted and
  nothing only at the end; how much it returns at once is up to the kernel.
\<close>

definition serves :: "file_io \<Rightarrow> string \<Rightarrow> bool" where
  "serves io bs \<longleftrightarrow> (\<forall>off want. 0 < want \<longrightarrow>
     (\<exists>n. n \<le> want \<and> (off < length bs \<longrightarrow> 0 < n) \<and> io_read io off want = Some (take n (drop off bs))))"

lemma read_full_serves:
  "serves io bs \<Longrightarrow> amount \<le> length bs \<Longrightarrow> acc = take k bs \<Longrightarrow> k \<le> amount \<Longrightarrow>
     read_full io amount acc = Some (take amount bs)"
proof (induction io amount acc arbitrary: k rule: read_full.induct)
  case (1 io amount acc)
  have len: "length acc = k" using "1.prems" by simp
  show ?case
  proof (cases "k < amount")
    case True
    then obtain n where n: "n \<le> amount - k" "0 < n" "io_read io k (amount - k) = Some (take n (drop k bs))"
      using "1.prems"(1,2) unfolding serves_def by (metis less_le_trans zero_less_diff)
    have ne: "take n (drop k bs) \<noteq> []" using n(2) True "1.prems"(2) by simp
    have "acc @ take n (drop k bs) = take (k + n) bs" using "1.prems"(3) by (simp add: take_add)
    then have "read_full io amount (acc @ take n (drop k bs)) = Some (take amount bs)"
      using "1.IH" [of "take n (drop k bs)" "k + n"] n ne len True "1.prems" by simp
    then show ?thesis using True len n(3) ne by (subst read_full.simps) simp
  next
    case False
    then have "k = amount" using "1.prems"(4) by simp
    then show ?thesis using len "1.prems"(3) by (subst read_full.simps) simp
  qed
qed

text \<open>Whether \<open>strstr\<close> finds the second string.\<close>

fun strstr :: "string \<Rightarrow> string \<Rightarrow> bool" where
  "strstr [] needle \<longleftrightarrow> needle = []"
| "strstr (c # cs) needle \<longleftrightarrow> take (length needle) (c # cs) = needle \<or> strstr cs needle"

end
