(* ===== verification/Text.thy ===== *)
theory Text
  imports Cstring
begin

text \<open>
  The text renderer front end, \<open>src/render/text.c\<close> and \<open>src/render/text.h\<close>: the
  renderer object, its life cycle (new, set, unset, rotate, resize), the rendering round
  (prepare, draw, draw pointer, render or abort) and the status strings of the faceplate chrome.

  The backend is a vtable \<open>text_ops\<close> of functions on the object; an entry that the code
  allows to be \<open>NULL\<close> is an option. The terminal cells, the cursor and the enumerators of
  libtsm, which is not part of the repository, come as arguments (\<open>tsm_abi\<close>,
  \<open>tsm_console\<close>).
\<close>

section \<open>Data\<close>

datatype orientation = OR_NORMAL | OR_RIGHT | OR_UPSIDE_DOWN | OR_LEFT

text \<open>The enumerators have the values 0 to 3.\<close>

fun orientation_num :: "orientation \<Rightarrow> nat" where
  "orientation_num OR_NORMAL = 0"
| "orientation_num OR_RIGHT = 1"
| "orientation_num OR_UPSIDE_DOWN = 2"
| "orientation_num OR_LEFT = 3"

definition orientation_of_num :: "nat \<Rightarrow> orientation" where
  "orientation_of_num n =
     (if n = 0 then OR_NORMAL else if n = 1 then OR_RIGHT else if n = 2 then OR_UPSIDE_DOWN
      else OR_LEFT)"

abbreviation upright :: "orientation \<Rightarrow> bool" where
  "upright r \<equiv> r = OR_NORMAL \<or> r = OR_UPSIDE_DOWN"

lemma orientation_of_num_num [simp]: "orientation_of_num (orientation_num r) = r"
  by (cases r) (simp_all add: orientation_of_num_def)

record kmscon_font =
  attr_width :: u32
  attr_height :: u32
  increase_step :: u32

record rgb =
  col_r :: u8
  col_g :: u8
  col_b :: u8

record tsm_screen_cell =
  cell_ch :: u32
  cell_fg :: rgb
  cell_bg :: rgb
  cell_attr2 :: u8

text \<open>What the code reads from libtsm's headers: the bits of \<open>attr2\<close> and the cursor styles.\<close>

record tsm_abi =
  bit_bold :: "u8 \<Rightarrow> bool"
  bit_italic :: "u8 \<Rightarrow> bool"
  bit_underline :: "u8 \<Rightarrow> bool"
  bit_blink :: "u8 \<Rightarrow> bool"
  put_underline :: "bool \<Rightarrow> u8"
  style_default :: nat
  style_block_blink :: nat
  style_block_steady :: nat
  style_underline_blink :: nat
  style_underline_steady :: nat
  style_vbar_blink :: nat
  style_vbar_steady :: nat

text \<open>The default attributes of the emulation: the two colours, and the other bytes.\<close>

record tsm_screen_attr =
  sa_fg :: rgb
  sa_bg :: rgb
  sa_rest :: "u8 list"

record tsm_console =
  con_def_attr :: tsm_screen_attr
  con_cells :: "tsm_screen_cell list"
  con_cursor_x :: u32
  con_cursor_y :: u32
  con_style :: nat
  con_hide_cursor :: bool

record kmscon_cursor =
  cur_cell :: tsm_screen_cell
  cur_x :: u32
  cur_y :: u32
  cur_visible :: bool

record video_buffer =
  vb_width :: u32
  vb_height :: u32
  vb_data :: "u8 list"

abbreviation FONT_VBAR :: u32 where
  "FONT_VBAR \<equiv> 0x258e"

record 'd kmscon_text =
  txt_ref :: nat
  txt_data :: 'd
  txt_font :: "kmscon_font option"
  txt_disp :: "nat option"
  txt_cols :: u32
  txt_rows :: u32
  txt_max_cols :: u32
  txt_max_rows :: u32
  txt_rendering :: bool
  txt_orientation :: orientation
  txt_blinking :: bool
  status_line :: string
  status_visible :: bool
  detail_line :: string
  chrome_title :: string
  chrome_context :: string
  chrome_logo :: "video_buffer option"
  chrome_idle :: bool
  identity_hostname :: string
  identity_status :: string
  identity_supporting :: string
  identity_secondary :: string
  identity_compact :: string
  connection_alert :: bool
  rauc_alert :: bool

record 'd text_ops =
  op_init :: "('d kmscon_text \<Rightarrow> status \<times> 'd kmscon_text) option"
  op_destroy :: "('d kmscon_text \<Rightarrow> 'd kmscon_text) option"
  op_set :: "('d kmscon_text \<Rightarrow> status \<times> 'd kmscon_text) option"
  op_unset :: "('d kmscon_text \<Rightarrow> 'd kmscon_text) option"
  op_resize :: "('d kmscon_text \<Rightarrow> u32 \<Rightarrow> u32 \<Rightarrow> 'd kmscon_text) option"
  op_rotate :: "('d kmscon_text \<Rightarrow> orientation \<Rightarrow> status \<times> 'd kmscon_text) option"
  op_prepare :: "('d kmscon_text \<Rightarrow> tsm_screen_attr \<Rightarrow> status \<times> 'd kmscon_text) option"
  op_draw :: "'d kmscon_text \<Rightarrow> tsm_screen_cell list \<Rightarrow> kmscon_cursor \<Rightarrow> status \<times> 'd kmscon_text"
  op_draw_status :: "('d kmscon_text \<Rightarrow> string \<Rightarrow> status \<times> 'd kmscon_text) option"
  op_draw_pointer :: "('d kmscon_text \<Rightarrow> u32 \<Rightarrow> u32 \<Rightarrow> status \<times> 'd kmscon_text) option"
  op_render :: "('d kmscon_text \<Rightarrow> status \<times> 'd kmscon_text) option"
  op_abort :: "('d kmscon_text \<Rightarrow> 'd kmscon_text) option"

section \<open>Life cycle\<close>

text \<open>\<open>strncmp(s, t, n) == 0\<close> on strings without a zero byte.\<close>

definition strncmp_eq :: "string \<Rightarrow> string \<Rightarrow> nat \<Rightarrow> bool" where
  "strncmp_eq s t n \<longleftrightarrow> take n s = take n t"

definition text_orientation_arg :: "string option \<Rightarrow> orientation" where
  "text_orientation_arg rot =
     (case rot of
        None \<Rightarrow> OR_NORMAL
      | Some r \<Rightarrow>
          if strncmp_eq r ''normal'' 6 then OR_NORMAL
          else if strncmp_eq r ''right'' 5 then OR_RIGHT
          else if strncmp_eq r ''upside-down'' 8 then OR_UPSIDE_DOWN
          else if strncmp_eq r ''left'' 4 then OR_LEFT
          else OR_NORMAL)"

text \<open>The object after \<open>memset\<close> to zero, with the fields that \<open>new_text\<close> sets.\<close>

definition text_zero :: "'d \<Rightarrow> orientation \<Rightarrow> 'd kmscon_text" where
  "text_zero d r =
     \<lparr>txt_ref = 1, txt_data = d, txt_font = None, txt_disp = None, txt_cols = 0, txt_rows = 0,
      txt_max_cols = 0, txt_max_rows = 0, txt_rendering = False, txt_orientation = r,
      txt_blinking = False, status_line = '''', status_visible = False, detail_line = '''',
      chrome_title = '''', chrome_context = '''', chrome_logo = None, chrome_idle = False,
      identity_hostname = '''', identity_status = '''', identity_supporting = '''',
      identity_secondary = '''', identity_compact = '''', connection_alert = False,
      rauc_alert = False\<rparr>"

text \<open>
  \<open>lookup\<close> is the lookup in the backend register: \<open>lookup (Some name)\<close> is
  \<open>shl_register_find\<close>, \<open>lookup None\<close> is \<open>shl_register_first\<close>.
\<close>

definition new_text :: "(string option \<Rightarrow> 'd text_ops option) \<Rightarrow> 'd \<Rightarrow> string option \<Rightarrow> orientation \<Rightarrow>
    errno + 'd text_ops \<times> 'd kmscon_text" where
  "new_text lookup d backend r =
     (case lookup backend of
        None \<Rightarrow> Inl ENOENT
      | Some ops \<Rightarrow>
          (case op_init ops of
             None \<Rightarrow> Inr (ops, text_zero d r)
           | Some init \<Rightarrow>
               (case init (text_zero d r) of
                  (None, txt) \<Rightarrow> Inr (ops, txt)
                | (Some e, txt) \<Rightarrow> Inl e)))"

definition kmscon_text_new :: "(string option \<Rightarrow> 'd text_ops option) \<Rightarrow> 'd \<Rightarrow> bool \<Rightarrow>
    string option \<Rightarrow> string option \<Rightarrow> errno + 'd text_ops \<times> 'd kmscon_text" where
  "kmscon_text_new lookup d mem backend rot =
     (if \<not> mem then Inl ENOMEM
      else let r = text_orientation_arg rot in
        (case new_text lookup d backend r of
           Inr t \<Rightarrow> Inr t
         | Inl e \<Rightarrow> if backend \<noteq> None then new_text lookup d None r else Inl e))"

definition kmscon_text_unset :: "'d text_ops \<Rightarrow> 'd kmscon_text \<Rightarrow> 'd kmscon_text" where
  "kmscon_text_unset ops txt =
     (if txt_disp txt = None \<or> txt_font txt = None then txt
      else let txt = (case op_unset ops of None \<Rightarrow> txt | Some f \<Rightarrow> f txt)
           in txt\<lparr>txt_font := None, txt_disp := None, txt_cols := 0, txt_rows := 0,
                  txt_rendering := False\<rparr>)"

definition kmscon_text_set :: "'d text_ops \<Rightarrow> 'd kmscon_text \<Rightarrow> kmscon_font \<Rightarrow> nat \<Rightarrow>
    status \<times> 'd kmscon_text" where
  "kmscon_text_set ops txt font disp =
     (let txt = (kmscon_text_unset ops txt)\<lparr>txt_font := Some font, txt_disp := Some disp\<rparr>
      in case op_set ops of
           None \<Rightarrow> (ok, txt)
         | Some f \<Rightarrow>
             (case f txt of
                (None, txt') \<Rightarrow> (ok, txt')
              | (Some e, txt') \<Rightarrow> (fails e, txt'\<lparr>txt_font := None, txt_disp := None\<rparr>)))"

definition kmscon_text_ref :: "'d kmscon_text \<Rightarrow> 'd kmscon_text" where
  "kmscon_text_ref txt = (if txt_ref txt = 0 then txt else txt\<lparr>txt_ref := txt_ref txt + 1\<rparr>)"

text \<open>The result is \<open>None\<close> when the object is freed.\<close>

definition kmscon_text_unref :: "'d text_ops \<Rightarrow> 'd kmscon_text \<Rightarrow> 'd kmscon_text option" where
  "kmscon_text_unref ops txt =
     (if txt_ref txt = 0 then Some txt
      else let txt = txt\<lparr>txt_ref := txt_ref txt - 1\<rparr> in
        if txt_ref txt \<noteq> 0 then Some txt else None)"

definition kmscon_text_resize :: "'d text_ops \<Rightarrow> 'd kmscon_text \<Rightarrow> u32 \<Rightarrow> u32 \<Rightarrow> 'd kmscon_text" where
  "kmscon_text_resize ops txt cols rows =
     (if cols = 0 \<or> cols > txt_max_cols txt \<or> rows = 0 \<or> rows > txt_max_rows txt then txt
      else case op_resize ops of None \<Rightarrow> txt | Some f \<Rightarrow> f txt cols rows)"

definition kmscon_text_get_cols :: "'d kmscon_text \<Rightarrow> u32" where
  "kmscon_text_get_cols txt = txt_max_cols txt"

definition kmscon_text_get_rows :: "'d kmscon_text \<Rightarrow> u32" where
  "kmscon_text_get_rows txt = txt_max_rows txt"

definition kmscon_text_get_orientation :: "'d kmscon_text option \<Rightarrow> orientation" where
  "kmscon_text_get_orientation txt = (case txt of None \<Rightarrow> OR_NORMAL | Some t \<Rightarrow> txt_orientation t)"

definition kmscon_text_rotate :: "'d text_ops \<Rightarrow> 'd kmscon_text \<Rightarrow> orientation \<Rightarrow>
    status \<times> 'd kmscon_text" where
  "kmscon_text_rotate ops txt r = (case op_rotate ops of None \<Rightarrow> (ok, txt) | Some f \<Rightarrow> f txt r)"

section \<open>The rendering round\<close>

definition kmscon_text_prepare :: "'d text_ops \<Rightarrow> 'd kmscon_text \<Rightarrow> tsm_screen_attr \<Rightarrow> bool \<Rightarrow> status \<times> 'd kmscon_text" where
  "kmscon_text_prepare ops txt attr blinking =
     (if txt_font txt = None \<or> txt_disp txt = None then (fails EINVAL, txt)
      else let txt = txt\<lparr>txt_rendering := True, txt_blinking := blinking\<rparr> in
        (case op_prepare ops of
           None \<Rightarrow> (ok, txt)
         | Some f \<Rightarrow>
             (case f txt attr of
                (None, txt') \<Rightarrow> (ok, txt')
              | (Some e, txt') \<Rightarrow> (fails e, txt'\<lparr>txt_rendering := False\<rparr>))))"

definition is_cursor_blinking :: "nat \<Rightarrow> bool" where
  "is_cursor_blinking style \<longleftrightarrow> style = 0 \<or> odd style"

definition is_underline :: "tsm_abi \<Rightarrow> nat \<Rightarrow> bool" where
  "is_underline abi style \<longleftrightarrow> style = style_underline_blink abi \<or> style = style_underline_steady abi"

definition is_block :: "tsm_abi \<Rightarrow> nat \<Rightarrow> bool" where
  "is_block abi style \<longleftrightarrow>
     style = style_default abi \<or> style = style_block_blink abi \<or> style = style_block_steady abi"

definition is_vbar :: "tsm_abi \<Rightarrow> nat \<Rightarrow> bool" where
  "is_vbar abi style \<longleftrightarrow> style = style_vbar_blink abi \<or> style = style_vbar_steady abi"

definition cell_zero :: tsm_screen_cell where
  "cell_zero = \<lparr>cell_ch = 0, cell_fg = \<lparr>col_r = 0, col_g = 0, col_b = 0\<rparr>,
                cell_bg = \<lparr>col_r = 0, col_g = 0, col_b = 0\<rparr>, cell_attr2 = 0\<rparr>"

text \<open>
  The cursor handed to the backend: \<open>cells[offset]\<close> is read only when the cursor lies
  inside the \<open>cols\<close> by \<open>rows\<close> grid. \<open>cell_attr2\<close> of the cursor is zero but for
  the underline bit.
\<close>

definition text_cursor :: "tsm_abi \<Rightarrow> 'd kmscon_text \<Rightarrow> tsm_console \<Rightarrow> bool \<Rightarrow> kmscon_cursor" where
  "text_cursor abi txt con cursor_blink =
     (let x = con_cursor_x con; y = con_cursor_y con; style = con_style con;
          cursor = \<lparr>cur_cell = cell_zero, cur_x = x, cur_y = y, cur_visible = False\<rparr>
      in if \<not> (x < txt_cols txt \<and> y < txt_rows txt) then cursor
         else
           let c = con_cells con ! unat (x + y * txt_cols txt);
               shown = \<not> con_hide_cursor con;
               shown = (if is_cursor_blinking style then shown \<and> \<not> cursor_blink else shown);
               cell = cell_zero\<lparr>cell_fg := cell_fg c, cell_bg := cell_bg c\<rparr>;
               cell = (if is_underline abi style
                       then cell\<lparr>cell_attr2 := put_underline abi (\<not> bit_underline abi (cell_attr2 c)),
                                 cell_ch := cell_ch c\<rparr>
                       else if is_block abi style
                       then cell\<lparr>cell_fg := cell_bg c, cell_bg := cell_fg c, cell_ch := cell_ch c\<rparr>
                       else if is_vbar abi style then cell\<lparr>cell_ch := FONT_VBAR\<rparr>
                       else cell)
           in cursor\<lparr>cur_cell := cell, cur_visible := shown\<rparr>)"

definition kmscon_text_draw :: "'d text_ops \<Rightarrow> tsm_abi \<Rightarrow> 'd kmscon_text \<Rightarrow> tsm_console \<Rightarrow> bool \<Rightarrow>
    status \<times> 'd kmscon_text" where
  "kmscon_text_draw ops abi txt con cursor_blink =
     (case op_draw ops txt (con_cells con) (text_cursor abi txt con cursor_blink) of
        (Some e, txt') \<Rightarrow> (fails e, txt')
      | (None, txt') \<Rightarrow>
          (case op_draw_status ops of
             None \<Rightarrow> (ok, txt')
           | Some f \<Rightarrow> f txt' (if status_visible txt' then status_line txt' else '''')))"

definition kmscon_text_draw_pointer :: "'d text_ops \<Rightarrow> 'd kmscon_text \<Rightarrow> u32 \<Rightarrow> u32 \<Rightarrow>
    status \<times> 'd kmscon_text" where
  "kmscon_text_draw_pointer ops txt x y =
     (case op_draw_pointer ops of
        None \<Rightarrow> (fails EINVAL, txt)
      | Some f \<Rightarrow> if \<not> txt_rendering txt then (fails EINVAL, txt) else f txt x y)"

definition kmscon_text_render :: "'d text_ops \<Rightarrow> 'd kmscon_text \<Rightarrow> status \<times> 'd kmscon_text" where
  "kmscon_text_render ops txt =
     (if \<not> txt_rendering txt then (fails EINVAL, txt)
      else let (ret, txt) = (case op_render ops of None \<Rightarrow> (ok, txt) | Some f \<Rightarrow> f txt)
           in (ret, txt\<lparr>txt_rendering := False\<rparr>))"

definition kmscon_text_abort :: "'d text_ops \<Rightarrow> 'd kmscon_text \<Rightarrow> 'd kmscon_text" where
  "kmscon_text_abort ops txt =
     (if \<not> txt_rendering txt then txt
      else (case op_abort ops of None \<Rightarrow> txt | Some f \<Rightarrow> f txt)\<lparr>txt_rendering := False\<rparr>)"

section \<open>Status strings of the chrome\<close>

text \<open>\<open>strncpy(dst, src, sizeof(dst) - 1)\<close> followed by the terminating zero.\<close>

definition copy_str :: "nat \<Rightarrow> string \<Rightarrow> string" where
  "copy_str n s = take (n - 1) s"

definition kmscon_text_set_status :: "'d kmscon_text \<Rightarrow> string option \<Rightarrow> 'd kmscon_text" where
  "kmscon_text_set_status txt line =
     (case line of
        None \<Rightarrow> txt\<lparr>status_line := '''', status_visible := False\<rparr>
      | Some l \<Rightarrow>
          if l = '''' then txt\<lparr>status_line := '''', status_visible := False\<rparr>
          else txt\<lparr>status_line := copy_str 160 l, status_visible := True\<rparr>)"

definition kmscon_text_set_chrome_idle :: "'d kmscon_text \<Rightarrow> bool \<Rightarrow> 'd kmscon_text" where
  "kmscon_text_set_chrome_idle txt idle = txt\<lparr>chrome_idle := idle\<rparr>"

definition kmscon_text_set_detail :: "'d kmscon_text \<Rightarrow> string option \<Rightarrow> 'd kmscon_text" where
  "kmscon_text_set_detail txt line =
     txt\<lparr>detail_line := copy_str 192 (case line of None \<Rightarrow> '''' | Some l \<Rightarrow> l)\<rparr>"

definition or_empty :: "string option \<Rightarrow> string" where
  "or_empty s = (case s of None \<Rightarrow> '''' | Some s \<Rightarrow> s)"

definition kmscon_text_set_identity :: "'d kmscon_text \<Rightarrow> string option \<Rightarrow> string option \<Rightarrow>
    video_buffer option \<Rightarrow> 'd kmscon_text" where
  "kmscon_text_set_identity txt title context logo =
     txt\<lparr>chrome_title := copy_str 64 (if or_empty title \<noteq> '''' then or_empty title else ''FACEPLATE''),
         chrome_context :=
           copy_str 96 (if or_empty context \<noteq> '''' then or_empty context else ''LOCAL DEVICE CONSOLE''),
         chrome_logo := logo, chrome_idle := True\<rparr>"

definition kmscon_text_set_faceplate_status :: "'d kmscon_text \<Rightarrow> string option \<Rightarrow> string option \<Rightarrow>
    string option \<Rightarrow> string option \<Rightarrow> string option \<Rightarrow> bool \<Rightarrow> bool \<Rightarrow> 'd kmscon_text" where
  "kmscon_text_set_faceplate_status txt hostname status supporting secondary compact calert ralert =
     kmscon_text_set_status
       (txt\<lparr>identity_hostname := copy_str 64 (or_empty hostname),
            identity_status := copy_str 24 (or_empty status),
            identity_supporting := copy_str 160 (or_empty supporting),
            identity_secondary := copy_str 160 (or_empty secondary),
            identity_compact := copy_str 160 (or_empty compact),
            connection_alert := calert, rauc_alert := ralert,
            detail_line := copy_str 192 (or_empty hostname)\<rparr>)
       (if or_empty compact \<noteq> '''' then compact else supporting)"

section \<open>The logo\<close>

record png_image =
  png_width :: nat
  png_height :: nat
  png_rgba :: "nat list"

text \<open>
  The bytes of a pixel are numbers below 256. \<open>(r + g + b) / 3 * a / 255\<close>, cast to eight bits.
\<close>

definition logo_alpha :: "nat \<Rightarrow> nat \<Rightarrow> nat \<Rightarrow> nat \<Rightarrow> u8" where
  "logo_alpha r g b a = of_nat (((r + g + b) div 3) * a div 255)"

definition logo_file_ok :: "file_stat \<Rightarrow> bool" where
  "logo_file_ok st \<longleftrightarrow>
     st_reg st \<and> st_nlink st = 1 \<and> st_uid st = 0 \<and>
     and (st_mode st) 0x12 = 0 \<and>
     0 < st_size st \<and> st_size st \<le> 1024 * 1024"

text \<open>
  \<open>file\<close> is what opening the path without following links and \<open>fstat\<close> gave, with the
  image that libpng decodes from it, if it does.
\<close>

definition load_logo :: "string option \<Rightarrow> (file_stat \<times> png_image option) option \<Rightarrow> bool \<Rightarrow> video_buffer option" where
  "load_logo path file mem =
     (case path of
        None \<Rightarrow> None
      | Some p \<Rightarrow>
          if \<not> strncmp_eq p ''/usr/share/faceplate/'' 21 then None
          else (case file of
             None \<Rightarrow> None
           | Some (st, png) \<Rightarrow>
               if \<not> logo_file_ok st then None
               else (case png of
                  None \<Rightarrow> None
                | Some im \<Rightarrow>
                    if png_width im > 512 \<or> png_height im > 96 then None
                    else if \<not> mem then None
                    else Some \<lparr>vb_width = of_nat (png_width im), vb_height = of_nat (png_height im),
                           vb_data = map (\<lambda>i. logo_alpha (png_rgba im ! (i * 4)) (png_rgba im ! (i * 4 + 1))
                               (png_rgba im ! (i * 4 + 2)) (png_rgba im ! (i * 4 + 3)))
                             [0..<png_width im * png_height im]\<rparr>)))"

end
