(* ===== verification/Status.thy ===== *)
theory Status
  imports Cstring
begin

text \<open>
  The connection snapshot, \<open>src/faceplate_status.c\<close>: a file of four lines that a local agent
  publishes. The parser accepts exactly one layout; whatever else the file holds, the result is a
  hidden snapshot with an unknown connection.
\<close>

section \<open>Data\<close>

datatype faceplate_connection = CONNECTED | DISCONNECTED | UNKNOWN

datatype visibility = HIDDEN | FRESH | STALE

record faceplate_status_snapshot =
  ss_visibility :: visibility
  ss_connection :: faceplate_connection
  ss_serial :: string
  ss_updated :: u64

definition hide_status :: faceplate_status_snapshot where
  "hide_status = \<lparr>ss_visibility = HIDDEN, ss_connection = UNKNOWN, ss_serial = '''', ss_updated = 0\<rparr>"

section \<open>Parsing\<close>

definition serial_char :: "char \<Rightarrow> bool" where
  "serial_char c \<longleftrightarrow> between CHR ''A'' CHR ''Z'' c \<or> between CHR ''a'' CHR ''z'' c \<or>
     between CHR ''0'' CHR ''9'' c \<or> c = CHR ''.'' \<or> c = CHR ''_'' \<or> c = CHR '':'' \<or> c = CHR ''/'' \<or> c = CHR ''-''"

definition serial_valid :: "string \<Rightarrow> bool" where
  "serial_valid value = (if value = [] \<or> length value > 64 then False else list_all serial_char value)"

text \<open>The loop of \<open>parse_u64\<close> and its overflow guard.\<close>

fun parse_u64_loop :: "string \<Rightarrow> u64 \<Rightarrow> u64 option" where
  "parse_u64_loop [] result = Some result"
| "parse_u64_loop (c # cs) result =
     (if code c < 48 \<or> code c > 57 then None
      else
        let digit = of_nat (code c - 48)
        in if result > (- 1 - digit) div 10 then None
           else parse_u64_loop cs (result * 10 + digit))"

definition parse_u64 :: "string \<Rightarrow> u64 option" where
  "parse_u64 value = (if value = [] \<or> length value > 20 then None else parse_u64_loop value 0)"

text \<open>The next line and what follows it; a last line without a newline is none.\<close>

definition take_line :: "string \<Rightarrow> (string \<times> string) option" where
  "take_line cursor = (if cursor = [] then None else cut nl cursor)"

definition prefixed_value :: "string \<Rightarrow> string \<Rightarrow> string option" where
  "prefixed_value line prefix =
     (if length line < length prefix \<or> take (length prefix) line \<noteq> prefix then None
      else Some (drop (length prefix) line))"

definition connection_of :: "string \<Rightarrow> faceplate_connection option" where
  "connection_of value =
     (if length value = 9 \<and> value = ''connected'' then Some CONNECTED
      else if length value = 12 \<and> value = ''disconnected'' then Some DISCONNECTED
      else if length value = 7 \<and> value = ''unknown'' then Some UNKNOWN
      else None)"

definition parse_status :: "string \<Rightarrow> faceplate_status_snapshot \<Rightarrow> faceplate_status_snapshot option" where
  "parse_status bytes snapshot =
     (case take_line bytes of
        None \<Rightarrow> None
      | Some (line, cursor) \<Rightarrow>
          if line \<noteq> ''FACEPLATE_STATUS_V1'' then None
          else (case take_line cursor of
                  None \<Rightarrow> None
                | Some (line, cursor) \<Rightarrow>
                    (case prefixed_value line ''serial='' of
                       None \<Rightarrow> None
                     | Some serial \<Rightarrow>
                         if \<not> serial_valid serial then None
                         else (case take_line cursor of
                                 None \<Rightarrow> None
                               | Some (line, cursor) \<Rightarrow>
                                   (case prefixed_value line ''dataplicity='' of
                                      None \<Rightarrow> None
                                    | Some value \<Rightarrow>
                                        (case connection_of value of
                                           None \<Rightarrow> None
                                         | Some connection \<Rightarrow>
                                             (case take_line cursor of
                                                None \<Rightarrow> None
                                              | Some (line, cursor) \<Rightarrow>
                                                  (case prefixed_value line ''updated_boottime_ms='' of
                                                     None \<Rightarrow> None
                                                   | Some value \<Rightarrow>
                                                       (case parse_u64 value of
                                                          None \<Rightarrow> None
                                                        | Some updated \<Rightarrow>
                                                            if cursor = []
                                                            then Some (snapshot\<lparr>ss_serial := serial,
                                                                   ss_connection := connection,
                                                                   ss_updated := updated\<rparr>)
                                                            else None)))))))))"

section \<open>Reading\<close>

text \<open>
  The checks on the open file, shared by both snapshot readers: \<open>limit\<close> is the size limit, \<open>uid\<close>
  the expected owner. The bytes are the whole file, which ends right behind them.
\<close>

definition snapshot_bytes :: "nat \<Rightarrow> nat \<Rightarrow> file_io \<Rightarrow> string option" where
  "snapshot_bytes limit uid io =
     (if \<not> io_open io then None
      else (case io_stat io of
              None \<Rightarrow> None
            | Some st \<Rightarrow>
                if \<not> st_reg st \<or> st_nlink st \<noteq> 1 \<or> st_uid st \<noteq> uid \<or> st_size st \<le> 0 \<or>
                   st_size st > int limit \<or> and (and (st_mode st) 0x1FF) (not 0x1A0) \<noteq> 0 then None
                else (case read_full io (nat (st_size st)) [] of
                        None \<Rightarrow> None
                      | Some bytes \<Rightarrow>
                          if io_read io (length bytes) 1 \<noteq> Some [] then None else Some bytes)))"

definition faceplate_status_read_at :: "bool \<Rightarrow> nat \<Rightarrow> u64 \<Rightarrow> u64 \<Rightarrow> file_io \<Rightarrow> faceplate_status_snapshot" where
  "faceplate_status_read_at dir_ok uid now stale_after io =
     (if \<not> dir_ok \<or> stale_after = 0 then hide_status
      else (case snapshot_bytes 512 uid io of
              None \<Rightarrow> hide_status
            | Some bytes \<Rightarrow>
                (case parse_status bytes hide_status of
                   None \<Rightarrow> hide_status
                 | Some snapshot \<Rightarrow>
                     if ss_updated snapshot > now then hide_status
                     else if now - ss_updated snapshot > stale_after
                     then snapshot\<lparr>ss_visibility := STALE, ss_connection := UNKNOWN\<rparr>
                     else snapshot\<lparr>ss_visibility := FRESH\<rparr>)))"

section \<open>Numbers\<close>

lemma max_word64: "unat (- 1 :: u64) = 2 ^ 64 - 1"
  by (simp add: unsigned_minus_1_eq_mask mask_eq_exp_minus_1)

lemma guard_exact:
  assumes "d < 10"
  shows "(r > (- 1 - of_nat d) div (10 :: u64)) \<longleftrightarrow> unat r * 10 + d \<ge> 2 ^ 64"
proof -
  have d: "unat (of_nat d :: u64) = d" using assms by (simp add: unat_of_nat)
  have "unat (- 1 - of_nat d :: u64) = 2 ^ 64 - 1 - d"
    using d max_word64 unat_sub_le [of "of_nat d" "- 1 :: u64"] by simp
  then have "unat ((- 1 - of_nat d) div (10 :: u64)) = (2 ^ 64 - 1 - d) div 10"
    by (simp add: unat_div)
  then have "(r > (- 1 - of_nat d) div (10 :: u64)) \<longleftrightarrow> (2 ^ 64 - 1 - d) div 10 < unat r"
    by (simp add: word_less_nat_alt)
  also have "\<dots> \<longleftrightarrow> unat r * 10 + d \<ge> 2 ^ 64"
    using assms unsigned_less [of r] by (simp add: div_less_iff_less_mult) linarith
  finally show ?thesis .
qed

lemma unat_step:
  assumes "d < 10" "unat (r :: u64) * 10 + d < 2 ^ 64"
  shows "unat (r * 10 + of_nat d) = unat r * 10 + d"
proof -
  have "unat (r * 10) = unat r * 10" using assms(2) by (subst unat_mult_small) simp_all
  moreover have "unat (of_nat d :: u64) = d" using assms(1) by (simp add: unat_of_nat)
  ultimately show ?thesis using assms(2) by (subst unat_add_small) simp_all
qed

lemma parse_u64_loop_exact:
  "parse_u64_loop s r = (if (\<forall>c\<in>set s. is_digit c) \<and> foldl (\<lambda>n c. n * 10 + digit_of c) (unat r) s < 2 ^ 64
     then Some (of_nat (foldl (\<lambda>n c. n * 10 + digit_of c) (unat r) s)) else None)"
proof (induction s r rule: parse_u64_loop.induct)
  case (1 result)
  then show ?case using unsigned_less [of result] by simp
next
  case (2 c cs r)
  have mono: "n \<le> foldl (\<lambda>n c. n * 10 + digit_of c) n s" for n s
  proof (induction s arbitrary: n)
    case (Cons a s)
    have "n \<le> n * 10 + digit_of a" by simp
    also have "\<dots> \<le> foldl (\<lambda>n c. n * 10 + digit_of c) (n * 10 + digit_of a) s" by (rule Cons)
    finally show ?case by simp
  qed simp
  show ?case
  proof (cases "is_digit c")
    case True
    then have d: "digit_of c < 10" "code c - 48 = digit_of c" "\<not> (code c < 48 \<or> code c > 57)"
      using digit_of_less [OF True] True by (auto simp: digit_of_def is_digit_bounds)
    show ?thesis
    proof (cases "unat r * 10 + digit_of c < 2 ^ 64")
      case True
      then have "\<not> r > (- 1 - of_nat (digit_of c)) div 10" using guard_exact [OF d(1)] by simp
      then show ?thesis
        using 2 [OF d(3) refl] d unat_step [OF d(1) True] \<open>is_digit c\<close> by (simp add: Let_def)
    next
      case False
      then have "r > (- 1 - of_nat (digit_of c)) div 10" using guard_exact [OF d(1)] by simp
      moreover have "\<not> foldl (\<lambda>n c. n * 10 + digit_of c) (unat r * 10 + digit_of c) cs < 2 ^ 64"
        using False mono [of "unat r * 10 + digit_of c" cs] by linarith
      ultimately show ?thesis using d by (simp add: Let_def)
    qed
  next
    case False
    then have "code c < 48 \<or> code c > 57" unfolding is_digit_bounds by linarith
    with False show ?thesis by simp
  qed
qed

text \<open>The parser of numbers accepts up to 20 digits, and computes their value or refuses.\<close>

lemma parse_u64_exact:
  "parse_u64 s = (if s \<noteq> [] \<and> length s \<le> 20 \<and> (\<forall>c\<in>set s. is_digit c) \<and> undec s < 2 ^ 64
     then Some (of_nat (undec s)) else None)"
  by (simp add: parse_u64_def parse_u64_loop_exact undec_def)

lemma parse_u64_dec: "parse_u64 (dec (unat v)) = Some v"
proof -
  have "unat v < 10 ^ 20" using unsigned_less [of v, where ?'a = nat] by simp
  then have "length (dec (unat v)) \<le> 20" by (rule length_dec) simp
  moreover have "\<forall>c\<in>set (dec (unat v)). is_digit c" using dec_digits by blast
  moreover have "unat v < 2 ^ 64" using unsigned_less [of v, where ?'a = nat] by simp
  ultimately show ?thesis by (simp only: parse_u64_exact undec_dec dec_not_Nil) simp
qed

section \<open>The layout\<close>

definition connection_name :: "faceplate_connection \<Rightarrow> string" where
  "connection_name c = (case c of CONNECTED \<Rightarrow> ''connected'' | DISCONNECTED \<Rightarrow> ''disconnected'' | UNKNOWN \<Rightarrow> ''unknown'')"

lemma connection_of_alt:
  "connection_of v = (if v = ''connected'' then Some CONNECTED
     else if v = ''disconnected'' then Some DISCONNECTED
     else if v = ''unknown'' then Some UNKNOWN else None)"
  unfolding connection_of_def
  by (cases "v = ''connected''"; cases "v = ''disconnected''"; cases "v = ''unknown''") simp_all

lemma connection_of_Some: "connection_of v = Some c \<longleftrightarrow> v = connection_name c"
  unfolding connection_of_alt connection_name_def by (cases c) simp_all

text \<open>The file of a publisher; the number may be written with leading zeros.\<close>

definition status_file :: "string \<Rightarrow> faceplate_connection \<Rightarrow> string \<Rightarrow> string" where
  "status_file serial connection digits =
     ''FACEPLATE_STATUS_V1'' @ nl # ''serial='' @ serial @ nl # ''dataplicity='' @ connection_name connection @
     nl # ''updated_boottime_ms='' @ digits @ [nl]"

lemma prefixed_value_Some: "prefixed_value line p = Some v \<longleftrightarrow> line = p @ v"
  by (auto simp: prefixed_value_def) (metis append_take_drop_id)

lemma take_line_Some: "take_line s = Some (l, r) \<longleftrightarrow> s = l @ nl # r \<and> nl \<notin> set l"
  by (auto simp: take_line_def cut_Some)

lemma serial_valid_iff:
  "serial_valid v \<longleftrightarrow> v \<noteq> [] \<and> length v \<le> 64 \<and> (\<forall>c\<in>set v. serial_char c)"
  by (auto simp: serial_valid_def list_all_iff)

lemma serial_char_plain: "serial_char c \<Longrightarrow> 45 \<le> code c \<and> code c \<le> 122"
  by (auto simp: serial_char_def between_def code_def)

lemma serial_no_nl: "serial_valid v \<Longrightarrow> nl \<notin> set v"
  using serial_char_plain [of nl] by (auto simp: serial_valid_iff code_def)

lemma digits_no_nl: "\<forall>c\<in>set s. is_digit c \<Longrightarrow> nl \<notin> set s"
  by (auto simp: is_digit_bounds code_def)

lemma name_no_nl: "nl \<notin> set (connection_name c)"
  by (cases c) (simp_all add: connection_name_def)

lemma parse_status_file:
  assumes "serial_valid serial" "parse_u64 digits = Some v"
  shows "parse_status (status_file serial c digits) sn =
    Some (sn\<lparr>ss_serial := serial, ss_connection := c, ss_updated := v\<rparr>)"
proof -
  have "\<forall>c\<in>set digits. is_digit c" using assms(2) unfolding parse_u64_exact by (auto split: if_splits)
  then have d: "nl \<notin> set digits" by (rule digits_no_nl)
  have l1: "take_line (status_file serial c digits) = Some (''FACEPLATE_STATUS_V1'',
      (''serial='' @ serial) @ nl # (''dataplicity='' @ connection_name c) @ nl # (''updated_boottime_ms='' @ digits) @ [nl])"
    unfolding take_line_Some by (simp add: status_file_def)
  have l2: "take_line ((''serial='' @ serial) @ nl # r) = Some (''serial='' @ serial, r)" for r
    unfolding take_line_Some using serial_no_nl [OF assms(1)] by simp
  have l3: "take_line ((''dataplicity='' @ connection_name c) @ nl # r) = Some (''dataplicity='' @ connection_name c, r)" for r
    unfolding take_line_Some using name_no_nl [of c] by simp
  have l4: "take_line ((''updated_boottime_ms='' @ digits) @ [nl]) = Some (''updated_boottime_ms='' @ digits, [])"
    unfolding take_line_Some using d by simp
  have p: "prefixed_value (p @ v) p = Some v" for p v by (simp add: prefixed_value_Some)
  show ?thesis
    unfolding parse_status_def l1 option.case prod.case l2 l3 l4 p
    using assms connection_of_Some [of "connection_name c" c] by simp
qed

lemma parse_status_Some:
  assumes "parse_status bytes sn = Some s"
  shows "\<exists>digits. bytes = status_file (ss_serial s) (ss_connection s) digits \<and>
    serial_valid (ss_serial s) \<and> parse_u64 digits = Some (ss_updated s) \<and> ss_visibility s = ss_visibility sn"
proof -
  obtain c1 where 1: "take_line bytes = Some (''FACEPLATE_STATUS_V1'', c1)"
    using assms unfolding parse_status_def by (cases "take_line bytes") (auto split: if_splits prod.splits)
  note s1 = assms [unfolded parse_status_def 1 option.case prod.case if_not_P [OF not_not [THEN iffD2, OF refl]]]
  obtain l2 c2 where 2: "take_line c1 = Some (l2, c2)"
    using s1 by (cases "take_line c1") auto
  note s2 = s1 [unfolded 2 option.case prod.case]
  obtain serial where 3: "prefixed_value l2 ''serial='' = Some serial"
    using s2 by (cases "prefixed_value l2 ''serial=''") auto
  note s3 = s2 [unfolded 3 option.case]
  have 4: "serial_valid serial" using s3 by (auto split: if_splits)
  note s4 = s3 [unfolded if_not_P [OF not_not [THEN iffD2, OF 4]]]
  obtain l3 c3 where 5: "take_line c2 = Some (l3, c3)"
    using s4 by (cases "take_line c2") auto
  note s5 = s4 [unfolded 5 option.case prod.case]
  obtain w where 6: "prefixed_value l3 ''dataplicity='' = Some w"
    using s5 by (cases "prefixed_value l3 ''dataplicity=''") auto
  note s6 = s5 [unfolded 6 option.case]
  obtain c where 7: "connection_of w = Some c"
    using s6 by (cases "connection_of w") auto
  note s7 = s6 [unfolded 7 option.case]
  obtain l4 c4 where 8: "take_line c3 = Some (l4, c4)"
    using s7 by (cases "take_line c3") auto
  note s8 = s7 [unfolded 8 option.case prod.case]
  obtain digits where 9: "prefixed_value l4 ''updated_boottime_ms='' = Some digits"
    using s8 by (cases "prefixed_value l4 ''updated_boottime_ms=''") auto
  note s9 = s8 [unfolded 9 option.case]
  obtain u where 10: "parse_u64 digits = Some u"
    using s9 by (cases "parse_u64 digits") auto
  have "c4 = []" "s = sn\<lparr>ss_serial := serial, ss_connection := c, ss_updated := u\<rparr>"
    using s9 unfolding 10 by (auto split: if_splits)
  then show ?thesis
    using 1 2 3 4 5 6 7 8 9 10
    unfolding take_line_Some prefixed_value_Some connection_of_Some status_file_def by auto
qed

section \<open>What the reader promises\<close>

text \<open>A file as the reader wants it, with contents \<open>bytes\<close>.\<close>

definition private_file :: "nat \<Rightarrow> nat \<Rightarrow> file_io \<Rightarrow> string \<Rightarrow> bool" where
  "private_file limit uid io bytes \<longleftrightarrow> io_open io \<and> bytes \<noteq> [] \<and> length bytes \<le> limit \<and> serves io bytes \<and>
     (case io_stat io of None \<Rightarrow> False | Some st \<Rightarrow>
        st_reg st \<and> st_nlink st = 1 \<and> st_uid st = uid \<and> st_size st = int (length bytes) \<and>
        and (and (st_mode st) 0x1FF) (not 0x1A0) = 0)"

lemma private_file_read: "private_file limit uid io bytes \<Longrightarrow> snapshot_bytes limit uid io = Some bytes"
proof -
  assume p: "private_file limit uid io bytes"
  then obtain st where st: "io_stat io = Some st" "st_size st = int (length bytes)"
    by (auto simp: private_file_def split: option.splits)
  have s: "serves io bytes" using p by (simp add: private_file_def)
  have "read_full io (length bytes) [] = Some bytes"
    using read_full_serves [OF s order_refl, of "[]" 0] by simp
  moreover have "io_read io (length bytes) 1 = Some []"
    using s unfolding serves_def by (metis append_Nil2 drop_all order_refl take_Nil zero_less_one)
  ultimately show ?thesis using p st by (simp add: snapshot_bytes_def private_file_def)
qed

lemma snapshot_bytes_Some:
  assumes "snapshot_bytes limit uid io = Some bytes"
  obtains st where "io_open io" "io_stat io = Some st" "st_reg st" "st_nlink st = 1" "st_uid st = uid"
    "0 < st_size st" "st_size st \<le> int limit" "and (and (st_mode st) 0x1FF) (not 0x1A0) = 0"
    "read_full io (nat (st_size st)) [] = Some bytes" "io_read io (length bytes) 1 = Some []"
  using assms unfolding snapshot_bytes_def by (auto split: option.splits if_splits)

lemma mode_private: "and (and (m :: u32) 0x1FF) (not 0x1A0) = 0 \<Longrightarrow> and m 0x5F = 0"
proof -
  assume "and (and m 0x1FF) (not 0x1A0) = 0"
  then have "and (and (and m 0x1FF) (not 0x1A0)) 0x5F = 0" by simp
  then show ?thesis by (simp add: and.assoc)
qed

text \<open>
  Property C23. A connection is claimed only on good evidence: unless the snapshot is fresh it says
  that the connection is unknown, and it is fresh only if the file was a regular one of the expected
  owner, with one link and no permissions beyond read and write for the owner and read for the
  group, held exactly the published layout, and was written at most the allowed time ago and not
  in the future. In every other case the snapshot is hidden, or stale and unknown.
\<close>

theorem status_claims_only_on_evidence:
  assumes "faceplate_status_read_at dir_ok uid now stale_after io = s"
  shows "(ss_visibility s \<noteq> FRESH \<longrightarrow> ss_connection s = UNKNOWN) \<and>
    (ss_visibility s = HIDDEN \<longrightarrow> s = hide_status) \<and>
    (ss_visibility s = FRESH \<longrightarrow>
       ss_updated s \<le> now \<and> now - ss_updated s \<le> stale_after \<and>
       (\<exists>st digits. io_stat io = Some st \<and> st_reg st \<and> st_nlink st = 1 \<and> st_uid st = uid \<and>
          st_size st \<le> 512 \<and> and (st_mode st) 0x5F = 0 \<and>
          read_full io (nat (st_size st)) [] = Some (status_file (ss_serial s) (ss_connection s) digits) \<and>
          parse_u64 digits = Some (ss_updated s)))"
proof (cases "dir_ok \<and> stale_after \<noteq> 0 \<and> snapshot_bytes 512 uid io \<noteq> None")
  case False
  then have "s = hide_status"
    using assms by (auto simp: faceplate_status_read_at_def)
  then show ?thesis by (simp add: hide_status_def)
next
  case True
  then obtain bytes where b: "snapshot_bytes 512 uid io = Some bytes" by blast
  show ?thesis
  proof (cases "parse_status bytes hide_status")
    case None
    then have "s = hide_status" using assms True b by (simp add: faceplate_status_read_at_def)
    then show ?thesis by (simp add: hide_status_def)
  next
    case (Some p)
    have s: "s = (if ss_updated p > now then hide_status
        else if now - ss_updated p > stale_after then p\<lparr>ss_visibility := STALE, ss_connection := UNKNOWN\<rparr>
        else p\<lparr>ss_visibility := FRESH\<rparr>)"
      using assms True b Some by (simp add: faceplate_status_read_at_def)
    obtain digits where d: "bytes = status_file (ss_serial p) (ss_connection p) digits"
        "parse_u64 digits = Some (ss_updated p)"
      using parse_status_Some [OF Some] by blast
    obtain st where st: "io_stat io = Some st" "st_reg st" "st_nlink st = 1" "st_uid st = uid"
        "st_size st \<le> int 512" "and (st_mode st) 0x5F = 0" "read_full io (nat (st_size st)) [] = Some bytes"
      by (rule snapshot_bytes_Some [OF b]) (use mode_private in blast)
    show ?thesis
    proof (cases "ss_updated p > now")
      case True
      then show ?thesis using s by (simp add: hide_status_def)
    next
      case False
      with s d st show ?thesis by (cases "now - ss_updated p > stale_after") auto
    qed
  qed
qed

text \<open>A file of 64 bytes, served in pieces of at most seven.\<close>

definition demo_status_bytes :: string where
  "demo_status_bytes = status_file ''box-1'' CONNECTED ''1000''"

definition demo_file :: "string \<Rightarrow> file_io" where
  "demo_file bytes =
     \<lparr>io_open = True, io_stat = Some \<lparr>st_reg = True, st_nlink = 1, st_uid = 42, st_size = int (length bytes),
        st_mode = 0x1A0\<rparr>,
      io_read = (\<lambda>off want. Some (take (min want 7) (drop off bytes)))\<rparr>"

lemma demo_file_private: "bytes \<noteq> [] \<Longrightarrow> length bytes \<le> limit \<Longrightarrow> private_file limit 42 (demo_file bytes) bytes"
  unfolding private_file_def serves_def demo_file_def
  by (auto intro!: exI [of _ "min _ 7"])

text \<open>
  Property C24. What an agent publishes is shown: a private file in the published layout with a valid
  serial number and a time not in the future is read back exactly, however many bytes each
  \<open>read\<close> returns; it is fresh up to the allowed age and stale, with an unknown connection, beyond.
\<close>

theorem published_status_is_read:
  assumes "private_file 512 uid io (status_file serial c (dec (unat t)))" "serial_valid serial"
    "stale_after \<noteq> 0" "t \<le> now"
  shows "faceplate_status_read_at True uid now stale_after io =
    (if now - t > stale_after
     then \<lparr>ss_visibility = STALE, ss_connection = UNKNOWN, ss_serial = serial, ss_updated = t\<rparr>
     else \<lparr>ss_visibility = FRESH, ss_connection = c, ss_serial = serial, ss_updated = t\<rparr>)"
  using parse_status_file [OF assms(2) parse_u64_dec, of c t hide_status] private_file_read [OF assms(1)] assms(3,4)
  by (simp add: faceplate_status_read_at_def hide_status_def)

theorem published_status_is_read_witness:
  "faceplate_status_read_at True 42 1500 30000 (demo_file demo_status_bytes) =
     \<lparr>ss_visibility = FRESH, ss_connection = CONNECTED, ss_serial = ''box-1'', ss_updated = 1000\<rparr>"
proof -
  have d: "dec (unat (1000 :: u64)) = ''1000''"
    by code_simp
  have "private_file 512 42 (demo_file demo_status_bytes) (status_file ''box-1'' CONNECTED (dec (unat (1000 :: u64))))"
    unfolding d demo_status_bytes_def
    by (rule demo_file_private) (simp_all add: status_file_def connection_name_def)
  moreover have "serial_valid ''box-1''"
    by (simp add: serial_valid_def serial_char_def between_def code_def)
  ultimately show ?thesis
    using published_status_is_read [of 42 "demo_file demo_status_bytes" "''box-1''" CONNECTED 1000 30000 1500] by simp
qed

theorem status_claims_only_on_evidence_witness:
  "ss_connection (faceplate_status_read_at True 42 90000 30000 (demo_file ''x'')) = UNKNOWN"
proof -
  have "faceplate_status_read_at True 42 90000 30000 (demo_file ''x'') = hide_status"
  proof -
    have "snapshot_bytes 512 42 (demo_file ''x'') = Some ''x''"
      by (rule private_file_read [OF demo_file_private]) simp_all
    then show ?thesis
      by (simp add: faceplate_status_read_at_def parse_status_def take_line_def)
  qed
  then show ?thesis
    using status_claims_only_on_evidence [of True 42 90000 30000 "demo_file ''x''", OF refl]
    by (simp add: hide_status_def)
qed

end
