(* ===== verification/Events.thy ===== *)
theory Events
  imports Status
begin

text \<open>
  The event snapshot, \<open>src/faceplate_events.c\<close>: the feed that the locked console shows, as a
  file of \<open>key=value\<close> lines. The parser writes into arrays of fixed size; the model keeps each
  array as the C string it holds, and the twelve lines as a list of length twelve.
\<close>

section \<open>Data\<close>

record faceplate_event_line =
  el_code :: string
  el_text :: string
  el_boottime :: u64

record faceplate_events_snapshot =
  es_visibility :: visibility
  es_console_locked :: bool
  es_updated :: u64
  es_count :: nat
  es_lines :: "faceplate_event_line list"

definition empty_line :: faceplate_event_line where
  "empty_line = \<lparr>el_code = '''', el_text = '''', el_boottime = 0\<rparr>"

definition hide_events :: faceplate_events_snapshot where
  "hide_events = \<lparr>es_visibility = HIDDEN, es_console_locked = True, es_updated = 0, es_count = 0,
     es_lines = replicate 12 empty_line\<rparr>"

section \<open>Validation\<close>

definition token_char :: "char \<Rightarrow> bool" where
  "token_char c \<longleftrightarrow> between CHR ''A'' CHR ''Z'' c \<or> between CHR ''a'' CHR ''z'' c \<or>
     between CHR ''0'' CHR ''9'' c \<or> c = CHR ''.'' \<or> c = CHR ''_'' \<or> c = CHR ''-'' \<or> c = CHR '':'' \<or> c = CHR '' ''"

definition token_valid :: "string \<Rightarrow> nat \<Rightarrow> bool" where
  "token_valid value limit = (if value = [] \<or> length value > limit then False else list_all token_char value)"

definition code_char :: "char \<Rightarrow> bool" where
  "code_char c \<longleftrightarrow> between CHR ''a'' CHR ''z'' c \<or> between CHR ''0'' CHR ''9'' c \<or>
     c = CHR ''.'' \<or> c = CHR ''_'' \<or> c = CHR ''-''"

definition code_valid :: "string \<Rightarrow> bool" where
  "code_valid value = (if value = [] \<or> length value > 64 then False else list_all code_char value)"

text \<open>The key goes into a buffer of 32 bytes, its terminating zero included.\<close>

definition split_key :: "string \<Rightarrow> (string \<times> string) option" where
  "split_key line =
     (case cut CHR ''='' line of
        None \<Rightarrow> None
      | Some (key, value) \<Rightarrow> if key = [] \<or> length key + 1 \<ge> 32 then None else Some (key, value))"

text \<open>\<open>sscanf (key, "e%lu_%15s", ...)\<close>: both conversions, or nothing.\<close>

definition scan_ulong :: "string \<Rightarrow> (u64 \<times> string) option" where
  "scan_ulong s =
     (let s = dropWhile is_space s;
          negative = (s \<noteq> [] \<and> hd s = CHR ''-'');
          s = (if s \<noteq> [] \<and> (hd s = CHR ''-'' \<or> hd s = CHR ''+'') then tl s else s);
          digits = takeWhile is_digit s;
          n = undec digits
      in if digits = [] then None
         else Some (if n \<ge> 2 ^ 64 then - 1 else if negative then - of_nat n else of_nat n, dropWhile is_digit s))"

definition scan_word :: "nat \<Rightarrow> string \<Rightarrow> string option" where
  "scan_word width s =
     (let w = takeWhile (\<lambda>c. \<not> is_space c) (take width (dropWhile is_space s))
      in if w = [] then None else Some w)"

definition scan_event_key :: "string \<Rightarrow> (u64 \<times> string) option" where
  "scan_event_key key =
     (case key of
        [] \<Rightarrow> None
      | c # rest \<Rightarrow>
          if c \<noteq> CHR ''e'' then None
          else (case scan_ulong rest of
                  None \<Rightarrow> None
                | Some (index, rest) \<Rightarrow>
                    (case rest of
                       [] \<Rightarrow> None
                     | c # rest \<Rightarrow>
                         if c \<noteq> CHR ''_'' then None
                         else map_option (\<lambda>suffix. (index, suffix)) (scan_word 15 rest))))"

section \<open>Parsing\<close>

record events_parser =
  ep_snapshot :: faceplate_events_snapshot
  ep_declared :: u64
  ep_have_updated :: bool
  ep_have_console :: bool
  ep_have_count :: bool

definition upd_line :: "nat \<Rightarrow> (faceplate_event_line \<Rightarrow> faceplate_event_line) \<Rightarrow> events_parser \<Rightarrow> events_parser" where
  "upd_line i f p = p\<lparr>ep_snapshot := (ep_snapshot p)\<lparr>es_lines :=
     (es_lines (ep_snapshot p))[i := f (es_lines (ep_snapshot p) ! i)]\<rparr>\<rparr>"

definition parse_event_field :: "string \<Rightarrow> string \<Rightarrow> events_parser \<Rightarrow> events_parser option" where
  "parse_event_field key value p =
     (if CHR ''_'' \<notin> set key then None
      else (case scan_event_key key of
              None \<Rightarrow> None
            | Some (index, suffix) \<Rightarrow>
                if index \<ge> 12 then None
                else if suffix = ''boottime_ms'' then
                  (case parse_u64 value of
                     None \<Rightarrow> None
                   | Some ms \<Rightarrow> Some (upd_line (unat index) (\<lambda>l. l\<lparr>el_boottime := ms\<rparr>) p))
                else if suffix = ''code'' then
                  (if \<not> code_valid value then None
                   else Some (upd_line (unat index) (\<lambda>l. l\<lparr>el_code := value\<rparr>) p))
                else if suffix = ''text'' then
                  (if \<not> token_valid value 96 then None
                   else Some (upd_line (unat index) (\<lambda>l. l\<lparr>el_text := value\<rparr>) p))
                else None))"

definition parse_line :: "string \<Rightarrow> events_parser \<Rightarrow> events_parser option" where
  "parse_line line p =
     (case split_key line of
        None \<Rightarrow> None
      | Some (key, value) \<Rightarrow>
          if key = ''updated_boottime_ms'' then
            (case parse_u64 value of
               None \<Rightarrow> None
             | Some ms \<Rightarrow> Some (p\<lparr>ep_snapshot := (ep_snapshot p)\<lparr>es_updated := ms\<rparr>, ep_have_updated := True\<rparr>))
          else if key = ''console'' then
            (if value = ''locked'' then
               Some (p\<lparr>ep_snapshot := (ep_snapshot p)\<lparr>es_console_locked := True\<rparr>, ep_have_console := True\<rparr>)
             else if value = ''unlocked'' then
               Some (p\<lparr>ep_snapshot := (ep_snapshot p)\<lparr>es_console_locked := False\<rparr>, ep_have_console := True\<rparr>)
             else None)
          else if key = ''count'' then
            (case parse_u64 value of
               None \<Rightarrow> None
             | Some n \<Rightarrow> if n > 12 then None else Some (p\<lparr>ep_declared := n, ep_have_count := True\<rparr>))
          else if take 1 key = ''e'' then parse_event_field key value p
          else None)"

fun parse_lines :: "string list \<Rightarrow> events_parser \<Rightarrow> events_parser option" where
  "parse_lines [] p = Some p"
| "parse_lines (l # ls) p = (case parse_line l p of None \<Rightarrow> None | Some p \<Rightarrow> parse_lines ls p)"

definition events_header :: string where
  "events_header = ''FACEPLATE_EVENTS_V1''"

text \<open>\<open>mem\<close> tells whether \<open>strdup\<close> succeeds.\<close>

definition parse_events :: "bool \<Rightarrow> string \<Rightarrow> faceplate_events_snapshot \<Rightarrow> faceplate_events_snapshot option" where
  "parse_events mem bytes snapshot =
     (if length bytes < 20 \<or> take 20 bytes \<noteq> events_header @ [nl] \<or> \<not> mem then None
      else (case strtok nl [] (cstr bytes) of
              [] \<Rightarrow> None
            | line # lines \<Rightarrow>
                if line \<noteq> events_header then None
                else (case parse_lines lines
                        \<lparr>ep_snapshot = snapshot\<lparr>es_count := 0\<rparr>, ep_declared = 0, ep_have_updated = False,
                         ep_have_console = False, ep_have_count = False\<rparr> of
                        None \<Rightarrow> None
                      | Some p \<Rightarrow>
                          if \<not> ep_have_updated p \<or> \<not> ep_have_console p \<or> \<not> ep_have_count p then None
                          else
                            let count = unat (ep_declared p);
                                sn = (ep_snapshot p)\<lparr>es_count := count\<rparr>
                            in if list_ex (\<lambda>l. el_code l = '''' \<or> el_text l = '''') (take count (es_lines sn))
                               then None else Some sn)))"

definition faceplate_events_read_at :: "bool \<Rightarrow> nat \<Rightarrow> u64 \<Rightarrow> u64 \<Rightarrow> bool \<Rightarrow> file_io \<Rightarrow> faceplate_events_snapshot" where
  "faceplate_events_read_at dir_ok uid now stale_after mem io =
     (if \<not> dir_ok \<or> stale_after = 0 then hide_events
      else (case snapshot_bytes 8192 uid io of
              None \<Rightarrow> hide_events
            | Some bytes \<Rightarrow>
                (case parse_events mem bytes hide_events of
                   None \<Rightarrow> hide_events
                 | Some snapshot \<Rightarrow>
                     if es_updated snapshot > now then hide_events
                     else if now - es_updated snapshot > stale_after
                     then snapshot\<lparr>es_visibility := STALE\<rparr>
                     else snapshot\<lparr>es_visibility := FRESH\<rparr>)))"

section \<open>What a line can hold\<close>

text \<open>The arrays stay within their bounds and hold harmless characters only.\<close>

definition line_ok :: "faceplate_event_line \<Rightarrow> bool" where
  "line_ok l \<longleftrightarrow> length (el_code l) \<le> 64 \<and> length (el_text l) \<le> 96 \<and>
     list_all code_char (el_code l) \<and> list_all token_char (el_text l)"

definition lines_ok :: "events_parser \<Rightarrow> bool" where
  "lines_ok p \<longleftrightarrow> length (es_lines (ep_snapshot p)) = 12 \<and> list_all line_ok (es_lines (ep_snapshot p)) \<and>
     unat (ep_declared p) \<le> 12 \<and> es_visibility (ep_snapshot p) = HIDDEN"

lemma token_valid_iff: "token_valid v n \<longleftrightarrow> v \<noteq> [] \<and> length v \<le> n \<and> list_all token_char v"
  by (auto simp: token_valid_def)

lemma code_valid_iff: "code_valid v \<longleftrightarrow> v \<noteq> [] \<and> length v \<le> 64 \<and> list_all code_char v"
  by (auto simp: code_valid_def)

lemma lines_ok_upd_line:
  assumes "lines_ok p" "\<And>l. line_ok l \<Longrightarrow> line_ok (f l)" "i < 12"
  shows "lines_ok (upd_line i f p)"
proof -
  have "line_ok (es_lines (ep_snapshot p) ! i)" using assms(1,3) by (simp add: lines_ok_def list_all_length)
  then show ?thesis
    using assms by (auto simp: lines_ok_def upd_line_def list_all_length nth_list_update)
qed

lemma lines_ok_field:
  assumes "parse_event_field key value p = Some p'" "lines_ok p"
  shows "lines_ok p'"
proof -
  obtain index suffix where k: "scan_event_key key = Some (index, suffix)" "index < 12"
    using assms(1) by (auto simp: parse_event_field_def not_le split: if_splits option.splits)
  have i: "unat index < 12" using k(2) by (simp add: word_less_nat_alt)
  show ?thesis
    using assms k
    by (auto simp: parse_event_field_def not_le split: if_splits option.splits
          intro!: lines_ok_upd_line [OF _ _ i] simp: line_ok_def code_valid_iff token_valid_iff)
qed

lemma lines_ok_line: "parse_line line p = Some p' \<Longrightarrow> lines_ok p \<Longrightarrow> lines_ok p'"
  unfolding parse_line_def
  by (auto split: if_splits option.splits prod.splits dest: lines_ok_field)
     (auto simp: lines_ok_def word_less_nat_alt)

lemma lines_ok_lines: "parse_lines ls p = Some p' \<Longrightarrow> lines_ok p \<Longrightarrow> lines_ok p'"
  by (induction ls arbitrary: p) (auto split: option.splits dest: lines_ok_line)

lemma parse_events_Some:
  assumes "parse_events mem bytes hide_events = Some sn"
  shows "length (es_lines sn) = 12 \<and> es_count sn \<le> 12 \<and> list_all line_ok (es_lines sn) \<and>
    es_visibility sn = HIDDEN \<and>
    list_all (\<lambda>l. el_code l \<noteq> '''' \<and> el_text l \<noteq> '''') (take (es_count sn) (es_lines sn))"
proof -
  let ?p0 = "\<lparr>ep_snapshot = hide_events\<lparr>es_count := 0\<rparr>, ep_declared = 0, ep_have_updated = False,
    ep_have_console = False, ep_have_count = False\<rparr>"
  obtain line lines p where p: "parse_lines lines ?p0 = Some p"
    "sn = (ep_snapshot p)\<lparr>es_count := unat (ep_declared p)\<rparr>"
    "\<not> list_ex (\<lambda>l. el_code l = '''' \<or> el_text l = '''') (take (unat (ep_declared p)) (es_lines sn))"
    using assms unfolding parse_events_def
    by (auto simp: Let_def split: if_splits list.splits option.splits)
  have "lines_ok ?p0" by (simp add: lines_ok_def hide_events_def empty_line_def line_ok_def list_all_length)
  then have "lines_ok p" using lines_ok_lines [OF p(1)] by blast
  then show ?thesis using p(2,3) by (auto simp: lines_ok_def list_all_iff list_ex_iff)
qed

section \<open>Publishing\<close>

text \<open>The file that a publisher writes for a snapshot.\<close>

definition event_lines :: "nat \<Rightarrow> faceplate_event_line \<Rightarrow> string list" where
  "event_lines i l =
     [''e'' @ dec i @ ''_boottime_ms='' @ dec (unat (el_boottime l)),
      ''e'' @ dec i @ ''_code='' @ el_code l, ''e'' @ dec i @ ''_text='' @ el_text l]"

fun all_event_lines :: "nat \<Rightarrow> faceplate_event_line list \<Rightarrow> string list" where
  "all_event_lines i [] = []"
| "all_event_lines i (l # ls) = event_lines i l @ all_event_lines (Suc i) ls"

definition events_file :: "bool \<Rightarrow> u64 \<Rightarrow> faceplate_event_line list \<Rightarrow> string" where
  "events_file locked updated ls =
     concat (map (\<lambda>l. l @ [nl])
       ([events_header, ''updated_boottime_ms='' @ dec (unat updated),
         ''console='' @ (if locked then ''locked'' else ''unlocked''), ''count='' @ dec (length ls)] @
        all_event_lines 0 ls))"

definition line_full :: "faceplate_event_line \<Rightarrow> bool" where
  "line_full l \<longleftrightarrow> code_valid (el_code l) \<and> token_valid (el_text l) 96"

lemma cut_key: "CHR ''='' \<notin> set key \<Longrightarrow> cut CHR ''='' (key @ CHR ''='' # value) = Some (key, value)"
  by simp

lemma digits_stop: "\<forall>c\<in>set a. is_digit c \<Longrightarrow> \<not> is_digit d \<Longrightarrow> takeWhile is_digit (a @ d # b) = a \<and>
    dropWhile is_digit (a @ d # b) = d # b"
  by (induction a) auto

lemma scan_ulong_dec:
  assumes "n < 2 ^ 64" "\<not> is_digit d"
  shows "scan_ulong (dec n @ d # r) = Some (of_nat n, d # r)"
proof -
  obtain c cs where c: "dec n = c # cs" "is_digit c" using dec_digits [of _ n] by (cases "dec n") auto
  have "\<not> is_space c" "c \<noteq> CHR ''-''" "c \<noteq> CHR ''+''"
    using c(2) by (auto simp: is_digit_bounds is_space_def code_def)
  then have "dropWhile is_space (dec n @ d # r) = dec n @ d # r" "hd (dec n @ d # r) \<noteq> CHR ''-''"
    "hd (dec n @ d # r) \<noteq> CHR ''+''"
    using c by simp_all
  moreover have "takeWhile is_digit (dec n @ d # r) = dec n" "dropWhile is_digit (dec n @ d # r) = d # r"
    using digits_stop [of "dec n" d r] dec_digits [of _ n] assms(2) by auto
  ultimately show ?thesis using assms(1) by (simp add: scan_ulong_def Let_def)
qed

lemma scan_event_key_dec:
  assumes "i < 12" "scan_word 15 suffix = Some suffix"
  shows "scan_event_key (CHR ''e'' # dec i @ CHR ''_'' # suffix) = Some (of_nat i, suffix)"
proof -
  have "\<not> is_digit CHR ''_''" by (simp add: is_digit_bounds code_def)
  then show ?thesis
    using scan_ulong_dec [of i "CHR ''_''" suffix] assms by (simp add: scan_event_key_def)
qed

lemma scan_words [simp]:
  "scan_word 15 ''boottime_ms'' = Some ''boottime_ms''" "scan_word 15 ''code'' = Some ''code''"
  "scan_word 15 ''text'' = Some ''text''"
  by (simp_all add: scan_word_def is_space_def code_def)

lemma dec_small: "i < 12 \<Longrightarrow> length (dec i) \<le> 2"
  using length_dec [of i 2] by simp

lemma dec_not_equals: "CHR ''='' \<notin> set (dec i)" "nl \<notin> set (dec i)" "nul \<notin> set (dec i)"
  using dec_digits [of "CHR ''=''" i] dec_digits [of nl i] dec_digits [of nul i]
  by (auto simp: is_digit_bounds code_def)

text \<open>One field of a published event.\<close>

lemma parse_line_field:
  assumes "i < 12" "scan_word 15 suffix = Some suffix" "CHR ''='' \<notin> set suffix" "length suffix \<le> 15"
  shows "parse_line (''e'' @ dec i @ CHR ''_'' # suffix @ CHR ''='' # value) p =
    parse_event_field (CHR ''e'' # dec i @ CHR ''_'' # suffix) value p"
proof -
  let ?key = "CHR ''e'' # dec i @ CHR ''_'' # suffix"
  have "CHR ''='' \<notin> set ?key" using dec_not_equals assms(3) by simp
  from cut_key [OF this, of "value"]
  have "split_key (''e'' @ dec i @ CHR ''_'' # suffix @ CHR ''='' # value) = Some (?key, value)"
    using dec_small [OF assms(1)] assms(4) by (simp add: split_key_def)
  moreover have "?key \<noteq> ''updated_boottime_ms''" "?key \<noteq> ''console''" "?key \<noteq> ''count''"
    by simp_all
  ultimately show ?thesis by (simp add: parse_line_def)
qed

lemma event_index: "i < 12 \<Longrightarrow> \<not> (of_nat i :: u64) \<ge> 12 \<and> unat (of_nat i :: u64) = i"
  by (simp add: word_le_nat_alt unat_of_nat)

lemma parse_event_lines:
  assumes "i < 12" "line_full l" "i < length (es_lines (ep_snapshot p))"
  shows "parse_lines (event_lines i l @ rest) p = parse_lines rest (upd_line i (\<lambda>_. l) p)"
proof -
  have u: "CHR ''_'' \<in> set (CHR ''e'' # dec i @ CHR ''_'' # suffix)" for suffix by simp
  have v: "code_valid (el_code l)" "token_valid (el_text l) 96" using assms(2) by (simp_all add: line_full_def)
  have k: "scan_event_key (CHR ''e'' # dec i @ CHR ''_'' # suffix) = Some (of_nat i, suffix)"
    if "scan_word 15 suffix = Some suffix" for suffix by (rule scan_event_key_dec [OF assms(1) that])
  have 1: "parse_line (''e'' @ dec i @ ''_boottime_ms='' @ dec (unat (el_boottime l))) p =
      Some (upd_line i (\<lambda>k. k\<lparr>el_boottime := el_boottime l\<rparr>) p)" for p
    using parse_line_field [OF assms(1), of "''boottime_ms''" "dec (unat (el_boottime l))" p]
      event_index [OF assms(1)] k [of "''boottime_ms''"] parse_u64_dec
    by (simp add: parse_event_field_def)
  have 2: "parse_line (''e'' @ dec i @ ''_code='' @ el_code l) p = Some (upd_line i (\<lambda>k. k\<lparr>el_code := el_code l\<rparr>) p)" for p
    using parse_line_field [OF assms(1), of "''code''" "el_code l" p]
      event_index [OF assms(1)] k [of "''code''"] v
    by (simp add: parse_event_field_def)
  have 3: "parse_line (''e'' @ dec i @ ''_text='' @ el_text l) p = Some (upd_line i (\<lambda>k. k\<lparr>el_text := el_text l\<rparr>) p)" for p
    using parse_line_field [OF assms(1), of "''text''" "el_text l" p]
      event_index [OF assms(1)] k [of "''text''"] v
    by (simp add: parse_event_field_def)
  have e: "k\<lparr>el_boottime := el_boottime l, el_code := el_code l, el_text := el_text l\<rparr> = l" for k
    by (cases l; cases k) simp
  have "upd_line i (\<lambda>k. k\<lparr>el_text := el_text l\<rparr>) (upd_line i (\<lambda>k. k\<lparr>el_code := el_code l\<rparr>)
      (upd_line i (\<lambda>k. k\<lparr>el_boottime := el_boottime l\<rparr>) p)) = upd_line i (\<lambda>_. l) p"
    using assms(3) by (simp add: upd_line_def e)
  then show ?thesis by (simp add: event_lines_def 1 [simplified] 2 [simplified] 3 [simplified])
qed

definition set_lines :: "faceplate_event_line list \<Rightarrow> events_parser \<Rightarrow> events_parser" where
  "set_lines ls p = p\<lparr>ep_snapshot := (ep_snapshot p)\<lparr>es_lines := ls\<rparr>\<rparr>"

lemma upd_line_set: "upd_line i (\<lambda>_. l) p = set_lines ((es_lines (ep_snapshot p))[i := l]) p"
  by (simp add: upd_line_def set_lines_def)

lemma set_lines_twice [simp]: "set_lines ls (set_lines ks p) = set_lines ls p"
  "es_lines (ep_snapshot (set_lines ls p)) = ls"
  by (simp_all add: set_lines_def)

lemma parse_all_event_lines:
  "i + length ls \<le> 12 \<Longrightarrow> length (es_lines (ep_snapshot p)) = 12 \<Longrightarrow> list_all line_full ls \<Longrightarrow>
     parse_lines (all_event_lines i ls) p =
       Some (set_lines (take i (es_lines (ep_snapshot p)) @ ls @ drop (i + length ls) (es_lines (ep_snapshot p))) p)"
proof (induction ls arbitrary: i p)
  case Nil
  then show ?case by (simp add: set_lines_def)
next
  case (Cons l ls)
  let ?L = "es_lines (ep_snapshot p)"
  have "parse_lines (event_lines i l @ all_event_lines (Suc i) ls) p =
      parse_lines (all_event_lines (Suc i) ls) (upd_line i (\<lambda>_. l) p)"
    using Cons.prems by (intro parse_event_lines) simp_all
  also have "\<dots> = Some (set_lines (take (Suc i) (?L[i := l]) @ ls @ drop (Suc i + length ls) (?L[i := l])) p)"
    using Cons.IH [of "Suc i" "upd_line i (\<lambda>_. l) p"] Cons.prems by (simp add: upd_line_set)
  also have "take (Suc i) (?L[i := l]) = take i ?L @ [l]"
    using Cons.prems by (simp add: take_Suc_conv_app_nth)
  finally show ?case using Cons.prems by simp
qed

lemma char_bounds:
  "token_char c \<Longrightarrow> 32 \<le> code c \<and> code c \<le> 122" "code_char c \<Longrightarrow> 45 \<le> code c \<and> code c \<le> 122"
  by (auto simp: token_char_def code_char_def between_def code_def)

lemma full_line_plain:
  "line_full l \<Longrightarrow> nl \<notin> set (el_code l) \<and> nul \<notin> set (el_code l) \<and> nl \<notin> set (el_text l) \<and> nul \<notin> set (el_text l)"
  using char_bounds [of nl] char_bounds [of nul]
  by (auto simp: line_full_def code_valid_iff token_valid_iff list_all_iff code_def)

lemma event_lines_plain:
  "list_all line_full ls \<Longrightarrow> t \<in> set (all_event_lines i ls) \<Longrightarrow> t \<noteq> [] \<and> nl \<notin> set t \<and> nul \<notin> set t"
  by (induction ls arbitrary: i) (auto simp: event_lines_def dec_not_equals dest: full_line_plain)

lemma parse_line_key:
  assumes "CHR ''='' \<notin> set key" "key \<noteq> []" "length key < 31"
  shows "split_key (key @ CHR ''='' # v) = Some (key, v)"
  using assms cut_key [OF assms(1), of v] by (simp add: split_key_def)

lemma parse_line_updated:
  "parse_line (''updated_boottime_ms='' @ dec (unat u)) p =
     Some (p\<lparr>ep_snapshot := (ep_snapshot p)\<lparr>es_updated := u\<rparr>, ep_have_updated := True\<rparr>)"
  using parse_line_key [of "''updated_boottime_ms''" "dec (unat u)"] parse_u64_dec [of u]
  by (simp add: parse_line_def)

lemma parse_line_console:
  "parse_line (''console='' @ (if b then ''locked'' else ''unlocked'')) p =
     Some (p\<lparr>ep_snapshot := (ep_snapshot p)\<lparr>es_console_locked := b\<rparr>, ep_have_console := True\<rparr>)"
  using parse_line_key [of "''console''" "if b then ''locked'' else ''unlocked''"]
  by (simp add: parse_line_def)

lemma parse_line_count:
  assumes "n \<le> 12"
  shows "parse_line (''count='' @ dec n) p = Some (p\<lparr>ep_declared := of_nat n, ep_have_count := True\<rparr>)"
proof -
  have n: "unat (of_nat n :: u64) = n" using assms by (simp add: unat_of_nat)
  then have "\<not> (of_nat n :: u64) > 12" using assms by (simp add: word_less_nat_alt)
  then show ?thesis
    using parse_line_key [of "''count''" "dec n"] parse_u64_dec [of "of_nat n"] n
    by (simp add: parse_line_def)
qed

lemma event_lines_prefix:
  assumes "list_all line_full ls"
  shows "strtok nl [] (events_file locked u ls) =
    [events_header, ''updated_boottime_ms='' @ dec (unat u),
     ''console='' @ (if locked then ''locked'' else ''unlocked''), ''count='' @ dec (length ls)] @
    all_event_lines 0 ls"
  unfolding events_file_def
  by (rule strtok_lines) (use event_lines_plain [OF assms] in \<open>auto simp: events_header_def dec_not_equals\<close>)

lemma events_file_plain:
  assumes "list_all line_full ls"
  shows "cstr (events_file locked u ls) = events_file locked u ls"
  unfolding events_file_def
  by (rule cstr_id) (use event_lines_plain [OF assms] in \<open>auto simp: events_header_def dec_not_equals\<close>)

lemma events_file_start: "take 20 (events_file locked u ls) = events_header @ [nl]"
  "20 \<le> length (events_file locked u ls)"
  by (simp_all add: events_file_def events_header_def)

lemma parse_events_file:
  assumes "list_all line_full ls" "length ls \<le> 12"
  shows "parse_events True (events_file locked u ls) hide_events =
    Some \<lparr>es_visibility = HIDDEN, es_console_locked = locked, es_updated = u, es_count = length ls,
      es_lines = ls @ replicate (12 - length ls) empty_line\<rparr>"
proof -
  have n: "unat (of_nat (length ls) :: u64) = length ls" using assms(2) by (simp add: unat_of_nat)
  have ne: "\<not> list_ex (\<lambda>l. el_code l = '''' \<or> el_text l = '''') ls"
    using assms(1) by (auto simp: list_ex_iff list_all_iff line_full_def code_valid_iff token_valid_iff)
  have "\<not> length (events_file locked u ls) < 20" using events_file_start(2) [of locked u ls] by simp
  then show ?thesis
    unfolding parse_events_def events_file_start events_file_plain [OF assms(1)] event_lines_prefix [OF assms(1)]
    using parse_all_event_lines [of 0 ls, OF _ _ assms(1)] assms(2) n ne
    by (simp add: parse_line_updated [simplified] parse_line_console [simplified] parse_line_count [simplified]
          hide_events_def set_lines_def Let_def drop_replicate)
qed

section \<open>What the reader promises\<close>

text \<open>
  Property C25. The feed is safe to print and never overruns: whatever bytes the file holds, the
  reader returns twelve lines, at most twelve of them counted, each counted one with a text of 1 to
  96 characters that are letters, digits, blanks or one of \<open>. _ - :\<close>, so no control character and
  no escape sequence gets through; and a snapshot that is not hidden is a parsed private file whose
  time is not in the future, fresh exactly up to the allowed age.
\<close>

theorem events_are_printable:
  assumes "faceplate_events_read_at dir_ok uid now stale_after mem io = s"
  shows "length (es_lines s) = 12 \<and> es_count s \<le> 12 \<and>
    list_all (\<lambda>l. el_text l \<noteq> '''' \<and> length (el_text l) \<le> 96 \<and> length (el_code l) \<le> 64 \<and>
        list_all (\<lambda>c. 32 \<le> code c \<and> code c \<le> 122) (el_text l)) (take (es_count s) (es_lines s)) \<and>
    (es_visibility s = HIDDEN \<longrightarrow> s = hide_events) \<and>
    (es_visibility s \<noteq> HIDDEN \<longrightarrow> es_updated s \<le> now \<and>
       (es_visibility s = FRESH \<longleftrightarrow> now - es_updated s \<le> stale_after) \<and>
       (\<exists>bytes sn. snapshot_bytes 8192 uid io = Some bytes \<and> parse_events mem bytes hide_events = Some sn \<and>
          s = sn\<lparr>es_visibility := es_visibility s\<rparr>))"
proof (cases "s = hide_events")
  case True
  then show ?thesis by (simp add: hide_events_def)
next
  case False
  then obtain bytes sn where b: "snapshot_bytes 8192 uid io = Some bytes"
      "parse_events mem bytes hide_events = Some sn" "es_updated sn \<le> now"
      "s = sn\<lparr>es_visibility := if now - es_updated sn > stale_after then STALE else FRESH\<rparr>"
    using assms by (auto simp: faceplate_events_read_at_def not_less split: if_splits option.splits)
  note p = parse_events_Some [OF b(2)]
  have line: "list_all (\<lambda>l. el_text l \<noteq> '''' \<and> length (el_text l) \<le> 96 \<and> length (el_code l) \<le> 64 \<and>
        list_all (\<lambda>c. 32 \<le> code c \<and> code c \<le> 122) (el_text l)) (take (es_count sn) (es_lines sn))"
    using p char_bounds(1) by (auto simp: list_all_iff line_ok_def dest!: in_set_takeD)
  have "s = sn\<lparr>es_visibility := es_visibility s\<rparr>" using b(4) by simp
  with p b line show ?thesis by (cases "now - es_updated sn > stale_after") (simp_all add: not_less not_le)
qed

definition demo_line :: faceplate_event_line where
  "demo_line = \<lparr>el_code = ''boot.ok'', el_text = ''system up'', el_boottime = 7\<rparr>"

lemma demo_line_full: "line_full demo_line"
  by (simp add: line_full_def demo_line_def code_valid_def token_valid_def code_char_def token_char_def
        between_def code_def)

text \<open>
  What an agent publishes is what the console shows: a private file with up to twelve
  valid events, whatever the pieces it is read in, yields exactly those events in their order, the
  lock state and the time; it is fresh up to the allowed age and stale beyond.
\<close>

theorem published_events_are_read:
  assumes "private_file 8192 uid io (events_file locked t ls)" "list_all line_full ls" "length ls \<le> 12"
    "stale_after \<noteq> 0" "t \<le> now"
  shows "faceplate_events_read_at True uid now stale_after True io =
    \<lparr>es_visibility = (if now - t > stale_after then STALE else FRESH), es_console_locked = locked, es_updated = t,
     es_count = length ls, es_lines = ls @ replicate (12 - length ls) empty_line\<rparr>"
  using private_file_read [OF assms(1)] parse_events_file [OF assms(2,3), of locked t] assms(4,5)
  by (simp add: faceplate_events_read_at_def)

lemma demo_events_private:
  "private_file 8192 42 (demo_file (events_file True 1000 [demo_line])) (events_file True 1000 [demo_line])"
proof (rule demo_file_private)
  have "dec (unat (1000 :: u64)) = ''1000''" "dec (unat (7 :: u64)) = ''7''" "dec 0 = ''0''" "dec 1 = ''1''"
    by code_simp+
  then show "length (events_file True 1000 [demo_line]) \<le> 8192"
    by (simp add: events_file_def events_header_def event_lines_def demo_line_def)
qed (simp add: events_file_def)

theorem published_events_are_read_witness:
  "faceplate_events_read_at True 42 1500 30000 True (demo_file (events_file True 1000 [demo_line])) =
     \<lparr>es_visibility = FRESH, es_console_locked = True, es_updated = 1000, es_count = 1,
      es_lines = [demo_line] @ replicate 11 empty_line\<rparr>"
  using published_events_are_read [OF demo_events_private, of 30000 1500] demo_line_full by simp

theorem events_are_printable_witness:
  "es_count (faceplate_events_read_at True 42 1500 30000 True (demo_file (events_file True 1000 [demo_line]))) \<le> 12 \<and>
   length (es_lines (faceplate_events_read_at True 42 1500 30000 True (demo_file (events_file True 1000 [demo_line])))) = 12"
  using events_are_printable [OF refl, of True 42 1500 30000 True "demo_file (events_file True 1000 [demo_line])"]
  by blast

end
