(* ===== verification/Display_Context.thy ===== *)
theory Display_Context
  imports Events
begin

text \<open>
  The structure through which the status sources speak to a terminal, \<open>struct
  faceplate_display_context\<close> of \<open>src/faceplate_sources.h\<close>. Its strings are arrays of fixed size;
  a field is the C string in it.
\<close>

record faceplate_display_context =
  ctx_hostname :: string
  ctx_ip :: string
  ctx_image :: string
  ctx_build_channel :: string
  ctx_connection_label :: string
  ctx_connection :: faceplate_connection
  ctx_connection_alert :: bool
  ctx_serial_short :: string
  ctx_uptime_label :: string
  ctx_rauc_slot :: string
  ctx_rauc_boot :: string
  ctx_rauc_unhealthy :: bool
  ctx_supporting_line :: string
  ctx_secondary_line :: string
  ctx_compact_line :: string
  ctx_events_valid :: bool
  ctx_console_locked :: bool
  ctx_events :: faceplate_events_snapshot

text \<open>Zeroed memory; \<open>HIDDEN\<close> and \<open>CONNECTED\<close> are the first constants of their enumerations.\<close>

definition zero_events :: faceplate_events_snapshot where
  "zero_events = \<lparr>es_visibility = HIDDEN, es_console_locked = False, es_updated = 0, es_count = 0,
     es_lines = replicate 12 empty_line\<rparr>"

definition zero_context :: faceplate_display_context where
  "zero_context =
     \<lparr>ctx_hostname = '''', ctx_ip = '''', ctx_image = '''', ctx_build_channel = '''',
      ctx_connection_label = '''', ctx_connection = CONNECTED, ctx_connection_alert = False,
      ctx_serial_short = '''', ctx_uptime_label = '''', ctx_rauc_slot = '''', ctx_rauc_boot = '''',
      ctx_rauc_unhealthy = False, ctx_supporting_line = '''', ctx_secondary_line = '''',
      ctx_compact_line = '''', ctx_events_valid = False, ctx_console_locked = False,
      ctx_events = zero_events\<rparr>"

text \<open>The texts of the counted events, and the time that identifies the snapshot.\<close>

definition ctx_events_lines :: "faceplate_display_context \<Rightarrow> string list" where
  "ctx_events_lines ctx = map el_text (take (es_count (ctx_events ctx)) (es_lines (ctx_events ctx)))"

definition ctx_events_stamp :: "faceplate_display_context \<Rightarrow> u64" where
  "ctx_events_stamp ctx = es_updated (ctx_events ctx)"

end
