(* ===== verification/Terminal.thy ===== *)
theory Terminal
  imports Text Misc Display_Context
begin

text \<open>
  The terminal of a session, \<open>src/terminal.c\<close>: the screens it draws on, the life of its
  login on the pseudo terminal, the passive event feed that replaces the login while the console
  is locked, zoom and rotation, and the handlers for keyboard, pointer, timers and the pty.

  The state is a record; a handler takes it and returns the new one. Every call that leaves the
  terminal (to libtsm, the pty, a display, a timer, the event loop) is appended to the trace
  \<open>t_calls\<close>, so that the order of the calls is part of what the theorems speak about.
  The answers the terminal gets from outside while it handles one event are a record
  \<open>term_env\<close>, and the configuration is \<open>term_conf\<close>. The renderer of a screen is a
  \<open>kmscon_text\<close> of the theory Text with the vtable of its backend.
\<close>

section \<open>Data\<close>

record 'd screen =
  scr_disp :: nat
  scr_ops :: "'d text_ops"
  scr_txt :: "'d kmscon_text"
  scr_swapping :: bool
  scr_pending :: bool
  scr_hw_cursor :: bool
  scr_enabled :: bool

record kmscon_pointer =
  ptr_visible :: bool
  ptr_select :: bool
  ptr_x :: int
  ptr_y :: int
  ptr_posx :: u32
  ptr_posy :: u32
  ptr_copy :: "string option"
  ptr_copy_len :: int

datatype mouse_event = MOUSE_MOVED | MOUSE_PRESSED | MOUSE_RELEASED

datatype call =
    Vte_hard_reset | Vte_input string | Vte_keyboard u32 | Vte_paste string
  | Vte_mouse u32 u32 int int u32 mouse_event
  | Sb_max nat | Sb_reset | Sb_up nat | Sb_down nat | Sb_page_up nat | Sb_page_down nat
  | Con_resize u32 u32
  | Sel_reset | Sel_start u32 u32 | Sel_target u32 u32 | Sel_word u32 u32 | Sel_copy
  | Pty_open u32 u32 bool | Pty_close | Pty_write string | Pty_resize u32 u32
  | Asc_start | Asc_stop | Asc_pause | Asc_resume
  | Disp_clear nat | Disp_swap nat | Pageflip_register nat | Pageflip_unregister nat
  | Disp_ref nat | Disp_unref nat
  | Cursor_setup nat | Cursor_destroy nat | Cursor_show nat u32 u32 | Cursor_hide nat
  | Pointer_max u32 u32 | Blink_timers bool | Cursor_timer_restart
  | Session_foreground | Session_background | Session_bell | Session_leds u32
  | Eloop_exit

record 'd kmscon_terminal =
  t_opened :: bool
  t_awake :: bool
  t_screens :: "'d screen list"
  t_min_cols :: u32
  t_min_rows :: u32
  t_con_w :: u32
  t_con_h :: u32
  t_font_height :: u32
  t_font :: kmscon_font
  t_pointer :: kmscon_pointer
  t_blinking :: bool
  t_cursor_blinking :: bool
  t_context :: faceplate_display_context
  t_context_valid :: bool
  t_status_line :: string
  t_feed_active :: bool
  t_feed_stamp :: u64
  t_asciinema :: bool
  t_calls :: "call list"

record term_conf =
  c_mouse :: bool
  c_soft_cursor :: bool
  c_natural_scrolling :: bool
  c_issue :: bool
  c_blink :: bool
  c_bell :: bool
  c_sb_size :: nat
  c_multi_monitor :: "string option"
  c_title :: "string option"
  c_context :: "string option"
  c_logo :: "video_buffer option"
  grab_scroll_up :: conf_grab
  grab_scroll_down :: conf_grab
  grab_page_up :: conf_grab
  grab_page_down :: conf_grab
  grab_zoom_in :: conf_grab
  grab_zoom_out :: conf_grab
  grab_rotate_cw :: conf_grab
  grab_rotate_ccw :: conf_grab

record 'd term_env =
  e_foreground :: bool
  e_swap :: "nat \<Rightarrow> status"
  e_is_swapping :: "nat \<Rightarrow> bool"
  e_is_drm :: "nat \<Rightarrow> bool"
  e_width :: "nat \<Rightarrow> u32"
  e_height :: "nat \<Rightarrow> u32"
  e_setup_cursor :: "nat \<Rightarrow> status"
  e_register :: "nat \<Rightarrow> status"
  e_text_new :: "nat \<Rightarrow> errno + 'd text_ops \<times> 'd kmscon_text"
  e_mem :: bool
  e_font :: "u32 \<Rightarrow> errno + kmscon_font"
  e_pty_open :: status
  e_issue :: "string option"
  e_abi :: tsm_abi
  e_console :: tsm_console
  e_mouse_tracking :: bool
  e_key_taken :: bool
  e_selection :: "string option \<times> int"
  e_control :: bool

definition emit :: "call \<Rightarrow> 'd kmscon_terminal \<Rightarrow> 'd kmscon_terminal" where
  "emit c t = t\<lparr>t_calls := t_calls t @ [c]\<rparr>"

text \<open>The screens of a terminal belong to different displays; a screen is named by its display.\<close>

definition get_screen :: "nat \<Rightarrow> 'd kmscon_terminal \<Rightarrow> 'd screen option" where
  "get_screen d t = List.find (\<lambda>s. scr_disp s = d) (t_screens t)"

definition upd_screen :: "nat \<Rightarrow> ('d screen \<Rightarrow> 'd screen) \<Rightarrow> 'd kmscon_terminal \<Rightarrow> 'd kmscon_terminal" where
  "upd_screen d f t = t\<lparr>t_screens := map (\<lambda>s. if scr_disp s = d then f s else s) (t_screens t)\<rparr>"

definition each_screen :: "(nat \<Rightarrow> 'd kmscon_terminal \<Rightarrow> 'd kmscon_terminal) \<Rightarrow>
    'd kmscon_terminal \<Rightarrow> 'd kmscon_terminal" where
  "each_screen f t = fold f (map scr_disp (t_screens t)) t"

section \<open>The faceplate chrome\<close>

definition cell_char :: "u32 \<Rightarrow> char" where
  "cell_char ch = (if 32 \<le> ch \<and> ch < 127 then char_of (unat ch) else CHR '' '')"

definition nonempty_cells :: "tsm_screen_cell list \<Rightarrow> nat" where
  "nonempty_cells cells = length (filter (\<lambda>c. cell_ch c \<noteq> 0 \<and> cell_ch c \<noteq> 32) cells)"

text \<open>
  \<open>cells\<close> are the \<open>cols * rows\<close> cells of the console, \<open>None\<close> when libtsm has none.
  The counts are natural numbers: they stay far below the range of \<open>unsigned int\<close>.
\<close>

definition screen_looks_like_login :: "tsm_screen_cell list option \<Rightarrow> nat \<Rightarrow> nat \<Rightarrow> nat \<Rightarrow> bool" where
  "screen_looks_like_login con cols rows cursor_y =
     (case con of
        None \<Rightarrow> True
      | Some cells \<Rightarrow>
          if cols = 0 \<or> rows = 0 then True
          else
            let row = (\<lambda>y. map (\<lambda>x. cells ! (y * cols + x)) [0..<cols]);
                n = (if cols < 255 then cols else 255);
                rowbuf = (\<lambda>y. map (\<lambda>c. cell_char (cell_ch c)) (take n (row y)))
            in if list_ex (\<lambda>y. strstr (rowbuf y) ''login:'') [0..<min rows 8] then True
               else
                 let limit = (if rows < 6 then rows else 6);
                     scanned = limit * cols;
                     nonempty = nonempty_cells (concat (map row [0..<limit]))
                 in if scanned \<noteq> 0 \<and> nonempty * 20 < scanned then True
                    else if cursor_y \<le> 2 \<and> nonempty_cells (concat (map row [0..<rows])) < cols * 2 then True
                    else False)"

definition term_login_face :: "'d term_env \<Rightarrow> 'd kmscon_terminal \<Rightarrow> bool" where
  "term_login_face e t =
     screen_looks_like_login (Some (con_cells (e_console e))) (unat (t_con_w t)) (unat (t_con_h t))
       (unat (con_cursor_y (e_console e)))"

definition apply_faceplate_chrome :: "'d term_env \<Rightarrow> 'd kmscon_terminal \<Rightarrow> 'd kmscon_terminal" where
  "apply_faceplate_chrome e t =
     (let idle = t_feed_active t \<or> term_login_face e t; ctx = t_context t
      in t\<lparr>t_screens := map (\<lambda>s. s\<lparr>scr_txt :=
           (let txt = kmscon_text_set_chrome_idle (scr_txt s) idle
            in if \<not> t_context_valid t then txt
               else kmscon_text_set_faceplate_status txt (Some (ctx_hostname ctx))
                      (Some (ctx_connection_label ctx)) (Some (ctx_supporting_line ctx))
                      (Some (ctx_secondary_line ctx)) (Some (ctx_compact_line ctx))
                      (ctx_connection_alert ctx) (ctx_rauc_unhealthy ctx))\<rparr>) (t_screens t)\<rparr>)"

section \<open>Drawing\<close>

definition disable_screen :: "'d term_env \<Rightarrow> nat \<Rightarrow> 'd kmscon_terminal \<Rightarrow> 'd kmscon_terminal" where
  "disable_screen e d t =
     (case get_screen d t of
        None \<Rightarrow> t
      | Some scr \<Rightarrow>
          let t = (if scr_swapping scr then upd_screen d (\<lambda>s. s\<lparr>scr_pending := True\<rparr>) t
                   else
                     let t = upd_screen d (\<lambda>s. s\<lparr>scr_pending := False\<rparr>) t;
                         t = emit (Disp_swap d) (emit (Disp_clear d) t);
                         t = (if e_swap e d = fails EBUSY
                              then upd_screen d (\<lambda>s. s\<lparr>scr_pending := True\<rparr>) t else t)
                     in upd_screen d (\<lambda>s. s\<lparr>scr_swapping := True\<rparr>) t)
          in upd_screen d (\<lambda>s. s\<lparr>scr_enabled := False\<rparr>) t)"

text \<open>
  One frame of a screen. The results of prepare and draw are ignored by the code; a failed
  prepare leaves the renderer outside a round, so the later steps of the frame refuse to run.
\<close>

definition draw_pointer :: "'d kmscon_terminal \<Rightarrow> 'd screen \<Rightarrow> 'd kmscon_text \<Rightarrow> 'd kmscon_text" where
  "draw_pointer t scr txt =
     (if \<not> ptr_visible (t_pointer t) \<or> scr_hw_cursor scr then txt
      else snd (kmscon_text_draw_pointer (scr_ops scr) txt (of_int (ptr_x (t_pointer t)))
                  (of_int (ptr_y (t_pointer t)))))"

definition render_frame :: "'d term_env \<Rightarrow> 'd kmscon_terminal \<Rightarrow> 'd screen \<Rightarrow> 'd screen" where
  "render_frame e t scr =
     (let ops = scr_ops scr;
          txt = snd (kmscon_text_prepare ops (scr_txt scr) (con_def_attr (e_console e)) (t_blinking t));
          txt = kmscon_text_set_status txt (Some (t_status_line t));
          txt = snd (kmscon_text_draw ops (e_abi e) txt (e_console e) (t_cursor_blinking t));
          txt = draw_pointer t scr txt
      in scr\<lparr>scr_txt := snd (kmscon_text_render ops txt)\<rparr>)"

definition do_redraw_screen :: "'d term_env \<Rightarrow> nat \<Rightarrow> 'd kmscon_terminal \<Rightarrow> 'd kmscon_terminal" where
  "do_redraw_screen e d t =
     (case get_screen d t of
        None \<Rightarrow> t
      | Some scr \<Rightarrow>
          if \<not> t_awake t \<or> \<not> e_foreground e then t
          else if \<not> scr_enabled scr then (if scr_pending scr then disable_screen e d t else t)
          else
            let t = upd_screen d (\<lambda>s. s\<lparr>scr_pending := False\<rparr>) t;
                t = apply_faceplate_chrome e t;
                t = upd_screen d (render_frame e t) t;
                t = emit (Disp_swap d) t
            in if e_swap e d \<noteq> ok then t else upd_screen d (\<lambda>s. s\<lparr>scr_swapping := True\<rparr>) t)"

definition redraw_screen :: "'d term_env \<Rightarrow> nat \<Rightarrow> 'd kmscon_terminal \<Rightarrow> 'd kmscon_terminal" where
  "redraw_screen e d t =
     (case get_screen d t of
        None \<Rightarrow> t
      | Some scr \<Rightarrow>
          if \<not> t_awake t \<or> \<not> scr_enabled scr then t
          else if scr_swapping scr then upd_screen d (\<lambda>s. s\<lparr>scr_pending := True\<rparr>) t
          else do_redraw_screen e d t)"

definition redraw_all :: "'d term_env \<Rightarrow> 'd kmscon_terminal \<Rightarrow> 'd kmscon_terminal" where
  "redraw_all e t = (if \<not> t_awake t then t else each_screen (redraw_screen e) t)"

definition redraw_all_text :: "'d term_env \<Rightarrow> 'd kmscon_terminal \<Rightarrow> 'd kmscon_terminal" where
  "redraw_all_text e t =
     (if \<not> t_awake t then t
      else each_screen (\<lambda>d t.
             let t = (if e_is_swapping e d then upd_screen d (\<lambda>s. s\<lparr>scr_swapping := True\<rparr>) t else t)
             in redraw_screen e d t) t)"

definition display_pageflip :: "'d term_env \<Rightarrow> nat \<Rightarrow> 'd kmscon_terminal \<Rightarrow> 'd kmscon_terminal" where
  "display_pageflip e d t =
     (case get_screen d t of
        None \<Rightarrow> t
      | Some scr \<Rightarrow>
          let t = upd_screen d (\<lambda>s. s\<lparr>scr_swapping := False\<rparr>) t
          in if scr_pending scr then do_redraw_screen e d t else t)"

definition has_kms_display :: "'d term_env \<Rightarrow> 'd kmscon_terminal \<Rightarrow> bool" where
  "has_kms_display e t = list_ex (\<lambda>s. e_is_drm e (scr_disp s)) (t_screens t)"

definition blink_event :: "'d term_env \<Rightarrow> 'd kmscon_terminal \<Rightarrow> 'd kmscon_terminal" where
  "blink_event e t =
     (if \<not> t_awake t then t else redraw_all e (t\<lparr>t_blinking := \<not> t_blinking t\<rparr>))"

definition cursor_blink_event :: "'d term_env \<Rightarrow> 'd kmscon_terminal \<Rightarrow> 'd kmscon_terminal" where
  "cursor_blink_event e t =
     (if \<not> t_awake t then t else redraw_all e (t\<lparr>t_cursor_blinking := \<not> t_cursor_blinking t\<rparr>))"

section \<open>Hardware cursor\<close>

text \<open>
  \<open>setup_hw_cursor\<close>: without memory for the picture nothing changes, otherwise the display
  decides whether the screen has a hardware cursor. The picture is the theory Cursor's.
\<close>

definition setup_hw_cursor :: "'d term_env \<Rightarrow> nat \<Rightarrow> 'd kmscon_terminal \<Rightarrow> 'd kmscon_terminal" where
  "setup_hw_cursor e d t =
     (if \<not> e_mem e then t
      else upd_screen d (\<lambda>s. s\<lparr>scr_hw_cursor := (e_setup_cursor e d = ok)\<rparr>) (emit (Cursor_setup d) t))"

definition refresh_hw_cursor :: "'d term_env \<Rightarrow> nat \<Rightarrow> 'd kmscon_terminal \<Rightarrow> 'd kmscon_terminal" where
  "refresh_hw_cursor e d t =
     (case get_screen d t of
        None \<Rightarrow> t
      | Some scr \<Rightarrow>
          if \<not> scr_hw_cursor scr then t else setup_hw_cursor e d (emit (Cursor_destroy d) t))"

definition text_show_cursor :: "'d kmscon_terminal \<Rightarrow> 'd screen \<Rightarrow> int \<Rightarrow> int \<Rightarrow> call" where
  "text_show_cursor t scr x y =
     (let txt = scr_txt scr;
          fnt = (case txt_font txt of Some f \<Rightarrow> f | None \<Rightarrow> t_font t);
          sw = txt_cols txt * attr_width fnt; sh = txt_rows txt * attr_height fnt;
          ux = of_int x; uy = of_int y
      in (case txt_orientation txt of
            OR_NORMAL \<Rightarrow> Cursor_show (scr_disp scr) ux uy
          | OR_UPSIDE_DOWN \<Rightarrow> Cursor_show (scr_disp scr) (sw - ux) (sh - uy)
          | OR_RIGHT \<Rightarrow> Cursor_show (scr_disp scr) (sh - uy) ux
          | OR_LEFT \<Rightarrow> Cursor_show (scr_disp scr) uy (sw - ux)))"

definition hw_cursor_show :: "int \<Rightarrow> int \<Rightarrow> 'd kmscon_terminal \<Rightarrow> 'd kmscon_terminal" where
  "hw_cursor_show x y t =
     t\<lparr>t_calls := t_calls t @
         map (\<lambda>s. text_show_cursor t s x y) (filter scr_hw_cursor (t_screens t))\<rparr>"

definition hw_cursor_hide :: "'d kmscon_terminal \<Rightarrow> 'd kmscon_terminal" where
  "hw_cursor_hide t =
     t\<lparr>t_calls := t_calls t @
         map (\<lambda>s. Cursor_hide (scr_disp s)) (filter scr_hw_cursor (t_screens t))\<rparr>"

section \<open>Terminal size\<close>

abbreviation UINT_MAX :: u32 where "UINT_MAX \<equiv> 0xFFFFFFFF"
abbreviation INT_MAX :: u32 where "INT_MAX \<equiv> 0x7FFFFFFF"

definition pointer_bound :: "'d term_env \<Rightarrow> 'd screen \<Rightarrow> u32 \<times> u32 \<Rightarrow> u32 \<times> u32" where
  "pointer_bound e scr m =
     (if \<not> scr_enabled scr then m
      else
        let d = scr_disp scr;
            (sw, sh) = (if upright (txt_orientation (scr_txt scr))
                        then (e_width e d, e_height e d) else (e_height e d, e_width e d))
        in if sw = 0 \<or> sh = 0 then m
           else (if sw < fst m then sw else fst m, if sh < snd m then sh else snd m))"

definition update_pointer_max_all :: "'d term_env \<Rightarrow> 'd kmscon_terminal \<Rightarrow> 'd kmscon_terminal" where
  "update_pointer_max_all e t =
     (if \<not> t_awake t then t
      else
        let (max_x, max_y) = fold (pointer_bound e) (t_screens t) (INT_MAX, INT_MAX)
        in if max_x < INT_MAX \<and> max_y < INT_MAX then emit (Pointer_max max_x max_y) t else t)"

definition clone_min :: "'d screen \<Rightarrow> u32 \<times> u32 \<Rightarrow> u32 \<times> u32" where
  "clone_min scr m =
     (let cols = kmscon_text_get_cols (scr_txt scr); rows = kmscon_text_get_rows (scr_txt scr)
      in (if cols \<noteq> 0 \<and> cols < fst m then cols else fst m,
          if rows \<noteq> 0 \<and> rows < snd m then rows else snd m))"

definition terminal_update_size_clone :: "'d kmscon_terminal \<Rightarrow> bool \<times> 'd kmscon_terminal" where
  "terminal_update_size_clone t =
     (let (min_cols, min_rows) = fold clone_min (t_screens t) (UINT_MAX, UINT_MAX)
      in if min_cols = UINT_MAX \<or> min_rows = UINT_MAX then (False, t)
         else if min_cols = t_min_cols t \<and> min_rows = t_min_rows t then (False, t)
         else (True, t\<lparr>t_min_cols := min_cols, t_min_rows := min_rows\<rparr>))"

text \<open>\<open>max_cells\<close>, then the size of the screen it was found on.\<close>

definition largest_pick :: "'d screen \<Rightarrow> u32 \<times> u32 \<times> u32 \<Rightarrow> u32 \<times> u32 \<times> u32" where
  "largest_pick scr m =
     (let rows = kmscon_text_get_rows (scr_txt scr); cols = kmscon_text_get_cols (scr_txt scr);
          cells = rows * cols
      in if cells > fst m then (cells, cols, rows) else m)"

definition terminal_update_size_largest :: "'d term_env \<Rightarrow> 'd kmscon_terminal \<Rightarrow> bool \<times> 'd kmscon_terminal" where
  "terminal_update_size_largest e t =
     (let (max_cells, cols, rows) = fold largest_pick (t_screens t) (0, t_min_cols t, t_min_rows t);
          t = t\<lparr>t_min_cols := cols, t_min_rows := rows\<rparr>;
          t = each_screen (\<lambda>d t.
                case get_screen d t of
                  None \<Rightarrow> t
                | Some scr \<Rightarrow>
                    if kmscon_text_get_rows (scr_txt scr) \<noteq> t_min_rows t \<or>
                       kmscon_text_get_cols (scr_txt scr) \<noteq> t_min_cols t
                    then disable_screen e d t
                    else if \<not> scr_enabled scr then upd_screen d (\<lambda>s. s\<lparr>scr_enabled := True\<rparr>) t
                    else t) t
      in (max_cells > 0, t))"

definition resize_enabled :: "'d kmscon_terminal \<Rightarrow> 'd kmscon_terminal" where
  "resize_enabled t =
     t\<lparr>t_screens := map (\<lambda>s. if scr_enabled s
          then s\<lparr>scr_txt := kmscon_text_resize (scr_ops s) (scr_txt s) (t_min_cols t) (t_min_rows t)\<rparr>
          else s) (t_screens t)\<rparr>"

definition terminal_update_size :: "'d term_env \<Rightarrow> term_conf \<Rightarrow> 'd kmscon_terminal \<Rightarrow>
    bool \<times> 'd kmscon_terminal" where
  "terminal_update_size e cf t =
     (let (ret, t) = (if c_multi_monitor cf = Some ''largest'' then terminal_update_size_largest e t
                      else terminal_update_size_clone t)
      in if \<not> ret then (False, t) else (True, resize_enabled t))"

definition terminal_update_size_notify :: "'d term_env \<Rightarrow> term_conf \<Rightarrow> 'd kmscon_terminal \<Rightarrow>
    'd kmscon_terminal" where
  "terminal_update_size_notify e cf t =
     (let (changed, t) = terminal_update_size e cf t
      in if changed then
           let t = emit (Con_resize (t_min_cols t) (t_min_rows t))
                     (t\<lparr>t_con_w := t_min_cols t, t_con_h := t_min_rows t\<rparr>);
               t = emit (Pty_resize (t_min_cols t) (t_min_rows t)) t
           in redraw_all e t
         else t)"

section \<open>The login on the pty and the event feed\<close>

definition console_login_allowed :: "'d kmscon_terminal \<Rightarrow> bool" where
  "console_login_allowed t =
     (if \<not> t_context_valid t \<or> \<not> ctx_events_valid (t_context t) then True
      else \<not> ctx_console_locked (t_context t))"

definition feed_line :: "nat \<Rightarrow> string \<Rightarrow> string" where
  "feed_line cols text =
     (let n = (if length text < cols then length text else cols); n = (if n \<ge> 256 then 255 else n)
      in take n text @ [CHR 0x0D, CHR 0x0A])"

definition feed_waiting :: string where
  "feed_waiting = ''Waiting for device activity...'' @ [CHR 0x0D, CHR 0x0A]"

definition feed_inputs :: "u32 \<Rightarrow> u32 \<Rightarrow> string list \<Rightarrow> string list" where
  "feed_inputs w h lines =
     (let cols = (if w = 0 then 80 else unat w); rows = (if h = 0 then 24 else unat h);
          capacity = (if rows > 1 then rows - 1 else rows)
      in if lines = [] then [feed_waiting]
         else let start = (if length lines > capacity then length lines - capacity else 0)
              in map (feed_line cols) (drop start lines))"

definition render_events_feed :: "'d term_env \<Rightarrow> 'd kmscon_terminal \<Rightarrow> 'd kmscon_terminal" where
  "render_events_feed e t =
     (let t = emit Sb_reset (emit (Sb_max 0) (emit Vte_hard_reset t));
          t = t\<lparr>t_calls := t_calls t @
                map Vte_input (feed_inputs (t_con_w t) (t_con_h t) (ctx_events_lines (t_context t)))\<rparr>;
          t = t\<lparr>t_feed_stamp := ctx_events_stamp (t_context t)\<rparr>
      in redraw_all e t)"

definition terminal_open :: "'d term_env \<Rightarrow> term_conf \<Rightarrow> 'd kmscon_terminal \<Rightarrow> status \<times> 'd kmscon_terminal" where
  "terminal_open e cf t =
     (if \<not> console_login_allowed t then (fails EPERM, t)
      else if t_opened t then (fails EALREADY, t)
      else
        let t = emit Vte_hard_reset t;
            t = emit (Pty_open (t_con_w t) (t_con_h t) (has_kms_display e t)) t
        in if e_pty_open e \<noteq> ok then (e_pty_open e, t)
           else
             let t = t\<lparr>t_opened := True\<rparr>;
                 t = (case e_issue e of
                        Some s \<Rightarrow> if c_issue cf \<and> s \<noteq> '''' then emit (Vte_input s) t else t
                      | None \<Rightarrow> t);
                 t = (if t_asciinema t then emit Asc_start t else t);
                 t = update_pointer_max_all e t
             in (ok, redraw_all e t))"

definition terminal_close :: "'d kmscon_terminal \<Rightarrow> 'd kmscon_terminal" where
  "terminal_close t = (emit Pty_close (emit Asc_pause t))\<lparr>t_opened := False\<rparr>"

definition want_feed :: "'d kmscon_terminal \<Rightarrow> bool" where
  "want_feed t \<longleftrightarrow> t_context_valid t \<and> ctx_events_valid (t_context t) \<and> ctx_console_locked (t_context t)"

definition reconcile_console_mode :: "'d term_env \<Rightarrow> term_conf \<Rightarrow> 'd kmscon_terminal \<Rightarrow> 'd kmscon_terminal" where
  "reconcile_console_mode e cf t =
     (if want_feed t then
        let t = (if t_opened t then terminal_close t else t);
            t = (if \<not> t_feed_active t \<or> t_feed_stamp t \<noteq> ctx_events_stamp (t_context t)
                 then render_events_feed e t else t)
        in t\<lparr>t_feed_active := True\<rparr>
      else if t_feed_active t then
        let t = emit Vte_hard_reset (emit (Sb_max (c_sb_size cf)) (t\<lparr>t_feed_active := False\<rparr>))
        in if t_awake t \<and> \<not> t_opened t then snd (terminal_open e cf t) else redraw_all e t
      else if t_awake t \<and> \<not> t_opened t \<and> console_login_allowed t then snd (terminal_open e cf t)
      else t)"

text \<open>\<open>ctx\<close> is what the status sources refreshed the display context to.\<close>

definition status_event :: "'d term_env \<Rightarrow> term_conf \<Rightarrow> faceplate_display_context \<Rightarrow>
    'd kmscon_terminal \<Rightarrow> 'd kmscon_terminal" where
  "status_event e cf ctx t =
     (let t = t\<lparr>t_context := ctx, t_context_valid := True,
                t_status_line := copy_str 160 (if ctx_compact_line ctx \<noteq> '''' then ctx_compact_line ctx
                                               else ctx_supporting_line ctx)\<rparr>;
          t = apply_faceplate_chrome e t;
          t = reconcile_console_mode e cf t
      in redraw_all e t)"

definition pty_input :: "'d term_env \<Rightarrow> string \<Rightarrow> 'd kmscon_terminal \<Rightarrow> 'd kmscon_terminal" where
  "pty_input e u8 t = (if length u8 \<noteq> 0 then redraw_all e (emit (Vte_input u8) t) else t)"

definition pty_exit :: "'d term_env \<Rightarrow> term_conf \<Rightarrow> bool \<Rightarrow> 'd kmscon_terminal \<Rightarrow> 'd kmscon_terminal" where
  "pty_exit e cf restart t =
     (let t = terminal_close t
      in if restart then (if console_login_allowed t then snd (terminal_open e cf t) else t)
         else emit Eloop_exit t)"

definition write_event :: "string \<Rightarrow> 'd kmscon_terminal \<Rightarrow> 'd kmscon_terminal" where
  "write_event u8 t = emit (Pty_write u8) t"

definition asciinema_write :: "'d term_env \<Rightarrow> string \<Rightarrow> 'd kmscon_terminal \<Rightarrow> 'd kmscon_terminal" where
  "asciinema_write e u8 t =
     (if \<not> t_opened t \<or> \<not> t_awake t \<or> \<not> e_foreground e then t else redraw_all e (emit (Vte_input u8) t))"

definition osc_event :: "string \<Rightarrow> 'd kmscon_terminal \<Rightarrow> 'd kmscon_terminal" where
  "osc_event osc t =
     (if osc = ''setBackground'' then emit Session_background t
      else if osc = ''setForeground'' then emit Session_foreground t
      else t)"

definition bell_event :: "term_conf \<Rightarrow> 'd kmscon_terminal \<Rightarrow> 'd kmscon_terminal" where
  "bell_event cf t = (if \<not> c_bell cf then t else emit Session_bell t)"

definition led_event :: "u32 \<Rightarrow> 'd kmscon_terminal \<Rightarrow> 'd kmscon_terminal" where
  "led_event leds t = emit (Session_leds leds) t"

definition mouse_event :: "'d kmscon_terminal \<Rightarrow> 'd kmscon_terminal" where
  "mouse_event t = emit Sel_reset (t\<lparr>t_pointer := (t_pointer t)\<lparr>ptr_select := False\<rparr>\<rparr>)"

end
