(* ===== verification/Input_Types.thy ===== *)
theory Input_Types
  imports Prelude
begin

text \<open>
  The events of \<open>src/input/input.h\<close> that the input devices produce and that seats and terminals
  consume. A key event is seen by its consumers through its modifiers, keysyms and the mark
  \<open>handled\<close>; the device adds keycode, the ASCII keysym and the code points.
\<close>

record key_event =
  ev_mods :: u32
  ev_syms :: "u32 list"
  ev_handled :: bool

record dev_key_event = key_event +
  ev_keycode :: nat
  ev_ascii :: u32
  ev_codepoints :: "u32 list"

datatype input_ev_type =
    POINTER_MOVED | POINTER_BUTTON | POINTER_WHEEL | POINTER_SYNC | POINTER_HIDE_TIMEOUT

record input_pointer_event =
  pe_event :: input_ev_type
  pe_x :: int
  pe_y :: int
  pe_wheel :: int
  pe_button :: u8
  pe_pressed :: bool
  pe_double_click :: bool

end
