(* ===== verification/Terminal_Events.thy ===== *)
theory Terminal_Events
  imports Terminal Input_Types
begin

text \<open>
  The second half of \<open>src/terminal.c\<close>: fonts, zoom and rotation, the displays that come
  and go, the handlers for keys and the pointer, activation by the seat and the construction and
  destruction of a terminal.
\<close>

section \<open>Fonts, zoom, rotation\<close>

definition upd_txt :: "('d text_ops \<Rightarrow> 'd kmscon_text \<Rightarrow> 'd kmscon_text) \<Rightarrow> 'd screen \<Rightarrow> 'd screen" where
  "upd_txt f s = s\<lparr>scr_txt := f (scr_ops s) (scr_txt s)\<rparr>"

definition font_set :: "'d term_env \<Rightarrow> term_conf \<Rightarrow> 'd kmscon_terminal \<Rightarrow> status \<times> 'd kmscon_terminal" where
  "font_set e cf t =
     (case e_font e (t_font_height t) of
        Inl err \<Rightarrow> (fails err, t)
      | Inr fnt \<Rightarrow>
          let t = t\<lparr>t_font := fnt, t_min_cols := 0, t_min_rows := 0\<rparr>;
              t = each_screen (\<lambda>d t. refresh_hw_cursor e d
                    (upd_screen d (upd_txt (\<lambda>ops txt. snd (kmscon_text_set ops txt fnt d))) t)) t
          in (ok, terminal_update_size_notify e cf t))"

definition rotate_cw_screen :: "'d term_env \<Rightarrow> nat \<Rightarrow> 'd kmscon_terminal \<Rightarrow> 'd kmscon_terminal" where
  "rotate_cw_screen e d t =
     refresh_hw_cursor e d (upd_screen d (upd_txt (\<lambda>ops txt.
       let r = orientation_num (kmscon_text_get_orientation (Some txt));
           r = (r + 1) mod (orientation_num OR_LEFT + 1)
       in snd (kmscon_text_rotate ops txt (orientation_of_num r)))) t)"

definition rotate_ccw_screen :: "'d term_env \<Rightarrow> nat \<Rightarrow> 'd kmscon_terminal \<Rightarrow> 'd kmscon_terminal" where
  "rotate_ccw_screen e d t =
     refresh_hw_cursor e d (upd_screen d (upd_txt (\<lambda>ops txt.
       let r = kmscon_text_get_orientation (Some txt);
           r = (if r = OR_NORMAL then orientation_num OR_LEFT else orientation_num r - 1)
       in snd (kmscon_text_rotate ops txt (orientation_of_num r)))) t)"

definition rotate_cw_all :: "'d term_env \<Rightarrow> term_conf \<Rightarrow> 'd kmscon_terminal \<Rightarrow> 'd kmscon_terminal" where
  "rotate_cw_all e cf t =
     update_pointer_max_all e (terminal_update_size_notify e cf (each_screen (rotate_cw_screen e) t))"

definition rotate_ccw_all :: "'d term_env \<Rightarrow> term_conf \<Rightarrow> 'd kmscon_terminal \<Rightarrow> 'd kmscon_terminal" where
  "rotate_ccw_all e cf t =
     update_pointer_max_all e (terminal_update_size_notify e cf (each_screen (rotate_ccw_screen e) t))"

definition zoom_in :: "'d term_env \<Rightarrow> term_conf \<Rightarrow> 'd kmscon_terminal \<Rightarrow> 'd kmscon_terminal" where
  "zoom_in e cf t =
     (if t_font_height t > 150 then t
      else
        let t = t\<lparr>t_font_height := t_font_height t + increase_step (t_font t)\<rparr>;
            (ret, t) = font_set e cf t
        in if ret \<noteq> ok then t\<lparr>t_font_height := t_font_height t - increase_step (t_font t)\<rparr> else t)"

definition zoom_out :: "'d term_env \<Rightarrow> term_conf \<Rightarrow> 'd kmscon_terminal \<Rightarrow> 'd kmscon_terminal" where
  "zoom_out e cf t =
     (if t_font_height t \<le> increase_step (t_font t) then t
      else if t_font_height t - increase_step (t_font t) < 10 then t
      else
        let t = t\<lparr>t_font_height := t_font_height t - increase_step (t_font t)\<rparr>;
            (ret, t) = font_set e cf t
        in if ret \<noteq> ok then t\<lparr>t_font_height := t_font_height t + increase_step (t_font t)\<rparr> else t)"

section \<open>Displays\<close>

definition new_screen :: "nat \<Rightarrow> 'd text_ops \<Rightarrow> 'd kmscon_text \<Rightarrow> 'd screen" where
  "new_screen d ops txt =
     \<lparr>scr_disp = d, scr_ops = ops, scr_txt = txt, scr_swapping = False, scr_pending = False,
      scr_hw_cursor = False, scr_enabled = True\<rparr>"

definition terminal_add_display :: "'d term_env \<Rightarrow> term_conf \<Rightarrow> nat \<Rightarrow> 'd kmscon_terminal \<Rightarrow>
    status \<times> 'd kmscon_terminal" where
  "terminal_add_display e cf d t =
     (if get_screen d t \<noteq> None then (ok, t)
      else if \<not> e_mem e then (fails ENOMEM, t)
      else if e_register e d \<noteq> ok then (e_register e d, t)
      else
        let t = emit (Pageflip_register d) t
        in (case e_text_new e d of
              Inl err \<Rightarrow> (fails err, emit (Pageflip_unregister d) t)
            | Inr (ops, txt) \<Rightarrow>
                let txt = kmscon_text_set_identity txt (c_title cf) (c_context cf) (c_logo cf);
                    (ret, txt) = kmscon_text_set ops txt (t_font t) d
                in if ret \<noteq> ok then (ret, emit (Pageflip_unregister d) t)
                   else
                     let t = t\<lparr>t_screens := new_screen d ops txt # t_screens t\<rparr>;
                         t = (if c_mouse cf \<and> \<not> c_soft_cursor cf then setup_hw_cursor e d t else t);
                         t = terminal_update_size_notify e cf t;
                         t = upd_screen d (upd_txt (\<lambda>ops txt.
                               kmscon_text_resize ops txt (t_min_cols t) (t_min_rows t))) t;
                         t = update_pointer_max_all e t;
                         t = emit (Disp_ref d) t
                     in (ok, do_redraw_screen e d t)))"

definition free_screen :: "'d term_env \<Rightarrow> term_conf \<Rightarrow> nat \<Rightarrow> bool \<Rightarrow> 'd kmscon_terminal \<Rightarrow> 'd kmscon_terminal" where
  "free_screen e cf d update t =
     (case get_screen d t of
        None \<Rightarrow> t
      | Some scr \<Rightarrow>
          let t = (if scr_hw_cursor scr then emit (Cursor_destroy d) t else t);
              t = t\<lparr>t_screens := filter (\<lambda>s. scr_disp s \<noteq> d) (t_screens t)\<rparr>;
              t = emit (Disp_unref d) (emit (Pageflip_unregister d) t)
          in if \<not> update then t
             else terminal_update_size_notify e cf (update_pointer_max_all e t))"

definition terminal_rm_display :: "'d term_env \<Rightarrow> term_conf \<Rightarrow> nat \<Rightarrow> 'd kmscon_terminal \<Rightarrow> 'd kmscon_terminal" where
  "terminal_rm_display e cf d t = (if get_screen d t = None then t else free_screen e cf d True t)"

definition rm_all_screens :: "'d term_env \<Rightarrow> term_conf \<Rightarrow> 'd kmscon_terminal \<Rightarrow> 'd kmscon_terminal" where
  "rm_all_screens e cf t =
     (each_screen (\<lambda>d. free_screen e cf d False) t)\<lparr>t_min_cols := 0, t_min_rows := 0\<rparr>"

section \<open>Keyboard\<close>

text \<open>The result tells whether the handler marked the event as handled.\<close>

definition input_event :: "'d term_env \<Rightarrow> term_conf \<Rightarrow> key_event \<Rightarrow> 'd kmscon_terminal \<Rightarrow>
    bool \<times> 'd kmscon_terminal" where
  "input_event e cf ev t =
     (if \<not> t_opened t \<or> \<not> t_awake t \<or> ev_handled ev \<or> \<not> e_foreground e then (ev_handled ev, t)
      else
        let t = emit Cursor_timer_restart
                  ((emit Asc_stop (emit Sel_reset t))\<lparr>t_cursor_blinking := False\<rparr>);
            grab = (\<lambda>g. conf_grab_matches g (ev_mods ev) (ev_syms ev))
        in if grab (grab_scroll_up cf) then (True, redraw_all e (emit (Sb_up 1) t))
           else if grab (grab_scroll_down cf) then (True, redraw_all e (emit (Sb_down 1) t))
           else if grab (grab_page_up cf) then (True, redraw_all e (emit (Sb_page_up 1) t))
           else if grab (grab_page_down cf) then (True, redraw_all e (emit (Sb_page_down 1) t))
           else if grab (grab_zoom_in cf) then (True, zoom_in e cf t)
           else if grab (grab_zoom_out cf) then (True, zoom_out e cf t)
           else if grab (grab_rotate_cw cf) then (True, rotate_cw_all e cf t)
           else if grab (grab_rotate_ccw cf) then (True, rotate_ccw_all e cf t)
           else if length (ev_syms ev) > 1 then (ev_handled ev, t)
           else
             let t = emit (Vte_keyboard (hd (ev_syms ev))) t
             in if e_key_taken e then (True, redraw_all e (emit Sb_reset t)) else (ev_handled ev, t))"

section \<open>Pointer\<close>

text \<open>
  \<open>x / fw\<close> truncates towards zero and is stored in an unsigned, so a negative quotient becomes
  a huge cell that the comparison with the width then clamps.
\<close>

definition cell_of :: "int \<Rightarrow> u32 \<Rightarrow> u32 \<Rightarrow> u32" where
  "cell_of x fw w = (let pos = of_int (x sdiv sint fw) in if pos \<ge> w then w - 1 else pos)"

definition coord_to_cell :: "'d kmscon_terminal \<Rightarrow> int \<Rightarrow> int \<Rightarrow> u32 \<times> u32" where
  "coord_to_cell t x y =
     (cell_of x (attr_width (t_font t)) (t_con_w t), cell_of y (attr_height (t_font t)) (t_con_h t))"

definition free_selection :: "kmscon_pointer \<Rightarrow> kmscon_pointer" where
  "free_selection p = (if ptr_copy p = None then p else p\<lparr>ptr_copy := None, ptr_copy_len := 0\<rparr>)"

definition copy_selection :: "'d term_env \<Rightarrow> 'd kmscon_terminal \<Rightarrow> 'd kmscon_terminal" where
  "copy_selection e t =
     emit Sel_copy (t\<lparr>t_pointer := (free_selection (t_pointer t))
        \<lparr>ptr_copy := fst (e_selection e), ptr_copy_len := snd (e_selection e)\<rparr>\<rparr>)"

definition set_select :: "bool \<Rightarrow> 'd kmscon_terminal \<Rightarrow> 'd kmscon_terminal" where
  "set_select b t = t\<lparr>t_pointer := (t_pointer t)\<lparr>ptr_select := b\<rparr>\<rparr>"

definition start_selection :: "u32 \<Rightarrow> u32 \<Rightarrow> 'd kmscon_terminal \<Rightarrow> 'd kmscon_terminal" where
  "start_selection x y t = emit (Sel_start x y) (emit Sel_reset t)"

definition update_selection :: "u32 \<Rightarrow> u32 \<Rightarrow> 'd kmscon_terminal \<Rightarrow> 'd kmscon_terminal" where
  "update_selection x y t = emit (Sel_target x y) t"

definition forward_pointer_event :: "term_conf \<Rightarrow> input_pointer_event \<Rightarrow> 'd kmscon_terminal \<Rightarrow>
    'd kmscon_terminal" where
  "forward_pointer_event cf ev t =
     (let button = ucast (pe_button ev) :: u32;
          wheel = (if c_natural_scrolling cf then - pe_wheel ev else pe_wheel ev);
          p = t_pointer t;
          send = (\<lambda>b m. emit (Vte_mouse (ptr_posx p) (ptr_posy p) (ptr_x p) (ptr_y p) b m) t)
      in (case pe_event ev of
            POINTER_MOVED \<Rightarrow>
              send (if pe_pressed ev \<and> button \<le> 2 then button + 32 else button) MOUSE_MOVED
          | POINTER_BUTTON \<Rightarrow> send button (if pe_pressed ev then MOUSE_PRESSED else MOUSE_RELEASED)
          | POINTER_WHEEL \<Rightarrow> send (if wheel > 0 then 4 else 5) MOUSE_PRESSED
          | _ \<Rightarrow> t))"

definition handle_pointer_button :: "'d term_env \<Rightarrow> input_pointer_event \<Rightarrow> 'd kmscon_terminal \<Rightarrow>
    'd kmscon_terminal" where
  "handle_pointer_button e ev t =
     (let p = t_pointer t
      in if pe_button ev = 0 then
           (if pe_pressed ev then
              (if pe_double_click ev
               then set_select False (copy_selection e (emit (Sel_word (ptr_posx p) (ptr_posy p)) t))
               else start_selection (ptr_posx p) (ptr_posy p) (set_select True t))
            else set_select False (if ptr_select p then copy_selection e t else t))
         else if pe_button ev = 1 then
           (if pe_pressed ev then
              emit Sel_reset
                (case ptr_copy p of
                   Some s \<Rightarrow> if ptr_copy_len p \<noteq> 0 then emit (Vte_paste s) t else t
                 | None \<Rightarrow> t)
            else t)
         else if pe_button ev = 2 then emit Sel_reset (set_select False t)
         else t)"

definition pointer_moved :: "input_pointer_event \<Rightarrow> 'd kmscon_terminal \<Rightarrow> 'd kmscon_terminal" where
  "pointer_moved ev t =
     (let (posx, posy) = coord_to_cell t (pe_x ev) (pe_y ev)
      in hw_cursor_show (pe_x ev) (pe_y ev)
           (t\<lparr>t_pointer := (t_pointer t)\<lparr>ptr_x := pe_x ev, ptr_y := pe_y ev, ptr_posx := posx,
                ptr_posy := posy, ptr_visible := True\<rparr>\<rparr>))"

definition pointer_event :: "'d term_env \<Rightarrow> term_conf \<Rightarrow> input_pointer_event \<Rightarrow> 'd kmscon_terminal \<Rightarrow>
    'd kmscon_terminal" where
  "pointer_event e cf ev t =
     (let t = (if pe_event ev = POINTER_MOVED then pointer_moved ev t else t)
      in if t_feed_active t then (if pe_event ev = POINTER_SYNC then redraw_all e t else t)
         else if e_mouse_tracking e \<and> pe_event ev \<noteq> POINTER_SYNC then forward_pointer_event cf ev t
         else
           (case pe_event ev of
              POINTER_MOVED \<Rightarrow>
                if ptr_select (t_pointer t)
                then update_selection (ptr_posx (t_pointer t)) (ptr_posy (t_pointer t)) t else t
            | POINTER_BUTTON \<Rightarrow> handle_pointer_button e ev t
            | POINTER_WHEEL \<Rightarrow>
                if e_control e then (if pe_wheel ev > 0 then zoom_in e cf t else zoom_out e cf t)
                else if c_natural_scrolling cf \<noteq> (pe_wheel ev > 0) then emit (Sb_up 3) t
                else emit (Sb_down 3) t
            | POINTER_SYNC \<Rightarrow> redraw_all e t
            | POINTER_HIDE_TIMEOUT \<Rightarrow>
                hw_cursor_hide ((emit Sel_reset t)\<lparr>t_pointer := (t_pointer t)\<lparr>ptr_visible := False\<rparr>\<rparr>)))"

section \<open>Activation\<close>

definition terminal_refresh_displays :: "'d term_env \<Rightarrow> 'd kmscon_terminal \<Rightarrow> 'd kmscon_terminal" where
  "terminal_refresh_displays e t =
     (let p = t_pointer t
      in redraw_all_text e (if ptr_visible p then hw_cursor_show (ptr_x p) (ptr_y p) t else t))"

definition terminal_activate :: "'d term_env \<Rightarrow> term_conf \<Rightarrow> 'd kmscon_terminal \<Rightarrow> 'd kmscon_terminal" where
  "terminal_activate e cf t =
     (if t_screens t = [] then t
      else
        let t = t\<lparr>t_awake := True\<rparr>;
            t = (if c_blink cf then emit (Blink_timers True) t else t);
            t = (if \<not> t_opened t \<and> console_login_allowed t then snd (terminal_open e cf t)
                 else if t_opened t then emit Asc_resume t
                 else if t_feed_active t then render_events_feed e t
                 else t)
        in terminal_refresh_displays e t)"

definition terminal_deactivate :: "term_conf \<Rightarrow> 'd kmscon_terminal \<Rightarrow> 'd kmscon_terminal" where
  "terminal_deactivate cf t =
     (let t = hw_cursor_hide (t\<lparr>t_awake := False\<rparr>);
          t = (if c_blink cf then emit (Blink_timers False) t else t)
      in emit Asc_pause t)"

text \<open>What is left of the object before it is freed.\<close>

definition terminal_destroy :: "'d term_env \<Rightarrow> term_conf \<Rightarrow> 'd kmscon_terminal \<Rightarrow> 'd kmscon_terminal" where
  "terminal_destroy e cf t =
     (let t = rm_all_screens e cf (terminal_close t)
      in t\<lparr>t_pointer := free_selection (t_pointer t)\<rparr>)"

section \<open>Construction\<close>

text \<open>
  \<open>terminal_new\<close> acquires one resource after the other; the labels at its end release, in
  reverse order, those that the failing step finds acquired. The model keeps the held resources;
  \<open>try r\<close> is the result of acquiring \<open>r\<close>. The configuration steps between them
  (palettes, pty configuration) hold nothing but can fail; they have their own entries.
\<close>

datatype term_res =
    R_memory | R_sources | R_console | R_vte | R_palette | R_custom_palette | R_font | R_pty
  | R_pty_conf | R_ptyfd | R_key_cb | R_pointer_cb | R_blink_timer | R_cursor_timer
  | R_status_timer | R_asciinema

text \<open>A construction: the resources it holds when it succeeds, those it leaves when it fails.\<close>

datatype 'r new_result = Built "'r list" | Failed "'r list"

text \<open>The labels: what each of them falls through to.\<close>

definition err_free :: "term_res list" where "err_free = [R_memory]"
definition err_con :: "term_res list" where "err_con = R_console # err_free"
definition err_vte :: "term_res list" where "err_vte = R_vte # err_con"
definition err_font :: "term_res list" where "err_font = R_font # err_vte"
definition err_pty :: "term_res list" where "err_pty = R_pty # err_font"
definition err_ptyfd :: "term_res list" where "err_ptyfd = R_ptyfd # err_pty"
definition err_input :: "term_res list" where "err_input = R_key_cb # err_ptyfd"
definition err_pointer :: "term_res list" where "err_pointer = R_pointer_cb # err_input"
definition err_blink :: "term_res list" where "err_blink = R_blink_timer # err_pointer"

lemmas err_labels = err_free_def err_con_def err_vte_def err_font_def err_pty_def err_ptyfd_def
  err_input_def err_pointer_def err_blink_def

text \<open>
  The steps in order: the resource, whether the configuration asks for it, whether it is held
  afterwards, and the label its failure jumps to (\<open>None\<close> where the code goes on).
\<close>

definition new_steps :: "term_conf \<Rightarrow> bool \<Rightarrow> (term_res \<times> bool \<times> bool \<times> term_res list option) list" where
  "new_steps cf asciicast =
     [(R_memory, True, True, Some []),
      (R_sources, True, True, None),
      (R_console, True, True, Some err_free),
      (R_vte, True, True, Some err_con),
      (R_palette, True, False, Some err_vte),
      (R_custom_palette, True, False, Some err_vte),
      (R_font, True, True, Some err_vte),
      (R_pty, True, True, Some err_font),
      (R_pty_conf, True, False, Some err_pty),
      (R_ptyfd, True, True, Some err_pty),
      (R_key_cb, True, True, Some err_ptyfd),
      (R_pointer_cb, c_mouse cf, True, Some err_input),
      (R_blink_timer, c_blink cf, True, Some err_pointer),
      (R_cursor_timer, c_blink cf, True, Some err_blink),
      (R_status_timer, True, True, Some err_blink),
      (R_asciinema, asciicast, True, None)]"

fun run_steps :: "('r \<Rightarrow> status) \<Rightarrow> ('r \<times> bool \<times> bool \<times> 'r list option) list \<Rightarrow>
    'r list \<Rightarrow> 'r new_result" where
  "run_steps acquire [] held = Built held"
| "run_steps acquire ((r, wanted, holds, label) # steps) held =
     (if \<not> wanted then run_steps acquire steps held
      else if acquire r \<noteq> ok then
        (case label of
           None \<Rightarrow> run_steps acquire steps held
         | Some unwind \<Rightarrow> Failed (filter (\<lambda>h. h \<notin> set unwind) held))
      else run_steps acquire steps (if holds then r # held else held))"

definition terminal_new :: "term_conf \<Rightarrow> bool \<Rightarrow> (term_res \<Rightarrow> status) \<Rightarrow> term_res new_result" where
  "terminal_new cf asciicast acquire = run_steps acquire (new_steps cf asciicast) []"

text \<open>
  The object that a successful construction returns: zeroed memory, the configured font, the
  size libtsm gives a new console. There is no screen yet, so the size update that belongs to
  setting the font changes nothing.
\<close>

definition terminal_fresh :: "u32 \<Rightarrow> kmscon_font \<Rightarrow> u32 \<Rightarrow> u32 \<Rightarrow> bool \<Rightarrow> 'd kmscon_terminal" where
  "terminal_fresh font_size fnt w h asciicast =
     \<lparr>t_opened = False, t_awake = False, t_screens = [], t_min_cols = 0, t_min_rows = 0,
      t_con_w = w, t_con_h = h, t_font_height = font_size, t_font = fnt,
      t_pointer = \<lparr>ptr_visible = False, ptr_select = False, ptr_x = 0, ptr_y = 0, ptr_posx = 0,
                   ptr_posy = 0, ptr_copy = None, ptr_copy_len = 0\<rparr>,
      t_blinking = False, t_cursor_blinking = False,
      t_context = zero_context,
      t_context_valid = False, t_status_line = '''', t_feed_active = False, t_feed_stamp = 0,
      t_asciinema = asciicast, t_calls = []\<rparr>"

section \<open>Events\<close>

text \<open>
  Everything that reaches a terminal after its construction: the callbacks it registered and the
  operations the seat calls. Each event is handled with its own answers from outside.
\<close>

datatype event =
    Ev_status faceplate_display_context
  | Ev_key key_event
  | Ev_pointer input_pointer_event
  | Ev_pty_input string
  | Ev_pty_exit bool
  | Ev_write string
  | Ev_asciinema string
  | Ev_osc string
  | Ev_bell
  | Ev_leds u32
  | Ev_mouse_mode
  | Ev_blink
  | Ev_cursor_blink
  | Ev_pageflip nat
  | Ev_add_display nat
  | Ev_rm_display nat
  | Ev_activate
  | Ev_deactivate
  | Ev_refresh

fun dispatch :: "term_conf \<Rightarrow> 'd term_env \<Rightarrow> event \<Rightarrow> 'd kmscon_terminal \<Rightarrow> 'd kmscon_terminal" where
  "dispatch cf e (Ev_status ctx) t = status_event e cf ctx t"
| "dispatch cf e (Ev_key ev) t = snd (input_event e cf ev t)"
| "dispatch cf e (Ev_pointer ev) t = pointer_event e cf ev t"
| "dispatch cf e (Ev_pty_input s) t = pty_input e s t"
| "dispatch cf e (Ev_pty_exit restart) t = pty_exit e cf restart t"
| "dispatch cf e (Ev_write s) t = write_event s t"
| "dispatch cf e (Ev_asciinema s) t = asciinema_write e s t"
| "dispatch cf e (Ev_osc s) t = osc_event s t"
| "dispatch cf e Ev_bell t = bell_event cf t"
| "dispatch cf e (Ev_leds l) t = led_event l t"
| "dispatch cf e Ev_mouse_mode t = mouse_event t"
| "dispatch cf e Ev_blink t = blink_event e t"
| "dispatch cf e Ev_cursor_blink t = cursor_blink_event e t"
| "dispatch cf e (Ev_pageflip d) t = display_pageflip e d t"
| "dispatch cf e (Ev_add_display d) t = snd (terminal_add_display e cf d t)"
| "dispatch cf e (Ev_rm_display d) t = terminal_rm_display e cf d t"
| "dispatch cf e Ev_activate t = terminal_activate e cf t"
| "dispatch cf e Ev_deactivate t = terminal_deactivate cf t"
| "dispatch cf e Ev_refresh t = terminal_refresh_displays e t"

text \<open>A step handles one event, whatever the answers from outside are.\<close>

inductive term_step :: "term_conf \<Rightarrow> event \<Rightarrow> 'd kmscon_terminal \<Rightarrow> 'd kmscon_terminal \<Rightarrow> bool"
  for cf where
  step: "term_step cf ev t (dispatch cf e ev t)"

inductive_cases term_stepE: "term_step cf ev t t'"

inductive term_reachable :: "term_conf \<Rightarrow> 'd kmscon_terminal \<Rightarrow> bool" for cf where
  fresh: "term_reachable cf (terminal_fresh font_size fnt w h asciicast)"
| event: "term_reachable cf t \<Longrightarrow> term_step cf ev t t' \<Longrightarrow> term_reachable cf t'"

end
