(* ===== verification/Terminal_Facts.thy ===== *)
theory Terminal_Facts
  imports Terminal_Events
begin

text \<open>
  The frame of the terminal's operations: what drawing, resizing, zooming, rotating and pointer
  handling leave alone. \<open>harmless t t'\<close> says that from \<open>t\<close> to \<open>t'\<close> the login and
  the feed did not change state, the screens belong to the same displays, and every call made on
  the way is of no effect on both. The facts are collected in \<open>harmless\<close>.
\<close>

named_theorems harmless_intro \<open>operations that keep the login, the feed and the set of displays\<close>

abbreviation displays :: "'d kmscon_terminal \<Rightarrow> nat list" where
  "displays t \<equiv> map scr_disp (t_screens t)"

fun quiet :: "call \<Rightarrow> bool" where
  "quiet (Vte_keyboard k) \<longleftrightarrow> False"
| "quiet (Vte_paste s) \<longleftrightarrow> False"
| "quiet (Vte_mouse a b c d e f) \<longleftrightarrow> False"
| "quiet (Pty_open w h k) \<longleftrightarrow> False"
| "quiet Pty_close \<longleftrightarrow> False"
| "quiet (Pty_write s) \<longleftrightarrow> False"
| "quiet (Pageflip_register d) \<longleftrightarrow> False"
| "quiet (Pageflip_unregister d) \<longleftrightarrow> False"
| "quiet (Disp_ref d) \<longleftrightarrow> False"
| "quiet (Disp_unref d) \<longleftrightarrow> False"
| "quiet _ \<longleftrightarrow> True"

definition same_login :: "'d kmscon_terminal \<Rightarrow> 'd kmscon_terminal \<Rightarrow> bool" where
  "same_login t t' \<longleftrightarrow> t_opened t' = t_opened t \<and> t_awake t' = t_awake t \<and>
     t_context t' = t_context t \<and> t_context_valid t' = t_context_valid t \<and>
     t_feed_active t' = t_feed_active t"

definition made :: "(call \<Rightarrow> bool) \<Rightarrow> 'd kmscon_terminal \<Rightarrow> 'd kmscon_terminal \<Rightarrow> bool" where
  "made K t t' \<longleftrightarrow> (\<exists>cs. t_calls t' = t_calls t @ cs \<and> list_all K cs)"

definition harmless :: "'d kmscon_terminal \<Rightarrow> 'd kmscon_terminal \<Rightarrow> bool" where
  "harmless t t' \<longleftrightarrow> same_login t t' \<and> displays t' = displays t \<and> made quiet t t'"

lemma made_refl [simp, intro]: "made K t t"
  by (simp add: made_def)

lemma made_trans [trans]: "made K t u \<Longrightarrow> made K u v \<Longrightarrow> made K t v"
  by (fastforce simp: made_def)

lemma made_mono: "made K t u \<Longrightarrow> (\<And>c. K c \<Longrightarrow> L c) \<Longrightarrow> made L t u"
  unfolding made_def by (metis list.pred_mono_strong)

lemma harmless_refl [simp, intro]: "harmless t t"
  by (simp add: harmless_def same_login_def)

lemma harmless_trans [trans]: "harmless t u \<Longrightarrow> harmless u v \<Longrightarrow> harmless t v"
  by (auto simp: harmless_def same_login_def intro: made_trans)

lemma harmless_same:
  "harmless t t' \<Longrightarrow> t_opened t' = t_opened t \<and> t_awake t' = t_awake t \<and> want_feed t' = want_feed t \<and>
     console_login_allowed t' = console_login_allowed t \<and> t_feed_active t' = t_feed_active t \<and>
     displays t' = displays t"
  by (auto simp: harmless_def same_login_def want_feed_def console_login_allowed_def)

lemma harmless_made: "harmless t t' \<Longrightarrow> made quiet t t'"
  by (simp add: harmless_def)

lemma harmless_emit [harmless_intro]: "quiet c \<Longrightarrow> harmless t u \<Longrightarrow> harmless t (emit c u)"
  by (auto simp: harmless_def emit_def same_login_def made_def)

lemma harmless_calls:
  "harmless t u \<Longrightarrow> list_all quiet cs \<Longrightarrow> harmless t (u\<lparr>t_calls := t_calls u @ cs\<rparr>)"
  by (auto simp: harmless_def same_login_def made_def)

lemma displays_map: "(\<And>s. scr_disp (f s) = scr_disp s) \<Longrightarrow> map scr_disp (map f ss) = map scr_disp ss"
  by (simp add: comp_def)

lemma displays_upd_screen [simp]:
  "(\<And>s. scr_disp (f s) = scr_disp s) \<Longrightarrow> displays (upd_screen d f t) = displays t"
  by (simp add: upd_screen_def comp_def if_distrib cong: if_cong)

lemma harmless_screens:
  assumes "harmless t u" "map scr_disp ss = displays u"
  shows "harmless t (u\<lparr>t_screens := ss\<rparr>)"
  using assms by (simp add: harmless_def same_login_def made_def)

lemma harmless_map_screens:
  "harmless t u \<Longrightarrow> (\<And>s. scr_disp (f s) = scr_disp s) \<Longrightarrow>
     harmless t (u\<lparr>t_screens := map f (t_screens u)\<rparr>)"
  by (rule harmless_screens) (simp_all add: comp_def)

lemma harmless_upd_screen [harmless_intro]:
  "harmless t u \<Longrightarrow> (\<And>s. scr_disp (f s) = scr_disp s) \<Longrightarrow> harmless t (upd_screen d f u)"
  unfolding upd_screen_def by (rule harmless_map_screens) auto

lemma harmless_fold:
  "harmless t u \<Longrightarrow> (\<And>d u. harmless t u \<Longrightarrow> harmless t (f d u)) \<Longrightarrow> harmless t (fold f ds u)"
  by (induction ds arbitrary: u) auto

lemma harmless_each_screen [harmless_intro]:
  "harmless t u \<Longrightarrow> (\<And>d u. harmless t u \<Longrightarrow> harmless t (f d u)) \<Longrightarrow> harmless t (each_screen f u)"
  by (simp add: each_screen_def harmless_fold)

text \<open>The fields that no operation of the login reads may be updated at will.\<close>

lemma harmless_fields [harmless_intro]:
  "harmless t u \<Longrightarrow> harmless t (u\<lparr>t_blinking := b\<rparr>)"
  "harmless t u \<Longrightarrow> harmless t (u\<lparr>t_cursor_blinking := b\<rparr>)"
  "harmless t u \<Longrightarrow> harmless t (u\<lparr>t_min_cols := c\<rparr>)"
  "harmless t u \<Longrightarrow> harmless t (u\<lparr>t_min_rows := c\<rparr>)"
  "harmless t u \<Longrightarrow> harmless t (u\<lparr>t_con_w := c\<rparr>)"
  "harmless t u \<Longrightarrow> harmless t (u\<lparr>t_con_h := c\<rparr>)"
  "harmless t u \<Longrightarrow> harmless t (u\<lparr>t_min_cols := c, t_min_rows := c'\<rparr>)"
  "harmless t u \<Longrightarrow> harmless t (u\<lparr>t_con_w := c, t_con_h := c'\<rparr>)"
  "harmless t u \<Longrightarrow> harmless t (u\<lparr>t_font_height := c\<rparr>)"
  "harmless t u \<Longrightarrow> harmless t (u\<lparr>t_font := fnt, t_min_cols := c, t_min_rows := c'\<rparr>)"
  "harmless t u \<Longrightarrow> harmless t (u\<lparr>t_pointer := p\<rparr>)"
  "harmless t u \<Longrightarrow> harmless t (u\<lparr>t_feed_stamp := s\<rparr>)"
  by (simp_all add: harmless_def same_login_def made_def)

lemma get_screen_None: "get_screen d t = None \<longleftrightarrow> d \<notin> set (displays t)"
  by (auto simp: get_screen_def find_None_iff)

lemma get_screen_Some: "get_screen d t = Some s \<Longrightarrow> scr_disp s = d \<and> d \<in> set (displays t)"
  by (auto simp: get_screen_def find_Some_iff)

section \<open>The operations that are harmless\<close>

lemma harmless_apply_faceplate_chrome [harmless_intro]:
  "harmless t u \<Longrightarrow> harmless t (apply_faceplate_chrome e u)"
  by (simp add: apply_faceplate_chrome_def Let_def harmless_map_screens)

lemma harmless_disable_screen [harmless_intro]: "harmless t u \<Longrightarrow> harmless t (disable_screen e d u)"
  by (auto simp: disable_screen_def Let_def split: option.splits intro!: harmless_intro)

lemma scr_disp_render_frame [simp]: "scr_disp (render_frame e t s) = scr_disp s"
  by (simp add: render_frame_def Let_def)

lemma harmless_do_redraw_screen [harmless_intro]: "harmless t u \<Longrightarrow> harmless t (do_redraw_screen e d u)"
  by (auto simp: do_redraw_screen_def Let_def split: option.splits intro!: harmless_intro)

lemma harmless_redraw_screen [harmless_intro]: "harmless t u \<Longrightarrow> harmless t (redraw_screen e d u)"
  by (auto simp: redraw_screen_def split: option.splits intro!: harmless_intro)

lemma harmless_redraw_all [harmless_intro]: "harmless t u \<Longrightarrow> harmless t (redraw_all e u)"
  by (auto simp: redraw_all_def intro!: harmless_intro)

lemma harmless_redraw_all_text [harmless_intro]: "harmless t u \<Longrightarrow> harmless t (redraw_all_text e u)"
  by (auto simp: redraw_all_text_def Let_def intro!: harmless_intro)

lemma harmless_display_pageflip [harmless_intro]: "harmless t u \<Longrightarrow> harmless t (display_pageflip e d u)"
  by (auto simp: display_pageflip_def Let_def split: option.splits intro!: harmless_intro)

lemma harmless_blink_event [harmless_intro]: "harmless t u \<Longrightarrow> harmless t (blink_event e u)"
  by (auto simp: blink_event_def intro!: harmless_intro)

lemma harmless_cursor_blink_event [harmless_intro]: "harmless t u \<Longrightarrow> harmless t (cursor_blink_event e u)"
  by (auto simp: cursor_blink_event_def intro!: harmless_intro)

lemma harmless_setup_hw_cursor [harmless_intro]: "harmless t u \<Longrightarrow> harmless t (setup_hw_cursor e d u)"
  by (auto simp: setup_hw_cursor_def intro!: harmless_intro)

lemma harmless_refresh_hw_cursor [harmless_intro]: "harmless t u \<Longrightarrow> harmless t (refresh_hw_cursor e d u)"
  by (auto simp: refresh_hw_cursor_def split: option.splits intro!: harmless_intro)

lemma quiet_text_show_cursor [simp]: "quiet (text_show_cursor t s x y)"
  by (simp add: text_show_cursor_def Let_def split: orientation.splits)

lemma harmless_hw_cursor_show [harmless_intro]: "harmless t u \<Longrightarrow> harmless t (hw_cursor_show x y u)"
  by (auto simp: hw_cursor_show_def list_all_iff intro!: harmless_calls)

lemma harmless_hw_cursor_hide [harmless_intro]: "harmless t u \<Longrightarrow> harmless t (hw_cursor_hide u)"
  by (auto simp: hw_cursor_hide_def list_all_iff intro!: harmless_calls)

lemma harmless_update_pointer_max_all [harmless_intro]:
  "harmless t u \<Longrightarrow> harmless t (update_pointer_max_all e u)"
  by (auto simp: update_pointer_max_all_def case_prod_beta intro!: harmless_intro)

lemma harmless_update_size_clone [harmless_intro]:
  "harmless t u \<Longrightarrow> harmless t (snd (terminal_update_size_clone u))"
  by (auto simp: terminal_update_size_clone_def Let_def case_prod_beta intro!: harmless_intro)

lemma harmless_update_size_largest [harmless_intro]:
  "harmless t u \<Longrightarrow> harmless t (snd (terminal_update_size_largest e u))"
  by (auto simp: terminal_update_size_largest_def Let_def case_prod_beta split: option.splits
           intro!: harmless_intro)

lemma harmless_resize_enabled [harmless_intro]: "harmless t u \<Longrightarrow> harmless t (resize_enabled u)"
  unfolding resize_enabled_def by (rule harmless_map_screens) auto

lemma harmless_update_size [harmless_intro]:
  "harmless t u \<Longrightarrow> harmless t (snd (terminal_update_size e cf u))"
  by (auto simp: terminal_update_size_def Let_def case_prod_beta intro!: harmless_intro)

lemma harmless_update_size_notify [harmless_intro]:
  "harmless t u \<Longrightarrow> harmless t (terminal_update_size_notify e cf u)"
  by (auto simp: terminal_update_size_notify_def Let_def case_prod_beta intro!: harmless_intro)

lemma scr_disp_upd_txt [simp]: "scr_disp (upd_txt f s) = scr_disp s"
  by (simp add: upd_txt_def)

lemma harmless_font_set [harmless_intro]: "harmless t u \<Longrightarrow> harmless t (snd (font_set e cf u))"
  by (auto simp: font_set_def Let_def split: sum.splits intro!: harmless_intro)

lemma harmless_rotate_cw_all [harmless_intro]: "harmless t u \<Longrightarrow> harmless t (rotate_cw_all e cf u)"
  by (auto simp: rotate_cw_all_def rotate_cw_screen_def intro!: harmless_intro)

lemma harmless_rotate_ccw_all [harmless_intro]: "harmless t u \<Longrightarrow> harmless t (rotate_ccw_all e cf u)"
  by (auto simp: rotate_ccw_all_def rotate_ccw_screen_def intro!: harmless_intro)

lemma harmless_zoom_in [harmless_intro]: "harmless t u \<Longrightarrow> harmless t (zoom_in e cf u)"
  by (auto simp: zoom_in_def Let_def case_prod_beta intro!: harmless_intro)

lemma harmless_zoom_out [harmless_intro]: "harmless t u \<Longrightarrow> harmless t (zoom_out e cf u)"
  by (auto simp: zoom_out_def Let_def case_prod_beta intro!: harmless_intro)

lemma harmless_refresh_displays [harmless_intro]:
  "harmless t u \<Longrightarrow> harmless t (terminal_refresh_displays e u)"
  by (auto simp: terminal_refresh_displays_def Let_def intro!: harmless_intro)

lemma harmless_pointer_moved [harmless_intro]: "harmless t u \<Longrightarrow> harmless t (pointer_moved ev u)"
  by (auto simp: pointer_moved_def case_prod_beta intro!: harmless_intro)

lemma harmless_render_events_feed [harmless_intro]:
  "harmless t u \<Longrightarrow> harmless t (render_events_feed e u)"
  by (auto simp: render_events_feed_def Let_def list_all_iff intro!: harmless_intro harmless_calls)

lemma harmless_selections [harmless_intro]:
  "harmless t u \<Longrightarrow> harmless t (copy_selection e u)"
  "harmless t u \<Longrightarrow> harmless t (set_select b u)"
  "harmless t u \<Longrightarrow> harmless t (start_selection x y u)"
  "harmless t u \<Longrightarrow> harmless t (update_selection x y u)"
  by (auto simp: copy_selection_def set_select_def start_selection_def update_selection_def
           intro!: harmless_intro)

lemma harmless_screenless [harmless_intro]:
  "harmless t u \<Longrightarrow> harmless t (osc_event s u)"
  "harmless t u \<Longrightarrow> harmless t (bell_event cf u)"
  "harmless t u \<Longrightarrow> harmless t (led_event l u)"
  "harmless t u \<Longrightarrow> harmless t (mouse_event u)"
  "harmless t u \<Longrightarrow> harmless t (pty_input e s u)"
  "harmless t u \<Longrightarrow> harmless t (asciinema_write e s u)"
  by (auto simp: osc_event_def bell_event_def led_event_def mouse_event_def pty_input_def
                 asciinema_write_def intro!: harmless_intro)

end
