(* ===== verification/Terminal_Login.thy ===== *)
theory Terminal_Login
  imports Terminal_Facts
begin

text \<open>
  The life of the login of a terminal: what the status of the console makes of it, what reaches
  libtsm while the console is locked, and that the terminal holds exactly one page-flip
  registration and one reference for each of its screens, in every state it can reach.
\<close>

section \<open>Invariants\<close>

text \<open>The feed runs exactly while the console is locked, and then there is no login.\<close>

definition mode_inv :: "'d kmscon_terminal \<Rightarrow> bool" where
  "mode_inv t \<longleftrightarrow> (t_feed_active t \<longleftrightarrow> want_feed t) \<and> (t_feed_active t \<longrightarrow> \<not> t_opened t)"

definition held_once :: "'d kmscon_terminal \<Rightarrow> bool" where
  "held_once t \<longleftrightarrow> distinct (displays t) \<and>
     (\<forall>d. count_list (t_calls t) (Pageflip_register d) =
            count_list (t_calls t) (Pageflip_unregister d) + (if d \<in> set (displays t) then 1 else 0) \<and>
          count_list (t_calls t) (Disp_ref d) =
            count_list (t_calls t) (Disp_unref d) + (if d \<in> set (displays t) then 1 else 0))"

text \<open>Calls that hand what a user does, or a new login, to the terminal emulation.\<close>

fun user_input :: "call \<Rightarrow> bool" where
  "user_input (Vte_keyboard k) \<longleftrightarrow> True"
| "user_input (Vte_paste s) \<longleftrightarrow> True"
| "user_input (Vte_mouse a b c d e f) \<longleftrightarrow> True"
| "user_input (Pty_open w h k) \<longleftrightarrow> True"
| "user_input (Pty_write s) \<longleftrightarrow> True"
| "user_input _ \<longleftrightarrow> False"

fun display_call :: "call \<Rightarrow> bool" where
  "display_call (Pageflip_register d) \<longleftrightarrow> True"
| "display_call (Pageflip_unregister d) \<longleftrightarrow> True"
| "display_call (Disp_ref d) \<longleftrightarrow> True"
| "display_call (Disp_unref d) \<longleftrightarrow> True"
| "display_call _ \<longleftrightarrow> False"

lemma quiet_no_user_input: "quiet c \<Longrightarrow> \<not> user_input c"
  by (cases c) simp_all

lemma quiet_no_display_call: "quiet c \<Longrightarrow> \<not> display_call c"
  by (cases c) simp_all

lemma harmless_no_input: "harmless t u \<Longrightarrow> made (\<lambda>c. \<not> user_input c) t u"
  by (rule made_mono [OF harmless_made quiet_no_user_input])

lemma harmless_no_display: "harmless t u \<Longrightarrow> made (\<lambda>c. \<not> display_call c) t u"
  by (rule made_mono [OF harmless_made quiet_no_display_call])

text \<open>What every handler but the status timer and the display hotplug does at most.\<close>

definition keeps :: "'d kmscon_terminal \<Rightarrow> 'd kmscon_terminal \<Rightarrow> bool" where
  "keeps t t' \<longleftrightarrow> t_context t' = t_context t \<and> t_context_valid t' = t_context_valid t \<and>
     t_feed_active t' = t_feed_active t \<and> displays t' = displays t \<and>
     (t_opened t' \<longrightarrow> t_opened t \<or> \<not> want_feed t) \<and> made (\<lambda>c. \<not> display_call c) t t'"

lemma keeps_trans [trans]: "keeps t u \<Longrightarrow> keeps u v \<Longrightarrow> keeps t v"
  unfolding keeps_def by (elim conjE, intro conjI) (auto simp only: want_feed_def intro: made_trans)

lemma harmless_keeps: "harmless t t' \<Longrightarrow> keeps t t'"
  unfolding keeps_def harmless_def same_login_def
  by (elim conjE, intro conjI) (simp_all add: made_mono [OF _ quiet_no_display_call])

lemma keeps_emit: "keeps t u \<Longrightarrow> \<not> display_call c \<Longrightarrow> keeps t (emit c u)"
  by (auto simp: keeps_def emit_def made_def)

lemma keeps_harmless: "keeps t u \<Longrightarrow> harmless u v \<Longrightarrow> keeps t v"
  by (blast intro: keeps_trans harmless_keeps)

lemma mode_inv_keeps: "mode_inv t \<Longrightarrow> keeps t t' \<Longrightarrow> mode_inv t'"
  unfolding mode_inv_def keeps_def want_feed_def by (elim conjE, simp) blast

lemma count_list_none: "\<forall>c\<in>set cs. P c \<Longrightarrow> \<not> P x \<Longrightarrow> count_list cs x = 0"
  by (auto simp: count_list_0_iff)

lemma held_once_made:
  assumes "held_once t" "displays t' = displays t" "made (\<lambda>c. \<not> display_call c) t t'"
  shows "held_once t'"
proof -
  obtain cs where cs: "t_calls t' = t_calls t @ cs" "\<forall>c\<in>set cs. \<not> display_call c"
    using assms(3) by (auto simp: made_def list_all_iff)
  have "count_list cs c = 0" if "display_call c" for c
    using count_list_none [OF cs(2)] that by blast
  then show ?thesis
    using assms(1,2) cs(1) by (auto simp: held_once_def)
qed

lemma held_once_keeps: "held_once t \<Longrightarrow> keeps t t' \<Longrightarrow> held_once t'"
  by (auto simp: keeps_def intro: held_once_made)

section \<open>Opening and closing\<close>

lemma login_allowed_iff: "console_login_allowed t \<longleftrightarrow> \<not> want_feed t"
  by (auto simp: console_login_allowed_def want_feed_def)

lemma terminal_open_locked: "want_feed t \<Longrightarrow> terminal_open e cf t = (fails EPERM, t)"
  by (simp add: terminal_open_def login_allowed_iff)

text \<open>What follows a successful \<open>kmscon_pty_open\<close> is harmless.\<close>

lemma terminal_open_allowed:
  assumes "\<not> want_feed t" "\<not> t_opened t"
  shows "fst (terminal_open e cf t) = e_pty_open e"
    "e_pty_open e \<noteq> ok \<Longrightarrow> snd (terminal_open e cf t) =
       emit (Pty_open (t_con_w t) (t_con_h t) (has_kms_display e t)) (emit Vte_hard_reset t)"
    "e_pty_open e = ok \<Longrightarrow>
       harmless ((emit (Pty_open (t_con_w t) (t_con_h t) (has_kms_display e t)) (emit Vte_hard_reset t))
                 \<lparr>t_opened := True\<rparr>) (snd (terminal_open e cf t))"
  using assms
  by (auto simp: terminal_open_def login_allowed_iff Let_def emit_def [of Vte_hard_reset]
        emit_def [of "Pty_open w h k" for w h k] has_kms_display_def
        split: option.splits intro!: harmless_intro)

lemma has_kms_emit [simp]: "has_kms_display e (emit c t) = has_kms_display e t"
  by (simp add: has_kms_display_def emit_def)

lemma terminal_open_frame:
  "keeps t (snd (terminal_open e cf t))"
  "t_awake (snd (terminal_open e cf t)) = t_awake t"
  "t_opened (snd (terminal_open e cf t)) \<longleftrightarrow> t_opened t \<or> (\<not> want_feed t \<and> e_pty_open e = ok)"
proof -
  let ?u = "emit (Pty_open (t_con_w t) (t_con_h t) (has_kms_display e t)) (emit Vte_hard_reset t)"
  consider (no) "want_feed t" | (twice) "\<not> want_feed t" "t_opened t"
    | (err) "\<not> want_feed t" "\<not> t_opened t" "e_pty_open e \<noteq> ok"
    | (fine) "\<not> want_feed t" "\<not> t_opened t" "e_pty_open e = ok" by blast
  then have "keeps t (snd (terminal_open e cf t)) \<and> t_awake (snd (terminal_open e cf t)) = t_awake t \<and>
    (t_opened (snd (terminal_open e cf t)) \<longleftrightarrow> t_opened t \<or> (\<not> want_feed t \<and> e_pty_open e = ok))"
  proof cases
    case no
    then show ?thesis by (simp add: terminal_open_locked harmless_keeps)
  next
    case twice
    then show ?thesis by (simp add: terminal_open_def login_allowed_iff harmless_keeps)
  next
    case err
    then show ?thesis
      using terminal_open_allowed(2) [OF err(1,2) err(3), of cf]
      by (simp add: keeps_emit harmless_keeps) (simp add: emit_def)
  next
    case fine
    note h = terminal_open_allowed(3) [OF fine, of cf]
    have "keeps t (?u\<lparr>t_opened := True\<rparr>)"
      using fine(1) by (auto simp: keeps_def emit_def made_def)
    then have "keeps t (snd (terminal_open e cf t))"
      using h by (rule keeps_harmless)
    then show ?thesis
      using harmless_same [OF h] fine(1,3) by (simp add: emit_def)
  qed
  then show "keeps t (snd (terminal_open e cf t))"
    "t_awake (snd (terminal_open e cf t)) = t_awake t"
    "t_opened (snd (terminal_open e cf t)) \<longleftrightarrow> t_opened t \<or> (\<not> want_feed t \<and> e_pty_open e = ok)"
    by blast+
qed

lemma keeps_close: "keeps t (terminal_close t)"
  by (auto simp: keeps_def terminal_close_def emit_def made_def)

lemma terminal_close_simps [simp]:
  "t_opened (terminal_close t) = False" "t_awake (terminal_close t) = t_awake t"
  "want_feed (terminal_close t) = want_feed t" "t_feed_active (terminal_close t) = t_feed_active t"
  "displays (terminal_close t) = displays t"
  by (simp_all add: terminal_close_def emit_def want_feed_def)

section \<open>The status of the console\<close>

text \<open>What stays when the mode changes: all but the login and the feed themselves.\<close>

definition same_place :: "'d kmscon_terminal \<Rightarrow> 'd kmscon_terminal \<Rightarrow> bool" where
  "same_place t t' \<longleftrightarrow> t_context t' = t_context t \<and> t_context_valid t' = t_context_valid t \<and>
     t_awake t' = t_awake t \<and> displays t' = displays t \<and> made (\<lambda>c. \<not> display_call c) t t'"

lemma same_place_trans [trans]: "same_place t u \<Longrightarrow> same_place u v \<Longrightarrow> same_place t v"
  unfolding same_place_def by (elim conjE, intro conjI) (auto simp only: intro: made_trans)

lemma same_place_refl [simp]: "same_place t t"
  by (simp add: same_place_def)

lemma harmless_same_place: "harmless t u \<Longrightarrow> same_place t u"
  unfolding same_place_def harmless_def same_login_def
  by (elim conjE, intro conjI) (simp_all add: made_mono [OF _ quiet_no_display_call])

lemma same_place_feed [simp]: "same_place t (u\<lparr>t_feed_active := b\<rparr>) \<longleftrightarrow> same_place t u"
  by (simp add: same_place_def made_def)

lemma same_place_close: "same_place t (terminal_close t)"
  by (auto simp: same_place_def terminal_close_def emit_def made_def)

lemma same_place_open: "same_place t (snd (terminal_open e cf t))"
  using terminal_open_frame(1,2) [where t = t and e = e and cf = cf]
  by (simp add: same_place_def keeps_def)

lemma want_feed_same_place: "same_place t u \<Longrightarrow> want_feed u = want_feed t"
  by (simp add: same_place_def want_feed_def)

lemma want_feed_active [simp]: "want_feed (t\<lparr>t_feed_active := b\<rparr>) = want_feed t"
  by (simp add: want_feed_def)

lemma reconcile_locked:
  assumes "want_feed t"
  shows "same_place t (reconcile_console_mode e cf t)"
    "t_feed_active (reconcile_console_mode e cf t)" "\<not> t_opened (reconcile_console_mode e cf t)"
    "made (\<lambda>c. \<not> user_input c) t (reconcile_console_mode e cf t)"
proof -
  define u where "u = (if t_opened t then terminal_close t else t)"
  define v where "v = (if \<not> t_feed_active u \<or> t_feed_stamp u \<noteq> ctx_events_stamp (t_context u)
                       then render_events_feed e u else u)"
  have r: "reconcile_console_mode e cf t = v\<lparr>t_feed_active := True\<rparr>"
    using assms by (simp add: reconcile_console_mode_def u_def v_def Let_def)
  have tu: "same_place t u" "made (\<lambda>c. \<not> user_input c) t u" "\<not> t_opened u"
    using same_place_close [of t]
    by (simp_all add: u_def) (simp add: terminal_close_def emit_def made_def)
  have uv: "harmless u v"
    by (auto simp: v_def intro: harmless_intro)
  show "same_place t (reconcile_console_mode e cf t)"
    using tu(1) harmless_same_place [OF uv] by (simp add: r same_place_trans [of t u v])
  show "t_feed_active (reconcile_console_mode e cf t)"
    by (simp add: r)
  show "\<not> t_opened (reconcile_console_mode e cf t)"
    using tu(3) harmless_same [OF uv] by (simp add: r)
  have "made (\<lambda>c. \<not> user_input c) t v"
    using tu(2) harmless_no_input [OF uv] by (rule made_trans)
  then show "made (\<lambda>c. \<not> user_input c) t (reconcile_console_mode e cf t)"
    by (simp add: r made_def)
qed

lemma reconcile_unlocked:
  assumes "\<not> want_feed t"
  shows "same_place t (reconcile_console_mode e cf t)"
    "\<not> t_feed_active (reconcile_console_mode e cf t)"
    "t_opened (reconcile_console_mode e cf t) \<longleftrightarrow> t_opened t \<or> (t_awake t \<and> e_pty_open e = ok)"
proof -
  define u where "u = (if t_feed_active t
     then emit Vte_hard_reset (emit (Sb_max (c_sb_size cf)) (t\<lparr>t_feed_active := False\<rparr>)) else t)"
  have u: "same_place t u" "\<not> t_feed_active u" "t_opened u = t_opened t" "t_awake u = t_awake t"
    by (auto simp: u_def same_place_def made_def emit_def)
  have nw: "\<not> want_feed u"
    using want_feed_same_place [OF u(1)] assms by simp
  have "reconcile_console_mode e cf t = snd (terminal_open e cf u) \<and> t_awake t \<and> \<not> t_opened t \<or>
        harmless u (reconcile_console_mode e cf t) \<and> (t_awake t \<longrightarrow> t_opened t)"
    using assms by (auto simp: reconcile_console_mode_def u_def Let_def login_allowed_iff emit_def
                    intro: harmless_intro)
  then have "same_place u (reconcile_console_mode e cf t) \<and>
    \<not> t_feed_active (reconcile_console_mode e cf t) \<and>
    (t_opened (reconcile_console_mode e cf t) \<longleftrightarrow> t_opened t \<or> (t_awake t \<and> e_pty_open e = ok))"
    using u nw same_place_open [of u e cf] terminal_open_frame [where t = u and e = e and cf = cf]
    by (auto simp: keeps_def dest: harmless_same harmless_same_place)
  then show "same_place t (reconcile_console_mode e cf t)"
    "\<not> t_feed_active (reconcile_console_mode e cf t)"
    "t_opened (reconcile_console_mode e cf t) \<longleftrightarrow> t_opened t \<or> (t_awake t \<and> e_pty_open e = ok)"
    using same_place_trans [OF u(1)] by blast+
qed

text \<open>The terminal with the refreshed context, before the mode follows it.\<close>

definition refreshed :: "'d term_env \<Rightarrow> faceplate_display_context \<Rightarrow> 'd kmscon_terminal \<Rightarrow> 'd kmscon_terminal" where
  "refreshed e ctx t = apply_faceplate_chrome e (t\<lparr>t_context := ctx, t_context_valid := True,
     t_status_line := copy_str 160 (if ctx_compact_line ctx \<noteq> '''' then ctx_compact_line ctx
                                    else ctx_supporting_line ctx)\<rparr>)"

lemma status_event_refreshed:
  "status_event e cf ctx t = redraw_all e (reconcile_console_mode e cf (refreshed e ctx t))"
  by (simp add: status_event_def refreshed_def Let_def)

lemma refreshed_simps [simp]:
  "t_context (refreshed e ctx t) = ctx" "t_context_valid (refreshed e ctx t)"
  "t_opened (refreshed e ctx t) = t_opened t" "t_awake (refreshed e ctx t) = t_awake t"
  "displays (refreshed e ctx t) = displays t" "t_calls (refreshed e ctx t) = t_calls t"
  "want_feed (refreshed e ctx t) \<longleftrightarrow> ctx_events_valid ctx \<and> ctx_console_locked ctx"
  by (simp_all add: refreshed_def apply_faceplate_chrome_def Let_def want_feed_def comp_def)

lemma status_event_frame:
  "displays (status_event e cf ctx t) = displays t" "t_awake (status_event e cf ctx t) = t_awake t"
  "t_feed_active (status_event e cf ctx t) \<longleftrightarrow> ctx_events_valid ctx \<and> ctx_console_locked ctx"
  "want_feed (status_event e cf ctx t) \<longleftrightarrow> ctx_events_valid ctx \<and> ctx_console_locked ctx"
  "t_opened (status_event e cf ctx t) \<longleftrightarrow> \<not> (ctx_events_valid ctx \<and> ctx_console_locked ctx) \<and>
     (t_opened t \<or> (t_awake t \<and> e_pty_open e = ok))"
  "made (\<lambda>c. \<not> display_call c) t (status_event e cf ctx t)"
proof -
  let ?u = "refreshed e ctx t"
  let ?r = "reconcile_console_mode e cf ?u"
  have h: "harmless ?r (status_event e cf ctx t)"
    by (simp add: status_event_refreshed harmless_intro)
  have p: "same_place ?u ?r" "t_feed_active ?r \<longleftrightarrow> want_feed ?u"
    "t_opened ?r \<longleftrightarrow> \<not> want_feed ?u \<and> (t_opened t \<or> (t_awake t \<and> e_pty_open e = ok))"
    using reconcile_locked [where t = ?u and e = e and cf = cf] reconcile_unlocked [where t = ?u and e = e and cf = cf]
    by (cases "want_feed ?u"; simp)+
  have "made (\<lambda>c. \<not> display_call c) t ?r"
    using p(1) by (simp add: same_place_def made_def)
  then show "made (\<lambda>c. \<not> display_call c) t (status_event e cf ctx t)"
    using harmless_no_display [OF h] by (rule made_trans)
  show "displays (status_event e cf ctx t) = displays t"
    "t_awake (status_event e cf ctx t) = t_awake t"
    "t_feed_active (status_event e cf ctx t) \<longleftrightarrow> ctx_events_valid ctx \<and> ctx_console_locked ctx"
    "want_feed (status_event e cf ctx t) \<longleftrightarrow> ctx_events_valid ctx \<and> ctx_console_locked ctx"
    "t_opened (status_event e cf ctx t) \<longleftrightarrow> \<not> (ctx_events_valid ctx \<and> ctx_console_locked ctx) \<and>
       (t_opened t \<or> (t_awake t \<and> e_pty_open e = ok))"
    using harmless_same [OF h] want_feed_same_place [OF p(1)] p by (simp_all add: same_place_def)
qed

lemma status_event_locked:
  assumes "ctx_events_valid ctx" "ctx_console_locked ctx"
  shows "made (\<lambda>c. \<not> user_input c) t (status_event e cf ctx t)"
proof -
  let ?u = "refreshed e ctx t"
  let ?r = "reconcile_console_mode e cf ?u"
  have "made (\<lambda>c. \<not> user_input c) t ?r"
    using reconcile_locked(4) [where t = ?u and e = e and cf = cf] assms by (simp add: made_def)
  moreover have "made (\<lambda>c. \<not> user_input c) ?r (status_event e cf ctx t)"
    by (rule harmless_no_input) (simp add: status_event_refreshed harmless_intro)
  ultimately show ?thesis
    by (rule made_trans)
qed

section \<open>Keyboard, pointer and activation\<close>

lemma harmless_conf_handlers [harmless_intro]:
  "harmless t u \<Longrightarrow> harmless t (hw_cursor_hide u)"
  "harmless t u \<Longrightarrow> harmless t (pointer_moved ev u)"
  by (auto intro: harmless_intro)

lemma input_event_closed: "\<not> t_opened t \<Longrightarrow> snd (input_event e cf ev t) = t"
  by (simp add: input_event_def)

text \<open>A key press does something harmless, or hands the key to the emulation.\<close>

lemma input_event_shape:
  obtains (aside) "harmless t (snd (input_event e cf ev t))"
  | (typed) u where "harmless t u"
      "harmless (emit (Vte_keyboard (hd (ev_syms ev))) u) (snd (input_event e cf ev t))"
proof -
  define u where "u = emit Cursor_timer_restart
    ((emit Asc_stop (emit Sel_reset t))\<lparr>t_cursor_blinking := False\<rparr>)"
  define k where "k = emit (Vte_keyboard (hd (ev_syms ev))) u"
  have tu: "harmless t u"
    by (simp add: u_def harmless_intro)
  have "harmless t (snd (input_event e cf ev t)) \<or> snd (input_event e cf ev t) = k \<or>
        snd (input_event e cf ev t) = redraw_all e (emit Sb_reset k)"
    using tu by (simp add: input_event_def Let_def u_def [symmetric] k_def harmless_intro)
  then show ?thesis
    using tu by (elim disjE) (auto intro: aside typed simp: k_def harmless_intro)
qed

lemma keeps_input_event: "keeps t (snd (input_event e cf ev t))"
proof (cases rule: input_event_shape [of t e cf ev])
  case aside
  then show ?thesis by (rule harmless_keeps)
next
  case (typed u)
  then show ?thesis
    by (intro keeps_harmless [OF keeps_emit [OF harmless_keeps]]) simp_all
qed

lemma keeps_forward_pointer_event: "keeps t (forward_pointer_event cf ev t)"
  by (auto simp: forward_pointer_event_def Let_def harmless_keeps split: input_ev_type.splits
           intro!: keeps_emit)

lemma handle_pointer_button_shape:
  "handle_pointer_button e ev t = emit Sel_reset (emit (Vte_paste p) t) \<or> harmless t (handle_pointer_button e ev t)"
  if "\<And>s. ptr_copy (t_pointer t) = Some s \<Longrightarrow> p = s"
  unfolding handle_pointer_button_def Let_def
  by (cases "ptr_copy (t_pointer t)") (simp_all add: harmless_intro that)

lemma keeps_handle_pointer_button: "keeps t (handle_pointer_button e ev t)"
  using handle_pointer_button_shape [of t "the (ptr_copy (t_pointer t))" e ev]
  by (auto simp: harmless_keeps keeps_emit)

lemma pointer_moved_feed [simp]: "t_feed_active (pointer_moved ev t) = t_feed_active t"
  using harmless_same [OF harmless_pointer_moved [OF harmless_refl]] by blast

lemma pointer_event_feed: "t_feed_active t \<Longrightarrow> harmless t (pointer_event e cf ev t)"
  by (auto simp: pointer_event_def Let_def intro!: harmless_intro)

lemma pointer_event_shape:
  obtains (aside) "harmless t (pointer_event e cf ev t)"
  | (handed) u where "harmless t u" "pointer_event e cf ev t = forward_pointer_event cf ev u"
  | (button) u where "harmless t u" "pointer_event e cf ev t = handle_pointer_button e ev u"
proof -
  define u where "u = (if pe_event ev = POINTER_MOVED then pointer_moved ev t else t)"
  have tu: "harmless t u"
    by (simp add: u_def harmless_intro)
  show ?thesis
  proof (cases "\<not> t_feed_active u \<and> e_mouse_tracking e \<and> pe_event ev \<noteq> POINTER_SYNC")
    case True
    then have "pointer_event e cf ev t = forward_pointer_event cf ev u"
      by (simp add: pointer_event_def Let_def u_def)
    then show ?thesis by (rule handed [OF tu])
  next
    case no: False
    show ?thesis
    proof (cases "\<not> t_feed_active u \<and> pe_event ev = POINTER_BUTTON")
      case True
      then have "u = t"
        by (simp add: u_def)
      with no True have "pointer_event e cf ev t = handle_pointer_button e ev u"
        by (simp add: pointer_event_def Let_def)
      then show ?thesis by (rule button [OF tu])
    next
      case False
      with no have "harmless u (pointer_event e cf ev t)"
        unfolding pointer_event_def Let_def u_def [symmetric]
        by (cases "t_feed_active u"; cases "pe_event ev") (simp_all add: harmless_intro)
      then show ?thesis by (rule aside [OF harmless_trans [OF tu]])
    qed
  qed
qed

lemma keeps_pointer_event: "keeps t (pointer_event e cf ev t)"
proof (cases rule: pointer_event_shape [of t e cf ev])
  case aside
  then show ?thesis by (rule harmless_keeps)
next
  case (handed u)
  then show ?thesis
    using keeps_trans [OF harmless_keeps [OF handed(1)] keeps_forward_pointer_event] by simp
next
  case (button u)
  then show ?thesis
    using keeps_trans [OF harmless_keeps [OF button(1)] keeps_handle_pointer_button] by simp
qed

text \<open>Only the seat wakes a terminal up or puts it to sleep.\<close>

lemma awake_simps [simp]:
  "t_awake (emit c t) = t_awake t" "t_awake (set_select b t) = t_awake t"
  "t_awake (copy_selection e t) = t_awake t" "t_awake (start_selection x y t) = t_awake t"
  by (simp_all add: emit_def set_select_def copy_selection_def start_selection_def)

lemma awake_forward_pointer [simp]: "t_awake (forward_pointer_event cf ev t) = t_awake t"
  by (simp add: forward_pointer_event_def Let_def split: input_ev_type.split)

lemma awake_pointer_button [simp]: "t_awake (handle_pointer_button e ev t) = t_awake t"
  by (simp add: handle_pointer_button_def Let_def split: option.split)

lemma harmless_awake: "harmless t u \<Longrightarrow> t_awake u = t_awake t"
  by (simp add: harmless_def same_login_def)

lemma awake_input_event: "t_awake (snd (input_event e cf ev t)) = t_awake t"
proof (cases rule: input_event_shape [of t e cf ev])
  case (typed u)
  then show ?thesis using harmless_awake [OF typed(1)] harmless_awake [OF typed(2)] by simp
qed (rule harmless_awake)

lemma awake_pointer_event: "t_awake (pointer_event e cf ev t) = t_awake t"
proof (cases rule: pointer_event_shape [of t e cf ev])
  case (handed u)
  then show ?thesis using harmless_awake [OF handed(1)] by simp
next
  case (button u)
  then show ?thesis using harmless_awake [OF button(1)] by simp
qed (rule harmless_awake)

lemma awake_pty_exit: "t_awake (pty_exit e cf restart t) = t_awake t"
  by (simp add: pty_exit_def Let_def terminal_open_frame(2))

lemma keeps_awake [simp]: "keeps t (u\<lparr>t_awake := b\<rparr>) \<longleftrightarrow> keeps t u"
  by (simp add: keeps_def made_def)

lemma terminal_activate_frame:
  "keeps t (terminal_activate e cf t)"
  "want_feed t \<Longrightarrow> \<not> t_opened t \<Longrightarrow> made (\<lambda>c. \<not> user_input c) t (terminal_activate e cf t)"
proof -
  define u where "u = (if c_blink cf then emit (Blink_timers True) (t\<lparr>t_awake := True\<rparr>)
                       else t\<lparr>t_awake := True\<rparr>)"
  define v where "v = (if \<not> t_opened u \<and> console_login_allowed u then snd (terminal_open e cf u)
     else if t_opened u then emit Asc_resume u
     else if t_feed_active u then render_events_feed e u else u)"
  have act: "t_screens t \<noteq> [] \<Longrightarrow> terminal_activate e cf t = terminal_refresh_displays e v"
    by (simp add: terminal_activate_def u_def v_def Let_def)
  have tu: "keeps t u" "made (\<lambda>c. \<not> user_input c) t u" "want_feed u = want_feed t"
    "t_opened u = t_opened t"
    by (auto simp: u_def emit_def keeps_def made_def want_feed_def)
  have uv: "keeps u v"
    using terminal_open_frame(1) [where t = u and e = e and cf = cf]
    by (simp add: v_def harmless_keeps harmless_intro)
  have vr: "harmless v (terminal_refresh_displays e v)"
    by (simp add: harmless_intro)
  show "keeps t (terminal_activate e cf t)"
  proof (cases "t_screens t = []")
    case True
    then show ?thesis by (simp add: terminal_activate_def harmless_keeps)
  next
    case False
    then show ?thesis
      using keeps_trans [OF tu(1) keeps_harmless [OF uv vr]] by (simp add: act)
  qed
  assume locked: "want_feed t" "\<not> t_opened t"
  then have "harmless u v"
    using tu(3,4) by (simp add: v_def login_allowed_iff harmless_intro)
  then have "made (\<lambda>c. \<not> user_input c) t (terminal_refresh_displays e v)"
    using tu(2) harmless_no_input harmless_trans [OF _ vr] made_trans by blast
  then show "made (\<lambda>c. \<not> user_input c) t (terminal_activate e cf t)"
    by (cases "t_screens t = []") (simp add: terminal_activate_def, simp add: act)
qed

lemma terminal_deactivate_frame:
  "keeps t (terminal_deactivate cf t)" "made (\<lambda>c. \<not> user_input c) t (terminal_deactivate cf t)"
proof -
  have h: "harmless (t\<lparr>t_awake := False\<rparr>) (terminal_deactivate cf t)"
    by (simp add: terminal_deactivate_def Let_def harmless_intro)
  show "keeps t (terminal_deactivate cf t)"
    by (rule keeps_harmless [OF _ h]) (simp add: harmless_keeps)
  show "made (\<lambda>c. \<not> user_input c) t (terminal_deactivate cf t)"
    using harmless_no_input [OF h] by (simp add: made_def)
qed

lemma pty_exit_frame:
  "keeps t (pty_exit e cf restart t)"
  "want_feed t \<Longrightarrow> made (\<lambda>c. \<not> user_input c) t (pty_exit e cf restart t)"
proof -
  have "keeps t (terminal_close t)"
    by (rule keeps_close)
  then show "keeps t (pty_exit e cf restart t)"
    using keeps_trans [OF _ terminal_open_frame(1)] by (auto simp: pty_exit_def Let_def intro: keeps_emit)
  show "want_feed t \<Longrightarrow> made (\<lambda>c. \<not> user_input c) t (pty_exit e cf restart t)"
    by (simp add: pty_exit_def Let_def login_allowed_iff) (simp add: terminal_close_def emit_def made_def)
qed

section \<open>Displays that come and go\<close>

text \<open>
  \<open>balance cs ds\<close>: after the calls \<open>cs\<close> the terminal holds one page-flip registration and
  one reference for each display of \<open>ds\<close>, and nothing else.
\<close>

definition balance :: "call list \<Rightarrow> nat list \<Rightarrow> bool" where
  "balance cs ds \<longleftrightarrow> distinct ds \<and>
     (\<forall>d. count_list cs (Pageflip_register d) =
            count_list cs (Pageflip_unregister d) + (if d \<in> set ds then 1 else 0) \<and>
          count_list cs (Disp_ref d) = count_list cs (Disp_unref d) + (if d \<in> set ds then 1 else 0))"

lemma held_once_balance: "held_once t \<longleftrightarrow> balance (t_calls t) (displays t)"
  by (simp add: held_once_def balance_def)

lemma balance_skip: "balance cs ds \<Longrightarrow> \<forall>c\<in>set cs'. \<not> display_call c \<Longrightarrow> balance (cs @ cs') ds"
  by (simp add: balance_def count_list_none)

lemma balance_add: "balance cs ds \<Longrightarrow> d \<notin> set ds \<Longrightarrow> \<forall>c\<in>set cs'. \<not> display_call c \<Longrightarrow>
    balance (cs @ Pageflip_register d # cs' @ [Disp_ref d]) (d # ds)"
  by (simp add: balance_def count_list_none)

lemma balance_undo: "balance cs ds \<Longrightarrow> balance (cs @ [Pageflip_register d, Pageflip_unregister d]) ds"
  by (simp add: balance_def)

lemma balance_remove: "balance cs ds \<Longrightarrow> d \<in> set ds \<Longrightarrow> \<not> display_call c \<Longrightarrow>
    balance (cs @ [c, Pageflip_unregister d, Disp_unref d]) (filter (\<lambda>x. x \<noteq> d) ds) \<and>
    balance (cs @ [Pageflip_unregister d, Disp_unref d]) (filter (\<lambda>x. x \<noteq> d) ds)"
  by (auto simp: balance_def)

lemma held_once_harmless: "held_once t \<Longrightarrow> harmless t u \<Longrightarrow> held_once u"
  by (rule held_once_keeps [OF _ harmless_keeps])

text \<open>The terminal right after the new screen was linked.\<close>

definition linked :: "nat \<Rightarrow> 'd text_ops \<Rightarrow> 'd kmscon_text \<Rightarrow> 'd kmscon_terminal \<Rightarrow> 'd kmscon_terminal" where
  "linked d ops txt t = (emit (Pageflip_register d) t)\<lparr>t_screens := new_screen d ops txt # t_screens t\<rparr>"

lemma terminal_add_display_cases:
  obtains (same) "snd (terminal_add_display e cf d t) = t"
      "get_screen d t \<noteq> None \<or> fst (terminal_add_display e cf d t) \<noteq> ok"
  | (undone) "snd (terminal_add_display e cf d t) =
      emit (Pageflip_unregister d) (emit (Pageflip_register d) t)"
      "fst (terminal_add_display e cf d t) \<noteq> ok"
  | (added) vt tx u where "d \<notin> set (displays t)" "harmless (linked d vt tx t) u"
      "harmless (emit (Disp_ref d) u) (snd (terminal_add_display e cf d t))"
proof -
  consider (a) "get_screen d t \<noteq> None \<or> \<not> e_mem e \<or> e_register e d \<noteq> ok"
    | (b) err where "get_screen d t = None" "e_mem e" "e_register e d = ok" "e_text_new e d = Inl err"
    | (c) vt tx where "get_screen d t = None" "e_mem e" "e_register e d = ok"
        "e_text_new e d = Inr (vt, tx)"
    by (metis sumE surj_pair)
  then show ?thesis
  proof cases
    case a
    then show ?thesis by (intro same) (auto simp: terminal_add_display_def)
  next
    case b
    then show ?thesis by (intro undone) (simp_all add: terminal_add_display_def Let_def)
  next
    case c
    let ?tx = "kmscon_text_set_identity tx (c_title cf) (c_context cf) (c_logo cf)"
    show ?thesis
    proof (cases "kmscon_text_set vt ?tx (t_font t) d")
      case (Pair ret tx')
      show ?thesis
      proof (cases "ret = ok")
        case False
        then show ?thesis
          using c Pair by (intro undone) (simp_all add: terminal_add_display_def Let_def emit_def)
      next
        case True
        let ?t = "linked d vt tx' t"
        let ?a = "if c_mouse cf \<and> \<not> c_soft_cursor cf then setup_hw_cursor e d ?t else ?t"
        let ?b = "terminal_update_size_notify e cf ?a"
        let ?u = "update_pointer_max_all e (upd_screen d (upd_txt (\<lambda>ops txt.
                    kmscon_text_resize ops txt (t_min_cols ?b) (t_min_rows ?b))) ?b)"
        have "snd (terminal_add_display e cf d t) = do_redraw_screen e d (emit (Disp_ref d) ?u)"
          using c Pair True by (simp add: terminal_add_display_def Let_def linked_def emit_def)
        moreover have "harmless ?t ?u"
          by (simp add: harmless_intro)
        moreover have "d \<notin> set (displays t)"
          using c(1) by (simp add: get_screen_None)
        ultimately show ?thesis
          by (intro added) (auto intro: harmless_intro)
      qed
    qed
  qed
qed

lemma add_display_shows:
  assumes "fst (terminal_add_display e cf d t) = ok"
  shows "d \<in> set (displays (snd (terminal_add_display e cf d t)))"
proof (cases rule: terminal_add_display_cases [of e cf d t])
  case same
  then show ?thesis using assms get_screen_None [of d t] by auto
next
  case undone
  then show ?thesis using assms by simp
next
  case (added vt tx u)
  then show ?thesis
    using harmless_same [OF added(2)] harmless_same [OF added(3)]
    by (simp add: linked_def emit_def new_screen_def)
qed

lemma held_once_add_display:
  assumes "held_once t"
  shows "held_once (snd (terminal_add_display e cf d t))"
proof (cases rule: terminal_add_display_cases [of e cf d t])
  case same
  then show ?thesis using assms by simp
next
  case undone
  then show ?thesis using assms balance_undo by (auto simp: held_once_balance emit_def)
next
  case (added vt tx u)
  obtain cs where cs: "t_calls u = t_calls t @ Pageflip_register d # cs" "\<forall>c\<in>set cs. \<not> display_call c"
    "displays u = d # displays t"
    using harmless_no_display [OF added(2)] harmless_same [OF added(2)]
    by (auto simp: made_def linked_def emit_def list_all_iff new_screen_def)
  have "held_once (emit (Disp_ref d) u)"
    using balance_add [OF assms [unfolded held_once_balance] added(1) cs(2)] cs
    by (simp add: held_once_balance emit_def)
  then show ?thesis
    using added(3) by (rule held_once_harmless)
qed

lemma displays_filter: "map scr_disp (filter (\<lambda>s. scr_disp s \<noteq> d) ss) = filter (\<lambda>x. x \<noteq> d) (map scr_disp ss)"
  by (induction ss) auto

text \<open>A screen that is freed, before the size of the terminal follows.\<close>

lemma free_screen_False:
  assumes "get_screen d t = Some s"
  shows "displays (free_screen e cf d False t) = filter (\<lambda>x. x \<noteq> d) (displays t)"
    "t_calls (free_screen e cf d False t) = t_calls t @ (if scr_hw_cursor s then [Cursor_destroy d] else []) @
       [Pageflip_unregister d, Disp_unref d]"
    "same_login t (free_screen e cf d False t)"
  using assms by (simp_all add: free_screen_def Let_def emit_def displays_filter same_login_def)

lemma free_screen_update: "harmless (free_screen e cf d False t) (free_screen e cf d update t)"
proof -
  have "free_screen e cf d True t =
      (if get_screen d t = None then t
       else terminal_update_size_notify e cf (update_pointer_max_all e (free_screen e cf d False t)))"
    by (simp add: free_screen_def Let_def split: option.splits)
  moreover have "get_screen d t = None \<Longrightarrow> free_screen e cf d False t = t"
    by (simp add: free_screen_def)
  ultimately show ?thesis
    by (cases update) (simp_all add: harmless_intro)
qed

lemma held_once_free_screen:
  assumes "held_once t"
  shows "held_once (free_screen e cf d update t)"
proof (cases "get_screen d t")
  case None
  then show ?thesis using assms by (simp add: free_screen_def)
next
  case (Some s)
  then have "d \<in> set (displays t)"
    by (blast dest: get_screen_Some)
  with assms have "held_once (free_screen e cf d False t)"
    using balance_remove [of "t_calls t" "displays t" d "Cursor_destroy d"]
    by (simp add: held_once_balance free_screen_False [OF Some])
  then show ?thesis
    using free_screen_update by (rule held_once_harmless)
qed

lemma held_once_rm_display: "held_once t \<Longrightarrow> held_once (terminal_rm_display e cf d t)"
  by (simp add: terminal_rm_display_def held_once_free_screen)

text \<open>The login does not notice a display that comes or goes.\<close>

lemma same_login_trans: "same_login t u \<Longrightarrow> same_login u v \<Longrightarrow> same_login t v"
  by (simp add: same_login_def)

lemma same_login_add_display: "same_login t (snd (terminal_add_display e cf d t))"
proof (cases rule: terminal_add_display_cases [of e cf d t])
  case (added vt tx u)
  have "same_login t (emit (Disp_ref d) u)"
    using added(2) by (simp add: harmless_def same_login_def linked_def emit_def)
  then show ?thesis
    using added(3) by (auto simp: harmless_def intro: same_login_trans)
qed (simp_all add: same_login_def emit_def)

lemma same_login_rm_display: "same_login t (terminal_rm_display e cf d t)"
proof (cases "get_screen d t")
  case None
  then show ?thesis by (simp add: terminal_rm_display_def same_login_def)
next
  case (Some s)
  then show ?thesis
    using free_screen_False(3) [OF Some, of e cf] free_screen_update [of e cf d t True]
    by (auto simp: terminal_rm_display_def harmless_def intro: same_login_trans)
qed

lemma mode_inv_same_login: "mode_inv t \<Longrightarrow> same_login t u \<Longrightarrow> mode_inv u"
  by (simp add: mode_inv_def same_login_def want_feed_def)

lemma no_user_input_displays:
  "made (\<lambda>c. \<not> user_input c) t (snd (terminal_add_display e cf d t))"
  "made (\<lambda>c. \<not> user_input c) t (terminal_rm_display e cf d t)"
proof -
  show "made (\<lambda>c. \<not> user_input c) t (snd (terminal_add_display e cf d t))"
  proof (cases rule: terminal_add_display_cases [of e cf d t])
    case (added vt tx u)
    have "made (\<lambda>c. \<not> user_input c) t (linked d vt tx t)"
      "made (\<lambda>c. \<not> user_input c) u (emit (Disp_ref d) u)"
      by (simp_all add: linked_def emit_def made_def)
    then show ?thesis
      using harmless_no_input [OF added(2)] harmless_no_input [OF added(3)]
      by (blast intro: made_trans)
  qed (simp_all add: emit_def made_def)
  show "made (\<lambda>c. \<not> user_input c) t (terminal_rm_display e cf d t)"
  proof (cases "get_screen d t")
    case None
    then show ?thesis by (simp add: terminal_rm_display_def)
  next
    case (Some s)
    have "made (\<lambda>c. \<not> user_input c) t (free_screen e cf d False t)"
      using free_screen_False(2) [OF Some] by (simp add: made_def)
    then show ?thesis
      using made_trans [OF _ harmless_no_input [OF free_screen_update]] Some
      by (simp add: terminal_rm_display_def)
  qed
qed

section \<open>All events\<close>

definition hotplug :: "event \<Rightarrow> bool" where
  "hotplug ev \<longleftrightarrow> (\<exists>d. ev = Ev_add_display d \<or> ev = Ev_rm_display d)"

definition status_timer :: "event \<Rightarrow> bool" where
  "status_timer ev \<longleftrightarrow> (\<exists>ctx. ev = Ev_status ctx)"

lemma dispatch_keeps:
  "\<not> hotplug ev \<Longrightarrow> \<not> status_timer ev \<Longrightarrow> keeps t (dispatch cf e ev t)"
  by (cases ev)
     (simp_all add: hotplug_def status_timer_def harmless_keeps harmless_intro keeps_input_event keeps_pointer_event
        pty_exit_frame write_event_def keeps_emit terminal_activate_frame terminal_deactivate_frame)

lemma mode_inv_dispatch: "mode_inv t \<Longrightarrow> mode_inv (dispatch cf e ev t)"
proof -
  assume m: "mode_inv t"
  consider (s) ctx where "ev = Ev_status ctx" | (h) "hotplug ev"
    | (k) "\<not> hotplug ev" "\<not> status_timer ev" unfolding status_timer_def by blast
  then show ?thesis
  proof cases
    case s
    then show ?thesis by (simp add: mode_inv_def status_event_frame)
  next
    case h
    then show ?thesis
      using mode_inv_same_login [OF m same_login_add_display]
        mode_inv_same_login [OF m same_login_rm_display] by (auto simp: hotplug_def)
  next
    case k
    then show ?thesis using mode_inv_keeps [OF m dispatch_keeps] by blast
  qed
qed

lemma held_once_dispatch: "held_once t \<Longrightarrow> held_once (dispatch cf e ev t)"
proof -
  assume m: "held_once t"
  consider (s) ctx where "ev = Ev_status ctx" | (h) "hotplug ev"
    | (k) "\<not> hotplug ev" "\<not> status_timer ev" unfolding status_timer_def by blast
  then show ?thesis
  proof cases
    case s
    then show ?thesis
      using held_once_made [OF m status_event_frame(1) status_event_frame(6)] by simp
  next
    case h
    then show ?thesis
      using held_once_add_display [OF m] held_once_rm_display [OF m] by (auto simp: hotplug_def)
  next
    case k
    then show ?thesis using held_once_keeps [OF m dispatch_keeps] by blast
  qed
qed

lemma term_reachable_inv: "term_reachable cf t \<Longrightarrow> mode_inv t \<and> held_once t"
proof (induction rule: term_reachable.induct)
  case (fresh font_size fnt w h asciicast)
  show ?case
    by (simp add: mode_inv_def held_once_def terminal_fresh_def want_feed_def)
next
  case (event t ev t')
  then show ?case
    by (auto elim!: term_stepE intro: mode_inv_dispatch held_once_dispatch)
qed

lemma want_feed_dispatch:
  "\<not> status_timer ev \<Longrightarrow> want_feed (dispatch cf e ev t) = want_feed t"
proof (cases "hotplug ev")
  case True
  then show ?thesis
    using same_login_add_display [of t e cf] same_login_rm_display [of t e cf]
    by (auto simp: hotplug_def same_login_def want_feed_def)
next
  case False
  assume "\<not> status_timer ev"
  then show ?thesis
    using dispatch_keeps [OF False, of t cf e] by (simp add: keeps_def want_feed_def)
qed

lemma locked_no_user_input:
  assumes "mode_inv t" "want_feed t" "\<forall>s. ev \<noteq> Ev_write s" "\<not> status_timer ev"
  shows "made (\<lambda>c. \<not> user_input c) t (dispatch cf e ev t)"
proof -
  have "\<not> t_opened t" "t_feed_active t"
    using assms(1,2) by (simp_all add: mode_inv_def)
  with assms show ?thesis
    by (cases ev) (simp_all add: status_timer_def input_event_closed harmless_no_input pointer_event_feed harmless_intro
      pty_exit_frame terminal_activate_frame terminal_deactivate_frame no_user_input_displays)
qed

section \<open>Destruction\<close>

lemma balance_imp_count: "balance cs [] \<Longrightarrow>
    count_list cs (Pageflip_register d) = count_list cs (Pageflip_unregister d) \<and>
    count_list cs (Disp_ref d) = count_list cs (Disp_unref d)"
  by (simp add: balance_def)

lemma displays_free_screen: "displays (free_screen e cf d False t) = filter (\<lambda>x. x \<noteq> d) (displays t)"
proof (cases "get_screen d t")
  case None
  then have "d \<notin> set (displays t)"
    by (simp add: get_screen_None)
  then show ?thesis using None by (simp add: free_screen_def map_update_filter_neq)
next
  case (Some s)
  then show ?thesis by (rule free_screen_False)
qed

lemma fold_free_screen:
  "held_once t \<Longrightarrow> held_once (fold (\<lambda>d. free_screen e cf d False) ds t) \<and>
     displays (fold (\<lambda>d. free_screen e cf d False) ds t) = filter (\<lambda>x. x \<notin> set ds) (displays t)"
proof (induction ds arbitrary: t)
  case (Cons d ds)
  then show ?case
    using Cons.IH [OF held_once_free_screen [OF Cons.prems, of e cf d False]]
    by (simp add: displays_free_screen conj_commute)
qed simp

lemma terminal_destroy_balanced:
  assumes "held_once t"
  shows "t_screens (terminal_destroy e cf t) = []" "balance (t_calls (terminal_destroy e cf t)) []"
proof -
  let ?t = "terminal_close t"
  let ?u = "fold (\<lambda>d. free_screen e cf d False) (displays ?t) ?t"
  have "held_once ?t"
    using assms keeps_close by (rule held_once_keeps)
  then have u: "held_once ?u" "displays ?u = []"
    using fold_free_screen [of ?t e cf "displays ?t"] by auto
  have d: "terminal_destroy e cf t = ?u\<lparr>t_min_cols := 0, t_min_rows := 0, t_pointer := free_selection (t_pointer ?u)\<rparr>"
    by (simp add: terminal_destroy_def rm_all_screens_def each_screen_def Let_def del: terminal_close_simps)
  show "t_screens (terminal_destroy e cf t) = []"
    using u(2) unfolding d by simp
  show "balance (t_calls (terminal_destroy e cf t)) []"
    using u unfolding d held_once_balance by simp
qed

end
