(* ===== verification/Terminal_Flip.thy ===== *)
theory Terminal_Flip
  imports Terminal_Facts
begin

text \<open>
  The page-flip discipline of a terminal as a machine of its own: of each screen only its display
  and the three flags that schedule its frames. \<open>sched\<close> is the abstraction; the lemmas show
  that the redraw of the terminal and its page-flip handler implement the steps of the machine,
  including the buffer swaps they ask the displays for.
\<close>

section \<open>The abstract machine\<close>

record flip =
  fl_disp :: nat
  fl_swapping :: bool
  fl_pending :: bool
  fl_enabled :: bool

definition flip_of :: "'d screen \<Rightarrow> flip" where
  "flip_of s = \<lparr>fl_disp = scr_disp s, fl_swapping = scr_swapping s, fl_pending = scr_pending s,
                fl_enabled = scr_enabled s\<rparr>"

definition sched :: "'d kmscon_terminal \<Rightarrow> flip list" where
  "sched t = map flip_of (t_screens t)"

text \<open>A frame: the swap is asked for, and the screen swaps if the display accepts.\<close>

definition flip_frame :: "(nat \<Rightarrow> status) \<Rightarrow> flip \<Rightarrow> call list \<times> flip" where
  "flip_frame swap f =
     ([Disp_swap (fl_disp f)],
      f\<lparr>fl_pending := False, fl_swapping := fl_swapping f \<or> swap (fl_disp f) = ok\<rparr>)"

text \<open>A request for a redraw: at most one frame is under way, a later request is remembered.\<close>

definition flip_redraw :: "bool \<Rightarrow> bool \<Rightarrow> (nat \<Rightarrow> status) \<Rightarrow> flip \<Rightarrow> call list \<times> flip" where
  "flip_redraw awake fg swap f =
     (if \<not> awake \<or> \<not> fl_enabled f then ([], f)
      else if fl_swapping f then ([], f\<lparr>fl_pending := True\<rparr>)
      else if \<not> fg then ([], f)
      else flip_frame swap f)"

definition flip_clear :: "(nat \<Rightarrow> status) \<Rightarrow> flip \<Rightarrow> call list \<times> flip" where
  "flip_clear swap f =
     ([Disp_clear (fl_disp f), Disp_swap (fl_disp f)],
      f\<lparr>fl_pending := (swap (fl_disp f) = fails EBUSY), fl_swapping := True, fl_enabled := False\<rparr>)"

text \<open>The display reports that the flip took place.\<close>

definition flip_done :: "bool \<Rightarrow> bool \<Rightarrow> (nat \<Rightarrow> status) \<Rightarrow> flip \<Rightarrow> call list \<times> flip" where
  "flip_done awake fg swap f =
     (let f' = f\<lparr>fl_swapping := False\<rparr>
      in if \<not> fl_pending f \<or> \<not> awake \<or> \<not> fg then ([], f')
         else if fl_enabled f then flip_frame swap f'
         else flip_clear swap f')"

definition on_flip :: "nat \<Rightarrow> (flip \<Rightarrow> call list \<times> flip) \<Rightarrow> flip list \<Rightarrow> flip list" where
  "on_flip d g fs = map (\<lambda>f. if fl_disp f = d then snd (g f) else f) fs"

definition flip_calls :: "nat \<Rightarrow> (flip \<Rightarrow> call list \<times> flip) \<Rightarrow> flip list \<Rightarrow> call list" where
  "flip_calls d g fs = concat (map (\<lambda>f. if fl_disp f = d then fst (g f) else []) fs)"

section \<open>Screens of distinct displays\<close>

lemma fl_disp_sched [simp]: "map fl_disp (sched t) = displays t"
  by (simp add: sched_def flip_of_def comp_def)

lemma flip_of_simps [simp]:
  "fl_disp (flip_of s) = scr_disp s" "fl_swapping (flip_of s) = scr_swapping s"
  "fl_pending (flip_of s) = scr_pending s" "fl_enabled (flip_of s) = scr_enabled s"
  by (simp_all add: flip_of_def)

lemma get_screen_unique:
  assumes "distinct (displays t)" "get_screen d t = Some s" "s' \<in> set (t_screens t)" "scr_disp s' = d"
  shows "s' = s"
proof -
  have "s \<in> set (t_screens t)" "scr_disp s = d"
    using assms(2) by (auto simp: get_screen_def find_Some_iff)
  then show ?thesis
    using assms(1,3,4) by (metis distinct_map inj_onD)
qed

lemma flip_calls_one:
  assumes "distinct (map fl_disp fs)" "f \<in> set fs" "fl_disp f = d"
  shows "flip_calls d g fs = fst (g f)"
  using assms
proof (induction fs)
  case (Cons x fs)
  show ?case
  proof (cases "x = f")
    case True
    have "\<forall>y\<in>set fs. fl_disp y \<noteq> d"
      using Cons.prems True by (metis distinct.simps(2) image_eqI list.set_map list.simps(9))
    then have "concat (map (\<lambda>f. if fl_disp f = d then fst (g f) else []) fs) = []"
      by simp
    then show ?thesis
      using True Cons.prems(3) by (simp add: flip_calls_def)
  next
    case False
    then have "f \<in> set fs" "fl_disp x \<noteq> d"
      using Cons.prems by (auto simp: image_iff)
    then show ?thesis
      using Cons by (simp add: flip_calls_def)
  qed
qed simp

lemma flip_calls_none: "d \<notin> set (map fl_disp fs) \<Longrightarrow> flip_calls d g fs = []"
  by (auto simp: flip_calls_def)

lemma on_flip_none: "d \<notin> set (map fl_disp fs) \<Longrightarrow> on_flip d g fs = fs"
  unfolding on_flip_def by (rule map_idI) auto

text \<open>
  \<open>implements f d g t\<close>: on a terminal of distinct displays, \<open>f\<close> has on the flags and the
  calls the effect of the step \<open>g\<close> of the machine on the screen of \<open>d\<close>.
\<close>

definition implements :: "'d kmscon_terminal \<Rightarrow> nat \<Rightarrow> (flip \<Rightarrow> call list \<times> flip) \<Rightarrow>
    'd kmscon_terminal \<Rightarrow> bool" where
  "implements t d g t' \<longleftrightarrow> sched t' = on_flip d g (sched t) \<and>
     t_calls t' = t_calls t @ flip_calls d g (sched t)"

lemma implements_Some:
  assumes "distinct (displays t)" "get_screen d t = Some s"
  shows "implements t d g t' \<longleftrightarrow>
    sched t' = map (\<lambda>s'. if scr_disp s' = d then snd (g (flip_of s)) else flip_of s') (t_screens t) \<and>
    t_calls t' = t_calls t @ fst (g (flip_of s))"
proof -
  have s: "s \<in> set (t_screens t)" "scr_disp s = d"
    using assms(2) by (auto simp: get_screen_def find_Some_iff)
  have "flip_calls d g (sched t) = fst (g (flip_of s))"
    by (rule flip_calls_one) (use assms(1) s in \<open>auto simp: sched_def comp_def\<close>)
  moreover have "on_flip d g (sched t) =
      map (\<lambda>s'. if scr_disp s' = d then snd (g (flip_of s)) else flip_of s') (t_screens t)"
    using get_screen_unique [OF assms] by (auto simp: on_flip_def sched_def)
  ultimately show ?thesis by (simp add: implements_def)
qed

lemma implements_None:
  "get_screen d t = None \<Longrightarrow> implements t d g t' \<longleftrightarrow> sched t' = sched t \<and> t_calls t' = t_calls t"
  using flip_calls_none [of d "sched t" g] on_flip_none [of d "sched t" g]
  by (simp add: implements_def get_screen_None del: set_map)

section \<open>The terminal implements the machine\<close>

lemma sched_upd_screen:
  "(\<And>s. scr_disp (f s) = scr_disp s) \<Longrightarrow>
     sched (upd_screen d f t) =
       map (\<lambda>s. if scr_disp s = d then flip_of (f s) else flip_of s) (t_screens t)"
  by (simp add: sched_def upd_screen_def comp_def if_distrib cong: if_cong)

lemma sched_chrome [simp]: "sched (apply_faceplate_chrome e t) = sched t"
  by (simp add: sched_def apply_faceplate_chrome_def Let_def comp_def flip_of_def)

lemma flip_of_render_frame [simp]: "flip_of (render_frame e t s) = flip_of s"
  by (simp add: flip_of_def render_frame_def Let_def)

lemma calls_simps [simp]:
  "t_calls (upd_screen d f t) = t_calls t" "t_calls (emit c t) = t_calls t @ [c]"
  "t_calls (apply_faceplate_chrome e t) = t_calls t"
  "t_awake (upd_screen d f t) = t_awake t" "t_awake (emit c t) = t_awake t"
  "t_awake (apply_faceplate_chrome e t) = t_awake t"
  "t_screens (emit c t) = t_screens t"
  by (simp_all add: upd_screen_def emit_def apply_faceplate_chrome_def Let_def)

lemma sched_emit [simp]: "sched (emit c t) = sched t"
  by (simp add: sched_def)

text \<open>Updates of one screen, one after the other, read on the flags.\<close>

definition flag_upd :: "nat \<Rightarrow> (flip \<Rightarrow> flip) \<Rightarrow> flip list \<Rightarrow> flip list" where
  "flag_upd d f fs = map (\<lambda>x. if fl_disp x = d then f x else x) fs"

lemma sched_flag_upd:
  "(\<And>s. flip_of (f s) = g (flip_of s)) \<Longrightarrow> sched (upd_screen d f t) = flag_upd d g (sched t)"
  by (simp add: sched_def upd_screen_def flag_upd_def comp_def)

lemma sched_upds [simp]:
  "sched (upd_screen d (\<lambda>s. s\<lparr>scr_pending := b\<rparr>) t) = flag_upd d (\<lambda>f. f\<lparr>fl_pending := b\<rparr>) (sched t)"
  "sched (upd_screen d (\<lambda>s. s\<lparr>scr_swapping := b\<rparr>) t) = flag_upd d (\<lambda>f. f\<lparr>fl_swapping := b\<rparr>) (sched t)"
  "sched (upd_screen d (\<lambda>s. s\<lparr>scr_enabled := b\<rparr>) t) = flag_upd d (\<lambda>f. f\<lparr>fl_enabled := b\<rparr>) (sched t)"
  by (rule sched_flag_upd, simp add: flip_of_def)+

lemma sched_render_frame [simp]: "sched (upd_screen d (render_frame e u) t) = sched t"
  by (simp add: sched_def upd_screen_def comp_def if_distrib cong: if_cong)

lemma flag_upd_upd [simp]:
  assumes "\<And>f. fl_disp (h f) = fl_disp f"
  shows "flag_upd d g (flag_upd d h fs) = flag_upd d (\<lambda>f. g (h f)) fs"
  using assms by (simp add: flag_upd_def)

lemma flag_upd_at:
  assumes "distinct (displays t)" "get_screen d t = Some s"
  shows "flag_upd d g (sched t) =
    map (\<lambda>s'. if scr_disp s' = d then g (flip_of s) else flip_of s') (t_screens t)"
  using get_screen_unique [OF assms] by (auto simp: flag_upd_def sched_def)

lemma implements_flag_upd:
  assumes "distinct (displays t)" "get_screen d t = Some s"
    and "sched t' = flag_upd d h (sched t)" "t_calls t' = t_calls t @ fst (g (flip_of s))"
    and "h (flip_of s) = snd (g (flip_of s))"
  shows "implements t d g t'"
  using assms(3-5) by (simp add: implements_Some [OF assms(1,2)] flag_upd_at [OF assms(1,2)])

lemma implements_same:
  assumes "distinct (displays t)" "get_screen d t = Some s" "g (flip_of s) = ([], flip_of s)"
  shows "implements t d g t"
  using assms(3) get_screen_unique [OF assms(1,2)]
  by (auto simp: implements_Some [OF assms(1,2)] sched_def)

lemma find_map_upd:
  "List.find (\<lambda>s. scr_disp s = d) ss = Some s \<Longrightarrow> scr_disp (f s) = scr_disp s \<Longrightarrow>
     List.find (\<lambda>s. scr_disp s = d) (map (\<lambda>s. if scr_disp s = d then f s else s) ss) = Some (f s)"
  by (induction ss) (auto split: if_splits)

lemma get_screen_upd:
  "get_screen d t = Some s \<Longrightarrow> scr_disp (f s) = scr_disp s \<Longrightarrow>
     get_screen d (upd_screen d f t) = Some (f s)"
  by (simp add: get_screen_def upd_screen_def find_map_upd)

lemma disable_screen_flip:
  assumes "distinct (displays t)" "get_screen d t = Some s" "\<not> scr_swapping s"
  shows "implements t d (flip_clear (e_swap e)) (disable_screen e d t)"
  by (rule implements_flag_upd [OF assms(1,2)])
     (simp_all add: disable_screen_def assms(2,3) get_screen_Some [OF assms(2)] Let_def flip_clear_def)

lemma frame_flip:
  assumes "distinct (displays t)" "get_screen d t = Some s"
    and "t_awake t" "e_foreground e" "scr_enabled s"
  shows "implements t d (flip_frame (e_swap e)) (do_redraw_screen e d t)"
proof (cases "e_swap e d = ok")
  case True
  then show ?thesis
    by (intro implements_flag_upd [OF assms(1,2),
          where h = "\<lambda>f. f\<lparr>fl_pending := False, fl_swapping := True\<rparr>"])
       (simp_all add: do_redraw_screen_def assms get_screen_Some [OF assms(2)] Let_def flip_frame_def)
next
  case False
  then show ?thesis
    by (intro implements_flag_upd [OF assms(1,2), where h = "\<lambda>f. f\<lparr>fl_pending := False\<rparr>"])
       (auto simp: do_redraw_screen_def assms get_screen_Some [OF assms(2)] Let_def flip_frame_def flip_of_def)
qed

lemma implements_cong:
  assumes "distinct (displays t)" "get_screen d t = Some s" "implements t d g' t'"
    "g (flip_of s) = g' (flip_of s)"
  shows "implements t d g t'"
  using assms(3,4) by (simp add: implements_Some [OF assms(1,2)])

lemma redraw_screen_flip:
  assumes "distinct (displays t)"
  shows "implements t d (flip_redraw (t_awake t) (e_foreground e) (e_swap e)) (redraw_screen e d t)"
proof (cases "get_screen d t")
  case None
  then show ?thesis by (simp add: implements_None redraw_screen_def)
next
  case (Some s)
  consider (off) "\<not> t_awake t \<or> \<not> scr_enabled s"
    | (swapping) "t_awake t" "scr_enabled s" "scr_swapping s"
    | (behind) "t_awake t" "scr_enabled s" "\<not> scr_swapping s" "\<not> e_foreground e"
    | (frame) "t_awake t" "scr_enabled s" "\<not> scr_swapping s" "e_foreground e" by blast
  then show ?thesis
  proof cases
    case off
    then show ?thesis
      using implements_same [OF assms Some] by (auto simp: redraw_screen_def Some flip_redraw_def)
  next
    case swapping
    then show ?thesis
      by (intro implements_flag_upd [OF assms Some, where h = "\<lambda>f. f\<lparr>fl_pending := True\<rparr>"])
         (simp_all add: redraw_screen_def Some flip_redraw_def)
  next
    case behind
    then show ?thesis
      using implements_same [OF assms Some]
      by (simp add: redraw_screen_def do_redraw_screen_def Some flip_redraw_def)
  next
    case frame
    then show ?thesis
      using implements_cong [OF assms Some frame_flip [OF assms Some]]
      by (simp add: redraw_screen_def Some flip_redraw_def)
  qed
qed

lemma display_pageflip_flip:
  assumes "distinct (displays t)"
  shows "implements t d (flip_done (t_awake t) (e_foreground e) (e_swap e)) (display_pageflip e d t)"
proof (cases "get_screen d t")
  case None
  then show ?thesis by (simp add: implements_None display_pageflip_def)
next
  case (Some s)
  define s' where "s' = s\<lparr>scr_swapping := False\<rparr>"
  define u where "u = upd_screen d (\<lambda>s. s\<lparr>scr_swapping := False\<rparr>) t"
  have d: "scr_disp s = d"
    using get_screen_Some [OF Some] by simp
  have su: "get_screen d u = Some s'" "displays u = displays t"
    using get_screen_upd [OF Some, of "\<lambda>s. s\<lparr>scr_swapping := False\<rparr>"] by (simp_all add: u_def s'_def)
  have du: "distinct (displays u)"
    using assms su(2) by simp
  have step: "implements t d g (display_pageflip e d t)"
    if "implements u d g' (display_pageflip e d t)" "g (flip_of s) = g' (flip_of s')" for g g'
  proof -
    have "t_screens u = map (\<lambda>s. if scr_disp s = d then s\<lparr>scr_swapping := False\<rparr> else s) (t_screens t)"
      "t_calls u = t_calls t"
      by (simp_all add: u_def upd_screen_def)
    then show ?thesis
      using that d by (simp add: implements_Some [OF assms Some] implements_Some [OF du su(1)]
          flip_of_def [of "s\<lparr>scr_swapping := False\<rparr>"] cong: if_cong map_cong)
  qed
  have e: "display_pageflip e d t = (if scr_pending s then do_redraw_screen e d u else u)"
    by (simp add: display_pageflip_def Some u_def)
  have f': "flip_of s' = (flip_of s)\<lparr>fl_swapping := False\<rparr>" "\<not> scr_swapping s'"
    by (simp_all add: s'_def flip_of_def)
  have id: "implements u d (\<lambda>f. ([], f)) u"
    by (rule implements_same [OF du su(1)]) simp
  consider (quiet) "\<not> scr_pending s \<or> \<not> t_awake t \<or> \<not> e_foreground e"
    | (on) "scr_pending s" "t_awake t" "e_foreground e" "scr_enabled s"
    | (off) "scr_pending s" "t_awake t" "e_foreground e" "\<not> scr_enabled s" by blast
  then show ?thesis
  proof cases
    case quiet
    then have "display_pageflip e d t = u"
      by (auto simp: e do_redraw_screen_def su(1)) (simp_all add: u_def)
    with quiet id show ?thesis
      by (intro step [where g' = "\<lambda>f. ([], f)"]) (auto simp: flip_done_def Let_def f')
  next
    case on
    have "implements u d (flip_frame (e_swap e)) (display_pageflip e d t)"
      using frame_flip [OF du su(1), of e] on by (simp add: e u_def s'_def)
    then show ?thesis
      by (rule step) (use on f' in \<open>simp add: flip_done_def\<close>)
  next
    case off
    have "implements u d (flip_clear (e_swap e)) (display_pageflip e d t)"
      using disable_screen_flip [OF du su(1) f'(2), of e] off
      by (simp add: e do_redraw_screen_def su(1)) (simp add: u_def s'_def)
    then show ?thesis
      by (rule step) (use off f' in \<open>simp add: flip_done_def\<close>)
  qed
qed

section \<open>All screens\<close>

lemma flip_redraw_disp [simp]: "fl_disp (snd (flip_redraw awake fg swap f)) = fl_disp f"
  by (simp add: flip_redraw_def flip_frame_def)

lemma flip_done_disp [simp]: "fl_disp (snd (flip_done awake fg swap f)) = fl_disp f"
  by (simp add: flip_done_def flip_frame_def flip_clear_def Let_def)

lemma fold_redraw_flip:
  fixes e :: "'d term_env"
  assumes "distinct (displays t)" "distinct ds" "t_awake t"
  defines "g \<equiv> flip_redraw True (e_foreground e) (e_swap e)"
  shows "sched (fold (redraw_screen e) ds t) =
      map (\<lambda>f. if fl_disp f \<in> set ds then snd (g f) else f) (sched t) \<and>
    t_calls (fold (redraw_screen e) ds t) = t_calls t @ concat (map (\<lambda>d. flip_calls d g (sched t)) ds)"
  using assms(1-3)
proof (induction ds arbitrary: t)
  case (Cons d ds)
  let ?u = "redraw_screen e d t"
  have i: "sched ?u = on_flip d g (sched t)" "t_calls ?u = t_calls t @ flip_calls d g (sched t)"
    using redraw_screen_flip [OF Cons.prems(1), of d e] Cons.prems(3) by (simp_all add: implements_def g_def)
  have u: "displays ?u = displays t" "t_awake ?u"
    using harmless_same [OF harmless_redraw_screen [OF harmless_refl]] Cons.prems(3) by blast+
  have IH: "sched (fold (redraw_screen e) ds ?u) =
      map (\<lambda>f. if fl_disp f \<in> set ds then snd (g f) else f) (sched ?u)"
    "t_calls (fold (redraw_screen e) ds ?u) = t_calls ?u @ concat (map (\<lambda>d. flip_calls d g (sched ?u)) ds)"
    using Cons.IH [of ?u] Cons.prems u by simp_all
  have other: "flip_calls d' g (sched ?u) = flip_calls d' g (sched t)" if "d' \<in> set ds" for d'
  proof -
    have "d' \<noteq> d" using that Cons.prems(2) by auto
    then show ?thesis
      by (auto simp: i(1) flip_calls_def on_flip_def g_def intro!: arg_cong [where f = concat])
  qed
  then have "concat (map (\<lambda>d. flip_calls d g (sched ?u)) ds) = concat (map (\<lambda>d. flip_calls d g (sched t)) ds)"
    by (simp cong: map_cong)
  moreover have "map (\<lambda>f. if fl_disp f \<in> set ds then snd (g f) else f) (sched ?u) =
      map (\<lambda>f. if fl_disp f \<in> set (d # ds) then snd (g f) else f) (sched t)"
    using Cons.prems(2) by (auto simp: i(1) on_flip_def g_def)
  ultimately show ?case
    using IH i(2) by simp
qed simp

lemma concat_flip_calls:
  "distinct (map fl_disp fs) \<Longrightarrow>
     concat (map (\<lambda>d. flip_calls d g fs) (map fl_disp fs)) = concat (map (\<lambda>f. fst (g f)) fs)"
proof -
  assume "distinct (map fl_disp fs)"
  then have "\<forall>f\<in>set fs. flip_calls (fl_disp f) g fs = fst (g f)"
    using flip_calls_one by blast
  then show ?thesis by (simp add: comp_def cong: map_cong)
qed

lemma redraw_all_flip:
  fixes e :: "'d term_env"
  assumes "distinct (displays t)"
  defines "g \<equiv> flip_redraw (t_awake t) (e_foreground e) (e_swap e)"
  shows "sched (redraw_all e t) = map (\<lambda>f. snd (g f)) (sched t)"
    "t_calls (redraw_all e t) = t_calls t @ concat (map (\<lambda>f. fst (g f)) (sched t))"
proof -
  have "sched (redraw_all e t) = map (\<lambda>f. snd (g f)) (sched t) \<and>
        t_calls (redraw_all e t) = t_calls t @ concat (map (\<lambda>f. fst (g f)) (sched t))"
  proof (cases "t_awake t")
    case False
    then show ?thesis by (simp add: redraw_all_def g_def flip_redraw_def)
  next
    case True
    have g: "g = flip_redraw True (e_foreground e) (e_swap e)"
      using True by (simp add: g_def)
    have "fl_disp f \<in> set (displays t)" if "f \<in> set (sched t)" for f
      using that by (auto simp: sched_def)
    then have "map (\<lambda>f. if fl_disp f \<in> set (displays t) then snd (g f) else f) (sched t) =
        map (\<lambda>f. snd (g f)) (sched t)"
      by (intro map_cong) auto
    moreover have "concat (map (\<lambda>d. flip_calls d g (sched t)) (displays t)) = concat (map (\<lambda>f. fst (g f)) (sched t))"
      using concat_flip_calls [of "sched t" g] assms(1) by simp
    ultimately show ?thesis
      using fold_redraw_flip [OF assms(1) assms(1) True, of e] True
      unfolding g [symmetric] redraw_all_def each_screen_def by presburger
  qed
  then show "sched (redraw_all e t) = map (\<lambda>f. snd (g f)) (sched t)"
    "t_calls (redraw_all e t) = t_calls t @ concat (map (\<lambda>f. fst (g f)) (sched t))" by blast+
qed

section \<open>The steps of the machine\<close>

text \<open>
  No update is lost: a redraw that finds a frame under way is made up for by the page flip, and
  a screen never has two frames under way.
\<close>

lemma flip_redraw_swapping:
  "fl_swapping f \<Longrightarrow> fst (flip_redraw awake fg swap f) = []"
  by (simp add: flip_redraw_def)

lemma flip_redraw_then_done:
  assumes "awake" "fg" "fl_enabled f" "fl_swapping f"
  shows "fst (flip_done awake fg swap (snd (flip_redraw awake fg swap f))) = [Disp_swap (fl_disp f)]"
  using assms by (simp add: flip_redraw_def flip_done_def flip_frame_def)

end
