(* ===== verification/Terminal_Size.thy ===== *)
theory Terminal_Size
  imports Terminal_Facts
begin

text \<open>
  Sizes: the font under zooming, the common size of the screens in the two monitor modes, the
  cell under the pointer and the lines of the event feed. The locale \<open>drawing_frame\<close> says
  once and for all that drawing changes nothing of a terminal but its screens and the trace.
\<close>

section \<open>What drawing leaves alone\<close>

locale drawing_frame =
  fixes field :: "'d kmscon_terminal \<Rightarrow> 'a"
  assumes field_screens: "field (t\<lparr>t_screens := ss\<rparr>) = field t"
    and field_calls: "field (t\<lparr>t_calls := cs\<rparr>) = field t"
begin

lemma field_emit: "field (emit c t) = field t"
  by (simp add: emit_def field_calls)

lemma field_upd_screen: "field (upd_screen d f t) = field t"
  by (simp add: upd_screen_def field_screens)

lemma field_fold: "(\<And>d t. field (f d t) = field t) \<Longrightarrow> field (fold f ds t) = field t"
  by (induction ds arbitrary: t) simp_all

lemma field_each_screen: "(\<And>d t. field (f d t) = field t) \<Longrightarrow> field (each_screen f t) = field t"
  by (simp add: each_screen_def field_fold)

lemma field_chrome: "field (apply_faceplate_chrome e t) = field t"
  by (simp add: apply_faceplate_chrome_def Let_def field_screens)

lemmas field_basic = field_emit field_upd_screen field_chrome field_each_screen field_screens field_calls

lemma field_disable_screen: "field (disable_screen e d t) = field t"
  by (simp add: disable_screen_def Let_def field_basic split: option.splits)

lemma field_do_redraw_screen: "field (do_redraw_screen e d t) = field t"
  by (simp add: do_redraw_screen_def Let_def field_basic field_disable_screen split: option.splits)

lemma field_redraw_screen: "field (redraw_screen e d t) = field t"
  by (simp add: redraw_screen_def field_basic field_do_redraw_screen split: option.splits)

lemma field_redraw_all: "field (redraw_all e t) = field t"
  by (simp add: redraw_all_def field_basic field_redraw_screen)

lemma field_refresh_hw_cursor: "field (refresh_hw_cursor e d t) = field t"
  by (simp add: refresh_hw_cursor_def setup_hw_cursor_def field_basic split: option.splits)

lemma field_resize_enabled: "field (resize_enabled t) = field t"
  by (simp add: resize_enabled_def field_screens)

end

interpretation height: drawing_frame t_font_height by unfold_locales simp_all
interpretation fnt: drawing_frame t_font by unfold_locales simp_all
interpretation mincols: drawing_frame t_min_cols by unfold_locales simp_all
interpretation minrows: drawing_frame t_min_rows by unfold_locales simp_all

section \<open>Zoom\<close>

text \<open>The size update touches neither the font nor its height.\<close>

lemma height_update_size: "t_font_height (snd (terminal_update_size e cf t)) = t_font_height t"
  by (auto simp: terminal_update_size_def terminal_update_size_clone_def terminal_update_size_largest_def
        Let_def case_prod_beta height.field_resize_enabled height.field_each_screen
        height.field_disable_screen height.field_upd_screen split: option.splits)

lemma font_update_size: "t_font (snd (terminal_update_size e cf t)) = t_font t"
  by (auto simp: terminal_update_size_def terminal_update_size_clone_def terminal_update_size_largest_def
        Let_def case_prod_beta fnt.field_resize_enabled fnt.field_each_screen
        fnt.field_disable_screen fnt.field_upd_screen split: option.splits)

lemma size_notify_fields:
  "t_font_height (terminal_update_size_notify e cf t) = t_font_height t"
  "t_font (terminal_update_size_notify e cf t) = t_font t"
  by (simp_all add: terminal_update_size_notify_def Let_def case_prod_beta height.field_redraw_all
        fnt.field_redraw_all height.field_emit fnt.field_emit height_update_size font_update_size)

lemma font_set_fails: "e_font e (t_font_height t) = Inl err \<Longrightarrow> font_set e cf t = (fails err, t)"
  by (simp add: font_set_def)

lemma font_set_ok:
  assumes "e_font e (t_font_height t) = Inr f"
  shows "fst (font_set e cf t) = ok" "t_font_height (snd (font_set e cf t)) = t_font_height t"
    "t_font (snd (font_set e cf t)) = f"
  using assms by (simp_all add: font_set_def Let_def size_notify_fields height.field_each_screen
    fnt.field_each_screen height.field_refresh_hw_cursor fnt.field_refresh_hw_cursor
    height.field_upd_screen fnt.field_upd_screen)

lemma zoom_in_height:
  "t_font_height (zoom_in e cf t) =
     (if t_font_height t > 150 then t_font_height t
      else case e_font e (t_font_height t + increase_step (t_font t)) of
             Inl err \<Rightarrow> t_font_height t
           | Inr f \<Rightarrow> t_font_height t + increase_step (t_font t))"
  using font_set_ok [where e = e and cf = cf] font_set_fails [where e = e and cf = cf]
  by (auto simp: zoom_in_def Let_def case_prod_beta split: sum.splits)

lemma zoom_out_height:
  "t_font_height (zoom_out e cf t) =
     (if t_font_height t \<le> increase_step (t_font t) \<or>
         t_font_height t - increase_step (t_font t) < 10 then t_font_height t
      else case e_font e (t_font_height t - increase_step (t_font t)) of
             Inl err \<Rightarrow> t_font_height t
           | Inr f \<Rightarrow> t_font_height t - increase_step (t_font t))"
  using font_set_ok [where e = e and cf = cf] font_set_fails [where e = e and cf = cf]
  by (auto simp: zoom_out_def Let_def case_prod_beta split: sum.splits)

text \<open>Without a font of the new size nothing changes at all.\<close>

lemma zoom_in_rollback:
  "e_font e (t_font_height t + increase_step (t_font t)) = Inl err \<Longrightarrow> zoom_in e cf t = t"
  using font_set_fails [of e "t\<lparr>t_font_height := t_font_height t + increase_step (t_font t)\<rparr>" err cf]
  by (simp add: zoom_in_def Let_def)

lemma zoom_out_rollback:
  "e_font e (t_font_height t - increase_step (t_font t)) = Inl err \<Longrightarrow> zoom_out e cf t = t"
  using font_set_fails [of e "t\<lparr>t_font_height := t_font_height t - increase_step (t_font t)\<rparr>" err cf]
  by (simp add: zoom_out_def Let_def)

section \<open>One size for all screens\<close>

text \<open>A running minimum over the sizes that are not zero.\<close>

definition min_step :: "('s \<Rightarrow> u32) \<Rightarrow> 's \<Rightarrow> u32 \<Rightarrow> u32" where
  "min_step g s m = (if g s \<noteq> 0 \<and> g s < m then g s else m)"

lemma fold_clone_min:
  "fold clone_min ss (a, b) =
     (fold (min_step (\<lambda>s. kmscon_text_get_cols (scr_txt s))) ss a,
      fold (min_step (\<lambda>s. kmscon_text_get_rows (scr_txt s))) ss b)"
  by (induction ss arbitrary: a b) (simp_all add: clone_min_def min_step_def Let_def)

lemma fold_min_step:
  assumes "\<And>s. s \<in> set ss \<Longrightarrow> g s \<noteq> 0"
  shows "fold (min_step g) ss m = Min (insert m (g ` set ss))"
proof -
  have "fold (min_step g) ss m = fold min (map g ss) m"
    using assms by (induction ss arbitrary: m) (auto simp: min_step_def min_def)
  then show ?thesis
    using Min.set_eq_fold [of m "map g ss"] by simp
qed

lemma running_min:
  assumes "ss \<noteq> []" "\<And>s. s \<in> set ss \<Longrightarrow> 0 < g s \<and> g s < m"
  shows "fold (min_step g) ss m = Min (g ` set ss)" "Min (g ` set ss) < m"
proof -
  have fin: "finite (g ` set ss)" "g ` set ss \<noteq> {}"
    using assms(1) by simp_all
  show less: "Min (g ` set ss) < m"
    using Min_in [OF fin] assms(2) by auto
  have "fold (min_step g) ss m = Min (insert m (g ` set ss))"
    by (rule fold_min_step) (use assms(2) in fastforce)
  then show "fold (min_step g) ss m = Min (g ` set ss)"
    using less by (simp add: Min_insert [OF fin])
qed

lemma clone_size_min:
  fixes t :: "'d kmscon_terminal"
  defines "cols \<equiv> \<lambda>s. kmscon_text_get_cols (scr_txt s)"
    and "rows \<equiv> \<lambda>s. kmscon_text_get_rows (scr_txt s)"
  assumes "t_screens t \<noteq> []"
    and "\<And>s. s \<in> set (t_screens t) \<Longrightarrow> 0 < cols s \<and> cols s < UINT_MAX \<and> 0 < rows s \<and> rows s < UINT_MAX"
  shows "t_min_cols (snd (terminal_update_size_clone t)) = Min (cols ` set (t_screens t))"
    "t_min_rows (snd (terminal_update_size_clone t)) = Min (rows ` set (t_screens t))"
proof -
  let ?S = "set (t_screens t)"
  have c: "fold (min_step cols) (t_screens t) UINT_MAX = Min (cols ` ?S)" "Min (cols ` ?S) < UINT_MAX"
    using running_min [of "t_screens t" cols UINT_MAX] assms(3,4) by blast+
  have r: "fold (min_step rows) (t_screens t) UINT_MAX = Min (rows ` ?S)" "Min (rows ` ?S) < UINT_MAX"
    using running_min [of "t_screens t" rows UINT_MAX] assms(3,4) by blast+
  show "t_min_cols (snd (terminal_update_size_clone t)) = Min (cols ` ?S)"
    "t_min_rows (snd (terminal_update_size_clone t)) = Min (rows ` ?S)"
    using c(1) r(1) less_imp_neq [OF c(2)] less_imp_neq [OF r(2)] unfolding cols_def rows_def
    by (simp_all add: Let_def terminal_update_size_clone_def fold_clone_min)
qed

text \<open>The largest mode: every screen that has not the chosen size is disabled.\<close>

definition disabled :: "'d term_env \<Rightarrow> 'd screen \<Rightarrow> 'd screen" where
  "disabled e s =
     (if scr_swapping s then s\<lparr>scr_pending := True, scr_enabled := False\<rparr>
      else s\<lparr>scr_pending := (e_swap e (scr_disp s) = fails EBUSY), scr_swapping := True,
             scr_enabled := False\<rparr>)"

definition fit_screen :: "'d term_env \<Rightarrow> u32 \<Rightarrow> u32 \<Rightarrow> 'd screen \<Rightarrow> 'd screen" where
  "fit_screen e cols rows s =
     (if kmscon_text_get_rows (scr_txt s) \<noteq> rows \<or> kmscon_text_get_cols (scr_txt s) \<noteq> cols
      then disabled e s else s\<lparr>scr_enabled := True\<rparr>)"

lemma disabled_simps [simp]:
  "scr_disp (disabled e s) = scr_disp s" "scr_txt (disabled e s) = scr_txt s"
  "\<not> scr_enabled (disabled e s)"
  by (simp_all add: disabled_def)

lemma fit_screen_simps [simp]:
  "scr_disp (fit_screen e c r s) = scr_disp s" "scr_txt (fit_screen e c r s) = scr_txt s"
  by (simp_all add: fit_screen_def)

text \<open>A loop that updates the screen of each display updates every screen once.\<close>

lemma fold_upd_screens:
  assumes "distinct (displays t)" "distinct ds"
    and step: "\<And>d u. d \<in> set ds \<Longrightarrow> distinct (displays u) \<Longrightarrow> P u \<Longrightarrow>
      t_screens (f d u) = map (\<lambda>s. if scr_disp s = d then g s else s) (t_screens u) \<and> P (f d u)"
    and g: "\<And>s. scr_disp (g s) = scr_disp s" and "P t"
  shows "t_screens (fold f ds t) = map (\<lambda>s. if scr_disp s \<in> set ds then g s else s) (t_screens t) \<and>
    P (fold f ds t)"
  using assms(1,2,5) step
proof (induction ds arbitrary: t)
  case (Cons d ds)
  have d: "t_screens (f d t) = map (\<lambda>s. if scr_disp s = d then g s else s) (t_screens t)" "P (f d t)"
    using Cons.prems(4) [of d t] Cons.prems(1,3) by simp_all
  have "displays (f d t) = displays t"
    unfolding d(1) by (rule displays_map) (simp add: g)
  then have "distinct (displays (f d t))"
    using Cons.prems(1) by (simp only:)
  then have "t_screens (fold f ds (f d t)) =
      map (\<lambda>s. if scr_disp s \<in> set ds then g s else s) (t_screens (f d t)) \<and> P (fold f ds (f d t))"
    using Cons.prems(2,4) d(2) by (intro Cons.IH) auto
  then show ?case
    using Cons.prems(2) by (auto simp: d(1) g)
qed simp

lemma get_screen_upd_same:
  assumes "distinct (displays t)" "get_screen d t = Some s"
  shows "map (\<lambda>s'. if scr_disp s' = d then f s' else s') (t_screens t) =
    map (\<lambda>s'. if scr_disp s' = d then f s else s') (t_screens t)"
proof -
  have s: "s \<in> set (t_screens t)" "scr_disp s = d"
    using assms(2) by (auto simp: get_screen_def find_Some_iff)
  have "s' = s" if "s' \<in> set (t_screens t)" "scr_disp s' = d" for s'
    using assms(1) s that by (metis distinct_map inj_onD)
  then show ?thesis by auto
qed

lemma disable_screen_screens:
  assumes "distinct (displays t)" "get_screen d t = Some s"
  shows "t_screens (disable_screen e d t) =
    map (\<lambda>s. if scr_disp s = d then disabled e s else s) (t_screens t)"
  unfolding get_screen_upd_same [OF assms, of "disabled e"]
  using assms(2) get_screen_Some [OF assms(2)] get_screen_upd_same [OF assms]
  by (simp add: disable_screen_def Let_def upd_screen_def emit_def disabled_def comp_def
        cong: if_cong map_cong) 

definition largest_step :: "'d term_env \<Rightarrow> nat \<Rightarrow> 'd kmscon_terminal \<Rightarrow> 'd kmscon_terminal" where
  "largest_step e d t =
     (case get_screen d t of
        None \<Rightarrow> t
      | Some scr \<Rightarrow>
          if kmscon_text_get_rows (scr_txt scr) \<noteq> t_min_rows t \<or>
             kmscon_text_get_cols (scr_txt scr) \<noteq> t_min_cols t
          then disable_screen e d t
          else if \<not> scr_enabled scr then upd_screen d (\<lambda>s. s\<lparr>scr_enabled := True\<rparr>) t
          else t)"

lemma largest_step_screens:
  assumes "distinct (displays t)" "t_min_cols t = c" "t_min_rows t = r"
  shows "t_screens (largest_step e d t) =
      map (\<lambda>s. if scr_disp s = d then fit_screen e c r s else s) (t_screens t) \<and>
    t_min_cols (largest_step e d t) = c \<and> t_min_rows (largest_step e d t) = r"
proof (cases "get_screen d t")
  case None
  then have "\<forall>s\<in>set (t_screens t). scr_disp s \<noteq> d"
    by (simp add: get_screen_def find_None_iff)
  then have "map (\<lambda>s. if scr_disp s = d then fit_screen e c r s else s) (t_screens t) = t_screens t"
    by (intro map_idI) auto
  then show ?thesis using None assms(2,3) by (simp add: largest_step_def)
next
  case (Some s)
  note at = get_screen_upd_same [OF assms(1) Some]
  have fields: "t_min_cols (largest_step e d t) = c" "t_min_rows (largest_step e d t) = r"
    using assms(2,3)
    by (simp_all add: largest_step_def mincols.field_disable_screen minrows.field_disable_screen
          mincols.field_upd_screen minrows.field_upd_screen split: option.splits)
  consider (wrong) "kmscon_text_get_rows (scr_txt s) \<noteq> r \<or> kmscon_text_get_cols (scr_txt s) \<noteq> c"
    | (right) "kmscon_text_get_rows (scr_txt s) = r" "kmscon_text_get_cols (scr_txt s) = c" by blast
  then have "t_screens (largest_step e d t) =
      map (\<lambda>s'. if scr_disp s' = d then fit_screen e c r s else s') (t_screens t)"
  proof cases
    case wrong
    then show ?thesis
      using disable_screen_screens [OF assms(1) Some, of e] at [of "disabled e"]
      by (simp add: largest_step_def Some assms(2,3) fit_screen_def)
  next
    case right
    show ?thesis
    proof (cases "scr_enabled s")
      case True
      then have "fit_screen e c r s = s"
        using right by (simp add: fit_screen_def)
      then have "t_screens t = map (\<lambda>s'. if scr_disp s' = d then fit_screen e c r s else s') (t_screens t)"
        using at [of "\<lambda>s. s"] by (simp only: if_cancel list.map_ident)
      moreover have "largest_step e d t = t"
        using right True by (simp add: largest_step_def Some assms(2,3))
      ultimately show ?thesis
        by (simp only:)
    next
      case False
      then show ?thesis
        using right at [of "\<lambda>s. s\<lparr>scr_enabled := True\<rparr>"]
        by (simp add: largest_step_def Some assms(2,3) fit_screen_def upd_screen_def)
    qed
  qed
  then show ?thesis
    using fields at [of "fit_screen e c r"] by simp
qed

definition screen_cells :: "'d screen \<Rightarrow> u32" where
  "screen_cells s = kmscon_text_get_rows (scr_txt s) * kmscon_text_get_cols (scr_txt s)"

lemma largest_pick_cells:
  "largest_pick s (m, c, r) =
     (if screen_cells s > m
      then (screen_cells s, kmscon_text_get_cols (scr_txt s), kmscon_text_get_rows (scr_txt s))
      else (m, c, r))"
  by (simp add: largest_pick_def screen_cells_def Let_def)

lemma fold_largest_pick:
  assumes "fold largest_pick ss (m, c0, r0) = (m', c, r)"
  shows "m \<le> m' \<and> (\<forall>s\<in>set ss. screen_cells s \<le> m') \<and>
    ((m', c, r) = (m, c0, r0) \<or> (\<exists>s\<in>set ss. m' = screen_cells s \<and>
       c = kmscon_text_get_cols (scr_txt s) \<and> r = kmscon_text_get_rows (scr_txt s)))"
  using assms
proof (induction ss arbitrary: m c0 r0)
  case (Cons s ss)
  show ?case
  proof (cases "screen_cells s > m")
    case True
    then have "fold largest_pick ss (screen_cells s, kmscon_text_get_cols (scr_txt s),
        kmscon_text_get_rows (scr_txt s)) = (m', c, r)"
      using Cons.prems by (simp add: largest_pick_cells)
    from Cons.IH [OF this] True show ?thesis by auto
  next
    case False
    then have "fold largest_pick ss (m, c0, r0) = (m', c, r)"
      using Cons.prems by (simp add: largest_pick_cells)
    from Cons.IH [OF this] False show ?thesis by auto
  qed
qed simp

lemma update_size_largest:
  fixes t :: "'d kmscon_terminal"
  assumes "distinct (displays t)"
    and u: "(changed, u) = terminal_update_size_largest e t"
    and pick: "fold largest_pick (t_screens t) (0, t_min_cols t, t_min_rows t) = (m, c, r)"
  shows "t_screens u = map (fit_screen e c r) (t_screens t)" "t_min_cols u = c" "t_min_rows u = r"
    "changed \<longleftrightarrow> m > 0"
proof -
  let ?t = "t\<lparr>t_min_cols := c, t_min_rows := r\<rparr>"
  have "terminal_update_size_largest e t = (m > 0, fold (largest_step e) (displays t) ?t)"
    by (simp add: terminal_update_size_largest_def pick Let_def each_screen_def largest_step_def [abs_def])
  then have u': "u = fold (largest_step e) (displays t) ?t" "changed \<longleftrightarrow> m > 0"
    using u by simp_all
  let ?P = "\<lambda>t :: 'd kmscon_terminal. t_min_cols t = c \<and> t_min_rows t = r"
  have "t_screens u = map (\<lambda>s. if scr_disp s \<in> set (displays t) then fit_screen e c r s else s) (t_screens ?t) \<and> ?P u"
    unfolding u'(1)
  proof (rule fold_upd_screens)
    show "t_screens (largest_step e d v) = map (\<lambda>s. if scr_disp s = d then fit_screen e c r s else s) (t_screens v) \<and>
        ?P (largest_step e d v)" if "distinct (displays v)" "?P v" for d v
      using largest_step_screens [OF that(1)] that(2) by blast
  qed (use assms(1) in simp_all)
  then show "t_screens u = map (fit_screen e c r) (t_screens t)" "t_min_cols u = c" "t_min_rows u = r"
    "changed \<longleftrightarrow> m > 0"
    using u'(2) by auto
qed

section \<open>The pointer\<close>

lemma cell_of_bound:
  assumes "0 < w"
  shows "cell_of x fw w < w"
proof -
  have "w \<noteq> 0"
    using assms by auto
  then have "w - 1 < w"
    using assms by (simp add: word_less_nat_alt unat_minus_one)
  then show ?thesis
    by (auto simp: cell_of_def Let_def not_le)
qed

lemma cell_of_exact:
  assumes "0 \<le> x" "x < 2 ^ 31" "fw < 2 ^ 31" "0 < w"
  shows "int (unat (cell_of x fw w)) = min (x div int (unat fw)) (int (unat w) - 1)"
proof -
  have "uint fw < 2 ^ 31"
    using assms(3) by (simp add: word_less_def)
  then have "signed_take_bit 31 (uint fw) = uint fw"
    by (intro signed_take_bit_int_eq_self) (use uint_ge_0 [of fw] in \<open>linarith, simp\<close>)
  then have s: "sint fw = int (unat fw)"
    by (simp add: sint_uint)
  obtain n where n: "x = int n" "n < 2 ^ 31"
    using assms(1,2) by (metis nonneg_int_cases of_nat_less_numeral_power_cancel_iff)
  let ?q = "x div int (unat fw)"
  have "?q = int (n div unat fw)"
    by (simp only: n(1) zdiv_int)
  moreover have "n div unat fw < 2 ^ 32"
    using le_less_trans [OF div_le_dividend n(2)] by (rule less_trans) simp
  ultimately have q: "0 \<le> ?q" "?q < 2 ^ 32"
    by (simp_all only: of_nat_0_le_iff of_nat_less_numeral_power_cancel_iff)
  have "x sdiv sint fw = ?q"
    unfolding s using assms(1) by (rule sdiv_nonneg) simp
  moreover have "int (unat (word_of_int ?q :: u32)) = ?q"
    using q by (simp add: unsigned_of_int take_bit_int_eq_self)
  moreover have "int (unat (w - 1)) = int (unat w) - 1"
    using assms(4) by (simp add: unat_minus_one word_greater_zero_iff Suc_leI unat_gt_0 of_nat_diff)
  ultimately show ?thesis
    using q by (auto simp: cell_of_def Let_def word_le_def min_def)
qed

section \<open>The feed\<close>

lemma feed_line_length: "length (feed_line cols s) \<le> min cols 255 + 2"
  by (auto simp: feed_line_def Let_def min_def)

end
