(* ===== verification/Terminal_Spec.thy ===== *)
theory Terminal_Spec
  imports Terminal_Login Terminal_Flip Terminal_Size
begin

text \<open>
  What the terminal guarantees: the properties of \<open>src/terminal.c\<close>, each with a run of
  the model in which its hypotheses hold.
\<close>

section \<open>A small terminal\<close>

definition demo_font :: kmscon_font where
  "demo_font = \<lparr>attr_width = 8, attr_height = 16, increase_step = 2\<rparr>"

text \<open>A backend that sets a size of 4 by 3 cells and draws nothing.\<close>

definition demo_ops :: "unit text_ops" where
  "demo_ops =
     \<lparr>op_init = None, op_destroy = None,
      op_set = Some (\<lambda>t. (ok, t\<lparr>txt_cols := 4, txt_rows := 3, txt_max_cols := 4, txt_max_rows := 3\<rparr>)),
      op_unset = None,
      op_resize = Some (\<lambda>t c r. t\<lparr>txt_cols := c, txt_rows := r\<rparr>),
      op_rotate = None, op_prepare = None, op_draw = (\<lambda>t cells cur. (ok, t)), op_draw_status = None,
      op_draw_pointer = None, op_render = None, op_abort = None\<rparr>"

definition demo_grab :: conf_grab where
  "demo_grab = []"

definition demo_conf :: term_conf where
  "demo_conf =
     \<lparr>c_mouse = True, c_soft_cursor = True, c_natural_scrolling = False, c_issue = False, c_blink = True,
      c_bell = False, c_sb_size = 1000, c_multi_monitor = None, c_title = None, c_context = None,
      c_logo = None, grab_scroll_up = demo_grab, grab_scroll_down = demo_grab, grab_page_up = demo_grab,
      grab_page_down = demo_grab, grab_zoom_in = demo_grab, grab_zoom_out = demo_grab,
      grab_rotate_cw = demo_grab, grab_rotate_ccw = demo_grab\<rparr>"

definition demo_abi :: tsm_abi where
  "demo_abi =
     \<lparr>bit_bold = (\<lambda>a. and a 1 \<noteq> 0), bit_italic = (\<lambda>a. and a 2 \<noteq> 0), bit_underline = (\<lambda>a. and a 4 \<noteq> 0),
      bit_blink = (\<lambda>a. and a 8 \<noteq> 0), put_underline = (\<lambda>b. if b then 4 else 0), style_default = 0,
      style_block_blink = 1, style_block_steady = 2, style_underline_blink = 3, style_underline_steady = 4,
      style_vbar_blink = 5, style_vbar_steady = 6\<rparr>"

definition demo_env :: "unit term_env" where
  "demo_env =
     \<lparr>e_foreground = True, e_swap = (\<lambda>d. ok), e_is_swapping = (\<lambda>d. False), e_is_drm = (\<lambda>d. True),
      e_width = (\<lambda>d. 640), e_height = (\<lambda>d. 400), e_setup_cursor = (\<lambda>d. ok), e_register = (\<lambda>d. ok),
      e_text_new = (\<lambda>d. Inr (demo_ops, text_zero () OR_NORMAL)), e_mem = True,
      e_font = (\<lambda>h. Inr demo_font), e_pty_open = ok, e_issue = None, e_abi = demo_abi,
      e_console = \<lparr>con_def_attr = \<lparr>sa_fg = cell_fg cell_zero, sa_bg = cell_bg cell_zero, sa_rest = []\<rparr>, con_cells = replicate 12 cell_zero, con_cursor_x = 0, con_cursor_y = 0, con_style = 0, con_hide_cursor = False\<rparr>,
      e_mouse_tracking = False, e_key_taken = False, e_selection = (None, 0), e_control = False\<rparr>"

definition demo_fresh :: "unit kmscon_terminal" where
  "demo_fresh = terminal_fresh 16 demo_font 4 3 False"

text \<open>The console is locked; the device reports two events.\<close>

definition demo_locked :: faceplate_display_context where
  "demo_locked =
     zero_context\<lparr>ctx_hostname := ''box'', ctx_connection_label := ''ONLINE'', ctx_events_valid := True,
       ctx_console_locked := True,
       ctx_events := zero_events\<lparr>es_count := 2, es_updated := 5,
         es_lines := [empty_line\<lparr>el_text := ''boot''\<rparr>, empty_line\<lparr>el_text := ''link up''\<rparr>] @
           replicate 10 empty_line\<rparr>\<rparr>"

lemma demo_reachable:
  "term_reachable demo_conf demo_fresh"
  "term_reachable demo_conf (dispatch demo_conf demo_env (Ev_add_display 7) demo_fresh)"
  unfolding demo_fresh_def
  by (rule term_reachable.fresh) (rule term_reachable.event [OF term_reachable.fresh term_step.step])

section \<open>The locked console\<close>

text \<open>
  Property C1. While the console is locked the terminal is a display only: in every reachable
  state and for every event but the bytes that libtsm itself sends, no key, paste or mouse event
  is handed to the emulation, nothing is written to the pty and no login is opened; after the
  event the login is closed and the feed is on.
\<close>

theorem locked_console_takes_no_input:
  assumes "term_reachable cf t" "term_step cf ev t t'" "want_feed t'" "\<forall>s. ev \<noteq> Ev_write s"
  shows "\<not> t_opened t' \<and> t_feed_active t' \<and>
    (\<exists>cs. t_calls t' = t_calls t @ cs \<and> list_all (\<lambda>c. \<not> user_input c) cs)"
proof -
  obtain e where t': "t' = dispatch cf e ev t"
    using assms(2) by (auto elim: term_stepE)
  have inv: "mode_inv t" "mode_inv t'"
    using term_reachable_inv assms(1) term_reachable.event [OF assms(1,2)] by blast+
  have "made (\<lambda>c. \<not> user_input c) t t'"
  proof (cases "status_timer ev")
    case True
    then obtain ctx where "ev = Ev_status ctx"
      by (auto simp: status_timer_def)
    then show ?thesis
      using assms(3) status_event_frame(4) [of e cf ctx t] by (simp add: t' status_event_locked)
  next
    case False
    then show ?thesis
      using locked_no_user_input [OF inv(1) _ assms(4) False, of cf e] assms(3)
        want_feed_dispatch [OF False, of cf e t] by (simp add: t')
  qed
  then show ?thesis
    using inv(2) assms(3) by (auto simp: mode_inv_def made_def)
qed

theorem locked_console_takes_no_input_witness:
  "let t' = dispatch demo_conf demo_env (Ev_status demo_locked) demo_fresh
   in \<not> t_opened t' \<and> t_feed_active t' \<and>
      (\<exists>cs. t_calls t' = t_calls demo_fresh @ cs \<and> list_all (\<lambda>c. \<not> user_input c) cs)"
  unfolding Let_def
  by (rule locked_console_takes_no_input [OF demo_reachable(1) term_step.step])
     (simp_all add: status_event_frame demo_locked_def)

text \<open>
  Property C6. The status timer puts the terminal into the mode that the status asks for, and
  into no other: the feed is on exactly when valid events report a locked console; the login is
  open exactly when the console is not locked and it was open before or the terminal is awake
  and the pty could be opened.
\<close>

theorem status_decides_mode:
  "(t_feed_active (status_event e cf ctx t) \<longleftrightarrow> ctx_events_valid ctx \<and> ctx_console_locked ctx) \<and>
   (t_opened (status_event e cf ctx t) \<longleftrightarrow>
      \<not> (ctx_events_valid ctx \<and> ctx_console_locked ctx) \<and>
      (t_opened t \<or> (t_awake t \<and> e_pty_open e = ok)))"
  by (simp only: status_event_frame HOL.simp_thms)

section \<open>Displays\<close>

text \<open>
  Property C5. In every reachable state the screens belong to distinct displays, and the terminal
  holds exactly one page-flip registration and one reference for each of them: whatever the
  order of events, failures included, none is lost and none is released twice.
\<close>

theorem displays_held_once:
  assumes "term_reachable cf t"
  shows "distinct (map scr_disp (t_screens t)) \<and>
    count_list (t_calls t) (Pageflip_register d) =
      count_list (t_calls t) (Pageflip_unregister d) + (if d \<in> set (map scr_disp (t_screens t)) then 1 else 0) \<and>
    count_list (t_calls t) (Disp_ref d) =
      count_list (t_calls t) (Disp_unref d) + (if d \<in> set (map scr_disp (t_screens t)) then 1 else 0)"
  using term_reachable_inv [OF assms] unfolding held_once_def by blast

theorem displays_held_once_witness:
  "let t = dispatch demo_conf demo_env (Ev_add_display 7) demo_fresh
   in distinct (map scr_disp (t_screens t)) \<and>
    count_list (t_calls t) (Pageflip_register 7) =
      count_list (t_calls t) (Pageflip_unregister 7) + (if 7 \<in> set (map scr_disp (t_screens t)) then 1 else 0) \<and>
    count_list (t_calls t) (Disp_ref 7) =
      count_list (t_calls t) (Disp_unref 7) + (if 7 \<in> set (map scr_disp (t_screens t)) then 1 else 0)"
  unfolding Let_def by (rule displays_held_once [OF demo_reachable(2)])

text \<open>
  Destroying a terminal in any reachable state leaves it without screens and
  releases every page-flip registration and every display reference it ever took.
\<close>

theorem destroy_releases_displays:
  assumes "term_reachable cf t"
  shows "t_screens (terminal_destroy e cf' t) = [] \<and>
    count_list (t_calls (terminal_destroy e cf' t)) (Pageflip_register d) =
      count_list (t_calls (terminal_destroy e cf' t)) (Pageflip_unregister d) \<and>
    count_list (t_calls (terminal_destroy e cf' t)) (Disp_ref d) =
      count_list (t_calls (terminal_destroy e cf' t)) (Disp_unref d)"
  using term_reachable_inv [OF assms] terminal_destroy_balanced [of t e cf'] balance_imp_count by blast

theorem destroy_releases_displays_witness:
  "let t = terminal_destroy demo_env demo_conf (dispatch demo_conf demo_env (Ev_add_display 7) demo_fresh)
   in t_screens t = [] \<and>
      count_list (t_calls t) (Pageflip_register 7) = count_list (t_calls t) (Pageflip_unregister 7) \<and>
      count_list (t_calls t) (Disp_ref 7) = count_list (t_calls t) (Disp_unref 7)"
  unfolding Let_def by (rule destroy_releases_displays [OF demo_reachable(2)])

text \<open>
  Property C18. What a failed construction leaves behind: its error labels release everything but
  the status sources, which are always leaked when they could be allocated, and the cursor timer,
  which is leaked exactly when blinking is on and the status timer is the step that fails.
\<close>

theorem terminal_new_failure_leaks:
  assumes "terminal_new cf asciicast acquire = Failed left"
  shows "set left \<subseteq> {R_sources, R_cursor_timer} \<and>
    (R_sources \<in> set left \<longleftrightarrow> acquire R_memory = ok \<and> acquire R_sources = ok) \<and>
    (R_cursor_timer \<in> set left \<longleftrightarrow> c_blink cf \<and>
       list_all (\<lambda>r. acquire r = ok) [R_memory, R_console, R_vte, R_palette, R_custom_palette, R_font,
         R_pty, R_pty_conf, R_ptyfd, R_key_cb, R_blink_timer, R_cursor_timer] \<and>
       (c_mouse cf \<longrightarrow> acquire R_pointer_cb = ok) \<and> acquire R_status_timer \<noteq> ok)"
  using assms
  by (auto simp: terminal_new_def new_steps_def err_labels split: if_splits option.splits)

theorem terminal_new_failure_leaks_witness:
  "let acquire = (\<lambda>r. if r = R_status_timer then fails ENOMEM else ok)
   in terminal_new demo_conf False acquire = Failed [R_cursor_timer, R_sources] \<and>
      set [R_cursor_timer, R_sources] \<subseteq> {R_sources, R_cursor_timer}"
proof -
  let ?a = "\<lambda>r. if r = R_status_timer then fails ENOMEM else ok"
  have "terminal_new demo_conf False ?a = Failed [R_cursor_timer, R_sources]"
    by (simp add: terminal_new_def new_steps_def err_labels demo_conf_def)
  then show ?thesis
    using terminal_new_failure_leaks [of demo_conf False ?a] unfolding Let_def by blast
qed

section \<open>Frames\<close>

text \<open>
  Property C8. The redraw of a terminal is the redraw of the page-flip machine on every screen:
  exactly the enabled screens without a frame under way are swapped, each once and in the order
  of the screens, and only while the terminal is awake and its session in the foreground; a
  screen with a frame under way remembers the request instead.
\<close>

theorem redraw_schedules_frames:
  assumes "distinct (map scr_disp (t_screens t))"
  shows "sched (redraw_all e t) =
      map (\<lambda>f. snd (flip_redraw (t_awake t) (e_foreground e) (e_swap e) f)) (sched t) \<and>
    t_calls (redraw_all e t) = t_calls t @
      (if t_awake t \<and> e_foreground e
       then map (\<lambda>s. Disp_swap (scr_disp s))
              (filter (\<lambda>s. scr_enabled s \<and> \<not> scr_swapping s) (t_screens t))
       else [])"
proof -
  let ?g = "flip_redraw (t_awake t) (e_foreground e) (e_swap e)"
  have "concat (map (\<lambda>f. fst (?g f)) (map flip_of ss)) =
    (if t_awake t \<and> e_foreground e
     then map (\<lambda>s. Disp_swap (scr_disp s)) (filter (\<lambda>s. scr_enabled s \<and> \<not> scr_swapping s) ss)
     else [])" for ss :: "'a screen list"
    by (induction ss) (auto simp: flip_redraw_def flip_frame_def)
  then show ?thesis
    using redraw_all_flip [OF assms, of e] by (simp add: sched_def)
qed

definition demo_idle :: "unit kmscon_terminal" where
  "demo_idle = demo_fresh\<lparr>t_awake := True, t_screens := [new_screen 7 demo_ops (text_zero () OR_NORMAL)]\<rparr>"

theorem redraw_schedules_frames_witness:
  "t_calls (redraw_all demo_env demo_idle) = t_calls demo_idle @ [Disp_swap 7]"
  using redraw_schedules_frames [of demo_idle demo_env]
  by (simp add: demo_env_def demo_idle_def new_screen_def)

text \<open>
  Property C9. No update is lost and no frame is drawn twice: a redraw that finds the screen of a
  display under way swaps nothing there, and when the display then reports the page flip the
  frame that was put off is drawn, with exactly one swap.
\<close>

theorem postponed_frame_is_drawn:
  assumes "distinct (map scr_disp (t_screens t))" "s \<in> set (t_screens t)"
    and "scr_swapping s" "scr_enabled s" "t_awake t" "e_foreground e'"
  shows "Disp_swap (scr_disp s) \<notin> set (drop (length (t_calls t)) (t_calls (redraw_all e t))) \<and>
    t_calls (display_pageflip e' (scr_disp s) (redraw_all e t)) =
      t_calls (redraw_all e t) @ [Disp_swap (scr_disp s)]"
proof -
  let ?u = "redraw_all e t"
  let ?g = "flip_redraw True (e_foreground e) (e_swap e)"
  have u: "displays ?u = displays t" "t_awake ?u"
    using harmless_same [OF harmless_redraw_all [OF harmless_refl]] assms(5) by blast+
  have sch: "sched ?u = map (\<lambda>f. snd (?g f)) (sched t)"
    "t_calls ?u = t_calls t @ concat (map (\<lambda>f. fst (?g f)) (sched t))"
    using redraw_all_flip [OF assms(1), of e] assms(5) by simp_all
  have "Disp_swap (scr_disp s) \<notin> set (fst (?g (flip_of s')))" if "s' \<in> set (t_screens t)" for s'
  proof (cases "scr_disp s' = scr_disp s")
    case True
    then have "s' = s"
      using that assms(1,2) by (metis distinct_map inj_onD)
    then show ?thesis using assms(3) by (simp add: flip_redraw_def)
  next
    case False
    then show ?thesis by (simp add: flip_redraw_def flip_frame_def)
  qed
  then have none: "Disp_swap (scr_disp s) \<notin> set (drop (length (t_calls t)) (t_calls ?u))"
    by (auto simp: sch(2) sched_def)
  have "flip_calls (scr_disp s) (flip_done True (e_foreground e') (e_swap e')) (sched ?u) =
      fst (flip_done True (e_foreground e') (e_swap e') (snd (?g (flip_of s))))"
  proof (rule flip_calls_one)
    show "distinct (map fl_disp (sched ?u))"
      using assms(1) u(1) by simp
    show "snd (?g (flip_of s)) \<in> set (sched ?u)"
      unfolding sch(1) using assms(2) by (simp add: sched_def)
  qed simp
  also have "\<dots> = [Disp_swap (scr_disp s)]"
    using assms(3,4,6) by (simp add: flip_redraw_def flip_done_def flip_frame_def)
  finally have "t_calls (display_pageflip e' (scr_disp s) ?u) = t_calls ?u @ [Disp_swap (scr_disp s)]"
    using display_pageflip_flip [of ?u "scr_disp s" e'] assms(1) u by (simp add: implements_def)
  then show ?thesis using none by blast
qed

definition demo_screen :: "unit screen" where
  "demo_screen = (new_screen 7 demo_ops (text_zero () OR_NORMAL))\<lparr>scr_swapping := True\<rparr>"

definition demo_awake :: "unit kmscon_terminal" where
  "demo_awake = demo_fresh\<lparr>t_awake := True, t_screens := [demo_screen]\<rparr>"

theorem postponed_frame_is_drawn_witness:
  "t_calls (display_pageflip demo_env 7 (redraw_all demo_env demo_awake)) =
     t_calls (redraw_all demo_env demo_awake) @ [Disp_swap 7]"
  using postponed_frame_is_drawn [of demo_awake demo_screen demo_env demo_env]
  by (simp add: demo_awake_def demo_screen_def new_screen_def demo_env_def)

section \<open>Sizes\<close>

text \<open>
  In clone mode the terminal takes the smallest number of columns and of rows of all
  its screens, so that its text fits on each of them; the numbers are attained.
\<close>

theorem clone_mode_takes_minimum:
  assumes "c_multi_monitor cf \<noteq> Some ''largest''" "t_screens t \<noteq> []"
    and "\<forall>s\<in>set (t_screens t). 0 < kmscon_text_get_cols (scr_txt s) \<and> kmscon_text_get_cols (scr_txt s) < UINT_MAX \<and>
       0 < kmscon_text_get_rows (scr_txt s) \<and> kmscon_text_get_rows (scr_txt s) < UINT_MAX"
  shows "t_min_cols (snd (terminal_update_size e cf t)) =
      Min ((\<lambda>s. kmscon_text_get_cols (scr_txt s)) ` set (t_screens t)) \<and>
    t_min_rows (snd (terminal_update_size e cf t)) =
      Min ((\<lambda>s. kmscon_text_get_rows (scr_txt s)) ` set (t_screens t))"
  using clone_size_min [OF assms(2)] assms(1,3)
  by (auto simp: terminal_update_size_def case_prod_beta Let_def mincols.field_resize_enabled
        minrows.field_resize_enabled)

definition demo_size :: "u32 \<Rightarrow> u32 \<Rightarrow> unit kmscon_text" where
  "demo_size c r = (text_zero () OR_NORMAL)\<lparr>txt_max_cols := c, txt_max_rows := r\<rparr>"

definition demo_two :: "unit kmscon_terminal" where
  "demo_two = demo_fresh\<lparr>t_screens := [new_screen 1 demo_ops (demo_size 80 25), new_screen 2 demo_ops (demo_size 132 20)]\<rparr>"

theorem clone_mode_takes_minimum_witness:
  "t_min_cols (snd (terminal_update_size demo_env demo_conf demo_two)) = 80 \<and>
   t_min_rows (snd (terminal_update_size demo_env demo_conf demo_two)) = 20"
  using clone_mode_takes_minimum [of demo_conf demo_two demo_env]
  by (simp add: demo_two_def demo_conf_def new_screen_def demo_size_def kmscon_text_get_cols_def
        kmscon_text_get_rows_def)

text \<open>
  In largest mode exactly the screens of the chosen size are enabled afterwards, and
  no screen has more cells than the chosen size, which is the size of a screen (the product of
  rows and columns is the 32-bit one of the code).
\<close>

theorem largest_mode_enables_largest:
  assumes "distinct (map scr_disp (t_screens t))" "terminal_update_size_largest e t = (True, u)"
  shows "map scr_disp (t_screens u) = map scr_disp (t_screens t) \<and>
    (\<forall>s\<in>set (t_screens u). scr_enabled s \<longleftrightarrow>
       kmscon_text_get_rows (scr_txt s) = t_min_rows u \<and> kmscon_text_get_cols (scr_txt s) = t_min_cols u) \<and>
    (\<forall>s\<in>set (t_screens u). kmscon_text_get_rows (scr_txt s) * kmscon_text_get_cols (scr_txt s)
       \<le> t_min_rows u * t_min_cols u) \<and>
    (\<exists>s\<in>set (t_screens u). scr_enabled s)"
proof -
  obtain m c r where p: "fold largest_pick (t_screens t) (0, t_min_cols t, t_min_rows t) = (m, c, r)"
    by (metis prod_cases3)
  note u = update_size_largest [OF assms(1) assms(2) [symmetric] p]
  have "m > 0"
    using u(4) by simp
  then obtain s where s: "s \<in> set (t_screens t)" "m = screen_cells s"
    "c = kmscon_text_get_cols (scr_txt s)" "r = kmscon_text_get_rows (scr_txt s)"
    and max: "\<forall>s\<in>set (t_screens t). screen_cells s \<le> m"
    using fold_largest_pick [OF p] by auto
  have "m = r * c"
    using s(2-4) by (simp add: screen_cells_def)
  moreover have "scr_enabled (fit_screen e c r s') \<longleftrightarrow>
      kmscon_text_get_rows (scr_txt s') = r \<and> kmscon_text_get_cols (scr_txt s') = c" for s'
    by (simp add: fit_screen_def)
  moreover have "fit_screen e c r s \<in> set (t_screens u)"
    using s(1) by (simp add: u(1))
  ultimately show ?thesis
    using s max by (auto simp: u(1-3) screen_cells_def comp_def)
qed

theorem largest_mode_enables_largest_witness:
  "\<exists>u. terminal_update_size_largest demo_env demo_two = (True, u) \<and> (\<exists>s\<in>set (t_screens u). scr_enabled s)"
proof -
  have "fst (terminal_update_size_largest demo_env demo_two)"
    by (simp add: terminal_update_size_largest_def Let_def demo_two_def new_screen_def demo_size_def
          largest_pick_def kmscon_text_get_cols_def kmscon_text_get_rows_def)
  then obtain u where u: "terminal_update_size_largest demo_env demo_two = (True, u)"
    by (cases "terminal_update_size_largest demo_env demo_two") auto
  have "distinct (map scr_disp (t_screens demo_two))"
    by (simp add: demo_two_def new_screen_def)
  from largest_mode_enables_largest [OF this u] u show ?thesis by blast
qed

text \<open>
  Zooming moves the font by the font's step or not at all, never above 150 plus one
  step and never below 10; and when there is no font of the new size, the terminal is left
  exactly as it was.
\<close>

theorem zoom_is_bounded_and_rolls_back:
  assumes "increase_step (t_font t) \<le> 1000"
  shows "(t_font_height (zoom_in e cf t) = t_font_height t \<or>
       unat (t_font_height (zoom_in e cf t)) = unat (t_font_height t) + unat (increase_step (t_font t)) \<and>
       unat (t_font_height (zoom_in e cf t)) \<le> 150 + unat (increase_step (t_font t))) \<and>
    (t_font_height (zoom_out e cf t) = t_font_height t \<or>
       unat (t_font_height (zoom_out e cf t)) + unat (increase_step (t_font t)) = unat (t_font_height t) \<and>
       10 \<le> unat (t_font_height (zoom_out e cf t))) \<and>
    (e_font e (t_font_height t + increase_step (t_font t)) = Inl err \<longrightarrow> zoom_in e cf t = t) \<and>
    (e_font e (t_font_height t - increase_step (t_font t)) = Inl err \<longrightarrow> zoom_out e cf t = t)"
proof (intro conjI impI)
  let ?h = "t_font_height t" and ?s = "increase_step (t_font t)"
  have s: "unat ?s \<le> 1000"
    using assms by (simp add: word_le_nat_alt)
  show "t_font_height (zoom_in e cf t) = ?h \<or> unat (t_font_height (zoom_in e cf t)) = unat ?h + unat ?s \<and>
      unat (t_font_height (zoom_in e cf t)) \<le> 150 + unat ?s"
  proof (cases "?h > 150")
    case True
    then show ?thesis by (simp add: zoom_in_height)
  next
    case False
    then have h: "unat ?h \<le> 150"
      by (simp add: word_less_nat_alt)
    then have "unat (?h + ?s) = unat ?h + unat ?s"
      using s by (intro unat_add_small) simp
    then show ?thesis
      using h False by (auto simp: zoom_in_height split: sum.splits)
  qed
  show "t_font_height (zoom_out e cf t) = ?h \<or> unat (t_font_height (zoom_out e cf t)) + unat ?s = unat ?h \<and>
      10 \<le> unat (t_font_height (zoom_out e cf t))"
  proof (cases "?h \<le> ?s \<or> ?h - ?s < 10")
    case True
    then show ?thesis by (simp add: zoom_out_height)
  next
    case False
    then have "unat (?h - ?s) = unat ?h - unat ?s" "unat ?s \<le> unat ?h" "10 \<le> unat (?h - ?s)"
      by (auto simp: unat_sub_le word_le_nat_alt word_less_nat_alt)
    then show ?thesis
      using False by (auto simp: zoom_out_height split: sum.splits)
  qed
qed (simp_all add: zoom_in_rollback zoom_out_rollback)

definition demo_nofont :: "unit term_env" where
  "demo_nofont = demo_env\<lparr>e_font := (\<lambda>h. Inl ENOENT)\<rparr>"

theorem zoom_is_bounded_and_rolls_back_witness:
  "zoom_in demo_nofont demo_conf demo_idle = demo_idle \<and>
   zoom_out demo_nofont demo_conf demo_idle = demo_idle"
  using zoom_is_bounded_and_rolls_back [of demo_idle demo_nofont demo_conf ENOENT]
  by (simp add: demo_idle_def demo_fresh_def terminal_fresh_def demo_font_def demo_nofont_def)

section \<open>The pointer\<close>

lemma pointer_event_keeps_pointer:
  "pe_event ev = POINTER_MOVED \<Longrightarrow> t_pointer (pointer_event e cf ev t) = t_pointer (pointer_moved ev t)"
  by (simp add: pointer_event_def Let_def forward_pointer_event_def update_selection_def emit_def)

text \<open>
  Wherever the pointer moves, the cell handed to the emulation lies inside the
  console; inside the screen it is the cell under the pointer, and beyond it the last one.
\<close>

theorem pointer_cell_inside:
  assumes "pe_event ev = POINTER_MOVED" "0 < t_con_w t" "0 < t_con_h t"
  shows "let p = t_pointer (pointer_event e cf ev t)
    in ptr_posx p < t_con_w t \<and> ptr_posy p < t_con_h t \<and>
       (0 \<le> pe_x ev \<and> pe_x ev < 2 ^ 31 \<and> attr_width (t_font t) < 2 ^ 31 \<longrightarrow>
          int (unat (ptr_posx p)) =
            min (pe_x ev div int (unat (attr_width (t_font t)))) (int (unat (t_con_w t)) - 1))"
proof -
  have p: "t_pointer (pointer_event e cf ev t) = t_pointer (pointer_moved ev t)"
    using assms(1) by (rule pointer_event_keeps_pointer)
  have xy: "ptr_posx (t_pointer (pointer_moved ev t)) = cell_of (pe_x ev) (attr_width (t_font t)) (t_con_w t)"
    "ptr_posy (t_pointer (pointer_moved ev t)) = cell_of (pe_y ev) (attr_height (t_font t)) (t_con_h t)"
    by (simp_all add: pointer_moved_def coord_to_cell_def hw_cursor_show_def)
  show ?thesis
    using assms(2,3) cell_of_exact [of "pe_x ev" "attr_width (t_font t)" "t_con_w t"]
    by (simp add: Let_def p xy cell_of_bound)
qed

theorem pointer_cell_inside_witness:
  "int (unat (ptr_posx (t_pointer (pointer_event demo_env demo_conf
      \<lparr>pe_event = POINTER_MOVED, pe_x = 17, pe_y = 5, pe_wheel = 0, pe_button = 0, pe_pressed = False,
       pe_double_click = False\<rparr> demo_idle)))) = 2"
  using pointer_cell_inside [of "\<lparr>pe_event = POINTER_MOVED, pe_x = 17, pe_y = 5, pe_wheel = 0, pe_button = 0,
      pe_pressed = False, pe_double_click = False\<rparr>" demo_idle demo_env demo_conf]
  by (simp add: demo_idle_def demo_fresh_def terminal_fresh_def demo_font_def Let_def)

section \<open>The event feed\<close>

text \<open>
  The feed shows the newest events, in order, one line each: never more lines than
  the console has rows but one, never more characters of a line than columns, and every piece
  handed to libtsm is far below the 4096 bytes of the buffer it is built in.
\<close>

theorem feed_shows_newest_that_fit:
  assumes "lines \<noteq> []" "1 < h" "0 < w"
  shows "\<exists>k. feed_inputs w h lines = map (feed_line (unat w)) (drop k lines) \<and>
    length (feed_inputs w h lines) = min (length lines) (unat h - 1) \<and>
    last (feed_inputs w h lines) = feed_line (unat w) (last lines) \<and>
    list_all (\<lambda>s. length s \<le> min (unat w) 255 + 2 \<and> length s < 4096) (feed_inputs w h lines)"
proof -
  let ?k = "if length lines > unat h - 1 then length lines - (unat h - 1) else 0"
  have h: "1 < unat h" "w \<noteq> 0" "h \<noteq> 0"
    using assms(2,3) by (auto simp: word_less_nat_alt)
  have f: "feed_inputs w h lines = map (feed_line (unat w)) (drop ?k lines)"
    using h assms(1) by (simp add: feed_inputs_def Let_def)
  have n: "length (feed_inputs w h lines) = min (length lines) (unat h - 1)"
    by (simp add: f min_def)
  have ne: "drop ?k lines \<noteq> []"
    using h(1) assms(1) by auto
  have "length (feed_line (unat w) s) \<le> min (unat w) 255 + 2 \<and> length (feed_line (unat w) s) < 4096" for s
    using feed_line_length [of "unat w" s] by simp
  then have "list_all (\<lambda>s. length s \<le> min (unat w) 255 + 2 \<and> length s < 4096) (feed_inputs w h lines)"
    by (simp add: f list_all_iff)
  moreover have "last (feed_inputs w h lines) = feed_line (unat w) (last lines)"
    unfolding f last_map [OF ne] using ne by (simp only: last_drop drop_eq_Nil not_le)
  ultimately show ?thesis
    using f n by blast
qed

theorem feed_shows_newest_that_fit_witness:
  "length (feed_inputs 80 3 [''a'', ''b'', ''c'']) = 2 \<and>
   last (feed_inputs 80 3 [''a'', ''b'', ''c'']) = feed_line 80 ''c''"
  using feed_shows_newest_that_fit [of "[''a'', ''b'', ''c'']" 3 80] by auto

end
