(* ===== verification/Seat.thy ===== *)
theory Seat
  imports Terminal_Events
begin

text \<open>
  The seat, \<open>src/seat.c\<close>: the sessions of a seat and which of them is current, the displays
  and video devices, whether the seat is awake and in the foreground, screen blanking, and the
  handlers for the virtual terminal, the device monitor, the keyboard and the pointer.

  A session owns a terminal of the theories Terminal and Terminal_Events; the seat calls its
  operations. Sessions are named by numbers, drawn from a counter that stands for the addresses
  that \<open>malloc\<close> returns. The lists are those of \<open>shl/dlist.h\<close>: linking at a head puts
  an element first, linking at an element right behind it.
\<close>

section \<open>Data\<close>

record 'd kmscon_session =
  s_id :: nat
  s_foreground :: bool
  s_term :: "'d kmscon_terminal"

record kmscon_display =
  d_disp :: nat
  d_activated :: bool

record kmscon_video =
  v_id :: nat
  v_video :: bool
  v_drm :: bool
  v_awake :: bool

datatype video_backend = Be_drm3d | Be_drm2d | Be_fbdev

datatype seat_call =
    Input_sleep | Input_wake_up | Seat_wake_up | Seat_hup
  | Set_dpms nat bool | Dpms_timer_update nat
  | Display_ref nat | Display_unref nat
  | Open_device nat | Close_device nat | Video_new nat video_backend | Video_unref nat
  | Video_wake_up nat | Video_sleep nat | Video_poll nat
  | Set_dev_data nat bool
  | Input_add string | Input_remove
  | Vt_restore | Vt_activate | Vt_bell | Set_leds bool bool bool
  | Monitor_scan | Reboot_soft | Reboot_hard
  | Session_freed nat "call list"

record 'd kmscon_seat =
  sessions :: "'d kmscon_session list"
  session_count :: nat
  next_id :: nat
  seat_displays :: "kmscon_display list"
  seat_videos :: "kmscon_video list"
  seat_awake :: bool
  seat_foreground :: bool
  current_sess :: "nat option"
  dpms_timer :: bool
  dpms_blanked :: bool
  seat_calls :: "seat_call list"

datatype gpu_selection = GPU_ALL | GPU_AUX | GPU_PRIMARY

record seat_conf =
  sc_term :: term_conf
  sc_dpms_timeout :: nat
  sc_session_control :: bool
  sc_session_max :: nat
  sc_switchvt :: bool
  sc_drm :: bool
  sc_hwaccel :: bool
  sc_gpus :: gpu_selection
  grab_session_next :: conf_grab
  grab_session_prev :: conf_grab
  grab_session_close :: conf_grab
  grab_terminal_new :: conf_grab
  grab_reboot :: "conf_grab option"

text \<open>What a video device reports about its displays while it wakes up.\<close>

datatype hotplug = Hp_new nat | Hp_refresh nat | Hp_remove nat

text \<open>
  The answers from outside during one event: those the terminals get, and those of the seat's
  own callback, the displays, the video devices and the VT. \<open>se_terminal\<close> is the terminal that
  \<open>terminal_new\<close> returns, if it does; \<open>se_hotplug v\<close> are the reports of the device \<open>v\<close>.
\<close>

record 'd seat_env =
  se_term :: "'d term_env"
  se_mem :: bool
  se_cb :: status
  se_active :: "nat \<Rightarrow> bool"
  se_terminal :: "'d kmscon_terminal option"
  se_open :: "nat \<Rightarrow> status"
  se_video_new :: "nat \<Rightarrow> video_backend \<Rightarrow> status"
  se_wake :: "nat \<Rightarrow> status"
  se_hotplug :: "nat \<Rightarrow> hotplug list"
  se_display_video :: "nat \<Rightarrow> nat"
  se_vt_restore :: status
  se_vt_num :: nat
  se_ctrl_alt_del :: int

definition semit :: "seat_call \<Rightarrow> 'd kmscon_seat \<Rightarrow> 'd kmscon_seat" where
  "semit c seat = seat\<lparr>seat_calls := seat_calls seat @ [c]\<rparr>"

abbreviation sess_ids :: "'d kmscon_seat \<Rightarrow> nat list" where
  "sess_ids seat \<equiv> map s_id (sessions seat)"

definition get_sess :: "nat \<Rightarrow> 'd kmscon_seat \<Rightarrow> 'd kmscon_session option" where
  "get_sess i seat = List.find (\<lambda>s. s_id s = i) (sessions seat)"

text \<open>The environment of a session's terminal: \<open>kmscon_session_get_foreground\<close> is the session's flag.\<close>

definition sess_env :: "'d seat_env \<Rightarrow> 'd kmscon_session \<Rightarrow> 'd term_env" where
  "sess_env e s = (se_term e)\<lparr>e_foreground := s_foreground s\<rparr>"

definition upd_term :: "('d kmscon_session \<Rightarrow> 'd kmscon_terminal \<Rightarrow> 'd kmscon_terminal) \<Rightarrow>
    'd kmscon_session \<Rightarrow> 'd kmscon_session" where
  "upd_term f s = s\<lparr>s_term := f s (s_term s)\<rparr>"

definition on_sess :: "nat \<Rightarrow> ('d kmscon_session \<Rightarrow> 'd kmscon_session) \<Rightarrow> 'd kmscon_seat \<Rightarrow> 'd kmscon_seat" where
  "on_sess i f seat = seat\<lparr>sessions := map (\<lambda>s. if s_id s = i then f s else s) (sessions seat)\<rparr>"

definition on_all :: "('d kmscon_session \<Rightarrow> 'd kmscon_session) \<Rightarrow> 'd kmscon_seat \<Rightarrow> 'd kmscon_seat" where
  "on_all f seat = seat\<lparr>sessions := map f (sessions seat)\<rparr>"

definition activate_sess :: "'d seat_env \<Rightarrow> seat_conf \<Rightarrow> nat option \<Rightarrow> 'd kmscon_seat \<Rightarrow> 'd kmscon_seat" where
  "activate_sess e cf i seat =
     (case i of
        None \<Rightarrow> seat
      | Some i \<Rightarrow> on_sess i (upd_term (\<lambda>s. terminal_activate (sess_env e s) (sc_term cf))) seat)"

definition deactivate_sess :: "seat_conf \<Rightarrow> nat option \<Rightarrow> 'd kmscon_seat \<Rightarrow> 'd kmscon_seat" where
  "deactivate_sess cf i seat =
     (case i of
        None \<Rightarrow> seat
      | Some i \<Rightarrow> on_sess i (upd_term (\<lambda>s. terminal_deactivate (sc_term cf))) seat)"

section \<open>Blanking\<close>

definition set_dpms_activated :: "bool \<Rightarrow> 'd kmscon_seat \<Rightarrow> 'd kmscon_seat" where
  "set_dpms_activated on seat =
     seat\<lparr>seat_calls := seat_calls seat @
        map (\<lambda>d. Set_dpms (d_disp d) on) (filter d_activated (seat_displays seat))\<rparr>"

definition seat_dpms_timeout :: "seat_conf \<Rightarrow> 'd kmscon_seat \<Rightarrow> 'd kmscon_seat" where
  "seat_dpms_timeout cf seat =
     (if sc_dpms_timeout cf = 0 \<or> \<not> seat_awake seat then seat
      else (deactivate_sess cf (current_sess seat) (set_dpms_activated False seat))
             \<lparr>dpms_blanked := True\<rparr>)"

definition seat_dpms_reset_timer :: "'d seat_env \<Rightarrow> seat_conf \<Rightarrow> 'd kmscon_seat \<Rightarrow> 'd kmscon_seat" where
  "seat_dpms_reset_timer e cf seat =
     (if sc_dpms_timeout cf = 0 \<or> \<not> dpms_timer seat then seat
      else
        let seat = (if dpms_blanked seat
                    then (activate_sess e cf (current_sess seat) (set_dpms_activated True seat))
                           \<lparr>dpms_blanked := False\<rparr>
                    else seat)
        in semit (Dpms_timer_update (sc_dpms_timeout cf)) seat)"

section \<open>Displays\<close>

definition get_display :: "nat \<Rightarrow> 'd kmscon_seat \<Rightarrow> kmscon_display option" where
  "get_display d seat = List.find (\<lambda>x. d_disp x = d) (seat_displays seat)"

text \<open>\<open>d\<close> is the display of a \<open>kmscon_display\<close> of the seat.\<close>

definition activate_display :: "'d seat_env \<Rightarrow> seat_conf \<Rightarrow> nat \<Rightarrow> 'd kmscon_seat \<Rightarrow> 'd kmscon_seat" where
  "activate_display e cf d seat =
     (case get_display d seat of
        None \<Rightarrow> seat
      | Some x \<Rightarrow>
          if d_activated x \<or> \<not> seat_awake seat \<or> \<not> seat_foreground seat then seat
          else if \<not> se_active e d then seat
          else
            let seat = seat\<lparr>seat_displays := map (\<lambda>x. if d_disp x = d then x\<lparr>d_activated := True\<rparr> else x)
                                               (seat_displays seat)\<rparr>;
                seat = semit (Set_dpms d True) seat;
                seat = seat_dpms_reset_timer e cf seat;
                seat = on_all (upd_term (\<lambda>s t. snd (terminal_add_display (sess_env e s) (sc_term cf) d t))) seat
            in activate_sess e cf (current_sess seat) seat)"

definition seat_new_display :: "'d seat_env \<Rightarrow> seat_conf \<Rightarrow> nat \<Rightarrow> 'd kmscon_seat \<Rightarrow> 'd kmscon_seat" where
  "seat_new_display e cf d seat =
     (if \<not> se_mem e then seat
      else
        let seat = semit (Display_ref d) seat;
            seat = seat\<lparr>seat_displays := \<lparr>d_disp = d, d_activated = False\<rparr> # seat_displays seat\<rparr>
        in activate_display e cf d seat)"

definition seat_remove_display :: "'d seat_env \<Rightarrow> seat_conf \<Rightarrow> nat \<Rightarrow> 'd kmscon_seat \<Rightarrow> 'd kmscon_seat" where
  "seat_remove_display e cf d seat =
     (case get_display d seat of
        None \<Rightarrow> seat
      | Some x \<Rightarrow>
          let seat = seat\<lparr>seat_displays := remove1 x (seat_displays seat)\<rparr>;
              seat = (if d_activated x
                      then on_all (upd_term (\<lambda>s. terminal_rm_display (sess_env e s) (sc_term cf) d)) seat
                      else seat)
          in semit (Display_unref d) seat)"

definition seat_refresh_display :: "'d seat_env \<Rightarrow> nat \<Rightarrow> 'd kmscon_seat \<Rightarrow> 'd kmscon_seat" where
  "seat_refresh_display e d seat =
     (case get_display d seat of
        None \<Rightarrow> seat
      | Some x \<Rightarrow>
          if d_activated x
          then on_all (upd_term (\<lambda>s. terminal_refresh_displays (sess_env e s))) seat
          else seat)"

section \<open>Video devices\<close>

fun hotplugged :: "'d seat_env \<Rightarrow> seat_conf \<Rightarrow> hotplug \<Rightarrow> 'd kmscon_seat \<Rightarrow> 'd kmscon_seat" where
  "hotplugged e cf (Hp_new d) seat = seat_new_display e cf d seat"
| "hotplugged e cf (Hp_refresh d) seat = seat_refresh_display e d seat"
| "hotplugged e cf (Hp_remove d) seat = seat_remove_display e cf d seat"

definition video_wake_up :: "'d seat_env \<Rightarrow> seat_conf \<Rightarrow> nat \<Rightarrow> 'd kmscon_seat \<Rightarrow> status \<times> 'd kmscon_seat" where
  "video_wake_up e cf v seat = (se_wake e v, fold (hotplugged e cf) (se_hotplug e v) (semit (Video_wake_up v) seat))"

text \<open>The result is the device with its video object, if one was made.\<close>

definition seat_video_init :: "'d seat_env \<Rightarrow> seat_conf \<Rightarrow> kmscon_video \<Rightarrow> 'd kmscon_seat \<Rightarrow>
    status \<times> kmscon_video \<times> 'd kmscon_seat" where
  "seat_video_init e cf vid seat =
     (let v = v_id vid;
          backend = (if v_drm vid then if sc_hwaccel cf then Be_drm3d else Be_drm2d else Be_fbdev);
          seat = semit (Open_device v) seat
      in if se_open e v \<noteq> ok then (se_open e v, vid, seat)
         else
           let ret = se_video_new e v backend;
               seat = semit (Video_new v backend) seat;
               (ret, seat) = (if ret \<noteq> ok \<and> backend = Be_drm3d
                              then (se_video_new e v Be_drm2d, semit (Video_new v Be_drm2d) seat)
                              else (ret, seat))
           in if ret \<noteq> ok then (ret, vid, semit (Close_device v) seat)
              else
                let (ret, seat) = video_wake_up e cf v seat
                in (ret, vid\<lparr>v_video := True\<rparr>, seat))"

text \<open>
  \<open>drm_backed\<close>, \<open>primary\<close> and \<open>aux\<close> are the flags of the device; \<open>drm\<close> tells a
  DRM device from an fbdev one (the two kinds the monitor reports here).
\<close>

definition kmscon_seat_gpu_is_ignored :: "seat_conf \<Rightarrow> bool \<Rightarrow> bool \<Rightarrow> bool \<Rightarrow> bool \<Rightarrow> bool" where
  "kmscon_seat_gpu_is_ignored cf drm drm_backed primary aux =
     (if \<not> drm \<and> sc_drm cf \<and> drm_backed then True
      else if drm \<and> \<not> sc_drm cf then True
      else if sc_gpus cf = GPU_PRIMARY \<and> \<not> primary then True
      else if sc_gpus cf = GPU_AUX \<and> \<not> primary \<and> \<not> aux then True
      else False)"

definition kmscon_seat_add_video :: "'d seat_env \<Rightarrow> seat_conf \<Rightarrow> nat \<Rightarrow> bool \<Rightarrow> bool \<Rightarrow> bool \<Rightarrow> bool \<Rightarrow>
    'd kmscon_seat \<Rightarrow> status \<times> 'd kmscon_seat" where
  "kmscon_seat_add_video e cf v drm drm_backed primary aux seat =
     (if kmscon_seat_gpu_is_ignored cf drm drm_backed primary aux then (fails ERANGE, seat)
      else if \<not> se_mem e then (fails ENOMEM, seat)
      else
        let vid = \<lparr>v_id = v, v_video = False, v_drm = drm, v_awake = False\<rparr>;
            seat = semit (Set_dev_data v True) seat;
            (ret, vid, seat) = (if seat_awake seat then seat_video_init e cf vid seat else (ok, vid, seat))
        in if ret \<noteq> ok then (ret, semit (Set_dev_data v False) seat)
           else (ok, seat\<lparr>seat_videos := vid # seat_videos seat\<rparr>))"

definition kmscon_seat_remove_video :: "'d seat_env \<Rightarrow> seat_conf \<Rightarrow> nat \<Rightarrow> 'd kmscon_seat \<Rightarrow> 'd kmscon_seat" where
  "kmscon_seat_remove_video e cf v seat =
     (case List.find (\<lambda>x. v_id x = v) (seat_videos seat) of
        None \<Rightarrow> seat
      | Some vid \<Rightarrow>
          let seat = semit (Set_dev_data v False) seat;
              seat = seat\<lparr>seat_videos := remove1 vid (seat_videos seat)\<rparr>
          in if v_video vid then
               let seat = fold (\<lambda>d seat. if se_display_video e d = v then seat_remove_display e cf d seat else seat)
                            (map d_disp (seat_displays seat)) seat
               in semit (Close_device v) (semit (Video_unref v) seat)
             else seat)"

definition kmscon_seat_poll_video :: "nat \<Rightarrow> 'd kmscon_seat \<Rightarrow> 'd kmscon_seat" where
  "kmscon_seat_poll_video v seat = semit (Video_poll v) seat"

end
