(* ===== verification/Seat_Events.thy ===== *)
theory Seat_Events
  imports Seat
begin

text \<open>
  The rest of \<open>src/seat.c\<close>: sleeping and waking, foreground and background, the current
  session and the switches between sessions, the handlers, construction and destruction.
\<close>

section \<open>Awake and foreground\<close>

text \<open>A device that cannot be set up is dropped from the list.\<close>

definition init_videos :: "'d seat_env \<Rightarrow> seat_conf \<Rightarrow> 'd kmscon_seat \<Rightarrow> 'd kmscon_seat" where
  "init_videos e cf seat =
     fold (\<lambda>vid seat.
        if v_video vid then seat
        else
          let (ret, vid', seat) = seat_video_init e cf vid seat
          in if ret \<noteq> ok
             then (semit (Set_dev_data (v_id vid) False) seat)
                    \<lparr>seat_videos := filter (\<lambda>x. v_id x \<noteq> v_id vid) (seat_videos seat)\<rparr>
             else seat\<lparr>seat_videos := map (\<lambda>x. if v_id x = v_id vid then vid' else x) (seat_videos seat)\<rparr>)
       (seat_videos seat) seat"

definition seat_go_foreground :: "'d seat_env \<Rightarrow> seat_conf \<Rightarrow> 'd kmscon_seat \<Rightarrow> status \<times> 'd kmscon_seat" where
  "seat_go_foreground e cf seat =
     (if seat_foreground seat then (ok, seat)
      else if \<not> seat_awake seat then (fails EBUSY, seat)
      else
        let seat = seat\<lparr>seat_foreground := True\<rparr>;
            seat = init_videos e cf seat;
            seat = fold (\<lambda>vid seat. if \<not> v_awake vid then snd (video_wake_up e cf (v_id vid) seat) else seat)
                     (seat_videos seat) seat;
            seat = fold (activate_display e cf) (map d_disp (seat_displays seat)) seat
        in (ok, seat))"

definition seat_go_background :: "'d kmscon_seat \<Rightarrow> status \<times> 'd kmscon_seat" where
  "seat_go_background seat =
     (if \<not> seat_foreground seat then (ok, seat)
      else if \<not> seat_awake seat then (fails EBUSY, seat)
      else (ok, seat\<lparr>seat_calls := seat_calls seat @ map (\<lambda>v. Video_sleep (v_id v)) (seat_videos seat),
                    seat_foreground := False\<rparr>))"

definition seat_go_asleep :: "'d kmscon_seat \<Rightarrow> status \<times> 'd kmscon_seat" where
  "seat_go_asleep seat =
     (if \<not> seat_awake seat then (ok, seat) else (ok, semit Input_sleep (seat\<lparr>seat_awake := False\<rparr>)))"

definition seat_go_awake :: "'d seat_env \<Rightarrow> 'd kmscon_seat \<Rightarrow> status \<times> 'd kmscon_seat" where
  "seat_go_awake e seat =
     (if seat_awake seat then (ok, seat)
      else if se_cb e \<noteq> ok then (se_cb e, semit Seat_wake_up seat)
      else (ok, semit Input_wake_up ((semit Seat_wake_up seat)\<lparr>seat_awake := True\<rparr>)))"

section \<open>The current session\<close>

definition seat_switch :: "'d seat_env \<Rightarrow> seat_conf \<Rightarrow> nat option \<Rightarrow> 'd kmscon_seat \<Rightarrow> 'd kmscon_seat" where
  "seat_switch e cf new seat =
     (if current_sess seat = new then seat
      else
        let seat = deactivate_sess cf (current_sess seat) seat;
            seat =
              (case new of
                 None \<Rightarrow> snd (seat_go_background seat)
               | Some i \<Rightarrow>
                   (case get_sess i seat of
                      None \<Rightarrow> seat
                    | Some s \<Rightarrow>
                        let seat = (if s_foreground s \<and> \<not> seat_foreground seat
                                    then snd (seat_go_foreground e cf seat)
                                    else if \<not> s_foreground s \<and> seat_foreground seat
                                    then snd (seat_go_background seat) else seat)
                        in activate_sess e cf (Some i) seat))
        in seat\<lparr>current_sess := new\<rparr>)"

text \<open>The element behind \<open>x\<close>, if there is one.\<close>

fun succ_of :: "nat \<Rightarrow> nat list \<Rightarrow> nat option" where
  "succ_of x (a # b # xs) = (if a = x then Some b else succ_of x (b # xs))"
| "succ_of x _ = None"

text \<open>
  \<open>shl_dlist_first\<close> of an empty list is not \<open>NULL\<close> but a pointer to the list head; the
  callers make sure that there is a session, and the model has \<open>None\<close> there.
\<close>

definition first_of :: "nat list \<Rightarrow> nat option" where
  "first_of xs = (case xs of [] \<Rightarrow> None | x # _ \<Rightarrow> Some x)"

definition next_sess :: "nat option \<Rightarrow> nat list \<Rightarrow> nat option" where
  "next_sess cur ids =
     (let n = (case cur of None \<Rightarrow> None | Some c \<Rightarrow> succ_of c ids);
          n = (if n = None then first_of ids else n)
      in if n \<noteq> None \<and> n = cur then None else n)"

definition seat_next :: "'d seat_env \<Rightarrow> seat_conf \<Rightarrow> 'd kmscon_seat \<Rightarrow> 'd kmscon_seat" where
  "seat_next e cf seat = seat_switch e cf (next_sess (current_sess seat) (sess_ids seat)) seat"

definition seat_prev :: "'d seat_env \<Rightarrow> seat_conf \<Rightarrow> 'd kmscon_seat \<Rightarrow> 'd kmscon_seat" where
  "seat_prev e cf seat = seat_switch e cf (next_sess (current_sess seat) (rev (sess_ids seat))) seat"

section \<open>Sessions\<close>

text \<open>Links the new session right behind the current one.\<close>

fun insert_after :: "nat \<Rightarrow> 'd kmscon_session \<Rightarrow> 'd kmscon_session list \<Rightarrow> 'd kmscon_session list" where
  "insert_after c n [] = []"
| "insert_after c n (s # ss) = (if s_id s = c then s # n # ss else s # insert_after c n ss)"

definition kmscon_seat_new_session :: "'d seat_env \<Rightarrow> seat_conf \<Rightarrow> 'd kmscon_seat \<Rightarrow>
    nat option \<times> 'd kmscon_seat" where
  "kmscon_seat_new_session e cf seat =
     (if sc_session_max cf \<noteq> 0 \<and> session_count seat \<ge> sc_session_max cf then (None, seat)
      else if \<not> se_mem e then (None, seat)
      else (case se_terminal e of
              None \<Rightarrow> (None, seat)
            | Some term \<Rightarrow>
                let i = next_id seat;
                    sess = \<lparr>s_id = i, s_foreground = True, s_term = term\<rparr>;
                    seat = seat\<lparr>next_id := Suc i,
                              sessions := (case current_sess seat of
                                             Some c \<Rightarrow> insert_after c sess (sessions seat)
                                           | None \<Rightarrow> sessions seat @ [sess]),
                              session_count := session_count seat + 1\<rparr>;
                    seat = on_sess i (upd_term (\<lambda>s t.
                             fold (\<lambda>d t. snd (terminal_add_display (sess_env e s) (sc_term cf) d t))
                               (map d_disp (seat_displays seat)) t)) seat
                in (Some i, seat)))"

definition kmscon_session_unregister :: "'d seat_env \<Rightarrow> seat_conf \<Rightarrow> nat \<Rightarrow> 'd kmscon_seat \<Rightarrow> 'd kmscon_seat" where
  "kmscon_session_unregister e cf i seat =
     (case get_sess i seat of
        None \<Rightarrow> seat
      | Some _ \<Rightarrow>
          let seat = (if current_sess seat = Some i
                      then seat_next e cf (deactivate_sess cf (Some i) seat) else seat);
              freed = (case get_sess i seat of
                         None \<Rightarrow> []
                       | Some s \<Rightarrow> t_calls (terminal_destroy (sess_env e s) (sc_term cf) (s_term s)));
              seat = seat\<lparr>sessions := filter (\<lambda>s. s_id s \<noteq> i) (sessions seat),
                        session_count := session_count seat - 1\<rparr>
          in semit (Session_freed i freed) seat)"

definition kmscon_session_set_foreground :: "'d seat_env \<Rightarrow> seat_conf \<Rightarrow> nat \<Rightarrow> 'd kmscon_seat \<Rightarrow>
    status \<times> 'd kmscon_seat" where
  "kmscon_session_set_foreground e cf i seat =
     (case get_sess i seat of
        None \<Rightarrow> (fails EINVAL, seat)
      | Some s \<Rightarrow>
          if s_foreground s then (ok, seat)
          else
            let (ret, seat) =
                  (if current_sess seat = Some i \<and> \<not> seat_foreground seat then
                     let seat = semit Vt_restore seat
                     in if se_vt_restore e \<noteq> ok then (se_vt_restore e, seat)
                        else seat_go_foreground e cf seat
                   else (ok, seat))
            in if ret \<noteq> ok then (ret, seat)
               else (ok, on_sess i (\<lambda>s. s\<lparr>s_foreground := True\<rparr>) seat))"

definition kmscon_session_set_background :: "nat \<Rightarrow> 'd kmscon_seat \<Rightarrow> status \<times> 'd kmscon_seat" where
  "kmscon_session_set_background i seat =
     (case get_sess i seat of
        None \<Rightarrow> (fails EINVAL, seat)
      | Some s \<Rightarrow>
          if \<not> s_foreground s then (ok, seat)
          else
            let (ret, seat) = (if current_sess seat = Some i \<and> seat_foreground seat
                               then seat_go_background seat else (ok, seat))
            in if ret \<noteq> ok then (ret, seat)
               else (ok, on_sess i (\<lambda>s. s\<lparr>s_foreground := False\<rparr>) seat))"

section \<open>Handlers\<close>

definition seat_vt_activate :: "'d seat_env \<Rightarrow> seat_conf \<Rightarrow> 'd kmscon_seat \<Rightarrow> 'd kmscon_seat" where
  "seat_vt_activate e cf seat =
     (let (ret, seat) = seat_go_awake e seat
      in if ret \<noteq> ok then seat
         else
           let (ret, seat) = seat_go_foreground e cf seat
           in if ret \<noteq> ok then seat else activate_sess e cf (current_sess seat) seat)"

definition seat_vt_deactivate :: "seat_conf \<Rightarrow> 'd kmscon_seat \<Rightarrow> status \<times> 'd kmscon_seat" where
  "seat_vt_deactivate cf seat =
     (let seat = deactivate_sess cf (current_sess seat) seat;
          (ret, seat) = seat_go_background seat
      in if ret \<noteq> ok then (ret, seat)
         else
           let (ret, seat) = seat_go_asleep seat
           in if ret \<noteq> ok then (ret, seat) else (ok, seat))"

definition seat_vt_hup :: "'d kmscon_seat \<Rightarrow> 'd kmscon_seat" where
  "seat_vt_hup seat = semit Seat_hup seat"

text \<open>What the file said, \<open>0\<close> if it could not be read.\<close>

definition seat_trigger_reboot :: "'d seat_env \<Rightarrow> 'd kmscon_seat \<Rightarrow> 'd kmscon_seat" where
  "seat_trigger_reboot e seat = semit (if se_ctrl_alt_del e = 0 then Reboot_soft else Reboot_hard) seat"

definition seat_pointer_event :: "'d seat_env \<Rightarrow> seat_conf \<Rightarrow> input_ev_type \<Rightarrow> 'd kmscon_seat \<Rightarrow> 'd kmscon_seat" where
  "seat_pointer_event e cf ev seat =
     (if ev \<noteq> POINTER_MOVED \<and> ev \<noteq> POINTER_BUTTON \<and> ev \<noteq> POINTER_WHEEL then seat
      else seat_dpms_reset_timer e cf seat)"

definition seat_input_event :: "'d seat_env \<Rightarrow> seat_conf \<Rightarrow> key_event \<Rightarrow> 'd kmscon_seat \<Rightarrow>
    bool \<times> 'd kmscon_seat" where
  "seat_input_event e cf ev seat =
     (let seat = seat_dpms_reset_timer e cf seat;
          grab = (\<lambda>g. conf_grab_matches g (ev_mods ev) (ev_syms ev));
          few = (\<not> sc_session_control cf \<or> session_count seat < 2)
      in if ev_handled ev \<or> \<not> seat_awake seat then (ev_handled ev, seat)
         else if grab (grab_session_next cf) then (True, if few then seat else seat_next e cf seat)
         else if grab (grab_session_prev cf) then (True, if few then seat else seat_prev e cf seat)
         else if grab (grab_session_close cf) then
           (True, if few then seat
                  else (case current_sess seat of
                          None \<Rightarrow> seat
                        | Some s \<Rightarrow> kmscon_session_unregister e cf s seat))
         else if grab (grab_terminal_new cf) then
           (True, if \<not> sc_session_control cf then seat
                  else
                    let (s, seat) = kmscon_seat_new_session e cf seat
                    in if s \<noteq> None then seat_switch e cf s seat else seat)
         else (case grab_reboot cf of
                 None \<Rightarrow> (ev_handled ev, seat)
               | Some g \<Rightarrow> if grab g then (True, seat_trigger_reboot e seat) else (ev_handled ev, seat)))"

definition kmscon_session_bell :: "nat \<Rightarrow> 'd kmscon_seat \<Rightarrow> 'd kmscon_seat" where
  "kmscon_session_bell i seat = (if get_sess i seat = None then seat else semit Vt_bell seat)"

definition kmscon_session_set_leds :: "nat \<Rightarrow> bool \<Rightarrow> bool \<Rightarrow> bool \<Rightarrow> 'd kmscon_seat \<Rightarrow> 'd kmscon_seat" where
  "kmscon_session_set_leds i scroll num caps seat =
     (if get_sess i seat = None then seat else semit (Set_leds scroll num caps) seat)"

definition kmscon_seat_startup :: "'d seat_env \<Rightarrow> seat_conf \<Rightarrow> 'd kmscon_seat \<Rightarrow> status \<times> 'd kmscon_seat" where
  "kmscon_seat_startup e cf seat =
     (let (s, seat) = kmscon_seat_new_session e cf seat;
          seat = seat\<lparr>current_sess := s\<rparr>
      in if s = None then (fails ENOMEM, seat)
         else
           let seat = (if sc_switchvt cf \<or> se_vt_num e = 0 then semit Vt_activate seat else seat)
           in (ok, semit Monitor_scan seat))"

section \<open>Construction and destruction\<close>

datatype seat_res =
    SR_memory | SR_input | SR_vt | SR_vt_name | SR_name | SR_conf | SR_conf_load | SR_keymap | SR_monitor
  | SR_key_cb | SR_pointer_cb | SR_dpms_timer

definition serr_free :: "seat_res list" where "serr_free = [SR_memory]"
definition serr_input :: "seat_res list" where "serr_input = SR_input # serr_free"
definition serr_vt :: "seat_res list" where "serr_vt = SR_vt # serr_input"
definition serr_name :: "seat_res list" where "serr_name = SR_name # serr_vt"
definition serr_conf :: "seat_res list" where "serr_conf = SR_conf # serr_name"
definition serr_mon :: "seat_res list" where "serr_mon = SR_monitor # serr_conf"

lemmas serr_labels = serr_free_def serr_input_def serr_vt_def serr_name_def serr_conf_def serr_mon_def

definition seat_new_steps :: "seat_conf \<Rightarrow> (seat_res \<times> bool \<times> bool \<times> seat_res list option) list" where
  "seat_new_steps cf =
     [(SR_memory, True, True, Some []),
      (SR_input, True, True, Some serr_free),
      (SR_vt, True, True, Some serr_input),
      (SR_vt_name, True, False, Some serr_vt),
      (SR_name, True, True, Some serr_vt),
      (SR_conf, True, True, Some serr_name),
      (SR_conf_load, True, False, Some serr_conf),
      (SR_keymap, True, False, Some serr_conf),
      (SR_monitor, True, True, Some serr_conf),
      (SR_key_cb, True, True, Some serr_mon),
      (SR_pointer_cb, True, True, None),
      (SR_dpms_timer, sc_dpms_timeout cf > 0, True, None)]"

definition kmscon_seat_new :: "seat_conf \<Rightarrow> (seat_res \<Rightarrow> status) \<Rightarrow> seat_res new_result" where
  "kmscon_seat_new cf acquire = run_steps acquire (seat_new_steps cf) []"

text \<open>The object that a successful construction returns.\<close>

definition seat_fresh :: "bool \<Rightarrow> 'd kmscon_seat" where
  "seat_fresh timer =
     \<lparr>sessions = [], session_count = 0, next_id = 0, seat_displays = [], seat_videos = [],
      seat_awake = False, seat_foreground = False, current_sess = None, dpms_timer = timer,
      dpms_blanked = False, seat_calls = []\<rparr>"

definition kmscon_seat_free :: "'d seat_env \<Rightarrow> seat_conf \<Rightarrow> 'd kmscon_seat \<Rightarrow> 'd kmscon_seat" where
  "kmscon_seat_free e cf seat =
     (let seat = seat_switch e cf None seat;
          seat = snd (seat_go_asleep seat);
          seat = fold (kmscon_session_unregister e cf) (sess_ids seat) seat
      in fold (kmscon_seat_remove_video e cf) (map v_id (seat_videos seat)) seat)"

section \<open>Events\<close>

datatype seat_event =
    Se_startup
  | Se_vt_activate
  | Se_vt_deactivate
  | Se_vt_hup
  | Se_key key_event
  | Se_pointer input_ev_type
  | Se_dpms_timeout
  | Se_new_display nat
  | Se_remove_display nat
  | Se_refresh_display nat
  | Se_add_video nat bool bool bool bool
  | Se_remove_video nat
  | Se_poll_video nat
  | Se_set_foreground nat
  | Se_set_background nat
  | Se_bell nat
  | Se_leds nat bool bool bool
  | Se_terminal nat event

text \<open>\<open>Se_terminal i ev\<close> is an event that only the terminal of session \<open>i\<close> handles: its
  timers, its pty and its displays. The seat calls the other operations of a terminal itself. The
  start-up of the seat comes before every other session.\<close>

definition own_event :: "event \<Rightarrow> bool" where
  "own_event ev \<longleftrightarrow> (case ev of Ev_add_display d \<Rightarrow> False | Ev_rm_display d \<Rightarrow> False | Ev_activate \<Rightarrow> False
     | Ev_deactivate \<Rightarrow> False | Ev_refresh \<Rightarrow> False | _ \<Rightarrow> True)"

fun seat_dispatch :: "seat_conf \<Rightarrow> 'd seat_env \<Rightarrow> seat_event \<Rightarrow> 'd kmscon_seat \<Rightarrow> 'd kmscon_seat" where
  "seat_dispatch cf e Se_startup seat =
     (if next_id seat = 0 then snd (kmscon_seat_startup e cf seat) else seat)"
| "seat_dispatch cf e Se_vt_activate seat = seat_vt_activate e cf seat"
| "seat_dispatch cf e Se_vt_deactivate seat = snd (seat_vt_deactivate cf seat)"
| "seat_dispatch cf e Se_vt_hup seat = seat_vt_hup seat"
| "seat_dispatch cf e (Se_key ev) seat = snd (seat_input_event e cf ev seat)"
| "seat_dispatch cf e (Se_pointer ev) seat = seat_pointer_event e cf ev seat"
| "seat_dispatch cf e Se_dpms_timeout seat = seat_dpms_timeout cf seat"
| "seat_dispatch cf e (Se_new_display d) seat = seat_new_display e cf d seat"
| "seat_dispatch cf e (Se_remove_display d) seat = seat_remove_display e cf d seat"
| "seat_dispatch cf e (Se_refresh_display d) seat = seat_refresh_display e d seat"
| "seat_dispatch cf e (Se_add_video v drm backed primary aux) seat =
     snd (kmscon_seat_add_video e cf v drm backed primary aux seat)"
| "seat_dispatch cf e (Se_remove_video v) seat = kmscon_seat_remove_video e cf v seat"
| "seat_dispatch cf e (Se_poll_video v) seat = kmscon_seat_poll_video v seat"
| "seat_dispatch cf e (Se_set_foreground i) seat = snd (kmscon_session_set_foreground e cf i seat)"
| "seat_dispatch cf e (Se_set_background i) seat = snd (kmscon_session_set_background i seat)"
| "seat_dispatch cf e (Se_bell i) seat = kmscon_session_bell i seat"
| "seat_dispatch cf e (Se_leds i a b c) seat = kmscon_session_set_leds i a b c seat"
| "seat_dispatch cf e (Se_terminal i ev) seat =
     (if own_event ev
      then on_sess i (upd_term (\<lambda>s. dispatch (sc_term cf) (sess_env e s) ev)) seat else seat)"

text \<open>
  A step handles one event; the terminal that \<open>terminal_new\<close> returns during it is a fresh one.
\<close>

inductive seat_step :: "seat_conf \<Rightarrow> seat_event \<Rightarrow> 'd kmscon_seat \<Rightarrow> 'd kmscon_seat \<Rightarrow> bool" for cf where
  step: "pred_option (\<lambda>t. \<exists>font_size fnt w h a. t = terminal_fresh font_size fnt w h a) (se_terminal e) \<Longrightarrow>
    seat_step cf ev seat (seat_dispatch cf e ev seat)"

inductive_cases seat_stepE: "seat_step cf ev seat seat'"

text \<open>\<open>allowed\<close> selects the runs a property speaks about.\<close>

inductive seat_reachable :: "(seat_event \<Rightarrow> bool) \<Rightarrow> seat_conf \<Rightarrow> 'd kmscon_seat \<Rightarrow> bool" for allowed cf where
  fresh: "seat_reachable allowed cf (seat_fresh timer)"
| event: "seat_reachable allowed cf seat \<Longrightarrow> allowed ev \<Longrightarrow> seat_step cf ev seat seat' \<Longrightarrow>
    seat_reachable allowed cf seat'"

end
