(* ===== verification/Seat_Facts.thy ===== *)
theory Seat_Facts
  imports Seat_Events Terminal_Login
begin

text \<open>
  What the operations of the seat leave alone and what they keep: the sessions behind the seat's
  flags, and whatever holds of the terminals of all sessions.

  \<open>frame\<close> is the part of the seat that displays and video devices do not touch. The locale
  \<open>session_contract\<close> is the interface between the seat and the terminals of its sessions: a
  property that the terminal operations keep, as far as the seat calls them, is kept by every
  operation on displays and video devices. It is interpreted twice on the model of the terminal:
  for the states a terminal can reach, and for being awake only as the current session.
\<close>

section \<open>The frame\<close>

definition frame :: "'d kmscon_seat \<Rightarrow>
    (nat \<times> bool) list \<times> nat \<times> nat \<times> nat option \<times> bool \<times> bool" where
  "frame seat = (map (\<lambda>s. (s_id s, s_foreground s)) (sessions seat), session_count seat, next_id seat,
     current_sess seat, seat_awake seat, seat_foreground seat)"

lemma frame_eqD:
  assumes "frame s = frame s'"
  shows "session_count s = session_count s'" "next_id s = next_id s'" "current_sess s = current_sess s'"
    "seat_awake s = seat_awake s'" "seat_foreground s = seat_foreground s'"
    "sess_ids s = sess_ids s'" "map s_foreground (sessions s) = map s_foreground (sessions s')"
proof -
  from assms have m: "map (\<lambda>s. (s_id s, s_foreground s)) (sessions s) = map (\<lambda>s. (s_id s, s_foreground s)) (sessions s')"
    by (simp add: frame_def)
  show "sess_ids s = sess_ids s'" using arg_cong [OF m, of "map fst"] by (simp add: comp_def)
  show "map s_foreground (sessions s) = map s_foreground (sessions s')"
    using arg_cong [OF m, of "map snd"] by (simp add: comp_def)
qed (use assms in \<open>simp_all add: frame_def\<close>)

lemma frame_fold: "(\<And>x s. frame (f x s) = frame s) \<Longrightarrow> frame (fold f xs s) = frame s"
  by (induction xs arbitrary: s) simp_all

lemma upd_term_simps [simp]: "s_id (upd_term f s) = s_id s" "s_foreground (upd_term f s) = s_foreground s"
  "s_term (upd_term f s) = f s (s_term s)"
  by (simp_all add: upd_term_def)

lemma frame_semit [simp]: "frame (semit c seat) = frame seat"
  by (simp add: frame_def semit_def)

lemma frame_on_sess [simp]: "frame (on_sess i (upd_term f) seat) = frame seat"
  by (simp add: frame_def on_sess_def)

lemma frame_on_all [simp]: "frame (on_all (upd_term f) seat) = frame seat"
  by (simp add: frame_def on_all_def)

lemma frame_fields [simp]:
  "frame (seat\<lparr>seat_displays := ds\<rparr>) = frame seat" "frame (seat\<lparr>seat_videos := vs\<rparr>) = frame seat"
  "frame (seat\<lparr>dpms_blanked := b\<rparr>) = frame seat" "frame (seat\<lparr>seat_calls := cs\<rparr>) = frame seat"
  by (simp_all add: frame_def)

lemma frame_activation [simp]:
  "frame (activate_sess e cf i seat) = frame seat" "frame (deactivate_sess cf i seat) = frame seat"
  "frame (set_dpms_activated b seat) = frame seat"
  by (simp_all add: activate_sess_def deactivate_sess_def set_dpms_activated_def split: option.split)

lemma frame_dpms [simp]:
  "frame (seat_dpms_timeout cf seat) = frame seat" "frame (seat_dpms_reset_timer e cf seat) = frame seat"
  by (simp_all add: seat_dpms_timeout_def seat_dpms_reset_timer_def Let_def)

lemma frame_displays [simp]:
  "frame (activate_display e cf d seat) = frame seat"
  "frame (seat_refresh_display e d seat) = frame seat"
  "frame (seat_remove_display e cf d seat) = frame seat"
  by (simp_all add: activate_display_def seat_refresh_display_def seat_remove_display_def Let_def
        split: option.split)

lemma frame_new_display [simp]: "frame (seat_new_display e cf d seat) = frame seat"
  by (simp add: seat_new_display_def Let_def)

lemma frame_hotplugged [simp]: "frame (hotplugged e cf h seat) = frame seat"
  by (cases h) simp_all

lemma frame_wake_up [simp]: "frame (snd (video_wake_up e cf v seat)) = frame seat"
  by (simp add: video_wake_up_def frame_fold)

lemma frame_video_init [simp]: "frame (snd (snd (seat_video_init e cf vid seat))) = frame seat"
proof -
  have "frame s = frame seat" if "video_wake_up e cf v u = (r, s)" "frame u = frame seat" for v u r s
    using that frame_wake_up [of e cf v u] by simp
  then show ?thesis
    by (auto simp: seat_video_init_def Let_def split: prod.splits if_splits)
qed

lemma frame_add_video [simp]: "frame (snd (kmscon_seat_add_video e cf v drm b p a seat)) = frame seat"
proof -
  have "frame s = frame u" if "seat_video_init e cf vid u = (r, vid', s)" for vid u r vid' s
    using that frame_video_init [of e cf vid u] by simp
  then show ?thesis
    by (auto simp: kmscon_seat_add_video_def Let_def split: prod.splits if_splits)
qed

lemma frame_remove_video [simp]: "frame (kmscon_seat_remove_video e cf v seat) = frame seat"
  by (simp add: kmscon_seat_remove_video_def Let_def frame_fold split: option.split)

lemma frame_init_videos [simp]: "frame (init_videos e cf seat) = frame seat"
proof -
  have "frame s = frame u" if "seat_video_init e cf vid u = (r, vid', s)" for vid u r vid' s
    using that frame_video_init [of e cf vid u] by simp
  then show ?thesis
    unfolding init_videos_def by (intro frame_fold) (auto simp: Let_def split: prod.splits)
qed

lemma frame_go_foreground:
  "frame (snd (seat_go_foreground e cf seat)) =
     frame (if seat_awake seat then seat\<lparr>seat_foreground := True\<rparr> else seat)"
proof (cases "seat_foreground seat")
  case True
  then show ?thesis by (simp add: seat_go_foreground_def frame_def)
qed (simp add: seat_go_foreground_def Let_def frame_fold)

lemma go_foreground_result: "fst (seat_go_foreground e cf seat) = (if seat_foreground seat \<or> seat_awake seat then ok else fails EBUSY)"
  by (simp add: seat_go_foreground_def Let_def)

section \<open>What holds of every terminal\<close>

locale session_contract =
  fixes cf :: seat_conf and cur :: "nat option" and good :: "nat \<Rightarrow> 'd kmscon_terminal \<Rightarrow> bool"
  assumes adds: "good i t \<Longrightarrow> good i (snd (terminal_add_display te (sc_term cf) d t))"
    and removes: "good i t \<Longrightarrow> good i (terminal_rm_display te (sc_term cf) d t)"
    and refreshes: "good i t \<Longrightarrow> good i (terminal_refresh_displays te t)"
    and deactivates: "good i t \<Longrightarrow> good i (terminal_deactivate (sc_term cf) t)"
    and activates: "good i t \<Longrightarrow> cur = Some i \<Longrightarrow> good i (terminal_activate te (sc_term cf) t)"
begin

definition all_good :: "'d kmscon_seat \<Rightarrow> bool" where
  "all_good seat \<longleftrightarrow> current_sess seat = cur \<and> (\<forall>s\<in>set (sessions seat). good (s_id s) (s_term s))"

lemma good_semit [simp]: "all_good (semit c seat) = all_good seat"
  by (simp add: all_good_def semit_def)

lemma good_fields [simp]:
  "all_good (seat\<lparr>seat_displays := ds\<rparr>) = all_good seat" "all_good (seat\<lparr>seat_videos := vs\<rparr>) = all_good seat"
  "all_good (seat\<lparr>dpms_blanked := b\<rparr>) = all_good seat" "all_good (seat\<lparr>seat_calls := cs\<rparr>) = all_good seat"
  "all_good (seat\<lparr>seat_foreground := b\<rparr>) = all_good seat"
  by (simp_all add: all_good_def)

lemma good_on_all [simp]:
  "all_good seat \<Longrightarrow> (\<And>i s t. good i t \<Longrightarrow> good i (f s t)) \<Longrightarrow> all_good (on_all (upd_term f) seat)"
  by (simp add: all_good_def on_all_def)

lemma good_activate [simp]: "all_good seat \<Longrightarrow> all_good (activate_sess e cf (current_sess seat) seat)"
  by (auto simp: all_good_def activate_sess_def on_sess_def activates split: option.split)

lemma good_deactivate [simp]: "all_good seat \<Longrightarrow> all_good (deactivate_sess cf i seat)"
  by (auto simp: all_good_def deactivate_sess_def on_sess_def deactivates split: option.split)

lemma good_set_dpms [simp]: "all_good (set_dpms_activated b seat) = all_good seat"
  by (simp add: set_dpms_activated_def)

lemma current_set_dpms [simp]: "current_sess (set_dpms_activated b seat) = current_sess seat"
  by (simp add: set_dpms_activated_def)

lemma good_dpms [simp]:
  "all_good seat \<Longrightarrow> all_good (seat_dpms_timeout cf seat)"
  "all_good seat \<Longrightarrow> all_good (seat_dpms_reset_timer e cf seat)"
  using good_activate [of "set_dpms_activated True seat" e]
  by (simp_all add: seat_dpms_timeout_def seat_dpms_reset_timer_def Let_def)

lemma good_activate_display [simp]: "all_good seat \<Longrightarrow> all_good (activate_display e cf d seat)"
  by (simp add: activate_display_def Let_def adds split: option.split)

lemma good_displays [simp]:
  "all_good seat \<Longrightarrow> all_good (seat_refresh_display e d seat)"
  "all_good seat \<Longrightarrow> all_good (seat_remove_display e cf d seat)"
  "all_good seat \<Longrightarrow> all_good (seat_new_display e cf d seat)"
  by (simp_all add: seat_refresh_display_def seat_remove_display_def seat_new_display_def Let_def removes
        refreshes split: option.split)

lemma good_hotplugged [simp]: "all_good seat \<Longrightarrow> all_good (hotplugged e cf h seat)"
  by (cases h) simp_all

lemma good_fold: "all_good seat \<Longrightarrow> (\<And>x s. all_good s \<Longrightarrow> all_good (f x s)) \<Longrightarrow> all_good (fold f xs seat)"
  by (induction xs arbitrary: seat) simp_all

lemma good_wake_up [simp]: "all_good seat \<Longrightarrow> all_good (snd (video_wake_up e cf v seat))"
  by (simp add: video_wake_up_def good_fold)

lemma good_video_init:
  assumes "seat_video_init e cf vid seat = (r, vid', s)" "all_good seat"
  shows "all_good s"
proof -
  have "all_good s'" if "video_wake_up e cf v u = (r', s')" "all_good u" for v u r' s'
    using that good_wake_up [of u e v] by simp
  with assms show ?thesis
    by (auto simp: seat_video_init_def Let_def split: prod.splits if_splits)
qed

lemma good_add_video [simp]:
  "all_good seat \<Longrightarrow> all_good (snd (kmscon_seat_add_video e cf v drm b p a seat))"
  by (auto simp: kmscon_seat_add_video_def Let_def split: prod.splits if_splits dest: good_video_init)

lemma good_remove_video [simp]: "all_good seat \<Longrightarrow> all_good (kmscon_seat_remove_video e cf v seat)"
  by (simp add: kmscon_seat_remove_video_def Let_def good_fold split: option.split)

lemma good_init_videos [simp]: "all_good seat \<Longrightarrow> all_good (init_videos e cf seat)"
  unfolding init_videos_def
  by (intro good_fold) (auto simp: Let_def split: prod.splits dest: good_video_init)

lemma good_go_foreground [simp]: "all_good seat \<Longrightarrow> all_good (snd (seat_go_foreground e cf seat))"
  by (simp add: seat_go_foreground_def Let_def good_fold)

end

section \<open>The two contracts of the terminal\<close>

lemma reachable_dispatch: "term_reachable c t \<Longrightarrow> term_reachable c (dispatch c e ev t)"
  by (blast intro: term_reachable.event term_step.step)

interpretation reach: session_contract cf cur "\<lambda>i. term_reachable (sc_term cf)" for cf cur
proof
  fix t :: "'a kmscon_terminal" and te d
  assume r: "term_reachable (sc_term cf) t"
  show "term_reachable (sc_term cf) (snd (terminal_add_display te (sc_term cf) d t))"
    using reachable_dispatch [OF r, of te "Ev_add_display d"] by simp
  show "term_reachable (sc_term cf) (terminal_rm_display te (sc_term cf) d t)"
    using reachable_dispatch [OF r, of te "Ev_rm_display d"] by simp
  show "term_reachable (sc_term cf) (terminal_refresh_displays te t)"
    using reachable_dispatch [OF r, of te Ev_refresh] by simp
  show "term_reachable (sc_term cf) (terminal_deactivate (sc_term cf) t)"
    using reachable_dispatch [OF r, of undefined Ev_deactivate] by simp
  show "term_reachable (sc_term cf) (terminal_activate te (sc_term cf) t)"
    using reachable_dispatch [OF r, of te Ev_activate] by simp
qed

lemma same_login_awake: "same_login t u \<Longrightarrow> t_awake u = t_awake t"
  by (simp add: same_login_def)

lemma awake_deactivate [simp]: "\<not> t_awake (terminal_deactivate c t)"
proof -
  have "harmless (t\<lparr>t_awake := False\<rparr>) (terminal_deactivate c t)"
    by (simp add: terminal_deactivate_def Let_def harmless_intro)
  then show ?thesis using harmless_awake by fastforce
qed

lemma awake_displays [simp]:
  "t_awake (snd (terminal_add_display e c d t)) = t_awake t"
  "t_awake (terminal_rm_display e c d t) = t_awake t"
  "t_awake (terminal_refresh_displays e t) = t_awake t"
  by (simp_all add: same_login_awake [OF same_login_add_display] same_login_awake [OF same_login_rm_display]
        harmless_awake harmless_intro)

interpretation alone: session_contract cf cur "\<lambda>i t. t_awake t \<longrightarrow> cur = Some i" for cf cur
  by unfold_locales simp_all

end
