(* ===== verification/Seat_Sessions.thy ===== *)
theory Seat_Sessions
  imports Seat_Facts
begin

text \<open>
  The sessions of a seat over all its runs: the bookkeeping invariant, the terminals that the
  sessions own, and the switches between sessions.
\<close>

section \<open>Choosing the next session\<close>

lemma succ_of_SomeD: "succ_of x xs = Some y \<Longrightarrow> x \<in> set xs \<and> y \<in> set xs"
  by (induction x xs rule: succ_of.induct) (auto split: if_splits)

lemma succ_of_nth:
  "distinct xs \<Longrightarrow> Suc k < length xs \<Longrightarrow> succ_of (xs ! k) xs = Some (xs ! Suc k)"
proof (induction xs arbitrary: k)
  case (Cons a xs)
  then obtain b ys where xs: "xs = b # ys" by (cases xs) auto
  show ?case
  proof (cases k)
    case (Suc j)
    then have "xs ! j \<in> set xs" using Cons.prems(2) by simp
    then have "a \<noteq> xs ! j" using Cons.prems(1) by auto
    moreover have "succ_of (xs ! j) xs = Some (xs ! Suc j)"
      using Cons.IH [of j] Cons.prems Suc by simp
    ultimately show ?thesis using Suc xs by simp
  qed (simp add: xs)
qed simp

lemma succ_of_last: "distinct xs \<Longrightarrow> xs \<noteq> [] \<Longrightarrow> succ_of (last xs) xs = None"
proof (induction "last xs" xs rule: succ_of.induct)
  case (1 a b xs)
  then show ?case by (auto split: if_splits)
qed auto

lemma first_of_nth: "xs \<noteq> [] \<Longrightarrow> first_of xs = Some (xs ! 0)"
  by (cases xs) (simp_all add: first_of_def)

text \<open>The next session is the next one round the list.\<close>

lemma next_sess_nth:
  assumes "distinct xs" "k < length xs" "2 \<le> length xs"
  shows "next_sess (Some (xs ! k)) xs = Some (xs ! (Suc k mod length xs))"
proof (cases "Suc k < length xs")
  case True
  then show ?thesis
    using assms by (simp add: next_sess_def succ_of_nth nth_eq_iff_index_eq)
next
  case False
  then have k: "Suc k = length xs" using assms(2) by simp
  then have "xs ! k = last xs" using assms(3) by (metis diff_Suc_1 last_conv_nth list.size(3) nat.simps(3))
  moreover have "xs ! k \<noteq> xs ! 0"
    using assms k nth_eq_iff_index_eq [of xs k 0] by (cases xs) auto
  ultimately show ?thesis
    using k succ_of_last [OF assms(1)] first_of_nth [of xs] assms(2)
    by (cases "xs = []") (simp_all add: next_sess_def Let_def)
qed

lemma next_sess_in: "next_sess cur xs = Some y \<Longrightarrow> y \<in> set xs \<and> cur \<noteq> Some y"
  by (auto simp: next_sess_def Let_def first_of_def dest: succ_of_SomeD split: option.splits if_splits list.splits)

lemma next_sess_None: "next_sess (Some c) xs = None \<Longrightarrow> distinct xs \<Longrightarrow> set xs \<subseteq> {c}"
proof (rule ccontr)
  assume n: "next_sess (Some c) xs = None" "distinct xs" "\<not> set xs \<subseteq> {c}"
  then have ne: "xs \<noteq> []" by auto
  show False
  proof (cases "c \<in> set xs")
    case False
    then have "succ_of c xs = None" using succ_of_SomeD by (cases "succ_of c xs") blast+
    then show False using n(1) ne False nth_mem [of 0 xs]
      by (auto simp: next_sess_def first_of_nth split: if_splits)
  next
    case True
    then obtain k where k: "k < length xs" "c = xs ! k" by (auto simp: in_set_conv_nth)
    have "2 \<le> length xs"
      using n(3) True ne by (cases xs; cases "tl xs") auto
    with k n(1,2) show False by (simp add: next_sess_nth)
  qed
qed

section \<open>The switch\<close>

lemma find_flag: "map_option s_foreground (List.find (\<lambda>s. s_id s = i) xs) =
    map_of (map (\<lambda>s. (s_id s, s_foreground s)) xs) i"
  by (induction xs) simp_all

lemma get_sess_frame: "frame s = frame s' \<Longrightarrow> map_option s_foreground (get_sess i s) = map_option s_foreground (get_sess i s')"
  by (simp add: get_sess_def frame_def find_flag)

lemma get_sess_None: "get_sess i seat = None \<longleftrightarrow> i \<notin> set (sess_ids seat)"
  by (auto simp: get_sess_def find_None_iff)

lemma get_sess_Some: "get_sess i seat = Some s \<Longrightarrow> s \<in> set (sessions seat) \<and> s_id s = i"
  by (auto simp: get_sess_def find_Some_iff)

lemma go_background_simps [simp]:
  "sessions (snd (seat_go_background seat)) = sessions seat"
  "session_count (snd (seat_go_background seat)) = session_count seat"
  "next_id (snd (seat_go_background seat)) = next_id seat"
  "current_sess (snd (seat_go_background seat)) = current_sess seat"
  "seat_awake (snd (seat_go_background seat)) = seat_awake seat"
  "seat_foreground (snd (seat_go_background seat)) \<longleftrightarrow> seat_foreground seat \<and> \<not> seat_awake seat"
  by (auto simp: seat_go_background_def)

text \<open>The flag of the session shown decides whether the seat is in the foreground.\<close>

definition shown :: "nat option \<Rightarrow> 'd kmscon_seat \<Rightarrow> bool" where
  "shown new seat \<longleftrightarrow>
     (case new of
        None \<Rightarrow> seat_foreground seat \<and> \<not> seat_awake seat
      | Some i \<Rightarrow> (case get_sess i seat of
                    None \<Rightarrow> seat_foreground seat
                  | Some s \<Rightarrow> if s_foreground s then seat_foreground seat \<or> seat_awake seat
                              else seat_foreground seat \<and> \<not> seat_awake seat))"

lemma frame_switch:
  "frame (seat_switch e cf new seat) =
     (if current_sess seat = new then frame seat
      else frame (seat\<lparr>current_sess := new, seat_foreground := shown new seat\<rparr>))"
proof (cases "current_sess seat = new")
  case False
  let ?d = "deactivate_sess cf (current_sess seat) seat"
  have fd: "frame ?d = frame seat" by simp
  have fg: "frame (snd (seat_go_foreground e cf ?d)) =
      frame (if seat_awake seat then seat\<lparr>seat_foreground := True\<rparr> else seat)"
    using frame_go_foreground [of e cf ?d] frame_eqD [OF fd] fd by (auto simp: frame_def)
  have cur: "frame (s\<lparr>current_sess := new\<rparr>) = frame (s'\<lparr>current_sess := new\<rparr>)" if "frame s = frame s'"
    for s s' :: "'a kmscon_seat" using that by (simp add: frame_def)
  have act: "frame ((activate_sess e cf i s)\<lparr>current_sess := new\<rparr>) = frame (s\<lparr>current_sess := new\<rparr>)"
    for s :: "'a kmscon_seat" and i by (rule cur) simp
  have bg: "frame ((snd (seat_go_background ?d))\<lparr>current_sess := new\<rparr>) =
      frame (seat\<lparr>current_sess := new, seat_foreground := seat_foreground seat \<and> \<not> seat_awake seat\<rparr>)"
    using fd frame_eqD [OF fd] by (simp add: frame_def)
  show ?thesis
  proof (cases new)
    case None
    with False show ?thesis using bg by (auto simp: seat_switch_def Let_def shown_def)
  next
    case (Some i)
    note g = get_sess_frame [OF fd, of i]
    show ?thesis
    proof (cases "get_sess i ?d")
      case None
      with g have "get_sess i seat = None" by simp
      with None False Some show ?thesis
        using fd by (simp add: seat_switch_def Let_def shown_def frame_def)
    next
      case (Some s)
      with g obtain s' where s': "get_sess i seat = Some s'" "s_foreground s' = s_foreground s"
        by (cases "get_sess i seat") auto
      define u where "u = (if s_foreground s \<and> \<not> seat_foreground ?d then snd (seat_go_foreground e cf ?d)
        else if \<not> s_foreground s \<and> seat_foreground ?d then snd (seat_go_background ?d) else ?d)"
      have "frame (snd (seat_go_background ?d)) =
          frame (seat\<lparr>seat_foreground := seat_foreground seat \<and> \<not> seat_awake seat\<rparr>)"
        using fd by (simp add: frame_def)
      moreover have "frame ?d = frame (seat\<lparr>seat_foreground := seat_foreground seat\<rparr>)"
        using fd by simp
      ultimately have "frame u = frame (seat\<lparr>seat_foreground := shown new seat\<rparr>)"
        using fg frame_eqD(5) [OF fd] s' \<open>new = Some i\<close> unfolding u_def shown_def
        by (cases "s_foreground s"; cases "seat_foreground seat"; cases "seat_awake seat") simp_all
      from cur [OF this] have "frame (u\<lparr>current_sess := new\<rparr>) = frame (seat\<lparr>current_sess := new, seat_foreground := shown new seat\<rparr>)"
        by (simp add: frame_def)
      moreover have "seat_switch e cf new seat = (activate_sess e cf (Some i) u)\<lparr>current_sess := new\<rparr>"
        using False Some \<open>new = Some i\<close> by (simp add: seat_switch_def Let_def u_def)
      ultimately show ?thesis using False act by simp
    qed
  qed
qed (simp add: seat_switch_def)

lemma switch_simps [simp]:
  "sess_ids (seat_switch e cf new seat) = sess_ids seat"
  "session_count (seat_switch e cf new seat) = session_count seat"
  "next_id (seat_switch e cf new seat) = next_id seat"
  "current_sess (seat_switch e cf new seat) = new"
  "seat_awake (seat_switch e cf new seat) = seat_awake seat"
  using frame_eqD [OF frame_switch [of e cf new seat, simplified if_distrib [of frame, symmetric]]]
  by (auto split: if_splits)

lemma switch_foreground:
  "seat_foreground (seat_switch e cf new seat) =
     (if current_sess seat = new then seat_foreground seat else shown new seat)"
proof (cases "current_sess seat = new")
  case False
  then show ?thesis using frame_eqD(5) [OF frame_switch [of e cf new seat, simplified False if_False]] by simp
qed (simp add: seat_switch_def)

section \<open>The bookkeeping\<close>

text \<open>Over the identities, their count, the next one, the current one, the two flags of the seat.\<close>

definition book_inv :: "seat_conf \<Rightarrow> nat list \<Rightarrow> nat \<Rightarrow> nat \<Rightarrow> nat option \<Rightarrow> bool \<Rightarrow> bool \<Rightarrow> bool" where
  "book_inv cf ids count nxt cur fg awake \<longleftrightarrow>
     distinct ids \<and> count = length ids \<and> (\<forall>i\<in>set ids. i < nxt) \<and>
     (cur = None \<longrightarrow> ids = []) \<and> set_option cur \<subseteq> set ids \<and> (fg \<longrightarrow> awake) \<and>
     (sc_session_max cf \<noteq> 0 \<longrightarrow> count \<le> sc_session_max cf)"

definition seat_inv :: "seat_conf \<Rightarrow> 'd kmscon_seat \<Rightarrow> bool" where
  "seat_inv cf seat \<longleftrightarrow> book_inv cf (sess_ids seat) (session_count seat) (next_id seat) (current_sess seat)
     (seat_foreground seat) (seat_awake seat)"

lemma seat_inv_frame: "frame s = frame s' \<Longrightarrow> seat_inv cf s = seat_inv cf s'"
  by (simp only: seat_inv_def frame_eqD [of s s'])

lemma shown_awake: "(seat_foreground seat \<longrightarrow> seat_awake seat) \<Longrightarrow> shown new seat \<Longrightarrow> seat_awake seat"
  by (auto simp: shown_def split: option.splits if_splits)

lemma seat_inv_switch:
  "seat_inv cf seat \<Longrightarrow> (new = None \<longrightarrow> sess_ids seat = []) \<Longrightarrow> set_option new \<subseteq> set (sess_ids seat) \<Longrightarrow>
     seat_inv cf (seat_switch e cf new seat)"
  unfolding seat_inv_def switch_simps switch_foreground book_inv_def using shown_awake [of seat new] by auto

lemma set_insert_after:
  "set (insert_after c s ss) = (if c \<in> s_id ` set ss then insert s (set ss) else set ss)"
  by (induction ss) auto

lemma length_insert_after: "c \<in> s_id ` set ss \<Longrightarrow> length (insert_after c s ss) = Suc (length ss)"
  by (induction ss) auto

lemma distinct_insert_after:
  "distinct (map s_id ss) \<Longrightarrow> s_id s \<notin> s_id ` set ss \<Longrightarrow> distinct (map s_id (insert_after c s ss))"
  by (induction ss) (auto simp: set_insert_after split: if_splits)

text \<open>Where a new session goes, its screens included.\<close>

definition with_session :: "'d kmscon_session \<Rightarrow> 'd kmscon_seat \<Rightarrow> 'd kmscon_seat" where
  "with_session sess seat = seat\<lparr>next_id := Suc (next_id seat),
     sessions := (case current_sess seat of
                    Some c \<Rightarrow> insert_after c sess (sessions seat)
                  | None \<Rightarrow> sessions seat @ [sess]),
     session_count := session_count seat + 1\<rparr>"

definition session_made :: "'d seat_env \<Rightarrow> seat_conf \<Rightarrow> 'd kmscon_seat \<Rightarrow> 'd kmscon_session \<Rightarrow> bool" where
  "session_made e cf seat sess \<longleftrightarrow> s_id sess = next_id seat \<and> s_foreground sess \<and>
     se_terminal e = Some (s_term sess) \<and>
     (sc_session_max cf = 0 \<or> session_count seat < sc_session_max cf)"

lemma new_session_cases:
  obtains (none) "kmscon_seat_new_session e cf seat = (None, seat)"
  | (made) sess where "session_made e cf seat sess"
      "kmscon_seat_new_session e cf seat = (Some (next_id seat),
         on_sess (next_id seat) (upd_term (\<lambda>s t.
           fold (\<lambda>d t. snd (terminal_add_display (sess_env e s) (sc_term cf) d t))
             (map d_disp (seat_displays seat)) t)) (with_session sess seat))"
proof -
  consider "sc_session_max cf \<noteq> 0 \<and> session_count seat \<ge> sc_session_max cf \<or> \<not> se_mem e \<or> se_terminal e = None"
    | t where "\<not> (sc_session_max cf \<noteq> 0 \<and> session_count seat \<ge> sc_session_max cf)" "se_mem e" "se_terminal e = Some t"
    by fastforce
  then show ?thesis
  proof cases
    case 1
    then show ?thesis using none by (auto simp: kmscon_seat_new_session_def)
  next
    case 2
    show ?thesis
      by (rule made [of "\<lparr>s_id = next_id seat, s_foreground = True, s_term = t\<rparr>"])
         (use 2 in \<open>auto simp: session_made_def with_session_def kmscon_seat_new_session_def Let_def\<close>)
  qed
qed

text \<open>The invariant with the new session, before the seat switches to it.\<close>

lemma seat_inv_with_session:
  assumes "seat_inv cf seat" "session_made e cf seat sess" "frame s = frame (with_session sess seat)"
  shows "seat_inv cf (s\<lparr>current_sess := Some (s_id sess)\<rparr>)"
    "current_sess seat \<noteq> None \<Longrightarrow> seat_inv cf s"
    "s_id sess \<in> set (sess_ids s)" "s_id sess \<noteq> the (current_sess seat) \<or> current_sess seat = None"
proof -
  let ?s = "with_session sess seat"
  have inv: "distinct (sess_ids seat)" "\<forall>i\<in>set (sess_ids seat). i < next_id seat"
    "session_count seat = length (sess_ids seat)" "seat_foreground seat \<longrightarrow> seat_awake seat"
    "current_sess seat = None \<longrightarrow> sess_ids seat = []" "set_option (current_sess seat) \<subseteq> set (sess_ids seat)"
    using assms(1) unfolding seat_inv_def book_inv_def by blast+
  have cur: "c \<in> s_id ` set (sessions seat)" if "current_sess seat = Some c" for c
    using inv(6) that by simp
  have new: "s_id sess \<notin> s_id ` set (sessions seat)" "s_id sess = next_id seat"
    using inv(2) assms(2) by (auto simp: session_made_def)
  have ids: "distinct (sess_ids ?s)" "length (sess_ids ?s) = Suc (length (sess_ids seat))"
    "set (sess_ids ?s) = insert (next_id seat) (set (sess_ids seat))"
    using inv(1) new cur
    by (auto simp: with_session_def distinct_insert_after length_insert_after set_insert_after
          split: option.splits)
  note f = frame_eqD [OF assms(3)]
  have core: "book_inv cf (sess_ids s) (session_count s) (next_id s) c (seat_foreground s) (seat_awake s)"
    if "c \<noteq> None" "set_option c \<subseteq> insert (next_id seat) (set (sess_ids seat))" for c
    unfolding book_inv_def f(1,2,4,5,6) ids
    using ids(1) inv(2,3,4) assms(2) that
    by (auto simp: with_session_def session_made_def ids(2) [simplified])
  show "seat_inv cf (s\<lparr>current_sess := Some (s_id sess)\<rparr>)"
    using core [of "Some (s_id sess)"] new(2) by (simp add: seat_inv_def)
  show "seat_inv cf s" if "current_sess seat \<noteq> None"
    unfolding seat_inv_def using that cur f(3) by (intro core) (auto simp: with_session_def)
  show "s_id sess \<in> set (sess_ids s)" using ids(3) f(6) new(2) by simp
  show "s_id sess \<noteq> the (current_sess seat) \<or> current_sess seat = None"
    using cur new(1) by (cases "current_sess seat") auto
qed

lemma seat_inv_switch_to:
  "seat_inv cf (s\<lparr>current_sess := new\<rparr>) \<Longrightarrow> seat_inv cf (seat_switch e cf new s)"
  unfolding seat_inv_def switch_simps switch_foreground book_inv_def using shown_awake [of s new] by auto

lemma map_id_filter: "map s_id (filter (\<lambda>s. s_id s \<noteq> i) ss) = filter (\<lambda>x. x \<noteq> i) (map s_id ss)"
  by (induction ss) auto

lemma length_filter_other: "distinct xs \<Longrightarrow> i \<in> set xs \<Longrightarrow> length (filter (\<lambda>x. x \<noteq> i) xs) = length xs - 1"
proof (induction xs)
  case (Cons a xs)
  then show ?case by (cases xs) (auto simp: map_update_filter_neq)
qed simp

lemma book_inv_remove:
  assumes "book_inv cf ids count nxt cur fg awake" "i \<in> set ids"
    "set_option cur' \<subseteq> set ids - {i}" "cur' = None \<longrightarrow> set ids \<subseteq> {i}" "fg' \<longrightarrow> awake"
  shows "book_inv cf (filter (\<lambda>x. x \<noteq> i) ids) (count - 1) nxt cur' fg' awake"
  using assms unfolding book_inv_def by (auto simp: length_filter_other filter_empty_conv)

text \<open>Closing a session: the seat first moves on to another one.\<close>

lemma seat_inv_unregister: "seat_inv cf seat \<Longrightarrow> seat_inv cf (kmscon_session_unregister e cf i seat)"
proof (cases "get_sess i seat")
  case (Some s)
  assume inv: "seat_inv cf seat"
  have i: "i \<in> set (sess_ids seat)" using get_sess_Some [OF Some] by auto
  have fgaw: "seat_foreground seat \<longrightarrow> seat_awake seat" "distinct (sess_ids seat)"
    "set_option (current_sess seat) \<subseteq> set (sess_ids seat)" "current_sess seat = None \<longrightarrow> sess_ids seat = []"
    using inv unfolding seat_inv_def book_inv_def by blast+
  define u where "u = (if current_sess seat = Some i
      then seat_next e cf (deactivate_sess cf (Some i) seat) else seat)"
  let ?d = "deactivate_sess cf (Some i) seat"
  have fd: "frame ?d = frame seat" by simp
  note d = frame_eqD [OF fd]
  have same: "sess_ids u = sess_ids seat" "session_count u = session_count seat" "next_id u = next_id seat"
    "seat_awake u = seat_awake seat"
    using d by (simp_all add: u_def seat_next_def)
  have cur: "set_option (current_sess u) \<subseteq> set (sess_ids seat) - {i}" "current_sess u = None \<longrightarrow> set (sess_ids seat) \<subseteq> {i}"
  proof -
    show "set_option (current_sess u) \<subseteq> set (sess_ids seat) - {i}"
      using fgaw(3) next_sess_in [of "Some i" "sess_ids seat"] d
      by (auto simp: u_def seat_next_def elem_set split: if_splits dest: next_sess_in)
    show "current_sess u = None \<longrightarrow> set (sess_ids seat) \<subseteq> {i}"
      using fgaw(2,4) i next_sess_None [of i "sess_ids seat"] d by (auto simp: u_def seat_next_def)
  qed
  have "seat_foreground u \<longrightarrow> seat_awake seat"
    using fgaw(1) d shown_awake [of ?d] by (auto simp: u_def seat_next_def switch_foreground)
  from book_inv_remove [OF inv [unfolded seat_inv_def] i cur this]
  show ?thesis
    using Some unfolding kmscon_session_unregister_def Let_def u_def [symmetric] seat_inv_def
    by (simp only: option.case) (simp add: map_id_filter same semit_def)
qed (simp add: kmscon_session_unregister_def)

lemma seat_inv_go_foreground: "seat_inv cf seat \<Longrightarrow> seat_inv cf (snd (seat_go_foreground e cf seat))"
  by (simp only: seat_inv_frame [OF frame_go_foreground]) (auto simp: seat_inv_def book_inv_def)

lemma seat_inv_go_background: "seat_inv cf seat \<Longrightarrow> seat_inv cf (snd (seat_go_background seat))"
  by (auto simp: seat_inv_def book_inv_def)

lemma set_flag_ids [simp]: "sess_ids (on_sess i (\<lambda>s. s\<lparr>s_foreground := b\<rparr>) seat) = sess_ids seat"
  by (simp add: on_sess_def)

lemma seat_inv_set_flag [simp]:
  "seat_inv cf (on_sess i (\<lambda>s. s\<lparr>s_foreground := b\<rparr>) seat) = seat_inv cf seat"
  unfolding seat_inv_def set_flag_ids by (simp add: on_sess_def)

lemma seat_inv_set_foreground:
  "seat_inv cf seat \<Longrightarrow> seat_inv cf (snd (kmscon_session_set_foreground e cf i seat))"
  using seat_inv_go_foreground [of cf "semit Vt_restore seat" e] seat_inv_frame [OF frame_semit, of cf Vt_restore seat]
  by (auto simp: kmscon_session_set_foreground_def Let_def split: option.split prod.split)

lemma seat_inv_set_background:
  "seat_inv cf seat \<Longrightarrow> seat_inv cf (snd (kmscon_session_set_background i seat))"
  using seat_inv_go_background [of cf seat]
  by (auto simp: kmscon_session_set_background_def Let_def split: option.split prod.split)

lemma seat_inv_go_awake: "seat_inv cf seat \<Longrightarrow> seat_inv cf (snd (seat_go_awake e seat))"
  by (auto simp: seat_go_awake_def seat_inv_def book_inv_def semit_def)

lemma vt_deactivate_eq:
  "snd (seat_vt_deactivate cf seat) =
     (let d = deactivate_sess cf (current_sess seat) seat
      in if seat_foreground d \<and> \<not> seat_awake d then d else snd (seat_go_asleep (snd (seat_go_background d))))"
  by (simp add: seat_vt_deactivate_def seat_go_background_def seat_go_asleep_def Let_def)

lemma seat_inv_go_asleep:
  "seat_inv cf seat \<Longrightarrow> \<not> seat_foreground seat \<Longrightarrow> seat_inv cf (snd (seat_go_asleep seat))"
  by (auto simp: seat_go_asleep_def seat_inv_def book_inv_def semit_def)

lemma seat_inv_vt:
  assumes "seat_inv cf seat"
  shows "seat_inv cf (seat_vt_activate e cf seat)" "seat_inv cf (snd (seat_vt_deactivate cf seat))"
proof -
  let ?a = "snd (seat_go_awake e seat)"
  let ?f = "snd (seat_go_foreground e cf ?a)"
  have a: "seat_inv cf ?a" by (rule seat_inv_go_awake [OF assms])
  then have f: "seat_inv cf ?f" by (rule seat_inv_go_foreground)
  then have "seat_inv cf (activate_sess e cf (current_sess ?f) ?f)"
    by (simp only: seat_inv_frame [OF frame_activation(1)])
  then show "seat_inv cf (seat_vt_activate e cf seat)"
    using a f by (auto simp: seat_vt_activate_def Let_def split: prod.split)
  have d: "seat_inv cf (deactivate_sess cf (current_sess seat) seat)"
    using assms by (simp only: seat_inv_frame [OF frame_activation(2)])
  then show "seat_inv cf (snd (seat_vt_deactivate cf seat))"
    unfolding vt_deactivate_eq Let_def by (auto intro!: seat_inv_go_asleep seat_inv_go_background)
qed

lemma next_sess_exists:
  assumes "seat_inv cf seat" "2 \<le> session_count seat" "set xs = set (sess_ids seat)" "distinct xs"
  shows "\<exists>j\<in>set (sess_ids seat). next_sess (current_sess seat) xs = Some j"
proof -
  have inv: "distinct (sess_ids seat)" "session_count seat = length (sess_ids seat)"
    "current_sess seat = None \<longrightarrow> sess_ids seat = []"
    using assms(1) unfolding seat_inv_def book_inv_def by blast+
  then obtain c where c: "current_sess seat = Some c" using assms(2) by fastforce
  show ?thesis
  proof (cases "next_sess (Some c) xs")
    case None
    then have "card (set xs) \<le> card {c}"
      using next_sess_None assms(4) by (intro card_mono) auto
    then show ?thesis using inv(1,2) assms(2,3) distinct_card [of "sess_ids seat"] by simp
  next
    case (Some j)
    then show ?thesis using next_sess_in [OF Some] assms(3) c by auto
  qed
qed

lemma seat_inv_next_prev:
  assumes "seat_inv cf seat" "2 \<le> session_count seat"
  shows "seat_inv cf (seat_next e cf seat)" "seat_inv cf (seat_prev e cf seat)"
proof -
  have d: "distinct (sess_ids seat)" using assms(1) unfolding seat_inv_def book_inv_def by blast
  show "seat_inv cf (seat_next e cf seat)"
    using next_sess_exists [OF assms refl d] unfolding seat_next_def
    by (auto intro!: seat_inv_switch [OF assms(1)])
  have r: "set (rev (sess_ids seat)) = set (sess_ids seat)" "distinct (rev (sess_ids seat))"
    using d by simp_all
  show "seat_inv cf (seat_prev e cf seat)"
    using next_sess_exists [OF assms r] unfolding seat_prev_def
    by (auto intro!: seat_inv_switch [OF assms(1)])
qed

lemma frame_with_screens:
  "frame (on_sess i (upd_term f) (with_session sess seat)) = frame (with_session sess seat)"
  by simp

text \<open>The key for a new terminal: a session is made and shown.\<close>

lemma seat_inv_new_and_switch:
  assumes "seat_inv cf seat"
  shows "seat_inv cf (let (s, seat) = kmscon_seat_new_session e cf seat
    in if s \<noteq> None then seat_switch e cf s seat else seat)"
proof (cases rule: new_session_cases [of e cf seat])
  case none
  then show ?thesis using assms by simp
next
  case (made sess)
  then show ?thesis
    using seat_inv_with_session(1) [OF assms made(1) frame_with_screens]
    by (simp add: seat_inv_switch_to session_made_def)
qed

lemma seat_inv_input_event:
  assumes "seat_inv cf seat"
  shows "seat_inv cf (snd (seat_input_event e cf ev seat))"
proof -
  let ?r = "seat_dpms_reset_timer e cf seat"
  have r: "seat_inv cf ?r" using assms by (simp only: seat_inv_frame [OF frame_dpms(2)])
  note n = seat_inv_next_prev [OF r, of e]
  show ?thesis
    using r n seat_inv_new_and_switch [OF r, of e] seat_inv_unregister [OF r, of e]
    by (auto simp: seat_input_event_def Let_def seat_trigger_reboot_def seat_inv_frame [OF frame_semit]
          split: option.split)
qed

lemma seat_inv_startup:
  assumes "seat_inv cf seat" "next_id seat = 0"
  shows "seat_inv cf (snd (kmscon_seat_startup e cf seat))"
proof -
  have empty: "sess_ids seat = []"
    using assms unfolding seat_inv_def book_inv_def by (cases "sess_ids seat") auto
  have cur: "current_sess seat = None"
    using assms empty unfolding seat_inv_def book_inv_def by auto
  have "seat_inv cf (let (s, seat) = kmscon_seat_new_session e cf seat in seat\<lparr>current_sess := s\<rparr>)"
  proof (cases rule: new_session_cases [of e cf seat])
    case none
    have "seat\<lparr>current_sess := None\<rparr> = seat" using cur by simp
    with none show ?thesis using assms(1) by simp
  next
    case (made sess)
    then show ?thesis
      using seat_inv_with_session(1) [OF assms(1) made(1) frame_with_screens] by (simp add: session_made_def)
  qed
  then show ?thesis
    by (auto simp: kmscon_seat_startup_def Let_def seat_inv_frame [OF frame_semit] split: prod.splits)
qed

lemma seat_inv_dispatch: "seat_inv cf seat \<Longrightarrow> seat_inv cf (seat_dispatch cf e ev seat)"
proof -
  assume inv: "seat_inv cf seat"
  have fr: "seat_inv cf s" if "frame s = frame seat" for s using seat_inv_frame [OF that] inv by blast
  show ?thesis
    by (cases ev)
      (simp_all add: inv fr seat_inv_startup seat_inv_vt seat_inv_input_event seat_inv_set_foreground
         seat_inv_set_background seat_vt_hup_def seat_pointer_event_def kmscon_seat_poll_video_def
         kmscon_session_bell_def kmscon_session_set_leds_def)
qed

lemma seat_reachable_inv: "seat_reachable allowed cf seat \<Longrightarrow> seat_inv cf seat"
proof (induction rule: seat_reachable.induct)
  case (fresh timer)
  show ?case by (simp add: seat_fresh_def seat_inv_def book_inv_def)
qed (auto elim: seat_stepE simp: seat_inv_dispatch)

section \<open>The terminals of the sessions\<close>

definition terms_ok :: "seat_conf \<Rightarrow> 'd kmscon_seat \<Rightarrow> bool" where
  "terms_ok cf seat \<longleftrightarrow> (\<forall>s\<in>set (sessions seat). term_reachable (sc_term cf) (s_term s))"

lemma terms_good:
  "terms_ok cf seat \<Longrightarrow> session_contract.all_good (current_sess seat) (\<lambda>i. term_reachable (sc_term cf)) seat"
  "session_contract.all_good c (\<lambda>i. term_reachable (sc_term cf)) seat \<Longrightarrow> terms_ok cf seat"
  by (simp_all add: terms_ok_def reach.all_good_def)

lemma terms_on_sess:
  "terms_ok cf seat \<Longrightarrow> (\<And>s. term_reachable (sc_term cf) (s_term s) \<Longrightarrow> term_reachable (sc_term cf) (s_term (f s))) \<Longrightarrow>
     terms_ok cf (on_sess i f seat)"
  by (auto simp: terms_ok_def on_sess_def)

lemma terms_fields [simp]:
  "terms_ok cf (semit c seat) = terms_ok cf seat"
  "terms_ok cf (seat\<lparr>current_sess := x\<rparr>) = terms_ok cf seat"
  "terms_ok cf (seat\<lparr>seat_foreground := b\<rparr>) = terms_ok cf seat"
  "terms_ok cf (seat\<lparr>seat_awake := b\<rparr>) = terms_ok cf seat"
  "terms_ok cf (snd (seat_go_background seat)) = terms_ok cf seat"
  by (simp_all add: terms_ok_def semit_def)

lemma terms_steps [simp]:
  assumes "terms_ok cf seat"
  shows "terms_ok cf (snd (seat_go_foreground e cf seat))" "terms_ok cf (deactivate_sess cf i seat)"
    "terms_ok cf (seat_dpms_timeout cf seat)" "terms_ok cf (seat_dpms_reset_timer e cf seat)"
    "terms_ok cf (seat_new_display e cf d seat)" "terms_ok cf (seat_remove_display e cf d seat)"
    "terms_ok cf (seat_refresh_display e d seat)"
    "terms_ok cf (snd (kmscon_seat_add_video e cf v dr b p a seat))"
    "terms_ok cf (kmscon_seat_remove_video e cf v seat)"
  using reach.good_go_foreground [OF terms_good(1) [OF assms]]
    reach.good_deactivate [OF terms_good(1) [OF assms]] reach.good_dpms [OF terms_good(1) [OF assms]]
    reach.good_displays [OF terms_good(1) [OF assms]] reach.good_add_video [OF terms_good(1) [OF assms]]
    reach.good_remove_video [OF terms_good(1) [OF assms]]
  by (blast intro: terms_good(2))+

lemma reachable_activate: "term_reachable c t \<Longrightarrow> term_reachable c (terminal_activate te c t)"
  using reachable_dispatch [of c t te Ev_activate] by simp

lemma reachable_add_displays:
  "term_reachable c t \<Longrightarrow> term_reachable c (fold (\<lambda>d t. snd (terminal_add_display te c d t)) ds t)"
proof (induction ds arbitrary: t)
  case (Cons d ds)
  then show ?case using reachable_dispatch [of c t te "Ev_add_display d"] by simp
qed simp

lemma terms_activate [simp]: "terms_ok cf seat \<Longrightarrow> terms_ok cf (activate_sess e cf i seat)"
  by (auto simp: activate_sess_def reachable_activate intro: terms_on_sess split: option.split)

lemma terms_switch [simp]: "terms_ok cf seat \<Longrightarrow> terms_ok cf (seat_switch e cf new seat)"
  by (simp add: seat_switch_def Let_def split: option.split)

lemma terms_next_prev [simp]:
  "terms_ok cf seat \<Longrightarrow> terms_ok cf (seat_next e cf seat)"
  "terms_ok cf seat \<Longrightarrow> terms_ok cf (seat_prev e cf seat)"
  by (simp_all add: seat_next_def seat_prev_def)

lemma terms_unregister [simp]: "terms_ok cf seat \<Longrightarrow> terms_ok cf (kmscon_session_unregister e cf i seat)"
proof -
  assume t: "terms_ok cf seat"
  have f: "terms_ok cf (s\<lparr>sessions := filter P (sessions s), session_count := n\<rparr>)" if "terms_ok cf s" for s P n
    using that by (simp add: terms_ok_def)
  show ?thesis
    using t by (simp add: kmscon_session_unregister_def Let_def f split: option.split)
qed

lemma terms_set_flag [simp]:
  "terms_ok cf seat \<Longrightarrow> terms_ok cf (on_sess i (\<lambda>s. s\<lparr>s_foreground := b\<rparr>) seat)"
  by (rule terms_on_sess) simp_all

lemma terms_set_foreground [simp]:
  "terms_ok cf seat \<Longrightarrow> terms_ok cf (snd (kmscon_session_set_foreground e cf i seat))"
  "terms_ok cf seat \<Longrightarrow> terms_ok cf (snd (kmscon_session_set_background i seat))"
  by (simp_all add: kmscon_session_set_foreground_def kmscon_session_set_background_def Let_def split_beta
        split: option.split)

text \<open>The environment makes fresh terminals only.\<close>

definition fresh_terminals :: "'d seat_env \<Rightarrow> bool" where
  "fresh_terminals e \<longleftrightarrow>
     pred_option (\<lambda>t. \<exists>font_size fnt w h a. t = terminal_fresh font_size fnt w h a) (se_terminal e)"

lemma fresh_asleep: "\<not> t_awake (terminal_fresh font_size fnt w h a)"
  by (simp add: terminal_fresh_def)

lemma fresh_reachable: "fresh_terminals e \<Longrightarrow> session_made e cf seat sess \<Longrightarrow>
    term_reachable (sc_term cf) (s_term sess) \<and> \<not> t_awake (s_term sess)"
  using term_reachable.fresh by (auto simp: fresh_terminals_def session_made_def fresh_asleep)

lemma set_with_session: "set (sessions (with_session sess seat)) \<subseteq> insert sess (set (sessions seat))"
  by (auto simp: with_session_def set_insert_after split: option.splits)

lemma terms_new_session:
  assumes "terms_ok cf seat" "fresh_terminals e"
  shows "terms_ok cf (snd (kmscon_seat_new_session e cf seat))"
proof (cases rule: new_session_cases [of e cf seat])
  case none
  then show ?thesis using assms by simp
next
  case (made sess)
  have "terms_ok cf (with_session sess seat)"
    using set_with_session [of sess seat] assms(1) fresh_reachable [OF assms(2) made(1)]
    by (auto simp: terms_ok_def)
  then show ?thesis
    unfolding made(2) snd_conv by (rule terms_on_sess) (simp add: reachable_add_displays)
qed

lemma terms_input_event:
  assumes "terms_ok cf seat" "fresh_terminals e"
  shows "terms_ok cf (snd (seat_input_event e cf ev seat))"
  using assms terms_new_session [of cf "seat_dpms_reset_timer e cf seat" e]
  by (simp add: seat_input_event_def Let_def split_beta seat_trigger_reboot_def split: option.split)

lemma terms_vt [simp]:
  "terms_ok cf seat \<Longrightarrow> terms_ok cf (seat_vt_activate e cf seat)"
  "terms_ok cf seat \<Longrightarrow> terms_ok cf (snd (seat_vt_deactivate cf seat))"
  unfolding vt_deactivate_eq
  by (simp_all add: seat_vt_activate_def seat_go_awake_def seat_go_asleep_def Let_def split_beta)

lemma terms_dispatch:
  assumes "terms_ok cf seat" "fresh_terminals e"
  shows "terms_ok cf (seat_dispatch cf e ev seat)"
proof (cases ev)
  case Se_startup
  then show ?thesis using assms terms_new_session [OF assms]
    by (simp add: kmscon_seat_startup_def Let_def split_beta)
next
  case (Se_terminal i tev)
  then show ?thesis using assms
    by (auto intro!: terms_on_sess reachable_dispatch)
qed (use assms in \<open>simp_all add: terms_input_event seat_vt_hup_def seat_pointer_event_def
  kmscon_seat_poll_video_def kmscon_session_bell_def kmscon_session_set_leds_def\<close>)

lemma seat_reachable_terms: "seat_reachable allowed cf seat \<Longrightarrow> terms_ok cf seat"
proof (induction rule: seat_reachable.induct)
  case (fresh timer)
  show ?case by (simp add: seat_fresh_def terms_ok_def)
qed (auto elim!: seat_stepE intro!: terms_dispatch simp: fresh_terminals_def)

section \<open>Which terminal is awake\<close>

lemma own_event_awake: "own_event ev \<Longrightarrow> t_awake (dispatch c e ev t) = t_awake t"
  by (cases ev)
     (simp_all add: own_event_def status_event_frame awake_input_event awake_pointer_event awake_pty_exit
        write_event_def harmless_awake harmless_intro)

definition lone :: "'d kmscon_seat \<Rightarrow> bool" where
  "lone seat \<longleftrightarrow> (\<forall>s\<in>set (sessions seat). t_awake (s_term s) \<longrightarrow> current_sess seat = Some (s_id s))"

definition asleep :: "'d kmscon_seat \<Rightarrow> bool" where
  "asleep seat \<longleftrightarrow> (\<forall>s\<in>set (sessions seat). \<not> t_awake (s_term s))"

abbreviation lone_contract :: "nat option \<Rightarrow> 'd kmscon_seat \<Rightarrow> bool" where
  "lone_contract c \<equiv> session_contract.all_good c (\<lambda>i t. t_awake t \<longrightarrow> c = Some i)"

lemma lone_good:
  "lone seat \<Longrightarrow> lone_contract (current_sess seat) seat"
  "lone_contract c seat \<Longrightarrow> lone seat"
  by (simp_all add: lone_def alone.all_good_def)

lemma lone_fields [simp]:
  "lone (semit c seat) = lone seat" "lone (seat\<lparr>seat_foreground := b\<rparr>) = lone seat"
  "lone (seat\<lparr>seat_awake := b\<rparr>) = lone seat"
  "lone (snd (seat_go_background seat)) = lone seat"
  by (simp_all add: lone_def semit_def)

lemma lone_steps [simp]:
  assumes "lone seat"
  shows "lone (snd (seat_go_foreground e cf seat))" "lone (seat_dpms_timeout cf seat)"
    "lone (seat_dpms_reset_timer e cf seat)" "lone (seat_new_display e cf d seat)"
    "lone (seat_remove_display e cf d seat)" "lone (seat_refresh_display e d seat)"
    "lone (snd (kmscon_seat_add_video e cf v dr b p a seat))" "lone (kmscon_seat_remove_video e cf v seat)"
    "lone (deactivate_sess cf i seat)" "lone (activate_sess e cf (current_sess seat) seat)"
proof -
  note g = lone_good(1) [OF assms]
  show "lone (snd (seat_go_foreground e cf seat))"
    by (rule lone_good(2) [OF alone.good_go_foreground [OF g]])
  show "lone (seat_dpms_timeout cf seat)"
    by (rule lone_good(2) [OF alone.good_dpms(1) [OF g]])
  show "lone (seat_dpms_reset_timer e cf seat)"
    by (rule lone_good(2) [OF alone.good_dpms(2) [OF g]])
  show "lone (seat_new_display e cf d seat)"
    by (rule lone_good(2) [OF alone.good_displays(3) [OF g]])
  show "lone (seat_remove_display e cf d seat)"
    by (rule lone_good(2) [OF alone.good_displays(2) [OF g]])
  show "lone (seat_refresh_display e d seat)"
    by (rule lone_good(2) [OF alone.good_displays(1) [OF g]])
  show "lone (snd (kmscon_seat_add_video e cf v dr b p a seat))"
    by (rule lone_good(2) [OF alone.good_add_video [OF g]])
  show "lone (kmscon_seat_remove_video e cf v seat)"
    by (rule lone_good(2) [OF alone.good_remove_video [OF g]])
  show "lone (deactivate_sess cf i seat)"
    by (rule lone_good(2) [OF alone.good_deactivate [OF g]])
  show "lone (activate_sess e cf (current_sess seat) seat)"
    by (rule lone_good(2) [OF alone.good_activate [OF g]])
qed

lemma lone_deactivated: "lone seat \<Longrightarrow> asleep (deactivate_sess cf (current_sess seat) seat)"
  by (auto simp: lone_def asleep_def deactivate_sess_def on_sess_def split: option.splits)

lemma asleep_fields [simp]:
  "asleep (semit c seat) = asleep seat" "asleep (seat\<lparr>seat_awake := b\<rparr>) = asleep seat"
  "asleep (seat\<lparr>current_sess := x\<rparr>) = asleep seat"
  "asleep (snd (seat_go_background seat)) = asleep seat"
  by (simp_all add: asleep_def semit_def)

lemma asleep_lone: "asleep seat \<Longrightarrow> lone seat" "current_sess seat = None \<Longrightarrow> asleep seat \<longleftrightarrow> lone seat"
  by (auto simp: asleep_def lone_def)

lemma asleep_activate: "asleep s \<Longrightarrow> lone ((activate_sess e cf new s)\<lparr>current_sess := new\<rparr>)"
  by (auto simp: lone_def asleep_def activate_sess_def on_sess_def split: option.split)

text \<open>
  With all sessions in the foreground the seat is in the background only while it sleeps or
  shows no session.
\<close>

definition lone_inv :: "'d kmscon_seat \<Rightarrow> bool" where
  "lone_inv seat \<longleftrightarrow> lone seat \<and> list_all id (map s_foreground (sessions seat)) \<and>
     (seat_awake seat \<and> \<not> seat_foreground seat \<longrightarrow> current_sess seat = None \<and> next_id seat \<noteq> 0)"

lemma lone_inv_frame: "frame s = frame s' \<Longrightarrow> lone s \<Longrightarrow> lone_inv s' \<Longrightarrow> lone_inv s"
  unfolding lone_inv_def using frame_eqD [of s s'] by auto

lemma lone_go_foreground: "lone_inv seat \<Longrightarrow> lone_inv (snd (seat_go_foreground e cf seat))"
  by (rule lone_inv_frame [OF frame_go_foreground]) (auto simp: lone_inv_def)

lemma asleep_go_foreground:
  assumes "asleep seat" "seat_awake seat \<and> \<not> seat_foreground seat \<longrightarrow> current_sess seat = None"
  shows "asleep (snd (seat_go_foreground e cf seat))"
proof (cases "seat_awake seat \<and> \<not> seat_foreground seat")
  case True
  then have "current_sess (snd (seat_go_foreground e cf seat)) = None"
    using frame_eqD(3) [OF frame_go_foreground [of e cf seat]] assms(2) by simp
  then show ?thesis using assms(1) lone_steps(1) asleep_lone by blast
qed (use assms in \<open>auto simp: seat_go_foreground_def\<close>)

lemma get_sess_foreground:
  "list_all id (map s_foreground (sessions seat)) \<Longrightarrow> get_sess i seat = Some s \<Longrightarrow> s_foreground s"
  using get_sess_Some [of i seat s] by (auto simp: list_all_iff)

lemma lone_switch:
  assumes "lone_inv seat"
  shows "lone (seat_switch e cf new seat)"
proof (cases "current_sess seat = new")
  case False
  let ?d = "deactivate_sess cf (current_sess seat) seat"
  have fr: "frame ?d = frame seat" by simp
  note d = frame_eqD [OF this]
  have a: "asleep ?d" using assms by (auto simp: lone_inv_def lone_deactivated)
  have g: "asleep (snd (seat_go_foreground e cf ?d))"
    using asleep_go_foreground [OF a] assms d by (simp add: lone_inv_def)
  have n: "lone (s\<lparr>current_sess := x\<rparr>)" if "asleep s" for s :: "'a kmscon_seat" and x
    using that by (simp add: asleep_lone)
  show ?thesis
    using False a g by (auto simp: seat_switch_def Let_def n asleep_activate split: option.split)
qed (use assms in \<open>simp add: seat_switch_def lone_inv_def\<close>)

lemma shown_foreground:
  "list_all id (map s_foreground (sessions seat)) \<Longrightarrow> i \<in> set (sess_ids seat) \<Longrightarrow> seat_awake seat \<Longrightarrow>
     shown (Some i) seat"
  using get_sess_foreground [of seat i] get_sess_None [of i seat]
  by (auto simp: shown_def split: option.splits)

lemma lone_inv_switch:
  assumes "lone_inv seat" "set_option new \<subseteq> set (sess_ids seat)" "next_id seat \<noteq> 0"
  shows "lone_inv (seat_switch e cf new seat)"
proof -
  have m: "map s_foreground (sessions (seat_switch e cf new seat)) = map s_foreground (sessions seat)"
    using frame_eqD(7) [OF frame_switch [of e cf new seat, simplified if_distrib [of frame, symmetric]]]
    by (simp split: if_splits)
  have l: "list_all id (map s_foreground (sessions seat))" using assms(1) by (simp only: lone_inv_def)
  have "new = None" if "seat_awake seat" "\<not> shown new seat"
    using that shown_foreground [OF l] assms(2) by (cases new) auto
  moreover have "new = None" if "seat_awake seat" "\<not> seat_foreground seat" "current_sess seat = new"
    using that assms(1) by (simp add: lone_inv_def)
  ultimately show ?thesis
    using lone_switch [OF assms(1), of e cf new] l assms(3)
    unfolding lone_inv_def switch_simps switch_foreground m by (cases "current_sess seat = new") auto
qed

lemma lone_inv_frame_step: "frame s = frame seat \<Longrightarrow> (lone seat \<Longrightarrow> lone s) \<Longrightarrow> lone_inv seat \<Longrightarrow> lone_inv s"
  by (rule lone_inv_frame) (auto simp: lone_inv_def)

lemma lone_next_prev:
  assumes "lone_inv seat" "next_id seat \<noteq> 0"
  shows "lone_inv (seat_next e cf seat)" "lone_inv (seat_prev e cf seat)"
proof -
  have "set_option (next_sess c xs) \<subseteq> set xs" for c xs
    using next_sess_in [of c xs] by (auto simp: elem_set)
  then have "set_option (next_sess (current_sess seat) (sess_ids seat)) \<subseteq> set (sess_ids seat)"
    "set_option (next_sess (current_sess seat) (rev (sess_ids seat))) \<subseteq> set (sess_ids seat)"
    by (metis set_rev)+
  then show "lone_inv (seat_next e cf seat)" "lone_inv (seat_prev e cf seat)"
    unfolding seat_next_def seat_prev_def by (simp_all only: lone_inv_switch assms not_False_eq_True)
qed

lemma lone_unregister:
  assumes "lone_inv seat" "next_id seat \<noteq> 0"
  shows "lone_inv (kmscon_session_unregister e cf i seat)"
proof -
  have f: "lone_inv (semit c (s\<lparr>sessions := filter P (sessions s), session_count := n\<rparr>))"
    if "lone_inv s" for s :: "'a kmscon_seat" and P n c
    using that by (auto simp: lone_inv_def lone_def semit_def list_all_iff)
  have "lone_inv (deactivate_sess cf (Some i) seat)"
    by (rule lone_inv_frame_step [OF _ _ assms(1)]) simp_all
  moreover have "next_id (deactivate_sess cf (Some i) seat) = next_id seat"
    by (rule frame_eqD(2)) simp
  ultimately show ?thesis
    using assms by (simp add: kmscon_session_unregister_def Let_def f lone_next_prev split: option.split)
qed

lemma lone_with_session:
  assumes "lone_inv seat" "fresh_terminals e" "session_made e cf seat sess"
  shows "lone_inv (on_sess i (upd_term (\<lambda>s t.
      fold (\<lambda>d t. snd (terminal_add_display (te s) (sc_term cf) d t)) ds t)) (with_session sess seat))"
proof -
  have aw: "t_awake (fold (\<lambda>d t. snd (terminal_add_display te c d t)) ds t) = t_awake t" for te c ds and t :: "'a kmscon_terminal"
    by (induction ds arbitrary: t) simp_all
  have l: "lone_inv (with_session sess seat)"
    using assms(1) fresh_reachable [OF assms(2,3)] assms(3) set_with_session [of sess seat]
    unfolding lone_inv_def lone_def list_all_iff
    by (auto simp: session_made_def with_session_def set_insert_after split: option.splits)
  show ?thesis
    by (rule lone_inv_frame_step [OF frame_on_sess _ l]) (auto simp: lone_def on_sess_def aw)
qed

lemma lone_new_and_switch:
  assumes "lone_inv seat" "fresh_terminals e" "seat_inv cf seat"
  shows "lone_inv (let (s, seat) = kmscon_seat_new_session e cf seat
    in if s \<noteq> None then seat_switch e cf s seat else seat)"
proof (cases rule: new_session_cases [of e cf seat])
  case none
  then show ?thesis using assms by simp
next
  case (made sess)
  let ?s = "on_sess (next_id seat) (upd_term (\<lambda>s t.
           fold (\<lambda>d t. snd (terminal_add_display (sess_env e s) (sc_term cf) d t))
             (map d_disp (seat_displays seat)) t)) (with_session sess seat)"
  have "next_id seat \<in> set (sess_ids ?s)"
    using seat_inv_with_session(3) [OF assms(3) made(1) frame_with_screens] made(1)
    by (simp only: session_made_def)
  moreover have "next_id ?s = Suc (next_id seat)"
    by (simp add: on_sess_def with_session_def)
  ultimately have "lone_inv (seat_switch e cf (Some (next_id seat)) ?s)"
    by (intro lone_inv_switch lone_with_session [OF assms(1,2) made(1)]) simp_all
  then show ?thesis by (simp add: made(2))
qed

lemma lone_input_event:
  assumes "lone_inv seat" "fresh_terminals e" "seat_inv cf seat"
  shows "lone_inv (snd (seat_input_event e cf ev seat))"
proof -
  let ?r = "seat_dpms_reset_timer e cf seat"
  have r: "lone_inv ?r" by (rule lone_inv_frame_step [OF _ _ assms(1)]) simp_all
  have s: "seat_inv cf ?r" using assms(3) by (simp only: seat_inv_frame [OF frame_dpms(2)])
  have nz: "next_id ?r \<noteq> 0" if "\<not> session_count ?r < 2 \<or> current_sess ?r \<noteq> None"
  proof -
    have "sess_ids ?r \<noteq> []" "\<forall>i\<in>set (sess_ids ?r). i < next_id ?r"
      using s that unfolding seat_inv_def book_inv_def by auto
    then show ?thesis by (cases "sess_ids ?r") fastforce+
  qed
  have b: "lone_inv (seat_trigger_reboot e ?r)"
    by (rule lone_inv_frame_step [OF _ _ r]) (simp_all add: seat_trigger_reboot_def)
  show ?thesis
    using r b nz lone_next_prev [OF r, of e cf] lone_new_and_switch [OF r assms(2) s]
      lone_unregister [OF r, of e cf]
    by (auto simp: seat_input_event_def Let_def split: option.split)
qed

lemma lone_vt:
  assumes "lone_inv seat" "seat_inv cf seat"
  shows "lone_inv (seat_vt_activate e cf seat)" "lone_inv (snd (seat_vt_deactivate cf seat))"
    "asleep (snd (seat_vt_deactivate cf seat))"
proof -
  have fg: "lone_inv (activate_sess e cf (current_sess s) s)" if "lone_inv s" for s :: "'a kmscon_seat"
    by (rule lone_inv_frame_step [OF _ _ that]) simp_all
  let ?a = "semit Input_wake_up ((semit Seat_wake_up seat)\<lparr>seat_awake := True\<rparr>)"
  have a: "lone_inv (snd (seat_go_foreground e cf (if seat_awake seat then seat else ?a)))"
    (is "lone_inv (snd (seat_go_foreground e cf ?u))")
  proof (rule lone_inv_frame [OF frame_go_foreground lone_steps(1)])
    show "lone ?u" using assms(1) by (simp add: lone_inv_def)
    then show "lone_inv (if seat_awake ?u then ?u\<lparr>seat_foreground := True\<rparr> else ?u)"
      using assms(1) by (simp add: lone_inv_def) (simp add: semit_def)
  qed
  have u: "lone_inv (semit Seat_wake_up seat)" by (rule lone_inv_frame_step [OF _ _ assms(1)]) simp_all
  show "lone_inv (seat_vt_activate e cf seat)"
    using a u fg [OF a] go_foreground_result [of e cf ?a] go_foreground_result [of e cf seat] assms(1)
    by (auto simp: seat_vt_activate_def seat_go_awake_def Let_def split_beta semit_def split: if_splits)
  let ?d = "deactivate_sess cf (current_sess seat) seat"
  have fr: "frame ?d = frame seat" by simp
  note d = frame_eqD [OF this]
  have s: "asleep ?d" using assms(1) by (auto simp: lone_inv_def lone_deactivated)
  show "asleep (snd (seat_vt_deactivate cf seat))"
    using s unfolding vt_deactivate_eq by (simp add: Let_def seat_go_asleep_def)
  moreover have "seat_foreground seat \<longrightarrow> seat_awake seat" using assms(2) unfolding seat_inv_def book_inv_def by blast
  then have "\<not> seat_awake (snd (seat_vt_deactivate cf seat))"
    using d unfolding vt_deactivate_eq by (auto simp: Let_def seat_go_asleep_def semit_def)
  moreover have "map s_foreground (sessions (snd (seat_vt_deactivate cf seat))) = map s_foreground (sessions seat)"
    using d unfolding vt_deactivate_eq by (simp add: Let_def seat_go_asleep_def semit_def)
  ultimately show "lone_inv (snd (seat_vt_deactivate cf seat))"
    using assms(1) by (simp add: lone_inv_def asleep_lone)
qed

text \<open>The runs in which no session goes to the background.\<close>

definition no_background :: "seat_event \<Rightarrow> bool" where
  "no_background ev \<longleftrightarrow> (\<forall>i. ev \<noteq> Se_set_background i)"

lemma set_foreground_idle:
  "lone_inv seat \<Longrightarrow> snd (kmscon_session_set_foreground e cf i seat) = seat"
  using get_sess_foreground [of seat i]
  by (auto simp: kmscon_session_set_foreground_def lone_inv_def split: option.split)

lemma lone_dispatch:
  assumes "lone_inv seat" "seat_inv cf seat" "fresh_terminals e" "no_background ev"
  shows "lone_inv (seat_dispatch cf e ev seat)"
proof -
  have fr: "lone_inv s" if "frame s = frame seat" "lone s" for s :: "'a kmscon_seat"
    using lone_inv_frame_step [OF that(1) _ assms(1)] that(2) by blast
  have l: "lone seat" using assms(1) by (simp only: lone_inv_def)
  show ?thesis
  proof (cases ev)
    case Se_startup
    have "lone_inv (snd (kmscon_seat_startup e cf seat))" if z: "next_id seat = 0"
    proof -
      have "set_option (current_sess seat) \<subseteq> set (sess_ids seat)" "\<forall>i\<in>set (sess_ids seat). i < next_id seat"
        using assms(2) unfolding seat_inv_def book_inv_def by blast+
      moreover from this(2) have "sess_ids seat = []" using z by (cases "sess_ids seat") auto
      ultimately have empty: "sessions seat = []" "current_sess seat = None" by auto
      have "lone_inv (let (s, seat) = kmscon_seat_new_session e cf seat in seat\<lparr>current_sess := s\<rparr>)"
      proof (cases rule: new_session_cases [of e cf seat])
        case none
        have "seat\<lparr>current_sess := None\<rparr> = seat" using empty(2) by simp
        with none show ?thesis using assms(1) by simp
      next
        case (made sess)
        let ?s = "snd (kmscon_seat_new_session e cf seat)"
        have i: "lone_inv ?s" unfolding made(2) snd_conv by (rule lone_with_session [OF assms(1,3) made(1)])
        have "current_sess ?s = None" "next_id ?s = Suc (next_id seat)" "seat_awake ?s = seat_awake seat"
          "seat_foreground ?s = seat_foreground seat"
          using empty by (simp_all add: made(2) on_sess_def with_session_def)
        then show ?thesis
          using i assms(1) z by (auto simp: lone_inv_def lone_def made(2))
      qed
      moreover have "lone_inv (semit c s) = lone_inv s" for c and s :: "'a kmscon_seat"
        by (simp add: lone_inv_def) (simp add: semit_def)
      ultimately show ?thesis
        by (auto simp: kmscon_seat_startup_def Let_def split: prod.splits)
    qed
    then show ?thesis using assms(1) Se_startup by simp
  next
    case (Se_terminal i tev)
    have "lone (on_sess i (upd_term (\<lambda>s. dispatch (sc_term cf) (sess_env e s) tev)) seat)" if "own_event tev"
      using l that by (auto simp: lone_def on_sess_def own_event_awake)
    then show ?thesis using assms(1) fr Se_terminal by simp
  next
    case (Se_set_background i)
    then show ?thesis using assms(4) by (simp add: no_background_def)
  qed (use assms l in \<open>simp_all add: fr lone_vt lone_input_event set_foreground_idle seat_vt_hup_def
     seat_pointer_event_def kmscon_seat_poll_video_def kmscon_session_bell_def kmscon_session_set_leds_def\<close>)
qed

lemma seat_reachable_lone: "seat_reachable no_background cf seat \<Longrightarrow> lone_inv seat"
proof (induction rule: seat_reachable.induct)
  case (fresh timer)
  show ?case by (simp add: seat_fresh_def lone_inv_def lone_def)
next
  case (event seat ev seat')
  then show ?case
    using seat_reachable_inv [OF event(1)]
    by (auto elim!: seat_stepE intro!: lone_dispatch simp: fresh_terminals_def)
qed

end
