(* ===== verification/Seat_Spec.thy ===== *)
theory Seat_Spec
  imports Seat_Sessions Terminal_Spec
begin

text \<open>
  What the seat guarantees: the properties of \<open>src/seat.c\<close> over all its runs, and of the seat
  together with the terminals of its sessions.
\<close>

section \<open>A small seat\<close>

definition demo_seat_conf :: seat_conf where
  "demo_seat_conf =
     \<lparr>sc_term = demo_conf, sc_dpms_timeout = 60, sc_session_control = True, sc_session_max = 4,
      sc_switchvt = True, sc_drm = True, sc_hwaccel = False, sc_gpus = GPU_ALL,
      grab_session_next = [], grab_session_prev = [], grab_session_close = [], grab_terminal_new = [(4, [])],
      grab_reboot = None\<rparr>"

definition demo_seat_env :: "unit seat_env" where
  "demo_seat_env =
     \<lparr>se_term = demo_env, se_mem = True, se_cb = ok, se_active = (\<lambda>d. True), se_terminal = Some demo_fresh,
      se_open = (\<lambda>v. ok), se_video_new = (\<lambda>v b. ok), se_wake = (\<lambda>v. ok), se_hotplug = (\<lambda>v. []),
      se_display_video = (\<lambda>d. 0), se_vt_restore = ok, se_vt_num = 1, se_ctrl_alt_del = 0\<rparr>"

definition demo_started :: "unit kmscon_seat" where
  "demo_started = seat_dispatch demo_seat_conf demo_seat_env Se_startup (seat_fresh True)"

definition demo_shown :: "unit kmscon_seat" where
  "demo_shown = seat_dispatch demo_seat_conf demo_seat_env (Se_new_display 7)
     (seat_dispatch demo_seat_conf demo_seat_env Se_vt_activate demo_started)"

lemma demo_step: "seat_step demo_seat_conf ev seat (seat_dispatch demo_seat_conf demo_seat_env ev seat)"
  by (rule seat_step.step) (simp add: demo_seat_env_def demo_fresh_def, blast)

lemma demo_seat_reachable:
  "seat_reachable no_background demo_seat_conf demo_started"
  "seat_reachable no_background demo_seat_conf demo_shown"
proof -
  note go = seat_reachable.event [OF _ _ demo_step, of no_background]
  show s: "seat_reachable no_background demo_seat_conf demo_started"
    unfolding demo_started_def by (rule go [OF seat_reachable.fresh]) (simp add: no_background_def)
  show "seat_reachable no_background demo_seat_conf demo_shown"
    unfolding demo_shown_def by (intro go s) (simp_all add: no_background_def)
qed

lemma demo_started_sessions:
  "sessions demo_started = [\<lparr>s_id = 0, s_foreground = True, s_term = demo_fresh\<rparr>]"
  "current_sess demo_started = Some 0"
  by (simp_all add: demo_started_def kmscon_seat_startup_def kmscon_seat_new_session_def seat_fresh_def
        demo_seat_conf_def demo_seat_env_def on_sess_def upd_term_def semit_def)

text \<open>A second session of the small seat, made with the key for a new terminal.\<close>

definition demo_two :: "unit kmscon_seat" where
  "demo_two = seat_dispatch demo_seat_conf demo_seat_env (Se_key \<lparr>ev_mods = 4, ev_syms = [], ev_handled = False\<rparr>)
     (seat_dispatch demo_seat_conf demo_seat_env Se_vt_activate demo_started)"

lemma demo_two_reachable: "seat_reachable no_background demo_seat_conf demo_two"
  unfolding demo_two_def
  by (intro seat_reachable.event [OF _ _ demo_step] demo_seat_reachable(1)) (simp_all add: no_background_def)

lemma demo_two_sessions: "sess_ids demo_two = [0, 1]" "current_sess demo_two = Some 1" "session_count demo_two = 2"
  by (simp_all add: demo_two_def demo_started_def seat_fresh_def kmscon_seat_startup_def kmscon_seat_new_session_def
        seat_vt_activate_def seat_go_awake_def seat_go_foreground_def init_videos_def activate_sess_def
        on_sess_def upd_term_def semit_def demo_seat_conf_def demo_seat_env_def seat_input_event_def
        seat_dpms_reset_timer_def conf_grab_matches_iff seat_switch_def deactivate_sess_def get_sess_def)

section \<open>Sessions\<close>

text \<open>
  Property C20. Over every run of a seat its books agree: the sessions have distinct identities
  and their counter is their number, never above the configured maximum; a session is current
  exactly when there is one, and it is one of them; and the seat is in the foreground only while
  it is awake.
\<close>

theorem seat_keeps_its_books:
  assumes "seat_reachable allowed cf seat"
  shows "distinct (map s_id (sessions seat)) \<and> session_count seat = length (sessions seat) \<and>
    (sc_session_max cf = 0 \<or> session_count seat \<le> sc_session_max cf) \<and>
    (case current_sess seat of None \<Rightarrow> sessions seat = [] | Some c \<Rightarrow> c \<in> s_id ` set (sessions seat)) \<and>
    (\<not> seat_foreground seat \<or> seat_awake seat)"
  using seat_reachable_inv [OF assms] unfolding seat_inv_def book_inv_def
  by (auto split: option.split)

theorem seat_keeps_its_books_witness:
  "distinct (map s_id (sessions demo_two)) \<and> session_count demo_two = 2 \<and>
   (case current_sess demo_two of None \<Rightarrow> sessions demo_two = [] | Some c \<Rightarrow> c \<in> s_id ` set (sessions demo_two))"
  using seat_keeps_its_books [OF demo_two_reachable] demo_two_sessions by simp

text \<open>
  The seat drives its terminals only through their interface, so what a terminal
  promises holds for each session of a seat in every run: while the console is locked its login
  is closed and its feed is on, and it holds one page-flip registration and one reference for each
  of its screens, whose displays are distinct.
\<close>

theorem sessions_keep_terminal_promises:
  assumes "seat_reachable allowed cf seat" "s \<in> set (sessions seat)"
  shows "(want_feed (s_term s) \<longrightarrow> \<not> t_opened (s_term s) \<and> t_feed_active (s_term s)) \<and>
    distinct (map scr_disp (t_screens (s_term s))) \<and>
    count_list (t_calls (s_term s)) (Pageflip_register d) =
      count_list (t_calls (s_term s)) (Pageflip_unregister d) +
        (if d \<in> set (map scr_disp (t_screens (s_term s))) then 1 else 0)"
proof -
  have "term_reachable (sc_term cf) (s_term s)"
    using seat_reachable_terms [OF assms(1)] assms(2) by (simp add: terms_ok_def)
  then have "mode_inv (s_term s)" "held_once (s_term s)" using term_reachable_inv by blast+
  then show ?thesis unfolding mode_inv_def held_once_def by blast
qed

theorem sessions_keep_terminal_promises_witness:
  "distinct (map scr_disp (t_screens demo_fresh)) \<and>
   count_list (t_calls demo_fresh) (Pageflip_register 7) = count_list (t_calls demo_fresh) (Pageflip_unregister 7) +
     (if 7 \<in> set (map scr_disp (t_screens demo_fresh)) then 1 else 0)"
  using sessions_keep_terminal_promises [OF demo_seat_reachable(1),
      of "\<lparr>s_id = 0, s_foreground = True, s_term = demo_fresh\<rparr>" 7]
  by (simp add: demo_started_sessions)

text \<open>
  Property C7. As long as no session is sent to the background, at most one terminal of a seat is
  awake, and it is that of the current session: no other session draws, blinks or runs its login.
\<close>

theorem one_terminal_awake:
  assumes "seat_reachable no_background cf seat" "s \<in> set (sessions seat)" "t_awake (s_term s)"
  shows "current_sess seat = Some (s_id s) \<and>
    length (filter (\<lambda>s. t_awake (s_term s)) (sessions seat)) = 1"
proof -
  have l: "lone seat" and d: "distinct (sess_ids seat)"
    using seat_reachable_lone [OF assms(1)] seat_reachable_inv [OF assms(1)]
    unfolding lone_inv_def seat_inv_def book_inv_def by blast+
  have cur: "current_sess seat = Some (s_id s)" using l assms(2,3) by (simp add: lone_def)
  define xs where "xs = map s_id (filter (\<lambda>s. t_awake (s_term s)) (sessions seat))"
  have "set xs = {s_id s}"
  proof -
    have "s_id s' = s_id s" if "s' \<in> set (sessions seat)" "t_awake (s_term s')" for s'
      using that l cur unfolding lone_def by (metis option.inject)
    then show ?thesis unfolding xs_def set_map set_filter using assms(2,3) by blast
  qed
  moreover have "distinct xs"
    unfolding xs_def using d by (simp add: distinct_map_filter)
  ultimately have "length xs = 1" using distinct_card [of xs] by simp
  then show ?thesis using cur by (simp add: xs_def)
qed

text \<open>Activating a terminal wakes it if it has a screen.\<close>

lemma awake_activate: "t_awake (terminal_activate e c t) \<longleftrightarrow> t_awake t \<or> t_screens t \<noteq> []"
proof (cases "t_screens t = []")
  case False
  define u where "u = (if c_blink c then emit (Blink_timers True) (t\<lparr>t_awake := True\<rparr>)
    else t\<lparr>t_awake := True\<rparr>)"
  have "t_awake u" by (simp add: u_def)
  moreover have "terminal_activate e c t = terminal_refresh_displays e
    (if \<not> t_opened u \<and> console_login_allowed u then snd (terminal_open e c u)
     else if t_opened u then emit Asc_resume u
     else if t_feed_active u then render_events_feed e u else u)"
    using False by (simp add: terminal_activate_def Let_def u_def)
  ultimately show ?thesis
    using False harmless_awake [OF harmless_render_events_feed [OF harmless_refl], of e u]
    by (simp add: terminal_open_frame(2))
qed (simp add: terminal_activate_def)

lemma demo_shown_awake:
  "\<exists>t. sessions demo_shown = [\<lparr>s_id = 0, s_foreground = True, s_term = t\<rparr>] \<and> t_awake t"
proof -
  define e where "e = demo_env\<lparr>e_foreground := True\<rparr>"
  define u where "u = snd (terminal_add_display e demo_conf 7 demo_fresh)"
  have "fst (terminal_add_display e demo_conf 7 demo_fresh) = ok"
    by (simp add: terminal_add_display_def e_def demo_env_def demo_fresh_def terminal_fresh_def get_screen_def
          kmscon_text_set_def kmscon_text_set_identity_def text_zero_def demo_ops_def Let_def)
  from add_display_shows [OF this] have "t_screens u \<noteq> []" by (auto simp: u_def)
  then have a: "t_awake (terminal_activate e demo_conf u)" by (simp add: awake_activate)
  have n: "terminal_activate e demo_conf demo_fresh = demo_fresh"
    by (simp add: terminal_activate_def demo_fresh_def terminal_fresh_def)
  have "demo_shown = demo_shown\<lparr>sessions := [\<lparr>s_id = 0, s_foreground = True, s_term = terminal_activate e demo_conf u\<rparr>]\<rparr>"
    by (simp add: demo_shown_def demo_started_def seat_fresh_def kmscon_seat_startup_def kmscon_seat_new_session_def
          seat_vt_activate_def seat_go_awake_def seat_go_foreground_def init_videos_def activate_sess_def
          seat_new_display_def activate_display_def get_display_def seat_dpms_reset_timer_def on_sess_def on_all_def
          upd_term_def sess_env_def semit_def demo_seat_conf_def demo_seat_env_def e_def [symmetric] u_def n)
  then have "sessions demo_shown = [\<lparr>s_id = 0, s_foreground = True, s_term = terminal_activate e demo_conf u\<rparr>]"
    by (metis kmscon_seat.select_convs(1) kmscon_seat.surjective kmscon_seat.update_convs(1))
  then show ?thesis using a by blast
qed

theorem one_terminal_awake_witness:
  "current_sess demo_shown = Some 0 \<and> length (filter (\<lambda>s. t_awake (s_term s)) (sessions demo_shown)) = 1"
proof -
  obtain t where "sessions demo_shown = [\<lparr>s_id = 0, s_foreground = True, s_term = t\<rparr>]" "t_awake t"
    using demo_shown_awake by blast
  then show ?thesis
    using one_terminal_awake [OF demo_seat_reachable(2), of "\<lparr>s_id = 0, s_foreground = True, s_term = t\<rparr>"] by simp
qed

text \<open>
  Leaving the virtual terminal puts everything to sleep: the handler succeeds, the
  seat is asleep and in the background, and no terminal of any session is awake.
\<close>

theorem vt_deactivate_sleeps:
  assumes "seat_reachable no_background cf seat"
  shows "fst (seat_vt_deactivate cf seat) = ok \<and>
    (let seat' = snd (seat_vt_deactivate cf seat)
     in \<not> seat_awake seat' \<and> \<not> seat_foreground seat' \<and> list_all (\<lambda>s. \<not> t_awake (s_term s)) (sessions seat'))"
proof -
  let ?d = "deactivate_sess cf (current_sess seat) seat"
  have i: "lone_inv seat" "seat_inv cf seat"
    using seat_reachable_lone [OF assms] seat_reachable_inv [OF assms] .
  have "frame ?d = frame seat" by simp
  note d = frame_eqD [OF this]
  have fg: "seat_foreground seat \<longrightarrow> seat_awake seat"
    using i(2) unfolding seat_inv_def book_inv_def by blast
  have "asleep (snd (seat_vt_deactivate cf seat))" by (rule lone_vt(3) [OF i])
  moreover have "\<not> seat_awake (snd (seat_vt_deactivate cf seat))" "\<not> seat_foreground (snd (seat_vt_deactivate cf seat))"
    using d fg unfolding vt_deactivate_eq by (auto simp: Let_def seat_go_asleep_def semit_def)
  moreover have "fst (seat_vt_deactivate cf seat) = ok"
    using d fg by (auto simp: seat_vt_deactivate_def seat_go_background_def seat_go_asleep_def Let_def)
  ultimately show ?thesis by (simp add: Let_def asleep_def list_all_iff)
qed

theorem vt_deactivate_sleeps_witness:
  "fst (seat_vt_deactivate demo_seat_conf demo_shown) = ok \<and>
   (let seat' = snd (seat_vt_deactivate demo_seat_conf demo_shown)
    in \<not> seat_awake seat' \<and> \<not> seat_foreground seat' \<and> list_all (\<lambda>s. \<not> t_awake (s_term s)) (sessions seat'))"
  by (rule vt_deactivate_sleeps [OF demo_seat_reachable(2)])

section \<open>Moving between sessions\<close>

lemma next_is_next:
  assumes "distinct (sess_ids seat)" "k < length (sess_ids seat)" "2 \<le> length (sess_ids seat)"
    "current_sess seat = Some (sess_ids seat ! k)"
  shows "current_sess (seat_next e cf seat) = Some (sess_ids seat ! (Suc k mod length (sess_ids seat)))"
  using next_sess_nth [OF assms(1-3)] assms(4) by (simp add: seat_next_def)

lemma next_sess_rev:
  assumes "distinct xs" "k < length xs" "2 \<le> length xs"
  shows "next_sess (Some (xs ! (Suc k mod length xs))) (rev xs) = Some (xs ! k)"
proof (cases "Suc k = length xs")
  case True
  then have "rev xs ! 0 = xs ! k" using rev_nth [of 0 xs]
    by (metis One_nat_def diff_Suc_1 zero_less_Suc)
  with True show ?thesis
    using next_sess_nth [of "rev xs" k] assms by (simp add: rev_nth)
next
  case False
  then have k: "Suc k < length xs" using assms(2) by simp
  define j where "j = length xs - Suc (Suc k)"
  have "Suc j < length xs" "length xs - Suc j = Suc k" "length xs - Suc (Suc j) = k"
    using k by (simp_all add: j_def)
  then show ?thesis
    using next_sess_nth [of "rev xs" j] assms k by (simp add: rev_nth)
qed

lemma prev_is_prev:
  assumes "distinct (sess_ids seat)" "k < length (sess_ids seat)" "2 \<le> length (sess_ids seat)"
    "current_sess seat = Some (sess_ids seat ! (Suc k mod length (sess_ids seat)))"
  shows "current_sess (seat_prev e cf seat) = Some (sess_ids seat ! k)"
  using next_sess_rev [OF assms(1-3)] assms(4) by (simp add: seat_prev_def)

lemma next_prev_ids [simp]:
  "sess_ids (seat_next e cf seat) = sess_ids seat" "sess_ids (seat_prev e cf seat) = sess_ids seat"
  by (simp_all add: seat_next_def seat_prev_def)

text \<open>
  The keys for the next and the previous session walk round the list of sessions: with
  two sessions or more, pressing next \<open>n\<close> times shows the session \<open>n\<close> places further on,
  round the end, so that every session is reached; and previous undoes next.
\<close>

theorem session_keys_walk_round:
  assumes "seat_reachable allowed cf seat" "2 \<le> length (sess_ids seat)"
    "k < length (sess_ids seat)" "current_sess seat = Some (sess_ids seat ! k)"
  shows "current_sess ((seat_next e cf ^^ n) seat) = Some (sess_ids seat ! ((k + n) mod length (sess_ids seat))) \<and>
    current_sess (seat_prev e' cf (seat_next e cf seat)) = current_sess seat"
proof
  have d: "distinct (sess_ids seat)"
    using seat_reachable_inv [OF assms(1)] unfolding seat_inv_def book_inv_def by blast
  have "sess_ids ((seat_next e cf ^^ n) seat) = sess_ids seat \<and>
    current_sess ((seat_next e cf ^^ n) seat) = Some (sess_ids seat ! ((k + n) mod length (sess_ids seat)))"
  proof (induction n)
    case 0
    then show ?case using assms(3,4) by simp
  next
    case (Suc n)
    let ?s = "(seat_next e cf ^^ n) seat"
    have "(k + n) mod length (sess_ids seat) < length (sess_ids seat)"
      by (rule mod_less_divisor) (use assms(3) in linarith)
    then show ?case
      using next_is_next [of ?s "(k + n) mod length (sess_ids seat)" e cf] Suc d assms(2)
      by (simp add: mod_Suc_eq)
  qed
  then show "current_sess ((seat_next e cf ^^ n) seat) = Some (sess_ids seat ! ((k + n) mod length (sess_ids seat)))" ..
  show "current_sess (seat_prev e' cf (seat_next e cf seat)) = current_sess seat"
    using prev_is_prev [of "seat_next e cf seat" k e' cf] next_is_next [OF d assms(3,2,4), of e cf] d assms
    by simp
qed

theorem session_keys_walk_round_witness:
  "current_sess (seat_next demo_seat_env demo_seat_conf demo_two) = Some 0 \<and>
   current_sess (seat_prev demo_seat_env demo_seat_conf (seat_next demo_seat_env demo_seat_conf demo_two)) = Some 1"
  using session_keys_walk_round [OF demo_two_reachable, of 1 1 demo_seat_env demo_seat_env]
  by (simp add: demo_two_sessions)

section \<open>Displays that come and go\<close>

lemma rm_display_hides: "d \<notin> set (displays (terminal_rm_display e c d t))"
proof (cases "get_screen d t")
  case None
  then show ?thesis by (simp add: terminal_rm_display_def get_screen_None)
next
  case (Some s)
  have "displays (terminal_rm_display e c d t) = displays (free_screen e c d False t)"
    using harmless_same [OF free_screen_update [of e c d t True]] Some by (simp add: terminal_rm_display_def)
  then show ?thesis by (simp add: displays_free_screen)
qed

text \<open>
  A display that the seat had activated disappears everywhere when the device loses
  it: no terminal of any session keeps a screen on it, and the seat gives its reference back.
\<close>

theorem removed_display_is_gone:
  assumes "get_display d seat = Some x" "d_activated x"
  shows "list_all (\<lambda>s. d \<notin> set (map scr_disp (t_screens (s_term s)))) (sessions (seat_remove_display e cf d seat)) \<and>
    seat_displays (seat_remove_display e cf d seat) = remove1 x (seat_displays seat) \<and>
    seat_calls (seat_remove_display e cf d seat) = seat_calls seat @ [Display_unref d]"
  using assms
  by (simp add: seat_remove_display_def Let_def on_all_def semit_def list_all_iff rm_display_hides [simplified])

theorem removed_display_is_gone_witness:
  "list_all (\<lambda>s. 7 \<notin> set (map scr_disp (t_screens (s_term s))))
     (sessions (seat_remove_display demo_seat_env demo_seat_conf 7
        ((seat_fresh True)\<lparr>seat_displays := [\<lparr>d_disp = 7, d_activated = True\<rparr>],
           sessions := [\<lparr>s_id = 0, s_foreground = True, s_term = demo_idle\<rparr>]\<rparr>)))"
  using removed_display_is_gone [of 7 "(seat_fresh True)\<lparr>seat_displays := [\<lparr>d_disp = 7, d_activated = True\<rparr>],
       sessions := [\<lparr>s_id = 0, s_foreground = True, s_term = demo_idle\<rparr>]\<rparr>" "\<lparr>d_disp = 7, d_activated = True\<rparr>"
       demo_seat_env demo_seat_conf]
  by (simp add: get_display_def)

section \<open>Construction\<close>

text \<open>
  A seat that cannot be built leaves nothing behind: whatever step fails, everything
  acquired before it is released; the keyboard callback and every resource below it are required,
  while the pointer callback and the blanking timer may fail without harm.
\<close>

theorem seat_construction_unwinds:
  assumes "kmscon_seat_new cf acquire = r"
  shows "(case r of
            Failed left \<Rightarrow> left = [] \<and> (\<exists>q\<in>{SR_memory, SR_input, SR_vt, SR_vt_name, SR_name, SR_conf, SR_conf_load,
              SR_keymap, SR_monitor, SR_key_cb}. acquire q \<noteq> ok)
          | Built held \<Rightarrow> {SR_memory, SR_input, SR_vt, SR_name, SR_conf, SR_monitor, SR_key_cb} \<subseteq> set held \<and>
              (SR_pointer_cb \<in> set held \<longleftrightarrow> acquire SR_pointer_cb = ok) \<and>
              (SR_dpms_timer \<in> set held \<longleftrightarrow> sc_dpms_timeout cf > 0 \<and> acquire SR_dpms_timer = ok))"
  using assms
  by (auto simp: kmscon_seat_new_def seat_new_steps_def serr_labels)

theorem seat_construction_unwinds_witness:
  "kmscon_seat_new demo_seat_conf (\<lambda>r. if r = SR_monitor then fails ENOMEM else ok) = Failed []"
  using seat_construction_unwinds [of demo_seat_conf "\<lambda>r. if r = SR_monitor then fails ENOMEM else ok" _, OF refl]
  by (simp add: kmscon_seat_new_def seat_new_steps_def serr_labels)

section \<open>Closing a session\<close>

lemma sess_calls_last: "seat_calls (semit c seat) = seat_calls seat @ [c]"
  by (simp add: semit_def)



section \<open>Blanking\<close>

lemma activation_keeps [simp]:
  "seat_displays (activate_sess e cf i seat) = seat_displays seat"
  "seat_displays (deactivate_sess cf i seat) = seat_displays seat"
  "seat_calls (activate_sess e cf i seat) = seat_calls seat"
  "seat_calls (deactivate_sess cf i seat) = seat_calls seat"
  "dpms_timer (activate_sess e cf i seat) = dpms_timer seat"
  "dpms_timer (deactivate_sess cf i seat) = dpms_timer seat"
  by (simp_all add: activate_sess_def deactivate_sess_def on_sess_def split: option.split)

lemma deactivated_sleeps:
  assumes "s \<in> set (sessions (deactivate_sess cf c seat))" "c = Some (s_id s)"
  shows "\<not> t_awake (s_term s)"
proof -
  define i where "i = s_id s"
  have "s \<in> (\<lambda>s. if s_id s = i then upd_term (\<lambda>s. terminal_deactivate (sc_term cf)) s else s) ` set (sessions seat)"
    using assms by (simp add: deactivate_sess_def on_sess_def i_def)
  then obtain x where x: "s = (if s_id x = i then upd_term (\<lambda>s. terminal_deactivate (sc_term cf)) x else x)"
    by (rule imageE)
  show ?thesis
  proof (cases "s_id x = i")
    case False
    then have "s = x" using x by simp
    with False show ?thesis by (simp add: i_def)
  qed (simp add: x)
qed

text \<open>
  When the seat has been idle it blanks every activated display and its current
  terminal goes to sleep; the first key or pointer movement afterwards turns exactly the same
  displays on again and re-arms the timer, and leaves the sessions and their order alone.
\<close>

theorem blanking_is_undone:
  assumes "sc_dpms_timeout cf \<noteq> 0" "seat_awake seat" "dpms_timer seat"
  shows "let dark = seat_dpms_timeout cf seat;
             lit = seat_dpms_reset_timer e cf dark;
             shown = map d_disp (filter d_activated (seat_displays seat))
    in dpms_blanked dark \<and> \<not> dpms_blanked lit \<and>
       list_all (\<lambda>s. current_sess seat = Some (s_id s) \<longrightarrow> \<not> t_awake (s_term s)) (sessions dark) \<and>
       seat_calls lit = seat_calls seat @ map (\<lambda>d. Set_dpms d False) shown @ map (\<lambda>d. Set_dpms d True) shown @
         [Dpms_timer_update (sc_dpms_timeout cf)] \<and>
       sess_ids lit = sess_ids seat \<and> current_sess lit = current_sess seat"
proof -
  have f: "frame (seat_dpms_reset_timer e cf (seat_dpms_timeout cf seat)) = frame seat" by simp
  have "list_all (\<lambda>s. current_sess seat = Some (s_id s) \<longrightarrow> \<not> t_awake (s_term s))
      (sessions (seat_dpms_timeout cf seat))"
    using assms deactivated_sleeps
    by (auto simp: seat_dpms_timeout_def list_all_iff set_dpms_activated_def)
  then show ?thesis
    using assms frame_eqD [OF f]
    by (simp add: Let_def seat_dpms_timeout_def seat_dpms_reset_timer_def set_dpms_activated_def comp_def)
      (simp add: semit_def)
qed

theorem blanking_is_undone_witness:
  "seat_calls (seat_dpms_reset_timer demo_seat_env demo_seat_conf (seat_dpms_timeout demo_seat_conf
     ((seat_fresh True)\<lparr>seat_awake := True, seat_displays := [\<lparr>d_disp = 7, d_activated = True\<rparr>]\<rparr>))) =
   [Set_dpms 7 False, Set_dpms 7 True, Dpms_timer_update 60]"
  using blanking_is_undone [of demo_seat_conf
    "(seat_fresh True)\<lparr>seat_awake := True, seat_displays := [\<lparr>d_disp = 7, d_activated = True\<rparr>]\<rparr>" demo_seat_env]
  by (simp add: demo_seat_conf_def seat_fresh_def Let_def)

section \<open>The limits of the promises\<close>

lemma screens_add: "t_screens t \<noteq> [] \<Longrightarrow> t_screens (snd (terminal_add_display e c d t)) \<noteq> []"
proof (cases rule: terminal_add_display_cases [of e c d t])
  case (added vt tx u)
  then have "displays (snd (terminal_add_display e c d t)) = d # displays t"
    using harmless_same [OF added(2)] harmless_same [OF added(3)]
    by (simp add: linked_def emit_def new_screen_def)
  then show ?thesis by auto
qed (simp_all add: emit_def)

lemma screens_activation:
  "t_screens (terminal_activate e c t) \<noteq> [] \<longleftrightarrow> t_screens t \<noteq> []"
  "t_screens (terminal_deactivate c t) \<noteq> [] \<longleftrightarrow> t_screens t \<noteq> []"
proof -
  have "displays (terminal_activate e c t) = displays t" "displays (terminal_deactivate c t) = displays t"
    using terminal_activate_frame(1) [of t e c] terminal_deactivate_frame(1) [of t c] by (simp_all add: keeps_def)
  then show "t_screens (terminal_activate e c t) \<noteq> [] \<longleftrightarrow> t_screens t \<noteq> []"
    "t_screens (terminal_deactivate c t) \<noteq> [] \<longleftrightarrow> t_screens t \<noteq> []"
    by (metis map_is_Nil_conv)+
qed

text \<open>The events: display 7, two sessions, the second in the background, display 8 plugged in.\<close>

definition demo_trouble :: "seat_event list" where
  "demo_trouble =
     [Se_startup, Se_vt_activate, Se_new_display 7, Se_key \<lparr>ev_mods = 4, ev_syms = [], ev_handled = False\<rparr>,
      Se_set_background 1, Se_new_display 8]"

definition demo_background :: "unit kmscon_seat" where
  "demo_background = fold (seat_dispatch demo_seat_conf demo_seat_env) demo_trouble (seat_fresh True)"

lemma seat_run_reachable:
  "list_all allowed evs \<Longrightarrow> seat_reachable allowed demo_seat_conf seat \<Longrightarrow>
     seat_reachable allowed demo_seat_conf (fold (seat_dispatch demo_seat_conf demo_seat_env) evs seat)"
  by (induction evs arbitrary: seat) (simp_all add: seat_reachable.event [OF _ _ demo_step])

text \<open>
  The restriction to runs without background sessions is needed. The seat shows
  display 7 and two sessions; the second goes to the background, and display 8 is plugged in
  meanwhile. The key for the next session then brings the seat to the foreground while the second
  session is still the current one, and \<open>activate_display\<close> wakes its terminal, which
  \<open>seat_switch\<close> had just put to sleep: afterwards both terminals are awake.
\<close>

theorem background_session_wakes:
  "seat_reachable (\<lambda>_. True) demo_seat_conf demo_background \<and>
   map (\<lambda>s. t_awake (s_term s)) (sessions (seat_next demo_seat_env demo_seat_conf demo_background)) = [True, True]"
proof
  show "seat_reachable (\<lambda>_. True) demo_seat_conf demo_background"
    unfolding demo_background_def by (rule seat_run_reachable [OF _ seat_reachable.fresh]) (simp add: demo_trouble_def)
  define e where "e = demo_env\<lparr>e_foreground := True\<rparr>"
  define u where "u = snd (terminal_add_display e demo_conf 7 demo_fresh)"
  have "fst (terminal_add_display e demo_conf 7 demo_fresh) = ok"
    by (simp add: terminal_add_display_def e_def demo_env_def demo_fresh_def terminal_fresh_def get_screen_def
          kmscon_text_set_def kmscon_text_set_identity_def text_zero_def demo_ops_def Let_def)
  from add_display_shows [OF this] have u: "t_screens u \<noteq> []" by (auto simp: u_def)
  have n: "terminal_activate e demo_conf demo_fresh = demo_fresh"
    by (simp add: terminal_activate_def demo_fresh_def terminal_fresh_def)
  show "map (\<lambda>s. t_awake (s_term s)) (sessions (seat_next demo_seat_env demo_seat_conf demo_background)) = [True, True]"
    by (simp add: demo_background_def demo_trouble_def seat_fresh_def kmscon_seat_startup_def kmscon_seat_new_session_def
          seat_vt_activate_def seat_go_awake_def seat_go_foreground_def seat_go_background_def init_videos_def
          activate_sess_def deactivate_sess_def seat_input_event_def conf_grab_matches_iff seat_switch_def
          get_sess_def kmscon_session_set_background_def seat_next_def next_sess_def first_of_def
          seat_new_display_def activate_display_def get_display_def seat_dpms_reset_timer_def on_sess_def on_all_def
          upd_term_def sess_env_def semit_def demo_seat_conf_def demo_seat_env_def e_def [symmetric] u_def [symmetric] n
          awake_activate screens_activation screens_add u)
qed

end
