(* ===== verification/Sources.thy ===== *)
theory Sources
  imports Display_Context
begin

text \<open>
  The status sources, \<open>src/faceplate_sources.c\<close>: the manifests that register them, the three
  kinds of snapshots they read, and the lines that the chrome shows.

  The outside world is a record: the user database, the directories that can be opened and the
  files in them.
\<close>

section \<open>Data\<close>

datatype source_kind = SOURCE_DATAPLICITY | SOURCE_SYSTEM | SOURCE_EVENTS

record source =
  src_kind :: source_kind
  src_path :: string
  src_user :: string
  src_uid :: nat
  src_stale_ms :: u64
  src_ready :: bool

record sources_env =
  sx_getpwnam :: "string \<Rightarrow> nat option"
  sx_euid :: nat
  sx_dir :: "string \<Rightarrow> bool"
  sx_file :: "string \<Rightarrow> string \<Rightarrow> file_io"
  sx_mem :: bool
  sx_stack :: string

section \<open>Validation\<close>

definition safe_char :: "char \<Rightarrow> bool" where
  "safe_char c \<longleftrightarrow> between CHR ''a'' CHR ''z'' c \<or> between CHR ''A'' CHR ''Z'' c \<or>
     between CHR ''0'' CHR ''9'' c \<or> c = CHR ''.'' \<or> c = CHR ''_'' \<or> c = CHR ''-'' \<or> c = CHR '':'' \<or> c = CHR ''/''"

definition safe_token :: "string \<Rightarrow> nat \<Rightarrow> bool" where
  "safe_token s limit = (if s = [] \<or> length s > limit then False else list_all safe_char s)"

text \<open>\<open>strtoull\<close> on the whole of a non-empty string, in base ten.\<close>

definition sources_parse_u64 :: "string \<Rightarrow> u64 option" where
  "sources_parse_u64 s =
     (let t = dropWhile is_space s;
          negative = (t \<noteq> [] \<and> hd t = CHR ''-'');
          t = (if t \<noteq> [] \<and> (hd t = CHR ''-'' \<or> hd t = CHR ''+'') then tl t else t);
          digits = takeWhile is_digit t;
          n = undec digits
      in if digits = [] \<or> n \<ge> 2 ^ 64 \<or> s = [] \<or> dropWhile is_digit t \<noteq> [] then None
         else Some (if negative then - of_nat n else of_nat n))"

text \<open>Reads with one call; the result is the C string in the buffer.\<close>

definition read_safe_file_at :: "file_io \<Rightarrow> nat \<Rightarrow> nat \<Rightarrow> string option" where
  "read_safe_file_at io uid cap =
     (if \<not> io_open io then None
      else (case io_stat io of
              None \<Rightarrow> None
            | Some st \<Rightarrow>
                if \<not> st_reg st \<or> st_nlink st \<noteq> 1 \<or> st_uid st \<noteq> uid \<or> and (st_mode st) 0x12 \<noteq> 0 \<or>
                   st_size st \<le> 0 \<or> st_size st \<ge> int cap then None
                else (case io_read io 0 (cap - 1) of
                        None \<Rightarrow> None
                      | Some bs \<Rightarrow> if bs = [] \<or> int (length bs) \<noteq> st_size st then None else Some (cstr bs))))"

section \<open>Manifests\<close>

definition resolve_source_user :: "sources_env \<Rightarrow> source \<Rightarrow> bool \<times> source" where
  "resolve_source_user sx source =
     (if src_ready source then (True, source)
      else (case sx_getpwnam sx (src_user source) of
              None \<Rightarrow> (False, source)
            | Some uid \<Rightarrow> (True, source\<lparr>src_uid := uid, src_ready := True\<rparr>)))"

record manifest =
  mf_kind :: string
  mf_path :: string
  mf_user :: string
  mf_stale :: u64

definition manifest_line :: "string \<Rightarrow> manifest \<Rightarrow> manifest option" where
  "manifest_line line m =
     (if take 5 line = ''kind='' then Some (m\<lparr>mf_kind := strncpy 31 (drop 5 line)\<rparr>)
      else if take 5 line = ''path='' then Some (m\<lparr>mf_path := strncpy 255 (drop 5 line)\<rparr>)
      else if take 5 line = ''user='' then Some (m\<lparr>mf_user := strncpy 63 (drop 5 line)\<rparr>)
      else if take 15 line = ''stale_after_ms='' then
        (case sources_parse_u64 (drop 15 line) of
           None \<Rightarrow> None
         | Some stale \<Rightarrow> Some (m\<lparr>mf_stale := stale\<rparr>))
      else if line \<noteq> [] \<and> hd line \<noteq> CHR ''#'' then None
      else Some m)"

fun manifest_lines :: "string list \<Rightarrow> manifest \<Rightarrow> manifest option" where
  "manifest_lines [] m = Some m"
| "manifest_lines (l # ls) m = (case manifest_line l m of None \<Rightarrow> None | Some m \<Rightarrow> manifest_lines ls m)"

definition source_kind_of :: "string \<Rightarrow> source_kind option" where
  "source_kind_of kind =
     (if kind = ''dataplicity'' then Some SOURCE_DATAPLICITY
      else if kind = ''system'' then Some SOURCE_SYSTEM
      else if kind = ''events'' then Some SOURCE_EVENTS
      else None)"

definition parse_manifest :: "sources_env \<Rightarrow> file_io \<Rightarrow> source option" where
  "parse_manifest sx io =
     (case read_safe_file_at io (if sx_euid sx = 0 then 0 else sx_euid sx) 1024 of
        None \<Rightarrow> None
      | Some buf \<Rightarrow>
          (case manifest_lines (strtok nl [] buf)
                  \<lparr>mf_kind = '''', mf_path = '''', mf_user = '''', mf_stale = 30000\<rparr> of
             None \<Rightarrow> None
           | Some m \<Rightarrow>
               if \<not> safe_token (mf_kind m) 24 \<or> \<not> safe_token (mf_user m) 63 \<or> take 5 (mf_path m) \<noteq> ''/run/'' \<or>
                  \<not> safe_token (mf_path m) 255 \<or> mf_stale m < 1000 \<or> mf_stale m > 3600000 then None
               else (case source_kind_of (mf_kind m) of
                       None \<Rightarrow> None
                     | Some kind \<Rightarrow>
                         let source = \<lparr>src_kind = kind, src_path = mf_path m, src_user = mf_user m, src_uid = 0,
                                       src_stale_ms = mf_stale m, src_ready = False\<rparr>
                         in Some (case sx_getpwnam sx (mf_user m) of
                                    None \<Rightarrow> source
                                  | Some uid \<Rightarrow> source\<lparr>src_uid := uid, src_ready := True\<rparr>))))"

text \<open>The loop over the directory entries, each a name and its file.\<close>

fun scan_manifests :: "sources_env \<Rightarrow> (string \<times> file_io) list \<Rightarrow> source list \<Rightarrow> source list" where
  "scan_manifests sx [] items = items"
| "scan_manifests sx ((name, io) # entries) items =
     (if length items \<ge> 16 then items
      else if length name < 8 \<or> drop (length name - 7) name \<noteq> ''.source'' then scan_manifests sx entries items
      else (case parse_manifest sx io of
              None \<Rightarrow> scan_manifests sx entries items
            | Some source \<Rightarrow> scan_manifests sx entries (items @ [source])))"

text \<open>\<open>entries\<close> is \<open>None\<close> when the directory cannot be opened.\<close>

definition faceplate_sources_new :: "sources_env \<Rightarrow> (string \<times> file_io) list option \<Rightarrow> errno + source list" where
  "faceplate_sources_new sx entries =
     (if \<not> sx_mem sx then Inl ENOMEM
      else (case entries of None \<Rightarrow> Inr [] | Some es \<Rightarrow> Inr (scan_manifests sx es [])))"

definition faceplate_sources_count :: "source list option \<Rightarrow> nat" where
  "faceplate_sources_count sources = (case sources of None \<Rightarrow> 0 | Some items \<Rightarrow> length items)"

definition faceplate_sources_ready_count :: "source list option \<Rightarrow> nat" where
  "faceplate_sources_ready_count sources =
     (case sources of None \<Rightarrow> 0
      | Some items \<Rightarrow> fold (\<lambda>s ready. if src_ready s then ready + 1 else ready) items 0)"

definition faceplate_sources_rebind_user :: "source list \<Rightarrow> nat \<Rightarrow> string \<Rightarrow> errno + source list" where
  "faceplate_sources_rebind_user items index user =
     (if index \<ge> length items \<or> \<not> safe_token user 63 then Inl EINVAL
      else Inr (items[index := (items ! index)\<lparr>src_user := strncpy 63 user, src_uid := 0, src_ready := False\<rparr>]))"

section \<open>Refreshing\<close>

definition refresh_dataplicity :: "sources_env \<Rightarrow> source \<Rightarrow> u64 \<Rightarrow> faceplate_display_context \<Rightarrow>
    faceplate_display_context" where
  "refresh_dataplicity sx source now ctx =
     (if ctx_connection_label ctx \<noteq> '''' then ctx
      else (case rcut CHR ''/'' (strncpy 255 (src_path source)) of
              None \<Rightarrow> ctx
            | Some (dir, file) \<Rightarrow>
                if file \<noteq> ''faceplate.status'' \<or> \<not> sx_dir sx dir then ctx
                else
                  let snapshot = faceplate_status_read_at True (src_uid source) now (src_stale_ms source)
                                   (sx_file sx dir file)
                  in if ss_visibility snapshot = HIDDEN then ctx
                     else
                       let ctx = ctx\<lparr>ctx_connection := ss_connection snapshot\<rparr>;
                           ctx = (case ss_connection snapshot of
                                    CONNECTED \<Rightarrow> ctx\<lparr>ctx_connection_label := ''Online'', ctx_connection_alert := False\<rparr>
                                  | DISCONNECTED \<Rightarrow> ctx\<lparr>ctx_connection_label := ''Offline'', ctx_connection_alert := True\<rparr>
                                  | UNKNOWN \<Rightarrow> ctx\<lparr>ctx_connection_label := ''Unknown'', ctx_connection_alert := True\<rparr>)
                       in ctx\<lparr>ctx_serial_short := snprintf 20 (take 12 (ss_serial snapshot))\<rparr>))"

record system_fields =
  sf_host :: string
  sf_os :: string
  sf_ip :: string
  sf_slot :: string
  sf_image :: string
  sf_boot :: string
  sf_channel :: string
  sf_updated :: u64
  sf_uptime :: u64

definition system_line :: "string \<Rightarrow> system_fields \<Rightarrow> system_fields option" where
  "system_line line f =
     (case cut CHR ''='' line of
        None \<Rightarrow> None
      | Some (key, v) \<Rightarrow>
          if \<not> safe_token v 63 then None
          else if key = ''updated_boottime_ms'' then
            map_option (\<lambda>n. f\<lparr>sf_updated := n\<rparr>) (sources_parse_u64 v)
          else if key = ''uptime_seconds'' then
            map_option (\<lambda>n. f\<lparr>sf_uptime := n\<rparr>) (sources_parse_u64 v)
          else if key = ''hostname'' then Some (f\<lparr>sf_host := strncpy 63 v\<rparr>)
          else if key = ''os_image'' then Some (f\<lparr>sf_os := strncpy 63 v\<rparr>)
          else if key = ''primary_ip'' then Some (f\<lparr>sf_ip := strncpy 47 v\<rparr>)
          else if key = ''build_channel'' then Some (f\<lparr>sf_channel := strncpy 23 v\<rparr>)
          else if key = ''rauc_slot'' then Some (f\<lparr>sf_slot := strncpy 31 v\<rparr>)
          else if key = ''rauc_image'' then Some (f\<lparr>sf_image := strncpy 63 v\<rparr>)
          else if key = ''rauc_boot'' then Some (f\<lparr>sf_boot := strncpy 23 v\<rparr>)
          else if key \<noteq> ''clock_synced'' then None
          else Some f)"

fun system_lines :: "string list \<Rightarrow> system_fields \<Rightarrow> system_fields option" where
  "system_lines [] f = Some f"
| "system_lines (l # ls) f = (case system_line l f of None \<Rightarrow> None | Some f \<Rightarrow> system_lines ls f)"

definition no_fields :: system_fields where
  "no_fields = \<lparr>sf_host = '''', sf_os = '''', sf_ip = '''', sf_slot = '''', sf_image = '''', sf_boot = '''',
     sf_channel = '''', sf_updated = 0, sf_uptime = 0\<rparr>"

definition rauc_boot_is_healthy :: "string \<Rightarrow> bool" where
  "rauc_boot_is_healthy boot \<longleftrightarrow> boot = ''good'' \<or> boot = ''ok''"

definition parse_system :: "string \<Rightarrow> system_fields option" where
  "parse_system buf =
     (case strtok nl [] buf of
        [] \<Rightarrow> None
      | line # lines \<Rightarrow> if line \<noteq> ''FACEPLATE_SYSTEM_V1'' then None else system_lines lines no_fields)"

definition show_system :: "system_fields \<Rightarrow> faceplate_display_context \<Rightarrow> faceplate_display_context" where
  "show_system f ctx =
     ctx\<lparr>ctx_hostname := snprintf 64 (sf_host f), ctx_ip := snprintf 48 (sf_ip f),
         ctx_image := snprintf 64 (if sf_os f \<noteq> '''' then sf_os f else if sf_image f \<noteq> '''' then sf_image f else ''''),
         ctx_build_channel := snprintf 24 (sf_channel f),
         ctx_uptime_label := snprintf 32 (''Uptime '' @ dec (unat (sf_uptime f)) @ ''s''),
         ctx_rauc_slot := snprintf 32 (sf_slot f), ctx_rauc_boot := snprintf 24 (sf_boot f),
         ctx_rauc_unhealthy := sf_slot f \<noteq> '''' \<and> sf_boot f \<noteq> '''' \<and> \<not> rauc_boot_is_healthy (sf_boot f)\<rparr>"

text \<open>
  The name is copied with at most 63 characters into an array of 64 that is not cleared: a name that
  fills them runs on into whatever the stack holds behind them, \<open>sx_stack\<close>.
\<close>

definition copied_name :: "sources_env \<Rightarrow> string \<Rightarrow> string" where
  "copied_name sx file = (if length file < 63 then file else take 63 file @ cstr (sx_stack sx))"

definition refresh_system :: "sources_env \<Rightarrow> source \<Rightarrow> u64 \<Rightarrow> faceplate_display_context \<Rightarrow>
    faceplate_display_context" where
  "refresh_system sx source now ctx =
     (if ctx_hostname ctx \<noteq> '''' \<or> ctx_ip ctx \<noteq> '''' \<or> ctx_image ctx \<noteq> '''' then ctx
      else (case rcut CHR ''/'' (strncpy 255 (src_path source)) of
              None \<Rightarrow> ctx
            | Some (dir, file) \<Rightarrow>
                if \<not> sx_dir sx dir then ctx
                else (case read_safe_file_at (sx_file sx dir (copied_name sx file)) (src_uid source) 2048 of
                        None \<Rightarrow> ctx
                      | Some buf \<Rightarrow>
                          (case parse_system buf of
                             None \<Rightarrow> ctx
                           | Some f \<Rightarrow>
                               if sf_updated f = 0 \<or> sf_updated f > now \<or> now - sf_updated f > src_stale_ms source
                               then ctx else show_system f ctx))))"

definition refresh_events :: "sources_env \<Rightarrow> source \<Rightarrow> u64 \<Rightarrow> faceplate_display_context \<Rightarrow>
    faceplate_display_context" where
  "refresh_events sx source now ctx =
     (if ctx_events_valid ctx then ctx
      else (case rcut CHR ''/'' (strncpy 255 (src_path source)) of
              None \<Rightarrow> ctx
            | Some (dir, file) \<Rightarrow>
                if file \<noteq> ''faceplate.events'' \<or> \<not> sx_dir sx dir then ctx
                else
                  let snapshot = faceplate_events_read_at True (src_uid source) now (src_stale_ms source) (sx_mem sx)
                                   (sx_file sx dir (strncpy 63 file))
                  in if es_visibility snapshot = HIDDEN then ctx
                     else ctx\<lparr>ctx_events_valid := True, ctx_console_locked := es_console_locked snapshot,
                              ctx_events := snapshot\<rparr>))"

section \<open>The lines of the chrome\<close>

text \<open>
  A line under construction: the text in the buffer and \<open>used\<close>, which counts what \<open>snprintf\<close>
  would have written.
\<close>

definition append_sep :: "nat \<Rightarrow> string \<Rightarrow> string \<Rightarrow> string \<times> nat \<Rightarrow> string \<times> nat" where
  "append_sep cap sep piece = (\<lambda>(out, used).
     if piece = [] \<or> used \<ge> cap then (out, used)
     else
       let add = (if used \<noteq> 0 then sep @ piece else piece)
       in (take used out @ snprintf (cap - used) add, used + length add))"

definition line_sep :: string where
  "line_sep = '' | ''"

text \<open>The line made of the pieces in order; an empty piece is left out.\<close>

definition join_line :: "string list \<Rightarrow> string" where
  "join_line pieces = fst (fold (append_sep 160 line_sep) pieces ('''', 0))"

definition ip_piece :: "faceplate_display_context \<Rightarrow> string" where
  "ip_piece ctx = (if ctx_ip ctx \<noteq> '''' then snprintf 64 (''IP '' @ ctx_ip ctx) else '''')"

definition os_piece :: "faceplate_display_context \<Rightarrow> string" where
  "os_piece ctx = (if ctx_image ctx \<noteq> '''' then snprintf 80 (''OS '' @ ctx_image ctx) else '''')"

definition debug_piece :: "faceplate_display_context \<Rightarrow> string" where
  "debug_piece ctx =
     (if ctx_build_channel ctx = ''debug'' then snprintf 40 ''DEBUG BUILD - NOT FOR PRODUCTION'' else '''')"

definition rauc_piece :: "faceplate_display_context \<Rightarrow> string" where
  "rauc_piece ctx =
     (if ctx_rauc_unhealthy ctx
      then snprintf 80 (''RAUC '' @ (if ctx_rauc_slot ctx \<noteq> '''' then ctx_rauc_slot ctx else ''?'') @ '' '' @
             (if ctx_rauc_boot ctx \<noteq> '''' then ctx_rauc_boot ctx else ''bad''))
      else '''')"

definition serial_piece :: "faceplate_display_context \<Rightarrow> string" where
  "serial_piece ctx =
     (if ctx_serial_short ctx \<noteq> '''' then snprintf 40 (''Serial '' @ ctx_serial_short ctx) else '''')"

definition supporting_pieces :: "faceplate_display_context \<Rightarrow> string list" where
  "supporting_pieces ctx = [debug_piece ctx, ip_piece ctx, os_piece ctx]"

definition compact_pieces :: "faceplate_display_context \<Rightarrow> string list" where
  "compact_pieces ctx = [ctx_connection_label ctx, debug_piece ctx, ip_piece ctx] @
     (if ctx_rauc_unhealthy ctx then [rauc_piece ctx] else [])"

definition secondary_pieces :: "faceplate_display_context \<Rightarrow> string list" where
  "secondary_pieces ctx = (if ctx_rauc_unhealthy ctx then [rauc_piece ctx] else []) @
     [ctx_uptime_label ctx, serial_piece ctx]"

definition format_display_lines :: "faceplate_display_context \<Rightarrow> faceplate_display_context" where
  "format_display_lines ctx =
     ctx\<lparr>ctx_supporting_line := join_line (supporting_pieces ctx),
         ctx_compact_line := join_line (compact_pieces ctx),
         ctx_secondary_line := join_line (secondary_pieces ctx)\<rparr>"

section \<open>All sources\<close>

definition refresh_source :: "sources_env \<Rightarrow> source \<Rightarrow> u64 \<Rightarrow> faceplate_display_context \<Rightarrow>
    faceplate_display_context" where
  "refresh_source sx source now ctx =
     (case src_kind source of
        SOURCE_DATAPLICITY \<Rightarrow> refresh_dataplicity sx source now ctx
      | SOURCE_SYSTEM \<Rightarrow> refresh_system sx source now ctx
      | SOURCE_EVENTS \<Rightarrow> refresh_events sx source now ctx)"

text \<open>The loop resolves the users as it goes; the sources come back with what it found.\<close>

fun refresh_all :: "sources_env \<Rightarrow> u64 \<Rightarrow> source list \<Rightarrow> faceplate_display_context \<Rightarrow>
    source list \<times> faceplate_display_context" where
  "refresh_all sx now [] ctx = ([], ctx)"
| "refresh_all sx now (source # rest) ctx =
     (let (resolved, source) = resolve_source_user sx source;
          ctx = (if resolved then refresh_source sx source now ctx else ctx);
          (rest, ctx) = refresh_all sx now rest ctx
      in (source # rest, ctx))"

definition faceplate_sources_refresh :: "sources_env \<Rightarrow> source list option \<Rightarrow> u64 \<Rightarrow>
    source list option \<times> faceplate_display_context" where
  "faceplate_sources_refresh sx sources now =
     (let context = zero_context\<lparr>ctx_connection := UNKNOWN\<rparr>
      in case sources of
           None \<Rightarrow> (None, context)
         | Some items \<Rightarrow>
             let (items, context) = refresh_all sx now items context
             in (Some items, format_display_lines context))"

end
