(* ===== verification/Sources_Spec.thy ===== *)
theory Sources_Spec
  imports Sources Terminal_Login "HOL-Library.Sublist"
begin

text \<open>
  What the status sources guarantee, alone and together with the terminal that shows them: the
  lines of the chrome are never cut, the first readable snapshot of a kind wins, and the console
  is locked exactly when the first readable event snapshot asks for it.
\<close>

section \<open>The lines are never cut\<close>

text \<open>The reference: the non-empty pieces with a separator between them.\<close>

fun joined :: "string \<Rightarrow> string list \<Rightarrow> string" where
  "joined sep [] = ''''"
| "joined sep [p] = p"
| "joined sep (p # q # ps) = p @ sep @ joined sep (q # ps)"

definition total :: "string \<Rightarrow> string list \<Rightarrow> nat" where
  "total sep ps = sum_list (map (\<lambda>p. length sep + length p) ps)"

lemma total_simps [simp]: "total sep [] = 0" "total sep (p # ps) = length sep + length p + total sep ps"
  by (simp_all add: total_def)

lemma joined_Cons: "ps \<noteq> [] \<Longrightarrow> joined sep (p # ps) = p @ sep @ joined sep ps"
  by (cases ps) auto

lemma append_sep_more:
  "out \<noteq> [] \<Longrightarrow> length out + total sep ps < cap \<Longrightarrow>
     fold (append_sep cap sep) ps (out, length out) =
       (let r = joined sep (out # filter (\<lambda>p. p \<noteq> []) ps) in (r, length r))"
proof (induction ps arbitrary: out)
  case (Cons p ps)
  show ?case
  proof (cases "p = []")
    case True
    then show ?thesis using Cons.IH [of out] Cons.prems by (simp add: append_sep_def)
  next
    case False
    have s: "append_sep cap sep p (out, length out) = (out @ sep @ p, length (out @ sep @ p))"
      using False Cons.prems by (simp add: append_sep_def snprintf_id)
    have "joined sep ((out @ sep @ p) # qs) = joined sep (out # p # qs)" for qs
      by (cases qs) simp_all
    then show ?thesis
      using Cons.IH [of "out @ sep @ p"] Cons.prems False s by (simp add: Let_def)
  qed
qed simp

lemma join_line_joined:
  "total line_sep ps < 160 + 3 \<Longrightarrow> join_line ps = joined line_sep (filter (\<lambda>p. p \<noteq> []) ps)"
proof (induction ps)
  case Nil
  then show ?case by (simp add: join_line_def)
next
  case (Cons p ps)
  show ?case
  proof (cases "p = []")
    case True
    then show ?thesis using Cons by (simp add: join_line_def append_sep_def)
  next
    case False
    then have "append_sep 160 line_sep p ([], 0) = (p, length p)"
      using Cons.prems by (simp add: append_sep_def snprintf_id line_sep_def)
    moreover have "length p + total line_sep ps < 160" using Cons.prems by (simp add: line_sep_def)
    ultimately show ?thesis
      using append_sep_more [of p line_sep ps 160] False by (simp add: join_line_def Let_def)
  qed
qed

lemma length_joined: "ps \<noteq> [] \<Longrightarrow> length (joined sep ps) + length sep = total sep ps"
  by (induction sep ps rule: joined.induct) auto

lemma total_filter: "total sep (filter P ps) \<le> total sep ps"
  by (induction ps) auto

text \<open>The fields stay within the arrays of the structure.\<close>

definition ctx_bounds :: "faceplate_display_context \<Rightarrow> bool" where
  "ctx_bounds ctx \<longleftrightarrow> length (ctx_hostname ctx) \<le> 63 \<and> length (ctx_ip ctx) \<le> 47 \<and> length (ctx_image ctx) \<le> 63 \<and>
     length (ctx_build_channel ctx) \<le> 23 \<and> length (ctx_connection_label ctx) \<le> 7 \<and>
     length (ctx_serial_short ctx) \<le> 12 \<and> length (ctx_uptime_label ctx) \<le> 28 \<and>
     length (ctx_rauc_slot ctx) \<le> 31 \<and> length (ctx_rauc_boot ctx) \<le> 23"

lemma length_snprintf_le: "length (snprintf (Suc n) s) \<le> n"
  by (simp add: snprintf_def)

lemma ctx_bounds_fields [simp]:
  "ctx_bounds (ctx\<lparr>ctx_connection := c\<rparr>) = ctx_bounds ctx"
  "ctx_bounds (ctx\<lparr>ctx_connection_alert := b\<rparr>) = ctx_bounds ctx"
  "ctx_bounds (ctx\<lparr>ctx_events_valid := b\<rparr>) = ctx_bounds ctx"
  "ctx_bounds (ctx\<lparr>ctx_console_locked := b\<rparr>) = ctx_bounds ctx"
  "ctx_bounds (ctx\<lparr>ctx_events := es\<rparr>) = ctx_bounds ctx"
  "ctx_bounds ctx \<Longrightarrow> length l \<le> 7 \<Longrightarrow> ctx_bounds (ctx\<lparr>ctx_connection_label := l\<rparr>)"
  "ctx_bounds ctx \<Longrightarrow> length l \<le> 12 \<Longrightarrow> ctx_bounds (ctx\<lparr>ctx_serial_short := l\<rparr>)"
  by (simp_all add: ctx_bounds_def)

lemma bounds_dataplicity: "ctx_bounds ctx \<Longrightarrow> ctx_bounds (refresh_dataplicity sx s now ctx)"
proof -
  assume b: "ctx_bounds ctx"
  have "length (snprintf 20 (take 12 t)) \<le> 12" for t by (simp add: snprintf_def)
  then show ?thesis using b
    by (simp add: refresh_dataplicity_def Let_def split: option.split faceplate_connection.split)
qed

lemma length_uptime: "length (''Uptime '' @ dec (unat (n :: u64)) @ ''s'') \<le> 28"
proof -
  have "length (dec (unat n)) \<le> 20"
    using unsigned_less [of n, where ?'a = nat] by (intro length_dec) simp_all
  then show ?thesis by simp
qed

lemma bounds_show_system: "ctx_bounds ctx \<Longrightarrow> ctx_bounds (show_system f ctx)"
  using length_uptime [of "sf_uptime f"] by (simp add: show_system_def ctx_bounds_def snprintf_def)

lemma bounds_source: "ctx_bounds ctx \<Longrightarrow> ctx_bounds (refresh_source sx s now ctx)"
  by (simp add: refresh_source_def bounds_dataplicity refresh_system_def bounds_show_system refresh_events_def
        Let_def split: source_kind.split option.split)

lemma snd_refresh_all:
  "snd (refresh_all sx now (s # rest) ctx) =
     snd (refresh_all sx now rest
       (let (resolved, s) = resolve_source_user sx s in if resolved then refresh_source sx s now ctx else ctx))"
  by (simp add: Let_def split_beta)

lemma refresh_all_keeps:
  "P ctx \<Longrightarrow> (\<And>s ctx. P ctx \<Longrightarrow> P (refresh_source sx s now ctx)) \<Longrightarrow> P (snd (refresh_all sx now items ctx))"
  by (induction items arbitrary: ctx) (simp_all add: snd_refresh_all split_beta Let_def del: refresh_all.simps(2))

lemma bounds_refresh_all:
  "ctx_bounds (snd (refresh_all sx now items (zero_context\<lparr>ctx_connection := UNKNOWN\<rparr>)))"
  by (rule refresh_all_keeps) (simp_all add: bounds_source, simp add: ctx_bounds_def zero_context_def)

text \<open>The pieces as they should be.\<close>

definition whole_pieces :: "faceplate_display_context \<Rightarrow> bool" where
  "whole_pieces ctx \<longleftrightarrow>
     ip_piece ctx = (if ctx_ip ctx \<noteq> '''' then ''IP '' @ ctx_ip ctx else '''') \<and>
     os_piece ctx = (if ctx_image ctx \<noteq> '''' then ''OS '' @ ctx_image ctx else '''') \<and>
     debug_piece ctx = (if ctx_build_channel ctx = ''debug'' then ''DEBUG BUILD - NOT FOR PRODUCTION'' else '''') \<and>
     rauc_piece ctx = (if ctx_rauc_unhealthy ctx
       then ''RAUC '' @ (if ctx_rauc_slot ctx \<noteq> '''' then ctx_rauc_slot ctx else ''?'') @ '' '' @
         (if ctx_rauc_boot ctx \<noteq> '''' then ctx_rauc_boot ctx else ''bad'') else '''') \<and>
     serial_piece ctx = (if ctx_serial_short ctx \<noteq> '''' then ''Serial '' @ ctx_serial_short ctx else '''')"

lemma pieces_whole:
  assumes "ctx_bounds ctx"
  shows "whole_pieces ctx" "length (ip_piece ctx) \<le> 50" "length (os_piece ctx) \<le> 66" "length (debug_piece ctx) \<le> 32"
    "length (rauc_piece ctx) \<le> 60" "length (serial_piece ctx) \<le> 19"
  using assms
  by (simp_all add: whole_pieces_def ip_piece_def os_piece_def debug_piece_def rauc_piece_def serial_piece_def
        ctx_bounds_def snprintf_id)

lemma pieces_fit:
  assumes "ctx_bounds ctx"
  shows "total line_sep (supporting_pieces ctx) < 160 + 3" "total line_sep (compact_pieces ctx) < 160 + 3"
    "total line_sep (secondary_pieces ctx) < 160 + 3"
  using pieces_whole [OF assms] assms
  by (simp_all add: supporting_pieces_def compact_pieces_def secondary_pieces_def line_sep_def ctx_bounds_def)

lemma line_uncut:
  assumes "total line_sep ps < 160 + 3"
  shows "join_line ps = joined line_sep (filter (\<lambda>p. p \<noteq> []) ps)" "length (join_line ps) < 160"
proof -
  show j: "join_line ps = joined line_sep (filter (\<lambda>p. p \<noteq> []) ps)" by (rule join_line_joined [OF assms])
  show "length (join_line ps) < 160"
  proof (cases "filter (\<lambda>p. p \<noteq> []) ps = []")
    case False
    then show ?thesis
      using length_joined [OF False, of line_sep] total_filter [of line_sep "\<lambda>p. p \<noteq> []" ps] assms
      unfolding j by (simp add: line_sep_def)
  qed (simp add: j)
qed

text \<open>
  Property C22. No line of the chrome is ever cut, whatever the sources say: each is the non-empty
  facts in their order with \<open> | \<close> between them, every fact whole, and it fits its 160 bytes with
  the terminating zero.
\<close>

theorem chrome_lines_never_cut:
  "let ctx = snd (faceplate_sources_refresh sx (Some items) now)
   in whole_pieces ctx \<and>
      ctx_supporting_line ctx = joined '' | '' (filter (\<lambda>p. p \<noteq> '''') (supporting_pieces ctx)) \<and>
      ctx_compact_line ctx = joined '' | '' (filter (\<lambda>p. p \<noteq> '''') (compact_pieces ctx)) \<and>
      ctx_secondary_line ctx = joined '' | '' (filter (\<lambda>p. p \<noteq> '''') (secondary_pieces ctx)) \<and>
      length (ctx_supporting_line ctx) < 160 \<and> length (ctx_compact_line ctx) < 160 \<and>
      length (ctx_secondary_line ctx) < 160"
proof -
  define u where "u = snd (refresh_all sx now items (zero_context\<lparr>ctx_connection := UNKNOWN\<rparr>))"
  have r: "snd (faceplate_sources_refresh sx (Some items) now) = format_display_lines u"
    by (simp add: faceplate_sources_refresh_def u_def Let_def split_beta)
  have b: "ctx_bounds u" unfolding u_def by (rule bounds_refresh_all)
  have p: "supporting_pieces (format_display_lines u) = supporting_pieces u"
    "compact_pieces (format_display_lines u) = compact_pieces u"
    "secondary_pieces (format_display_lines u) = secondary_pieces u"
    "whole_pieces (format_display_lines u) = whole_pieces u"
    by (simp_all add: supporting_pieces_def compact_pieces_def secondary_pieces_def format_display_lines_def
          ip_piece_def os_piece_def debug_piece_def rauc_piece_def serial_piece_def whole_pieces_def)
  show ?thesis
    unfolding r Let_def p
    using line_uncut [OF pieces_fit(1) [OF b]] line_uncut [OF pieces_fit(2) [OF b]]
      line_uncut [OF pieces_fit(3) [OF b]] pieces_whole(1) [OF b]
    by (simp add: format_display_lines_def line_sep_def)
qed

section \<open>What locks the console\<close>

text \<open>The snapshot a source delivers, if it is an event source whose user is known and whose file is readable.\<close>

definition events_reading :: "sources_env \<Rightarrow> u64 \<Rightarrow> source \<Rightarrow> faceplate_events_snapshot option" where
  "events_reading sx now s =
     (let (resolved, s) = resolve_source_user sx s
      in if \<not> resolved \<or> src_kind s \<noteq> SOURCE_EVENTS then None
         else (case rcut CHR ''/'' (strncpy 255 (src_path s)) of
                 None \<Rightarrow> None
               | Some (dir, file) \<Rightarrow>
                   if file \<noteq> ''faceplate.events'' \<or> \<not> sx_dir sx dir then None
                   else
                     let sn = faceplate_events_read_at True (src_uid s) now (src_stale_ms s) (sx_mem sx)
                                (sx_file sx dir file)
                     in if es_visibility sn = HIDDEN then None else Some sn))"

fun first_some :: "('a \<Rightarrow> 'b option) \<Rightarrow> 'a list \<Rightarrow> 'b option" where
  "first_some f [] = None"
| "first_some f (x # xs) = (case f x of None \<Rightarrow> first_some f xs | Some y \<Rightarrow> Some y)"

definition events_part :: "faceplate_display_context \<Rightarrow> bool \<times> bool \<times> faceplate_events_snapshot" where
  "events_part ctx = (ctx_events_valid ctx, ctx_console_locked ctx, ctx_events ctx)"

lemma events_part_other [simp]:
  "events_part (refresh_dataplicity sx s now ctx) = events_part ctx"
  "events_part (refresh_system sx s now ctx) = events_part ctx"
  by (simp_all add: events_part_def refresh_dataplicity_def refresh_system_def show_system_def Let_def
        split: option.split faceplate_connection.split)

lemma events_fields_other [simp]:
  "ctx_events_valid (refresh_dataplicity sx s now ctx) = ctx_events_valid ctx"
  "ctx_console_locked (refresh_dataplicity sx s now ctx) = ctx_console_locked ctx"
  "ctx_events (refresh_dataplicity sx s now ctx) = ctx_events ctx"
  "ctx_events_valid (refresh_system sx s now ctx) = ctx_events_valid ctx"
  "ctx_console_locked (refresh_system sx s now ctx) = ctx_console_locked ctx"
  "ctx_events (refresh_system sx s now ctx) = ctx_events ctx"
  using events_part_other [unfolded events_part_def, of sx s now ctx] by simp_all

lemma events_part_refresh:
  "events_part (let (resolved, s) = resolve_source_user sx s in if resolved then refresh_source sx s now ctx else ctx) =
     (if ctx_events_valid ctx then events_part ctx
      else (case events_reading sx now s of
              None \<Rightarrow> events_part ctx
            | Some sn \<Rightarrow> (True, es_console_locked sn, sn)))"
proof -
  obtain r s' where r: "resolve_source_user sx s = (r, s')" by fastforce
  have f: "strncpy 63 ''faceplate.events'' = ''faceplate.events''" by (simp add: strncpy_def)
  show ?thesis
    by (cases "src_kind s'")
      (auto simp: r refresh_source_def events_reading_def refresh_events_def events_part_def f Let_def
            split: option.split)
qed

lemma events_part_refresh_all:
  "events_part (snd (refresh_all sx now items ctx)) =
     (if ctx_events_valid ctx then events_part ctx
      else (case first_some (events_reading sx now) items of
              None \<Rightarrow> events_part ctx
            | Some sn \<Rightarrow> (True, es_console_locked sn, sn)))"
proof (induction items arbitrary: ctx)
  case (Cons s items)
  let ?c = "let (resolved, s) = resolve_source_user sx s in if resolved then refresh_source sx s now ctx else ctx"
  have v: "ctx_events_valid ?c = fst (events_part ?c)" by (simp only: events_part_def fst_conv)
  show ?case
    unfolding snd_refresh_all Cons.IH v events_part_refresh
    by (simp add: events_part_def split: option.split)
qed simp

lemma events_part_sources:
  "events_part (snd (faceplate_sources_refresh sx (Some items) now)) =
     (case first_some (events_reading sx now) items of
        None \<Rightarrow> (False, False, zero_events)
      | Some sn \<Rightarrow> (True, es_console_locked sn, sn))"
proof -
  have f: "events_part (format_display_lines ctx) = events_part ctx" for ctx
    by (simp add: events_part_def format_display_lines_def)
  show ?thesis
    by (simp add: faceplate_sources_refresh_def Let_def split_beta f events_part_refresh_all)
      (simp add: events_part_def zero_context_def split: option.split)
qed

text \<open>The events of a terminal, each with the state of the world it finds.\<close>

definition events_run :: "term_conf \<Rightarrow> ('d term_env \<times> event) list \<Rightarrow> 'd kmscon_terminal \<Rightarrow> 'd kmscon_terminal" where
  "events_run cf evs t = fold (\<lambda>(e, ev). dispatch cf e ev) evs t"

text \<open>Neither the status timer nor bytes that libtsm sends of its own.\<close>

definition between_ticks :: "event \<Rightarrow> bool" where
  "between_ticks ev \<longleftrightarrow> \<not> status_timer ev \<and> (\<forall>s. ev \<noteq> Ev_write s)"

lemma locked_run:
  assumes "mode_inv t" "want_feed t" "list_all (\<lambda>(e, ev). between_ticks ev) evs"
  shows "t_feed_active (events_run cf evs t) \<and> \<not> t_opened (events_run cf evs t) \<and>
    made (\<lambda>c. \<not> user_input c) t (events_run cf evs t)"
  using assms
proof (induction evs arbitrary: t)
  case Nil
  then show ?case by (simp add: events_run_def mode_inv_def made_def)
next
  case (Cons x evs)
  obtain e ev where x: "x = (e, ev)" by fastforce
  have ev: "\<not> status_timer ev" "\<forall>s. ev \<noteq> Ev_write s"
    using Cons.prems(3) by (simp_all add: x between_ticks_def)
  let ?u = "dispatch cf e ev t"
  have "t_feed_active (events_run cf evs ?u) \<and> \<not> t_opened (events_run cf evs ?u) \<and>
      made (\<lambda>c. \<not> user_input c) ?u (events_run cf evs ?u)"
    using Cons.prems(2,3) want_feed_dispatch [OF ev(1), of cf e t]
    by (intro Cons.IH mode_inv_dispatch [OF Cons.prems(1)]) simp_all
  moreover have "made (\<lambda>c. \<not> user_input c) t ?u"
    using locked_no_user_input [OF Cons.prems(1,2) ev(2,1)] .
  ultimately show ?case
    using made_trans [of "\<lambda>c. \<not> user_input c" t ?u] by (simp add: events_run_def x)
qed

text \<open>
  Property C4. The files decide who gets the console. After the status timer has run, the terminal
  shows the feed exactly when the first event source, in the order of the manifests, that delivers
  a readable snapshot says that the console is locked, and then its login is closed; if no event
  source delivers a snapshot, because the file is missing, malformed, foreign or from the future,
  the login is not blocked. A console that is locked stays so until the status timer runs again:
  whatever happens in between, and in whatever order, the feed is on, the login is closed, and
  from the tick on no key, paste or mouse event is handed to the emulation, nothing a user does is
  written to the pty and no login is opened.
\<close>

theorem files_lock_the_console:
  assumes "list_all (\<lambda>(e, ev). between_ticks ev) evs"
  shows "let t' = status_event e cf (snd (faceplate_sources_refresh sx (Some items) now)) t;
       locked = (case first_some (events_reading sx now) items of None \<Rightarrow> False | Some sn \<Rightarrow> es_console_locked sn);
       u = events_run cf evs t'
   in (t_feed_active t' \<longleftrightarrow> locked) \<and>
      (t_opened t' \<longleftrightarrow> \<not> locked \<and> (t_opened t \<or> (t_awake t \<and> e_pty_open e = ok))) \<and>
      (locked \<longrightarrow> t_feed_active u \<and> \<not> t_opened u \<and>
         (\<exists>cs. t_calls u = t_calls t @ cs \<and> list_all (\<lambda>c. \<not> user_input c) cs))"
proof -
  let ?ctx = "snd (faceplate_sources_refresh sx (Some items) now)"
  let ?t = "status_event e cf ?ctx t"
  let ?locked = "case first_some (events_reading sx now) items of None \<Rightarrow> False | Some sn \<Rightarrow> es_console_locked sn"
  have l: "ctx_events_valid ?ctx \<and> ctx_console_locked ?ctx \<longleftrightarrow> ?locked"
    using events_part_sources [of sx items now] by (auto simp: events_part_def split: option.splits)
  have m: "mode_inv ?t" by (simp add: mode_inv_def status_event_frame)
  have "t_feed_active (events_run cf evs ?t) \<and> \<not> t_opened (events_run cf evs ?t) \<and>
      made (\<lambda>c. \<not> user_input c) t (events_run cf evs ?t)" if locked: "?locked"
  proof -
    have c: "ctx_events_valid ?ctx" "ctx_console_locked ?ctx" using l locked by blast+
    have "want_feed ?t" using c by (simp add: status_event_frame)
    then show ?thesis
      using locked_run [OF m _ assms, of cf] made_trans [OF status_event_locked [OF c, of t e cf]] by blast
  qed
  then show ?thesis
    unfolding Let_def by (simp add: status_event_frame l made_def)
qed

definition demo_sources :: sources_env where
  "demo_sources = \<lparr>sx_getpwnam = (\<lambda>u. Some 42), sx_euid = 0, sx_dir = (\<lambda>d. True),
     sx_file = (\<lambda>d f. demo_file (events_file True 1000 [demo_line])), sx_mem = True, sx_stack = []\<rparr>"

definition demo_source :: source where
  "demo_source = \<lparr>src_kind = SOURCE_EVENTS, src_path = ''/run/agent/faceplate.events'', src_user = ''agent'',
     src_uid = 0, src_stale_ms = 30000, src_ready = False\<rparr>"

lemma demo_read:
  "first_some (events_reading demo_sources 1500) [demo_source] =
     Some \<lparr>es_visibility = FRESH, es_console_locked = True, es_updated = 1000, es_count = 1,
       es_lines = [demo_line] @ replicate 11 empty_line\<rparr>"
proof -
  have "faceplate_events_read_at True 42 1500 30000 True (demo_file (events_file True 1000 [demo_line])) =
     \<lparr>es_visibility = FRESH, es_console_locked = True, es_updated = 1000, es_count = 1,
      es_lines = [demo_line] @ replicate 11 empty_line\<rparr>"
    using private_file_read [OF demo_events_private] parse_events_file [of "[demo_line]" True 1000] demo_line_full
    by (simp add: faceplate_events_read_at_def)
  moreover have "rcut CHR ''/'' ''/run/agent/faceplate.events'' = Some (''/run/agent'', ''faceplate.events'')"
    by (simp add: rcut_Some)
  ultimately show ?thesis
    by (simp add: events_reading_def demo_sources_def demo_source_def resolve_source_user_def strncpy_def)
qed

section \<open>What the feed can print\<close>

definition printable :: "char \<Rightarrow> bool" where
  "printable c \<longleftrightarrow> 32 \<le> code c \<and> code c \<le> 126"

lemma read_at_printable:
  "list_all (\<lambda>l. list_all printable (el_text l)) (es_lines (faceplate_events_read_at d uid now stale mem io))"
proof -
  have h: "list_all (\<lambda>l. list_all printable (el_text l)) (es_lines hide_events)"
    by (simp add: hide_events_def empty_line_def list_all_length)
  have p: "list_all (\<lambda>l. list_all printable (el_text l)) (es_lines sn)"
    if "parse_events mem bytes hide_events = Some sn" for bytes sn
    using parse_events_Some [OF that] char_bounds(1)
    by (force simp: list_all_iff line_ok_def printable_def)
  show ?thesis
    using h p by (simp add: faceplate_events_read_at_def split: option.split)
qed

lemma first_some_Some: "first_some f xs = Some y \<Longrightarrow> \<exists>x\<in>set xs. f x = Some y"
  by (induction xs) (auto split: option.splits)

lemma reading_printable:
  "events_reading sx now s = Some sn \<Longrightarrow> list_all (\<lambda>l. list_all printable (el_text l)) (es_lines sn)"
  by (auto simp: events_reading_def Let_def read_at_printable split: prod.splits if_splits option.splits)

text \<open>
  Property C11. A publisher cannot steer the terminal: whatever is in the event file, every string
  that the feed hands to the terminal emulation is a run of printable characters followed by a
  carriage return and a line feed, so no escape sequence and no control character gets through.
\<close>

theorem feed_cannot_steer_terminal:
  "list_all (\<lambda>s. \<exists>shown. s = shown @ [CHR 0x0D, CHR 0x0A] \<and> list_all printable shown)
     (feed_inputs w h (ctx_events_lines (snd (faceplate_sources_refresh sx (Some items) now))))"
proof -
  let ?ctx = "snd (faceplate_sources_refresh sx (Some items) now)"
  have e: "ctx_events ?ctx = snd (snd (events_part ?ctx))" by (simp add: events_part_def)
  have "list_all (\<lambda>l. list_all printable (el_text l)) (es_lines (ctx_events ?ctx))"
    unfolding e events_part_sources
    using first_some_Some [of "events_reading sx now" items] reading_printable [of sx now]
    by (auto simp: zero_events_def empty_line_def list_all_length split: option.split)
  then have l: "list_all (list_all printable) (ctx_events_lines ?ctx)"
    by (auto simp: ctx_events_lines_def list_all_iff dest: in_set_takeD)
  have w: "list_all printable ''Waiting for device activity...''" by (simp add: printable_def code_def)
  have f: "\<exists>shown. feed_line n t = shown @ [CHR 0x0D, CHR 0x0A] \<and> list_all printable shown"
    if "list_all printable t" for n t
    using that by (auto simp: feed_line_def Let_def list_all_iff dest: in_set_takeD)
  have d: "list_all (list_all printable) (drop k ls)" if "list_all (list_all printable) ls" for k ls
    using that by (auto simp: list_all_iff dest: in_set_dropD)
  show ?thesis
    using w f d [OF l] by (auto simp: feed_inputs_def feed_waiting_def Let_def list_all_iff)
qed

text \<open>A key is pressed and the third button, which pastes, is clicked while the file says locked.\<close>

definition demo_typing :: "event list" where
  "demo_typing = [Ev_key \<lparr>ev_mods = 0, ev_syms = [65], ev_handled = False\<rparr>,
     Ev_pointer \<lparr>pe_event = POINTER_BUTTON, pe_x = 0, pe_y = 0, pe_wheel = 0, pe_button = 2, pe_pressed = True,
       pe_double_click = False\<rparr>, Ev_activate]"

theorem files_lock_the_console_witness:
  "\<forall>e cf t.
     let u = events_run cf (map (Pair e) demo_typing)
               (status_event e cf (snd (faceplate_sources_refresh demo_sources (Some [demo_source]) 1500)) t)
     in t_feed_active u \<and> \<not> t_opened u \<and>
        (\<exists>cs. t_calls u = t_calls t @ cs \<and> list_all (\<lambda>c. \<not> user_input c) cs)"
proof (intro allI)
  fix e :: "'a term_env" and cf t
  have "list_all (\<lambda>(e, ev). between_ticks ev) (map (Pair e) demo_typing)"
    by (simp add: demo_typing_def between_ticks_def status_timer_def)
  from files_lock_the_console [OF this, of e cf demo_sources "[demo_source]" 1500 t] demo_read
  show "let u = events_run cf (map (Pair e) demo_typing)
          (status_event e cf (snd (faceplate_sources_refresh demo_sources (Some [demo_source]) 1500)) t)
        in t_feed_active u \<and> \<not> t_opened u \<and>
           (\<exists>cs. t_calls u = t_calls t @ cs \<and> list_all (\<lambda>c. \<not> user_input c) cs)"
    by (simp add: Let_def)
qed

section \<open>Manifests\<close>

definition source_ok :: "sources_env \<Rightarrow> source \<Rightarrow> bool" where
  "source_ok sx s \<longleftrightarrow> take 5 (src_path s) = ''/run/'' \<and> length (src_path s) \<le> 255 \<and> list_all safe_char (src_path s) \<and>
     src_user s \<noteq> '''' \<and> length (src_user s) \<le> 63 \<and> list_all safe_char (src_user s) \<and>
     1000 \<le> src_stale_ms s \<and> src_stale_ms s \<le> 3600000 \<and>
     (case sx_getpwnam sx (src_user s) of
        None \<Rightarrow> \<not> src_ready s | Some uid \<Rightarrow> src_ready s \<and> src_uid s = uid)"

lemma safe_token_iff: "safe_token v n \<longleftrightarrow> v \<noteq> [] \<and> length v \<le> n \<and> list_all safe_char v"
  by (auto simp: safe_token_def)

lemma parse_manifest_ok: "parse_manifest sx io = Some s \<Longrightarrow> source_ok sx s"
  by (auto simp: parse_manifest_def source_ok_def Let_def safe_token_iff not_less
        split: option.splits if_splits)

text \<open>Only a regular file of the process's own user that nobody else can write is a manifest.\<close>

definition manifest_file_ok :: "sources_env \<Rightarrow> file_io \<Rightarrow> bool" where
  "manifest_file_ok sx io \<longleftrightarrow>
     (case io_stat io of None \<Rightarrow> False | Some st \<Rightarrow>
        st_reg st \<and> st_nlink st = 1 \<and> st_uid st = sx_euid sx \<and> and (st_mode st) 0x12 = 0 \<and> st_size st < 1024)"

lemma parse_manifest_file: "parse_manifest sx io = Some s \<Longrightarrow> manifest_file_ok sx io"
  by (auto simp: parse_manifest_def read_safe_file_at_def manifest_file_ok_def split: option.splits if_splits)

text \<open>What a manifest says: the value of the last line that starts with the key.\<close>

definition declared :: "string \<Rightarrow> string list \<Rightarrow> string option" where
  "declared key ls =
     (case filter (\<lambda>l. take (length key) l = key) ls of
        [] \<Rightarrow> None
      | ds \<Rightarrow> Some (drop (length key) (last ds)))"

lemma declared_simps [simp]:
  "declared key [] = None"
  "declared key (l # ls) =
     (case declared key ls of
        None \<Rightarrow> if take (length key) l = key then Some (drop (length key) l) else None
      | Some v \<Rightarrow> Some v)"
  by (simp_all add: declared_def split: list.split)

text \<open>The fields of a manifest are what its lines say, cut to the buffers.\<close>

lemma manifest_lines_declared:
  assumes "manifest_lines ls m = Some m'"
  shows "mf_kind m' = (case declared ''kind='' ls of None \<Rightarrow> mf_kind m | Some v \<Rightarrow> take 31 v) \<and>
    mf_path m' = (case declared ''path='' ls of None \<Rightarrow> mf_path m | Some v \<Rightarrow> take 255 v) \<and>
    mf_user m' = (case declared ''user='' ls of None \<Rightarrow> mf_user m | Some v \<Rightarrow> take 63 v) \<and>
    Some (mf_stale m') = (case declared ''stale_after_ms='' ls of None \<Rightarrow> Some (mf_stale m) | Some v \<Rightarrow> sources_parse_u64 v)"
  using assms
proof (induction ls arbitrary: m)
  case (Cons l ls)
  obtain m1 where m1: "manifest_line l m = Some m1" "manifest_lines ls m1 = Some m'"
    using Cons.prems by (auto split: option.splits)
  have "take 15 l = ''stale_after_ms='' \<Longrightarrow> take 5 l = ''stale''"
    by (drule arg_cong [where f = "take 5"]) (simp add: min_def)
  then have k: "take 5 l \<in> {''kind='', ''path='', ''user=''} \<Longrightarrow> take 15 l \<noteq> ''stale_after_ms=''"
    by auto
  have f: "mf_kind m1 = (if take 5 l = ''kind='' then take 31 (drop 5 l) else mf_kind m)"
    "mf_path m1 = (if take 5 l = ''path='' then take 255 (drop 5 l) else mf_path m)"
    "mf_user m1 = (if take 5 l = ''user='' then take 63 (drop 5 l) else mf_user m)"
    "Some (mf_stale m1) = (if take 15 l = ''stale_after_ms='' then sources_parse_u64 (drop 15 l) else Some (mf_stale m))"
    using m1(1) k by (auto simp: manifest_line_def strncpy_def split: if_splits option.splits)
  have n: "length ''kind='' = 5" "length ''path='' = 5" "length ''user='' = 5" "length ''stale_after_ms='' = 15"
    by simp_all
  note d = declared_simps(2) [of "''kind=''", unfolded n] declared_simps(2) [of "''path=''", unfolded n]
    declared_simps(2) [of "''user=''", unfolded n] declared_simps(2) [of "''stale_after_ms=''", unfolded n]
  show ?case
    unfolding d using Cons.IH [OF m1(2), unfolded f] by (simp del: declared_simps split: option.split)
qed simp

text \<open>
  The manifest \<open>io\<close> makes the source \<open>s\<close>: it is the file that is trusted, its own text
  that names the kind, the path, the user and the age limit.
\<close>

definition made_by :: "sources_env \<Rightarrow> file_io \<Rightarrow> source \<Rightarrow> bool" where
  "made_by sx io s \<longleftrightarrow> manifest_file_ok sx io \<and> source_ok sx s \<and>
     (\<exists>buf. read_safe_file_at io (sx_euid sx) 1024 = Some buf \<and>
        (let ls = strtok nl [] buf
         in (\<exists>k. declared ''kind='' ls = Some k \<and> source_kind_of k = Some (src_kind s)) \<and>
            (\<exists>p. declared ''path='' ls = Some p \<and> src_path s = take 255 p) \<and>
            (\<exists>u. declared ''user='' ls = Some u \<and> src_user s = take 63 u) \<and>
            (case declared ''stale_after_ms='' ls of
               None \<Rightarrow> src_stale_ms s = 30000
             | Some v \<Rightarrow> sources_parse_u64 v = Some (src_stale_ms s))))"

lemma source_kind_cut: "source_kind_of (take 31 k) = Some kind \<Longrightarrow> source_kind_of k = Some kind"
proof -
  assume a: "source_kind_of (take 31 k) = Some kind"
  then have "length (take 31 k) < 31" by (auto simp: source_kind_of_def simp del: length_take split: if_splits)
  then show ?thesis using a by simp
qed

lemma parse_manifest_made:
  assumes "parse_manifest sx io = Some s"
  shows "made_by sx io s"
proof -
  let ?m = "\<lparr>mf_kind = '''', mf_path = '''', mf_user = '''', mf_stale = 30000\<rparr>"
  obtain buf where r: "read_safe_file_at io (sx_euid sx) 1024 = Some buf"
    using assms by (cases "read_safe_file_at io (sx_euid sx) 1024") (simp_all add: parse_manifest_def)
  obtain m where l: "manifest_lines (strtok nl [] buf) ?m = Some m"
    using assms r by (cases "manifest_lines (strtok nl [] buf) ?m") (simp_all add: parse_manifest_def)
  let ?bad = "\<not> safe_token (mf_kind m) 24 \<or> \<not> safe_token (mf_user m) 63 \<or> take 5 (mf_path m) \<noteq> ''/run/'' \<or>
    \<not> safe_token (mf_path m) 255 \<or> mf_stale m < 1000 \<or> mf_stale m > 3600000"
  have u: "(if sx_euid sx = 0 then 0 else sx_euid sx) = sx_euid sx" by simp
  have p: "parse_manifest sx io = (if ?bad then None
      else (case source_kind_of (mf_kind m) of None \<Rightarrow> None
            | Some kind \<Rightarrow>
                let source = \<lparr>src_kind = kind, src_path = mf_path m, src_user = mf_user m, src_uid = 0,
                              src_stale_ms = mf_stale m, src_ready = False\<rparr>
                in Some (case sx_getpwnam sx (mf_user m) of None \<Rightarrow> source
                         | Some uid \<Rightarrow> source\<lparr>src_uid := uid, src_ready := True\<rparr>)))"
    unfolding parse_manifest_def u r l option.case by (rule refl)
  have ok: "\<not> ?bad"
    using assms unfolding p by (cases ?bad) simp_all
  then have ne: "mf_path m \<noteq> []" "mf_user m \<noteq> []" "mf_kind m \<noteq> []"
    unfolding safe_token_iff by blast+
  obtain kind where k: "source_kind_of (mf_kind m) = Some kind"
    using assms unfolding p if_not_P [OF ok] by (cases "source_kind_of (mf_kind m)") simp_all
  let ?s = "\<lparr>src_kind = kind, src_path = mf_path m, src_user = mf_user m, src_uid = 0,
                src_stale_ms = mf_stale m, src_ready = False\<rparr>"
  have "Some (case sx_getpwnam sx (mf_user m) of None \<Rightarrow> ?s | Some uid \<Rightarrow> ?s\<lparr>src_uid := uid, src_ready := True\<rparr>) = Some s"
    using assms unfolding p if_not_P [OF ok] k Let_def option.case .
  then have s: "s = (case sx_getpwnam sx (mf_user m) of None \<Rightarrow> ?s | Some uid \<Rightarrow> ?s\<lparr>src_uid := uid, src_ready := True\<rparr>)"
    by (rule option.inject [THEN iffD1, symmetric])
  have t: "source_kind_of (mf_kind m) = Some (src_kind s)" "src_path s = mf_path m" "src_user s = mf_user m"
      "src_stale_ms s = mf_stale m"
    by (simp_all add: s k split: option.split)
  let ?ls = "strtok nl [] buf"
  note d = manifest_lines_declared [OF l]
  obtain k' where k': "declared ''kind='' ?ls = Some k'"
    using d ne by (cases "declared ''kind='' ?ls") simp_all
  then have "source_kind_of k' = Some (src_kind s)"
    using d t(1) by (simp add: source_kind_cut [of k'])
  with k' have "\<exists>k. declared ''kind='' ?ls = Some k \<and> source_kind_of k = Some (src_kind s)"
    by blast
  moreover have "\<exists>p. declared ''path='' ?ls = Some p \<and> src_path s = take 255 p"
    using d t(2) ne by (cases "declared ''path='' ?ls") simp_all
  moreover have "\<exists>u. declared ''user='' ?ls = Some u \<and> src_user s = take 63 u"
    using d t(3) ne by (cases "declared ''user='' ?ls") simp_all
  moreover have "case declared ''stale_after_ms='' ?ls of None \<Rightarrow> src_stale_ms s = 30000
      | Some v \<Rightarrow> sources_parse_u64 v = Some (src_stale_ms s)"
    using d t(4) by (cases "declared ''stale_after_ms='' ?ls") simp_all
  ultimately show ?thesis
    unfolding made_by_def Let_def using parse_manifest_ok [OF assms] parse_manifest_file [OF assms] r by blast
qed

definition registers :: "sources_env \<Rightarrow> string \<times> file_io \<Rightarrow> source \<Rightarrow> bool" where
  "registers sx entry s \<longleftrightarrow> (case entry of (name, io) \<Rightarrow>
     8 \<le> length name \<and> drop (length name - 7) name = ''.source'' \<and> made_by sx io s)"

lemma scan_manifests_made:
  "length items \<le> 16 \<Longrightarrow>
     \<exists>ms new. scan_manifests sx es items = items @ new \<and> length (items @ new) \<le> 16 \<and> subseq ms es \<and>
       list_all2 (registers sx) ms new"
proof (induction sx es items rule: scan_manifests.induct)
  case (1 sx items)
  then show ?case by (intro exI [where x = "[]"]) simp
next
  case (2 sx name io es items)
  let ?skip = "length name < 8 \<or> drop (length name - 7) name \<noteq> ''.source''"
  consider (full) "length items \<ge> 16" | (skip) "\<not> length items \<ge> 16" "?skip"
    | (bad) "\<not> length items \<ge> 16" "\<not> ?skip" "parse_manifest sx io = None"
    | (fine) s where "\<not> length items \<ge> 16" "\<not> ?skip" "parse_manifest sx io = Some s" by blast
  then show ?case
  proof cases
    case full
    then show ?thesis using "2.prems" by (intro exI [where x = "[]"]) simp
  next
    case skip
    then show ?thesis using "2.IH"(1) [OF skip "2.prems"] by (auto intro: subseq_Cons')
  next
    case bad
    then show ?thesis using "2.IH"(2) [OF bad "2.prems"] by (auto intro: list_emb_Cons)
  next
    case fine
    obtain ms new where m: "scan_manifests sx es (items @ [s]) = (items @ [s]) @ new"
        "length ((items @ [s]) @ new) \<le> 16" "subseq ms es" "list_all2 (registers sx) ms new"
      using "2.IH"(3) [OF fine] fine(1) by auto
    have "registers sx (name, io) s"
      using fine(2) parse_manifest_made [OF fine(3)] by (simp add: registers_def)
    then show ?thesis
      using m fine by (intro exI [where x = "(name, io) # ms"] exI [where x = "s # new"]) simp
  qed
qed

text \<open>
  Property C26. Only trusted manifests register sources. Whatever is in the directory, at most 16
  sources are registered, in the order of the directory and each from a manifest of its own: the
  very file whose text names the kind, the path, the user and the age limit of the source ends in
  \<open>.source\<close>, is a regular file of the process's own user with one link that nobody else can
  write and that is shorter than 1024 bytes. The path starts with the characters \<open>/run/\<close>, which
  is not enough to stay below that directory (\<open>manifest_path_can_leave_run\<close>); path and user are
  made of safe characters, the age limit is between one second and one hour, and the source is
  ready exactly if its user exists, with that user's id.
\<close>

theorem only_trusted_manifests_register:
  assumes "faceplate_sources_new sx (Some entries) = Inr items"
  shows "length items \<le> 16 \<and> (\<exists>ms. subseq ms entries \<and> list_all2 (registers sx) ms items)"
proof -
  have "items = scan_manifests sx entries []"
    using assms by (auto simp: faceplate_sources_new_def split: if_splits)
  then show ?thesis
    using scan_manifests_made [of "[]" sx entries] by auto
qed

text \<open>A manifest that the kernel hands out in one piece.\<close>

definition demo_whole :: "string \<Rightarrow> file_io" where
  "demo_whole bytes = (demo_file bytes)\<lparr>io_read := (\<lambda>off want. Some (take want (drop off bytes)))\<rparr>"

definition demo_manifest :: string where
  "demo_manifest = concat (map (\<lambda>l. l @ [nl]) [''kind=system'', ''path=/run/../etc/status'', ''user=agent''])"

lemma demo_manifest_lines: "strtok nl [] (cstr demo_manifest) = [''kind=system'', ''path=/run/../etc/status'', ''user=agent'']"
proof -
  have "cstr demo_manifest = demo_manifest" by (rule cstr_id) (simp add: demo_manifest_def)
  then show ?thesis unfolding demo_manifest_def by (simp only:) (rule strtok_lines, simp)
qed

lemma demo_manifest_parsed:
  "parse_manifest (demo_sources\<lparr>sx_euid := 42\<rparr>) (demo_whole demo_manifest) =
     Some \<lparr>src_kind = SOURCE_SYSTEM, src_path = ''/run/../etc/status'', src_user = ''agent'', src_uid = 42,
       src_stale_ms = 30000, src_ready = True\<rparr>"
proof -
  have l: "length demo_manifest = 47" by (simp add: demo_manifest_def)
  then have ne: "demo_manifest \<noteq> []" by auto
  have "read_safe_file_at (demo_whole demo_manifest) 42 1024 = Some (cstr demo_manifest)"
    using l ne by (simp add: read_safe_file_at_def demo_whole_def demo_file_def)
  then show ?thesis
    by (simp add: parse_manifest_def demo_manifest_lines demo_sources_def manifest_line_def strncpy_def
          safe_token_def safe_char_def between_def code_def source_kind_of_def)
qed

theorem only_trusted_manifests_register_witness:
  "\<exists>ms. subseq ms [(''README'', demo_whole ''none''), (''a.source'', demo_whole demo_manifest)] \<and>
     list_all2 (registers (demo_sources\<lparr>sx_euid := 42\<rparr>)) ms
       [\<lparr>src_kind = SOURCE_SYSTEM, src_path = ''/run/../etc/status'', src_user = ''agent'', src_uid = 42,
         src_stale_ms = 30000, src_ready = True\<rparr>]"
proof -
  let ?sx = "demo_sources\<lparr>sx_euid := 42\<rparr>"
  have "faceplate_sources_new ?sx (Some [(''README'', demo_whole ''none''), (''a.source'', demo_whole demo_manifest)]) =
      Inr [\<lparr>src_kind = SOURCE_SYSTEM, src_path = ''/run/../etc/status'', src_user = ''agent'', src_uid = 42,
         src_stale_ms = 30000, src_ready = True\<rparr>]"
    by (simp add: faceplate_sources_new_def demo_manifest_parsed) (simp add: demo_sources_def)
  then show ?thesis
    using only_trusted_manifests_register by blast
qed

text \<open>
  The prefix does not confine the path: a manifest may name a file outside
  \<open>/run\<close>, because the check is on the first five characters and two dots are safe characters;
  the source is registered and its path leads to \<open>/etc\<close>.
\<close>

theorem manifest_path_can_leave_run:
  "map_option src_path (parse_manifest (demo_sources\<lparr>sx_euid := 42\<rparr>) (demo_whole demo_manifest)) =
     Some ''/run/../etc/status'' \<and>
   rcut CHR ''/'' ''/run/../etc/status'' = Some (''/run/../etc'', ''status'')"
  by (simp add: demo_manifest_parsed rcut_Some)

end
