(* ===== verification/Collector.thy ===== *)
theory Collector
  imports Sources
begin

text \<open>
  The system collector, \<open>src/faceplate_collector.c\<close>: a helper that gathers a few facts about the
  device and publishes them as the snapshot that \<open>refresh_system\<close> of the theory Sources reads.

  What the kernel and other programs say (the files, the interfaces, the output of RAUC, the
  clocks) are arguments. \<open>fgets\<close> is modelled because its limit decides what a line is.
\<close>

section \<open>Tokens and lines\<close>

definition token_ok :: "string \<Rightarrow> nat \<Rightarrow> bool" where
  "token_ok s limit = (if s = [] \<or> length s > limit then False else list_all safe_char s)"

text \<open>One call of \<open>fgets\<close>: at most \<open>cap - 1\<close> bytes, up to and with the first newline.\<close>

fun fgets :: "nat \<Rightarrow> string \<Rightarrow> string \<times> string" where
  "fgets 0 s = ([], s)"
| "fgets (Suc 0) s = ([], s)"
| "fgets (Suc (Suc n)) [] = ([], [])"
| "fgets (Suc (Suc n)) (c # s) =
     (if c = nl then ([c], s) else (let (line, rest) = fgets (Suc n) s in (c # line, rest)))"

lemma fgets_le: "length (snd (fgets cap s)) \<le> length s"
  by (induction cap s rule: fgets.induct) (auto simp: Let_def split_beta)

lemma fgets_shorter: "2 \<le> cap \<Longrightarrow> s \<noteq> [] \<Longrightarrow> length (snd (fgets cap s)) < length s"
  by (cases "(cap, s)" rule: fgets.cases) (auto simp: Let_def split_beta le_imp_less_Suc fgets_le)

text \<open>The line without its end.\<close>

definition chomp :: "string \<Rightarrow> string" where
  "chomp s = takeWhile (\<lambda>c. c \<noteq> CHR 0x0D \<and> c \<noteq> nl) s"

section \<open>Gathering\<close>

text \<open>The version in \<open>/etc/os-release\<close>, with its quotes taken off.\<close>

definition version_value :: "string \<Rightarrow> string" where
  "version_value line =
     (let v = chomp (drop 11 (cstr line))
      in if v \<noteq> [] \<and> hd v = CHR 0x22
         then (case rcut CHR 0x22 (tl v) of None \<Rightarrow> tl v | Some (a, b) \<Rightarrow> a) else v)"

function os_image_lines :: "string \<Rightarrow> string option" where
  "os_image_lines s =
     (if s = [] then None
      else
        let (line, rest) = fgets 256 s
        in if take 11 line \<noteq> ''VERSION_ID='' then os_image_lines rest
           else
             let v = version_value line
             in if token_ok v 63 \<and> length v < 64 then Some v else None)"
  by pat_completeness auto
termination
  by (relation "measure length") (use fgets_shorter [of 256] in \<open>auto simp: prod_eq_iff\<close>)

declare os_image_lines.simps [simp del]

definition os_image :: "string option \<Rightarrow> string \<Rightarrow> string" where
  "os_image file out =
     (case file of None \<Rightarrow> out | Some s \<Rightarrow> (case os_image_lines s of None \<Rightarrow> out | Some v \<Rightarrow> v))"

definition build_channel :: "string option \<Rightarrow> string \<Rightarrow> string" where
  "build_channel file out =
     (case file of
        None \<Rightarrow> out
      | Some s \<Rightarrow>
          if s = [] then out
          else let line = chomp (cstr (fst (fgets 64 s)))
               in if token_ok line 31 \<and> length line < 32 then line else out)"

text \<open>
  The interfaces in order: name, and the address that \<open>inet_ntop\<close> prints for an IPv4 one (\<open>Some
  None\<close> if it fails).
\<close>

fun primary_ip :: "(string \<times> string option option) list \<Rightarrow> string \<Rightarrow> string" where
  "primary_ip [] out = out"
| "primary_ip ((name, addr) # rest) out =
     (if addr = None \<or> name = ''lo'' then primary_ip rest out
      else (case the addr of None \<Rightarrow> primary_ip rest out | Some ip \<Rightarrow> ip))"

definition device_hostname :: "string option \<Rightarrow> string \<Rightarrow> string" where
  "device_hostname name out =
     (case name of
        None \<Rightarrow> out
      | Some b \<Rightarrow> let b = cstr (take 255 b) in if token_ok b 63 \<and> length b < 64 then b else out)"

section \<open>The status of RAUC\<close>

text \<open>
  The value of a key in a stretch of JSON: \<open>None\<close> if it is not found or does not fit, which leaves
  the buffer alone; otherwise what is stored and the result.
\<close>

fun json_scan :: "string \<Rightarrow> nat \<Rightarrow> string \<Rightarrow> (string \<times> bool) option" where
  "json_scan needle cap [] = None"
| "json_scan needle cap (c # s) =
     (if length (c # s) \<le> length needle then None
      else if take (length needle) (c # s) \<noteq> needle then json_scan needle cap s
      else (case cut CHR 0x22 (drop (length needle) (c # s)) of
              None \<Rightarrow> None
            | Some (v, rest) \<Rightarrow> if length v \<ge> cap then None else Some (v, token_ok v (cap - 1))))"

definition json_needle :: "string \<Rightarrow> string" where
  "json_needle key = snprintf 64 ([CHR 0x22] @ key @ [CHR 0x22, CHR '':'', CHR 0x22])"

definition json_token_in :: "string \<Rightarrow> string \<Rightarrow> nat \<Rightarrow> (string \<times> bool) option" where
  "json_token_in s key cap = (if s = [] then None else json_scan (json_needle key) cap s)"

text \<open>The buffer afterwards; the callers below ignore the result.\<close>

definition json_store :: "string \<Rightarrow> string \<Rightarrow> nat \<Rightarrow> string \<Rightarrow> string" where
  "json_store s key cap out = (case json_token_in s key cap of None \<Rightarrow> out | Some (v, good) \<Rightarrow> v)"

fun strstr_split :: "string \<Rightarrow> string \<Rightarrow> (string \<times> string) option" where
  "strstr_split needle [] = (if needle = [] then Some ([], []) else None)"
| "strstr_split needle (c # s) =
     (if take (length needle) (c # s) = needle then Some ([], c # s)
      else map_option (\<lambda>(a, b). (c # a, b)) (strstr_split needle s))"

text \<open>The text up to the brace that closes the first one.\<close>

fun match_braces :: "int \<Rightarrow> string \<Rightarrow> string option" where
  "match_braces depth [] = None"
| "match_braces depth (c # s) =
     (if c = CHR 0x7B then map_option (\<lambda>r. c # r) (match_braces (depth + 1) s)
      else if c = CHR 0x7D then
        (if depth - 1 = 0 then Some [c] else map_option (\<lambda>r. c # r) (match_braces (depth - 1) s))
      else map_option (\<lambda>r. c # r) (match_braces depth s))"

definition booted_mark :: string where
  "booted_mark = [CHR 0x22] @ ''state'' @ [CHR 0x22, CHR '':'', CHR 0x22] @ ''booted'' @ [CHR 0x22]"

definition rauc_booted_slot_range :: "string \<Rightarrow> string option" where
  "rauc_booted_slot_range json =
     (case strstr_split booted_mark json of
        None \<Rightarrow> None
      | Some (before, mark) \<Rightarrow>
          (case rcut CHR 0x7B before of
             None \<Rightarrow> None
           | Some (a, b) \<Rightarrow> match_braces 0 (CHR 0x7B # b @ mark)))"

text \<open>\<open>output\<close> is what RAUC printed, if it could be run and succeeded; slot, image and boot status.\<close>

definition rauc_status :: "string option \<Rightarrow> string \<times> string \<times> string" where
  "rauc_status output =
     (case output of
        None \<Rightarrow> ('''', '''', '''')
      | Some out \<Rightarrow>
          if out = [] then ('''', '''', '''')
          else
            let json = cstr (take 8191 out);
                slot = (case json_token_in json ''booted'' 32 of
                          None \<Rightarrow> '''' | Some (v, good) \<Rightarrow> if good then v else '''')
            in (case rauc_booted_slot_range json of
                  None \<Rightarrow> (slot, '''', '''')
                | Some obj \<Rightarrow>
                    (if slot = '''' then json_store obj ''bootname'' 32 slot else slot,
                     json_store obj ''version'' 64 '''', json_store obj ''boot_status'' 24 '''')))"

section \<open>The snapshot\<close>

record collected =
  co_host :: string
  co_image :: string
  co_uptime :: nat
  co_synced :: bool
  co_ip :: string
  co_channel :: string
  co_slot :: string
  co_rauc_image :: string
  co_rauc_boot :: string
  co_boottime :: u64

text \<open>One more \<open>snprintf\<close> at offset \<open>n\<close> of the 1024 bytes, if there is room and something to say.\<close>

definition data_part :: "bool \<Rightarrow> string \<Rightarrow> string \<times> nat \<Rightarrow> string \<times> nat" where
  "data_part wanted part = (\<lambda>(out, n).
     if n < 1024 \<and> wanted then (take n out @ snprintf (1024 - n) part, n + length part) else (out, n))"

definition field_line :: "string \<Rightarrow> string \<Rightarrow> string" where
  "field_line key v = key @ CHR ''='' # v @ [nl]"

definition base_data :: "collected \<Rightarrow> string" where
  "base_data c = ''FACEPLATE_SYSTEM_V1'' @ [nl] @ field_line ''hostname'' (co_host c) @
     field_line ''os_image'' (co_image c) @ field_line ''uptime_seconds'' (dec (co_uptime c)) @
     field_line ''clock_synced'' (if co_synced c then ''yes'' else ''unknown'') @
     field_line ''primary_ip'' (co_ip c)"

definition collector_data :: "collected \<Rightarrow> string option" where
  "collector_data c =
     (let d = (snprintf 1024 (base_data c), length (base_data c));
          d = data_part (co_channel c \<noteq> '''') (field_line ''build_channel'' (co_channel c)) d;
          d = (if snd d < 1024 \<and> co_slot c \<noteq> '''' then
                 let d = data_part True (field_line ''rauc_slot'' (co_slot c)) d;
                     d = data_part (co_rauc_image c \<noteq> '''') (field_line ''rauc_image'' (co_rauc_image c)) d
                 in data_part True (field_line ''rauc_boot''
                      (if co_rauc_boot c \<noteq> '''' then co_rauc_boot c else ''unknown'')) d
               else d);
          d = data_part True (field_line ''updated_boottime_ms'' (dec (unat (co_boottime c)))) d
      in if snd d = 0 \<or> snd d \<ge> 1024 then None else Some (fst d))"

section \<open>Publishing\<close>

datatype publish_call =
  Unlink_tmp | Create_tmp | Write_tmp string | Chmod_tmp | Close_tmp | Rename_tmp_to_status | Close_dir

text \<open>
  The answers: the directory is a tmpfs of the process's own user that nobody else can write, and
  the results of the calls; \<open>pw_written\<close> is what \<open>write\<close> returns.
\<close>

record publish_world =
  pw_dir :: bool
  pw_dir_safe :: bool
  pw_create :: bool
  pw_written :: int
  pw_chmod :: bool
  pw_close :: bool
  pw_rename :: bool

definition write_snapshot :: "publish_world \<Rightarrow> string \<Rightarrow> bool \<times> publish_call list" where
  "write_snapshot w data =
     (if \<not> pw_dir w then (False, [])
      else if \<not> pw_dir_safe w then (False, [Unlink_tmp, Close_dir])
      else if \<not> pw_create w then (False, [Unlink_tmp, Create_tmp, Unlink_tmp, Close_dir])
      else if pw_written w \<noteq> int (length data) then
        (False, [Unlink_tmp, Create_tmp, Write_tmp data, Close_tmp, Unlink_tmp, Close_dir])
      else if \<not> pw_chmod w then
        (False, [Unlink_tmp, Create_tmp, Write_tmp data, Chmod_tmp, Close_tmp, Unlink_tmp, Close_dir])
      else if \<not> pw_close w then
        (False, [Unlink_tmp, Create_tmp, Write_tmp data, Chmod_tmp, Close_tmp, Close_tmp, Unlink_tmp, Close_dir])
      else if \<not> pw_rename w then
        (False, [Unlink_tmp, Create_tmp, Write_tmp data, Chmod_tmp, Close_tmp, Rename_tmp_to_status, Unlink_tmp, Close_dir])
      else
        (True, [Unlink_tmp, Create_tmp, Write_tmp data, Chmod_tmp, Close_tmp, Rename_tmp_to_status, Close_dir]))"

section \<open>The whole run\<close>

text \<open>What the device says to the collector.\<close>

record device_facts =
  df_os_release :: "string option"
  df_channel :: "string option"
  df_uptime :: nat
  df_synced :: bool
  df_ifaces :: "(string \<times> string option option) list"
  df_hostname :: "string option"
  df_rauc :: "string option"
  df_boottime :: u64

definition gathered :: "device_facts \<Rightarrow> collected" where
  "gathered d =
     (let (slot, img, boot) = rauc_status (df_rauc d)
      in \<lparr>co_host = device_hostname (df_hostname d) ''unknown'',
          co_image = os_image (df_os_release d) ''unknown'', co_uptime = df_uptime d,
          co_synced = df_synced d, co_ip = primary_ip (df_ifaces d) ''unknown'',
          co_channel = build_channel (df_channel d) '''', co_slot = slot, co_rauc_image = img,
          co_rauc_boot = boot, co_boottime = df_boottime d\<rparr>)"

definition collector_main :: "device_facts \<Rightarrow> publish_world \<Rightarrow> bool \<times> publish_call list" where
  "collector_main d w =
     (case collector_data (gathered d) of None \<Rightarrow> (False, []) | Some data \<Rightarrow> write_snapshot w data)"

end
