(* ===== verification/Collector_Spec.thy ===== *)
theory Collector_Spec
  imports Collector Sources_Spec
begin

text \<open>
  What the collector guarantees: its snapshot always fits, and the reader of the theory Sources
  gets back from it the facts that went in.
\<close>

section \<open>The snapshot as lines\<close>

definition collected_lines :: "collected \<Rightarrow> string list" where
  "collected_lines c =
     [''FACEPLATE_SYSTEM_V1'', ''hostname='' @ co_host c, ''os_image='' @ co_image c,
      ''uptime_seconds='' @ dec (co_uptime c), ''clock_synced='' @ (if co_synced c then ''yes'' else ''unknown''),
      ''primary_ip='' @ co_ip c] @
     (if co_channel c \<noteq> '''' then [''build_channel='' @ co_channel c] else []) @
     (if co_slot c \<noteq> '''' then
        [''rauc_slot='' @ co_slot c] @
        (if co_rauc_image c \<noteq> '''' then [''rauc_image='' @ co_rauc_image c] else []) @
        [''rauc_boot='' @ (if co_rauc_boot c \<noteq> '''' then co_rauc_boot c else ''unknown'')]
      else []) @
     [''updated_boottime_ms='' @ dec (unat (co_boottime c))]"

definition as_file :: "string list \<Rightarrow> string" where
  "as_file ls = concat (map (\<lambda>l. l @ [nl]) ls)"

lemma as_file_append [simp]: "as_file (xs @ ys) = as_file xs @ as_file ys" "as_file [] = ''''"
  "as_file (l # ls) = l @ nl # as_file ls"
  by (simp_all add: as_file_def)

text \<open>The sizes of the buffers in \<open>main\<close>.\<close>

definition collected_bounds :: "collected \<Rightarrow> bool" where
  "collected_bounds c \<longleftrightarrow> length (co_host c) \<le> 63 \<and> length (co_image c) \<le> 63 \<and> length (co_ip c) \<le> 47 \<and>
     length (co_channel c) \<le> 31 \<and> length (co_slot c) \<le> 31 \<and> length (co_rauc_image c) \<le> 63 \<and>
     length (co_rauc_boot c) \<le> 23 \<and> co_uptime c < 2 ^ 64"

lemma length_dec64: "n < 2 ^ 64 \<Longrightarrow> length (dec n) \<le> 20"
  by (rule length_dec) simp_all

lemma length_collected:
  assumes "collected_bounds c"
  shows "length (as_file (collected_lines c)) \<le> 520"
proof -
  have "length (dec (co_uptime c)) \<le> 20" "length (dec (unat (co_boottime c))) \<le> 20"
    using assms unsigned_less [of "co_boottime c", where ?'a = nat]
    by (auto intro!: length_dec64 simp: collected_bounds_def)
  then show ?thesis using assms by (simp add: collected_lines_def collected_bounds_def)
qed

lemma data_part_fits:
  assumes "length out + length part < 1024"
  shows "data_part w part (out, length out) = (let r = out @ (if w then part else []) in (r, length r))"
  using assms by (simp add: data_part_def snprintf_id Let_def)

lemma data_part_file:
  "length out + length v + length key < 1022 \<Longrightarrow>
     data_part w (field_line key v) (out, length out) =
       (out @ as_file (if w then [key @ ''='' @ v] else []), length (out @ as_file (if w then [key @ ''='' @ v] else [])))"
  by (subst data_part_fits) (auto simp: field_line_def Let_def)

lemma base_data_file:
  "base_data c = as_file [''FACEPLATE_SYSTEM_V1'', ''hostname='' @ co_host c, ''os_image='' @ co_image c,
      ''uptime_seconds='' @ dec (co_uptime c), ''clock_synced='' @ (if co_synced c then ''yes'' else ''unknown''),
      ''primary_ip='' @ co_ip c]"
  by (simp add: base_data_def field_line_def)

lemma collector_data_file:
  assumes "collected_bounds c"
  shows "collector_data c = Some (as_file (collected_lines c))"
proof -
  have d: "length (dec (co_uptime c)) \<le> 20" "length (dec (unat (co_boottime c))) \<le> 20"
    using assms unsigned_less [of "co_boottime c", where ?'a = nat]
    by (auto intro!: length_dec64 simp: collected_bounds_def)
  have b: "length (base_data c) \<le> 300"
    using assms d by (simp add: base_data_file collected_bounds_def)
  have s: "snprintf 1024 (base_data c) = base_data c" using b by (simp add: snprintf_id)
  have bounds: "length (co_channel c) \<le> 31" "length (co_slot c) \<le> 31" "length (co_rauc_image c) \<le> 63"
    "length (co_rauc_boot c) \<le> 23"
    using assms by (simp_all add: collected_bounds_def)
  define o1 where "o1 = base_data c @ as_file (if co_channel c \<noteq> '''' then [''build_channel'' @ ''='' @ co_channel c] else [])"
  define o2 where "o2 = o1 @ as_file [''rauc_slot'' @ ''='' @ co_slot c]"
  define o3 where "o3 = o2 @ as_file (if co_rauc_image c \<noteq> '''' then [''rauc_image'' @ ''='' @ co_rauc_image c] else [])"
  define bt where "bt = (if co_rauc_boot c \<noteq> '''' then co_rauc_boot c else ''unknown'')"
  define o4 where "o4 = o3 @ as_file [''rauc_boot'' @ ''='' @ bt]"
  define o5 where "o5 = (if co_slot c \<noteq> '''' then o4 else o1)"
  define o6 where "o6 = o5 @ as_file [''updated_boottime_ms'' @ ''='' @ dec (unat (co_boottime c))]"
  have l: "length o1 \<le> 350" "length o2 \<le> 400" "length o3 \<le> 480" "length bt \<le> 23" "length o4 \<le> 520"
    "length o5 \<le> 520" "length o6 \<le> 570" "o6 \<noteq> []"
    using b bounds d by (simp_all add: o1_def o2_def o3_def o4_def o5_def o6_def bt_def)
  have 1: "data_part (co_channel c \<noteq> '''') (field_line ''build_channel'' (co_channel c)) (base_data c, length (base_data c)) =
      (o1, length o1)"
    unfolding o1_def by (rule data_part_file) (use b bounds in simp)
  have 2: "data_part True (field_line ''rauc_slot'' (co_slot c)) (o1, length o1) = (o2, length o2)"
    unfolding o2_def using data_part_file [of o1 "co_slot c" "''rauc_slot''" True] l bounds by simp
  have 3: "data_part (co_rauc_image c \<noteq> '''') (field_line ''rauc_image'' (co_rauc_image c)) (o2, length o2) = (o3, length o3)"
    unfolding o3_def by (rule data_part_file) (use l bounds in simp)
  have 4: "data_part True (field_line ''rauc_boot'' bt) (o3, length o3) = (o4, length o4)"
    unfolding o4_def using data_part_file [of o3 bt "''rauc_boot''" True] l by simp
  have 5: "data_part True (field_line ''updated_boottime_ms'' (dec (unat (co_boottime c)))) (o5, length o5) = (o6, length o6)"
    unfolding o6_def using data_part_file [of o5 "dec (unat (co_boottime c))" "''updated_boottime_ms''" True] l d by simp
  have "collector_data c = Some o6"
    using l 5 unfolding collector_data_def Let_def s 1 snd_conv 2 3 bt_def [symmetric] 4
    by (cases "co_slot c = ''''") (simp_all add: o5_def)
  also have "o6 = as_file (collected_lines c)"
    by (simp add: o6_def o5_def o4_def o3_def o2_def o1_def bt_def base_data_file collected_lines_def)
  finally show ?thesis .
qed

section \<open>Publisher and reader\<close>

definition opt_token :: "string \<Rightarrow> bool" where
  "opt_token v \<longleftrightarrow> list_all safe_char v"

definition collected_valid :: "collected \<Rightarrow> bool" where
  "collected_valid c \<longleftrightarrow> collected_bounds c \<and> safe_token (co_host c) 63 \<and> safe_token (co_image c) 63 \<and>
     safe_token (co_ip c) 47 \<and> opt_token (co_channel c) \<and> opt_token (co_slot c) \<and> opt_token (co_rauc_image c) \<and>
     opt_token (co_rauc_boot c)"

lemma safe_char_plain: "safe_char c \<Longrightarrow> c \<noteq> nl \<and> c \<noteq> nul \<and> c \<noteq> CHR ''=''"
  by (auto simp: safe_char_def between_def code_def)

lemma safe_plain: "list_all safe_char v \<Longrightarrow> nl \<notin> set v \<and> nul \<notin> set v"
  using safe_char_plain by (auto simp: list_all_iff)

lemma digit_safe: "is_digit c \<Longrightarrow> safe_char c"
  by (simp add: is_digit_def safe_char_def)

lemma dec_safe: "n < 2 ^ 64 \<Longrightarrow> safe_token (dec n) 63"
  using length_dec64 [of n] dec_digits [of _ n] digit_safe by (auto simp: safe_token_iff list_all_iff)

lemma sources_parse_dec: "n < 2 ^ 64 \<Longrightarrow> sources_parse_u64 (dec n) = Some (of_nat n)"
proof -
  assume n: "n < 2 ^ 64"
  obtain c cs where c: "dec n = c # cs" "is_digit c" using dec_digits [of _ n] by (cases "dec n") auto
  have "\<not> is_space c" "c \<noteq> CHR ''-''" "c \<noteq> CHR ''+''"
    using c(2) by (auto simp: is_digit_bounds is_space_def code_def)
  then have "dropWhile is_space (dec n) = dec n" "hd (dec n) \<noteq> CHR ''-''" "hd (dec n) \<noteq> CHR ''+''"
    using c by simp_all
  moreover have tw: "takeWhile is_digit (dec n) = dec n" and dw: "dropWhile is_digit (dec n) = []"
    using dec_digits [of _ n] by (simp_all add: takeWhile_eq_all_conv dropWhile_eq_Nil_conv)
  ultimately show ?thesis using n by (simp add: sources_parse_u64_def Let_def tw dw del: takeWhile_eq_all_conv dropWhile_eq_Nil_conv)
qed

lemma system_line_cut:
  "CHR ''='' \<notin> set key \<Longrightarrow> cut CHR ''='' (key @ CHR ''='' # v) = Some (key, v)"
  by simp

lemma system_line_fields:
  assumes "safe_token v 63"
  shows "system_line (''hostname='' @ v) f = Some (f\<lparr>sf_host := v\<rparr>)"
    "system_line (''os_image='' @ v) f = Some (f\<lparr>sf_os := v\<rparr>)"
    "length v \<le> 47 \<Longrightarrow> system_line (''primary_ip='' @ v) f = Some (f\<lparr>sf_ip := v\<rparr>)"
    "system_line (''build_channel='' @ v) f = Some (f\<lparr>sf_channel := take 23 v\<rparr>)"
    "length v \<le> 31 \<Longrightarrow> system_line (''rauc_slot='' @ v) f = Some (f\<lparr>sf_slot := v\<rparr>)"
    "system_line (''rauc_image='' @ v) f = Some (f\<lparr>sf_image := v\<rparr>)"
    "length v \<le> 23 \<Longrightarrow> system_line (''rauc_boot='' @ v) f = Some (f\<lparr>sf_boot := v\<rparr>)"
    "system_line (''clock_synced='' @ v) f = Some f"
    "system_line (''uptime_seconds='' @ v) f = map_option (\<lambda>n. f\<lparr>sf_uptime := n\<rparr>) (sources_parse_u64 v)"
    "system_line (''updated_boottime_ms='' @ v) f = map_option (\<lambda>n. f\<lparr>sf_updated := n\<rparr>) (sources_parse_u64 v)"
  using assms
    system_line_cut [of "''hostname''" v] system_line_cut [of "''os_image''" v] system_line_cut [of "''primary_ip''" v]
    system_line_cut [of "''build_channel''" v] system_line_cut [of "''rauc_slot''" v]
    system_line_cut [of "''rauc_image''" v] system_line_cut [of "''rauc_boot''" v]
    system_line_cut [of "''clock_synced''" v] system_line_cut [of "''uptime_seconds''" v]
    system_line_cut [of "''updated_boottime_ms''" v]
  by (simp_all add: system_line_def safe_token_iff strncpy_def)

lemma collected_lines_plain:
  assumes "collected_valid c"
  shows "\<forall>l\<in>set (collected_lines c). l \<noteq> [] \<and> nl \<notin> set l" "\<forall>l\<in>set (collected_lines c). nul \<notin> set l"
proof -
  have "nl \<notin> set (dec n) \<and> nul \<notin> set (dec n)" for n by (simp add: dec_not_equals)
  then show "\<forall>l\<in>set (collected_lines c). l \<noteq> [] \<and> nl \<notin> set l" "\<forall>l\<in>set (collected_lines c). nul \<notin> set l"
    using assms safe_plain
    by (auto simp: collected_lines_def collected_valid_def safe_token_iff opt_token_def)
qed

lemma as_file_cstr: "\<forall>l\<in>set ls. nul \<notin> set l \<Longrightarrow> cstr (as_file ls) = as_file ls"
  by (rule cstr_id) (induction ls; auto)

lemma parse_collected:
  assumes "collected_valid c"
  shows "parse_system (cstr (as_file (collected_lines c))) =
    Some \<lparr>sf_host = co_host c, sf_os = co_image c, sf_ip = co_ip c, sf_slot = co_slot c,
      sf_image = (if co_slot c = '''' then '''' else co_rauc_image c),
      sf_boot = (if co_slot c = '''' then '''' else if co_rauc_boot c = '''' then ''unknown'' else co_rauc_boot c),
      sf_channel = take 23 (co_channel c), sf_updated = co_boottime c, sf_uptime = of_nat (co_uptime c)\<rparr>"
proof -
  let ?data = "as_file (collected_lines c)"
  have t: "strtok nl [] (cstr ?data) = collected_lines c"
    using strtok_lines [of "collected_lines c" nl] collected_lines_plain [OF assms] as_file_cstr [of "collected_lines c"]
    by (simp add: as_file_def)
  have v: "safe_token (co_host c) 63" "safe_token (co_image c) 63" "safe_token (co_ip c) 63" "length (co_ip c) \<le> 47"
    "co_channel c \<noteq> '''' \<Longrightarrow> safe_token (co_channel c) 63" "co_slot c \<noteq> '''' \<Longrightarrow> safe_token (co_slot c) 63"
    "co_rauc_image c \<noteq> '''' \<Longrightarrow> safe_token (co_rauc_image c) 63"
    "co_rauc_boot c \<noteq> '''' \<Longrightarrow> safe_token (co_rauc_boot c) 63" "length (co_slot c) \<le> 31" "length (co_rauc_boot c) \<le> 23"
    "safe_token (dec (co_uptime c)) 63" "safe_token (dec (unat (co_boottime c))) 63"
    "sources_parse_u64 (dec (co_uptime c)) = Some (of_nat (co_uptime c))"
    "sources_parse_u64 (dec (unat (co_boottime c))) = Some (co_boottime c)"
    "safe_token ''yes'' 63" "safe_token ''unknown'' 63"
    using assms unsigned_less [of "co_boottime c", where ?'a = nat] dec_safe sources_parse_dec
    by (auto simp: collected_valid_def collected_bounds_def safe_token_iff opt_token_def safe_char_def between_def code_def)
  have "parse_system (cstr ?data) = system_lines (tl (collected_lines c)) no_fields"
    unfolding parse_system_def t by (simp add: collected_lines_def)
  also have "\<dots> = Some \<lparr>sf_host = co_host c, sf_os = co_image c, sf_ip = co_ip c, sf_slot = co_slot c,
      sf_image = (if co_slot c = '''' then '''' else co_rauc_image c),
      sf_boot = (if co_slot c = '''' then '''' else if co_rauc_boot c = '''' then ''unknown'' else co_rauc_boot c),
      sf_channel = take 23 (co_channel c), sf_updated = co_boottime c, sf_uptime = of_nat (co_uptime c)\<rparr>"
    using v unfolding collected_lines_def
    by (simp add: system_line_fields [simplified] no_fields_def)
  finally show ?thesis .
qed

text \<open>
  Property C27. The collector and the console agree on the format: if the gathered values are tokens
  of the allowed characters within their buffers (\<open>collected_valid\<close>), the snapshot is published, in
  fewer than 1024 bytes, and the parser of the console reads back exactly the facts that went in, the
  build channel cut to its 23 bytes, with \<open>unknown\<close> for a boot status that is missing beside a slot.
  The collector does not check all values of RAUC before it publishes them;
  \<open>unchecked_value_hides_the_system\<close> is a value that is no token.
\<close>

theorem collector_is_understood:
  assumes "collected_valid c"
  shows "\<exists>data. collector_data c = Some data \<and> length data < 1024 \<and> parse_system (cstr data) =
    Some \<lparr>sf_host = co_host c, sf_os = co_image c, sf_ip = co_ip c, sf_slot = co_slot c,
      sf_image = (if co_slot c = '''' then '''' else co_rauc_image c),
      sf_boot = (if co_slot c = '''' then '''' else if co_rauc_boot c = '''' then ''unknown'' else co_rauc_boot c),
      sf_channel = take 23 (co_channel c), sf_updated = co_boottime c, sf_uptime = of_nat (co_uptime c)\<rparr>"
proof -
  have "collected_bounds c" using assms by (simp add: collected_valid_def)
  then show ?thesis
    using collector_data_file [of c] length_collected [of c] parse_collected [OF assms] by simp
qed

text \<open>Two devices: one with RAUC, one whose RAUC reports a status with a blank in it.\<close>

definition demo_collected :: collected where
  "demo_collected = \<lparr>co_host = ''pi'', co_image = ''1.2'', co_uptime = 7, co_synced = True, co_ip = ''10.0.0.2'',
     co_channel = '''', co_slot = ''A'', co_rauc_image = '''', co_rauc_boot = '''', co_boottime = 9\<rparr>"

theorem collector_is_understood_witness:
  "\<exists>data. collector_data demo_collected = Some data \<and> length data < 1024 \<and> parse_system (cstr data) =
    Some \<lparr>sf_host = ''pi'', sf_os = ''1.2'', sf_ip = ''10.0.0.2'', sf_slot = ''A'', sf_image = '''',
      sf_boot = ''unknown'', sf_channel = '''', sf_updated = 9, sf_uptime = 7\<rparr>"
proof -
  have "collected_valid demo_collected"
    by (simp add: collected_valid_def collected_bounds_def demo_collected_def safe_token_iff opt_token_def
      safe_char_def between_def code_def)
  from collector_is_understood [OF this] show ?thesis by (simp add: demo_collected_def)
qed

section \<open>Everything fits\<close>

lemma token_ok_length: "token_ok s n \<Longrightarrow> length s \<le> n"
  by (simp add: token_ok_def split: if_splits)

lemma token_ok_safe: "token_ok s n \<Longrightarrow> safe_token s n"
  by (simp add: token_ok_def safe_token_iff split: if_splits)

lemma os_image_lines_ok: "os_image_lines s = Some v \<Longrightarrow> token_ok v 63"
proof (induction s rule: os_image_lines.induct)
  case (1 s)
  obtain line rest where p: "fgets 256 s = (line, rest)" by (cases "fgets 256 s")
  have "os_image_lines s = (if s = [] then None else if take 11 line \<noteq> ''VERSION_ID='' then os_image_lines rest
      else if token_ok (version_value line) 63 \<and> length (version_value line) < 64 then Some (version_value line) else None)"
    by (subst os_image_lines.simps) (simp add: p Let_def)
  with "1.prems" "1.IH" [OF _ p [symmetric] refl] show ?case by (simp split: if_splits)
qed

lemma gathered_tokens:
  "safe_token (os_image file ''unknown'') 63"
  "safe_token (device_hostname name ''unknown'') 63"
  "build_channel ch '''' = '''' \<or> safe_token (build_channel ch '''') 31"
proof -
  have u: "safe_token ''unknown'' 63" by code_simp
  show "safe_token (os_image file ''unknown'') 63"
    using u os_image_lines_ok token_ok_safe by (auto simp: os_image_def split: option.split)
  show "safe_token (device_hostname name ''unknown'') 63"
    using u token_ok_safe by (simp add: device_hostname_def Let_def split: option.split)
  show "build_channel ch '''' = '''' \<or> safe_token (build_channel ch '''') 31"
    using token_ok_safe by (simp add: build_channel_def Let_def split: option.split)
qed

lemma safe_token_length: "safe_token s n \<Longrightarrow> length s \<le> n"
  by (simp add: safe_token_iff)

lemma json_scan_length: "json_scan needle cap s = Some (v, good) \<Longrightarrow> length v < cap"
  by (induction needle cap s rule: json_scan.induct) (auto split: if_splits option.splits)

lemma json_store_length: "length out < cap \<Longrightarrow> length (json_store s key cap out) < cap"
  using json_scan_length by (auto simp: json_store_def json_token_in_def split: option.split)

lemma json_token_in_length: "json_token_in s key cap = Some (v, good) \<Longrightarrow> length v < cap"
  by (auto simp: json_token_in_def intro: json_scan_length split: if_splits)

lemma rauc_status_lengths:
  assumes "rauc_status printed = (slot, img, boot)"
  shows "length slot \<le> 31" "length img \<le> 63" "length boot \<le> 23"
proof -
  have "length slot < 32 \<and> length img < 64 \<and> length boot < 24"
  proof (cases printed)
    case (Some out)
    define json where "json = cstr (take 8191 out)"
    define s where "s = (case json_token_in json ''booted'' 32 of None \<Rightarrow> '''' | Some (v, good) \<Rightarrow> if good then v else '''')"
    have s: "length s < 32" using json_token_in_length by (auto simp: s_def split: option.split)
    have "(slot, img, boot) = (if out = [] then ('''', '''', '''')
      else (case rauc_booted_slot_range json of None \<Rightarrow> (s, '''', '''')
        | Some obj \<Rightarrow> (if s = '''' then json_store obj ''bootname'' 32 s else s,
            json_store obj ''version'' 64 '''', json_store obj ''boot_status'' 24 '''')))"
      unfolding assms [symmetric] rauc_status_def Some option.case Let_def json_def s_def by (rule refl)
    then show ?thesis
      using s json_store_length [of s 32] json_store_length [of "''''" 64] json_store_length [of "''''" 24]
      by (simp split: if_splits option.splits)
  qed (use assms in \<open>simp add: rauc_status_def\<close>)
  then show "length slot \<le> 31" "length img \<le> 63" "length boot \<le> 23" by simp_all
qed

lemma primary_ip_cases:
  "primary_ip ifs out = out \<or> (\<exists>name. (name, Some (Some (primary_ip ifs out))) \<in> set ifs)"
  by (induction ifs out rule: primary_ip.induct) (auto split: option.splits)

lemma gathered_bounds:
  assumes "list_all (\<lambda>(name, addr). case addr of Some (Some ip) \<Rightarrow> length ip \<le> 47 | _ \<Rightarrow> True) (df_ifaces d)"
    and "df_uptime d < 2 ^ 64"
  shows "collected_bounds (gathered d)"
proof -
  obtain slot img boot where r: "rauc_status (df_rauc d) = (slot, img, boot)" by (metis prod_cases3)
  have "length (primary_ip (df_ifaces d) ''unknown'') \<le> 47"
    using assms(1) primary_ip_cases [of "df_ifaces d" "''unknown''"] by (fastforce simp: list_all_iff)
  moreover have "length (build_channel (df_channel d) '''') \<le> 31"
    using gathered_tokens(3) [of "df_channel d"] safe_token_length by fastforce
  ultimately show ?thesis
    using assms(2) rauc_status_lengths [OF r] gathered_tokens(1,2) safe_token_length
    by (simp add: collected_bounds_def gathered_def r)
qed

text \<open>
  Whatever the files, the interfaces and RAUC say, the collector has a snapshot to
  publish: the snapshot is shorter than its 1024 bytes, begins with the version line, and host,
  image and channel in it are tokens. What is relied on: \<open>inet_ntop\<close> stays within its 48 bytes and
  the uptime is a 64-bit number.
\<close>

theorem collector_always_fits:
  assumes "list_all (\<lambda>(name, addr). case addr of Some (Some ip) \<Rightarrow> length ip \<le> 47 | _ \<Rightarrow> True) (df_ifaces d)"
    and "df_uptime d < 2 ^ 64"
  shows "\<exists>data. collector_data (gathered d) = Some data \<and> length data \<le> 520 \<and>
      collector_main d w = write_snapshot w data \<and> take 19 data = ''FACEPLATE_SYSTEM_V1'' \<and>
      safe_token (co_host (gathered d)) 63 \<and> safe_token (co_image (gathered d)) 63 \<and>
      list_all safe_char (co_channel (gathered d))"
proof -
  have b: "collected_bounds (gathered d)" by (rule gathered_bounds [OF assms])
  have "list_all safe_char (build_channel (df_channel d) '''')"
    using gathered_tokens(3) [of "df_channel d"] by (auto simp: safe_token_iff)
  moreover have "safe_token (co_host (gathered d)) 63" "safe_token (co_image (gathered d)) 63"
    by (simp_all add: gathered_def Let_def gathered_tokens split: prod.split)
  ultimately show ?thesis
    using collector_data_file [OF b] length_collected [OF b]
    by (simp add: collector_main_def collected_lines_def gathered_def Let_def split: prod.split)
qed

definition demo_facts :: device_facts where
  "demo_facts = \<lparr>df_os_release = None, df_channel = None, df_uptime = 7, df_synced = True,
     df_ifaces = [(''lo'', Some (Some ''127.0.0.1'')), (''eth0'', Some (Some ''10.0.0.2''))],
     df_hostname = Some ''pi'', df_rauc = None, df_boottime = 9\<rparr>"

definition good_world :: "string \<Rightarrow> publish_world" where
  "good_world data = \<lparr>pw_dir = True, pw_dir_safe = True, pw_create = True, pw_written = int (length data),
     pw_chmod = True, pw_close = True, pw_rename = True\<rparr>"

theorem collector_always_fits_witness:
  "\<exists>data. collector_data (gathered demo_facts) = Some data \<and> length data \<le> 520 \<and>
      collector_main demo_facts (good_world ''x'') = write_snapshot (good_world ''x'') data \<and>
      take 19 data = ''FACEPLATE_SYSTEM_V1'' \<and>
      safe_token (co_host (gathered demo_facts)) 63 \<and> safe_token (co_image (gathered demo_facts)) 63 \<and>
      list_all safe_char (co_channel (gathered demo_facts))"
  by (rule collector_always_fits) (simp_all add: demo_facts_def)

section \<open>A value that RAUC should not have reported\<close>

text \<open>
  \<open>json_token_in\<close> copies the value before it checks it, and \<open>rauc_status\<close> does not look at the
  result for the fields of the booted slot.
\<close>

definition odd_json :: string where
  "odd_json = map (\<lambda>c. if c = CHR 0x27 then CHR 0x22 else c)
     ''{'booted':'A','slots':[{'rootfs.0':{'state':'booted','boot_status':'not ok'}}]}''"

text \<open>
  One value with a blank in it, reported by RAUC for the booted slot, is published
  although the check rejected it, and makes the reader refuse the whole snapshot: host, image and
  address disappear from the console with it.
\<close>

theorem unchecked_value_hides_the_system:
  "rauc_status (Some odd_json) = (''A'', '''', ''not ok'') \<and>
   json_token_in odd_json ''boot_status'' 24 = Some (''not ok'', False) \<and>
   parse_system (the (collector_data (gathered (demo_facts\<lparr>df_rauc := Some odd_json\<rparr>)))) = None \<and>
   parse_system (the (collector_data (gathered demo_facts))) \<noteq> None"
proof -
  have c: "cstr (take 8191 odd_json) = odd_json" by (simp add: odd_json_def cstr_def)
  have ne: "odd_json \<noteq> []" by (simp add: odd_json_def)
  have p1: "json_token_in odd_json ''booted'' 32 = Some (''A'', True)"
    by (simp add: json_token_in_def ne json_needle_def snprintf_def odd_json_def token_ok_def safe_char_def between_def code_def)
  have p2: "rauc_booted_slot_range odd_json = Some (map (\<lambda>c. if c = CHR 0x27 then CHR 0x22 else c)
       ''{'state':'booted','boot_status':'not ok'}'')"
    by (simp add: rauc_booted_slot_range_def odd_json_def booted_mark_def rcut_def)
  let ?obj = "map (\<lambda>c. if c = CHR 0x27 then CHR 0x22 else c) ''{'state':'booted','boot_status':'not ok'}''"
  have p3: "json_store ?obj ''boot_status'' 24 '''' = ''not ok''" "json_store ?obj ''version'' 64 '''' = ''''"
    by (simp_all add: json_store_def json_token_in_def json_needle_def snprintf_def token_ok_def safe_char_def
      between_def code_def)
  have r: "rauc_status (Some odd_json) = (''A'', '''', ''not ok'')"
    unfolding rauc_status_def option.case Let_def c p1 p2 p3 by (simp add: ne)
  have q: "json_token_in odd_json ''boot_status'' 24 = Some (''not ok'', False)"
    by (simp add: json_token_in_def ne json_needle_def snprintf_def odd_json_def token_ok_def safe_char_def between_def code_def)
  have g: "gathered (demo_facts\<lparr>df_rauc := Some odd_json\<rparr>) = demo_collected\<lparr>co_image := ''unknown'', co_rauc_boot := ''not ok''\<rparr>"
    "gathered demo_facts = demo_collected\<lparr>co_image := ''unknown'', co_slot := ''''\<rparr>"
    by (simp_all add: gathered_def r demo_facts_def demo_collected_def device_hostname_def os_image_def
      build_channel_def rauc_status_def [of None] Let_def cstr_def token_ok_def safe_char_def between_def code_def)
  have b: "collected_bounds (gathered (demo_facts\<lparr>df_rauc := Some odd_json\<rparr>))" "collected_valid (gathered demo_facts)"
    by (simp_all add: g collected_valid_def collected_bounds_def demo_collected_def safe_token_iff opt_token_def
      safe_char_def between_def code_def)
  let ?c = "demo_collected\<lparr>co_image := ''unknown'', co_rauc_boot := ''not ok''\<rparr>"
  have l: "\<forall>l\<in>set (collected_lines ?c). l \<noteq> [] \<and> nl \<notin> set l"
    by (simp add: collected_lines_def demo_collected_def dec_not_equals)
  have x: "system_line ''rauc_boot=not ok'' f = None" for f
    by (simp add: system_line_def safe_token_iff safe_char_def between_def code_def)
  have y: "safe_token ''pi'' 63" "safe_token ''unknown'' 63" "safe_token ''10.0.0.2'' 63" "safe_token ''yes'' 63"
    "safe_token ''A'' 63" "safe_token (dec 7) 63" "sources_parse_u64 (dec 7) = Some 7"
    using dec_safe [of 7] sources_parse_dec [of 7] by (simp_all add: safe_token_iff safe_char_def between_def code_def)
  have "parse_system (as_file (collected_lines ?c)) = system_lines (tl (collected_lines ?c)) no_fields"
    unfolding parse_system_def strtok_lines [OF l, folded as_file_def] by (simp add: collected_lines_def)
  also have "\<dots> = None"
    by (simp add: collected_lines_def demo_collected_def y x
      system_line_fields [OF y(1), simplified] system_line_fields [OF y(2), simplified]
      system_line_fields [OF y(3), simplified] system_line_fields [OF y(4), simplified]
      system_line_fields [OF y(5), simplified] system_line_fields [OF y(6), simplified])
  finally have n: "parse_system (as_file (collected_lines ?c)) = None" .
  have m: "cstr (as_file (collected_lines demo)) = as_file (collected_lines demo)" if "collected_valid demo" for demo
    using as_file_cstr collected_lines_plain(2) [OF that] by blast
  show ?thesis
    using r q n collector_data_file [OF b(1)] collector_data_file [of "gathered demo_facts"] b(2)
      parse_collected [OF b(2)] m [OF b(2)]
    by (simp add: g(1) collected_valid_def)
qed

section \<open>Publishing is all or nothing\<close>

text \<open>
  The directory as its readers see it: the temporary file and the published one. What a call does
  when the answers of the world are given.
\<close>

type_synonym publish_dir = "string option \<times> string option"

fun publish_effect :: "publish_world \<Rightarrow> publish_call \<Rightarrow> publish_dir \<Rightarrow> publish_dir" where
  "publish_effect w Unlink_tmp (tmp, st) = (None, st)"
| "publish_effect w Create_tmp (tmp, st) = (if pw_create w then (Some [], st) else (tmp, st))"
| "publish_effect w (Write_tmp data) (tmp, st) = (map_option (\<lambda>t. t @ take (nat (pw_written w)) data) tmp, st)"
| "publish_effect w Rename_tmp_to_status (tmp, st) = (if pw_rename w \<and> tmp \<noteq> None then (None, tmp) else (tmp, st))"
| "publish_effect w _ d = d"

definition publish_run :: "publish_world \<Rightarrow> publish_call list \<Rightarrow> publish_dir \<Rightarrow> publish_dir" where
  "publish_run w calls d = foldl (\<lambda>d call. publish_effect w call d) d calls"

text \<open>
  Property C28. A reader of the published file never sees part of a snapshot: after every number of
  calls the file is what it was or all of the new text, it is the new text in the end exactly if
  the collector reports success, and then or after a failure no temporary file is left in a
  directory that could be opened.
\<close>

theorem publishing_is_atomic:
  "(case write_snapshot w data of (good, calls) \<Rightarrow>
      snd (publish_run w (take n calls) (tmp, old)) \<in> {old, Some data} \<and>
      snd (publish_run w calls (tmp, old)) = (if good then Some data else old) \<and>
      fst (publish_run w calls (tmp, old)) = (if pw_dir w then None else tmp) \<and>
      (pw_dir w = (calls \<noteq> [] \<and> last calls = Close_dir)))"
proof -
  have less: "n \<in> {0, 1, 2, 3, 4, 5, 6, 7} \<or> 8 \<le> n" by auto
  show ?thesis
    using less by (elim disjE insertE emptyE) (simp_all add: write_snapshot_def publish_run_def take_Cons')
qed

section \<open>The booted slot\<close>

lemma strstr_split_Some: "strstr_split needle s = Some (a, b) \<Longrightarrow> s = a @ b \<and> take (length needle) b = needle"
  by (induction s arbitrary: a) (auto split: if_splits)

text \<open>Braces opened and not closed.\<close>

definition open_braces :: "string \<Rightarrow> int" where
  "open_braces s = int (count_list s (CHR 0x7B)) - int (count_list s (CHR 0x7D))"

lemma open_braces_simps [simp]: "open_braces [] = 0"
  "open_braces (c # s) = (if c = CHR 0x7B then 1 else if c = CHR 0x7D then - 1 else 0) + open_braces s"
  "open_braces (s @ t) = open_braces s + open_braces t"
  by (simp_all add: open_braces_def)

lemma match_braces_Some:
  "match_braces d s = Some r \<Longrightarrow> \<exists>rest. s = r @ rest \<and> r \<noteq> [] \<and> last r = CHR 0x7D \<and> d + open_braces r = 0"
proof (induction d s arbitrary: r rule: match_braces.induct)
  case (2 d c s)
  show ?case
  proof (cases "c = CHR 0x7D \<and> d - 1 = 0")
    case True
    with "2.prems" show ?thesis by auto
  next
    case False
    define e where "e = (if c = CHR 0x7B then d + 1 else if c = CHR 0x7D then d - 1 else d)"
    obtain q where q: "match_braces e s = Some q" "r = c # q"
      using False "2.prems" by (auto simp: e_def split: if_splits)
    then have "\<exists>rest. s = q @ rest \<and> q \<noteq> [] \<and> last q = CHR 0x7D \<and> e + open_braces q = 0"
      using False "2.IH" by (auto simp: e_def split: if_splits)
    with q(2) show ?thesis by (auto simp: e_def)
  qed
qed simp

lemma match_braces_prefix:
  "match_braces d s = Some r \<Longrightarrow> 0 < d \<Longrightarrow> p @ q = r \<Longrightarrow> q \<noteq> [] \<Longrightarrow> 0 < d + open_braces p"
proof (induction d s arbitrary: r p rule: match_braces.induct)
  case (2 d c s)
  show ?case
  proof (cases p)
    case (Cons x p')
    define e where "e = (if c = CHR 0x7B then d + 1 else if c = CHR 0x7D then d - 1 else d)"
    have f: "\<not> (c = CHR 0x7D \<and> d - 1 = 0)" using "2.prems" Cons by (auto split: if_splits)
    then obtain r' where r': "match_braces e s = Some r'" "r = c # r'"
      using "2.prems"(1) by (auto simp: e_def split: if_splits)
    have e: "0 < e" using f "2.prems"(2) by (auto simp: e_def)
    have "0 < e + open_braces p'"
      using "2.IH" r' e "2.prems"(3,4) Cons f by (auto simp: e_def split: if_splits)
    then show ?thesis using Cons r'(2) "2.prems"(3) by (auto simp: e_def)
  qed (use "2.prems" in simp)
qed simp

text \<open>
  What \<open>rauc_booted_slot_range\<close> returns is one balanced object of the text: it starts
  with a brace, ends with the brace that closes it and with no earlier one, and if no brace closes
  between its start and the mark, the mark lies inside.
\<close>

theorem booted_slot_is_one_object:
  assumes "rauc_booted_slot_range json = Some obj"
  shows "\<exists>before behind inner. json = before @ obj @ behind \<and> hd obj = CHR 0x7B \<and> last obj = CHR 0x7D \<and>
     open_braces obj = 0 \<and> (\<forall>k. 0 < k \<and> k < length obj \<longrightarrow> 0 < open_braces (take k obj)) \<and>
     (\<exists>mark. take (length booted_mark) mark = booted_mark \<and> json = before @ CHR 0x7B # inner @ mark \<and>
        CHR 0x7B \<notin> set inner \<and> (CHR 0x7D \<notin> set inner \<longrightarrow> take (length inner + 1 + length booted_mark) obj =
          CHR 0x7B # inner @ booted_mark))"
proof -
  obtain bef mark where m: "strstr_split booted_mark json = Some (bef, mark)"
    using assms by (auto simp: rauc_booted_slot_range_def split: option.splits)
  then obtain a b where ab: "rcut CHR 0x7B bef = Some (a, b)"
    using assms by (auto simp: rauc_booted_slot_range_def split: option.splits)
  have j: "json = a @ CHR 0x7B # b @ mark" "take (length booted_mark) mark = booted_mark" "CHR 0x7B \<notin> set b"
    using strstr_split_Some [OF m] ab by (auto simp: rcut_Some)
  have r: "match_braces 0 (CHR 0x7B # b @ mark) = Some obj"
    using assms m ab by (simp add: rauc_booted_slot_range_def)
  obtain rest where o: "CHR 0x7B # b @ mark = obj @ rest" "obj \<noteq> []" "last obj = CHR 0x7D" "open_braces obj = 0"
    using match_braces_Some [OF r] by auto
  obtain tail where t: "obj = CHR 0x7B # tail" "match_braces 1 (b @ mark) = Some tail"
    using r by auto
  have p: "0 < open_braces (take k obj)" if "0 < k" "k < length obj" for k
    using match_braces_prefix [OF t(2), of "take (k - 1) tail" "drop (k - 1) tail"] that t(1)
    by (cases k) auto
  have c: "take (length b + 1 + length booted_mark) obj = CHR 0x7B # b @ booted_mark" if n: "CHR 0x7D \<notin> set b"
  proof -
    define k where "k = length b + 1 + length booted_mark"
    have full: "take k (obj @ rest) = CHR 0x7B # b @ booted_mark"
      unfolding o(1) [symmetric] k_def using j(2) by simp
    have zero: "count_list booted_mark (CHR 0x7B) = 0" "count_list booted_mark (CHR 0x7D) = 0"
      by (simp_all add: booted_mark_def)
    have "length obj \<ge> k"
    proof (rule ccontr)
      assume "\<not> k \<le> length obj"
      then obtain z where z: "CHR 0x7B # b @ booted_mark = obj @ z" using full by (metis linorder_le_cases take_all take_append)
      then have "count_list (CHR 0x7B # b @ booted_mark) (CHR 0x7D) = count_list obj (CHR 0x7D) + count_list z (CHR 0x7D)"
        by simp
      moreover have "count_list (CHR 0x7B # b @ booted_mark) (CHR 0x7D) = 0"
        using n zero by (simp add: count_list_0_iff)
      ultimately have "count_list obj (CHR 0x7D) = 0" by simp
      then show False using o(2,3) last_in_set [of obj] by (auto simp: count_list_0_iff)
    qed
    then show ?thesis using full by (simp add: k_def)
  qed
  have "json = a @ obj @ rest" using j(1) o(1) by simp
  then show ?thesis using j o t(1) p c by (metis list.sel(1))
qed

definition plain_json :: string where
  "plain_json = map (\<lambda>c. if c = CHR 0x27 then CHR 0x22 else c) ''[{'state':'booted','x':{}},{}]''"

theorem booted_slot_is_one_object_witness:
  "\<exists>before behind inner. plain_json = before @ take 25 (drop 1 plain_json) @ behind \<and>
     open_braces (take 25 (drop 1 plain_json)) = 0 \<and> CHR 0x7B \<notin> set inner"
proof -
  have "rauc_booted_slot_range plain_json = Some (take 25 (drop 1 plain_json))"
    by (simp add: rauc_booted_slot_range_def plain_json_def booted_mark_def rcut_def)
  from booted_slot_is_one_object [OF this] show ?thesis by metis
qed

end
