(* ===== verification/Strtol.thy ===== *)
theory Strtol
  imports Cstring Misc
begin

text \<open>
  The number scanners of the C library (\<open>strtol\<close>, \<open>strtoul\<close>, \<open>atoi\<close>) and the helpers of
  \<open>src/shl/misc.h\<close> that are built on the library: \<open>shl_strtou\<close>, the replacement of environment
  variables in an argument vector, the copying of argument vectors and \<open>shl_next_pow2\<close>.

  Numbers are read as natural numbers and then brought to the width of the result, so that the
  overflow of each step is written out. An argument vector is a list of strings.
\<close>

section \<open>Scanning a number\<close>

text \<open>The value of a digit, 36 for what is none.\<close>

definition digit_value :: "char \<Rightarrow> nat" where
  "digit_value c =
     (if is_digit c then code c - 48
      else if between CHR ''a'' CHR ''z'' c then code c - 87
      else if between CHR ''A'' CHR ''Z'' c then code c - 55
      else 36)"

definition number :: "nat \<Rightarrow> string \<Rightarrow> nat" where
  "number base ds = foldl (\<lambda>n c. n * base + digit_value c) 0 ds"

text \<open>
  Blanks, a sign, for base 16 and base 0 the prefix \<open>0x\<close>, and the longest run of digits: whether
  there was a minus, the magnitude, the rest; \<open>None\<close> if there is no digit.
\<close>

definition scan_sign :: "string \<Rightarrow> bool \<times> string" where
  "scan_sign s =
     (let t = dropWhile is_space s
      in if t \<noteq> [] \<and> hd t = CHR ''-'' then (True, tl t)
         else if t \<noteq> [] \<and> hd t = CHR ''+'' then (False, tl t)
         else (False, t))"

definition hex_prefix :: "string \<Rightarrow> bool" where
  "hex_prefix t \<longleftrightarrow> (case t of a # b # c # _ \<Rightarrow> a = CHR ''0'' \<and> (b = CHR ''x'' \<or> b = CHR ''X'') \<and> digit_value c < 16 | _ \<Rightarrow> False)"

definition scan_base :: "nat \<Rightarrow> string \<Rightarrow> nat \<times> string" where
  "scan_base base t =
     (if (base = 0 \<or> base = 16) \<and> hex_prefix t then (16, drop 2 t)
      else if base = 0 then (if t \<noteq> [] \<and> hd t = CHR ''0'' then (8, t) else (10, t))
      else (base, t))"

definition scan_number :: "nat \<Rightarrow> string \<Rightarrow> (bool \<times> nat \<times> string) option" where
  "scan_number base s =
     (let (neg, t) = scan_sign s;
          (b, t) = scan_base base t;
          ds = takeWhile (\<lambda>c. digit_value c < b) t
      in if ds = [] then None else Some (neg, number b ds, dropWhile (\<lambda>c. digit_value c < b) t))"

text \<open>\<open>strtoul\<close>: the value, what follows, and whether \<open>errno\<close> is \<open>ERANGE\<close>.\<close>

definition strtoul :: "nat \<Rightarrow> string \<Rightarrow> u64 \<times> string \<times> bool" where
  "strtoul base s =
     (case scan_number base s of
        None \<Rightarrow> (0, s, False)
      | Some (neg, n, rest) \<Rightarrow>
          if n \<ge> 2 ^ 64 then (- 1, rest, True)
          else (if neg then - of_nat n else of_nat n, rest, False))"

text \<open>\<open>strtol\<close>, which clamps, and \<open>atoi\<close>, which keeps the low bits of it.\<close>

definition strtol :: "nat \<Rightarrow> string \<Rightarrow> int \<times> string" where
  "strtol base s =
     (case scan_number base s of
        None \<Rightarrow> (0, s)
      | Some (neg, n, rest) \<Rightarrow>
          (if neg then max (- (2 ^ 63)) (- int n) else min (2 ^ 63 - 1) (int n), rest))"

definition atoi :: "string \<Rightarrow> u32" where
  "atoi s = word_of_int (fst (strtol 10 s))"

section \<open>Helpers of misc.h\<close>

definition shl_strtou :: "string option \<Rightarrow> u32 option" where
  "shl_strtou input =
     (case input of
        None \<Rightarrow> None
      | Some s \<Rightarrow>
          if s = [] then None
          else
            let (val, rest, range) = strtoul 0 s;
                res = (ucast val :: u32)
            in if rest \<noteq> [] \<or> range \<or> (ucast res :: u64) \<noteq> val then None else Some res)"

fun pow2_loop :: "nat \<Rightarrow> nat \<Rightarrow> u64 \<Rightarrow> u64" where
  "pow2_loop 0 i num = num"
| "pow2_loop (Suc n) i num = pow2_loop n (2 * i) (or num (drop_bit i num))"

text \<open>The loop runs for the shifts 1, 2, 4, 8, 16 and 32.\<close>

definition shl_next_pow2 :: "u64 \<Rightarrow> u64" where
  "shl_next_pow2 num = (if num = 0 then 0 else pow2_loop 6 1 (num - 1) + 1)"

definition shl_replace_var :: "(string \<Rightarrow> string option) \<Rightarrow> string \<Rightarrow> string" where
  "shl_replace_var getenv s =
     (if s = [] \<or> hd s \<noteq> CHR ''$'' then s
      else
        let s = tl s
        in if s \<noteq> [] \<and> hd s = CHR ''$'' then s
           else (case getenv s of None \<Rightarrow> [] | Some v \<Rightarrow> v))"

text \<open>
  The copies of argument vectors are one allocation each, of a table of pointers and of the
  strings behind it; \<open>table_bytes\<close> is its size.
\<close>

definition table_bytes :: "string list \<Rightarrow> nat" where
  "table_bytes ts = packed_size ts + (length ts + 1) * 8"

definition shl_replace_array_with_env :: "bool \<Rightarrow> (string \<Rightarrow> string option) \<Rightarrow> string list option \<Rightarrow> errno + string list" where
  "shl_replace_array_with_env mem getenv argv =
     (case argv of
        None \<Rightarrow> Inl EINVAL
      | Some args \<Rightarrow>
          if \<not> mem then Inl EINVAL
          else Inr (map (shl_replace_var getenv) args))"

text \<open>An entry may be missing; the copy has an empty string in its place.\<close>

definition shl_dup_array_size :: "bool \<Rightarrow> string option list option \<Rightarrow> errno + string list" where
  "shl_dup_array_size mem argv =
     (case argv of
        None \<Rightarrow> Inl EINVAL
      | Some args \<Rightarrow>
          if \<not> mem then Inl ENOMEM
          else Inr (map (\<lambda>a. case a of None \<Rightarrow> [] | Some s \<Rightarrow> s) args))"

definition shl_dup_array :: "bool \<Rightarrow> string list option \<Rightarrow> errno + string list" where
  "shl_dup_array mem argv =
     (case argv of None \<Rightarrow> Inl EINVAL | Some args \<Rightarrow> shl_dup_array_size mem (Some (map Some args)))"

lemma shl_dup_array_copy [simp]: "shl_dup_array True (Some args) = Inr args"
  by (simp add: shl_dup_array_def shl_dup_array_size_def comp_def)

section \<open>Decimal numbers survive\<close>

lemma number_snoc: "number b (ds @ [c]) = number b ds * b + digit_value c"
  by (simp add: number_def)

lemma digit_value_decimal: "digit_value c < 10 \<longleftrightarrow> is_digit c"
  by (auto simp: digit_value_def is_digit_bounds between_def code_def)

lemma digit_value_digit: "is_digit c \<Longrightarrow> digit_value c = digit_of c"
  by (simp add: digit_value_def digit_of_def)

lemma number_digits: "list_all is_digit ds \<Longrightarrow> number 10 ds = undec ds"
proof (induction ds rule: rev_induct)
  case Nil
  then show ?case by (simp add: number_def undec_def)
next
  case (snoc c ds)
  then show ?case by (simp add: number_snoc undec_snoc digit_value_digit)
qed

lemma dec_all_digits: "list_all is_digit (dec n)"
  using dec_digits by (auto simp: list_all_iff)

lemma takeWhile_dec: "takeWhile (\<lambda>c. digit_value c < 10) (dec n @ rest) = dec n @ takeWhile (\<lambda>c. digit_value c < 10) rest"
  "dropWhile (\<lambda>c. digit_value c < 10) (dec n @ rest) = dropWhile (\<lambda>c. digit_value c < 10) rest"
  using dec_digits [of _ n] by (simp_all add: digit_value_decimal takeWhile_append2 dropWhile_append2)

lemma dec_first: "\<exists>c cs. dec n = c # cs \<and> is_digit c \<and> (c = CHR ''0'' \<longrightarrow> n = 0)"
proof (induction n rule: dec.induct)
  case (1 n)
  show ?case
  proof (cases "n < 10")
    case True
    then have "dec n = [digit_char n]" by (subst dec.simps) simp
    moreover have "digit_char n = CHR ''0'' \<longrightarrow> n = 0"
      using code_digit_char [of n] True by (auto simp: code_def)
    ultimately show ?thesis using True by simp
  next
    case False
    have "dec n = dec (n div 10) @ [digit_char (n mod 10)]" using False by (subst dec.simps) simp
    moreover have "n div 10 \<noteq> 0" using False by simp
    ultimately show ?thesis using "1.IH" False by auto
  qed
qed

lemma number_dec: "number 10 (dec n) = n"
  by (simp add: number_digits [OF dec_all_digits])

lemma run_dec: "takeWhile (\<lambda>c. digit_value c < 10) (dec n) = dec n"
  "dropWhile (\<lambda>c. digit_value c < 10) (dec n) = []"
  using takeWhile_dec [of n "[]"] by (simp_all del: takeWhile_eq_all_conv dropWhile_eq_Nil_conv)

lemma scan_number_dec: "scan_number 10 (dec n) = Some (False, n, [])"
proof -
  obtain c cs where c: "dec n = c # cs" "is_digit c" using dec_first [of n] by blast
  have "\<not> is_space c" "c \<noteq> CHR ''-''" "c \<noteq> CHR ''+''" using c(2) by (auto simp: is_digit_bounds is_space_def code_def)
  then have "scan_sign (dec n) = (False, dec n)" by (simp add: scan_sign_def c Let_def)
  then show ?thesis
    by (simp add: scan_number_def scan_base_def run_dec number_dec Let_def)
qed

lemma scan_number_dec0: "scan_number 0 (dec n) = Some (False, n, [])"
proof -
  obtain c cs where c: "dec n = c # cs" "is_digit c" "c = CHR ''0'' \<Longrightarrow> n = 0" using dec_first [of n] by blast
  have "\<not> is_space c" "c \<noteq> CHR ''-''" "c \<noteq> CHR ''+''" using c(2) by (auto simp: is_digit_bounds is_space_def code_def)
  then have s: "scan_sign (dec n) = (False, dec n)" by (simp add: scan_sign_def c Let_def)
  show ?thesis
  proof (cases "n = 0")
    case True
    have "dec 0 = ''0''" by code_simp
    then have "dec n = ''0''" using True by simp
    then show ?thesis
      using True s by (simp add: scan_number_def scan_base_def hex_prefix_def number_def digit_value_def is_digit_bounds code_def)
  next
    case False
    then have "c \<noteq> CHR ''0''" using c(3) by blast
    then have "scan_base 0 (dec n) = (10, dec n)"
      by (auto simp: scan_base_def hex_prefix_def c(1) split: list.splits)
    then show ?thesis
      using s by (simp add: scan_number_def run_dec number_dec Let_def)
  qed
qed

lemma shl_strtou_dec: "n < 2 ^ 32 \<Longrightarrow> shl_strtou (Some (dec n)) = Some (of_nat n)"
  by (simp add: shl_strtou_def strtoul_def scan_number_dec0 unsigned_of_nat take_bit_nat_eq_self word_eq_iff_unsigned)

lemma atoi_dec: "n < 2 ^ 31 \<Longrightarrow> atoi (dec n) = of_nat n"
  by (simp add: atoi_def strtol_def scan_number_dec)

end
