(* ===== verification/Conf.thy ===== *)
theory Conf
  imports Strtol
begin

text \<open>
  The configuration parser, \<open>src/misc/conf.c\<close> and \<open>src/misc/conf.h\<close>, with the option types of
  \<open>src/config.c\<close> that it calls through their tables.

  In C an option points to its field of \<open>struct kmscon_conf_t\<close>; no two options share a field, so
  here the field is part of the option, \<open>opt_val\<close>, and the fields that no option owns (\<open>exit\<close>,
  \<open>seat_config\<close>) are part of the context. A pointer is \<open>None\<close> when it is \<open>NULL\<close>. The tables of
  functions are the data types \<open>conf_type\<close>, \<open>aftercheck\<close> and \<open>file_hook\<close>, so that the pointer
  comparison of two types is the comparison of two values; dispatching through a table is a case
  distinction. \<open>getopt_long\<close>, \<open>libxkbcommon\<close> and the file system are parameters.
\<close>

section \<open>Values and options\<close>

datatype conf_type =
  T_bool | T_int | T_uint | T_string | T_string_list | T_grab | T_vt | T_login | T_gpus | T_color

definition has_arg :: "conf_type \<Rightarrow> bool" where
  "has_arg ty \<longleftrightarrow> ty \<noteq> T_bool \<and> ty \<noteq> T_login"

datatype conf_val =
    V_bool bool
  | V_int u32
  | V_uint u32
  | V_string "string option"
  | V_list "string list option"
  | V_grab "conf_grab option"
  | V_login bool "string list option"
  | V_color "u8 list"

datatype aftercheck = Check_none | Check_help | Check_version | Check_debug | Check_drm | Check_login

datatype file_hook = File_none | File_login

text \<open>
  \<open>opt_long\<close> is the name with its prefix \<open>no-\<close>; \<open>opt_def\<close> is what the default of the type makes of
  the pointer \<open>def\<close>. The member \<open>copy\<close> is left out: no option sets it.
\<close>

record conf_option =
  opt_locked :: bool
  opt_short :: "char option"
  opt_long :: "string option"
  opt_type :: conf_type
  opt_check :: aftercheck
  opt_file :: file_hook
  opt_val :: conf_val
  opt_def :: conf_val

datatype conf_print = Print_help | Print_version bool

record conf_ctx =
  cx_opts :: "conf_option list"
  cx_seat_config :: bool
  cx_exit :: bool
  cx_printed :: "conf_print list"

text \<open>
  What \<open>getopt_long\<close> returns: the values of its calls with \<open>optarg\<close>, up to the one that ends the
  loop, then \<open>optind\<close> and the arguments in their new order. It is called with the short options
  and with the long ones (name, whether an argument is required, value).
\<close>

type_synonym getopt =
  "string \<Rightarrow> (string \<times> bool \<times> nat) list \<Rightarrow> string list \<Rightarrow> (nat \<times> string option) list \<times> nat \<times> string list"

text \<open>A configuration file: what \<open>access\<close>, \<open>open\<close> and the calls of \<open>read\<close> say; \<open>None\<close> is an error.\<close>

record conf_file =
  cf_exists :: bool
  cf_readable :: bool
  cf_opens :: bool
  cf_reads :: "string option list"

record conf_env =
  ce_mem :: bool
  ce_getopt :: getopt
  ce_keysym :: "string \<Rightarrow> u32"
  ce_drm :: bool
  ce_file :: "string \<Rightarrow> conf_file"

section \<open>Types\<close>

text \<open>
  A parser of a value that splits its argument loops for ever if the second pass of the split does.
  Inside the parsers this is the result \<open>ENDLESS\<close>, the number zero that no call returns: every
  parser hands the result of the split on, so it stays what it is until the loops over the lines of
  a file and over the command line, which turn it into \<open>None\<close>, the run that never returns.
\<close>

abbreviation ENDLESS :: errno where "ENDLESS \<equiv> Eother 0"

definition split_words :: "bool \<Rightarrow> string \<Rightarrow> char \<Rightarrow> bool \<Rightarrow> errno + string list" where
  "split_words mem arg sep keep =
     (case shl_split_string mem arg sep keep of
        None \<Rightarrow> Inl ENDLESS
      | Some (Inl err) \<Rightarrow> Inl err
      | Some (Inr (ts, n)) \<Rightarrow> Inr ts)"

subsection \<open>Grabs\<close>

definition to_lower :: "char \<Rightarrow> char" where
  "to_lower c = (if between CHR ''A'' CHR ''Z'' c then char_of (code c + 32) else c)"

definition strcasecmp_eq :: "string \<Rightarrow> string \<Rightarrow> bool" where
  "strcasecmp_eq s t \<longleftrightarrow> map to_lower s = map to_lower t"

abbreviation SHIFT_MASK :: u32 where "SHIFT_MASK \<equiv> 1"
abbreviation LOCK_MASK :: u32 where "LOCK_MASK \<equiv> 2"
abbreviation CONTROL_MASK :: u32 where "CONTROL_MASK \<equiv> 4"
abbreviation ALT_MASK :: u32 where "ALT_MASK \<equiv> 8"
abbreviation LOGO_MASK :: u32 where "LOGO_MASK \<equiv> 16"

definition modifier :: "string \<Rightarrow> u32 option" where
  "modifier s =
     (if strcasecmp_eq s ''shift'' then Some SHIFT_MASK
      else if strcasecmp_eq s ''lock'' then Some LOCK_MASK
      else if strcasecmp_eq s ''control'' \<or> strcasecmp_eq s ''ctrl'' then Some CONTROL_MASK
      else if strcasecmp_eq s ''alt'' then Some ALT_MASK
      else if strcasecmp_eq s ''logo'' then Some LOGO_MASK
      else None)"

definition skip_blanks :: "string \<Rightarrow> string" where
  "skip_blanks s = dropWhile (\<lambda>c. c = CHR '' '') s"

text \<open>The first loop: the modifiers in angle brackets.\<close>

function grab_mods :: "string \<Rightarrow> u32 \<Rightarrow> (u32 \<times> string) option" where
  "grab_mods arg mods =
     (let t = skip_blanks arg
      in if t = [] \<or> hd t \<noteq> CHR ''<'' then Some (mods, t)
         else
           case cut CHR ''>'' (tl t) of
             None \<Rightarrow> None
           | Some (name, rest) \<Rightarrow>
               (case modifier name of None \<Rightarrow> None | Some m \<Rightarrow> grab_mods rest (or mods m)))"
  by pat_completeness auto
termination
proof (relation "measure (\<lambda>(arg, mods). length arg)", goal_cases)
  case (2 arg mods t p name rest m)
  then have t: "t = skip_blanks arg" "tl t = name @ CHR ''>'' # rest" by (auto simp: cut_Some)
  have "length (tl t) \<le> length arg"
    unfolding t(1) using length_dropWhile_le [of "\<lambda>c. c = CHR '' ''" arg] by (simp add: skip_blanks_def)
  then show ?case unfolding t(2) by simp
qed simp

declare grab_mods.simps [simp del]

text \<open>
  \<open>parse_single_grab\<close>: the modifiers so far, with those of \<open>arg\<close> added, and the keysym if \<open>arg\<close>
  names one.
\<close>

definition parse_single_grab :: "conf_env \<Rightarrow> string \<Rightarrow> u32 \<Rightarrow> bool \<Rightarrow> (u32 \<times> u32 option) option" where
  "parse_single_grab e arg mods allow_mods =
     (case (if allow_mods then grab_mods arg mods else Some (mods, skip_blanks arg)) of
        None \<Rightarrow> None
      | Some (mods, t) \<Rightarrow>
          let start = rev (skip_blanks (rev (skip_blanks t)))
          in if start = [] then Some (mods, None)
             else if ce_keysym e start = 0 then None
             else Some (mods, Some (ce_keysym e start)))"

text \<open>The inner loop over the keys of one grab; \<open>first\<close> is \<open>j == 0\<close>.\<close>

fun grab_keys :: "conf_env \<Rightarrow> bool \<Rightarrow> string list \<Rightarrow> u32 \<Rightarrow> u32 list \<Rightarrow> (u32 \<times> u32 list) option" where
  "grab_keys e first [] mods syms = Some (mods, syms)"
| "grab_keys e first (k # ks) mods syms =
     (case parse_single_grab e k mods first of
        None \<Rightarrow> None
      | Some (mods, None) \<Rightarrow> grab_keys e False ks mods syms
      | Some (mods, Some keysym) \<Rightarrow> grab_keys e False ks mods (syms @ [keysym]))"

text \<open>
  The outer loop: \<open>grab\<close> are the entries below \<open>l\<close> and \<open>mods\<close> is \<open>grab->mods[l]\<close>, which starts at
  zero and keeps what an entry without a key has left there.
\<close>

fun grab_entries :: "conf_env \<Rightarrow> string list \<Rightarrow> u32 \<Rightarrow> conf_grab \<Rightarrow> errno + conf_grab" where
  "grab_entries e [] mods grab = Inr grab"
| "grab_entries e (w # ws) mods grab =
     (case split_words (ce_mem e) w CHR ''+'' False of
        Inl err \<Rightarrow> Inl err
      | Inr keys \<Rightarrow>
          if keys = [] then grab_entries e ws mods grab
          else (case grab_keys e True keys mods [] of
                  None \<Rightarrow> Inl EFAULT
                | Some (mods', syms) \<Rightarrow>
                    if syms = [] then grab_entries e ws mods' grab
                    else grab_entries e ws 0 (grab @ [(mods', syms)])))"

definition conf_parse_grab :: "conf_env \<Rightarrow> string \<Rightarrow> errno + conf_grab" where
  "conf_parse_grab e arg =
     (case split_words (ce_mem e) arg CHR '','' False of
        Inl err \<Rightarrow> Inl err
      | Inr ws \<Rightarrow> if \<not> ce_mem e then Inl ENOMEM else grab_entries e ws 0 [])"

subsection \<open>Parsing and copying a value\<close>

definition gpu_mode :: "string \<Rightarrow> u32 option" where
  "gpu_mode arg =
     (if arg = ''all'' then Some 0
      else if arg = ''aux'' \<or> arg = ''auxiliary'' then Some 1
      else if arg = ''primary'' \<or> arg = ''single'' then Some 2
      else None)"

text \<open>The components are stored one by one, so an error leaves those before it changed.\<close>

fun color_values :: "nat \<Rightarrow> string list \<Rightarrow> u8 list \<Rightarrow> status \<times> u8 list" where
  "color_values i [] rgb = (ok, rgb)"
| "color_values i (s # ss) rgb =
     (case shl_strtou (Some s) of
        None \<Rightarrow> (fails EINVAL, rgb)
      | Some n \<Rightarrow> if n > 255 then (fails EFAULT, rgb) else color_values (i + 1) ss (rgb[i := ucast n]))"

definition conf_parse_color :: "bool \<Rightarrow> string \<Rightarrow> u8 list \<Rightarrow> status \<times> u8 list" where
  "conf_parse_color mem arg rgb =
     (case split_words mem arg CHR '','' True of
        Inl err \<Rightarrow> (fails err, rgb)
      | Inr ws \<Rightarrow> if length ws \<noteq> 3 then (fails EFAULT, rgb) else color_values 0 ws rgb)"

text \<open>A virtual terminal is a number, a name below \<open>/dev\<close>, or a path.\<close>

definition vt_path :: "string \<Rightarrow> string" where
  "vt_path arg =
     (case shl_strtou (Some arg) of
        Some n \<Rightarrow> ''/dev/tty'' @ dec (unat n)
      | None \<Rightarrow> if arg \<noteq> [] \<and> hd arg \<noteq> CHR ''.'' \<and> hd arg \<noteq> CHR ''/'' then ''/dev/'' @ arg else arg)"

text \<open>A value that comes from an allocation: the old one stays when it fails.\<close>

definition stored :: "conf_val \<Rightarrow> errno + conf_val \<Rightarrow> status \<times> conf_val" where
  "stored v r = (case r of Inl err \<Rightarrow> (fails err, v) | Inr w \<Rightarrow> (ok, w))"

definition when_mem :: "bool \<Rightarrow> 'a \<Rightarrow> errno + 'a" where
  "when_mem mem x = (if mem then Inr x else Inl ENOMEM)"

text \<open>
  \<open>conf_parse_*\<close>. The types with an argument get one from every caller; \<open>atoi\<close> of \<open>conf_parse_uint\<close>
  reads a negative number as a large one. The grabs and the colours have their parsers above.
\<close>

definition conf_parse_bool :: "bool \<Rightarrow> status \<times> conf_val" where
  "conf_parse_bool on = (ok, V_bool on)"

definition conf_parse_int :: "string \<Rightarrow> status \<times> conf_val" where
  "conf_parse_int arg = (ok, V_int (atoi arg))"

definition conf_parse_uint :: "string \<Rightarrow> status \<times> conf_val" where
  "conf_parse_uint arg = (ok, V_uint (atoi arg))"

definition conf_parse_string :: "bool \<Rightarrow> string option \<Rightarrow> conf_val \<Rightarrow> status \<times> conf_val" where
  "conf_parse_string mem arg v = stored v (when_mem mem (V_string arg))"

definition conf_parse_string_list :: "bool \<Rightarrow> string \<Rightarrow> conf_val \<Rightarrow> status \<times> conf_val" where
  "conf_parse_string_list mem arg v =
     stored v (map_sum id (\<lambda>ts. V_list (Some ts)) (split_words mem arg CHR '','' True))"

definition conf_parse_vt :: "bool \<Rightarrow> string \<Rightarrow> conf_val \<Rightarrow> status \<times> conf_val" where
  "conf_parse_vt mem arg v = stored v (when_mem mem (V_string (Some (vt_path arg))))"

definition conf_parse_login :: "bool \<Rightarrow> status \<times> conf_val" where
  "conf_parse_login on = (ok, V_login on None)"

definition conf_parse_gpus :: "string \<Rightarrow> conf_val \<Rightarrow> status \<times> conf_val" where
  "conf_parse_gpus arg v =
     stored v (case gpu_mode arg of None \<Rightarrow> Inl EFAULT | Some m \<Rightarrow> Inr (V_uint m))"

lemmas parse_type_defs [simp] =
  conf_parse_bool_def conf_parse_int_def conf_parse_uint_def conf_parse_string_def
  conf_parse_string_list_def conf_parse_vt_def conf_parse_login_def conf_parse_gpus_def

text \<open>The call through the pointer \<open>type->parse\<close>.\<close>

fun type_parse :: "conf_env \<Rightarrow> conf_type \<Rightarrow> bool \<Rightarrow> string option \<Rightarrow> conf_val \<Rightarrow> status \<times> conf_val" where
  "type_parse e T_bool on arg v = conf_parse_bool on"
| "type_parse e T_int on arg v = conf_parse_int (the arg)"
| "type_parse e T_uint on arg v = conf_parse_uint (the arg)"
| "type_parse e T_string on arg v = conf_parse_string (ce_mem e) arg v"
| "type_parse e T_string_list on arg v = conf_parse_string_list (ce_mem e) (the arg) v"
| "type_parse e T_grab on arg v = stored v (map_sum id (\<lambda>g. V_grab (Some g)) (conf_parse_grab e (the arg)))"
| "type_parse e T_vt on arg v = conf_parse_vt (ce_mem e) (the arg) v"
| "type_parse e T_login on arg v = conf_parse_login on"
| "type_parse e T_gpus on arg v = conf_parse_gpus (the arg) v"
| "type_parse e T_color on arg v =
     (case v of V_color rgb \<Rightarrow> map_prod id V_color (conf_parse_color (ce_mem e) (the arg) rgb) | _ \<Rightarrow> (ok, v))"

text \<open>
  \<open>conf_copy_*\<close>. The test for a missing list in \<open>conf_copy_string_list\<close> looks at the address of the
  field, which is never \<open>NULL\<close>, so a missing list goes to \<open>shl_dup_array\<close>.
\<close>

definition conf_copy_string :: "bool \<Rightarrow> conf_val \<Rightarrow> conf_val \<Rightarrow> status \<times> conf_val" where
  "conf_copy_string mem src v =
     (case src of V_string (Some s) \<Rightarrow> stored v (when_mem mem src) | _ \<Rightarrow> (ok, src))"

definition conf_copy_string_list :: "bool \<Rightarrow> conf_val \<Rightarrow> conf_val \<Rightarrow> status \<times> conf_val" where
  "conf_copy_string_list mem src v =
     (case src of
        V_list ts \<Rightarrow> stored v (map_sum id (\<lambda>t. V_list (Some t)) (shl_dup_array mem ts))
      | _ \<Rightarrow> (ok, src))"

definition conf_copy_grab :: "bool \<Rightarrow> conf_val \<Rightarrow> conf_val \<Rightarrow> status \<times> conf_val" where
  "conf_copy_grab mem src v =
     (case src of V_grab (Some g) \<Rightarrow> stored v (when_mem mem src) | _ \<Rightarrow> (ok, src))"

definition conf_copy_login :: "bool \<Rightarrow> conf_val \<Rightarrow> conf_val \<Rightarrow> status \<times> conf_val" where
  "conf_copy_login mem src v =
     (case src of
        V_login on (Some ts) \<Rightarrow> stored v (map_sum id (\<lambda>t. V_login on (Some t)) (shl_dup_array mem (Some ts)))
      | _ \<Rightarrow> (ok, src))"

lemmas copy_type_defs [simp] =
  conf_copy_string_def conf_copy_string_list_def conf_copy_grab_def conf_copy_login_def

text \<open>The call through \<open>type->copy\<close>; a virtual terminal is copied as a string, the rest as plain data.\<close>

fun type_copy :: "conf_env \<Rightarrow> conf_type \<Rightarrow> conf_val \<Rightarrow> conf_val \<Rightarrow> status \<times> conf_val" where
  "type_copy e T_string src v = conf_copy_string (ce_mem e) src v"
| "type_copy e T_vt src v = conf_copy_string (ce_mem e) src v"
| "type_copy e T_string_list src v = conf_copy_string_list (ce_mem e) src v"
| "type_copy e T_grab src v = conf_copy_grab (ce_mem e) src v"
| "type_copy e T_login src v = conf_copy_login (ce_mem e) src v"
| "type_copy e ty src v = (ok, src)"

section \<open>Contexts\<close>

definition reset_option :: "conf_option \<Rightarrow> conf_option" where
  "reset_option o' = o'\<lparr>opt_locked := False, opt_val := opt_def o'\<rparr>"

definition conf_ctx_reset :: "conf_ctx \<Rightarrow> conf_ctx" where
  "conf_ctx_reset cx = cx\<lparr>cx_opts := map reset_option (cx_opts cx)\<rparr>"

definition conf_ctx_new :: "bool \<Rightarrow> conf_option list \<Rightarrow> errno + conf_ctx" where
  "conf_ctx_new mem opts =
     (if opts = [] then Inl EINVAL
      else if \<not> mem then Inl ENOMEM
      else Inr (conf_ctx_reset \<lparr>cx_opts = opts, cx_seat_config = False, cx_exit = False, cx_printed = []\<rparr>))"

text \<open>A field of the configuration, by the name of its option.\<close>

definition has_name :: "string \<Rightarrow> conf_option \<Rightarrow> bool" where
  "has_name name o' \<longleftrightarrow> opt_long o' = Some (''no-'' @ name)"

definition get_field :: "string \<Rightarrow> conf_ctx \<Rightarrow> conf_val option" where
  "get_field name cx = map_option opt_val (find (has_name name) (cx_opts cx))"

definition set_field :: "string \<Rightarrow> conf_val \<Rightarrow> conf_ctx \<Rightarrow> conf_ctx" where
  "set_field name v cx =
     cx\<lparr>cx_opts := map (\<lambda>o'. if has_name name o' then o'\<lparr>opt_val := v\<rparr> else o') (cx_opts cx)\<rparr>"

definition set_opt :: "nat \<Rightarrow> conf_val \<Rightarrow> conf_ctx \<Rightarrow> conf_ctx" where
  "set_opt i v cx = cx\<lparr>cx_opts := (cx_opts cx)[i := (cx_opts cx ! i)\<lparr>opt_val := v\<rparr>]\<rparr>"

subsection \<open>Checks after parsing\<close>

text \<open>
  \<open>aftercheck_*\<close> of option \<open>i\<close>: an error or the number of arguments consumed. \<open>args\<close> is \<open>None\<close> when
  no command line is parsed. The default login of \<open>config.c\<close> is an array of three, the last one
  \<open>NULL\<close>.
\<close>

definition def_argv :: "string option list" where
  "def_argv = [Some ''/bin/login'', Some ''-p'', None]"

definition aftercheck_login :: "conf_env \<Rightarrow> nat \<Rightarrow> string list option \<Rightarrow> nat \<Rightarrow> conf_ctx \<Rightarrow> (errno + nat) \<times> conf_ctx" where
  "aftercheck_login e i args idx cx =
     (case opt_val (cx_opts cx ! i) of
        V_login login argv \<Rightarrow>
          (case args of
             Some av \<Rightarrow>
               if login then
                 (if idx \<ge> length av then (Inl EFAULT, cx)
                  else (case shl_dup_array_size (ce_mem e) (Some (map Some (drop idx av))) of
                          Inl err \<Rightarrow> (Inl err, cx)
                        | Inr t \<Rightarrow> (Inr (length av - idx), set_opt i (V_login login (Some t)) cx)))
               else if argv = None then
                 (case shl_dup_array_size (ce_mem e) (Some def_argv) of
                    Inl err \<Rightarrow> (Inl err, cx)
                  | Inr t \<Rightarrow> (Inr 0, set_opt i (V_login login (Some t)) cx))
               else (Inr 0, cx)
           | None \<Rightarrow>
               if argv = None then
                 (case shl_dup_array_size (ce_mem e) (Some def_argv) of
                    Inl err \<Rightarrow> (Inl err, cx)
                  | Inr t \<Rightarrow> (Inr 0, set_opt i (V_login login (Some t)) cx))
               else (Inr 0, cx))
      | _ \<Rightarrow> (Inr 0, cx))"

definition aftercheck_debug :: "nat \<Rightarrow> conf_ctx \<Rightarrow> conf_ctx" where
  "aftercheck_debug i cx =
     (if opt_val (cx_opts cx ! i) = V_bool True then set_field ''verbose'' (V_bool True) cx else cx)"

definition aftercheck_help :: "nat \<Rightarrow> conf_ctx \<Rightarrow> conf_ctx" where
  "aftercheck_help i cx =
     (if opt_val (cx_opts cx ! i) = V_bool True
      then cx\<lparr>cx_printed := cx_printed cx @ [Print_help], cx_exit := True\<rparr> else cx)"

definition aftercheck_version :: "nat \<Rightarrow> conf_ctx \<Rightarrow> conf_ctx" where
  "aftercheck_version i cx =
     (if opt_val (cx_opts cx ! i) = V_bool True
      then cx\<lparr>cx_printed := cx_printed cx @ [Print_version (get_field ''verbose'' cx = Some (V_bool True))],
              cx_exit := True\<rparr> else cx)"

definition aftercheck_drm :: "conf_env \<Rightarrow> nat \<Rightarrow> conf_ctx \<Rightarrow> conf_ctx" where
  "aftercheck_drm e i cx =
     (if \<not> ce_drm e \<and> opt_val (cx_opts cx ! i) = V_bool True then set_opt i (V_bool False) cx else cx)"

lemmas plain_check_defs [simp] =
  aftercheck_debug_def aftercheck_help_def aftercheck_version_def aftercheck_drm_def

definition run_check :: "conf_env \<Rightarrow> nat \<Rightarrow> string list option \<Rightarrow> nat \<Rightarrow> conf_ctx \<Rightarrow> (errno + nat) \<times> conf_ctx" where
  "run_check e i args idx cx =
     (case opt_check (cx_opts cx ! i) of
        Check_none \<Rightarrow> (Inr 0, cx)
      | Check_debug \<Rightarrow> (Inr 0, aftercheck_debug i cx)
      | Check_help \<Rightarrow> (Inr 0, aftercheck_help i cx)
      | Check_version \<Rightarrow> (Inr 0, aftercheck_version i cx)
      | Check_drm \<Rightarrow> (Inr 0, aftercheck_drm e i cx)
      | Check_login \<Rightarrow> aftercheck_login e i args idx cx)"

text \<open>The loop over all options; it consumes arguments only when there is a command line.\<close>

fun run_checks :: "conf_env \<Rightarrow> string list option \<Rightarrow> nat list \<Rightarrow> nat \<Rightarrow> conf_ctx \<Rightarrow> (errno + nat) \<times> conf_ctx" where
  "run_checks e args [] idx cx = (Inr idx, cx)"
| "run_checks e args (i # is) idx cx =
     (case run_check e i args idx cx of
        (Inl err, cx) \<Rightarrow> (Inl err, cx)
      | (Inr n, cx) \<Rightarrow> run_checks e args is (idx + n) cx)"

definition status_of :: "errno + 'a \<Rightarrow> status" where
  "status_of r = (case r of Inl err \<Rightarrow> fails err | Inr _ \<Rightarrow> ok)"

definition check_all :: "conf_env \<Rightarrow> conf_ctx \<Rightarrow> status \<times> conf_ctx" where
  "check_all e cx = map_prod status_of id (run_checks e None [0..<length (cx_opts cx)] 0 cx)"

subsection \<open>Copying a context\<close>

fun copy_opts :: "conf_env \<Rightarrow> conf_option list \<Rightarrow> conf_option list \<Rightarrow> status \<times> conf_option list" where
  "copy_opts e (d # ds) (s # ss) =
     (if opt_type d \<noteq> opt_type s \<or> opt_locked d then map_prod id ((#) d) (copy_opts e ds ss)
      else
        let d = (if opt_locked s then d\<lparr>opt_locked := True\<rparr> else d);
            (ret, v) = type_copy e (opt_type d) (opt_val s) (opt_val d)
        in if ret \<noteq> ok then (ret, d\<lparr>opt_val := v\<rparr> # ds)
           else map_prod id ((#) (d\<lparr>opt_val := v\<rparr>)) (copy_opts e ds ss))"
| "copy_opts e ds ss = (ok, ds)"

definition conf_ctx_parse_ctx :: "conf_env \<Rightarrow> conf_ctx \<Rightarrow> conf_ctx \<Rightarrow> status \<times> conf_ctx" where
  "conf_ctx_parse_ctx e cx src =
     (let (ret, opts) = copy_opts e (cx_opts cx) (cx_opts src);
          cx = cx\<lparr>cx_opts := opts\<rparr>
      in if ret \<noteq> ok then (ret, cx) else check_all e cx)"

section \<open>The command line\<close>

definition short_options :: "conf_option list \<Rightarrow> string" where
  "short_options opts =
     CHR '':'' # concat (map (\<lambda>o'. case opt_short o' of
        None \<Rightarrow> [] | Some c \<Rightarrow> if has_arg (opt_type o') then [c, CHR '':''] else [c]) opts)"

abbreviation LONG_OPTION :: nat where "LONG_OPTION \<equiv> 100000"
abbreviation NO_LONG_OPTION :: nat where "NO_LONG_OPTION \<equiv> 200000"

definition long_entry :: "nat \<Rightarrow> conf_option \<Rightarrow> (string \<times> bool \<times> nat) list" where
  "long_entry i o' =
     (case opt_long o' of
        None \<Rightarrow> []
      | Some name \<Rightarrow>
          (drop 3 name, has_arg (opt_type o'), LONG_OPTION + i) #
          (if has_arg (opt_type o') then [] else [(name, False, NO_LONG_OPTION + i)]))"

definition long_options :: "conf_option list \<Rightarrow> (string \<times> bool \<times> nat) list" where
  "long_options opts = concat (map (\<lambda>(i, o'). long_entry i o') (enumerate 0 opts))"

text \<open>One option of the command line is set and locked, or the error of its parser returned.\<close>

definition take_option :: "conf_env \<Rightarrow> bool \<Rightarrow> string option \<Rightarrow> nat \<Rightarrow> conf_option list \<Rightarrow> status \<times> conf_option list" where
  "take_option e on arg i opts =
     (let o' = opts ! i;
          (ret, v) = type_parse e (opt_type o') on arg (opt_val o')
      in if ret \<noteq> ok then (ret, opts[i := o'\<lparr>opt_val := v\<rparr>])
         else (ok, opts[i := o'\<lparr>opt_val := v, opt_locked := True\<rparr>]))"

fun first_index :: "('a \<Rightarrow> bool) \<Rightarrow> 'a list \<Rightarrow> nat option" where
  "first_index p [] = None"
| "first_index p (x # xs) = (if p x then Some 0 else map_option Suc (first_index p xs))"

text \<open>One round of the loop, with the value \<open>c\<close> that \<open>getopt_long\<close> returned.\<close>

definition argv_round :: "conf_env \<Rightarrow> nat \<Rightarrow> string option \<Rightarrow> conf_option list \<Rightarrow> status \<times> conf_option list" where
  "argv_round e c optarg opts =
     (if c = code CHR '':'' \<or> c = code CHR ''?'' then (fails EFAULT, opts)
      else if c < LONG_OPTION then
        (case first_index (\<lambda>o'. case opt_short o' of None \<Rightarrow> False | Some s \<Rightarrow> code s = c) opts of
           None \<Rightarrow> (ok, opts)
         | Some i \<Rightarrow> take_option e True optarg i opts)
      else if c < NO_LONG_OPTION then take_option e True optarg (c - LONG_OPTION) opts
      else take_option e False None (c - NO_LONG_OPTION) opts)"

fun argv_loop :: "conf_env \<Rightarrow> (nat \<times> string option) list \<Rightarrow> conf_option list \<Rightarrow> status \<times> conf_option list" where
  "argv_loop e [] opts = (ok, opts)"
| "argv_loop e ((c, optarg) # rs) opts =
     (case argv_round e c optarg opts of
        (None, opts) \<Rightarrow> argv_loop e rs opts
      | (Some err, opts) \<Rightarrow> (Some err, opts))"

definition conf_ctx_parse_argv :: "conf_env \<Rightarrow> conf_ctx \<Rightarrow> string list \<Rightarrow> status \<times> conf_ctx" where
  "conf_ctx_parse_argv e cx argv =
     (if \<not> ce_mem e then (fails ENOMEM, cx)
      else
        let opts = cx_opts cx;
            (rounds, optind, args) = ce_getopt e (short_options opts) (long_options opts) argv;
            (ret, opts) = argv_loop e rounds opts;
            cx = cx\<lparr>cx_opts := opts\<rparr>
        in if ret \<noteq> ok then (ret, cx)
           else (case run_checks e (Some args) [0..<length opts] optind cx of
                   (Inl err, cx) \<Rightarrow> (fails err, cx)
                 | (Inr optind, cx) \<Rightarrow> if optind < length args then (fails EFAULT, cx) else (ok, cx)))"

section \<open>Configuration files\<close>

definition file_login :: "conf_env \<Rightarrow> conf_option \<Rightarrow> bool \<Rightarrow> string option \<Rightarrow> status \<times> conf_option" where
  "file_login e o' on arg =
     (case arg of
        None \<Rightarrow> (fails EFAULT, o')
      | Some s \<Rightarrow>
          (case shl_split_command_string (ce_mem e) s of
             Inl err \<Rightarrow> (fails err, o')
           | Inr (t, n) \<Rightarrow>
               if n < 1 then (fails EFAULT, o') else (ok, o'\<lparr>opt_val := V_login on (Some t)\<rparr>)))"

text \<open>What a line does to the option that it names.\<close>

definition set_from_file :: "conf_env \<Rightarrow> conf_option \<Rightarrow> bool \<Rightarrow> string option \<Rightarrow> status \<times> conf_option" where
  "set_from_file e o' on arg =
     (if opt_locked o' then (ok, o')
      else if opt_file o' = File_login then file_login e o' on arg
      else if has_arg (opt_type o') \<and> arg = None then (fails EAGAIN, o')
      else if \<not> has_arg (opt_type o') \<and> arg \<noteq> None then (fails EAGAIN, o')
      else
        let (ret, v) = type_parse e (opt_type o') on arg (opt_val o')
        in (ret, o'\<lparr>opt_val := v\<rparr>))"

definition key_names :: "string \<Rightarrow> conf_option \<Rightarrow> bool option" where
  "key_names key o' =
     (case opt_long o' of
        None \<Rightarrow> None
      | Some name \<Rightarrow> if key = name then Some False else if key = drop 3 name then Some True else None)"

fun parse_kv_pair :: "conf_env \<Rightarrow> conf_option list \<Rightarrow> string \<Rightarrow> string option \<Rightarrow> status \<times> conf_option list" where
  "parse_kv_pair e [] key arg = (fails EAGAIN, [])"
| "parse_kv_pair e (o' # opts) key arg =
     (case key_names key o' of
        None \<Rightarrow> map_prod id ((#) o') (parse_kv_pair e opts key arg)
      | Some on \<Rightarrow> map_prod id (\<lambda>o'. o' # opts) (set_from_file e o' on arg))"

definition blank :: "char \<Rightarrow> bool" where
  "blank c \<longleftrightarrow> c = CHR '' '' \<or> c = CHR 0x0D \<or> c = CHR 0x09"

definition strip_spaces :: "string \<Rightarrow> string" where
  "strip_spaces s = rev (dropWhile blank (rev (dropWhile blank s)))"

text \<open>
  The first line of what is left of the buffer: key, value, and what comes behind the line,
  \<open>None\<close> when the line is the last one and has no newline.
\<close>

definition after_comment :: "string \<Rightarrow> string option" where
  "after_comment s = (case dropWhile (\<lambda>c. c \<noteq> nl) s of [] \<Rightarrow> None | c # t \<Rightarrow> Some t)"

definition scan_value :: "string \<Rightarrow> string \<times> string option" where
  "scan_value s =
     (let v = takeWhile (\<lambda>c. c \<noteq> nl \<and> c \<noteq> CHR ''#'') s
      in case dropWhile (\<lambda>c. c \<noteq> nl \<and> c \<noteq> CHR ''#'') s of
           [] \<Rightarrow> (v, None)
         | c # t \<Rightarrow> if c = nl then (v, Some t) else (v, after_comment t))"

definition scan_line :: "string \<Rightarrow> string \<times> string option \<times> string option" where
  "scan_line s =
     (let key = takeWhile (\<lambda>c. c \<noteq> nl \<and> c \<noteq> CHR ''#'' \<and> c \<noteq> CHR ''='') s
      in case dropWhile (\<lambda>c. c \<noteq> nl \<and> c \<noteq> CHR ''#'' \<and> c \<noteq> CHR ''='') s of
           [] \<Rightarrow> (key, None, None)
         | c # t \<Rightarrow>
             if c = nl then (key, None, Some t)
             else if c = CHR ''#'' then (key, None, after_comment t)
             else (let (v, rest) = scan_value t in (key, Some v, rest)))"

definition parse_line :: "conf_env \<Rightarrow> conf_option list \<Rightarrow> string \<Rightarrow> status \<times> conf_option list \<times> string" where
  "parse_line e opts buf =
     (let (key, arg, rest) = scan_line buf;
          key = strip_spaces (cstr key);
          (ret, opts') =
            (if key \<noteq> [] then parse_kv_pair e opts key (map_option (\<lambda>v. strip_spaces (cstr v)) arg)
             else (ok, opts))
      in if ret \<noteq> ok \<and> ret \<noteq> fails EAGAIN then (ret, opts', buf)
         else (ok, opts', case rest of None \<Rightarrow> [] | Some t \<Rightarrow> t))"

text \<open>The loop over the lines; \<open>None\<close> is a loop that does not end.\<close>

partial_function (option) parse_lines :: "conf_env \<Rightarrow> conf_option list \<Rightarrow> string \<Rightarrow> (status \<times> conf_option list) option" where
  "parse_lines e opts buf =
     (if buf = [] then Some (ok, opts)
      else
        let (ret, opts', rest) = parse_line e opts buf
        in if ret = fails ENDLESS then None
           else if ret \<noteq> ok then Some (ret, opts') else parse_lines e opts' rest)"

definition parse_buffer :: "conf_env \<Rightarrow> conf_ctx \<Rightarrow> string \<Rightarrow> (status \<times> conf_ctx) option" where
  "parse_buffer e cx buf =
     (case parse_lines e (cx_opts cx) buf of
        None \<Rightarrow> None
      | Some (ret, opts) \<Rightarrow>
          let cx = cx\<lparr>cx_opts := opts\<rparr> in Some (if ret \<noteq> ok then (ret, cx) else check_all e cx))"

fun read_chunks :: "string option list \<Rightarrow> string \<Rightarrow> errno + string" where
  "read_chunks [] buf = Inr buf"
| "read_chunks (None # rs) buf = Inl EFAULT"
| "read_chunks (Some chunk # rs) buf = (if chunk = [] then Inr buf else read_chunks rs (buf @ chunk))"

definition conf_parse_file :: "conf_env \<Rightarrow> conf_ctx \<Rightarrow> string \<Rightarrow> (status \<times> conf_ctx) option" where
  "conf_parse_file e cx path =
     (let f = ce_file e path
      in if cx_opts cx = [] then Some (fails EINVAL, cx)
         else if \<not> cf_exists f then Some (ok, cx)
         else if \<not> cf_readable f then Some (fails EACCES, cx)
         else if \<not> cf_opens f then Some (fails EFAULT, cx)
         else if \<not> ce_mem e then Some (fails ENOMEM, cx)
         else (case read_chunks (cf_reads f) [] of
                 Inl err \<Rightarrow> Some (fails err, cx)
               | Inr buf \<Rightarrow> parse_buffer e cx buf))"

definition conf_ctx_parse_file :: "conf_env \<Rightarrow> conf_ctx \<Rightarrow> string \<Rightarrow> (status \<times> conf_ctx) option" where
  "conf_ctx_parse_file e cx path =
     (if \<not> ce_mem e then Some (fails ENOMEM, cx) else conf_parse_file e cx path)"

end
