(* ===== verification/Config.thy ===== *)
theory Config
  imports Conf
begin

text \<open>
  The options of the program, \<open>src/config.c\<close>: their table with names, types and defaults, the
  loading of the main configuration (command line, then \<open>kmscon.conf\<close>) and of the configuration of
  a seat (a copy of the main one, then the file of the seat). What the build sets and the keysyms of
  the default grabs are parameters; messages and the level of the log are left out.
\<close>

record conf_build =
  bd_config_dir :: string
  bd_term :: string
  bd_key :: "string \<Rightarrow> u32"

definition issue_default_path :: string where
  "issue_default_path = ''/etc/issue:/etc/issue.d:/run/issue:/run/issue.d:/usr/lib/issue:/usr/lib/issue.d''"

definition plain_option :: "char option \<Rightarrow> string \<Rightarrow> conf_type \<Rightarrow> conf_val \<Rightarrow> conf_option" where
  "plain_option short name ty d =
     \<lparr>opt_locked = False, opt_short = short, opt_long = Some (''no-'' @ name), opt_type = ty,
      opt_check = Check_none, opt_file = File_none, opt_val = d, opt_def = d\<rparr>"

definition kmscon_options :: "conf_build \<Rightarrow> conf_option list" where
  "kmscon_options b =
     (let key = bd_key b
      in [
      (plain_option (Some CHR ''h'') ''help'' T_bool (V_bool False))\<lparr>opt_check := Check_help\<rparr>,
      (plain_option (Some CHR ''V'') ''version'' T_bool (V_bool False))\<lparr>opt_check := Check_version\<rparr>,
      plain_option (Some CHR ''v'') ''verbose'' T_bool (V_bool False),
      (plain_option None ''debug'' T_bool (V_bool False))\<lparr>opt_check := Check_debug\<rparr>,
      plain_option None ''silent'' T_bool (V_bool False),
      plain_option (Some CHR ''c'') ''configdir'' T_string (V_string (Some (bd_config_dir b))),
      plain_option None ''vt'' T_vt (V_string None),
      plain_option None ''switchvt'' T_bool (V_bool True),
      plain_option None ''libseat'' T_bool (V_bool False),
      plain_option None ''session-max'' T_uint (V_uint 50),
      plain_option None ''session-control'' T_bool (V_bool False),
      plain_option None ''issue'' T_bool (V_bool True),
      plain_option None ''issue-path'' T_string (V_string (Some issue_default_path)),
      plain_option None ''asciicast'' T_string (V_string None),
      plain_option None ''asciicast-loop'' T_bool (V_bool False),
      (plain_option (Some CHR ''l'') ''login'' T_login (V_login False (Some [''/bin/login'', ''-p''])))\<lparr>opt_check := Check_login, opt_file := File_login\<rparr>,
      plain_option None ''oneshot'' T_bool (V_bool False),
      plain_option (Some CHR ''t'') ''term'' T_string (V_string (Some (bd_term b))),
      plain_option None ''reset-env'' T_bool (V_bool True),
      plain_option None ''backspace-delete'' T_bool (V_bool True),
      plain_option None ''sb-size'' T_uint (V_uint 1000),
      plain_option None ''bell'' T_bool (V_bool False),
      plain_option None ''blink'' T_bool (V_bool True),
      plain_option None ''xkb-model'' T_string (V_string None),
      plain_option None ''xkb-layout'' T_string (V_string None),
      plain_option None ''xkb-variant'' T_string (V_string None),
      plain_option None ''xkb-options'' T_string (V_string None),
      plain_option None ''xkb-keymap'' T_string (V_string None),
      plain_option None ''xkb-compose-file'' T_string (V_string None),
      plain_option None ''xkb-repeat-delay'' T_uint (V_uint 250),
      plain_option None ''xkb-repeat-rate'' T_uint (V_uint 50),
      plain_option None ''mouse'' T_bool (V_bool True),
      plain_option None ''natural-scrolling'' T_bool (V_bool False),
      plain_option None ''soft-cursor'' T_bool (V_bool False),
      plain_option None ''dpms-timeout'' T_uint (V_uint 600),
      plain_option None ''grab-scroll-up'' T_grab (V_grab (Some [(SHIFT_MASK, [key ''Up''])])),
      plain_option None ''grab-scroll-down'' T_grab (V_grab (Some [(SHIFT_MASK, [key ''Down''])])),
      plain_option None ''grab-page-up'' T_grab (V_grab (Some [(SHIFT_MASK, [key ''Prior''])])),
      plain_option None ''grab-page-down'' T_grab (V_grab (Some [(SHIFT_MASK, [key ''Next''])])),
      plain_option None ''grab-zoom-in'' T_grab (V_grab (Some [(CONTROL_MASK, [key ''plus'']), (CONTROL_MASK, [key ''equal''])])),
      plain_option None ''grab-zoom-out'' T_grab (V_grab (Some [(CONTROL_MASK, [key ''minus''])])),
      plain_option None ''grab-session-next'' T_grab (V_grab (Some [((or CONTROL_MASK LOGO_MASK), [key ''Right''])])),
      plain_option None ''grab-session-prev'' T_grab (V_grab (Some [((or CONTROL_MASK LOGO_MASK), [key ''Left''])])),
      plain_option None ''grab-session-close'' T_grab (V_grab (Some [((or CONTROL_MASK LOGO_MASK), [key ''BackSpace''])])),
      plain_option None ''grab-terminal-new'' T_grab (V_grab (Some [((or CONTROL_MASK LOGO_MASK), [key ''Return''])])),
      plain_option None ''grab-rotate-cw'' T_grab (V_grab (Some [(LOGO_MASK, [key ''plus'']), (LOGO_MASK, [key ''equal''])])),
      plain_option None ''grab-rotate-ccw'' T_grab (V_grab (Some [(LOGO_MASK, [key ''minus''])])),
      plain_option None ''grab-reboot'' T_grab (V_grab None),
      (plain_option None ''drm'' T_bool (V_bool True))\<lparr>opt_check := Check_drm\<rparr>,
      plain_option None ''hwaccel'' T_bool (V_bool False),
      plain_option None ''gpus'' T_gpus (V_uint 0),
      plain_option None ''use-original-mode'' T_bool (V_bool True),
      plain_option None ''mode'' T_string (V_string None),
      plain_option None ''multi-monitor'' T_string (V_string (Some ''clone'')),
      plain_option None ''rotate'' T_string (V_string (Some ''normal'')),
      plain_option None ''font-engine'' T_string (V_string None),
      plain_option None ''font-size'' T_uint (V_uint 16),
      plain_option None ''font-name'' T_string (V_string (Some ''monospace'')),
      plain_option None ''faceplate-title'' T_string (V_string (Some ''Faceplate'')),
      plain_option None ''faceplate-context'' T_string (V_string (Some ''LOCAL DEVICE CONSOLE'')),
      plain_option None ''faceplate-logo'' T_string (V_string None),
      plain_option None ''palette'' T_string (V_string None),
      plain_option None ''palette-black'' T_color (V_color [0, 0, 0]),
      plain_option None ''palette-red'' T_color (V_color [205, 0, 0]),
      plain_option None ''palette-green'' T_color (V_color [0, 205, 0]),
      plain_option None ''palette-yellow'' T_color (V_color [205, 205, 0]),
      plain_option None ''palette-blue'' T_color (V_color [0, 0, 238]),
      plain_option None ''palette-magenta'' T_color (V_color [205, 0, 205]),
      plain_option None ''palette-cyan'' T_color (V_color [0, 205, 205]),
      plain_option None ''palette-light-grey'' T_color (V_color [229, 229, 229]),
      plain_option None ''palette-dark-grey'' T_color (V_color [127, 127, 127]),
      plain_option None ''palette-light-red'' T_color (V_color [255, 0, 0]),
      plain_option None ''palette-light-green'' T_color (V_color [0, 255, 0]),
      plain_option None ''palette-light-yellow'' T_color (V_color [255, 255, 0]),
      plain_option None ''palette-light-blue'' T_color (V_color [92, 92, 255]),
      plain_option None ''palette-light-magenta'' T_color (V_color [255, 0, 255]),
      plain_option None ''palette-light-cyan'' T_color (V_color [0, 255, 255]),
      plain_option None ''palette-white'' T_color (V_color [255, 255, 255]),
      plain_option None ''palette-foreground'' T_color (V_color [229, 229, 229]),
      plain_option None ''palette-background'' T_color (V_color [0, 0, 0])])"

definition kmscon_conf_new :: "bool \<Rightarrow> conf_build \<Rightarrow> errno + conf_ctx" where
  "kmscon_conf_new mem b = (if \<not> mem then Inl ENOMEM else conf_ctx_new mem (kmscon_options b))"

definition config_path :: "conf_ctx \<Rightarrow> string \<Rightarrow> string" where
  "config_path cx file =
     (case get_field ''configdir'' cx of Some (V_string (Some dir)) \<Rightarrow> dir @ ''/'' @ file | _ \<Rightarrow> ''(null)/'' @ file)"

text \<open>
  The result of the command line is ignored. \<open>None\<close> stands for a run that does not end, in the
  loop over the lines or in the parser of a value on the command line; the theory Config\_Spec
  shows that there is none.
\<close>

definition mode_over_original :: "conf_ctx \<Rightarrow> conf_ctx" where
  "mode_over_original cx =
     (if get_field ''use-original-mode'' cx = Some (V_bool True) \<and> get_field ''mode'' cx \<noteq> Some (V_string None)
      then set_field ''use-original-mode'' (V_bool False) cx else cx)"

definition kmscon_conf_load_main :: "conf_env \<Rightarrow> conf_ctx \<Rightarrow> string list \<Rightarrow> (status \<times> conf_ctx) option" where
  "kmscon_conf_load_main e cx argv =
     (let cx = cx\<lparr>cx_seat_config := False\<rparr>;
          (ret, cx) = conf_ctx_parse_argv e cx argv
      in if ret = fails ENDLESS then None
         else if cx_exit cx then Some (ok, cx)
         else (case conf_ctx_parse_file e cx (config_path cx ''kmscon.conf'') of
                 None \<Rightarrow> None
               | Some (ret, cx) \<Rightarrow> Some (if ret \<noteq> ok then (ret, cx) else (ok, mode_over_original cx))))"

definition kmscon_conf_load_seat :: "conf_env \<Rightarrow> conf_ctx \<Rightarrow> conf_ctx \<Rightarrow> string \<Rightarrow> (status \<times> conf_ctx) option" where
  "kmscon_conf_load_seat e cx main seat =
     (let cx = cx\<lparr>cx_seat_config := True\<rparr>;
          (ret, cx) = conf_ctx_parse_ctx e cx main
      in if ret \<noteq> ok then Some (ret, cx)
         else conf_ctx_parse_file e cx (config_path cx (seat @ ''.seat.conf'')))"

end
