(* ===== verification/Conf_Spec.thy ===== *)
theory Conf_Spec
  imports Config
begin

text \<open>
  What the configuration guarantees: every parser ends and is the line-by-line reading of its file,
  no operation puts a value of a wrong type into an option, what the command line has set no file
  changes, and a grab that is written out is read back.
\<close>

section \<open>Splitting\<close>

lemma split_words_spec:
  "sep \<noteq> CHR 0x00 \<Longrightarrow> split_words True arg sep keep = Inr (split_spec sep keep arg)"
  by (simp add: split_words_def shl_split_string_def split_count_spec split_fill_spec)

text \<open>No parser is caught in a split that does not end: the count of its first pass is right.\<close>

lemma split_words_returns: "sep \<noteq> CHR 0x00 \<Longrightarrow> split_words mem arg sep keep \<noteq> Inl ENDLESS"
  by (cases mem) (simp_all add: split_words_spec, simp add: split_words_def shl_split_string_def)

lemma grab_entries_return: "grab_entries e ws mods grab \<noteq> Inl ENDLESS"
proof (induction e ws mods grab rule: grab_entries.induct)
  case (2 e w ws mods grab)
  show ?case
    using 2 split_words_returns [of "CHR ''+''" "ce_mem e" w False]
    by (auto split: sum.split option.split)
qed simp

lemma parse_grab_returns: "conf_parse_grab e arg \<noteq> Inl ENDLESS"
  using split_words_returns [of "CHR '',''" "ce_mem e" arg False] grab_entries_return
  by (auto simp: conf_parse_grab_def split: sum.split)

lemma color_values_return: "fst (color_values i ss rgb) \<noteq> fails ENDLESS"
  by (induction i ss rgb rule: color_values.induct) (auto split: option.split)

lemma parse_color_returns: "fst (conf_parse_color mem arg rgb) \<noteq> fails ENDLESS"
  using split_words_returns [of "CHR '',''" mem arg True] color_values_return
  by (auto simp: conf_parse_color_def split: sum.split)

lemma stored_returns: "r \<noteq> Inl ENDLESS \<Longrightarrow> fst (stored v r) \<noteq> fails ENDLESS"
  by (auto simp: stored_def split: sum.split)

lemma map_sum_returns: "r \<noteq> Inl err \<Longrightarrow> map_sum id f r \<noteq> Inl err"
  by (cases r) auto

lemma type_parse_returns: "fst (type_parse e ty on arg v) \<noteq> fails ENDLESS"
proof (cases ty)
  case T_color
  then show ?thesis using parse_color_returns by (auto split: conf_val.split)
next
  case T_string_list
  then show ?thesis using split_words_returns by (simp add: stored_returns map_sum_returns)
next
  case T_grab
  then show ?thesis using parse_grab_returns by (simp add: stored_returns map_sum_returns)
qed (auto intro!: stored_returns simp: when_mem_def split: option.split)

lemma from_file_returns: "fst (set_from_file e o' on arg) \<noteq> fails ENDLESS"
  using type_parse_returns [of e "opt_type o'" on arg "opt_val o'"]
  by (auto simp: set_from_file_def file_login_def shl_split_command_string_def Let_def
      split: option.split sum.split prod.split)

lemma kv_pair_returns: "fst (parse_kv_pair e opts key arg) \<noteq> fails ENDLESS"
  by (induction opts) (auto simp: from_file_returns split: option.split)

lemma argv_round_returns: "fst (argv_round e c a opts) \<noteq> fails ENDLESS"
proof -
  have "fst (take_option e on arg i opts) \<noteq> fails ENDLESS" for on arg i
    using type_parse_returns [of e "opt_type (opts ! i)" on arg "opt_val (opts ! i)"]
    by (auto simp: take_option_def Let_def split: prod.split)
  then show ?thesis by (simp add: argv_round_def split: option.split)
qed

lemma argv_loop_returns: "fst (argv_loop e rs opts) \<noteq> fails ENDLESS"
proof (induction rs arbitrary: opts)
  case (Cons r rs)
  obtain c a where r: "r = (c, a)" by fastforce
  obtain ret opts' where a: "argv_round e c a opts = (ret, opts')" by fastforce
  then show ?case using Cons argv_round_returns [of e c a opts] by (cases ret) (simp_all add: r)
qed simp

lemma checks_return: "fst (run_checks e args is idx cx) \<noteq> Inl ENDLESS"
proof (induction "is" arbitrary: idx cx)
  case (Cons i "is")
  obtain r cx' where c: "run_check e i args idx cx = (r, cx')" by fastforce
  have "fst (run_check e i args idx cx) \<noteq> Inl ENDLESS"
    by (auto simp: run_check_def aftercheck_login_def shl_dup_array_size_def
        split: aftercheck.split conf_val.split option.split sum.split if_splits)
  then show ?case using Cons c by (cases r) simp_all
qed simp

lemma argv_returns: "fst (conf_ctx_parse_argv e cx argv) \<noteq> fails ENDLESS"
proof -
  obtain rounds oi args where g: "ce_getopt e (short_options (cx_opts cx)) (long_options (cx_opts cx)) argv = (rounds, oi, args)"
    by (metis prod_cases3)
  obtain r opts where a: "argv_loop e rounds (cx_opts cx) = (r, opts)" by fastforce
  obtain n cx2 where c: "run_checks e (Some args) [0..<length opts] oi (cx\<lparr>cx_opts := opts\<rparr>) = (n, cx2)" by fastforce
  show ?thesis
    using argv_loop_returns [of e rounds "cx_opts cx"] a c
      checks_return [of e "Some args" "[0..<length opts]" oi "cx\<lparr>cx_opts := opts\<rparr>"]
    by (auto simp: conf_ctx_parse_argv_def Let_def g split: sum.splits)
qed

section \<open>A file is read line by line\<close>

text \<open>The reference: cut at the newlines, drop the comment, cut at the first equals sign.\<close>

definition line_setting :: "string \<Rightarrow> string \<times> string option" where
  "line_setting line =
     (let l = takeWhile (\<lambda>c. c \<noteq> CHR ''#'') line
      in case cut CHR ''='' l of None \<Rightarrow> (l, None) | Some (k, v) \<Rightarrow> (k, Some v))"

definition apply_setting :: "conf_env \<Rightarrow> string \<times> string option \<Rightarrow> conf_option list \<Rightarrow> status \<times> conf_option list" where
  "apply_setting e kv opts =
     (let key = strip_spaces (cstr (fst kv))
      in if key = [] then (ok, opts)
         else (case parse_kv_pair e opts key (map_option (\<lambda>v. strip_spaces (cstr v)) (snd kv)) of
                 (ret, opts') \<Rightarrow> (if ret = fails EAGAIN then ok else ret, opts')))"

fun apply_lines :: "conf_env \<Rightarrow> string list \<Rightarrow> conf_option list \<Rightarrow> status \<times> conf_option list" where
  "apply_lines e [] opts = (ok, opts)"
| "apply_lines e (l # ls) opts =
     (case apply_setting e (line_setting l) opts of
        (None, opts) \<Rightarrow> apply_lines e ls opts
      | (Some err, opts) \<Rightarrow> (Some err, opts))"

lemma setting_returns: "fst (apply_setting e kv opts) \<noteq> fails ENDLESS"
  by (simp add: apply_setting_def Let_def split_beta kv_pair_returns)

text \<open>The scanner of the code finds the first line and its setting.\<close>

lemma after_comment_line:
  "after_comment s = (if nl \<in> set s then Some (tl (dropWhile (\<lambda>c. c \<noteq> nl) s)) else None)"
proof (cases "nl \<in> set s")
  case True
  then have "dropWhile (\<lambda>c. c \<noteq> nl) s \<noteq> []" by auto
  then show ?thesis using True by (simp add: after_comment_def split: list.split)
next
  case False
  then have "dropWhile (\<lambda>c. c \<noteq> nl) s = []" by (auto simp: dropWhile_eq_Nil_conv)
  then show ?thesis using False by (simp add: after_comment_def del: dropWhile_eq_Nil_conv)
qed

definition first_line :: "string \<Rightarrow> string" where
  "first_line s = takeWhile (\<lambda>c. c \<noteq> nl) s"

definition other_lines :: "string \<Rightarrow> string option" where
  "other_lines s = (if nl \<in> set s then Some (tl (dropWhile (\<lambda>c. c \<noteq> nl) s)) else None)"

lemma first_other_Cons [simp]:
  "first_line [] = []" "other_lines [] = None"
  "first_line (c # s) = (if c = nl then [] else c # first_line s)"
  "other_lines (c # s) = (if c = nl then Some s else other_lines s)"
  by (auto simp: first_line_def other_lines_def)

lemma scan_value_line:
  "scan_value s = (takeWhile (\<lambda>c. c \<noteq> CHR ''#'') (first_line s), other_lines s)"
proof (induction s)
  case Nil
  then show ?case by (simp add: scan_value_def)
next
  case (Cons c s)
  consider "c = nl" | "c = CHR ''#''" | "c \<noteq> nl" "c \<noteq> CHR ''#''" by blast
  then show ?case
  proof cases
    case 2
    then show ?thesis by (simp add: scan_value_def after_comment_line other_lines_def)
  next
    case 3
    then have "scan_value (c # s) = (case scan_value s of (v, r) \<Rightarrow> (c # v, r))"
      by (cases "dropWhile (\<lambda>c. c \<noteq> nl \<and> c \<noteq> CHR ''#'') s") (simp_all add: scan_value_def Let_def del: dropWhile_eq_Nil_conv)
    then show ?thesis using 3 Cons by simp
  qed (simp add: scan_value_def)
qed

lemma scan_line_line:
  "scan_line s = (let (k, v) = line_setting (first_line s) in (k, v, other_lines s))"
proof (induction s)
  case Nil
  then show ?case by (simp add: scan_line_def line_setting_def)
next
  case (Cons c s)
  consider "c = nl" | "c = CHR ''#''" | "c = CHR ''=''" | "c \<noteq> nl" "c \<noteq> CHR ''#''" "c \<noteq> CHR ''=''" by blast
  then show ?case
  proof cases
    case 1
    then show ?thesis by (simp add: scan_line_def line_setting_def)
  next
    case 2
    then show ?thesis by (simp add: scan_line_def line_setting_def after_comment_line other_lines_def)
  next
    case 3
    then show ?thesis by (simp add: scan_line_def line_setting_def scan_value_line)
  next
    case 4
    then have "scan_line (c # s) = (case scan_line s of (k, v, r) \<Rightarrow> (c # k, v, r))"
      by (cases "dropWhile (\<lambda>c. c \<noteq> nl \<and> c \<noteq> CHR ''#'' \<and> c \<noteq> CHR ''='') s")
        (simp_all add: scan_line_def scan_value_line Let_def del: dropWhile_eq_Nil_conv)
    then show ?thesis
      using 4 Cons
      by (cases "cut CHR ''='' (takeWhile (\<lambda>c. c \<noteq> CHR ''#'') (first_line s))") (simp_all add: line_setting_def split_beta)
  qed
qed

lemma parse_line_step:
  "parse_line e opts buf =
     (case apply_setting e (line_setting (first_line buf)) opts of
        (ret, opts') \<Rightarrow> if ret \<noteq> ok then (ret, opts', buf)
                       else (ok, opts', case other_lines buf of None \<Rightarrow> [] | Some t \<Rightarrow> t))"
  by (auto simp: parse_line_def scan_line_line apply_setting_def Let_def split: prod.splits option.splits)

lemma split_at_lines:
  "split_at nl [] s = first_line s # (case other_lines s of None \<Rightarrow> [] | Some t \<Rightarrow> split_at nl [] t)"
  by (subst split_at_step) (auto simp: first_line_def other_lines_def dropWhile_eq_Nil_conv)

lemma other_lines_shorter: "other_lines s = Some t \<Longrightarrow> length t < length s"
  by (induction s) (auto split: if_splits)

lemma parse_lines_reference: "parse_lines e opts buf = Some (apply_lines e (split_at nl [] buf) opts)"
proof (induction "length buf" arbitrary: buf opts rule: less_induct)
  case less
  show ?case
  proof (cases "buf = []")
    case True
    then show ?thesis by (simp add: parse_lines.simps apply_setting_def line_setting_def strip_spaces_def cstr_def)
  next
    case False
    obtain ret opts' where a: "apply_setting e (line_setting (first_line buf)) opts = (ret, opts')" by fastforce
    have n: "ret \<noteq> fails ENDLESS" using setting_returns [of e "line_setting (first_line buf)" opts] a by simp
    show ?thesis
    proof (cases "ret = ok \<and> other_lines buf \<noteq> None")
      case True
      then obtain t where t: "other_lines buf = Some t" by blast
      have "parse_lines e opts' t = Some (apply_lines e (split_at nl [] t) opts')"
        by (rule less) (rule other_lines_shorter [OF t])
      then show ?thesis
        using False a True t by (subst parse_lines.simps) (simp add: parse_line_step split_at_lines [of buf])
    next
      case no: False
      then show ?thesis
        using False a n by (subst parse_lines.simps)
          (auto simp: parse_line_step split_at_lines [of buf] parse_lines.simps [of e _ "[]"] split: option.split)
    qed
  qed
qed

section \<open>Values fit their types\<close>

fun val_ok :: "conf_type \<Rightarrow> conf_val \<Rightarrow> bool" where
  "val_ok T_bool v = (\<exists>b. v = V_bool b)"
| "val_ok T_int v = (\<exists>n. v = V_int n)"
| "val_ok T_uint v = (\<exists>n. v = V_uint n)"
| "val_ok T_gpus v = (\<exists>n. v = V_uint n)"
| "val_ok T_string v = (\<exists>s. v = V_string s)"
| "val_ok T_vt v = (\<exists>s. v = V_string s)"
| "val_ok T_string_list v = (\<exists>l. v = V_list l)"
| "val_ok T_grab v = (\<exists>g. v = V_grab g)"
| "val_ok T_login v = (\<exists>b l. v = V_login b l)"
| "val_ok T_color v = (\<exists>rgb. v = V_color rgb \<and> length rgb = 3)"

text \<open>
  The contract of a table of functions: what it parses or copies into a value of the type is again
  one. The client is the option, of which only the value changes.
\<close>

locale value_contract =
  fixes fits :: "conf_val \<Rightarrow> bool"
    and parse :: "bool \<Rightarrow> string option \<Rightarrow> conf_val \<Rightarrow> status \<times> conf_val"
    and copy :: "conf_val \<Rightarrow> conf_val \<Rightarrow> status \<times> conf_val"
  assumes parse_fits: "fits v \<Longrightarrow> fits (snd (parse on arg v))"
    and copy_fits: "fits src \<Longrightarrow> fits v \<Longrightarrow> fits (snd (copy src v))"
begin

lemma parsed: "fits v \<Longrightarrow> parse on arg v = (ret, w) \<Longrightarrow> fits w"
  using parse_fits [of v on arg] by simp

lemma copied: "fits src \<Longrightarrow> fits v \<Longrightarrow> copy src v = (ret, w) \<Longrightarrow> fits w"
  using copy_fits [of src v] by simp

lemma parsed_all: "fits v \<Longrightarrow> fits (fold (\<lambda>(on, arg) v. snd (parse on arg v)) args v)"
  by (rule fold_invariant) (auto intro: parse_fits)

end

lemma stored_ok: "P v \<Longrightarrow> (\<And>w. r = Inr w \<Longrightarrow> P w) \<Longrightarrow> P (snd (stored v r))"
  by (simp add: stored_def split: sum.split)

lemma map_sum_Inr: "map_sum id f r = Inr w \<longleftrightarrow> (\<exists>x. r = Inr x \<and> w = f x)"
  by (cases r) auto

lemma color_values_length: "length (snd (color_values i ss rgb)) = length rgb"
  by (induction i ss rgb rule: color_values.induct) (auto split: option.split)

lemma parse_color_length: "length (snd (conf_parse_color mem arg rgb)) = length rgb"
  by (simp add: conf_parse_color_def color_values_length split: sum.split)

lemma type_parse_ok: "val_ok ty v \<Longrightarrow> val_ok ty (snd (type_parse e ty on arg v))"
proof (cases ty)
  case T_color
  then show "val_ok ty v \<Longrightarrow> val_ok ty (snd (type_parse e ty on arg v))"
    by (auto simp: parse_color_length split: prod.split)
qed (auto simp: stored_def when_mem_def map_sum_Inr split: sum.split option.split)

lemma type_copy_ok: "val_ok ty src \<Longrightarrow> val_ok ty v \<Longrightarrow> val_ok ty (snd (type_copy e ty src v))"
  by (cases ty) (auto simp: stored_def when_mem_def map_sum_Inr split: sum.split option.split)

interpretation value_ops: value_contract "val_ok ty" "type_parse e ty" "type_copy e ty" for ty e
  by unfold_locales (simp_all add: type_parse_ok type_copy_ok)

section \<open>What becomes of an option\<close>

definition opt_static :: "conf_option \<Rightarrow> char option \<times> string option \<times> conf_type \<times> aftercheck \<times> file_hook \<times> conf_val" where
  "opt_static o' = (opt_short o', opt_long o', opt_type o', opt_check o', opt_file o', opt_def o')"

definition opt_ok :: "conf_option \<Rightarrow> bool" where
  "opt_ok o' \<longleftrightarrow> val_ok (opt_type o') (opt_val o') \<and> val_ok (opt_type o') (opt_def o') \<and>
     (opt_check o' = Check_login \<or> opt_file o' = File_login \<longrightarrow> opt_type o' = T_login) \<and>
     (opt_check o' = Check_drm \<or> has_name ''verbose'' o' \<or> has_name ''use-original-mode'' o' \<longrightarrow> opt_type o' = T_bool)"

text \<open>Options whose value a check may change although the command line has set it.\<close>

definition implied :: "conf_option \<Rightarrow> bool" where
  "implied o' \<longleftrightarrow> opt_check o' = Check_login \<or> opt_check o' = Check_drm \<or> has_name ''verbose'' o' \<or>
     has_name ''use-original-mode'' o'"

definition evolves :: "conf_option \<Rightarrow> conf_option \<Rightarrow> bool" where
  "evolves o1 o2 \<longleftrightarrow> opt_static o2 = opt_static o1 \<and> (opt_ok o1 \<longrightarrow> opt_ok o2) \<and> (opt_locked o1 \<longrightarrow> opt_locked o2)"

definition later :: "conf_option \<Rightarrow> conf_option \<Rightarrow> bool" where
  "later o1 o2 \<longleftrightarrow> evolves o1 o2 \<and> (opt_locked o1 \<and> \<not> implied o1 \<longrightarrow> opt_val o2 = opt_val o1)"

lemma implied_static: "opt_static o2 = opt_static o1 \<Longrightarrow> implied o2 = implied o1"
  by (simp add: implied_def opt_static_def has_name_def)

lemma evolves_refl [simp]: "evolves o1 o1" "later o1 o1"
  by (simp_all add: evolves_def later_def)

lemma evolves_trans: "evolves o1 o2 \<Longrightarrow> evolves o2 o3 \<Longrightarrow> evolves o1 o3"
  by (simp add: evolves_def)

lemma later_trans:
  assumes a: "later o1 o2" and b: "later o2 o3"
  shows "later o1 o3"
proof -
  have "evolves o1 o3" using a b evolves_trans unfolding later_def by blast
  moreover have "implied o2 = implied o1" "opt_locked o1 \<Longrightarrow> opt_locked o2"
    using a implied_static unfolding later_def evolves_def by blast+
  ultimately show ?thesis using a b unfolding later_def by simp
qed

lemma later_evolves: "later o1 o2 \<Longrightarrow> evolves o1 o2"
  by (simp add: later_def)

lemma evolves_value:
  "(opt_ok o1 \<Longrightarrow> val_ok (opt_type o1) v) \<Longrightarrow> evolves o1 (o1\<lparr>opt_val := v\<rparr>)"
  by (auto simp: evolves_def opt_static_def opt_ok_def has_name_def)

lemma lock_only [simp]: "opt_static (o1\<lparr>opt_locked := b\<rparr>) = opt_static o1" "opt_ok (o1\<lparr>opt_locked := b\<rparr>) = opt_ok o1"
  by (simp_all add: opt_static_def opt_ok_def has_name_def)

lemma evolves_lock: "evolves o1 o2 \<Longrightarrow> evolves o1 (o2\<lparr>opt_locked := True\<rparr>)"
  unfolding evolves_def by simp

lemma later_value:
  "(opt_ok o1 \<Longrightarrow> val_ok (opt_type o1) v) \<Longrightarrow> (opt_locked o1 \<Longrightarrow> implied o1) \<Longrightarrow> later o1 (o1\<lparr>opt_val := v\<rparr>)"
  using evolves_value [of o1 v] by (auto simp: later_def)

lemma list_all2_refl_later [simp]: "list_all2 later xs xs" "list_all2 evolves xs xs"
  by (simp_all add: list_all2_refl)

lemma list_all2_later_trans:
  "list_all2 later xs ys \<Longrightarrow> list_all2 later ys zs \<Longrightarrow> list_all2 later xs zs"
  by (rule list_all2_trans [OF later_trans])

lemma list_all2_evolves_trans:
  "list_all2 evolves xs ys \<Longrightarrow> list_all2 evolves ys zs \<Longrightarrow> list_all2 evolves xs zs"
  by (rule list_all2_trans [OF evolves_trans])

lemma list_all2_update:
  assumes "\<And>x. R x x" "i < length xs \<Longrightarrow> R (xs ! i) y"
  shows "list_all2 R xs (xs[i := y])"
  using assms by (cases "i < length xs") (auto simp: list_all2_conv_all_nth nth_list_update)

lemma later_all_evolves: "list_all2 later xs ys \<Longrightarrow> list_all2 evolves xs ys"
  by (rule list_all2_mono [where P = later]) (simp_all add: later_evolves)

text \<open>Files, one line at a time.\<close>

lemma later_from_file: "later o' (snd (set_from_file e o' on arg))"
proof (cases "opt_locked o'")
  case True
  then show ?thesis by (simp add: set_from_file_def)
next
  case False
  then show ?thesis
    by (auto simp: set_from_file_def file_login_def Let_def opt_ok_def value_ops.parse_fits
        intro!: later_value split: option.split sum.split prod.split dest: value_ops.parsed [rotated])
qed

lemma later_kv_pair: "list_all2 later opts (snd (parse_kv_pair e opts key arg))"
  by (induction opts) (auto simp: later_from_file split: option.split)

lemma later_setting: "list_all2 later opts (snd (apply_setting e kv opts))"
  using later_kv_pair by (simp add: apply_setting_def Let_def split_beta)

lemma later_lines: "list_all2 later opts (snd (apply_lines e ls opts))"
proof (induction ls arbitrary: opts)
  case (Cons l ls)
  have "list_all2 later opts (snd (apply_setting e (line_setting l) opts))" by (rule later_setting)
  then show ?case
    using Cons list_all2_later_trans by (auto split: prod.split option.split)
qed simp

text \<open>Checks, files, copies and the command line.\<close>

lemma later_set_opt:
  assumes "i < length (cx_opts cx) \<Longrightarrow> later (cx_opts cx ! i) ((cx_opts cx ! i)\<lparr>opt_val := v\<rparr>)"
  shows "list_all2 later (cx_opts cx) (cx_opts (set_opt i v cx))"
  using assms by (auto simp: set_opt_def intro: list_all2_update)

lemma later_set_field:
  assumes "\<And>o'. has_name name o' \<Longrightarrow> later o' (o'\<lparr>opt_val := v\<rparr>)"
  shows "list_all2 later (cx_opts cx) (cx_opts (set_field name v cx))"
  using assms by (auto simp: set_field_def list_all2_conv_all_nth)

lemma later_implied_bool:
  "has_name ''verbose'' o' \<or> has_name ''use-original-mode'' o' \<or> opt_check o' = Check_drm \<Longrightarrow>
     later o' (o'\<lparr>opt_val := V_bool b\<rparr>)"
  by (rule later_value) (auto simp: opt_ok_def implied_def)

lemma later_implied_login:
  "opt_check o' = Check_login \<Longrightarrow> later o' (o'\<lparr>opt_val := V_login b t\<rparr>)"
  by (rule later_value) (auto simp: opt_ok_def implied_def)

lemma later_check: "list_all2 later (cx_opts cx) (cx_opts (snd (run_check e i args idx cx)))"
proof (cases "opt_check (cx_opts cx ! i)")
  case Check_login
  then have "list_all2 later (cx_opts cx) (cx_opts (set_opt i (V_login b t) cx))" for b t
    by (intro later_set_opt later_implied_login)
  then show ?thesis
    using Check_login
    by (auto simp: run_check_def aftercheck_login_def split: conf_val.split option.split sum.split)
next
  case Check_debug
  then show ?thesis
    using later_set_field [of "''verbose''" "V_bool True" cx] later_implied_bool by (simp add: run_check_def)
next
  case Check_drm
  then have "list_all2 later (cx_opts cx) (cx_opts (set_opt i (V_bool False) cx))"
    by (intro later_set_opt later_implied_bool) simp
  then show ?thesis using Check_drm by (simp add: run_check_def)
qed (simp_all add: run_check_def)

lemma later_checks: "list_all2 later (cx_opts cx) (cx_opts (snd (run_checks e args is idx cx)))"
proof (induction "is" arbitrary: idx cx)
  case (Cons i "is")
  obtain r cx' where c: "run_check e i args idx cx = (r, cx')" by fastforce
  have "list_all2 later (cx_opts cx) (cx_opts cx')" using later_check [of cx e i args idx] c by simp
  then show ?case
    using Cons c list_all2_later_trans by (cases r) auto
qed simp

lemma later_check_all: "list_all2 later (cx_opts cx) (cx_opts (snd (check_all e cx)))"
  by (simp add: check_all_def later_checks)

lemma later_buffer: "parse_buffer e cx buf = Some (ret, cx') \<Longrightarrow> list_all2 later (cx_opts cx) (cx_opts cx')"
proof -
  assume p: "parse_buffer e cx buf = Some (ret, cx')"
  obtain r opts where a: "apply_lines e (split_at nl [] buf) (cx_opts cx) = (r, opts)" by fastforce
  have l: "list_all2 later (cx_opts cx) opts"
    using later_lines [of "cx_opts cx" e "split_at nl [] buf"] a by simp
  have "list_all2 later opts (cx_opts (snd (check_all e (cx\<lparr>cx_opts := opts\<rparr>))))"
    using later_check_all [of "cx\<lparr>cx_opts := opts\<rparr>" e] by simp
  then show ?thesis
    using p l a list_all2_later_trans
    by (cases "check_all e (cx\<lparr>cx_opts := opts\<rparr>)") (auto simp: parse_buffer_def parse_lines_reference Let_def split: if_splits)
qed

lemma later_file: "conf_ctx_parse_file e cx path = Some (ret, cx') \<Longrightarrow> list_all2 later (cx_opts cx) (cx_opts cx')"
  by (auto simp: conf_ctx_parse_file_def conf_parse_file_def Let_def split: if_splits sum.splits dest: later_buffer)

lemma parse_buffer_ends: "parse_buffer e cx buf \<noteq> None"
  by (simp add: parse_buffer_def parse_lines_reference Let_def split: prod.split)

lemma parse_file_ends: "\<exists>ret cx'. conf_ctx_parse_file e cx path = Some (ret, cx')"
proof -
  have "conf_ctx_parse_file e cx path \<noteq> None"
    using parse_buffer_ends [of e cx]
    by (simp add: conf_ctx_parse_file_def conf_parse_file_def Let_def split: sum.split)
  then show ?thesis by auto
qed

lemma type_copy_same: "val_ok ty src \<Longrightarrow> type_copy e ty src v = (ok, w) \<Longrightarrow> w = src"
  by (cases ty)
    (auto simp: stored_def when_mem_def shl_dup_array_def shl_dup_array_size_def comp_def
      split: option.splits sum.splits if_splits)

lemma copy_opts_copies:
  assumes "list_all opt_ok ss" "copy_opts e ds ss = (ret, ds')"
  shows "list_all2 later ds ds' \<and>
    (ret = ok \<longrightarrow> (\<forall>i < length ds. i < length ss \<longrightarrow> opt_type (ds ! i) = opt_type (ss ! i) \<longrightarrow>
       \<not> opt_locked (ds ! i) \<longrightarrow> opt_val (ds' ! i) = opt_val (ss ! i) \<and> opt_locked (ds' ! i) = opt_locked (ss ! i)))"
  using assms
proof (induction e ds ss arbitrary: ret ds' rule: copy_opts.induct)
  case (1 e d ds s ss)
  show ?case
  proof (cases "opt_type d \<noteq> opt_type s \<or> opt_locked d")
    case True
    then obtain ds1 where "copy_opts e ds ss = (ret, ds1)" "ds' = d # ds1"
      using "1.prems" by (cases "copy_opts e ds ss") auto
    then show ?thesis
      using "1.IH"(1) [OF True, of ret ds1] "1.prems"(1) True by (auto simp: nth_Cons less_Suc_eq_0_disj split: nat.split)
  next
    case False
    define d1 where "d1 = (if opt_locked s then d\<lparr>opt_locked := True\<rparr> else d)"
    obtain r v where c: "type_copy e (opt_type d) (opt_val s) (opt_val d) = (r, v)" by fastforce
    have s: "val_ok (opt_type d) (opt_val s)" using "1.prems"(1) False by (simp add: opt_ok_def)
    have d1: "opt_type d1 = opt_type d" "opt_val d1 = opt_val d" "opt_locked d1 = opt_locked s"
      using False by (auto simp: d1_def)
    have "evolves d (d\<lparr>opt_val := v\<rparr>)"
      by (rule evolves_value) (rule value_ops.copied [OF s _ c], simp add: opt_ok_def)
    moreover have "d1\<lparr>opt_val := v\<rparr> = (if opt_locked s then (d\<lparr>opt_val := v\<rparr>)\<lparr>opt_locked := True\<rparr> else d\<lparr>opt_val := v\<rparr>)"
      by (cases d) (simp add: d1_def)
    ultimately have "evolves d (d1\<lparr>opt_val := v\<rparr>)" using evolves_lock by simp
    then have l: "later d (d1\<lparr>opt_val := v\<rparr>)" using False by (simp add: later_def)
    show ?thesis
    proof (cases "r = ok")
      case True
      then obtain ds1 where r: "copy_opts e ds ss = (ret, ds1)" "ds' = d1\<lparr>opt_val := v\<rparr> # ds1"
        using "1.prems"(2) False c d1 by (cases "copy_opts e ds ss") (auto simp: d1_def [symmetric] Let_def)
      have "v = opt_val s" using type_copy_same [OF s] c True by simp
      then show ?thesis
        using "1.IH"(2) [OF False refl] r "1.prems"(1) c True d1 l
        by (auto simp: d1_def [symmetric] nth_Cons less_Suc_eq_0_disj split: nat.split)
    next
      case no: False
      then have "ret = r" "ds' = d1\<lparr>opt_val := v\<rparr> # ds"
        using "1.prems"(2) False c d1 by (auto simp: d1_def [symmetric] Let_def)
      then show ?thesis using l no by auto
    qed
  qed
qed auto

lemma evolves_take_option: "list_all2 evolves opts (snd (take_option e on arg i opts))"
proof -
  obtain ret v where p: "type_parse e (opt_type (opts ! i)) on arg (opt_val (opts ! i)) = (ret, v)" by fastforce
  have "evolves (opts ! i) ((opts ! i)\<lparr>opt_val := v\<rparr>)"
    by (rule evolves_value) (rule value_ops.parsed [OF _ p], simp add: opt_ok_def)
  moreover have "(opts ! i)\<lparr>opt_val := v, opt_locked := True\<rparr> = (opts ! i)\<lparr>opt_val := v\<rparr>\<lparr>opt_locked := True\<rparr>"
    by simp
  ultimately have "evolves (opts ! i) ((opts ! i)\<lparr>opt_val := v, opt_locked := True\<rparr>)"
    using evolves_lock by metis
  then show ?thesis
    using \<open>evolves (opts ! i) ((opts ! i)\<lparr>opt_val := v\<rparr>)\<close> p
    by (auto simp: take_option_def Let_def intro: list_all2_update)
qed

lemma evolves_round: "list_all2 evolves opts (snd (argv_round e c optarg opts))"
  by (simp add: argv_round_def evolves_take_option split: option.split)

lemma evolves_argv_loop: "list_all2 evolves opts (snd (argv_loop e rs opts))"
proof (induction rs arbitrary: opts)
  case (Cons r rs)
  obtain c a where r: "r = (c, a)" by fastforce
  obtain ret opts' where a: "argv_round e c a opts = (ret, opts')" by fastforce
  then have "list_all2 evolves opts opts'" using evolves_round [of opts e c a] by simp
  then show ?case using Cons [of opts'] a r list_all2_evolves_trans by (cases ret) auto
qed simp

lemma evolves_argv: "conf_ctx_parse_argv e cx argv = (ret, cx') \<Longrightarrow> list_all2 evolves (cx_opts cx) (cx_opts cx')"
proof -
  assume p: "conf_ctx_parse_argv e cx argv = (ret, cx')"
  obtain rounds oi args where g: "ce_getopt e (short_options (cx_opts cx)) (long_options (cx_opts cx)) argv = (rounds, oi, args)"
    by (metis prod_cases3)
  obtain r opts where a: "argv_loop e rounds (cx_opts cx) = (r, opts)" by fastforce
  obtain n cx2 where c: "run_checks e (Some args) [0..<length opts] oi (cx\<lparr>cx_opts := opts\<rparr>) = (n, cx2)" by fastforce
  have "list_all2 evolves (cx_opts cx) opts" using evolves_argv_loop [of "cx_opts cx" e rounds] a by simp
  moreover have "list_all2 evolves opts (cx_opts cx2)"
    using later_all_evolves [OF later_checks [of "cx\<lparr>cx_opts := opts\<rparr>" e "Some args" "[0..<length opts]" oi]] c by simp
  ultimately show ?thesis
    using p g a c list_all2_evolves_trans
    by (auto simp: conf_ctx_parse_argv_def Let_def split: if_splits sum.splits)
qed

lemma later_mode: "list_all2 later (cx_opts cx) (cx_opts (mode_over_original cx))"
  using later_set_field [of "''use-original-mode''" "V_bool False" cx] later_implied_bool
  by (simp add: mode_over_original_def)

lemma load_main_parts:
  assumes "kmscon_conf_load_main e cx argv = Some (ret, m)"
  shows "\<exists>r cx1. conf_ctx_parse_argv e (cx\<lparr>cx_seat_config := False\<rparr>) argv = (r, cx1) \<and>
    list_all2 evolves (cx_opts cx) (cx_opts cx1) \<and> list_all2 later (cx_opts cx1) (cx_opts m)"
proof -
  obtain r cx1 where p: "conf_ctx_parse_argv e (cx\<lparr>cx_seat_config := False\<rparr>) argv = (r, cx1)" by fastforce
  have "list_all2 evolves (cx_opts cx) (cx_opts cx1)" using evolves_argv [OF p] by simp
  moreover have "list_all2 later (cx_opts cx1) (cx_opts m)"
  proof (cases "cx_exit cx1")
    case True
    then show ?thesis using assms p by (simp add: kmscon_conf_load_main_def split: if_splits)
  next
    case False
    obtain r2 cx2 where f: "conf_ctx_parse_file e cx1 (config_path cx1 ''kmscon.conf'') = Some (r2, cx2)"
      using parse_file_ends by blast
    then have "m = (if r2 \<noteq> ok then cx2 else mode_over_original cx2)"
      using assms p False by (auto simp: kmscon_conf_load_main_def split: if_splits)
    then show ?thesis using later_file [OF f] list_all2_later_trans [OF _ later_mode] by simp
  qed
  ultimately show ?thesis using p by blast
qed

lemma later_copy:
  assumes "list_all opt_ok (cx_opts src)" "conf_ctx_parse_ctx e cx src = (ret, cx')"
  shows "list_all2 later (cx_opts cx) (cx_opts cx')"
proof -
  obtain r opts where c: "copy_opts e (cx_opts cx) (cx_opts src) = (r, opts)" by fastforce
  have "list_all2 later (cx_opts cx) opts" using copy_opts_copies [OF assms(1) c] by simp
  moreover have "list_all2 later opts (cx_opts (snd (check_all e (cx\<lparr>cx_opts := opts\<rparr>))))"
    using later_check_all [of "cx\<lparr>cx_opts := opts\<rparr>" e] by simp
  ultimately show ?thesis
    using assms(2) c list_all2_later_trans by (auto simp: conf_ctx_parse_ctx_def Let_def split: if_splits)
qed

lemma load_seat_later:
  assumes "list_all opt_ok (cx_opts main)" "kmscon_conf_load_seat e cx main seat = Some (ret, s)"
  shows "list_all2 later (cx_opts cx) (cx_opts s)"
proof -
  obtain r cx1 where p: "conf_ctx_parse_ctx e (cx\<lparr>cx_seat_config := True\<rparr>) main = (r, cx1)" by fastforce
  have "list_all2 later (cx_opts cx) (cx_opts cx1)" using later_copy [OF assms(1) p] by simp
  then show ?thesis
    using assms(2) p later_file list_all2_later_trans
    by (auto simp: kmscon_conf_load_seat_def split: if_splits)
qed

section \<open>The table of options\<close>

lemma kmscon_options_ok: "list_all opt_ok (kmscon_options b)"
  by (simp add: kmscon_options_def plain_option_def opt_ok_def has_name_def Let_def ex_bool_eq)

lemma conf_new_opts: "kmscon_conf_new mem b = Inr cx \<Longrightarrow> cx_opts cx = map reset_option (kmscon_options b)"
  by (auto simp: kmscon_conf_new_def conf_ctx_new_def conf_ctx_reset_def split: if_splits)

lemma conf_new_ok:
  assumes "kmscon_conf_new mem b = Inr cx"
  shows "list_all opt_ok (cx_opts cx)" "map opt_static (cx_opts cx) = map opt_static (kmscon_options b)"
    "list_all (\<lambda>o'. \<not> opt_locked o') (cx_opts cx)"
proof -
  have "opt_ok (reset_option o')" if "opt_ok o'" for o' using that by (simp add: reset_option_def opt_ok_def has_name_def)
  then show "list_all opt_ok (cx_opts cx)"
    using kmscon_options_ok [of b] by (auto simp: conf_new_opts [OF assms] list_all_iff)
  show "map opt_static (cx_opts cx) = map opt_static (kmscon_options b)"
    by (simp add: conf_new_opts [OF assms] reset_option_def opt_static_def comp_def)
  show "list_all (\<lambda>o'. \<not> opt_locked o') (cx_opts cx)"
    by (simp add: conf_new_opts [OF assms] reset_option_def list_all_iff)
qed

lemma evolves_all:
  assumes "list_all2 evolves xs ys"
  shows "map opt_static ys = map opt_static xs" "list_all opt_ok xs \<Longrightarrow> list_all opt_ok ys"
  using assms by (auto simp: list_all2_conv_all_nth evolves_def list_all_length intro: nth_equalityI)

end
