(* ===== verification/Config_Spec.thy ===== *)
theory Config_Spec
  imports Conf_Spec
begin

text \<open>
  The properties of the configuration: types, termination, the reading of files, the precedence of
  the command line, and the grabs.
\<close>

section \<open>Loading\<close>

lemma later_implied: "later o1 o2 \<Longrightarrow> implied o2 = implied o1"
  using implied_static unfolding later_def evolves_def by blast

lemma later_locked:
  assumes "later o1 o2" "opt_locked o1" "\<not> implied o1"
  shows "opt_val o2 = opt_val o1" "opt_locked o2" "\<not> implied o2"
  using assms later_implied [OF assms(1)] by (simp_all add: later_def evolves_def)

text \<open>
  No parser stores a value of the wrong type: after the main configuration has been
  loaded from any command line and any files, and that of a seat from it, every option still holds
  a value of its type, and names, types, defaults and hooks are those of the table.
\<close>

theorem configuration_keeps_types:
  assumes "kmscon_conf_new mem b = Inr cx" and "kmscon_conf_new mem b = Inr sx"
    and "kmscon_conf_load_main e cx argv = Some (ret, m)"
    and "kmscon_conf_load_seat e sx m seat = Some (ret', s)"
  shows "map opt_static (cx_opts m) = map opt_static (kmscon_options b) \<and>
    map opt_static (cx_opts s) = map opt_static (kmscon_options b) \<and>
    list_all (\<lambda>o'. val_ok (opt_type o') (opt_val o')) (cx_opts m @ cx_opts s)"
proof -
  note new = conf_new_ok [OF assms(1)] conf_new_ok [OF assms(2)]
  obtain cx1 :: conf_ctx where "list_all2 evolves (cx_opts cx) (cx_opts cx1)" "list_all2 later (cx_opts cx1) (cx_opts m)"
    using load_main_parts [OF assms(3)] by blast
  then have m: "list_all2 evolves (cx_opts cx) (cx_opts m)"
    using later_all_evolves list_all2_evolves_trans by blast
  note m = evolves_all [OF m]
  have s: "list_all2 evolves (cx_opts sx) (cx_opts s)"
    using load_seat_later [OF m(2) [OF new(1)] assms(4)] by (rule later_all_evolves)
  have fits: "list_all (\<lambda>o'. val_ok (opt_type o') (opt_val o')) xs" if "list_all opt_ok xs" for xs
    using that by (rule list.pred_mono_strong) (simp add: opt_ok_def)
  show ?thesis
    using m(1) new(2) evolves_all(1) [OF s] new(5) fits [OF m(2) [OF new(1)]] fits [OF evolves_all(2) [OF s new(4)]] by simp
qed

text \<open>An environment: files by path, no arguments that look like options, keysyms by one letter.\<close>

definition demo_conf_file :: "string \<Rightarrow> conf_file" where
  "demo_conf_file s = \<lparr>cf_exists = True, cf_readable = True, cf_opens = True, cf_reads = [Some s]\<rparr>"

definition no_conf_file :: conf_file where
  "no_conf_file = \<lparr>cf_exists = False, cf_readable = False, cf_opens = False, cf_reads = []\<rparr>"

definition demo_env :: "(nat \<times> string option) list \<Rightarrow> (string \<Rightarrow> conf_file) \<Rightarrow> conf_env" where
  "demo_env rounds files =
     \<lparr>ce_mem = True, ce_getopt = (\<lambda>short long argv. (rounds, length argv, argv)),
      ce_keysym = (\<lambda>s. if length s = 1 then of_nat (code (hd s)) else 0), ce_drm = True, ce_file = files\<rparr>"

definition demo_build :: conf_build where
  "demo_build = \<lparr>bd_config_dir = ''/etc'', bd_term = ''linux'', bd_key = (\<lambda>s. of_nat (length s))\<rparr>"

lemma load_main_ends: "\<exists>ret m. kmscon_conf_load_main e cx argv = Some (ret, m)"
proof -
  obtain r cx1 where p: "conf_ctx_parse_argv e (cx\<lparr>cx_seat_config := False\<rparr>) argv = (r, cx1)" by fastforce
  obtain r2 cx2 where f: "conf_ctx_parse_file e cx1 (config_path cx1 ''kmscon.conf'') = Some (r2, cx2)"
    using parse_file_ends by blast
  show ?thesis using argv_returns [of e "cx\<lparr>cx_seat_config := False\<rparr>" argv] by (simp add: kmscon_conf_load_main_def p f)
qed

lemma load_seat_ends: "\<exists>ret s. kmscon_conf_load_seat e sx main seat = Some (ret, s)"
proof -
  obtain r cx1 where p: "conf_ctx_parse_ctx e (sx\<lparr>cx_seat_config := True\<rparr>) main = (r, cx1)" by fastforce
  then show ?thesis using parse_file_ends by (auto simp: kmscon_conf_load_seat_def)
qed

theorem configuration_keeps_types_witness:
  "\<exists>cx (m::conf_ctx) (s::conf_ctx). kmscon_conf_new True demo_build = Inr cx \<and>
     map opt_static (cx_opts m) = map opt_static (kmscon_options demo_build) \<and>
     list_all (\<lambda>o'. val_ok (opt_type o') (opt_val o')) (cx_opts m @ cx_opts s)"
proof -
  have n: "kmscon_conf_new True demo_build = Inr (conf_ctx_reset \<lparr>cx_opts = kmscon_options demo_build,
      cx_seat_config = False, cx_exit = False, cx_printed = []\<rparr>)" (is "_ = Inr ?cx")
    by (simp add: kmscon_conf_new_def conf_ctx_new_def kmscon_options_def Let_def)
  let ?e = "demo_env [] (\<lambda>path. demo_conf_file ''font-size = x'')"
  obtain ret m where m: "kmscon_conf_load_main ?e ?cx [] = Some (ret, m)" using load_main_ends by blast
  obtain ret' s where s: "kmscon_conf_load_seat ?e ?cx m ''seat0'' = Some (ret', s)" using load_seat_ends by blast
  show ?thesis using configuration_keeps_types [OF n n m s] n by blast
qed

text \<open>
  Property C29. Loading a configuration ends: whatever the files contain and whatever the command
  line does, both loaders return. Neither the loop over the lines, which walks through the buffer by
  the pointers of its nested scans, nor the second pass of the split of a list, of a grab or of a
  colour, which counts down from the number the first pass has found and ends only because that
  number is right, runs for ever.
\<close>

theorem loading_ends:
  "(\<exists>ret m. kmscon_conf_load_main e cx argv = Some (ret, m)) \<and>
   (\<exists>ret s. kmscon_conf_load_seat e sx main seat = Some (ret, s))"
  using load_main_ends load_seat_ends by blast

text \<open>
  Property C16. Reading a file in place, with its three nested scans and the zero bytes they write,
  is the same as cutting the text into lines, dropping what follows a hash sign, cutting at the
  first equals sign and applying the settings in order: a line that names no option or has a
  superfluous or missing argument is passed over, any other error ends the reading, and the checks
  run when all lines have been read.
\<close>

theorem file_is_read_by_lines:
  "parse_buffer e cx buf =
     (case apply_lines e (split_at nl [] buf) (cx_opts cx) of
        (None, opts) \<Rightarrow> Some (check_all e (cx\<lparr>cx_opts := opts\<rparr>))
      | (Some err, opts) \<Rightarrow> Some (Some err, cx\<lparr>cx_opts := opts\<rparr>))"
  by (auto simp: parse_buffer_def parse_lines_reference Let_def split: prod.split option.split)

text \<open>
  Property C13. What the command line has set wins: an option that the command line locked has, once
  the main file, the copying and the file of the seat have been read, the value the command line
  gave it, in the main configuration and in that of the seat. The options that a check of another
  option may change (verbose, use-original-mode, drm, login) are excepted.
\<close>

theorem command_line_wins:
  assumes new: "kmscon_conf_new mem b = Inr cx" "kmscon_conf_new mem b = Inr sx"
    and argv: "conf_ctx_parse_argv e (cx\<lparr>cx_seat_config := False\<rparr>) argv = (r, c1)"
    and main: "kmscon_conf_load_main e cx argv = Some (ret, m)"
    and seat: "kmscon_conf_load_seat e sx m seat = Some (None, s)"
    and i: "i < length (cx_opts c1)" "opt_locked (cx_opts c1 ! i)" "\<not> implied (cx_opts c1 ! i)"
  shows "opt_val (cx_opts m ! i) = opt_val (cx_opts c1 ! i) \<and> opt_val (cx_opts s ! i) = opt_val (cx_opts c1 ! i)"
proof -
  have l: "list_all2 evolves (cx_opts cx) (cx_opts c1)" "list_all2 later (cx_opts c1) (cx_opts m)"
    using load_main_parts [OF main] argv by simp_all
  then have cm: "list_all2 evolves (cx_opts cx) (cx_opts m)"
    using later_all_evolves list_all2_evolves_trans by blast
  have len: "length (cx_opts m) = length (cx_opts c1)" "length (cx_opts sx) = length (cx_opts c1)"
    using list_all2_lengthD [OF l(1)] list_all2_lengthD [OF l(2)]
    by (simp_all add: conf_new_opts [OF new(1)] conf_new_opts [OF new(2)])
  have lm: "later (cx_opts c1 ! i) (cx_opts m ! i)" using l(2) i(1) by (simp add: list_all2_conv_all_nth)
  have vm: "opt_val (cx_opts m ! i) = opt_val (cx_opts c1 ! i)" "opt_locked (cx_opts m ! i)" "\<not> implied (cx_opts m ! i)"
    using later_locked [OF lm i(2,3)] by simp_all
  have okm: "list_all opt_ok (cx_opts m)" using evolves_all(2) [OF cm conf_new_ok(1) [OF new(1)]] .
  have st: "map opt_static (cx_opts m) = map opt_static (cx_opts sx)"
    using evolves_all(1) [OF cm] conf_new_ok(2) [OF new(1)] conf_new_ok(2) [OF new(2)] by simp
  then have "opt_static (cx_opts m ! i) = opt_static (cx_opts sx ! i)"
    using len i(1) by (metis nth_map)
  then have t: "opt_type (cx_opts sx ! i) = opt_type (cx_opts m ! i)" by (simp add: opt_static_def)
  have u: "\<not> opt_locked (cx_opts sx ! i)" using conf_new_ok(3) [OF new(2)] len i(1) by (simp add: list_all_length)
  obtain r2 s1 where p: "conf_ctx_parse_ctx e (sx\<lparr>cx_seat_config := True\<rparr>) m = (r2, s1)" by fastforce
  obtain r3 ds where d: "copy_opts e (cx_opts sx) (cx_opts m) = (r3, ds)" by fastforce
  have r2: "r2 = ok" "conf_ctx_parse_file e s1 (config_path s1 (seat @ ''.seat.conf'')) = Some (None, s)"
    using seat p by (auto simp: kmscon_conf_load_seat_def split: if_splits)
  then have r3: "r3 = ok" "check_all e (sx\<lparr>cx_seat_config := True, cx_opts := ds\<rparr>) = (r2, s1)"
    using p d by (auto simp: conf_ctx_parse_ctx_def Let_def split: if_splits)
  have c: "opt_val (ds ! i) = opt_val (cx_opts m ! i)" "opt_locked (ds ! i)"
    using copy_opts_copies [OF okm d] r3(1) t u len i(1) vm(2) by auto
  have "list_all2 later ds (cx_opts s1)"
    using later_check_all [of "sx\<lparr>cx_seat_config := True, cx_opts := ds\<rparr>" e] r3(2) by simp
  then have ls: "list_all2 later ds (cx_opts s)" using later_file [OF r2(2)] list_all2_later_trans by blast
  have dl: "list_all2 later (cx_opts sx) ds" using copy_opts_copies [OF okm d] by blast
  then have "later (cx_opts sx ! i) (ds ! i)" "length ds = length (cx_opts sx)"
    using len i(1) by (simp_all add: list_all2_conv_all_nth)
  moreover have "implied (cx_opts sx ! i) = implied (cx_opts m ! i)"
    by (rule implied_static) (simp add: \<open>opt_static (cx_opts m ! i) = opt_static (cx_opts sx ! i)\<close>)
  ultimately have "implied (ds ! i) = implied (cx_opts m ! i)" "length ds = length (cx_opts sx)"
    using later_implied by simp_all
  then have "opt_val (cx_opts s ! i) = opt_val (ds ! i)"
    using ls c(2) vm(3) len i(1) by (simp add: list_all2_conv_all_nth later_def)
  then show ?thesis using c vm by simp
qed

text \<open>With memory and without files the copy of the main configuration succeeds.\<close>

lemma copy_opts_ok:
  "ce_mem e \<Longrightarrow> list_all opt_ok ss \<Longrightarrow> list_all (\<lambda>o'. opt_type o' \<noteq> T_string_list) ds \<Longrightarrow> fst (copy_opts e ds ss) = ok"
proof (induction e ds ss rule: copy_opts.induct)
  case (1 e d ds s ss)
  have c: "opt_type d = opt_type s \<Longrightarrow> fst (type_copy e (opt_type d) (opt_val s) v) = ok" for v
    using "1.prems" by (cases "opt_type d")
      (auto simp: opt_ok_def stored_def when_mem_def shl_dup_array_def shl_dup_array_size_def split: option.split)
  obtain r v where t: "type_copy e (opt_type d) (opt_val s) (opt_val d) = (r, v)" by fastforce
  show ?case
  proof (cases "opt_type d \<noteq> opt_type s \<or> opt_locked d")
    case True
    then show ?thesis using "1.IH"(1) [OF True] "1.prems" by simp
  next
    case False
    then have "r = ok" using c [of "opt_val d"] t by simp
    then show ?thesis using "1.IH"(2) [OF False refl] t "1.prems" False by (auto simp: Let_def)
  qed
qed auto

lemma check_all_ok:
  assumes "ce_mem e"
  shows "fst (check_all e cx) = ok"
proof -
  have "\<exists>n. fst (run_checks e None is idx cx) = Inr n" for "is" idx and cx :: conf_ctx
  proof (induction "is" arbitrary: idx cx)
    case (Cons i "is")
    have "\<exists>n cx'. run_check e i None idx cx = (Inr n, cx')"
      using assms by (auto simp: run_check_def aftercheck_login_def shl_dup_array_size_def
          split: aftercheck.split conf_val.split option.split)
    then show ?case using Cons by auto
  qed simp
  then show ?thesis by (metis (no_types, lifting) check_all_def fst_map_prod status_of_def sum.simps(6))
qed

theorem command_line_wins_witness:
  "\<exists>cx m (s::conf_ctx). kmscon_conf_new True demo_build = Inr cx \<and>
     kmscon_conf_load_main (demo_env [(100004, None)] (\<lambda>path. if shl_ends_with path ''.seat.conf''
       then no_conf_file else demo_conf_file ''no-silent'')) cx [] = Some m \<and>
     opt_val (cx_opts (snd m) ! 4) = V_bool True \<and> opt_val (cx_opts s ! 4) = V_bool True"
proof -
  let ?e = "demo_env [(100004, None)] (\<lambda>path. if shl_ends_with path ''.seat.conf'' then no_conf_file else demo_conf_file ''no-silent'')"
  have n: "kmscon_conf_new True demo_build = Inr (conf_ctx_reset \<lparr>cx_opts = kmscon_options demo_build,
      cx_seat_config = False, cx_exit = False, cx_printed = []\<rparr>)" (is "_ = Inr ?cx")
    by (simp add: kmscon_conf_new_def conf_ctx_new_def kmscon_options_def Let_def)
  note ok0 = conf_new_ok [OF n]
  let ?opts = "cx_opts ?cx"
  have o4: "?opts ! 4 = plain_option None ''silent'' T_bool (V_bool False)" "4 < length ?opts"
    "list_all (\<lambda>o'. opt_type o' \<noteq> T_string_list) ?opts"
    by (simp_all add: conf_ctx_reset_def kmscon_options_def reset_option_def plain_option_def Let_def)
  define o5 where "o5 = (?opts ! 4)\<lparr>opt_val := V_bool True, opt_locked := True\<rparr>"
  have al: "argv_loop ?e [(100004, None)] ?opts = (ok, ?opts[4 := o5])"
    using o4(1) by (simp add: argv_round_def take_option_def code_def o5_def plain_option_def)
  obtain r c1 where c1: "conf_ctx_parse_argv ?e (?cx\<lparr>cx_seat_config := False\<rparr>) [] = (r, c1)" by fastforce
  have rc: "list_all2 later (?opts[4 := o5]) (cx_opts c1)"
    using c1 al later_checks [of "?cx\<lparr>cx_seat_config := False, cx_opts := ?opts[4 := o5]\<rparr>" ?e "Some []" "[0..<length ?opts]" 0]
    by (auto simp: conf_ctx_parse_argv_def demo_env_def Let_def split: sum.splits prod.splits if_splits)
  have l4: "later o5 (cx_opts c1 ! 4)" "4 < length (cx_opts c1)"
    using rc o4(2) by (auto simp: list_all2_conv_all_nth)
  have o5: "opt_locked o5" "\<not> implied o5" "opt_val o5 = V_bool True"
    using o4(1) by (simp_all add: o5_def implied_def has_name_def plain_option_def)
  note v4 = later_locked [OF l4(1) o5(1,2)]
  obtain ret m where m: "kmscon_conf_load_main ?e ?cx [] = Some (ret, m)" using load_main_ends by blast
  obtain d :: conf_ctx where "list_all2 evolves ?opts (cx_opts d)" "list_all2 later (cx_opts d) (cx_opts m)"
    using load_main_parts [OF m] by blast
  then have "list_all2 evolves ?opts (cx_opts m)" using later_all_evolves list_all2_evolves_trans by blast
  then have mo: "list_all opt_ok (cx_opts m)" using evolves_all(2) ok0(1) by blast
  obtain r2 s1 where p: "conf_ctx_parse_ctx ?e (?cx\<lparr>cx_seat_config := True\<rparr>) m = (r2, s1)" by fastforce
  have e: "ce_mem ?e" by (simp add: demo_env_def)
  have r2: "r2 = ok"
    using p copy_opts_ok [OF e mo o4(3)] check_all_ok [OF e]
    by (auto simp: conf_ctx_parse_ctx_def Let_def split: prod.splits if_splits) (metis fst_conv)
  have "conf_ctx_parse_file ?e s1 path = Some (ok, s1)" if "shl_ends_with path ''.seat.conf''" "cx_opts s1 \<noteq> []" for path
    using that by (simp add: conf_ctx_parse_file_def conf_parse_file_def demo_env_def no_conf_file_def)
  moreover have "shl_ends_with (config_path s1 (''seat0'' @ ''.seat.conf'')) ''.seat.conf''"
    by (auto simp: config_path_def shl_ends_with_iff split: option.split conf_val.split intro: exI [of _ "_ @ ''/seat0''"])
  moreover have "cx_opts s1 \<noteq> []" using later_copy [OF mo p] o4(2) by (auto dest: list_all2_lengthD)
  ultimately have s: "kmscon_conf_load_seat ?e ?cx m ''seat0'' = Some (None, s1)"
    using p r2 by (simp add: kmscon_conf_load_seat_def)
  show ?thesis
    using command_line_wins [OF n n c1 m s, of 4] v4 l4(2) o5(3) n m by auto
qed

text \<open>
  The exception is a real one. The manual says that options of the command line override those of
  the file; but \<open>--no-verbose\<close> does not last against \<open>debug\<close> in \<open>kmscon.conf\<close>: the option is set
  to false and locked, and the check of the debug option, which implies verbose, writes past the
  lock when the file has been read.
\<close>

definition verbose_option :: conf_option where
  "verbose_option = plain_option (Some CHR ''v'') ''verbose'' T_bool (V_bool False)"

definition debug_option :: conf_option where
  "debug_option = (plain_option None ''debug'' T_bool (V_bool False))\<lparr>opt_check := Check_debug\<rparr>"

theorem no_verbose_is_overruled:
  "let e = demo_env [(NO_LONG_OPTION, None)] (\<lambda>p. demo_conf_file ''debug'');
       cx = \<lparr>cx_opts = [verbose_option, debug_option], cx_seat_config = False, cx_exit = False, cx_printed = []\<rparr>
   in kmscon_options b ! 2 = verbose_option \<and> kmscon_options b ! 3 = debug_option \<and>
      conf_ctx_parse_argv e cx [] =
        (ok, cx\<lparr>cx_opts := [verbose_option\<lparr>opt_locked := True\<rparr>, debug_option]\<rparr>) \<and>
      kmscon_conf_load_main e cx [] =
        Some (ok, cx\<lparr>cx_opts := [verbose_option\<lparr>opt_locked := True, opt_val := V_bool True\<rparr>,
                                 debug_option\<lparr>opt_val := V_bool True\<rparr>]\<rparr>)"
proof -
  let ?e = "demo_env [(NO_LONG_OPTION, None)] (\<lambda>p. demo_conf_file ''debug'')"
  let ?cx = "\<lparr>cx_opts = [verbose_option, debug_option], cx_seat_config = False, cx_exit = False, cx_printed = []\<rparr>"
  let ?opts = "[verbose_option\<lparr>opt_locked := True\<rparr>, debug_option]"
  have o: "kmscon_options b ! 2 = verbose_option" "kmscon_options b ! 3 = debug_option"
    by (simp_all add: kmscon_options_def verbose_option_def debug_option_def Let_def)
  have v: "verbose_option\<lparr>opt_val := V_bool False, opt_locked := True\<rparr> = verbose_option\<lparr>opt_locked := True\<rparr>"
    by (simp add: verbose_option_def plain_option_def)
  have a: "conf_ctx_parse_argv ?e ?cx [] = (ok, ?cx\<lparr>cx_opts := ?opts\<rparr>)"
    by (simp add: conf_ctx_parse_argv_def demo_env_def argv_round_def take_option_def Let_def code_def run_check_def
        verbose_option_def debug_option_def plain_option_def)
  have l: "apply_lines ?e (split_at nl [] ''debug'') ?opts = (ok, [verbose_option\<lparr>opt_locked := True\<rparr>, debug_option\<lparr>opt_val := V_bool True\<rparr>])"
    by (simp add: apply_setting_def line_setting_def strip_spaces_def blank_def cstr_def key_names_def set_from_file_def
        verbose_option_def debug_option_def plain_option_def has_arg_def)
  let ?m = "?cx\<lparr>cx_opts := [verbose_option\<lparr>opt_locked := True, opt_val := V_bool True\<rparr>, debug_option\<lparr>opt_val := V_bool True\<rparr>]\<rparr>"
  have "check_all ?e (?cx\<lparr>cx_opts := [verbose_option\<lparr>opt_locked := True\<rparr>, debug_option\<lparr>opt_val := V_bool True\<rparr>]\<rparr>) = (ok, ?m)"
    by (simp add: check_all_def run_check_def status_of_def set_field_def has_name_def verbose_option_def debug_option_def
        plain_option_def)
  then have f: "parse_buffer ?e (?cx\<lparr>cx_opts := ?opts\<rparr>) ''debug'' = Some (ok, ?m)"
    unfolding parse_buffer_def parse_lines_reference by (simp add: l del: split_at.simps apply_lines.simps)
  have "conf_ctx_parse_file ?e (?cx\<lparr>cx_opts := ?opts\<rparr>) path = parse_buffer ?e (?cx\<lparr>cx_opts := ?opts\<rparr>) ''debug''" for path
    by (simp add: conf_ctx_parse_file_def conf_parse_file_def demo_env_def demo_conf_file_def)
  then have "kmscon_conf_load_main ?e ?cx [] = Some (ok, ?m)"
    using f a by (simp add: kmscon_conf_load_main_def mode_over_original_def get_field_def has_name_def
        verbose_option_def debug_option_def plain_option_def)
  then show ?thesis using o a by (simp add: Let_def)
qed

section \<open>Grabs\<close>

text \<open>A grab as it is written: names of modifiers and of keys.\<close>

definition join :: "char \<Rightarrow> string list \<Rightarrow> string" where
  "join sep ws = (case ws of [] \<Rightarrow> [] | w # ws \<Rightarrow> w @ concat (map ((#) sep) ws))"

definition show_entry :: "string list \<times> string list \<Rightarrow> string" where
  "show_entry g = concat (map (\<lambda>m. CHR ''<'' # m @ ''>'') (fst g)) @ join CHR ''+'' (snd g)"

definition show_grab :: "(string list \<times> string list) list \<Rightarrow> string" where
  "show_grab gs = join CHR '','' (map show_entry gs)"

definition key_name :: "conf_env \<Rightarrow> string \<Rightarrow> bool" where
  "key_name e k \<longleftrightarrow> k \<noteq> [] \<and> set k \<inter> {CHR '' '', CHR ''+'', CHR '','', CHR ''<''} = {} \<and> ce_keysym e k \<noteq> 0"

definition entry_ok :: "conf_env \<Rightarrow> string list \<times> string list \<Rightarrow> bool" where
  "entry_ok e g \<longleftrightarrow> list_all (\<lambda>m. modifier m \<noteq> None \<and> set m \<inter> {CHR ''>'', CHR ''+'', CHR '',''} = {}) (fst g) \<and>
     snd g \<noteq> [] \<and> list_all (key_name e) (snd g)"

definition entry_grab :: "conf_env \<Rightarrow> string list \<times> string list \<Rightarrow> u32 \<times> u32 list" where
  "entry_grab e g = (foldl (\<lambda>ms m. or ms (the (modifier m))) 0 (fst g), map (ce_keysym e) (snd g))"

lemma join_Cons: "join sep (w # ws) = (if ws = [] then w else w @ sep # join sep ws)"
  by (cases ws) (simp_all add: join_def)

lemma split_spec_join:
  "list_all (\<lambda>w. w \<noteq> [] \<and> sep \<notin> set w) ws \<Longrightarrow> split_spec sep False (join sep ws) = ws"
proof (induction ws)
  case Nil
  then show ?case by (simp add: join_def split_spec_def)
next
  case (Cons w ws)
  have w: "w \<noteq> []" using Cons.prems by simp
  have n: "x \<noteq> sep" if "x \<in> set w" for x using Cons.prems that by auto
  have t: "takeWhile (\<lambda>c. c \<noteq> sep) (w @ sep # u) = w" "dropWhile (\<lambda>c. c \<noteq> sep) (w @ sep # u) = sep # u" for u
    using n by (simp_all add: takeWhile_append2 dropWhile_append2)
  have t0: "takeWhile (\<lambda>c. c \<noteq> sep) w = w" "dropWhile (\<lambda>c. c \<noteq> sep) w = []"
    using n by (simp_all add: takeWhile_eq_all_conv dropWhile_eq_Nil_conv)
  show ?case
  proof (cases "ws = []")
    case True
    then have "split_at sep [] (join sep (w # ws)) = [w]"
      by (subst split_at_step) (simp add: join_Cons t0 del: takeWhile_eq_all_conv dropWhile_eq_Nil_conv)
    then show ?thesis using w True by (simp add: split_spec_def)
  next
    case False
    then have "split_at sep [] (join sep (w # ws)) = w # split_at sep [] (join sep ws)"
      by (subst split_at_step) (simp add: join_Cons t)
    then show ?thesis using Cons w by (simp add: split_spec_def)
  qed
qed

lemma grab_mods_shown:
  assumes "list_all (\<lambda>m. modifier m \<noteq> None \<and> CHR ''>'' \<notin> set m) ms" "rest \<noteq> []" "hd rest \<noteq> CHR '' ''" "hd rest \<noteq> CHR ''<''"
  shows "grab_mods (concat (map (\<lambda>m. CHR ''<'' # m @ ''>'') ms) @ rest) b =
    Some (foldl (\<lambda>ms m. or ms (the (modifier m))) b ms, rest)"
  using assms(1)
proof (induction ms arbitrary: b)
  case Nil
  have "skip_blanks rest = rest" using assms(2,3) by (cases rest) (simp_all add: skip_blanks_def)
  then show ?case using assms by (subst grab_mods.simps) simp
next
  case (Cons m ms)
  then obtain k where k: "modifier m = Some k" by auto
  show ?case using Cons k by (subst grab_mods.simps) (simp add: skip_blanks_def)
qed

lemma key_name_single:
  assumes "key_name e k"
  shows "parse_single_grab e k m False = Some (m, Some (ce_keysym e k))"
    "parse_single_grab e (concat (map (\<lambda>m. CHR ''<'' # m @ ''>'') ms) @ k) 0 True =
       (case grab_mods (concat (map (\<lambda>m. CHR ''<'' # m @ ''>'') ms) @ k) 0 of
          None \<Rightarrow> None | Some (mods, t) \<Rightarrow> parse_single_grab e t mods False)"
proof -
  obtain c cs where c: "k = c # cs" "c \<noteq> CHR '' ''" using assms by (cases k) (auto simp: key_name_def)
  obtain d ds where d: "rev k = d # ds" "d \<noteq> CHR '' ''"
    using assms by (cases k rule: rev_cases) (auto simp: key_name_def)
  have "skip_blanks k = k" "skip_blanks (rev k) = rev k"
    using c d(2) unfolding skip_blanks_def d(1) by simp_all
  then show "parse_single_grab e k m False = Some (m, Some (ce_keysym e k))"
    using assms by (simp add: parse_single_grab_def key_name_def)
  have s: "skip_blanks (skip_blanks t) = skip_blanks t" for t
    by (induction t) (auto simp: skip_blanks_def)
  show "parse_single_grab e (concat (map (\<lambda>m. CHR ''<'' # m @ ''>'') ms) @ k) 0 True =
       (case grab_mods (concat (map (\<lambda>m. CHR ''<'' # m @ ''>'') ms) @ k) 0 of
          None \<Rightarrow> None | Some (mods, t) \<Rightarrow> parse_single_grab e t mods False)"
    by (simp add: parse_single_grab_def Let_def s split: option.split)
qed

lemma grab_keys_later:
  "list_all (key_name e) ks \<Longrightarrow> grab_keys e False ks m syms = Some (m, syms @ map (ce_keysym e) ks)"
  by (induction ks arbitrary: syms) (simp_all add: key_name_single)

lemma entry_parsed:
  assumes "entry_ok e g"
  shows "show_entry g \<noteq> []" "CHR '','' \<notin> set (show_entry g)"
    "\<exists>k ks. split_spec CHR ''+'' False (show_entry g) = k # ks \<and> grab_keys e True (k # ks) 0 [] = Some (entry_grab e g)"
proof -
  obtain ms k ks where g: "g = (ms, k # ks)" using assms by (cases g; cases "snd g") (auto simp: entry_ok_def)
  have k: "list_all (key_name e) (k # ks)" using assms by (simp add: entry_ok_def g)
  let ?p = "concat (map (\<lambda>m. CHR ''<'' # m @ ''>'') ms)"
  have ms: "list_all (\<lambda>m. modifier m \<noteq> None \<and> CHR ''>'' \<notin> set m) ms"
    using assms by (auto simp: entry_ok_def g list_all_iff)
  have p: "CHR '','' \<notin> set ?p" "CHR ''+'' \<notin> set ?p"
    using assms by (auto simp: entry_ok_def g list_all_iff)
  have sh: "show_entry g = join CHR ''+'' ((?p @ k) # ks)"
    by (simp add: show_entry_def g join_Cons)
  show "show_entry g \<noteq> []" using k by (auto simp: show_entry_def g join_Cons key_name_def)
  have "CHR '','' \<notin> set (join CHR ''+'' ws)" if "list_all (key_name e) ws" for ws
    using that by (induction ws) (auto simp: join_Cons key_name_def join_def [of _ "[]"])
  then show "CHR '','' \<notin> set (show_entry g)" using k p by (simp add: show_entry_def g)
  have "list_all (\<lambda>w. w \<noteq> [] \<and> CHR ''+'' \<notin> set w) ((?p @ k) # ks)"
    using k p by (auto simp: key_name_def list_all_iff)
  then have sp: "split_spec CHR ''+'' False (show_entry g) = (?p @ k) # ks" unfolding sh by (rule split_spec_join)
  have "k \<noteq> []" "hd k \<noteq> CHR '' ''" "hd k \<noteq> CHR ''<''" using k by (cases k; auto simp: key_name_def)+
  then have "grab_mods (?p @ k) 0 = Some (fst (entry_grab e g), k)"
    using grab_mods_shown [OF ms] by (simp add: entry_grab_def g)
  then have "grab_keys e True ((?p @ k) # ks) 0 [] = Some (entry_grab e g)"
    using key_name_single [of e k] k grab_keys_later [of e ks] by (simp add: entry_grab_def g)
  with sp show "\<exists>k ks. split_spec CHR ''+'' False (show_entry g) = k # ks \<and> grab_keys e True (k # ks) 0 [] = Some (entry_grab e g)"
    by blast
qed

lemma grab_entries_shown:
  assumes "ce_mem e" "list_all (entry_ok e) gs"
  shows "grab_entries e (map show_entry gs) 0 grab = Inr (grab @ map (entry_grab e) gs)"
  using assms(2)
proof (induction gs arbitrary: grab)
  case (Cons g gs)
  then obtain k ks where k: "split_spec CHR ''+'' False (show_entry g) = k # ks" "grab_keys e True (k # ks) 0 [] = Some (entry_grab e g)"
    using entry_parsed(3) [of e g] by auto
  have "snd (entry_grab e g) \<noteq> []" using Cons.prems by (simp add: entry_grab_def entry_ok_def)
  then show ?case
    using Cons k assms(1) by (cases "entry_grab e g") (simp add: split_words_spec)
qed simp

text \<open>
  Property C30. A keyboard grab that is written with names of modifiers in angle brackets and names
  of keys joined by plus signs, several of them by commas, is read back as exactly these modifiers
  and keysyms, in any letter case of the modifiers.
\<close>

theorem grab_round_trip:
  assumes "ce_mem e" "list_all (entry_ok e) gs"
  shows "conf_parse_grab e (show_grab gs) = Inr (map (entry_grab e) gs)"
proof -
  have "list_all (\<lambda>w. w \<noteq> [] \<and> CHR '','' \<notin> set w) (map show_entry gs)"
    using assms(2) entry_parsed by (auto simp: list_all_iff)
  then have "split_spec CHR '','' False (show_grab gs) = map show_entry gs"
    unfolding show_grab_def by (rule split_spec_join)
  then show ?thesis
    using assms grab_entries_shown [of e gs "[]"] by (simp add: conf_parse_grab_def split_words_spec)
qed

theorem grab_round_trip_witness:
  "conf_parse_grab (demo_env [] (\<lambda>p. no_conf_file)) ''<Ctrl><SHIFT>a+b,<Logo>c'' = Inr [(5, [97, 98]), (16, [99])]"
proof -
  let ?e = "demo_env [] (\<lambda>p. no_conf_file)"
  have m: "modifier ''Ctrl'' = Some 4" "modifier ''SHIFT'' = Some 1" "modifier ''Logo'' = Some 16" by code_simp+
  have "list_all (entry_ok ?e) [([''Ctrl'', ''SHIFT''], [''a'', ''b'']), ([''Logo''], [''c''])]"
    by (simp add: entry_ok_def m key_name_def demo_env_def code_def)
  from grab_round_trip [OF _ this] show ?thesis
    by (simp add: demo_env_def code_def show_grab_def show_entry_def join_def entry_grab_def m)
qed

text \<open>
  An entry without a key is dropped from a grab, but not its modifiers: they stay in
  the place of the next entry, so \<open><Ctrl>,a\<close> is read as the single grab control and a.
\<close>

theorem dropped_entry_leaves_modifiers:
  "conf_parse_grab (demo_env [] (\<lambda>p. no_conf_file)) ''<Ctrl>,a'' = Inr [(CONTROL_MASK, [97])] \<and>
   conf_parse_grab (demo_env [] (\<lambda>p. no_conf_file)) ''a'' = Inr [(0, [97])]"
proof -
  have m: "modifier ''Ctrl'' = Some 4" by code_simp
  have "grab_mods ''<Ctrl>'' 0 = Some (4, [])" "grab_mods ''a'' 4 = Some (4, ''a'')" "grab_mods ''a'' 0 = Some (0, ''a'')"
    by (simp_all add: grab_mods.simps m skip_blanks_def)
  then show ?thesis
    by (simp add: conf_parse_grab_def split_words_spec demo_env_def split_spec_def parse_single_grab_def skip_blanks_def code_def)
qed

definition login_option :: conf_option where
  "login_option = (plain_option (Some CHR ''l'') ''login'' T_login (V_login False (Some [''/bin/login'', ''-p''])))
     \<lparr>opt_check := Check_login, opt_file := File_login\<rparr>"

text \<open>
  The login command without its option and with it switched off differ: the table has
  the two words of the default, but \<open>--no-login\<close> makes the check copy the default array with its
  terminating null pointer, which becomes a third, empty argument.
\<close>

theorem no_login_adds_an_argument:
  "kmscon_options b ! 15 = login_option \<and>
   conf_ctx_parse_argv (demo_env [(200000, None)] (\<lambda>p. no_conf_file))
     \<lparr>cx_opts = [login_option], cx_seat_config = False, cx_exit = False, cx_printed = []\<rparr> [] =
   (ok, \<lparr>cx_opts = [login_option\<lparr>opt_locked := True, opt_val := V_login False (Some [''/bin/login'', ''-p'', ''''])\<rparr>],
         cx_seat_config = False, cx_exit = False, cx_printed = []\<rparr>)"
  by (simp add: kmscon_options_def login_option_def conf_ctx_parse_argv_def demo_env_def argv_round_def take_option_def
      plain_option_def run_check_def aftercheck_login_def shl_dup_array_size_def def_argv_def set_opt_def Let_def code_def)

text \<open>
  The help text says that \<open>--libseat\<close> is on unless it is switched off; the table of options says
  the opposite.
\<close>

lemma libseat_is_off_by_default:
  "find (has_name ''libseat'') (kmscon_options b) = Some (plain_option None ''libseat'' T_bool (V_bool False))"
  by (simp add: kmscon_options_def plain_option_def has_name_def Let_def)

end
