(* ===== verification/Pointer.thy ===== *)
theory Pointer
  imports Input_Types
begin

text \<open>
  Pointing devices, \<open>src/input/input_pointer.c\<close>: what a mouse, a touchpad, a touchscreen or a virtual
  mouse makes of the kernel's events. Positions are integers: the code computes them in
  \<open>int32_t\<close>, whose overflow is undefined. The sums of the code stay far from its limits; the
  product of a touchscreen need not, and is \<open>None\<close> beyond them, as is a division by zero, which
  stops the program.
  The events handed to the hook are returned in order. The codes are those of the kernel's
  \<open>input-event-codes.h\<close>.
\<close>

section \<open>State\<close>

datatype pointer_kind = POINTER_NONE | POINTER_MOUSE | POINTER_TOUCHPAD | POINTER_TOUCHSCREEN | POINTER_VMOUSE

abbreviation BUTTON_NONE :: u8 where
  "BUTTON_NONE \<equiv> 255"

record input_pointer =
  ip_kind :: pointer_kind
  ip_last_click :: "int \<times> int"
  ip_x :: int
  ip_y :: int
  ip_touchpaddown :: bool
  ip_sync_off_x :: bool
  ip_sync_off_y :: bool
  ip_off_x :: int
  ip_off_y :: int
  ip_min_x :: int
  ip_max_x :: int
  ip_min_y :: int
  ip_max_y :: int
  ip_pressed :: u8

abbreviation REL_X :: nat where "REL_X \<equiv> 0"
abbreviation REL_Y :: nat where "REL_Y \<equiv> 1"
abbreviation REL_WHEEL :: nat where "REL_WHEEL \<equiv> 8"
abbreviation ABS_X :: nat where "ABS_X \<equiv> 0"
abbreviation ABS_Y :: nat where "ABS_Y \<equiv> 1"
abbreviation BTN_LEFT :: nat where "BTN_LEFT \<equiv> 0x110"
abbreviation BTN_RIGHT :: nat where "BTN_RIGHT \<equiv> 0x111"
abbreviation BTN_MIDDLE :: nat where "BTN_MIDDLE \<equiv> 0x112"
abbreviation BTN_TOUCH :: nat where "BTN_TOUCH \<equiv> 0x14A"
abbreviation BTN_TOOL_DOUBLETAP :: nat where "BTN_TOOL_DOUBLETAP \<equiv> 0x14D"
abbreviation BTN_TOOL_TRIPLETAP :: nat where "BTN_TOOL_TRIPLETAP \<equiv> 0x14E"

section \<open>Events for the hook\<close>

definition no_event :: input_pointer_event where
  "no_event = \<lparr>pe_event = POINTER_MOVED, pe_x = 0, pe_y = 0, pe_wheel = 0, pe_button = 0, pe_pressed = False,
     pe_double_click = False\<rparr>"

definition pointer_dev_send_move :: "input_pointer \<Rightarrow> input_pointer_event" where
  "pointer_dev_send_move p =
     (let pev = no_event\<lparr>pe_event := POINTER_MOVED, pe_x := ip_x p, pe_y := ip_y p\<rparr>
      in if ip_pressed p \<noteq> BUTTON_NONE then pev\<lparr>pe_button := ip_pressed p, pe_pressed := True\<rparr>
         else pev\<lparr>pe_button := 0, pe_pressed := False\<rparr>)"

definition pointer_dev_send_wheel :: "int \<Rightarrow> input_pointer_event" where
  "pointer_dev_send_wheel v = no_event\<lparr>pe_event := POINTER_WHEEL, pe_wheel := v\<rparr>"

definition pointer_dev_send_button :: "u8 \<Rightarrow> bool \<Rightarrow> bool \<Rightarrow> input_pointer_event" where
  "pointer_dev_send_button button pressed dbl =
     no_event\<lparr>pe_event := POINTER_BUTTON, pe_button := button, pe_pressed := pressed, pe_double_click := dbl\<rparr>"

text \<open>The synchronisation event; the caller also starts the timer that hides the pointer.\<close>

definition pointer_dev_sync :: "input_pointer \<Rightarrow> input_pointer_event" where
  "pointer_dev_sync p = no_event\<lparr>pe_event := POINTER_SYNC\<rparr>"

section \<open>Movement\<close>

text \<open>\<open>mx\<close> and \<open>my\<close> are \<open>pointer_max_x\<close> and \<open>pointer_max_y\<close> of the input.\<close>

definition clamp :: "int \<Rightarrow> int \<Rightarrow> int" where
  "clamp m v = (let v = (if v < 0 then 0 else v) in if v > m then m else v)"

definition pointer_dev_rel :: "int \<Rightarrow> int \<Rightarrow> nat \<Rightarrow> int \<Rightarrow> input_pointer \<Rightarrow> input_pointer \<times> input_pointer_event list" where
  "pointer_dev_rel mx my c v p =
     (if c = REL_X then (let p = p\<lparr>ip_x := clamp mx (ip_x p + v)\<rparr> in (p, [pointer_dev_send_move p]))
      else if c = REL_Y then (let p = p\<lparr>ip_y := clamp my (ip_y p + v)\<rparr> in (p, [pointer_dev_send_move p]))
      else if c = REL_WHEEL then (p, [pointer_dev_send_wheel v])
      else (p, []))"

text \<open>
  One axis of a touchpad: the offset is taken anew after a touch, and moves along when the finger
  goes beyond the border.
\<close>

definition touchpad_axis :: "bool \<Rightarrow> bool \<Rightarrow> int \<Rightarrow> int \<Rightarrow> int \<Rightarrow> int \<Rightarrow> int \<times> int" where
  "touchpad_axis down resync m v x off =
     (let off = (if resync then x - v else off)
      in if \<not> down then (x, off)
         else
           let x = off + v;
               (x, off) = (if x < 0 then (0, - v) else (x, off))
           in if x > m then (m, m - v) else (x, off))"

text \<open>
  The product of a touchscreen can leave the range of \<open>int\<close>, and its divisor can be zero; neither
  has a meaning in C and both are \<open>None\<close>.
\<close>

definition fits_int :: "int \<Rightarrow> bool" where
  "fits_int v \<longleftrightarrow> - (2 ^ 31) \<le> v \<and> v < 2 ^ 31"

definition scaled :: "int \<Rightarrow> int \<Rightarrow> int \<Rightarrow> int \<Rightarrow> int option" where
  "scaled lo hi m v =
     (if hi - lo = 0 \<or> \<not> fits_int (v - lo) \<or> \<not> fits_int (hi - lo) \<or> \<not> fits_int ((v - lo) * m) \<or>
         \<not> fits_int (((v - lo) * m) sdiv (hi - lo)) then None
      else Some (((v - lo) * m) sdiv (hi - lo)))"

definition pointer_dev_abs_x :: "int \<Rightarrow> int \<Rightarrow> input_pointer \<Rightarrow> (input_pointer \<times> input_pointer_event list) option" where
  "pointer_dev_abs_x mx v p =
     (case ip_kind p of
        POINTER_TOUCHPAD \<Rightarrow>
          (let (x, off) = touchpad_axis (ip_touchpaddown p) (ip_sync_off_x p) mx v (ip_x p) (ip_off_x p);
               p = p\<lparr>ip_x := x, ip_off_x := off, ip_sync_off_x := False\<rparr>
           in Some (p, [pointer_dev_send_move p]))
      | POINTER_TOUCHSCREEN \<Rightarrow>
          map_option (\<lambda>x. let p = p\<lparr>ip_x := x\<rparr> in (p, [pointer_dev_send_move p])) (scaled (ip_min_x p) (ip_max_x p) mx v)
      | POINTER_VMOUSE \<Rightarrow>
          map_option (\<lambda>x. let p = p\<lparr>ip_x := x\<rparr> in (p, [pointer_dev_send_move p])) (scaled (ip_min_x p) (ip_max_x p) mx v)
      | _ \<Rightarrow> Some (p, []))"

definition pointer_dev_abs_y :: "int \<Rightarrow> int \<Rightarrow> input_pointer \<Rightarrow> (input_pointer \<times> input_pointer_event list) option" where
  "pointer_dev_abs_y my v p =
     (case ip_kind p of
        POINTER_TOUCHPAD \<Rightarrow>
          (let (y, off) = touchpad_axis (ip_touchpaddown p) (ip_sync_off_y p) my v (ip_y p) (ip_off_y p);
               p = p\<lparr>ip_y := y, ip_off_y := off, ip_sync_off_y := False\<rparr>
           in Some (p, [pointer_dev_send_move p]))
      | POINTER_TOUCHSCREEN \<Rightarrow>
          map_option (\<lambda>y. let p = p\<lparr>ip_y := y\<rparr> in (p, [pointer_dev_send_move p])) (scaled (ip_min_y p) (ip_max_y p) my v)
      | POINTER_VMOUSE \<Rightarrow>
          map_option (\<lambda>y. let p = p\<lparr>ip_y := y\<rparr> in (p, [pointer_dev_send_move p])) (scaled (ip_min_y p) (ip_max_y p) my v)
      | _ \<Rightarrow> Some (p, []))"

definition pointer_dev_abs :: "int \<Rightarrow> int \<Rightarrow> nat \<Rightarrow> int \<Rightarrow> input_pointer \<Rightarrow> (input_pointer \<times> input_pointer_event list) option" where
  "pointer_dev_abs mx my c v p =
     (if c = ABS_X then pointer_dev_abs_x mx v p
      else if c = ABS_Y then pointer_dev_abs_y my v p
      else Some (p, []))"

section \<open>Buttons\<close>

text \<open>Milliseconds between two clicks, as the unsigned number of the code.\<close>

definition elapsed :: "int \<times> int \<Rightarrow> int \<times> int \<Rightarrow> u64" where
  "elapsed now before = word_of_int ((fst now - fst before) * 1000 + (snd now - snd before) sdiv 1000000)"

definition pointer_dev_button :: "int \<times> int \<Rightarrow> nat \<Rightarrow> int \<Rightarrow> input_pointer \<Rightarrow> input_pointer \<times> input_pointer_event list" where
  "pointer_dev_button now c v p =
     (let pressed = (v = 1)
      in if v > 1 then (p, [])
         else if c = BTN_LEFT then
           (let dbl = (pressed \<and> elapsed now (ip_last_click p) < 500);
                p = (if pressed then p\<lparr>ip_last_click := now, ip_pressed := 0\<rparr> else p\<lparr>ip_pressed := BUTTON_NONE\<rparr>)
            in (p, [pointer_dev_send_button 0 pressed dbl]))
         else if c = BTN_RIGHT then
           (p\<lparr>ip_pressed := (if pressed then 2 else BUTTON_NONE)\<rparr>, [pointer_dev_send_button 2 pressed False])
         else if c = BTN_TOOL_DOUBLETAP \<or> c = BTN_TOOL_TRIPLETAP \<or> c = BTN_MIDDLE then
           (p\<lparr>ip_pressed := (if pressed then 1 else BUTTON_NONE)\<rparr>, [pointer_dev_send_button 1 pressed False])
         else if c = BTN_TOUCH then
           (let p = p\<lparr>ip_touchpaddown := pressed\<rparr>
            in (if pressed then p\<lparr>ip_sync_off_x := True, ip_sync_off_y := True\<rparr> else p, []))
         else (p, []))"

section \<open>The position stays on the screen\<close>

definition on_screen :: "int \<Rightarrow> int \<Rightarrow> input_pointer \<Rightarrow> bool" where
  "on_screen mx my p \<longleftrightarrow> 0 \<le> ip_x p \<and> ip_x p \<le> mx \<and> 0 \<le> ip_y p \<and> ip_y p \<le> my"

definition event_on_screen :: "int \<Rightarrow> int \<Rightarrow> input_pointer_event \<Rightarrow> bool" where
  "event_on_screen mx my ev \<longleftrightarrow> 0 \<le> pe_x ev \<and> pe_x ev \<le> mx \<and> 0 \<le> pe_y ev \<and> pe_y ev \<le> my"

lemma clamp_range: "0 \<le> m \<Longrightarrow> 0 \<le> clamp m v \<and> clamp m v \<le> m"
  by (simp add: clamp_def)

lemma touchpad_axis_range:
  "touchpad_axis down resync m v x off = (x', off') \<Longrightarrow> 0 \<le> x \<Longrightarrow> x \<le> m \<Longrightarrow> 0 \<le> x' \<and> x' \<le> m"
  by (auto simp: touchpad_axis_def Let_def split: if_splits)

text \<open>The products of a device: the width of its axis times the largest position must fit.\<close>

definition axis_ok :: "int \<Rightarrow> int \<Rightarrow> int \<Rightarrow> bool" where
  "axis_ok lo hi m \<longleftrightarrow> lo < hi \<and> 0 \<le> m \<and> m < 2 ^ 31 \<and> hi - lo < 2 ^ 31 \<and> (hi - lo) * m < 2 ^ 31"

lemma scaled_range:
  assumes v: "lo \<le> v" "v \<le> hi" and a: "axis_ok lo hi m"
  shows "\<exists>x. scaled lo hi m v = Some x \<and> 0 \<le> x \<and> x \<le> m"
proof -
  have m: "lo < hi" "0 \<le> m" "(hi - lo) * m < 2 ^ 31" "hi - lo < 2 ^ 31" "m < 2 ^ 31"
    using a by (simp_all add: axis_ok_def)
  have le: "(v - lo) * m \<le> (hi - lo) * m" using v m by (intro mult_right_mono) auto
  have up: "(v - lo) * m div (hi - lo) \<le> m"
  proof -
    have "(v - lo) * m div (hi - lo) \<le> (hi - lo) * m div (hi - lo)"
      using le m by (intro zdiv_mono1) auto
    then show ?thesis using m by simp
  qed
  have low: "0 \<le> (v - lo) * m div (hi - lo)" using v m by (simp add: pos_imp_zdiv_nonneg_iff)
  have div: "(v - lo) * m sdiv (hi - lo) = (v - lo) * m div (hi - lo)"
    using v m by (intro sdiv_nonneg) auto
  have pos: "0 \<le> (v - lo) * m" using v m by simp
  have "fits_int ((v - lo) * m)"
    unfolding fits_int_def using order_trans [OF _ pos] le m(3) by auto
  moreover have "fits_int (v - lo)" "fits_int (hi - lo)" using v m by (simp_all add: fits_int_def)
  moreover have "fits_int ((v - lo) * m div (hi - lo))" using up low m by (simp add: fits_int_def)
  ultimately show ?thesis using m up low by (simp add: scaled_def div)
qed

lemma on_screen_moved: "on_screen mx my p \<Longrightarrow> event_on_screen mx my (pointer_dev_send_move p)"
  by (simp add: on_screen_def event_on_screen_def pointer_dev_send_move_def no_event_def Let_def)

end
