(* ===== verification/Keyboard.thy ===== *)
theory Keyboard
  imports Input_Types
begin

text \<open>
  Keyboards, \<open>src/input/input_uxkb.c\<close>, with the two helpers of \<open>src/shl/misc.h\<close> that it calls: a
  key of the kernel goes through the keyboard state and the compose state of \<open>libxkbcommon\<close>, becomes
  a key event for the hook, and starts or stops the repetition of a key.

  The library is a parameter: \<open>'x\<close> is its keyboard state, \<open>'c\<close> its compose state and the record
  \<open>xkb\<close> holds its functions. The repeat timer is the flag \<open>kb_armed\<close>. The loading of keymaps and the
  writing of the LEDs is left to the environment.
\<close>

section \<open>The library\<close>

datatype compose_status = COMPOSE_NOTHING | COMPOSE_COMPOSING | COMPOSE_COMPOSED | COMPOSE_CANCELLED

record ('x, 'c) xkb =
  xk_get_syms :: "'x \<Rightarrow> nat \<Rightarrow> u32 list"
  xk_one_sym :: "'x \<Rightarrow> nat \<Rightarrow> u32"
  xk_update_key :: "'x \<Rightarrow> nat \<Rightarrow> bool \<Rightarrow> 'x \<times> bool"
  xk_mod_active :: "'x \<Rightarrow> nat \<Rightarrow> bool"
  xk_mods :: "'x \<Rightarrow> u32"
  xk_num_layouts :: "nat \<Rightarrow> nat"
  xk_level :: "'x \<Rightarrow> nat \<Rightarrow> nat \<Rightarrow> nat"
  xk_level_syms :: "nat \<Rightarrow> nat \<Rightarrow> nat \<Rightarrow> u32 list"
  xk_repeats :: "nat \<Rightarrow> bool"
  xk_utf32 :: "u32 \<Rightarrow> u32"
  xk_feed :: "'c \<Rightarrow> u32 \<Rightarrow> 'c"
  xk_status :: "'c \<Rightarrow> compose_status"
  xk_composed :: "'c \<Rightarrow> u32"
  xk_reset :: "'c \<Rightarrow> 'c"
  xk_new_state :: "'x option"
  xk_new_compose :: "'c option"
  xk_keep_locked :: "'x \<Rightarrow> 'x \<Rightarrow> 'x"

abbreviation NoSymbol :: u32 where
  "NoSymbol \<equiv> 0"

abbreviation INPUT_INVALID :: u32 where
  "INPUT_INVALID \<equiv> 0xFFFFFFFF"

section \<open>Modifiers and ASCII\<close>

definition mod_bit :: "bool \<Rightarrow> u32 \<Rightarrow> u32 \<Rightarrow> u32" where
  "mod_bit active m mods = (if active then or mods m else mods)"

text \<open>The five names in the order shift, caps, ctrl, alt, logo.\<close>

definition shl_get_xkb_mods :: "('x, 'c) xkb \<Rightarrow> 'x \<Rightarrow> u32" where
  "shl_get_xkb_mods xk x =
     (let mods = mod_bit (xk_mod_active xk x 0) 1 0;
          mods = mod_bit (xk_mod_active xk x 1) 2 mods;
          mods = mod_bit (xk_mod_active xk x 2) 4 mods;
          mods = mod_bit (xk_mod_active xk x 3) 8 mods
      in mod_bit (xk_mod_active xk x 4) 16 mods)"

fun ascii_layouts :: "('x, 'c) xkb \<Rightarrow> 'x \<Rightarrow> nat \<Rightarrow> nat list \<Rightarrow> u32" where
  "ascii_layouts xk x key [] = NoSymbol"
| "ascii_layouts xk x key (l # ls) =
     (case xk_level_syms xk key l (xk_level xk x key l) of
        [s] \<Rightarrow> if s < 128 then s else ascii_layouts xk x key ls
      | _ \<Rightarrow> ascii_layouts xk x key ls)"

definition shl_get_ascii :: "('x, 'c) xkb \<Rightarrow> 'x \<Rightarrow> nat \<Rightarrow> u32 list \<Rightarrow> u32" where
  "shl_get_ascii xk x key syms =
     (case syms of
        [s] \<Rightarrow> if s < 128 then s else ascii_layouts xk x key [0..<xk_num_layouts xk key]
      | _ \<Rightarrow> ascii_layouts xk x key [0..<xk_num_layouts xk key])"

section \<open>The device\<close>

record ('x, 'c) keyboard =
  kb_state :: 'x
  kb_compose :: "'c option"
  kb_num_syms :: nat
  kb_event :: dev_key_event
  kb_repeat :: dev_key_event
  kb_repeating :: bool
  kb_armed :: bool

definition blank_event :: dev_key_event where
  "blank_event = \<lparr>ev_mods = 0, ev_syms = [], ev_handled = False, ev_keycode = 0, ev_ascii = 0, ev_codepoints = []\<rparr>"

text \<open>\<open>compose\<close> tells whether the input has a compose table; without it there is no compose state.\<close>

definition uxkb_dev_init :: "('x, 'c) xkb \<Rightarrow> status \<Rightarrow> bool \<Rightarrow> errno + ('x, 'c) keyboard" where
  "uxkb_dev_init xk timer compose =
     (case timer of
        Some err \<Rightarrow> Inl err
      | None \<Rightarrow>
          (case xk_new_state xk of
             None \<Rightarrow> Inl ENOMEM
           | Some x \<Rightarrow>
               Inr \<lparr>kb_state = x, kb_compose = (if compose then xk_new_compose xk else None), kb_num_syms = 1,
                    kb_event = blank_event, kb_repeat = blank_event, kb_repeating = False, kb_armed = False\<rparr>))"

text \<open>The state of a key is a number of the kernel; any but the three named ones is \<open>KEY_OTHER\<close>.\<close>

datatype key_action = KEY_RELEASED | KEY_PRESSED | KEY_REPEATED | KEY_OTHER

text \<open>The buffers of both events grow together.\<close>

definition uxkb_dev_resize_event :: "bool \<Rightarrow> nat \<Rightarrow> ('x, 'c) keyboard \<Rightarrow> bool \<times> ('x, 'c) keyboard" where
  "uxkb_dev_resize_event mem s kb =
     (if s > kb_num_syms kb then (if \<not> mem then (False, kb) else (True, kb\<lparr>kb_num_syms := s\<rparr>))
      else (True, kb))"

definition filled_event :: "('x, 'c) xkb \<Rightarrow> 'x \<Rightarrow> nat \<Rightarrow> u32 list \<Rightarrow> dev_key_event \<Rightarrow> dev_key_event" where
  "filled_event xk x key syms ev =
     ev\<lparr>ev_keycode := key, ev_ascii := shl_get_ascii xk x key syms, ev_mods := shl_get_xkb_mods xk x, ev_syms := syms,
        ev_codepoints := map (\<lambda>s. if xk_utf32 xk s = 0 then INPUT_INVALID else xk_utf32 xk s) syms\<rparr>"

text \<open>Starting or stopping the repetition, with the event that \<open>kb_event\<close> holds.\<close>

definition uxkb_dev_repeat :: "('x, 'c) xkb \<Rightarrow> bool \<Rightarrow> key_action \<Rightarrow> ('x, 'c) keyboard \<Rightarrow> ('x, 'c) keyboard" where
  "uxkb_dev_repeat xk mem action kb =
     (let key = ev_keycode (kb_event kb)
      in if kb_repeating kb \<and> ev_keycode (kb_repeat kb) = key then
           (if action = KEY_RELEASED then kb\<lparr>kb_repeating := False, kb_armed := False\<rparr> else kb)
         else if action = KEY_PRESSED \<and> xk_repeats xk key then
           kb\<lparr>kb_repeat := (kb_repeat kb)\<lparr>ev_keycode := key, ev_ascii := ev_ascii (kb_event kb),
                ev_mods := ev_mods (kb_event kb), ev_syms := ev_syms (kb_event kb),
                ev_codepoints := ev_codepoints (kb_event kb)\<rparr>,
              kb_repeating := True, kb_armed := True\<rparr>
         else if kb_repeating kb \<and> \<not> xk_repeats xk key then
           (let rkey = ev_keycode (kb_repeat kb); syms = xk_get_syms xk (kb_state kb) rkey
            in if syms = [] then kb
               else let (good, kb) = uxkb_dev_resize_event mem (length syms) kb
                    in if \<not> good then kb
                       else kb\<lparr>kb_repeat := filled_event xk (kb_state kb) rkey syms (kb_repeat kb)\<rparr>)
         else kb)"

text \<open>
  The compose state after a key press, what becomes of the symbol, and the status; nothing happens
  without a compose state or for a release.
\<close>

definition compose_key :: "('x, 'c) xkb \<Rightarrow> key_action \<Rightarrow> u32 \<Rightarrow> 'c option \<Rightarrow> 'c option \<times> u32 \<times> compose_status" where
  "compose_key xk action one_sym compose =
     (case compose of
        Some c \<Rightarrow>
          if action = KEY_PRESSED then
            let c = xk_feed xk c one_sym;
                st = xk_status xk c;
                (one_sym, st) =
                  (if st = COMPOSE_COMPOSED
                   then (xk_composed xk c, if xk_composed xk c = NoSymbol then COMPOSE_CANCELLED else st)
                   else (one_sym, st));
                c = (if st = COMPOSE_COMPOSED \<or> st = COMPOSE_CANCELLED then xk_reset xk c else c)
            in (Some c, one_sym, st)
          else (Some c, one_sym, COMPOSE_NOTHING)
      | None \<Rightarrow> (None, one_sym, COMPOSE_NOTHING))"

text \<open>
  One key: the keyboard afterwards, whether the LEDs are written, and the event for the hook, if
  there is one. The hook sees the event before anything else happens.
\<close>

definition uxkb_dev_process :: "('x, 'c) xkb \<Rightarrow> bool \<Rightarrow> key_action \<Rightarrow> nat \<Rightarrow> ('x, 'c) keyboard \<Rightarrow>
    ('x, 'c) keyboard \<times> bool \<times> dev_key_event option" where
  "uxkb_dev_process xk mem action c kb =
     (if action = KEY_REPEATED then (kb, False, None)
      else
        let key = c + 8;
            syms = xk_get_syms xk (kb_state kb) key;
            one_sym = (if length syms = 1 then xk_one_sym xk (kb_state kb) key else NoSymbol);
            (comp, one_sym, st) = compose_key xk action one_sym (kb_compose kb);
            (x, leds) = (if action = KEY_PRESSED \<or> action = KEY_RELEASED
                         then xk_update_key xk (kb_state kb) key (action = KEY_PRESSED) else (kb_state kb, False));
            kb = kb\<lparr>kb_compose := comp, kb_state := x\<rparr>;
            syms = (if length syms = 1 then [one_sym] else syms)
        in if syms = [] then (kb, leds, None)
           else if st = COMPOSE_COMPOSING \<or> st = COMPOSE_CANCELLED then (kb, leds, None)
           else
             let (good, kb) = uxkb_dev_resize_event mem (length syms) kb
             in if \<not> good then (kb, leds, None)
                else
                  let kb = uxkb_dev_repeat xk mem action (kb\<lparr>kb_event := filled_event xk x key syms (kb_event kb)\<rparr>)
                  in if action = KEY_RELEASED then (kb, leds, None)
                     else let kb = kb\<lparr>kb_event := (kb_event kb)\<lparr>ev_handled := False\<rparr>\<rparr> in (kb, leds, Some (kb_event kb)))"

text \<open>The repeat timer fires.\<close>

definition timer_event :: "('x, 'c) keyboard \<Rightarrow> ('x, 'c) keyboard \<times> dev_key_event" where
  "timer_event kb = (let kb = kb\<lparr>kb_repeat := (kb_repeat kb)\<lparr>ev_handled := False\<rparr>\<rparr> in (kb, kb_repeat kb))"

text \<open>
  Coming back to the virtual terminal: a fresh state that keeps the locked modifiers; \<open>None\<close> is a
  keyboard whose state could not be created.
\<close>

definition uxkb_dev_wake_up :: "('x, 'c) xkb \<Rightarrow> ('x, 'c) keyboard \<Rightarrow> ('x, 'c) keyboard option" where
  "uxkb_dev_wake_up xk kb =
     (case xk_new_state xk of
        None \<Rightarrow> None
      | Some x \<Rightarrow> Some (kb\<lparr>kb_state := xk_keep_locked xk (kb_state kb) x,
                         kb_compose := map_option (xk_reset xk) (kb_compose kb)\<rparr>))"

definition uxkb_dev_get_mods :: "('x, 'c) xkb \<Rightarrow> ('x, 'c) keyboard \<Rightarrow> u32" where
  "uxkb_dev_get_mods xk kb = xk_mods xk (kb_state kb)"

section \<open>No repetition of a key that is up\<close>

text \<open>A run of a keyboard: keys, expirations of the timer, and the sleep of the device.\<close>

datatype kb_step = Kb_key key_action nat | Kb_timer | Kb_sleep | Kb_wake

definition kb_do :: "('x, 'c) xkb \<Rightarrow> bool \<Rightarrow> kb_step \<Rightarrow> ('x, 'c) keyboard \<Rightarrow> ('x, 'c) keyboard \<times> dev_key_event list" where
  "kb_do xk mem s kb =
     (case s of
        Kb_key action c \<Rightarrow> (case uxkb_dev_process xk mem action c kb of (kb, leds, ev) \<Rightarrow> (kb, case ev of None \<Rightarrow> [] | Some e \<Rightarrow> [e]))
      | Kb_timer \<Rightarrow> if kb_armed kb then (case timer_event kb of (kb, ev) \<Rightarrow> (kb, [ev])) else (kb, [])
      | Kb_sleep \<Rightarrow> (kb\<lparr>kb_repeating := False, kb_armed := False\<rparr>, [])
      | Kb_wake \<Rightarrow> (case uxkb_dev_wake_up xk kb of None \<Rightarrow> (kb, []) | Some kb \<Rightarrow> (kb, [])))"

text \<open>The keys that are down, by the kernel's events alone; a device that sleeps forgets them.\<close>

definition held_after :: "kb_step \<Rightarrow> nat set \<Rightarrow> nat set" where
  "held_after s held =
     (case s of
        Kb_key KEY_PRESSED c \<Rightarrow> insert c held
      | Kb_key KEY_RELEASED c \<Rightarrow> held - {c}
      | Kb_sleep \<Rightarrow> {}
      | _ \<Rightarrow> held)"

fun kb_run :: "('x, 'c) xkb \<Rightarrow> bool \<Rightarrow> kb_step list \<Rightarrow> ('x, 'c) keyboard \<times> nat set \<Rightarrow> ('x, 'c) keyboard \<times> nat set" where
  "kb_run xk mem [] st = st"
| "kb_run xk mem (s # ss) (kb, held) = kb_run xk mem ss (fst (kb_do xk mem s kb), held_after s held)"

definition kb_inv :: "('x, 'c) xkb \<Rightarrow> ('x, 'c) keyboard \<Rightarrow> nat set \<Rightarrow> bool" where
  "kb_inv xk kb held \<longleftrightarrow> kb_armed kb = kb_repeating kb \<and>
     (kb_repeating kb \<longrightarrow> (\<exists>c\<in>held. ev_keycode (kb_repeat kb) = c + 8) \<and> xk_repeats xk (ev_keycode (kb_repeat kb)))"

text \<open>
  What is needed of a run: a release of the key that is being repeated reaches the repetition, which
  it does unless the key has no keysym in the state that the keyboard has at that moment.
\<close>

definition release_heard :: "('x, 'c) xkb \<Rightarrow> kb_step \<Rightarrow> ('x, 'c) keyboard \<Rightarrow> bool" where
  "release_heard xk s kb =
     (case s of
        Kb_key KEY_RELEASED c \<Rightarrow>
          \<not> (kb_repeating kb \<and> ev_keycode (kb_repeat kb) = c + 8 \<and> xk_get_syms xk (kb_state kb) (c + 8) = [])
      | _ \<Rightarrow> True)"

fun releases_heard :: "('x, 'c) xkb \<Rightarrow> kb_step list \<Rightarrow> ('x, 'c) keyboard \<Rightarrow> bool" where
  "releases_heard xk [] kb = True"
| "releases_heard xk (s # ss) kb \<longleftrightarrow> release_heard xk s kb \<and> releases_heard xk ss (fst (kb_do xk True s kb))"

lemma repeat_release:
  assumes "kb_inv xk kb held" "ev_keycode (kb_event kb) = c + 8"
  shows "kb_inv xk (uxkb_dev_repeat xk mem KEY_RELEASED kb) (held - {c})"
proof (cases "kb_repeating kb \<and> ev_keycode (kb_repeat kb) = c + 8")
  case True
  then show ?thesis using assms by (simp add: kb_inv_def uxkb_dev_repeat_def)
next
  case False
  have "kb_inv xk kb (held - {c})" using assms(1) False by (auto simp: kb_inv_def)
  then show ?thesis
    using False assms(2)
    by (auto simp: uxkb_dev_repeat_def Let_def uxkb_dev_resize_event_def kb_inv_def filled_event_def)
qed

lemma repeat_press:
  assumes "kb_inv xk kb held" "ev_keycode (kb_event kb) = c + 8"
  shows "kb_inv xk (uxkb_dev_repeat xk mem KEY_PRESSED kb) (insert c held)"
  using assms by (auto simp: uxkb_dev_repeat_def Let_def uxkb_dev_resize_event_def kb_inv_def filled_event_def)

lemma repeat_other: "kb_inv xk kb held \<Longrightarrow> kb_inv xk (uxkb_dev_repeat xk mem KEY_OTHER kb) held"
  by (auto simp: uxkb_dev_repeat_def Let_def uxkb_dev_resize_event_def kb_inv_def filled_event_def)

lemma kb_inv_irrelevant:
  "kb_armed kb' = kb_armed kb \<Longrightarrow> kb_repeating kb' = kb_repeating kb \<Longrightarrow>
     ev_keycode (kb_repeat kb') = ev_keycode (kb_repeat kb) \<Longrightarrow> kb_inv xk kb' held = kb_inv xk kb held"
  by (simp add: kb_inv_def)

lemma kb_inv_mono: "kb_inv xk kb held \<Longrightarrow> held \<subseteq> held' \<Longrightarrow> kb_inv xk kb held'"
  by (auto simp: kb_inv_def)

text \<open>The keyboard just before the repetition is decided, if the key gets that far.\<close>

definition before_repeat :: "('x, 'c) xkb \<Rightarrow> key_action \<Rightarrow> nat \<Rightarrow> ('x, 'c) keyboard \<Rightarrow> ('x, 'c) keyboard \<Rightarrow> bool" where
  "before_repeat xk action c kb kb1 \<longleftrightarrow> kb_armed kb1 = kb_armed kb \<and> kb_repeating kb1 = kb_repeating kb \<and>
     kb_repeat kb1 = kb_repeat kb \<and> ev_keycode (kb_event kb1) = c + 8"

lemma process_cases:
  assumes "action \<noteq> KEY_REPEATED"
  shows "(\<exists>kb1. fst (uxkb_dev_process xk mem action c kb) = kb1 \<and> kb_armed kb1 = kb_armed kb \<and>
        kb_repeating kb1 = kb_repeating kb \<and> kb_repeat kb1 = kb_repeat kb \<and>
        (xk_get_syms xk (kb_state kb) (c + 8) = [] \<or> action = KEY_PRESSED \<or> \<not> mem)) \<or>
    (\<exists>kb1 kb2. before_repeat xk action c kb kb1 \<and> kb2 = uxkb_dev_repeat xk mem action kb1 \<and>
        kb_armed (fst (uxkb_dev_process xk mem action c kb)) = kb_armed kb2 \<and>
        kb_repeating (fst (uxkb_dev_process xk mem action c kb)) = kb_repeating kb2 \<and>
        kb_repeat (fst (uxkb_dev_process xk mem action c kb)) = kb_repeat kb2)"
proof -
  define syms where "syms = xk_get_syms xk (kb_state kb) (c + 8)"
  define one where "one = (if length syms = 1 then xk_one_sym xk (kb_state kb) (c + 8) else NoSymbol)"
  obtain comp one' st where k: "compose_key xk action one (kb_compose kb) = (comp, one', st)" by (metis prod_cases3)
  obtain x leds where u: "(if action = KEY_PRESSED \<or> action = KEY_RELEASED
      then xk_update_key xk (kb_state kb) (c + 8) (action = KEY_PRESSED) else (kb_state kb, False)) = (x, leds)" by fastforce
  define kb0 where "kb0 = kb\<lparr>kb_compose := comp, kb_state := x\<rparr>"
  define syms' where "syms' = (if length syms = 1 then [one'] else syms)"
  obtain good kb1 where r: "uxkb_dev_resize_event mem (length syms') kb0 = (good, kb1)" by fastforce
  have kb1: "kb_armed kb1 = kb_armed kb" "kb_repeating kb1 = kb_repeating kb" "kb_repeat kb1 = kb_repeat kb" "mem \<Longrightarrow> good"
    using r by (auto simp: uxkb_dev_resize_event_def kb0_def split: if_splits)
  define kb2 where "kb2 = kb1\<lparr>kb_event := filled_event xk x (c + 8) syms' (kb_event kb1)\<rparr>"
  define kb3 where "kb3 = uxkb_dev_repeat xk mem action kb2"
  have p: "uxkb_dev_process xk mem action c kb =
     (if syms' = [] then (kb0, leds, None)
      else if st = COMPOSE_COMPOSING \<or> st = COMPOSE_CANCELLED then (kb0, leds, None)
      else if \<not> good then (kb1, leds, None)
      else if action = KEY_RELEASED then (kb3, leds, None)
      else (kb3\<lparr>kb_event := (kb_event kb3)\<lparr>ev_handled := False\<rparr>\<rparr>, leds,
            Some ((kb_event kb3)\<lparr>ev_handled := False\<rparr>)))"
    unfolding uxkb_dev_process_def Let_def syms_def [symmetric] one_def [symmetric] k u prod.case kb0_def [symmetric]
      syms'_def [symmetric] r kb2_def [symmetric] kb3_def [symmetric]
    using assms by simp
  have n: "syms' = [] \<longleftrightarrow> syms = []" by (auto simp: syms'_def)
  have st: "st = COMPOSE_COMPOSING \<or> st = COMPOSE_CANCELLED \<Longrightarrow> action = KEY_PRESSED"
    using k by (auto simp: compose_key_def split: option.splits if_splits)
  have b: "before_repeat xk action c kb kb2"
    using kb1 by (simp add: before_repeat_def kb2_def filled_event_def)
  have kb0: "kb_armed kb0 = kb_armed kb" "kb_repeating kb0 = kb_repeating kb" "kb_repeat kb0 = kb_repeat kb"
    by (simp_all add: kb0_def)
  show ?thesis
  proof (cases "syms' = [] \<or> st = COMPOSE_COMPOSING \<or> st = COMPOSE_CANCELLED \<or> \<not> good")
    case True
    then show ?thesis using p n st kb0 kb1 by (auto simp: syms_def)
  next
    case False
    then have "kb_armed (fst (uxkb_dev_process xk mem action c kb)) = kb_armed kb3 \<and>
        kb_repeating (fst (uxkb_dev_process xk mem action c kb)) = kb_repeating kb3 \<and>
        kb_repeat (fst (uxkb_dev_process xk mem action c kb)) = kb_repeat kb3"
      using p by simp
    then show ?thesis using b kb3_def by blast
  qed
qed

lemma kb_inv_process:
  assumes "release_heard xk (Kb_key action c) kb" "mem" "kb_inv xk kb held"
  shows "kb_inv xk (fst (kb_do xk mem (Kb_key action c) kb)) (held_after (Kb_key action c) held)"
proof (cases action)
  case KEY_REPEATED
  then show ?thesis using assms by (simp add: kb_do_def uxkb_dev_process_def held_after_def)
next
  case KEY_OTHER
  let ?kb = "fst (uxkb_dev_process xk mem KEY_OTHER c kb)"
  have f: "fst (kb_do xk mem (Kb_key action c) kb) = ?kb" by (simp add: kb_do_def KEY_OTHER split_beta)
  have "kb_inv xk ?kb held"
    using process_cases [of KEY_OTHER xk mem c kb, simplified]
  proof (elim disjE exE conjE)
    assume "kb_armed ?kb = kb_armed kb" "kb_repeating ?kb = kb_repeating kb" "kb_repeat ?kb = kb_repeat kb"
    then show ?thesis using assms(3) by (auto simp: kb_inv_def)
  next
    assume "\<not> mem" then show ?thesis using assms(2) by simp
  next
    fix kb1
    assume b: "before_repeat xk KEY_OTHER c kb kb1" "kb_armed ?kb = kb_armed (uxkb_dev_repeat xk mem KEY_OTHER kb1)"
      "kb_repeating ?kb = kb_repeating (uxkb_dev_repeat xk mem KEY_OTHER kb1)"
      "kb_repeat ?kb = kb_repeat (uxkb_dev_repeat xk mem KEY_OTHER kb1)"
    have "kb_inv xk kb1 held" using b(1) assms(3) by (simp add: before_repeat_def kb_inv_def)
    then have "kb_inv xk (uxkb_dev_repeat xk mem KEY_OTHER kb1) held" by (rule repeat_other)
    then show ?thesis using b by (simp add: kb_inv_def)
  qed
  then show ?thesis using f KEY_OTHER by (simp add: held_after_def)
next
  case KEY_PRESSED
  let ?kb = "fst (uxkb_dev_process xk mem KEY_PRESSED c kb)"
  have f: "fst (kb_do xk mem (Kb_key action c) kb) = ?kb" by (simp add: kb_do_def KEY_PRESSED split_beta)
  have "kb_inv xk ?kb (insert c held)"
    using process_cases [of KEY_PRESSED xk mem c kb, simplified]
  proof (elim disjE exE conjE)
    assume "kb_armed ?kb = kb_armed kb" "kb_repeating ?kb = kb_repeating kb" "kb_repeat ?kb = kb_repeat kb"
    then show ?thesis using assms(3) by (auto simp: kb_inv_def)
  next
    fix kb1
    assume b: "before_repeat xk KEY_PRESSED c kb kb1" "kb_armed ?kb = kb_armed (uxkb_dev_repeat xk mem KEY_PRESSED kb1)"
      "kb_repeating ?kb = kb_repeating (uxkb_dev_repeat xk mem KEY_PRESSED kb1)"
      "kb_repeat ?kb = kb_repeat (uxkb_dev_repeat xk mem KEY_PRESSED kb1)"
    have "kb_inv xk kb1 held" using b(1) assms(3) by (simp add: before_repeat_def kb_inv_def)
    then have "kb_inv xk (uxkb_dev_repeat xk mem KEY_PRESSED kb1) (insert c held)"
      by (rule repeat_press) (use b(1) in \<open>simp add: before_repeat_def\<close>)
    then show ?thesis using b by (simp add: kb_inv_def)
  qed
  then show ?thesis using f KEY_PRESSED by (simp add: held_after_def)
next
  case KEY_RELEASED
  let ?kb = "fst (uxkb_dev_process xk mem KEY_RELEASED c kb)"
  have f: "fst (kb_do xk mem (Kb_key action c) kb) = ?kb" by (simp add: kb_do_def KEY_RELEASED split_beta)
  have "kb_inv xk ?kb (held - {c})"
    using process_cases [of KEY_RELEASED xk mem c kb, simplified]
  proof (elim disjE exE conjE)
    assume k: "kb_armed ?kb = kb_armed kb" "kb_repeating ?kb = kb_repeating kb" "kb_repeat ?kb = kb_repeat kb"
      "xk_get_syms xk (kb_state kb) (c + 8) = []"
    then have "\<not> (kb_repeating kb \<and> ev_keycode (kb_repeat kb) = c + 8)"
      using assms(1) by (auto simp: release_heard_def KEY_RELEASED)
    then show ?thesis using assms(3) k(1-3) by (auto simp: kb_inv_def)
  next
    assume "\<not> mem" then show ?thesis using assms(2) by simp
  next
    fix kb1
    assume b: "before_repeat xk KEY_RELEASED c kb kb1" "kb_armed ?kb = kb_armed (uxkb_dev_repeat xk mem KEY_RELEASED kb1)"
      "kb_repeating ?kb = kb_repeating (uxkb_dev_repeat xk mem KEY_RELEASED kb1)"
      "kb_repeat ?kb = kb_repeat (uxkb_dev_repeat xk mem KEY_RELEASED kb1)"
    have "kb_inv xk kb1 held" using b(1) assms(3) by (simp add: before_repeat_def kb_inv_def)
    then have "kb_inv xk (uxkb_dev_repeat xk mem KEY_RELEASED kb1) (held - {c})"
      by (rule repeat_release) (use b(1) in \<open>simp add: before_repeat_def\<close>)
    then show ?thesis using b by (simp add: kb_inv_def)
  qed
  then show ?thesis using f KEY_RELEASED by (simp add: held_after_def)
qed

lemma kb_inv_step:
  assumes "release_heard xk s kb" "mem" "kb_inv xk kb held"
  shows "kb_inv xk (fst (kb_do xk mem s kb)) (held_after s held)"
proof (cases s)
  case (Kb_key action c)
  then show ?thesis using kb_inv_process [OF _ assms(2,3)] assms(1) by simp
qed (use assms(3) in \<open>auto simp: kb_do_def kb_inv_def held_after_def timer_event_def Let_def uxkb_dev_wake_up_def
      split: option.splits\<close>)

lemma kb_inv_run:
  "releases_heard xk ss kb \<Longrightarrow> kb_inv xk kb held \<Longrightarrow> kb_run xk True ss (kb, held) = (kb', held') \<Longrightarrow> kb_inv xk kb' held'"
  by (induction ss arbitrary: kb held) (auto dest: kb_inv_step)

text \<open>
  Property C31. The timer does not repeat a key that is up, in every run of a keyboard from its
  creation, of keys, expirations, sleep and waking up, as long as there is memory and whenever the
  key that is being repeated is released it has a keysym in the state of the keyboard: then an armed
  timer reports a key that has been pressed and not released since. What a release without a keysym
  does is \<open>release_without_symbol_keeps_repeating\<close>.
\<close>

theorem no_repeat_of_released_key:
  assumes "uxkb_dev_init xk None compose = Inr kb" "releases_heard xk steps kb"
    and "kb_run xk True steps (kb, {}) = (kb', held)"
  shows "kb_armed kb' = kb_repeating kb' \<and>
    (kb_armed kb' \<longrightarrow> (\<exists>c\<in>held. ev_keycode (snd (timer_event kb')) = c + 8) \<and> xk_repeats xk (ev_keycode (snd (timer_event kb'))))"
proof -
  have "kb_inv xk kb {}" using assms(1) by (auto simp: uxkb_dev_init_def kb_inv_def split: option.splits)
  from kb_inv_run [OF assms(2) this assms(3)] show ?thesis
    by (simp add: kb_inv_def timer_event_def Let_def)
qed

text \<open>
  A keyboard whose state is one modifier: key 31 types a letter and repeats, key 42 sets the
  modifier while it is down; \<open>both\<close> says whether the letter has a keysym with the modifier, too.
\<close>

definition toy_xkb :: "bool \<Rightarrow> (bool, unit) xkb" where
  "toy_xkb both =
     \<lparr>xk_get_syms = (\<lambda>m key. if key = 50 then [0xFFE1] else if m \<and> \<not> both then [] else [97]),
      xk_one_sym = (\<lambda>m key. if key = 50 then 0xFFE1 else 97),
      xk_update_key = (\<lambda>m key down. (if key = 50 then down else m, False)),
      xk_mod_active = (\<lambda>m i. m \<and> i = 0), xk_mods = (\<lambda>m. if m then 1 else 0), xk_num_layouts = (\<lambda>key. 1),
      xk_level = (\<lambda>m key l. 0), xk_level_syms = (\<lambda>key l n. [97]), xk_repeats = (\<lambda>key. key = 39),
      xk_utf32 = (\<lambda>s. s), xk_feed = (\<lambda>c s. c), xk_status = (\<lambda>c. COMPOSE_NOTHING), xk_composed = (\<lambda>c. 0),
      xk_reset = (\<lambda>c. c), xk_new_state = Some False, xk_new_compose = None, xk_keep_locked = (\<lambda>old new. new)\<rparr>"

definition toy_keyboard :: "(bool, unit) keyboard" where
  "toy_keyboard = \<lparr>kb_state = False, kb_compose = None, kb_num_syms = 1, kb_event = blank_event, kb_repeat = blank_event,
     kb_repeating = False, kb_armed = False\<rparr>"

lemmas toy_eval = kb_do_def uxkb_dev_process_def compose_key_def uxkb_dev_resize_event_def uxkb_dev_repeat_def
  filled_event_def shl_get_ascii_def shl_get_xkb_mods_def mod_bit_def held_after_def toy_xkb_def toy_keyboard_def
  blank_event_def release_heard_def Let_def

text \<open>The letter is held, a modifier is pressed and released, and the letter is released and held again.\<close>

definition toy_steps :: "kb_step list" where
  "toy_steps = [Kb_key KEY_PRESSED 31, Kb_timer, Kb_key KEY_PRESSED 42, Kb_key KEY_RELEASED 42, Kb_key KEY_RELEASED 31,
     Kb_key KEY_PRESSED 31]"

theorem no_repeat_of_released_key_witness:
  "let kb = fst (kb_run (toy_xkb False) True toy_steps (toy_keyboard, {}))
   in kb_armed kb \<and> (\<exists>c\<in>{31}. ev_keycode (snd (timer_event kb)) = c + 8)"
proof -
  have i: "uxkb_dev_init (toy_xkb False) None False = Inr toy_keyboard"
    by (simp add: uxkb_dev_init_def toy_xkb_def toy_keyboard_def)
  have r: "releases_heard (toy_xkb False) toy_steps toy_keyboard" by code_simp
  obtain kb' held where k: "kb_run (toy_xkb False) True toy_steps (toy_keyboard, {}) = (kb', held)" by fastforce
  have "snd (kb_run (toy_xkb False) True toy_steps (toy_keyboard, {})) = {31} \<and>
      kb_armed (fst (kb_run (toy_xkb False) True toy_steps (toy_keyboard, {})))" by code_simp
  then have h: "held = {31}" "kb_armed kb'" using k by simp_all
  show ?thesis using no_repeat_of_released_key [OF i r k] h k by (auto simp: Let_def)
qed

text \<open>
  Without that provision the repetition outlives the key: a letter is held, a modifier
  is pressed with which the letter has no keysym, and the letter is released. The release is
  ignored because the key has no keysym at that moment, and the timer goes on reporting a key that
  is up, also after the modifier has been released.
\<close>

theorem release_without_symbol_keeps_repeating:
  "let run = kb_run (toy_xkb False) True
      [Kb_key KEY_PRESSED 31, Kb_key KEY_PRESSED 42, Kb_key KEY_RELEASED 31, Kb_key KEY_RELEASED 42] (toy_keyboard, {})
   in kb_armed (fst run) \<and> ev_keycode (snd (timer_event (fst run))) = 31 + 8 \<and>
      ev_syms (snd (timer_event (fst run))) = [97] \<and> snd run = {}"
  by (simp add: toy_eval timer_event_def) auto

end
