(* ===== verification/Input.thy ===== *)
theory Input
  imports Pointer Keyboard
begin

text \<open>
  The input devices of a seat, \<open>src/input/input.c\<close>: their list, the probing of what a device can
  do, opening and closing with the sleep and the waking up of the input, and the dispatching of
  the kernel's events to the keyboard and the pointer of the device.

  A device is found by its number in place of its address. The calls whose balance matters (open
  and close, registration with the event loop, the keyboard's buffers) and the events for the hooks
  are recorded in order. What the kernel, the event loop and the allocator answer is the
  environment. A program that stops (a division by zero, a missing keyboard state) is \<open>None\<close>.
\<close>

section \<open>State\<close>

abbreviation DEVICE_HAS_KEYS :: u32 where "DEVICE_HAS_KEYS \<equiv> 1"
abbreviation DEVICE_HAS_LEDS :: u32 where "DEVICE_HAS_LEDS \<equiv> 2"
abbreviation DEVICE_HAS_REL :: u32 where "DEVICE_HAS_REL \<equiv> 4"
abbreviation DEVICE_HAS_ABS :: u32 where "DEVICE_HAS_ABS \<equiv> 8"
abbreviation DEVICE_HAS_MOUSE_BTN :: u32 where "DEVICE_HAS_MOUSE_BTN \<equiv> 16"
abbreviation DEVICE_HAS_TOUCH :: u32 where "DEVICE_HAS_TOUCH \<equiv> 32"
abbreviation DEVICE_HAS_WHEEL :: u32 where "DEVICE_HAS_WHEEL \<equiv> 64"
abbreviation DEVICE_HAS_DIRECT :: u32 where "DEVICE_HAS_DIRECT \<equiv> 128"

definition has :: "u32 \<Rightarrow> u32 \<Rightarrow> bool" where
  "has caps flag \<longleftrightarrow> and caps flag \<noteq> 0"

text \<open>
  What a keyboard allocates: the keysyms and the code points of its two events, and the repeat timer.
  \<open>dv_bufs\<close> says of each of these pointers what it points to: nothing, an object, or an object that
  has been freed. \<open>dv_kbd\<close> is \<open>None\<close> when the keyboard state is \<open>NULL\<close>.
\<close>

datatype kbd_part = Event_syms | Event_points | Repeat_syms | Repeat_points | Repeat_timer

datatype heap_ptr = Null | Live | Freed

record ('x, 'c) input_dev =
  dv_id :: nat
  dv_node :: string
  dv_initialized :: bool
  dv_caps :: u32
  dv_rfd :: int
  dv_fd :: bool
  dv_bufs :: "kbd_part \<Rightarrow> heap_ptr"
  dv_kbd :: "('x, 'c) keyboard option"
  dv_pointer :: input_pointer

datatype in_call =
    Dev_open nat | Dev_close nat | Fd_new nat | Fd_rm nat | Kbd_new nat kbd_part | Kbd_free nat kbd_part
  | Kbd_free_again nat kbd_part | Hide_timer_restart | Call_key dev_key_event | Call_pointer input_pointer_event

record ('x, 'c) input =
  in_ref :: nat
  in_awake :: int
  in_repeat_rate :: u32
  in_repeat_delay :: u32
  in_ctx :: bool
  in_compose :: bool
  in_mouse :: bool
  in_max_x :: int
  in_max_y :: int
  in_devices :: "('x, 'c) input_dev list"
  in_next :: nat
  in_calls :: "in_call list"

text \<open>What the kernel says of a device: which queries succeed and the bits they return.\<close>

record dev_bits =
  db_ev :: "(nat \<Rightarrow> bool) option"
  db_key :: "(nat \<Rightarrow> bool) option"
  db_rel :: "(nat \<Rightarrow> bool) option"
  db_abs :: "(nat \<Rightarrow> bool) option"
  db_prop :: "(nat \<Rightarrow> bool) option"

record ('x, 'c) input_env =
  ie_xkb :: "('x, 'c) xkb"
  ie_mem :: bool
  ie_buf :: "kbd_part \<Rightarrow> bool"
  ie_open :: "string \<Rightarrow> int"
  ie_new_fd :: status
  ie_bits :: "string \<Rightarrow> dev_bits"
  ie_abs :: "string \<Rightarrow> (int \<times> int) option \<times> (int \<times> int) option"
  ie_timer :: status
  ie_now :: "int \<times> int"

section \<open>Probing\<close>

abbreviation EV_SYN :: nat where "EV_SYN \<equiv> 0"
abbreviation EV_KEY :: nat where "EV_KEY \<equiv> 1"
abbreviation EV_REL :: nat where "EV_REL \<equiv> 2"
abbreviation EV_ABS :: nat where "EV_ABS \<equiv> 3"
abbreviation EV_LED :: nat where "EV_LED \<equiv> 0x11"

definition key_caps :: "(nat \<Rightarrow> bool) \<Rightarrow> u32" where
  "key_caps bits =
     or (if list_ex bits [0..<114] then DEVICE_HAS_KEYS else 0)
       (or (if bits BTN_LEFT then DEVICE_HAS_MOUSE_BTN else 0) (if bits BTN_TOUCH then DEVICE_HAS_TOUCH else 0))"

definition rel_caps :: "(nat \<Rightarrow> bool) \<Rightarrow> u32" where
  "rel_caps bits =
     or (if bits REL_X \<and> bits REL_Y then DEVICE_HAS_REL else 0) (if bits REL_WHEEL then DEVICE_HAS_WHEEL else 0)"

definition abs_caps :: "(nat \<Rightarrow> bool) \<Rightarrow> (nat \<Rightarrow> bool) \<Rightarrow> u32" where
  "abs_caps bits props =
     or (if bits ABS_X \<and> bits ABS_Y then DEVICE_HAS_ABS else 0) (if props 1 then DEVICE_HAS_DIRECT else 0)"

definition probe_device_capabilities :: "dev_bits \<Rightarrow> u32" where
  "probe_device_capabilities b =
     (case db_ev b of
        None \<Rightarrow> 0
      | Some ev \<Rightarrow>
          (case (if ev EV_KEY then map_option key_caps (db_key b) else Some 0) of
             None \<Rightarrow> 0
           | Some c1 \<Rightarrow>
               (case (if ev EV_SYN \<and> ev EV_REL then map_option rel_caps (db_rel b) else Some 0) of
                  None \<Rightarrow> 0
                | Some c2 \<Rightarrow>
                    (case (if ev EV_SYN \<and> ev EV_ABS
                           then (case (db_abs b, db_prop b) of (Some ab, Some pr) \<Rightarrow> Some (abs_caps ab pr) | _ \<Rightarrow> None)
                           else Some 0) of
                       None \<Rightarrow> 0
                     | Some c3 \<Rightarrow> or c1 (or c2 (or c3 (if ev EV_LED then DEVICE_HAS_LEDS else 0)))))))"

definition has_all :: "u32 \<Rightarrow> u32 \<Rightarrow> bool" where
  "has_all caps flags \<longleftrightarrow> and caps flags = flags"

definition input_can_use :: "bool \<Rightarrow> u32 \<Rightarrow> bool" where
  "input_can_use mouse_enabled caps =
     (if has_all caps DEVICE_HAS_KEYS then True
      else if has_all caps (or DEVICE_HAS_REL DEVICE_HAS_MOUSE_BTN) \<or> has_all caps (or DEVICE_HAS_ABS DEVICE_HAS_TOUCH) \<or>
              has_all caps (or DEVICE_HAS_ABS DEVICE_HAS_MOUSE_BTN) then mouse_enabled
      else False)"

definition input_pointer_kind :: "u32 \<Rightarrow> pointer_kind" where
  "input_pointer_kind caps =
     (if has caps DEVICE_HAS_ABS then
        (if has caps DEVICE_HAS_TOUCH then
           (if has caps DEVICE_HAS_DIRECT then POINTER_TOUCHSCREEN else POINTER_TOUCHPAD)
         else POINTER_VMOUSE)
      else if has caps DEVICE_HAS_REL then POINTER_MOUSE
      else POINTER_NONE)"

section \<open>One device\<close>

definition input_init_abs :: "('x, 'c) input_env \<Rightarrow> ('x, 'c) input_dev \<Rightarrow> ('x, 'c) input_dev" where
  "input_init_abs e dev =
     (if dv_rfd dev \<le> 0 then dev
      else (case ie_abs e (dv_node dev) of
              (None, _) \<Rightarrow> dev
            | (Some (lx, hx), None) \<Rightarrow> dev\<lparr>dv_pointer := (dv_pointer dev)\<lparr>ip_min_x := lx, ip_max_x := hx\<rparr>\<rparr>
            | (Some (lx, hx), Some (ly, hy)) \<Rightarrow>
                dev\<lparr>dv_pointer := (dv_pointer dev)\<lparr>ip_min_x := lx, ip_max_x := hx, ip_min_y := ly, ip_max_y := hy\<rparr>\<rparr>))"

definition input_close_dev :: "('x, 'c) input_dev \<Rightarrow> ('x, 'c) input_dev \<times> in_call list" where
  "input_close_dev dev = (dev\<lparr>dv_rfd := - 1\<rparr>, [Dev_close (dv_id dev)])"

definition input_open_dev :: "('x, 'c) input_env \<Rightarrow> ('x, 'c) input_dev \<Rightarrow> status \<times> ('x, 'c) input_dev \<times> in_call list" where
  "input_open_dev e dev =
     (let dev = dev\<lparr>dv_rfd := ie_open e (dv_node dev)\<rparr>
      in if dv_rfd dev < 0 then (fails EFAULT, dev, [])
         else
           let dev = (if has (dv_caps dev) DEVICE_HAS_ABS then input_init_abs e dev else dev)
           in if ie_new_fd e \<noteq> ok
              then (let (dev, cs) = input_close_dev dev in (ie_new_fd e, dev, Dev_open (dv_id dev) # cs))
              else (ok, dev\<lparr>dv_fd := True\<rparr>, [Dev_open (dv_id dev), Fd_new (dv_id dev)]))"

text \<open>A keyboard whose state is \<open>NULL\<close> keeps none; what the library would do with it is outside the model.\<close>

definition input_wake_up_dev :: "('x, 'c) input_env \<Rightarrow> ('x, 'c) input_dev \<Rightarrow> status \<times> ('x, 'c) input_dev \<times> in_call list" where
  "input_wake_up_dev e dev =
     (if dv_rfd dev \<ge> 0 then (ok, dev, [])
      else
        let (ret, dev, cs) = input_open_dev e dev
        in if ret \<noteq> ok then (ret, dev, cs)
           else (ok, if has (dv_caps dev) DEVICE_HAS_KEYS
                     then dev\<lparr>dv_kbd := Option.bind (dv_kbd dev) (uxkb_dev_wake_up (ie_xkb e))\<rparr> else dev, cs))"

definition input_sleep_dev :: "('x, 'c) input_dev \<Rightarrow> ('x, 'c) input_dev \<times> in_call list" where
  "input_sleep_dev dev =
     (if dv_rfd dev < 0 \<or> \<not> dv_initialized dev then (dev, [])
      else
        let (dev', cs) = input_close_dev (dev\<lparr>dv_fd := False,
              dv_kbd := map_option (\<lambda>kb. kb\<lparr>kb_repeating := False, kb_armed := False\<rparr>) (dv_kbd dev)\<rparr>)
        in (dev', Fd_rm (dv_id dev) # cs))"

definition set_part :: "kbd_part \<Rightarrow> heap_ptr \<Rightarrow> ('x, 'c) input_dev \<Rightarrow> ('x, 'c) input_dev" where
  "set_part b p dev = dev\<lparr>dv_bufs := (dv_bufs dev)(b := p)\<rparr>"

text \<open>Freeing a part: nothing happens to a null pointer; a pointer to a freed object is recorded as such.\<close>

definition free_part :: "kbd_part \<Rightarrow> ('x, 'c) input_dev \<Rightarrow> ('x, 'c) input_dev \<times> in_call list" where
  "free_part b dev =
     (case dv_bufs dev b of
        Null \<Rightarrow> (dev, [])
      | Live \<Rightarrow> (set_part b Freed dev, [Kbd_free (dv_id dev) b])
      | Freed \<Rightarrow> (dev, [Kbd_free_again (dv_id dev) b]))"

fun free_parts :: "kbd_part list \<Rightarrow> ('x, 'c) input_dev \<Rightarrow> ('x, 'c) input_dev \<times> in_call list" where
  "free_parts [] dev = (dev, [])"
| "free_parts (b # bs) dev =
     (case free_part b dev of (dev, cs) \<Rightarrow> (case free_parts bs dev of (dev, ds) \<Rightarrow> (dev, cs @ ds)))"

text \<open>
  The allocations in their order; \<open>got\<close> are the parts so far, the last one first. A failure stores
  the null pointer and goes to the label that frees what there is, without clearing the pointers.
\<close>

fun alloc_parts :: "('x, 'c) input_env \<Rightarrow> kbd_part list \<Rightarrow> kbd_part list \<Rightarrow> ('x, 'c) input_dev \<Rightarrow>
    bool \<times> ('x, 'c) input_dev \<times> in_call list" where
  "alloc_parts e got [] dev = (True, dev, [])"
| "alloc_parts e got (b # bs) dev =
     (if \<not> ie_buf e b then (case free_parts got (set_part b Null dev) of (dev, cs) \<Rightarrow> (False, dev, cs))
      else (case alloc_parts e (b # got) bs (set_part b Live dev) of
              (good, dev, cs) \<Rightarrow> (good, dev, Kbd_new (dv_id dev) b # cs)))"

definition event_parts :: "kbd_part list" where
  "event_parts = [Event_syms, Event_points, Repeat_syms, Repeat_points]"

text \<open>
  \<open>compose\<close>: the input has a compose table. The error of a failure is \<open>-1\<close>. When the keyboard state
  cannot be made, the timer made before it is removed, and its pointer stays.
\<close>

definition input_init_keyboard :: "('x, 'c) input_env \<Rightarrow> bool \<Rightarrow> ('x, 'c) input_dev \<Rightarrow> status \<times> ('x, 'c) input_dev \<times> in_call list" where
  "input_init_keyboard e compose dev =
     (let (good, dev, cs) = alloc_parts e [] event_parts dev
      in if \<not> good then (fails EPERM, dev, cs)
         else (case uxkb_dev_init (ie_xkb e) (ie_timer e) compose of
                 Inl err \<Rightarrow>
                   (let (dev, ts) =
                          (if ie_timer e = ok
                           then (case free_part Repeat_timer ((set_part Repeat_timer Live dev)\<lparr>dv_kbd := None\<rparr>) of
                                   (dev, ts) \<Rightarrow> (dev, Kbd_new (dv_id dev) Repeat_timer # ts))
                           else (dev, []));
                        (dev, ds) = free_parts (rev event_parts) dev
                    in (fails EPERM, dev, cs @ ts @ ds))
               | Inr kb \<Rightarrow>
                   (ok, (set_part Repeat_timer Live dev)\<lparr>dv_kbd := Some kb\<rparr>, cs @ [Kbd_new (dv_id dev) Repeat_timer])))"

definition input_exit_keyboard :: "('x, 'c) input_dev \<Rightarrow> ('x, 'c) input_dev \<times> in_call list" where
  "input_exit_keyboard dev =
     (let (dev, ts) = free_part Repeat_timer dev;
          dev = (set_part Repeat_timer Null dev)\<lparr>dv_kbd := None\<rparr>;
          (dev, cs) = free_parts (rev event_parts) dev
      in (dev, ts @ cs))"

text \<open>What the release of a device calls; the caller takes it out of the list.\<close>

definition input_free_dev :: "('x, 'c) input_dev \<Rightarrow> in_call list" where
  "input_free_dev dev =
     (let (dev, cs) = input_sleep_dev dev
      in if has (dv_caps dev) DEVICE_HAS_KEYS then cs @ snd (input_exit_keyboard dev) else cs)"

text \<open>Probing and setting up a new device; when it fails, the caller drops the device.\<close>

definition input_init_dev :: "('x, 'c) input_env \<Rightarrow> ('x, 'c) input \<Rightarrow> ('x, 'c) input_dev \<Rightarrow>
    status \<times> ('x, 'c) input_dev \<times> in_call list" where
  "input_init_dev e inp dev =
     (let (ret, dev, cs) = input_open_dev e dev
      in if ret \<noteq> ok then (ret, dev, cs)
         else
           let dev = dev\<lparr>dv_caps := probe_device_capabilities (ie_bits e (dv_node dev))\<rparr>
           in if \<not> input_can_use (in_mouse inp) (dv_caps dev)
              then (let (dev, ds) = input_close_dev (dev\<lparr>dv_fd := False\<rparr>) in (fails ENOTSUP, dev, cs @ Fd_rm (dv_id dev) # ds))
              else
                let dev = dev\<lparr>dv_pointer := (dv_pointer dev)\<lparr>ip_pressed := BUTTON_NONE\<rparr>\<rparr>;
                    (ret, dev, ks) = (if has (dv_caps dev) DEVICE_HAS_KEYS
                                      then input_init_keyboard e (in_compose inp) dev else (ok, dev, []))
                in if ret \<noteq> ok
                   then (let (dev, ds) = input_close_dev (dev\<lparr>dv_fd := False\<rparr>)
                         in (ret, dev, cs @ ks @ Fd_rm (dv_id dev) # ds))
                   else
                     let dev = dev\<lparr>dv_pointer := (dv_pointer dev)\<lparr>ip_kind := input_pointer_kind (dv_caps dev)\<rparr>\<rparr>;
                         dev = (if has (dv_caps dev) DEVICE_HAS_ABS then input_init_abs e dev else dev)
                     in (ok, dev\<lparr>dv_initialized := True\<rparr>, cs @ ks))"

section \<open>Events\<close>

text \<open>An event of the kernel: type, code, value. The keyboard gets the low sixteen bits of the value.\<close>

type_synonym kernel_event = "nat \<times> nat \<times> int"

definition key_action_of :: "int \<Rightarrow> key_action" where
  "key_action_of v =
     (let s = v mod 65536
      in if s = 0 then KEY_RELEASED else if s = 1 then KEY_PRESSED else if s = 2 then KEY_REPEATED else KEY_OTHER)"

definition notify_key :: "('x, 'c) input_env \<Rightarrow> nat \<Rightarrow> int \<Rightarrow> ('x, 'c) input_dev \<Rightarrow>
    (('x, 'c) input_dev \<times> in_call list) option" where
  "notify_key e c v dev =
     (if \<not> has (dv_caps dev) DEVICE_HAS_KEYS \<or> key_action_of v = KEY_REPEATED then Some (dev, [])
      else (case dv_kbd dev of
              None \<Rightarrow> None
            | Some kb \<Rightarrow>
                (case uxkb_dev_process (ie_xkb e) (ie_mem e) (key_action_of v) c kb of
                   (kb, leds, ev) \<Rightarrow>
                     Some (dev\<lparr>dv_kbd := Some kb\<rparr>, case ev of None \<Rightarrow> [] | Some ev \<Rightarrow> [Call_key ev]))))"

definition notify_event :: "('x, 'c) input_env \<Rightarrow> int \<Rightarrow> int \<Rightarrow> kernel_event \<Rightarrow> ('x, 'c) input_dev \<Rightarrow>
    (('x, 'c) input_dev \<times> in_call list) option" where
  "notify_event e mx my ev dev =
     (case ev of (ty, c, v) \<Rightarrow>
        if ty = EV_KEY then
          (case notify_key e c v dev of
             None \<Rightarrow> None
           | Some (dev, ks) \<Rightarrow>
               (let (p, pevs) = pointer_dev_button (ie_now e) c v (dv_pointer dev)
                in Some (dev\<lparr>dv_pointer := p\<rparr>, ks @ map Call_pointer pevs)))
        else if ty = EV_REL then
          (let (p, pevs) = pointer_dev_rel mx my c v (dv_pointer dev)
           in Some (dev\<lparr>dv_pointer := p\<rparr>, map Call_pointer pevs))
        else if ty = EV_ABS then
          map_option (\<lambda>(p, pevs). (dev\<lparr>dv_pointer := p\<rparr>, map Call_pointer pevs)) (pointer_dev_abs mx my c v (dv_pointer dev))
        else if ty = EV_SYN then Some (dev, [Call_pointer (pointer_dev_sync (dv_pointer dev)), Hide_timer_restart])
        else Some (dev, []))"

fun notify_events :: "('x, 'c) input_env \<Rightarrow> int \<Rightarrow> int \<Rightarrow> kernel_event list \<Rightarrow> ('x, 'c) input_dev \<Rightarrow>
    (('x, 'c) input_dev \<times> in_call list) option" where
  "notify_events e mx my [] dev = Some (dev, [])"
| "notify_events e mx my (ev # evs) dev =
     (case notify_event e mx my ev dev of
        None \<Rightarrow> None
      | Some (dev, cs) \<Rightarrow> map_option (\<lambda>(dev, ds). (dev, cs @ ds)) (notify_events e mx my evs dev))"

text \<open>
  What the calls of \<open>read\<close> return: nothing there, an error, the end, a length that is no number of
  events, or events; the loop goes on as long as it gets the sixteen that fit. The device is kept
  (\<open>Some\<close>) or freed.
\<close>

datatype dev_read = Read_again | Read_error | Read_eof | Read_odd | Read_events "kernel_event list"

fun input_read_loop :: "('x, 'c) input_env \<Rightarrow> int \<Rightarrow> int \<Rightarrow> dev_read list \<Rightarrow> ('x, 'c) input_dev \<Rightarrow>
    (('x, 'c) input_dev option \<times> in_call list) option" where
  "input_read_loop e mx my [] dev = Some (Some dev, [])"
| "input_read_loop e mx my (Read_again # rs) dev = Some (Some dev, [])"
| "input_read_loop e mx my (Read_error # rs) dev = Some (None, input_free_dev dev)"
| "input_read_loop e mx my (Read_eof # rs) dev = Some (None, input_free_dev dev)"
| "input_read_loop e mx my (Read_odd # rs) dev = Some (Some dev, [])"
| "input_read_loop e mx my (Read_events evs # rs) dev =
     (case notify_events e mx my evs dev of
        None \<Rightarrow> None
      | Some (dev, cs) \<Rightarrow>
          if length evs \<noteq> 16 then Some (Some dev, cs)
          else map_option (\<lambda>(d, ds). (d, cs @ ds)) (input_read_loop e mx my rs dev))"

section \<open>The input\<close>

definition log_calls :: "in_call list \<Rightarrow> ('x, 'c) input \<Rightarrow> ('x, 'c) input" where
  "log_calls cs inp = inp\<lparr>in_calls := in_calls inp @ cs\<rparr>"

definition find_dev :: "nat \<Rightarrow> ('x, 'c) input \<Rightarrow> ('x, 'c) input_dev option" where
  "find_dev i inp = find (\<lambda>d. dv_id d = i) (in_devices inp)"

definition drop_dev :: "nat \<Rightarrow> ('x, 'c) input \<Rightarrow> ('x, 'c) input" where
  "drop_dev i inp = inp\<lparr>in_devices := filter (\<lambda>d. dv_id d \<noteq> i) (in_devices inp)\<rparr>"

definition put_dev :: "('x, 'c) input_dev \<Rightarrow> ('x, 'c) input \<Rightarrow> ('x, 'c) input" where
  "put_dev dev inp = inp\<lparr>in_devices := map (\<lambda>d. if dv_id d = dv_id dev then dev else d) (in_devices inp)\<rparr>"

text \<open>\<open>input_data_dev\<close> for device \<open>i\<close>; \<open>hup\<close>: the mask has \<open>EV_HUP\<close> or \<open>EV_ERR\<close>.\<close>

definition input_data_dev :: "('x, 'c) input_env \<Rightarrow> bool \<Rightarrow> dev_read list \<Rightarrow> nat \<Rightarrow> ('x, 'c) input \<Rightarrow> ('x, 'c) input option" where
  "input_data_dev e hup reads i inp =
     (case find_dev i inp of
        None \<Rightarrow> Some inp
      | Some dev \<Rightarrow>
          if hup then Some (log_calls (input_free_dev dev) (drop_dev i inp))
          else (case input_read_loop e (in_max_x inp) (in_max_y inp) reads dev of
                  None \<Rightarrow> None
                | Some (Some dev, cs) \<Rightarrow> Some (log_calls cs (put_dev dev inp))
                | Some (None, cs) \<Rightarrow> Some (log_calls cs (drop_dev i inp))))"

definition input_new :: "status list \<Rightarrow> bool \<Rightarrow> errno + ('x, 'c) input" where
  "input_new steps mem =
     (if \<not> mem then Inl ENOMEM
      else (case find (\<lambda>s. s \<noteq> ok) steps of
              Some (Some err) \<Rightarrow> Inl err
            | _ \<Rightarrow> Inr \<lparr>in_ref = 1, in_awake = 0, in_repeat_rate = 0, in_repeat_delay = 0, in_ctx = False, in_compose = False,
                        in_mouse = False, in_max_x = 0, in_max_y = 0, in_devices = [], in_next = 0, in_calls = []\<rparr>))"

definition input_set_conf :: "u32 \<Rightarrow> u32 \<Rightarrow> bool \<Rightarrow> ('x, 'c) input \<Rightarrow> ('x, 'c) input" where
  "input_set_conf delay rate mouse inp =
     (let delay = (if delay = 0 then 250 else delay);
          delay = (if delay \<ge> 1000 then 999 else delay);
          rate = (if rate = 0 then 50 else rate);
          rate = (if rate \<ge> 1000 then 999 else rate)
      in inp\<lparr>in_repeat_delay := delay, in_repeat_rate := rate, in_mouse := mouse\<rparr>)"

definition input_ref :: "('x, 'c) input \<Rightarrow> ('x, 'c) input" where
  "input_ref inp = (if in_ref inp = 0 then inp else inp\<lparr>in_ref := in_ref inp + 1\<rparr>)"

definition input_unref :: "('x, 'c) input \<Rightarrow> ('x, 'c) input" where
  "input_unref inp =
     (if in_ref inp = 0 then inp
      else if in_ref inp - 1 > 0 then inp\<lparr>in_ref := in_ref inp - 1\<rparr>
      else log_calls (concat (map input_free_dev (in_devices inp)))
             (inp\<lparr>in_ref := 0, in_devices := [], in_ctx := False, in_compose := False\<rparr>))"

definition zero_pointer :: input_pointer where
  "zero_pointer = \<lparr>ip_kind = POINTER_NONE, ip_last_click = (0, 0), ip_x = 0, ip_y = 0, ip_touchpaddown = False,
     ip_sync_off_x = False, ip_sync_off_y = False, ip_off_x = 0, ip_off_y = 0, ip_min_x = 0, ip_max_x = 0,
     ip_min_y = 0, ip_max_y = 0, ip_pressed = 0\<rparr>"

definition input_new_dev :: "nat \<Rightarrow> string \<Rightarrow> ('x, 'c) input_dev" where
  "input_new_dev i node =
     \<lparr>dv_id = i, dv_node = node, dv_initialized = False, dv_caps = 0, dv_rfd = - 1, dv_fd = False, dv_bufs = (\<lambda>b. Null),
      dv_kbd = None, dv_pointer = zero_pointer\<rparr>"

text \<open>The result is the number of the device, if it was taken; it becomes the first of the list.\<close>

definition input_add_dev :: "('x, 'c) input_env \<Rightarrow> string \<Rightarrow> ('x, 'c) input \<Rightarrow> nat option \<times> ('x, 'c) input" where
  "input_add_dev e node inp =
     (if \<not> ie_mem e then (None, inp)
      else
        let dev = input_new_dev (in_next inp) node;
            inp = inp\<lparr>in_next := in_next inp + 1\<rparr>
        in if in_awake inp > 0
           then (let (ret, dev, cs) = input_init_dev e inp dev
                 in if ret \<noteq> ok then (None, log_calls cs inp)
                    else (Some (dv_id dev), log_calls cs (inp\<lparr>in_devices := dev # in_devices inp\<rparr>)))
           else (Some (dv_id dev), inp\<lparr>in_devices := dev # in_devices inp\<rparr>))"

definition input_remove_dev :: "nat \<Rightarrow> ('x, 'c) input \<Rightarrow> ('x, 'c) input" where
  "input_remove_dev i inp =
     (case find_dev i inp of None \<Rightarrow> inp | Some dev \<Rightarrow> log_calls (input_free_dev dev) (drop_dev i inp))"

definition input_get_mods :: "('x, 'c) xkb \<Rightarrow> ('x, 'c) input \<Rightarrow> u32" where
  "input_get_mods xk inp =
     fold (\<lambda>d mods. if has (dv_caps d) DEVICE_HAS_KEYS
                    then (case dv_kbd d of None \<Rightarrow> mods | Some kb \<Rightarrow> or mods (uxkb_dev_get_mods xk kb)) else mods)
       (in_devices inp) 0"

text \<open>A loop over the devices that may drop some of them.\<close>

fun each_dev :: "(('x, 'c) input_dev \<Rightarrow> ('x, 'c) input_dev option \<times> in_call list) \<Rightarrow> ('x, 'c) input_dev list \<Rightarrow>
    ('x, 'c) input_dev list \<times> in_call list" where
  "each_dev f [] = ([], [])"
| "each_dev f (d # ds) =
     (case f d of (r, cs) \<Rightarrow> (case each_dev f ds of (ds, es) \<Rightarrow> ((case r of None \<Rightarrow> ds | Some d \<Rightarrow> d # ds), cs @ es)))"

definition run_devs :: "(('x, 'c) input_dev \<Rightarrow> ('x, 'c) input_dev option \<times> in_call list) \<Rightarrow> ('x, 'c) input \<Rightarrow> ('x, 'c) input" where
  "run_devs f inp = (case each_dev f (in_devices inp) of (ds, cs) \<Rightarrow> log_calls cs (inp\<lparr>in_devices := ds\<rparr>))"

definition input_sleep :: "('x, 'c) input \<Rightarrow> ('x, 'c) input" where
  "input_sleep inp =
     (let inp = inp\<lparr>in_awake := in_awake inp - 1\<rparr>
      in if in_awake inp \<noteq> 0 then inp
         else run_devs (\<lambda>d. map_prod Some id (input_sleep_dev d)) inp)"

definition wake_dev :: "('x, 'c) input_env \<Rightarrow> ('x, 'c) input \<Rightarrow> ('x, 'c) input_dev \<Rightarrow> ('x, 'c) input_dev option \<times> in_call list" where
  "wake_dev e inp dev =
     (let (ret, dev, cs) = (if \<not> dv_initialized dev then input_init_dev e inp dev else (ok, dev, []))
      in if ret \<noteq> ok then (None, cs)
         else
           let (ret, dev, ds) = input_wake_up_dev e dev
           in if ret \<noteq> ok then (None, cs @ ds @ input_free_dev dev) else (Some dev, cs @ ds))"

definition input_wake_up :: "('x, 'c) input_env \<Rightarrow> ('x, 'c) input \<Rightarrow> ('x, 'c) input" where
  "input_wake_up e inp =
     (let inp = inp\<lparr>in_awake := in_awake inp + 1\<rparr>
      in if in_awake inp \<noteq> 1 then inp else run_devs (wake_dev e inp) inp)"

definition input_is_awake :: "('x, 'c) input \<Rightarrow> bool" where
  "input_is_awake inp \<longleftrightarrow> in_awake inp > 0"

definition input_set_pointer_max :: "u32 \<Rightarrow> u32 \<Rightarrow> ('x, 'c) input \<Rightarrow> ('x, 'c) input" where
  "input_set_pointer_max max_x max_y inp = inp\<lparr>in_max_x := sint max_x, in_max_y := sint max_y\<rparr>"

text \<open>
  A new keymap: the keyboards are put to sleep and taken down, and set up and woken up again.
  \<open>keymap\<close> tells whether a context with a keymap could be made; the results of the second round
  are not looked at.
\<close>

definition down_dev :: "('x, 'c) input_dev \<Rightarrow> ('x, 'c) input_dev option \<times> in_call list" where
  "down_dev dev =
     (if has (dv_caps dev) DEVICE_HAS_KEYS
      then (let (dev, cs) = input_sleep_dev dev; (dev, ds) = input_exit_keyboard dev in (Some dev, cs @ ds))
      else (Some dev, []))"

definition up_dev :: "('x, 'c) input_env \<Rightarrow> bool \<Rightarrow> ('x, 'c) input_dev \<Rightarrow> ('x, 'c) input_dev option \<times> in_call list" where
  "up_dev e awake dev =
     (if has (dv_caps dev) DEVICE_HAS_KEYS
      then (let (r1, dev, cs) = input_init_keyboard e False dev;
                (r2, dev, ds) = (if awake then input_wake_up_dev e dev else (ok, dev, []))
            in (Some dev, cs @ ds))
      else (Some dev, []))"

definition input_update_keymap :: "('x, 'c) input_env \<Rightarrow> bool \<Rightarrow> ('x, 'c) input \<Rightarrow> ('x, 'c) input" where
  "input_update_keymap e keymap inp =
     (let inp = (if in_ctx inp then run_devs down_dev inp else inp);
          inp = inp\<lparr>in_ctx := keymap, in_compose := False\<rparr>
      in run_devs (up_dev e (in_awake inp \<noteq> 0)) inp)"

definition input_set_keymap :: "bool \<Rightarrow> ('x, 'c) input \<Rightarrow> status \<times> ('x, 'c) input" where
  "input_set_keymap keymap inp = (if keymap then ok else fails EFAULT, inp\<lparr>in_ctx := keymap\<rparr>)"

definition hide_pointer_timer :: "('x, 'c) input \<Rightarrow> ('x, 'c) input" where
  "hide_pointer_timer inp = log_calls [Call_pointer (no_event\<lparr>pe_event := POINTER_HIDE_TIMEOUT\<rparr>)] inp"

end
