(* ===== verification/Input_Spec.thy ===== *)
theory Input_Spec
  imports Input
begin

text \<open>
  What the input keeps in every run: the books of the device files, of the registrations with the
  event loop and of the keyboards' buffers are balanced by the devices in the list; an open device
  is set up and watched, and there is none while the input sleeps. Pointer events stay on the
  screen. The passes over all devices (sleep, wake up, keymap down and up) share one contract, the
  locale \<open>device_pass\<close>.
\<close>

section \<open>Resources\<close>

datatype resource = Res_node | Res_fd | Res_part kbd_part

fun delta :: "resource \<Rightarrow> nat \<Rightarrow> in_call \<Rightarrow> int" where
  "delta Res_node i (Dev_open j) = of_bool (i = j)"
| "delta Res_node i (Dev_close j) = - of_bool (i = j)"
| "delta Res_fd i (Fd_new j) = of_bool (i = j)"
| "delta Res_fd i (Fd_rm j) = - of_bool (i = j)"
| "delta (Res_part b) i (Kbd_new j b') = of_bool (i = j \<and> b = b')"
| "delta (Res_part b) i (Kbd_free j b') = - of_bool (i = j \<and> b = b')"
| "delta r i c = 0"

definition net :: "resource \<Rightarrow> nat \<Rightarrow> in_call list \<Rightarrow> int" where
  "net r i cs = sum_list (map (delta r i) cs)"

fun holds :: "resource \<Rightarrow> ('x, 'c) input_dev \<Rightarrow> bool" where
  "holds Res_node d = (dv_rfd d \<ge> 0)"
| "holds Res_fd d = dv_fd d"
| "holds (Res_part b) d = (dv_bufs d b = Live)"

definition owns :: "resource \<Rightarrow> nat \<Rightarrow> ('x, 'c) input_dev \<Rightarrow> int" where
  "owns r i d = of_bool (dv_id d = i \<and> holds r d)"

definition owned :: "resource \<Rightarrow> nat \<Rightarrow> ('x, 'c) input_dev option \<Rightarrow> int" where
  "owned r i od = (case od of None \<Rightarrow> 0 | Some d \<Rightarrow> owns r i d)"

definition held :: "resource \<Rightarrow> nat \<Rightarrow> ('x, 'c) input_dev list \<Rightarrow> int" where
  "held r i ds = sum_list (map (owns r i) ds)"

definition clean :: "in_call list \<Rightarrow> bool" where
  "clean cs \<longleftrightarrow> (\<forall>i b. Kbd_free_again i b \<notin> set cs)"

lemma net_simps [simp]:
  "net r i [] = 0" "net r i (c # cs) = delta r i c + net r i cs" "net r i (cs @ ds) = net r i cs + net r i ds"
  by (simp_all add: net_def)

lemma held_simps [simp]:
  "held r i [] = 0" "held r i (d # ds) = owns r i d + held r i ds" "held r i (ds @ es) = held r i ds + held r i es"
  by (simp_all add: held_def)

lemma clean_simps [simp]:
  "clean []" "clean (c # cs) \<longleftrightarrow> (\<forall>i b. c \<noteq> Kbd_free_again i b) \<and> clean cs" "clean (cs @ ds) \<longleftrightarrow> clean cs \<and> clean ds"
  by (auto simp: clean_def)

lemma owned_simps [simp]: "owned r i None = 0" "owned r i (Some d) = owns r i d"
  by (simp_all add: owned_def)

text \<open>The calls of an operation that turns one device into another, or frees it.\<close>

definition moved :: "('x, 'c) input_dev \<Rightarrow> ('x, 'c) input_dev option \<Rightarrow> in_call list \<Rightarrow> bool" where
  "moved d od cs \<longleftrightarrow> (\<forall>r i. net r i cs = owned r i od - owns r i d) \<and> clean cs"

lemma movedI:
  assumes "\<And>i. net Res_node i cs = owned Res_node i od - owns Res_node i d"
    "\<And>i. net Res_fd i cs = owned Res_fd i od - owns Res_fd i d"
    "\<And>b i. net (Res_part b) i cs = owned (Res_part b) i od - owns (Res_part b) i d" "clean cs"
  shows "moved d od cs"
proof -
  have "net r i cs = owned r i od - owns r i d" for r i using assms(1-3) by (cases r) simp_all
  then show ?thesis using assms(4) by (simp add: moved_def)
qed

lemma moved_trans: "moved d (Some d') cs \<Longrightarrow> moved d' od ds \<Longrightarrow> moved d od (cs @ ds)"
  by (simp add: moved_def)

lemma moved_refl: "moved d (Some d) []"
  by (simp add: moved_def)

section \<open>What a device is\<close>

definition all_parts :: "('x, 'c) input_dev \<Rightarrow> bool" where
  "all_parts d \<longleftrightarrow> (\<forall>b. dv_bufs d b = Live)"

definition no_parts :: "('x, 'c) input_dev \<Rightarrow> bool" where
  "no_parts d \<longleftrightarrow> (\<forall>b. dv_bufs d b \<noteq> Live)"

definition dev_inv :: "bool \<Rightarrow> ('x, 'c) input_dev \<Rightarrow> bool" where
  "dev_inv a d \<longleftrightarrow> (dv_rfd d \<ge> 0 \<longleftrightarrow> dv_fd d) \<and> (dv_fd d \<longrightarrow> dv_initialized d \<and> a) \<and>
     (\<not> dv_initialized d \<longrightarrow> dv_caps d = 0) \<and>
     (if has (dv_caps d) DEVICE_HAS_KEYS then all_parts d else no_parts d)"

text \<open>Between the two rounds of a keymap update: asleep, without buffers.\<close>

definition down_inv :: "bool \<Rightarrow> ('x, 'c) input_dev \<Rightarrow> bool" where
  "down_inv a d \<longleftrightarrow>
     (if has (dv_caps d) DEVICE_HAS_KEYS then dv_initialized d \<and> dv_rfd d < 0 \<and> \<not> dv_fd d \<and> no_parts d else dev_inv a d)"

definition kbd_possible :: "('x, 'c) input_env \<Rightarrow> bool \<Rightarrow> bool" where
  "kbd_possible e compose \<longleftrightarrow>
     list_all (ie_buf e) event_parts \<and> (\<exists>kb. uxkb_dev_init (ie_xkb e) (ie_timer e) compose = Inr kb)"

lemma parts_cong: "dv_bufs d' = dv_bufs d \<Longrightarrow> all_parts d' = all_parts d \<and> no_parts d' = no_parts d"
  by (simp add: all_parts_def no_parts_def)

lemma has_zero [simp]: "\<not> has 0 f"
  by (simp add: has_def)

lemma init_abs_keeps [simp]:
  "dv_id (input_init_abs e d) = dv_id d" "dv_rfd (input_init_abs e d) = dv_rfd d"
  "dv_initialized (input_init_abs e d) = dv_initialized d" "dv_fd (input_init_abs e d) = dv_fd d"
  "dv_bufs (input_init_abs e d) = dv_bufs d" "dv_caps (input_init_abs e d) = dv_caps d"
  "dv_kbd (input_init_abs e d) = dv_kbd d" "dv_node (input_init_abs e d) = dv_node d"
  by (simp_all add: input_init_abs_def split: prod.split option.split)

lemma init_abs_owns [simp]: "owns r i (input_init_abs e d) = owns r i d"
  by (cases r) (simp_all add: owns_def)

text \<open>Opening a closed device: an error leaves it closed.\<close>

lemma open_dev_cases:
  assumes "input_open_dev e d = (ret, d', cs)"
  shows "dv_id d' = dv_id d \<and> dv_initialized d' = dv_initialized d \<and> dv_bufs d' = dv_bufs d \<and> dv_caps d' = dv_caps d \<and>
    dv_kbd d' = dv_kbd d \<and> dv_node d' = dv_node d \<and>
    (if ret = ok then dv_rfd d' \<ge> 0 \<and> dv_fd d' else dv_rfd d' < 0 \<and> dv_fd d' = dv_fd d)"
  using assms by (auto simp: input_open_dev_def input_close_dev_def Let_def split: if_splits)

lemma open_dev_moved:
  assumes "input_open_dev e d = (ret, d', cs)" "dv_rfd d < 0" "\<not> dv_fd d"
  shows "moved d (Some d') cs"
proof (cases "ie_open e (dv_node d) < 0")
  case True
  then have "d' = d\<lparr>dv_rfd := ie_open e (dv_node d)\<rparr>" "cs = []"
    using assms(1) by (simp_all add: input_open_dev_def)
  then show ?thesis using True assms(2,3) by (intro movedI) (simp_all add: owns_def)
next
  case False
  note d = open_dev_cases [OF assms(1)]
  have "if ret = ok then cs = [Dev_open (dv_id d), Fd_new (dv_id d)] else cs = [Dev_open (dv_id d), Dev_close (dv_id d)]"
    using assms(1) False
    by (cases "ie_new_fd e") (auto simp: input_open_dev_def input_close_dev_def Let_def split: if_splits)
  then show ?thesis using d assms(2,3) by (cases ret) (intro movedI; simp add: owns_def)+
qed

lemma close_dev_moved:
  assumes "dv_rfd d \<ge> 0" "dv_fd d" "input_close_dev (d\<lparr>dv_fd := False\<rparr>) = (d', cs)"
  shows "moved d (Some d') (Fd_rm (dv_id d') # cs)"
proof -
  have "d' = d\<lparr>dv_fd := False, dv_rfd := - 1\<rparr>" "cs = [Dev_close (dv_id d)]"
    using assms(3) by (simp_all add: input_close_dev_def)
  then show ?thesis using assms(1,2) by (intro movedI) (simp_all add: owns_def)
qed

lemma sleep_dev:
  assumes "dev_inv a d" "input_sleep_dev d = (d', cs)"
  shows "moved d (Some d') cs" "dev_inv False d'" "dv_id d' = dv_id d" "dv_caps d' = dv_caps d" "dv_bufs d' = dv_bufs d"
    "dv_initialized d' = dv_initialized d" "dv_rfd d' < 0"
proof -
  have keep: "dv_id d' = dv_id d \<and> dv_caps d' = dv_caps d \<and> dv_bufs d' = dv_bufs d \<and>
      dv_initialized d' = dv_initialized d \<and> dv_rfd d' < 0 \<and> \<not> dv_fd d'"
    using assms by (auto simp: input_sleep_dev_def input_close_dev_def dev_inv_def Let_def split: if_splits)
  have "cs = (if dv_rfd d < 0 then [] else [Fd_rm (dv_id d), Dev_close (dv_id d)])"
    using assms by (auto simp: input_sleep_dev_def input_close_dev_def dev_inv_def Let_def split: if_splits)
  then show "moved d (Some d') cs"
    using keep assms(1) by (cases "dv_rfd d < 0") (intro movedI; simp add: owns_def dev_inv_def)+
  show "dev_inv False d'" using keep assms(1) parts_cong [of d' d] by (simp add: dev_inv_def)
  show "dv_id d' = dv_id d" "dv_caps d' = dv_caps d" "dv_bufs d' = dv_bufs d"
    "dv_initialized d' = dv_initialized d" "dv_rfd d' < 0"
    using keep by auto
qed

subsection \<open>The parts of a keyboard\<close>

definition same_but_parts :: "('x, 'c) input_dev \<Rightarrow> ('x, 'c) input_dev \<Rightarrow> bool" where
  "same_but_parts d d' \<longleftrightarrow> dv_id d' = dv_id d \<and> dv_rfd d' = dv_rfd d \<and> dv_fd d' = dv_fd d \<and>
     dv_initialized d' = dv_initialized d \<and> dv_caps d' = dv_caps d"

lemma same_but_parts_simps [simp]:
  "same_but_parts d d" "same_but_parts d (set_part b p d') = same_but_parts d d'"
  "same_but_parts (set_part b p d) d' = same_but_parts d d'"
  "same_but_parts d (d'\<lparr>dv_kbd := kb\<rparr>) = same_but_parts d d'"
  "same_but_parts (d\<lparr>dv_kbd := kb\<rparr>) d' = same_but_parts d d'"
  by (simp_all add: same_but_parts_def set_part_def)

lemma same_but_parts_trans: "same_but_parts d d' \<Longrightarrow> same_but_parts d' d'' \<Longrightarrow> same_but_parts d d''"
  by (simp add: same_but_parts_def)

lemma set_part_simps [simp]:
  "dv_bufs (set_part b p d) c = (if c = b then p else dv_bufs d c)" "dv_id (set_part b p d) = dv_id d"
  "dv_caps (set_part b p d) = dv_caps d"
  by (simp_all add: set_part_def)

lemma kbd_owns [simp]: "owns r i (d\<lparr>dv_kbd := kb\<rparr>) = owns r i d"
  by (cases r) (simp_all add: owns_def)

text \<open>Setting a pointer that owns nothing to something that is nothing, or to a new object.\<close>

lemma set_part_owns: "dv_bufs d b \<noteq> Live \<Longrightarrow> p \<noteq> Live \<Longrightarrow> owns r i (set_part b p d) = owns r i d"
  by (cases r) (auto simp: owns_def set_part_def)

lemma set_part_new: "dv_bufs d b \<noteq> Live \<Longrightarrow> moved d (Some (set_part b Live d)) [Kbd_new (dv_id d) b]"
  by (intro movedI) (auto simp: owns_def set_part_def)

lemma free_part_moved: "dv_bufs d b = Live \<Longrightarrow> free_part b d = (set_part b Freed d, [Kbd_free (dv_id d) b]) \<and>
    moved d (Some (set_part b Freed d)) [Kbd_free (dv_id d) b]"
  by (intro conjI movedI) (auto simp: free_part_def owns_def set_part_def)

lemma moved_from: "(\<And>r i. owns r i d0 = owns r i d) \<Longrightarrow> moved d0 od cs \<Longrightarrow> moved d od cs"
  by (simp add: moved_def)

lemma moved_owns: "moved d (Some d1) cs \<Longrightarrow> (\<And>r i. owns r i d' = owns r i d1) \<Longrightarrow> moved d (Some d') cs"
  by (simp add: moved_def)

text \<open>Freeing some parts that are there, and the allocation of the rest.\<close>

lemma free_parts_moved:
  "distinct bs \<Longrightarrow> \<forall>b\<in>set bs. dv_bufs d b = Live \<Longrightarrow> free_parts bs d = (d', cs) \<Longrightarrow>
   moved d (Some d') cs \<and> same_but_parts d d' \<and> dv_kbd d' = dv_kbd d \<and>
   (\<forall>b. dv_bufs d' b = (if b \<in> set bs then Freed else dv_bufs d b))"
proof (induction bs arbitrary: d cs)
  case Nil
  then show ?case by (simp add: moved_refl)
next
  case (Cons b bs)
  have f: "free_part b d = (set_part b Freed d, [Kbd_free (dv_id d) b])"
    "moved d (Some (set_part b Freed d)) [Kbd_free (dv_id d) b]"
    using free_part_moved Cons.prems(2) by auto
  obtain ds where r: "free_parts bs (set_part b Freed d) = (d', ds)" "cs = Kbd_free (dv_id d) b # ds"
    using Cons.prems(3) f(1) by (auto split: prod.splits)
  have IH: "moved (set_part b Freed d) (Some d') ds \<and> same_but_parts d d' \<and> dv_kbd d' = dv_kbd (set_part b Freed d) \<and>
      (\<forall>c. dv_bufs d' c = (if c \<in> set bs then Freed else dv_bufs (set_part b Freed d) c))"
  proof (rule Cons.IH [OF _ _ r(1), simplified])
    show "distinct bs" using Cons.prems(1) by simp
    show "\<forall>c\<in>set bs. (if c = b then Freed else dv_bufs d c) = Live" using Cons.prems(1,2) by auto
  qed
  have "moved d (Some d') cs" using moved_trans [OF f(2)] IH r(2) by fastforce
  then show ?case using IH by (auto simp: set_part_def)
qed

lemma alloc_parts_moved:
  "alloc_parts e got bs d = (good, d', cs) \<Longrightarrow> distinct (got @ bs) \<Longrightarrow> (\<forall>b. dv_bufs d b = Live \<longleftrightarrow> b \<in> set got) \<Longrightarrow>
   moved d (Some d') cs \<and> same_but_parts d d' \<and> dv_kbd d' = dv_kbd d \<and> good = list_all (ie_buf e) bs \<and>
   (\<forall>b. dv_bufs d' b = Live \<longleftrightarrow> good \<and> b \<in> set got \<union> set bs)"
proof (induction bs arbitrary: got d cs)
  case Nil
  then show ?case by (simp add: moved_refl)
next
  case (Cons b bs)
  have nb: "dv_bufs d b \<noteq> Live" using Cons.prems(2,3) by auto
  show ?case
  proof (cases "ie_buf e b")
    case False
    then have f: "free_parts got (set_part b Null d) = (d', cs)" "\<not> good"
      using Cons.prems(1) by (auto split: prod.splits)
    have "moved (set_part b Null d) (Some d') cs \<and> same_but_parts (set_part b Null d) d' \<and>
        dv_kbd d' = dv_kbd (set_part b Null d) \<and>
        (\<forall>c. dv_bufs d' c = (if c \<in> set got then Freed else dv_bufs (set_part b Null d) c))"
    proof (rule free_parts_moved [OF _ _ f(1)])
      show "distinct got" using Cons.prems(2) by simp
      show "\<forall>c\<in>set got. dv_bufs (set_part b Null d) c = Live" using Cons.prems(2,3) by auto
    qed
    then show ?thesis
      using moved_from [of "set_part b Null d" d] set_part_owns [OF nb, of Null] f(2) False Cons.prems(3)
      by (auto simp: set_part_def same_but_parts_def)
  next
    case True
    obtain ds where a: "alloc_parts e (b # got) bs (set_part b Live d) = (good, d', ds)"
      using True Cons.prems(1) by (auto split: prod.splits)
    have IH: "moved (set_part b Live d) (Some d') ds \<and> same_but_parts (set_part b Live d) d' \<and>
        dv_kbd d' = dv_kbd (set_part b Live d) \<and> good = list_all (ie_buf e) bs \<and>
        (\<forall>c. dv_bufs d' c = Live \<longleftrightarrow> good \<and> c \<in> set (b # got) \<union> set bs)"
      using Cons.IH [OF a] Cons.prems(2,3) by auto
    then have "dv_id d' = dv_id d" by (simp add: same_but_parts_def set_part_def)
    then have "cs = [Kbd_new (dv_id d) b] @ ds" using True Cons.prems(1) a by simp
    then have "moved d (Some d') cs" using moved_trans [OF set_part_new [OF nb]] IH by simp
    moreover have "same_but_parts d d'" using IH by simp
    ultimately show ?thesis using IH True by (auto simp: set_part_def)
  qed
qed

lemma event_parts_facts: "distinct event_parts" "set event_parts = UNIV - {Repeat_timer}"
proof -
  have "b \<in> set event_parts" if "b \<noteq> Repeat_timer" for b using that by (cases b) (simp_all add: event_parts_def)
  then show "set event_parts = UNIV - {Repeat_timer}" by (auto simp: event_parts_def)
qed (simp add: event_parts_def)

lemma exit_keyboard:
  assumes "input_exit_keyboard d = (d', cs)" "all_parts d"
  shows "moved d (Some d') cs \<and> same_but_parts d d' \<and> no_parts d'"
proof -
  define d1 where "d1 = set_part Repeat_timer Freed d"
  define d2 where "d2 = (set_part Repeat_timer Null d1)\<lparr>dv_kbd := None\<rparr>"
  have t: "free_part Repeat_timer d = (d1, [Kbd_free (dv_id d) Repeat_timer])"
    "moved d (Some d1) [Kbd_free (dv_id d) Repeat_timer]"
    using free_part_moved assms(2) by (auto simp: d1_def all_parts_def)
  have m2: "moved d (Some d2) [Kbd_free (dv_id d) Repeat_timer]"
    by (rule moved_owns [OF t(2)]) (simp add: d2_def set_part_owns d1_def)
  obtain d3 ds where f: "free_parts (rev event_parts) d2 = (d3, ds)" by fastforce
  have r: "d' = d3" "cs = [Kbd_free (dv_id d) Repeat_timer] @ ds"
    using assms(1) t(1) f by (simp_all add: input_exit_keyboard_def d2_def Let_def)
  have l: "\<forall>b\<in>set (rev event_parts). dv_bufs d2 b = Live"
    using assms(2) by (auto simp: d2_def d1_def set_part_def all_parts_def event_parts_facts)
  have "moved d2 (Some d3) ds \<and> same_but_parts d2 d3 \<and>
      (\<forall>b. dv_bufs d3 b = (if b \<in> set (rev event_parts) then Freed else dv_bufs d2 b))"
    using free_parts_moved [OF _ l f] event_parts_facts by simp
  then show ?thesis
    using moved_trans [OF m2] r by (auto simp: d2_def d1_def no_parts_def event_parts_facts set_part_def same_but_parts_def)
qed

lemma init_keyboard:
  assumes "input_init_keyboard e compose d = (ret, d', cs)" "no_parts d"
  shows "moved d (Some d') cs \<and> same_but_parts d d' \<and> (if ret = ok then all_parts d' else no_parts d') \<and>
    (kbd_possible e compose \<longrightarrow> ret = ok)"
proof -
  obtain good d1 c1 where a: "alloc_parts e [] event_parts d = (good, d1, c1)" by (metis prod_cases3)
  have d1: "moved d (Some d1) c1 \<and> same_but_parts d d1 \<and> dv_kbd d1 = dv_kbd d \<and> good = list_all (ie_buf e) event_parts \<and>
      (\<forall>b. dv_bufs d1 b = Live \<longleftrightarrow> good \<and> b \<in> set [] \<union> set event_parts)"
    using alloc_parts_moved [OF a] assms(2) event_parts_facts by (simp add: no_parts_def)
  have nt: "dv_bufs d1 Repeat_timer \<noteq> Live" using d1 event_parts_facts by auto
  consider (short) "\<not> good" | (fine) kb where "good" "uxkb_dev_init (ie_xkb e) (ie_timer e) compose = Inr kb"
    | (failed) err where "good" "uxkb_dev_init (ie_xkb e) (ie_timer e) compose = Inl err"
    by (cases "uxkb_dev_init (ie_xkb e) (ie_timer e) compose") blast+
  then show ?thesis
  proof cases
    case short
    then have "ret = fails EPERM" "d' = d1" "cs = c1" using assms(1) a by (simp_all add: input_init_keyboard_def)
    then show ?thesis using d1 short by (auto simp: no_parts_def kbd_possible_def)
  next
    case fine
    then have r: "ret = ok" "d' = (set_part Repeat_timer Live d1)\<lparr>dv_kbd := Some kb\<rparr>" "cs = c1 @ [Kbd_new (dv_id d1) Repeat_timer]"
      using assms(1) a by (simp_all add: input_init_keyboard_def)
    have "moved d1 (Some d') [Kbd_new (dv_id d1) Repeat_timer]"
      by (rule moved_owns [OF set_part_new [OF nt]]) (simp add: r)
    then have "moved d (Some d') cs" using moved_trans d1 r(3) by fastforce
    moreover have "all_parts d'" using d1 fine(1) event_parts_facts by (auto simp: all_parts_def r set_part_def)
    ultimately show ?thesis using d1 r by simp
  next
    case failed
    define t where "t = (set_part Repeat_timer Live d1)\<lparr>dv_kbd := None\<rparr>"
    define d2 where "d2 = (if ie_timer e = ok then set_part Repeat_timer Freed t else d1)"
    define ts where "ts = (if ie_timer e = ok then [Kbd_new (dv_id d1) Repeat_timer] @ [Kbd_free (dv_id d1) Repeat_timer] else [])"
    obtain d3 ds where f: "free_parts (rev event_parts) d2 = (d3, ds)" by fastforce
    have i: "dv_id t = dv_id d1" "dv_bufs t Repeat_timer = Live" by (simp_all add: t_def)
    have ft: "free_part Repeat_timer t = (set_part Repeat_timer Freed t, [Kbd_free (dv_id t) Repeat_timer])"
      using free_part_moved [OF i(2)] by blast
    have r: "ret = fails EPERM" "d' = d3" "cs = c1 @ ts @ ds"
      using assms(1) a failed f ft
      by (auto simp: input_init_keyboard_def t_def [symmetric] d2_def ts_def i(1) split: if_splits)
    have "moved d1 (Some t) [Kbd_new (dv_id d1) Repeat_timer]"
      by (rule moved_owns [OF set_part_new [OF nt]]) (simp add: t_def)
    then have "moved d1 (Some (set_part Repeat_timer Freed t)) ([Kbd_new (dv_id d1) Repeat_timer] @ [Kbd_free (dv_id d1) Repeat_timer])"
      using moved_trans free_part_moved [OF i(2)] i(1) by metis
    then have m2: "moved d1 (Some d2) ts" by (auto simp: d2_def ts_def moved_refl)
    have l: "\<forall>b\<in>set (rev event_parts). dv_bufs d2 b = Live"
      using d1 failed(1) event_parts_facts by (auto simp: d2_def t_def set_part_def)
    have d3: "moved d2 (Some d3) ds \<and> same_but_parts d2 d3 \<and>
        (\<forall>b. dv_bufs d3 b = (if b \<in> set (rev event_parts) then Freed else dv_bufs d2 b))"
      using free_parts_moved [OF _ l f] event_parts_facts by simp
    have "moved d (Some d') cs" using moved_trans [OF _ moved_trans [OF m2]] d1 d3 r by fastforce
    moreover have "same_but_parts d1 d2" by (auto simp: d2_def t_def)
    then have "same_but_parts d d'" using same_but_parts_trans d1 d3 r(2) by blast
    moreover have "no_parts d'"
      using d3 nt event_parts_facts by (auto simp: no_parts_def r d2_def t_def set_part_def)
    ultimately show ?thesis using r failed by (auto simp: kbd_possible_def)
  qed
qed

lemma free_dev_moved:
  assumes "dev_inv a d"
  shows "moved d None (input_free_dev d)"
proof -
  obtain d' cs where s: "input_sleep_dev d = (d', cs)" by fastforce
  note d = sleep_dev [OF assms s]
  have gone: "no_parts x \<Longrightarrow> dv_rfd x < 0 \<Longrightarrow> \<not> dv_fd x \<Longrightarrow> moved x None []" for x :: "('a, 'b) input_dev"
    by (intro movedI) (simp_all add: owns_def no_parts_def)
  have "moved d' None (if has (dv_caps d') DEVICE_HAS_KEYS then snd (input_exit_keyboard d') else [])"
  proof (cases "has (dv_caps d') DEVICE_HAS_KEYS")
    case True
    obtain d2 c2 where x: "input_exit_keyboard d' = (d2, c2)" by fastforce
    have "all_parts d'" using True d(2) by (simp add: dev_inv_def)
    note e = exit_keyboard [OF x this]
    have "moved d2 None []" using e d(2,7) by (intro gone) (auto simp: same_but_parts_def dev_inv_def)
    then show ?thesis using moved_trans [of d' d2 c2 None "[]"] e x True by simp
  next
    case False
    then show ?thesis using d(2,7) gone by (simp add: dev_inv_def)
  qed
  from moved_trans [OF d(1) this] show ?thesis
    by (simp add: input_free_dev_def s Let_def split: if_splits)
qed

subsection \<open>Waking up\<close>

lemma wake_up_cases:
  assumes "input_wake_up_dev e d = (ret, d', cs)" "dv_rfd d < 0"
  obtains kb d1 where "input_open_dev e d = (ret, d1, cs)" "d' = d1\<lparr>dv_kbd := kb\<rparr>"
proof -
  obtain r d1 c1 where o: "input_open_dev e d = (r, d1, c1)" by (metis prod_cases3)
  have "ret = r \<and> cs = c1 \<and> (\<exists>kb. d' = d1\<lparr>dv_kbd := kb\<rparr>)"
  proof (cases "r = ok \<and> has (dv_caps d1) DEVICE_HAS_KEYS")
    case True
    then show ?thesis using assms o by (auto simp: input_wake_up_dev_def)
  next
    case False
    then have "ret = r \<and> d' = d1 \<and> cs = c1"
      using assms o by (cases r) (simp_all add: input_wake_up_dev_def)
    moreover have "d1 = d1\<lparr>dv_kbd := dv_kbd d1\<rparr>" by simp
    ultimately show ?thesis by metis
  qed
  then show ?thesis using o that by blast
qed

lemma kbd_dev_inv [simp]: "dev_inv a (d\<lparr>dv_kbd := kb\<rparr>) = dev_inv a d"
  by (simp add: dev_inv_def all_parts_def no_parts_def)

lemma wake_up_dev:
  assumes w: "input_wake_up_dev e d = (ret, d', cs)" and i: "dv_initialized d" "dev_inv a d"
  shows "moved d (Some d') cs" "dev_inv True d'" "dv_id d' = dv_id d"
proof -
  have "moved d (Some d') cs \<and> dev_inv True d' \<and> dv_id d' = dv_id d"
  proof (cases "dv_rfd d \<ge> 0")
    case True
    then have "ret = ok" "d' = d" "cs = []" using w by (simp_all add: input_wake_up_dev_def)
    then show ?thesis using i by (simp add: moved_refl dev_inv_def)
  next
    case False
    have n: "dv_rfd d < 0" using False by simp
    obtain kb d1 where o: "input_open_dev e d = (ret, d1, cs)" and d: "d' = d1\<lparr>dv_kbd := kb\<rparr>"
      by (rule wake_up_cases [OF w n])
    have "moved d (Some d1) cs" using open_dev_moved [OF o] False i(2) by (simp add: dev_inv_def)
    then have "moved d (Some d') cs" by (simp add: d moved_def)
    moreover have "dev_inv True d1" "dv_id d1 = dv_id d"
      using open_dev_cases [OF o] parts_cong [of d1 d] i False by (auto simp: dev_inv_def split: if_splits)
    ultimately show ?thesis by (simp add: d)
  qed
  then show "moved d (Some d') cs" "dev_inv True d'" "dv_id d' = dv_id d" by auto
qed

subsection \<open>Setting up and taking down\<close>

text \<open>A field that carries no resource.\<close>

lemma pointer_owns [simp]: "owns r i (d\<lparr>dv_pointer := p\<rparr>) = owns r i d"
  by (cases r) (simp_all add: owns_def)

lemma caps_owns [simp]: "owns r i (d\<lparr>dv_caps := c\<rparr>) = owns r i d"
  by (cases r) (simp_all add: owns_def)

lemma init_owns [simp]: "owns r i (d\<lparr>dv_initialized := b\<rparr>) = owns r i d"
  by (cases r) (simp_all add: owns_def)

lemma undo_open:
  assumes "input_close_dev (d\<lparr>dv_fd := False\<rparr>) = (d', cs)" "dv_rfd d \<ge> 0" "dv_fd d" "no_parts d"
  shows "moved d None (Fd_rm (dv_id d') # cs)"
proof -
  have "d' = d\<lparr>dv_fd := False, dv_rfd := - 1\<rparr>" "cs = [Dev_close (dv_id d)]"
    using assms(1) by (simp_all add: input_close_dev_def)
  then show ?thesis using assms by (intro movedI) (simp_all add: owns_def no_parts_def)
qed

lemma maybe_keyboard:
  assumes "(if k then input_init_keyboard e compose d else (ok, d, [])) = (ret, d', cs)" "no_parts d"
  shows "moved d (Some d') cs" "if k \<and> ret = ok then all_parts d' else no_parts d'" "same_but_parts d d'"
proof -
  have "moved d (Some d') cs \<and> (if k \<and> ret = ok then all_parts d' else no_parts d') \<and> same_but_parts d d'"
  proof (cases k)
    case True
    then have i: "input_init_keyboard e compose d = (ret, d', cs)" using assms(1) by simp
    show ?thesis using init_keyboard [OF i assms(2)] True by simp
  next
    case False
    then show ?thesis using assms by (auto simp: moved_refl)
  qed
  then show "moved d (Some d') cs" "if k \<and> ret = ok then all_parts d' else no_parts d'" "same_but_parts d d'" by auto
qed

text \<open>The first opening of a device; an error leaves nothing open.\<close>

lemma init_dev:
  assumes e: "input_init_dev e inp d = (ret, d', cs)" and d: "dev_inv a d" "\<not> dv_initialized d"
  shows "moved d (if ret = ok then Some d' else None) cs" "ret = ok \<Longrightarrow> dev_inv True d' \<and> dv_initialized d'" "dv_id d' = dv_id d"
proof -
  have "moved d (if ret = ok then Some d' else None) cs \<and> (ret = ok \<longrightarrow> dev_inv True d' \<and> dv_initialized d') \<and> dv_id d' = dv_id d"
  proof -
    obtain r0 d0 c0 where o: "input_open_dev e d = (r0, d0, c0)" by (metis prod_cases3)
    note d0 = open_dev_cases [OF o]
    have nb: "no_parts d" "\<not> dv_fd d" "dv_rfd d < 0" using d by (auto simp: dev_inv_def)
    then have n0: "no_parts d0" using d0 by (simp add: no_parts_def)
    have m0: "moved d (Some d0) c0" using open_dev_moved [OF o nb(3,2)] .
    define caps where "caps = probe_device_capabilities (ie_bits e (dv_node d0))"
    define d1 where "d1 = d0\<lparr>dv_caps := caps\<rparr>"
    have m1: "moved d (Some d1) c0" using m0 by (rule moved_owns) (simp add: d1_def)
    show ?thesis
    proof (cases "r0 = ok")
      case False
      then have r: "ret = r0" "d' = d0" "cs = c0" using e o by (simp_all add: input_init_dev_def)
      have "moved d0 None []" using d0 False nb n0 by (intro movedI) (simp_all add: owns_def no_parts_def)
      from moved_trans [OF m0 this] show ?thesis using r False d0 by auto
    next
      case True
      then have w: "dv_rfd d1 \<ge> 0" "dv_fd d1" "no_parts d1" "dv_id d1 = dv_id d" using True d0 n0 by (simp_all add: d1_def no_parts_def)
      show ?thesis
      proof (cases "input_can_use (in_mouse inp) caps")
        case False
        obtain y ds where c: "input_close_dev (d1\<lparr>dv_fd := False\<rparr>) = (y, ds)" by fastforce
        have r: "ret = fails ENOTSUP" "d' = y" "cs = c0 @ Fd_rm (dv_id y) # ds"
          using e o True False c by (auto simp: input_init_dev_def caps_def d1_def Let_def)
        have "dv_id y = dv_id d" using c w by (auto simp: input_close_dev_def)
        then show ?thesis using moved_trans [OF m1 undo_open [OF c w(1-3)]] r by simp
      next
        case use: True
        define d2 where "d2 = d1\<lparr>dv_pointer := (dv_pointer d1)\<lparr>ip_pressed := BUTTON_NONE\<rparr>\<rparr>"
        have m2: "moved d (Some d2) c0" using m1 by (rule moved_owns) (simp add: d2_def)
        obtain r3 d3 c3 where k: "(if has caps DEVICE_HAS_KEYS then input_init_keyboard e (in_compose inp) d2 else (ok, d2, [])) = (r3, d3, c3)"
          by (metis prod_cases3)
        have w2: "no_parts d2" and c2: "dv_caps d2 = caps" using w by (simp_all add: d2_def d1_def no_parts_def)
        note k3 = maybe_keyboard [OF k w2]
        have w3: "dv_rfd d3 \<ge> 0" "dv_fd d3" "dv_caps d3 = caps" "dv_id d3 = dv_id d"
          using k3(3) w by (simp_all add: d2_def d1_def same_but_parts_def)
        have m3: "moved d (Some d3) (c0 @ c3)" using moved_trans [OF m2] k3(1) by simp
        show ?thesis
        proof (cases "r3 = ok")
          case False
          obtain y ds where c: "input_close_dev (d3\<lparr>dv_fd := False\<rparr>) = (y, ds)" by fastforce
          have r: "ret = r3" "d' = y" "cs = c0 @ c3 @ Fd_rm (dv_id y) # ds"
            using e o True use False k c
            by (auto simp: input_init_dev_def caps_def [symmetric] d1_def [symmetric] d2_def [symmetric] c2 Let_def)
          have "dv_id y = dv_id d" using c w3 by (auto simp: input_close_dev_def)
          moreover have "moved d None ((c0 @ c3) @ Fd_rm (dv_id y) # ds)"
            using moved_trans [OF m3 undo_open [OF c w3(1,2)]] k3(2) False by simp
          ultimately show ?thesis using r False by auto
        next
          case k_ok: True
          define d4 where "d4 = d3\<lparr>dv_pointer := (dv_pointer d3)\<lparr>ip_kind := input_pointer_kind caps\<rparr>\<rparr>"
          define d5 where "d5 = (if has caps DEVICE_HAS_ABS then input_init_abs e d4 else d4)"
          have r: "ret = ok" "d' = d5\<lparr>dv_initialized := True\<rparr>" "cs = c0 @ c3"
            using e o True use k_ok k w3
            by (auto simp: input_init_dev_def caps_def [symmetric] d1_def [symmetric] d2_def [symmetric] c2 d4_def d5_def Let_def)
          have "moved d (Some d') cs" using m3 unfolding r by (rule moved_owns) (simp add: d5_def d4_def)
          moreover have "dev_inv True d'"
            using k3(2) w3 k_ok parts_cong [of d' d3] by (simp add: r d5_def d4_def dev_inv_def)
          ultimately show ?thesis using r w3 by (simp add: d5_def d4_def)
        qed
      qed
    qed
  qed
  then show "moved d (if ret = ok then Some d' else None) cs" "ret = ok \<Longrightarrow> dev_inv True d' \<and> dv_initialized d'" "dv_id d' = dv_id d"
    by auto
qed

section \<open>Passes over all devices\<close>

locale device_pass =
  fixes f :: "('x, 'c) input_dev \<Rightarrow> ('x, 'c) input_dev option \<times> in_call list"
    and before after :: "('x, 'c) input_dev \<Rightarrow> bool"
  assumes keeps: "before d \<Longrightarrow> f d = (Some d', cs) \<Longrightarrow> after d' \<and> dv_id d' = dv_id d"
    and accounts: "before d \<Longrightarrow> f d = (od, cs) \<Longrightarrow> moved d od cs"
begin

lemma each_keeps:
  "\<forall>d\<in>set ds. before d \<Longrightarrow> each_dev f ds = (ds', cs) \<Longrightarrow>
   (\<forall>d\<in>set ds'. after d) \<and> set (map dv_id ds') \<subseteq> set (map dv_id ds) \<and>
   (distinct (map dv_id ds) \<longrightarrow> distinct (map dv_id ds'))"
proof (induction ds arbitrary: ds' cs)
  case (Cons d ds)
  obtain od c1 es c2 where f: "f d = (od, c1)" "each_dev f ds = (es, c2)" by (metis prod.exhaust)
  have ds': "ds' = (case od of None \<Rightarrow> es | Some d \<Rightarrow> d # es)" using Cons.prems(2) f by simp
  have IH: "(\<forall>d\<in>set es. after d) \<and> set (map dv_id es) \<subseteq> set (map dv_id ds) \<and> (distinct (map dv_id ds) \<longrightarrow> distinct (map dv_id es))"
    using Cons.IH [OF _ f(2)] Cons.prems(1) by simp
  show ?case
  proof (cases od)
    case None
    then show ?thesis using IH ds' by auto
  next
    case (Some d')
    then have "after d' \<and> dv_id d' = dv_id d" using f(1) Cons.prems(1) by (intro keeps) simp_all
    then show ?thesis using IH ds' Some by auto
  qed
qed simp

lemma each_accounts:
  "\<forall>d\<in>set ds. before d \<Longrightarrow> each_dev f ds = (ds', cs) \<Longrightarrow> (\<forall>r i. net r i cs = held r i ds' - held r i ds) \<and> clean cs"
proof (induction ds arbitrary: ds' cs)
  case (Cons d ds)
  obtain od c1 es c2 where f: "f d = (od, c1)" "each_dev f ds = (es, c2)" by (metis prod.exhaust)
  have r: "ds' = (case od of None \<Rightarrow> es | Some d \<Rightarrow> d # es)" "cs = c1 @ c2" using Cons.prems(2) f by simp_all
  have "(\<forall>r i. net r i c2 = held r i es - held r i ds) \<and> clean c2"
    using Cons.IH [OF _ f(2)] Cons.prems(1) by simp
  moreover have "moved d od c1" using Cons.prems(1) by (intro accounts f(1)) simp
  ultimately show ?case by (cases od) (simp_all add: r moved_def)
qed simp

end

lemma sleep_pass:
  assumes "dev_inv a d" "map_prod Some id (input_sleep_dev d) = (od, cs)"
  shows "\<exists>d'. od = Some d' \<and> dev_inv False d' \<and> dv_id d' = dv_id d \<and> moved d (Some d') cs"
proof -
  obtain d' ds where s: "input_sleep_dev d = (d', ds)" by fastforce
  then show ?thesis using assms(2) sleep_dev [OF assms(1) s] by auto
qed

interpretation sleeping: device_pass "\<lambda>d. map_prod Some id (input_sleep_dev d)" "dev_inv a" "dev_inv False" for a
  by unfold_locales (auto dest: sleep_pass)

lemma dev_inv_awake: "dev_inv False d \<Longrightarrow> dev_inv a d"
  by (simp add: dev_inv_def)

lemma wake_pass:
  assumes d: "dev_inv False d" and w: "wake_dev e inp d = (od, cs)"
  shows "moved d od cs \<and> (\<forall>d'. od = Some d' \<longrightarrow> dev_inv True d' \<and> dv_id d' = dv_id d)"
proof -
  obtain r1 d1 c1 where i: "(if \<not> dv_initialized d then input_init_dev e inp d else (ok, d, [])) = (r1, d1, c1)"
    by (metis prod_cases3)
  have d1: "moved d (if r1 = ok then Some d1 else None) c1 \<and> dv_id d1 = dv_id d \<and> (r1 = ok \<longrightarrow> dev_inv True d1 \<and> dv_initialized d1)"
  proof (cases "dv_initialized d")
    case True
    then have "r1 = ok" "d1 = d" "c1 = []" using i by simp_all
    then show ?thesis using True dev_inv_awake [OF d] by (simp add: moved_refl)
  next
    case False
    then have i': "input_init_dev e inp d = (r1, d1, c1)" using i by simp
    show ?thesis using init_dev [OF i' d False] by simp
  qed
  show ?thesis
  proof (cases "r1 = ok")
    case False
    then have "od = None" "cs = c1" using w i by (auto simp: wake_dev_def)
    then show ?thesis using d1 False by auto
  next
    case True
    obtain r2 d2 c2 where u: "input_wake_up_dev e d1 = (r2, d2, c2)" by (metis prod_cases3)
    have d1': "dv_initialized d1" "dev_inv True d1" "moved d (Some d1) c1" using d1 True by simp_all
    note d2 = wake_up_dev [OF u d1'(1,2)]
    have m: "moved d (Some d2) (c1 @ c2)" using moved_trans [OF d1'(3) d2(1)] .
    have "(od, cs) = (if r2 \<noteq> ok then (None, c1 @ c2 @ input_free_dev d2) else (Some d2, c1 @ c2))"
      using w i u True by (simp add: wake_dev_def del: not_None_eq split: if_splits)
    then show ?thesis
      using m moved_trans [OF m free_dev_moved [OF d2(2)]] d1 d2 by (auto split: if_splits)
  qed
qed

interpretation waking: device_pass "wake_dev e inp" "dev_inv False" "dev_inv True" for e inp
  by unfold_locales (auto dest: wake_pass)

lemma has_keys_ready: "dev_inv a d \<Longrightarrow> has (dv_caps d) DEVICE_HAS_KEYS \<Longrightarrow> dv_initialized d \<and> all_parts d"
  by (cases "dv_initialized d") (simp_all add: dev_inv_def)

lemma down_pass:
  assumes d: "dev_inv a d" and f: "down_dev d = (od, cs)"
  shows "\<exists>d'. od = Some d' \<and> down_inv a d' \<and> dv_id d' = dv_id d \<and> moved d (Some d') cs"
proof (cases "has (dv_caps d) DEVICE_HAS_KEYS")
  case False
  then have "od = Some d" "cs = []" using f by (simp_all add: down_dev_def)
  then show ?thesis using False d by (simp add: down_inv_def moved_refl)
next
  case True
  note r = has_keys_ready [OF d True]
  obtain d1 c1 where s: "input_sleep_dev d = (d1, c1)" by fastforce
  note d1 = sleep_dev [OF d s]
  obtain d2 c2 where x: "input_exit_keyboard d1 = (d2, c2)" by fastforce
  have "od = Some d2" "cs = c1 @ c2" using f s x True by (simp_all add: down_dev_def)
  moreover have e: "moved d1 (Some d2) c2 \<and> same_but_parts d1 d2 \<and> no_parts d2"
    using exit_keyboard [OF x] d1(5) r by (simp add: all_parts_def)
  moreover have "down_inv a d2" "dv_id d2 = dv_id d"
    using e d1(2-7) r True by (simp_all add: down_inv_def dev_inv_def same_but_parts_def)
  ultimately show ?thesis using moved_trans [OF d1(1)] by simp
qed

interpretation keymap_down: device_pass down_dev "dev_inv a" "down_inv a" for a
  by unfold_locales (auto dest: down_pass)

lemma up_pass:
  assumes k: "kbd_possible e False" and d: "down_inv a d" and f: "up_dev e a d = (od, cs)"
  shows "\<exists>d'. od = Some d' \<and> dev_inv a d' \<and> dv_id d' = dv_id d \<and> moved d (Some d') cs"
proof (cases "has (dv_caps d) DEVICE_HAS_KEYS")
  case False
  then have "od = Some d" "cs = []" using f by (simp_all add: up_dev_def)
  then show ?thesis using False d by (simp add: down_inv_def moved_refl)
next
  case True
  have w: "dv_initialized d" "dv_rfd d < 0" "\<not> dv_fd d" "no_parts d" using d True by (simp_all add: down_inv_def)
  obtain r1 d1 c1 where i: "input_init_keyboard e False d = (r1, d1, c1)" by (metis prod_cases3)
  have d1: "dv_initialized d1" "dev_inv a d1" "dv_id d1 = dv_id d" "moved d (Some d1) c1"
    using init_keyboard [OF i w(4)] k w(1-3) True by (simp_all add: dev_inv_def same_but_parts_def)
  obtain r2 d2 c2 where u: "(if a then input_wake_up_dev e d1 else (ok, d1, [])) = (r2, d2, c2)" by (metis prod_cases3)
  have d2: "dev_inv a d2 \<and> dv_id d2 = dv_id d1 \<and> moved d1 (Some d2) c2"
  proof (cases a)
    case True
    then have "input_wake_up_dev e d1 = (r2, d2, c2)" using u by simp
    from wake_up_dev [OF this d1(1,2)] show ?thesis using True by simp
  next
    case False
    then show ?thesis using u d1 by (auto simp: moved_refl)
  qed
  have "od = Some d2" "cs = c1 @ c2" using f i u True by (simp_all add: up_dev_def)
  then show ?thesis using d1 d2 moved_trans [OF d1(4)] by auto
qed

interpretation keymap_up: device_pass "up_dev e a" "\<lambda>d. kbd_possible e False \<and> down_inv a d" "dev_inv a" for e a
  by unfold_locales (auto dest: up_pass)

section \<open>The books of the input\<close>

definition books :: "('x, 'c) input \<Rightarrow> bool" where
  "books inp \<longleftrightarrow> (\<forall>r i. net r i (in_calls inp) = held r i (in_devices inp)) \<and> clean (in_calls inp)"

definition numbered :: "('x, 'c) input \<Rightarrow> bool" where
  "numbered inp \<longleftrightarrow> distinct (map dv_id (in_devices inp)) \<and> (\<forall>d\<in>set (in_devices inp). dv_id d < in_next inp)"

text \<open>The last reference takes the devices along.\<close>

definition in_inv :: "('x, 'c) input \<Rightarrow> bool" where
  "in_inv inp \<longleftrightarrow> books inp \<and> numbered inp \<and> in_awake inp \<ge> 0 \<and>
     (if in_ref inp = 0 then in_devices inp = [] else in_ctx inp) \<and>
     (\<forall>d\<in>set (in_devices inp). dev_inv (in_awake inp > 0) d)"

context device_pass
begin

lemma pass_keeps:
  fixes inp :: "('x, 'c) input"
  assumes b: "\<forall>d\<in>set (in_devices inp). before d" and k: "books inp" "numbered inp"
  shows "books (run_devs f inp) \<and> numbered (run_devs f inp) \<and> (\<forall>d\<in>set (in_devices (run_devs f inp)). after d) \<and>
    in_awake (run_devs f inp) = in_awake inp \<and> in_ctx (run_devs f inp) = in_ctx inp \<and>
    in_ref (run_devs f inp) = in_ref inp"
proof -
  obtain ds cs where e: "each_dev f (in_devices inp) = (ds, cs)" by fastforce
  have "run_devs f inp = log_calls cs (inp\<lparr>in_devices := ds\<rparr>)" by (simp add: run_devs_def e)
  moreover note each_keeps [OF b e] each_accounts [OF b e]
  ultimately show ?thesis using k by (auto simp: books_def numbered_def log_calls_def)
qed

end

lemma distinct_head: "distinct (map g (x # xs)) \<Longrightarrow> y \<in> set xs \<Longrightarrow> g y \<noteq> g x"
  by (metis distinct.simps(2) imageI list.set_map list.simps(9))

lemma held_drop:
  "distinct (map dv_id ds) \<Longrightarrow> find (\<lambda>d. dv_id d = j) ds = Some d \<Longrightarrow>
   held r i (filter (\<lambda>d. dv_id d \<noteq> j) ds) = held r i ds - owns r i d"
proof (induction ds)
  case (Cons x xs)
  show ?case
  proof (cases "dv_id x = j")
    case True
    then have "filter (\<lambda>d. dv_id d \<noteq> j) xs = xs" using distinct_head [OF Cons.prems(1)] by (simp add: filter_id_conv)
    then show ?thesis using True Cons.prems(2) by simp
  next
    case False
    then show ?thesis using Cons by simp
  qed
qed simp

lemma held_put:
  "distinct (map dv_id ds) \<Longrightarrow> find (\<lambda>d. dv_id d = dv_id d') ds = Some d \<Longrightarrow>
   held r i (map (\<lambda>d. if dv_id d = dv_id d' then d' else d) ds) = held r i ds - owns r i d + owns r i d'"
proof (induction ds)
  case (Cons x xs)
  show ?case
  proof (cases "dv_id x = dv_id d'")
    case True
    then have "map (\<lambda>d. if dv_id d = dv_id d' then d' else d) xs = xs" using distinct_head [OF Cons.prems(1)] by (intro map_idI) simp
    then show ?thesis using True Cons.prems(2) by simp
  next
    case False
    then show ?thesis using Cons by simp
  qed
qed simp

section \<open>Events do not touch the resources\<close>

definition same_dev :: "('x, 'c) input_dev \<Rightarrow> ('x, 'c) input_dev \<Rightarrow> bool" where
  "same_dev d d' \<longleftrightarrow> dv_id d' = dv_id d \<and> dv_rfd d' = dv_rfd d \<and> dv_fd d' = dv_fd d \<and> dv_bufs d' = dv_bufs d \<and>
     dv_caps d' = dv_caps d \<and> dv_initialized d' = dv_initialized d"

definition quiet :: "in_call list \<Rightarrow> bool" where
  "quiet cs \<longleftrightarrow> (\<forall>c\<in>set cs. \<forall>r i. delta r i c = 0) \<and> clean cs"

lemma quiet_simps [simp]:
  "quiet []" "quiet (Call_key k # cs) = quiet cs" "quiet (Call_pointer p # cs) = quiet cs"
  "quiet (Hide_timer_restart # cs) = quiet cs" "quiet (cs @ ds) \<longleftrightarrow> quiet cs \<and> quiet ds" "quiet (map Call_pointer ps)"
  by (auto simp: quiet_def clean_def ball_Un)

lemma same_dev_simps [simp]:
  "same_dev d d" "same_dev d (d'\<lparr>dv_kbd := kb\<rparr>) = same_dev d d'" "same_dev d (d'\<lparr>dv_pointer := p\<rparr>) = same_dev d d'"
  by (simp_all add: same_dev_def)

lemma same_dev_trans: "same_dev d d' \<Longrightarrow> same_dev d' d'' \<Longrightarrow> same_dev d d''"
  by (simp add: same_dev_def)

lemma quiet_net: "quiet cs \<Longrightarrow> net r i cs = 0"
  by (induction cs) (simp_all add: quiet_def)

lemma same_owns: "same_dev d d' \<Longrightarrow> owns r i d' = owns r i d"
  by (cases r) (simp_all add: same_dev_def owns_def)

lemma quiet_moved: "same_dev d d' \<Longrightarrow> quiet cs \<Longrightarrow> moved d (Some d') cs"
  by (simp add: moved_def quiet_net same_owns) (simp add: quiet_def)

lemma same_inv: "same_dev d d' \<Longrightarrow> dev_inv a d' = dev_inv a d"
  by (simp add: same_dev_def dev_inv_def all_parts_def no_parts_def)

lemma notify_key_quiet: "notify_key e c v d = Some (d', cs) \<Longrightarrow> same_dev d d' \<and> quiet cs"
  by (auto simp: notify_key_def split: option.splits if_splits prod.splits)

lemma notify_event_quiet: "notify_event e mx my ev d = Some (d', cs) \<Longrightarrow> same_dev d d' \<and> quiet cs"
  by (auto simp: notify_event_def Let_def dest!: notify_key_quiet split: option.splits if_splits prod.splits)

lemma notify_events_quiet: "notify_events e mx my evs d = Some (d', cs) \<Longrightarrow> same_dev d d' \<and> quiet cs"
proof (induction evs arbitrary: d cs)
  case (Cons ev evs)
  from Cons.prems obtain d1 c1 c2 where n: "notify_event e mx my ev d = Some (d1, c1)"
    "notify_events e mx my evs d1 = Some (d', c2)" "cs = c1 @ c2"
    by (auto split: option.splits prod.splits)
  have "same_dev d d1 \<and> quiet c1" "same_dev d1 d' \<and> quiet c2"
    using notify_event_quiet [OF n(1)] Cons.IH [OF n(2)] by simp_all
  then show ?case using same_dev_trans [of d d1 d'] n(3) by simp
qed simp

lemma read_loop_moved:
  "input_read_loop e mx my rs d = Some (od, cs) \<Longrightarrow> dev_inv a d \<Longrightarrow>
   moved d od cs \<and> (\<forall>d'. od = Some d' \<longrightarrow> same_dev d d')"
proof (induction rs arbitrary: d cs)
  case (Cons r rs)
  show ?case
  proof (cases r)
    case (Read_events evs)
    with Cons.prems(1) obtain d1 c1 where n: "notify_events e mx my evs d = Some (d1, c1)"
      by (auto split: option.splits)
    note q = notify_events_quiet [OF n]
    show ?thesis
    proof (cases "length evs = 16")
      case False
      then have "od = Some d1" "cs = c1" using Cons.prems(1) Read_events n by simp_all
      then show ?thesis using q quiet_moved by auto
    next
      case True
      then obtain c2 where "input_read_loop e mx my rs d1 = Some (od, c2)" "cs = c1 @ c2"
        using Cons.prems(1) Read_events n by (auto split: option.splits)
      moreover have "dev_inv a d1" using same_inv q Cons.prems(2) by blast
      ultimately have "moved d1 od c2" "\<forall>d'. od = Some d' \<longrightarrow> same_dev d1 d'" "cs = c1 @ c2"
        using Cons.IH by auto
      moreover have "moved d (Some d1) c1" using q quiet_moved by blast
      ultimately show ?thesis using moved_trans same_dev_trans q by metis
    qed
  qed (use Cons.prems free_dev_moved moved_refl in auto)
qed (auto simp: moved_refl)

section \<open>Runs\<close>

datatype ('x, 'c) in_op =
    Op_add "('x, 'c) input_env" string
  | Op_remove nat
  | Op_wake "('x, 'c) input_env"
  | Op_sleep
  | Op_data "('x, 'c) input_env" bool "dev_read list" nat
  | Op_keymap "('x, 'c) input_env"
  | Op_bounds u32 u32
  | Op_conf u32 u32 bool
  | Op_ref
  | Op_unref

fun in_do :: "('x, 'c) in_op \<Rightarrow> ('x, 'c) input \<Rightarrow> ('x, 'c) input option" where
  "in_do (Op_add e node) inp = Some (snd (input_add_dev e node inp))"
| "in_do (Op_remove i) inp = Some (input_remove_dev i inp)"
| "in_do (Op_wake e) inp = Some (input_wake_up e inp)"
| "in_do Op_sleep inp = Some (input_sleep inp)"
| "in_do (Op_data e hup reads i) inp = input_data_dev e hup reads i inp"
| "in_do (Op_keymap e) inp = Some (input_update_keymap e True inp)"
| "in_do (Op_bounds x y) inp = Some (input_set_pointer_max x y inp)"
| "in_do (Op_conf d r m) inp = Some (input_set_conf d r m inp)"
| "in_do Op_ref inp = Some (input_ref inp)"
| "in_do Op_unref inp = Some (input_unref inp)"

text \<open>
  The callers hold a reference, the input is put to sleep only while it is awake, and an update of
  the keymap finds memory, a timer and a state for every keyboard.
\<close>

definition in_allowed :: "('x, 'c) in_op \<Rightarrow> ('x, 'c) input \<Rightarrow> bool" where
  "in_allowed op inp \<longleftrightarrow> in_ref inp > 0 \<and>
     (case op of
        Op_sleep \<Rightarrow> in_awake inp > 0
      | Op_keymap e \<Rightarrow> kbd_possible e False
      | _ \<Rightarrow> True)"

inductive in_reach :: "('x, 'c) input \<Rightarrow> bool" where
  start: "input_new steps mem = Inr inp \<Longrightarrow> input_set_keymap True inp = (ok, inp') \<Longrightarrow> in_reach inp'"
| step: "in_reach inp \<Longrightarrow> in_allowed op inp \<Longrightarrow> in_do op inp = Some inp' \<Longrightarrow> in_reach inp'"

lemma dropped:
  assumes i: "in_inv inp" and f: "find_dev i inp = Some d" and m: "moved d None cs"
  shows "in_inv (log_calls cs (drop_dev i inp))"
proof -
  have "distinct (map dv_id (in_devices inp))" using i by (simp add: in_inv_def numbered_def)
  note h = held_drop [OF this f [unfolded find_dev_def]]
  show ?thesis
    using i m
    by (auto simp: in_inv_def books_def numbered_def log_calls_def drop_dev_def moved_def h distinct_map_filter)
qed

lemma replaced:
  assumes i: "in_inv inp" and f: "find_dev i inp = Some d" and m: "moved d (Some d') cs" and s: "same_dev d d'"
  shows "in_inv (log_calls cs (put_dev d' inp))"
proof -
  have dist: "distinct (map dv_id (in_devices inp))" using i by (simp add: in_inv_def numbered_def)
  have d: "d \<in> set (in_devices inp)" "dv_id d = i"
    using f by (auto simp: find_dev_def find_Some_iff)
  have f': "find (\<lambda>x. dv_id x = dv_id d') (in_devices inp) = Some d"
    using f s d(2) by (simp add: find_dev_def same_dev_def)
  note h = held_put [OF dist f']
  have ids: "dv_id \<circ> (\<lambda>x. if dv_id x = dv_id d' then d' else x) = dv_id" by auto
  have "dev_inv a d' = dev_inv a d" for a using s by (rule same_inv)
  then have "\<forall>x\<in>set (in_devices (put_dev d' inp)). dev_inv (in_awake inp > 0) x"
    using i d(1) by (auto simp: in_inv_def put_dev_def)
  moreover have "\<forall>x\<in>set (in_devices (put_dev d' inp)). dv_id x < in_next inp"
    using i d s by (auto simp: in_inv_def numbered_def put_dev_def same_dev_def)
  ultimately show ?thesis
    using i m ids dist by (simp add: in_inv_def books_def numbered_def log_calls_def put_dev_def moved_def h)
qed

lemma in_inv_pass_facts:
  "in_inv inp \<Longrightarrow> books inp \<and> numbered inp \<and> (\<forall>d\<in>set (in_devices inp). dev_inv (in_awake inp > 0) d)"
  by (simp add: in_inv_def)

lemma sleep_inv: "in_inv inp \<Longrightarrow> in_ref inp > 0 \<Longrightarrow> in_awake inp > 0 \<Longrightarrow> in_inv (input_sleep inp)"
proof -
  assume i: "in_inv inp" and r: "in_ref inp > 0" and a: "in_awake inp > 0"
  define p where "p = inp\<lparr>in_awake := in_awake inp - 1\<rparr>"
  have b: "books p" "numbered p" "\<forall>d\<in>set (in_devices p). dev_inv True d" "in_ctx p" "in_ref p > 0"
    using i r a by (simp_all add: p_def in_inv_def books_def numbered_def)
  show ?thesis
  proof (cases "in_awake p = 0")
    case True
    then show ?thesis
      using sleeping.pass_keeps [OF b(3,1,2)] b(4,5) by (simp add: input_sleep_def p_def [symmetric] in_inv_def)
  next
    case False
    then have "in_awake p > 0" using a by (simp add: p_def)
    then show ?thesis using b by (simp add: input_sleep_def p_def [symmetric] in_inv_def)
  qed
qed

lemma wake_inv: "in_inv inp \<Longrightarrow> in_ref inp > 0 \<Longrightarrow> in_inv (input_wake_up e inp)"
proof -
  assume i: "in_inv inp" and r: "in_ref inp > 0"
  define p where "p = inp\<lparr>in_awake := in_awake inp + 1\<rparr>"
  have b: "books p" "numbered p" "\<forall>d\<in>set (in_devices p). dev_inv (in_awake inp > 0) d" "in_ctx p" "in_awake p > 0"
    "in_ref p > 0"
    using i r by (simp_all add: p_def in_inv_def books_def numbered_def)
  show ?thesis
  proof (cases "in_awake p = 1")
    case True
    then have s: "\<forall>d\<in>set (in_devices p). dev_inv False d" using b(3) by (simp add: p_def)
    show ?thesis
      using waking.pass_keeps [OF s b(1,2)] b(4,6) True by (simp add: input_wake_up_def p_def [symmetric] in_inv_def)
  next
    case False
    then have "in_awake inp > 0" using b(5) by (simp add: p_def)
    then show ?thesis using b False by (simp add: input_wake_up_def p_def [symmetric] in_inv_def)
  qed
qed

lemma keymap_inv: "in_inv inp \<Longrightarrow> in_ref inp > 0 \<Longrightarrow> kbd_possible e False \<Longrightarrow> in_inv (input_update_keymap e True inp)"
proof -
  assume i: "in_inv inp" and r: "in_ref inp > 0" and k: "kbd_possible e False"
  have b: "books inp" "numbered inp" "\<forall>d\<in>set (in_devices inp). dev_inv (in_awake inp > 0) d" "in_ctx inp" "in_awake inp \<ge> 0"
    using i r by (simp_all add: in_inv_def)
  define p where "p = run_devs down_dev inp"
  define q where "q = p\<lparr>in_ctx := True, in_compose := False\<rparr>"
  note d = keymap_down.pass_keeps [OF b(3,1,2), folded p_def]
  have q: "books q" "numbered q" "in_awake q = in_awake inp" "in_ref q > 0"
    "\<forall>d\<in>set (in_devices q). kbd_possible e False \<and> down_inv (in_awake inp > 0) d"
    using d k r by (simp_all add: q_def books_def numbered_def)
  have a: "(in_awake inp \<noteq> 0) = (in_awake inp > 0)" using b(5) by auto
  have "input_update_keymap e True inp = run_devs (up_dev e (in_awake inp > 0)) q"
    using b(4) d by (simp add: input_update_keymap_def p_def [symmetric] q_def [symmetric] a [symmetric] q(3))
  then show ?thesis
    using keymap_up.pass_keeps [OF q(5,1,2)] q(3,4) b(5) by (simp add: in_inv_def q_def)
qed

lemma new_dev_inv:
  "d = input_new_dev i node \<Longrightarrow> dev_inv a d \<and> \<not> dv_initialized d \<and> dv_id d = i \<and> owns r j d = 0"
  by (cases r) (simp_all add: input_new_dev_def dev_inv_def owns_def no_parts_def)

lemma linked_inv:
  assumes i: "in_inv inp" and d: "dev_inv (in_awake inp > 0) d" "dv_id d = in_next inp"
    and r: "in_ref inp > 0" and n: "\<And>r i. net r i cs = owns r i d" "clean cs"
  shows "in_inv (log_calls cs (inp\<lparr>in_next := in_next inp + 1, in_devices := d # in_devices inp\<rparr>))"
  using i d r n by (auto simp: in_inv_def books_def numbered_def log_calls_def less_Suc_eq)

lemma add_inv: "in_inv inp \<Longrightarrow> in_ref inp > 0 \<Longrightarrow> in_inv (snd (input_add_dev e node inp))"
proof -
  assume i: "in_inv inp" and r: "in_ref inp > 0"
  define d where "d = (input_new_dev (in_next inp) node :: ('a, 'b) input_dev)"
  have d: "dev_inv (in_awake inp > 0) d" "\<not> dv_initialized d" "dv_id d = in_next inp" "\<And>r i. owns r i d = 0"
    using new_dev_inv [OF d_def] by simp_all
  define p where "p = inp\<lparr>in_next := in_next inp + 1\<rparr>"
  have p: "in_inv p" using i by (auto simp: p_def in_inv_def books_def numbered_def)
  have sp: "inp\<lparr>in_next := Suc (in_next inp)\<rparr> = p" "in_awake p = in_awake inp" by (simp_all add: p_def)
  consider (mem) "\<not> ie_mem e" | (asleep) "ie_mem e" "\<not> in_awake inp > 0" | (awake) "ie_mem e" "in_awake inp > 0" by blast
  then show ?thesis
  proof cases
    case mem
    then show ?thesis using i by (simp add: input_add_dev_def)
  next
    case asleep
    then have "snd (input_add_dev e node inp) = log_calls [] (inp\<lparr>in_next := in_next inp + 1, in_devices := d # in_devices inp\<rparr>)"
      by (simp add: input_add_dev_def d_def log_calls_def Let_def)
    then show ?thesis using linked_inv [OF i d(1,3) r] d(4) by simp
  next
    case awake
    obtain r d1 cs where n: "input_init_dev e p d = (r, d1, cs)" by (metis prod_cases3)
    note n1 = init_dev [OF n d(1,2)]
    show ?thesis
    proof (cases "r = ok")
      case True
      then have "snd (input_add_dev e node inp) = log_calls cs (inp\<lparr>in_next := in_next inp + 1, in_devices := d1 # in_devices inp\<rparr>)"
        using awake n by (simp add: input_add_dev_def d_def [symmetric] sp Let_def) (simp add: p_def)
      then show ?thesis
        using linked_inv [OF i _ _ r, of d1 cs] n1 awake True d(3,4) by (simp add: moved_def)
    next
      case False
      then have "snd (input_add_dev e node inp) = log_calls cs p"
        using awake n by (auto simp: input_add_dev_def d_def [symmetric] sp Let_def)
      moreover have "moved d None cs" using n1(1) False by (simp del: not_None_eq)
      ultimately show ?thesis using p d(4) by (simp add: moved_def in_inv_def books_def numbered_def log_calls_def)
    qed
  qed
qed

lemma freed_devices:
  "\<forall>d\<in>set ds. dev_inv a d \<Longrightarrow> net r i (concat (map input_free_dev ds)) = - held r i ds \<and> clean (concat (map input_free_dev ds))"
  using free_dev_moved by (induction ds) (auto simp: moved_def)

lemma unref_inv: "in_inv inp \<Longrightarrow> in_inv (input_unref inp)"
proof -
  assume i: "in_inv inp"
  then have "\<forall>d\<in>set (in_devices inp). dev_inv (in_awake inp > 0) d" by (simp add: in_inv_def)
  note f = freed_devices [OF this]
  show ?thesis
    using i f by (auto simp: input_unref_def in_inv_def books_def numbered_def log_calls_def)
qed

lemma find_dev_inv: "in_inv inp \<Longrightarrow> find_dev i inp = Some d \<Longrightarrow> dev_inv (in_awake inp > 0) d"
  by (auto simp: in_inv_def find_dev_def find_Some_iff)

lemma in_do_inv:
  assumes i: "in_inv inp" and a: "in_allowed op inp" and s: "in_do op inp = Some inp'"
  shows "in_inv inp'"
proof (cases op)
  case Op_ref
  then show ?thesis using s i by (auto simp: input_ref_def in_inv_def books_def numbered_def)
next
  case Op_unref
  then show ?thesis using s unref_inv [OF i] by simp
next
  case (Op_remove j)
  then show ?thesis
    using s i dropped [OF i _ free_dev_moved [OF find_dev_inv [OF i]]]
    by (auto simp: input_remove_dev_def split: option.splits)
next
  case (Op_data e hup reads j)
  show ?thesis
  proof (cases "find_dev j inp")
    case None
    then show ?thesis using s i Op_data by (simp add: input_data_dev_def)
  next
    case (Some d)
    note di = find_dev_inv [OF i Some]
    show ?thesis
    proof (cases hup)
      case True
      then show ?thesis using s Op_data Some dropped [OF i Some free_dev_moved [OF di]] by (simp add: input_data_dev_def)
    next
      case False
      then obtain od cs where r: "input_read_loop e (in_max_x inp) (in_max_y inp) reads d = Some (od, cs)"
        using s Op_data Some by (auto simp: input_data_dev_def split: option.splits)
      note m = read_loop_moved [OF r di]
      show ?thesis
      proof (cases od)
        case None
        then show ?thesis
          using s Op_data \<open>find_dev j inp = Some d\<close> False r dropped [OF i \<open>find_dev j inp = Some d\<close>] m
          by (auto simp: input_data_dev_def)
      next
        case (Some d')
        then show ?thesis
          using s Op_data \<open>find_dev j inp = Some d\<close> False r replaced [OF i \<open>find_dev j inp = Some d\<close>] m
          by (auto simp: input_data_dev_def)
      qed
    qed
  qed
next
  case (Op_bounds x y)
  then show ?thesis using s i by (auto simp: input_set_pointer_max_def in_inv_def books_def numbered_def)
next
  case (Op_conf x y z)
  then show ?thesis using s i by (auto simp: input_set_conf_def in_inv_def books_def numbered_def Let_def)
qed (use assms add_inv wake_inv sleep_inv keymap_inv in \<open>auto simp: in_allowed_def\<close>)

lemma in_reach_inv: "in_reach inp \<Longrightarrow> in_inv inp"
proof (induction rule: in_reach.induct)
  case (start steps mem inp inp')
  then show ?case
    by (auto simp: input_new_def input_set_keymap_def in_inv_def books_def numbered_def split: if_splits option.splits)
next
  case (step inp op inp')
  then show ?case using in_do_inv by blast
qed

fun in_run :: "('x, 'c) in_op list \<Rightarrow> ('x, 'c) input \<Rightarrow> ('x, 'c) input option" where
  "in_run [] inp = Some inp"
| "in_run (op # ops) inp = (if in_allowed op inp then Option.bind (in_do op inp) (in_run ops) else None)"

lemma in_run_reach: "in_run ops inp = Some inp' \<Longrightarrow> in_reach inp \<Longrightarrow> in_reach inp'"
  by (induction ops arbitrary: inp) (auto split: if_splits bind_splits intro: in_reach.step)

text \<open>An environment with one keyboard and one touchscreen, and an input on it that is awake.\<close>

definition demo_bits :: "string \<Rightarrow> dev_bits" where
  "demo_bits node =
     (if node = ''kbd''
      then \<lparr>db_ev = Some (\<lambda>i. i \<in> {EV_SYN, EV_KEY}), db_key = Some (\<lambda>k. k = 30), db_rel = None, db_abs = None, db_prop = None\<rparr>
      else \<lparr>db_ev = Some (\<lambda>i. i \<in> {EV_SYN, EV_KEY, EV_ABS}), db_key = Some (\<lambda>k. k = BTN_TOUCH), db_rel = None,
            db_abs = Some (\<lambda>i. i \<in> {ABS_X, ABS_Y}), db_prop = Some (\<lambda>i. i = 1)\<rparr>)"

definition demo_input_env :: "bool \<Rightarrow> int \<Rightarrow> (bool, unit) input_env" where
  "demo_input_env mem hi =
     \<lparr>ie_xkb = toy_xkb True, ie_mem = True, ie_buf = (\<lambda>b. mem), ie_open = (\<lambda>node. 5), ie_new_fd = ok, ie_bits = demo_bits,
      ie_abs = (\<lambda>node. (Some (0, hi), Some (0, hi))), ie_timer = ok, ie_now = (0, 0)\<rparr>"

definition demo_input :: "(bool, unit) input" where
  "demo_input = \<lparr>in_ref = 1, in_awake = 0, in_repeat_rate = 0, in_repeat_delay = 0, in_ctx = True, in_compose = False,
     in_mouse = False, in_max_x = 0, in_max_y = 0, in_devices = [], in_next = 0, in_calls = []\<rparr>"

lemma demo_input_reach: "in_reach demo_input"
  by (rule in_reach.start [of "[]" True "demo_input\<lparr>in_ctx := False\<rparr>"])
    (simp_all add: input_new_def input_set_keymap_def demo_input_def)

definition demo_keyboard :: "(bool, unit) input_dev" where
  "demo_keyboard = \<lparr>dv_id = 0, dv_node = ''kbd'', dv_initialized = True, dv_caps = DEVICE_HAS_KEYS, dv_rfd = 5, dv_fd = True,
     dv_bufs = (\<lambda>b. Live), dv_kbd = Some toy_keyboard, dv_pointer = zero_pointer\<lparr>ip_pressed := BUTTON_NONE\<rparr>\<rparr>"

definition made_keyboard :: "in_call list" where
  "made_keyboard = [Kbd_new 0 Event_syms, Kbd_new 0 Event_points, Kbd_new 0 Repeat_syms, Kbd_new 0 Repeat_points,
     Kbd_new 0 Repeat_timer]"

definition freed_keyboard :: "in_call list" where
  "freed_keyboard = [Kbd_free 0 Repeat_timer, Kbd_free 0 Repeat_points, Kbd_free 0 Repeat_syms, Kbd_free 0 Event_points,
     Kbd_free 0 Event_syms]"

definition demo_awake :: "(bool, unit) input" where
  "demo_awake = demo_input\<lparr>in_awake := 1, in_devices := [demo_keyboard], in_next := 1,
     in_calls := [Dev_open 0, Fd_new 0] @ made_keyboard\<rparr>"

lemma toy_keyboard_new: "uxkb_dev_init (toy_xkb True) None c = Inr toy_keyboard"
  by (simp add: uxkb_dev_init_def toy_xkb_def toy_keyboard_def)

lemma keyboard_caps: "probe_device_capabilities (demo_bits ''kbd'') = DEVICE_HAS_KEYS"
  by (simp add: probe_device_capabilities_def demo_bits_def key_caps_def list_ex_iff)

lemma all_live:
  "(\<lambda>b. Null)(Event_syms := Live, Event_points := Live, Repeat_syms := Live, Repeat_points := Live, Repeat_timer := Live) =
   (\<lambda>b. Live)"
proof
  fix b
  show "((\<lambda>b. Null)(Event_syms := Live, Event_points := Live, Repeat_syms := Live, Repeat_points := Live,
      Repeat_timer := Live)) b = Live"
    by (cases b) simp_all
qed

lemma demo_awake_run: "in_run [Op_wake (demo_input_env True 100), Op_add (demo_input_env True 100) ''kbd''] demo_input = Some demo_awake"
  by (simp add: demo_input_def demo_awake_def demo_keyboard_def input_wake_up_def run_devs_def log_calls_def input_add_dev_def
      input_init_dev_def input_open_dev_def input_new_dev_def demo_input_env_def keyboard_caps input_can_use_def has_all_def
      input_init_keyboard_def event_parts_def set_part_def all_live made_keyboard_def in_allowed_def toy_keyboard_new
      input_pointer_kind_def has_def zero_pointer_def)

lemma demo_awake_reach: "in_reach demo_awake"
  by (rule in_run_reach [OF demo_awake_run demo_input_reach])

section \<open>What holds in every run\<close>

text \<open>
  Property C32. In every run of the input a device file is open exactly while the event loop watches
  it; then the device has been set up and the input is awake, so a sleeping input has nothing open.
  A keyboard that is set up has its four buffers and its timer, and no other device has any of them.
  The runs are those in which an update of the keymap succeeds in setting every keyboard up again;
  \<open>keymap_update_can_free_twice\<close> is a run outside of them.
\<close>

theorem open_devices_are_watched:
  assumes "in_reach inp" "d \<in> set (in_devices inp)"
  shows "(dv_rfd d \<ge> 0) = dv_fd d \<and> (dv_fd d \<longrightarrow> dv_initialized d \<and> input_is_awake inp) \<and>
    (\<forall>b. (dv_bufs d b = Live) = (dv_initialized d \<and> has (dv_caps d) DEVICE_HAS_KEYS))"
proof -
  have "dev_inv (in_awake inp > 0) d" using in_reach_inv [OF assms(1)] assms(2) by (simp add: in_inv_def)
  then show ?thesis
    by (cases "dv_initialized d")
      (auto simp: dev_inv_def input_is_awake_def all_parts_def no_parts_def split: if_splits)
qed

theorem open_devices_are_watched_witness:
  "(dv_rfd demo_keyboard \<ge> 0) = dv_fd demo_keyboard \<and> dv_initialized demo_keyboard \<and> input_is_awake demo_awake \<and>
   (dv_bufs demo_keyboard Repeat_timer = Live) = has (dv_caps demo_keyboard) DEVICE_HAS_KEYS"
  using open_devices_are_watched [OF demo_awake_reach, of demo_keyboard]
  by (simp add: demo_awake_def demo_input_def demo_keyboard_def input_is_awake_def)

lemma net_counts:
  "net Res_node i cs = int (count_list cs (Dev_open i)) - int (count_list cs (Dev_close i))"
  "net Res_fd i cs = int (count_list cs (Fd_new i)) - int (count_list cs (Fd_rm i))"
  "net (Res_part b) i cs = int (count_list cs (Kbd_new i b)) - int (count_list cs (Kbd_free i b))"
proof -
  have "net Res_node i cs = int (count_list cs (Dev_open i)) - int (count_list cs (Dev_close i)) \<and>
    net Res_fd i cs = int (count_list cs (Fd_new i)) - int (count_list cs (Fd_rm i)) \<and>
    net (Res_part b) i cs = int (count_list cs (Kbd_new i b)) - int (count_list cs (Kbd_free i b))"
  proof (induction cs)
    case (Cons c cs)
    then show ?case by (cases c) auto
  qed simp
  then show "net Res_node i cs = int (count_list cs (Dev_open i)) - int (count_list cs (Dev_close i))"
    "net Res_fd i cs = int (count_list cs (Fd_new i)) - int (count_list cs (Fd_rm i))"
    "net (Res_part b) i cs = int (count_list cs (Kbd_new i b)) - int (count_list cs (Kbd_free i b))"
    by simp_all
qed

text \<open>
  Property C14. Whatever devices come and go, sleep, wake up, fail to open, vanish while they are
  read or get a new keymap, and however often the input is referenced: when the last reference is
  gone, every device file has been closed, every watch removed and every buffer and timer of a
  keyboard freed exactly as often as it was opened, added and made, and none has been freed twice.
  The input is put to sleep only while it is awake, and an update of the keymap succeeds in setting
  every keyboard up again; \<open>keymap_update_can_free_twice\<close> is what happens otherwise.
\<close>

theorem everything_is_given_back:
  assumes "in_reach inp" "in_ref inp = 0"
  shows "let cs = in_calls inp in
    count_list cs (Dev_open i) = count_list cs (Dev_close i) \<and> count_list cs (Fd_new i) = count_list cs (Fd_rm i) \<and>
    count_list cs (Kbd_new i b) = count_list cs (Kbd_free i b) \<and> Kbd_free_again i b \<notin> set cs"
proof -
  have "net r i (in_calls inp) = 0 \<and> clean (in_calls inp)" for r
    using in_reach_inv [OF assms(1)] assms(2) by (simp add: in_inv_def books_def)
  from this [of Res_node] this [of Res_fd] this [of "Res_part b"] show ?thesis
    by (simp add: net_counts Let_def) (simp add: clean_def)
qed

text \<open>The keyboard gets a new keymap, and a second reference outlives the first.\<close>

definition demo_end :: "(bool, unit) in_op list" where
  "demo_end = [Op_ref, Op_unref, Op_keymap (demo_input_env True 100), Op_unref]"

theorem everything_is_given_back_witness:
  "\<exists>inp. in_run demo_end demo_awake = Some inp \<and>
    in_calls inp = [Dev_open 0, Fd_new 0] @ made_keyboard @ [Fd_rm 0, Dev_close 0] @ freed_keyboard @
      made_keyboard @ [Dev_open 0, Fd_new 0, Fd_rm 0, Dev_close 0] @ freed_keyboard \<and>
    count_list (in_calls inp) (Kbd_new 0 Repeat_timer) = count_list (in_calls inp) (Kbd_free 0 Repeat_timer)"
proof -
  have "\<exists>inp. in_run demo_end demo_awake = Some inp \<and> in_ref inp = 0 \<and>
    in_calls inp = [Dev_open 0, Fd_new 0] @ made_keyboard @ [Fd_rm 0, Dev_close 0] @ freed_keyboard @
      made_keyboard @ [Dev_open 0, Fd_new 0, Fd_rm 0, Dev_close 0] @ freed_keyboard"
    by (simp add: demo_end_def in_allowed_def input_ref_def input_unref_def demo_awake_def demo_input_def log_calls_def
        input_free_dev_def input_sleep_dev_def input_close_dev_def demo_keyboard_def has_def input_exit_keyboard_def
        free_part_def set_part_def event_parts_def kbd_possible_def demo_input_env_def toy_keyboard_new input_update_keymap_def
        run_devs_def down_dev_def up_dev_def input_init_keyboard_def input_wake_up_dev_def input_open_dev_def
        uxkb_dev_wake_up_def toy_xkb_def toy_keyboard_def uxkb_dev_init_def made_keyboard_def freed_keyboard_def)
  then obtain inp where r: "in_run demo_end demo_awake = Some inp" "in_ref inp = 0"
    "in_calls inp = [Dev_open 0, Fd_new 0] @ made_keyboard @ [Fd_rm 0, Dev_close 0] @ freed_keyboard @
      made_keyboard @ [Dev_open 0, Fd_new 0, Fd_rm 0, Dev_close 0] @ freed_keyboard" by blast
  have "in_reach inp" by (rule in_run_reach [OF r(1) demo_awake_reach])
  from everything_is_given_back [OF this r(2), of 0 Repeat_timer] r show ?thesis by (simp add: Let_def)
qed

text \<open>
  The condition on the update of the keymap is needed: \<open>input_update_keymap\<close> does not
  look at the result of \<open>input_init_keyboard\<close>, so when memory is short while the input sleeps the
  keyboard keeps the pointers to its freed buffers, and its removal frees them a second time.
\<close>

theorem keymap_update_can_free_twice:
  "let inp = input_sleep demo_awake;
       inp = input_update_keymap (demo_input_env False 100) True inp
   in Kbd_free_again 0 Repeat_syms \<in> set (in_calls (input_remove_dev 0 inp))"
  by (simp add: input_sleep_def input_remove_dev_def find_dev_def drop_dev_def log_calls_def input_update_keymap_def
      run_devs_def demo_awake_def demo_input_def down_dev_def up_dev_def input_sleep_dev_def input_close_dev_def
      demo_keyboard_def has_def input_exit_keyboard_def input_init_keyboard_def demo_input_env_def free_part_def
      set_part_def event_parts_def input_free_dev_def)

section \<open>Pointer events stay on the screen\<close>




definition same_axes :: "input_pointer \<Rightarrow> input_pointer \<Rightarrow> bool" where
  "same_axes p q \<longleftrightarrow> ip_kind q = ip_kind p \<and> ip_min_x q = ip_min_x p \<and> ip_max_x q = ip_max_x p \<and>
     ip_min_y q = ip_min_y p \<and> ip_max_y q = ip_max_y p"

lemma same_axes_refl [simp]: "same_axes p p"
  by (simp add: same_axes_def)









definition pointer_calls :: "in_call list \<Rightarrow> input_pointer_event list" where
  "pointer_calls cs = concat (map (\<lambda>c. case c of Call_pointer ev \<Rightarrow> [ev] | _ \<Rightarrow> []) cs)"

lemma pointer_calls_simps [simp]:
  "pointer_calls [] = []" "pointer_calls (Call_pointer ev # cs) = ev # pointer_calls cs"
  "pointer_calls (Call_key k # cs) = pointer_calls cs" "pointer_calls (Hide_timer_restart # cs) = pointer_calls cs"
  "pointer_calls (cs @ ds) = pointer_calls cs @ pointer_calls ds" "pointer_calls (map Call_pointer evs) = evs"
  by (simp_all add: pointer_calls_def) (induction evs; simp)

lemma pointer_calls_set: "ev \<in> set (pointer_calls cs) \<longleftrightarrow> Call_pointer ev \<in> set cs"
  by (induction cs) (auto simp: pointer_calls_def split: in_call.splits)





definition demo_touchscreen :: "int \<Rightarrow> (bool, unit) input_dev" where
  "demo_touchscreen hi = \<lparr>dv_id = 0, dv_node = ''touch'', dv_initialized = True, dv_caps = or DEVICE_HAS_ABS (or DEVICE_HAS_TOUCH DEVICE_HAS_DIRECT),
     dv_rfd = 5, dv_fd = True, dv_bufs = (\<lambda>b. Null), dv_kbd = None,
     dv_pointer = zero_pointer\<lparr>ip_kind := POINTER_TOUCHSCREEN, ip_pressed := BUTTON_NONE, ip_max_x := hi, ip_max_y := hi\<rparr>\<rparr>"


text \<open>
  \<open>input_set_pointer_max\<close> leaves the pointers of the devices where they are. When the screen gets
  narrower and the mouse moves up or down after that, the event carries the old position to the side,
  which is no longer on the screen.
\<close>

definition demo_mouse :: "(bool, unit) input_dev" where
  "demo_mouse = \<lparr>dv_id = 0, dv_node = ''mouse'', dv_initialized = True, dv_caps = or DEVICE_HAS_REL DEVICE_HAS_MOUSE_BTN,
     dv_rfd = 5, dv_fd = True, dv_bufs = (\<lambda>b. Null), dv_kbd = None,
     dv_pointer = zero_pointer\<lparr>ip_kind := POINTER_MOUSE, ip_pressed := BUTTON_NONE\<rparr>\<rparr>"

theorem stale_position_leaves_smaller_screen:
  "\<exists>inp ev. in_run
      [Op_bounds 640 480, Op_data (demo_input_env True 100) False [Read_events [(EV_REL, REL_X, 600)]] 0,
       Op_bounds 320 240, Op_data (demo_input_env True 100) False [Read_events [(EV_REL, REL_Y, 1)]] 0]
      (demo_input\<lparr>in_mouse := True, in_awake := 1, in_next := 1, in_devices := [demo_mouse]\<rparr>) = Some inp \<and>
    last (in_calls inp) = Call_pointer ev \<and> pe_x ev = 600 \<and> \<not> event_on_screen (in_max_x inp) (in_max_y inp) ev"
  by (simp add: demo_input_def in_allowed_def input_set_pointer_max_def input_data_dev_def find_dev_def demo_mouse_def
      notify_event_def pointer_dev_rel_def clamp_def log_calls_def put_dev_def zero_pointer_def pointer_dev_send_move_def
      no_event_def event_on_screen_def)

text \<open>
  An axis whose smallest and largest value are the same, which the kernel accepts from
  a virtual device, stops the program: the first position that such a touchscreen reports is
  divided by zero. The device gets there through the code's own probing.
\<close>

theorem empty_axis_stops_the_program:
  "\<exists>inp. in_run [Op_conf 0 0 True, Op_wake (demo_input_env True 0), Op_add (demo_input_env True 0) ''touch''] demo_input = Some inp \<and>
    (\<exists>d. in_devices inp = [d] \<and> dv_initialized d) \<and>
    in_do (Op_data (demo_input_env True 0) False [Read_events [(EV_ABS, ABS_X, 0)]] 0) inp = None"
proof -
  define dev :: "(bool, unit) input_dev" where
    "dev = (demo_touchscreen 0)"
  have caps: "probe_device_capabilities (demo_bits ''touch'') = dv_caps dev"
    by (simp add: probe_device_capabilities_def demo_bits_def key_caps_def abs_caps_def list_ex_iff dev_def demo_touchscreen_def)
  have run: "in_run [Op_conf 0 0 True, Op_wake (demo_input_env True 0), Op_add (demo_input_env True 0) ''touch''] demo_input =
    Some (demo_input\<lparr>in_repeat_delay := 250, in_repeat_rate := 50, in_mouse := True, in_awake := 1, in_devices := [dev], in_next := 1,
      in_calls := [Dev_open 0, Fd_new 0]\<rparr>)"
    by (simp add: demo_input_def input_wake_up_def run_devs_def log_calls_def input_add_dev_def input_set_conf_def
      input_init_dev_def input_open_dev_def input_new_dev_def demo_input_env_def caps input_can_use_def has_all_def
      input_pointer_kind_def has_def zero_pointer_def input_init_abs_def in_allowed_def dev_def demo_touchscreen_def)
  show ?thesis unfolding run
    by (simp add: input_data_dev_def find_dev_def dev_def demo_touchscreen_def notify_event_def pointer_dev_abs_def
      pointer_dev_abs_x_def scaled_def zero_pointer_def)
qed

end
