(* ===== verification/Host_Login.thy ===== *)
theory Host_Login
  imports Collector
begin

text \<open>
  The login helper: \<open>src/misc/host_session.c\<close> and its server \<open>src/faceplate_host_login.c\<close>. The
  console is sandboxed and must not start a login itself; the child of the pseudo terminal packs
  its arguments and its environment into one message, sends it with the descriptor of the terminal
  to the helper, and ends with the status that the helper reports.

  What the kernel answers is an argument. Calls that have an effect outside are recorded in order.
  A read outside of a buffer is \<open>None\<close>. The machine is little-endian.
\<close>

section \<open>The environment of a process\<close>

fun getenv :: "string list \<Rightarrow> string \<Rightarrow> string option" where
  "getenv [] name = None"
| "getenv (s # ss) name =
     (if take (length name + 1) s = name @ ''='' then Some (drop (length name + 1) s) else getenv ss name)"

abbreviation host_login_socket_default :: string where
  "host_login_socket_default \<equiv> ''/run/faceplate/host-login.sock''"

abbreviation host_login_magic :: u32 where
  "host_login_magic \<equiv> 0x314c5046"

definition host_session_socket_path :: "string list \<Rightarrow> string" where
  "host_session_socket_path envs =
     (case getenv envs ''FACEPLATE_HOST_LOGIN_SOCKET'' of
        None \<Rightarrow> host_login_socket_default
      | Some path \<Rightarrow> if path \<noteq> [] then path else host_login_socket_default)"

section \<open>The namespaces of the first process\<close>

text \<open>Whether a path can be opened, and what joining its namespace or writing to it returns.\<close>

record ns_world =
  ns_open :: "string \<Rightarrow> status"
  ns_join :: "string \<Rightarrow> status"
  ns_write :: "string \<Rightarrow> int"
  ns_pid :: nat

definition setns_path :: "ns_world \<Rightarrow> string \<Rightarrow> status" where
  "setns_path e path = (case ns_open e path of Some err \<Rightarrow> fails err | None \<Rightarrow> ns_join e path)"

fun migrate_to :: "ns_world \<Rightarrow> int \<Rightarrow> string list \<Rightarrow> status" where
  "migrate_to e n [] = fails ENOENT"
| "migrate_to e n (path # paths) =
     (if ns_open e path \<noteq> ok then migrate_to e n paths
      else if ns_write e path = n then ok
      else migrate_to e n paths)"

definition migrate_root_cgroup :: "ns_world \<Rightarrow> status" where
  "migrate_root_cgroup e =
     (let n = int (length (dec (ns_pid e))) + 1
      in if n \<ge> 32 then fails (Eother 75)
         else migrate_to e n [''/sys/fs/cgroup/cgroup.procs'', ''/sys/fs/cgroup/unified/cgroup.procs''])"

text \<open>The first failure of the steps that count.\<close>

definition first_failure :: "status \<Rightarrow> status \<Rightarrow> status" where
  "first_failure rc ret = (if rc \<noteq> ok \<and> ret = ok then rc else ret)"

definition enter_init_namespaces :: "ns_world \<Rightarrow> status" where
  "enter_init_namespaces e =
     (let ret = setns_path e ''/proc/1/ns/mnt'';
          ret = first_failure (setns_path e ''/proc/1/ns/net'') ret
      in first_failure (migrate_root_cgroup e) ret)"

section \<open>The message\<close>

definition u32_bytes :: "u32 \<Rightarrow> string" where
  "u32_bytes w = map (\<lambda>i. char_of (unat (drop_bit (8 * i) w))) [0..<4]"

definition bytes_u32 :: "string \<Rightarrow> u32" where
  "bytes_u32 s = of_nat (code (s ! 0) + 256 * code (s ! 1) + 65536 * code (s ! 2) + 16777216 * code (s ! 3))"

text \<open>The growing buffer: the bytes in use and its capacity. \<open>mem\<close> says which sizes \<open>realloc\<close> can give.\<close>

record packbuf =
  pk_buf :: string
  pk_cap :: nat

function grow :: "nat \<Rightarrow> nat \<Rightarrow> nat" where
  "grow need ncap = (if ncap < need \<and> 0 < ncap then grow need (ncap * 2) else ncap)"
  by pat_completeness auto
termination by (relation "measure (\<lambda>(need, ncap). need - ncap)") auto

declare grow.simps [simp del]

definition append_cstr :: "(nat \<Rightarrow> bool) \<Rightarrow> string \<Rightarrow> packbuf \<Rightarrow> status \<times> packbuf" where
  "append_cstr mem s b =
     (let n = length s + 1;
          need = length (pk_buf b) + n;
          ncap = grow need (if pk_cap b \<noteq> 0 then pk_cap b else 256)
      in if need > pk_cap b
         then (if \<not> mem ncap then (fails ENOMEM, b)
               else (ok, \<lparr>pk_buf = pk_buf b @ s @ [nul], pk_cap = ncap\<rparr>))
         else (ok, b\<lparr>pk_buf := pk_buf b @ s @ [nul]\<rparr>))"

fun append_all :: "(nat \<Rightarrow> bool) \<Rightarrow> string list \<Rightarrow> packbuf \<Rightarrow> status \<times> packbuf" where
  "append_all mem [] b = (ok, b)"
| "append_all mem (s # ss) b =
     (case append_cstr mem s b of
        (Some e, b) \<Rightarrow> (fails e, b)
      | (None, b) \<Rightarrow> append_all mem ss b)"

definition pack_job :: "(nat \<Rightarrow> bool) \<Rightarrow> string list option \<Rightarrow> string list option \<Rightarrow> errno + string" where
  "pack_job mem argv environ =
     (case argv of
        None \<Rightarrow> Inl EINVAL
      | Some args \<Rightarrow>
          if args = [] then Inl EINVAL
          else
            (case append_all mem args \<lparr>pk_buf = [], pk_cap = 0\<rparr> of
               (Some e, b) \<Rightarrow> Inl e
             | (None, b) \<Rightarrow>
                 let envs = (case environ of None \<Rightarrow> [] | Some es \<Rightarrow> es)
                 in (case append_all mem envs b of
                       (Some e, b) \<Rightarrow> Inl e
                     | (None, b) \<Rightarrow>
                         let body = length (pk_buf b)
                         in if 12 + body > pk_cap b \<and> \<not> mem (12 + body) then Inl ENOMEM
                            else Inr (u32_bytes host_login_magic @ u32_bytes (of_nat (length args)) @
                                      u32_bytes (of_nat (length envs)) @ pk_buf b))))"

text \<open>
  The strings of a message, from the offset \<open>p\<close> up to the end \<open>e\<close> of what was received. \<open>strlen\<close> runs
  on in the buffer \<open>m\<close> behind that end, if it has to; without a zero byte it leaves the buffer.
\<close>

fun unpack_strings :: "string \<Rightarrow> nat \<Rightarrow> nat \<Rightarrow> nat \<Rightarrow> (errno + string list \<times> nat) option" where
  "unpack_strings m e 0 p = Some (Inr ([], p))"
| "unpack_strings m e (Suc k) p =
     (if p \<ge> e then Some (Inl EINVAL)
      else
        (case cut nul (drop p m) of
           None \<Rightarrow> None
         | Some (s, _) \<Rightarrow>
             (case unpack_strings m e k (p + length s + 1) of
                Some (Inr (ss, q)) \<Rightarrow> Some (Inr (s # ss, q))
              | r \<Rightarrow> r)))"

definition unpack_job :: "bool \<Rightarrow> string \<Rightarrow> nat \<Rightarrow> (errno + string list \<times> string list) option" where
  "unpack_job mem m len =
     (if len < 12 then Some (Inl EINVAL)
      else
        let magic = bytes_u32 (take 4 m); argc = bytes_u32 (take 4 (drop 4 m)); envc = bytes_u32 (take 4 (drop 8 m))
        in if magic \<noteq> host_login_magic \<or> argc = 0 \<or> argc > 64 \<or> envc > 512 then Some (Inl EINVAL)
           else if \<not> mem then Some (Inl ENOMEM)
           else
             (case unpack_strings m len (unat argc) 12 of
                None \<Rightarrow> None
              | Some (Inl e) \<Rightarrow> Some (Inl e)
              | Some (Inr (argv, p)) \<Rightarrow>
                  (case unpack_strings m len (unat envc) p of
                     None \<Rightarrow> None
                   | Some (Inl e) \<Rightarrow> Some (Inl e)
                   | Some (Inr (envs, q)) \<Rightarrow> Some (Inr (argv, envs)))))"

section \<open>The client\<close>

text \<open>
  \<open>sv_sent\<close> is what \<open>sendmsg\<close> returns, \<open>sv_reply\<close> what \<open>read\<close> puts into the status, if it reads
  all of it. \<open>cl_calls\<close> are the descriptor that was sent and the message.
\<close>

record client_world =
  cl_environ :: "string list"
  cl_mem :: "nat \<Rightarrow> bool"
  cl_socket :: status
  cl_connect :: "string \<Rightarrow> status"
  cl_sent :: "string \<Rightarrow> int"
  cl_reply :: "u32 option"

datatype exec_end = Returned errno | Exited nat

definition WIFEXITED :: "u32 \<Rightarrow> bool" where
  "WIFEXITED st \<longleftrightarrow> and st 0x7f = 0"

definition WEXITSTATUS :: "u32 \<Rightarrow> nat" where
  "WEXITSTATUS st = unat (and (drop_bit 8 st) 0xff)"

definition WTERMSIG :: "u32 \<Rightarrow> nat" where
  "WTERMSIG st = unat (and st 0x7f)"

definition WIFSIGNALED :: "u32 \<Rightarrow> bool" where
  "WIFSIGNALED st \<longleftrightarrow> 0 < WTERMSIG st \<and> WTERMSIG st < 0x7f"

text \<open>\<open>_exit\<close> keeps the low byte.\<close>

definition exit_with_status :: "u32 \<Rightarrow> exec_end" where
  "exit_with_status st =
     (if WIFEXITED st then Exited (WEXITSTATUS st)
      else if WIFSIGNALED st then Exited ((128 + WTERMSIG st) mod 256)
      else Exited 255)"

text \<open>The path of the socket is cut to the 107 bytes of \<open>sun_path\<close>.\<close>

definition host_session_exec :: "client_world \<Rightarrow> string list option \<Rightarrow> (nat \<times> string) list \<times> exec_end" where
  "host_session_exec e argv =
     (if getenv (cl_environ e) ''FACEPLATE_HOST_LOGIN'' = Some ''0'' then ([], Returned ENOTSUP)
      else
        (case pack_job (cl_mem e) argv (Some (cl_environ e)) of
           Inl err \<Rightarrow> ([], Returned err)
         | Inr payload \<Rightarrow>
             (case cl_socket e of
                Some err \<Rightarrow> ([], Returned err)
              | None \<Rightarrow>
                  (case cl_connect e (snprintf 108 (host_session_socket_path (cl_environ e))) of
                     Some err \<Rightarrow> ([], Returned err)
                   | None \<Rightarrow>
                       if cl_sent e payload \<noteq> int (length payload) then ([(0, payload)], Returned EIO)
                       else ([(0, payload)],
                             exit_with_status (case cl_reply e of None \<Rightarrow> 255 | Some st \<Rightarrow> st))))))"

section \<open>The helper\<close>

text \<open>What the kernel says of the peer of a connection; the cgroup file as it is read, if it opens.\<close>

record login_peer =
  pr_cred :: status
  pr_cred_whole :: bool
  pr_uid :: int
  pr_pid :: int
  pr_cgroup :: "string option"

record login_helper =
  hl_environ :: "string list"
  hl_euid :: int
  hl_pid :: int

function cgroup_lines :: "string \<Rightarrow> bool" where
  "cgroup_lines s =
     (if s = [] then False
      else
        let (line, rest) = fgets 256 s
        in if strstr (cstr line) ''faceplate.service'' then True else cgroup_lines rest)"
  by pat_completeness auto
termination
  by (relation "measure length") (use fgets_shorter [of 256] in \<open>auto simp: prod_eq_iff\<close>)

declare cgroup_lines.simps [simp del]

definition peer_is_allowed :: "login_helper \<Rightarrow> login_peer \<Rightarrow> status" where
  "peer_is_allowed h p =
     (if pr_cred p \<noteq> ok then pr_cred p
      else if \<not> pr_cred_whole p then fails EINVAL
      else if pr_uid p \<noteq> hl_euid h \<or> pr_pid p \<le> 0 then fails EPERM
      else if pr_pid p = hl_pid h then fails EPERM
      else if getenv (hl_environ h) ''FACEPLATE_HOST_LOGIN_SKIP_CGROUP'' \<noteq> None then ok
      else
        (case pr_cgroup p of
           None \<Rightarrow> fails EPERM
         | Some s \<Rightarrow> if cgroup_lines s then ok else fails EPERM))"

text \<open>
  A received message: what \<open>recvmsg\<close> returns, the bytes, and the control messages, each with the
  descriptors that the kernel has opened for it when it carries rights.
\<close>

record login_message =
  lm_n :: int
  lm_data :: string
  lm_truncated :: bool
  lm_control :: "(bool \<times> int list) list"

definition recv_fd :: "login_message \<Rightarrow> (int \<times> int) option" where
  "recv_fd m =
     (if lm_n m \<le> 0 then None
      else if lm_truncated m then None
      else
        (case List.find (\<lambda>(rights, fds). rights \<and> fds \<noteq> []) (lm_control m) of
           None \<Rightarrow> None
         | Some (_, fds) \<Rightarrow> if hd fds < 0 then None else Some (lm_n m, hd fds)))"

record fd_info =
  fi_isatty :: bool
  fi_stat :: bool
  fi_chr :: bool
  fi_major :: nat

definition fd_is_pty_slave :: "int \<Rightarrow> fd_info \<Rightarrow> bool" where
  "fd_is_pty_slave fd i =
     (if fd < 0 \<or> \<not> fi_isatty i then False
      else if \<not> fi_stat i then False
      else if \<not> fi_chr i then False
      else if fi_major i \<noteq> 136 then False
      else True)"

definition login_binary :: "string list \<Rightarrow> string" where
  "login_binary envs =
     (case getenv envs ''FACEPLATE_HOST_LOGIN_BIN'' of
        None \<Rightarrow> ''/bin/login''
      | Some bin \<Rightarrow>
          if bin \<noteq> [] \<and> getenv envs ''FACEPLATE_HOST_LOGIN_SKIP_CGROUP'' \<noteq> None then bin
          else ''/bin/login'')"

definition term_char :: "char \<Rightarrow> bool" where
  "term_char c \<longleftrightarrow> between CHR ''A'' CHR ''Z'' c \<or> between CHR ''a'' CHR ''z'' c \<or> between CHR ''0'' CHR ''9'' c \<or>
     c = CHR ''.'' \<or> c = CHR ''-'' \<or> c = CHR ''_''"

definition sanitized_term :: "string list option \<Rightarrow> string" where
  "sanitized_term envs =
     (let v = (case envs of None \<Rightarrow> ''vt220''
               | Some es \<Rightarrow> (case getenv es ''TERM'' of None \<Rightarrow> ''vt220'' | Some v \<Rightarrow> v));
          n = length v;
          v = (if n < 1 \<or> n > 32 then ''vt220'' else v);
          v = (if list_all term_char v then v else ''vt220'')
      in snprintf 48 (''TERM='' @ v))"

text \<open>
  What the forked child does: each of its calls may fail, and \<open>setsid\<close> may do so with \<open>EPERM\<close>. The
  exit behind \<open>Execve\<close> is reached only when that call returns.
\<close>

datatype login_call =
    Setsid
  | Claim_tty int
  | Dup2 int nat
  | Close_fd int
  | Execve string "string list" "string list"
  | Exit_child nat

record child_world =
  ch_setsid :: status
  ch_ctty :: bool
  ch_dup2 :: "nat \<Rightarrow> bool"

fun dup_std :: "child_world \<Rightarrow> int \<Rightarrow> nat list \<Rightarrow> login_call list \<times> bool" where
  "dup_std e pty [] = ([], True)"
| "dup_std e pty (k # ks) =
     (if \<not> ch_dup2 e k then ([Dup2 pty k], False)
      else (let (cs, fine) = dup_std e pty ks in (Dup2 pty k # cs, fine)))"

definition run_login :: "child_world \<Rightarrow> string list \<Rightarrow> int \<Rightarrow> string list option \<Rightarrow> login_call list" where
  "run_login e environ pty envs =
     (if ch_setsid e \<noteq> ok \<and> ch_setsid e \<noteq> fails EPERM then [Setsid, Exit_child 127]
      else if \<not> ch_ctty e then [Setsid, Claim_tty pty, Exit_child 127]
      else
        (let (dups, fine) = dup_std e pty [0, 1, 2]
         in if \<not> fine then [Setsid, Claim_tty pty] @ dups @ [Exit_child 127]
            else
              [Setsid, Claim_tty pty] @ dups @ (if pty > 2 then [Close_fd pty] else []) @
              map (\<lambda>i. Close_fd (int i)) [3..<256] @
              [Execve (login_binary environ) [login_binary environ, ''-p'']
                 [sanitized_term envs, ''PATH=/usr/sbin:/usr/bin:/sbin:/bin'', ''HOME=/'', ''SHELL=/bin/sh''],
               Exit_child 127]))"

text \<open>
  One connection. \<open>sv_buf\<close> is the buffer of 65536 bytes after the message was received;
  \<open>Forked\<close> holds what the child does. The result is \<open>None\<close> when a string is read outside of it.
\<close>

datatype host_call =
    Forked "login_call list"
  | Wait_child
  | Close_pty int
  | Write_status u32

record serve_world =
  sv_peer :: login_peer
  sv_message :: login_message
  sv_rest :: string
  sv_mem :: bool
  sv_info :: "int \<Rightarrow> fd_info"
  sv_fork :: bool
  sv_child :: child_world
  sv_wait :: "u32 option"

definition recv_buffer :: "serve_world \<Rightarrow> string" where
  "recv_buffer e = take 65536 (take (nat (lm_n (sv_message e))) (lm_data (sv_message e)) @ sv_rest e)"

definition serve_fail :: "int option \<Rightarrow> host_call list \<times> bool" where
  "serve_fail pty = (Write_status 255 # (case pty of None \<Rightarrow> [] | Some fd \<Rightarrow> if fd \<ge> 0 then [Close_pty fd] else []), False)"

definition serve_one :: "login_helper \<Rightarrow> serve_world \<Rightarrow> (host_call list \<times> bool) option" where
  "serve_one h e =
     (if peer_is_allowed h (sv_peer e) \<noteq> ok then Some (serve_fail None)
      else
        (case recv_fd (sv_message e) of
           None \<Rightarrow> Some (serve_fail None)
         | Some (n, pty) \<Rightarrow>
             if n < 12 then Some (serve_fail (Some pty))
             else
               (case unpack_job (sv_mem e) (recv_buffer e) (nat n) of
                  None \<Rightarrow> None
                | Some (Inl err) \<Rightarrow> Some (serve_fail (Some pty))
                | Some (Inr (argv, envs)) \<Rightarrow>
                    if \<not> fd_is_pty_slave pty (sv_info e pty) then Some (serve_fail (Some pty))
                    else if \<not> sv_fork e then Some (serve_fail (Some pty))
                    else Some ([Forked (run_login (sv_child e) (hl_environ h) pty (Some envs)), Close_pty pty, Wait_child,
                                Write_status (case sv_wait e of None \<Rightarrow> 255 | Some st \<Rightarrow> st)], True))))"

section \<open>The server\<close>

text \<open>\<open>accept4\<close> gives a connection, is interrupted, or fails; then the server ends.\<close>

datatype accepted = Conn serve_world | Interrupted | Accept_error

fun serve_all :: "login_helper \<Rightarrow> accepted list \<Rightarrow> host_call list list option \<times> bool" where
  "serve_all h [] = (Some [], False)"
| "serve_all h (Interrupted # as) = serve_all h as"
| "serve_all h (Accept_error # as) = (Some [], True)"
| "serve_all h (Conn e # as) =
     (case serve_one h e of
        None \<Rightarrow> (None, False)
      | Some (cs, _) \<Rightarrow>
          (let (css, ended) = serve_all h as in (map_option ((#) cs) css, ended)))"

text \<open>Where the server listens: the socket it was given, or its own with mode \<open>0600\<close>, which is 384.\<close>

datatype listen_call =
    Unlink string
  | Bind_socket string
  | Chmod string nat
  | Listen
  | Close_listen

record listen_world =
  li_socket :: bool
  li_bind :: bool
  li_listen :: bool

definition bind_listen :: "listen_world \<Rightarrow> string \<Rightarrow> listen_call list \<times> bool" where
  "bind_listen e path =
     (let addr = snprintf 108 path
      in if \<not> li_socket e then ([], False)
         else if \<not> li_bind e then ([Unlink path, Bind_socket addr, Close_listen], False)
         else if \<not> li_listen e then ([Unlink path, Bind_socket addr, Chmod path 384, Listen, Close_listen], False)
         else ([Unlink path, Bind_socket addr, Chmod path 384, Listen], True))"

definition host_login_main :: "login_helper \<Rightarrow> listen_world \<Rightarrow> accepted list \<Rightarrow> listen_call list \<times> host_call list list option \<times> bool" where
  "host_login_main h l as =
     (if getenv (hl_environ h) ''LISTEN_FDS'' = Some ''1'' then ([], serve_all h as)
      else
        (let (ls, fine) = bind_listen l (host_session_socket_path (hl_environ h))
         in if \<not> fine then (ls, Some [], True) else (ls, serve_all h as)))"

end
