(* ===== verification/Host_Login_Spec.thy ===== *)
theory Host_Login_Spec
  imports Host_Login
begin

text \<open>
  What the login helper guarantees: whoever it serves, it runs the login program on a terminal and
  nothing else; what the console packs is what the helper unpacks; and the status of the login
  comes back as the status of the client.
\<close>

section \<open>Packing and unpacking\<close>

lemma code_char_of: "code (char_of n) = n mod 256"
  by (simp add: code_def)

lemma length_u32_bytes [simp]: "length (u32_bytes w) = 4"
  by (simp add: u32_bytes_def)

lemma bytes_u32_bytes [simp]: "bytes_u32 (u32_bytes w) = w"
proof -
  define n where "n = unat w"
  have n: "n < 2 ^ 32" using unsigned_less [of w] by (simp add: n_def)
  have b: "unat (drop_bit k w) = n div 2 ^ k" for k
    unfolding n_def unat_drop_bit_eq by (simp add: drop_bit_eq_div)
  have sum: "n mod 256 + 256 * (n div 256 mod 256) + 65536 * (n div 65536 mod 256) + 16777216 * (n div 16777216) = n"
  proof -
    have split: "k mod 256 + 256 * (k div 256) = k" for k :: nat by simp
    have quarters: "n div 65536 = n div 256 div 256" "n div 16777216 = n div 256 div 256 div 256"
      by (simp_all flip: div_mult2_eq)
    have weigh: "x + 256 * y + 65536 * z + 16777216 * c = k"
      if "x + 256 * a = k" "y + 256 * b = a" "z + 256 * c = b" for x y z a b c k :: nat using that by linarith
    show ?thesis
      unfolding quarters by (rule weigh [OF split [of n] split [of "n div 256"] split [of "n div 256 div 256"]])
  qed
  have top: "n div 16777216 mod 256 = n div 16777216" using n by (intro mod_less) (simp add: less_mult_imp_div_less)
  have "code (u32_bytes w ! 0) + 256 * code (u32_bytes w ! 1) + 65536 * code (u32_bytes w ! 2) +
      16777216 * code (u32_bytes w ! 3) = n"
    using sum top by (simp add: u32_bytes_def code_char_of b upt_conv_Cons)
  then have "bytes_u32 (u32_bytes w) = of_nat n" by (simp only: bytes_u32_def)
  then show ?thesis by (simp add: n_def)
qed

text \<open>The strings one behind the other, each with its zero byte.\<close>

definition zstrings :: "string list \<Rightarrow> string" where
  "zstrings ss = concat (map (\<lambda>s. s @ [nul]) ss)"

lemma zstrings_simps [simp]:
  "zstrings [] = []" "zstrings (s # ss) = s @ nul # zstrings ss" "zstrings (ss @ ts) = zstrings ss @ zstrings ts"
  by (simp_all add: zstrings_def)

lemma append_all_result:
  "append_all mem ss b = (ok, b') \<Longrightarrow> pk_buf b' = pk_buf b @ zstrings ss"
proof (induction ss arbitrary: b)
  case (Cons s ss)
  obtain r b1 where step: "append_cstr mem s b = (r, b1)" by (meson surj_pair)
  with Cons.prems have r: "r = ok" and rest: "append_all mem ss b1 = (ok, b')" by (auto split: option.splits)
  have "pk_buf b1 = pk_buf b @ s @ [nul]"
    using step r by (auto simp: append_cstr_def Let_def split: if_splits)
  then show ?case using Cons.IH [OF rest] by simp
qed simp

lemma append_all_fits: "\<forall>n. mem n \<Longrightarrow> fst (append_all mem ss b) = ok"
proof (induction ss arbitrary: b)
  case (Cons s ss)
  have "fst (append_cstr mem s b) = ok" using Cons.prems by (simp add: append_cstr_def Let_def)
  then obtain b1 where "append_cstr mem s b = (ok, b1)" by (metis prod.collapse)
  then show ?case using Cons.IH [OF Cons.prems, of b1] by (simp only: append_all.simps prod.case option.case)
qed simp

lemma pack_job_result:
  assumes "pack_job mem (Some argv) (Some envs) = Inr job"
  shows "argv \<noteq> []" "job = u32_bytes host_login_magic @ u32_bytes (of_nat (length argv)) @
     u32_bytes (of_nat (length envs)) @ zstrings argv @ zstrings envs"
proof -
  obtain r b where a: "append_all mem argv \<lparr>pk_buf = [], pk_cap = 0\<rparr> = (r, b)" by (meson surj_pair)
  obtain q c where v: "append_all mem envs b = (q, c)" by (meson surj_pair)
  have ok: "r = ok" "q = ok" using assms a v by (auto simp: pack_job_def split: if_splits option.splits)
  have "pk_buf c = zstrings argv @ zstrings envs"
    using append_all_result [OF a [unfolded ok]] append_all_result [OF v [unfolded ok]] by simp
  with assms a v ok show "argv \<noteq> []" "job = u32_bytes host_login_magic @ u32_bytes (of_nat (length argv)) @
     u32_bytes (of_nat (length envs)) @ zstrings argv @ zstrings envs"
    by (auto simp: pack_job_def Let_def split: if_splits)
qed

lemma unpack_zstrings:
  assumes "list_all (\<lambda>s. nul \<notin> set s) ss" and "drop p m = zstrings ss @ rest"
    and "p + length (zstrings ss) \<le> e"
  shows "unpack_strings m e (length ss) p = Some (Inr (ss, p + length (zstrings ss)))"
  using assms
proof (induction ss arbitrary: p)
  case (Cons s ss)
  have "drop (p + length s + 1) m = drop (length s + 1) (drop p m)" by (simp add: add.commute)
  also have "\<dots> = zstrings ss @ rest" using Cons.prems(2) by simp
  finally have "unpack_strings m e (length ss) (p + length s + 1) =
      Some (Inr (ss, p + length s + 1 + length (zstrings ss)))"
    using Cons by simp
  then show ?case using Cons.prems by simp
qed simp

lemma unpack_packed:
  assumes "pack_job mem (Some argv) (Some envs) = Inr job"
    and "list_all (\<lambda>s. nul \<notin> set s) (argv @ envs)" and "length argv \<le> 64" and "length envs \<le> 512"
  shows "unpack_job True (job @ rest) (length job) = Some (Inr (argv, envs))"
proof -
  note job = pack_job_result [OF assms(1)]
  have small: "unat (of_nat (length argv) :: u32) = length argv" "unat (of_nat (length envs) :: u32) = length envs"
    using assms(3,4) by (simp_all add: unat_of_nat)
  have words: "(of_nat (length argv) :: u32) \<noteq> 0" "\<not> (of_nat (length argv) :: u32) > 64"
    "\<not> (of_nat (length envs) :: u32) > 512"
    using small assms(3,4) job(1) by (auto simp: word_less_nat_alt simp flip: unat_eq_zero)
  have heads: "take 4 (job @ rest) = u32_bytes host_login_magic"
    "take 4 (drop 4 (job @ rest)) = u32_bytes (of_nat (length argv))"
    "take 4 (drop 8 (job @ rest)) = u32_bytes (of_nat (length envs))"
    "drop 12 (job @ rest) = zstrings argv @ zstrings envs @ rest" "12 \<le> length job"
    unfolding job(2) by simp_all
  have len: "length job = 12 + length (zstrings argv) + length (zstrings envs)" unfolding job(2) by simp
  have a: "unpack_strings (job @ rest) (length job) (length argv) 12 = Some (Inr (argv, 12 + length (zstrings argv)))"
    by (rule unpack_zstrings) (use heads(4) len assms(2) in simp_all)
  have "drop (12 + length (zstrings argv)) (job @ rest) = drop (length (zstrings argv)) (drop 12 (job @ rest))"
    by (simp only: drop_drop add.commute)
  then have tail: "drop (12 + length (zstrings argv)) (job @ rest) = zstrings envs @ rest" unfolding heads(4) by simp
  have v: "unpack_strings (job @ rest) (length job) (length envs) (12 + length (zstrings argv)) =
      Some (Inr (envs, length job))"
    using len assms(2) by (subst unpack_zstrings [OF _ tail]) simp_all
  show ?thesis
    using heads words a v by (simp add: unpack_job_def small)
qed

section \<open>The helper runs a login and nothing else\<close>

lemma strstr_split: "strstr s needle \<Longrightarrow> \<exists>a b. s = a @ needle @ b"
proof (induction s needle rule: strstr.induct)
  case (2 c cs needle)
  show ?case
  proof (cases "take (length needle) (c # cs) = needle")
    case True
    then have "c # cs = [] @ needle @ drop (length needle) (c # cs)" by (metis append_Nil append_take_drop_id)
    then show ?thesis by blast
  next
    case False
    then obtain a b where "cs = a @ needle @ b" using 2 by auto
    then have "c # cs = (c # a) @ needle @ b" by simp
    then show ?thesis by blast
  qed
qed simp

lemma fgets_append: "fst (fgets cap s) @ snd (fgets cap s) = s"
  by (induction cap s rule: fgets.induct) (auto simp: Let_def split_beta)

lemma cgroup_lines_split: "cgroup_lines s \<Longrightarrow> \<exists>a b. s = a @ ''faceplate.service'' @ b"
proof (induction s rule: cgroup_lines.induct)
  case (1 s)
  obtain line rest where f: "fgets 256 s = (line, rest)" by (meson surj_pair)
  then have s: "s = line @ rest" using fgets_append [of 256 s] by simp
  have "s \<noteq> []" using "1.prems" by (auto simp: cgroup_lines.simps)
  show ?case
  proof (cases "strstr (cstr line) ''faceplate.service''")
    case True
    then obtain a b where "cstr line = a @ ''faceplate.service'' @ b" using strstr_split by blast
    moreover obtain c where "line = cstr line @ c" unfolding cstr_def by (metis takeWhile_dropWhile_id)
    ultimately have "s = a @ ''faceplate.service'' @ (b @ c @ rest)" using s by simp
    then show ?thesis by blast
  next
    case False
    then have "cgroup_lines rest" using "1.prems" f by (simp add: cgroup_lines.simps [of s] split: if_splits)
    then obtain a b where "rest = a @ ''faceplate.service'' @ b" using "1.IH" [OF \<open>s \<noteq> []\<close> f [symmetric] refl False] by blast
    then have "s = (line @ a) @ ''faceplate.service'' @ b" using s by simp
    then show ?thesis by blast
  qed
qed

lemma sanitized_term_shape:
  "\<exists>t. sanitized_term envs = ''TERM='' @ t \<and> t \<noteq> [] \<and> length t \<le> 32 \<and> list_all term_char t"
proof -
  have plain: "list_all term_char ''vt220''" by (simp add: term_char_def between_def code_def)
  define v where "v = (case envs of None \<Rightarrow> ''vt220'' | Some es \<Rightarrow> (case getenv es ''TERM'' of None \<Rightarrow> ''vt220'' | Some v \<Rightarrow> v))"
  define u where "u = (if length v < 1 \<or> length v > 32 then ''vt220'' else v)"
  define t where "t = (if list_all term_char u then u else ''vt220'')"
  have u: "u \<noteq> []" "length u \<le> 32" unfolding u_def by auto
  have "t \<noteq> []" "length t \<le> 32" "list_all term_char t" using u plain unfolding t_def by simp_all
  moreover have "sanitized_term envs = snprintf 48 (''TERM='' @ t)"
    unfolding sanitized_term_def Let_def v_def u_def t_def ..
  ultimately show ?thesis by (auto simp: snprintf_id)
qed

lemma run_login_execs:
  assumes "Execve p a en \<in> set (run_login e environ pty envs)"
  shows "p = login_binary environ" "a = [p, ''-p'']"
    "en = [sanitized_term envs, ''PATH=/usr/sbin:/usr/bin:/sbin:/bin'', ''HOME=/'', ''SHELL=/bin/sh'']"
    "take 5 (run_login e environ pty envs) = [Setsid, Claim_tty pty, Dup2 pty 0, Dup2 pty 1, Dup2 pty 2]"
  using assms by (auto simp: run_login_def Let_def split: if_splits prod.splits)

lemma serve_one_forks:
  assumes "serve_one h e = Some (calls, r)" and "Forked cs \<in> set calls"
  obtains n pty argv envs where "peer_is_allowed h (sv_peer e) = ok" "recv_fd (sv_message e) = Some (n, pty)"
    "fd_is_pty_slave pty (sv_info e pty)" "cs = run_login (sv_child e) (hl_environ h) pty (Some envs)"
    "unpack_job (sv_mem e) (recv_buffer e) (nat n) = Some (Inr (argv, envs))"
  using assms by (auto simp: serve_one_def serve_fail_def split: if_splits option.splits sum.splits prod.splits)

text \<open>
  Property C2. Whatever a peer sends to the login helper, the only program that the helper ever
  starts for it is \<open>/bin/login -p\<close>, on the terminal that was sent, which is the slave of a pseudo
  terminal, with a fixed environment and a clean \<open>TERM\<close>; and the peer is another process of the
  same user whose control group names the console's service. This is the helper as it is installed,
  without the variable \<open>FACEPLATE_HOST_LOGIN_SKIP_CGROUP\<close> of the tests.
\<close>

theorem helper_runs_only_login:
  assumes "serve_one h e = Some (calls, r)" and "Forked cs \<in> set calls" and "Execve p a en \<in> set cs"
    and "getenv (hl_environ h) ''FACEPLATE_HOST_LOGIN_SKIP_CGROUP'' = None"
  shows "p = ''/bin/login'' \<and> a = [''/bin/login'', ''-p''] \<and>
    (\<exists>t. en = [''TERM='' @ t, ''PATH=/usr/sbin:/usr/bin:/sbin:/bin'', ''HOME=/'', ''SHELL=/bin/sh''] \<and>
       t \<noteq> [] \<and> length t \<le> 32 \<and> list_all term_char t) \<and>
    (\<exists>n pty. recv_fd (sv_message e) = Some (n, pty) \<and> fi_isatty (sv_info e pty) \<and> fi_chr (sv_info e pty) \<and>
       fi_major (sv_info e pty) = 136 \<and> take 5 cs = [Setsid, Claim_tty pty, Dup2 pty 0, Dup2 pty 1, Dup2 pty 2]) \<and>
    pr_uid (sv_peer e) = hl_euid h \<and> pr_pid (sv_peer e) \<noteq> hl_pid h \<and>
    (\<exists>b c. pr_cgroup (sv_peer e) = Some (b @ ''faceplate.service'' @ c))"
proof -
  obtain n pty argv envs where f: "peer_is_allowed h (sv_peer e) = ok" "recv_fd (sv_message e) = Some (n, pty)"
    "fd_is_pty_slave pty (sv_info e pty)" "cs = run_login (sv_child e) (hl_environ h) pty (Some envs)"
    by (rule serve_one_forks [OF assms(1,2)])
  note x = run_login_execs [OF assms(3) [unfolded f(4)]]
  have "login_binary (hl_environ h) = ''/bin/login''" using assms(4) by (simp add: login_binary_def split: option.split)
  moreover have "pr_uid (sv_peer e) = hl_euid h" "pr_pid (sv_peer e) \<noteq> hl_pid h"
    "\<exists>s. pr_cgroup (sv_peer e) = Some s \<and> cgroup_lines s"
    using f(1) assms(4) by (auto simp: peer_is_allowed_def split: if_splits option.splits)
  moreover have "fi_isatty (sv_info e pty)" "fi_chr (sv_info e pty)" "fi_major (sv_info e pty) = 136"
    using f(3) by (auto simp: fd_is_pty_slave_def split: if_splits)
  ultimately show ?thesis
    using x(1-3) x(4) [folded f(4)] f(2) sanitized_term_shape [of "Some envs"] cgroup_lines_split by metis
qed

section \<open>A login from the request to its status\<close>

lemma unat_and_ones: "unat (and (w :: u32) 0x7f) = unat w mod 128" "unat (and (w :: u32) 0xff) = unat w mod 256"
proof -
  have "unat (take_bit n w) = unat w mod 2 ^ n" for n unfolding unsigned_take_bit_eq by (simp add: take_bit_eq_mod)
  from this [of 7] this [of 8] show "unat (and w 0x7f) = unat w mod 128" "unat (and w 0xff) = unat w mod 256"
    by (simp_all add: take_bit_eq_mask mask_eq_exp_minus_1)
qed

lemma exit_code_kept: "k < 256 \<Longrightarrow> exit_with_status (of_nat (256 * k)) = Exited k"
proof -
  assume k: "k < 256"
  define w :: u32 where "w = of_nat (256 * k)"
  have w: "unat w = 256 * k" unfolding w_def unat_of_nat using k by simp
  have "WIFEXITED w" unfolding WIFEXITED_def by (simp add: unat_and_ones w flip: unat_eq_zero)
  moreover have "unat (drop_bit 8 w) = k" unfolding unat_drop_bit_eq w by (simp add: drop_bit_eq_div)
  then have "WEXITSTATUS w = k" using k by (simp add: WEXITSTATUS_def unat_and_ones)
  ultimately show "exit_with_status (of_nat (256 * k)) = Exited k" unfolding exit_with_status_def w_def by simp
qed

lemma exec_sends_job:
  assumes "host_session_exec c argv = ([(fd, job)], en)"
  shows "fd = 0" "pack_job (cl_mem c) argv (Some (cl_environ c)) = Inr job"
    "cl_sent c job = int (length job) \<Longrightarrow>
     en = exit_with_status (case cl_reply c of None \<Rightarrow> 255 | Some st \<Rightarrow> st)"
  using assms by (auto simp: host_session_exec_def split: if_splits sum.splits option.splits)

text \<open>A job that arrives whole, with one descriptor of a terminal, from a peer that is allowed.\<close>

definition job_arrives :: "string \<Rightarrow> int \<Rightarrow> login_helper \<Rightarrow> serve_world \<Rightarrow> bool" where
  "job_arrives job pty h e \<longleftrightarrow>
     sv_message e = \<lparr>lm_n = int (length job), lm_data = job, lm_truncated = False, lm_control = [(True, [pty])]\<rparr> \<and>
     length job \<le> 65536 \<and> peer_is_allowed h (sv_peer e) = ok \<and> fd_is_pty_slave pty (sv_info e pty) \<and> sv_mem e \<and> sv_fork e"

lemma job_is_served:
  assumes job: "pack_job mem (Some argv) (Some envs) = Inr job" and "list_all (\<lambda>s. nul \<notin> set s) (argv @ envs)"
    and "length argv \<le> 64" and "length envs \<le> 512" and arrives: "job_arrives job pty h e"
  shows "serve_one h e =
      Some ([Forked (run_login (sv_child e) (hl_environ h) pty (Some envs)), Close_pty pty, Wait_child,
             Write_status (case sv_wait e of None \<Rightarrow> 255 | Some st \<Rightarrow> st)], True)"
proof -
  have buf: "recv_buffer e = job @ take (65536 - length job) (sv_rest e)"
    using arrives by (simp add: recv_buffer_def job_arrives_def)
  have "12 \<le> length job" "job \<noteq> []" unfolding pack_job_result(2) [OF job] by (simp_all add: u32_bytes_def)
  moreover have "0 \<le> pty" using arrives by (auto simp: fd_is_pty_slave_def job_arrives_def split: if_splits)
  moreover have "unpack_job True (recv_buffer e) (length job) = Some (Inr (argv, envs))"
    unfolding buf by (rule unpack_packed [OF assms(1-4)])
  ultimately show ?thesis using arrives by (simp add: serve_one_def recv_fd_def job_arrives_def)
qed


text \<open>The descriptor that was received is closed in every case, and no other one is.\<close>

theorem received_terminal_is_closed:
  assumes "serve_one h e = Some (calls, r)" and "peer_is_allowed h (sv_peer e) = ok"
  shows "filter (\<lambda>c. \<exists>fd. c = Close_pty fd) calls =
    (case recv_fd (sv_message e) of None \<Rightarrow> [] | Some (n, pty) \<Rightarrow> [Close_pty pty])"
proof -
  have "0 \<le> pty" if "recv_fd (sv_message e) = Some (n, pty)" for n pty
    using that by (auto simp: recv_fd_def split: if_splits option.splits)
  then show ?thesis
    using assms by (auto simp: serve_one_def serve_fail_def split: if_splits option.splits sum.splits prod.splits)
qed

section \<open>An example\<close>

definition demo_peer :: login_peer where
  "demo_peer = \<lparr>pr_cred = ok, pr_cred_whole = True, pr_uid = 0, pr_pid = 77,
     pr_cgroup = Some ''0::/system.slice/faceplate.service''\<rparr>"

definition demo_helper :: login_helper where
  "demo_helper = \<lparr>hl_environ = [''LISTEN_FDS=1''], hl_euid = 0, hl_pid = 5\<rparr>"

definition demo_client :: client_world where
  "demo_client = \<lparr>cl_environ = [''TERM=xterm'', ''LD_PRELOAD=x''], cl_mem = \<lambda>n. True, cl_socket = ok, cl_connect = \<lambda>p. ok,
     cl_sent = \<lambda>s. int (length s), cl_reply = Some (of_nat (256 * 3))\<rparr>"

definition demo_job :: string where
  "demo_job = u32_bytes host_login_magic @ u32_bytes 1 @ u32_bytes 2 @ zstrings [''/bin/false'', ''TERM=xterm'', ''LD_PRELOAD=x'']"

definition demo_serve :: serve_world where
  "demo_serve = \<lparr>sv_peer = demo_peer,
     sv_message = \<lparr>lm_n = int (length demo_job), lm_data = demo_job, lm_truncated = False, lm_control = [(True, [9])]\<rparr>,
     sv_rest = [], sv_mem = True, sv_info = \<lambda>fd. \<lparr>fi_isatty = True, fi_stat = True, fi_chr = True, fi_major = 136\<rparr>,
     sv_fork = True, sv_child = \<lparr>ch_setsid = ok, ch_ctty = True, ch_dup2 = \<lambda>n. True\<rparr>, sv_wait = Some (of_nat (256 * 3))\<rparr>"

lemma demo_exec: "host_session_exec demo_client (Some [''/bin/false'']) = ([(0, demo_job)], Exited 3)"
proof -
  have "grow 11 256 = 256" "grow 22 256 = 256" "grow 35 256 = 256" by (simp_all add: grow.simps)
  then have "pack_job (\<lambda>n. True) (Some [''/bin/false'']) (Some [''TERM=xterm'', ''LD_PRELOAD=x'']) = Inr demo_job"
    by (simp add: pack_job_def append_cstr_def demo_job_def)
  then show ?thesis using exit_code_kept [of 3]
    by (simp add: host_session_exec_def demo_client_def del: of_nat_mult)
qed

lemma demo_allowed: "peer_is_allowed demo_helper demo_peer = ok"
  by (simp add: peer_is_allowed_def demo_peer_def demo_helper_def cgroup_lines.simps fgets.simps eval_nat_numeral
      cstr_def)

lemma demo_arrives: "job_arrives demo_job 9 demo_helper demo_serve"
  by (simp add: job_arrives_def demo_serve_def demo_allowed demo_job_def fd_is_pty_slave_def)


lemma demo_served:
  "serve_one demo_helper demo_serve =
     Some ([Forked (run_login (sv_child demo_serve) (hl_environ demo_helper) 9 (Some [''TERM=xterm'', ''LD_PRELOAD=x''])),
            Close_pty 9, Wait_child, Write_status 768], True)"
  using job_is_served [OF exec_sends_job(2) [OF demo_exec] _ _ _ demo_arrives]
  by (simp add: demo_client_def) (simp add: demo_serve_def)

theorem helper_runs_only_login_witness:
  "let run = run_login (sv_child demo_serve) (hl_environ demo_helper) 9 (Some [''TERM=xterm'', ''LD_PRELOAD=x''])
   in (\<exists>t. Execve ''/bin/login'' [''/bin/login'', ''-p'']
          [''TERM='' @ t, ''PATH=/usr/sbin:/usr/bin:/sbin:/bin'', ''HOME=/'', ''SHELL=/bin/sh''] \<in> set run \<and>
        list_all term_char t) \<and>
      take 5 run = [Setsid, Claim_tty 9, Dup2 9 0, Dup2 9 1, Dup2 9 2] \<and> pr_uid demo_peer = hl_euid demo_helper"
proof -
  let ?run = "run_login (sv_child demo_serve) (hl_environ demo_helper) 9 (Some [''TERM=xterm'', ''LD_PRELOAD=x''])"
  let ?en = "[sanitized_term (Some [''TERM=xterm'', ''LD_PRELOAD=x'']), ''PATH=/usr/sbin:/usr/bin:/sbin:/bin'',
     ''HOME=/'', ''SHELL=/bin/sh'']"
  have e: "Execve ''/bin/login'' [''/bin/login'', ''-p''] ?en \<in> set ?run"
    by (simp add: run_login_def demo_serve_def demo_helper_def login_binary_def)
  have s: "getenv (hl_environ demo_helper) ''FACEPLATE_HOST_LOGIN_SKIP_CGROUP'' = None" by (simp add: demo_helper_def)
  have f: "Forked ?run \<in> set [Forked ?run, Close_pty 9, Wait_child, Write_status 768]" by simp
  note h = helper_runs_only_login [OF demo_served f e s]
  have "recv_fd (sv_message demo_serve) = Some (int (length demo_job), 9)"
    by (simp add: recv_fd_def demo_serve_def) (simp add: demo_job_def)
  then have "take 5 ?run = [Setsid, Claim_tty 9, Dup2 9 0, Dup2 9 1, Dup2 9 2]" using h by auto
  moreover have "pr_uid demo_peer = hl_euid demo_helper" using h by (simp add: demo_serve_def)
  moreover obtain t where "?en = [''TERM='' @ t, ''PATH=/usr/sbin:/usr/bin:/sbin:/bin'', ''HOME=/'', ''SHELL=/bin/sh'']"
    "list_all term_char t" using h by blast
  ultimately show ?thesis using e unfolding Let_def by metis
qed

section \<open>Where the helper does less than it means to\<close>

text \<open>A message whose last string ends with the message is read inside of the buffer.\<close>

lemma unpack_strings_inside:
  assumes "e \<le> length m" and "0 < e" and "m ! (e - 1) = nul"
  shows "unpack_strings m e k p \<noteq> None"
proof (induction k arbitrary: p)
  case (Suc k)
  show ?case
  proof (cases "e \<le> p")
    case False
    then have "m ! (e - 1) = drop p m ! (e - 1 - p)" "e - 1 - p < length (drop p m)" using assms(1,2) by auto
    then have "nul \<in> set (drop p m)" using assms(3) by (metis nth_mem)
    then obtain s rest where "cut nul (drop p m) = Some (s, rest)" using cut_None by (metis not_None_eq surj_pair)
    then show ?thesis using Suc False by (auto split: option.split sum.split)
  qed simp
qed simp

theorem terminated_job_stays_inside:
  assumes "len \<le> length m" and "m ! (len - 1) = nul"
  shows "unpack_job mem m len \<noteq> None"
proof
  assume none: "unpack_job mem m len = None"
  then have "0 < len" by (cases "len = 0") (simp_all add: unpack_job_def)
  moreover have "\<exists>k p. unpack_strings m len k p = None"
    using none by (auto simp: unpack_job_def Let_def split: if_splits option.splits sum.splits) blast
  ultimately show False using unpack_strings_inside assms by blast
qed

text \<open>
  Nothing asks for that zero: a message that fills the buffer and does not end with one is read
  past the end of the buffer.
\<close>

theorem unterminated_job_leaves_buffer:
  fixes n :: nat
  defines "m \<equiv> u32_bytes host_login_magic @ u32_bytes 1 @ u32_bytes 0 @ replicate (Suc n) CHR ''A''"
  shows "unpack_job True m (length m) = None"
proof -
  have "cut nul (replicate (Suc n) CHR ''A'') = None" unfolding cut_None by simp
  then show ?thesis by (simp add: unpack_job_def m_def del: replicate_Suc)
qed

text \<open>
  The buffer for control messages has room for a second descriptor; the kernel installs it, and the
  helper never closes it.
\<close>

theorem second_descriptor_stays_open:
  assumes "serve_one h e = Some (calls, r)" and "lm_control (sv_message e) = [(True, [pty, extra])]" and "extra \<noteq> pty"
  shows "Close_pty extra \<notin> set calls"
  using assms
  by (auto simp: serve_one_def serve_fail_def recv_fd_def split: if_splits option.splits sum.splits prod.splits)

text \<open>The lines of the control group are read in pieces of 255 bytes: a name that a piece cuts in two is not found.\<close>

theorem long_cgroup_is_refused:
  "\<not> cgroup_lines (replicate 250 CHR ''a'' @ ''faceplate.service'')"
proof -
  have f: "fgets 256 (replicate 250 CHR ''a'' @ ''faceplate.service'') = (replicate 250 CHR ''a'' @ ''facep'', ''late.service'')"
    by (simp add: eval_nat_numeral)
  show ?thesis
    by (subst cgroup_lines.simps) (simp add: f cstr_def, simp add: eval_nat_numeral cgroup_lines.simps cstr_def)
qed

end
