(* ===== verification/Lru.thy ===== *)
theory Lru
  imports Prelude
begin

text \<open>
  The cache of glyphs, \<open>src/shl/lru.h\<close>. The entries hang in a list, the one used last in front, and
  in a hash table by their key; the table is third-party code and holds the same entries, so the
  list stands for both, and the counter \<open>size\<close> is its length. What a user of the cache relies on is
  the locale \<open>memo_cache\<close>.
\<close>

section \<open>The cache\<close>

record 'v shl_lru =
  lru_max :: nat
  lru_list :: "(u64 \<times> 'v) list"

definition shl_lru_new :: "bool \<Rightarrow> nat \<Rightarrow> 'v shl_lru option" where
  "shl_lru_new mem n = (if n = 0 \<or> \<not> mem then None else Some \<lparr>lru_max = n, lru_list = []\<rparr>)"

fun unlink_key :: "u64 \<Rightarrow> (u64 \<times> 'v) list \<Rightarrow> (u64 \<times> 'v) list" where
  "unlink_key key [] = []"
| "unlink_key key (x # xs) = (if fst x = key then xs else x # unlink_key key xs)"

definition shl_lru_get :: "'v shl_lru \<Rightarrow> u64 \<Rightarrow> 'v option \<times> 'v shl_lru" where
  "shl_lru_get lru key =
     (case find (\<lambda>x. fst x = key) (lru_list lru) of
        None \<Rightarrow> (None, lru)
      | Some x \<Rightarrow> (Some (snd x), lru\<lparr>lru_list := x # unlink_key key (lru_list lru)\<rparr>))"

definition shl_lru_evict :: "'v shl_lru \<Rightarrow> status \<times> 'v shl_lru" where
  "shl_lru_evict lru =
     (if lru_list lru = [] then (fails ENOENT, lru) else (ok, lru\<lparr>lru_list := butlast (lru_list lru)\<rparr>))"

definition shl_lru_insert :: "bool \<Rightarrow> 'v shl_lru \<Rightarrow> u64 \<Rightarrow> 'v \<Rightarrow> status \<times> 'v shl_lru" where
  "shl_lru_insert mem lru key v =
     (let (ret, lru) = (if length (lru_list lru) \<ge> lru_max lru then shl_lru_evict lru else (ok, lru))
      in if ret \<noteq> ok then (fails ENOMEM, lru)
         else if \<not> mem then (fails ENOMEM, lru)
         else (ok, lru\<lparr>lru_list := (key, v) # lru_list lru\<rparr>))"

text \<open>The value is released with its entry.\<close>

definition shl_lru_free :: "'v shl_lru \<Rightarrow> 'v list" where
  "shl_lru_free lru = map snd (lru_list lru)"

definition lru_inv :: "'v shl_lru \<Rightarrow> bool" where
  "lru_inv lru \<longleftrightarrow> distinct (map fst (lru_list lru)) \<and> length (lru_list lru) \<le> lru_max lru \<and> 0 < lru_max lru"

lemma unlink_key_set: "distinct (map fst xs) \<Longrightarrow> set (unlink_key key xs) = {x \<in> set xs. fst x \<noteq> key}"
  by (induction xs) force+

lemma unlink_key_map: "distinct (map fst xs) \<Longrightarrow> map fst (unlink_key key xs) = removeAll key (map fst xs)"
  by (induction xs) auto

lemma find_key: "find (\<lambda>x. fst x = key) xs = None \<longleftrightarrow> key \<notin> fst ` set xs"
  by (induction xs) auto

lemma find_key_Some: "find (\<lambda>x. fst x = key) xs = Some x \<Longrightarrow> x \<in> set xs \<and> fst x = key"
  by (induction xs) (auto split: if_splits)

lemma unlink_key_length: "key \<in> fst ` set xs \<Longrightarrow> Suc (length (unlink_key key xs)) = length xs"
  by (induction xs) auto

section \<open>What a user of a cache relies on\<close>

locale memo_cache =
  fixes lookup :: "'c \<Rightarrow> 'k \<Rightarrow> 'v option \<times> 'c"
    and insert :: "'c \<Rightarrow> 'k \<Rightarrow> 'v \<Rightarrow> 'c"
    and entries :: "'c \<Rightarrow> ('k \<times> 'v) set"
    and inv :: "'c \<Rightarrow> bool"
  assumes lookup_hit: "inv c \<Longrightarrow> lookup c k = (Some v, c') \<Longrightarrow> (k, v) \<in> entries c"
    and lookup_keeps: "inv c \<Longrightarrow> lookup c k = (r, c') \<Longrightarrow> entries c' = entries c \<and> inv c'"
    and insert_adds: "inv c \<Longrightarrow> lookup c k = (None, c') \<Longrightarrow> entries (insert c' k v) \<subseteq> Set.insert (k, v) (entries c) \<and> inv (insert c' k v)"
begin

text \<open>The cache only holds what the function \<open>f\<close> gives; reading it, or adding \<open>f k\<close> on a miss, keeps that.\<close>

definition agrees :: "('k \<Rightarrow> 'v) \<Rightarrow> 'c \<Rightarrow> bool" where
  "agrees f c \<longleftrightarrow> inv c \<and> (\<forall>(k, v)\<in>entries c. v = f k)"

lemma hit_right: "agrees f c \<Longrightarrow> lookup c k = (Some v, c') \<Longrightarrow> v = f k \<and> agrees f c'"
  using lookup_hit lookup_keeps by (fastforce simp: agrees_def)

lemma miss_keeps: "agrees f c \<Longrightarrow> lookup c k = (None, c') \<Longrightarrow> agrees f c' \<and> agrees f (insert c' k (f k))"
  using lookup_keeps [of c k] insert_adds [of c k] by (fastforce simp: agrees_def)

end

text \<open>An insertion that finds memory.\<close>

definition lru_add :: "'v shl_lru \<Rightarrow> u64 \<Rightarrow> 'v \<Rightarrow> 'v shl_lru" where
  "lru_add lru key v = snd (shl_lru_insert True lru key v)"

lemma lru_insert_ok:
  assumes "lru_inv lru"
  shows "shl_lru_insert True lru key v = (ok, lru_add lru key v)"
    "lru_list (lru_add lru key v) = (key, v) # take (lru_max lru - 1) (lru_list lru)" "lru_max (lru_add lru key v) = lru_max lru"
proof -
  have b: "length (lru_list lru) \<le> lru_max lru" "0 < lru_max lru" using assms by (simp_all add: lru_inv_def)
  have "shl_lru_insert True lru key v = (ok, lru_add lru key v) \<and>
    lru_list (lru_add lru key v) = (key, v) # take (lru_max lru - 1) (lru_list lru) \<and> lru_max (lru_add lru key v) = lru_max lru"
  proof (cases "length (lru_list lru) \<ge> lru_max lru")
    case True
    then have "lru_list lru \<noteq> []" "butlast (lru_list lru) = take (lru_max lru - 1) (lru_list lru)"
      using b by (auto simp: butlast_conv_take)
    then show ?thesis using True by (simp add: lru_add_def shl_lru_insert_def shl_lru_evict_def)
  next
    case False
    then show ?thesis using b by (simp add: lru_add_def shl_lru_insert_def)
  qed
  then show "shl_lru_insert True lru key v = (ok, lru_add lru key v)"
    "lru_list (lru_add lru key v) = (key, v) # take (lru_max lru - 1) (lru_list lru)" "lru_max (lru_add lru key v) = lru_max lru"
    by auto
qed

lemma lru_get_cases:
  assumes "lru_inv lru" "shl_lru_get lru key = (r, lru')"
  shows "lru_inv lru' \<and> set (lru_list lru') = set (lru_list lru) \<and> lru_max lru' = lru_max lru \<and>
    (case r of
       None \<Rightarrow> key \<notin> fst ` set (lru_list lru) \<and> lru' = lru
     | Some v \<Rightarrow> (key, v) \<in> set (lru_list lru) \<and> map fst (lru_list lru') = key # removeAll key (map fst (lru_list lru)))"
proof (cases "find (\<lambda>x. fst x = key) (lru_list lru)")
  case None
  then have "r = None" "lru' = lru" using assms(2) by (simp_all add: shl_lru_get_def)
  then show ?thesis using None assms(1) by (simp add: find_key)
next
  case (Some x)
  note x = find_key_Some [OF Some]
  have d: "distinct (map fst (lru_list lru))" using assms(1) by (simp add: lru_inv_def)
  have "r = Some (snd x)" "lru' = lru\<lparr>lru_list := x # unlink_key key (lru_list lru)\<rparr>"
    using assms(2) Some by (auto simp: shl_lru_get_def)
  moreover have "set (x # unlink_key key (lru_list lru)) = set (lru_list lru)"
  proof -
    have "y = x" if "y \<in> set (lru_list lru)" "fst y = key" for y
      using that x d by (metis distinct_map inj_onD)
    then show ?thesis using x d by (auto simp: unlink_key_set)
  qed
  moreover have "Suc (length (unlink_key key (lru_list lru))) = length (lru_list lru)"
    using x by (intro unlink_key_length) force
  moreover have "map fst (unlink_key key (lru_list lru)) = removeAll key (map fst (lru_list lru))"
    using d by (rule unlink_key_map)
  ultimately show ?thesis
    using assms(1) x d by (cases x) (auto simp: lru_inv_def distinct_removeAll)
qed

lemma lru_add_inv: "lru_inv lru \<Longrightarrow> key \<notin> fst ` set (lru_list lru) \<Longrightarrow> lru_inv (lru_add lru key v)"
  using lru_insert_ok [of lru key v]
  by (auto simp: lru_inv_def take_map [symmetric] dest: in_set_takeD)

interpretation lru: memo_cache shl_lru_get lru_add "\<lambda>lru. set (lru_list lru)" lru_inv
proof unfold_locales
  fix c :: "'a shl_lru" and k v c' r
  assume c: "lru_inv c"
  show "shl_lru_get c k = (Some v, c') \<Longrightarrow> (k, v) \<in> set (lru_list c)"
    using lru_get_cases [OF c] by fastforce
  show "shl_lru_get c k = (r, c') \<Longrightarrow> set (lru_list c') = set (lru_list c) \<and> lru_inv c'"
    using lru_get_cases [OF c] by blast
  show "shl_lru_get c k = (None, c') \<Longrightarrow>
    set (lru_list (lru_add c' k v)) \<subseteq> Set.insert (k, v) (set (lru_list c)) \<and> lru_inv (lru_add c' k v)"
    using lru_get_cases [OF c, of k None c'] lru_insert_ok [OF c, of k v] lru_add_inv [OF c, of k v]
    by (auto dest: in_set_takeD)
qed

section \<open>Which entries survive\<close>

text \<open>The keys by the time of their last use, of a cache without a bound.\<close>

definition touch :: "u64 \<Rightarrow> u64 list \<Rightarrow> u64 list" where
  "touch key hist = key # removeAll key hist"

text \<open>The use of the cache by its client: a lookup, and on a miss an insertion.\<close>

definition lru_use :: "(u64 \<Rightarrow> 'v) \<Rightarrow> u64 \<Rightarrow> 'v shl_lru \<Rightarrow> 'v shl_lru" where
  "lru_use f key lru =
     (case shl_lru_get lru key of
        (Some v, lru) \<Rightarrow> lru
      | (None, lru) \<Rightarrow> snd (shl_lru_insert True lru key (f key)))"

lemma take_removeAll_hit:
  "distinct xs \<Longrightarrow> x \<in> set (take n xs) \<Longrightarrow> take (n - 1) (removeAll x xs) = removeAll x (take n xs)"
proof (induction n arbitrary: xs)
  case (Suc n)
  then obtain y ys where xs: "xs = y # ys" by (cases xs) auto
  show ?case
  proof (cases "x = y")
    case True
    then show ?thesis using Suc.prems xs by (simp add: removeAll_id) (metis in_set_takeD removeAll_id)
  next
    case False
    then have m: "x \<in> set (take n ys)" using Suc.prems xs by simp
    then have "n > 0" by (cases n) auto
    moreover have "take (n - 1) (removeAll x ys) = removeAll x (take n ys)" using Suc.IH m Suc.prems(1) xs by simp
    ultimately show ?thesis using False xs by (cases n) simp_all
  qed
qed simp

lemma take_removeAll_miss: "x \<notin> set (take n xs) \<Longrightarrow> m \<le> n \<Longrightarrow> take m (removeAll x xs) = take m xs"
proof (induction m arbitrary: n xs)
  case (Suc m)
  then show ?case by (cases xs; cases n) auto
qed simp

lemma lru_use_step:
  assumes "lru_inv lru" "distinct hist" "map fst (lru_list lru) = take (lru_max lru) hist"
  shows "lru_inv (lru_use f key lru) \<and> lru_max (lru_use f key lru) = lru_max lru \<and>
    map fst (lru_list (lru_use f key lru)) = take (lru_max lru) (touch key hist)"
proof -
  obtain r lru' where g: "shl_lru_get lru key = (r, lru')" by fastforce
  note c = lru_get_cases [OF assms(1) g]
  have m: "0 < lru_max lru" using assms(1) by (simp add: lru_inv_def)
  have k: "key \<in> fst ` set (lru_list lru) \<longleftrightarrow> key \<in> set (take (lru_max lru) hist)"
    using arg_cong [OF assms(3), of set] by simp
  have t: "take (lru_max lru) (touch key hist) = key # take (lru_max lru - 1) (removeAll key hist)"
    using m by (cases "lru_max lru") (simp_all add: touch_def)
  show ?thesis
  proof (cases r)
    case None
    then have n: "key \<notin> set (take (lru_max lru) hist)" "lru' = lru" "key \<notin> fst ` set (lru_list lru)" using c k by auto
    have "lru_use f key lru = lru_add lru key (f key)" using g None n by (simp add: lru_use_def lru_add_def)
    moreover have "map fst (lru_list (lru_add lru key (f key))) = key # take (lru_max lru - 1) hist"
      using lru_insert_ok(2) [OF assms(1)] assms(3) by (simp add: take_map [symmetric])
    ultimately show ?thesis
      using t take_removeAll_miss [OF n(1), of "lru_max lru - 1"] lru_add_inv [OF assms(1) n(3)] lru_insert_ok(3) [OF assms(1)]
      by simp
  next
    case (Some v)
    then have "key \<in> set (take (lru_max lru) hist)" using c k by force
    from take_removeAll_hit [OF assms(2) this] show ?thesis
      using c Some g t assms(3) by (simp add: lru_use_def)
  qed
qed

lemma lru_use_agrees:
  assumes "lru.agrees f c"
  shows "lru.agrees f (lru_use f key c)"
proof -
  obtain r c' where g: "shl_lru_get c key = (r, c')" by fastforce
  show ?thesis
  proof (cases r)
    case None
    then show ?thesis using lru.miss_keeps [OF assms] g by (simp add: lru_use_def lru_add_def)
  next
    case (Some v)
    then show ?thesis using lru.hit_right [OF assms] g by (simp add: lru_use_def)
  qed
qed

text \<open>
  Property C34. The cache always holds the entries used last, as many as fit, in the order of their
  last use and each with the value that it was given: it is the front of what a cache without a
  bound would hold, and nothing is dropped while there is room. A key that is dropped and used again
  gets its value anew.
\<close>

theorem lru_keeps_the_last_used:
  assumes "shl_lru_new True n = Some lru"
  shows "lru_list (fold (lru_use f) keys lru) = map (\<lambda>k. (k, f k)) (take n (fold touch keys []))"
proof -
  have start: "lru_inv lru" "lru_max lru = n" "lru_list lru = []"
    using assms by (auto simp: shl_lru_new_def lru_inv_def split: if_splits)
  have run: "lru.agrees f (fold (lru_use f) keys l) \<and>
      map fst (lru_list (fold (lru_use f) keys l)) = take n (fold touch keys h)"
    if "lru.agrees f l" "distinct h" "map fst (lru_list l) = take n h" "lru_max l = n" for l h
    using that
  proof (induction keys arbitrary: l h)
    case (Cons key keys)
    have l: "lru_inv l" using Cons.prems(1) by (simp add: lru.agrees_def)
    have "distinct (touch key h)" using Cons.prems(2) by (simp add: touch_def distinct_removeAll)
    then show ?case
      using Cons.IH [OF lru_use_agrees [OF Cons.prems(1), of key], of "touch key h"]
        lru_use_step [OF l Cons.prems(2)] Cons.prems(3,4) by simp
  qed simp
  let ?xs = "lru_list (fold (lru_use f) keys lru)"
  have r: "lru.agrees f (fold (lru_use f) keys lru)" "map fst ?xs = take n (fold touch keys [])"
    using run [of lru "[]"] start by (simp_all add: lru.agrees_def)
  have "?xs = map (\<lambda>k. (k, f k)) (map fst ?xs)"
    unfolding map_map by (rule map_idI [symmetric]) (use r(1) in \<open>auto simp: lru.agrees_def\<close>)
  then show ?thesis by (simp only: r(2))
qed

theorem lru_keeps_the_last_used_witness:
  "lru_list (fold (lru_use (\<lambda>k. k + 1)) [1, 2, 1, 3] \<lparr>lru_max = 2, lru_list = []\<rparr>) = [(3, 4), (1, 2 :: u64)]"
  using lru_keeps_the_last_used [of 2 "\<lparr>lru_max = 2, lru_list = []\<rparr>" "\<lambda>k. k + 1" "[1, 2, 1, 3]"]
  by (simp add: shl_lru_new_def touch_def)

end
