(* ===== verification/Bbulk.thy ===== *)
theory Bbulk
  imports Text Lru
begin

text \<open>
  The software renderer, \<open>src/render/bbulk.c\<close>: a backend of the text renderer that blends the
  cells that changed, one glyph each, paints the chrome around the terminal and reports the damaged
  part of the screen. Its operations are the entries of the table at the end.

  The calls of the display are recorded in \<open>bb_calls\<close>. What the font gives for a character, what the
  display says of itself and the allocator are the environment. Screen coordinates are words with
  their wrap-around; offsets into the arrays of cells are numbers, as an array of \<open>cols * rows\<close>
  cells fits in memory.
\<close>

section \<open>Constants\<close>

abbreviation ID_DAMAGED :: u32 where "ID_DAMAGED \<equiv> 0x80000001"
abbreviation ID_OVERFLOW :: u32 where "ID_OVERFLOW \<equiv> 0x80000002"
abbreviation DAMAGE_MERGE_LEN :: nat where "DAMAGE_MERGE_LEN \<equiv> 3"
abbreviation FONT_REPLACEMENT_CHAR :: u32 where "FONT_REPLACEMENT_CHAR \<equiv> 0x25a1"
abbreviation BRAND_ROWS :: u32 where "BRAND_ROWS \<equiv> 3"
abbreviation PAD_COLS :: u32 where "PAD_COLS \<equiv> 2"
abbreviation PAD_ROWS :: u32 where "PAD_ROWS \<equiv> 1"
abbreviation FOOTER_GAP_ROWS :: u32 where "FOOTER_GAP_ROWS \<equiv> 2"
abbreviation CARD_Y0 :: u32 where "CARD_Y0 \<equiv> 4"
abbreviation TOP_ROWS :: u32 where "TOP_ROWS \<equiv> 5"
abbreviation BOTTOM_ROWS :: u32 where "BOTTOM_ROWS \<equiv> 4"
abbreviation HORIZONTAL_CELLS :: u32 where "HORIZONTAL_CELLS \<equiv> 14"
abbreviation SAFE_MARGIN_ROWS :: u32 where "SAFE_MARGIN_ROWS \<equiv> 8"
abbreviation BORDER_PX :: u32 where "BORDER_PX \<equiv> 1"

definition col :: "u8 \<Rightarrow> u8 \<Rightarrow> u8 \<Rightarrow> rgb" where
  "col r g b = \<lparr>col_r = r, col_g = g, col_b = b\<rparr>"

abbreviation PAGE :: rgb where "PAGE \<equiv> col 11 18 32"
abbreviation CARD_BG :: rgb where "CARD_BG \<equiv> col 0 0 0"
abbreviation CARD_BORDER :: rgb where "CARD_BORDER \<equiv> col 51 65 85"
abbreviation MUTED :: rgb where "MUTED \<equiv> col 148 163 184"
abbreviation ONLINE :: rgb where "ONLINE \<equiv> col 110 231 183"
abbreviation ALERT :: rgb where "ALERT \<equiv> col 251 146 60"
abbreviation HOST :: rgb where "HOST \<equiv> col 248 250 252"
abbreviation TITLE :: rgb where "TITLE \<equiv> col 244 248 255"

section \<open>State\<close>

record kmscon_glyph =
  gl_double :: bool
  gl_buf :: video_buffer

record video_blend_req =
  rq_buf :: video_buffer
  rq_x :: u32
  rq_y :: u32
  rq_w :: u32
  rq_h :: u32
  rq_fg :: rgb
  rq_bg :: rgb

text \<open>The members are \<open>int32_t\<close>; an unsigned value that is stored there is read with its sign.\<close>

record video_rect =
  vr_x1 :: int
  vr_y1 :: int
  vr_x2 :: int
  vr_y2 :: int

record cell_flags =
  cf_double :: bool
  cf_damaged :: bool

datatype disp_call =
    Display_blend video_blend_req
  | Display_clear rgb
  | Display_set_cursor_offset u32 u32
  | Display_set_damage "video_rect list"

text \<open>
  \<open>bb_rects\<close> is the used part of \<open>damage_rects\<close>, of length \<open>damage_rect_len\<close>; \<open>bb_rects_max\<close> is the
  number of rectangles that were allocated.
\<close>

record bbulk =
  bb_sw :: u32
  bb_sh :: u32
  bb_off_x :: u32
  bb_off_y :: u32
  bb_max_x :: u32
  bb_max_y :: u32
  bb_attr :: tsm_screen_attr
  bb_requests :: nat
  bb_glyphs :: "kmscon_glyph option shl_lru option"
  bb_cells :: "tsm_screen_cell list"
  bb_flags :: "cell_flags list"
  bb_rects_max :: nat
  bb_rects :: "video_rect list"
  bb_redraw :: nat
  bb_calls :: "disp_call list"

type_synonym bb_text = "bbulk kmscon_text"

text \<open>Underline, italic, bold.\<close>

type_synonym font_style = "bool \<times> bool \<times> bool"

text \<open>
  \<open>be_junk\<close> is what the bit \<open>double_width\<close> holds in memory that \<open>malloc\<close> returned.
\<close>

record bbulk_env =
  be_abi :: tsm_abi
  be_mem :: bool
  be_junk :: "nat \<Rightarrow> bool"
  be_has :: "font_style \<Rightarrow> u32 \<Rightarrow> bool"
  be_render :: "font_style \<Rightarrow> u32 \<Rightarrow> kmscon_glyph option"
  be_width :: u32
  be_height :: u32
  be_supports_damage :: bool
  be_need_redraw :: bool
  be_has_damage :: bool

definition FONT_WIDTH :: "'d kmscon_text \<Rightarrow> u32" where
  "FONT_WIDTH txt = (case txt_font txt of None \<Rightarrow> 0 | Some f \<Rightarrow> attr_width f)"

definition FONT_HEIGHT :: "'d kmscon_text \<Rightarrow> u32" where
  "FONT_HEIGHT txt = (case txt_font txt of None \<Rightarrow> 0 | Some f \<Rightarrow> attr_height f)"

definition upd_bb :: "(bbulk \<Rightarrow> bbulk) \<Rightarrow> bb_text \<Rightarrow> bb_text" where
  "upd_bb f txt = txt\<lparr>txt_data := f (txt_data txt)\<rparr>"

definition emit_disp :: "disp_call \<Rightarrow> bb_text \<Rightarrow> bb_text" where
  "emit_disp c = upd_bb (\<lambda>bb. bb\<lparr>bb_calls := bb_calls bb @ [c]\<rparr>)"

section \<open>Life cycle\<close>

definition attr_zero :: tsm_screen_attr where
  "attr_zero = \<lparr>sa_fg = col 0 0 0, sa_bg = col 0 0 0, sa_rest = []\<rparr>"

definition bb_zero :: "disp_call list \<Rightarrow> bbulk" where
  "bb_zero calls =
     \<lparr>bb_sw = 0, bb_sh = 0, bb_off_x = 0, bb_off_y = 0, bb_max_x = 0, bb_max_y = 0, bb_attr = attr_zero, bb_requests = 0,
      bb_glyphs = None, bb_cells = [], bb_flags = [], bb_rects_max = 0, bb_rects = [], bb_redraw = 0, bb_calls = calls\<rparr>"

definition bbulk_init :: "bbulk_env \<Rightarrow> bb_text \<Rightarrow> status \<times> bb_text" where
  "bbulk_init e txt = (if \<not> be_mem e then (fails ENOMEM, txt) else (ok, txt\<lparr>txt_data := bb_zero []\<rparr>))"

definition damage_cell :: "nat \<Rightarrow> bbulk \<Rightarrow> bbulk" where
  "damage_cell off bb =
     bb\<lparr>bb_cells := (bb_cells bb)[off := (bb_cells bb ! off)\<lparr>cell_ch := ID_DAMAGED\<rparr>],
        bb_flags := (bb_flags bb)[off := (bb_flags bb ! off)\<lparr>cf_damaged := True\<rparr>]\<rparr>"

definition top_offset :: "u32 \<Rightarrow> u32 \<Rightarrow> u32 \<Rightarrow> u32" where
  "top_offset sh content_h fh =
     (if sh > content_h then
        let free_h = sh - content_h;
            top_bias = free_h div 5;
            top_bias = (if top_bias < fh then fh else top_bias)
        in if top_bias > free_h div 3 then free_h div 3 else top_bias
      else 0)"

definition compute_border :: "bb_text \<Rightarrow> bb_text" where
  "compute_border txt =
     (let bb = txt_data txt;
          fw = FONT_WIDTH txt; fh = FONT_HEIGHT txt;
          bb = (if upright (txt_orientation txt) then
                  let card_cols = txt_cols txt + 2 * PAD_COLS;
                      content_h = (txt_rows txt + TOP_ROWS + BOTTOM_ROWS) * fh;
                      off_x = (bb_sw bb - card_cols * fw) div 2;
                      off_y = top_offset (bb_sh bb) content_h fh
                  in bb\<lparr>bb_off_x := off_x, bb_off_y := off_y, bb_max_x := off_x + card_cols * fw, bb_max_y := off_y + content_h\<rparr>
                else
                  let off_x = (bb_sw bb - (txt_rows txt + 2) * fh) div 2;
                      off_y = (bb_sh bb - txt_cols txt * fw) div 2
                  in bb\<lparr>bb_off_x := off_x, bb_off_y := off_y, bb_max_x := off_x + txt_rows txt * fh,
                        bb_max_y := off_y + txt_cols txt * fw\<rparr>)
      in emit_disp (Display_set_cursor_offset (bb_off_x bb + PAD_COLS * fw) (bb_off_y bb + TOP_ROWS * fh)) (txt\<lparr>txt_data := bb\<rparr>))"

definition less_chrome :: "u32 \<Rightarrow> u32 \<Rightarrow> u32" where
  "less_chrome n chrome = (if n > chrome then n - chrome else n)"

text \<open>Without the unsigned arithmetic of the code; \<open>max_damage_rects_unsigned\<close> shows that it is the same.\<close>

definition max_damage_rects :: "u32 \<Rightarrow> u32 \<Rightarrow> nat" where
  "max_damage_rects cols rows = (unat cols + DAMAGE_MERGE_LEN) div (DAMAGE_MERGE_LEN + 1) * (unat rows + 2) + 2"

definition bbulk_set :: "bbulk_env \<Rightarrow> bb_text \<Rightarrow> status \<times> bb_text" where
  "bbulk_set e txt =
     (let bb = (bb_zero (bb_calls (txt_data txt)))\<lparr>bb_sw := be_width e, bb_sh := be_height e\<rparr>;
          txt = txt\<lparr>txt_data := bb\<rparr>;
          fw = FONT_WIDTH txt; fh = FONT_HEIGHT txt
      in if bb_sw bb = 0 \<or> bb_sh bb = 0 then (fails EINVAL, txt)
         else
           let (cols, rows) = (if upright (txt_orientation txt) then (bb_sw bb div fw, bb_sh bb div fh)
                               else (bb_sh bb div fw, bb_sw bb div fh));
               cols = less_chrome cols (HORIZONTAL_CELLS + 2 * PAD_COLS);
               rows = less_chrome rows (TOP_ROWS + BOTTOM_ROWS + SAFE_MARGIN_ROWS);
               txt = compute_border (txt\<lparr>txt_max_cols := cols, txt_max_rows := rows, txt_cols := cols, txt_rows := rows\<rparr>);
               cell_count = unat (cols * (rows + 2))
           in if \<not> be_mem e then (fails ENOMEM, txt)
              else
                let bb = (txt_data txt)
                      \<lparr>bb_cells := replicate cell_count (cell_zero\<lparr>cell_ch := ID_DAMAGED\<rparr>),
                       bb_flags := map (\<lambda>i. \<lparr>cf_double = be_junk e i, cf_damaged = True\<rparr>) [0..<cell_count],
                       bb_rects_max := max_damage_rects cols rows\<rparr>
                in (case shl_lru_new True (2 * cell_count) of
                      None \<Rightarrow> (fails ENOMEM, txt\<lparr>txt_data := bb\<rparr>)
                    | Some lru \<Rightarrow> (ok, txt\<lparr>txt_data := bb\<lparr>bb_glyphs := Some lru\<rparr>\<rparr>)))"

definition bbulk_unset :: "bb_text \<Rightarrow> bb_text" where
  "bbulk_unset = upd_bb (\<lambda>bb. bb\<lparr>bb_glyphs := None, bb_rects_max := 0, bb_rects := [], bb_flags := [], bb_cells := []\<rparr>)"

definition bbulk_resize :: "bb_text \<Rightarrow> u32 \<Rightarrow> u32 \<Rightarrow> bb_text" where
  "bbulk_resize txt cols rows = upd_bb (\<lambda>bb. bb\<lparr>bb_redraw := 2\<rparr>) (compute_border (txt\<lparr>txt_cols := cols, txt_rows := rows\<rparr>))"

definition bbulk_rotate :: "bbulk_env \<Rightarrow> bb_text \<Rightarrow> orientation \<Rightarrow> status \<times> bb_text" where
  "bbulk_rotate e txt r = bbulk_set e ((bbulk_unset txt)\<lparr>txt_orientation := r\<rparr>)"

section \<open>Glyphs\<close>

text \<open>The pixel of the rotated glyph that the pixel in row \<open>i\<close>, column \<open>j\<close> of a \<open>w\<close> by \<open>h\<close> glyph goes to.\<close>

fun rotated_pos :: "orientation \<Rightarrow> nat \<Rightarrow> nat \<Rightarrow> nat \<Rightarrow> nat \<Rightarrow> nat" where
  "rotated_pos OR_NORMAL w h i j = i * w + j"
| "rotated_pos OR_RIGHT w h i j = j * h + (h - i - 1)"
| "rotated_pos OR_UPSIDE_DOWN w h i j = (h - i - 1) * w + (w - j - 1)"
| "rotated_pos OR_LEFT w h i j = (w - j - 1) * h + i"

definition rotate_data :: "orientation \<Rightarrow> nat \<Rightarrow> nat \<Rightarrow> u8 list \<Rightarrow> u8 list" where
  "rotate_data r w h src =
     (if r = OR_NORMAL then replicate (w * h) 0
      else fold (\<lambda>(i, j) dst. dst[rotated_pos r w h i j := src ! (i * w + j)]) (List.product [0..<h] [0..<w]) (replicate (w * h) 0))"

definition bbulk_rotate_glyph :: "bool \<Rightarrow> kmscon_glyph \<Rightarrow> orientation \<Rightarrow> kmscon_glyph option" where
  "bbulk_rotate_glyph mem g r =
     (if \<not> mem then None
      else
        let buf = gl_buf g;
            data = rotate_data r (unat (vb_width buf)) (unat (vb_height buf)) (vb_data buf)
        in Some (if upright r then g\<lparr>gl_buf := buf\<lparr>vb_data := data\<rparr>\<rparr>
                 else g\<lparr>gl_buf := \<lparr>vb_width = vb_height buf, vb_height = vb_width buf, vb_data = data\<rparr>\<rparr>))"

definition kmscon_glyph_id :: "u32 \<Rightarrow> u8 \<Rightarrow> u64" where
  "kmscon_glyph_id ch a = or (ucast ch) (push_bit 32 (ucast a))"

definition cell_style :: "bbulk_env \<Rightarrow> tsm_screen_cell \<Rightarrow> font_style" where
  "cell_style e c =
     (bit_underline (be_abi e) (cell_attr2 c), bit_italic (be_abi e) (cell_attr2 c), bit_bold (be_abi e) (cell_attr2 c))"

text \<open>
  The glyph that a miss of the cache makes: rendered by the font, then turned. The two can fail
  apart: without a rendered glyph \<open>find_glyph\<close> gives up, but a glyph that cannot be turned is a null
  pointer that it puts into the cache like any other, where it counts as an entry and is a miss.
\<close>

definition render_glyph :: "bbulk_env \<Rightarrow> tsm_screen_cell \<Rightarrow> kmscon_glyph option" where
  "render_glyph e c =
     (let style = cell_style e c;
          ch = (if cell_ch c \<noteq> 0 then cell_ch c else 32);
          ch = (if \<not> be_has e style ch then FONT_REPLACEMENT_CHAR else ch)
      in be_render e style ch)"

definition turn_glyph :: "bbulk_env \<Rightarrow> orientation \<Rightarrow> kmscon_glyph \<Rightarrow> kmscon_glyph option" where
  "turn_glyph e r g = (if r \<noteq> OR_NORMAL then bbulk_rotate_glyph (be_mem e) g r else Some g)"

definition make_glyph :: "bbulk_env \<Rightarrow> orientation \<Rightarrow> tsm_screen_cell \<Rightarrow> kmscon_glyph option" where
  "make_glyph e r c = Option.bind (render_glyph e c) (turn_glyph e r)"

definition find_glyph :: "bbulk_env \<Rightarrow> bb_text \<Rightarrow> tsm_screen_cell \<Rightarrow> kmscon_glyph option \<times> bb_text" where
  "find_glyph e txt c =
     (case bb_glyphs (txt_data txt) of
        None \<Rightarrow> (None, txt)
      | Some lru \<Rightarrow>
          let id = kmscon_glyph_id (cell_ch c) (cell_attr2 c);
              keep = (\<lambda>lru. upd_bb (\<lambda>bb. bb\<lparr>bb_glyphs := Some lru\<rparr>) txt)
          in (case shl_lru_get lru id of
                (Some (Some g), lru) \<Rightarrow> (Some g, keep lru)
              | (_, lru) \<Rightarrow>
                  (case render_glyph e c of
                     None \<Rightarrow> (None, keep lru)
                   | Some g \<Rightarrow>
                       let g = turn_glyph e (txt_orientation txt) g
                       in (case shl_lru_insert (be_mem e) lru id g of
                             (Some err, lru) \<Rightarrow> (None, keep lru)
                           | (None, lru) \<Rightarrow> (g, keep lru)))))"

section \<open>Drawing a cell\<close>

text \<open>The top left corner of a cell.\<close>

definition set_coordinate :: "bb_text \<Rightarrow> u32 \<Rightarrow> u32 \<Rightarrow> u32 \<times> u32" where
  "set_coordinate txt posx posy =
     (let bb = txt_data txt; fw = FONT_WIDTH txt; fh = FONT_HEIGHT txt
      in case txt_orientation txt of
           OR_NORMAL \<Rightarrow> (posx * fw + bb_off_x bb, posy * fh + bb_off_y bb)
         | OR_UPSIDE_DOWN \<Rightarrow> (bb_max_x bb - (posx + 1) * fw, bb_max_y bb - (posy + 1) * fh)
         | OR_RIGHT \<Rightarrow> (bb_max_x bb - (posy + 1) * fh, posx * fw + bb_off_y bb)
         | OR_LEFT \<Rightarrow> (posy * fh + bb_off_x bb, bb_max_y bb - (posx + 1) * fw))"

definition glyph_request :: "kmscon_glyph \<Rightarrow> u32 \<times> u32 \<Rightarrow> tsm_screen_cell \<Rightarrow> video_blend_req" where
  "glyph_request g xy c =
     \<lparr>rq_buf = gl_buf g, rq_x = fst xy, rq_y = snd xy, rq_w = vb_width (gl_buf g), rq_h = vb_height (gl_buf g),
      rq_fg = cell_fg c, rq_bg = cell_bg c\<rparr>"

text \<open>A glyph of two cells is drawn from the next cell when it is turned, and cut in the last column.\<close>

definition cell_request :: "bb_text \<Rightarrow> kmscon_glyph \<Rightarrow> tsm_screen_cell \<Rightarrow> nat \<Rightarrow> nat \<Rightarrow> bool \<Rightarrow> video_blend_req" where
  "cell_request txt g c posx posy last_col =
     (let r = txt_orientation txt;
          x = (if gl_double g \<and> \<not> last_col \<and> (r = OR_LEFT \<or> r = OR_UPSIDE_DOWN)
               then of_nat posx + 1 + PAD_COLS else of_nat posx + PAD_COLS);
          req = glyph_request g (set_coordinate txt x (of_nat posy + TOP_ROWS)) c
      in if gl_double g \<and> last_col
         then (if upright r then req\<lparr>rq_w := FONT_WIDTH txt\<rparr> else req\<lparr>rq_h := FONT_WIDTH txt\<rparr>)
         else req)"

definition flag_damaged :: "nat \<Rightarrow> bool \<Rightarrow> bbulk \<Rightarrow> bbulk" where
  "flag_damaged off b bb = bb\<lparr>bb_flags := (bb_flags bb)[off := (bb_flags bb ! off)\<lparr>cf_damaged := b\<rparr>]\<rparr>"

definition flag_double :: "nat \<Rightarrow> bool \<Rightarrow> bbulk \<Rightarrow> bbulk" where
  "flag_double off b bb = bb\<lparr>bb_flags := (bb_flags bb)[off := (bb_flags bb ! off)\<lparr>cf_double := b\<rparr>]\<rparr>"

definition put_cell :: "nat \<Rightarrow> tsm_screen_cell \<Rightarrow> bbulk \<Rightarrow> bbulk" where
  "put_cell off c bb = bb\<lparr>bb_cells := (bb_cells bb)[off := c]\<rparr>"

definition overflowed :: "nat \<Rightarrow> bbulk \<Rightarrow> bbulk" where
  "overflowed off bb =
     (if cell_ch (bb_cells bb ! off) = ID_OVERFLOW then flag_damaged off False bb
      else flag_damaged off True (put_cell off ((bb_cells bb ! off)\<lparr>cell_ch := ID_OVERFLOW\<rparr>) bb))"

definition bbulk_draw_cell :: "bbulk_env \<Rightarrow> tsm_screen_cell \<Rightarrow> nat \<Rightarrow> nat \<Rightarrow> bb_text \<Rightarrow> status \<times> bb_text" where
  "bbulk_draw_cell e c posx posy txt =
     (let bb = txt_data txt;
          cols = unat (txt_cols txt);
          off = posx + posy * cols;
          last_col = (posx = cols - 1);
          changed = (bb_cells bb ! off \<noteq> c);
          flags = bb_flags bb ! off
      in if (cell_ch c = 0 \<or> cell_ch c = 32) \<and> posx \<noteq> 0 \<and> cf_double (bb_flags bb ! (off - 1)) then (ok, upd_bb (overflowed off) txt)
         else if \<not> changed \<and> \<not> cf_damaged flags \<and> (cf_double flags \<and> \<not> last_col \<longrightarrow> \<not> cf_damaged (bb_flags bb ! (off + 1)))
         then (ok, txt)
         else
           let txt = upd_bb (\<lambda>bb. put_cell off c (flag_damaged off changed bb)) txt
           in (case find_glyph e txt c of
                 (None, txt) \<Rightarrow> (fails ENOMEM, txt)
               | (Some g, txt) \<Rightarrow>
                   let txt = (if gl_double g \<and> \<not> last_col \<and> changed then upd_bb (damage_cell (off + 1)) txt else txt);
                       txt = upd_bb (flag_double off (gl_double g)) txt;
                       txt = emit_disp (Display_blend (cell_request txt g c posx posy last_col)) txt
                   in (ok, upd_bb (\<lambda>bb. bb\<lparr>bb_requests := bb_requests bb + 1\<rparr>) txt)))"

text \<open>What is to be seen in a cell: the cursor, the cell, or a blank while it blinks.\<close>

definition wanted_cell :: "bbulk_env \<Rightarrow> bool \<Rightarrow> u32 \<Rightarrow> tsm_screen_cell list \<Rightarrow> kmscon_cursor \<Rightarrow> nat \<Rightarrow> nat \<Rightarrow> tsm_screen_cell" where
  "wanted_cell e blinking cols cells cursor posx posy =
     (let c = cells ! (posx + posy * unat cols)
      in if cur_visible cursor \<and> cur_x cursor = of_nat posx \<and> cur_y cursor = of_nat posy then cur_cell cursor
         else if bit_blink (be_abi e) (cell_attr2 c) \<and> blinking then c\<lparr>cell_ch := 32\<rparr>
         else c)"

definition grid :: "u32 \<Rightarrow> u32 \<Rightarrow> (nat \<times> nat) list" where
  "grid cols rows = List.product [0..<unat rows] [0..<unat cols]"

text \<open>The results of the cells are not looked at.\<close>

definition bbulk_draw :: "bbulk_env \<Rightarrow> bb_text \<Rightarrow> tsm_screen_cell list \<Rightarrow> kmscon_cursor \<Rightarrow> status \<times> bb_text" where
  "bbulk_draw e txt cells cursor =
     (ok, fold (\<lambda>(posy, posx) t. snd (bbulk_draw_cell e
            (wanted_cell e (txt_blinking txt) (txt_cols txt) cells cursor posx posy) posx posy t))
          (grid (txt_cols txt) (txt_rows txt)) txt)"

section \<open>The chrome\<close>

type_synonym bb_step = "bb_text \<Rightarrow> status \<times> bb_text"

fun run_steps :: "bb_step list \<Rightarrow> bb_step" where
  "run_steps [] txt = (ok, txt)"
| "run_steps (f # fs) txt = (case f txt of (None, txt) \<Rightarrow> run_steps fs txt | (Some err, txt) \<Rightarrow> (Some err, txt))"

definition paint_chrome_cell :: "bbulk_env \<Rightarrow> rgb \<Rightarrow> rgb \<Rightarrow> u32 \<Rightarrow> u32 \<Rightarrow> char \<Rightarrow> bb_step" where
  "paint_chrome_cell e bg fg gx gy ch txt =
     (let c = cell_zero\<lparr>cell_ch := of_nat (code ch), cell_fg := fg, cell_bg := bg\<rparr>
      in case find_glyph e txt c of
           (None, txt) \<Rightarrow> (fails ENOMEM, txt)
         | (Some g, txt) \<Rightarrow> (ok, emit_disp (Display_blend (glyph_request g (set_coordinate txt gx gy) c)) txt))"

definition paint_chrome_span :: "bbulk_env \<Rightarrow> rgb \<Rightarrow> u32 \<Rightarrow> u32 \<Rightarrow> u32 \<Rightarrow> bb_step" where
  "paint_chrome_span e bg y x0 x1 =
     run_steps (map (\<lambda>x. paint_chrome_cell e bg (col 180 196 255) (of_nat x) y CHR '' '') [unat x0..<unat x1])"

definition fill_solid_rect :: "bbulk_env \<Rightarrow> u32 \<Rightarrow> u32 \<Rightarrow> u32 \<Rightarrow> u32 \<Rightarrow> rgb \<Rightarrow> bb_step" where
  "fill_solid_rect e x y w h c txt =
     (if w = 0 \<or> h = 0 then (ok, txt)
      else if \<not> be_mem e then (fails ENOMEM, txt)
      else (ok, emit_disp (Display_blend
             \<lparr>rq_buf = \<lparr>vb_width = w, vb_height = h, vb_data = replicate (unat w * unat h) 255\<rparr>,
              rq_x = x, rq_y = y, rq_w = w, rq_h = h, rq_fg = c, rq_bg = c\<rparr>) txt))"

definition stroke_card_border :: "bbulk_env \<Rightarrow> u32 \<Rightarrow> u32 \<Rightarrow> u32 \<Rightarrow> u32 \<Rightarrow> u32 \<Rightarrow> rgb \<Rightarrow> bb_step" where
  "stroke_card_border e x y w h px c =
     (if w = 0 \<or> h = 0 \<or> px = 0 then run_steps []
      else run_steps
        [fill_solid_rect e x y w px c, fill_solid_rect e x (y + h - px) w px c,
         fill_solid_rect e x y px h c, fill_solid_rect e (x + w - px) y px h c])"

definition paint_chrome_text :: "bbulk_env \<Rightarrow> rgb \<Rightarrow> rgb \<Rightarrow> u32 \<Rightarrow> u32 \<Rightarrow> u32 \<Rightarrow> string \<Rightarrow> bb_step" where
  "paint_chrome_text e bg fg y x0 cols line =
     run_steps (map (\<lambda>(x, ch). paint_chrome_cell e bg fg (x0 + of_nat x) y ch) (enumerate 0 (take (unat cols) line)))"

definition paint_chrome_text_right :: "bbulk_env \<Rightarrow> rgb \<Rightarrow> rgb \<Rightarrow> u32 \<Rightarrow> u32 \<Rightarrow> u32 \<Rightarrow> string \<Rightarrow> bb_step" where
  "paint_chrome_text_right e bg fg y x0 cols line =
     (if line = [] then run_steps []
      else if length line \<ge> unat cols then paint_chrome_text e bg fg y x0 cols (drop (length line - unat cols) line)
      else paint_chrome_text e bg fg y (x0 + cols - of_nat (length line)) cols line)"

definition connection_fg :: "bb_text \<Rightarrow> rgb" where
  "connection_fg txt = (if connection_alert txt then ALERT else ONLINE)"

definition status_fg_for_line :: "bb_text \<Rightarrow> string \<Rightarrow> rgb" where
  "status_fg_for_line txt line =
     (if connection_alert txt \<and> (strstr line ''Offline'' \<or> strstr line ''Unknown'') \<or> rauc_alert txt \<and> strstr line ''RAUC''
      then ALERT else MUTED)"

text \<open>The columns to the right of the logo, when that leaves enough of them.\<close>

definition right_band :: "bb_text \<Rightarrow> u32 \<times> u32" where
  "right_band txt =
     (case chrome_logo txt of
        None \<Rightarrow> (PAD_COLS, txt_cols txt)
      | Some logo \<Rightarrow>
          let logo_cols = (vb_width logo + FONT_WIDTH txt - 1) div FONT_WIDTH txt + 2
          in if FONT_WIDTH txt \<noteq> 0 \<and> txt_cols txt > logo_cols + 8 then (PAD_COLS + logo_cols, txt_cols txt - logo_cols)
             else (PAD_COLS, txt_cols txt))"

definition page_rows :: "bbulk_env \<Rightarrow> u32 \<Rightarrow> nat list \<Rightarrow> bb_step list" where
  "page_rows e card_cols ys = map (\<lambda>y. paint_chrome_span e PAGE (of_nat y) 0 card_cols) ys"

definition paint_title :: "bbulk_env \<Rightarrow> string \<Rightarrow> u32 \<Rightarrow> bb_step list" where
  "paint_title e title card_cols = (if title \<noteq> [] then [paint_chrome_text e PAGE TITLE 0 0 card_cols title] else [])"

text \<open>The band at the right of the logo: the connection, the host and its facts, or one compact line.\<close>

definition paint_band :: "bbulk_env \<Rightarrow> bb_text \<Rightarrow> string \<Rightarrow> bb_step list" where
  "paint_band e txt line =
     (let (x0, cols) = right_band txt;
          put = (\<lambda>fg y s. paint_chrome_text_right e PAGE fg y x0 cols s);
          compact = (if identity_compact txt \<noteq> [] then identity_compact txt else line)
      in if chrome_idle txt then
           [put (connection_fg txt) 0 (if identity_status txt \<noteq> [] then identity_status txt else ''Unknown''),
            put HOST 1 (if identity_hostname txt \<noteq> [] then identity_hostname txt else ''Device'')] @
           (if identity_supporting txt \<noteq> [] then [put MUTED 2 (identity_supporting txt)] else [])
         else
           [put (if \<not> connection_alert txt \<and> \<not> rauc_alert txt then connection_fg txt else status_fg_for_line txt compact) 0 compact])"

definition paint_card :: "bbulk_env \<Rightarrow> bb_text \<Rightarrow> bb_step list" where
  "paint_card e txt =
     (let card_cols = txt_cols txt + 2 * PAD_COLS;
          bb = txt_data txt
      in [paint_chrome_span e CARD_BG CARD_Y0 0 card_cols] @
         concat (map (\<lambda>y. [paint_chrome_span e CARD_BG (of_nat y) 0 PAD_COLS,
                            paint_chrome_span e CARD_BG (of_nat y) (PAD_COLS + txt_cols txt) card_cols])
                  [unat TOP_ROWS..<unat (TOP_ROWS + txt_rows txt)]) @
         [paint_chrome_span e CARD_BG (TOP_ROWS + txt_rows txt) 0 card_cols,
          stroke_card_border e (bb_off_x bb) (bb_off_y bb + CARD_Y0 * FONT_HEIGHT txt) (card_cols * FONT_WIDTH txt)
            ((PAD_ROWS + txt_rows txt + PAD_ROWS) * FONT_HEIGHT txt) BORDER_PX CARD_BORDER])"

definition paint_footer :: "bbulk_env \<Rightarrow> bb_text \<Rightarrow> bb_step list" where
  "paint_footer e txt =
     (let card_cols = txt_cols txt + 2 * PAD_COLS;
          pad_bottom_y = TOP_ROWS + txt_rows txt;
          secondary_y = pad_bottom_y + PAD_ROWS + FOOTER_GAP_ROWS;
          secondary = identity_secondary txt
      in page_rows e card_cols [unat (pad_bottom_y + 1)..<unat secondary_y + 1] @
         (if secondary \<noteq> []
          then [paint_chrome_text e PAGE (if \<not> rauc_alert txt then MUTED else status_fg_for_line txt secondary)
                  secondary_y PAD_COLS (txt_cols txt) secondary]
          else []))"

definition paint_logo :: "bb_text \<Rightarrow> bb_step" where
  "paint_logo start txt =
     (case chrome_logo start of
        None \<Rightarrow> (ok, txt)
      | Some logo \<Rightarrow>
          if txt_orientation start \<noteq> OR_NORMAL then (ok, txt)
          else
            let bb = txt_data start;
                gap_h = BRAND_ROWS * FONT_HEIGHT start;
                y = (if gap_h > vb_height logo then bb_off_y bb + (gap_h - vb_height logo) div 2 else bb_off_y bb)
            in (ok, emit_disp (Display_blend
                  \<lparr>rq_buf = logo, rq_x = bb_off_x bb + FONT_WIDTH start, rq_y = y, rq_w = vb_width logo, rq_h = vb_height logo,
                   rq_fg = TITLE, rq_bg = PAGE\<rparr>) txt))"

definition bbulk_draw_status :: "bbulk_env \<Rightarrow> bb_text \<Rightarrow> string \<Rightarrow> status \<times> bb_text" where
  "bbulk_draw_status e txt line =
     run_steps
       (page_rows e (txt_cols txt + 2 * PAD_COLS) [0..<unat CARD_Y0] @
        paint_title e (if chrome_logo txt \<noteq> None then [] else chrome_title txt) (txt_cols txt + 2 * PAD_COLS) @
        paint_band e txt line @ paint_card e txt @ paint_footer e txt @ [paint_logo txt]) txt"

section \<open>The pointer\<close>

definition half_up :: "u32 \<Rightarrow> u32" where
  "half_up n = (n + 1) div 2"

text \<open>The four cells under the pointer are marked.\<close>

definition mark_damaged :: "bb_text \<Rightarrow> u32 \<Rightarrow> u32 \<Rightarrow> bb_text" where
  "mark_damaged txt x y =
     (let fw = half_up (FONT_WIDTH txt); fh = half_up (FONT_HEIGHT txt);
          posx = (if x > fw then (x - fw) div FONT_WIDTH txt else 0);
          posy = (if y > fh then (y - fh) div FONT_HEIGHT txt else 0);
          posx = unat (if posx \<ge> txt_cols txt then txt_cols txt - 1 else posx);
          posy = unat (if posy \<ge> txt_rows txt then txt_rows txt - 1 else posy);
          cols = unat (txt_cols txt); rows = unat (txt_rows txt);
          off = posx + posy * cols;
          hit = [off] @ (if posx + 1 < cols then [off + 1] else []) @ (if posy + 1 < rows then [off + cols] else []) @
                (if posx + 1 < cols \<and> posy + 1 < rows then [off + 1 + cols] else [])
      in upd_bb (fold damage_cell hit) txt)"

definition clamp_word :: "u32 \<Rightarrow> u32 \<Rightarrow> u32 \<Rightarrow> u32" where
  "clamp_word v lo hi = (if v < lo then lo else if v > hi then hi else v)"

definition set_pointer_coordinate :: "bb_text \<Rightarrow> u32 \<Rightarrow> u32 \<Rightarrow> u32 \<times> u32" where
  "set_pointer_coordinate txt px py =
     (let bb = txt_data txt; fw = FONT_WIDTH txt; fh = FONT_HEIGHT txt;
          (hw, hh) = (if upright (txt_orientation txt) then (half_up fw, half_up fh) else (half_up fh, half_up fw));
          (x, y) = (case txt_orientation txt of
                      OR_NORMAL \<Rightarrow> (px + bb_off_x bb + PAD_COLS * fw, py + bb_off_y bb + TOP_ROWS * fh)
                    | OR_UPSIDE_DOWN \<Rightarrow> (bb_max_x bb - px, bb_max_y bb - py)
                    | OR_RIGHT \<Rightarrow> (bb_max_x bb - py, px + bb_off_y bb + TOP_ROWS * fh)
                    | OR_LEFT \<Rightarrow> (py + bb_off_x bb, bb_max_y bb - px))
      in (clamp_word x hw (bb_max_x bb - hw) - hw, clamp_word y hh (bb_max_y bb - hh) - hh))"

definition bbulk_draw_pointer :: "bbulk_env \<Rightarrow> bb_text \<Rightarrow> u32 \<Rightarrow> u32 \<Rightarrow> status \<times> bb_text" where
  "bbulk_draw_pointer e txt px py =
     (let fw = FONT_WIDTH txt; fh = FONT_HEIGHT txt;
          c = cell_zero\<lparr>cell_ch := of_nat (code CHR ''I'')\<rparr>;
          px = clamp_word px (fw div 2) (txt_cols txt * fw - fw div 2);
          py = clamp_word py (fh div 2) (txt_rows txt * fh - fh div 2)
      in case find_glyph e txt c of
           (None, txt) \<Rightarrow> (fails ENOMEM, txt)
         | (Some g, txt) \<Rightarrow>
             let (x, y) = set_pointer_coordinate txt px py;
                 txt = mark_damaged txt px py;
                 attr = bb_attr (txt_data txt);
                 req = (glyph_request g (x, y) c)\<lparr>rq_fg := sa_fg attr, rq_bg := sa_bg attr\<rparr>
             in (ok, upd_bb (\<lambda>bb. bb\<lparr>bb_requests := bb_requests bb + 1\<rparr>) (emit_disp (Display_blend req) txt)))"

section \<open>Damage\<close>

definition add_damage :: "video_rect \<Rightarrow> video_rect list \<Rightarrow> video_rect list" where
  "add_damage r rects = rects @ [r]"

definition merge_damage :: "video_rect \<Rightarrow> video_rect list \<Rightarrow> video_rect list" where
  "merge_damage r rects =
     butlast rects @ [\<lparr>vr_x1 = min (vr_x1 (last rects)) (vr_x1 r), vr_y1 = min (vr_y1 (last rects)) (vr_y1 r),
                       vr_x2 = max (vr_x2 (last rects)) (vr_x2 r), vr_y2 = max (vr_y2 (last rects)) (vr_y2 r)\<rparr>]"

definition cell_rect :: "bb_text \<Rightarrow> nat \<Rightarrow> nat \<Rightarrow> video_rect" where
  "cell_rect txt posx posy =
     (let (fw, fh) = (if upright (txt_orientation txt) then (FONT_WIDTH txt, FONT_HEIGHT txt) else (FONT_HEIGHT txt, FONT_WIDTH txt));
          (x1, y1) = set_coordinate txt (of_nat posx + PAD_COLS) (of_nat posy + TOP_ROWS)
      in \<lparr>vr_x1 = sint x1, vr_y1 = sint y1, vr_x2 = sint (x1 + fw), vr_y2 = sint (y1 + fh)\<rparr>)"

text \<open>One cell of a row; \<open>prev\<close> counts down from the last damaged cell.\<close>

definition damage_step :: "bb_text \<Rightarrow> nat \<Rightarrow> nat \<Rightarrow> nat \<times> video_rect list \<Rightarrow> nat \<times> video_rect list" where
  "damage_step txt posy posx st =
     (case st of (prev, rects) \<Rightarrow>
        if \<not> cf_damaged (bb_flags (txt_data txt) ! (posx + posy * unat (txt_cols txt))) then (prev - 1, rects)
        else (DAMAGE_MERGE_LEN, if prev \<noteq> 0 then merge_damage (cell_rect txt posx posy) rects
                                else add_damage (cell_rect txt posx posy) rects))"

definition damage_row :: "bb_text \<Rightarrow> nat \<Rightarrow> video_rect list \<Rightarrow> video_rect list" where
  "damage_row txt posy rects = snd (fold (damage_step txt posy) [0..<unat (txt_cols txt)] (0, rects))"

definition bbulk_compute_damage :: "bb_text \<Rightarrow> bb_text" where
  "bbulk_compute_damage txt =
     (let bb = txt_data txt;
          fh = (if upright (txt_orientation txt) then FONT_HEIGHT txt else FONT_WIDTH txt);
          rects = fold (damage_row txt) [0..<unat (txt_rows txt) + 2] (bb_rects bb);
          above = \<lparr>vr_x1 = 0, vr_y1 = 0, vr_x2 = sint (bb_sw bb), vr_y2 = sint (bb_off_y bb + TOP_ROWS * fh)\<rparr>;
          below = above\<lparr>vr_y1 := sint (bb_off_y bb + (TOP_ROWS + txt_rows txt) * fh), vr_y2 := sint (bb_sh bb)\<rparr>
      in upd_bb (\<lambda>bb. bb\<lparr>bb_rects := add_damage below (add_damage above rects)\<rparr>) txt)"

definition bbulk_render :: "bbulk_env \<Rightarrow> bb_text \<Rightarrow> status \<times> bb_text" where
  "bbulk_render e txt =
     (if be_supports_damage e
      then (let txt = bbulk_compute_damage txt in (ok, emit_disp (Display_set_damage (bb_rects (txt_data txt))) txt))
      else (ok, txt))"

text \<open>All cells are damaged, or those that a frame left behind that was not shown.\<close>

definition damage_all :: "bbulk \<Rightarrow> bbulk" where
  "damage_all bb = fold damage_cell [0..<length (bb_cells bb)] bb"

definition carry_over :: "bbulk \<Rightarrow> bbulk" where
  "carry_over bb =
     bb\<lparr>bb_cells := map (\<lambda>(c, f). if cf_damaged f then c\<lparr>cell_ch := ID_DAMAGED\<rparr> else c) (zip (bb_cells bb) (bb_flags bb))\<rparr>"

definition bbulk_prepare :: "bbulk_env \<Rightarrow> bb_text \<Rightarrow> tsm_screen_attr \<Rightarrow> status \<times> bb_text" where
  "bbulk_prepare e txt attr =
     (let txt = upd_bb (\<lambda>bb. bb\<lparr>bb_requests := 0, bb_rects := [],
                bb_redraw := (if bb_attr bb \<noteq> attr \<or> be_need_redraw e then 2 else bb_redraw bb), bb_attr := attr\<rparr>) txt;
          txt = (if bb_redraw (txt_data txt) \<noteq> 0 then upd_bb damage_all (emit_disp (Display_clear PAGE) txt)
                 else if be_has_damage e then upd_bb carry_over txt else txt)
      in (ok, upd_bb (\<lambda>bb. bb\<lparr>bb_redraw := bb_redraw bb - 1\<rparr>) txt))"

definition bbulk_ops :: "bbulk_env \<Rightarrow> bbulk text_ops" where
  "bbulk_ops e =
     \<lparr>op_init = Some (bbulk_init e), op_destroy = Some (\<lambda>txt. txt), op_set = Some (bbulk_set e), op_unset = Some bbulk_unset,
      op_resize = Some bbulk_resize, op_rotate = Some (bbulk_rotate e), op_prepare = Some (bbulk_prepare e),
      op_draw = bbulk_draw e, op_draw_status = Some (bbulk_draw_status e), op_draw_pointer = Some (bbulk_draw_pointer e),
      op_render = Some (bbulk_render e), op_abort = None\<rparr>"

end
