(* ===== verification/Bbulk_Facts.thy ===== *)
theory Bbulk_Facts
  imports Bbulk
begin

text \<open>
  Facts on the software renderer: the cache gives the glyph of the font, the layout of the screen is
  kept by everything that draws, and what one pass over the cells does when no glyph is two cells
  wide.
\<close>

section \<open>Projections\<close>

lemma upd_bb_simps [simp]:
  "txt_data (upd_bb f txt) = f (txt_data txt)" "txt_cols (upd_bb f txt) = txt_cols txt" "txt_rows (upd_bb f txt) = txt_rows txt"
  "txt_max_cols (upd_bb f txt) = txt_max_cols txt" "txt_max_rows (upd_bb f txt) = txt_max_rows txt"
  "txt_font (upd_bb f txt) = txt_font txt" "txt_orientation (upd_bb f txt) = txt_orientation txt"
  "txt_blinking (upd_bb f txt) = txt_blinking txt" "chrome_logo (upd_bb f txt) = chrome_logo txt" "upd_bb f (upd_bb g txt) = upd_bb (f \<circ> g) txt"
  by (simp_all add: upd_bb_def)

lemma font_upd_bb [simp]: "FONT_WIDTH (upd_bb f txt) = FONT_WIDTH txt" "FONT_HEIGHT (upd_bb f txt) = FONT_HEIGHT txt"
  by (simp_all add: FONT_WIDTH_def FONT_HEIGHT_def)

text \<open>All that the position of a cell depends on.\<close>

definition layout :: "bb_text \<Rightarrow> orientation \<times> u32 \<times> u32 \<times> u32 \<times> u32 \<times> u32 \<times> u32 \<times> u32 \<times> u32" where
  "layout txt =
     (txt_orientation txt, FONT_WIDTH txt, FONT_HEIGHT txt, txt_cols txt, txt_rows txt, bb_off_x (txt_data txt),
      bb_off_y (txt_data txt), bb_max_x (txt_data txt), bb_max_y (txt_data txt))"

lemma set_coordinate_layout:
  assumes "layout txt' = layout txt"
  shows "set_coordinate txt' posx posy = set_coordinate txt posx posy"
proof -
  have e: "txt_orientation txt' = txt_orientation txt" "FONT_WIDTH txt' = FONT_WIDTH txt" "FONT_HEIGHT txt' = FONT_HEIGHT txt"
    "bb_off_x (txt_data txt') = bb_off_x (txt_data txt)" "bb_off_y (txt_data txt') = bb_off_y (txt_data txt)"
    "bb_max_x (txt_data txt') = bb_max_x (txt_data txt)" "bb_max_y (txt_data txt') = bb_max_y (txt_data txt)"
    using assms by (simp_all add: layout_def)
  show ?thesis unfolding set_coordinate_def Let_def e ..
qed

section \<open>Glyphs\<close>

definition id_cell :: "u64 \<Rightarrow> tsm_screen_cell" where
  "id_cell i = cell_zero\<lparr>cell_ch := ucast i, cell_attr2 := ucast (drop_bit 32 i)\<rparr>"

lemma id_cell_id: "id_cell (kmscon_glyph_id ch a) = cell_zero\<lparr>cell_ch := ch, cell_attr2 := a\<rparr>"
proof -
  have "ucast (kmscon_glyph_id ch a) = ch"
    by (rule bit_word_eqI) (auto simp: kmscon_glyph_id_def bit_simps)
  moreover have "ucast (drop_bit 32 (kmscon_glyph_id ch a)) = a"
    by (rule bit_word_eqI) (auto simp: kmscon_glyph_id_def bit_simps dest: bit_imp_le_length)
  ultimately show ?thesis by (simp add: id_cell_def)
qed

lemma make_glyph_cong:
  "cell_ch c = cell_ch d \<Longrightarrow> cell_attr2 c = cell_attr2 d \<Longrightarrow> make_glyph e r c = make_glyph e r d"
  by (simp add: make_glyph_def render_glyph_def cell_style_def)

text \<open>The glyph of a cell, and the glyph of a key of the cache.\<close>

definition glyph_of :: "bbulk_env \<Rightarrow> orientation \<Rightarrow> tsm_screen_cell \<Rightarrow> kmscon_glyph" where
  "glyph_of e r c = the (make_glyph e r c)"

definition glyph_of_id :: "bbulk_env \<Rightarrow> orientation \<Rightarrow> u64 \<Rightarrow> kmscon_glyph option" where
  "glyph_of_id e r i = Some (glyph_of e r (id_cell i))"

lemma glyph_of_id_id: "glyph_of_id e r (kmscon_glyph_id (cell_ch c) (cell_attr2 c)) = Some (glyph_of e r c)"
proof -
  have "make_glyph e r (cell_zero\<lparr>cell_ch := cell_ch c, cell_attr2 := cell_attr2 c\<rparr>) = make_glyph e r c"
    by (rule make_glyph_cong) simp_all
  then show ?thesis by (simp add: glyph_of_id_def glyph_of_def id_cell_id)
qed

text \<open>The font has a glyph of one cell for everything, and there is memory for it.\<close>

definition simple_font :: "bbulk_env \<Rightarrow> orientation \<Rightarrow> bool" where
  "simple_font e r \<longleftrightarrow> be_mem e \<and> (\<forall>c. \<exists>g. make_glyph e r c = Some g \<and> \<not> gl_double g)"

definition cache_ok :: "bbulk_env \<Rightarrow> bb_text \<Rightarrow> bool" where
  "cache_ok e txt \<longleftrightarrow> (\<exists>cache. bb_glyphs (txt_data txt) = Some cache \<and> lru.agrees (glyph_of_id e (txt_orientation txt)) cache)"

lemma find_glyph_found:
  assumes s: "simple_font e (txt_orientation txt)" and k: "cache_ok e txt"
  shows "\<exists>cache. find_glyph e txt c = (Some (glyph_of e (txt_orientation txt) c), upd_bb (\<lambda>bb. bb\<lparr>bb_glyphs := Some cache\<rparr>) txt) \<and>
    lru.agrees (glyph_of_id e (txt_orientation txt)) cache"
proof -
  obtain cache where c: "bb_glyphs (txt_data txt) = Some cache" and a: "lru.agrees (glyph_of_id e (txt_orientation txt)) cache"
    using k by (auto simp: cache_ok_def)
  define i where "i = kmscon_glyph_id (cell_ch c) (cell_attr2 c)"
  have f: "glyph_of_id e (txt_orientation txt) i = Some (glyph_of e (txt_orientation txt) c)"
    unfolding i_def by (rule glyph_of_id_id)
  obtain r cache' where g: "shl_lru_get cache i = (r, cache')" by fastforce
  show ?thesis
  proof (cases r)
    case (Some v)
    then have "v = glyph_of_id e (txt_orientation txt) i \<and> lru.agrees (glyph_of_id e (txt_orientation txt)) cache'"
      using lru.hit_right [OF a] g by simp
    then show ?thesis using c g Some f by (auto simp: find_glyph_def i_def)
  next
    case None
    then have g': "shl_lru_get cache i = (None, cache')" using g by simp
    obtain v where m: "make_glyph e (txt_orientation txt) c = Some v" using s by (auto simp: simple_font_def)
    have v: "v = glyph_of e (txt_orientation txt) c" using m by (simp add: glyph_of_def)
    obtain v0 where m0: "render_glyph e c = Some v0" "turn_glyph e (txt_orientation txt) v0 = Some v"
      using m by (auto simp: make_glyph_def bind_eq_Some_conv)
    note n = lru.miss_keeps [OF a g']
    have "lru_inv cache'" using n by (simp add: lru.agrees_def)
    then have "shl_lru_insert (be_mem e) cache' i (Some v) = (ok, lru_add cache' i (Some v))"
      using s lru_insert_ok(1) by (simp add: simple_font_def)
    then show ?thesis using c g' m0 v f n by (auto simp: find_glyph_def i_def Let_def)
  qed
qed

section \<open>One cell\<close>

definition cell_at :: "bb_text \<Rightarrow> nat \<Rightarrow> tsm_screen_cell" where
  "cell_at txt off = bb_cells (txt_data txt) ! off"

definition damaged_at :: "bb_text \<Rightarrow> nat \<Rightarrow> bool" where
  "damaged_at txt off = cf_damaged (bb_flags (txt_data txt) ! off)"

definition double_at :: "bb_text \<Rightarrow> nat \<Rightarrow> bool" where
  "double_at txt off = cf_double (bb_flags (txt_data txt) ! off)"

definition arrays_ok :: "bb_text \<Rightarrow> bool" where
  "arrays_ok txt \<longleftrightarrow> 0 < txt_cols txt \<and> length (bb_cells (txt_data txt)) = length (bb_flags (txt_data txt)) \<and>
     unat (txt_rows txt) * unat (txt_cols txt) \<le> length (bb_cells (txt_data txt))"

text \<open>The request that draws a cell.\<close>

definition request_at :: "bbulk_env \<Rightarrow> bb_text \<Rightarrow> nat \<Rightarrow> tsm_screen_cell \<Rightarrow> video_blend_req" where
  "request_at e txt off c =
     glyph_request (glyph_of e (txt_orientation txt) c)
       (set_coordinate txt (of_nat (off mod unat (txt_cols txt)) + PAD_COLS) (of_nat (off div unat (txt_cols txt)) + TOP_ROWS)) c"

lemma request_at_layout:
  assumes l: "layout txt' = layout txt"
  shows "request_at e txt' off c = request_at e txt off c"
proof -
  have e: "txt_orientation txt' = txt_orientation txt" "txt_cols txt' = txt_cols txt" using l by (simp_all add: layout_def)
  show ?thesis unfolding request_at_def e set_coordinate_layout [OF l] ..
qed

lemma cell_request_simple:
  assumes "simple_font e (txt_orientation txt)" "posx = off mod unat (txt_cols txt)" "posy = off div unat (txt_cols txt)"
  shows "cell_request txt (glyph_of e (txt_orientation txt) c) c posx posy lc = request_at e txt off c"
proof -
  obtain g where "make_glyph e (txt_orientation txt) c = Some g" "\<not> gl_double g" using assms(1) by (auto simp: simple_font_def)
  then have "\<not> gl_double (glyph_of e (txt_orientation txt) c)" by (simp add: glyph_of_def)
  then show ?thesis using assms(2,3) by (simp add: cell_request_def request_at_def)
qed

text \<open>All but the cells, their flags, the cache and the calls, which drawing does not touch.\<close>

definition wipe :: "bb_text \<Rightarrow> bb_text" where
  "wipe = upd_bb (\<lambda>bb. bb\<lparr>bb_cells := [], bb_flags := [], bb_glyphs := None, bb_requests := 0, bb_calls := []\<rparr>)"

lemma wipe_projections:
  assumes "wipe t = wipe u"
  shows "txt_cols t = txt_cols u" "txt_rows t = txt_rows u" "txt_max_cols t = txt_max_cols u" "txt_max_rows t = txt_max_rows u"
    "txt_font t = txt_font u" "txt_orientation t = txt_orientation u" "txt_blinking t = txt_blinking u"
    "chrome_logo t = chrome_logo u" "FONT_WIDTH t = FONT_WIDTH u" "FONT_HEIGHT t = FONT_HEIGHT u"
    "bb_off_x (txt_data t) = bb_off_x (txt_data u)" "bb_off_y (txt_data t) = bb_off_y (txt_data u)"
    "bb_max_x (txt_data t) = bb_max_x (txt_data u)" "bb_max_y (txt_data t) = bb_max_y (txt_data u)"
    "bb_sw (txt_data t) = bb_sw (txt_data u)" "bb_sh (txt_data t) = bb_sh (txt_data u)"
    "bb_redraw (txt_data t) = bb_redraw (txt_data u)" "bb_attr (txt_data t) = bb_attr (txt_data u)"
    "bb_rects (txt_data t) = bb_rects (txt_data u)" "bb_rects_max (txt_data t) = bb_rects_max (txt_data u)"
    "layout t = layout u"
proof -
  have p: "txt_cols (wipe t) = txt_cols (wipe u)" "txt_rows (wipe t) = txt_rows (wipe u)" "txt_max_cols (wipe t) = txt_max_cols (wipe u)"
    "txt_max_rows (wipe t) = txt_max_rows (wipe u)" "txt_font (wipe t) = txt_font (wipe u)"
    "txt_orientation (wipe t) = txt_orientation (wipe u)" "txt_blinking (wipe t) = txt_blinking (wipe u)"
    "chrome_logo (wipe t) = chrome_logo (wipe u)" using assms by simp_all
  have d: "txt_data (wipe t) = txt_data (wipe u)" using assms by simp
  show *: "txt_cols t = txt_cols u" "txt_rows t = txt_rows u" "txt_max_cols t = txt_max_cols u" "txt_max_rows t = txt_max_rows u"
    "txt_font t = txt_font u" "txt_orientation t = txt_orientation u" "txt_blinking t = txt_blinking u"
    "chrome_logo t = chrome_logo u"
    using p by (simp_all add: wipe_def)
  show **: "FONT_WIDTH t = FONT_WIDTH u" "FONT_HEIGHT t = FONT_HEIGHT u" using * by (simp_all add: FONT_WIDTH_def FONT_HEIGHT_def)
  show ***: "bb_off_x (txt_data t) = bb_off_x (txt_data u)" "bb_off_y (txt_data t) = bb_off_y (txt_data u)"
    "bb_max_x (txt_data t) = bb_max_x (txt_data u)" "bb_max_y (txt_data t) = bb_max_y (txt_data u)"
    "bb_sw (txt_data t) = bb_sw (txt_data u)" "bb_sh (txt_data t) = bb_sh (txt_data u)"
    "bb_redraw (txt_data t) = bb_redraw (txt_data u)" "bb_attr (txt_data t) = bb_attr (txt_data u)"
    "bb_rects (txt_data t) = bb_rects (txt_data u)" "bb_rects_max (txt_data t) = bb_rects_max (txt_data u)"
    using d [THEN arg_cong, of bb_off_x] d [THEN arg_cong, of bb_off_y] d [THEN arg_cong, of bb_max_x] d [THEN arg_cong, of bb_max_y]
      d [THEN arg_cong, of bb_sw] d [THEN arg_cong, of bb_sh] d [THEN arg_cong, of bb_redraw] d [THEN arg_cong, of bb_attr]
      d [THEN arg_cong, of bb_rects] d [THEN arg_cong, of bb_rects_max]
    by (simp_all add: wipe_def)
  show "layout t = layout u" by (simp add: layout_def * ** ***)
qed

text \<open>What stays when a cell is drawn.\<close>

definition other_kept :: "nat \<Rightarrow> bb_text \<Rightarrow> bb_text \<Rightarrow> bool" where
  "other_kept off txt txt' \<longleftrightarrow> wipe txt' = wipe txt \<and> arrays_ok txt' \<and>
     length (bb_cells (txt_data txt')) = length (bb_cells (txt_data txt)) \<and>
     (\<forall>j. j \<noteq> off \<longrightarrow> cell_at txt' j = cell_at txt j \<and> damaged_at txt' j = damaged_at txt j \<and> double_at txt' j = double_at txt j)"

lemma other_kept_refl: "arrays_ok txt \<Longrightarrow> other_kept off txt txt"
  by (simp add: other_kept_def)

lemma draw_cell_simple:
  assumes s: "simple_font e (txt_orientation txt)" and k: "cache_ok e txt" and a: "arrays_ok txt"
    and off: "off < unat (txt_rows txt) * unat (txt_cols txt)"
    and left: "off mod unat (txt_cols txt) \<noteq> 0 \<Longrightarrow> \<not> double_at txt (off - 1)"
    and valid: "cell_at txt off = c \<Longrightarrow> \<not> double_at txt off"
  shows "\<exists>txt'. bbulk_draw_cell e c (off mod unat (txt_cols txt)) (off div unat (txt_cols txt)) txt = (ok, txt') \<and>
    other_kept off txt txt' \<and> cache_ok e txt' \<and> cell_at txt' off = c \<and> \<not> double_at txt' off \<and>
    damaged_at txt' off = (cell_at txt off \<noteq> c) \<and>
    bb_calls (txt_data txt') = bb_calls (txt_data txt) @
      (if cell_at txt off \<noteq> c \<or> damaged_at txt off then [Display_blend (request_at e txt off c)] else [])"
proof -
  define x where "x = off mod unat (txt_cols txt)"
  define y where "y = off div unat (txt_cols txt)"
  define r where "r = txt_orientation txt"
  have xy: "x + y * unat (txt_cols txt) = off" by (simp add: x_def y_def mult.commute)
  have len: "off < length (bb_cells (txt_data txt))" "off < length (bb_flags (txt_data txt))"
    using off a by (auto simp: arrays_ok_def)
  have no: "\<not> ((cell_ch c = 0 \<or> cell_ch c = 32) \<and> x \<noteq> 0 \<and> cf_double (bb_flags (txt_data txt) ! (off - 1)))"
    using left by (auto simp: x_def double_at_def)
  have dbl: "\<not> gl_double (glyph_of e r c)" using s by (auto simp: simple_font_def r_def glyph_of_def) (metis option.sel)
  show ?thesis
  proof (cases "cell_at txt off \<noteq> c \<or> damaged_at txt off")
    case False
    then have "bbulk_draw_cell e c x y txt = (ok, txt)"
      using no valid unfolding bbulk_draw_cell_def xy Let_def if_not_P [OF no]
      by (simp add: cell_at_def damaged_at_def double_at_def)
    then show ?thesis
      unfolding x_def y_def using False valid k other_kept_refl [OF a] by simp
  next
    case True
    define changed where "changed = (cell_at txt off \<noteq> c)"
    define t1 where "t1 = upd_bb (\<lambda>bb. put_cell off c (flag_damaged off changed bb)) txt"
    have o1: "txt_orientation t1 = r" "cache_ok e t1"
      using k by (simp_all add: t1_def r_def cache_ok_def put_cell_def flag_damaged_def)
    obtain cache where g: "find_glyph e t1 c = (Some (glyph_of e r c), upd_bb (\<lambda>bb. bb\<lparr>bb_glyphs := Some cache\<rparr>) t1)"
      and ag: "lru.agrees (glyph_of_id e r) cache"
      using find_glyph_found [of e t1 c] s o1 by (auto simp: r_def)
    define t2 where "t2 = upd_bb (flag_double off False) (upd_bb (\<lambda>bb. bb\<lparr>bb_glyphs := Some cache\<rparr>) t1)"
    define t3 where "t3 = upd_bb (\<lambda>bb. bb\<lparr>bb_requests := bb_requests bb + 1\<rparr>)
      (emit_disp (Display_blend (cell_request t2 (glyph_of e r c) c x y (x = unat (txt_cols txt) - 1))) t2)"
    have d: "bbulk_draw_cell e c x y txt = (ok, t3)"
      using True g dbl unfolding bbulk_draw_cell_def xy Let_def if_not_P [OF no]
      by (auto simp: t1_def t2_def t3_def changed_def cell_at_def damaged_at_def)
    have lay: "layout t2 = layout txt"
      by (simp add: t2_def t1_def layout_def put_cell_def flag_damaged_def flag_double_def)
    have o2: "txt_orientation t2 = r" "txt_cols t2 = txt_cols txt" by (simp_all add: t2_def t1_def r_def)
    have "cell_request t2 (glyph_of e r c) c x y (x = unat (txt_cols txt) - 1) = request_at e t2 off c"
      using cell_request_simple [of e t2 x off y c] s o2 unfolding x_def y_def r_def by simp
    then have rq: "cell_request t2 (glyph_of e r c) c x y (x = unat (txt_cols txt) - 1) = request_at e txt off c"
      by (rule trans) (rule request_at_layout [OF lay])
    have calls: "bb_calls (txt_data t3) = bb_calls (txt_data txt) @ [Display_blend (request_at e txt off c)]"
      unfolding t3_def rq by (simp add: emit_disp_def) (simp add: t2_def t1_def put_cell_def flag_damaged_def flag_double_def)
    have st: "cell_at t3 off = c \<and> \<not> double_at t3 off \<and> damaged_at t3 off = changed"
      using len by (simp add: t3_def t2_def t1_def emit_disp_def cell_at_def double_at_def damaged_at_def put_cell_def
          flag_damaged_def flag_double_def)
    have w: "wipe t3 = wipe txt"
      by (simp add: t3_def emit_disp_def t2_def t1_def wipe_def put_cell_def flag_damaged_def flag_double_def comp_def)
    have kept: "other_kept off txt t3"
      unfolding other_kept_def using w a by (simp add: t3_def t2_def t1_def emit_disp_def cell_at_def double_at_def
          damaged_at_def put_cell_def flag_damaged_def flag_double_def arrays_ok_def nth_list_update)
    have cache3: "cache_ok e t3" using ag o2 by (simp add: t3_def emit_disp_def cache_ok_def) (simp add: t2_def flag_double_def)
    show ?thesis unfolding x_def [symmetric] y_def [symmetric] using d calls st kept cache3 True changed_def by auto
  qed
qed

end
