(* ===== verification/Bbulk_Draw.thy ===== *)
theory Bbulk_Draw
  imports Bbulk_Facts
begin

text \<open>
  One frame of the software renderer, step by step: what \<open>bbulk_prepare\<close>, the pass of \<open>bbulk_draw\<close>
  over all cells, the chrome and the pointer do to the cells, to their flags and to the calls of the
  display, when every glyph is one cell wide.
\<close>

section \<open>The pass over the cells\<close>

lemma grid_map:
  assumes "0 < unat cols"
  shows "grid cols rows = map (\<lambda>k. (k div unat cols, k mod unat cols)) [0..<unat rows * unat cols]"
proof -
  have "List.product [0..<r] [0..<unat cols] = map (\<lambda>k. (k div unat cols, k mod unat cols)) [0..<r * unat cols]" for r
  proof (induction r)
    case (Suc r)
    have split: "[0..<Suc r * unat cols] = [0..<r * unat cols] @ map (\<lambda>j. r * unat cols + j) [0..<unat cols]"
      using upt_add_eq_append [of 0 "r * unat cols" "unat cols"] map_add_upt [of "r * unat cols" "unat cols"]
      by (simp add: add.commute)
    have row: "map (Pair r) [0..<unat cols] =
        map (\<lambda>k. (k div unat cols, k mod unat cols)) (map (\<lambda>j. r * unat cols + j) [0..<unat cols])"
      by (auto simp: assms)
    have "List.product (xs @ [r]) ys = List.product xs ys @ map (Pair r) ys" for xs and ys :: "nat list"
      by (induction xs) simp_all
    then have "List.product [0..<Suc r] [0..<unat cols] = List.product [0..<r] [0..<unat cols] @ map (Pair r) [0..<unat cols]"
      by simp
    then show ?case unfolding Suc.IH split row by simp
  qed simp
  then show ?thesis by (simp add: grid_def)
qed

text \<open>What is to be seen at an offset.\<close>

definition wanted_at :: "bbulk_env \<Rightarrow> bb_text \<Rightarrow> tsm_screen_cell list \<Rightarrow> kmscon_cursor \<Rightarrow> nat \<Rightarrow> tsm_screen_cell" where
  "wanted_at e txt cells cursor off =
     wanted_cell e (txt_blinking txt) (txt_cols txt) cells cursor (off mod unat (txt_cols txt)) (off div unat (txt_cols txt))"

definition cell_calls :: "bbulk_env \<Rightarrow> bb_text \<Rightarrow> (nat \<Rightarrow> tsm_screen_cell) \<Rightarrow> nat \<Rightarrow> disp_call list" where
  "cell_calls e txt w off =
     (if cell_at txt off \<noteq> w off \<or> damaged_at txt off then [Display_blend (request_at e txt off (w off))] else [])"

definition draw_upto :: "bbulk_env \<Rightarrow> (nat \<Rightarrow> tsm_screen_cell) \<Rightarrow> nat \<Rightarrow> bb_text \<Rightarrow> bb_text" where
  "draw_upto e w k txt =
     fold (\<lambda>k t. snd (bbulk_draw_cell e (w k) (k mod unat (txt_cols txt)) (k div unat (txt_cols txt)) t)) [0..<k] txt"

lemma bbulk_draw_upto:
  assumes "0 < txt_cols txt"
  shows "bbulk_draw e txt cells cursor =
    (ok, draw_upto e (wanted_at e txt cells cursor) (unat (txt_rows txt) * unat (txt_cols txt)) txt)"
proof -
  have "0 < unat (txt_cols txt)" using assms by (simp add: word_less_nat_alt)
  then show ?thesis
    by (simp add: bbulk_draw_def grid_map fold_map comp_def draw_upto_def wanted_at_def)
qed

text \<open>The state after \<open>k\<close> cells.\<close>

definition drawn_upto :: "bbulk_env \<Rightarrow> (nat \<Rightarrow> tsm_screen_cell) \<Rightarrow> nat \<Rightarrow> bb_text \<Rightarrow> bb_text \<Rightarrow> bool" where
  "drawn_upto e w k txt t \<longleftrightarrow>
     wipe t = wipe txt \<and> arrays_ok t \<and> cache_ok e t \<and> length (bb_cells (txt_data t)) = length (bb_cells (txt_data txt)) \<and>
     (\<forall>j<k. cell_at t j = w j \<and> \<not> double_at t j \<and> damaged_at t j = (cell_at txt j \<noteq> w j)) \<and>
     (\<forall>j\<ge>k. cell_at t j = cell_at txt j \<and> double_at t j = double_at txt j \<and> damaged_at t j = damaged_at txt j) \<and>
     bb_calls (txt_data t) = bb_calls (txt_data txt) @ concat (map (cell_calls e txt w) [0..<k])"

lemma draw_upto_step:
  assumes s: "simple_font e (txt_orientation txt)" and d: "drawn_upto e w k txt t"
    and k: "k < unat (txt_rows txt) * unat (txt_cols txt)"
    and valid: "\<And>off. off < unat (txt_rows txt) * unat (txt_cols txt) \<Longrightarrow> cell_at txt off = w off \<Longrightarrow> \<not> double_at txt off"
  shows "drawn_upto e w (Suc k) txt (snd (bbulk_draw_cell e (w k) (k mod unat (txt_cols txt)) (k div unat (txt_cols txt)) t))"
proof -
  have w: "wipe t = wipe txt" and ar: "arrays_ok t" and ca: "cache_ok e t"
    and len: "length (bb_cells (txt_data t)) = length (bb_cells (txt_data txt))"
    and below: "\<And>j. j < k \<Longrightarrow> cell_at t j = w j \<and> \<not> double_at t j \<and> damaged_at t j = (cell_at txt j \<noteq> w j)"
    and above: "\<And>j. j \<ge> k \<Longrightarrow> cell_at t j = cell_at txt j \<and> double_at t j = double_at txt j \<and> damaged_at t j = damaged_at txt j"
    and calls: "bb_calls (txt_data t) = bb_calls (txt_data txt) @ concat (map (cell_calls e txt w) [0..<k])"
    using d by (auto simp: drawn_upto_def)
  note p = wipe_projections [OF w]
  have left: "k mod unat (txt_cols t) \<noteq> 0 \<Longrightarrow> \<not> double_at t (k - 1)"
    using below [of "k - 1"] by (cases k) auto
  obtain t' where t': "bbulk_draw_cell e (w k) (k mod unat (txt_cols t)) (k div unat (txt_cols t)) t = (ok, t')"
    and o: "other_kept k t t'" and c: "cache_ok e t'" "cell_at t' k = w k" "\<not> double_at t' k"
      "damaged_at t' k = (cell_at t k \<noteq> w k)"
    and calls': "bb_calls (txt_data t') = bb_calls (txt_data t) @
      (if cell_at t k \<noteq> w k \<or> damaged_at t k then [Display_blend (request_at e t k (w k))] else [])"
    using draw_cell_simple [of e t k "w k"] s ca ar k left valid [of k] above [of k] p by auto
  have "wipe t' = wipe txt" "arrays_ok t'" "length (bb_cells (txt_data t')) = length (bb_cells (txt_data txt))"
    using o w len by (simp_all add: other_kept_def)
  moreover have "\<forall>j<Suc k. cell_at t' j = w j \<and> \<not> double_at t' j \<and> damaged_at t' j = (cell_at txt j \<noteq> w j)"
    using o c below above [of k] by (auto simp: other_kept_def less_Suc_eq)
  moreover have "\<forall>j\<ge>Suc k. cell_at t' j = cell_at txt j \<and> double_at t' j = double_at txt j \<and> damaged_at t' j = damaged_at txt j"
    using o above by (auto simp: other_kept_def)
  moreover have "bb_calls (txt_data t') = bb_calls (txt_data txt) @ concat (map (cell_calls e txt w) [0..<Suc k])"
    using calls calls' above [of k] request_at_layout [OF p(21)] by (simp add: cell_calls_def)
  ultimately show ?thesis using t' c(1) by (simp add: drawn_upto_def p)
qed

lemma draw_upto_drawn:
  assumes "simple_font e (txt_orientation txt)" "cache_ok e txt" "arrays_ok txt"
    and "\<And>off. off < unat (txt_rows txt) * unat (txt_cols txt) \<Longrightarrow> cell_at txt off = w off \<Longrightarrow> \<not> double_at txt off"
    and "k \<le> unat (txt_rows txt) * unat (txt_cols txt)"
  shows "drawn_upto e w k txt (draw_upto e w k txt)"
  using assms(5)
proof (induction k)
  case 0
  show ?case using assms(1-3) by (simp add: drawn_upto_def draw_upto_def)
next
  case (Suc k)
  from Suc.prems have k: "k < unat (txt_rows txt) * unat (txt_cols txt)" by simp
  have "drawn_upto e w k txt (draw_upto e w k txt)" using Suc.IH k by simp
  from draw_upto_step [OF assms(1) this k assms(4)] show ?case unfolding draw_upto_def by simp
qed

section \<open>Preparing the frame\<close>

lemma damage_cell_simps [simp]:
  "length (bb_cells (damage_cell off bb)) = length (bb_cells bb)" "length (bb_flags (damage_cell off bb)) = length (bb_flags bb)"
  "bb_glyphs (damage_cell off bb) = bb_glyphs bb" "bb_calls (damage_cell off bb) = bb_calls bb"
  by (simp_all add: damage_cell_def)

lemma wipe_damage_cell [simp]: "wipe (upd_bb (damage_cell off) txt) = wipe txt"
  by (simp add: wipe_def damage_cell_def comp_def)

lemma fold_damage_simps [simp]:
  "length (bb_cells (fold damage_cell hit bb)) = length (bb_cells bb)" "length (bb_flags (fold damage_cell hit bb)) = length (bb_flags bb)"
  "bb_glyphs (fold damage_cell hit bb) = bb_glyphs bb" "bb_calls (fold damage_cell hit bb) = bb_calls bb"
  by (induction hit arbitrary: bb) simp_all

lemma wipe_fold_damage [simp]: "wipe (upd_bb (fold damage_cell hit) txt) = wipe txt"
proof (induction hit arbitrary: "txt")
  case (Cons x hit)
  have "upd_bb (fold damage_cell (x # hit)) txt = upd_bb (fold damage_cell hit) (upd_bb (damage_cell x) txt)"
    by (simp add: comp_def)
  then show ?case using Cons [of "upd_bb (damage_cell x) txt"] by (simp add: comp_def)
qed (simp add: upd_bb_def)

lemma fold_damage_nth:
  assumes "length (bb_flags bb) = length (bb_cells bb)" "j < length (bb_cells bb)"
  shows "bb_cells (fold damage_cell hit bb) ! j = (if j \<in> set hit then (bb_cells bb ! j)\<lparr>cell_ch := ID_DAMAGED\<rparr> else bb_cells bb ! j) \<and>
    bb_flags (fold damage_cell hit bb) ! j = (if j \<in> set hit then (bb_flags bb ! j)\<lparr>cf_damaged := True\<rparr> else bb_flags bb ! j)"
  using assms
proof (induction hit arbitrary: bb)
  case (Cons x hit)
  have "length (bb_flags (damage_cell x bb)) = length (bb_cells (damage_cell x bb))" "j < length (bb_cells (damage_cell x bb))"
    using Cons.prems by simp_all
  from Cons.IH [OF this] show ?case
    using Cons.prems by (cases "x = j") (auto simp: damage_cell_def nth_list_update)
qed simp

text \<open>The offsets below are those of a list of cells that is long enough.\<close>

definition in_cells :: "bb_text \<Rightarrow> nat \<Rightarrow> bool" where
  "in_cells txt j \<longleftrightarrow> j < length (bb_cells (txt_data txt))"

lemma in_grid_in_cells: "arrays_ok txt \<Longrightarrow> off < unat (txt_rows txt) * unat (txt_cols txt) \<Longrightarrow> in_cells txt off"
  by (simp add: arrays_ok_def in_cells_def)

text \<open>Cells that were not drawn as they are kept: what the array holds is not in any buffer.\<close>

definition stale :: "bb_text \<Rightarrow> nat \<Rightarrow> bool" where
  "stale txt off \<longleftrightarrow> cell_ch (cell_at txt off) = ID_DAMAGED"

lemma mark_cells:
  assumes "arrays_ok txt" "in_cells txt j"
  shows "cell_at (upd_bb (fold damage_cell hit) txt) j = (if j \<in> set hit then (cell_at txt j)\<lparr>cell_ch := ID_DAMAGED\<rparr> else cell_at txt j)"
    "damaged_at (upd_bb (fold damage_cell hit) txt) j = (j \<in> set hit \<or> damaged_at txt j)"
    "double_at (upd_bb (fold damage_cell hit) txt) j = double_at txt j"
  using fold_damage_nth [of "txt_data txt" j hit] assms
  by (simp_all add: cell_at_def damaged_at_def double_at_def arrays_ok_def in_cells_def)

text \<open>The state after \<open>bbulk_prepare\<close>, where \<open>full\<close> says that everything is drawn anew.\<close>

definition prepared :: "bbulk_env \<Rightarrow> bool \<Rightarrow> bb_text \<Rightarrow> bb_text \<Rightarrow> bool" where
  "prepared e full txt t \<longleftrightarrow>
     layout t = layout txt \<and> txt_blinking t = txt_blinking txt \<and> chrome_logo t = chrome_logo txt \<and>
     txt_max_cols t = txt_max_cols txt \<and> txt_max_rows t = txt_max_rows txt \<and> bb_glyphs (txt_data t) = bb_glyphs (txt_data txt) \<and>
     bb_sw (txt_data t) = bb_sw (txt_data txt) \<and> bb_sh (txt_data t) = bb_sh (txt_data txt) \<and>
     bb_rects_max (txt_data t) = bb_rects_max (txt_data txt) \<and> bb_rects (txt_data t) = [] \<and> arrays_ok t \<and>
     length (bb_cells (txt_data t)) = length (bb_cells (txt_data txt)) \<and>
     (\<forall>j. in_cells txt j \<longrightarrow> double_at t j = double_at txt j \<and>
        (if full then stale t j
         else if be_has_damage e \<and> damaged_at txt j then stale t j
         else cell_at t j = cell_at txt j \<and> damaged_at t j = damaged_at txt j)) \<and>
     bb_calls (txt_data t) = bb_calls (txt_data txt) @ (if full then [Display_clear PAGE] else [])"

definition full_redraw :: "bbulk_env \<Rightarrow> tsm_screen_attr \<Rightarrow> bb_text \<Rightarrow> bool" where
  "full_redraw e attr txt \<longleftrightarrow> bb_attr (txt_data txt) \<noteq> attr \<or> be_need_redraw e \<or> bb_redraw (txt_data txt) \<noteq> 0"

lemma bbulk_prepare_prepared:
  assumes a: "arrays_ok txt"
  shows "\<exists>t. bbulk_prepare e txt attr = (ok, t) \<and> prepared e (full_redraw e attr txt) txt t"
proof -
  define bb0 where "bb0 = (txt_data txt)\<lparr>bb_requests := 0, bb_rects := [],
    bb_redraw := (if bb_attr (txt_data txt) \<noteq> attr \<or> be_need_redraw e then 2 else bb_redraw (txt_data txt)), bb_attr := attr\<rparr>"
  define txt0 where "txt0 = txt\<lparr>txt_data := bb0\<rparr>"
  have t0: "upd_bb (\<lambda>bb. bb\<lparr>bb_requests := 0, bb_rects := [],
      bb_redraw := (if bb_attr bb \<noteq> attr \<or> be_need_redraw e then 2 else bb_redraw bb), bb_attr := attr\<rparr>) txt = txt0"
    by (simp add: upd_bb_def txt0_def bb0_def)
  have full: "full_redraw e attr txt \<longleftrightarrow> bb_redraw (txt_data txt0) \<noteq> 0"
    by (simp add: full_redraw_def txt0_def bb0_def)
  have a0: "length (bb_flags bb0) = length (bb_cells bb0)" "length (bb_cells bb0) = length (bb_cells (txt_data txt))"
    "bb_flags bb0 = bb_flags (txt_data txt)" "bb_cells bb0 = bb_cells (txt_data txt)"
    using a by (simp_all add: arrays_ok_def bb0_def)
  have w: "FONT_WIDTH (txt\<lparr>txt_data := d\<rparr>) = FONT_WIDTH txt" "FONT_HEIGHT (txt\<lparr>txt_data := d\<rparr>) = FONT_HEIGHT txt" for d
    by (simp_all add: FONT_WIDTH_def FONT_HEIGHT_def)
  show ?thesis
  proof (cases "full_redraw e attr txt")
    case True
    define bb1 where "bb1 = damage_all (bb0\<lparr>bb_calls := bb_calls bb0 @ [Display_clear PAGE]\<rparr>)"
    define t where "t = txt\<lparr>txt_data := bb1\<lparr>bb_redraw := bb_redraw bb1 - 1\<rparr>\<rparr>"
    have p: "bbulk_prepare e txt attr = (ok, t)"
      unfolding bbulk_prepare_def t0 Let_def using True full
      by (simp add: txt0_def emit_disp_def upd_bb_def t_def bb1_def)
    have st: "bb_cells bb1 ! j = (bb_cells bb0 ! j)\<lparr>cell_ch := ID_DAMAGED\<rparr> \<and> bb_flags bb1 ! j = (bb_flags bb0 ! j)\<lparr>cf_damaged := True\<rparr>"
      if "j < length (bb_cells bb0)" for j
      using fold_damage_nth [of "bb0\<lparr>bb_calls := bb_calls bb0 @ [Display_clear PAGE]\<rparr>" j "[0..<length (bb_cells bb0)]"] that a0(1)
      by (simp add: bb1_def damage_all_def)
    have k: "length (bb_cells bb1) = length (bb_cells bb0)" "length (bb_flags bb1) = length (bb_flags bb0)"
      "bb_glyphs bb1 = bb_glyphs bb0" "bb_calls bb1 = bb_calls bb0 @ [Display_clear PAGE]"
      by (simp_all add: bb1_def damage_all_def)
    have "wipe (txt\<lparr>txt_data := bb1\<rparr>) = wipe (txt\<lparr>txt_data := bb0\<rparr>)"
      using wipe_fold_damage [of "[0..<length (bb_cells bb0)]" "txt\<lparr>txt_data := bb0\<lparr>bb_calls := bb_calls bb0 @ [Display_clear PAGE]\<rparr>\<rparr>"]
      by (simp add: upd_bb_def bb1_def damage_all_def wipe_def)
    note q = wipe_projections [OF this]
    have "prepared e True txt t"
      unfolding prepared_def using a a0 k q st
      by (simp add: t_def layout_def w arrays_ok_def in_cells_def double_at_def stale_def cell_at_def) (simp add: bb0_def)
    then show ?thesis using p True by simp
  next
    case False
    define bb1 where "bb1 = (if be_has_damage e then carry_over bb0 else bb0)"
    define t where "t = txt\<lparr>txt_data := bb1\<lparr>bb_redraw := bb_redraw bb1 - 1\<rparr>\<rparr>"
    have p: "bbulk_prepare e txt attr = (ok, t)"
      unfolding bbulk_prepare_def t0 Let_def using False full
      by (simp add: txt0_def emit_disp_def upd_bb_def t_def bb1_def)
    have k: "bb_flags bb1 = bb_flags bb0" "length (bb_cells bb1) = length (bb_cells bb0)" "bb_glyphs bb1 = bb_glyphs bb0"
      "bb_calls bb1 = bb_calls bb0" "bb_off_x bb1 = bb_off_x bb0" "bb_off_y bb1 = bb_off_y bb0" "bb_max_x bb1 = bb_max_x bb0"
      "bb_max_y bb1 = bb_max_y bb0" "bb_rects bb1 = bb_rects bb0" "bb_rects_max bb1 = bb_rects_max bb0" "bb_sw bb1 = bb_sw bb0"
      "bb_sh bb1 = bb_sh bb0"
      using a0(1) by (simp_all add: bb1_def carry_over_def)
    have st: "bb_cells bb1 ! j = (if be_has_damage e \<and> cf_damaged (bb_flags bb0 ! j) then (bb_cells bb0 ! j)\<lparr>cell_ch := ID_DAMAGED\<rparr> else bb_cells bb0 ! j)"
      if "j < length (bb_cells bb0)" for j
      using that a0(1) by (simp add: bb1_def carry_over_def)
    have "prepared e False txt t"
      unfolding prepared_def using a a0 k st
      by (simp add: t_def layout_def w arrays_ok_def in_cells_def double_at_def damaged_at_def stale_def cell_at_def) (simp add: bb0_def)
    then show ?thesis using p False by simp
  qed
qed

end
