(* ===== verification/Bbulk_Pixels.thy ===== *)
theory Bbulk_Pixels
  imports Bbulk_Draw
begin

text \<open>
  The calls of the renderer as pixels, for a screen that is not turned: the cells of the terminal
  card do not overlap, the chrome is painted beside the card, and the pointer covers no more than
  the four cells that are marked for it.
\<close>

section \<open>Pixels\<close>

definition in_req :: "video_blend_req \<Rightarrow> nat \<times> nat \<Rightarrow> bool" where
  "in_req r p \<longleftrightarrow> unat (rq_x r) \<le> fst p \<and> fst p < unat (rq_x r) + unat (rq_w r) \<and>
     unat (rq_y r) \<le> snd p \<and> snd p < unat (rq_y r) + unat (rq_h r)"

text \<open>A screen says of each pixel by which request it was painted last.\<close>

type_synonym surface = "nat \<times> nat \<Rightarrow> video_blend_req option"

fun paint :: "disp_call \<Rightarrow> surface \<Rightarrow> surface" where
  "paint (Display_blend r) s = (\<lambda>p. if in_req r p then Some r else s p)"
| "paint (Display_clear c) s = (\<lambda>p. None)"
| "paint (Display_set_cursor_offset x y) s = s"
| "paint (Display_set_damage rects) s = s"

text \<open>The screen is upright and holds the card with the chrome around it.\<close>

definition card_fits :: "bb_text \<Rightarrow> bool" where
  "card_fits txt \<longleftrightarrow> txt_orientation txt = OR_NORMAL \<and> 0 < FONT_WIDTH txt \<and> 0 < FONT_HEIGHT txt \<and>
     0 < txt_cols txt \<and> 0 < txt_rows txt \<and>
     unat (bb_off_x (txt_data txt)) + (unat (txt_cols txt) + 4) * unat (FONT_WIDTH txt) < 2 ^ 31 \<and>
     unat (bb_off_y (txt_data txt)) + (unat (txt_rows txt) + 9) * unat (FONT_HEIGHT txt) < 2 ^ 31 \<and>
     unat (bb_max_x (txt_data txt)) = unat (bb_off_x (txt_data txt)) + (unat (txt_cols txt) + 4) * unat (FONT_WIDTH txt) \<and>
     unat (bb_max_y (txt_data txt)) = unat (bb_off_y (txt_data txt)) + (unat (txt_rows txt) + 9) * unat (FONT_HEIGHT txt)"

text \<open>The font: one cell of its size for everything.\<close>

definition cell_font :: "bbulk_env \<Rightarrow> bb_text \<Rightarrow> bool" where
  "cell_font e txt \<longleftrightarrow> be_mem e \<and> (\<forall>c. \<exists>g. make_glyph e OR_NORMAL c = Some g \<and> \<not> gl_double g \<and>
     vb_width (gl_buf g) = FONT_WIDTH txt \<and> vb_height (gl_buf g) = FONT_HEIGHT txt)"

lemma cell_font_simple: "cell_font e txt \<Longrightarrow> simple_font e OR_NORMAL"
  by (auto simp: cell_font_def simple_font_def)

lemma cell_font_size:
  assumes "cell_font e txt"
  shows "vb_width (gl_buf (glyph_of e OR_NORMAL c)) = FONT_WIDTH txt" "vb_height (gl_buf (glyph_of e OR_NORMAL c)) = FONT_HEIGHT txt"
  using assms by (auto simp: cell_font_def glyph_of_def) (metis option.sel)+

lemma row_below: "(a :: nat) < b \<Longrightarrow> a * w + w \<le> b * w"
  using mult_le_mono1 [of "a + 1" b w] by simp

lemma unat_affine: "unat (a :: u32) * unat b + unat c < 2 ^ 32 \<Longrightarrow> unat (a * b + c) = unat a * unat b + unat c"
  by (simp add: unat_word_ariths)

text \<open>The cell of the page in column \<open>gx\<close>, row \<open>gy\<close>.\<close>

definition in_page :: "bb_text \<Rightarrow> nat \<Rightarrow> nat \<Rightarrow> nat \<times> nat \<Rightarrow> bool" where
  "in_page txt gx gy p \<longleftrightarrow>
     unat (bb_off_x (txt_data txt)) + gx * unat (FONT_WIDTH txt) \<le> fst p \<and>
     fst p < unat (bb_off_x (txt_data txt)) + (gx + 1) * unat (FONT_WIDTH txt) \<and>
     unat (bb_off_y (txt_data txt)) + gy * unat (FONT_HEIGHT txt) \<le> snd p \<and>
     snd p < unat (bb_off_y (txt_data txt)) + (gy + 1) * unat (FONT_HEIGHT txt)"

lemma span_unique:
  fixes a b w x u :: nat
  assumes "u + a * w \<le> x" "x < u + (a + 1) * w" "u + b * w \<le> x" "x < u + (b + 1) * w"
  shows "a = b"
proof -
  have "a * w < (b + 1) * w" "b * w < (a + 1) * w" using assms by linarith+
  then have "a < b + 1" "b < a + 1" using mult_less_cancel2 by blast+
  then show ?thesis by simp
qed

lemma in_page_unique: "in_page txt gx gy p \<Longrightarrow> in_page txt gx' gy' p \<Longrightarrow> gx = gx' \<and> gy = gy'"
  unfolding in_page_def by (meson span_unique)

definition in_cell :: "bb_text \<Rightarrow> nat \<Rightarrow> nat \<times> nat \<Rightarrow> bool" where
  "in_cell txt off = in_page txt (off mod unat (txt_cols txt) + 2) (off div unat (txt_cols txt) + 5)"

lemma mod_div_eq:
  fixes i j c :: nat
  assumes "i mod c = j mod c" "i div c = j div c"
  shows "i = j"
  by (rule trans [OF div_mult_mod_eq [symmetric, of i c]]) (simp only: assms div_mult_mod_eq)

lemma in_cell_unique: "in_cell txt i p \<Longrightarrow> in_cell txt j p \<Longrightarrow> i = j"
proof -
  assume "in_cell txt i p" "in_cell txt j p"
  then have "i mod unat (txt_cols txt) + 2 = j mod unat (txt_cols txt) + 2 \<and> i div unat (txt_cols txt) + 5 = j div unat (txt_cols txt) + 5"
    unfolding in_cell_def by (rule in_page_unique)
  then show "i = j" by (auto intro: mod_div_eq [of i "unat (txt_cols txt)" j])
qed

lemma in_page_layout:
  assumes "layout t = layout u"
  shows "in_page t = in_page u" "in_cell t = in_cell u" "card_fits t = card_fits u" "cell_font e t = cell_font e u"
proof -
  have e: "txt_orientation t = txt_orientation u" "FONT_WIDTH t = FONT_WIDTH u" "FONT_HEIGHT t = FONT_HEIGHT u"
    "txt_cols t = txt_cols u" "txt_rows t = txt_rows u" "bb_off_x (txt_data t) = bb_off_x (txt_data u)"
    "bb_off_y (txt_data t) = bb_off_y (txt_data u)" "bb_max_x (txt_data t) = bb_max_x (txt_data u)"
    "bb_max_y (txt_data t) = bb_max_y (txt_data u)"
    using assms by (simp_all add: layout_def)
  show *: "in_page t = in_page u" by (simp add: fun_eq_iff in_page_def e)
  show "in_cell t = in_cell u" by (simp add: fun_eq_iff in_cell_def e *)
  show "card_fits t = card_fits u" by (simp add: card_fits_def e)
  show "cell_font e t = cell_font e u" by (simp add: cell_font_def e)
qed

text \<open>A request for one glyph at a place of the page.\<close>

lemma glyph_request_page:
  assumes c: "card_fits txt" and f: "cell_font e txt"
    and gx: "unat gx < unat (txt_cols txt) + 4" and gy: "unat gy < unat (txt_rows txt) + 9"
  shows "in_req (glyph_request (glyph_of e OR_NORMAL cl) (set_coordinate txt gx gy) cl) = in_page txt (unat gx) (unat gy)"
proof -
  have m: "unat gx * unat (FONT_WIDTH txt) \<le> (unat (txt_cols txt) + 4) * unat (FONT_WIDTH txt)"
    "unat gy * unat (FONT_HEIGHT txt) \<le> (unat (txt_rows txt) + 9) * unat (FONT_HEIGHT txt)"
    using gx gy by (simp_all only: mult_le_mono1 less_imp_le)
  have b: "unat (bb_off_x (txt_data txt)) + (unat (txt_cols txt) + 4) * unat (FONT_WIDTH txt) < 2 ^ 31"
    "unat (bb_off_y (txt_data txt)) + (unat (txt_rows txt) + 9) * unat (FONT_HEIGHT txt) < 2 ^ 31"
    and n: "txt_orientation txt = OR_NORMAL" using c by (simp_all only: card_fits_def)
  have two: "(2 :: nat) ^ 31 \<le> 2 ^ 32" by simp
  have x: "unat (gx * FONT_WIDTH txt + bb_off_x (txt_data txt)) = unat gx * unat (FONT_WIDTH txt) + unat (bb_off_x (txt_data txt))"
    by (rule unat_affine) (use m(1) b(1) two in linarith)
  have y: "unat (gy * FONT_HEIGHT txt + bb_off_y (txt_data txt)) = unat gy * unat (FONT_HEIGHT txt) + unat (bb_off_y (txt_data txt))"
    by (rule unat_affine) (use m(2) b(2) two in linarith)
  have r: "rq_x (glyph_request (glyph_of e OR_NORMAL cl) (set_coordinate txt gx gy) cl) = gx * FONT_WIDTH txt + bb_off_x (txt_data txt)"
    "rq_y (glyph_request (glyph_of e OR_NORMAL cl) (set_coordinate txt gx gy) cl) = gy * FONT_HEIGHT txt + bb_off_y (txt_data txt)"
    "rq_w (glyph_request (glyph_of e OR_NORMAL cl) (set_coordinate txt gx gy) cl) = FONT_WIDTH txt"
    "rq_h (glyph_request (glyph_of e OR_NORMAL cl) (set_coordinate txt gx gy) cl) = FONT_HEIGHT txt"
    using n cell_font_size [OF f, of cl] by (simp_all add: glyph_request_def set_coordinate_def Let_def)
  show ?thesis
    unfolding fun_eq_iff in_req_def in_page_def r x y by (simp add: algebra_simps)
qed

lemma of_nat_small: "n + unat k < 2 ^ 32 \<Longrightarrow> unat (of_nat n + k :: u32) = n + unat k"
  by (simp add: unat_word_ariths unat_of_nat)

lemma card_small:
  assumes "card_fits txt"
  shows "unat (txt_cols txt) + 4 < 2 ^ 31" "unat (txt_rows txt) + 9 < 2 ^ 31"
proof -
  have b: "unat (bb_off_x (txt_data txt)) + (unat (txt_cols txt) + 4) * unat (FONT_WIDTH txt) < 2 ^ 31"
    "unat (bb_off_y (txt_data txt)) + (unat (txt_rows txt) + 9) * unat (FONT_HEIGHT txt) < 2 ^ 31"
    and w: "0 < FONT_WIDTH txt" "0 < FONT_HEIGHT txt" using assms by (simp_all only: card_fits_def)
  have "1 \<le> unat (FONT_WIDTH txt)" "1 \<le> unat (FONT_HEIGHT txt)" using w by (simp_all add: word_less_nat_alt)
  then have "unat (txt_cols txt) + 4 \<le> (unat (txt_cols txt) + 4) * unat (FONT_WIDTH txt)"
    "unat (txt_rows txt) + 9 \<le> (unat (txt_rows txt) + 9) * unat (FONT_HEIGHT txt)" by simp_all
  then show "unat (txt_cols txt) + 4 < 2 ^ 31" "unat (txt_rows txt) + 9 < 2 ^ 31" using b by linarith+
qed

lemma request_at_cell:
  assumes c: "card_fits txt" and f: "cell_font e txt" and off: "off < unat (txt_rows txt) * unat (txt_cols txt)"
  shows "in_req (request_at e txt off cl) = in_cell txt off"
proof -
  have pos: "0 < unat (txt_cols txt)" using c by (simp add: card_fits_def word_less_nat_alt)
  then have m: "off mod unat (txt_cols txt) < unat (txt_cols txt)" by simp
  have d: "off div unat (txt_cols txt) < unat (txt_rows txt)" using off pos by (simp add: less_mult_imp_div_less)
  have x: "unat (of_nat (off mod unat (txt_cols txt)) + PAD_COLS) = off mod unat (txt_cols txt) + 2"
    using m card_small [OF c] by (subst of_nat_small) simp_all
  have y: "unat (of_nat (off div unat (txt_cols txt)) + TOP_ROWS) = off div unat (txt_cols txt) + 5"
    using d card_small [OF c] by (subst of_nat_small) simp_all
  have n: "txt_orientation txt = OR_NORMAL" using c by (simp add: card_fits_def)
  show ?thesis
    unfolding request_at_def n in_cell_def
    using glyph_request_page [OF c f, of "of_nat (off mod unat (txt_cols txt)) + PAD_COLS" "of_nat (off div unat (txt_cols txt)) + TOP_ROWS" cl]
      m d unfolding x y by simp
qed

end
