(* ===== verification/Bbulk_Damage.thy ===== *)
theory Bbulk_Damage
  imports Bbulk_Pixels
begin

text \<open>
  The damage of a frame: the rectangles of \<open>bbulk_compute_damage\<close> fit the array that was allocated
  for them, and every cell that is flagged lies in one of them.
\<close>

section \<open>The number of rectangles\<close>

text \<open>Four cells lie between the starts of two rectangles of a row.\<close>

lemma damage_row_length:
  assumes "fold (damage_step txt posy) [0..<k] (0, rects) = (prev, rects')"
  shows "4 * length rects' \<le> 4 * length rects + k + prev \<and> prev \<le> 3 \<and> (prev \<noteq> 0 \<longrightarrow> rects' \<noteq> [])"
  using assms
proof (induction k arbitrary: prev rects')
  case (Suc k)
  obtain p r where pr: "fold (damage_step txt posy) [0..<k] (0, rects) = (p, r)" by fastforce
  have ih: "4 * length r \<le> 4 * length rects + k + p" "p \<le> 3" "p \<noteq> 0 \<longrightarrow> r \<noteq> []" using Suc.IH [OF pr] by auto
  have s: "damage_step txt posy k (p, r) = (prev, rects')" using Suc.prems pr by simp
  show ?case
  proof (cases "cf_damaged (bb_flags (txt_data txt) ! (k + posy * unat (txt_cols txt)))")
    case False
    then have "prev = p - 1" "rects' = r" using s by (simp_all add: damage_step_def)
    then show ?thesis using ih by auto
  next
    case True
    then have "prev = 3" "rects' = (if p \<noteq> 0 then merge_damage (cell_rect txt k posy) r else add_damage (cell_rect txt k posy) r)"
      using s by (simp_all add: damage_step_def)
    then show ?thesis using ih by (auto simp: merge_damage_def add_damage_def)
  qed
qed simp

lemma damage_row_adds: "length (damage_row txt posy rects) \<le> length rects + (unat (txt_cols txt) + 3) div 4"
proof -
  obtain p r where pr: "fold (damage_step txt posy) [0..<unat (txt_cols txt)] (0, rects) = (p, r)" by fastforce
  have "4 * length r \<le> 4 * length rects + unat (txt_cols txt) + p \<and> p \<le> 3" using damage_row_length [OF pr] by simp
  then have "length r \<le> length rects + (unat (txt_cols txt) + 3) div 4" by linarith
  then show ?thesis by (simp add: damage_row_def pr)
qed

lemma damage_rows_add: "length (fold (damage_row txt) ys rects) \<le> length rects + length ys * ((unat (txt_cols txt) + 3) div 4)"
proof (induction ys arbitrary: rects)
  case (Cons y ys)
  have "length (fold (damage_row txt) ys (damage_row txt y rects)) \<le> length (damage_row txt y rects) + length ys * ((unat (txt_cols txt) + 3) div 4)"
    by (rule Cons.IH)
  then show ?case using damage_row_adds [of "txt" y rects] by simp
qed simp

text \<open>
  Property C35. The rectangles of a frame fit the array of \<open>bbulk_set\<close>: as long as the terminal is
  not larger than the screen was when the array was allocated, \<open>bbulk_compute_damage\<close> stores no
  more than the \<open>max_damage_rects\<close> that were asked for, whatever cells are damaged.
\<close>

theorem damage_rects_fit:
  assumes "bb_rects (txt_data txt) = []" "txt_cols txt \<le> txt_max_cols txt" "txt_rows txt \<le> txt_max_rows txt"
  shows "length (bb_rects (txt_data (bbulk_compute_damage txt))) \<le> max_damage_rects (txt_max_cols txt) (txt_max_rows txt)"
proof -
  have le: "unat (txt_cols txt) \<le> unat (txt_max_cols txt)" "unat (txt_rows txt) \<le> unat (txt_max_rows txt)"
    using assms(2,3) by (simp_all add: word_le_nat_alt)
  have "length (fold (damage_row txt) [0..<unat (txt_rows txt) + 2] []) \<le> (unat (txt_rows txt) + 2) * ((unat (txt_cols txt) + 3) div 4)"
    using damage_rows_add [of "txt" "[0..<unat (txt_rows txt) + 2]" "[]"] by (simp del: upt_Suc)
  also have "\<dots> \<le> (unat (txt_max_rows txt) + 2) * ((unat (txt_max_cols txt) + 3) div 4)"
    by (rule mult_le_mono) (use le in \<open>simp_all add: div_le_mono\<close>)
  finally show ?thesis
    using assms(1) by (simp del: upt_Suc add: bbulk_compute_damage_def Let_def add_damage_def max_damage_rects_def mult.commute)
qed

text \<open>
  The number is written here over the natural numbers; the code computes it in unsigned arithmetic
  and keeps it in an \<open>int\<close>. For screens below \<open>2 ^ 15\<close> cells each way the two are the same.
\<close>

lemma max_damage_rects_unsigned:
  assumes "cols < 2 ^ 15" "rows < 2 ^ 15"
  shows "unat ((cols + 3) div 4 * (rows + 2) + 2 :: u32) = max_damage_rects cols rows"
    "max_damage_rects cols rows < 2 ^ 31"
proof -
  have l: "unat cols < 2 ^ 15" "unat rows < 2 ^ 15" using assms by (simp_all add: word_less_nat_alt)
  define a where "a = (unat cols + 3) div 4"
  have a: "a < 2 ^ 14" using l by (simp add: a_def)
  have b: "a * (unat rows + 2) \<le> 2 ^ 14 * (2 ^ 15 + 2)" using a l by (intro mult_le_mono) simp_all
  have c: "unat (cols + 3) = unat cols + 3" using l by (simp add: unat_word_ariths)
  have d: "unat ((cols + 3) div 4) = a" using c by (simp add: unat_div a_def)
  have e: "unat (rows + 2) = unat rows + 2" using l by (simp add: unat_word_ariths)
  have f: "unat ((cols + 3) div 4 * (rows + 2)) = a * (unat rows + 2)"
    using b d e by (simp add: unat_word_ariths(2))
  then have "unat ((cols + 3) div 4 * (rows + 2) + 2) = a * (unat rows + 2) + 2"
    using b by (simp add: unat_word_ariths(1))
  then show "unat ((cols + 3) div 4 * (rows + 2) + 2 :: u32) = max_damage_rects cols rows"
    by (simp add: max_damage_rects_def a_def)
  show "max_damage_rects cols rows < 2 ^ 31"
    using b by (simp add: max_damage_rects_def a_def [symmetric])
qed

section \<open>What the rectangles cover\<close>

definition in_rect :: "video_rect \<Rightarrow> nat \<times> nat \<Rightarrow> bool" where
  "in_rect r p \<longleftrightarrow> vr_x1 r \<le> int (fst p) \<and> int (fst p) < vr_x2 r \<and> vr_y1 r \<le> int (snd p) \<and> int (snd p) < vr_y2 r"

definition covered :: "video_rect list \<Rightarrow> nat \<times> nat \<Rightarrow> bool" where
  "covered rects p \<longleftrightarrow> (\<exists>r\<in>set rects. in_rect r p)"

lemma covered_add: "covered (add_damage r rects) p \<longleftrightarrow> covered rects p \<or> in_rect r p"
  by (auto simp: covered_def add_damage_def)

lemma covered_merge:
  assumes "rects \<noteq> []" "covered rects p \<or> in_rect r p"
  shows "covered (merge_damage r rects) p"
proof -
  obtain xs x where e: "rects = xs @ [x]" using assms(1) by (cases rects rule: rev_cases) auto
  then show ?thesis using assms(2) by (auto simp: covered_def merge_damage_def in_rect_def)
qed

lemma damage_row_covers:
  assumes "fold (damage_step txt posy) [0..<k] (0, rects) = (prev, rects')"
    and "covered rects p \<or> (\<exists>posx<k. cf_damaged (bb_flags (txt_data txt) ! (posx + posy * unat (txt_cols txt))) \<and> in_rect (cell_rect txt posx posy) p)"
  shows "covered rects' p"
  using assms
proof (induction k arbitrary: prev rects')
  case (Suc k)
  obtain q r where pr: "fold (damage_step txt posy) [0..<k] (0, rects) = (q, r)" by fastforce
  have s: "damage_step txt posy k (q, r) = (prev, rects')" using Suc.prems pr by simp
  have ne: "q \<noteq> 0 \<longrightarrow> r \<noteq> []" using damage_row_length [OF pr] by simp
  show ?case
  proof (cases "cf_damaged (bb_flags (txt_data txt) ! (k + posy * unat (txt_cols txt)))")
    case False
    then have "rects' = r" using s by (simp add: damage_step_def)
    moreover have "covered r p" using Suc.IH [OF pr] Suc.prems(2) False by (auto simp: less_Suc_eq)
    ultimately show ?thesis by simp
  next
    case True
    then have r': "rects' = (if q \<noteq> 0 then merge_damage (cell_rect txt k posy) r else add_damage (cell_rect txt k posy) r)"
      using s by (simp add: damage_step_def)
    have "covered r p \<or> in_rect (cell_rect txt k posy) p" using Suc.IH [OF pr] Suc.prems(2) by (auto simp: less_Suc_eq)
    then show ?thesis using ne r' covered_merge covered_add by auto
  qed
qed simp

lemma damage_rows_cover:
  assumes "covered rects p \<or> (\<exists>posy\<in>set ys. \<exists>posx<unat (txt_cols txt).
    cf_damaged (bb_flags (txt_data txt) ! (posx + posy * unat (txt_cols txt))) \<and> in_rect (cell_rect txt posx posy) p)"
  shows "covered (fold (damage_row txt) ys rects) p"
  using assms
proof (induction ys arbitrary: rects)
  case (Cons y ys)
  obtain q r where pr: "fold (damage_step txt y) [0..<unat (txt_cols txt)] (0, rects) = (q, r)" by fastforce
  then have r: "damage_row txt y rects = r" by (simp add: damage_row_def)
  have "covered r p \<or> (\<exists>posy\<in>set ys. \<exists>posx<unat (txt_cols txt).
    cf_damaged (bb_flags (txt_data txt) ! (posx + posy * unat (txt_cols txt))) \<and> in_rect (cell_rect txt posx posy) p)"
    using damage_row_covers [OF pr, of p] Cons.prems by auto
  then show ?case using Cons.IH r by simp
qed simp

lemma sint_small: "unat (w :: u32) < 2 ^ 31 \<Longrightarrow> sint w = int (unat w)"
proof -
  assume b: "unat w < 2 ^ 31"
  have "int (unat w) < int (2 ^ 31)" using b by (simp only: of_nat_less_iff)
  then have "uint w < 2 ^ 31" by simp
  moreover have "- (2 ^ 31) \<le> uint w" by (rule order_trans [OF _ uint_ge_0]) simp
  ultimately have "signed_take_bit 31 (uint w) = uint w" by (intro signed_take_bit_int_eq_self)
  then show "sint w = int (unat w)" by (simp add: sint_uint)
qed

text \<open>Every damaged cell of the terminal is covered.\<close>

lemma damaged_cell_covered:
  assumes c: "card_fits txt" and off: "off < unat (txt_rows txt) * unat (txt_cols txt)"
    and d: "damaged_at txt off" and p: "in_cell txt off p"
  shows "covered (bb_rects (txt_data (bbulk_compute_damage txt))) p"
proof -
  define posx where "posx = off mod unat (txt_cols txt)"
  define posy where "posy = off div unat (txt_cols txt)"
  have pos: "0 < unat (txt_cols txt)" using c by (simp add: card_fits_def word_less_nat_alt)
  have lim: "posx < unat (txt_cols txt)" "posy < unat (txt_rows txt)"
    using pos off by (simp_all add: posx_def posy_def less_mult_imp_div_less)
  have o: "posx + posy * unat (txt_cols txt) = off" by (simp add: posx_def posy_def mult.commute)
  have b: "unat (bb_off_x (txt_data txt)) + (unat (txt_cols txt) + 4) * unat (FONT_WIDTH txt) < 2 ^ 31"
    "unat (bb_off_y (txt_data txt)) + (unat (txt_rows txt) + 9) * unat (FONT_HEIGHT txt) < 2 ^ 31"
    and n: "txt_orientation txt = OR_NORMAL" using c by (simp_all only: card_fits_def)
  have two: "(2 :: nat) ^ 31 \<le> 2 ^ 32" by simp
  have gx: "unat (of_nat posx + PAD_COLS :: u32) = posx + 2" and gy: "unat (of_nat posy + TOP_ROWS :: u32) = posy + 5"
    using lim card_small [OF c] by (subst of_nat_small; simp)+
  define x where "x = (of_nat posx + PAD_COLS) * FONT_WIDTH txt + bb_off_x (txt_data txt)"
  define y where "y = (of_nat posy + TOP_ROWS) * FONT_HEIGHT txt + bb_off_y (txt_data txt)"
  define W where "W = unat (FONT_WIDTH txt)"
  define H where "H = unat (FONT_HEIGHT txt)"
  have mw: "(posx + 2) * W + W \<le> (unat (txt_cols txt) + 4) * W" and mh: "(posy + 5) * H + H \<le> (unat (txt_rows txt) + 9) * H"
    using lim by (intro row_below; simp)+
  have bw: "unat (bb_off_x (txt_data txt)) + (posx + 2) * W + W < 2 ^ 31" "unat (bb_off_y (txt_data txt)) + (posy + 5) * H + H < 2 ^ 31"
    using b mw mh unfolding W_def H_def by linarith+
  have ux: "unat x = (posx + 2) * W + unat (bb_off_x (txt_data txt))"
    unfolding x_def W_def gx [symmetric] by (rule unat_affine) (use bw(1) two in \<open>unfold gx W_def, linarith\<close>)
  have uy: "unat y = (posy + 5) * H + unat (bb_off_y (txt_data txt))"
    unfolding y_def H_def gy [symmetric] by (rule unat_affine) (use bw(2) two in \<open>unfold gy H_def, linarith\<close>)
  have ux2: "unat (x + FONT_WIDTH txt) = unat x + W" and uy2: "unat (y + FONT_HEIGHT txt) = unat y + H"
    using bw ux uy two by (simp_all add: unat_word_ariths W_def H_def)
  have r: "cell_rect txt posx posy = \<lparr>vr_x1 = int (unat x), vr_y1 = int (unat y), vr_x2 = int (unat x + W), vr_y2 = int (unat y + H)\<rparr>"
    unfolding cell_rect_def using n bw ux uy
    by (simp add: set_coordinate_def Let_def x_def [symmetric] y_def [symmetric] sint_small ux2 uy2)
  have at: "unat x \<le> fst p" "fst p < unat x + W" "unat y \<le> snd p" "snd p < unat y + H"
    using p unfolding in_cell_def in_page_def posx_def [symmetric] posy_def [symmetric] W_def [symmetric] H_def [symmetric] ux uy
    by (simp_all add: algebra_simps)
  have "in_rect (cell_rect txt posx posy) p"
    unfolding in_rect_def r video_rect.simps of_nat_le_iff of_nat_less_iff using at by blast
  moreover have "cf_damaged (bb_flags (txt_data txt) ! (posx + posy * unat (txt_cols txt)))" using d o by (simp add: damaged_at_def)
  moreover have "posy \<in> set [0..<unat (txt_rows txt) + 2]" using lim by simp
  ultimately have "covered (fold (damage_row txt) [0..<unat (txt_rows txt) + 2] (bb_rects (txt_data txt))) p"
    using damage_rows_cover lim(1) by blast
  then show ?thesis by (simp del: upt_Suc add: bbulk_compute_damage_def Let_def covered_add)
qed

text \<open>A screen of five columns and two rows with two damaged cells far apart.\<close>

definition demo_txt :: bb_text where
  "demo_txt = (text_zero (bb_zero []) OR_NORMAL)
     \<lparr>txt_cols := 5, txt_rows := 1, txt_max_cols := 5, txt_max_rows := 1, txt_data := (bb_zero [])
       \<lparr>bb_cells := replicate 15 cell_zero,
        bb_flags := map (\<lambda>i. \<lparr>cf_double = False, cf_damaged = (i = 0 \<or> i = 4)\<rparr>) [0..<15]\<rparr>\<rparr>"

lemma damage_rects_fit_witness:
  "length (bb_rects (txt_data (bbulk_compute_damage demo_txt))) \<le> max_damage_rects (txt_max_cols demo_txt) (txt_max_rows demo_txt) \<and>
   txt_cols demo_txt = 5"
  using damage_rects_fit [of demo_txt] by (simp add: demo_txt_def bb_zero_def)

end
