(* ===== verification/Bbulk_Chrome.thy ===== *)
theory Bbulk_Chrome
  imports Bbulk_Pixels
begin

text \<open>
  The chrome of \<open>bbulk_draw_status\<close>: on an upright screen every call it makes stays beside the
  terminal card, if the logo is not taller than the rows above the card.
\<close>

section \<open>Beside the card\<close>

definition card_x0 :: "bb_text \<Rightarrow> nat" where
  "card_x0 txt = unat (bb_off_x (txt_data txt)) + 2 * unat (FONT_WIDTH txt)"

definition card_x1 :: "bb_text \<Rightarrow> nat" where
  "card_x1 txt = unat (bb_off_x (txt_data txt)) + (unat (txt_cols txt) + 2) * unat (FONT_WIDTH txt)"

definition card_y0 :: "bb_text \<Rightarrow> nat" where
  "card_y0 txt = unat (bb_off_y (txt_data txt)) + 5 * unat (FONT_HEIGHT txt)"

definition card_y1 :: "bb_text \<Rightarrow> nat" where
  "card_y1 txt = unat (bb_off_y (txt_data txt)) + (unat (txt_rows txt) + 5) * unat (FONT_HEIGHT txt)"

fun beside_card :: "bb_text \<Rightarrow> disp_call \<Rightarrow> bool" where
  "beside_card txt (Display_blend r) \<longleftrightarrow>
     unat (rq_x r) + unat (rq_w r) \<le> card_x0 txt \<or> card_x1 txt \<le> unat (rq_x r) \<or>
     unat (rq_y r) + unat (rq_h r) \<le> card_y0 txt \<or> card_y1 txt \<le> unat (rq_y r)"
| "beside_card txt (Display_clear c) \<longleftrightarrow> False"
| "beside_card txt (Display_set_cursor_offset x y) \<longleftrightarrow> True"
| "beside_card txt (Display_set_damage rects) \<longleftrightarrow> True"

definition in_card :: "bb_text \<Rightarrow> nat \<times> nat \<Rightarrow> bool" where
  "in_card txt p \<longleftrightarrow> card_x0 txt \<le> fst p \<and> fst p < card_x1 txt \<and> card_y0 txt \<le> snd p \<and> snd p < card_y1 txt"

lemma beside_card_paint: "list_all (beside_card txt) cs \<Longrightarrow> in_card txt p \<Longrightarrow> fold paint cs s p = s p"
proof (induction cs arbitrary: s)
  case (Cons c cs)
  have "paint c s p = s p" using Cons.prems by (cases c) (auto simp: in_req_def in_card_def)
  then show ?case using Cons by simp
qed simp

lemma in_cell_card:
  assumes "card_fits txt" "off < unat (txt_rows txt) * unat (txt_cols txt)" "in_cell txt off p"
  shows "in_card txt p"
proof -
  have pos: "0 < unat (txt_cols txt)" using assms(1) by (simp add: card_fits_def word_less_nat_alt)
  have m: "(off mod unat (txt_cols txt) + 2 + 1) * unat (FONT_WIDTH txt) \<le> (unat (txt_cols txt) + 2) * unat (FONT_WIDTH txt)"
    using pos by (intro mult_le_mono1) (simp add: Suc_leI)
  have d: "(off div unat (txt_cols txt) + 5 + 1) * unat (FONT_HEIGHT txt) \<le> (unat (txt_rows txt) + 5) * unat (FONT_HEIGHT txt)"
    using less_mult_imp_div_less [OF assms(2)] by (intro mult_le_mono1) simp
  have "2 * unat (FONT_WIDTH txt) \<le> (off mod unat (txt_cols txt) + 2) * unat (FONT_WIDTH txt)"
    "5 * unat (FONT_HEIGHT txt) \<le> (off div unat (txt_cols txt) + 5) * unat (FONT_HEIGHT txt)" by simp_all
  then show ?thesis
    using assms(3) m d unfolding in_cell_def in_page_def in_card_def card_x0_def card_x1_def card_y0_def card_y1_def by linarith
qed

lemma card_layout:
  assumes "layout t = layout u"
  shows "card_x0 t = card_x0 u" "card_x1 t = card_x1 u" "card_y0 t = card_y0 u" "card_y1 t = card_y1 u"
    "in_card t = in_card u" "beside_card t = beside_card u"
proof -
  have e: "FONT_WIDTH t = FONT_WIDTH u" "FONT_HEIGHT t = FONT_HEIGHT u" "txt_cols t = txt_cols u" "txt_rows t = txt_rows u"
    "bb_off_x (txt_data t) = bb_off_x (txt_data u)" "bb_off_y (txt_data t) = bb_off_y (txt_data u)"
    using assms by (simp_all add: layout_def)
  show *: "card_x0 t = card_x0 u" "card_x1 t = card_x1 u" "card_y0 t = card_y0 u" "card_y1 t = card_y1 u"
    by (simp_all add: card_x0_def card_x1_def card_y0_def card_y1_def e)
  show "in_card t = in_card u" by (simp add: fun_eq_iff in_card_def *)
  show "beside_card t = beside_card u"
  proof
    fix c show "beside_card t c = beside_card u c" by (cases c) (simp_all add: *)
  qed
qed

section \<open>Steps\<close>

text \<open>A step leaves the cells alone and calls the display beside the card.\<close>

definition chrome_kept :: "bbulk_env \<Rightarrow> bb_text \<Rightarrow> bb_text \<Rightarrow> bool" where
  "chrome_kept e txt t \<longleftrightarrow> wipe t = wipe txt \<and> cache_ok e t \<and> bb_cells (txt_data t) = bb_cells (txt_data txt) \<and>
     bb_flags (txt_data t) = bb_flags (txt_data txt) \<and>
     (\<exists>cs. bb_calls (txt_data t) = bb_calls (txt_data txt) @ cs \<and> list_all (beside_card txt) cs)"

definition step_beside :: "bbulk_env \<Rightarrow> bb_text \<Rightarrow> bb_step \<Rightarrow> bool" where
  "step_beside e txt f \<longleftrightarrow> (\<forall>t. chrome_kept e txt t \<longrightarrow> (\<exists>t'. f t = (ok, t') \<and> chrome_kept e txt t'))"

lemma run_steps_beside: "list_all (step_beside e txt) fs \<Longrightarrow> step_beside e txt (run_steps fs)"
proof (induction fs)
  case (Cons f fs)
  show ?case
    unfolding step_beside_def
  proof (intro allI impI)
    fix t assume "chrome_kept e txt t"
    then obtain t1 where t1: "f t = (ok, t1)" "chrome_kept e txt t1" using Cons.prems by (auto simp: step_beside_def)
    then show "\<exists>t'. run_steps (f # fs) t = (ok, t') \<and> chrome_kept e txt t'"
      using Cons by (auto simp: step_beside_def)
  qed
qed (simp add: step_beside_def)

lemma emit_kept: "chrome_kept e txt t \<Longrightarrow> beside_card txt c \<Longrightarrow> chrome_kept e txt (emit_disp c t)"
  by (auto simp: chrome_kept_def emit_disp_def wipe_def comp_def cache_ok_def)

lemma find_glyph_kept:
  assumes f: "cell_font e txt" and n: "txt_orientation txt = OR_NORMAL" and k: "chrome_kept e txt t"
  shows "\<exists>t'. find_glyph e t c = (Some (glyph_of e OR_NORMAL c), t') \<and> chrome_kept e txt t'"
proof -
  have w: "wipe t = wipe txt" and ca: "cache_ok e t" using k by (simp_all add: chrome_kept_def)
  have o: "txt_orientation t = OR_NORMAL" using wipe_projections(6) [OF w] n by simp
  obtain cache where g: "find_glyph e t c = (Some (glyph_of e OR_NORMAL c), upd_bb (\<lambda>bb. bb\<lparr>bb_glyphs := Some cache\<rparr>) t)"
    and a: "lru.agrees (glyph_of_id e OR_NORMAL) cache"
    using find_glyph_found [of e t c] cell_font_simple [OF f] ca o by auto
  have "chrome_kept e txt (upd_bb (\<lambda>bb. bb\<lparr>bb_glyphs := Some cache\<rparr>) t)"
    using k a o by (auto simp: chrome_kept_def wipe_def comp_def cache_ok_def)
  then show ?thesis using g by auto
qed

text \<open>A cell of the page that is not one of the terminal.\<close>

definition chrome_place :: "bb_text \<Rightarrow> nat \<Rightarrow> nat \<Rightarrow> bool" where
  "chrome_place txt gx gy \<longleftrightarrow> gy < unat (txt_rows txt) + 9 \<and>
     (gy < 5 \<or> unat (txt_rows txt) + 5 \<le> gy \<or> (gx < 2 \<or> unat (txt_cols txt) + 2 \<le> gx) \<and> gx < unat (txt_cols txt) + 4)"

lemma chrome_cell_beside:
  assumes c: "card_fits txt" and f: "cell_font e txt" and l: "layout t = layout txt"
    and p: "chrome_place txt (unat gx) (unat gy)"
  shows "beside_card txt (Display_blend (glyph_request (glyph_of e OR_NORMAL cl) (set_coordinate t gx gy) cl))"
proof -
  have b: "unat (bb_off_x (txt_data txt)) + (unat (txt_cols txt) + 4) * unat (FONT_WIDTH txt) < 2 ^ 31"
    "unat (bb_off_y (txt_data txt)) + (unat (txt_rows txt) + 9) * unat (FONT_HEIGHT txt) < 2 ^ 31"
    and n: "txt_orientation txt = OR_NORMAL" using c by (simp_all only: card_fits_def)
  have two: "(2 :: nat) ^ 31 \<le> 2 ^ 32" by simp
  define r where "r = glyph_request (glyph_of e OR_NORMAL cl) (set_coordinate t gx gy) cl"
  have r: "rq_x r = gx * FONT_WIDTH txt + bb_off_x (txt_data txt)" "rq_y r = gy * FONT_HEIGHT txt + bb_off_y (txt_data txt)"
    "rq_w r = FONT_WIDTH txt" "rq_h r = FONT_HEIGHT txt"
    using n cell_font_size [OF f, of cl] unfolding r_def set_coordinate_layout [OF l]
    by (simp_all add: glyph_request_def set_coordinate_def Let_def)
  have gy: "unat gy < unat (txt_rows txt) + 9" using p by (simp add: chrome_place_def)
  have y: "unat (rq_y r) = unat gy * unat (FONT_HEIGHT txt) + unat (bb_off_y (txt_data txt))"
    unfolding r by (rule unat_affine) (use row_below [OF gy, of "unat (FONT_HEIGHT txt)"] b(2) two in linarith)
  consider "unat gy < 5" | "unat (txt_rows txt) + 5 \<le> unat gy" | "unat gx < 2" "unat gx < unat (txt_cols txt) + 4"
    | "unat (txt_cols txt) + 2 \<le> unat gx" "unat gx < unat (txt_cols txt) + 4" using p by (auto simp: chrome_place_def)
  then have "beside_card txt (Display_blend r)"
  proof cases
    case 1
    then show ?thesis using row_below [OF 1, of "unat (FONT_HEIGHT txt)"] y by (simp add: r card_y0_def)
  next
    case 2
    then show ?thesis using mult_le_mono1 [OF 2, of "unat (FONT_HEIGHT txt)"] y by (simp add: card_y1_def)
  next
    case 3
    have "unat (rq_x r) = unat gx * unat (FONT_WIDTH txt) + unat (bb_off_x (txt_data txt))"
      unfolding r by (rule unat_affine) (use row_below [OF 3(2), of "unat (FONT_WIDTH txt)"] b(1) two in linarith)
    then show ?thesis using row_below [OF 3(1), of "unat (FONT_WIDTH txt)"] by (simp add: r card_x0_def)
  next
    case 4
    have "unat (rq_x r) = unat gx * unat (FONT_WIDTH txt) + unat (bb_off_x (txt_data txt))"
      unfolding r by (rule unat_affine) (use row_below [OF 4(2), of "unat (FONT_WIDTH txt)"] b(1) two in linarith)
    then show ?thesis using mult_le_mono1 [OF 4(1), of "unat (FONT_WIDTH txt)"] by (simp add: card_x1_def)
  qed
  then show ?thesis by (simp add: r_def)
qed

lemma paint_chrome_cell_beside:
  assumes c: "card_fits txt" and f: "cell_font e txt" and p: "chrome_place txt (unat gx) (unat gy)"
  shows "step_beside e txt (paint_chrome_cell e bg fg gx gy ch)"
  unfolding step_beside_def
proof (intro allI impI)
  fix t assume k: "chrome_kept e txt t"
  define cl where "cl = cell_zero\<lparr>cell_ch := of_nat (code ch), cell_fg := fg, cell_bg := bg\<rparr>"
  have n: "txt_orientation txt = OR_NORMAL" using c by (simp add: card_fits_def)
  obtain t1 where g: "find_glyph e t cl = (Some (glyph_of e OR_NORMAL cl), t1)" and k1: "chrome_kept e txt t1"
    using find_glyph_kept [OF f n k, of cl] by auto
  have "wipe t1 = wipe txt" using k1 by (simp add: chrome_kept_def)
  then have "beside_card txt (Display_blend (glyph_request (glyph_of e OR_NORMAL cl) (set_coordinate t1 gx gy) cl))"
    using chrome_cell_beside [OF c f _ p] wipe_projections(21) by blast
  from emit_kept [OF k1 this] show "\<exists>t'. paint_chrome_cell e bg fg gx gy ch t = (ok, t') \<and> chrome_kept e txt t'"
    using g by (simp add: paint_chrome_cell_def Let_def flip: cl_def)
qed

section \<open>The whole chrome\<close>

lemma chrome_row:
  assumes "card_fits txt" "gy < 5 \<or> unat (txt_rows txt) + 5 \<le> gy" "gy < unat (txt_rows txt) + 9"
  shows "chrome_place txt gx gy"
  using assms by (auto simp: chrome_place_def)

lemma span_beside:
  assumes c: "card_fits txt" and f: "cell_font e txt"
    and p: "\<And>gx. unat x0 \<le> gx \<Longrightarrow> gx < unat x1 \<Longrightarrow> chrome_place txt gx (unat y)"
  shows "step_beside e txt (paint_chrome_span e bg y x0 x1)"
  unfolding paint_chrome_span_def
proof (rule run_steps_beside, unfold list_all_iff, rule ballI)
  fix step assume "step \<in> set (map (\<lambda>x. paint_chrome_cell e bg (col 180 196 255) (of_nat x) y CHR '' '') [unat x0..<unat x1])"
  then obtain x where x: "unat x0 \<le> x" "x < unat x1" and s: "step = paint_chrome_cell e bg (col 180 196 255) (of_nat x) y CHR '' ''"
    by auto
  have "x < 2 ^ 32" using x(2) unsigned_less [of x1, where ?'a = nat] by simp
  then have "unat (of_nat x :: u32) = x" by (simp add: unat_of_nat)
  then show "step_beside e txt step" unfolding s using p x by (intro paint_chrome_cell_beside c f) simp
qed

lemma text_beside:
  assumes c: "card_fits txt" and f: "cell_font e txt"
    and y: "unat y < 5 \<or> unat (txt_rows txt) + 5 \<le> unat y" "unat y < unat (txt_rows txt) + 9"
  shows "step_beside e txt (paint_chrome_text e bg fg y x0 cols line)"
    "step_beside e txt (paint_chrome_text_right e bg fg y x0 cols line)"
proof -
  have *: "step_beside e txt (paint_chrome_text e bg fg y x0 cols line)" for bg fg x0 line
    unfolding paint_chrome_text_def
    by (rule run_steps_beside) (auto simp: list_all_iff intro!: paint_chrome_cell_beside c f chrome_row y)
  then show "step_beside e txt (paint_chrome_text e bg fg y x0 cols line)" .
  have "step_beside e txt (run_steps [])" by (rule run_steps_beside) simp
  then show "step_beside e txt (paint_chrome_text_right e bg fg y x0 cols line)"
    unfolding paint_chrome_text_right_def using * by simp
qed

lemma rect_beside:
  assumes "be_mem e"
    and "unat x + unat w \<le> card_x0 txt \<or> card_x1 txt \<le> unat x \<or> unat y + unat h \<le> card_y0 txt \<or> card_y1 txt \<le> unat y"
  shows "step_beside e txt (fill_solid_rect e x y w h c)"
  unfolding step_beside_def using assms by (auto simp: fill_solid_rect_def intro!: emit_kept)

lemma unat_times: "unat (a :: u32) = m \<Longrightarrow> unat b = n \<Longrightarrow> m * n < 2 ^ 32 \<Longrightarrow> unat (a * b) = m * n"
  by (simp add: unat_word_ariths)

lemma unat_minus_one: "0 < unat (n :: u32) \<Longrightarrow> unat (n - 1) = unat n - 1"
  by (rule unat_minus_one) auto

lemma border_beside:
  assumes c: "card_fits txt" and f: "cell_font e txt"
  shows "step_beside e txt (stroke_card_border e (bb_off_x (txt_data txt)) (bb_off_y (txt_data txt) + CARD_Y0 * FONT_HEIGHT txt)
    ((txt_cols txt + 2 * PAD_COLS) * FONT_WIDTH txt) ((PAD_ROWS + txt_rows txt + PAD_ROWS) * FONT_HEIGHT txt) BORDER_PX CARD_BORDER)"
proof -
  define fw where "fw = unat (FONT_WIDTH txt)"
  define fh where "fh = unat (FONT_HEIGHT txt)"
  define cols where "cols = unat (txt_cols txt)"
  define rows where "rows = unat (txt_rows txt)"
  define ox where "ox = unat (bb_off_x (txt_data txt))"
  define oy where "oy = unat (bb_off_y (txt_data txt))"
  note d = fw_def fh_def cols_def rows_def ox_def oy_def
  have b: "ox + (cols + 4) * fw < 2 ^ 31" "oy + (rows + 9) * fh < 2 ^ 31" and pos: "0 < fw" "0 < fh"
    using c by (simp_all add: card_fits_def word_less_nat_alt d)
  have small: "cols + 4 < 2 ^ 31" "rows + 9 < 2 ^ 31" using card_small [OF c] by (simp_all add: d)
  define x where "x = bb_off_x (txt_data txt)"
  define y where "y = bb_off_y (txt_data txt) + CARD_Y0 * FONT_HEIGHT txt"
  define w where "w = (txt_cols txt + 2 * PAD_COLS) * FONT_WIDTH txt"
  define h where "h = (PAD_ROWS + txt_rows txt + PAD_ROWS) * FONT_HEIGHT txt"
  have two: "(2 :: nat) ^ 31 \<le> 2 ^ 32" by simp
  have r9: "(rows + 9) * fh = rows * fh + 9 * fh" "(cols + 4) * fw = cols * fw + 4 * fw" "(rows + 2) * fh = rows * fh + 2 * fh"
    by (simp_all add: algebra_simps)
  have bounds: "ox + cols * fw + 4 * fw < 2 ^ 31" "oy + rows * fh + 9 * fh < 2 ^ 31" using b r9 by linarith+
  have ux: "unat x = ox" by (simp add: x_def ox_def)
  have uy: "unat y = oy + 4 * fh"
    using bounds unfolding y_def by (simp add: unat_word_ariths d)
  have "unat (txt_cols txt + 2 * PAD_COLS) = cols + 4" using small by (simp add: unat_word_ariths d)
  then have uw: "unat w = (cols + 4) * fw"
    unfolding w_def by (rule unat_times) ((simp add: fw_def; fail), (use b(1) two in linarith))
  have "unat (PAD_ROWS + txt_rows txt + PAD_ROWS) = rows + 2" using small by (simp add: unat_word_ariths d)
  then have uh: "unat h = (rows + 2) * fh"
    unfolding h_def by (rule unat_times) ((simp add: fh_def; fail), (use row_below [of "rows + 2" "rows + 9" fh] b(2) two in linarith))
  have uyh: "unat (y + h) = oy + rows * fh + 6 * fh" and uxw: "unat (x + w) = ox + cols * fw + 4 * fw"
    using bounds by (simp_all add: unat_word_ariths uy uh ux uw r9)
  have low: "unat (y + h - 1) = oy + rows * fh + 6 * fh - 1" and right: "unat (x + w - 1) = ox + cols * fw + 4 * fw - 1"
    using uyh uxw pos by (simp_all add: unat_minus_one)
  have card: "card_x0 txt = ox + 2 * fw" "card_x1 txt = ox + cols * fw + 2 * fw" "card_y0 txt = oy + 5 * fh" "card_y1 txt = oy + rows * fh + 5 * fh"
    by (simp_all add: card_x0_def card_x1_def card_y0_def card_y1_def d algebra_simps)
  have mem: "be_mem e" using f by (simp add: cell_font_def)
  have edges: "unat y + unat (1 :: u32) \<le> card_y0 txt" "card_y1 txt \<le> unat (y + h - 1)"
    "unat x + unat (1 :: u32) \<le> card_x0 txt" "card_x1 txt \<le> unat (x + w - 1)"
    unfolding card ux uy low right using pos by simp_all
  have steps: "step_beside e txt (fill_solid_rect e x y w 1 CARD_BORDER)" "step_beside e txt (fill_solid_rect e x (y + h - 1) w 1 CARD_BORDER)"
    "step_beside e txt (fill_solid_rect e x y 1 h CARD_BORDER)" "step_beside e txt (fill_solid_rect e (x + w - 1) y 1 h CARD_BORDER)"
    using edges by (auto intro!: rect_beside [OF mem])
  have "step_beside e txt (run_steps [fill_solid_rect e x y w 1 CARD_BORDER, fill_solid_rect e x (y + h - 1) w 1 CARD_BORDER,
      fill_solid_rect e x y 1 h CARD_BORDER, fill_solid_rect e (x + w - 1) y 1 h CARD_BORDER])"
    by (rule run_steps_beside) (simp only: list.pred_inject steps simp_thms)
  moreover have "step_beside e txt (run_steps [])" by (rule run_steps_beside) simp
  ultimately show ?thesis unfolding x_def [symmetric] y_def [symmetric] w_def [symmetric] h_def [symmetric] stroke_card_border_def by simp
qed

text \<open>The logo is not taller than the five rows above the card.\<close>

definition logo_fits :: "bb_text \<Rightarrow> bool" where
  "logo_fits txt \<longleftrightarrow> (case chrome_logo txt of None \<Rightarrow> True | Some logo \<Rightarrow> unat (vb_height logo) \<le> 5 * unat (FONT_HEIGHT txt))"

lemma logo_beside:
  assumes c: "card_fits txt" and g: "logo_fits txt"
  shows "step_beside e txt (paint_logo txt)"
proof (cases "chrome_logo txt")
  case None
  then show ?thesis by (simp add: step_beside_def paint_logo_def)
next
  case (Some logo)
  define fh where "fh = unat (FONT_HEIGHT txt)"
  define oy where "oy = unat (bb_off_y (txt_data txt))"
  define gap where "gap = BRAND_ROWS * FONT_HEIGHT txt"
  define y where "y = (if gap > vb_height logo then bb_off_y (txt_data txt) + (gap - vb_height logo) div 2 else bb_off_y (txt_data txt))"
  have n: "txt_orientation txt = OR_NORMAL" and b: "oy + (unat (txt_rows txt) + 9) * fh < 2 ^ 31"
    using c by (simp_all add: card_fits_def oy_def fh_def)
  have lim: "oy + 9 * fh < 2 ^ 31" using b mult_le_mono1 [of 9 "unat (txt_rows txt) + 9" fh] by linarith
  have lh: "unat (vb_height logo) \<le> 5 * fh" using g Some by (simp add: logo_fits_def fh_def)
  have ug: "unat gap = 3 * fh" using lim unfolding gap_def by (simp add: unat_word_ariths fh_def)
  have "unat y + unat (vb_height logo) \<le> oy + 5 * fh"
  proof (cases "gap > vb_height logo")
    case True
    then have lt: "unat (vb_height logo) < 3 * fh" using ug by (simp add: word_less_nat_alt)
    have "unat (gap - vb_height logo) = 3 * fh - unat (vb_height logo)"
      using True ug by (simp add: unat_sub)
    then have half: "unat ((gap - vb_height logo) div 2) = (3 * fh - unat (vb_height logo)) div 2" by (simp add: unat_div)
    then have "unat (bb_off_y (txt_data txt) + (gap - vb_height logo) div 2) = oy + (3 * fh - unat (vb_height logo)) div 2"
      using lim by (subst unat_word_ariths) (simp add: oy_def)
    then show ?thesis using True lt by (simp add: y_def)
  next
    case False
    then show ?thesis using lh by (simp add: y_def oy_def)
  qed
  then have "beside_card txt (Display_blend
      \<lparr>rq_buf = logo, rq_x = bb_off_x (txt_data txt) + FONT_WIDTH txt, rq_y = y, rq_w = vb_width logo, rq_h = vb_height logo,
       rq_fg = TITLE, rq_bg = PAGE\<rparr>)"
    by (simp add: card_y0_def oy_def fh_def)
  from emit_kept [OF _ this] show ?thesis
    unfolding step_beside_def paint_logo_def Let_def y_def gap_def using Some n by simp
qed

lemma page_rows_beside:
  assumes c: "card_fits txt" and f: "cell_font e txt"
    and y: "\<And>y. y \<in> set ys \<Longrightarrow> (y < 5 \<or> unat (txt_rows txt) + 5 \<le> y) \<and> y < unat (txt_rows txt) + 9"
  shows "list_all (step_beside e txt) (page_rows e n ys)"
proof -
  have "step_beside e txt (paint_chrome_span e PAGE (of_nat y) 0 n)" if "y \<in> set ys" for y
  proof -
    have "y < 2 ^ 32" using y [OF that] card_small(2) [OF c] by simp
    then have u: "unat (of_nat y :: u32) = y" by (simp add: unat_of_nat)
    show ?thesis by (rule span_beside [OF c f]) (use y [OF that] in \<open>auto simp: u intro!: chrome_row c\<close>)
  qed
  then show ?thesis by (auto simp: page_rows_def list_all_iff)
qed

lemma paint_card_beside:
  assumes c: "card_fits txt" and f: "cell_font e txt"
  shows "list_all (step_beside e txt) (paint_card e txt)"
proof -
  have small: "unat (txt_cols txt) + 4 < 2 ^ 31" "unat (txt_rows txt) + 9 < 2 ^ 31" by (fact card_small [OF c])+
  have r5: "unat (TOP_ROWS + txt_rows txt) = 5 + unat (txt_rows txt)" and c2: "unat (PAD_COLS + txt_cols txt) = 2 + unat (txt_cols txt)"
    and c4: "unat (txt_cols txt + 2 * PAD_COLS) = unat (txt_cols txt) + 4"
    using small by (simp_all add: unat_word_ariths)
  have sides: "step_beside e txt (paint_chrome_span e CARD_BG (of_nat y) 0 PAD_COLS)"
    "step_beside e txt (paint_chrome_span e CARD_BG (of_nat y) (PAD_COLS + txt_cols txt) (txt_cols txt + 2 * PAD_COLS))"
    if "y < 5 + unat (txt_rows txt)" for y
  proof -
    have "y < 2 ^ 32" using that small by simp
    then have u: "unat (of_nat y :: u32) = y" by (simp add: unat_of_nat)
    show "step_beside e txt (paint_chrome_span e CARD_BG (of_nat y) 0 PAD_COLS)"
      by (rule span_beside [OF c f]) (use that in \<open>auto simp: u chrome_place_def\<close>)
    show "step_beside e txt (paint_chrome_span e CARD_BG (of_nat y) (PAD_COLS + txt_cols txt) (txt_cols txt + 2 * PAD_COLS))"
      by (rule span_beside [OF c f]) (use that in \<open>simp only: u c2 c4, simp add: chrome_place_def\<close>)
  qed
  have top: "step_beside e txt (paint_chrome_span e CARD_BG CARD_Y0 0 n)"
    and bottom: "step_beside e txt (paint_chrome_span e CARD_BG (TOP_ROWS + txt_rows txt) 0 n)" for n
    by (rule span_beside [OF c f], rule chrome_row [OF c]; simp add: r5)+
  show ?thesis
    unfolding paint_card_def Let_def list_all_append list.pred_inject
    using top bottom border_beside [OF c f] sides r5 by (auto simp: list_all_iff)
qed

lemma draw_status_beside:
  assumes c: "card_fits txt" and f: "cell_font e txt" and g: "logo_fits txt" and k: "cache_ok e txt"
  shows "\<exists>t. bbulk_draw_status e txt line = (ok, t) \<and> chrome_kept e txt t"
proof -
  have small: "unat (txt_rows txt) + 9 < 2 ^ 31" by (rule card_small(2) [OF c])
  have r6: "unat (TOP_ROWS + txt_rows txt + 1) = unat (txt_rows txt) + 6"
    and r8: "unat (TOP_ROWS + txt_rows txt + PAD_ROWS + FOOTER_GAP_ROWS) = unat (txt_rows txt) + 8"
    using small by (simp_all add: unat_word_ariths)
  have zero: "unat (0 :: u32) < 5 \<or> unat (txt_rows txt) + 5 \<le> unat (0 :: u32)" "unat (0 :: u32) < unat (txt_rows txt) + 9"
    and one: "unat (1 :: u32) < 5 \<or> unat (txt_rows txt) + 5 \<le> unat (1 :: u32)" "unat (1 :: u32) < unat (txt_rows txt) + 9"
    and two: "unat (2 :: u32) < 5 \<or> unat (txt_rows txt) + 5 \<le> unat (2 :: u32)" "unat (2 :: u32) < unat (txt_rows txt) + 9"
    by simp_all
  have foot: "unat (TOP_ROWS + txt_rows txt + PAD_ROWS + FOOTER_GAP_ROWS) < 5 \<or>
      unat (txt_rows txt) + 5 \<le> unat (TOP_ROWS + txt_rows txt + PAD_ROWS + FOOTER_GAP_ROWS)"
    "unat (TOP_ROWS + txt_rows txt + PAD_ROWS + FOOTER_GAP_ROWS) < unat (txt_rows txt) + 9" unfolding r8 by simp_all
  have band: "list_all (step_beside e txt) (paint_band e txt line)"
    unfolding paint_band_def Let_def
    using text_beside(2) [OF c f zero] text_beside(2) [OF c f one] text_beside(2) [OF c f two]
    by (simp add: case_prod_unfold)
  have title: "list_all (step_beside e txt) (paint_title e title n)" for title n
    unfolding paint_title_def using text_beside(1) [OF c f zero] by simp
  have rows: "list_all (step_beside e txt)
      (page_rows e n [unat (TOP_ROWS + txt_rows txt + 1)..<unat (TOP_ROWS + txt_rows txt + PAD_ROWS + FOOTER_GAP_ROWS) + 1])" for n
    unfolding r6 r8 by (rule page_rows_beside [OF c f]) auto
  have footer: "list_all (step_beside e txt) (paint_footer e txt)"
    unfolding paint_footer_def Let_def list_all_append using rows text_beside(1) [OF c f foot]
    by (cases "identity_secondary txt = []") (simp_all only: if_True if_False simp_thms list.pred_inject)
  have pages: "list_all (step_beside e txt) (page_rows e n [0..<unat CARD_Y0])" for n
    by (rule page_rows_beside [OF c f]) auto
  have "step_beside e txt (run_steps (page_rows e (txt_cols txt + 2 * PAD_COLS) [0..<unat CARD_Y0] @
      paint_title e (if chrome_logo txt \<noteq> None then [] else chrome_title txt) (txt_cols txt + 2 * PAD_COLS) @
      paint_band e txt line @ paint_card e txt @ paint_footer e txt @ [paint_logo txt]))"
    by (rule run_steps_beside)
      (simp only: list_all_append list.pred_inject pages title band paint_card_beside [OF c f] footer logo_beside [OF c g] simp_thms)
  moreover have "chrome_kept e txt txt" using k by (simp add: chrome_kept_def)
  ultimately show ?thesis unfolding bbulk_draw_status_def step_beside_def by blast
qed

end
