(* ===== verification/Bbulk_Pointer.thy ===== *)
theory Bbulk_Pointer
  imports Bbulk_Chrome
begin

text \<open>
  The pointer of \<open>bbulk_draw_pointer\<close> on an upright screen: of the cells of the terminal it covers
  only those that \<open>mark_damaged\<close> has marked, so that the next two frames draw them again.
\<close>

text \<open>Along one axis, with \<open>n\<close> cells of \<open>w\<close> pixels and the pointer's middle at \<open>m\<close>.\<close>

lemma pointer_span:
  fixes w n m h pos cx :: nat
  assumes w: "0 < w" and n: "0 < n" and m: "w div 2 \<le> m" "m + w div 2 \<le> n * w" and h: "h = (w + 1) div 2"
    and pos: "pos = (if m > h then (m - h) div w else 0)"
    and hit: "cx * w + h < m + w" "m < (cx + 1) * w + h"
  shows "(cx = pos \<or> cx = pos + 1) \<and> pos < n"
proof (cases "m > h")
  case True
  define d where "d = m - h"
  have p: "pos = d div w" using True pos by (simp add: d_def)
  have md: "m = d + h" using True by (simp add: d_def)
  have "pos * w \<le> d" "d < pos * w + w" using w div_mult_mod_eq [of d w] mod_less_divisor [OF w, of d] unfolding p by linarith+
  moreover have "cx * w < d + w" "d < cx * w + w" using hit md by simp_all
  ultimately have "pos * w < (cx + 1) * w" "cx * w < (pos + 2) * w" by (simp_all add: algebra_simps)
  then have "pos < cx + 1" "cx < pos + 2" using mult_less_cancel2 by blast+
  moreover have "d + w \<le> n * w" using m(2) md h w by presburger
  then have "pos * w < n * w" using \<open>pos * w \<le> d\<close> w by linarith
  then have "pos < n" by simp
  ultimately show ?thesis by auto
next
  case False
  then have "cx * w < 1 * w" using hit by linarith
  then have "cx = 0" by simp
  then show ?thesis using False pos n by simp
qed

lemma unat_half_up: "unat n + 1 < 2 ^ 32 \<Longrightarrow> unat (half_up n) = (unat n + 1) div 2"
  by (simp add: half_up_def unat_div unat_word_ariths)

lemma unat_clamp: "unat (clamp_word v lo hi) = (if unat v < unat lo then unat lo else if unat v > unat hi then unat hi else unat v)"
  by (simp add: clamp_word_def word_less_nat_alt)

definition clamped :: "bb_text \<Rightarrow> u32 \<Rightarrow> u32 \<Rightarrow> u32 \<times> u32" where
  "clamped txt px py =
     (clamp_word px (FONT_WIDTH txt div 2) (txt_cols txt * FONT_WIDTH txt - FONT_WIDTH txt div 2),
      clamp_word py (FONT_HEIGHT txt div 2) (txt_rows txt * FONT_HEIGHT txt - FONT_HEIGHT txt div 2))"

text \<open>The cell under the pointer, and the offsets that are marked.\<close>

definition pointed :: "u32 \<Rightarrow> u32 \<Rightarrow> u32 \<Rightarrow> nat" where
  "pointed m w n =
     (let pos = (if m > half_up w then (m - half_up w) div w else 0) in unat (if pos \<ge> n then n - 1 else pos))"

definition marked :: "bb_text \<Rightarrow> u32 \<Rightarrow> u32 \<Rightarrow> nat list" where
  "marked txt x y =
     (let posx = pointed x (FONT_WIDTH txt) (txt_cols txt); posy = pointed y (FONT_HEIGHT txt) (txt_rows txt);
          cols = unat (txt_cols txt); rows = unat (txt_rows txt); off = posx + posy * cols
      in [off] @ (if posx + 1 < cols then [off + 1] else []) @ (if posy + 1 < rows then [off + cols] else []) @
         (if posx + 1 < cols \<and> posy + 1 < rows then [off + 1 + cols] else []))"

lemma mark_damaged_marked: "mark_damaged txt x y = upd_bb (fold damage_cell (marked txt x y)) txt"
  by (simp only: mark_damaged_def marked_def pointed_def Let_def)

lemma marked_hit:
  assumes "posx = pointed x (FONT_WIDTH txt) (txt_cols txt)" "posy = pointed y (FONT_HEIGHT txt) (txt_rows txt)"
    and "cx = posx \<or> cx = posx + 1" "cy = posy \<or> cy = posy + 1" "cx < unat (txt_cols txt)" "cy < unat (txt_rows txt)"
  shows "cx + cy * unat (txt_cols txt) \<in> set (marked txt x y)"
  using assms(3-) unfolding marked_def Let_def assms(1,2) [symmetric] by auto

text \<open>The middle of the pointer, along one axis.\<close>

lemma pointer_axis:
  fixes m w n off mx :: u32
  assumes w: "0 < w" and n: "0 < n" and b: "unat off + (unat n + k) * unat w < 2 ^ 31" and k: "2 \<le> j" "j + 2 \<le> k"
    and mx: "unat mx = unat off + (unat n + k) * unat w"
    and m: "m = clamp_word v (w div 2) (n * w - w div 2)"
    and jj: "unat jw = j"
  defines "x \<equiv> clamp_word (m + off + jw * w) (half_up w) (mx - half_up w) - half_up w"
  shows "unat x = unat off + j * unat w + unat m - (unat w + 1) div 2" "unat w div 2 \<le> unat m" "unat m + unat w div 2 \<le> unat n * unat w"
    "pointed m w n = (if unat m > (unat w + 1) div 2 then (unat m - (unat w + 1) div 2) div unat w else 0)"
proof -
  define W where "W = unat w"
  define N where "N = unat n"
  define OFF where "OFF = unat off"
  have pos: "0 < W" "0 < N" using w n by (simp_all add: W_def N_def word_less_nat_alt)
  have NW: "W \<le> N * W" using pos by simp
  have kW: "(j + 2) * W \<le> k * W" using k by (intro mult_le_mono1) simp
  have jW: "2 * W \<le> j * W" using k by (intro mult_le_mono1) simp
  have big: "OFF + N * W + k * W < 2 ^ 31" "OFF + N * W + j * W + 2 * W < 2 ^ 31"
    using b kW by (simp_all add: W_def N_def OFF_def algebra_simps)
  have two: "(2 :: nat) ^ 31 \<le> 2 ^ 32" by simp
  have h: "unat (half_up w) = (W + 1) div 2" using big NW by (subst unat_half_up) (simp_all add: W_def)
  have nw: "unat (n * w) = N * W" by (rule unat_times) (use big two in \<open>simp_all add: W_def N_def\<close>)
  have half: "unat (w div 2) = W div 2" by (simp add: unat_div W_def)
  have hw: "W div 2 \<le> N * W" using NW div_le_dividend [of W 2] by (rule order_trans [rotated])
  have hi: "unat (n * w - w div 2) = N * W - W div 2"
    using hw nw half by (subst unat_sub) (simp_all only: word_le_nat_alt)
  have um: "unat m = (if unat v < W div 2 then W div 2 else if unat v > N * W - W div 2 then N * W - W div 2 else unat v)"
    unfolding m unat_clamp hi half ..
  have lo: "W div 2 \<le> N * W - W div 2" using NW by presburger
  show m1: "unat w div 2 \<le> unat m" and m2: "unat m + unat w div 2 \<le> unat n * unat w"
    unfolding um W_def [symmetric] N_def [symmetric] using lo by auto
  have jw: "unat (jw * w) = j * W" by (rule unat_times) (use big two jj in \<open>simp_all add: W_def\<close>)
  have s1: "unat (m + off) = unat m + OFF"
    using m2 big two by (subst unat_word_ariths) (simp add: W_def N_def OFF_def)
  have mid: "unat (m + off + jw * w) = unat m + OFF + j * W"
    using m2 big two s1 jw by (subst unat_word_ariths) (simp add: W_def N_def)
  have mxh: "unat (mx - half_up w) = OFF + N * W + k * W - (W + 1) div 2"
    using mx h pos kW by (subst unat_sub) (simp_all add: word_le_nat_alt W_def N_def OFF_def algebra_simps)
  have low: "(W + 1) div 2 \<le> unat m + OFF + j * W" using jW by linarith
  moreover have "unat m + OFF + j * W \<le> OFF + N * W + k * W - (W + 1) div 2"
    using m2 kW by (simp add: W_def N_def algebra_simps)
  ultimately have cl: "unat (clamp_word (m + off + jw * w) (half_up w) (mx - half_up w)) = unat m + OFF + j * W"
    unfolding unat_clamp mid h mxh by auto
  show "unat x = unat off + j * unat w + unat m - (unat w + 1) div 2"
    unfolding x_def using low by (subst unat_sub) (simp_all add: word_le_nat_alt cl h W_def OFF_def)
  define pw where "pw = (if m > half_up w then (m - half_up w) div w else 0)"
  have pw: "unat pw = (if unat m > (W + 1) div 2 then (unat m - (W + 1) div 2) div W else 0)"
    using h by (auto simp: pw_def word_less_nat_alt unat_div unat_sub word_le_nat_alt W_def)
  have "unat pw < N"
  proof (cases "unat m > (W + 1) div 2")
    case True
    have "unat m - (W + 1) div 2 < N * W" using m2 True pos by (simp add: W_def N_def)
    then show ?thesis using pw True by (simp add: less_mult_imp_div_less)
  qed (use pw pos in simp)
  then show "pointed m w n = (if unat m > (unat w + 1) div 2 then (unat m - (unat w + 1) div 2) div unat w else 0)"
    unfolding pointed_def Let_def pw_def [symmetric] using pw by (simp add: word_le_nat_alt N_def W_def)
qed

section \<open>The pointer in the cells\<close>

text \<open>The state after the pointer was drawn at \<open>px\<close>, \<open>py\<close>.\<close>

definition pointer_request :: "bbulk_env \<Rightarrow> bb_text \<Rightarrow> u32 \<Rightarrow> u32 \<Rightarrow> video_blend_req" where
  "pointer_request e txt px py =
     (let m = clamped txt px py; c = cell_zero\<lparr>cell_ch := of_nat (code CHR ''I'')\<rparr>
      in (glyph_request (glyph_of e OR_NORMAL c) (set_pointer_coordinate txt (fst m) (snd m)) c)
           \<lparr>rq_fg := sa_fg (bb_attr (txt_data txt)), rq_bg := sa_bg (bb_attr (txt_data txt))\<rparr>)"

definition pointer_marks :: "bb_text \<Rightarrow> u32 \<Rightarrow> u32 \<Rightarrow> nat list" where
  "pointer_marks txt px py = (let m = clamped txt px py in marked txt (fst m) (snd m))"

lemma half_le: "(w + 1) div 2 \<le> (w :: nat) + w"
  by (cases w) simp_all

lemma hit_axis:
  fixes a k w m h c p :: nat
  assumes "a + k * w + m - h \<le> p" "p < a + k * w + m - h + w" "a + (c + k) * w \<le> p" "p < a + (c + k + 1) * w"
    and "h \<le> a + k * w + m"
  shows "c * w + h < m + w" "m < (c + 1) * w + h"
proof -
  define C where "C = c * w"
  define K where "K = k * w"
  have e: "(c + k) * w = C + K" "(c + k + 1) * w = C + K + w" "(c + 1) * w = C + w" by (simp_all add: C_def K_def algebra_simps)
  have "a + (C + K) < a + K + m - h + w" "a + K + m - h < a + (C + K + w)" "h \<le> a + K + m"
    using assms unfolding e K_def [symmetric] by linarith+
  then show "c * w + h < m + w" "m < (c + 1) * w + h" unfolding e C_def [symmetric] by arith+
qed

lemma pointer_covers_marked:
  assumes c: "card_fits txt" and f: "cell_font e txt"
    and off: "off < unat (txt_rows txt) * unat (txt_cols txt)"
    and p: "in_req (pointer_request e txt px py) p" "in_cell txt off p"
  shows "off \<in> set (pointer_marks txt px py)"
proof -
  define fw where "fw = unat (FONT_WIDTH txt)"
  define fh where "fh = unat (FONT_HEIGHT txt)"
  define ox where "ox = unat (bb_off_x (txt_data txt))"
  define oy where "oy = unat (bb_off_y (txt_data txt))"
  define mx where "mx = fst (clamped txt px py)"
  define my where "my = snd (clamped txt px py)"
  have n: "txt_orientation txt = OR_NORMAL" and pos: "0 < FONT_WIDTH txt" "0 < FONT_HEIGHT txt" "0 < txt_cols txt" "0 < txt_rows txt"
    and b: "unat (bb_off_x (txt_data txt)) + (unat (txt_cols txt) + 4) * unat (FONT_WIDTH txt) < 2 ^ 31"
      "unat (bb_off_y (txt_data txt)) + (unat (txt_rows txt) + 9) * unat (FONT_HEIGHT txt) < 2 ^ 31"
    and mxy: "unat (bb_max_x (txt_data txt)) = unat (bb_off_x (txt_data txt)) + (unat (txt_cols txt) + 4) * unat (FONT_WIDTH txt)"
      "unat (bb_max_y (txt_data txt)) = unat (bb_off_y (txt_data txt)) + (unat (txt_rows txt) + 9) * unat (FONT_HEIGHT txt)"
    using c by (simp_all only: card_fits_def)
  have cl: "mx = clamp_word px (FONT_WIDTH txt div 2) (txt_cols txt * FONT_WIDTH txt - FONT_WIDTH txt div 2)"
    "my = clamp_word py (FONT_HEIGHT txt div 2) (txt_rows txt * FONT_HEIGHT txt - FONT_HEIGHT txt div 2)"
    by (simp_all add: mx_def my_def clamped_def)
  note ax = pointer_axis [OF pos(1,3) b(1) _ _ mxy(1) cl(1), of 2 PAD_COLS, simplified]
  note ay = pointer_axis [OF pos(2,4) b(2) _ _ mxy(2) cl(2), of 5 TOP_ROWS, simplified]
  define r where "r = pointer_request e txt px py"
  have size: "rq_w r = FONT_WIDTH txt" "rq_h r = FONT_HEIGHT txt"
    using cell_font_size [OF f] by (simp_all add: r_def pointer_request_def Let_def glyph_request_def)
  have place: "rq_x r = clamp_word (mx + bb_off_x (txt_data txt) + PAD_COLS * FONT_WIDTH txt) (half_up (FONT_WIDTH txt))
      (bb_max_x (txt_data txt) - half_up (FONT_WIDTH txt)) - half_up (FONT_WIDTH txt)"
    "rq_y r = clamp_word (my + bb_off_y (txt_data txt) + TOP_ROWS * FONT_HEIGHT txt) (half_up (FONT_HEIGHT txt))
      (bb_max_y (txt_data txt) - half_up (FONT_HEIGHT txt)) - half_up (FONT_HEIGHT txt)"
    using n by (simp_all add: r_def pointer_request_def Let_def glyph_request_def set_pointer_coordinate_def mx_def my_def)
  have x: "unat (rq_x r) = ox + 2 * fw + unat mx - (fw + 1) div 2" and y: "unat (rq_y r) = oy + 5 * fh + unat my - (fh + 1) div 2"
    unfolding place using ax(1) ay(1) by (simp_all add: ox_def oy_def fw_def fh_def)
  define cx where "cx = off mod unat (txt_cols txt)"
  define cy where "cy = off div unat (txt_cols txt)"
  have wpos: "0 < fw" "0 < fh" "0 < unat (txt_cols txt)" "0 < unat (txt_rows txt)" using pos by (simp_all add: fw_def fh_def word_less_nat_alt)
  have lim: "cx < unat (txt_cols txt)" "cy < unat (txt_rows txt)"
    using off wpos by (simp_all add: cx_def cy_def less_mult_imp_div_less)
  have fits: "(fw + 1) div 2 \<le> ox + 2 * fw + unat mx" "(fh + 1) div 2 \<le> oy + 5 * fh + unat my"
    using half_le [of fw] half_le [of fh] by simp_all
  have at: "ox + 2 * fw + unat mx - (fw + 1) div 2 \<le> fst p" "fst p < ox + 2 * fw + unat mx - (fw + 1) div 2 + fw"
    "oy + 5 * fh + unat my - (fh + 1) div 2 \<le> snd p" "snd p < oy + 5 * fh + unat my - (fh + 1) div 2 + fh"
    using p(1) unfolding r_def [symmetric] in_req_def x y size fw_def [symmetric] fh_def [symmetric] by blast+
  have cell: "ox + (cx + 2) * fw \<le> fst p" "fst p < ox + (cx + 2 + 1) * fw" "oy + (cy + 5) * fh \<le> snd p" "snd p < oy + (cy + 5 + 1) * fh"
    using p(2) unfolding in_cell_def in_page_def fw_def fh_def ox_def oy_def cx_def cy_def by blast+
  note hits = hit_axis [OF at(1,2) cell(1,2) fits(1)] hit_axis [OF at(3,4) cell(3,4) fits(2)]
  have at_x: "pointed mx (FONT_WIDTH txt) (txt_cols txt) = (if unat mx > (fw + 1) div 2 then (unat mx - (fw + 1) div 2) div fw else 0)"
    and at_y: "pointed my (FONT_HEIGHT txt) (txt_rows txt) = (if unat my > (fh + 1) div 2 then (unat my - (fh + 1) div 2) div fh else 0)"
    using ax(4) ay(4) by (simp_all only: fw_def fh_def Suc_eq_plus1)
  have mid: "fw div 2 \<le> unat mx" "unat mx + fw div 2 \<le> unat (txt_cols txt) * fw" "fh div 2 \<le> unat my" "unat my + fh div 2 \<le> unat (txt_rows txt) * fh"
    using ax(2,3) ay(2,3) by (simp_all only: fw_def fh_def)
  have "cx = pointed mx (FONT_WIDTH txt) (txt_cols txt) \<or> cx = pointed mx (FONT_WIDTH txt) (txt_cols txt) + 1"
    using pointer_span [OF wpos(1,3) mid(1,2) refl at_x hits(1,2)] by blast
  moreover have "cy = pointed my (FONT_HEIGHT txt) (txt_rows txt) \<or> cy = pointed my (FONT_HEIGHT txt) (txt_rows txt) + 1"
    using pointer_span [OF wpos(2,4) mid(3,4) refl at_y hits(3,4)] by blast
  ultimately have "cx + cy * unat (txt_cols txt) \<in> set (marked txt mx my)"
    using marked_hit [OF refl refl _ _ lim] by blast
  moreover have "cx + cy * unat (txt_cols txt) = off" by (simp add: cx_def cy_def mult.commute)
  ultimately show ?thesis by (simp add: pointer_marks_def Let_def mx_def my_def)
qed

text \<open>What \<open>bbulk_draw_pointer\<close> does.\<close>

definition pointer_drawn :: "bbulk_env \<Rightarrow> u32 \<Rightarrow> u32 \<Rightarrow> bb_text \<Rightarrow> bb_text \<Rightarrow> bool" where
  "pointer_drawn e px py txt t \<longleftrightarrow> wipe t = wipe txt \<and> cache_ok e t \<and>
     bb_cells (txt_data t) = bb_cells (fold damage_cell (pointer_marks txt px py) (txt_data txt)) \<and>
     bb_flags (txt_data t) = bb_flags (fold damage_cell (pointer_marks txt px py) (txt_data txt)) \<and>
     bb_calls (txt_data t) = bb_calls (txt_data txt) @ [Display_blend (pointer_request e txt px py)]"

lemma fold_damage_arrays:
  assumes "bb_cells a = bb_cells b" "bb_flags a = bb_flags b"
  shows "bb_cells (fold damage_cell hit a) = bb_cells (fold damage_cell hit b) \<and>
    bb_flags (fold damage_cell hit a) = bb_flags (fold damage_cell hit b)"
  using assms by (induction hit arbitrary: a b) (simp_all add: damage_cell_def)

lemma set_pointer_coordinate_layout:
  assumes "layout t = layout u"
  shows "set_pointer_coordinate t x y = set_pointer_coordinate u x y" "marked t x y = marked u x y" "clamped t x y = clamped u x y"
proof -
  have e: "txt_orientation t = txt_orientation u" "FONT_WIDTH t = FONT_WIDTH u" "FONT_HEIGHT t = FONT_HEIGHT u"
    "txt_cols t = txt_cols u" "txt_rows t = txt_rows u" "bb_off_x (txt_data t) = bb_off_x (txt_data u)"
    "bb_off_y (txt_data t) = bb_off_y (txt_data u)" "bb_max_x (txt_data t) = bb_max_x (txt_data u)"
    "bb_max_y (txt_data t) = bb_max_y (txt_data u)"
    using assms by (simp_all add: layout_def)
  show "set_pointer_coordinate t x y = set_pointer_coordinate u x y" unfolding set_pointer_coordinate_def Let_def e ..
  show "marked t x y = marked u x y" unfolding marked_def Let_def e ..
  show "clamped t x y = clamped u x y" unfolding clamped_def e ..
qed

lemma draw_pointer_drawn:
  assumes c: "card_fits txt" and f: "cell_font e txt" and k: "cache_ok e txt"
  shows "\<exists>t. bbulk_draw_pointer e txt px py = (ok, t) \<and> pointer_drawn e px py txt t"
proof -
  define cl where "cl = cell_zero\<lparr>cell_ch := of_nat (code CHR ''I'')\<rparr>"
  define m where "m = clamped txt px py"
  have n: "txt_orientation txt = OR_NORMAL" using c by (simp add: card_fits_def)
  have "chrome_kept e txt txt" using k by (simp add: chrome_kept_def)
  from find_glyph_found [of e "txt" cl] cell_font_simple [OF f] k n
  obtain cache where g: "find_glyph e txt cl = (Some (glyph_of e OR_NORMAL cl), upd_bb (\<lambda>bb. bb\<lparr>bb_glyphs := Some cache\<rparr>) txt)"
    and a: "lru.agrees (glyph_of_id e OR_NORMAL) cache" by auto
  define t1 where "t1 = upd_bb (\<lambda>bb. bb\<lparr>bb_glyphs := Some cache\<rparr>) txt"
  have g1: "find_glyph e txt cl = (Some (glyph_of e OR_NORMAL cl), t1)" using g by (simp add: t1_def)
  have w1: "wipe t1 = wipe txt" by (simp add: t1_def wipe_def comp_def)
  have l1: "layout t1 = layout txt" using wipe_projections(21) [OF w1] .
  define t2 where "t2 = mark_damaged t1 (fst m) (snd m)"
  have t2: "t2 = upd_bb (fold damage_cell (pointer_marks txt px py)) t1"
    unfolding t2_def mark_damaged_marked set_pointer_coordinate_layout(2) [OF l1] by (simp add: pointer_marks_def m_def Let_def)
  have w2: "wipe t2 = wipe txt" unfolding t2 wipe_fold_damage by (fact w1)
  define t3 where "t3 = upd_bb (\<lambda>bb. bb\<lparr>bb_requests := bb_requests bb + 1\<rparr>) (emit_disp (Display_blend (pointer_request e txt px py)) t2)"
  have at: "bb_attr (txt_data t2) = bb_attr (txt_data txt)" using wipe_projections(18) [OF w2] .
  have mm: "clamp_word px (FONT_WIDTH txt div 2) (txt_cols txt * FONT_WIDTH txt - FONT_WIDTH txt div 2) = fst m"
    "clamp_word py (FONT_HEIGHT txt div 2) (txt_rows txt * FONT_HEIGHT txt - FONT_HEIGHT txt div 2) = snd m"
    by (simp_all add: m_def clamped_def)
  have d: "bbulk_draw_pointer e txt px py = (ok, t3)"
    unfolding bbulk_draw_pointer_def Let_def mm cl_def [symmetric] g1
    by (simp add: set_pointer_coordinate_layout [OF l1] t2_def [symmetric] at t3_def pointer_request_def Let_def m_def [symmetric] cl_def [symmetric]
        case_prod_unfold)
  have "wipe t3 = wipe txt" using w2 by (simp add: t3_def emit_disp_def wipe_def comp_def)
  moreover have "cache_ok e t3"
    using a n by (simp add: t3_def t2 t1_def emit_disp_def cache_ok_def)
  moreover have "bb_cells (txt_data t3) = bb_cells (fold damage_cell (pointer_marks txt px py) (txt_data txt))"
    "bb_flags (txt_data t3) = bb_flags (fold damage_cell (pointer_marks txt px py) (txt_data txt))"
    using fold_damage_arrays [of "txt_data t1" "txt_data txt" "pointer_marks txt px py"] by (simp_all add: t3_def t2 t1_def emit_disp_def)
  moreover have "bb_calls (txt_data t3) = bb_calls (txt_data txt) @ [Display_blend (pointer_request e txt px py)]"
    by (simp add: t3_def t2 t1_def emit_disp_def)
  ultimately show ?thesis using d by (auto simp: pointer_drawn_def)
qed

end
