(* ===== verification/Bbulk_Frames.thy ===== *)
theory Bbulk_Frames
  imports Bbulk_Damage Bbulk_Pointer
begin

text \<open>
  Frames: the software renderer on a display with two buffers. A frame is drawn into the back
  buffer, in the order of the terminal; when the display takes it the buffers change places,
  otherwise the damage stays set (\<open>drm_display_swap\<close> of \<open>src/video/drm_shared.c\<close>) and the next
  frame is drawn into the same buffer. The renderer only draws what changed; shown is that
  nevertheless every frame is complete, and that the damage it reports covers all that changed, as
  long as the display keeps the damage of a frame that it refuses.
\<close>

section \<open>The display and a frame\<close>

text \<open>\<open>sc_blob\<close> is a damage blob that was not used yet, \<open>sc_redraw\<close> the flag \<open>DISPLAY_NEED_REDRAW\<close>.\<close>

record shown =
  sc_txt :: bb_text
  sc_back :: surface
  sc_front :: surface
  sc_blob :: bool
  sc_redraw :: bool

record frame =
  fr_blinking :: bool
  fr_attr :: tsm_screen_attr
  fr_cells :: "tsm_screen_cell list"
  fr_cursor :: kmscon_cursor
  fr_line :: string
  fr_pointer :: "(u32 \<times> u32) option"
  fr_blob :: bool
  fr_taken :: bool

definition frame_env :: "bbulk_env \<Rightarrow> shown \<Rightarrow> bbulk_env" where
  "frame_env e s = e\<lparr>be_need_redraw := sc_redraw s, be_has_damage := sc_blob s\<rparr>"

text \<open>The object before the frame, after \<open>bbulk_prepare\<close>, the cells, the chrome and the pointer.\<close>

definition fresh_txt :: "shown \<Rightarrow> frame \<Rightarrow> bb_text" where
  "fresh_txt s f = upd_bb (\<lambda>bb. bb\<lparr>bb_calls := []\<rparr>) ((sc_txt s)\<lparr>txt_blinking := fr_blinking f\<rparr>)"

definition prepared_txt :: "bbulk_env \<Rightarrow> shown \<Rightarrow> frame \<Rightarrow> bb_text" where
  "prepared_txt e s f = snd (bbulk_prepare (frame_env e s) (fresh_txt s f) (fr_attr f))"

definition cells_txt :: "bbulk_env \<Rightarrow> shown \<Rightarrow> frame \<Rightarrow> bb_text" where
  "cells_txt e s f = snd (bbulk_draw (frame_env e s) (prepared_txt e s f) (fr_cells f) (fr_cursor f))"

definition chrome_txt :: "bbulk_env \<Rightarrow> shown \<Rightarrow> frame \<Rightarrow> bb_text" where
  "chrome_txt e s f = snd (bbulk_draw_status (frame_env e s) (cells_txt e s f) (fr_line f))"

definition pointer_txt :: "bbulk_env \<Rightarrow> shown \<Rightarrow> frame \<Rightarrow> bb_text" where
  "pointer_txt e s f =
     (case fr_pointer f of
        None \<Rightarrow> chrome_txt e s f
      | Some xy \<Rightarrow> snd (bbulk_draw_pointer (frame_env e s) (chrome_txt e s f) (fst xy) (snd xy)))"

definition drawn_txt :: "bbulk_env \<Rightarrow> shown \<Rightarrow> frame \<Rightarrow> bb_text" where
  "drawn_txt e s f = snd (bbulk_render (frame_env e s) (pointer_txt e s f))"

text \<open>
  What the back buffer holds after the frame, and the state then. \<open>drm_display_set_damage\<close> drops the
  old blob and makes a new one, unless a modeset is due or no cell is damaged; the kernel may refuse
  to make it (\<open>fr_blob\<close>). It is called only on displays that support damage clips. A frame that is
  taken uses the blob up.
\<close>

definition drawn_surface :: "bbulk_env \<Rightarrow> shown \<Rightarrow> frame \<Rightarrow> surface" where
  "drawn_surface e s f = fold paint (bb_calls (txt_data (drawn_txt e s f))) (sc_back s)"

definition damage_set :: "bbulk_env \<Rightarrow> shown \<Rightarrow> frame \<Rightarrow> bool" where
  "damage_set e s f =
     (if \<not> be_supports_damage e then sc_blob s
      else \<not> sc_redraw s \<and> bb_rects (txt_data (drawn_txt e s f)) \<noteq> [] \<and> fr_blob f)"

definition next_shown :: "bbulk_env \<Rightarrow> shown \<Rightarrow> frame \<Rightarrow> shown" where
  "next_shown e s f =
     (if fr_taken f
      then \<lparr>sc_txt = drawn_txt e s f, sc_back = sc_front s, sc_front = drawn_surface e s f, sc_blob = False, sc_redraw = False\<rparr>
      else \<lparr>sc_txt = drawn_txt e s f, sc_back = drawn_surface e s f, sc_front = sc_front s,
            sc_blob = damage_set e s f, sc_redraw = sc_redraw s\<rparr>)"

section \<open>The environment of a frame\<close>

lemma frame_env_fields [simp]:
  "be_mem (frame_env e s) = be_mem e" "be_abi (frame_env e s) = be_abi e" "be_has (frame_env e s) = be_has e"
  "be_render (frame_env e s) = be_render e"
  by (simp_all add: frame_env_def)

lemma frame_env_simps [simp]:
  "make_glyph (frame_env e s) = make_glyph e" "glyph_of (frame_env e s) = glyph_of e" "glyph_of_id (frame_env e s) = glyph_of_id e"
  "be_has_damage (frame_env e s) = sc_blob s" "be_need_redraw (frame_env e s) = sc_redraw s"
  "be_supports_damage (frame_env e s) = be_supports_damage e"
proof -
  show *: "make_glyph (frame_env e s) = make_glyph e"
    by (rule ext, rule ext) (unfold make_glyph_def render_glyph_def turn_glyph_def cell_style_def frame_env_fields, rule refl)
  show **: "glyph_of (frame_env e s) = glyph_of e" by (simp add: fun_eq_iff glyph_of_def *)
  show "glyph_of_id (frame_env e s) = glyph_of_id e" by (simp add: fun_eq_iff glyph_of_id_def **)
qed (simp_all add: frame_env_def)

lemma frame_env_facts [simp]:
  "cache_ok (frame_env e s) = cache_ok e" "cell_font (frame_env e s) = cell_font e" "simple_font (frame_env e s) = simple_font e"
  "request_at (frame_env e s) = request_at e" "wanted_at (frame_env e s) = wanted_at e"
proof -
  show "cache_ok (frame_env e s) = cache_ok e" by (simp add: fun_eq_iff cache_ok_def)
  show "cell_font (frame_env e s) = cell_font e" by (simp add: fun_eq_iff cell_font_def)
  show "simple_font (frame_env e s) = simple_font e" by (simp add: fun_eq_iff simple_font_def)
  show "request_at (frame_env e s) = request_at e" by (simp add: fun_eq_iff request_at_def)
  show "wanted_at (frame_env e s) = wanted_at e" 
    by (rule ext, rule ext, rule ext, rule ext) (unfold wanted_at_def wanted_cell_def frame_env_fields, rule refl)
qed

section \<open>Painting the cells\<close>

lemma paint_cells:
  assumes c: "card_fits txt" and f: "cell_font e txt" and p: "in_cell txt off p"
    and k: "k \<le> unat (txt_rows txt) * unat (txt_cols txt)"
  shows "fold paint (concat (map (cell_calls e txt w) [0..<k])) s p =
    (if off < k \<and> (cell_at txt off \<noteq> w off \<or> damaged_at txt off) then Some (request_at e txt off (w off)) else s p)"
  using k
proof (induction k)
  case (Suc k)
  have "in_req (request_at e txt k (w k)) p \<longleftrightarrow> off = k"
    using request_at_cell [OF c f, of k "w k"] Suc.prems p in_cell_unique by (metis Suc_le_lessD)
  then show ?case using Suc by (auto simp: cell_calls_def less_Suc_eq)
qed simp

section \<open>Invariant\<close>

text \<open>The screen is large enough for the terminal and its chrome.\<close>

definition screen_fits :: "bb_text \<Rightarrow> bool" where
  "screen_fits txt \<longleftrightarrow> txt_orientation txt = OR_NORMAL \<and> 0 < FONT_WIDTH txt \<and> 0 < FONT_HEIGHT txt \<and>
     unat (bb_sw (txt_data txt)) < 2 ^ 31 \<and> unat (bb_sh (txt_data txt)) < 2 ^ 31 \<and>
     (unat (txt_max_cols txt) + 4) * unat (FONT_WIDTH txt) \<le> unat (bb_sw (txt_data txt)) \<and>
     (unat (txt_max_rows txt) + 9) * unat (FONT_HEIGHT txt) \<le> unat (bb_sh (txt_data txt)) \<and>
     length (bb_cells (txt_data txt)) = unat (txt_max_cols txt) * (unat (txt_max_rows txt) + 2) \<and>
     length (bb_flags (txt_data txt)) = length (bb_cells (txt_data txt))"

definition sound_txt :: "bbulk_env \<Rightarrow> bb_text \<Rightarrow> bool" where
  "sound_txt e txt \<longleftrightarrow> screen_fits txt \<and> card_fits txt \<and> cell_font e txt \<and> logo_fits txt \<and> cache_ok e txt \<and>
     txt_cols txt \<le> txt_max_cols txt \<and> txt_rows txt \<le> txt_max_rows txt \<and>
     (\<forall>off. in_cells txt off \<longrightarrow> \<not> stale txt off \<longrightarrow> \<not> double_at txt off)"

definition cell_count :: "bb_text \<Rightarrow> nat" where
  "cell_count txt = unat (txt_rows txt) * unat (txt_cols txt)"

text \<open>
  \<open>last_drawn\<close> is the buffer that the latest frame was drawn into: it shows every cell that is not
  stale. The other one shows those that the latest frame did not change.
\<close>

definition last_drawn :: "shown \<Rightarrow> surface" where
  "last_drawn s = (if sc_blob s then sc_back s else sc_front s)"

definition other_buffer :: "shown \<Rightarrow> surface" where
  "other_buffer s = (if sc_blob s then sc_front s else sc_back s)"

definition picture :: "bbulk_env \<Rightarrow> shown \<Rightarrow> bool" where
  "picture e s \<longleftrightarrow>
     (\<forall>off p. off < cell_count (sc_txt s) \<longrightarrow> in_cell (sc_txt s) off p \<longrightarrow> \<not> stale (sc_txt s) off \<longrightarrow>
        last_drawn s p = Some (request_at e (sc_txt s) off (cell_at (sc_txt s) off)) \<and>
        (\<not> damaged_at (sc_txt s) off \<longrightarrow> other_buffer s p = Some (request_at e (sc_txt s) off (cell_at (sc_txt s) off))))"

definition shown_inv :: "bbulk_env \<Rightarrow> shown \<Rightarrow> bool" where
  "shown_inv e s \<longleftrightarrow> sound_txt e (sc_txt s) \<and> (sc_redraw s \<or> bb_redraw (txt_data (sc_txt s)) \<noteq> 0 \<or> picture e s)"

text \<open>
  The damage of a frame that is refused is kept: by a blob, or because all is drawn again anyway. It
  gets lost on a display without damage clips and when the kernel makes no blob; what happens then is
  shown below (\<open>refused_frame_leaves_old_cell\<close>). No cell of the terminal has the code that marks a
  stale cell.
\<close>

definition frame_ok :: "bbulk_env \<Rightarrow> shown \<Rightarrow> frame \<Rightarrow> bool" where
  "frame_ok e s f \<longleftrightarrow> (fr_taken f \<or> sc_redraw s \<or> (be_supports_damage e \<and> fr_blob f)) \<and>
     (\<forall>off<cell_count (sc_txt s). cell_ch (wanted_at e (fresh_txt s f) (fr_cells f) (fr_cursor f) off) \<noteq> ID_DAMAGED)"

lemma screen_fits_arrays:
  assumes "screen_fits txt" "0 < txt_cols txt" "txt_cols txt \<le> txt_max_cols txt" "txt_rows txt \<le> txt_max_rows txt"
  shows "arrays_ok txt"
proof -
  have "unat (txt_rows txt) * unat (txt_cols txt) \<le> (unat (txt_max_rows txt) + 2) * unat (txt_max_cols txt)"
    using assms(3,4) by (intro mult_le_mono) (simp_all add: word_le_nat_alt)
  then show ?thesis using assms(1,2) by (simp add: arrays_ok_def screen_fits_def mult.commute)
qed

section \<open>The steps of a frame\<close>

lemma layout_simps:
  assumes "layout t = layout u"
  shows "txt_orientation t = txt_orientation u" "txt_cols t = txt_cols u" "txt_rows t = txt_rows u" "FONT_WIDTH t = FONT_WIDTH u"
    "FONT_HEIGHT t = FONT_HEIGHT u"
  using assms by (simp_all add: layout_def)

lemma sound_transfer:
  assumes "sound_txt e u" and l: "layout t = layout u" and "txt_max_cols t = txt_max_cols u" "txt_max_rows t = txt_max_rows u"
    and "bb_sw (txt_data t) = bb_sw (txt_data u)" "bb_sh (txt_data t) = bb_sh (txt_data u)" "chrome_logo t = chrome_logo u"
    and "length (bb_cells (txt_data t)) = length (bb_cells (txt_data u))" "length (bb_flags (txt_data t)) = length (bb_flags (txt_data u))"
    and "cache_ok e t" "\<And>off. in_cells t off \<Longrightarrow> \<not> stale t off \<Longrightarrow> \<not> double_at t off"
  shows "sound_txt e t"
  using assms layout_simps [OF l] in_page_layout [OF l]
  by (auto simp: sound_txt_def screen_fits_def logo_fits_def split: option.splits)

lemma sound_arrays: "sound_txt e txt \<Longrightarrow> arrays_ok txt"
  by (rule screen_fits_arrays) (simp_all add: sound_txt_def card_fits_def)

lemma fresh_target_facts [simp]:
  "layout (fresh_txt s f) = layout (sc_txt s)" "chrome_logo (fresh_txt s f) = chrome_logo (sc_txt s)"
  "txt_max_cols (fresh_txt s f) = txt_max_cols (sc_txt s)" "txt_max_rows (fresh_txt s f) = txt_max_rows (sc_txt s)"
  "txt_cols (fresh_txt s f) = txt_cols (sc_txt s)" "txt_rows (fresh_txt s f) = txt_rows (sc_txt s)"
  "bb_sw (txt_data (fresh_txt s f)) = bb_sw (txt_data (sc_txt s))" "bb_sh (txt_data (fresh_txt s f)) = bb_sh (txt_data (sc_txt s))"
  "bb_cells (txt_data (fresh_txt s f)) = bb_cells (txt_data (sc_txt s))" "bb_flags (txt_data (fresh_txt s f)) = bb_flags (txt_data (sc_txt s))"
  "bb_glyphs (txt_data (fresh_txt s f)) = bb_glyphs (txt_data (sc_txt s))" "bb_calls (txt_data (fresh_txt s f)) = []"
  "bb_redraw (txt_data (fresh_txt s f)) = bb_redraw (txt_data (sc_txt s))"
  "txt_orientation (fresh_txt s f) = txt_orientation (sc_txt s)"
  "cell_at (fresh_txt s f) = cell_at (sc_txt s)" "damaged_at (fresh_txt s f) = damaged_at (sc_txt s)"
  "double_at (fresh_txt s f) = double_at (sc_txt s)" "in_cells (fresh_txt s f) = in_cells (sc_txt s)"
  by (simp_all add: fresh_txt_def fun_eq_iff cell_at_def damaged_at_def double_at_def in_cells_def)
    (simp_all add: upd_bb_def layout_def FONT_WIDTH_def FONT_HEIGHT_def)

definition frame_full :: "bbulk_env \<Rightarrow> shown \<Rightarrow> frame \<Rightarrow> bool" where
  "frame_full e s f = full_redraw (frame_env e s) (fr_attr f) (fresh_txt s f)"

definition frame_wanted :: "bbulk_env \<Rightarrow> shown \<Rightarrow> frame \<Rightarrow> nat \<Rightarrow> tsm_screen_cell" where
  "frame_wanted e s f = wanted_at e (fresh_txt s f) (fr_cells f) (fr_cursor f)"

lemma fresh_sound:
  assumes s: "sound_txt e (sc_txt s)"
  shows "sound_txt e (fresh_txt s f)"
proof (rule sound_transfer [OF s])
  show "cache_ok e (fresh_txt s f)" using s by (simp add: sound_txt_def cache_ok_def)
  show "\<not> double_at (fresh_txt s f) off" if "in_cells (fresh_txt s f) off" "\<not> stale (fresh_txt s f) off" for off
    using s that by (simp add: sound_txt_def stale_def)
qed simp_all

lemma prepared_step:
  assumes s: "sound_txt e (sc_txt s)"
  shows "prepared (frame_env e s) (frame_full e s f) (fresh_txt s f) (prepared_txt e s f)" "sound_txt e (prepared_txt e s f)"
proof -
  have f: "sound_txt e (fresh_txt s f)" by (rule fresh_sound [OF s])
  show p: "prepared (frame_env e s) (frame_full e s f) (fresh_txt s f) (prepared_txt e s f)"
    using bbulk_prepare_prepared [OF sound_arrays [OF f], of "frame_env e s" "fr_attr f"]
    by (auto simp: prepared_txt_def frame_full_def)
  note q = p [unfolded prepared_def]
  have l: "layout (prepared_txt e s f) = layout (fresh_txt s f)" using q by blast
  have len: "length (bb_cells (txt_data (prepared_txt e s f))) = length (bb_cells (txt_data (fresh_txt s f)))"
    "length (bb_flags (txt_data (prepared_txt e s f))) = length (bb_flags (txt_data (fresh_txt s f)))"
    using q sound_arrays [OF f] by (auto simp: arrays_ok_def)
  show "sound_txt e (prepared_txt e s f)"
  proof (rule sound_transfer [OF f l _ _ _ _ _ len])
    show "cache_ok e (prepared_txt e s f)"
      using q f layout_simps(1) [OF l] by (simp add: cache_ok_def sound_txt_def)
    show "\<not> double_at (prepared_txt e s f) off" if "in_cells (prepared_txt e s f) off" "\<not> stale (prepared_txt e s f) off" for off
    proof -
      have i: "in_cells (fresh_txt s f) off" using that(1) len by (simp add: in_cells_def)
      then have "double_at (prepared_txt e s f) off = double_at (fresh_txt s f) off"
        and "cell_at (prepared_txt e s f) off = cell_at (fresh_txt s f) off"
        using q that(2) by (auto split: if_splits)
      then show ?thesis using f i that(2) by (simp add: sound_txt_def stale_def)
    qed
  qed (use q in blast)+
qed

lemma prepared_blinking:
  assumes "sound_txt e (sc_txt s)"
  shows "wanted_at e (prepared_txt e s f) (fr_cells f) (fr_cursor f) = frame_wanted e s f"
proof -
  have "layout (prepared_txt e s f) = layout (fresh_txt s f)" "txt_blinking (prepared_txt e s f) = txt_blinking (fresh_txt s f)"
    using prepared_step(1) [OF assms, of f] by (simp_all add: prepared_def)
  then show ?thesis
    unfolding frame_wanted_def wanted_at_def using layout_simps(2) [of "prepared_txt e s f" "fresh_txt s f"] by simp
qed

lemma cells_step:
  assumes s: "sound_txt e (sc_txt s)" and w: "\<forall>off<cell_count (sc_txt s). cell_ch (frame_wanted e s f off) \<noteq> ID_DAMAGED"
  shows "drawn_upto e (frame_wanted e s f) (cell_count (sc_txt s)) (prepared_txt e s f) (cells_txt e s f)"
proof -
  define t where "t = prepared_txt e s f"
  have st: "sound_txt e t" using prepared_step(2) [OF s] by (simp add: t_def)
  have l: "layout t = layout (sc_txt s)" using prepared_step(1) [OF s, of f] by (simp add: t_def prepared_def)
  have n: "unat (txt_rows t) * unat (txt_cols t) = cell_count (sc_txt s)" by (simp add: cell_count_def layout_simps [OF l])
  have o: "txt_orientation t = OR_NORMAL" "0 < txt_cols t" using st by (simp_all add: sound_txt_def card_fits_def)
  have "wanted_at e t (fr_cells f) (fr_cursor f) = frame_wanted e s f" unfolding t_def by (rule prepared_blinking [OF s])
  then have "cells_txt e s f = draw_upto (frame_env e s) (frame_wanted e s f) (cell_count (sc_txt s)) t"
    using bbulk_draw_upto [OF o(2), of "frame_env e s" "fr_cells f" "fr_cursor f"]
    by (simp add: cells_txt_def t_def [symmetric] n)
  moreover have "drawn_upto (frame_env e s) (frame_wanted e s f) (cell_count (sc_txt s)) t
      (draw_upto (frame_env e s) (frame_wanted e s f) (cell_count (sc_txt s)) t)"
  proof (rule draw_upto_drawn)
    show "simple_font (frame_env e s) (txt_orientation t)" using st o(1) cell_font_simple [of e t] by (simp add: sound_txt_def)
    show "cache_ok (frame_env e s) t" using st by (simp add: sound_txt_def)
    show "arrays_ok t" by (rule sound_arrays [OF st])
    show "cell_count (sc_txt s) \<le> unat (txt_rows t) * unat (txt_cols t)" by (simp add: n)
    show "\<not> double_at t off" if "off < unat (txt_rows t) * unat (txt_cols t)" "cell_at t off = frame_wanted e s f off" for off
    proof -
      have "in_cells t off" using in_grid_in_cells [OF sound_arrays [OF st] that(1)] .
      moreover have "\<not> stale t off" using that w n by (simp add: stale_def)
      ultimately show ?thesis using st by (simp add: sound_txt_def)
    qed
  qed
  moreover have "drawn_upto (frame_env e s) = drawn_upto e"
  proof -
    have cc: "cell_calls (frame_env e s) = cell_calls e" by (simp add: fun_eq_iff cell_calls_def)
    show ?thesis by (rule ext)+ (unfold drawn_upto_def frame_env_facts cc, rule refl)
  qed
  ultimately show ?thesis by (simp only: t_def)
qed

lemma cells_sound:
  assumes s: "sound_txt e (sc_txt s)" and w: "\<forall>off<cell_count (sc_txt s). cell_ch (frame_wanted e s f off) \<noteq> ID_DAMAGED"
  shows "sound_txt e (cells_txt e s f)"
proof -
  note d = cells_step [OF s w, unfolded drawn_upto_def]
  have st: "sound_txt e (prepared_txt e s f)" by (rule prepared_step(2) [OF s])
  have wi: "wipe (cells_txt e s f) = wipe (prepared_txt e s f)" using d by blast
  note p = wipe_projections [OF wi]
  have len: "length (bb_cells (txt_data (cells_txt e s f))) = length (bb_cells (txt_data (prepared_txt e s f)))"
    "length (bb_flags (txt_data (cells_txt e s f))) = length (bb_flags (txt_data (prepared_txt e s f)))"
    using d sound_arrays [OF st] by (auto simp: arrays_ok_def)
  show ?thesis
  proof (rule sound_transfer [OF st p(21) p(3,4,15,16,8) len])
    show "cache_ok e (cells_txt e s f)" using d by blast
    show "\<not> double_at (cells_txt e s f) off" if "in_cells (cells_txt e s f) off" "\<not> stale (cells_txt e s f) off" for off
    proof (cases "off < cell_count (sc_txt s)")
      case False
      then have "cell_at (cells_txt e s f) off = cell_at (prepared_txt e s f) off" "double_at (cells_txt e s f) off = double_at (prepared_txt e s f) off"
        using d by simp_all
      then show ?thesis using st that len by (simp add: sound_txt_def stale_def in_cells_def)
    qed (use d in blast)
  qed
qed

lemma chrome_step:
  assumes s: "sound_txt e (sc_txt s)" and w: "\<forall>off<cell_count (sc_txt s). cell_ch (frame_wanted e s f off) \<noteq> ID_DAMAGED"
  shows "chrome_kept e (cells_txt e s f) (chrome_txt e s f)"
proof -
  have st: "sound_txt e (cells_txt e s f)" by (rule cells_sound [OF s w])
  have k: "chrome_kept (frame_env e s) t u \<longleftrightarrow> chrome_kept e t u" for t u by (simp add: chrome_kept_def)
  have "\<exists>t. bbulk_draw_status (frame_env e s) (cells_txt e s f) (fr_line f) = (ok, t) \<and> chrome_kept (frame_env e s) (cells_txt e s f) t"
    by (rule draw_status_beside) (use st in \<open>simp_all add: sound_txt_def\<close>)
  then show ?thesis by (auto simp: chrome_txt_def k)
qed

lemma same_cells_sound:
  assumes "sound_txt e u" "wipe t = wipe u" "cache_ok e t" "bb_cells (txt_data t) = bb_cells (txt_data u)" "bb_flags (txt_data t) = bb_flags (txt_data u)"
  shows "sound_txt e t"
proof -
  note p = wipe_projections [OF assms(2)]
  show ?thesis
    by (rule sound_transfer [OF assms(1) p(21) p(3,4,15,16,8)])
      (use assms in \<open>auto simp: sound_txt_def in_cells_def stale_def double_at_def cell_at_def\<close>)
qed

definition frame_marks :: "shown \<Rightarrow> frame \<Rightarrow> nat list" where
  "frame_marks s f = (case fr_pointer f of None \<Rightarrow> [] | Some xy \<Rightarrow> pointer_marks (sc_txt s) (fst xy) (snd xy))"

definition pointer_calls :: "bbulk_env \<Rightarrow> shown \<Rightarrow> frame \<Rightarrow> disp_call list" where
  "pointer_calls e s f =
     (case fr_pointer f of
        None \<Rightarrow> []
      | Some xy \<Rightarrow> [Display_blend (pointer_request e (chrome_txt e s f) (fst xy) (snd xy))])"

text \<open>The pixels that the pointer hides.\<close>

definition pointer_pixel :: "bbulk_env \<Rightarrow> shown \<Rightarrow> frame \<Rightarrow> nat \<times> nat \<Rightarrow> bool" where
  "pointer_pixel e s f p =
     (case fr_pointer f of None \<Rightarrow> False | Some xy \<Rightarrow> in_req (pointer_request e (chrome_txt e s f) (fst xy) (snd xy)) p)"

lemma pointer_step:
  assumes s: "sound_txt e (sc_txt s)" and w: "\<forall>off<cell_count (sc_txt s). cell_ch (frame_wanted e s f off) \<noteq> ID_DAMAGED"
  shows "wipe (pointer_txt e s f) = wipe (chrome_txt e s f) \<and> cache_ok e (pointer_txt e s f) \<and>
    bb_cells (txt_data (pointer_txt e s f)) = bb_cells (fold damage_cell (frame_marks s f) (txt_data (chrome_txt e s f))) \<and>
    bb_flags (txt_data (pointer_txt e s f)) = bb_flags (fold damage_cell (frame_marks s f) (txt_data (chrome_txt e s f))) \<and>
    bb_calls (txt_data (pointer_txt e s f)) = bb_calls (txt_data (chrome_txt e s f)) @ pointer_calls e s f"
proof -
  have k: "chrome_kept e (cells_txt e s f) (chrome_txt e s f)" by (rule chrome_step [OF s w])
  have st: "sound_txt e (chrome_txt e s f)"
    by (rule same_cells_sound [OF cells_sound [OF s w]]) (use k in \<open>simp_all add: chrome_kept_def\<close>)
  show ?thesis
  proof (cases "fr_pointer f")
    case None
    then show ?thesis using st by (simp add: pointer_txt_def frame_marks_def pointer_calls_def sound_txt_def)
  next
    case (Some xy)
    have "layout (chrome_txt e s f) = layout (cells_txt e s f)" 
      using k by (intro wipe_projections(21)) (simp add: chrome_kept_def)
    moreover have "layout (cells_txt e s f) = layout (prepared_txt e s f)"
      using cells_step [OF s w] by (intro wipe_projections(21)) (simp add: drawn_upto_def)
    moreover have "layout (prepared_txt e s f) = layout (sc_txt s)" using prepared_step(1) [OF s, of f] by (simp add: prepared_def)
    ultimately have l: "layout (chrome_txt e s f) = layout (sc_txt s)" by simp
    have m: "pointer_marks (chrome_txt e s f) (fst xy) (snd xy) = frame_marks s f"
      using Some by (simp add: frame_marks_def pointer_marks_def set_pointer_coordinate_layout(2,3) [OF l] Let_def)
    have "\<exists>t. bbulk_draw_pointer (frame_env e s) (chrome_txt e s f) (fst xy) (snd xy) = (ok, t) \<and>
        pointer_drawn (frame_env e s) (fst xy) (snd xy) (chrome_txt e s f) t"
      by (rule draw_pointer_drawn) (use st in \<open>simp_all add: sound_txt_def\<close>)
    then have "pointer_drawn (frame_env e s) (fst xy) (snd xy) (chrome_txt e s f) (pointer_txt e s f)"
      using Some by (auto simp: pointer_txt_def)
    moreover have "pointer_request (frame_env e s) = pointer_request e" by (simp add: fun_eq_iff pointer_request_def)
    ultimately show ?thesis using Some by (simp add: pointer_drawn_def m pointer_calls_def)
  qed
qed

lemma wipe_to_fresh:
  assumes s: "sound_txt e (sc_txt s)" and w: "\<forall>off<cell_count (sc_txt s). cell_ch (frame_wanted e s f off) \<noteq> ID_DAMAGED"
  shows "wipe (pointer_txt e s f) = wipe (prepared_txt e s f)" "layout (pointer_txt e s f) = layout (sc_txt s)"
    "layout (chrome_txt e s f) = layout (sc_txt s)"
proof -
  have c: "wipe (chrome_txt e s f) = wipe (prepared_txt e s f)"
    using chrome_step [OF s w] cells_step [OF s w] by (simp add: chrome_kept_def drawn_upto_def)
  then show *: "wipe (pointer_txt e s f) = wipe (prepared_txt e s f)" using pointer_step [OF s w] by simp
  have "layout (prepared_txt e s f) = layout (sc_txt s)" using prepared_step(1) [OF s, of f] by (simp add: prepared_def)
  then show "layout (pointer_txt e s f) = layout (sc_txt s)" "layout (chrome_txt e s f) = layout (sc_txt s)"
    using wipe_projections(21) [OF *] wipe_projections(21) [OF c] by simp_all
qed

text \<open>The cells after the frame.\<close>

lemma pointer_cells:
  assumes s: "sound_txt e (sc_txt s)" and w: "\<forall>off<cell_count (sc_txt s). cell_ch (frame_wanted e s f off) \<noteq> ID_DAMAGED"
  shows "sound_txt e (pointer_txt e s f)"
    "off < cell_count (sc_txt s) \<Longrightarrow> off \<in> set (frame_marks s f) \<Longrightarrow> stale (pointer_txt e s f) off \<and> damaged_at (pointer_txt e s f) off"
    "off < cell_count (sc_txt s) \<Longrightarrow> off \<notin> set (frame_marks s f) \<Longrightarrow> cell_at (pointer_txt e s f) off = frame_wanted e s f off \<and>
      damaged_at (pointer_txt e s f) off = (cell_at (prepared_txt e s f) off \<noteq> frame_wanted e s f off)"
proof -
  define t where "t = cells_txt e s f"
  define u where "u = upd_bb (fold damage_cell (frame_marks s f)) t"
  have st: "sound_txt e t" using cells_sound [OF s w] by (simp add: t_def)
  have ar: "arrays_ok t" by (rule sound_arrays [OF st])
  have k: "bb_cells (txt_data (chrome_txt e s f)) = bb_cells (txt_data t)" "bb_flags (txt_data (chrome_txt e s f)) = bb_flags (txt_data t)"
    "wipe (chrome_txt e s f) = wipe t"
    using chrome_step [OF s w] by (simp_all add: chrome_kept_def t_def)
  have pu: "bb_cells (txt_data (pointer_txt e s f)) = bb_cells (txt_data u)" "bb_flags (txt_data (pointer_txt e s f)) = bb_flags (txt_data u)"
    using pointer_step [OF s w] fold_damage_arrays [OF k(1,2), of "frame_marks s f"] by (simp_all add: u_def)
  have at: "cell_at (pointer_txt e s f) = cell_at u" "damaged_at (pointer_txt e s f) = damaged_at u" "double_at (pointer_txt e s f) = double_at u"
    "stale (pointer_txt e s f) = stale u" "in_cells (pointer_txt e s f) = in_cells t"
    using pu by (simp_all add: fun_eq_iff cell_at_def damaged_at_def double_at_def stale_def in_cells_def u_def)
  have "wipe (pointer_txt e s f) = wipe t" using pointer_step [OF s w] k(3) by simp
  note p = wipe_projections [OF this]
  show "sound_txt e (pointer_txt e s f)"
  proof (rule sound_transfer [OF st p(21) p(3,4,15,16,8)])
    show "length (bb_cells (txt_data (pointer_txt e s f))) = length (bb_cells (txt_data t))"
      "length (bb_flags (txt_data (pointer_txt e s f))) = length (bb_flags (txt_data t))" by (simp_all add: pu u_def)
    show "cache_ok e (pointer_txt e s f)" using pointer_step [OF s w] by simp
    show "\<not> double_at (pointer_txt e s f) off" if "in_cells (pointer_txt e s f) off" "\<not> stale (pointer_txt e s f) off" for off
    proof -
      have "in_cells t off" "\<not> stale t off"
        using that mark_cells(1) [OF ar, of off "frame_marks s f"] by (auto simp: at u_def stale_def split: if_splits)
      then show ?thesis using st mark_cells(3) [OF ar] by (simp add: at u_def sound_txt_def)
    qed
  qed
  note d = cells_step [OF s w, unfolded drawn_upto_def, folded t_def]
  have n: "in_cells t off" if "off < cell_count (sc_txt s)"
  proof -
    have "layout t = layout (sc_txt s)" using wipe_to_fresh(2) [OF s w] p(21) by simp
    from layout_simps(2,3) [OF this] have "cell_count t = cell_count (sc_txt s)" by (simp add: cell_count_def)
    then show ?thesis using that in_grid_in_cells [OF ar] by (simp add: cell_count_def)
  qed
  show "stale (pointer_txt e s f) off \<and> damaged_at (pointer_txt e s f) off"
    if "off < cell_count (sc_txt s)" "off \<in> set (frame_marks s f)"
    using mark_cells [OF ar n [OF that(1)], of "frame_marks s f"] that(2) by (simp add: at u_def stale_def)
  show "cell_at (pointer_txt e s f) off = frame_wanted e s f off \<and>
      damaged_at (pointer_txt e s f) off = (cell_at (prepared_txt e s f) off \<noteq> frame_wanted e s f off)"
    if "off < cell_count (sc_txt s)" "off \<notin> set (frame_marks s f)"
    using mark_cells [OF ar n [OF that(1)], of "frame_marks s f"] that d by (simp add: at u_def)
qed

section \<open>The pixels of a frame\<close>

lemma render_facts:
  "cell_at (drawn_txt e s f) = cell_at (pointer_txt e s f)" "damaged_at (drawn_txt e s f) = damaged_at (pointer_txt e s f)"
  "stale (drawn_txt e s f) = stale (pointer_txt e s f)" "layout (drawn_txt e s f) = layout (pointer_txt e s f)"
  "sound_txt e (pointer_txt e s f) \<Longrightarrow> sound_txt e (drawn_txt e s f)"
  "bb_calls (txt_data (drawn_txt e s f)) = bb_calls (txt_data (pointer_txt e s f)) @
     (if be_supports_damage e then [Display_set_damage (bb_rects (txt_data (bbulk_compute_damage (pointer_txt e s f))))] else [])"
proof -
  define t where "t = pointer_txt e s f"
  define rects where "rects = bb_rects (txt_data (bbulk_compute_damage t))"
  have c: "bbulk_compute_damage t = upd_bb (\<lambda>bb. bb\<lparr>bb_rects := rects\<rparr>) t"
    by (simp add: rects_def bbulk_compute_damage_def Let_def)
  have d: "drawn_txt e s f = (if be_supports_damage e then upd_bb (\<lambda>bb. bb\<lparr>bb_rects := rects, bb_calls := bb_calls bb @ [Display_set_damage rects]\<rparr>) t else t)"
    unfolding drawn_txt_def bbulk_render_def t_def [symmetric] Let_def c
    by (simp add: emit_disp_def comp_def)
  have a: "bb_cells (txt_data (drawn_txt e s f)) = bb_cells (txt_data t)" "bb_flags (txt_data (drawn_txt e s f)) = bb_flags (txt_data t)"
    by (simp_all add: d)
  then show "cell_at (drawn_txt e s f) = cell_at (pointer_txt e s f)" "damaged_at (drawn_txt e s f) = damaged_at (pointer_txt e s f)"
    "stale (drawn_txt e s f) = stale (pointer_txt e s f)"
    by (simp_all add: fun_eq_iff cell_at_def damaged_at_def stale_def t_def)
  show l: "layout (drawn_txt e s f) = layout (pointer_txt e s f)" by (simp add: d layout_def t_def)
  show "bb_calls (txt_data (drawn_txt e s f)) = bb_calls (txt_data (pointer_txt e s f)) @
     (if be_supports_damage e then [Display_set_damage (bb_rects (txt_data (bbulk_compute_damage (pointer_txt e s f))))] else [])"
    by (simp add: d t_def rects_def)
  assume st: "sound_txt e (pointer_txt e s f)"
  show "sound_txt e (drawn_txt e s f)"
    by (rule sound_transfer [OF st l]) (use st a in \<open>auto simp: d t_def sound_txt_def cache_ok_def in_cells_def stale_def double_at_def cell_at_def\<close>)
qed

lemma render_rects:
  "be_supports_damage e \<Longrightarrow> bb_rects (txt_data (drawn_txt e s f)) = bb_rects (txt_data (bbulk_compute_damage (pointer_txt e s f)))"
  by (simp add: drawn_txt_def bbulk_render_def Let_def emit_disp_def)

lemma frame_calls:
  assumes s: "sound_txt e (sc_txt s)" and w: "\<forall>off<cell_count (sc_txt s). cell_ch (frame_wanted e s f off) \<noteq> ID_DAMAGED"
  shows "\<exists>cs ds. bb_calls (txt_data (drawn_txt e s f)) =
      (if frame_full e s f then [Display_clear PAGE] else []) @
      concat (map (cell_calls e (prepared_txt e s f) (frame_wanted e s f)) [0..<cell_count (sc_txt s)]) @ cs @ pointer_calls e s f @ ds \<and>
    list_all (beside_card (sc_txt s)) cs \<and> (\<forall>srf. fold paint ds srf = srf)"
proof -
  have p: "bb_calls (txt_data (prepared_txt e s f)) = (if frame_full e s f then [Display_clear PAGE] else [])"
    using prepared_step(1) [OF s, of f] by (simp add: prepared_def)
  have c: "bb_calls (txt_data (cells_txt e s f)) = bb_calls (txt_data (prepared_txt e s f)) @
      concat (map (cell_calls e (prepared_txt e s f) (frame_wanted e s f)) [0..<cell_count (sc_txt s)])"
    using cells_step [OF s w] by (simp add: drawn_upto_def)
  obtain cs where cs: "bb_calls (txt_data (chrome_txt e s f)) = bb_calls (txt_data (cells_txt e s f)) @ cs"
    and b: "list_all (beside_card (cells_txt e s f)) cs"
    using chrome_step [OF s w] by (auto simp: chrome_kept_def)
  have "wipe (chrome_txt e s f) = wipe (cells_txt e s f)" using chrome_step [OF s w] by (simp add: chrome_kept_def)
  from wipe_projections(21) [OF this] have cl: "layout (cells_txt e s f) = layout (sc_txt s)" using wipe_to_fresh(3) [OF s w] by simp
  have b': "list_all (beside_card (sc_txt s)) cs" using b by (simp add: card_layout(6) [OF cl])
  define ds where "ds = (if be_supports_damage e then [Display_set_damage (bb_rects (txt_data (bbulk_compute_damage (pointer_txt e s f))))] else [])"
  have "bb_calls (txt_data (drawn_txt e s f)) =
      (if frame_full e s f then [Display_clear PAGE] else []) @
      concat (map (cell_calls e (prepared_txt e s f) (frame_wanted e s f)) [0..<cell_count (sc_txt s)]) @ cs @ pointer_calls e s f @ ds"
    using p c cs pointer_step [OF s w] by (simp add: render_facts(6) ds_def)
  moreover have "\<forall>srf. fold paint ds srf = srf" by (simp add: ds_def)
  ultimately show ?thesis using b' by blast
qed

lemma frame_pixel:
  assumes s: "sound_txt e (sc_txt s)" and w: "\<forall>off<cell_count (sc_txt s). cell_ch (frame_wanted e s f off) \<noteq> ID_DAMAGED"
    and off: "off < cell_count (sc_txt s)" and p: "in_cell (sc_txt s) off p" and q: "\<not> pointer_pixel e s f p"
  shows "drawn_surface e s f p =
    (if cell_at (prepared_txt e s f) off \<noteq> frame_wanted e s f off \<or> damaged_at (prepared_txt e s f) off
     then Some (request_at e (sc_txt s) off (frame_wanted e s f off))
     else if frame_full e s f then None else sc_back s p)"
proof -
  define t where "t = prepared_txt e s f"
  have l: "layout t = layout (sc_txt s)" using prepared_step(1) [OF s, of f] by (simp add: t_def prepared_def)
  have st: "sound_txt e t" using prepared_step(2) [OF s] by (simp add: t_def)
  obtain cs ds where cs: "bb_calls (txt_data (drawn_txt e s f)) =
      (if frame_full e s f then [Display_clear PAGE] else []) @
      concat (map (cell_calls e t (frame_wanted e s f)) [0..<cell_count (sc_txt s)]) @ cs @ pointer_calls e s f @ ds"
    and b: "list_all (beside_card (sc_txt s)) cs" and ds: "\<And>srf. fold paint ds srf = srf"
    using frame_calls [OF s w] by (auto simp: t_def)
  define s0 where "s0 = fold paint (if frame_full e s f then [Display_clear PAGE] else []) (sc_back s)"
  define s1 where "s1 = fold paint (concat (map (cell_calls e t (frame_wanted e s f)) [0..<cell_count (sc_txt s)])) s0"
  have n: "cell_count (sc_txt s) = unat (txt_rows t) * unat (txt_cols t)" by (simp add: cell_count_def layout_simps [OF l])
  have pc: "in_cell t off p" using p in_page_layout(2) [OF l] by simp
  have s1: "s1 p = (if cell_at t off \<noteq> frame_wanted e s f off \<or> damaged_at t off then Some (request_at e t off (frame_wanted e s f off)) else s0 p)"
    unfolding s1_def using paint_cells [OF _ _ pc, of e "cell_count (sc_txt s)" "frame_wanted e s f" s0] st off n by (simp add: sound_txt_def)
  have card: "in_card (sc_txt s) p"
    by (rule in_cell_card [OF _ _ p]) (use s off in \<open>simp_all add: sound_txt_def cell_count_def\<close>)
  have s2: "fold paint cs s1 p = s1 p" by (rule beside_card_paint [OF b card])
  have "fold paint (pointer_calls e s f) srf p = srf p" for srf
    using q by (auto simp: pointer_calls_def pointer_pixel_def split: option.splits)
  then have "drawn_surface e s f p = s1 p"
    unfolding drawn_surface_def cs by (simp add: ds s2 s0_def [symmetric] s1_def [symmetric])
  moreover have "s0 p = (if frame_full e s f then None else sc_back s p)" by (simp add: s0_def)
  ultimately show ?thesis using s1 request_at_layout [OF l] by (simp add: t_def)
qed

text \<open>A cell that the frame did not have to draw is in both buffers already.\<close>

lemma unchanged_cell:
  assumes i: "shown_inv e s" and w: "cell_ch (frame_wanted e s f off) \<noteq> ID_DAMAGED"
    and off: "off < cell_count (sc_txt s)" and p: "in_cell (sc_txt s) off p"
    and same: "cell_at (prepared_txt e s f) off = frame_wanted e s f off"
  shows "\<not> frame_full e s f" "sc_front s p = Some (request_at e (sc_txt s) off (frame_wanted e s f off))"
    "\<not> damaged_at (prepared_txt e s f) off \<Longrightarrow> sc_back s p = Some (request_at e (sc_txt s) off (frame_wanted e s f off))"
proof -
  have s: "sound_txt e (sc_txt s)" using i by (simp add: shown_inv_def)
  have inc: "in_cells (fresh_txt s f) off"
    using in_grid_in_cells [OF sound_arrays [OF s]] off by (simp add: cell_count_def)
  have ns: "\<not> stale (prepared_txt e s f) off" using same w by (simp add: stale_def)
  note q = prepared_step(1) [OF s, of f, unfolded prepared_def]
  have at_off: "if frame_full e s f then stale (prepared_txt e s f) off
      else if be_has_damage (frame_env e s) \<and> damaged_at (fresh_txt s f) off then stale (prepared_txt e s f) off
      else cell_at (prepared_txt e s f) off = cell_at (fresh_txt s f) off \<and> damaged_at (prepared_txt e s f) off = damaged_at (fresh_txt s f) off"
    using q inc by blast
  show nf: "\<not> frame_full e s f" using at_off ns by auto
  have nb: "\<not> (sc_blob s \<and> damaged_at (sc_txt s) off)" using at_off ns nf by (auto split: if_splits)
  have at: "cell_at (sc_txt s) off = frame_wanted e s f off" "damaged_at (prepared_txt e s f) off = damaged_at (sc_txt s) off"
    using at_off ns nf same by (simp_all split: if_splits)
  have "picture e s" using i nf by (auto simp: shown_inv_def frame_full_def full_redraw_def)
  moreover have "\<not> stale (sc_txt s) off" using at w by (simp add: stale_def)
  ultimately have pic: "last_drawn s p = Some (request_at e (sc_txt s) off (frame_wanted e s f off))"
    "\<not> damaged_at (sc_txt s) off \<Longrightarrow> other_buffer s p = Some (request_at e (sc_txt s) off (frame_wanted e s f off))"
    using off p unfolding picture_def at(1) [symmetric] by blast+
  show "sc_front s p = Some (request_at e (sc_txt s) off (frame_wanted e s f off))"
    using pic nb by (auto simp: last_drawn_def other_buffer_def split: if_splits)
  show "sc_back s p = Some (request_at e (sc_txt s) off (frame_wanted e s f off))" if "\<not> damaged_at (prepared_txt e s f) off"
    using pic that at(2) by (auto simp: last_drawn_def other_buffer_def split: if_splits)
qed

lemma frame_complete:
  assumes i: "shown_inv e s" and w: "frame_ok e s f"
    and off: "off < cell_count (sc_txt s)" and p: "in_cell (sc_txt s) off p" and q: "\<not> pointer_pixel e s f p"
  shows "drawn_surface e s f p = Some (request_at e (sc_txt s) off (frame_wanted e s f off))"
proof -
  have s: "sound_txt e (sc_txt s)" using i by (simp add: shown_inv_def)
  have wa: "\<forall>off<cell_count (sc_txt s). cell_ch (frame_wanted e s f off) \<noteq> ID_DAMAGED"
    using w by (simp add: frame_ok_def frame_wanted_def)
  note px = frame_pixel [OF s wa off p q]
  show ?thesis
  proof (cases "cell_at (prepared_txt e s f) off \<noteq> frame_wanted e s f off \<or> damaged_at (prepared_txt e s f) off")
    case False
    then show ?thesis using px unchanged_cell [OF i _ off p, of f] wa off by simp
  qed (use px in simp)
qed

text \<open>The pointer only hides cells that are marked.\<close>

lemma pointer_pixel_marked:
  assumes s: "sound_txt e (sc_txt s)" and w: "\<forall>off<cell_count (sc_txt s). cell_ch (frame_wanted e s f off) \<noteq> ID_DAMAGED"
    and off: "off < cell_count (sc_txt s)" and p: "in_cell (sc_txt s) off p" and q: "pointer_pixel e s f p"
  shows "off \<in> set (frame_marks s f)"
proof -
  obtain xy where xy: "fr_pointer f = Some xy" and r: "in_req (pointer_request e (chrome_txt e s f) (fst xy) (snd xy)) p"
    using q by (auto simp: pointer_pixel_def split: option.splits)
  have l: "layout (chrome_txt e s f) = layout (sc_txt s)" by (rule wipe_to_fresh(3) [OF s w])
  have "card_fits (chrome_txt e s f)" "cell_font e (chrome_txt e s f)"
    using s in_page_layout [OF l] by (simp_all add: sound_txt_def)
  from pointer_covers_marked [OF this _ r, of off] have "off \<in> set (pointer_marks (chrome_txt e s f) (fst xy) (snd xy))"
    using off p in_page_layout [OF l] layout_simps [OF l] by (simp add: cell_count_def)
  then show ?thesis
    using xy by (simp add: frame_marks_def pointer_marks_def set_pointer_coordinate_layout(2,3) [OF l] Let_def)
qed

lemma damaged_pixel_covered:
  assumes s: "sound_txt e (sc_txt s)" and w: "\<forall>off<cell_count (sc_txt s). cell_ch (frame_wanted e s f off) \<noteq> ID_DAMAGED"
    and off: "off < cell_count (sc_txt s)" and p: "in_cell (sc_txt s) off p" and d: "damaged_at (pointer_txt e s f) off"
  shows "covered (bb_rects (txt_data (bbulk_compute_damage (pointer_txt e s f)))) p"
proof -
  have l: "layout (pointer_txt e s f) = layout (sc_txt s)" by (rule wipe_to_fresh(2) [OF s w])
  have "card_fits (pointer_txt e s f)" using pointer_cells(1) [OF s w] by (simp add: sound_txt_def)
  then show ?thesis
    using damaged_cell_covered [of "pointer_txt e s f" off p] off p d in_page_layout(2) [OF l] layout_simps [OF l]
    by (simp add: cell_count_def)
qed

lemma frame_keeps_inv:
  assumes i: "shown_inv e s" and w: "frame_ok e s f"
  shows "shown_inv e (next_shown e s f)"
proof -
  have s: "sound_txt e (sc_txt s)" using i by (simp add: shown_inv_def)
  have wa: "\<forall>off<cell_count (sc_txt s). cell_ch (frame_wanted e s f off) \<noteq> ID_DAMAGED"
    using w by (simp add: frame_ok_def frame_wanted_def)
  have l: "layout (drawn_txt e s f) = layout (sc_txt s)" using wipe_to_fresh(2) [OF s wa] by (simp add: render_facts)
  have so: "sound_txt e (drawn_txt e s f)" by (rule render_facts(5) [OF pointer_cells(1) [OF s wa]])
  have n: "cell_count (drawn_txt e s f) = cell_count (sc_txt s)" by (simp add: cell_count_def layout_simps [OF l])
  have pixels: "drawn_surface e s f p = Some (request_at e (sc_txt s) off (cell_at (drawn_txt e s f) off)) \<and>
      (\<not> damaged_at (drawn_txt e s f) off \<longrightarrow> sc_front s p = Some (request_at e (sc_txt s) off (cell_at (drawn_txt e s f) off)))"
    if off: "off < cell_count (sc_txt s)" and p: "in_cell (sc_txt s) off p" and ns: "\<not> stale (drawn_txt e s f) off" for off p
  proof -
    have m: "off \<notin> set (frame_marks s f)" using pointer_cells(2) [OF s wa off] ns by (auto simp: render_facts)
    have c: "cell_at (drawn_txt e s f) off = frame_wanted e s f off"
      "damaged_at (drawn_txt e s f) off = (cell_at (prepared_txt e s f) off \<noteq> frame_wanted e s f off)"
      using pointer_cells(3) [OF s wa off m] by (simp_all add: render_facts)
    have q: "\<not> pointer_pixel e s f p" using pointer_pixel_marked [OF s wa off p] m by blast
    have "drawn_surface e s f p = Some (request_at e (sc_txt s) off (frame_wanted e s f off))" by (rule frame_complete [OF i w off p q])
    moreover have "sc_front s p = Some (request_at e (sc_txt s) off (frame_wanted e s f off))" if "\<not> damaged_at (drawn_txt e s f) off"
      using unchanged_cell(2) [OF i _ off p] wa off that c by simp
    ultimately show ?thesis using c by simp
  qed
  have pic: "picture e (next_shown e s f)" if k: "fr_taken f \<or> \<not> sc_redraw s"
  proof (cases "fr_taken f \<or> damage_set e s f")
    case True
    then show ?thesis
      unfolding picture_def
      using pixels in_page_layout(2) [OF l] request_at_layout [OF l] n
      by (auto simp: next_shown_def last_drawn_def other_buffer_def)
  next
    case False
    then have no: "bb_rects (txt_data (bbulk_compute_damage (pointer_txt e s f))) = []"
      using k w render_rects [of e s f] by (auto simp: damage_set_def frame_ok_def)
    have "\<not> damaged_at (drawn_txt e s f) off" if off: "off < cell_count (sc_txt s)" and p: "in_cell (sc_txt s) off p" for off p
    proof
      assume "damaged_at (drawn_txt e s f) off"
      then have "covered (bb_rects (txt_data (bbulk_compute_damage (pointer_txt e s f)))) p"
        using damaged_pixel_covered [OF s wa off p] by (simp add: render_facts)
      then show False by (simp add: no covered_def)
    qed
    then show ?thesis
      unfolding picture_def
      using pixels False in_page_layout(2) [OF l] request_at_layout [OF l] n
      by (auto simp: next_shown_def last_drawn_def other_buffer_def)
  qed
  have "sc_redraw (next_shown e s f)" if "\<not> (fr_taken f \<or> \<not> sc_redraw s)" using that by (simp add: next_shown_def)
  moreover have "sc_txt (next_shown e s f) = drawn_txt e s f" by (simp add: next_shown_def)
  ultimately show ?thesis using so pic by (auto simp: shown_inv_def)
qed

text \<open>Where the new frame differs from the one on the screen, its damage covers it.\<close>

lemma frame_damage:
  assumes i: "shown_inv e s" and w: "frame_ok e s f"
    and off: "off < cell_count (sc_txt s)" and p: "in_cell (sc_txt s) off p" and ne: "drawn_surface e s f p \<noteq> sc_front s p"
  shows "covered (bb_rects (txt_data (bbulk_compute_damage (pointer_txt e s f)))) p"
proof -
  have s: "sound_txt e (sc_txt s)" using i by (simp add: shown_inv_def)
  have wa: "\<forall>off<cell_count (sc_txt s). cell_ch (frame_wanted e s f off) \<noteq> ID_DAMAGED"
    using w by (simp add: frame_ok_def frame_wanted_def)
  have "damaged_at (pointer_txt e s f) off"
  proof (rule ccontr)
    assume nd: "\<not> damaged_at (pointer_txt e s f) off"
    then have m: "off \<notin> set (frame_marks s f)" using pointer_cells(2) [OF s wa off] by blast
    then have q: "\<not> pointer_pixel e s f p" using pointer_pixel_marked [OF s wa off p] by blast
    have "cell_at (prepared_txt e s f) off = frame_wanted e s f off" using pointer_cells(3) [OF s wa off m] nd by simp
    then have "sc_front s p = Some (request_at e (sc_txt s) off (frame_wanted e s f off))"
      using unchanged_cell(2) [OF i _ off p] wa off by simp
    then show False using ne frame_complete [OF i w off p q] by simp
  qed
  then show ?thesis by (rule damaged_pixel_covered [OF s wa off p])
qed

end
