(* ===== verification/Bbulk_Spec.thy ===== *)
theory Bbulk_Spec
  imports Bbulk_Frames
begin

text \<open>
  What the software renderer promises, for every run of the backend on an upright screen: it is set
  on a display, then draws frames, is resized, gets new chrome and colours, and the display may ask
  for a redraw or refuse a frame.
\<close>

section \<open>The layout of a screen\<close>

lemma top_offset_fits:
  assumes "unat content \<le> unat sh"
  shows "unat (top_offset sh content fh) + unat content \<le> unat sh"
proof (cases "sh > content")
  case True
  define free where "free = sh - content"
  have f: "unat free = unat sh - unat content" using assms by (simp add: free_def unat_sub word_le_nat_alt)
  have "top_offset sh content fh \<le> free div 3"
    using True by (simp add: top_offset_def Let_def free_def not_less)
  then have "unat (top_offset sh content fh) \<le> unat free div 3" by (simp add: word_le_nat_alt unat_div)
  then have "unat (top_offset sh content fh) \<le> unat free" by linarith
  then show ?thesis using f assms by linarith
qed (use assms in \<open>simp add: top_offset_def\<close>)

lemma compute_border_kept:
  "txt_cols (compute_border txt) = txt_cols txt" "txt_rows (compute_border txt) = txt_rows txt"
  "txt_max_cols (compute_border txt) = txt_max_cols txt" "txt_max_rows (compute_border txt) = txt_max_rows txt"
  "txt_orientation (compute_border txt) = txt_orientation txt" "txt_font (compute_border txt) = txt_font txt"
  "chrome_logo (compute_border txt) = chrome_logo txt"
  "bb_sw (txt_data (compute_border txt)) = bb_sw (txt_data txt)" "bb_sh (txt_data (compute_border txt)) = bb_sh (txt_data txt)"
  "bb_cells (txt_data (compute_border txt)) = bb_cells (txt_data txt)" "bb_flags (txt_data (compute_border txt)) = bb_flags (txt_data txt)"
  "bb_glyphs (txt_data (compute_border txt)) = bb_glyphs (txt_data txt)"
  "FONT_WIDTH (compute_border txt) = FONT_WIDTH txt" "FONT_HEIGHT (compute_border txt) = FONT_HEIGHT txt"
  by (simp_all add: compute_border_def Let_def emit_disp_def upd_bb_def FONT_WIDTH_def FONT_HEIGHT_def)

lemma compute_border_fits:
  assumes n: "txt_orientation txt = OR_NORMAL" and pos: "0 < FONT_WIDTH txt" "0 < FONT_HEIGHT txt" "0 < txt_cols txt" "0 < txt_rows txt"
    and w: "(unat (txt_cols txt) + 4) * unat (FONT_WIDTH txt) \<le> unat (bb_sw (txt_data txt))" "unat (bb_sw (txt_data txt)) < 2 ^ 31"
    and h: "(unat (txt_rows txt) + 9) * unat (FONT_HEIGHT txt) \<le> unat (bb_sh (txt_data txt))" "unat (bb_sh (txt_data txt)) < 2 ^ 31"
  shows "card_fits (compute_border txt)"
proof -
  define W where "W = (unat (txt_cols txt) + 4) * unat (FONT_WIDTH txt)"
  define H where "H = (unat (txt_rows txt) + 9) * unat (FONT_HEIGHT txt)"
  have two: "(2 :: nat) ^ 31 \<le> 2 ^ 32" by simp
  have "1 \<le> unat (FONT_WIDTH txt)" "1 \<le> unat (FONT_HEIGHT txt)" using pos by (simp_all add: word_less_nat_alt)
  then have small: "unat (txt_cols txt) + 4 \<le> W" "unat (txt_rows txt) + 9 \<le> H" by (simp_all add: W_def H_def)
  have lt: "unat (txt_cols txt) + 4 < 2 ^ 32" "unat (txt_rows txt) + 9 < 2 ^ 32"
    using small w h two unfolding W_def [symmetric] H_def [symmetric] by linarith+
  have cc: "unat (txt_cols txt + 2 * PAD_COLS) = unat (txt_cols txt) + 4" and rr: "unat (txt_rows txt + TOP_ROWS + BOTTOM_ROWS) = unat (txt_rows txt) + 9"
    using lt by (simp_all add: unat_word_ariths)
  have cw: "unat ((txt_cols txt + 2 * PAD_COLS) * FONT_WIDTH txt) = W" "unat ((txt_rows txt + TOP_ROWS + BOTTOM_ROWS) * FONT_HEIGHT txt) = H"
    unfolding W_def H_def
     by (rule unat_times [OF cc refl], use w two in linarith, rule unat_times [OF rr refl], use h two in linarith)
  define ox where "ox = (bb_sw (txt_data txt) - (txt_cols txt + 2 * PAD_COLS) * FONT_WIDTH txt) div 2"
  define oy where "oy = top_offset (bb_sh (txt_data txt)) ((txt_rows txt + TOP_ROWS + BOTTOM_ROWS) * FONT_HEIGHT txt) (FONT_HEIGHT txt)"
  have uox: "unat ox = (unat (bb_sw (txt_data txt)) - W) div 2"
    unfolding ox_def using cw(1) w by (simp only: unat_div) (subst unat_sub, simp_all add: word_le_nat_alt W_def)
  have fx: "unat ox + W \<le> unat (bb_sw (txt_data txt))" using uox w unfolding W_def [symmetric] by linarith
  have fy: "unat oy + H \<le> unat (bb_sh (txt_data txt))" unfolding oy_def cw(2) [symmetric] by (rule top_offset_fits) (use cw(2) h H_def in simp)
  have b: "bb_off_x (txt_data (compute_border txt)) = ox" "bb_off_y (txt_data (compute_border txt)) = oy"
    "bb_max_x (txt_data (compute_border txt)) = ox + (txt_cols txt + 2 * PAD_COLS) * FONT_WIDTH txt"
    "bb_max_y (txt_data (compute_border txt)) = oy + (txt_rows txt + TOP_ROWS + BOTTOM_ROWS) * FONT_HEIGHT txt"
    using n by (simp_all add: compute_border_def Let_def emit_disp_def ox_def oy_def)
  have mx: "unat (ox + (txt_cols txt + 2 * PAD_COLS) * FONT_WIDTH txt) = unat ox + W"
    "unat (oy + (txt_rows txt + TOP_ROWS + BOTTOM_ROWS) * FONT_HEIGHT txt) = unat oy + H"
    using fx fy w(2) h(2) cw by (simp_all only: unat_word_ariths) simp_all
  have lim: "unat ox + W < 2 ^ 31" "unat oy + H < 2 ^ 31" using fx fy w(2) h(2) by linarith+
  show ?thesis
    unfolding card_fits_def compute_border_kept b mx using n pos lim by (simp add: W_def H_def)
qed

lemma resize_sound:
  assumes s: "sound_txt e txt" and c: "0 < cols" "cols \<le> txt_max_cols txt" and r: "0 < rows" "rows \<le> txt_max_rows txt"
  shows "sound_txt e (bbulk_resize txt cols rows)" "bb_redraw (txt_data (bbulk_resize txt cols rows)) = 2"
proof -
  define u where "u = txt\<lparr>txt_cols := cols, txt_rows := rows\<rparr>"
  have r': "bbulk_resize txt cols rows = upd_bb (\<lambda>bb. bb\<lparr>bb_redraw := 2\<rparr>) (compute_border u)" by (simp add: bbulk_resize_def u_def)
  have f: "FONT_WIDTH u = FONT_WIDTH txt" "FONT_HEIGHT u = FONT_HEIGHT txt" by (simp_all add: u_def FONT_WIDTH_def FONT_HEIGHT_def)
  have us: "txt_orientation u = txt_orientation txt" "txt_cols u = cols" "txt_rows u = rows" "txt_data u = txt_data txt"
    by (simp_all add: u_def)
  have fit: "screen_fits txt" "cell_font e txt" "logo_fits txt" "cache_ok e txt"
    and d: "\<And>off. in_cells txt off \<Longrightarrow> \<not> stale txt off \<Longrightarrow> \<not> double_at txt off" using s by (simp_all add: sound_txt_def)
  have wide: "(unat cols + 4) * unat (FONT_WIDTH txt) \<le> (unat (txt_max_cols txt) + 4) * unat (FONT_WIDTH txt)"
    "(unat rows + 9) * unat (FONT_HEIGHT txt) \<le> (unat (txt_max_rows txt) + 9) * unat (FONT_HEIGHT txt)"
    using c r by (simp_all add: word_le_nat_alt mult_le_mono1)
  have total: "(unat cols + 4) * unat (FONT_WIDTH txt) \<le> unat (bb_sw (txt_data txt))"
    "(unat rows + 9) * unat (FONT_HEIGHT txt) \<le> unat (bb_sh (txt_data txt))"
    using fit(1) wide unfolding screen_fits_def by linarith+
  have "card_fits (compute_border u)"
    by (rule compute_border_fits) (unfold f us, use fit(1) c r total in \<open>simp_all add: screen_fits_def\<close>)
  then have card: "card_fits (bbulk_resize txt cols rows)" by (simp add: r' card_fits_def)
  have a: "in_cells (bbulk_resize txt cols rows) = in_cells txt" "stale (bbulk_resize txt cols rows) = stale txt"
    "double_at (bbulk_resize txt cols rows) = double_at txt"
    by (simp_all add: fun_eq_iff r' in_cells_def stale_def cell_at_def double_at_def compute_border_kept u_def)
  have l: "screen_fits (bbulk_resize txt cols rows)" "cell_font e (bbulk_resize txt cols rows)" "logo_fits (bbulk_resize txt cols rows)"
    "cache_ok e (bbulk_resize txt cols rows)"
    using fit by (simp_all add: r' screen_fits_def cell_font_def logo_fits_def cache_ok_def compute_border_kept f split: option.splits)
      (simp_all add: u_def)
  have m: "txt_cols (bbulk_resize txt cols rows) \<le> txt_max_cols (bbulk_resize txt cols rows)"
    "txt_rows (bbulk_resize txt cols rows) \<le> txt_max_rows (bbulk_resize txt cols rows)"
    using c r by (simp_all add: r' compute_border_kept u_def)
  show "sound_txt e (bbulk_resize txt cols rows)" unfolding sound_txt_def a using card l m d by blast
  show "bb_redraw (txt_data (bbulk_resize txt cols rows)) = 2" by (simp add: r')
qed

text \<open>The display is large enough for a terminal with its chrome, and smaller than \<open>2 ^ 15\<close> pixels each way.\<close>

definition big_enough :: "bbulk_env \<Rightarrow> bb_text \<Rightarrow> bool" where
  "big_enough e txt \<longleftrightarrow> txt_orientation txt = OR_NORMAL \<and> 0 < FONT_WIDTH txt \<and> 0 < FONT_HEIGHT txt \<and>
     be_width e < 2 ^ 15 \<and> be_height e < 2 ^ 15 \<and> 18 < be_width e div FONT_WIDTH txt \<and> 17 < be_height e div FONT_HEIGHT txt"

lemma set_sound:
  assumes b: "big_enough e txt" and f: "cell_font e txt" and g: "logo_fits txt" and t: "bbulk_set e txt = (ret, t)"
  shows "ret = ok" "sound_txt e t" "\<And>off. in_cells t off \<Longrightarrow> stale t off"
proof -
  define fw where "fw = unat (FONT_WIDTH txt)"
  define fh where "fh = unat (FONT_HEIGHT txt)"
  have n: "txt_orientation txt = OR_NORMAL" and pos: "0 < FONT_WIDTH txt" "0 < FONT_HEIGHT txt"
    and w: "unat (be_width e) < 2 ^ 15" "unat (be_height e) < 2 ^ 15"
    and d: "18 < unat (be_width e) div fw" "17 < unat (be_height e) div fh"
    using b by (simp_all add: big_enough_def word_less_nat_alt unat_div fw_def fh_def)
  define cols where "cols = be_width e div FONT_WIDTH txt - 18"
  define rows where "rows = be_height e div FONT_HEIGHT txt - 17"
  have uc: "unat cols = unat (be_width e) div fw - 18" and ur: "unat rows = unat (be_height e) div fh - 17"
    using d by (simp_all add: cols_def rows_def unat_sub word_le_nat_alt unat_div fw_def fh_def)
  define bb where "bb = (bb_zero (bb_calls (txt_data txt)))\<lparr>bb_sw := be_width e, bb_sh := be_height e\<rparr>"
  define u where "u = txt\<lparr>txt_data := bb, txt_max_cols := cols, txt_max_rows := rows, txt_cols := cols, txt_rows := rows\<rparr>"
  have fu: "FONT_WIDTH u = FONT_WIDTH txt" "FONT_HEIGHT u = FONT_HEIGHT txt" by (simp_all add: u_def FONT_WIDTH_def FONT_HEIGHT_def)
  have width: "(unat cols + 4) * fw \<le> unat (be_width e)" and height: "(unat rows + 9) * fh \<le> unat (be_height e)"
  proof -
    have "(unat cols + 4) * fw \<le> (unat (be_width e) div fw) * fw" "(unat rows + 9) * fh \<le> (unat (be_height e) div fh) * fh"
      using d uc ur by (intro mult_le_mono1; simp)+
    then show "(unat cols + 4) * fw \<le> unat (be_width e)" "(unat rows + 9) * fh \<le> unat (be_height e)"
      using div_times_less_eq_dividend [of "unat (be_width e)" fw] div_times_less_eq_dividend [of "unat (be_height e)" fh] by linarith+
  qed
  have "unat (be_width e) div fw \<le> unat (be_width e)" "unat (be_height e) div fh \<le> unat (be_height e)" by simp_all
  then have lim: "unat cols < 2 ^ 15" "unat rows < 2 ^ 15" "0 < unat cols" "0 < unat rows" using w d uc ur by linarith+
  have r2: "unat (rows + 2) = unat rows + 2" using lim by (simp add: unat_word_ariths)
  have "unat cols * (unat rows + 2) < 2 ^ 32"
  proof -
    have "unat cols * (unat rows + 2) \<le> 2 ^ 15 * (2 ^ 15 + 2)" using lim by (intro mult_le_mono) simp_all
    then show ?thesis by simp
  qed
  then have count: "unat (cols * (rows + 2)) = unat cols * (unat rows + 2)" by (intro unat_times refl r2)
  define n' where "n' = unat cols * (unat rows + 2)"
  have n'pos: "0 < n'" using lim by (simp add: n'_def)
  have us: "txt_orientation u = txt_orientation txt" "txt_cols u = cols" "txt_rows u = rows" "bb_sw (txt_data u) = be_width e"
    "bb_sh (txt_data u) = be_height e" by (simp_all add: u_def bb_def)
  have fits: "card_fits (compute_border u)"
    by (rule compute_border_fits)
      (unfold fu us, use n pos lim w width height in \<open>simp_all add: word_less_nat_alt fw_def fh_def\<close>)
  define v where "v = compute_border u"
  define lru :: "kmscon_glyph option shl_lru" where "lru = \<lparr>lru_max = 2 * n', lru_list = []\<rparr>"
  define res where "res = v\<lparr>txt_data := (txt_data v)
        \<lparr>bb_cells := replicate n' (cell_zero\<lparr>cell_ch := ID_DAMAGED\<rparr>),
         bb_flags := map (\<lambda>i. \<lparr>cf_double = be_junk e i, cf_damaged = True\<rparr>) [0..<n'], bb_rects_max := max_damage_rects cols rows,
         bb_glyphs := Some lru\<rparr>\<rparr>"
  have nz: "be_width e \<noteq> 0" "be_height e \<noteq> 0" using d by (auto intro: ccontr)
  have less: "less_chrome (be_width e div FONT_WIDTH txt) (HORIZONTAL_CELLS + 2 * PAD_COLS) = cols"
    "less_chrome (be_height e div FONT_HEIGHT txt) (TOP_ROWS + BOTTOM_ROWS + SAFE_MARGIN_ROWS) = rows"
    using b by (simp_all add: less_chrome_def big_enough_def cols_def rows_def)
  have less': "less_chrome (be_width e div FONT_WIDTH txt) 18 = cols" "less_chrome (be_height e div FONT_HEIGHT txt) 17 = rows"
    using less by simp_all
  have mem: "be_mem e" using f by (simp add: cell_font_def)
  have fb: "FONT_WIDTH (txt\<lparr>txt_data := bb\<rparr>) = FONT_WIDTH txt" "FONT_HEIGHT (txt\<lparr>txt_data := bb\<rparr>) = FONT_HEIGHT txt"
    by (simp_all add: FONT_WIDTH_def FONT_HEIGHT_def)
  have sz: "bb_sw bb = be_width e" "bb_sh bb = be_height e" by (simp_all add: bb_def)
  have lo: "shl_lru_new True (2 * unat (cols * (rows + 2))) = Some lru"
    using n'pos by (simp add: shl_lru_new_def lru_def count n'_def)
  have "bbulk_set e txt = (ok, res)"
    unfolding bbulk_set_def Let_def bb_def [symmetric] fb sz
    using n nz mem lo by (simp add: less' v_def u_def [symmetric] res_def count n'_def)
  then have rt: "ret = ok" "t = res" using t by simp_all
  show "ret = ok" by (fact rt(1))
  have q: "FONT_WIDTH res = FONT_WIDTH txt" "FONT_HEIGHT res = FONT_HEIGHT txt" "layout res = layout v" "txt_max_cols res = cols"
    "txt_max_rows res = rows" "txt_cols res = cols" "txt_rows res = rows" "chrome_logo res = chrome_logo txt"
    "txt_orientation res = OR_NORMAL" "bb_sw (txt_data res) = be_width e" "bb_sh (txt_data res) = be_height e"
    using n by (simp_all add: res_def v_def compute_border_kept fu FONT_WIDTH_def FONT_HEIGHT_def layout_def) (simp_all add: u_def sz)
  show st: "stale t off" if "in_cells t off" for off
    using that by (simp add: rt(2) res_def in_cells_def stale_def cell_at_def)
  have "card_fits t" using fits in_page_layout(3) [OF q(3)] by (simp add: rt(2) v_def)
  moreover have "cache_ok e t"
    by (simp add: rt(2) cache_ok_def res_def lru.agrees_def lru_def lru_inv_def n'pos)
  moreover have "screen_fits t"
  proof -
    have "unat (be_width e) < 2 ^ 31" "unat (be_height e) < 2 ^ 31" using w by simp_all
    then show ?thesis using q n pos width height by (simp add: rt(2) screen_fits_def fw_def fh_def) (simp add: res_def n'_def)
  qed
  moreover have "cell_font e t" "logo_fits t"
    using f g q by (simp_all add: rt(2) cell_font_def logo_fits_def split: option.splits)
  ultimately show "sound_txt e t" using st q by (auto simp: rt(2) sound_txt_def)
qed

section \<open>Runs\<close>

text \<open>
  What else happens to the object between two frames: new strings, colours and logo for the chrome.
  The part that belongs to the renderer and its size stay.
\<close>

definition chrome_changed :: "bb_text \<Rightarrow> bb_text \<Rightarrow> bool" where
  "chrome_changed txt t \<longleftrightarrow> txt_data t = txt_data txt \<and> txt_font t = txt_font txt \<and> txt_orientation t = txt_orientation txt \<and>
     txt_cols t = txt_cols txt \<and> txt_rows t = txt_rows txt \<and> txt_max_cols t = txt_max_cols txt \<and>
     txt_max_rows t = txt_max_rows txt \<and> logo_fits t"

inductive shown_reach :: "bbulk_env \<Rightarrow> shown \<Rightarrow> bool" for e where
  Start: "big_enough e txt \<Longrightarrow> cell_font e txt \<Longrightarrow> logo_fits txt \<Longrightarrow> bbulk_set e txt = (ok, t) \<Longrightarrow>
     shown_reach e \<lparr>sc_txt = t, sc_back = b, sc_front = f, sc_blob = False, sc_redraw = r\<rparr>"
| Frame: "shown_reach e s \<Longrightarrow> frame_ok e s f \<Longrightarrow> shown_reach e (next_shown e s f)"
| Resize: "shown_reach e s \<Longrightarrow> 0 < cols \<Longrightarrow> cols \<le> txt_max_cols (sc_txt s) \<Longrightarrow> 0 < rows \<Longrightarrow> rows \<le> txt_max_rows (sc_txt s) \<Longrightarrow>
     shown_reach e (s\<lparr>sc_txt := bbulk_resize (sc_txt s) cols rows\<rparr>)"
| Chrome: "shown_reach e s \<Longrightarrow> chrome_changed (sc_txt s) t \<Longrightarrow> shown_reach e (s\<lparr>sc_txt := t\<rparr>)"
| Redraw: "shown_reach e s \<Longrightarrow> shown_reach e (s\<lparr>sc_redraw := True\<rparr>)"

lemma chrome_sound:
  assumes c: "chrome_changed (sc_txt s) t" and i: "shown_inv e s"
  shows "shown_inv e (s\<lparr>sc_txt := t\<rparr>)"
proof -
  have d: "txt_data t = txt_data (sc_txt s)" and l: "layout t = layout (sc_txt s)" and g: "logo_fits t"
    and m: "txt_max_cols t = txt_max_cols (sc_txt s)" "txt_max_rows t = txt_max_rows (sc_txt s)"
    using c by (simp_all add: chrome_changed_def layout_def FONT_WIDTH_def FONT_HEIGHT_def)
  note ls = layout_simps [OF l] in_page_layout [OF l]
  have at: "cell_at t = cell_at (sc_txt s)" "damaged_at t = damaged_at (sc_txt s)" "double_at t = double_at (sc_txt s)"
    "stale t = stale (sc_txt s)" "in_cells t = in_cells (sc_txt s)"
    by (simp_all add: fun_eq_iff cell_at_def damaged_at_def double_at_def stale_def in_cells_def d)
  have "sound_txt e (sc_txt s)" using i by (simp add: shown_inv_def)
  then have k: "cache_ok e (sc_txt s)" "screen_fits (sc_txt s)" "card_fits (sc_txt s)" "cell_font e (sc_txt s)"
    "txt_cols (sc_txt s) \<le> txt_max_cols (sc_txt s)" "txt_rows (sc_txt s) \<le> txt_max_rows (sc_txt s)"
    "\<forall>off. in_cells (sc_txt s) off \<longrightarrow> \<not> stale (sc_txt s) off \<longrightarrow> \<not> double_at (sc_txt s) off"
    unfolding sound_txt_def by blast+
  have "cache_ok e t" using k(1) by (simp add: cache_ok_def ls(1) d)
  moreover have "screen_fits t" using k(2) by (simp add: screen_fits_def ls(1-5) d m)
  ultimately have "sound_txt e t" using k(3-) g by (simp add: sound_txt_def ls m at)
  moreover have "picture e (s\<lparr>sc_txt := t\<rparr>) = picture e s"
    by (simp add: picture_def cell_count_def ls at last_drawn_def other_buffer_def request_at_layout [OF l])
  ultimately show ?thesis using i by (simp add: shown_inv_def d)
qed

lemma shown_reach_inv: "shown_reach e s \<Longrightarrow> shown_inv e s"
proof (induction rule: shown_reach.induct)
  case (Start u t b f r)
  have "off < cell_count t \<Longrightarrow> stale t off" for off
    using set_sound(3) [OF Start] in_grid_in_cells [OF sound_arrays [OF set_sound(2) [OF Start]]] by (simp add: cell_count_def)
  then show ?case using set_sound(2) [OF Start] by (auto simp: shown_inv_def picture_def)
next
  case (Frame s f)
  then show ?case by (intro frame_keeps_inv)
next
  case (Resize s cols rows)
  then show ?case using resize_sound [of e "sc_txt s" cols rows] by (simp add: shown_inv_def)
next
  case (Chrome s t)
  then show ?case by (intro chrome_sound)
next
  case (Redraw s)
  then show ?case by (simp add: shown_inv_def)
qed

section \<open>Properties\<close>

text \<open>
  Property C10. Every frame is complete on an upright screen. The runs are those of \<open>shown_reach\<close>:
  the orientation is normal, the screen has at least 19 by 18 cells, every glyph is one cell wide
  (cells of double width are not covered), the logo fits above the card, no allocation fails, and
  the damage of a frame that the display refuses is kept (\<open>frame_ok\<close>;
  \<open>refused_frame_leaves_old_cell\<close> shows what happens otherwise). In such a run, whatever came before
  the frame (frames shown and frames refused, resizing, redraws, pointers that have left traces),
  after \<open>bbulk_prepare\<close>, \<open>bbulk_draw\<close>, \<open>bbulk_draw_status\<close>, \<open>bbulk_draw_pointer\<close> and
  \<open>bbulk_render\<close> each pixel of each cell of the terminal was painted last by the request for the
  wanted content of that cell, in the buffer that is shown next, although only the cells that
  changed were drawn. Only the pixels under the pointer are the pointer's.
\<close>

theorem frames_are_complete:
  assumes "shown_reach e s" "frame_ok e s f" "off < cell_count (sc_txt s)" "in_cell (sc_txt s) off p" "\<not> pointer_pixel e s f p"
  shows "drawn_surface e s f p = Some (request_at e (sc_txt s) off (frame_wanted e s f off))"
  using frame_complete [OF shown_reach_inv] assms by blast

text \<open>
  Property C12. The damage that is reported is enough on an upright screen, in the same runs as in
  \<open>frames_are_complete\<close> (normal orientation, at least 19 by 18 cells, glyphs of one cell, a logo that
  fits, no failing allocation, refused frames whose damage is kept): every pixel of the terminal in
  which a new frame differs from the picture on the screen lies in one of the rectangles that
  \<open>bbulk_compute_damage\<close> gives to the display, also after frames that were not shown. On turned
  screens it is not enough (\<open>turned_pointer_leaves_trail\<close>).
\<close>

theorem damage_covers_changes:
  assumes "shown_reach e s" "frame_ok e s f" "off < cell_count (sc_txt s)" "in_cell (sc_txt s) off p"
    and "drawn_surface e s f p \<noteq> sc_front s p"
  shows "covered (bb_rects (txt_data (bbulk_compute_damage (pointer_txt e s f)))) p"
  using frame_damage [OF shown_reach_inv] assms by blast

text \<open>
  The chrome never touches the terminal: on an upright screen that holds the card, with
  a logo that fits above it, every call of \<open>bbulk_draw_status\<close> paints beside the cells, and it
  leaves the cells and their flags alone.
\<close>

theorem chrome_stays_beside_card:
  assumes "card_fits txt" "cell_font e txt" "logo_fits txt" "cache_ok e txt"
  shows "\<exists>t cs. bbulk_draw_status e txt line = (ok, t) \<and> bb_calls (txt_data t) = bb_calls (txt_data txt) @ cs \<and>
    list_all (beside_card txt) cs \<and> bb_cells (txt_data t) = bb_cells (txt_data txt) \<and> bb_flags (txt_data t) = bb_flags (txt_data txt)"
  using draw_status_beside [OF assms, of line] by (auto simp: chrome_kept_def)

section \<open>A screen of 152 by 288 pixels\<close>

definition demo_glyph :: kmscon_glyph where
  "demo_glyph = \<lparr>gl_double = False, gl_buf = \<lparr>vb_width = 8, vb_height = 16, vb_data = replicate 128 255\<rparr>\<rparr>"

definition demo_tsm :: tsm_abi where
  "demo_tsm = \<lparr>bit_bold = (\<lambda>a. bit a 0), bit_italic = (\<lambda>a. bit a 1), bit_underline = (\<lambda>a. bit a 2), bit_blink = (\<lambda>a. bit a 3),
     put_underline = (\<lambda>b. if b then 4 else 0), style_default = 0, style_block_blink = 1, style_block_steady = 2,
     style_underline_blink = 3, style_underline_steady = 4, style_vbar_blink = 5, style_vbar_steady = 6\<rparr>"

definition demo_be :: bbulk_env where
  "demo_be = \<lparr>be_abi = demo_tsm, be_mem = True, be_junk = (\<lambda>i. True), be_has = (\<lambda>st ch. True),
     be_render = (\<lambda>st ch. Some demo_glyph), be_width = 152, be_height = 288, be_supports_damage = True,
     be_need_redraw = False, be_has_damage = False\<rparr>"

definition demo_new :: bb_text where
  "demo_new = (text_zero (bb_zero []) OR_NORMAL)\<lparr>txt_font := Some \<lparr>attr_width = 8, attr_height = 16, increase_step = 1\<rparr>\<rparr>"

definition demo_shown :: shown where
  "demo_shown = \<lparr>sc_txt = snd (bbulk_set demo_be demo_new), sc_back = (\<lambda>p. None), sc_front = (\<lambda>p. None), sc_blob = False, sc_redraw = False\<rparr>"

text \<open>The letter \<open>A\<close>, with the pointer far away, or with none.\<close>

definition demo_frame :: frame where
  "demo_frame = \<lparr>fr_blinking = False, fr_attr = attr_zero, fr_cells = [cell_zero\<lparr>cell_ch := 65\<rparr>],
     fr_cursor = \<lparr>cur_cell = cell_zero, cur_x = 0, cur_y = 0, cur_visible = False\<rparr>, fr_line = ''Online'', fr_pointer = None, fr_blob = True, fr_taken = True\<rparr>"

lemma demo_new_facts:
  "big_enough demo_be demo_new" "cell_font demo_be demo_new" "logo_fits demo_new"
  by (simp_all add: big_enough_def cell_font_def logo_fits_def demo_be_def demo_new_def FONT_WIDTH_def FONT_HEIGHT_def text_zero_def
      make_glyph_def render_glyph_def turn_glyph_def demo_glyph_def Let_def)

lemma demo_set: "bbulk_set demo_be demo_new = (ok, sc_txt demo_shown)"
  using set_sound(1) [OF demo_new_facts, of "fst (bbulk_set demo_be demo_new)" "snd (bbulk_set demo_be demo_new)"]
  by (simp add: demo_shown_def prod_eq_iff)

lemma demo_reach: "shown_reach demo_be demo_shown"
  using shown_reach.Start [OF demo_new_facts demo_set, of "\<lambda>p. None" "\<lambda>p. None" False] by (simp add: demo_shown_def)

lemmas set_defs = bbulk_set_def Let_def demo_be_def demo_new_def bb_zero_def FONT_WIDTH_def FONT_HEIGHT_def text_zero_def
  less_chrome_def compute_border_def top_offset_def emit_disp_def upd_bb_def shl_lru_new_def

lemma demo_layout:
  "txt_orientation (sc_txt demo_shown) = OR_NORMAL" "txt_cols (sc_txt demo_shown) = 1" "txt_rows (sc_txt demo_shown) = 1" "FONT_WIDTH (sc_txt demo_shown) = 8" "FONT_HEIGHT (sc_txt demo_shown) = 16"
  "bb_off_x (txt_data (sc_txt demo_shown)) = 56" "bb_off_y (txt_data (sc_txt demo_shown)) = 25"
  by (simp_all add: demo_shown_def set_defs)

lemma demo_cell: "in_cell (sc_txt demo_shown) 0 (72, 105)" "0 < cell_count (sc_txt demo_shown)"
  by (simp_all add: in_cell_def in_page_def demo_layout cell_count_def)

lemma demo_frame_ok: "frame_ok demo_be demo_shown demo_frame"
proof -
  have "cell_ch (wanted_at demo_be (fresh_txt demo_shown demo_frame) (fr_cells demo_frame) (fr_cursor demo_frame) 0) \<noteq> ID_DAMAGED"
    by (simp add: wanted_at_def wanted_cell_def demo_layout demo_frame_def demo_be_def demo_tsm_def cell_zero_def)
  then show ?thesis by (simp add: frame_ok_def cell_count_def demo_layout demo_frame_def)
qed

lemma demo_pointer: "\<not> pointer_pixel demo_be demo_shown demo_frame p"
  by (simp add: pointer_pixel_def demo_frame_def)

lemma frames_are_complete_witness:
  "drawn_surface demo_be demo_shown demo_frame (72, 105) =
   Some (request_at demo_be (sc_txt demo_shown) 0 (frame_wanted demo_be demo_shown demo_frame 0))"
  by (rule frames_are_complete [OF demo_reach demo_frame_ok demo_cell(2,1) demo_pointer])

lemma damage_covers_changes_witness:
  "covered (bb_rects (txt_data (bbulk_compute_damage (pointer_txt demo_be demo_shown demo_frame)))) (72, 105)"
proof (rule damage_covers_changes [OF demo_reach demo_frame_ok demo_cell(2,1)])
  show "drawn_surface demo_be demo_shown demo_frame (72, 105) \<noteq> sc_front demo_shown (72, 105)"
    using frame_complete [OF shown_reach_inv [OF demo_reach] demo_frame_ok demo_cell(2,1) demo_pointer] by (simp add: demo_shown_def)
qed

lemma chrome_stays_beside_card_witness:
  "fst (bbulk_draw_status demo_be (sc_txt demo_shown) ''Online'') = ok"
proof -
  have "sound_txt demo_be (sc_txt demo_shown)" using shown_reach_inv [OF demo_reach] by (simp add: shown_inv_def)
  then show ?thesis using chrome_stays_beside_card [of "sc_txt demo_shown" demo_be "''Online''"] by (auto simp: sound_txt_def)
qed

section \<open>Where the renderer goes wrong\<close>

text \<open>
  On an upside-down screen the pointer is painted two columns and five rows away from the cells that
  are marked for it: its eight by sixteen pixels lie outside of all of them, so it leaves a trail.
\<close>

definition turned_txt :: bb_text where
  "turned_txt = snd (bbulk_set (demo_be\<lparr>be_width := 320, be_height := 480\<rparr>) (demo_new\<lparr>txt_orientation := OR_UPSIDE_DOWN\<rparr>))"

lemma turned_layout:
  "txt_cols turned_txt = 22" "txt_rows turned_txt = 13" "FONT_WIDTH turned_txt = 8" "FONT_HEIGHT turned_txt = 16"
  "bb_max_x (txt_data turned_txt) = 264" "bb_max_y (txt_data turned_txt) = 377" "txt_orientation turned_txt = OR_UPSIDE_DOWN"
  by (simp_all add: turned_txt_def set_defs)

lemma turned_pointer_leaves_trail:
  "set_pointer_coordinate turned_txt 100 100 = (160, 269) \<and>
   map (\<lambda>off. set_coordinate turned_txt (of_nat (off mod 22) + PAD_COLS) (of_nat (off div 22) + TOP_ROWS)) (marked turned_txt 100 100) =
     [(144, 201), (136, 201), (144, 185), (136, 185)]"
  by (simp add: set_pointer_coordinate_def set_coordinate_def marked_def pointed_def half_up_def clamp_word_def turned_layout Let_def)

definition quiet_frame :: "bbulk_env \<Rightarrow> shown \<Rightarrow> frame \<Rightarrow> bool" where
  "quiet_frame e s f \<longleftrightarrow> \<not> sc_redraw s \<and> \<not> sc_blob s \<and> bb_redraw (txt_data (sc_txt s)) = 0 \<and>
     bb_attr (txt_data (sc_txt s)) = fr_attr f \<and> fr_pointer f = None"

lemma frame_wanted_layout: "layout (sc_txt s') = layout (sc_txt s) \<Longrightarrow> frame_wanted e s' f = frame_wanted e s f"
  by (simp add: frame_wanted_def wanted_at_def fun_eq_iff layout_simps(2) [of "sc_txt s'" "sc_txt s"]) (simp add: fresh_txt_def)

lemma quiet_frame_step:
  assumes s: "sound_txt e (sc_txt s)" and w: "\<forall>off<cell_count (sc_txt s). cell_ch (frame_wanted e s f off) \<noteq> ID_DAMAGED"
    and q: "quiet_frame e s f" and off: "off < cell_count (sc_txt s)" and p: "in_cell (sc_txt s) off p"
  shows "drawn_surface e s f p =
      (if cell_at (sc_txt s) off \<noteq> frame_wanted e s f off \<or> damaged_at (sc_txt s) off
       then Some (request_at e (sc_txt s) off (frame_wanted e s f off)) else sc_back s p)"
    "cell_at (drawn_txt e s f) off = frame_wanted e s f off"
    "damaged_at (drawn_txt e s f) off \<longleftrightarrow> cell_at (sc_txt s) off \<noteq> frame_wanted e s f off"
    "layout (drawn_txt e s f) = layout (sc_txt s)" "sound_txt e (drawn_txt e s f)"
    "bb_redraw (txt_data (drawn_txt e s f)) = 0" "bb_attr (txt_data (drawn_txt e s f)) = fr_attr f"
proof -
  have full: "\<not> frame_full e s f"
    using q by (simp add: frame_full_def full_redraw_def quiet_frame_def) (simp add: fresh_txt_def)
  have inc: "in_cells (fresh_txt s f) off"
    using in_grid_in_cells [OF sound_arrays [OF s]] off by (simp add: cell_count_def)
  have m: "off \<notin> set (frame_marks s f)" and np: "\<not> pointer_pixel e s f p"
    using q by (simp_all add: frame_marks_def pointer_pixel_def quiet_frame_def)
  have "if frame_full e s f then stale (prepared_txt e s f) off
      else if be_has_damage (frame_env e s) \<and> damaged_at (fresh_txt s f) off then stale (prepared_txt e s f) off
      else cell_at (prepared_txt e s f) off = cell_at (fresh_txt s f) off \<and> damaged_at (prepared_txt e s f) off = damaged_at (fresh_txt s f) off"
    using prepared_step(1) [OF s, of f, unfolded prepared_def] inc by blast
  then have at: "cell_at (prepared_txt e s f) off = cell_at (sc_txt s) off" "damaged_at (prepared_txt e s f) off = damaged_at (sc_txt s) off"
    using full q by (simp_all add: quiet_frame_def)
  show "drawn_surface e s f p =
      (if cell_at (sc_txt s) off \<noteq> frame_wanted e s f off \<or> damaged_at (sc_txt s) off
       then Some (request_at e (sc_txt s) off (frame_wanted e s f off)) else sc_back s p)"
    using frame_pixel [OF s w off p np] full by (simp add: at)
  show "cell_at (drawn_txt e s f) off = frame_wanted e s f off"
    "damaged_at (drawn_txt e s f) off \<longleftrightarrow> cell_at (sc_txt s) off \<noteq> frame_wanted e s f off"
    using pointer_cells(3) [OF s w off m] by (simp_all add: render_facts at)
  show "layout (drawn_txt e s f) = layout (sc_txt s)" using wipe_to_fresh(2) [OF s w] by (simp add: render_facts)
  show "sound_txt e (drawn_txt e s f)" by (rule render_facts(5) [OF pointer_cells(1) [OF s w]])
  have d: "bb_redraw (txt_data (drawn_txt e s f)) = bb_redraw (txt_data (pointer_txt e s f))"
    "bb_attr (txt_data (drawn_txt e s f)) = bb_attr (txt_data (pointer_txt e s f))"
    by (simp_all add: drawn_txt_def bbulk_render_def bbulk_compute_damage_def Let_def emit_disp_def)
  have r: "bb_redraw (txt_data (prepared_txt e s f)) = 0" "bb_attr (txt_data (prepared_txt e s f)) = fr_attr f"
    using q by (simp_all add: prepared_txt_def bbulk_prepare_def Let_def quiet_frame_def carry_over_def fresh_txt_def)
  show "bb_redraw (txt_data (drawn_txt e s f)) = 0" "bb_attr (txt_data (drawn_txt e s f)) = fr_attr f"
    using wipe_projections(17,18) [OF wipe_to_fresh(1) [OF s w]] r d by simp_all
qed

text \<open>
  The damage of a refused frame is lost on a display without damage clips: when a changed cell is
  drawn, the display refuses the frame, and the same content is drawn again and taken, then the
  renderer believes that the cell is up to date in both buffers, but the one drawn next still has the
  old cell, and no later frame repairs it until the cell changes.
\<close>

theorem refused_frame_leaves_old_cell:
  assumes r: "shown_reach e s" and q: "quiet_frame e s f" and nd: "\<not> be_supports_damage e"
    and w: "\<forall>off<cell_count (sc_txt s). cell_ch (frame_wanted e s f off) \<noteq> ID_DAMAGED"
    and off: "off < cell_count (sc_txt s)" and p: "in_cell (sc_txt s) off p"
    and c: "cell_at (sc_txt s) off \<noteq> frame_wanted e s f off" "\<not> stale (sc_txt s) off"
  shows "let s1 = next_shown e s (f\<lparr>fr_taken := False\<rparr>); s2 = next_shown e s1 (f\<lparr>fr_taken := True\<rparr>)
    in frame_wanted e s2 f off = frame_wanted e s f off \<and>
       drawn_surface e s2 f p = Some (request_at e (sc_txt s) off (cell_at (sc_txt s) off))"
proof -
  define f1 where "f1 = f\<lparr>fr_taken := False\<rparr>"
  define f2 where "f2 = f\<lparr>fr_taken := True\<rparr>"
  define s1 where "s1 = next_shown e s f1"
  define s2 where "s2 = next_shown e s1 f2"
  have i: "shown_inv e s" by (rule shown_reach_inv [OF r])
  have so: "sound_txt e (sc_txt s)" using i by (simp add: shown_inv_def)
  have f: "fr_attr f1 = fr_attr f" "fr_attr f2 = fr_attr f" "frame_wanted e s' f1 = frame_wanted e s' f"
    "frame_wanted e s' f2 = frame_wanted e s' f" "quiet_frame e s' f1 = quiet_frame e s' f" "quiet_frame e s' f2 = quiet_frame e s' f" for s'
    by (simp_all add: f1_def f2_def frame_wanted_def quiet_frame_def fresh_txt_def)
  note q1 = quiet_frame_step [OF so, of f1, unfolded f, OF w q off p]
  have n1: "sc_txt s1 = drawn_txt e s f1" "sc_front s1 = sc_front s" "sc_back s1 = drawn_surface e s f1" "\<not> sc_redraw s1" "\<not> sc_blob s1"
    using q nd by (simp_all add: s1_def next_shown_def f1_def quiet_frame_def damage_set_def)
  have l1: "layout (sc_txt s1) = layout (sc_txt s)" by (simp add: n1 q1(4))
  have k1: "cell_count (sc_txt s1) = cell_count (sc_txt s)" by (simp add: cell_count_def layout_simps [OF l1])
  have w1: "frame_wanted e s1 f = frame_wanted e s f" by (rule frame_wanted_layout [OF l1])
  have quiet1: "quiet_frame e s1 f" using q n1 q1(6,7) by (simp add: quiet_frame_def)
  have so1: "sound_txt e (sc_txt s1)" using q1(5) by (simp add: n1)
  have p1: "in_cell (sc_txt s1) off p" using p in_page_layout(2) [OF l1] by simp
  note q2 = quiet_frame_step [OF so1, of f2, unfolded f w1 k1, OF w quiet1 off p1]
  have n2: "sc_txt s2 = drawn_txt e s1 f2" "sc_back s2 = sc_front s" "\<not> sc_redraw s2" "\<not> sc_blob s2"
    using n1 by (simp_all add: s2_def next_shown_def f2_def)
  have l2: "layout (sc_txt s2) = layout (sc_txt s)" by (simp add: n2 q2(4) l1)
  have k2: "cell_count (sc_txt s2) = cell_count (sc_txt s)" by (simp add: cell_count_def layout_simps [OF l2])
  have w2: "frame_wanted e s2 f = frame_wanted e s f" by (rule frame_wanted_layout [OF l2])
  have quiet2: "quiet_frame e s2 f" using q n2 q2(6,7) by (simp add: quiet_frame_def)
  have so2: "sound_txt e (sc_txt s2)" using q2(5) by (simp add: n2)
  have p2: "in_cell (sc_txt s2) off p" using p in_page_layout(2) [OF l2] by simp
  note q3 = quiet_frame_step [OF so2, of f, unfolded w2 k2, OF w quiet2 off p2]
  have "cell_at (sc_txt s2) off = frame_wanted e s f off" "\<not> damaged_at (sc_txt s2) off"
    using q2(2,3) q1(2) by (simp_all add: n2 n1)
  then have "drawn_surface e s2 f p = sc_front s p" using q3(1) n2 by simp
  moreover have "picture e s" using i q by (simp add: shown_inv_def quiet_frame_def)
  then have "last_drawn s p = Some (request_at e (sc_txt s) off (cell_at (sc_txt s) off))"
    using off p c(2) unfolding picture_def by blast
  then have "sc_front s p = Some (request_at e (sc_txt s) off (cell_at (sc_txt s) off))"
    using q by (simp add: last_drawn_def quiet_frame_def)
  ultimately show ?thesis
    using w2 by (simp add: s2_def s1_def f1_def f2_def)
qed
text \<open>A logo of 96 lines, which \<open>load_logo\<close> accepts, reaches over the card when a cell has 16 lines.\<close>

definition logo_txt :: bb_text where
  "logo_txt = (sc_txt demo_shown)\<lparr>chrome_logo := Some \<lparr>vb_width = 100, vb_height = 96, vb_data = []\<rparr>\<rparr>"

lemma logo_covers_card:
  "let c = last (bb_calls (txt_data (snd (paint_logo logo_txt logo_txt)))) in \<not> beside_card logo_txt c"
  proof -
  have f: "FONT_WIDTH logo_txt = 8" "FONT_HEIGHT logo_txt = 16" "bb_off_x (txt_data logo_txt) = 56" "bb_off_y (txt_data logo_txt) = 25"
    "txt_cols logo_txt = 1" "txt_rows logo_txt = 1" "txt_orientation logo_txt = OR_NORMAL"
    using demo_layout by (simp_all add: logo_txt_def FONT_WIDTH_def FONT_HEIGHT_def)
  have "chrome_logo logo_txt = Some \<lparr>vb_width = 100, vb_height = 96, vb_data = []\<rparr>" by (simp add: logo_txt_def)
  then show ?thesis by (simp add: paint_logo_def emit_disp_def Let_def f card_x0_def card_x1_def card_y0_def card_y1_def)
qed

text \<open>A screen of 18 columns or less keeps all of them, and the card with its sides is wider than the screen.\<close>

lemma narrow_screen_wraps:
  "bb_off_x (txt_data (snd (bbulk_set (demo_be\<lparr>be_width := 144\<rparr>) demo_new))) = 2147483632"
  by (simp add: set_defs)

end
