(* ===== verification/Bbulk_Glyphs.thy ===== *)
theory Bbulk_Glyphs
  imports Bbulk
begin

text \<open>
  Turned glyphs: \<open>bbulk_rotate_glyph\<close> moves every pixel to a place of its own, so that turning a
  glyph back gives the glyph.
\<close>

lemma fold_update_length: "length (fold (\<lambda>x d. d[f x := g x]) xs dst) = length dst"
  by (induction xs arbitrary: dst) simp_all

lemma fold_update_other: "k \<notin> f ` set xs \<Longrightarrow> fold (\<lambda>x d. d[f x := g x]) xs dst ! k = dst ! k"
  by (induction xs arbitrary: dst) auto

lemma fold_update_nth:
  assumes "inj_on f (set xs)" "distinct xs" "x \<in> set xs" "f x < length dst"
  shows "fold (\<lambda>x d. d[f x := g x]) xs dst ! f x = g x"
  using assms
proof (induction xs arbitrary: dst)
  case (Cons y ys)
  show ?case
  proof (cases "x = y")
    case True
    then have "f x \<notin> f ` set ys" using Cons.prems(1,2) by auto
    then show ?thesis using True Cons.prems(4) by (simp add: fold_update_other)
  next
    case False
    then show ?thesis using Cons by simp
  qed
qed simp

text \<open>Row and column of an offset are found again.\<close>

lemma place_unique:
  fixes a b c d n :: nat
  assumes "a * n + b = c * n + d" "b < n" "d < n"
  shows "a = c \<and> b = d"
proof -
  have "(b + a * n) div n = (d + c * n) div n" "(b + a * n) mod n = (d + c * n) mod n" using assms(1) by (simp_all add: add.commute)
  then show ?thesis using assms(2,3) by simp
qed

lemma place_less: "(a :: nat) < m \<Longrightarrow> b < n \<Longrightarrow> a * n + b < m * n"
  using mult_le_mono1 [of "a + 1" m n] by simp

lemma rotated_pos_inj: "inj_on (\<lambda>(i, j). rotated_pos r w h i j) ({..<h} \<times> {..<w})"
proof (rule inj_onI, clarify)
  fix i j k l :: nat
  assume "i < h" "j < w" "k < h" "l < w" "rotated_pos r w h i j = rotated_pos r w h k l"
  then show "i = k \<and> j = l"
    using place_unique [of i w j k l] place_unique [of j h "h - i - 1" l "h - k - 1"]
      place_unique [of "h - i - 1" w "w - j - 1" "h - k - 1" "w - l - 1"] place_unique [of "w - j - 1" h i "w - l - 1" k]
    by (cases r) auto
qed

lemma rotated_pos_less: "i < h \<Longrightarrow> j < w \<Longrightarrow> rotated_pos r w h i j < w * h"
  using place_less [of i h j w] place_less [of j w "h - i - 1" h] place_less [of "h - i - 1" h "w - j - 1" w] place_less [of "w - j - 1" w i h]
  by (cases r) (simp_all add: mult.commute)

lemma rotate_data_length [simp]: "length (rotate_data r w h src) = w * h"
  using fold_update_length [of "\<lambda>(i, j). rotated_pos r w h i j" "\<lambda>(i, j). src ! (i * w + j)"]
  by (simp add: rotate_data_def case_prod_unfold)

lemma rotate_data_nth:
  assumes "r \<noteq> OR_NORMAL" "i < h" "j < w"
  shows "rotate_data r w h src ! rotated_pos r w h i j = src ! (i * w + j)"
proof -
  have "set (List.product [0..<h] [0..<w]) = {..<h} \<times> {..<w}" by auto
  then have "fold (\<lambda>x d. d[(\<lambda>(i, j). rotated_pos r w h i j) x := (\<lambda>(i, j). src ! (i * w + j)) x]) (List.product [0..<h] [0..<w]) (replicate (w * h) 0) !
      (\<lambda>(i, j). rotated_pos r w h i j) (i, j) = (\<lambda>(i, j). src ! (i * w + j)) (i, j)"
    using rotated_pos_inj rotated_pos_less assms by (intro fold_update_nth) (auto simp: distinct_product)
  then show ?thesis using assms(1) by (simp add: rotate_data_def case_prod_unfold)
qed

text \<open>The orientation that turns back.\<close>

fun turn_back :: "orientation \<Rightarrow> orientation" where
  "turn_back OR_NORMAL = OR_NORMAL"
| "turn_back OR_RIGHT = OR_LEFT"
| "turn_back OR_UPSIDE_DOWN = OR_UPSIDE_DOWN"
| "turn_back OR_LEFT = OR_RIGHT"

text \<open>
  Property C33. A glyph survives being turned: \<open>bbulk_rotate_glyph\<close> to the right and then to the left,
  to the left and then to the right, or upside down twice gives the glyph back, pixel for pixel, with
  its size and its width in cells; no pixel is lost and none is written outside of the copy.
\<close>

theorem rotation_is_undone:
  assumes r: "r \<noteq> OR_NORMAL" and len: "length (vb_data (gl_buf g)) = unat (vb_width (gl_buf g)) * unat (vb_height (gl_buf g))"
  shows "Option.bind (bbulk_rotate_glyph True g r) (\<lambda>g'. bbulk_rotate_glyph True g' (turn_back r)) = Some g"
proof -
  define w where "w = unat (vb_width (gl_buf g))"
  define h where "h = unat (vb_height (gl_buf g))"
  define src where "src = vb_data (gl_buf g)"
  have l: "length src = w * h" using len by (simp add: src_def w_def h_def)
  have undone: "rotate_data (turn_back r) (if upright r then w else h) (if upright r then h else w) (rotate_data r w h src) = src"
  proof (rule nth_equalityI)
    show "length (rotate_data (turn_back r) (if upright r then w else h) (if upright r then h else w) (rotate_data r w h src)) = length src"
      by (simp add: l mult.commute)
    fix k assume "k < length (rotate_data (turn_back r) (if upright r then w else h) (if upright r then h else w) (rotate_data r w h src))"
    then have k: "k < w * h" by (simp add: mult.commute split: if_splits)
    define i where "i = k div w"
    define j where "j = k mod w"
    have "0 < w" using k by (cases w) simp_all
    then have ij: "i < h" "j < w" "i * w + j = k"
      using k by (simp_all add: i_def j_def less_mult_imp_div_less mult.commute)
    note first = rotate_data_nth [OF r ij(1,2), of src, unfolded ij(3)]
    have tb: "turn_back r \<noteq> OR_NORMAL" using r by (cases r) simp_all
    show "rotate_data (turn_back r) (if upright r then w else h) (if upright r then h else w) (rotate_data r w h src) ! k = src ! k"
    proof (cases r)
      case OR_RIGHT
      have "rotate_data OR_LEFT h w (rotate_data OR_RIGHT w h src) ! rotated_pos OR_LEFT h w j (h - i - 1) = rotate_data OR_RIGHT w h src ! (j * h + (h - i - 1))"
        by (rule rotate_data_nth) (use ij in simp_all)
      then show ?thesis using first ij OR_RIGHT by simp
    next
      case OR_UPSIDE_DOWN
      have "rotate_data OR_UPSIDE_DOWN w h (rotate_data OR_UPSIDE_DOWN w h src) ! rotated_pos OR_UPSIDE_DOWN w h (h - i - 1) (w - j - 1) =
          rotate_data OR_UPSIDE_DOWN w h src ! ((h - i - 1) * w + (w - j - 1))"
        by (rule rotate_data_nth) (use ij in simp_all)
      then show ?thesis using first ij OR_UPSIDE_DOWN by simp
    next
      case OR_LEFT
      have "rotate_data OR_RIGHT h w (rotate_data OR_LEFT w h src) ! rotated_pos OR_RIGHT h w (w - j - 1) i = rotate_data OR_LEFT w h src ! ((w - j - 1) * h + i)"
        by (rule rotate_data_nth) (use ij in simp_all)
      then show ?thesis using first ij OR_LEFT by simp
    qed (use r in simp)
  qed
  then show ?thesis
    using r by (cases r) (simp_all add: bbulk_rotate_glyph_def Let_def w_def h_def src_def)
qed

lemma rotation_is_undone_witness:
  "Option.bind (bbulk_rotate_glyph True \<lparr>gl_double = False, gl_buf = \<lparr>vb_width = 3, vb_height = 2, vb_data = [1, 2, 3, 4, 5, 6]\<rparr>\<rparr> OR_RIGHT)
     (\<lambda>g'. bbulk_rotate_glyph True g' OR_LEFT) =
   Some \<lparr>gl_double = False, gl_buf = \<lparr>vb_width = 3, vb_height = 2, vb_data = [1, 2, 3, 4, 5, 6]\<rparr>\<rparr>"
  using rotation_is_undone [of OR_RIGHT "\<lparr>gl_double = False, gl_buf = \<lparr>vb_width = 3, vb_height = 2, vb_data = [1, 2, 3, 4, 5, 6]\<rparr>\<rparr>"] by simp

end
