(* ===== verification/Hook.thy ===== *)
theory Hook
  imports Prelude
begin

text \<open>
  The callback lists of \<open>src/shl/hook.h\<close>, on which the event loop keeps its idle, signal,
  child, pre and post callbacks.

  A hook is a doubly linked list of entries and a cursor: while the hook is being called,
  \<open>cur_entry\<close> points at the entry to run next, so that callbacks may add and remove entries, or
  free the hook. The list is the list of its entries; the address of an entry is a number that is
  never used again, and the cursor is \<open>No_entry\<close> for a null pointer, \<open>Head\<close> for the
  list head and \<open>At i\<close> for the entry at address \<open>i\<close>.

  Hooks live in a store that other components extend with their own objects. \<open>h_answers\<close> are the
  answers of the allocator and of the kernel, one for each request, successful when the list is
  used up; \<open>h_crash\<close> is set when the code reads an object that is gone, and \<open>h_stuck\<close> when the fuel
  of a loop ran out.
\<close>

section \<open>Data\<close>

datatype answer = Yes | Fault errno | Short nat

datatype cursor = No_entry | Head | At nat

record 'c shl_hook_entry =
  he_addr :: nat
  he_cb :: 'c
  he_data :: nat
  he_oneshot :: bool

record 'c shl_hook =
  hk_num :: nat
  hk_entries :: "'c shl_hook_entry list"
  hk_cur :: cursor
  hk_dead :: bool

record 'c hstore =
  h_hooks :: "nat \<rightharpoonup> 'c shl_hook"
  h_next :: nat
  h_answers :: "answer list"
  h_crash :: bool
  h_stuck :: bool

definition crash :: "('c, 'z) hstore_scheme \<Rightarrow> ('c, 'z) hstore_scheme" where
  "crash w = w\<lparr>h_crash := True\<rparr>"

definition ask :: "('c, 'z) hstore_scheme \<Rightarrow> answer \<times> ('c, 'z) hstore_scheme" where
  "ask w = (case h_answers w of [] \<Rightarrow> (Yes, w) | a # as \<Rightarrow> (a, w\<lparr>h_answers := as\<rparr>))"

text \<open>An allocation takes the next address, or fails.\<close>

definition alloc :: "('c, 'z) hstore_scheme \<Rightarrow> nat option \<times> ('c, 'z) hstore_scheme" where
  "alloc w =
     (case ask w of
        (Yes, w) \<Rightarrow> (Some (h_next w), w\<lparr>h_next := Suc (h_next w)\<rparr>)
      | (_, w) \<Rightarrow> (None, w))"

definition put_hook ::
  "nat \<Rightarrow> 'c shl_hook option \<Rightarrow> ('c, 'z) hstore_scheme \<Rightarrow> ('c, 'z) hstore_scheme" where
  "put_hook h v w = w\<lparr>h_hooks := (h_hooks w)(h := v)\<rparr>"

section \<open>Operations\<close>

definition shl_hook_new ::
  "('c, 'z) hstore_scheme \<Rightarrow> (errno + nat) \<times> ('c, 'z) hstore_scheme" where
  "shl_hook_new w =
     (case alloc w of
        (None, w) \<Rightarrow> (Inl ENOMEM, w)
      | (Some h, w) \<Rightarrow>
          (Inr h, put_hook h
             (Some \<lparr>hk_num = 0, hk_entries = [], hk_cur = No_entry, hk_dead = False\<rparr>) w))"

text \<open>A hook that is being called is only marked: the running call frees it at its end.\<close>

definition shl_hook_free :: "nat \<Rightarrow> ('c, 'z) hstore_scheme \<Rightarrow> ('c, 'z) hstore_scheme" where
  "shl_hook_free h w =
     (case h_hooks w h of
        None \<Rightarrow> crash w
      | Some hk \<Rightarrow>
          (if hk_cur hk \<noteq> No_entry then put_hook h (Some (hk\<lparr>hk_dead := True\<rparr>)) w
           else put_hook h None w))"

definition shl_hook_num :: "nat \<Rightarrow> ('c, 'z) hstore_scheme \<Rightarrow> nat" where
  "shl_hook_num h w = (case h_hooks w h of None \<Rightarrow> 0 | Some hk \<Rightarrow> hk_num hk)"

definition shl_hook_add ::
  "nat \<Rightarrow> 'c option \<Rightarrow> nat \<Rightarrow> bool \<Rightarrow> ('c, 'z) hstore_scheme \<Rightarrow> status \<times> ('c, 'z) hstore_scheme" where
  "shl_hook_add h cb data oneshot w =
     (case cb of
        None \<Rightarrow> (fails EINVAL, w)
      | Some c \<Rightarrow>
          (case alloc w of
             (None, w) \<Rightarrow> (fails ENOMEM, w)
           | (Some i, w) \<Rightarrow>
               (case h_hooks w h of
                  None \<Rightarrow> (ok, crash w)
                | Some hk \<Rightarrow>
                    (ok, put_hook h
                       (Some (hk\<lparr>hk_entries := hk_entries hk @
                                 [\<lparr>he_addr = i, he_cb = c, he_data = data, he_oneshot = oneshot\<rparr>],
                               hk_num := Suc (hk_num hk)\<rparr>)) w))))"

definition entry_is :: "'c \<Rightarrow> nat \<Rightarrow> 'c shl_hook_entry \<Rightarrow> bool" where
  "entry_is c data e = (he_cb e = c \<and> he_data e = data)"

definition shl_hook_add_single ::
  "nat \<Rightarrow> 'c option \<Rightarrow> nat \<Rightarrow> bool \<Rightarrow> ('c, 'z) hstore_scheme \<Rightarrow> status \<times> ('c, 'z) hstore_scheme" where
  "shl_hook_add_single h cb data oneshot w =
     (case cb of
        None \<Rightarrow> (fails EINVAL, w)
      | Some c \<Rightarrow>
          (case h_hooks w h of
             None \<Rightarrow> (ok, crash w)
           | Some hk \<Rightarrow>
               (if \<exists>e \<in> set (hk_entries hk). entry_is c data e then (ok, w)
                else shl_hook_add h cb data oneshot w)))"

text \<open>The entry that follows an address in the list, or the list head.\<close>

fun entry_after :: "nat \<Rightarrow> 'c shl_hook_entry list \<Rightarrow> cursor" where
  "entry_after i [] = Head"
| "entry_after i (e # es) =
     (if he_addr e = i then (case es of [] \<Rightarrow> Head | e' # _ \<Rightarrow> At (he_addr e'))
      else entry_after i es)"

definition first_entry :: "'c shl_hook_entry list \<Rightarrow> cursor" where
  "first_entry es = (case es of [] \<Rightarrow> Head | e # _ \<Rightarrow> At (he_addr e))"

fun find_entry :: "nat \<Rightarrow> 'c shl_hook_entry list \<Rightarrow> 'c shl_hook_entry option" where
  "find_entry i [] = None"
| "find_entry i (e # es) = (if he_addr e = i then Some e else find_entry i es)"

definition unlink_entry :: "nat \<Rightarrow> 'c shl_hook_entry list \<Rightarrow> 'c shl_hook_entry list" where
  "unlink_entry i es = filter (\<lambda>e. he_addr e \<noteq> i) es"

text \<open>Taking out one entry moves the cursor off it first.\<close>

definition rm_entry :: "'c shl_hook_entry \<Rightarrow> 'c shl_hook \<Rightarrow> 'c shl_hook" where
  "rm_entry e hk =
     hk\<lparr>hk_cur := (if hk_cur hk = At (he_addr e) then entry_after (he_addr e) (hk_entries hk)
                   else hk_cur hk),
        hk_entries := unlink_entry (he_addr e) (hk_entries hk),
        hk_num := hk_num hk - 1\<rparr>"

text \<open>The last entry of the list that matches is the one that goes.\<close>

definition shl_hook_rm ::
  "nat \<Rightarrow> 'c option \<Rightarrow> nat \<Rightarrow> ('c, 'z) hstore_scheme \<Rightarrow> ('c, 'z) hstore_scheme" where
  "shl_hook_rm h cb data w =
     (case cb of
        None \<Rightarrow> w
      | Some c \<Rightarrow>
          (case h_hooks w h of
             None \<Rightarrow> crash w
           | Some hk \<Rightarrow>
               (case filter (entry_is c data) (rev (hk_entries hk)) of
                  [] \<Rightarrow> w
                | e # _ \<Rightarrow> put_hook h (Some (rm_entry e hk)) w)))"

definition shl_hook_rm_all ::
  "nat \<Rightarrow> 'c option \<Rightarrow> nat \<Rightarrow> ('c, 'z) hstore_scheme \<Rightarrow> ('c, 'z) hstore_scheme" where
  "shl_hook_rm_all h cb data w =
     (case cb of
        None \<Rightarrow> w
      | Some c \<Rightarrow>
          (case h_hooks w h of
             None \<Rightarrow> crash w
           | Some hk \<Rightarrow>
               put_hook h
                 (Some (fold rm_entry (filter (entry_is c data) (rev (hk_entries hk))) hk)) w))"

section \<open>Calling a hook\<close>

text \<open>
  The loop of \<open>shl_hook_call\<close>: the cursor moves past the entry, a one-shot entry leaves the
  list, the callback runs, and the one-shot entry is freed and uncounted. When the fuel does not
  suffice, the loop stops where it is and \<open>h_stuck\<close> is set.
\<close>

definition after_oneshot ::
  "nat \<Rightarrow> bool \<Rightarrow> ('c, 'z) hstore_scheme \<Rightarrow> ('c, 'z) hstore_scheme" where
  "after_oneshot h oneshot w =
     (if oneshot then
        (case h_hooks w h of
           None \<Rightarrow> crash w
         | Some hk \<Rightarrow> put_hook h (Some (hk\<lparr>hk_num := hk_num hk - 1\<rparr>)) w)
      else w)"

definition pass_entry :: "'c shl_hook_entry \<Rightarrow> 'c shl_hook \<Rightarrow> 'c shl_hook" where
  "pass_entry e hk =
     hk\<lparr>hk_cur := entry_after (he_addr e) (hk_entries hk),
        hk_entries := (if he_oneshot e then unlink_entry (he_addr e) (hk_entries hk)
                       else hk_entries hk)\<rparr>"

definition hook_step ::
  "('c shl_hook_entry \<Rightarrow> ('c, 'z) hstore_scheme \<Rightarrow> ('c, 'z) hstore_scheme) \<Rightarrow>
   nat \<Rightarrow> 'c shl_hook \<Rightarrow> 'c shl_hook_entry \<Rightarrow> ('c, 'z) hstore_scheme \<Rightarrow> ('c, 'z) hstore_scheme" where
  "hook_step run h hk e w =
     after_oneshot h (he_oneshot e) (run e (put_hook h (Some (pass_entry e hk)) w))"

definition end_call :: "nat \<Rightarrow> 'c shl_hook \<Rightarrow> ('c, 'z) hstore_scheme \<Rightarrow> ('c, 'z) hstore_scheme" where
  "end_call h hk w =
     (let w = put_hook h (Some (hk\<lparr>hk_cur := No_entry\<rparr>)) w
      in if hk_dead hk then shl_hook_free h w else w)"

primrec hook_loop ::
  "('c shl_hook_entry \<Rightarrow> ('c, 'z) hstore_scheme \<Rightarrow> ('c, 'z) hstore_scheme) \<Rightarrow>
   nat \<Rightarrow> nat \<Rightarrow> ('c, 'z) hstore_scheme \<Rightarrow> ('c, 'z) hstore_scheme" where
  "hook_loop run h 0 w = w\<lparr>h_stuck := True\<rparr>"
| "hook_loop run h (Suc n) w =
     (case h_hooks w h of
        None \<Rightarrow> crash w
      | Some hk \<Rightarrow>
          (case hk_cur hk of
             At i \<Rightarrow>
               (case find_entry i (hk_entries hk) of
                  None \<Rightarrow> crash w
                | Some e \<Rightarrow> hook_loop run h n (hook_step run h hk e w))
           | _ \<Rightarrow> end_call h hk w))"

definition shl_hook_call ::
  "('c shl_hook_entry \<Rightarrow> ('c, 'z) hstore_scheme \<Rightarrow> ('c, 'z) hstore_scheme) \<Rightarrow>
   nat \<Rightarrow> nat \<Rightarrow> ('c, 'z) hstore_scheme \<Rightarrow> ('c, 'z) hstore_scheme" where
  "shl_hook_call run n h w =
     (case h_hooks w h of
        None \<Rightarrow> crash w
      | Some hk \<Rightarrow>
          (if hk_cur hk \<noteq> No_entry then w
           else hook_loop run h n
                  (put_hook h (Some (hk\<lparr>hk_cur := first_entry (hk_entries hk)\<rparr>)) w)))"

section \<open>What holds of a hook at all times\<close>

definition addrs :: "'c shl_hook_entry list \<Rightarrow> nat list" where
  "addrs es = map he_addr es"

text \<open>
  The addresses are distinct and were handed out by the allocator, the count covers the entries
  in the list, and a cursor on an entry is on one that is still in the list.
\<close>

definition hook_ok :: "nat \<Rightarrow> 'c shl_hook \<Rightarrow> bool" where
  "hook_ok nxt hk =
     (distinct (addrs (hk_entries hk)) \<and> (\<forall>i \<in> set (addrs (hk_entries hk)). i < nxt) \<and>
      length (hk_entries hk) \<le> hk_num hk \<and>
      (\<forall>i. hk_cur hk = At i \<longrightarrow> i \<in> set (addrs (hk_entries hk))))"

lemma find_entry_Some:
  "i \<in> set (addrs es) \<Longrightarrow> \<exists>e. find_entry i es = Some e \<and> e \<in> set es \<and> he_addr e = i"
  by (induction es) (auto simp: addrs_def)

lemma find_entry_addr: "find_entry i es = Some e \<Longrightarrow> he_addr e = i \<and> e \<in> set es"
  by (induction es) (auto split: if_splits)

lemma addrs_unlink: "addrs (unlink_entry i es) = filter (\<lambda>j. j \<noteq> i) (addrs es)"
  by (induction es) (auto simp: addrs_def unlink_entry_def)

lemma entry_after_in: "entry_after i es = At j \<Longrightarrow> j \<in> set (addrs es)"
  by (induction es) (auto simp: addrs_def split: if_splits list.splits)

lemma entry_after_neq:
  "distinct (addrs es) \<Longrightarrow> entry_after i es = At j \<Longrightarrow> j \<noteq> i"
  by (induction es) (auto simp: addrs_def split: if_splits list.splits dest: entry_after_in)

lemma entry_after_not_None [simp]: "entry_after i es \<noteq> No_entry"
  by (induction es) (auto split: list.splits)

lemma first_entry_not_None [simp]: "first_entry es \<noteq> No_entry"
  by (auto simp: first_entry_def split: list.splits)

lemma first_entry_in: "first_entry es = At j \<Longrightarrow> j \<in> set (addrs es)"
  by (auto simp: first_entry_def addrs_def split: list.splits)

lemma length_unlink:
  assumes "distinct (addrs es)" and "i \<in> set (addrs es)"
  shows "length es = Suc (length (unlink_entry i es))"
  using assms
proof (induction es)
  case Nil
  then show ?case by (simp add: addrs_def)
next
  case (Cons e es)
  show ?case
  proof (cases "he_addr e = i")
    case True
    then have "\<forall>x \<in> set es. he_addr x \<noteq> i"
      using Cons.prems(1) by (simp add: addrs_def) (metis image_eqI)
    then show ?thesis using True by (simp add: unlink_entry_def)
  next
    case False
    then show ?thesis using Cons by (simp add: addrs_def unlink_entry_def)
  qed
qed

lemma hook_ok_mono: "hook_ok n hk \<Longrightarrow> n \<le> m \<Longrightarrow> hook_ok m hk"
  by (auto simp: hook_ok_def)

lemma hook_ok_rm:
  assumes "hook_ok n hk" and "e \<in> set (hk_entries hk)"
  shows "hook_ok n (rm_entry e hk)"
    and "hk_num (rm_entry e hk) - length (hk_entries (rm_entry e hk)) =
         hk_num hk - length (hk_entries hk)"
proof -
  let ?es = "hk_entries hk" and ?i = "he_addr e"
  have i: "?i \<in> set (addrs ?es)" using assms(2) by (simp add: addrs_def)
  have d: "distinct (addrs ?es)" and le: "length ?es \<le> hk_num hk"
    and cur: "\<And>i. hk_cur hk = At i \<Longrightarrow> i \<in> set (addrs ?es)"
    and lt: "\<forall>i \<in> set (addrs ?es). i < n"
    using assms(1) by (auto simp: hook_ok_def)
  have len: "length ?es = Suc (length (unlink_entry ?i ?es))" by (rule length_unlink [OF d i])
  have "entry_after ?i ?es = At j \<Longrightarrow> j \<in> set (addrs ?es) \<and> j \<noteq> ?i" for j
    using entry_after_in entry_after_neq [OF d] by blast
  then show "hook_ok n (rm_entry e hk)"
    using d lt le len cur by (auto simp: hook_ok_def rm_entry_def addrs_unlink)
  show "hk_num (rm_entry e hk) - length (hk_entries (rm_entry e hk)) = hk_num hk - length ?es"
    using len le by (simp add: rm_entry_def)
qed

lemma rm_entry_cur [simp]: "(hk_cur (rm_entry e hk) = No_entry) = (hk_cur hk = No_entry)"
  by (simp add: rm_entry_def)

lemma rm_entry_dead [simp]: "hk_dead (rm_entry e hk) = hk_dead hk"
  by (simp add: rm_entry_def)

lemma hook_ok_pass:
  assumes "hook_ok n hk" and "find_entry i (hk_entries hk) = Some e"
  shows "hook_ok n (pass_entry e hk)"
    and "hk_num (pass_entry e hk) - length (hk_entries (pass_entry e hk)) =
         hk_num hk - length (hk_entries hk) + (if he_oneshot e then 1 else 0)"
proof -
  let ?es = "hk_entries hk" and ?i = "he_addr e"
  have i: "?i \<in> set (addrs ?es)" using find_entry_addr [OF assms(2)] by (auto simp: addrs_def)
  have d: "distinct (addrs ?es)" and le: "length ?es \<le> hk_num hk"
    and lt: "\<forall>i \<in> set (addrs ?es). i < n"
    using assms(1) by (auto simp: hook_ok_def)
  have len: "length ?es = Suc (length (unlink_entry ?i ?es))" by (rule length_unlink [OF d i])
  have "entry_after ?i ?es = At j \<Longrightarrow> j \<in> set (addrs ?es) \<and> j \<noteq> ?i" for j
    using entry_after_in entry_after_neq [OF d] by blast
  then show "hook_ok n (pass_entry e hk)"
    using d lt le len by (auto simp: hook_ok_def pass_entry_def addrs_unlink)
  show "hk_num (pass_entry e hk) - length (hk_entries (pass_entry e hk)) =
        hk_num hk - length ?es + (if he_oneshot e then 1 else 0)"
    using len le by (auto simp: pass_entry_def)
qed

lemma pass_entry_cur [simp]: "hk_cur (pass_entry e hk) \<noteq> No_entry"
  by (simp add: pass_entry_def)

lemma hook_ok_start:
  "hook_ok n hk \<Longrightarrow> hook_ok n (hk\<lparr>hk_cur := first_entry (hk_entries hk)\<rparr>)"
  by (auto simp: hook_ok_def dest: first_entry_in)

lemma hook_ok_add:
  "hook_ok n hk \<Longrightarrow>
   hook_ok (Suc n) (hk\<lparr>hk_entries := hk_entries hk @
                        [\<lparr>he_addr = n, he_cb = c, he_data = d, he_oneshot = o1\<rparr>],
                      hk_num := Suc (hk_num hk)\<rparr>)"
  by (auto simp: hook_ok_def addrs_def)

section \<open>What a call keeps\<close>

text \<open>
  The rule for reasoning about a call whose callbacks change the hook. \<open>J k w\<close> says that the
  hook is being called in \<open>w\<close> and counts \<open>k\<close> entries that are no longer in its list; the
  callbacks keep it, and so do the changes of the loop itself.
\<close>

lemma hook_loop_rule:
  assumes hook: "\<And>k w. J k w \<Longrightarrow> \<exists>hk. h_hooks w h = Some hk \<and> hook_ok (h_next w) hk \<and>
      hk_cur hk \<noteq> No_entry \<and> hk_num hk - length (hk_entries hk) = k"
    and put: "\<And>k w hk hk'. J k w \<Longrightarrow> h_hooks w h = Some hk \<Longrightarrow> hook_ok (h_next w) hk' \<Longrightarrow>
      hk_cur hk' \<noteq> No_entry \<Longrightarrow> hk_dead hk' = hk_dead hk \<Longrightarrow>
      J (hk_num hk' - length (hk_entries hk')) (put_hook h (Some hk') w)"
    and run: "\<And>k w e. J k w \<Longrightarrow> J k (run e w)"
    and finish: "\<And>k w hk. J k w \<Longrightarrow> h_hooks w h = Some hk \<Longrightarrow> K (end_call h hk w)"
    and stuck: "\<And>k w. J k w \<Longrightarrow> K (w\<lparr>h_stuck := True\<rparr>)"
  shows "J k w \<Longrightarrow> K (hook_loop run h n w)"
proof (induction n arbitrary: k w)
  case 0
  then show ?case by (simp add: stuck)
next
  case (Suc n)
  obtain hk where hk: "h_hooks w h = Some hk" "hook_ok (h_next w) hk"
      "hk_num hk - length (hk_entries hk) = k"
    using hook [OF Suc.prems] by blast
  show ?case
  proof (cases "hk_cur hk")
    case (At i)
    then have "i \<in> set (addrs (hk_entries hk))" using hk(2) by (simp add: hook_ok_def)
    then obtain e where e: "find_entry i (hk_entries hk) = Some e"
      using find_entry_Some by blast
    note pass = hook_ok_pass [OF hk(2) e]
    have "J (k + (if he_oneshot e then 1 else 0)) (put_hook h (Some (pass_entry e hk)) w)"
      using put [OF Suc.prems hk(1) pass(1)] pass(2) hk(3) by (simp add: pass_entry_def)
    from run [OF this, of e]
    have J: "J (k + (if he_oneshot e then 1 else 0))
              (run e (put_hook h (Some (pass_entry e hk)) w))" (is "J ?k ?w1") .
    obtain hk1 where hk1: "h_hooks ?w1 h = Some hk1" "hook_ok (h_next ?w1) hk1"
        "hk_cur hk1 \<noteq> No_entry" "hk_num hk1 - length (hk_entries hk1) = ?k"
      using hook [OF J] by blast
    have "J k (hook_step run h hk e w)"
    proof (cases "he_oneshot e")
      case True
      let ?hk2 = "hk1\<lparr>hk_num := hk_num hk1 - 1\<rparr>"
      have "hook_ok (h_next ?w1) ?hk2" using hk1(2,4) True by (auto simp: hook_ok_def)
      from put [OF J hk1(1) this]
      have "J (hk_num ?hk2 - length (hk_entries ?hk2)) (put_hook h (Some ?hk2) ?w1)"
        using hk1(3) by simp
      moreover have "hk_num ?hk2 - length (hk_entries ?hk2) = k" using hk1(4) True by simp
      ultimately have "J k (put_hook h (Some ?hk2) ?w1)" by (simp only:)
      then show ?thesis using True hk1(1) by (simp add: hook_step_def after_oneshot_def)
    next
      case False
      then show ?thesis using J by (simp add: hook_step_def after_oneshot_def)
    qed
    then show ?thesis using Suc.IH hk(1) At e by simp
  qed (use finish [OF Suc.prems hk(1)] hk(1) in simp_all)
qed

section \<open>A call without changes\<close>

lemma find_entry_mid:
  "distinct (addrs (xs @ e # ys)) \<Longrightarrow> find_entry (he_addr e) (xs @ e # ys) = Some e"
  by (induction xs) (auto simp: addrs_def)

lemma entry_after_mid:
  "distinct (addrs (xs @ e # ys)) \<Longrightarrow> entry_after (he_addr e) (xs @ e # ys) = first_entry ys"
  by (induction xs) (auto simp: addrs_def first_entry_def split: list.splits)

lemma unlink_mid:
  "distinct (addrs (xs @ e # ys)) \<Longrightarrow> unlink_entry (he_addr e) (xs @ e # ys) = xs @ ys"
proof -
  assume d: "distinct (addrs (xs @ e # ys))"
  have "filter (\<lambda>x. he_addr x \<noteq> he_addr e) zs = zs" if "he_addr e \<notin> set (addrs zs)" for zs
    using that by (induction zs) (auto simp: addrs_def)
  from this [of xs] this [of ys] show ?thesis using d by (simp add: unlink_entry_def addrs_def)
qed

lemma put_hook_put [simp]: "put_hook h a (put_hook h b w) = put_hook h a w"
  by (simp add: put_hook_def)

lemma h_hooks_put [simp]: "h_hooks (put_hook h v w) = (h_hooks w)(h := v)"
  by (simp add: put_hook_def)

lemma h_next_put [simp]: "h_next (put_hook h v w) = h_next w"
  by (simp add: put_hook_def)

abbreviation kept :: "'c shl_hook_entry list \<Rightarrow> 'c shl_hook_entry list" where
  "kept es \<equiv> filter (\<lambda>e. \<not> he_oneshot e) es"

lemma hook_loop_quiet:
  assumes commute: "\<And>e v w. run e (put_hook h v w) = put_hook h v (run e w)"
    and quiet: "\<And>e w. h_hooks (run e w) h = h_hooks w h"
  shows "h_hooks w h = Some hk \<Longrightarrow> hk_entries hk = xs @ ys \<Longrightarrow> distinct (addrs (xs @ ys)) \<Longrightarrow>
     hk_cur hk = first_entry ys \<Longrightarrow> \<not> hk_dead hk \<Longrightarrow> hk_num hk = length xs + length ys \<Longrightarrow>
     length ys < n \<Longrightarrow>
     hook_loop run h n w =
       put_hook h (Some \<lparr>hk_num = length xs + length (kept ys), hk_entries = xs @ kept ys,
                         hk_cur = No_entry, hk_dead = False\<rparr>) (fold run ys w)"
proof (induction ys arbitrary: n w hk xs)
  case Nil
  then obtain m where n: "n = Suc m" by (cases n) auto
  show ?case
    using Nil n by (cases hk) (simp add: first_entry_def end_call_def)
next
  case (Cons e ys)
  then obtain m where n: "n = Suc m" by (cases n) auto
  have d: "distinct (addrs (xs @ e # ys))" using Cons.prems(3) .
  have cur: "hk_cur hk = At (he_addr e)" using Cons.prems(4) by (simp add: first_entry_def)
  let ?xs = "if he_oneshot e then xs else xs @ [e]"
  let ?hk = "hk\<lparr>hk_cur := first_entry ys, hk_entries := ?xs @ ys,
               hk_num := length ?xs + length ys\<rparr>"
  have step: "hook_step run h hk e w = put_hook h (Some ?hk) (run e w)"
    using Cons.prems entry_after_mid [OF d] unlink_mid [OF d]
    by (cases hk) (simp add: hook_step_def after_oneshot_def pass_entry_def commute)
  have "distinct (addrs (?xs @ ys))" using d by (auto simp: addrs_def)
  moreover have "length ys < m" using Cons.prems(7) n by simp
  ultimately have "hook_loop run h m (put_hook h (Some ?hk) (run e w)) =
      put_hook h (Some \<lparr>hk_num = length ?xs + length (kept ys), hk_entries = ?xs @ kept ys,
                         hk_cur = No_entry, hk_dead = False\<rparr>)
        (fold run ys (put_hook h (Some ?hk) (run e w)))"
    using Cons.prems(5) by (intro Cons.IH [where hk = ?hk]) simp_all
  moreover have "fold run zs (put_hook h v u) = put_hook h v (fold run zs u)" for zs v u
    by (induction zs arbitrary: u) (simp_all add: commute)
  ultimately show ?case
    using Cons.prems(1,2) n cur find_entry_mid [OF d] step by simp
qed

text \<open>
  Property C36. When no callback reads or changes the hook that is called, a call that has more fuel
  than the hook has entries runs every entry of it once, in the order they were registered; after it
  the one-shot entries are gone, the others are in their place, the count is the length of the list
  and the hook is at rest. What callbacks that do change the hook can bring about is
  \<open>two_rearming_callbacks_never_return\<close>.
\<close>

theorem hook_call_runs_each_entry:
  fixes run :: "'c shl_hook_entry \<Rightarrow> ('c, 'z) hstore_scheme \<Rightarrow> ('c, 'z) hstore_scheme"
  assumes "\<And>e v w. run e (put_hook h v w) = put_hook h v (run e w)"
    and "\<And>e w. h_hooks (run e w) h = h_hooks w h"
    and "h_hooks w h = Some hk" and "hook_ok (h_next w) hk" and "hk_cur hk = No_entry"
    and "\<not> hk_dead hk" and "hk_num hk = length (hk_entries hk)"
    and "length (hk_entries hk) < n"
  shows "shl_hook_call run n h w =
     put_hook h (Some \<lparr>hk_num = length (kept (hk_entries hk)), hk_entries = kept (hk_entries hk),
                       hk_cur = No_entry, hk_dead = False\<rparr>) (fold run (hk_entries hk) w)"
proof -
  let ?hk = "hk\<lparr>hk_cur := first_entry (hk_entries hk)\<rparr>"
  have "fold run zs (put_hook h v u) = put_hook h v (fold run zs u)" for zs v u
    by (induction zs arbitrary: u) (simp_all add: assms(1))
  moreover have "hook_loop run h n (put_hook h (Some ?hk) w) =
      put_hook h (Some \<lparr>hk_num = length ([] :: 'c shl_hook_entry list) +
            length (kept (hk_entries hk)),
          hk_entries = [] @ kept (hk_entries hk), hk_cur = No_entry, hk_dead = False\<rparr>)
        (fold run (hk_entries hk) (put_hook h (Some ?hk) w))"
    by (rule hook_loop_quiet [where hk = ?hk]) (use assms in \<open>simp_all add: hook_ok_def\<close>)
  ultimately show ?thesis
    using assms(3,5) by (simp add: shl_hook_call_def)
qed

theorem hook_call_runs_each_entry_witness:
  "shl_hook_call (\<lambda>e w. w\<lparr>h_answers := h_answers w @ [Short (he_data e)]\<rparr>) 3 0
     \<lparr>h_hooks = [0 \<mapsto> \<lparr>hk_num = 2, hk_entries =
        [\<lparr>he_addr = 1, he_cb = ''a'', he_data = 5, he_oneshot = True\<rparr>,
         \<lparr>he_addr = 2, he_cb = ''b'', he_data = 6, he_oneshot = False\<rparr>],
        hk_cur = No_entry, hk_dead = False\<rparr>],
      h_next = 3, h_answers = [], h_crash = False, h_stuck = False\<rparr> =
   \<lparr>h_hooks = [0 \<mapsto> \<lparr>hk_num = 1, hk_entries =
        [\<lparr>he_addr = 2, he_cb = ''b'', he_data = 6, he_oneshot = False\<rparr>],
        hk_cur = No_entry, hk_dead = False\<rparr>],
      h_next = 3, h_answers = [Short 5, Short 6], h_crash = False, h_stuck = False\<rparr>"
  by (subst hook_call_runs_each_entry) (auto simp: put_hook_def hook_ok_def addrs_def)

section \<open>One-shot callbacks that register themselves again\<close>

text \<open>
  A callback that asks to be called once more, the way an idle source schedules its next step.
  An entry that is added while another one runs goes to the end of the list, and the running call
  still reaches it unless the entry that runs was the last one.
\<close>

definition rearm ::
  "nat \<Rightarrow> 'c shl_hook_entry \<Rightarrow> ('c, 'z) hstore_scheme \<Rightarrow> ('c, 'z) hstore_scheme" where
  "rearm h e w = snd (shl_hook_add h (Some (he_cb e)) (he_data e) True w)"

lemma h_answers_put [simp]: "h_answers (put_hook h v w) = h_answers w"
  by (simp add: put_hook_def)

lemma put_hook_next: "put_hook h v (w\<lparr>h_next := n\<rparr>) = (put_hook h v w)\<lparr>h_next := n\<rparr>"
  by (simp add: put_hook_def)

lemma shl_hook_add_eq:
  assumes "h_answers w = []" and "h_hooks w h = Some hk"
  shows "shl_hook_add h (Some c) d o1 w =
    (ok, put_hook h (Some (hk\<lparr>hk_entries := hk_entries hk @
             [\<lparr>he_addr = h_next w, he_cb = c, he_data = d, he_oneshot = o1\<rparr>],
           hk_num := Suc (hk_num hk)\<rparr>)) (w\<lparr>h_next := Suc (h_next w)\<rparr>))"
  using assms by (simp add: shl_hook_add_def alloc_def ask_def)

lemma rearming_loop:
  "h_hooks w h = Some hk \<Longrightarrow> hk_entries hk = [x, y] \<Longrightarrow> he_oneshot x \<Longrightarrow> he_oneshot y \<Longrightarrow>
   hk_cur hk = At (he_addr x) \<Longrightarrow> he_addr x \<noteq> he_addr y \<Longrightarrow> he_addr y < h_next w \<Longrightarrow>
   h_answers w = [] \<Longrightarrow> h_stuck (hook_loop (rearm h) h n w)"
proof (induction n arbitrary: w hk x y)
  case 0
  then show ?case by simp
next
  case (Suc n)
  let ?z = "\<lparr>he_addr = h_next w, he_cb = he_cb x, he_data = he_data x, he_oneshot = True\<rparr>"
  let ?hk = "hk\<lparr>hk_cur := At (he_addr y), hk_entries := [y, ?z], hk_num := hk_num hk\<rparr>"
  have "hook_step (rearm h) h hk x w =
      put_hook h (Some ?hk) (w\<lparr>h_next := Suc (h_next w)\<rparr>)"
    using Suc.prems
    by (simp add: hook_step_def pass_entry_def rearm_def shl_hook_add_eq after_oneshot_def
        unlink_entry_def put_hook_next)
  moreover have "h_stuck (hook_loop (rearm h) h n
      (put_hook h (Some ?hk) (w\<lparr>h_next := Suc (h_next w)\<rparr>)))"
    by (rule Suc.IH [where hk = ?hk and x = y and y = ?z])
       (use Suc.prems in \<open>simp_all add: put_hook_def\<close>)
  ultimately show ?case using Suc.prems by simp
qed

text \<open>
  Property C37. Two one-shot callbacks that register themselves again keep each other alive: the
  call of the hook runs them in turn and does not come to an end, whatever time it is given.
\<close>

theorem two_rearming_callbacks_never_return:
  assumes "h_hooks w h = Some hk" and "hk_cur hk = No_entry" and "hk_entries hk = [x, y]"
    and "he_oneshot x" and "he_oneshot y" and "hook_ok (h_next w) hk" and "h_answers w = []"
  shows "h_stuck (shl_hook_call (rearm h) n h w)"
proof -
  let ?hk = "hk\<lparr>hk_cur := At (he_addr x)\<rparr>"
  have "h_stuck (hook_loop (rearm h) h n (put_hook h (Some ?hk) w))"
    by (rule rearming_loop [where hk = ?hk and x = x and y = y])
       (use assms in \<open>auto simp: put_hook_def hook_ok_def addrs_def\<close>)
  then show ?thesis
    using assms(1-3) by (simp add: shl_hook_call_def first_entry_def)
qed

theorem two_rearming_callbacks_never_return_witness:
  "h_stuck (shl_hook_call (rearm 0) 1000 0
     \<lparr>h_hooks = [0 \<mapsto> \<lparr>hk_num = 2, hk_entries =
        [\<lparr>he_addr = 1, he_cb = ''a'', he_data = 5, he_oneshot = True\<rparr>,
         \<lparr>he_addr = 2, he_cb = ''b'', he_data = 6, he_oneshot = True\<rparr>],
        hk_cur = No_entry, hk_dead = False\<rparr>],
      h_next = 3, h_answers = [], h_crash = False, h_stuck = False\<rparr>)"
  by (rule two_rearming_callbacks_never_return, (simp add: hook_ok_def addrs_def)+)

text \<open>A single one runs once: it is registered again for the next call.\<close>

lemma one_rearming_callback_returns:
  assumes "h_hooks w h = Some hk" and "hk_cur hk = No_entry" and "hk_entries hk = [x]"
    and "he_oneshot x" and "hk_num hk = 1" and "\<not> hk_dead hk" and "h_answers w = []" and "2 \<le> n"
  shows "shl_hook_call (rearm h) n h w =
    put_hook h (Some \<lparr>hk_num = 1, hk_entries =
        [\<lparr>he_addr = h_next w, he_cb = he_cb x, he_data = he_data x, he_oneshot = True\<rparr>],
        hk_cur = No_entry, hk_dead = False\<rparr>) (w\<lparr>h_next := Suc (h_next w)\<rparr>)"
proof -
  obtain m where n: "n = Suc (Suc m)" using assms(8) by (cases n; cases "n - 1") auto
  show ?thesis
    using assms(1-7) n
    by (cases hk)
       (simp add: shl_hook_call_def first_entry_def hook_step_def pass_entry_def rearm_def
         shl_hook_add_eq after_oneshot_def unlink_entry_def end_call_def put_hook_next)
qed

end
