(* ===== verification/Eloop.thy ===== *)
theory Eloop
  imports Hook
begin

text \<open>
  The event loop of \<open>src/shl/eloop.c\<close>: file descriptor sources, timers, counters, shared
  signals, idle, child, pre and post callbacks, nested loops, and the dispatcher.

  The objects of the C code live in the store of hooks, extended by one map for each kind of
  object; an address is never used twice and a freed object is gone from its map. Pointers are not
  null: the checks of arguments against \<open>NULL\<close> at the head of each function are left out.
  Reading an object that is gone sets \<open>h_crash\<close>.

  The kernel is part of the state: the descriptors that are open, the epoll sets, the values of
  the eventfds and timerfds, what the timers are set to. Whether a request succeeds, what
  \<open>epoll_wait\<close> reports, the clock and the children that exited are lists of answers.

  The callbacks of the clients are the parameter \<open>user\<close> of the dispatcher: the effect on the
  state of each call, which is recorded in \<open>w_trace\<close>.
\<close>

unbundle bit_operations_syntax

section \<open>Data\<close>

abbreviation EINTR :: errno where "EINTR \<equiv> Eother 4"
abbreviation EOPNOTSUPP :: errno where "EOPNOTSUPP \<equiv> Eother 95"
abbreviation ECHILD :: errno where "ECHILD \<equiv> Eother 10"

definition EV_READABLE :: u32 where "EV_READABLE = 1"
definition EV_WRITEABLE :: u32 where "EV_WRITEABLE = 2"
definition EV_HUP :: u32 where "EV_HUP = 4"
definition EV_ERR :: u32 where "EV_ERR = 8"
definition EV_ET :: u32 where "EV_ET = 16"

definition EPOLLIN :: u32 where "EPOLLIN = 1"
definition EPOLLOUT :: u32 where "EPOLLOUT = 4"
definition EPOLLERR :: u32 where "EPOLLERR = 8"
definition EPOLLHUP :: u32 where "EPOLLHUP = 16"
definition EPOLLET :: u32 where "EPOLLET = push_bit 31 1"

lemmas ev_flags = EV_READABLE_def EV_WRITEABLE_def EV_HUP_def EV_ERR_def EV_ET_def
  EPOLLIN_def EPOLLOUT_def EPOLLERR_def EPOLLHUP_def EPOLLET_def

text \<open>What the data pointer of an epoll entry points at.\<close>

datatype ptr = Null | Ptr_fd nat | Ptr_loop nat

text \<open>
  The callback of a file descriptor source: one of the client's functions, or one of the
  functions of this file, whose data is the loop, signal, timer or counter that owns the source.
\<close>

datatype fd_fn = Fn_user nat | Fn_eloop | Fn_signal | Fn_timer | Fn_counter

datatype hook_fn = Hook_user nat | Hook_sig_child

record ev_fd =
  fd_ref :: nat
  fd_fd :: nat
  fd_mask :: u32
  fd_cb :: "fd_fn option"
  fd_data :: nat
  fd_enabled :: bool
  fd_loop :: "nat option"

text \<open>
  The array of events holds the reported events only; its capacity is \<open>el_size\<close>, and \<open>el_array\<close> is
  the memory it lies in.
\<close>

record ev_eloop =
  el_ref :: nat
  el_efd :: nat
  el_fd :: nat
  el_idle_fd :: nat
  el_sigs :: "nat list"
  el_chlds :: nat
  el_idlers :: nat
  el_pres :: nat
  el_posts :: nat
  el_dispatching :: bool
  el_cur :: "(u32 \<times> ptr) list"
  el_size :: nat
  el_exit :: bool
  el_array :: nat

record ev_timer =
  tm_ref :: nat
  tm_cb :: "nat option"
  tm_data :: nat
  tm_fd :: nat
  tm_efd :: nat

record ev_counter =
  ct_ref :: nat
  ct_cb :: "nat option"
  ct_data :: nat
  ct_fd :: nat
  ct_efd :: nat

text \<open>\<open>sg_list\<close> is the loop whose list the signal is linked into.\<close>

record ev_signal_shared =
  sg_list :: nat
  sg_fd :: nat
  sg_signum :: nat
  sg_hook :: nat

text \<open>
  The calls of client callbacks, and the waits for events. A call of a source records the loop
  that makes it and the source as it is at that moment, the call of a timer or of a counter its
  number of expirations and the source behind it.
\<close>

datatype ucall =
    Call_fd nat nat ev_fd u32
  | Call_timer nat nat nat nat "ev_fd option"
  | Call_counter nat nat nat nat "ev_fd option"
  | Call_signal nat nat nat nat
  | Call_child nat nat int int nat
  | Call_idle nat nat nat
  | Call_pre nat nat nat
  | Call_post nat nat nat
  | Wait_events nat int

datatype poll = Poll_fault errno | Poll_events "(nat \<times> u32) list"

datatype wait = Wait_fault errno | Wait_none | Wait_child int int

record world = "hook_fn hstore" +
  w_fds :: "nat \<rightharpoonup> ev_fd"
  w_loops :: "nat \<rightharpoonup> ev_eloop"
  w_timers :: "nat \<rightharpoonup> ev_timer"
  w_counters :: "nat \<rightharpoonup> ev_counter"
  w_sigs :: "nat \<rightharpoonup> ev_signal_shared"
  k_next :: nat
  k_open :: "nat set"
  k_epoll :: "nat \<Rightarrow> nat \<Rightarrow> (u32 \<times> ptr) option"
  k_count :: "nat \<Rightarrow> nat"
  k_siginfo :: "nat \<Rightarrow> nat list"
  k_spec :: "nat \<Rightarrow> nat \<times> nat"
  k_polls :: "poll list"
  k_clock :: "(int \<times> int) list"
  k_wait :: "wait list"
  w_trace :: "ucall list"
  w_memory :: "nat set"

text \<open>
  \<open>w_memory\<close> is the memory of the loops and of their arrays of events: what was allocated for them
  and is not free again.
\<close>

definition keep_memory :: "nat \<Rightarrow> world \<Rightarrow> world" where
  "keep_memory a w = w\<lparr>w_memory := insert a (w_memory w)\<rparr>"

definition free_memory :: "nat \<Rightarrow> world \<Rightarrow> world" where
  "free_memory a w = w\<lparr>w_memory := w_memory w - {a}\<rparr>"

definition put_fd :: "nat \<Rightarrow> ev_fd option \<Rightarrow> world \<Rightarrow> world" where
  "put_fd f v w = w\<lparr>w_fds := (w_fds w)(f := v)\<rparr>"

definition put_loop :: "nat \<Rightarrow> ev_eloop option \<Rightarrow> world \<Rightarrow> world" where
  "put_loop l v w = w\<lparr>w_loops := (w_loops w)(l := v)\<rparr>"

definition put_timer :: "nat \<Rightarrow> ev_timer option \<Rightarrow> world \<Rightarrow> world" where
  "put_timer t v w = w\<lparr>w_timers := (w_timers w)(t := v)\<rparr>"

definition put_counter :: "nat \<Rightarrow> ev_counter option \<Rightarrow> world \<Rightarrow> world" where
  "put_counter c v w = w\<lparr>w_counters := (w_counters w)(c := v)\<rparr>"

definition put_sig :: "nat \<Rightarrow> ev_signal_shared option \<Rightarrow> world \<Rightarrow> world" where
  "put_sig s v w = w\<lparr>w_sigs := (w_sigs w)(s := v)\<rparr>"

definition call_user :: "(ucall \<Rightarrow> world \<Rightarrow> world) \<Rightarrow> ucall \<Rightarrow> world \<Rightarrow> world" where
  "call_user user c w = user c (w\<lparr>w_trace := w_trace w @ [c]\<rparr>)"

section \<open>The kernel\<close>

definition fault :: "answer \<Rightarrow> status" where
  "fault a = (case a of Yes \<Rightarrow> ok | Fault e \<Rightarrow> fails e | Short _ \<Rightarrow> fails EIO)"

text \<open>A request that makes a descriptor.\<close>

definition sys_open :: "world \<Rightarrow> (errno + nat) \<times> world" where
  "sys_open w =
     (case ask w of (a, w) \<Rightarrow>
        (case fault a of
           Some e \<Rightarrow> (Inl e, w)
         | None \<Rightarrow> (Inr (k_next w),
             w\<lparr>k_next := Suc (k_next w), k_open := insert (k_next w) (k_open w),
               k_epoll := (k_epoll w)(k_next w := Map.empty), k_count := (k_count w)(k_next w := 0),
               k_siginfo := (k_siginfo w)(k_next w := [])\<rparr>)))"

text \<open>A descriptor that is closed leaves every epoll set.\<close>

definition sys_close :: "nat \<Rightarrow> world \<Rightarrow> world" where
  "sys_close k w =
     w\<lparr>k_open := k_open w - {k}, k_epoll := (\<lambda>e. if e = k then Map.empty else (k_epoll w e)(k := None))\<rparr>"

text \<open>
  Adding a descriptor fails when it is in the set or is the set itself, changing one fails when it
  is not in the set.
\<close>

definition epoll_ctl_add :: "nat \<Rightarrow> nat \<Rightarrow> u32 \<Rightarrow> ptr \<Rightarrow> world \<Rightarrow> status \<times> world" where
  "epoll_ctl_add e k ev p w =
     (case ask w of (a, w) \<Rightarrow>
        (case fault a of
           Some err \<Rightarrow> (fails err, w)
         | None \<Rightarrow>
             (if e = k then (fails EINVAL, w)
              else if k_epoll w e k \<noteq> None then (fails EEXIST, w)
              else (ok, w\<lparr>k_epoll := (k_epoll w)(e := (k_epoll w e)(k \<mapsto> (ev, p)))\<rparr>))))"

definition epoll_ctl_mod :: "nat \<Rightarrow> nat \<Rightarrow> u32 \<Rightarrow> ptr \<Rightarrow> world \<Rightarrow> status \<times> world" where
  "epoll_ctl_mod e k ev p w =
     (case ask w of (a, w) \<Rightarrow>
        (case fault a of
           Some err \<Rightarrow> (fails err, w)
         | None \<Rightarrow>
             (if k_epoll w e k = None then (fails ENOENT, w)
              else (ok, w\<lparr>k_epoll := (k_epoll w)(e := (k_epoll w e)(k \<mapsto> (ev, p)))\<rparr>))))"

definition epoll_ctl_del :: "nat \<Rightarrow> nat \<Rightarrow> world \<Rightarrow> world" where
  "epoll_ctl_del e k w = w\<lparr>k_epoll := (k_epoll w)(e := (k_epoll w e)(k := None))\<rparr>"

text \<open>The events reported for one descriptor are among those it was registered for.\<close>

fun poll_report :: "(nat \<Rightarrow> (u32 \<times> ptr) option) \<Rightarrow> (nat \<times> u32) list \<Rightarrow> (u32 \<times> ptr) list" where
  "poll_report ep [] = []"
| "poll_report ep ((k, r) # rs) =
     (case ep k of
        None \<Rightarrow> poll_report ep rs
      | Some (ev, p) \<Rightarrow>
          (let m = r AND (ev OR EPOLLERR OR EPOLLHUP)
           in if m = 0 then poll_report ep rs else (m, p) # poll_report ep rs))"

definition sys_epoll_wait :: "nat \<Rightarrow> nat \<Rightarrow> world \<Rightarrow> (errno + (u32 \<times> ptr) list) \<times> world" where
  "sys_epoll_wait e sz w =
     (case k_polls w of
        [] \<Rightarrow> (Inr [], w)
      | Poll_fault err # ps \<Rightarrow> (Inl err, w\<lparr>k_polls := ps\<rparr>)
      | Poll_events rs # ps \<Rightarrow> (Inr (take sz (poll_report (k_epoll w e) rs)), w\<lparr>k_polls := ps\<rparr>))"

text \<open>Reading an eventfd or a timerfd gives its value and sets it to zero; zero cannot be read.\<close>

datatype read_result = Read_fault errno | Read_short nat | Read nat

definition sys_read :: "nat \<Rightarrow> world \<Rightarrow> read_result \<times> world" where
  "sys_read k w =
     (case ask w of
        (Fault e, w) \<Rightarrow> (Read_fault e, w)
      | (Short n, w) \<Rightarrow> (Read_short n, w)
      | (Yes, w) \<Rightarrow>
          (if k_count w k = 0 then (Read_fault EAGAIN, w)
           else (Read (k_count w k), w\<lparr>k_count := (k_count w)(k := 0)\<rparr>)))"

definition sys_read_siginfo :: "nat \<Rightarrow> world \<Rightarrow> nat option \<times> world" where
  "sys_read_siginfo k w =
     (case ask w of (a, w) \<Rightarrow>
        (case (fault a, k_siginfo w k) of
           (None, i # is) \<Rightarrow> (Some i, w\<lparr>k_siginfo := (k_siginfo w)(k := is)\<rparr>)
         | _ \<Rightarrow> (None, w)))"

text \<open>An eventfd does not go beyond \<open>2 ^ 64 - 2\<close>.\<close>

definition sys_write_eventfd :: "nat \<Rightarrow> nat \<Rightarrow> world \<Rightarrow> status \<times> world" where
  "sys_write_eventfd k val w =
     (case ask w of (a, w) \<Rightarrow>
        (case fault a of
           Some e \<Rightarrow> (fails e, w)
         | None \<Rightarrow>
             (if k_count w k + val > 2 ^ 64 - 2 then (fails EAGAIN, w)
              else (ok, w\<lparr>k_count := (k_count w)(k := k_count w k + val)\<rparr>))))"

definition sys_settime :: "nat \<Rightarrow> nat \<times> nat \<Rightarrow> world \<Rightarrow> status \<times> world" where
  "sys_settime k spec w =
     (case ask w of (a, w) \<Rightarrow>
        (case fault a of
           Some e \<Rightarrow> (fails e, w)
         | None \<Rightarrow> (ok, w\<lparr>k_spec := (k_spec w)(k := spec)\<rparr>)))"

definition sys_waitpid :: "world \<Rightarrow> wait \<times> world" where
  "sys_waitpid w =
     (case k_wait w of [] \<Rightarrow> (Wait_fault ECHILD, w) | x # xs \<Rightarrow> (x, w\<lparr>k_wait := xs\<rparr>))"

definition sys_gettimeofday :: "world \<Rightarrow> (int \<times> int) \<times> world" where
  "sys_gettimeofday w =
     (case k_clock w of [] \<Rightarrow> ((0, 0), w) | t # ts \<Rightarrow> (t, w\<lparr>k_clock := ts\<rparr>))"

section \<open>File descriptor sources\<close>

definition ev_fd_new ::
  "int \<Rightarrow> u32 \<Rightarrow> fd_fn option \<Rightarrow> nat \<Rightarrow> world \<Rightarrow> (errno + nat) \<times> world" where
  "ev_fd_new rfd msk cb data w =
     (if rfd < 0 then (Inl EINVAL, w)
      else (case alloc w of
              (None, w) \<Rightarrow> (Inl ENOMEM, w)
            | (Some f, w) \<Rightarrow>
                (Inr f, put_fd f (Some \<lparr>fd_ref = 1, fd_fd = nat rfd, fd_mask = msk, fd_cb = cb,
                   fd_data = data, fd_enabled = True, fd_loop = None\<rparr>) w)))"

definition ev_fd_ref :: "nat \<Rightarrow> world \<Rightarrow> world" where
  "ev_fd_ref f w =
     (case w_fds w f of
        None \<Rightarrow> crash w
      | Some fd \<Rightarrow> (if fd_ref fd = 0 then w
                     else put_fd f (Some (fd\<lparr>fd_ref := Suc (fd_ref fd)\<rparr>)) w))"

definition ev_fd_unref :: "nat \<Rightarrow> world \<Rightarrow> world" where
  "ev_fd_unref f w =
     (case w_fds w f of
        None \<Rightarrow> crash w
      | Some fd \<Rightarrow>
          (if fd_ref fd = 0 then w
           else if fd_ref fd - 1 \<noteq> 0 then put_fd f (Some (fd\<lparr>fd_ref := fd_ref fd - 1\<rparr>)) w
           else put_fd f None w))"

definition epoll_mask :: "u32 \<Rightarrow> u32" where
  "epoll_mask m =
     (if m AND EV_READABLE \<noteq> 0 then EPOLLIN else 0) OR
     (if m AND EV_WRITEABLE \<noteq> 0 then EPOLLOUT else 0) OR
     (if m AND EV_ET \<noteq> 0 then EPOLLET else 0)"

text \<open>The loop of a source, if it is bound to one, for the requests to its epoll set.\<close>

definition with_loop ::
  "nat \<Rightarrow> 'r \<Rightarrow> (ev_fd \<Rightarrow> ev_eloop \<Rightarrow> world \<Rightarrow> 'r \<times> world) \<Rightarrow> world \<Rightarrow> 'r \<times> world" where
  "with_loop f r act w =
     (case w_fds w f of
        None \<Rightarrow> (r, crash w)
      | Some fd \<Rightarrow>
          (case fd_loop fd of
             None \<Rightarrow> (r, w)
           | Some l \<Rightarrow>
               (case w_loops w l of
                  None \<Rightarrow> (r, crash w)
                | Some lp \<Rightarrow> act fd lp w)))"

definition efault :: "status \<times> world \<Rightarrow> status \<times> world" where
  "efault r = (case r of (None, w) \<Rightarrow> (ok, w) | (Some _, w) \<Rightarrow> (fails EFAULT, w))"

definition fd_epoll_add :: "nat \<Rightarrow> world \<Rightarrow> status \<times> world" where
  "fd_epoll_add f =
     with_loop f ok (\<lambda>fd lp w.
       efault (epoll_ctl_add (el_efd lp) (fd_fd fd) (epoll_mask (fd_mask fd)) (Ptr_fd f) w))"

definition fd_epoll_remove :: "nat \<Rightarrow> world \<Rightarrow> world" where
  "fd_epoll_remove f w =
     snd (with_loop f () (\<lambda>fd lp w. ((), epoll_ctl_del (el_efd lp) (fd_fd fd) w)) w)"

definition fd_epoll_update :: "nat \<Rightarrow> world \<Rightarrow> status \<times> world" where
  "fd_epoll_update f =
     with_loop f ok (\<lambda>fd lp w.
       efault (epoll_ctl_mod (el_efd lp) (fd_fd fd) (epoll_mask (fd_mask fd)) (Ptr_fd f) w))"

definition ev_fd_enable :: "nat \<Rightarrow> world \<Rightarrow> status \<times> world" where
  "ev_fd_enable f w =
     (case w_fds w f of
        None \<Rightarrow> (ok, crash w)
      | Some fd \<Rightarrow>
          (if fd_enabled fd then (ok, w)
           else (case fd_epoll_add f w of
                   (Some e, w) \<Rightarrow> (fails e, w)
                 | (None, w) \<Rightarrow> (ok, put_fd f (Some (fd\<lparr>fd_enabled := True\<rparr>)) w))))"

definition ev_fd_disable :: "nat \<Rightarrow> world \<Rightarrow> world" where
  "ev_fd_disable f w =
     (case w_fds w f of
        None \<Rightarrow> crash w
      | Some fd \<Rightarrow>
          (if \<not> fd_enabled fd then w
           else fd_epoll_remove f (put_fd f (Some (fd\<lparr>fd_enabled := False\<rparr>)) w)))"

definition ev_fd_is_enabled :: "nat \<Rightarrow> world \<Rightarrow> bool" where
  "ev_fd_is_enabled f w = (case w_fds w f of None \<Rightarrow> False | Some fd \<Rightarrow> fd_enabled fd)"

definition ev_fd_is_bound :: "nat \<Rightarrow> world \<Rightarrow> bool" where
  "ev_fd_is_bound f w = (case w_fds w f of None \<Rightarrow> False | Some fd \<Rightarrow> fd_loop fd \<noteq> None)"

definition ev_fd_set_cb_data :: "nat \<Rightarrow> fd_fn option \<Rightarrow> nat \<Rightarrow> world \<Rightarrow> world" where
  "ev_fd_set_cb_data f cb data w =
     (case w_fds w f of
        None \<Rightarrow> crash w
      | Some fd \<Rightarrow> put_fd f (Some (fd\<lparr>fd_cb := cb, fd_data := data\<rparr>)) w)"

definition ev_fd_update :: "nat \<Rightarrow> u32 \<Rightarrow> world \<Rightarrow> status \<times> world" where
  "ev_fd_update f msk w =
     (case w_fds w f of
        None \<Rightarrow> (ok, crash w)
      | Some fd \<Rightarrow>
          (if fd_mask fd = msk \<and> msk AND EV_ET = 0 then (ok, w)
           else
             (let w = put_fd f (Some (fd\<lparr>fd_mask := msk\<rparr>)) w
              in if \<not> fd_enabled fd then (ok, w)
                 else (case fd_epoll_update f w of
                         (Some e, w) \<Rightarrow> (fails e, put_fd f (Some fd) w)
                       | (None, w) \<Rightarrow> (ok, w)))))"

section \<open>Registration of sources\<close>

definition ev_eloop_ref :: "nat \<Rightarrow> world \<Rightarrow> world" where
  "ev_eloop_ref l w =
     (case w_loops w l of
        None \<Rightarrow> crash w
      | Some lp \<Rightarrow> put_loop l (Some (lp\<lparr>el_ref := Suc (el_ref lp)\<rparr>)) w)"

definition ev_eloop_add_fd :: "nat \<Rightarrow> nat \<Rightarrow> world \<Rightarrow> status \<times> world" where
  "ev_eloop_add_fd l f w =
     (case w_fds w f of
        None \<Rightarrow> (ok, crash w)
      | Some fd \<Rightarrow>
          (if fd_loop fd \<noteq> None then (fails EINVAL, w)
           else
             (let w1 = put_fd f (Some (fd\<lparr>fd_loop := Some l\<rparr>)) w;
                  (ret, w2) = (if fd_enabled fd then fd_epoll_add f w1 else (ok, w1))
              in case ret of
                   Some e \<Rightarrow> (fails e, put_fd f (Some fd) w2)
                 | None \<Rightarrow> (ok, ev_eloop_ref l (ev_fd_ref f w2)))))"

text \<open>Replacing the pointer of a source by a null pointer in the array of events.\<close>

definition flush_ptr :: "ptr \<Rightarrow> (u32 \<times> ptr) list \<Rightarrow> (u32 \<times> ptr) list" where
  "flush_ptr p evs = map (\<lambda>(ev, q). (ev, if q = p then Null else q)) evs"

definition ev_eloop_flush_fd :: "nat \<Rightarrow> nat \<Rightarrow> world \<Rightarrow> world" where
  "ev_eloop_flush_fd l f w =
     (case w_loops w l of
        None \<Rightarrow> crash w
      | Some lp \<Rightarrow>
          (if \<not> el_dispatching lp then w
           else put_loop l (Some (lp\<lparr>el_cur := flush_ptr (Ptr_fd f) (el_cur lp)\<rparr>)) w))"

text \<open>
  Removing a source gives up the reference it holds on its loop, and giving up the last reference
  removes the sources of the shared signals: \<open>unref\<close> is the former, so that the latter can use
  the function too.
\<close>

definition rm_fd_with :: "(nat \<Rightarrow> world \<Rightarrow> world) \<Rightarrow> nat \<Rightarrow> world \<Rightarrow> world" where
  "rm_fd_with unref f w =
     (case w_fds w f of
        None \<Rightarrow> crash w
      | Some fd \<Rightarrow>
          (case fd_loop fd of
             None \<Rightarrow> w
           | Some l \<Rightarrow>
               (let w = (if fd_enabled fd then fd_epoll_remove f w else w);
                    w = ev_eloop_flush_fd l f w;
                    w = put_fd f (Some (fd\<lparr>fd_loop := None\<rparr>)) w;
                    w = ev_fd_unref f w
                in unref l w)))"

definition signal_free_with :: "(nat \<Rightarrow> world \<Rightarrow> world) \<Rightarrow> nat \<Rightarrow> world \<Rightarrow> world" where
  "signal_free_with unref s w =
     (case w_sigs w s of
        None \<Rightarrow> crash w
      | Some sg \<Rightarrow>
          (case (w_loops w (sg_list sg), w_fds w (sg_fd sg)) of
             (Some lp, Some fd) \<Rightarrow>
               (let w = put_loop (sg_list sg)
                          (Some (lp\<lparr>el_sigs := filter (\<lambda>x. x \<noteq> s) (el_sigs lp)\<rparr>)) w;
                    w = rm_fd_with unref (sg_fd sg) w;
                    w = sys_close (fd_fd fd) w;
                    w = shl_hook_free (sg_hook sg) w
                in put_sig s None w)
           | _ \<Rightarrow> crash w))"

fun find_sig :: "(nat \<rightharpoonup> ev_signal_shared) \<Rightarrow> nat \<Rightarrow> nat list \<Rightarrow> nat option" where
  "find_sig m n [] = None"
| "find_sig m n (s # ss) =
     (case m s of
        Some sg \<Rightarrow> (if sg_signum sg = n then Some s else find_sig m n ss)
      | None \<Rightarrow> find_sig m n ss)"

definition unregister_signal_with ::
  "(nat \<Rightarrow> world \<Rightarrow> world) \<Rightarrow> nat \<Rightarrow> nat \<Rightarrow> hook_fn option \<Rightarrow> nat \<Rightarrow> world \<Rightarrow> world" where
  "unregister_signal_with unref l signum cb data w =
     (case w_loops w l of
        None \<Rightarrow> crash w
      | Some lp \<Rightarrow>
          (case find_sig (w_sigs w) signum (el_sigs lp) of
             None \<Rightarrow> w
           | Some s \<Rightarrow>
               (case w_sigs w s of
                  None \<Rightarrow> crash w
                | Some sg \<Rightarrow>
                    (let w = shl_hook_rm (sg_hook sg) cb data w
                     in if shl_hook_num (sg_hook sg) w = 0 then signal_free_with unref s w
                        else w))))"

definition SIGCHLD :: nat where "SIGCHLD = 17"

text \<open>
  The end of a loop. The references on it are used up, and the sources that are removed here find
  them so: \<open>ev_eloop_unref\<close> only writes a message then, which is the function that leaves the
  state alone.
\<close>

definition eloop_destroy :: "nat \<Rightarrow> world \<Rightarrow> world" where
  "eloop_destroy l w =
     (case w_loops w l of
        None \<Rightarrow> crash w
      | Some lp \<Rightarrow>
          (let w = (if shl_hook_num (el_chlds lp) w \<noteq> 0
                    then unregister_signal_with (\<lambda>_ w. w) l SIGCHLD (Some Hook_sig_child) l w
                    else w);
               w = (case w_loops w l of
                      None \<Rightarrow> crash w
                    | Some lp \<Rightarrow> fold (signal_free_with (\<lambda>_ w. w)) (el_sigs lp) w);
               w = epoll_ctl_del (el_efd lp) (el_idle_fd lp) w;
               w = sys_close (el_idle_fd lp) w;
               w = ev_fd_unref (el_fd lp) w;
               w = sys_close (el_efd lp) w;
               w = shl_hook_free (el_posts lp) w;
               w = shl_hook_free (el_pres lp) w;
               w = shl_hook_free (el_idlers lp) w;
               w = shl_hook_free (el_chlds lp) w;
               w = free_memory (el_array lp) w
           in put_loop l None (free_memory l w)))"

definition ev_eloop_unref :: "nat \<Rightarrow> world \<Rightarrow> world" where
  "ev_eloop_unref l w =
     (case w_loops w l of
        None \<Rightarrow> crash w
      | Some lp \<Rightarrow>
          (if el_ref lp = 0 then w
           else
             (let w = put_loop l (Some (lp\<lparr>el_ref := el_ref lp - 1\<rparr>)) w
              in if el_ref lp - 1 \<noteq> 0 then w else eloop_destroy l w)))"

definition ev_eloop_rm_fd :: "nat \<Rightarrow> world \<Rightarrow> world" where
  "ev_eloop_rm_fd = rm_fd_with ev_eloop_unref"

definition signal_free :: "nat \<Rightarrow> world \<Rightarrow> world" where
  "signal_free = signal_free_with ev_eloop_unref"

definition ev_eloop_new_fd ::
  "nat \<Rightarrow> int \<Rightarrow> u32 \<Rightarrow> fd_fn option \<Rightarrow> nat \<Rightarrow> world \<Rightarrow> (errno + nat) \<times> world" where
  "ev_eloop_new_fd l rfd msk cb data w =
     (if rfd < 0 then (Inl EINVAL, w)
      else (case ev_fd_new rfd msk cb data w of
              (Inl e, w) \<Rightarrow> (Inl e, w)
            | (Inr f, w) \<Rightarrow>
                (case ev_eloop_add_fd l f w of
                   (Some e, w) \<Rightarrow> (Inl e, ev_fd_unref f w)
                 | (None, w) \<Rightarrow> (Inr f, ev_fd_unref f w))))"

section \<open>Loops\<close>

text \<open>The error labels of \<open>ev_eloop_new\<close> for the hooks, from the one that undoes least.\<close>

definition err_childs :: "nat \<Rightarrow> world \<Rightarrow> world" where
  "err_childs chlds w = shl_hook_free chlds w"

definition err_idlers :: "nat \<Rightarrow> nat \<Rightarrow> world \<Rightarrow> world" where
  "err_idlers idlers chlds w = err_childs chlds (shl_hook_free idlers w)"

definition err_pres :: "nat \<Rightarrow> nat \<Rightarrow> nat \<Rightarrow> world \<Rightarrow> world" where
  "err_pres pres idlers chlds w = err_idlers idlers chlds (shl_hook_free pres w)"

definition err_posts :: "nat \<Rightarrow> nat \<Rightarrow> nat \<Rightarrow> nat \<Rightarrow> world \<Rightarrow> world" where
  "err_posts posts pres idlers chlds w = err_pres pres idlers chlds (shl_hook_free posts w)"

text \<open>The steps after the two allocations, of the loop \<open>l\<close> and of its array \<open>b\<close>.\<close>

definition eloop_setup :: "nat \<Rightarrow> nat \<Rightarrow> world \<Rightarrow> (errno + nat) \<times> world" where
  "eloop_setup l b w =
   (case shl_hook_new w of (Inl e, w) \<Rightarrow> (Inl e, w) | (Inr chlds, w) \<Rightarrow>
   (case shl_hook_new w of (Inl e, w) \<Rightarrow> (Inl e, err_childs chlds w) | (Inr idlers, w) \<Rightarrow>
   (case shl_hook_new w of (Inl e, w) \<Rightarrow> (Inl e, err_idlers idlers chlds w) | (Inr pres, w) \<Rightarrow>
   (case shl_hook_new w of (Inl e, w) \<Rightarrow> (Inl e, err_pres pres idlers chlds w) | (Inr posts, w) \<Rightarrow>
   (case sys_open w of (Inl e, w) \<Rightarrow> (Inl e, err_posts posts pres idlers chlds w) | (Inr efd, w) \<Rightarrow>
   (case ev_fd_new (int efd) EV_READABLE (Some Fn_eloop) l w of
      (Inl e, w) \<Rightarrow> (Inl e, err_posts posts pres idlers chlds (sys_close efd w))
    | (Inr fd, w) \<Rightarrow>
   (case sys_open w of
      (Inl _, w) \<Rightarrow>
        (Inl EFAULT, err_posts posts pres idlers chlds (sys_close efd (ev_fd_unref fd w)))
    | (Inr idle, w) \<Rightarrow>
   (case epoll_ctl_add efd idle EPOLLIN (Ptr_loop l) w of
      (Some _, w) \<Rightarrow>
        (Inl EFAULT, err_posts posts pres idlers chlds
           (sys_close efd (ev_fd_unref fd (sys_close idle w))))
    | (None, w) \<Rightarrow>
        (Inr l, put_loop l
           (Some \<lparr>el_ref = 1, el_efd = efd, el_fd = fd, el_idle_fd = idle, el_sigs = [],
                  el_chlds = chlds, el_idlers = idlers, el_pres = pres, el_posts = posts,
                  el_dispatching = False, el_cur = [], el_size = 32, el_exit = False,
                  el_array = b\<rparr>) w)))))))))"

text \<open>Every failing step ends in the last two labels, which free the array and the loop.\<close>

definition err_free :: "nat \<Rightarrow> world \<Rightarrow> world" where
  "err_free l w = free_memory l w"

definition err_fds :: "nat \<Rightarrow> nat \<Rightarrow> world \<Rightarrow> world" where
  "err_fds l b w = err_free l (free_memory b w)"

definition ev_eloop_new :: "world \<Rightarrow> (errno + nat) \<times> world" where
  "ev_eloop_new w =
   (case alloc w of (None, w) \<Rightarrow> (Inl ENOMEM, w) | (Some l, w) \<Rightarrow>
   (case alloc (keep_memory l w) of (None, w) \<Rightarrow> (Inl ENOMEM, err_free l w) | (Some b, w) \<Rightarrow>
   (case eloop_setup l b (keep_memory b w) of
      (Inl e, w) \<Rightarrow> (Inl e, err_fds l b w)
    | (Inr el, w) \<Rightarrow> (Inr el, w))))"

definition ev_eloop_add_eloop :: "nat \<Rightarrow> nat \<Rightarrow> world \<Rightarrow> status \<times> world" where
  "ev_eloop_add_eloop l add w =
     (case w_loops w add of
        None \<Rightarrow> (ok, crash w)
      | Some ad \<Rightarrow>
          (case w_fds w (el_fd ad) of
             None \<Rightarrow> (ok, crash w)
           | Some fd \<Rightarrow>
               (if fd_loop fd \<noteq> None then (fails EALREADY, w)
                else (case ev_eloop_add_fd l (el_fd ad) w of
                        (Some e, w) \<Rightarrow> (fails e, w)
                      | (None, w) \<Rightarrow> (ok, ev_eloop_ref add w)))))"

definition ev_eloop_rm_eloop :: "nat \<Rightarrow> world \<Rightarrow> world" where
  "ev_eloop_rm_eloop rm w =
     (case w_loops w rm of
        None \<Rightarrow> crash w
      | Some lp \<Rightarrow>
          (case w_fds w (el_fd lp) of
             None \<Rightarrow> crash w
           | Some fd \<Rightarrow>
               (if fd_loop fd = None then w
                else ev_eloop_unref rm (ev_eloop_rm_fd (el_fd lp) w))))"

definition ev_eloop_new_eloop :: "nat \<Rightarrow> world \<Rightarrow> (errno + nat) \<times> world" where
  "ev_eloop_new_eloop l w =
     (case ev_eloop_new w of
        (Inl e, w) \<Rightarrow> (Inl e, w)
      | (Inr el, w) \<Rightarrow>
          (case ev_eloop_add_eloop l el w of
             (Some e, w) \<Rightarrow> (Inl e, ev_eloop_unref el w)
           | (None, w) \<Rightarrow> (Inr el, ev_eloop_unref el w)))"

text \<open>The request to exit goes up to the loops around a loop.\<close>

primrec exit_chain :: "nat \<Rightarrow> nat \<Rightarrow> world \<Rightarrow> world" where
  "exit_chain 0 l w = w\<lparr>h_stuck := True\<rparr>"
| "exit_chain (Suc n) l w =
     (case w_loops w l of
        None \<Rightarrow> crash w
      | Some lp \<Rightarrow>
          (let w = put_loop l (Some (lp\<lparr>el_exit := True\<rparr>)) w
           in case w_fds w (el_fd lp) of
                None \<Rightarrow> crash w
              | Some fd \<Rightarrow>
                  (case fd_loop fd of None \<Rightarrow> w | Some p \<Rightarrow> exit_chain n p w)))"

definition ev_eloop_exit :: "nat \<Rightarrow> world \<Rightarrow> world" where
  "ev_eloop_exit l w = exit_chain (Suc (h_next w)) l w"

definition ev_eloop_get_fd :: "nat \<Rightarrow> world \<Rightarrow> nat option" where
  "ev_eloop_get_fd l w = map_option el_efd (w_loops w l)"

section \<open>Timers\<close>

text \<open>
  What draining a timer returns: zero, a positive error number when the read failed, a negative
  one when it read something else than eight bytes; and the expirations that it read.
\<close>

datatype drain = Drained nat | Positive errno | Negative errno

definition timer_drain :: "nat \<Rightarrow> world \<Rightarrow> drain \<times> world" where
  "timer_drain t w =
     (case w_timers w t of
        None \<Rightarrow> (Drained 0, crash w)
      | Some tm \<Rightarrow>
          (case sys_read (tm_fd tm) w of
             (Read_fault e, w) \<Rightarrow> (if e = EAGAIN then Drained 0 else Positive e, w)
           | (Read_short _, w) \<Rightarrow> (Negative EFAULT, w)
           | (Read n, w) \<Rightarrow> (Drained n, w)))"

definition ev_timer_enable :: "nat \<Rightarrow> world \<Rightarrow> status \<times> world" where
  "ev_timer_enable t w =
     (case w_timers w t of None \<Rightarrow> (ok, crash w) | Some tm \<Rightarrow> ev_fd_enable (tm_efd tm) w)"

definition ev_timer_disable :: "nat \<Rightarrow> world \<Rightarrow> world" where
  "ev_timer_disable t w =
     (case w_timers w t of None \<Rightarrow> crash w | Some tm \<Rightarrow> ev_fd_disable (tm_efd tm) w)"

text \<open>The callback of a timer, if it has one, with the number of expirations.\<close>

definition call_timer :: "(ucall \<Rightarrow> world \<Rightarrow> world) \<Rightarrow> nat \<Rightarrow> nat \<Rightarrow> world \<Rightarrow> world" where
  "call_timer user t n w =
     (case w_timers w t of
        None \<Rightarrow> crash w
      | Some tm \<Rightarrow>
          (case tm_cb tm of
             None \<Rightarrow> w
           | Some c \<Rightarrow> call_user user (Call_timer c t n (tm_data tm) (w_fds w (tm_efd tm))) w))"

definition timer_cb :: "(ucall \<Rightarrow> world \<Rightarrow> world) \<Rightarrow> u32 \<Rightarrow> nat \<Rightarrow> world \<Rightarrow> world" where
  "timer_cb user msk t w =
     (if msk AND (EV_HUP OR EV_ERR) \<noteq> 0 then call_timer user t 0 (ev_timer_disable t w)
      else if msk AND EV_READABLE \<noteq> 0 then
        (case timer_drain t w of
           (Drained n, w) \<Rightarrow> (if 0 < n then call_timer user t n w else w)
         | (_, w) \<Rightarrow> call_timer user t 0 (ev_timer_disable t w))
      else w)"

definition spec_or_zero :: "(nat \<times> nat) option \<Rightarrow> nat \<times> nat" where
  "spec_or_zero spec = (case spec of None \<Rightarrow> (0, 0) | Some s \<Rightarrow> s)"

definition ev_timer_new ::
  "(nat \<times> nat) option \<Rightarrow> nat option \<Rightarrow> nat \<Rightarrow> world \<Rightarrow> (errno + nat) \<times> world" where
  "ev_timer_new spec cb data w =
     (case alloc w of (None, w) \<Rightarrow> (Inl ENOMEM, w) | (Some t, w) \<Rightarrow>
     (case sys_open w of (Inl _, w) \<Rightarrow> (Inl EFAULT, w) | (Inr k, w) \<Rightarrow>
     (case sys_settime k (spec_or_zero spec) w of
        (Some _, w) \<Rightarrow> (Inl EFAULT, sys_close k w)
      | (None, w) \<Rightarrow>
     (case ev_fd_new (int k) EV_READABLE (Some Fn_timer) t w of
        (Inl e, w) \<Rightarrow> (Inl e, sys_close k w)
      | (Inr f, w) \<Rightarrow>
          (Inr t, put_timer t (Some \<lparr>tm_ref = 1, tm_cb = cb, tm_data = data, tm_fd = k,
                                     tm_efd = f\<rparr>) w)))))"

definition ev_timer_ref :: "nat \<Rightarrow> world \<Rightarrow> world" where
  "ev_timer_ref t w =
     (case w_timers w t of
        None \<Rightarrow> crash w
      | Some tm \<Rightarrow> (if tm_ref tm = 0 then w
                     else put_timer t (Some (tm\<lparr>tm_ref := Suc (tm_ref tm)\<rparr>)) w))"

definition ev_timer_unref :: "nat \<Rightarrow> world \<Rightarrow> world" where
  "ev_timer_unref t w =
     (case w_timers w t of
        None \<Rightarrow> crash w
      | Some tm \<Rightarrow>
          (if tm_ref tm = 0 then w
           else if tm_ref tm - 1 \<noteq> 0 then put_timer t (Some (tm\<lparr>tm_ref := tm_ref tm - 1\<rparr>)) w
           else put_timer t None (sys_close (tm_fd tm) (ev_fd_unref (tm_efd tm) w))))"

definition ev_timer_is_enabled :: "nat \<Rightarrow> world \<Rightarrow> bool" where
  "ev_timer_is_enabled t w =
     (case w_timers w t of None \<Rightarrow> False | Some tm \<Rightarrow> ev_fd_is_enabled (tm_efd tm) w)"

definition ev_timer_is_bound :: "nat \<Rightarrow> world \<Rightarrow> bool" where
  "ev_timer_is_bound t w =
     (case w_timers w t of None \<Rightarrow> False | Some tm \<Rightarrow> ev_fd_is_bound (tm_efd tm) w)"

definition ev_timer_set_cb_data :: "nat \<Rightarrow> nat option \<Rightarrow> nat \<Rightarrow> world \<Rightarrow> world" where
  "ev_timer_set_cb_data t cb data w =
     (case w_timers w t of
        None \<Rightarrow> crash w
      | Some tm \<Rightarrow> put_timer t (Some (tm\<lparr>tm_cb := cb, tm_data := data\<rparr>)) w)"

definition ev_timer_update :: "nat \<Rightarrow> (nat \<times> nat) option \<Rightarrow> world \<Rightarrow> status \<times> world" where
  "ev_timer_update t spec w =
     (case w_timers w t of
        None \<Rightarrow> (ok, crash w)
      | Some tm \<Rightarrow> efault (sys_settime (tm_fd tm) (spec_or_zero spec) w))"

definition ev_timer_drain :: "nat \<Rightarrow> world \<Rightarrow> drain \<times> world" where
  "ev_timer_drain t w = timer_drain t w"

definition ev_eloop_add_timer :: "nat \<Rightarrow> nat \<Rightarrow> world \<Rightarrow> status \<times> world" where
  "ev_eloop_add_timer l t w =
     (case w_timers w t of
        None \<Rightarrow> (ok, crash w)
      | Some tm \<Rightarrow>
          (if ev_fd_is_bound (tm_efd tm) w then (fails EALREADY, w)
           else (case ev_eloop_add_fd l (tm_efd tm) w of
                   (Some e, w) \<Rightarrow> (fails e, w)
                 | (None, w) \<Rightarrow> (ok, ev_timer_ref t w))))"

definition ev_eloop_rm_timer :: "nat \<Rightarrow> world \<Rightarrow> world" where
  "ev_eloop_rm_timer t w =
     (case w_timers w t of
        None \<Rightarrow> crash w
      | Some tm \<Rightarrow>
          (if \<not> ev_fd_is_bound (tm_efd tm) w then w
           else ev_timer_unref t (ev_eloop_rm_fd (tm_efd tm) w)))"

definition ev_eloop_new_timer ::
  "nat \<Rightarrow> (nat \<times> nat) option \<Rightarrow> nat option \<Rightarrow> nat \<Rightarrow> world \<Rightarrow> (errno + nat) \<times> world" where
  "ev_eloop_new_timer l spec cb data w =
     (case ev_timer_new spec cb data w of
        (Inl e, w) \<Rightarrow> (Inl e, w)
      | (Inr t, w) \<Rightarrow>
          (case ev_eloop_add_timer l t w of
             (Some e, w) \<Rightarrow> (Inl e, ev_timer_unref t w)
           | (None, w) \<Rightarrow> (Inr t, ev_timer_unref t w)))"

section \<open>Counters\<close>

definition write_eventfd :: "nat \<Rightarrow> nat \<Rightarrow> world \<Rightarrow> status \<times> world" where
  "write_eventfd k val w =
     (if val = 0 then (fails EINVAL, w)
      else if val = 0xffffffffffffffff then (fails EINVAL, w)
      else efault (sys_write_eventfd k val w))"

definition ev_counter_enable :: "nat \<Rightarrow> world \<Rightarrow> status \<times> world" where
  "ev_counter_enable c w =
     (case w_counters w c of None \<Rightarrow> (ok, crash w) | Some ct \<Rightarrow> ev_fd_enable (ct_efd ct) w)"

definition ev_counter_disable :: "nat \<Rightarrow> world \<Rightarrow> world" where
  "ev_counter_disable c w =
     (case w_counters w c of None \<Rightarrow> crash w | Some ct \<Rightarrow> ev_fd_disable (ct_efd ct) w)"

definition call_counter :: "(ucall \<Rightarrow> world \<Rightarrow> world) \<Rightarrow> nat \<Rightarrow> nat \<Rightarrow> world \<Rightarrow> world" where
  "call_counter user c n w =
     (case w_counters w c of
        None \<Rightarrow> crash w
      | Some ct \<Rightarrow>
          (case ct_cb ct of
             None \<Rightarrow> w
           | Some cb \<Rightarrow> call_user user (Call_counter cb c n (ct_data ct) (w_fds w (ct_efd ct))) w))"

definition counter_event :: "(ucall \<Rightarrow> world \<Rightarrow> world) \<Rightarrow> u32 \<Rightarrow> nat \<Rightarrow> world \<Rightarrow> world" where
  "counter_event user msk c w =
     (if msk AND (EV_HUP OR EV_ERR) \<noteq> 0 then call_counter user c 0 w
      else if msk AND EV_READABLE = 0 then w
      else (case w_counters w c of
              None \<Rightarrow> crash w
            | Some ct \<Rightarrow>
                (case sys_read (ct_fd ct) w of
                   (Read_fault e, w) \<Rightarrow>
                     (if e \<noteq> EAGAIN then call_counter user c 0 (ev_counter_disable c w) else w)
                 | (Read_short _, w) \<Rightarrow> call_counter user c 0 (ev_counter_disable c w)
                 | (Read n, w) \<Rightarrow> (if 0 < n then call_counter user c n w else w))))"

definition ev_counter_new :: "nat option \<Rightarrow> nat \<Rightarrow> world \<Rightarrow> (errno + nat) \<times> world" where
  "ev_counter_new cb data w =
     (case alloc w of (None, w) \<Rightarrow> (Inl ENOMEM, w) | (Some c, w) \<Rightarrow>
     (case sys_open w of (Inl _, w) \<Rightarrow> (Inl EFAULT, w) | (Inr k, w) \<Rightarrow>
     (case ev_fd_new (int k) EV_READABLE (Some Fn_counter) c w of
        (Inl e, w) \<Rightarrow> (Inl e, sys_close k w)
      | (Inr f, w) \<Rightarrow>
          (Inr c, put_counter c (Some \<lparr>ct_ref = 1, ct_cb = cb, ct_data = data, ct_fd = k,
                                       ct_efd = f\<rparr>) w))))"

definition ev_counter_ref :: "nat \<Rightarrow> world \<Rightarrow> world" where
  "ev_counter_ref c w =
     (case w_counters w c of
        None \<Rightarrow> crash w
      | Some ct \<Rightarrow> (if ct_ref ct = 0 then w
                     else put_counter c (Some (ct\<lparr>ct_ref := Suc (ct_ref ct)\<rparr>)) w))"

definition ev_counter_unref :: "nat \<Rightarrow> world \<Rightarrow> world" where
  "ev_counter_unref c w =
     (case w_counters w c of
        None \<Rightarrow> crash w
      | Some ct \<Rightarrow>
          (if ct_ref ct = 0 then w
           else if ct_ref ct - 1 \<noteq> 0 then put_counter c (Some (ct\<lparr>ct_ref := ct_ref ct - 1\<rparr>)) w
           else put_counter c None (sys_close (ct_fd ct) (ev_fd_unref (ct_efd ct) w))))"

definition ev_counter_is_enabled :: "nat \<Rightarrow> world \<Rightarrow> bool" where
  "ev_counter_is_enabled c w =
     (case w_counters w c of None \<Rightarrow> False | Some ct \<Rightarrow> ev_fd_is_enabled (ct_efd ct) w)"

definition ev_counter_is_bound :: "nat \<Rightarrow> world \<Rightarrow> bool" where
  "ev_counter_is_bound c w =
     (case w_counters w c of None \<Rightarrow> False | Some ct \<Rightarrow> ev_fd_is_bound (ct_efd ct) w)"

definition ev_counter_set_cb_data :: "nat \<Rightarrow> nat option \<Rightarrow> nat \<Rightarrow> world \<Rightarrow> world" where
  "ev_counter_set_cb_data c cb data w =
     (case w_counters w c of
        None \<Rightarrow> crash w
      | Some ct \<Rightarrow> put_counter c (Some (ct\<lparr>ct_cb := cb, ct_data := data\<rparr>)) w)"

definition ev_counter_inc :: "nat \<Rightarrow> nat \<Rightarrow> world \<Rightarrow> status \<times> world" where
  "ev_counter_inc c val w =
     (case w_counters w c of None \<Rightarrow> (ok, crash w) | Some ct \<Rightarrow> write_eventfd (ct_fd ct) val w)"

definition ev_eloop_add_counter :: "nat \<Rightarrow> nat \<Rightarrow> world \<Rightarrow> status \<times> world" where
  "ev_eloop_add_counter l c w =
     (case w_counters w c of
        None \<Rightarrow> (ok, crash w)
      | Some ct \<Rightarrow>
          (if ev_fd_is_bound (ct_efd ct) w then (fails EALREADY, w)
           else (case ev_eloop_add_fd l (ct_efd ct) w of
                   (Some e, w) \<Rightarrow> (fails e, w)
                 | (None, w) \<Rightarrow> (ok, ev_counter_ref c w))))"

definition ev_eloop_rm_counter :: "nat \<Rightarrow> world \<Rightarrow> world" where
  "ev_eloop_rm_counter c w =
     (case w_counters w c of
        None \<Rightarrow> crash w
      | Some ct \<Rightarrow>
          (if \<not> ev_fd_is_bound (ct_efd ct) w then w
           else ev_counter_unref c (ev_eloop_rm_fd (ct_efd ct) w)))"

definition ev_eloop_new_counter ::
  "nat \<Rightarrow> nat option \<Rightarrow> nat \<Rightarrow> world \<Rightarrow> (errno + nat) \<times> world" where
  "ev_eloop_new_counter l cb data w =
     (case ev_counter_new cb data w of
        (Inl e, w) \<Rightarrow> (Inl e, w)
      | (Inr c, w) \<Rightarrow>
          (case ev_eloop_add_counter l c w of
             (Some e, w) \<Rightarrow> (Inl e, ev_counter_unref c w)
           | (None, w) \<Rightarrow> (Inr c, ev_counter_unref c w)))"

section \<open>Shared signals\<close>

definition signal_new :: "nat \<Rightarrow> nat \<Rightarrow> world \<Rightarrow> (errno + nat) \<times> world" where
  "signal_new l signum w =
     (case alloc w of (None, w) \<Rightarrow> (Inl ENOMEM, w) | (Some s, w) \<Rightarrow>
     (case shl_hook_new w of (Inl e, w) \<Rightarrow> (Inl e, w) | (Inr h, w) \<Rightarrow>
     (case sys_open w of (Inl e, w) \<Rightarrow> (Inl e, shl_hook_free h w) | (Inr k, w) \<Rightarrow>
     (case ev_eloop_new_fd l (int k) EV_READABLE (Some Fn_signal) s w of
        (Inl e, w) \<Rightarrow> (Inl e, shl_hook_free h (sys_close k w))
      | (Inr f, w) \<Rightarrow>
          (case w_loops w l of
             None \<Rightarrow> (Inr s, crash w)
           | Some lp \<Rightarrow>
               (Inr s, put_sig s (Some \<lparr>sg_list = l, sg_fd = f, sg_signum = signum, sg_hook = h\<rparr>)
                  (put_loop l (Some (lp\<lparr>el_sigs := s # el_sigs lp\<rparr>)) w)))))))"

text \<open>A callback that cannot be added takes the shared signal down, whoever else listens to it.\<close>

definition ev_eloop_register_signal_cb ::
  "nat \<Rightarrow> int \<Rightarrow> hook_fn option \<Rightarrow> nat \<Rightarrow> world \<Rightarrow> status \<times> world" where
  "ev_eloop_register_signal_cb l signum cb data w =
     (if signum < 0 \<or> cb = None then (fails EINVAL, w)
      else
        (case w_loops w l of
           None \<Rightarrow> (ok, crash w)
         | Some lp \<Rightarrow>
             (case (case find_sig (w_sigs w) (nat signum) (el_sigs lp) of
                      Some s \<Rightarrow> (Inr s, w)
                    | None \<Rightarrow> signal_new l (nat signum) w) of
                (Inl e, w) \<Rightarrow> (fails e, w)
              | (Inr s, w) \<Rightarrow>
                  (case w_sigs w s of
                     None \<Rightarrow> (ok, crash w)
                   | Some sg \<Rightarrow>
                       (case shl_hook_add (sg_hook sg) cb data False w of
                          (Some e, w) \<Rightarrow> (fails e, signal_free s w)
                        | (None, w) \<Rightarrow> (ok, w))))))"

definition ev_eloop_unregister_signal_cb ::
  "nat \<Rightarrow> nat \<Rightarrow> hook_fn option \<Rightarrow> nat \<Rightarrow> world \<Rightarrow> world" where
  "ev_eloop_unregister_signal_cb = unregister_signal_with ev_eloop_unref"

section \<open>Child, idle, pre and post callbacks\<close>

definition ev_eloop_register_child_cb ::
  "nat \<Rightarrow> hook_fn option \<Rightarrow> nat \<Rightarrow> world \<Rightarrow> status \<times> world" where
  "ev_eloop_register_child_cb l cb data w =
     (case w_loops w l of
        None \<Rightarrow> (ok, crash w)
      | Some lp \<Rightarrow>
          (let empty = (shl_hook_num (el_chlds lp) w = 0)
           in case shl_hook_add (el_chlds lp) cb data False w of
                (Some e, w) \<Rightarrow> (fails e, w)
              | (None, w) \<Rightarrow>
                  (if empty then
                     (case ev_eloop_register_signal_cb l (int SIGCHLD) (Some Hook_sig_child) l w of
                        (Some e, w) \<Rightarrow> (fails e, shl_hook_rm (el_chlds lp) cb data w)
                      | (None, w) \<Rightarrow> (ok, w))
                   else (ok, w))))"

definition ev_eloop_unregister_child_cb :: "nat \<Rightarrow> hook_fn option \<Rightarrow> nat \<Rightarrow> world \<Rightarrow> world" where
  "ev_eloop_unregister_child_cb l cb data w =
     (case w_loops w l of
        None \<Rightarrow> crash w
      | Some lp \<Rightarrow>
          (if shl_hook_num (el_chlds lp) w = 0 then w
           else
             (let w = shl_hook_rm (el_chlds lp) cb data w
              in if shl_hook_num (el_chlds lp) w = 0
                 then ev_eloop_unregister_signal_cb l SIGCHLD (Some Hook_sig_child) l w
                 else w)))"

definition EV_ONESHOT :: u32 where "EV_ONESHOT = 1"
definition EV_SINGLE :: u32 where "EV_SINGLE = 2"
definition EV_IDLE_ALL :: u32 where "EV_IDLE_ALL = EV_ONESHOT OR EV_SINGLE"

definition ev_eloop_register_idle_cb ::
  "nat \<Rightarrow> hook_fn option \<Rightarrow> nat \<Rightarrow> u32 \<Rightarrow> world \<Rightarrow> status \<times> world" where
  "ev_eloop_register_idle_cb l cb data flags w =
     (case w_loops w l of
        None \<Rightarrow> (ok, crash w)
      | Some lp \<Rightarrow>
          (if flags AND NOT EV_IDLE_ALL \<noteq> 0 then (fails EINVAL, w)
           else
             (let os = flags AND EV_ONESHOT \<noteq> 0
              in case (if flags AND EV_SINGLE \<noteq> 0
                       then shl_hook_add_single (el_idlers lp) cb data os w
                       else shl_hook_add (el_idlers lp) cb data os w) of
                   (Some e, w) \<Rightarrow> (fails e, w)
                 | (None, w) \<Rightarrow>
                     (case write_eventfd (el_idle_fd lp) 1 w of
                        (Some e, w) \<Rightarrow> (fails e, shl_hook_rm (el_idlers lp) cb data w)
                      | (None, w) \<Rightarrow> (ok, w)))))"

definition ev_eloop_unregister_idle_cb ::
  "nat \<Rightarrow> hook_fn option \<Rightarrow> nat \<Rightarrow> u32 \<Rightarrow> world \<Rightarrow> world" where
  "ev_eloop_unregister_idle_cb l cb data flags w =
     (case w_loops w l of
        None \<Rightarrow> crash w
      | Some lp \<Rightarrow>
          (if flags AND NOT EV_IDLE_ALL \<noteq> 0 then w
           else if flags AND EV_SINGLE \<noteq> 0 then shl_hook_rm_all (el_idlers lp) cb data w
           else shl_hook_rm (el_idlers lp) cb data w))"

definition ev_eloop_register_pre_cb ::
  "nat \<Rightarrow> hook_fn option \<Rightarrow> nat \<Rightarrow> world \<Rightarrow> status \<times> world" where
  "ev_eloop_register_pre_cb l cb data w =
     (case w_loops w l of
        None \<Rightarrow> (ok, crash w) | Some lp \<Rightarrow> shl_hook_add (el_pres lp) cb data False w)"

definition ev_eloop_unregister_pre_cb :: "nat \<Rightarrow> hook_fn option \<Rightarrow> nat \<Rightarrow> world \<Rightarrow> world" where
  "ev_eloop_unregister_pre_cb l cb data w =
     (case w_loops w l of
        None \<Rightarrow> crash w | Some lp \<Rightarrow> shl_hook_rm (el_pres lp) cb data w)"

definition ev_eloop_register_post_cb ::
  "nat \<Rightarrow> hook_fn option \<Rightarrow> nat \<Rightarrow> world \<Rightarrow> status \<times> world" where
  "ev_eloop_register_post_cb l cb data w =
     (case w_loops w l of
        None \<Rightarrow> (ok, crash w) | Some lp \<Rightarrow> shl_hook_add (el_posts lp) cb data False w)"

definition ev_eloop_unregister_post_cb :: "nat \<Rightarrow> hook_fn option \<Rightarrow> nat \<Rightarrow> world \<Rightarrow> world" where
  "ev_eloop_unregister_post_cb l cb data w =
     (case w_loops w l of
        None \<Rightarrow> crash w | Some lp \<Rightarrow> shl_hook_rm (el_posts lp) cb data w)"

section \<open>Dispatching\<close>

text \<open>
  \<open>user\<close> is the effect of the clients' callbacks, \<open>n\<close> the fuel of the hook calls and
  \<open>nested\<close> the dispatcher itself with less fuel, for the loops inside this one.
\<close>

definition run_plain ::
  "(ucall \<Rightarrow> world \<Rightarrow> world) \<Rightarrow> (nat \<Rightarrow> nat \<Rightarrow> ucall) \<Rightarrow> hook_fn shl_hook_entry \<Rightarrow> world \<Rightarrow> world" where
  "run_plain user mk e w =
     (case he_cb e of
        Hook_user c \<Rightarrow> call_user user (mk c (he_data e)) w
      | Hook_sig_child \<Rightarrow> w)"

primrec sig_child_loop ::
  "(ucall \<Rightarrow> world \<Rightarrow> world) \<Rightarrow> nat \<Rightarrow> nat \<Rightarrow> nat \<Rightarrow> world \<Rightarrow> world" where
  "sig_child_loop user n 0 l w = w\<lparr>h_stuck := True\<rparr>"
| "sig_child_loop user n (Suc m) l w =
     (case sys_waitpid w of
        (Wait_child pid st, w) \<Rightarrow>
          (case w_loops w l of
             None \<Rightarrow> crash w
           | Some lp \<Rightarrow>
               sig_child_loop user n m l
                 (shl_hook_call (run_plain user (\<lambda>c d. Call_child c l pid st d)) n (el_chlds lp) w))
      | (_, w) \<Rightarrow> w)"

definition sig_child :: "(ucall \<Rightarrow> world \<Rightarrow> world) \<Rightarrow> nat \<Rightarrow> nat \<Rightarrow> world \<Rightarrow> world" where
  "sig_child user n l w = sig_child_loop user n n l w"

definition run_signal ::
  "(ucall \<Rightarrow> world \<Rightarrow> world) \<Rightarrow> nat \<Rightarrow> nat \<Rightarrow> nat \<Rightarrow> hook_fn shl_hook_entry \<Rightarrow> world \<Rightarrow> world" where
  "run_signal user n l info e w =
     (case he_cb e of
        Hook_user c \<Rightarrow> call_user user (Call_signal c l info (he_data e)) w
      | Hook_sig_child \<Rightarrow> sig_child user n l w)"

definition shared_signal_cb ::
  "(ucall \<Rightarrow> world \<Rightarrow> world) \<Rightarrow> nat \<Rightarrow> ev_fd \<Rightarrow> u32 \<Rightarrow> nat \<Rightarrow> world \<Rightarrow> world" where
  "shared_signal_cb user n fd msk s w =
     (if msk AND EV_READABLE \<noteq> 0 then
        (case sys_read_siginfo (fd_fd fd) w of
           (None, w) \<Rightarrow> w
         | (Some info, w) \<Rightarrow>
             (case w_sigs w s of
                None \<Rightarrow> crash w
              | Some sg \<Rightarrow>
                  (case w_fds w (sg_fd sg) of
                     None \<Rightarrow> crash w
                   | Some sfd \<Rightarrow>
                       (case fd_loop sfd of
                          None \<Rightarrow> crash w
                        | Some l \<Rightarrow> shl_hook_call (run_signal user n l info) n (sg_hook sg) w))))
      else w)"

definition eloop_event :: "(nat \<Rightarrow> world \<Rightarrow> status \<times> world) \<Rightarrow> u32 \<Rightarrow> nat \<Rightarrow> world \<Rightarrow> world" where
  "eloop_event nested msk l w = (if msk AND EV_READABLE \<noteq> 0 then snd (nested l w) else w)"

definition eloop_idle_event :: "(ucall \<Rightarrow> world \<Rightarrow> world) \<Rightarrow> nat \<Rightarrow> nat \<Rightarrow> u32 \<Rightarrow> world \<Rightarrow> world" where
  "eloop_idle_event user n l msk w =
     (case w_loops w l of
        None \<Rightarrow> crash w
      | Some lp \<Rightarrow>
          (if msk AND (EV_HUP OR EV_ERR) \<noteq> 0 then epoll_ctl_del (el_efd lp) (el_idle_fd lp) w
           else if msk AND EV_READABLE = 0 then w
           else
             (case sys_read (el_idle_fd lp) w of
                (Read_fault e, w) \<Rightarrow>
                  (if e \<noteq> EAGAIN then epoll_ctl_del (el_efd lp) (el_idle_fd lp) w else w)
              | (Read_short _, w) \<Rightarrow> epoll_ctl_del (el_efd lp) (el_idle_fd lp) w
              | (Read val, w) \<Rightarrow>
                  (if 0 < val then
                     (let w = shl_hook_call (run_plain user (\<lambda>c d. Call_idle c l d)) n (el_idlers lp) w
                      in case w_loops w l of
                           None \<Rightarrow> crash w
                         | Some lp \<Rightarrow>
                             (if 0 < shl_hook_num (el_idlers lp) w
                              then snd (write_eventfd (el_idle_fd lp) 1 w) else w))
                   else w))))"

definition convert_mask :: "u32 \<Rightarrow> u32" where
  "convert_mask m =
     (if m AND EPOLLIN \<noteq> 0 then EV_READABLE else 0) OR
     (if m AND EPOLLOUT \<noteq> 0 then EV_WRITEABLE else 0) OR
     (if m AND EPOLLERR \<noteq> 0 then EV_ERR else 0) OR
     (if m AND EPOLLHUP \<noteq> 0 then EV_HUP else 0)"

definition run_fd_cb ::
  "(ucall \<Rightarrow> world \<Rightarrow> world) \<Rightarrow> (nat \<Rightarrow> world \<Rightarrow> status \<times> world) \<Rightarrow> nat \<Rightarrow> nat \<Rightarrow> nat \<Rightarrow> ev_fd \<Rightarrow> fd_fn \<Rightarrow>
   u32 \<Rightarrow> world \<Rightarrow> world" where
  "run_fd_cb user nested n l f fd cb msk w =
     (case cb of
        Fn_user c \<Rightarrow> call_user user (Call_fd l f fd msk) w
      | Fn_eloop \<Rightarrow> eloop_event nested msk (fd_data fd) w
      | Fn_signal \<Rightarrow> shared_signal_cb user n fd msk (fd_data fd) w
      | Fn_timer \<Rightarrow> timer_cb user msk (fd_data fd) w
      | Fn_counter \<Rightarrow> counter_event user msk (fd_data fd) w)"

text \<open>
  One event of the array, read from the loop as it is now: an earlier callback may have taken the
  source out of it.
\<close>

definition dispatch_one ::
  "(ucall \<Rightarrow> world \<Rightarrow> world) \<Rightarrow> (nat \<Rightarrow> world \<Rightarrow> status \<times> world) \<Rightarrow> nat \<Rightarrow> nat \<Rightarrow> nat \<Rightarrow> world \<Rightarrow> world" where
  "dispatch_one user nested n l i w =
     (case w_loops w l of
        None \<Rightarrow> crash w
      | Some lp \<Rightarrow>
          (if length (el_cur lp) \<le> i then crash w
           else
             (case el_cur lp ! i of (ev, p) \<Rightarrow>
                (if p = Ptr_loop l then eloop_idle_event user n l (convert_mask ev) w
                 else
                   (case p of
                      Null \<Rightarrow> w
                    | Ptr_loop _ \<Rightarrow> crash w
                    | Ptr_fd f \<Rightarrow>
                        (case w_fds w f of
                           None \<Rightarrow> crash w
                         | Some fd \<Rightarrow>
                             (case fd_cb fd of
                                None \<Rightarrow> w
                              | Some cb \<Rightarrow>
                                  (if \<not> fd_enabled fd then w
                                   else run_fd_cb user nested n l f fd cb (convert_mask ev) w))))))))"

primrec dispatch_events ::
  "(ucall \<Rightarrow> world \<Rightarrow> world) \<Rightarrow> (nat \<Rightarrow> world \<Rightarrow> status \<times> world) \<Rightarrow> nat \<Rightarrow> nat \<Rightarrow> nat \<Rightarrow> nat \<Rightarrow> world \<Rightarrow>
   world" where
  "dispatch_events user nested n l 0 i w = w"
| "dispatch_events user nested n l (Suc m) i w =
     dispatch_events user nested n l m (Suc i) (dispatch_one user nested n l i w)"

text \<open>A full array is doubled for the next round; when there is no memory it stays.\<close>

definition grow_events :: "nat \<Rightarrow> nat \<Rightarrow> world \<Rightarrow> world" where
  "grow_events l count w =
     (case w_loops w l of
        None \<Rightarrow> crash w
      | Some lp \<Rightarrow>
          (if count = el_size lp then
             (case alloc w of
                (None, w) \<Rightarrow> w
              | (Some b, w) \<Rightarrow>
                  put_loop l (Some (lp\<lparr>el_size := el_size lp * 2, el_array := b\<rparr>))
                    (keep_memory b (free_memory (el_array lp) w)))
           else w))"

definition out_dispatch ::
  "(ucall \<Rightarrow> world \<Rightarrow> world) \<Rightarrow> nat \<Rightarrow> nat \<Rightarrow> status \<Rightarrow> world \<Rightarrow> status \<times> world" where
  "out_dispatch user n l ret w =
     (case w_loops w l of
        None \<Rightarrow> (ret, crash w)
      | Some lp \<Rightarrow>
          (let w = shl_hook_call (run_plain user (\<lambda>c d. Call_post c l d)) n (el_posts lp) w
           in case w_loops w l of
                None \<Rightarrow> (ret, crash w)
              | Some lp \<Rightarrow> (ret, put_loop l (Some (lp\<lparr>el_dispatching := False\<rparr>)) w)))"

definition dispatch_round ::
  "(ucall \<Rightarrow> world \<Rightarrow> world) \<Rightarrow> (nat \<Rightarrow> world \<Rightarrow> status \<times> world) \<Rightarrow> nat \<Rightarrow> int \<Rightarrow> nat \<Rightarrow> world \<Rightarrow>
   status \<times> world" where
  "dispatch_round user nested n timeout l w =
     (case w_loops w l of
        None \<Rightarrow> (ok, crash w)
      | Some lp \<Rightarrow>
          (case sys_epoll_wait (el_efd lp) (el_size lp)
                  (w\<lparr>w_trace := w_trace w @ [Wait_events l timeout]\<rparr>) of
             (Inl e, w) \<Rightarrow> out_dispatch user n l (if e = EINTR then ok else fails e) w
           | (Inr evs, w) \<Rightarrow>
               out_dispatch user n l ok
                 (grow_events l (length evs)
                   (dispatch_events user nested n l (length evs) 0
                     (put_loop l (Some (lp\<lparr>el_cur := evs\<rparr>)) w)))))"

definition dispatch_body ::
  "(ucall \<Rightarrow> world \<Rightarrow> world) \<Rightarrow> (nat \<Rightarrow> world \<Rightarrow> status \<times> world) \<Rightarrow> nat \<Rightarrow> int \<Rightarrow> nat \<Rightarrow> world \<Rightarrow>
   status \<times> world" where
  "dispatch_body user nested n timeout l w =
     (case w_loops w l of
        None \<Rightarrow> (ok, crash w)
      | Some lp \<Rightarrow>
          (if el_exit lp then (fails EINVAL, w)
           else if el_dispatching lp then (fails EOPNOTSUPP, w)
           else
             dispatch_round user nested n timeout l
               (shl_hook_call (run_plain user (\<lambda>c d. Call_pre c l d)) n (el_pres lp)
                 (put_loop l (Some (lp\<lparr>el_dispatching := True\<rparr>)) w))))"

text \<open>The fuel bounds the depth of nested loops and the length of each hook call.\<close>

primrec ev_eloop_dispatch ::
  "(ucall \<Rightarrow> world \<Rightarrow> world) \<Rightarrow> nat \<Rightarrow> int \<Rightarrow> nat \<Rightarrow> world \<Rightarrow> status \<times> world" where
  "ev_eloop_dispatch user 0 timeout l w = (ok, w\<lparr>h_stuck := True\<rparr>)"
| "ev_eloop_dispatch user (Suc n) timeout l w =
     dispatch_body user (ev_eloop_dispatch user n 0) (Suc n) timeout l w"

text \<open>The milliseconds between two readings of the clock.\<close>

definition elapsed :: "int \<times> int \<Rightarrow> int \<times> int \<Rightarrow> int" where
  "elapsed start tv =
     (let off = fst tv - fst start;
          msec = snd tv - snd start;
          (off, msec) = (if msec < 0 then (off - 1, 1000000 + msec) else (off, msec))
      in off * 1000 + msec div 1000)"

primrec run_loop ::
  "(ucall \<Rightarrow> world \<Rightarrow> world) \<Rightarrow> nat \<Rightarrow> int \<times> int \<Rightarrow> nat \<Rightarrow> int \<Rightarrow> nat \<Rightarrow> world \<Rightarrow> status \<times> world" where
  "run_loop user n start 0 timeout l w = (ok, w\<lparr>h_stuck := True\<rparr>)"
| "run_loop user n start (Suc m) timeout l w =
     (case w_loops w l of
        None \<Rightarrow> (ok, crash w)
      | Some lp \<Rightarrow>
          (if el_exit lp then (ok, w)
           else
             (case ev_eloop_dispatch user n timeout l w of
                (Some e, w) \<Rightarrow> (fails e, w)
              | (None, w) \<Rightarrow>
                  (if timeout = 0 then (ok, w)
                   else if 0 < timeout then
                     (case sys_gettimeofday w of (tv, w) \<Rightarrow>
                        if timeout \<le> elapsed start tv then (ok, w)
                        else run_loop user n start m timeout l w)
                   else run_loop user n start m timeout l w))))"

definition ev_eloop_run ::
  "(ucall \<Rightarrow> world \<Rightarrow> world) \<Rightarrow> nat \<Rightarrow> nat \<Rightarrow> int \<Rightarrow> nat \<Rightarrow> world \<Rightarrow> status \<times> world" where
  "ev_eloop_run user n m timeout l w =
     (case w_loops w l of
        None \<Rightarrow> (ok, crash w)
      | Some lp \<Rightarrow>
          (case sys_gettimeofday (put_loop l (Some (lp\<lparr>el_exit := False\<rparr>)) w) of
             (start, w) \<Rightarrow> run_loop user n start m timeout l w))"

end
