(* ===== verification/Eloop_Inv.thy ===== *)
theory Eloop_Inv
  imports Eloop
begin

text \<open>
  What holds of the event loop between any two steps: the references that its objects hold on each
  other are counted, an epoll set points only at sources that are bound to its loop and enabled,
  and the owner of every internal source is there. The operations keep it, as long as a client
  gives up only references that it holds.

  \<open>ev_rely\<close> is what a step must leave alone while a loop is dispatching or a hook is being
  called.
\<close>

section \<open>The invariant\<close>

definition bound_set :: "(nat \<rightharpoonup> ev_fd) \<Rightarrow> nat \<Rightarrow> nat set" where
  "bound_set F l = {f. \<exists>fd. F f = Some fd \<and> fd_loop fd = Some l}"

definition is_bound :: "(nat \<rightharpoonup> ev_fd) \<Rightarrow> nat \<Rightarrow> bool" where
  "is_bound F f = (\<exists>fd. F f = Some fd \<and> fd_loop fd \<noteq> None)"

definition bnd :: "ev_fd \<Rightarrow> nat" where
  "bnd fd = (if fd_loop fd = None then 0 else 1)"

text \<open>The sources that clients may use directly.\<close>

definition client_fn :: "fd_fn option \<Rightarrow> bool" where
  "client_fn cb = (case cb of None \<Rightarrow> True | Some (Fn_user _) \<Rightarrow> True | _ \<Rightarrow> False)"

text \<open>
  The references on a source: a client's source has one for its loop and any number of the
  client's; the source of a timer, counter or loop has one of its owner, and the source of a
  shared signal only that of the loop.
\<close>

definition owned ::
  "(nat \<rightharpoonup> ev_eloop) \<Rightarrow> (nat \<rightharpoonup> ev_timer) \<Rightarrow> (nat \<rightharpoonup> ev_counter) \<Rightarrow> (nat \<rightharpoonup> ev_signal_shared) \<Rightarrow>
   nat \<Rightarrow> ev_fd \<Rightarrow> bool" where
  "owned L T C S f fd =
     (case fd_cb fd of
        None \<Rightarrow> 0 < fd_ref fd \<and> bnd fd \<le> fd_ref fd
      | Some (Fn_user _) \<Rightarrow> 0 < fd_ref fd \<and> bnd fd \<le> fd_ref fd
      | Some Fn_eloop \<Rightarrow> fd_ref fd = 1 + bnd fd \<and> (\<exists>lp. L (fd_data fd) = Some lp \<and> el_fd lp = f)
      | Some Fn_timer \<Rightarrow> fd_ref fd = 1 + bnd fd \<and> (\<exists>tm. T (fd_data fd) = Some tm \<and> tm_efd tm = f)
      | Some Fn_counter \<Rightarrow> fd_ref fd = 1 + bnd fd \<and> (\<exists>ct. C (fd_data fd) = Some ct \<and> ct_efd ct = f)
      | Some Fn_signal \<Rightarrow> fd_ref fd = 1 \<and> bnd fd = 1 \<and>
          (\<exists>sg. S (fd_data fd) = Some sg \<and> sg_fd sg = f))"

definition fds_ok ::
  "nat set \<Rightarrow> (nat \<rightharpoonup> ev_fd) \<Rightarrow> (nat \<rightharpoonup> ev_eloop) \<Rightarrow> (nat \<rightharpoonup> ev_timer) \<Rightarrow> (nat \<rightharpoonup> ev_counter) \<Rightarrow>
   (nat \<rightharpoonup> ev_signal_shared) \<Rightarrow> bool" where
  "fds_ok X F L T C S =
     (\<forall>f fd. F f = Some fd \<longrightarrow>
        (\<forall>l. fd_loop fd = Some l \<longrightarrow> L l \<noteq> None) \<and> (f \<notin> X \<longrightarrow> owned L T C S f fd))"

definition timers_ok :: "(nat \<rightharpoonup> ev_fd) \<Rightarrow> (nat \<rightharpoonup> ev_timer) \<Rightarrow> bool" where
  "timers_ok F T =
     (\<forall>t tm. T t = Some tm \<longrightarrow> 0 < tm_ref tm \<and>
        (\<exists>fd. F (tm_efd tm) = Some fd \<and> fd_cb fd = Some Fn_timer \<and> fd_data fd = t \<and>
              bnd fd \<le> tm_ref tm))"

definition counters_ok :: "(nat \<rightharpoonup> ev_fd) \<Rightarrow> (nat \<rightharpoonup> ev_counter) \<Rightarrow> bool" where
  "counters_ok F C =
     (\<forall>c ct. C c = Some ct \<longrightarrow> 0 < ct_ref ct \<and>
        (\<exists>fd. F (ct_efd ct) = Some fd \<and> fd_cb fd = Some Fn_counter \<and> fd_data fd = c \<and>
              bnd fd \<le> ct_ref ct))"

definition sigs_ok ::
  "nat set \<Rightarrow> (nat \<rightharpoonup> ev_fd) \<Rightarrow> (nat \<rightharpoonup> ev_eloop) \<Rightarrow> (nat \<rightharpoonup> ev_signal_shared) \<Rightarrow> bool" where
  "sigs_ok X F L S =
     ((\<forall>s sg. S s = Some sg \<longrightarrow> s \<notin> X \<longrightarrow>
        (\<exists>fd. F (sg_fd sg) = Some fd \<and> fd_cb fd = Some Fn_signal \<and> fd_data fd = s \<and>
              fd_loop fd = Some (sg_list sg)) \<and>
        (\<exists>lp. L (sg_list sg) = Some lp \<and> s \<in> set (el_sigs lp))) \<and>
      (\<forall>l lp. L l = Some lp \<longrightarrow>
        (\<forall>s \<in> set (el_sigs lp). s \<notin> X \<and> (\<exists>sg. S s = Some sg \<and> sg_list sg = l))))"

text \<open>
  A loop has its own source, counts a reference for each source that is bound to it, and one more
  while it is dispatching or bound to another loop.
\<close>

definition needed :: "(nat \<rightharpoonup> ev_fd) \<Rightarrow> nat \<Rightarrow> ev_eloop \<Rightarrow> nat" where
  "needed F l lp =
     card (bound_set F l) + (if el_dispatching lp \<or> is_bound F (el_fd lp) then 1 else 0)"

definition loops_ok :: "(nat \<rightharpoonup> ev_fd) \<Rightarrow> (nat \<rightharpoonup> ev_eloop) \<Rightarrow> bool" where
  "loops_ok F L =
     (\<forall>l lp. L l = Some lp \<longrightarrow>
        (\<exists>fd. F (el_fd lp) = Some fd \<and> fd_cb fd = Some Fn_eloop \<and> fd_data fd = l \<and>
              fd_fd fd = el_efd lp \<and> fd_enabled fd) \<and>
        0 < el_ref lp \<and> needed F l lp \<le> el_ref lp)"

definition polls_ok ::
  "(nat \<rightharpoonup> ev_fd) \<Rightarrow> (nat \<rightharpoonup> ev_eloop) \<Rightarrow> (nat \<Rightarrow> nat \<Rightarrow> (u32 \<times> ptr) option) \<Rightarrow> nat \<Rightarrow> bool" where
  "polls_ok F L E k =
     ((\<forall>l lp. L l = Some lp \<longrightarrow> el_efd lp < k \<and>
        (\<forall>j ev p. E (el_efd lp) j = Some (ev, p) \<longrightarrow>
           p = Ptr_loop l \<or>
           (\<exists>f fd. p = Ptr_fd f \<and> F f = Some fd \<and> fd_loop fd = Some l \<and> fd_enabled fd \<and>
                   fd_fd fd = j))) \<and>
      (\<forall>l l' lp lp'. L l = Some lp \<longrightarrow> L l' = Some lp' \<longrightarrow> el_efd lp = el_efd lp' \<longrightarrow> l = l'))"

definition hooks_of :: "ev_eloop \<Rightarrow> nat list" where
  "hooks_of lp = [el_chlds lp, el_idlers lp, el_pres lp, el_posts lp]"

text \<open>
  Every hook that an object uses exists, was not freed while it was being called, and belongs to
  that object alone.
\<close>

definition live :: "(nat \<rightharpoonup> hook_fn shl_hook) \<Rightarrow> nat \<Rightarrow> bool" where
  "live H h = (\<exists>hk. H h = Some hk \<and> \<not> hk_dead hk)"

lemma live_some: "live H h \<Longrightarrow> H h \<noteq> None"
  by (auto simp: live_def)

definition hooks_wf :: "nat \<Rightarrow> (nat \<rightharpoonup> hook_fn shl_hook) \<Rightarrow> bool" where
  "hooks_wf n H = (\<forall>h hk. H h = Some hk \<longrightarrow> hook_ok n hk)"

definition hooks_owned ::
  "nat set \<Rightarrow> (nat \<rightharpoonup> hook_fn shl_hook) \<Rightarrow> (nat \<rightharpoonup> ev_eloop) \<Rightarrow> (nat \<rightharpoonup> ev_signal_shared) \<Rightarrow> bool" where
  "hooks_owned X H L S =
     ((\<forall>l lp. L l = Some lp \<longrightarrow> distinct (hooks_of lp) \<and> (\<forall>h \<in> set (hooks_of lp). live H h)) \<and>
      (\<forall>s sg. S s = Some sg \<longrightarrow> s \<notin> X \<longrightarrow> live H (sg_hook sg)) \<and>
      (\<forall>l l' lp lp' h. L l = Some lp \<longrightarrow> L l' = Some lp' \<longrightarrow> h \<in> set (hooks_of lp) \<longrightarrow>
         h \<in> set (hooks_of lp') \<longrightarrow> l = l') \<and>
      (\<forall>s s' sg sg'. S s = Some sg \<longrightarrow> S s' = Some sg' \<longrightarrow> sg_hook sg = sg_hook sg' \<longrightarrow> s = s') \<and>
      (\<forall>s sg l lp. S s = Some sg \<longrightarrow> L l = Some lp \<longrightarrow> sg_hook sg \<notin> set (hooks_of lp)))"

definition below :: "nat \<Rightarrow> (nat \<rightharpoonup> 'a) \<Rightarrow> bool" where
  "below n m = (\<forall>i \<in> dom m. i < n)"

text \<open>
  A call of a source is a call of one that is enabled and bound to the loop that makes it. A timer
  or a counter is called while its own source is bound; with expirations only while that is enabled,
  and a timer whose source failed is disabled before it is told so with none.
\<close>

definition call_ok :: "ucall \<Rightarrow> bool" where
  "call_ok c =
     (case c of
        Call_fd l f fd msk \<Rightarrow> fd_loop fd = Some l \<and> fd_enabled fd \<and> fd_cb fd \<noteq> None
      | Call_timer cb t n d src \<Rightarrow>
          (\<exists>fd. src = Some fd \<and> fd_cb fd = Some Fn_timer \<and> fd_data fd = t \<and> fd_loop fd \<noteq> None \<and>
                (fd_enabled fd \<longleftrightarrow> 0 < n))
      | Call_counter cb c n d src \<Rightarrow>
          (\<exists>fd. src = Some fd \<and> fd_cb fd = Some Fn_counter \<and> fd_data fd = c \<and> fd_loop fd \<noteq> None \<and>
                (0 < n \<longrightarrow> fd_enabled fd))
      | _ \<Rightarrow> True)"

text \<open>The first part of \<open>X\<close> are the sources whose owner is not in place yet, the second the shared
  signals that are being taken down.\<close>

definition einv_but :: "nat set \<times> nat set \<Rightarrow> world \<Rightarrow> bool" where
  "einv_but X w =
     (\<not> h_crash w \<and>
      below (h_next w) (h_hooks w) \<and> below (h_next w) (w_fds w) \<and> below (h_next w) (w_loops w) \<and>
      below (h_next w) (w_timers w) \<and> below (h_next w) (w_counters w) \<and>
      below (h_next w) (w_sigs w) \<and>
      fds_ok (fst X) (w_fds w) (w_loops w) (w_timers w) (w_counters w) (w_sigs w) \<and>
      timers_ok (w_fds w) (w_timers w) \<and> counters_ok (w_fds w) (w_counters w) \<and>
      sigs_ok (snd X) (w_fds w) (w_loops w) (w_sigs w) \<and> loops_ok (w_fds w) (w_loops w) \<and>
      polls_ok (w_fds w) (w_loops w) (k_epoll w) (k_next w) \<and>
      hooks_wf (h_next w) (h_hooks w) \<and>
      hooks_owned (snd X) (h_hooks w) (w_loops w) (w_sigs w) \<and>
      (\<forall>c \<in> set (w_trace w). call_ok c))"

abbreviation einv :: "world \<Rightarrow> bool" where
  "einv \<equiv> einv_but ({}, {})"

text \<open>The events of a dispatching loop that are still to come.\<close>

definition cur_ok :: "(nat \<rightharpoonup> ev_fd) \<Rightarrow> nat \<Rightarrow> ev_eloop \<Rightarrow> bool" where
  "cur_ok F l lp =
     (\<forall>p \<in> snd ` set (el_cur lp).
        p = Null \<or> p = Ptr_loop l \<or>
        (\<exists>f fd. p = Ptr_fd f \<and> F f = Some fd \<and> fd_loop fd = Some l))"

definition slack :: "'c shl_hook \<Rightarrow> nat" where
  "slack hk = hk_num hk - length (hk_entries hk)"

definition ev_rely :: "world \<Rightarrow> world \<Rightarrow> bool" where
  "ev_rely w w' =
     ((\<forall>l lp. w_loops w l = Some lp \<longrightarrow> el_dispatching lp \<longrightarrow>
         (\<exists>lp'. w_loops w' l = Some lp' \<and> el_dispatching lp' \<and>
            length (el_cur lp') = length (el_cur lp) \<and> hooks_of lp' = hooks_of lp \<and>
            (cur_ok (w_fds w) l lp \<longrightarrow> cur_ok (w_fds w') l lp'))) \<and>
      (\<forall>h hk. h_hooks w h = Some hk \<longrightarrow> hk_cur hk \<noteq> No_entry \<longrightarrow>
         (\<exists>hk'. h_hooks w' h = Some hk' \<and> hk_cur hk' \<noteq> No_entry \<and> slack hk' = slack hk)))"

lemma ev_rely_refl [simp]: "ev_rely w w"
  by (simp add: ev_rely_def)

lemma ev_rely_trans: "ev_rely u v \<Longrightarrow> ev_rely v w \<Longrightarrow> ev_rely u w"
  unfolding ev_rely_def by (intro conjI allI impI) (metis+)

section \<open>Steps that do not concern the invariant\<close>

definition good :: "nat set \<times> nat set \<Rightarrow> world \<Rightarrow> world \<Rightarrow> bool" where
  "good X w w' = (einv_but X w' \<and> ev_rely w w')"

lemma goodD: "good X w w' \<Longrightarrow> einv_but X w'" "good X w w' \<Longrightarrow> ev_rely w w'"
  by (simp_all add: good_def)

lemma good_refl: "einv_but X w \<Longrightarrow> good X w w"
  by (simp add: good_def)

lemma good_trans: "good Y u v \<Longrightarrow> (einv_but Y v \<Longrightarrow> good X v w) \<Longrightarrow> good X u w"
  unfolding good_def using ev_rely_trans by blast

text \<open>The parts of the state that neither the invariant nor the steps of others look at.\<close>

definition same_objects :: "world \<Rightarrow> world \<Rightarrow> bool" where
  "same_objects w w' =
     (w_fds w' = w_fds w \<and> w_loops w' = w_loops w \<and> w_timers w' = w_timers w \<and>
      w_counters w' = w_counters w \<and> w_sigs w' = w_sigs w \<and> h_hooks w' = h_hooks w \<and>
      h_crash w' = h_crash w \<and> w_trace w' = w_trace w)"

lemma same_objects_refl [simp]: "same_objects w w"
  by (simp add: same_objects_def)

lemma same_objects_trans: "same_objects u v \<Longrightarrow> same_objects v w \<Longrightarrow> same_objects u w"
  by (simp add: same_objects_def)

lemma hooks_wf_mono: "hooks_wf n H \<Longrightarrow> n \<le> m \<Longrightarrow> hooks_wf m H"
  unfolding hooks_wf_def using hook_ok_mono by blast

lemma below_mono: "below n m \<Longrightarrow> n \<le> k \<Longrightarrow> below k m"
  unfolding below_def by (meson less_le_trans)

lemma polls_ok_mono:
  assumes "polls_ok F L E k" and "k \<le> k'" and E': "\<And>e j. E' e j = None \<or> E' e j = E e j"
  shows "polls_ok F L E' k'"
proof -
  have "E e j = Some x" if "E' e j = Some x" for e j x
    using E' [of e j] that by auto
  then show ?thesis
    using assms(1,2) unfolding polls_ok_def by (meson less_le_trans)
qed

lemma good_same:
  assumes inv: "einv_but X w" and same: "same_objects w w'" and next_le: "h_next w \<le> h_next w'"
    and k: "k_next w \<le> k_next w'"
    and E: "\<And>e j. k_epoll w' e j = None \<or> k_epoll w' e j = k_epoll w e j"
  shows "good X w w'"
proof -
  note eqs = same [unfolded same_objects_def]
  have "polls_ok (w_fds w) (w_loops w) (k_epoll w') (k_next w')"
    by (rule polls_ok_mono [OF _ k E]) (use inv in \<open>simp add: einv_but_def\<close>)
  moreover have "hooks_wf (h_next w') (h_hooks w)"
    by (rule hooks_wf_mono [OF _ next_le]) (use inv in \<open>simp add: einv_but_def\<close>)
  ultimately have "einv_but X w'"
    using inv eqs by (simp add: einv_but_def below_mono [OF _ next_le])
  moreover have "ev_rely w w'"
    using eqs by (simp add: ev_rely_def)
  ultimately show ?thesis by (simp add: good_def)
qed

text \<open>What the requests to the allocator and to the kernel leave alone.\<close>

definition quiet :: "world \<Rightarrow> world \<Rightarrow> bool" where
  "quiet w w' =
     (same_objects w w' \<and> h_next w \<le> h_next w' \<and> k_next w \<le> k_next w' \<and>
      (\<forall>e j. k_epoll w' e j = None \<or> k_epoll w' e j = k_epoll w e j))"

lemma quiet_good: "einv_but X w \<Longrightarrow> quiet w w' \<Longrightarrow> good X w w'"
  by (rule good_same) (auto simp: quiet_def)

lemma quiet_refl [simp]: "quiet w w"
  by (simp add: quiet_def)

lemma quiet_trans: "quiet u v \<Longrightarrow> quiet v w \<Longrightarrow> quiet u w"
  unfolding quiet_def by (metis le_trans same_objects_trans)

lemma ask_quiet: "ask w = (a, w') \<Longrightarrow> quiet w w'"
  by (auto simp: ask_def quiet_def same_objects_def split: list.splits)

lemma free_memory_quiet: "quiet w (free_memory a w)" and keep_memory_quiet: "quiet w (keep_memory a w)"
  by (simp_all add: free_memory_def keep_memory_def quiet_def same_objects_def)

lemma memory_fields [simp]:
  "w_fds (free_memory a w) = w_fds w" "w_loops (free_memory a w) = w_loops w"
  "w_timers (free_memory a w) = w_timers w" "w_counters (free_memory a w) = w_counters w"
  "w_sigs (free_memory a w) = w_sigs w" "h_hooks (free_memory a w) = h_hooks w"
  "h_next (free_memory a w) = h_next w" "k_next (free_memory a w) = k_next w" "k_epoll (free_memory a w) = k_epoll w"
  "w_fds (keep_memory a w) = w_fds w" "w_loops (keep_memory a w) = w_loops w"
  "w_timers (keep_memory a w) = w_timers w" "w_counters (keep_memory a w) = w_counters w"
  "w_sigs (keep_memory a w) = w_sigs w" "h_hooks (keep_memory a w) = h_hooks w"
  "h_next (keep_memory a w) = h_next w" "k_next (keep_memory a w) = k_next w" "k_epoll (keep_memory a w) = k_epoll w"
  by (simp_all add: free_memory_def keep_memory_def)

lemma alloc_quiet: "alloc w = (r, w') \<Longrightarrow> quiet w w'"
  by (auto simp: alloc_def ask_def quiet_def same_objects_def split: list.splits answer.splits)

lemma alloc_Some: "alloc w = (Some i, w') \<Longrightarrow> i = h_next w \<and> h_next w' = Suc i"
  by (auto simp: alloc_def ask_def split: list.splits answer.splits)

lemma sys_open_quiet: "sys_open w = (r, w') \<Longrightarrow> quiet w w'"
  by (auto simp: sys_open_def ask_def quiet_def same_objects_def split: list.splits option.splits)

lemma sys_open_Inr:
  "sys_open w = (Inr k, w') \<Longrightarrow> k = k_next w \<and> k_next w' = Suc k \<and> k_epoll w' k = Map.empty"
  by (auto simp: sys_open_def ask_def split: list.splits option.splits)

lemma sys_close_quiet: "quiet w (sys_close k w)"
  by (simp add: sys_close_def quiet_def same_objects_def)

lemma epoll_ctl_del_quiet: "quiet w (epoll_ctl_del e k w)"
  by (simp add: epoll_ctl_del_def quiet_def same_objects_def)

lemma sys_read_quiet: "sys_read k w = (r, w') \<Longrightarrow> quiet w w'"
  by (auto simp: sys_read_def ask_def quiet_def same_objects_def
      split: list.splits answer.splits if_splits)

lemma sys_read_siginfo_quiet: "sys_read_siginfo k w = (r, w') \<Longrightarrow> quiet w w'"
  by (auto simp: sys_read_siginfo_def ask_def quiet_def same_objects_def
      split: list.splits answer.splits if_splits option.splits)

lemma sys_write_eventfd_quiet: "sys_write_eventfd k v w = (r, w') \<Longrightarrow> quiet w w'"
  by (auto simp: sys_write_eventfd_def ask_def quiet_def same_objects_def
      split: list.splits if_splits option.splits)

lemma sys_settime_quiet: "sys_settime k v w = (r, w') \<Longrightarrow> quiet w w'"
  by (auto simp: sys_settime_def ask_def quiet_def same_objects_def
      split: list.splits if_splits option.splits)

lemma sys_waitpid_quiet: "sys_waitpid w = (r, w') \<Longrightarrow> quiet w w'"
  by (auto simp: sys_waitpid_def quiet_def same_objects_def split: list.splits)

lemma sys_gettimeofday_quiet: "sys_gettimeofday w = (r, w') \<Longrightarrow> quiet w w'"
  by (auto simp: sys_gettimeofday_def quiet_def same_objects_def split: list.splits)

lemma sys_epoll_wait_quiet: "sys_epoll_wait e sz w = (r, w') \<Longrightarrow> quiet w w'"
  by (auto simp: sys_epoll_wait_def quiet_def same_objects_def split: list.splits poll.splits)

lemma efault_world: "efault r = (s, w) \<Longrightarrow> snd r = w"
  by (auto simp: efault_def split: prod.splits option.splits)

lemma write_eventfd_quiet: "write_eventfd k v w = (r, w') \<Longrightarrow> quiet w w'"
  using sys_write_eventfd_quiet efault_world
  by (auto simp: write_eventfd_def split: if_splits) (metis prod.collapse)

lemma stuck_quiet: "quiet w (w\<lparr>h_stuck := b\<rparr>)"
  by (simp add: quiet_def same_objects_def)

section \<open>Changing one source\<close>

lemma einv_parts:
  assumes "einv_but X w"
  shows einv_crash: "\<not> h_crash w"
    and einv_below: "below (h_next w) (h_hooks w)" "below (h_next w) (w_fds w)"
      "below (h_next w) (w_loops w)" "below (h_next w) (w_timers w)"
      "below (h_next w) (w_counters w)" "below (h_next w) (w_sigs w)"
    and einv_fds: "fds_ok (fst X) (w_fds w) (w_loops w) (w_timers w) (w_counters w) (w_sigs w)"
    and einv_timers: "timers_ok (w_fds w) (w_timers w)"
    and einv_counters: "counters_ok (w_fds w) (w_counters w)"
    and einv_sigs: "sigs_ok (snd X) (w_fds w) (w_loops w) (w_sigs w)"
    and einv_loops: "loops_ok (w_fds w) (w_loops w)"
    and einv_polls: "polls_ok (w_fds w) (w_loops w) (k_epoll w) (k_next w)"
    and einv_hooks: "hooks_wf (h_next w) (h_hooks w)"
    and einv_owned: "hooks_owned (snd X) (h_hooks w) (w_loops w) (w_sigs w)"
    and einv_trace: "\<forall>c \<in> set (w_trace w). call_ok c"
  using assms by (simp_all add: einv_but_def)

lemma loops_okD:
  assumes "loops_ok F L" and "L l = Some lp"
  obtains fd where "F (el_fd lp) = Some fd" "fd_cb fd = Some Fn_eloop" "fd_data fd = l"
    "fd_fd fd = el_efd lp" "fd_enabled fd" "0 < el_ref lp" "needed F l lp \<le> el_ref lp"
  using assms unfolding loops_ok_def by blast

lemma bound_set_upd:
  "bound_set (F(f \<mapsto> fd)) l =
     (if fd_loop fd = Some l then insert f (bound_set F l) else bound_set F l - {f})"
  by (auto simp: bound_set_def)

lemma bound_set_del: "bound_set (F(f := None)) l = bound_set F l - {f}"
  by (auto simp: bound_set_def)

lemma bound_set_finite: "below n F \<Longrightarrow> finite (bound_set F l)"
  by (rule finite_subset [of _ "{..<n}"]) (auto simp: bound_set_def below_def)

lemma bound_set_iff: "F f = Some fd \<Longrightarrow> f \<in> bound_set F l \<longleftrightarrow> fd_loop fd = Some l"
  by (auto simp: bound_set_def)

lemma bound_set_same:
  "F f = Some fd \<Longrightarrow> fd_loop fd' = fd_loop fd \<Longrightarrow> bound_set (F(f \<mapsto> fd')) l = bound_set F l"
  by (auto simp: bound_set_def)

lemma is_bound_upd: "is_bound (F(f \<mapsto> fd)) g = (if g = f then fd_loop fd \<noteq> None else is_bound F g)"
  by (auto simp: is_bound_def)

lemma is_bound_iff: "F f = Some fd \<Longrightarrow> is_bound F f = (fd_loop fd \<noteq> None)"
  by (simp add: is_bound_def)

lemma needed_same:
  "F f = Some fd \<Longrightarrow> fd_loop fd' = fd_loop fd \<Longrightarrow> needed (F(f \<mapsto> fd')) l lp = needed F l lp"
  by (simp add: needed_def bound_set_same is_bound_upd is_bound_iff [of F f])

lemma cur_ok_same:
  assumes "F f = Some fd" and "fd_loop fd' = fd_loop fd"
  shows "cur_ok (F(f \<mapsto> fd')) l lp = cur_ok F l lp"
proof -
  have "(\<exists>g fd. p = Ptr_fd g \<and> (F(f \<mapsto> fd')) g = Some fd \<and> fd_loop fd = Some l) =
        (\<exists>g fd. p = Ptr_fd g \<and> F g = Some fd \<and> fd_loop fd = Some l)" for p
    using assms by auto
  then show ?thesis by (simp only: cur_ok_def)
qed

text \<open>Whether two callbacks belong to the same owner: clients may exchange theirs.\<close>

definition same_kind :: "ev_fd \<Rightarrow> ev_fd \<Rightarrow> bool" where
  "same_kind fd fd' =
     ((fd_cb fd' = fd_cb fd \<and> fd_data fd' = fd_data fd) \<or>
      (client_fn (fd_cb fd) \<and> client_fn (fd_cb fd')))"

lemma client_fn_simps [simp]:
  "client_fn None" "client_fn (Some (Fn_user c))" "\<not> client_fn (Some Fn_eloop)"
  "\<not> client_fn (Some Fn_timer)" "\<not> client_fn (Some Fn_counter)" "\<not> client_fn (Some Fn_signal)"
  by (simp_all add: client_fn_def)

lemma owned_client:
  "client_fn (fd_cb fd) \<Longrightarrow> owned L T C S f fd = (0 < fd_ref fd \<and> bnd fd \<le> fd_ref fd)"
  by (auto simp: owned_def client_fn_def split: option.splits fd_fn.splits)

lemma bnd_same: "fd_loop fd' = fd_loop fd \<Longrightarrow> bnd fd' = bnd fd"
  by (simp add: bnd_def)

lemma owned_same:
  "fd_cb fd' = fd_cb fd \<Longrightarrow> fd_data fd' = fd_data fd \<Longrightarrow> fd_ref fd' = fd_ref fd \<Longrightarrow>
   bnd fd' = bnd fd \<Longrightarrow> owned L T C S f fd' = owned L T C S f fd"
  by (cases "fd_cb fd") (simp_all add: owned_def split: fd_fn.splits)

lemma timers_ok_upd:
  assumes "timers_ok F T" and "F f = Some fd" and "fd_loop fd' = fd_loop fd" and "same_kind fd fd'"
  shows "timers_ok (F(f \<mapsto> fd')) T"
  using assms unfolding timers_ok_def same_kind_def bnd_def by fastforce

lemma counters_ok_upd:
  assumes "counters_ok F C" and "F f = Some fd" and "fd_loop fd' = fd_loop fd" and "same_kind fd fd'"
  shows "counters_ok (F(f \<mapsto> fd')) C"
  using assms unfolding counters_ok_def same_kind_def bnd_def by fastforce

lemma sigs_ok_upd:
  assumes "sigs_ok X F L S" and "F f = Some fd" and "fd_loop fd' = fd_loop fd" and "same_kind fd fd'"
  shows "sigs_ok X (F(f \<mapsto> fd')) L S"
  using assms unfolding sigs_ok_def same_kind_def by fastforce

lemma loops_ok_upd:
  assumes "loops_ok F L" and "F f = Some fd" and "fd_loop fd' = fd_loop fd" and "same_kind fd fd'"
    and "fd_fd fd' = fd_fd fd" and "client_fn (fd_cb fd') \<or> fd_enabled fd' = fd_enabled fd \<or> fd_enabled fd'"
  shows "loops_ok (F(f \<mapsto> fd')) L"
proof -
  have "\<exists>fd. (F(f \<mapsto> fd')) (el_fd lp) = Some fd \<and> fd_cb fd = Some Fn_eloop \<and> fd_data fd = l \<and>
          fd_fd fd = el_efd lp \<and> fd_enabled fd" if "L l = Some lp" for l lp
    using assms that unfolding loops_ok_def same_kind_def by fastforce
  then show ?thesis
    using assms(1) needed_same [where F = F, OF assms(2,3)] by (simp add: loops_ok_def)
qed

lemma polls_ok_upd:
  assumes "polls_ok F L E k" and "F f = Some fd" and "fd_loop fd' = fd_loop fd"
    and "fd_fd fd' = fd_fd fd"
    and dis: "fd_enabled fd' \<or> fd_enabled fd' = fd_enabled fd \<or>
      (\<forall>l lp ev. L l = Some lp \<longrightarrow> fd_loop fd = Some l \<longrightarrow> E (el_efd lp) (fd_fd fd) \<noteq> Some (ev, Ptr_fd f))"
  shows "polls_ok (F(f \<mapsto> fd')) L E k"
proof -
  have "p = Ptr_loop l \<or> (\<exists>g gd. p = Ptr_fd g \<and> (F(f \<mapsto> fd')) g = Some gd \<and>
           fd_loop gd = Some l \<and> fd_enabled gd \<and> fd_fd gd = j)"
    if lp: "L l = Some lp" and e: "E (el_efd lp) j = Some (ev, p)" for l lp j ev p
  proof -
    from assms(1) lp e have "p = Ptr_loop l \<or> (\<exists>g gd. p = Ptr_fd g \<and> F g = Some gd \<and>
           fd_loop gd = Some l \<and> fd_enabled gd \<and> fd_fd gd = j)"
      unfolding polls_ok_def by blast
    then show ?thesis
    proof (elim disjE exE conjE)
      fix g gd
      assume g: "p = Ptr_fd g" "F g = Some gd" "fd_loop gd = Some l" "fd_enabled gd" "fd_fd gd = j"
      show ?thesis
      proof (cases "g = f")
        case True
        then have "gd = fd" using g(2) assms(2) by simp
        then have "fd_enabled fd'" using dis lp e g True by auto
        then show ?thesis using g True \<open>gd = fd\<close> assms(3,4) by auto
      qed (use g in auto)
    qed simp
  qed
  then show ?thesis using assms(1) unfolding polls_ok_def by blast
qed

lemma good_put_fd:
  assumes inv: "einv_but X w" and fd: "w_fds w f = Some fd"
    and loop: "fd_loop fd' = fd_loop fd" and same_fd: "fd_fd fd' = fd_fd fd"
    and kind: "same_kind fd fd'"
    and ref: "f \<notin> fst X \<Longrightarrow> if client_fn (fd_cb fd') then 0 < fd_ref fd' \<and> bnd fd' \<le> fd_ref fd'
                         else fd_ref fd' = fd_ref fd"
    and en: "client_fn (fd_cb fd') \<or> fd_cb fd \<noteq> Some Fn_eloop \<or> fd_enabled fd' = fd_enabled fd \<or> fd_enabled fd'"
    and dis: "fd_enabled fd' \<or> fd_enabled fd' = fd_enabled fd \<or>
      (\<forall>l lp ev. w_loops w l = Some lp \<longrightarrow> fd_loop fd = Some l \<longrightarrow>
         k_epoll w (el_efd lp) (fd_fd fd) \<noteq> Some (ev, Ptr_fd f))"
  shows "good X w (put_fd f (Some fd') w)"
proof -
  let ?F = "(w_fds w)(f \<mapsto> fd')"
  have lt: "f < h_next w" using inv fd by (auto simp: einv_but_def below_def)
  have fds: "fds_ok (fst X) ?F (w_loops w) (w_timers w) (w_counters w) (w_sigs w)"
  proof -
    have "owned (w_loops w) (w_timers w) (w_counters w) (w_sigs w) f fd'" if "f \<notin> fst X"
    proof (cases "client_fn (fd_cb fd')")
      case True
      then show ?thesis using ref [OF that] by (simp add: owned_client)
    next
      case False
      then have "owned (w_loops w) (w_timers w) (w_counters w) (w_sigs w) f fd"
        using inv fd that by (simp add: einv_but_def fds_ok_def)
      moreover have "fd_cb fd' = fd_cb fd" "fd_data fd' = fd_data fd" "fd_ref fd' = fd_ref fd"
        using kind ref [OF that] False by (auto simp: same_kind_def)
      ultimately show ?thesis
        using owned_same [OF _ _ _ bnd_same [OF loop]] by metis
    qed
    then show ?thesis using inv fd loop by (auto simp: einv_but_def fds_ok_def)
  qed
  have lo: "loops_ok ?F (w_loops w)"
  proof (cases "client_fn (fd_cb fd') \<or> fd_enabled fd' = fd_enabled fd \<or> fd_enabled fd'")
    case True
    then show ?thesis
      using loops_ok_upd [where F = "w_fds w", OF _ fd loop kind same_fd] inv by (simp add: einv_but_def)
  next
    case False
    then have ne: "fd_cb fd \<noteq> Some Fn_eloop" using en by blast
    have "el_fd lp \<noteq> f" if "w_loops w l = Some lp" for l lp
      by (rule loops_okD [OF einv_loops [OF inv] that]) (use ne fd in auto)
    then show ?thesis
      using inv needed_same [where F = "w_fds w", OF fd loop] by (auto simp: einv_but_def loops_ok_def)
  qed
  have po: "polls_ok ?F (w_loops w) (k_epoll w) (k_next w)"
    using polls_ok_upd [OF einv_polls [OF inv] fd loop same_fd] dis by blast
  have "einv_but X (put_fd f (Some fd') w)"
    using inv fds lo po lt timers_ok_upd [where F = "w_fds w", OF _ fd loop kind] counters_ok_upd [where F = "w_fds w", OF _ fd loop kind]
      sigs_ok_upd [where F = "w_fds w", OF _ fd loop kind]
    by (simp add: einv_but_def put_fd_def below_def)
  moreover have "ev_rely w (put_fd f (Some fd') w)"
    by (simp add: ev_rely_def put_fd_def cur_ok_same [where F = "w_fds w", OF fd loop])
  ultimately show ?thesis by (simp add: good_def)
qed

section \<open>Adding and removing a source\<close>

lemma polls_okD:
  assumes "polls_ok F L E k" and "L l = Some lp" and "E (el_efd lp) j = Some (ev, p)"
  obtains (loop) "p = Ptr_loop l"
    | (fd) f fd where "p = Ptr_fd f" "F f = Some fd" "fd_loop fd = Some l" "fd_enabled fd"
        "fd_fd fd = j"
  using assms unfolding polls_ok_def by blast

lemma good_epoll_set:
  assumes inv: "einv_but X w" and lp: "w_loops w l = Some lp" and fd: "w_fds w f = Some fd"
    and loop: "fd_loop fd = Some l" and en: "fd_enabled fd"
  shows "good X w (w\<lparr>k_epoll := (k_epoll w)(el_efd lp :=
           (k_epoll w (el_efd lp))(fd_fd fd \<mapsto> (ev, Ptr_fd f)))\<rparr>)"
proof -
  let ?E = "(k_epoll w)(el_efd lp := (k_epoll w (el_efd lp))(fd_fd fd \<mapsto> (ev, Ptr_fd f)))"
  have uniq: "l' = l" if "w_loops w l' = Some lp'" "el_efd lp' = el_efd lp" for l' lp'
    using einv_polls [OF inv] lp that unfolding polls_ok_def by blast
  have "p = Ptr_loop l' \<or> (\<exists>f fd. p = Ptr_fd f \<and> w_fds w f = Some fd \<and> fd_loop fd = Some l' \<and>
           fd_enabled fd \<and> fd_fd fd = j)"
    if lp': "w_loops w l' = Some lp'" and e: "?E (el_efd lp') j = Some (ev', p)" for l' lp' j ev' p
  proof (cases "el_efd lp' = el_efd lp \<and> j = fd_fd fd")
    case True
    then show ?thesis using uniq [OF lp'] fd loop en e by auto
  next
    case False
    then have "k_epoll w (el_efd lp') j = Some (ev', p)" using e by (auto split: if_splits)
    from polls_okD [OF einv_polls [OF inv] lp' this] show ?thesis by metis
  qed
  moreover have "\<forall>l lp. w_loops w l = Some lp \<longrightarrow> el_efd lp < k_next w"
    "\<forall>l l' lp lp'. w_loops w l = Some lp \<longrightarrow> w_loops w l' = Some lp' \<longrightarrow> el_efd lp = el_efd lp' \<longrightarrow> l = l'"
    using einv_polls [OF inv] unfolding polls_ok_def by blast+
  ultimately have "polls_ok (w_fds w) (w_loops w) ?E (k_next w)"
    unfolding polls_ok_def by blast
  then have "einv_but X (w\<lparr>k_epoll := ?E\<rparr>)"
    using inv by (simp add: einv_but_def)
  then show ?thesis by (simp add: good_def ev_rely_def)
qed

text \<open>Bound sources that stay as they are keep the epoll sets and the pending events right.\<close>

lemma polls_ok_fds:
  assumes ok: "polls_ok F L E k"
    and keep: "\<And>f fd. F f = Some fd \<Longrightarrow> fd_loop fd \<noteq> None \<Longrightarrow> F' f = Some fd"
  shows "polls_ok F' L E k"
proof -
  have "p = Ptr_loop l \<or> (\<exists>f fd. p = Ptr_fd f \<and> F' f = Some fd \<and> fd_loop fd = Some l \<and>
          fd_enabled fd \<and> fd_fd fd = j)"
    if "L l = Some lp" "E (el_efd lp) j = Some (ev, p)" for l lp j ev p
    using ok that by (rule polls_okD) (use keep in auto)
  then show ?thesis using ok unfolding polls_ok_def by blast
qed

lemma cur_ok_fds:
  assumes ok: "cur_ok F l lp"
    and keep: "\<And>f fd. F f = Some fd \<Longrightarrow> fd_loop fd = Some l \<Longrightarrow>
      \<exists>fd'. F' f = Some fd' \<and> fd_loop fd' = Some l"
  shows "cur_ok F' l lp"
  unfolding cur_ok_def
proof
  fix p assume "p \<in> snd ` set (el_cur lp)"
  then have "p = Null \<or> p = Ptr_loop l \<or> (\<exists>f fd. p = Ptr_fd f \<and> F f = Some fd \<and> fd_loop fd = Some l)"
    using ok unfolding cur_ok_def by blast
  then show "p = Null \<or> p = Ptr_loop l \<or> (\<exists>f fd. p = Ptr_fd f \<and> F' f = Some fd \<and> fd_loop fd = Some l)"
    using keep by blast
qed

lemma timers_ok_fds:
  "timers_ok F T \<Longrightarrow> (\<And>t tm. T t = Some tm \<Longrightarrow> F' (tm_efd tm) = F (tm_efd tm)) \<Longrightarrow>
   timers_ok F' T"
  by (simp add: timers_ok_def)

lemma counters_ok_fds:
  "counters_ok F C \<Longrightarrow> (\<And>c ct. C c = Some ct \<Longrightarrow> F' (ct_efd ct) = F (ct_efd ct)) \<Longrightarrow>
   counters_ok F' C"
  by (simp add: counters_ok_def)

lemma sigs_ok_fds:
  "sigs_ok X F L S \<Longrightarrow> (\<And>s sg. S s = Some sg \<Longrightarrow> s \<notin> X \<Longrightarrow> F' (sg_fd sg) = F (sg_fd sg)) \<Longrightarrow>
   sigs_ok X F' L S"
  by (simp add: sigs_ok_def)

text \<open>No object owns the source.\<close>

definition orphan :: "nat set \<times> nat set \<Rightarrow> world \<Rightarrow> ev_fd \<Rightarrow> bool" where
  "orphan X w fd =
     (case fd_cb fd of
        Some Fn_eloop \<Rightarrow> w_loops w (fd_data fd) = None
      | Some Fn_timer \<Rightarrow> w_timers w (fd_data fd) = None
      | Some Fn_counter \<Rightarrow> w_counters w (fd_data fd) = None
      | Some Fn_signal \<Rightarrow> fd_data fd \<in> snd X \<or> w_sigs w (fd_data fd) = None
      | _ \<Rightarrow> True)"

lemma orphan_client: "client_fn (fd_cb fd) \<Longrightarrow> orphan X w fd"
  by (auto simp: orphan_def client_fn_def split: option.splits fd_fn.splits)

lemma card_Diff_le: "finite A \<Longrightarrow> card (A - {x}) \<le> card A"
  by (simp add: card_mono)

lemma needed_del:
  assumes "below n F" and "el_fd lp \<noteq> f"
  shows "needed (F(f := None)) l lp \<le> needed F l lp"
proof -
  have "card (bound_set (F(f := None)) l) \<le> card (bound_set F l)"
    using bound_set_finite [OF assms(1)] by (simp add: bound_set_del card_Diff_le)
  then show ?thesis using assms(2) by (simp add: needed_def is_bound_def)
qed

lemma good_del_fd:
  assumes inv: "einv_but X w" and fd: "w_fds w f = Some fd" and un: "fd_loop fd = None"
    and orph: "orphan X w fd"
  shows "good X w (put_fd f None w)"
proof -
  let ?F = "(w_fds w)(f := None)"
  have t: "tm_efd tm \<noteq> f" if "w_timers w t = Some tm" for t tm
    using einv_timers [OF inv] that fd orph unfolding timers_ok_def orphan_def by fastforce
  have c: "ct_efd ct \<noteq> f" if "w_counters w t = Some ct" for t ct
    using einv_counters [OF inv] that fd orph unfolding counters_ok_def orphan_def by fastforce
  have s: "sg_fd sg \<noteq> f" if "w_sigs w t = Some sg" "t \<notin> snd X" for t sg
    using einv_sigs [OF inv] that fd un unfolding sigs_ok_def by fastforce
  have l: "el_fd lp \<noteq> f" if "w_loops w l = Some lp" for l lp
    by (rule loops_okD [OF einv_loops [OF inv] that]) (use fd orph that in \<open>auto simp: orphan_def\<close>)
  have "fds_ok (fst X) ?F (w_loops w) (w_timers w) (w_counters w) (w_sigs w)"
    using einv_fds [OF inv] by (simp add: fds_ok_def)
  moreover have "timers_ok ?F (w_timers w)"
    by (rule timers_ok_fds [OF einv_timers [OF inv]]) (use t in auto)
  moreover have "counters_ok ?F (w_counters w)"
    by (rule counters_ok_fds [OF einv_counters [OF inv]]) (use c in auto)
  moreover have "sigs_ok (snd X) ?F (w_loops w) (w_sigs w)"
    by (rule sigs_ok_fds [OF einv_sigs [OF inv]]) (use s in auto)
  moreover have "loops_ok ?F (w_loops w)"
    unfolding loops_ok_def
  proof (intro allI impI)
    fix k lp assume lp: "w_loops w k = Some lp"
    show "(\<exists>fd. ?F (el_fd lp) = Some fd \<and> fd_cb fd = Some Fn_eloop \<and> fd_data fd = k \<and>
            fd_fd fd = el_efd lp \<and> fd_enabled fd) \<and> 0 < el_ref lp \<and> needed ?F k lp \<le> el_ref lp"
      by (rule loops_okD [OF einv_loops [OF inv] lp])
         (use l [OF lp] needed_del [OF einv_below(2) [OF inv] l [OF lp], of k] in auto)
  qed
  moreover have "polls_ok ?F (w_loops w) (k_epoll w) (k_next w)"
    by (rule polls_ok_fds [OF einv_polls [OF inv]]) (use fd un in auto)
  moreover have "below (h_next w) ?F"
    using einv_below(2) [OF inv] by (simp add: below_def)
  ultimately have "einv_but X (put_fd f None w)"
    using inv by (simp add: einv_but_def put_fd_def)
  moreover have "ev_rely w (put_fd f None w)"
  proof -
    have "cur_ok ?F l lp" if "cur_ok (w_fds w) l lp" for l lp
      by (rule cur_ok_fds [OF that]) (use fd un in auto)
    then show ?thesis by (simp add: ev_rely_def put_fd_def)
  qed
  ultimately show ?thesis by (simp add: good_def)
qed

lemma needed_new:
  "F f = None \<Longrightarrow> fd_loop fd = None \<Longrightarrow> needed (F(f \<mapsto> fd)) l lp = needed F l lp"
  by (simp add: needed_def bound_set_upd is_bound_upd) (auto simp: bound_set_def is_bound_def)

lemma good_new_fd:
  assumes inv: "einv_but X w" and fd: "w_fds w f = None" and lt: "f < h_next w"
    and un: "fd_loop fd = None" and own: "f \<notin> fst X \<Longrightarrow> client_fn (fd_cb fd) \<and> 0 < fd_ref fd"
  shows "good X w (put_fd f (Some fd) w)"
proof -
  let ?F = "(w_fds w)(f \<mapsto> fd)"
  have "fds_ok (fst X) ?F (w_loops w) (w_timers w) (w_counters w) (w_sigs w)"
    using einv_fds [OF inv] un own by (auto simp: fds_ok_def owned_client bnd_def)
  moreover have "timers_ok ?F (w_timers w)"
    using einv_timers [OF inv] fd unfolding timers_ok_def by fastforce
  moreover have "counters_ok ?F (w_counters w)"
    using einv_counters [OF inv] fd unfolding counters_ok_def by fastforce
  moreover have "sigs_ok (snd X) ?F (w_loops w) (w_sigs w)"
    using einv_sigs [OF inv] fd unfolding sigs_ok_def by fastforce
  moreover have "loops_ok ?F (w_loops w)"
    using einv_loops [OF inv] fd needed_new [where F = "w_fds w", OF fd un] unfolding loops_ok_def by fastforce
  moreover have "polls_ok ?F (w_loops w) (k_epoll w) (k_next w)"
    by (rule polls_ok_fds [OF einv_polls [OF inv]]) (use fd in auto)
  moreover have "below (h_next w) ?F"
    using einv_below(2) [OF inv] lt by (simp add: below_def)
  ultimately have "einv_but X (put_fd f (Some fd) w)"
    using inv by (simp add: einv_but_def put_fd_def)
  moreover have "ev_rely w (put_fd f (Some fd) w)"
  proof -
    have "cur_ok ?F l lp" if "cur_ok (w_fds w) l lp" for l lp
      by (rule cur_ok_fds [OF that]) (use fd in auto)
    then show ?thesis by (simp add: ev_rely_def put_fd_def)
  qed
  ultimately show ?thesis by (simp add: good_def)
qed

section \<open>Binding a source to a loop\<close>

lemma put_simps [simp]:
  "w_fds (put_fd f v w) = (w_fds w)(f := v)" "w_loops (put_fd f v w) = w_loops w"
  "w_timers (put_fd f v w) = w_timers w" "w_counters (put_fd f v w) = w_counters w"
  "w_sigs (put_fd f v w) = w_sigs w" "h_hooks (put_fd f v w) = h_hooks w"
  "h_next (put_fd f v w) = h_next w" "k_epoll (put_fd f v w) = k_epoll w"
  "k_next (put_fd f v w) = k_next w" "h_crash (put_fd f v w) = h_crash w"
  "w_trace (put_fd f v w) = w_trace w"
  "w_loops (put_loop l u w) = (w_loops w)(l := u)" "w_fds (put_loop l u w) = w_fds w"
  "w_timers (put_loop l u w) = w_timers w" "w_counters (put_loop l u w) = w_counters w"
  "w_sigs (put_loop l u w) = w_sigs w" "h_hooks (put_loop l u w) = h_hooks w"
  "h_next (put_loop l u w) = h_next w" "k_epoll (put_loop l u w) = k_epoll w"
  "k_next (put_loop l u w) = k_next w" "h_crash (put_loop l u w) = h_crash w"
  "w_trace (put_loop l u w) = w_trace w"
  by (simp_all add: put_fd_def put_loop_def)

text \<open>A loop that keeps its identity.\<close>

definition same_loop :: "ev_eloop \<Rightarrow> ev_eloop \<Rightarrow> bool" where
  "same_loop lp lp' =
     (el_fd lp' = el_fd lp \<and> el_efd lp' = el_efd lp \<and> hooks_of lp' = hooks_of lp \<and>
      el_sigs lp' = el_sigs lp)"

lemma same_loop_back:
  assumes "(L(l \<mapsto> lp')) m = Some a'" and "L l = Some lp" and "same_loop lp lp'"
  obtains a where "L m = Some a" "same_loop a a'"
  using assms by (cases "m = l") (auto simp: same_loop_def)

lemma sigs_ok_loop:
  assumes ok: "sigs_ok X F L S" and lp: "L l = Some lp" and same: "same_loop lp lp'"
  shows "sigs_ok X F (L(l \<mapsto> lp')) S"
  unfolding sigs_ok_def
proof (intro conjI allI impI)
  fix s sg assume s: "S s = Some sg" "s \<notin> X"
  then show "\<exists>fd. F (sg_fd sg) = Some fd \<and> fd_cb fd = Some Fn_signal \<and> fd_data fd = s \<and>
      fd_loop fd = Some (sg_list sg)"
    using ok unfolding sigs_ok_def by blast
  obtain a where "L (sg_list sg) = Some a" "s \<in> set (el_sigs a)"
    using ok s unfolding sigs_ok_def by blast
  then show "\<exists>lp. (L(l \<mapsto> lp')) (sg_list sg) = Some lp \<and> s \<in> set (el_sigs lp)"
    using lp same by (cases "sg_list sg = l") (auto simp: same_loop_def)
next
  fix m a' assume "(L(l \<mapsto> lp')) m = Some a'"
  then obtain a where "L m = Some a" "same_loop a a'" using lp same by (rule same_loop_back)
  then show "\<forall>s \<in> set (el_sigs a'). s \<notin> X \<and> (\<exists>sg. S s = Some sg \<and> sg_list sg = m)"
    using ok unfolding sigs_ok_def same_loop_def by metis
qed

text \<open>The hooks of the loops and signals of one state are among those of another.\<close>

lemma hooks_owned_sub:
  assumes ok: "hooks_owned X H L S"
    and L: "\<And>l a'. L' l = Some a' \<Longrightarrow> \<exists>a. L l = Some a \<and> hooks_of a' = hooks_of a"
    and S: "\<And>s b'. S' s = Some b' \<Longrightarrow> \<exists>b. S s = Some b \<and> sg_hook b' = sg_hook b"
    and H: "\<And>h. live H h \<Longrightarrow> live H' h"
  shows "hooks_owned X H' L' S'"
  unfolding hooks_owned_def
proof (intro conjI allI impI)
  note ok' = ok [unfolded hooks_owned_def]
  fix l lp assume l: "L' l = Some lp"
  then obtain a where a: "L l = Some a" "hooks_of lp = hooks_of a" using L by blast
  show "distinct (hooks_of lp)" using ok' a by simp
  show "\<forall>h \<in> set (hooks_of lp). live H' h" using ok' a H by auto
next
  fix s sg assume s: "S' s = Some sg" "s \<notin> X"
  then obtain b where "S s = Some b" "sg_hook sg = sg_hook b" using S by blast
  then show "live H' (sg_hook sg)" using ok s(2) H unfolding hooks_owned_def by metis
next
  fix l l' lp lp' h
  assume *: "L' l = Some lp" "L' l' = Some lp'" "h \<in> set (hooks_of lp)" "h \<in> set (hooks_of lp')"
  obtain a a' where "L l = Some a" "hooks_of lp = hooks_of a" "L l' = Some a'" "hooks_of lp' = hooks_of a'"
    using L * by blast
  then show "l = l'" using ok * unfolding hooks_owned_def by metis
next
  fix s s' sg sg'
  assume *: "S' s = Some sg" "S' s' = Some sg'" "sg_hook sg = sg_hook sg'"
  obtain b b' where "S s = Some b" "sg_hook sg = sg_hook b" "S s' = Some b'" "sg_hook sg' = sg_hook b'"
    using S * by blast
  then show "s = s'" using ok * unfolding hooks_owned_def by metis
next
  fix s sg l lp
  assume *: "S' s = Some sg" "L' l = Some lp"
  obtain b a where "S s = Some b" "sg_hook sg = sg_hook b" "L l = Some a" "hooks_of lp = hooks_of a"
    using S L * by blast
  then show "sg_hook sg \<notin> set (hooks_of lp)" using ok unfolding hooks_owned_def by metis
qed

lemma hooks_owned_loop:
  assumes "hooks_owned X H L S" and "L l = Some lp" and "same_loop lp lp'"
  shows "hooks_owned X H (L(l \<mapsto> lp')) S"
  by (rule hooks_owned_sub [OF assms(1)]) (use assms(2,3) in \<open>auto simp: same_loop_def split: if_splits\<close>)

text \<open>The loops of one state are among those of another.\<close>

lemma polls_ok_sub:
  assumes ok: "polls_ok F L E k"
    and L: "\<And>l a'. L' l = Some a' \<Longrightarrow> \<exists>a. L l = Some a \<and> el_efd a' = el_efd a"
  shows "polls_ok F L' E k"
  unfolding polls_ok_def
proof (intro conjI allI impI)
  fix l lp assume "L' l = Some lp"
  then obtain a where a: "L l = Some a" "el_efd lp = el_efd a" using L by blast
  show "el_efd lp < k" using ok a unfolding polls_ok_def by metis
  fix j ev p assume e: "E (el_efd lp) j = Some (ev, p)"
  show "p = Ptr_loop l \<or> (\<exists>f fd. p = Ptr_fd f \<and> F f = Some fd \<and> fd_loop fd = Some l \<and>
          fd_enabled fd \<and> fd_fd fd = j)"
    by (rule polls_okD [OF ok a(1)]) (use e a(2) in auto)
next
  fix l l' lp lp' assume *: "L' l = Some lp" "L' l' = Some lp'" "el_efd lp = el_efd lp'"
  obtain a a' where "L l = Some a" "el_efd lp = el_efd a" "L l' = Some a'" "el_efd lp' = el_efd a'"
    using L * by blast
  then show "l = l'" using ok * unfolding polls_ok_def by metis
qed

lemma polls_ok_loop:
  assumes "polls_ok F L E k" and "L l = Some lp" and "same_loop lp lp'"
  shows "polls_ok F (L(l \<mapsto> lp')) E k"
  by (rule polls_ok_sub [OF assms(1)]) (use assms(2,3) in \<open>auto simp: same_loop_def split: if_splits\<close>)

lemma owned_loop:
  "owned L T C S f fd \<Longrightarrow> L l = Some lp \<Longrightarrow> same_loop lp lp' \<Longrightarrow> owned (L(l \<mapsto> lp')) T C S f fd"
  by (cases "fd_cb fd") (auto simp: owned_def same_loop_def split: fd_fn.splits)

lemma fds_ok_loop:
  "fds_ok X F L T C S \<Longrightarrow> L l = Some lp \<Longrightarrow> same_loop lp lp' \<Longrightarrow> fds_ok X F (L(l \<mapsto> lp')) T C S"
  unfolding fds_ok_def by (metis fun_upd_apply option.distinct(1) owned_loop)

lemma below_upd: "below n m \<Longrightarrow> m i \<noteq> None \<Longrightarrow> below n (m(i \<mapsto> x))"
  by (auto simp: below_def)

lemma einv_put_loop:
  assumes inv: "einv_but X w" and lp: "w_loops w l = Some lp" and same: "same_loop lp lp'"
    and ref: "0 < el_ref lp'" "needed (w_fds w) l lp' \<le> el_ref lp'"
  shows "einv_but X (put_loop l (Some lp') w)"
proof -
  have "loops_ok (w_fds w) ((w_loops w)(l \<mapsto> lp'))"
    using einv_loops [OF inv] lp same ref unfolding loops_ok_def same_loop_def by auto
  then show ?thesis
    using inv below_upd [OF einv_below(3) [OF inv], of l lp'] lp
      fds_ok_loop [OF einv_fds [OF inv] lp same] sigs_ok_loop [OF einv_sigs [OF inv] lp same]
      polls_ok_loop [OF einv_polls [OF inv] lp same] hooks_owned_loop [OF einv_owned [OF inv] lp same]
    by (simp add: einv_but_def)
qed

lemma rely_put_loop:
  assumes "w_loops w l = Some lp"
    and "el_dispatching lp \<Longrightarrow> el_dispatching lp' \<and> length (el_cur lp') = length (el_cur lp) \<and>
       hooks_of lp' = hooks_of lp \<and> (cur_ok (w_fds w) l lp \<longrightarrow> cur_ok (w_fds w) l lp')"
  shows "ev_rely w (put_loop l (Some lp') w)"
  using assms by (auto simp: ev_rely_def)

lemma good_put_loop:
  assumes inv: "einv_but X w" and lp: "w_loops w l = Some lp" and same: "same_loop lp lp'"
    and ref: "0 < el_ref lp'" "needed (w_fds w) l lp' \<le> el_ref lp'"
    and disp: "el_dispatching lp' = el_dispatching lp" "el_cur lp' = el_cur lp"
  shows "good X w (put_loop l (Some lp') w)"
proof -
  have "cur_ok (w_fds w) l lp' = cur_ok (w_fds w) l lp" using disp by (simp add: cur_ok_def)
  then have "ev_rely w (put_loop l (Some lp') w)"
    using rely_put_loop [of w l lp lp', OF lp] same disp by (simp add: same_loop_def)
  then show ?thesis using einv_put_loop [OF inv lp same ref] by (simp add: good_def)
qed

lemma good_bind:
  assumes inv: "einv_but X w" and fd: "w_fds w f = Some fd" and un: "fd_loop fd = None"
    and lp: "w_loops w l = Some lp" and ne: "el_fd lp \<noteq> f"
    and own: "\<And>c lc. w_loops w c = Some lc \<Longrightarrow> el_fd lc = f \<Longrightarrow>
      el_dispatching lc \<or> needed (w_fds w) c lc < el_ref lc"
  shows "good X w (put_loop l (Some (lp\<lparr>el_ref := Suc (el_ref lp)\<rparr>))
           (put_fd f (Some (fd\<lparr>fd_loop := Some l, fd_ref := Suc (fd_ref fd)\<rparr>)) w))"
    (is "good X w (put_loop l (Some ?lp) (put_fd f (Some ?fd) w))")
proof -
  let ?F = "(w_fds w)(f \<mapsto> ?fd)" and ?L = "(w_loops w)(l \<mapsto> ?lp)"
  have same: "same_loop lp ?lp" by (simp add: same_loop_def hooks_of_def)
  have fin: "finite (bound_set (w_fds w) k)" for k by (rule bound_set_finite [OF einv_below(2) [OF inv]])
  have notin: "f \<notin> bound_set (w_fds w) k" for k using fd un by (simp add: bound_set_iff)
  have "fds_ok (fst X) ?F (w_loops w) (w_timers w) (w_counters w) (w_sigs w)"
  proof -
    have "owned (w_loops w) (w_timers w) (w_counters w) (w_sigs w) f ?fd" if "f \<notin> fst X"
    proof -
      have "owned (w_loops w) (w_timers w) (w_counters w) (w_sigs w) f fd"
        using einv_fds [OF inv] fd that by (simp add: fds_ok_def)
      then show ?thesis
        using un by (cases "fd_cb fd") (auto simp: owned_def bnd_def split: fd_fn.splits)
    qed
    then show ?thesis using einv_fds [OF inv] lp by (auto simp: fds_ok_def)
  qed
  then have 1: "fds_ok (fst X) ?F ?L (w_timers w) (w_counters w) (w_sigs w)"
    using lp same by (rule fds_ok_loop)
  have 2: "timers_ok ?F (w_timers w)"
    using einv_timers [OF inv] fd un unfolding timers_ok_def by (fastforce simp: bnd_def)
  have 3: "counters_ok ?F (w_counters w)"
    using einv_counters [OF inv] fd un unfolding counters_ok_def by (fastforce simp: bnd_def)
  have "sigs_ok (snd X) ?F (w_loops w) (w_sigs w)"
    using einv_sigs [OF inv] fd un unfolding sigs_ok_def by fastforce
  then have 4: "sigs_ok (snd X) ?F ?L (w_sigs w)" using lp same by (rule sigs_ok_loop)
  have 5: "loops_ok ?F ?L"
    unfolding loops_ok_def
  proof (intro allI impI)
    fix c lc assume c: "?L c = Some lc"
    then obtain a where a: "w_loops w c = Some a" and sa: "same_loop a lc" and
        d: "el_dispatching lc = el_dispatching a" and r: "el_ref lc = (if c = l then Suc (el_ref a) else el_ref a)"
      using lp same by (cases "c = l") (auto simp: same_loop_def)
    from loops_okD [OF einv_loops [OF inv] a] obtain gd where g: "w_fds w (el_fd a) = Some gd"
      "fd_cb gd = Some Fn_eloop" "fd_data gd = c" "fd_fd gd = el_efd a" "fd_enabled gd"
      "0 < el_ref a" "needed (w_fds w) c a \<le> el_ref a" by metis
    have e: "el_fd lc = el_fd a" "el_efd lc = el_efd a" using sa by (simp_all add: same_loop_def)
    have "needed ?F c lc \<le> el_ref lc"
    proof (cases "el_fd a = f")
      case True
      then have "c \<noteq> l" using ne a lp by auto
      then have "needed ?F c lc = card (bound_set (w_fds w) c) + 1"
        using e True notin by (simp add: needed_def bound_set_upd is_bound_upd)
      moreover have "\<not> is_bound (w_fds w) f" using fd un by (simp add: is_bound_def)
      ultimately show ?thesis
        using own [OF a True] g(7) r \<open>c \<noteq> l\<close> True by (auto simp: needed_def split: if_splits)
    next
      case False
      then have "needed ?F c lc = needed (w_fds w) c a + (if c = l then 1 else 0)"
        using e d notin fin by (simp add: needed_def bound_set_upd is_bound_upd)
      then show ?thesis using g(7) r by auto
    qed
    then show "(\<exists>fd. ?F (el_fd lc) = Some fd \<and> fd_cb fd = Some Fn_eloop \<and> fd_data fd = c \<and>
        fd_fd fd = el_efd lc \<and> fd_enabled fd) \<and> 0 < el_ref lc \<and> needed ?F c lc \<le> el_ref lc"
      using g e fd r by auto
  qed
  have "polls_ok ?F (w_loops w) (k_epoll w) (k_next w)"
    by (rule polls_ok_fds [OF einv_polls [OF inv]]) (use fd un in auto)
  then have 6: "polls_ok ?F ?L (k_epoll w) (k_next w)" using lp same by (rule polls_ok_loop)
  have 7: "below (h_next w) ?F" "below (h_next w) ?L"
    by (rule below_upd, use einv_below [OF inv] fd lp in simp_all)+
  have "einv_but X (put_loop l (Some ?lp) (put_fd f (Some ?fd) w))"
    using inv 1 2 3 4 5 6 7 hooks_owned_loop [OF einv_owned [OF inv] lp same]
    by (simp add: einv_but_def)
  moreover have "ev_rely w (put_loop l (Some ?lp) (put_fd f (Some ?fd) w))"
  proof -
    have "cur_ok ?F k a" if "cur_ok (w_fds w) k a" for k a
      by (rule cur_ok_fds [OF that]) (use fd un in auto)
    moreover have "cur_ok ?F k ?lp = cur_ok ?F k lp" for k by (simp add: cur_ok_def)
    ultimately show ?thesis using lp same by (auto simp: ev_rely_def same_loop_def)
  qed
  ultimately show ?thesis by (simp add: good_def)
qed

definition bind_fd :: "nat \<Rightarrow> ev_eloop \<Rightarrow> nat \<Rightarrow> ev_fd \<Rightarrow> world \<Rightarrow> world" where
  "bind_fd l lp f fd w =
     put_loop l (Some (lp\<lparr>el_ref := Suc (el_ref lp)\<rparr>))
       (put_fd f (Some (fd\<lparr>fd_loop := Some l, fd_ref := Suc (fd_ref fd)\<rparr>)) w)"

text \<open>What adding an entry for a source to the epoll set of a loop does to the state.\<close>

definition enter_epoll :: "ev_eloop \<Rightarrow> nat \<Rightarrow> ev_fd \<Rightarrow> world \<Rightarrow> world" where
  "enter_epoll lp f fd w =
     w\<lparr>k_epoll := (k_epoll w)(el_efd lp :=
         (k_epoll w (el_efd lp))(fd_fd fd \<mapsto> (epoll_mask (fd_mask fd), Ptr_fd f)))\<rparr>"

lemma epoll_add_cases:
  assumes "efault (epoll_ctl_add (el_efd lp) (fd_fd fd) (epoll_mask (fd_mask fd)) (Ptr_fd f) w) = (r, w')"
  shows "(\<exists>a. ask w = (a, w') \<and> r \<noteq> ok) \<or>
         (\<exists>a w1. ask w = (a, w1) \<and> r = ok \<and> el_efd lp \<noteq> fd_fd fd \<and> w' = enter_epoll lp f fd w1)"
  using assms
  by (cases "ask w") (auto simp: efault_def epoll_ctl_add_def enter_epoll_def
      split: option.splits if_splits)

lemma epoll_mod_cases:
  assumes "efault (epoll_ctl_mod (el_efd lp) (fd_fd fd) (epoll_mask (fd_mask fd)) (Ptr_fd f) w) = (r, w')"
  shows "(\<exists>a. ask w = (a, w') \<and> r \<noteq> ok) \<or>
         (\<exists>a w1. ask w = (a, w1) \<and> r = ok \<and> w' = enter_epoll lp f fd w1)"
  using assms
  by (cases "ask w") (auto simp: efault_def epoll_ctl_mod_def enter_epoll_def
      split: option.splits if_splits)

lemma ask_answers: "ask w = (a, w') \<Longrightarrow> \<exists>as. w' = w\<lparr>h_answers := as\<rparr>"
  by (cases "h_answers w") (auto simp: ask_def intro: exI [of _ "[]"])

lemma add_fd_cases:
  assumes "w_fds w f = Some fd" and "w_loops w l = Some lp" and "fd_loop fd = None"
    and ok: "0 < fd_ref fd" and add: "ev_eloop_add_fd l f w = (r, w')"
  shows "(r \<noteq> ok \<and> quiet w w') \<or>
         (r = ok \<and> \<not> fd_enabled fd \<and> w' = bind_fd l lp f fd w) \<or>
         (\<exists>w1. r = ok \<and> fd_enabled fd \<and> el_efd lp \<noteq> fd_fd fd \<and> quiet w w1 \<and>
            w' = enter_epoll lp f fd (bind_fd l lp f fd w1))"
proof (cases "fd_enabled fd")
  case False
  then show ?thesis
    using assms by (auto simp: ev_eloop_add_fd_def ev_fd_ref_def ev_eloop_ref_def bind_fd_def)
       (simp add: put_fd_def put_loop_def)
next
  case True
  let ?fd1 = "fd\<lparr>fd_loop := Some l\<rparr>"
  let ?w1 = "put_fd f (Some ?fd1) w"
  obtain r2 w2 where e: "efault (epoll_ctl_add (el_efd lp) (fd_fd ?fd1) (epoll_mask (fd_mask ?fd1))
      (Ptr_fd f) ?w1) = (r2, w2)"
    by (meson surj_pair)
  then have step: "fd_epoll_add f ?w1 = (r2, w2)"
    using assms by (simp add: fd_epoll_add_def with_loop_def)
  from epoll_add_cases [OF e] show ?thesis
  proof (elim disjE exE conjE)
    fix a assume a: "ask ?w1 = (a, w2)" "r2 \<noteq> ok"
    obtain as where "w2 = ?w1\<lparr>h_answers := as\<rparr>" using ask_answers [OF a(1)] by blast
    then have "r \<noteq> ok \<and> w' = w\<lparr>h_answers := as\<rparr>"
      using add assms(1,3) True step a(2) by (auto simp: ev_eloop_add_fd_def put_fd_def fun_upd_idem)
    then show ?thesis by (simp add: quiet_def same_objects_def)
  next
    fix a v assume a: "ask ?w1 = (a, v)" "r2 = ok" "el_efd lp \<noteq> fd_fd ?fd1"
      "w2 = enter_epoll lp f ?fd1 v"
    obtain as where v: "v = ?w1\<lparr>h_answers := as\<rparr>" using ask_answers [OF a(1)] by blast
    have "r = ok \<and> w' = enter_epoll lp f fd (bind_fd l lp f fd (w\<lparr>h_answers := as\<rparr>))"
      using add assms True step a(2,4) v
      by (auto simp: ev_eloop_add_fd_def ev_fd_ref_def ev_eloop_ref_def bind_fd_def enter_epoll_def
          put_fd_def put_loop_def)
    moreover have "quiet w (w\<lparr>h_answers := as\<rparr>)" by (simp add: quiet_def same_objects_def)
    ultimately show ?thesis using True a(3) by auto
  qed
qed

lemma owned_ref: "owned L T C S f fd \<Longrightarrow> 0 < fd_ref fd"
  by (cases "fd_cb fd") (auto simp: owned_def split: fd_fn.splits)

lemma quiet_eqs:
  assumes "quiet w w'"
  shows "w_fds w' = w_fds w" "w_loops w' = w_loops w" "w_timers w' = w_timers w"
    "w_counters w' = w_counters w" "w_sigs w' = w_sigs w" "h_hooks w' = h_hooks w"
    "h_crash w' = h_crash w" "w_trace w' = w_trace w"
  using assms by (simp_all add: quiet_def same_objects_def)

lemma good_enter:
  assumes "einv_but X w" and "w_loops w l = Some lp" and "w_fds w f = Some fd"
    and "fd_loop fd = Some l" and "fd_enabled fd" and "fd_fd fd' = fd_fd fd" and "el_efd lp' = el_efd lp"
  shows "good X w (enter_epoll lp' f fd' w)"
  using good_epoll_set [OF assms(1-5)] assms(6,7) by (simp add: enter_epoll_def)

lemma good_add_fd:
  assumes inv: "einv_but X w" and fd: "w_fds w f = Some fd" and ref: "0 < fd_ref fd"
    and lp: "w_loops w l = Some lp"
    and own: "\<And>c lc. w_loops w c = Some lc \<Longrightarrow> el_fd lc = f \<Longrightarrow>
      el_dispatching lc \<or> needed (w_fds w) c lc < el_ref lc"
    and add: "ev_eloop_add_fd l f w = (r, w')"
  shows "good X w w'"
proof (cases "fd_loop fd")
  case (Some l')
  then have "w' = w" using add fd by (simp add: ev_eloop_add_fd_def)
  then show ?thesis by (simp add: good_refl [OF inv])
next
  case None
  obtain gd where g: "w_fds w (el_fd lp) = Some gd" "fd_fd gd = el_efd lp" "fd_enabled gd"
    using loops_okD [OF einv_loops [OF inv] lp] by metis
  from add_fd_cases [OF fd lp None ref add] show ?thesis
  proof (elim disjE exE conjE)
    assume "quiet w w'"
    then show ?thesis by (rule quiet_good [OF inv])
  next
    assume "\<not> fd_enabled fd" "w' = bind_fd l lp f fd w"
    moreover from this have "el_fd lp \<noteq> f" using g fd by auto
    ultimately show ?thesis using good_bind [OF inv fd None lp _ own] by (simp add: bind_fd_def)
  next
    fix w1 assume *: "fd_enabled fd" "el_efd lp \<noteq> fd_fd fd" "quiet w w1"
      "w' = enter_epoll lp f fd (bind_fd l lp f fd w1)"
    note eqs = quiet_eqs [OF *(3)]
    have ne: "el_fd lp \<noteq> f" using g fd *(2) by auto
    have q: "good X w w1" by (rule quiet_good [OF inv *(3)])
    have b: "good X w1 (bind_fd l lp f fd w1)"
      unfolding bind_fd_def
      by (rule good_bind [OF goodD(1) [OF q]]) (use eqs fd None lp ne own in auto)
    have "good X (bind_fd l lp f fd w1) w'"
      unfolding *(4)
      by (rule good_enter [OF goodD(1) [OF b], where l = l and
            lp = "lp\<lparr>el_ref := Suc (el_ref lp)\<rparr>" and
            fd = "fd\<lparr>fd_loop := Some l, fd_ref := Suc (fd_ref fd)\<rparr>"])
         (use *(1) in \<open>auto simp: bind_fd_def\<close>)
    then show ?thesis using q b by (meson good_trans)
  qed
qed

section \<open>Taking a source out of its loop\<close>

lemma einv_grow: "einv_but (A, B) w \<Longrightarrow> A \<subseteq> A' \<Longrightarrow> einv_but (A', B) w"
  by (auto simp: einv_but_def fds_ok_def)

lemma einv_shrink:
  assumes inv: "einv_but (A, B) w"
    and own: "\<And>f fd. f \<in> A \<Longrightarrow> f \<notin> A' \<Longrightarrow> w_fds w f = Some fd \<Longrightarrow>
      owned (w_loops w) (w_timers w) (w_counters w) (w_sigs w) f fd"
  shows "einv_but (A', B) w"
proof -
  have "fds_ok A' (w_fds w) (w_loops w) (w_timers w) (w_counters w) (w_sigs w)"
    using einv_fds [OF inv] own unfolding fds_ok_def by (metis fst_conv)
  then show ?thesis using inv by (simp add: einv_but_def)
qed

lemma good_shrink:
  "good (A, B) u w \<Longrightarrow>
   (\<And>f fd. f \<in> A \<Longrightarrow> f \<notin> A' \<Longrightarrow> w_fds w f = Some fd \<Longrightarrow>
      owned (w_loops w) (w_timers w) (w_counters w) (w_sigs w) f fd) \<Longrightarrow> good (A', B) u w"
  unfolding good_def using einv_shrink by blast

lemma needed_unbound:
  assumes "below n F" and "F f = Some fd" and "fd_loop fd = Some l" and "fd_loop fd' = None"
  shows "needed (F(f \<mapsto> fd')) k lp \<le> needed F k lp"
    and "needed (F(f \<mapsto> fd')) l lp < needed F l lp"
proof -
  have fin: "finite (bound_set F j)" for j by (rule bound_set_finite [OF assms(1)])
  have b: "is_bound (F(f \<mapsto> fd')) g \<Longrightarrow> is_bound F g" for g
    using assms(4) by (auto simp: is_bound_upd split: if_splits)
  have "card (bound_set F k - {f}) \<le> card (bound_set F k)" for k
    using fin by (rule card_Diff_le)
  then show "needed (F(f \<mapsto> fd')) k lp \<le> needed F k lp"
    using assms(4) b by (auto simp: needed_def bound_set_upd)
       (meson Suc_le_mono \<open>\<And>k. card (bound_set F k - {f}) \<le> card (bound_set F k)\<close> le_SucI)+
  have "f \<in> bound_set F l" using assms(2,3) by (simp add: bound_set_iff)
  then have "card (bound_set F l - {f}) < card (bound_set F l)"
    using fin by (meson card_Diff1_less)
  then show "needed (F(f \<mapsto> fd')) l lp < needed F l lp"
    using assms(4) b by (auto simp: needed_def bound_set_upd)
qed

lemma good_unbound:
  assumes inv: "einv_but (A, B) w" and fd: "w_fds w f = Some fd" and loop: "fd_loop fd = Some l"
    and lp: "w_loops w l = Some lp"
    and none: "\<And>j ev. k_epoll w (el_efd lp) j \<noteq> Some (ev, Ptr_fd f)"
    and flushed: "el_dispatching lp \<Longrightarrow> Ptr_fd f \<notin> snd ` set (el_cur lp)"
    and sig: "fd_cb fd = Some Fn_signal \<Longrightarrow> fd_data fd \<in> B \<or> w_sigs w (fd_data fd) = None"
    and X: "f \<in> A"
  shows "good (A, B) w (put_fd f (Some (fd\<lparr>fd_loop := None, fd_ref := r\<rparr>)) w)"
    (is "good _ w (put_fd f (Some ?fd) w)")
proof -
  let ?F = "(w_fds w)(f \<mapsto> ?fd)"
  have le: "needed ?F k a \<le> needed (w_fds w) k a" for k a
    by (rule needed_unbound(1) [OF einv_below(2) [OF inv] fd loop]) simp
  have "fds_ok A ?F (w_loops w) (w_timers w) (w_counters w) (w_sigs w)"
    using einv_fds [OF inv] X by (auto simp: fds_ok_def)
  moreover have "timers_ok ?F (w_timers w)"
    using einv_timers [OF inv] fd unfolding timers_ok_def by (fastforce simp: bnd_def)
  moreover have "counters_ok ?F (w_counters w)"
    using einv_counters [OF inv] fd unfolding counters_ok_def by (fastforce simp: bnd_def)
  moreover have "sigs_ok B ?F (w_loops w) (w_sigs w)"
  proof -
    have "sg_fd sg \<noteq> f" if s: "w_sigs w s = Some sg" "s \<notin> B" for s sg
    proof
      assume "sg_fd sg = f"
      then have "fd_cb fd = Some Fn_signal" "fd_data fd = s"
        using einv_sigs [OF inv] s fd unfolding sigs_ok_def by fastforce+
      then show False using sig s by auto
    qed
    then show ?thesis
      using einv_sigs [OF inv] by - (rule sigs_ok_fds [where F = "w_fds w"], auto)
  qed
  moreover have "loops_ok ?F (w_loops w)"
    unfolding loops_ok_def
  proof (intro allI impI)
    fix k a assume a: "w_loops w k = Some a"
    from loops_okD [OF einv_loops [OF inv] a] obtain gd where g: "w_fds w (el_fd a) = Some gd"
      "fd_cb gd = Some Fn_eloop" "fd_data gd = k" "fd_fd gd = el_efd a" "fd_enabled gd"
      "0 < el_ref a" "needed (w_fds w) k a \<le> el_ref a" by metis
    then show "(\<exists>fd. ?F (el_fd a) = Some fd \<and> fd_cb fd = Some Fn_eloop \<and> fd_data fd = k \<and>
        fd_fd fd = el_efd a \<and> fd_enabled fd) \<and> 0 < el_ref a \<and> needed ?F k a \<le> el_ref a"
      using fd le [of k a] by auto
  qed
  moreover have "polls_ok ?F (w_loops w) (k_epoll w) (k_next w)"
  proof -
    have "p = Ptr_loop k \<or> (\<exists>g gd. p = Ptr_fd g \<and> ?F g = Some gd \<and> fd_loop gd = Some k \<and>
            fd_enabled gd \<and> fd_fd gd = j)"
      if a: "w_loops w k = Some a" and e: "k_epoll w (el_efd a) j = Some (ev, p)" for k a j ev p
      using einv_polls [OF inv] a e
    proof (rule polls_okD)
      fix g gd assume g: "p = Ptr_fd g" "w_fds w g = Some gd" "fd_loop gd = Some k" "fd_enabled gd"
        "fd_fd gd = j"
      have "g \<noteq> f" using g a e fd loop lp none by auto
      then show ?thesis using g by auto
    qed simp
    then show ?thesis using einv_polls [OF inv] unfolding polls_ok_def by blast
  qed
  moreover have "below (h_next w) ?F"
    by (rule below_upd) (use einv_below(2) [OF inv] fd in auto)
  ultimately have "einv_but (A, B) (put_fd f (Some ?fd) w)"
    using inv by (simp add: einv_but_def)
  moreover have "cur_ok ?F k a" if "w_loops w k = Some a" "el_dispatching a" "cur_ok (w_fds w) k a" for k a
    unfolding cur_ok_def
  proof
    fix p assume p: "p \<in> snd ` set (el_cur a)"
    then have "p = Null \<or> p = Ptr_loop k \<or>
        (\<exists>g gd. p = Ptr_fd g \<and> w_fds w g = Some gd \<and> fd_loop gd = Some k)"
      using that(3) unfolding cur_ok_def by blast
    then show "p = Null \<or> p = Ptr_loop k \<or> (\<exists>g gd. p = Ptr_fd g \<and> ?F g = Some gd \<and> fd_loop gd = Some k)"
    proof (elim disjE exE conjE)
      fix g gd assume g: "p = Ptr_fd g" "w_fds w g = Some gd" "fd_loop gd = Some k"
      have "g \<noteq> f"
      proof
        assume "g = f"
        then have "k = l" "a = lp" using g fd loop lp that(1) by auto
        then show False using flushed that(2) p g(1) \<open>g = f\<close> by simp
      qed
      then show ?thesis using g by auto
    qed simp_all
  qed
  ultimately show ?thesis by (auto simp: good_def ev_rely_def)
qed

text \<open>What removing a source does before it gives up the reference on the loop.\<close>

definition flushed :: "nat \<Rightarrow> ev_eloop \<Rightarrow> ev_eloop" where
  "flushed f lp = (if el_dispatching lp then lp\<lparr>el_cur := flush_ptr (Ptr_fd f) (el_cur lp)\<rparr> else lp)"

definition unbound_fd :: "ev_fd \<Rightarrow> ev_fd option" where
  "unbound_fd fd =
     (if fd_ref fd - 1 \<noteq> 0 then Some (fd\<lparr>fd_loop := None, fd_ref := fd_ref fd - 1\<rparr>) else None)"

definition leave_epoll :: "ev_eloop \<Rightarrow> ev_fd \<Rightarrow> world \<Rightarrow> world" where
  "leave_epoll lp fd w = (if fd_enabled fd then epoll_ctl_del (el_efd lp) (fd_fd fd) w else w)"

lemma leave_epoll_quiet: "quiet w (leave_epoll lp fd w)"
  by (simp add: leave_epoll_def epoll_ctl_del_quiet)

lemma epoll_del_fields [simp]:
  "w_fds (epoll_ctl_del e k w) = w_fds w" "w_loops (epoll_ctl_del e k w) = w_loops w"
  by (simp_all add: epoll_ctl_del_def)

lemma rm_fd_eq:
  assumes "w_fds w f = Some fd" and "fd_loop fd = Some l" and "w_loops w l = Some lp"
    and "0 < fd_ref fd"
  shows "rm_fd_with unref f w =
     unref l (put_fd f (unbound_fd fd) (put_loop l (Some (flushed f lp)) (leave_epoll lp fd w)))"
proof -
  have "put_loop l (Some lp) v = v" if "w_loops v l = Some lp" for v
    using that by (simp add: put_loop_def fun_upd_idem)
  moreover have "w_loops (leave_epoll lp fd w) l = Some lp"
    using assms(3) by (simp add: leave_epoll_def)
  moreover have "fd_epoll_remove f w = epoll_ctl_del (el_efd lp) (fd_fd fd) w"
    using assms by (simp add: fd_epoll_remove_def with_loop_def)
  moreover have "put_fd f a (put_fd f b v) = put_fd f a v" for a b v
    by (simp add: put_fd_def)
  ultimately show ?thesis
    using assms
    by (simp add: rm_fd_with_def ev_eloop_flush_fd_def ev_fd_unref_def unbound_fd_def flushed_def
        leave_epoll_def Let_def)
qed

lemma flushed_same: "same_loop lp (flushed f lp)" "el_ref (flushed f lp) = el_ref lp"
  "el_dispatching (flushed f lp) = el_dispatching lp" "hooks_of (flushed f lp) = hooks_of lp"
  "el_fd (flushed f lp) = el_fd lp" "el_efd (flushed f lp) = el_efd lp"
  by (simp_all add: flushed_def same_loop_def hooks_of_def)

lemma flush_ptr_ptrs: "snd ` set (flush_ptr p evs) \<subseteq> insert Null (snd ` set evs - {p})"
  by (force simp: flush_ptr_def split: if_splits)

lemma cur_ok_sub:
  "cur_ok F l lp \<Longrightarrow> snd ` set (el_cur lp') \<subseteq> insert Null (snd ` set (el_cur lp)) \<Longrightarrow> cur_ok F l lp'"
  unfolding cur_ok_def by blast

lemma good_rm_fd:
  assumes inv: "einv_but (A, B) w" and fd: "w_fds w f = Some fd" and loop: "fd_loop fd = Some l"
    and lp: "w_loops w l = Some lp" and fA: "f \<notin> A"
    and sig: "fd_cb fd = Some Fn_signal \<Longrightarrow> fd_data fd \<in> B"
  defines "w3 \<equiv> put_fd f (unbound_fd fd) (put_loop l (Some (flushed f lp)) (leave_epoll lp fd w))"
  shows "good (A, B) w w3" and "needed (w_fds w3) l (flushed f lp) < el_ref lp"
proof -
  let ?lp = "flushed f lp"
  let ?w1 = "leave_epoll lp fd w"
  let ?w2 = "put_loop l (Some ?lp) ?w1"
  let ?fd = "fd\<lparr>fd_loop := None, fd_ref := fd_ref fd - 1\<rparr>"
  have own: "owned (w_loops w) (w_timers w) (w_counters w) (w_sigs w) f fd"
    using einv_fds [OF inv] fd fA by (simp add: fds_ok_def)
  note q1 = leave_epoll_quiet [of w lp fd]
  note eq1 = quiet_eqs [OF q1]
  have g1: "good (insert f A, B) w ?w1"
    by (rule quiet_good [OF einv_grow [OF inv] q1]) blast
  have none: "k_epoll ?w1 (el_efd lp) j \<noteq> Some (ev, Ptr_fd f)" for j ev
  proof
    assume a: "k_epoll ?w1 (el_efd lp) j = Some (ev, Ptr_fd f)"
    then have "k_epoll w (el_efd lp) j = Some (ev, Ptr_fd f)"
      by (auto simp: leave_epoll_def epoll_ctl_del_def split: if_splits)
    then have "fd_enabled fd \<and> fd_fd fd = j"
      by (rule polls_okD [OF einv_polls [OF inv] lp]) (use fd in simp_all)
    then show False using a by (simp add: leave_epoll_def epoll_ctl_del_def)
  qed
  have g: "0 < el_ref lp" "needed (w_fds w) l lp \<le> el_ref lp"
    using loops_okD [OF einv_loops [OF inv] lp] by metis+
  have nl: "needed F l ?lp = needed F l lp" for F by (simp add: needed_def flushed_same)
  have e2: "einv_but (insert f A, B) ?w2"
    by (rule einv_put_loop [OF goodD(1) [OF g1], where lp = lp])
       (use lp g nl in \<open>simp_all add: eq1 flushed_same\<close>)
  have "ev_rely ?w1 ?w2"
  proof (rule rely_put_loop)
    show "w_loops ?w1 l = Some lp" using lp by (simp add: eq1)
    show "el_dispatching ?lp \<and> length (el_cur ?lp) = length (el_cur lp) \<and>
        hooks_of ?lp = hooks_of lp \<and> (cur_ok (w_fds ?w1) l lp \<longrightarrow> cur_ok (w_fds ?w1) l ?lp)"
      if "el_dispatching lp"
    proof -
      have "snd ` set (el_cur ?lp) \<subseteq> insert Null (snd ` set (el_cur lp))"
        using that flush_ptr_ptrs [of "Ptr_fd f" "el_cur lp"] by (auto simp: flushed_def)
      moreover have "length (el_cur ?lp) = length (el_cur lp)"
        by (simp add: flushed_def flush_ptr_def)
      ultimately show ?thesis using that cur_ok_sub by (auto simp: flushed_same)
    qed
  qed
  then have g2: "good (insert f A, B) ?w1 ?w2" using e2 by (simp add: good_def)
  have fd2: "w_fds ?w2 f = Some fd" using fd by (simp add: eq1)
  have g3: "good (insert f A, B) ?w2 (put_fd f (Some ?fd) ?w2)"
  proof (rule good_unbound [OF e2 fd2 loop])
    show "w_loops ?w2 l = Some ?lp" by simp
    show "k_epoll ?w2 (el_efd ?lp) j \<noteq> Some (ev, Ptr_fd f)" for j ev
      using none by (simp add: flushed_same)
    show "Ptr_fd f \<notin> snd ` set (el_cur ?lp)" if "el_dispatching ?lp"
      using that flush_ptr_ptrs [of "Ptr_fd f" "el_cur lp"] by (auto simp: flushed_def split: if_splits)
    show "fd_data fd \<in> B \<or> w_sigs ?w2 (fd_data fd) = None" if "fd_cb fd = Some Fn_signal"
      using sig [OF that] by blast
  qed simp
  have nd: "needed ((w_fds w)(f \<mapsto> ?fd)) l ?lp < el_ref lp"
    using needed_unbound(2) [OF einv_below(2) [OF inv] fd loop, of ?fd ?lp] g(2) nl by simp
  have g4: "good (insert f A, B) w (put_fd f (Some ?fd) ?w2)"
    using g1 g2 g3 by (meson good_trans)
  show "good (A, B) w w3"
  proof (cases "fd_ref fd - 1 = 0")
    case False
    have "owned (w_loops w) (w_timers w) (w_counters w) (w_sigs w) f ?fd"
      using own loop False by (cases "fd_cb fd") (auto simp: owned_def bnd_def split: fd_fn.splits)
    then have "owned (w_loops ?w2) (w_timers w) (w_counters w) (w_sigs w) f ?fd"
      using owned_loop [where L = "w_loops w", OF _ lp flushed_same(1)] by (simp add: eq1)
    then have "good (A, B) w (put_fd f (Some ?fd) ?w2)"
      by (intro good_shrink [OF g4]) (auto simp: eq1)
    then show ?thesis using False by (simp add: w3_def unbound_fd_def)
  next
    case True
    have "orphan (insert f A, B) (put_fd f (Some ?fd) ?w2) ?fd"
    proof (cases "client_fn (fd_cb fd)")
      case True
      then show ?thesis by (simp add: orphan_client)
    next
      case False
      then have "fd_cb fd = Some Fn_signal"
        using own loop True by (cases "fd_cb fd") (auto simp: owned_def bnd_def split: fd_fn.splits)
      then show ?thesis using sig by (simp add: orphan_def)
    qed
    then have "good (insert f A, B) (put_fd f (Some ?fd) ?w2) (put_fd f None (put_fd f (Some ?fd) ?w2))"
      by (intro good_del_fd [OF goodD(1) [OF g3]]) simp_all
    then have "good (insert f A, B) w (put_fd f None ?w2)"
      using good_trans [OF g4] by (simp add: put_fd_def)
    then have "good (A, B) w (put_fd f None ?w2)"
      by (rule good_shrink) (auto simp: eq1)
    then show ?thesis using True by (simp add: w3_def unbound_fd_def)
  qed
  have "needed ((w_fds w)(f := None)) l ?lp \<le> needed ((w_fds w)(f \<mapsto> ?fd)) l ?lp"
    by (simp add: needed_def bound_set_upd bound_set_del) (auto simp: is_bound_def)
  then show "needed (w_fds w3) l (flushed f lp) < el_ref lp"
    using nd by (auto simp: w3_def unbound_fd_def eq1)
qed

section \<open>Giving up a reference on a loop\<close>

lemma hooks_owned_free:
  assumes ok: "hooks_owned Y H L S"
    and "\<And>l lp. L l = Some lp \<Longrightarrow> h \<notin> set (hooks_of lp)"
    and "\<And>s sg. S s = Some sg \<Longrightarrow> s \<notin> Y \<Longrightarrow> sg_hook sg \<noteq> h"
  shows "hooks_owned Y (H(h := v)) L S"
proof -
  have l: "live (H(h := v)) g = live H g" if "g \<noteq> h" for g using that by (simp add: live_def)
  show ?thesis using assms l unfolding hooks_owned_def by (intro conjI) metis+
qed

lemma good_put_hook_None:
  assumes inv: "einv_but X w"
    and "\<And>l lp. w_loops w l = Some lp \<Longrightarrow> h \<notin> set (hooks_of lp)"
    and "\<And>s sg. w_sigs w s = Some sg \<Longrightarrow> s \<notin> snd X \<Longrightarrow> sg_hook sg \<noteq> h"
    and rest: "\<And>hk. h_hooks w h = Some hk \<Longrightarrow> hk_cur hk = No_entry"
  shows "good X w (put_hook h None w)"
proof -
  have "hooks_wf (h_next w) ((h_hooks w)(h := None))"
    using einv_hooks [OF inv] by (simp add: hooks_wf_def)
  moreover have "below (h_next w) ((h_hooks w)(h := None))"
    using einv_below(1) [OF inv] by (simp add: below_def)
  moreover have "hooks_owned (snd X) ((h_hooks w)(h := None)) (w_loops w) (w_sigs w)"
    by (rule hooks_owned_free [OF einv_owned [OF inv]]) (use assms(2,3) in auto)
  ultimately have "einv_but X (put_hook h None w)"
    using inv by (simp add: einv_but_def put_hook_def)
  moreover have "ev_rely w (put_hook h None w)"
    using rest by (auto simp: ev_rely_def put_hook_def)
  ultimately show ?thesis by (simp add: good_def)
qed

text \<open>A hook that changes in place.\<close>

lemma good_put_hook:
  assumes inv: "einv_but X w" and hk: "h_hooks w h = Some hk" and ok: "hook_ok (h_next w) hk'"
    and calling: "hk_cur hk \<noteq> No_entry \<Longrightarrow> hk_cur hk' \<noteq> No_entry \<and> slack hk' = slack hk"
    and dead: "hk_dead hk' \<longrightarrow> hk_dead hk \<or> (\<forall>l lp. w_loops w l = Some lp \<longrightarrow> h \<notin> set (hooks_of lp)) \<and>
      (\<forall>s sg. w_sigs w s = Some sg \<longrightarrow> s \<notin> snd X \<longrightarrow> sg_hook sg \<noteq> h)"
  shows "good X w (put_hook h (Some hk') w)"
proof -
  let ?H = "(h_hooks w)(h \<mapsto> hk')"
  have "hooks_wf (h_next w) ?H"
    using einv_hooks [OF inv] ok by (simp add: hooks_wf_def)
  moreover have "below (h_next w) ?H"
    by (rule below_upd [OF einv_below(1) [OF inv]]) (simp add: hk)
  moreover have "hooks_owned (snd X) ?H (w_loops w) (w_sigs w)"
  proof (cases "hk_dead hk' \<and> \<not> hk_dead hk")
    case True
    then show ?thesis using dead by (intro hooks_owned_free [OF einv_owned [OF inv]]) auto
  next
    case False
    then show ?thesis
      using hk by (intro hooks_owned_sub [OF einv_owned [OF inv]]) (auto simp: live_def)
  qed
  ultimately have "einv_but X (put_hook h (Some hk') w)"
    using inv by (simp add: einv_but_def put_hook_def)
  moreover have "ev_rely w (put_hook h (Some hk') w)"
    using hk calling by (auto simp: ev_rely_def put_hook_def)
  ultimately show ?thesis by (simp add: good_def)
qed

lemma good_hook_free:
  assumes inv: "einv_but X w" and hk: "h_hooks w h \<noteq> None"
    and "\<And>l lp. w_loops w l = Some lp \<Longrightarrow> h \<notin> set (hooks_of lp)"
    and "\<And>s sg. w_sigs w s = Some sg \<Longrightarrow> s \<notin> snd X \<Longrightarrow> sg_hook sg \<noteq> h"
  shows "good X w (shl_hook_free h w)"
proof -
  obtain k where k: "h_hooks w h = Some k" using hk by auto
  show ?thesis
  proof (cases "hk_cur k = No_entry")
    case True
    then have "good X w (put_hook h None w)"
      using k by (intro good_put_hook_None [OF inv assms(3,4)]) auto
    then show ?thesis using True k by (simp add: shl_hook_free_def)
  next
    case False
    have "hook_ok (h_next w) k" using einv_hooks [OF inv] k by (simp add: hooks_wf_def)
    then have "good X w (put_hook h (Some (k\<lparr>hk_dead := True\<rparr>)) w)"
      using assms(3,4) by (intro good_put_hook [OF inv k]) (auto simp: hook_ok_def slack_def)
    then show ?thesis using False k by (simp add: shl_hook_free_def)
  qed
qed

lemma hook_free_fields [simp]:
  "h_hooks w h \<noteq> None \<Longrightarrow> w_loops (shl_hook_free h w) = w_loops w"
  "h_hooks w h \<noteq> None \<Longrightarrow> w_sigs (shl_hook_free h w) = w_sigs w"
  "h_hooks w h \<noteq> None \<Longrightarrow> w_fds (shl_hook_free h w) = w_fds w"
  "g \<noteq> h \<Longrightarrow> h_hooks w h \<noteq> None \<Longrightarrow> h_hooks (shl_hook_free h w) g = h_hooks w g"
  by (auto simp: shl_hook_free_def put_hook_def)

lemma put_loop_hook_free: "put_loop l v (shl_hook_free h w) = shl_hook_free h (put_loop l v w)"
  by (simp add: shl_hook_free_def put_loop_def put_hook_def crash_def split: option.splits)

lemma put_loop_close: "put_loop l v (sys_close k w) = sys_close k (put_loop l v w)"
  by (simp add: put_loop_def sys_close_def cong: if_cong)

lemma good_del_loop:
  assumes inv: "einv_but X w" and lp: "w_loops w l = Some lp" and need: "needed (w_fds w) l lp = 0"
  shows "good X w (put_loop l None (put_fd (el_fd lp) None w))"
proof -
  let ?f = "el_fd lp" and ?F = "(w_fds w)(el_fd lp := None)" and ?L = "(w_loops w)(l := None)"
  have fin: "finite (bound_set (w_fds w) l)" by (rule bound_set_finite [OF einv_below(2) [OF inv]])
  have nb: "bound_set (w_fds w) l = {}" "\<not> is_bound (w_fds w) ?f" "\<not> el_dispatching lp"
    using need fin by (auto simp: needed_def split: if_splits)
  then have other: "fd_loop gd \<noteq> Some l" if "w_fds w g = Some gd" for g gd
    using that by (auto simp: bound_set_def)
  obtain fd where fd: "w_fds w ?f = Some fd" "fd_cb fd = Some Fn_eloop" "fd_data fd = l"
    using loops_okD [OF einv_loops [OF inv] lp] by metis
  have un: "fd_loop fd = None" using nb(2) fd(1) by (simp add: is_bound_def)
  have own: "owned ?L (w_timers w) (w_counters w) (w_sigs w) g gd"
    if "owned (w_loops w) (w_timers w) (w_counters w) (w_sigs w) g gd" "g \<noteq> ?f" for g gd
    using that lp by (cases "fd_cb gd") (auto simp: owned_def split: fd_fn.splits)
  have "fds_ok (fst X) ?F ?L (w_timers w) (w_counters w) (w_sigs w)"
    unfolding fds_ok_def
  proof (intro allI impI conjI)
    fix g gd k assume g: "?F g = Some gd"
    then have g': "w_fds w g = Some gd" "g \<noteq> ?f" by (auto split: if_splits)
    show "?L k \<noteq> None" if "fd_loop gd = Some k"
      using einv_fds [OF inv] g'(1) other [OF g'(1)] that unfolding fds_ok_def
      by (metis fun_upd_other)
    show "owned ?L (w_timers w) (w_counters w) (w_sigs w) g gd" if "g \<notin> fst X"
      using einv_fds [OF inv] g' that own unfolding fds_ok_def by blast
  qed
  moreover have "timers_ok ?F (w_timers w)"
  proof (rule timers_ok_fds [OF einv_timers [OF inv]])
    fix t tm assume "w_timers w t = Some tm"
    then have "tm_efd tm \<noteq> ?f" using einv_timers [OF inv] fd unfolding timers_ok_def by fastforce
    then show "?F (tm_efd tm) = w_fds w (tm_efd tm)" by simp
  qed
  moreover have "counters_ok ?F (w_counters w)"
  proof (rule counters_ok_fds [OF einv_counters [OF inv]])
    fix t ct assume "w_counters w t = Some ct"
    then have "ct_efd ct \<noteq> ?f" using einv_counters [OF inv] fd unfolding counters_ok_def by fastforce
    then show "?F (ct_efd ct) = w_fds w (ct_efd ct)" by simp
  qed
  moreover have "sigs_ok (snd X) ?F ?L (w_sigs w)"
    unfolding sigs_ok_def
  proof (intro conjI allI impI)
    fix s sg assume s: "w_sigs w s = Some sg" "s \<notin> snd X"
    from einv_sigs [OF inv] s obtain gd where g: "w_fds w (sg_fd sg) = Some gd"
      "fd_cb gd = Some Fn_signal" "fd_data gd = s" "fd_loop gd = Some (sg_list sg)"
      unfolding sigs_ok_def by blast
    then show "\<exists>fd. ?F (sg_fd sg) = Some fd \<and> fd_cb fd = Some Fn_signal \<and> fd_data fd = s \<and>
        fd_loop fd = Some (sg_list sg)"
      using fd by auto
    have "sg_list sg \<noteq> l" using other [OF g(1)] g(4) by auto
    then show "\<exists>lp. ?L (sg_list sg) = Some lp \<and> s \<in> set (el_sigs lp)"
      using einv_sigs [OF inv] s unfolding sigs_ok_def by (metis fun_upd_other)
  next
    fix k a assume "?L k = Some a"
    then show "\<forall>s \<in> set (el_sigs a). s \<notin> snd X \<and> (\<exists>sg. w_sigs w s = Some sg \<and> sg_list sg = k)"
      using einv_sigs [OF inv] unfolding sigs_ok_def by (metis fun_upd_apply option.distinct(1))
  qed
  moreover have "loops_ok ?F ?L"
    unfolding loops_ok_def
  proof (intro allI impI)
    fix k a assume "?L k = Some a"
    then have a: "w_loops w k = Some a" "k \<noteq> l" by (auto split: if_splits)
    from loops_okD [OF einv_loops [OF inv] a(1)] obtain gd where g: "w_fds w (el_fd a) = Some gd"
      "fd_cb gd = Some Fn_eloop" "fd_data gd = k" "fd_fd gd = el_efd a" "fd_enabled gd"
      "0 < el_ref a" "needed (w_fds w) k a \<le> el_ref a" by metis
    have ne: "el_fd a \<noteq> ?f" using g fd a(2) by auto
    then show "(\<exists>fd. ?F (el_fd a) = Some fd \<and> fd_cb fd = Some Fn_eloop \<and> fd_data fd = k \<and>
        fd_fd fd = el_efd a \<and> fd_enabled fd) \<and> 0 < el_ref a \<and> needed ?F k a \<le> el_ref a"
      using g needed_del [OF einv_below(2) [OF inv] ne, of k] by auto
  qed
  moreover have "polls_ok ?F ?L (k_epoll w) (k_next w)"
    by (rule polls_ok_sub [OF polls_ok_fds [OF einv_polls [OF inv]]])
       (use fd un in \<open>auto split: if_splits\<close>)
  moreover have "hooks_owned (snd X) (h_hooks w) ?L (w_sigs w)"
    by (rule hooks_owned_sub [OF einv_owned [OF inv]]) (auto split: if_splits)
  moreover have "below (h_next w) ?F" "below (h_next w) ?L"
    using einv_below(2,3) [OF inv] by (simp_all add: below_def)
  ultimately have "einv_but X (put_loop l None (put_fd ?f None w))"
    using inv by (simp add: einv_but_def)
  moreover have "cur_ok ?F k a" if "cur_ok (w_fds w) k a" for k a
    by (rule cur_ok_fds [OF that]) (use fd un in auto)
  ultimately show ?thesis using nb(3) lp by (auto simp: good_def ev_rely_def)
qed

lemma put_loop_fd: "put_loop l v (put_fd f u w) = put_fd f u (put_loop l v w)"
  by (simp add: put_loop_def put_fd_def)

lemma put_loop_del: "put_loop l v (epoll_ctl_del e k w) = epoll_ctl_del e k (put_loop l v w)"
  by (simp add: put_loop_def epoll_ctl_del_def)

lemma put_loop_put: "put_loop l v (put_loop l u w) = put_loop l v w"
  by (simp add: put_loop_def)

lemma put_loop_memory: "put_loop l v (free_memory a w) = free_memory a (put_loop l v w)"
  by (simp add: put_loop_def free_memory_def)

lemmas put_loop_inward = put_loop_memory put_loop_hook_free put_loop_close put_loop_fd put_loop_del put_loop_put

lemma sys_close_fields [simp]:
  "w_fds (sys_close k w) = w_fds w" "w_loops (sys_close k w) = w_loops w"
  "w_sigs (sys_close k w) = w_sigs w" "h_hooks (sys_close k w) = h_hooks w"
  "w_sigs (epoll_ctl_del e k w) = w_sigs w" "h_hooks (epoll_ctl_del e k w) = h_hooks w"
  by (simp_all add: sys_close_def epoll_ctl_del_def)

lemma destroy_eq:
  assumes fd: "w_fds w (el_fd lp) = Some fd" "fd_ref fd = 1" and sigs: "el_sigs lp = []"
  shows "eloop_destroy l (put_loop l (Some (lp\<lparr>el_ref := r\<rparr>)) w) =
     free_memory l (free_memory (el_array lp) (shl_hook_free (el_chlds lp) (shl_hook_free (el_idlers lp) (shl_hook_free (el_pres lp)
       (shl_hook_free (el_posts lp) (sys_close (el_efd lp)
         (put_loop l None (put_fd (el_fd lp) None
           (sys_close (el_idle_fd lp) (epoll_ctl_del (el_efd lp) (el_idle_fd lp) w))))))))))"
proof -
  have "ev_fd_unref (el_fd lp) v = put_fd (el_fd lp) None v" if "w_fds v = w_fds w" for v
    using that fd by (simp add: ev_fd_unref_def)
  then show ?thesis
    using sigs by (simp add: eloop_destroy_def unregister_signal_with_def Let_def put_loop_inward)
qed

lemma loop_sigs_bound:
  assumes "sigs_ok Y F L S" and "L l = Some lp" and "bound_set F l = {}"
  shows "el_sigs lp = []"
proof (rule ccontr)
  assume "el_sigs lp \<noteq> []"
  then obtain s where s: "s \<in> set (el_sigs lp)" by (cases "el_sigs lp") auto
  then obtain sg where "S s = Some sg" "s \<notin> Y" "sg_list sg = l"
    using assms(1,2) unfolding sigs_ok_def by blast
  then obtain fd where "F (sg_fd sg) = Some fd" "fd_loop fd = Some l"
    using assms(1) unfolding sigs_ok_def by blast
  then show False using assms(3) by (auto simp: bound_set_def)
qed

lemma good_free_hooks:
  assumes inv: "einv_but X w" and ex: "\<And>h. h \<in> set hs \<Longrightarrow> h_hooks w h \<noteq> None" and d: "distinct hs"
    and "\<And>h l lp. h \<in> set hs \<Longrightarrow> w_loops w l = Some lp \<Longrightarrow> h \<notin> set (hooks_of lp)"
    and "\<And>h s sg. h \<in> set hs \<Longrightarrow> w_sigs w s = Some sg \<Longrightarrow> s \<notin> snd X \<Longrightarrow> sg_hook sg \<noteq> h"
  shows "good X w (fold shl_hook_free hs w)"
  using assms
proof (induction hs arbitrary: w)
  case Nil
  then show ?case by (simp add: good_refl)
next
  case (Cons h hs)
  have h: "h_hooks w h \<noteq> None" using Cons.prems(2) by simp
  have g: "good X w (shl_hook_free h w)"
    by (rule good_hook_free [OF Cons.prems(1) h]) (use Cons.prems(4,5) in auto)
  moreover have "good X (shl_hook_free h w) (fold shl_hook_free hs (shl_hook_free h w))"
  proof (rule Cons.IH [OF goodD(1) [OF g]])
    show "h_hooks (shl_hook_free h w) h' \<noteq> None" if "h' \<in> set hs" for h'
    proof -
      have "h' \<noteq> h" using that Cons.prems(3) by auto
      then show ?thesis using that Cons.prems(2) h by simp
    qed
  qed (use Cons.prems(3-) h in auto)
  ultimately show ?case using good_trans by fastforce
qed

lemma good_unref:
  assumes inv: "einv_but X w" and lp: "w_loops w l = Some lp"
    and need: "needed (w_fds w) l lp < el_ref lp" and X: "el_fd lp \<notin> fst X"
  shows "good X w (ev_eloop_unref l w)"
proof (cases "el_ref lp - 1 = 0")
  case False
  then have "good X w (put_loop l (Some (lp\<lparr>el_ref := el_ref lp - 1\<rparr>)) w)"
    using need by (intro good_put_loop [OF inv lp]) (auto simp: same_loop_def hooks_of_def needed_def)
  then show ?thesis using False lp need by (simp add: ev_eloop_unref_def)
next
  case True
  then have zero: "needed (w_fds w) l lp = 0" using need by simp
  then have nb: "bound_set (w_fds w) l = {}" "\<not> is_bound (w_fds w) (el_fd lp)"
    using bound_set_finite [OF einv_below(2) [OF inv], of l]
    by (auto simp: needed_def split: if_splits)
  obtain fd where fd: "w_fds w (el_fd lp) = Some fd" "fd_cb fd = Some Fn_eloop"
    using loops_okD [OF einv_loops [OF inv] lp] by metis
  have "owned (w_loops w) (w_timers w) (w_counters w) (w_sigs w) (el_fd lp) fd"
    using einv_fds [OF inv] fd(1) X by (simp add: fds_ok_def)
  moreover have "bnd fd = 0" using nb(2) fd(1) by (simp add: is_bound_def bnd_def)
  ultimately have ref: "fd_ref fd = 1" using fd(2) by (simp add: owned_def)
  have sigs: "el_sigs lp = []" by (rule loop_sigs_bound [OF einv_sigs [OF inv] lp nb(1)])
  let ?w1 = "sys_close (el_idle_fd lp) (epoll_ctl_del (el_efd lp) (el_idle_fd lp) w)"
  let ?w2 = "put_loop l None (put_fd (el_fd lp) None ?w1)"
  let ?w3 = "sys_close (el_efd lp) ?w2"
  let ?hs = "[el_posts lp, el_pres lp, el_idlers lp, el_chlds lp]"
  have q: "quiet w ?w1" by (meson quiet_trans epoll_ctl_del_quiet sys_close_quiet)
  note eqs = quiet_eqs [OF q]
  have g1: "good X w ?w1" by (rule quiet_good [OF inv q])
  have g2: "good X ?w1 ?w2"
    by (rule good_del_loop [OF goodD(1) [OF g1]]) (simp_all add: eqs lp zero)
  have g3: "good X ?w2 ?w3" by (rule quiet_good [OF goodD(1) [OF g2] sys_close_quiet])
  have eq3: "w_loops ?w3 = (w_loops w)(l := None)" "w_sigs ?w3 = w_sigs w" "h_hooks ?w3 = h_hooks w"
    by (simp_all add: eqs)
  have hs: "set ?hs = set (hooks_of lp)" "distinct ?hs = distinct (hooks_of lp)"
    by (auto simp: hooks_of_def)
  have "good X ?w3 (fold shl_hook_free ?hs ?w3)"
  proof (rule good_free_hooks [OF goodD(1) [OF g3]])
    show "distinct ?hs"
      using einv_owned [OF inv] lp hs(2) unfolding hooks_owned_def by blast
    fix h assume h: "h \<in> set ?hs"
    then have h': "h \<in> set (hooks_of lp)" using hs(1) by blast
    have "live (h_hooks w) h" using einv_owned [OF inv] lp h' unfolding hooks_owned_def by blast
    then show "h_hooks ?w3 h \<noteq> None" using live_some eq3(3) by metis
    show "h \<notin> set (hooks_of a)" if "w_loops ?w3 k = Some a" for k a
      using einv_owned [OF inv] lp h' that unfolding eq3 hooks_owned_def
      by (metis fun_upd_apply option.distinct(1))
    show "sg_hook sg \<noteq> h" if "w_sigs ?w3 s = Some sg" for s sg
      using einv_owned [OF inv] lp h' that unfolding eq3 hooks_owned_def by metis
  qed
  then have g4: "good X w (fold shl_hook_free ?hs ?w3)"
    using g1 g2 g3 by (meson good_trans)
  have "quiet (fold shl_hook_free ?hs ?w3) (free_memory l (free_memory (el_array lp) (fold shl_hook_free ?hs ?w3)))"
    by (meson free_memory_quiet quiet_trans)
  then have "good X w (free_memory l (free_memory (el_array lp) (fold shl_hook_free ?hs ?w3)))"
    using g4 quiet_good [OF goodD(1) [OF g4]] good_trans by blast
  then show ?thesis
    using True lp need destroy_eq [OF fd(1) ref sigs, of l 0] by (simp add: ev_eloop_unref_def)
qed

end
