(* ===== verification/Eloop_Ops.thy ===== *)
theory Eloop_Ops
  imports Eloop_Inv
begin

text \<open>
  The operations of the event loop keep its invariant and disturb no dispatch that is running, as
  long as their caller gives up only references that it holds. The last section collects the
  operations that a client has in one type, with these conditions.
\<close>

section \<open>Sources\<close>

lemma fd_ok:
  assumes "einv_but X w" and "w_fds w f = Some fd" and "f \<notin> fst X"
  shows "owned (w_loops w) (w_timers w) (w_counters w) (w_sigs w) f fd"
  using einv_fds [OF assms(1)] assms(2,3) by (simp add: fds_ok_def)

lemma bound_loop:
  assumes "einv_but X w" and "w_fds w f = Some fd" and "fd_loop fd = Some l"
  obtains lp where "w_loops w l = Some lp"
  using einv_fds [OF assms(1)] assms(2,3) unfolding fds_ok_def by blast

lemma good_fd_ref:
  assumes inv: "einv_but X w" and fd: "w_fds w f = Some fd" and c: "client_fn (fd_cb fd)"
    and X: "f \<notin> fst X"
  shows "good X w (ev_fd_ref f w)"
proof -
  have "0 < fd_ref fd" "bnd fd \<le> fd_ref fd"
    using fd_ok [OF inv fd X] c by (simp_all add: owned_client)
  then have "good X w (put_fd f (Some (fd\<lparr>fd_ref := Suc (fd_ref fd)\<rparr>)) w)"
    by (intro good_put_fd [OF inv fd]) (auto simp: same_kind_def bnd_def c)
  then show ?thesis using fd \<open>0 < fd_ref fd\<close> by (simp add: ev_fd_ref_def)
qed

lemma good_fd_unref:
  assumes inv: "einv_but X w" and fd: "w_fds w f = Some fd" and c: "client_fn (fd_cb fd)"
    and ref: "bnd fd < fd_ref fd"
  shows "good X w (ev_fd_unref f w)"
proof (cases "fd_ref fd - 1 = 0")
  case True
  then have "fd_loop fd = None" using ref by (auto simp: bnd_def split: if_splits)
  then show ?thesis
    using good_del_fd [OF inv fd _ orphan_client [OF c]] True fd ref by (simp add: ev_fd_unref_def)
next
  case False
  then have "good X w (put_fd f (Some (fd\<lparr>fd_ref := fd_ref fd - 1\<rparr>)) w)"
    using ref by (intro good_put_fd [OF inv fd]) (auto simp: same_kind_def bnd_def c)
  then show ?thesis using False fd ref by (simp add: ev_fd_unref_def)
qed

lemma enter_put_fd: "enter_epoll lp f fd (put_fd f v w) = put_fd f v (enter_epoll lp f fd w)"
  by (simp add: enter_epoll_def put_fd_def)

lemma enter_fields [simp]:
  "w_fds (enter_epoll lp f fd w) = w_fds w" "w_loops (enter_epoll lp f fd w) = w_loops w"
  by (simp_all add: enter_epoll_def)

lemma good_fd_enable:
  assumes inv: "einv_but X w" and fd: "w_fds w f = Some fd"
    and X: "f \<notin> fst X" and en: "ev_fd_enable f w = (r, w')"
  shows "good X w w'"
proof (cases "fd_enabled fd")
  case True
  then have "w' = w" using en fd by (simp add: ev_fd_enable_def)
  then show ?thesis using good_refl [OF inv] by simp
next
  case False
  let ?fd = "fd\<lparr>fd_enabled := True\<rparr>"
  have ref: "client_fn (fd_cb fd) \<Longrightarrow> 0 < fd_ref fd \<and> bnd fd \<le> fd_ref fd"
    using fd_ok [OF inv fd X] by (simp add: owned_client)
  have put: "good X v (put_fd f (Some ?fd) v)" if "einv_but X v" "w_fds v f = Some fd" for v
    using ref by (intro good_put_fd [OF that]) (auto simp: same_kind_def bnd_def)
  show ?thesis
  proof (cases "fd_loop fd")
    case None
    then have "w' = put_fd f (Some ?fd) w"
      using en fd False by (simp add: ev_fd_enable_def fd_epoll_add_def with_loop_def)
    then show ?thesis using put [OF inv fd] by simp
  next
    case (Some l)
    obtain lp where lp: "w_loops w l = Some lp" using bound_loop [OF inv fd Some] .
    obtain r2 w2 where e: "efault (epoll_ctl_add (el_efd lp) (fd_fd fd) (epoll_mask (fd_mask fd))
        (Ptr_fd f) w) = (r2, w2)" by (meson surj_pair)
    then have step: "fd_epoll_add f w = (r2, w2)"
      using fd Some lp by (simp add: fd_epoll_add_def with_loop_def)
    from epoll_add_cases [OF e] show ?thesis
    proof (elim disjE exE conjE)
      fix a assume "ask w = (a, w2)" "r2 \<noteq> ok"
      then have "w' = w2" "quiet w w2"
        using en fd False step ask_quiet by (auto simp: ev_fd_enable_def)
      then show ?thesis using quiet_good [OF inv] by simp
    next
      fix a w1 assume a: "ask w = (a, w1)" "r2 = ok" "w2 = enter_epoll lp f fd w1"
      note q = ask_quiet [OF a(1)] and eqs = quiet_eqs [OF ask_quiet [OF a(1)]]
      have g1: "good X w w1" by (rule quiet_good [OF inv q])
      have g2: "good X w1 (put_fd f (Some ?fd) w1)"
        by (rule put [OF goodD(1) [OF g1]]) (simp add: eqs fd)
      have "good X (put_fd f (Some ?fd) w1) (enter_epoll lp f fd (put_fd f (Some ?fd) w1))"
        by (rule good_enter [OF goodD(1) [OF g2], where l = l and lp = lp and fd = ?fd])
           (simp_all add: eqs lp Some)
      moreover have "w' = enter_epoll lp f fd (put_fd f (Some ?fd) w1)"
        using en fd False step a(2,3) by (simp add: ev_fd_enable_def enter_put_fd)
      ultimately show ?thesis using g1 g2 by (meson good_trans)
    qed
  qed
qed

lemma put_fd_del: "epoll_ctl_del e k (put_fd f v w) = put_fd f v (epoll_ctl_del e k w)"
  by (simp add: epoll_ctl_del_def put_fd_def)

lemma good_fd_disable:
  assumes inv: "einv_but X w" and fd: "w_fds w f = Some fd" and ne: "fd_cb fd \<noteq> Some Fn_eloop"
    and X: "f \<notin> fst X"
  shows "good X w (ev_fd_disable f w)"
proof (cases "fd_enabled fd")
  case False
  then show ?thesis using fd by (simp add: ev_fd_disable_def good_refl [OF inv])
next
  case True
  let ?fd = "fd\<lparr>fd_enabled := False\<rparr>"
  have ref: "client_fn (fd_cb fd) \<Longrightarrow> 0 < fd_ref fd \<and> bnd fd \<le> fd_ref fd"
    using fd_ok [OF inv fd X] by (simp add: owned_client)
  show ?thesis
  proof (cases "fd_loop fd")
    case None
    then have "good X w (put_fd f (Some ?fd) w)"
      using ref ne by (intro good_put_fd [OF inv fd]) (auto simp: same_kind_def bnd_def)
    then show ?thesis
      using fd True None by (simp add: ev_fd_disable_def fd_epoll_remove_def with_loop_def)
  next
    case (Some l)
    obtain lp where lp: "w_loops w l = Some lp" using bound_loop [OF inv fd Some] .
    let ?w1 = "epoll_ctl_del (el_efd lp) (fd_fd fd) w"
    have g1: "good X w ?w1" by (rule quiet_good [OF inv epoll_ctl_del_quiet])
    have fd1: "w_fds ?w1 f = Some fd" using fd by simp
    have "good X ?w1 (put_fd f (Some ?fd) ?w1)"
      using ref ne lp Some
      by (intro good_put_fd [OF goodD(1) [OF g1] fd1])
         (auto simp: same_kind_def bnd_def epoll_ctl_del_def)
    then have "good X w (put_fd f (Some ?fd) ?w1)" using g1 by (meson good_trans)
    then show ?thesis
      using fd True Some lp
      by (simp add: ev_fd_disable_def fd_epoll_remove_def with_loop_def put_fd_del)
  qed
qed

lemma good_fd_set_cb:
  assumes inv: "einv_but X w" and fd: "w_fds w f = Some fd" and c: "client_fn (fd_cb fd)"
    and c': "client_fn cb" and X: "f \<notin> fst X"
  shows "good X w (ev_fd_set_cb_data f cb d w)"
proof -
  have "0 < fd_ref fd \<and> bnd fd \<le> fd_ref fd"
    using fd_ok [OF inv fd X] c by (simp add: owned_client)
  then have "good X w (put_fd f (Some (fd\<lparr>fd_cb := cb, fd_data := d\<rparr>)) w)"
    using c c' by (intro good_put_fd [OF inv fd]) (auto simp: same_kind_def bnd_def)
  then show ?thesis using fd by (simp add: ev_fd_set_cb_data_def)
qed

lemma good_fd_update:
  assumes inv: "einv_but X w" and fd: "w_fds w f = Some fd" and X: "f \<notin> fst X"
    and up: "ev_fd_update f m w = (r, w')"
  shows "good X w w'"
proof -
  let ?fd = "fd\<lparr>fd_mask := m\<rparr>"
  have ref: "client_fn (fd_cb fd) \<Longrightarrow> 0 < fd_ref fd \<and> bnd fd \<le> fd_ref fd"
    using fd_ok [OF inv fd X] by (simp add: owned_client)
  have g1: "good X w (put_fd f (Some ?fd) w)" (is "good X w ?w1")
    using ref by (intro good_put_fd [OF inv fd]) (auto simp: same_kind_def bnd_def)
  consider "w' = w" | "w' = ?w1" |
      (epoll) "fd_enabled fd" "w' = (case fd_epoll_update f ?w1 of (Some e, v) \<Rightarrow> put_fd f (Some fd) v | (None, v) \<Rightarrow> v)"
    using up fd by (auto simp: ev_fd_update_def Let_def split: if_splits prod.splits option.splits)
  then show ?thesis
  proof cases
    case epoll
    show ?thesis
    proof (cases "fd_loop fd")
      case None
      then show ?thesis using g1 epoll(2) by (simp add: fd_epoll_update_def with_loop_def)
    next
      case (Some l)
      obtain lp where lp: "w_loops w l = Some lp" using bound_loop [OF inv fd Some] .
      obtain r2 w2 where e: "efault (epoll_ctl_mod (el_efd lp) (fd_fd ?fd) (epoll_mask (fd_mask ?fd))
          (Ptr_fd f) ?w1) = (r2, w2)" by (meson surj_pair)
      then have step: "fd_epoll_update f ?w1 = (r2, w2)"
        using Some lp by (simp add: fd_epoll_update_def with_loop_def)
      from epoll_mod_cases [OF e] show ?thesis
      proof (elim disjE exE conjE)
        fix a assume a: "ask ?w1 = (a, w2)" "r2 \<noteq> ok"
        note q = ask_quiet [OF a(1)]
        have g2: "good X ?w1 w2" by (rule quiet_good [OF goodD(1) [OF g1] q])
        have fd2: "w_fds w2 f = Some ?fd" using quiet_eqs(1) [OF q] by simp
        have "good X w2 (put_fd f (Some fd) w2)"
          using ref by (intro good_put_fd [OF goodD(1) [OF g2] fd2]) (auto simp: same_kind_def bnd_def)
        moreover have "w' = put_fd f (Some fd) w2" using epoll(2) step a(2) by auto
        ultimately show ?thesis using g1 g2 by (meson good_trans)
      next
        fix a v assume a: "ask ?w1 = (a, v)" "r2 = ok" "w2 = enter_epoll lp f ?fd v"
        note q = ask_quiet [OF a(1)] and eqs = quiet_eqs [OF ask_quiet [OF a(1)]]
        have g2: "good X ?w1 v" by (rule quiet_good [OF goodD(1) [OF g1] q])
        have "good X v w2"
          unfolding a(3)
          by (rule good_enter [OF goodD(1) [OF g2], where l = l and lp = lp and fd = ?fd])
             (simp_all add: eqs lp Some epoll(1))
        moreover have "w' = w2" using epoll(2) step a(2) by simp
        ultimately show ?thesis using g1 g2 by (meson good_trans)
      qed
    qed
  qed (use g1 good_refl [OF inv] in simp_all)
qed

section \<open>Binding and removing sources\<close>

lemma good_rm:
  assumes inv: "einv_but ({}, B) w" and fd: "w_fds w f = Some fd"
    and sig: "fd_cb fd = Some Fn_signal \<Longrightarrow> fd_data fd \<in> B"
  shows "good ({}, B) w (ev_eloop_rm_fd f w)"
proof (cases "fd_loop fd")
  case None
  then show ?thesis using fd by (simp add: ev_eloop_rm_fd_def rm_fd_with_def good_refl [OF inv])
next
  case (Some l)
  obtain lp where lp: "w_loops w l = Some lp" using bound_loop [OF inv fd Some] .
  have "0 < fd_ref fd" using owned_ref fd_ok [OF inv fd] by simp
  let ?w3 = "put_fd f (unbound_fd fd) (put_loop l (Some (flushed f lp)) (leave_epoll lp fd w))"
  have eq: "ev_eloop_rm_fd f w = ev_eloop_unref l ?w3"
    unfolding ev_eloop_rm_fd_def by (rule rm_fd_eq [OF fd Some lp \<open>0 < fd_ref fd\<close>])
  have g: "good ({}, B) w ?w3" and n: "needed (w_fds ?w3) l (flushed f lp) < el_ref lp"
    using good_rm_fd [OF inv fd Some lp _ sig] by simp_all
  have "good ({}, B) ?w3 (ev_eloop_unref l ?w3)"
    by (rule good_unref [OF goodD(1) [OF g], where lp = "flushed f lp"]) (use n in \<open>simp_all add: flushed_same\<close>)
  then show ?thesis using g eq by (simp add: good_trans)
qed

text \<open>The objects after a source was added to a loop.\<close>

lemma add_fd_objects:
  assumes "w_fds w f = Some fd" and "w_loops w l = Some lp" and "fd_loop fd = None"
    and "0 < fd_ref fd" and "ev_eloop_add_fd l f w = (r, w')"
  shows "w_timers w' = w_timers w \<and> w_counters w' = w_counters w \<and> w_sigs w' = w_sigs w \<and>
     h_hooks w' = h_hooks w \<and>
     (if r = ok
      then w_fds w' = (w_fds w)(f \<mapsto> fd\<lparr>fd_loop := Some l, fd_ref := Suc (fd_ref fd)\<rparr>) \<and>
           w_loops w' = (w_loops w)(l \<mapsto> lp\<lparr>el_ref := Suc (el_ref lp)\<rparr>)
      else w_fds w' = w_fds w \<and> w_loops w' = w_loops w)"
  using add_fd_cases [OF assms]
  by (elim disjE exE conjE) (auto simp: quiet_eqs bind_fd_def enter_epoll_def)

lemma good_unref_orphan:
  assumes inv: "einv_but (A, B) w" and fd: "w_fds w f = Some fd" and X: "f \<in> A"
    and ref: "bnd fd < fd_ref fd" and orph: "orphan (A, B) w fd"
  shows "good (A, B) w (ev_fd_unref f w)"
proof (cases "fd_ref fd - 1 = 0")
  case True
  then have "fd_loop fd = None" using ref by (auto simp: bnd_def split: if_splits)
  then show ?thesis
    using good_del_fd [OF inv fd _ orph] True fd ref by (simp add: ev_fd_unref_def)
next
  case False
  then have "good (A, B) w (put_fd f (Some (fd\<lparr>fd_ref := fd_ref fd - 1\<rparr>)) w)"
    using X by (intro good_put_fd [OF inv fd]) (auto simp: same_kind_def bnd_def)
  then show ?thesis using False fd ref by (simp add: ev_fd_unref_def)
qed

lemma good_eloop_new_fd:
  assumes inv: "einv_but ({}, B) w" and lp: "w_loops w l = Some lp"
    and cb: "client_fn cb \<or> cb = Some Fn_signal \<and> w_sigs w d = None"
    and new: "ev_eloop_new_fd l rfd m cb d w = (r, w')"
  shows "case r of
       Inl e \<Rightarrow> good ({}, B) w w' \<and> w_sigs w' = w_sigs w \<and> w_loops w' = w_loops w \<and>
         h_hooks w' = h_hooks w
     | Inr f \<Rightarrow> good ({f}, B) w w' \<and> w_fds w f = None \<and>
         w_fds w' = (w_fds w)(f \<mapsto> \<lparr>fd_ref = 1, fd_fd = nat rfd, fd_mask = m, fd_cb = cb, fd_data = d,
                        fd_enabled = True, fd_loop = Some l\<rparr>) \<and>
         w_loops w' = (w_loops w)(l \<mapsto> lp\<lparr>el_ref := Suc (el_ref lp)\<rparr>) \<and> w_sigs w' = w_sigs w \<and>
         w_timers w' = w_timers w \<and> w_counters w' = w_counters w \<and> h_hooks w' = h_hooks w"
proof (cases "rfd < 0")
  case True
  then have "r = Inl EINVAL" "w' = w" using new by (simp_all add: ev_eloop_new_fd_def)
  then show ?thesis using good_refl [OF inv] by simp
next
  case False
  show ?thesis
  proof (cases "alloc w")
    case (Pair a w1)
    note q1 = alloc_quiet [OF Pair] and eq1 = quiet_eqs [OF alloc_quiet [OF Pair]]
    show ?thesis
    proof (cases a)
      case None
      then show ?thesis
        using new False Pair quiet_good [OF inv q1] eq1
        by (auto simp: ev_eloop_new_fd_def ev_fd_new_def)
    next
      case (Some f)
      let ?fd = "\<lparr>fd_ref = 1, fd_fd = nat rfd, fd_mask = m, fd_cb = cb, fd_data = d,
                  fd_enabled = True, fd_loop = None\<rparr>"
      let ?w2 = "put_fd f (Some ?fd) w1"
      have f: "f = h_next w" "f < h_next w1" using alloc_Some [of w f w1] Pair Some by auto
      then have fresh: "w_fds w f = None"
        using einv_below(2) [OF inv] by (auto simp: below_def)
      have g1: "good ({f}, B) w w1" by (rule quiet_good [OF einv_grow [OF inv] q1]) simp
      have g2: "good ({f}, B) w1 ?w2"
        by (rule good_new_fd [OF goodD(1) [OF g1]]) (simp_all add: eq1 fresh f(2))
      have lp2: "w_loops ?w2 l = Some lp" using lp eq1 by simp
      have fd2: "w_fds ?w2 f = Some ?fd" by simp
      obtain r3 w3 where add: "ev_eloop_add_fd l f ?w2 = (r3, w3)" by (meson surj_pair)
      have notown: "el_fd lc \<noteq> f" if "w_loops ?w2 c = Some lc" for c lc
        using loops_okD [OF einv_loops [OF inv], of c lc] that fresh eq1 by fastforce
      have g3: "good ({f}, B) ?w2 w3"
        by (rule good_add_fd [OF goodD(1) [OF g2] fd2 _ lp2 _ add]) (use notown in auto)
      have obj: "w_timers w3 = w_timers w \<and> w_counters w3 = w_counters w \<and> w_sigs w3 = w_sigs w \<and>
         h_hooks w3 = h_hooks w \<and>
         (if r3 = ok
          then w_fds w3 = (w_fds w)(f \<mapsto> ?fd\<lparr>fd_loop := Some l, fd_ref := 2\<rparr>) \<and>
               w_loops w3 = (w_loops w)(l \<mapsto> lp\<lparr>el_ref := Suc (el_ref lp)\<rparr>)
          else w_fds w3 = (w_fds w)(f \<mapsto> ?fd) \<and> w_loops w3 = w_loops w)"
        using add_fd_objects [OF fd2 lp2 _ _ add] eq1 by (auto simp: numeral_2_eq_2)
      have orph: "orphan ({f}, B) w3 gd" if "fd_cb gd = cb" "fd_data gd = d" for gd
        using cb obj that by (auto simp: orphan_client) (simp add: orphan_def)
      have new': "w' = ev_fd_unref f w3 \<and> r = (case r3 of Some e \<Rightarrow> Inl e | None \<Rightarrow> Inr f)"
        using new False Pair Some add
        by (auto simp: ev_eloop_new_fd_def ev_fd_new_def split: option.splits)
      have g4: "good ({f}, B) w w3" using g1 g2 g3 by (meson good_trans)
      show ?thesis
      proof (cases r3)
        case None
        let ?fd3 = "?fd\<lparr>fd_loop := Some l, fd_ref := 2\<rparr>"
        have fd3: "w_fds w3 f = Some ?fd3" using obj None by simp
        have "good ({f}, B) w3 (ev_fd_unref f w3)"
          by (rule good_unref_orphan [OF goodD(1) [OF g3] fd3]) (simp_all add: bnd_def orph)
        then have "good ({f}, B) w w'" using new' good_trans [OF g4] by simp
        moreover have "ev_fd_unref f w3 = put_fd f (Some (?fd3\<lparr>fd_ref := 1\<rparr>)) w3"
          using fd3 by (simp add: ev_fd_unref_def)
        ultimately show ?thesis using new' None obj fresh by simp
      next
        case (Some e)
        have fd3: "w_fds w3 f = Some ?fd" using obj Some by simp
        have "good ({f}, B) w3 (ev_fd_unref f w3)"
          by (rule good_unref_orphan [OF goodD(1) [OF g3] fd3]) (simp_all add: bnd_def orph)
        then have g5: "good ({f}, B) w w'" using new' good_trans [OF g4] by simp
        have w': "w' = put_fd f None w3" using fd3 new' by (simp add: ev_fd_unref_def)
        then have "good ({}, B) w w'" by (intro good_shrink [OF g5]) auto
        moreover have "r = Inl e" using new' Some by simp
        moreover have "w_sigs w' = w_sigs w \<and> w_loops w' = w_loops w \<and> h_hooks w' = h_hooks w"
          using obj Some w' by simp
        ultimately show ?thesis by simp
      qed
    qed
  qed
qed

section \<open>Timers\<close>

lemma put_timer_simps [simp]:
  "w_fds (put_timer t v w) = w_fds w" "w_loops (put_timer t v w) = w_loops w"
  "w_timers (put_timer t v w) = (w_timers w)(t := v)" "w_counters (put_timer t v w) = w_counters w"
  "w_sigs (put_timer t v w) = w_sigs w" "h_hooks (put_timer t v w) = h_hooks w"
  "h_next (put_timer t v w) = h_next w" "k_epoll (put_timer t v w) = k_epoll w"
  "k_next (put_timer t v w) = k_next w" "h_crash (put_timer t v w) = h_crash w"
  "w_trace (put_timer t v w) = w_trace w"
  by (simp_all add: put_timer_def)

lemma rely_put_timer: "ev_rely w (put_timer t v w)"
  by (simp add: ev_rely_def)

lemma owned_timer:
  assumes "owned L T C S f fd" and "\<And>tm. T t = Some tm \<Longrightarrow> tm_efd tm = f \<Longrightarrow>
      \<exists>tm'. v = Some tm' \<and> tm_efd tm' = f"
  shows "owned L (T(t := v)) C S f fd"
  using assms by (cases "fd_cb fd") (auto simp: owned_def split: fd_fn.splits)

lemma timers_okD:
  assumes "timers_ok F T" and "T t = Some tm"
  obtains fd where "F (tm_efd tm) = Some fd" "fd_cb fd = Some Fn_timer" "fd_data fd = t"
    "bnd fd \<le> tm_ref tm" "0 < tm_ref tm"
  using assms unfolding timers_ok_def by blast

lemma good_put_timer:
  assumes inv: "einv_but X w" and tm: "w_timers w t = Some tm" and e: "tm_efd tm' = tm_efd tm"
    and ref: "0 < tm_ref tm'" "\<And>fd. w_fds w (tm_efd tm) = Some fd \<Longrightarrow> bnd fd \<le> tm_ref tm'"
  shows "good X w (put_timer t (Some tm') w)"
proof -
  have "fds_ok (fst X) (w_fds w) (w_loops w) ((w_timers w)(t \<mapsto> tm')) (w_counters w) (w_sigs w)"
    using einv_fds [OF inv] tm e unfolding fds_ok_def by (auto intro: owned_timer)
  moreover have "timers_ok (w_fds w) ((w_timers w)(t \<mapsto> tm'))"
    unfolding timers_ok_def
  proof (intro allI impI)
    fix u um assume u: "((w_timers w)(t \<mapsto> tm')) u = Some um"
    show "0 < tm_ref um \<and> (\<exists>fd. w_fds w (tm_efd um) = Some fd \<and> fd_cb fd = Some Fn_timer \<and>
        fd_data fd = u \<and> bnd fd \<le> tm_ref um)"
    proof (cases "u = t")
      case True
      then have "um = tm'" using u by simp
      with True show ?thesis
        by (rule_tac timers_okD [OF einv_timers [OF inv] tm]) (use e ref in auto)
    next
      case False
      then show ?thesis using u einv_timers [OF inv] unfolding timers_ok_def by simp
    qed
  qed
  moreover have "below (h_next w) ((w_timers w)(t \<mapsto> tm'))"
    by (rule below_upd) (use einv_below(4) [OF inv] tm in auto)
  ultimately show ?thesis using inv rely_put_timer by (simp add: good_def einv_but_def)
qed

lemma good_new_timer_obj:
  assumes inv: "einv_but ({f}, B) w" and fd: "w_fds w f = Some fd" "fd_cb fd = Some Fn_timer"
      "fd_data fd = t" "fd_ref fd = 1" "fd_loop fd = None"
    and t: "w_timers w t = None" "t < h_next w" and tm: "tm_efd tm = f" "tm_ref tm = 1"
  shows "good ({}, B) w (put_timer t (Some tm) w)"
proof -
  let ?T = "(w_timers w)(t \<mapsto> tm)"
  have "fds_ok {} (w_fds w) (w_loops w) ?T (w_counters w) (w_sigs w)"
    unfolding fds_ok_def
  proof (intro allI impI conjI)
    fix g gd l assume g: "w_fds w g = Some gd"
    show "w_loops w l \<noteq> None" if "fd_loop gd = Some l"
      using einv_fds [OF inv] g that unfolding fds_ok_def by blast
    show "owned (w_loops w) ?T (w_counters w) (w_sigs w) g gd"
    proof (cases "g = f")
      case True
      then show ?thesis using g fd tm by (simp add: owned_def bnd_def)
    next
      case False
      then have "owned (w_loops w) (w_timers w) (w_counters w) (w_sigs w) g gd"
        using einv_fds [OF inv] g unfolding fds_ok_def by simp
      then show ?thesis by (rule owned_timer) (simp add: t)
    qed
  qed
  moreover have "timers_ok (w_fds w) ?T"
    using einv_timers [OF inv] fd tm unfolding timers_ok_def by (simp add: bnd_def)
  moreover have "below (h_next w) ?T"
    using einv_below(4) [OF inv] t by (simp add: below_def)
  ultimately show ?thesis using inv rely_put_timer by (simp add: good_def einv_but_def)
qed

lemma good_forget_timer:
  assumes inv: "einv_but (A, B) w" and tm: "w_timers w t = Some tm"
  shows "good (insert (tm_efd tm) A, B) w (put_timer t None w)"
proof -
  let ?T = "(w_timers w)(t := None)"
  have "fds_ok (insert (tm_efd tm) A) (w_fds w) (w_loops w) ?T (w_counters w) (w_sigs w)"
    using einv_fds [OF inv] tm unfolding fds_ok_def by (auto intro: owned_timer)
  moreover have "timers_ok (w_fds w) ?T"
    using einv_timers [OF inv] unfolding timers_ok_def by simp
  moreover have "below (h_next w) ?T"
    using einv_below(4) [OF inv] by (simp add: below_def)
  ultimately show ?thesis using inv rely_put_timer by (simp add: good_def einv_but_def)
qed

lemma good_timer_ref:
  assumes inv: "einv_but X w" and tm: "w_timers w t = Some tm"
  shows "good X w (ev_timer_ref t w)"
proof -
  obtain fd where fd: "w_fds w (tm_efd tm) = Some fd" "bnd fd \<le> tm_ref tm" "0 < tm_ref tm"
    using timers_okD [OF einv_timers [OF inv] tm] by metis
  then have "good X w (put_timer t (Some (tm\<lparr>tm_ref := Suc (tm_ref tm)\<rparr>)) w)"
    by (intro good_put_timer [OF inv tm]) auto
  then show ?thesis using tm fd(3) by (simp add: ev_timer_ref_def)
qed

lemma good_timer_unref:
  assumes inv: "einv_but ({}, B) w" and tm: "w_timers w t = Some tm"
    and ref: "\<And>fd. w_fds w (tm_efd tm) = Some fd \<Longrightarrow> bnd fd < tm_ref tm"
  shows "good ({}, B) w (ev_timer_unref t w)"
proof -
  obtain fd where fd: "w_fds w (tm_efd tm) = Some fd" "fd_cb fd = Some Fn_timer" "fd_data fd = t"
    using timers_okD [OF einv_timers [OF inv] tm] by metis
  note lt = ref [OF fd(1)]
  show ?thesis
  proof (cases "tm_ref tm - 1 = 0")
    case False
    then have "good ({}, B) w (put_timer t (Some (tm\<lparr>tm_ref := tm_ref tm - 1\<rparr>)) w)"
      using lt fd(1) by (intro good_put_timer [OF inv tm]) auto
    then show ?thesis using False tm lt by (simp add: ev_timer_unref_def)
  next
    case True
    then have un: "fd_loop fd = None" using lt by (auto simp: bnd_def split: if_splits)
    have r1: "fd_ref fd = 1"
      using fd_ok [OF inv fd(1)] fd(2) un by (simp add: owned_def bnd_def)
    let ?w1 = "put_timer t None w"
    let ?w2 = "put_fd (tm_efd tm) None ?w1"
    have g1: "good ({tm_efd tm}, B) w ?w1" by (rule good_forget_timer [OF inv tm])
    have "good ({tm_efd tm}, B) ?w1 ?w2"
      by (rule good_del_fd [OF goodD(1) [OF g1] _ un])
         (use fd in \<open>simp_all add: orphan_def\<close>)
    then have "good ({tm_efd tm}, B) w ?w2" using g1 by (meson good_trans)
    then have g2: "good ({}, B) w ?w2" by (rule good_shrink) auto
    have "good ({}, B) ?w2 (sys_close (tm_fd tm) ?w2)"
      by (rule quiet_good [OF goodD(1) [OF g2] sys_close_quiet])
    then have "good ({}, B) w (sys_close (tm_fd tm) ?w2)" using g2 by (meson good_trans)
    moreover have "ev_timer_unref t w = sys_close (tm_fd tm) ?w2"
      using True tm lt fd(1) r1
      by (simp add: ev_timer_unref_def ev_fd_unref_def put_timer_def put_fd_def sys_close_def
          cong: if_cong)
    ultimately show ?thesis by simp
  qed
qed

lemma good_timer_set_cb:
  assumes inv: "einv_but X w" and tm: "w_timers w t = Some tm"
  shows "good X w (ev_timer_set_cb_data t cb d w)"
proof -
  obtain fd where fd: "w_fds w (tm_efd tm) = Some fd" "bnd fd \<le> tm_ref tm" "0 < tm_ref tm"
    using timers_okD [OF einv_timers [OF inv] tm] by metis
  then have "good X w (put_timer t (Some (tm\<lparr>tm_cb := cb, tm_data := d\<rparr>)) w)"
    by (intro good_put_timer [OF inv tm]) auto
  then show ?thesis using tm by (simp add: ev_timer_set_cb_data_def)
qed

text \<open>The source of a new timer, and the timer that takes it over.\<close>

lemma good_fd_new:
  assumes inv: "einv_but ({}, B) w" and new: "ev_fd_new rfd m cb d w = (r, w')"
  shows "case r of
       Inl e \<Rightarrow> good ({}, B) w w'
     | Inr f \<Rightarrow> good ({f}, B) w w' \<and> w_fds w f = None \<and> h_next w \<le> h_next w' \<and>
         w_fds w' = (w_fds w)(f \<mapsto> \<lparr>fd_ref = 1, fd_fd = nat rfd, fd_mask = m, fd_cb = cb, fd_data = d,
                        fd_enabled = True, fd_loop = None\<rparr>) \<and>
         w_timers w' = w_timers w \<and> w_counters w' = w_counters w \<and> w_loops w' = w_loops w"
proof (cases "rfd < 0")
  case True
  then have "r = Inl EINVAL" "w' = w" using new by (simp_all add: ev_fd_new_def)
  then show ?thesis using good_refl [OF inv] by simp
next
  case False
  show ?thesis
  proof (cases "alloc w")
    case (Pair a w1)
    note q1 = alloc_quiet [OF Pair] and eq1 = quiet_eqs [OF alloc_quiet [OF Pair]]
    show ?thesis
    proof (cases a)
      case None
      then show ?thesis
        using new False Pair quiet_good [OF inv q1] by (auto simp: ev_fd_new_def)
    next
      case (Some f)
      let ?fd = "\<lparr>fd_ref = 1, fd_fd = nat rfd, fd_mask = m, fd_cb = cb, fd_data = d,
                  fd_enabled = True, fd_loop = None\<rparr>"
      have f: "f = h_next w" "f < h_next w1" "h_next w \<le> h_next w1"
        using alloc_Some [of w f w1] Pair Some by auto
      then have fresh: "w_fds w f = None"
        using einv_below(2) [OF inv] by (auto simp: below_def)
      have g1: "good ({f}, B) w w1" by (rule quiet_good [OF einv_grow [OF inv] q1]) simp
      have "good ({f}, B) w1 (put_fd f (Some ?fd) w1)"
        by (rule good_new_fd [OF goodD(1) [OF g1]]) (simp_all add: eq1 fresh f(2))
      then have "good ({f}, B) w (put_fd f (Some ?fd) w1)" using g1 by (meson good_trans)
      then show ?thesis
        using new False Pair Some fresh eq1 f(3) by (auto simp: ev_fd_new_def)
    qed
  qed
qed

lemma good_timer_new:
  assumes inv: "einv_but ({}, B) w" and new: "ev_timer_new spec cb d w = (r, w')"
  shows "good ({}, B) w w' \<and>
    (\<forall>t. r = Inr t \<longrightarrow> (\<exists>tm fd. w_timers w' t = Some tm \<and> tm_ref tm = 1 \<and>
        w_fds w' (tm_efd tm) = Some fd \<and> fd_loop fd = None \<and> w_fds w (tm_efd tm) = None) \<and>
        w_loops w' = w_loops w)"
proof (cases "alloc w")
  case (Pair a w1)
  note q1 = alloc_quiet [OF Pair] and eq1 = quiet_eqs [OF alloc_quiet [OF Pair]]
  have g1: "good ({}, B) w w1" by (rule quiet_good [OF inv q1])
  show ?thesis
  proof (cases a)
    case None
    then show ?thesis using new Pair g1 by (auto simp: ev_timer_new_def)
  next
    case (Some t)
    have t: "t = h_next w" "h_next w1 = Suc t" using alloc_Some [of w t w1] Pair Some by auto
    then have fresh: "w_timers w t = None"
      using einv_below(4) [OF inv] by (auto simp: below_def)
    obtain o2 w2 where op: "sys_open w1 = (o2, w2)" by (meson surj_pair)
    note q2 = sys_open_quiet [OF op] and eq2 = quiet_eqs [OF sys_open_quiet [OF op]]
    have g2: "good ({}, B) w w2" using g1 quiet_good [OF goodD(1) [OF g1] q2] by (meson good_trans)
    show ?thesis
    proof (cases o2)
      case (Inl e)
      then show ?thesis using new Pair Some op g2 by (auto simp: ev_timer_new_def)
    next
      case (Inr k)
      obtain s3 w3 where st: "sys_settime k (spec_or_zero spec) w2 = (s3, w3)" by (meson surj_pair)
      note q3 = sys_settime_quiet [OF st] and eq3 = quiet_eqs [OF sys_settime_quiet [OF st]]
      have g3: "good ({}, B) w w3" using g2 quiet_good [OF goodD(1) [OF g2] q3] by (meson good_trans)
      have close: "good ({}, B) w (sys_close k v)" if "good ({}, B) w v" for v
        using that quiet_good [OF goodD(1) [OF that] sys_close_quiet] by (meson good_trans)
      show ?thesis
      proof (cases s3)
        case (Some e)
        then show ?thesis
          using new Pair \<open>a = _\<close> op Inr st close [OF g3] by (auto simp: ev_timer_new_def)
      next
        case None
        obtain f4 w4 where nf: "ev_fd_new (int k) EV_READABLE (Some Fn_timer) t w3 = (f4, w4)"
          by (meson surj_pair)
        note n4 = good_fd_new [OF goodD(1) [OF g3] nf]
        show ?thesis
        proof (cases f4)
          case (Inl e)
          then have "good ({}, B) w w4" using n4 g3 by (simp add: good_trans)
          then show ?thesis
            using new Pair \<open>a = _\<close> op \<open>o2 = _\<close> st None nf Inl close by (auto simp: ev_timer_new_def)
        next
          case (Inr f)
          let ?tm = "\<lparr>tm_ref = 1, tm_cb = cb, tm_data = d, tm_fd = k, tm_efd = f\<rparr>"
          from n4 Inr have g4: "good ({f}, B) w3 w4" and fd4: "w_fds w3 f = None"
            "h_next w3 \<le> h_next w4" "w_fds w4 = (w_fds w3)(f \<mapsto> \<lparr>fd_ref = 1, fd_fd = nat (int k),
               fd_mask = EV_READABLE, fd_cb = Some Fn_timer, fd_data = t, fd_enabled = True,
               fd_loop = None\<rparr>)" "w_timers w4 = w_timers w3" "w_loops w4 = w_loops w3" by simp_all
          have lt: "t < h_next w4" using t(2) q2 q3 fd4(2) by (simp add: quiet_def)
          have "good ({}, B) w4 (put_timer t (Some ?tm) w4)"
            by (rule good_new_timer_obj [OF goodD(1) [OF g4]])
               (use fd4 lt fresh eq1 eq2 eq3 in auto)
          then have "good ({}, B) w (put_timer t (Some ?tm) w4)"
            using g3 g4 by (meson good_trans)
          moreover have "r = Inr t" "w' = put_timer t (Some ?tm) w4"
            using new Pair \<open>a = _\<close> op \<open>o2 = _\<close> st None nf Inr by (simp_all add: ev_timer_new_def)
          ultimately show ?thesis using fd4 eq1 eq2 eq3 by auto
        qed
      qed
    qed
  qed
qed

lemma timer_fd:
  assumes "einv_but X w" and "w_timers w t = Some tm"
  obtains fd where "w_fds w (tm_efd tm) = Some fd" "fd_cb fd = Some Fn_timer" "fd_data fd = t"
    "bnd fd \<le> tm_ref tm" "0 < tm_ref tm"
  using timers_okD [OF einv_timers [OF assms(1)] assms(2)] by blast

lemma good_timer_enable:
  assumes inv: "einv_but ({}, B) w" and tm: "w_timers w t = Some tm" and en: "ev_timer_enable t w = (r, w')"
  shows "good ({}, B) w w'"
proof -
  obtain fd where fd: "w_fds w (tm_efd tm) = Some fd" using timer_fd [OF inv tm] .
  show ?thesis
    by (rule good_fd_enable [OF inv fd]) (use en tm in \<open>simp_all add: ev_timer_enable_def\<close>)
qed

lemma good_timer_disable:
  assumes inv: "einv_but ({}, B) w" and tm: "w_timers w t = Some tm"
  shows "good ({}, B) w (ev_timer_disable t w)"
proof -
  obtain fd where fd: "w_fds w (tm_efd tm) = Some fd" "fd_cb fd = Some Fn_timer"
    using timer_fd [OF inv tm] .
  show ?thesis
    using good_fd_disable [OF inv fd(1)] fd(2) tm by (simp add: ev_timer_disable_def)
qed

lemma good_add_timer:
  assumes inv: "einv_but ({}, B) w" and tm: "w_timers w t = Some tm" and lp: "w_loops w l = Some lp"
    and add: "ev_eloop_add_timer l t w = (r, w')"
  shows "good ({}, B) w w'"
    and "r = ok \<Longrightarrow> w_fds w (tm_efd tm) = Some fd \<Longrightarrow>
      w_timers w' t = Some (tm\<lparr>tm_ref := Suc (tm_ref tm)\<rparr>) \<and> w_fds w' (tm_efd tm) =
        Some (fd\<lparr>fd_loop := Some l, fd_ref := Suc (fd_ref fd)\<rparr>)"
    and "r \<noteq> ok \<Longrightarrow> w_timers w' = w_timers w \<and> w_fds w' = w_fds w"
proof -
  let ?f = "tm_efd tm"
  obtain gd where gd: "w_fds w ?f = Some gd" "fd_cb gd = Some Fn_timer" "bnd gd \<le> tm_ref tm" "0 < tm_ref tm"
    using timer_fd [OF inv tm] by metis
  have ref: "0 < fd_ref gd" using owned_ref fd_ok [OF inv gd(1)] by simp
  have notown: "el_fd lc \<noteq> ?f" if "w_loops w c = Some lc" for c lc
    using loops_okD [OF einv_loops [OF inv] that] gd(1,2) by fastforce
  have "good ({}, B) w w' \<and>
     (r = ok \<longrightarrow> w_timers w' t = Some (tm\<lparr>tm_ref := Suc (tm_ref tm)\<rparr>) \<and>
        w_fds w' ?f = Some (gd\<lparr>fd_loop := Some l, fd_ref := Suc (fd_ref gd)\<rparr>)) \<and>
     (r \<noteq> ok \<longrightarrow> w_timers w' = w_timers w \<and> w_fds w' = w_fds w)"
  proof (cases "fd_loop gd")
    case (Some l')
    then have "r = fails EALREADY" "w' = w"
      using add tm gd(1) by (simp_all add: ev_eloop_add_timer_def ev_fd_is_bound_def)
    then show ?thesis using good_refl [OF inv] by simp
  next
    case None
    obtain r1 w1 where a: "ev_eloop_add_fd l ?f w = (r1, w1)" by (meson surj_pair)
    have g1: "good ({}, B) w w1" by (rule good_add_fd [OF inv gd(1) ref lp _ a]) (use notown in blast)
    note obj = add_fd_objects [OF gd(1) lp None ref a]
    show ?thesis
    proof (cases r1)
      case (Some e)
      then have "r = fails e" "w' = w1"
        using add tm gd(1) None a by (simp_all add: ev_eloop_add_timer_def ev_fd_is_bound_def)
      then show ?thesis using g1 obj Some by simp
    next
      case r1: None
      then have "r = ok" "w' = ev_timer_ref t w1"
        using add tm gd(1) None a by (simp_all add: ev_eloop_add_timer_def ev_fd_is_bound_def)
      moreover have tm1: "w_timers w1 t = Some tm" using obj tm by simp
      moreover have "good ({}, B) w1 (ev_timer_ref t w1)"
        by (rule good_timer_ref [OF goodD(1) [OF g1] tm1])
      moreover have "ev_timer_ref t w1 = put_timer t (Some (tm\<lparr>tm_ref := Suc (tm_ref tm)\<rparr>)) w1"
        using tm1 gd(4) by (simp add: ev_timer_ref_def)
      ultimately show ?thesis using g1 obj r1 by (auto intro: good_trans)
    qed
  qed
  then show "good ({}, B) w w'"
    and "r = ok \<Longrightarrow> w_fds w ?f = Some fd \<Longrightarrow>
      w_timers w' t = Some (tm\<lparr>tm_ref := Suc (tm_ref tm)\<rparr>) \<and>
      w_fds w' ?f = Some (fd\<lparr>fd_loop := Some l, fd_ref := Suc (fd_ref fd)\<rparr>)"
    and "r \<noteq> ok \<Longrightarrow> w_timers w' = w_timers w \<and> w_fds w' = w_fds w"
    using gd(1) by auto
qed

section \<open>What giving up a reference leaves alone\<close>

lemma hook_free_more [simp]:
  "w_timers (shl_hook_free h w) = w_timers w" "w_counters (shl_hook_free h w) = w_counters w"
  "w_sigs (shl_hook_free h w) = w_sigs w" "w_fds (shl_hook_free h w) = w_fds w"
  "w_loops (shl_hook_free h w) = w_loops w"
  by (simp_all add: shl_hook_free_def put_hook_def crash_def split: option.splits)

lemma sys_close_more [simp]:
  "w_timers (sys_close k w) = w_timers w" "w_counters (sys_close k w) = w_counters w"
  "w_timers (epoll_ctl_del e j w) = w_timers w" "w_counters (epoll_ctl_del e j w) = w_counters w"
  by (simp_all add: sys_close_def epoll_ctl_del_def)

lemma unref_cases:
  assumes inv: "einv_but X w" and lp: "w_loops w l = Some lp"
    and need: "needed (w_fds w) l lp < el_ref lp" and X: "el_fd lp \<notin> fst X"
  shows "ev_eloop_unref l w = put_loop l (Some (lp\<lparr>el_ref := el_ref lp - 1\<rparr>)) w \<and> 1 < el_ref lp \<or>
     ev_eloop_unref l w =
       free_memory l (free_memory (el_array lp) (fold shl_hook_free [el_posts lp, el_pres lp, el_idlers lp, el_chlds lp]
         (sys_close (el_efd lp) (put_loop l None (put_fd (el_fd lp) None
           (sys_close (el_idle_fd lp) (epoll_ctl_del (el_efd lp) (el_idle_fd lp) w))))))) \<and>
     bound_set (w_fds w) l = {} \<and> \<not> is_bound (w_fds w) (el_fd lp) \<and> \<not> el_dispatching lp \<and>
     el_sigs lp = [] \<and> el_ref lp = 1"
proof (cases "el_ref lp - 1 = 0")
  case False
  then show ?thesis using lp need by (simp add: ev_eloop_unref_def)
next
  case True
  then have zero: "needed (w_fds w) l lp = 0" using need by simp
  then have nb: "bound_set (w_fds w) l = {}" "\<not> is_bound (w_fds w) (el_fd lp)" "\<not> el_dispatching lp"
    using bound_set_finite [OF einv_below(2) [OF inv], of l]
    by (auto simp: needed_def split: if_splits)
  obtain fd where fd: "w_fds w (el_fd lp) = Some fd" "fd_cb fd = Some Fn_eloop"
    using loops_okD [OF einv_loops [OF inv] lp] by metis
  have "owned (w_loops w) (w_timers w) (w_counters w) (w_sigs w) (el_fd lp) fd"
    using einv_fds [OF inv] fd(1) X by (simp add: fds_ok_def)
  moreover have "bnd fd = 0" using nb(2) fd(1) by (simp add: is_bound_def bnd_def)
  ultimately have ref: "fd_ref fd = 1" using fd(2) by (simp add: owned_def)
  have sigs: "el_sigs lp = []" by (rule loop_sigs_bound [OF einv_sigs [OF inv] lp nb(1)])
  have "el_ref lp = 1" using True need by simp
  then show ?thesis
    using lp nb sigs destroy_eq [OF fd(1) ref sigs, of l 0] by (simp add: ev_eloop_unref_def)
qed

lemma unref_objects:
  assumes "einv_but X w" and "w_loops w l = Some lp" and "needed (w_fds w) l lp < el_ref lp"
    and "el_fd lp \<notin> fst X"
  shows "w_timers (ev_eloop_unref l w) = w_timers w" "w_counters (ev_eloop_unref l w) = w_counters w"
    "w_sigs (ev_eloop_unref l w) = w_sigs w"
    "k \<noteq> l \<Longrightarrow> w_loops (ev_eloop_unref l w) k = w_loops w k"
    "g \<noteq> el_fd lp \<Longrightarrow> w_fds (ev_eloop_unref l w) g = w_fds w g"
  using unref_cases [OF assms] by auto

lemma rm_objects:
  assumes inv: "einv_but ({}, B) w" and fd: "w_fds w f = Some fd" and loop: "fd_loop fd = Some l"
    and lp: "w_loops w l = Some lp"
    and sig: "fd_cb fd = Some Fn_signal \<Longrightarrow> fd_data fd \<in> B"
  shows "w_timers (ev_eloop_rm_fd f w) = w_timers w" "w_counters (ev_eloop_rm_fd f w) = w_counters w"
    "w_sigs (ev_eloop_rm_fd f w) = w_sigs w"
    "k \<noteq> l \<Longrightarrow> w_loops (ev_eloop_rm_fd f w) k = w_loops w k"
    "f \<noteq> el_fd lp \<Longrightarrow> w_fds (ev_eloop_rm_fd f w) f = unbound_fd fd"
    "g \<noteq> el_fd lp \<Longrightarrow> g \<noteq> f \<Longrightarrow> w_fds (ev_eloop_rm_fd f w) g = w_fds w g"
proof -
  have r: "0 < fd_ref fd" using owned_ref fd_ok [OF inv fd] by simp
  let ?w3 = "put_fd f (unbound_fd fd) (put_loop l (Some (flushed f lp)) (leave_epoll lp fd w))"
  have eq: "ev_eloop_rm_fd f w = ev_eloop_unref l ?w3"
    unfolding ev_eloop_rm_fd_def by (rule rm_fd_eq [OF fd loop lp r])
  note q = quiet_eqs [OF leave_epoll_quiet [of w lp fd]]
  have g: "good ({}, B) w ?w3" and n: "needed (w_fds ?w3) l (flushed f lp) < el_ref (flushed f lp)"
    using good_rm_fd [OF inv fd loop lp _ sig] by (simp_all add: flushed_same)
  have l3: "w_loops ?w3 l = Some (flushed f lp)" by simp
  note obj = unref_objects [OF goodD(1) [OF g] l3 n]
  show "w_timers (ev_eloop_rm_fd f w) = w_timers w" "w_counters (ev_eloop_rm_fd f w) = w_counters w"
    "w_sigs (ev_eloop_rm_fd f w) = w_sigs w"
    using obj(1-3) by (simp_all add: eq q)
  show "k \<noteq> l \<Longrightarrow> w_loops (ev_eloop_rm_fd f w) k = w_loops w k"
    using obj(4) by (simp add: eq q)
  show "f \<noteq> el_fd lp \<Longrightarrow> w_fds (ev_eloop_rm_fd f w) f = unbound_fd fd"
    "g \<noteq> el_fd lp \<Longrightarrow> g \<noteq> f \<Longrightarrow> w_fds (ev_eloop_rm_fd f w) g = w_fds w g"
    using obj(5) by (simp_all add: eq q flushed_same)
qed

text \<open>Timers that are registered and removed.\<close>

lemma good_rm_timer:
  assumes inv: "einv_but ({}, B) w" and tm: "w_timers w t = Some tm"
  shows "good ({}, B) w (ev_eloop_rm_timer t w)"
proof -
  let ?f = "tm_efd tm"
  obtain fd where fd: "w_fds w ?f = Some fd" "fd_cb fd = Some Fn_timer" "0 < tm_ref tm"
    using timer_fd [OF inv tm] by metis
  show ?thesis
  proof (cases "fd_loop fd")
    case None
    then show ?thesis
      using fd tm by (simp add: ev_eloop_rm_timer_def ev_fd_is_bound_def good_refl [OF inv])
  next
    case (Some l)
    obtain lp where lp: "w_loops w l = Some lp" using bound_loop [OF inv fd(1) Some] .
    have ne: "?f \<noteq> el_fd lp" using loops_okD [OF einv_loops [OF inv] lp] fd(1,2) by fastforce
    let ?w1 = "ev_eloop_rm_fd ?f w"
    have g1: "good ({}, B) w ?w1" by (rule good_rm [OF inv fd(1)]) (use fd(2) in simp)
    have obj: "w_timers ?w1 = w_timers w" "w_fds ?w1 ?f = unbound_fd fd"
      using rm_objects(1,5) [OF inv fd(1) Some lp] fd(2) ne by auto
    have tm1: "w_timers ?w1 t = Some tm" using obj(1) tm by simp
    have "good ({}, B) ?w1 (ev_timer_unref t ?w1)"
      by (rule good_timer_unref [OF goodD(1) [OF g1] tm1])
         (use obj(2) fd(3) in \<open>auto simp: unbound_fd_def bnd_def split: if_splits\<close>)
    then show ?thesis
      using g1 tm fd(1) Some
      by (simp add: ev_eloop_rm_timer_def ev_fd_is_bound_def) (meson good_trans)
  qed
qed

lemma good_new_timer:
  assumes inv: "einv_but ({}, B) w" and lp: "w_loops w l \<noteq> None"
    and new: "ev_eloop_new_timer l spec cb d w = (r, w')"
  shows "good ({}, B) w w'"
proof -
  obtain r1 w1 where n: "ev_timer_new spec cb d w = (r1, w1)" by (meson surj_pair)
  note g = good_timer_new [OF inv n]
  show ?thesis
  proof (cases r1)
    case (Inl e)
    then show ?thesis using new n g by (simp add: ev_eloop_new_timer_def)
  next
    case (Inr t)
    obtain tm fd where tm: "w_timers w1 t = Some tm" "tm_ref tm = 1" "w_fds w1 (tm_efd tm) = Some fd"
      "fd_loop fd = None" "w_loops w1 = w_loops w"
      using g Inr by blast
    obtain lp1 where lp1: "w_loops w1 l = Some lp1" using lp tm(5) by auto
    obtain r2 w2 where a: "ev_eloop_add_timer l t w1 = (r2, w2)" by (meson surj_pair)
    have g1: "good ({}, B) w w1" using g by simp
    note add = good_add_timer [OF goodD(1) [OF g1] tm(1) lp1 a]
    have w': "w' = ev_timer_unref t w2"
      using new n Inr a by (auto simp: ev_eloop_new_timer_def split: option.splits)
    have "good ({}, B) w2 (ev_timer_unref t w2)"
    proof (cases "r2 = ok")
      case True
      note ad = add(2) [OF True tm(3)]
      then have tm2: "w_timers w2 t = Some (tm\<lparr>tm_ref := Suc (tm_ref tm)\<rparr>)" by blast
      show ?thesis
        by (rule good_timer_unref [OF goodD(1) [OF add(1)] tm2]) (use ad tm(2) in \<open>auto simp: bnd_def\<close>)
    next
      case False
      then have tm2: "w_timers w2 t = Some tm" and fd2: "w_fds w2 = w_fds w1"
        using add(3) tm(1) by simp_all
      show ?thesis
        by (rule good_timer_unref [OF goodD(1) [OF add(1)] tm2])
           (use fd2 tm in \<open>auto simp: bnd_def\<close>)
    qed
    then show ?thesis using g1 add(1) w' by (meson good_trans)
  qed
qed

section \<open>Counters\<close>

lemma put_counter_simps [simp]:
  "w_fds (put_counter t v w) = w_fds w" "w_loops (put_counter t v w) = w_loops w"
  "w_counters (put_counter t v w) = (w_counters w)(t := v)" "w_timers (put_counter t v w) = w_timers w"
  "w_sigs (put_counter t v w) = w_sigs w" "h_hooks (put_counter t v w) = h_hooks w"
  "h_next (put_counter t v w) = h_next w" "k_epoll (put_counter t v w) = k_epoll w"
  "k_next (put_counter t v w) = k_next w" "h_crash (put_counter t v w) = h_crash w"
  "w_trace (put_counter t v w) = w_trace w"
  by (simp_all add: put_counter_def)

lemma rely_put_counter: "ev_rely w (put_counter t v w)"
  by (simp add: ev_rely_def)

lemma owned_counter:
  assumes "owned L T C S f fd" and "\<And>ct. C t = Some ct \<Longrightarrow> ct_efd ct = f \<Longrightarrow>
      \<exists>ct'. v = Some ct' \<and> ct_efd ct' = f"
  shows "owned L T (C(t := v)) S f fd"
  using assms by (cases "fd_cb fd") (auto simp: owned_def split: fd_fn.splits)

lemma counters_okD:
  assumes "counters_ok F C" and "C t = Some ct"
  obtains fd where "F (ct_efd ct) = Some fd" "fd_cb fd = Some Fn_counter" "fd_data fd = t"
    "bnd fd \<le> ct_ref ct" "0 < ct_ref ct"
  using assms unfolding counters_ok_def by blast

lemma good_put_counter:
  assumes inv: "einv_but X w" and ct: "w_counters w t = Some ct" and e: "ct_efd ct' = ct_efd ct"
    and ref: "0 < ct_ref ct'" "\<And>fd. w_fds w (ct_efd ct) = Some fd \<Longrightarrow> bnd fd \<le> ct_ref ct'"
  shows "good X w (put_counter t (Some ct') w)"
proof -
  have "fds_ok (fst X) (w_fds w) (w_loops w) (w_timers w) ((w_counters w)(t \<mapsto> ct')) (w_sigs w)"
    using einv_fds [OF inv] ct e unfolding fds_ok_def by (auto intro: owned_counter)
  moreover have "counters_ok (w_fds w) ((w_counters w)(t \<mapsto> ct'))"
    unfolding counters_ok_def
  proof (intro allI impI)
    fix u um assume u: "((w_counters w)(t \<mapsto> ct')) u = Some um"
    show "0 < ct_ref um \<and> (\<exists>fd. w_fds w (ct_efd um) = Some fd \<and> fd_cb fd = Some Fn_counter \<and>
        fd_data fd = u \<and> bnd fd \<le> ct_ref um)"
    proof (cases "u = t")
      case True
      then have "um = ct'" using u by simp
      with True show ?thesis
        by (rule_tac counters_okD [OF einv_counters [OF inv] ct]) (use e ref in auto)
    next
      case False
      then show ?thesis using u einv_counters [OF inv] unfolding counters_ok_def by simp
    qed
  qed
  moreover have "below (h_next w) ((w_counters w)(t \<mapsto> ct'))"
    by (rule below_upd) (use einv_below(5) [OF inv] ct in auto)
  ultimately show ?thesis using inv rely_put_counter by (simp add: good_def einv_but_def)
qed

lemma good_new_counter_obj:
  assumes inv: "einv_but ({f}, B) w" and fd: "w_fds w f = Some fd" "fd_cb fd = Some Fn_counter"
      "fd_data fd = t" "fd_ref fd = 1" "fd_loop fd = None"
    and t: "w_counters w t = None" "t < h_next w" and ct: "ct_efd ct = f" "ct_ref ct = 1"
  shows "good ({}, B) w (put_counter t (Some ct) w)"
proof -
  let ?T = "(w_counters w)(t \<mapsto> ct)"
  have "fds_ok {} (w_fds w) (w_loops w) (w_timers w) ?T (w_sigs w)"
    unfolding fds_ok_def
  proof (intro allI impI conjI)
    fix g gd l assume g: "w_fds w g = Some gd"
    show "w_loops w l \<noteq> None" if "fd_loop gd = Some l"
      using einv_fds [OF inv] g that unfolding fds_ok_def by blast
    show "owned (w_loops w) (w_timers w) ?T (w_sigs w) g gd"
    proof (cases "g = f")
      case True
      then show ?thesis using g fd ct by (simp add: owned_def bnd_def)
    next
      case False
      then have "owned (w_loops w) (w_timers w) (w_counters w) (w_sigs w) g gd"
        using einv_fds [OF inv] g unfolding fds_ok_def by simp
      then show ?thesis by (rule owned_counter) (simp add: t)
    qed
  qed
  moreover have "counters_ok (w_fds w) ?T"
    using einv_counters [OF inv] fd ct unfolding counters_ok_def by (simp add: bnd_def)
  moreover have "below (h_next w) ?T"
    using einv_below(5) [OF inv] t by (simp add: below_def)
  ultimately show ?thesis using inv rely_put_counter by (simp add: good_def einv_but_def)
qed

lemma good_forget_counter:
  assumes inv: "einv_but (A, B) w" and ct: "w_counters w t = Some ct"
  shows "good (insert (ct_efd ct) A, B) w (put_counter t None w)"
proof -
  let ?T = "(w_counters w)(t := None)"
  have "fds_ok (insert (ct_efd ct) A) (w_fds w) (w_loops w) (w_timers w) ?T (w_sigs w)"
    using einv_fds [OF inv] ct unfolding fds_ok_def by (auto intro: owned_counter)
  moreover have "counters_ok (w_fds w) ?T"
    using einv_counters [OF inv] unfolding counters_ok_def by simp
  moreover have "below (h_next w) ?T"
    using einv_below(5) [OF inv] by (simp add: below_def)
  ultimately show ?thesis using inv rely_put_counter by (simp add: good_def einv_but_def)
qed

lemma good_counter_ref:
  assumes inv: "einv_but X w" and ct: "w_counters w t = Some ct"
  shows "good X w (ev_counter_ref t w)"
proof -
  obtain fd where fd: "w_fds w (ct_efd ct) = Some fd" "bnd fd \<le> ct_ref ct" "0 < ct_ref ct"
    using counters_okD [OF einv_counters [OF inv] ct] by metis
  then have "good X w (put_counter t (Some (ct\<lparr>ct_ref := Suc (ct_ref ct)\<rparr>)) w)"
    by (intro good_put_counter [OF inv ct]) auto
  then show ?thesis using ct fd(3) by (simp add: ev_counter_ref_def)
qed

lemma good_counter_unref:
  assumes inv: "einv_but ({}, B) w" and ct: "w_counters w t = Some ct"
    and ref: "\<And>fd. w_fds w (ct_efd ct) = Some fd \<Longrightarrow> bnd fd < ct_ref ct"
  shows "good ({}, B) w (ev_counter_unref t w)"
proof -
  obtain fd where fd: "w_fds w (ct_efd ct) = Some fd" "fd_cb fd = Some Fn_counter" "fd_data fd = t"
    using counters_okD [OF einv_counters [OF inv] ct] by metis
  note lt = ref [OF fd(1)]
  show ?thesis
  proof (cases "ct_ref ct - 1 = 0")
    case False
    then have "good ({}, B) w (put_counter t (Some (ct\<lparr>ct_ref := ct_ref ct - 1\<rparr>)) w)"
      using lt fd(1) by (intro good_put_counter [OF inv ct]) auto
    then show ?thesis using False ct lt by (simp add: ev_counter_unref_def)
  next
    case True
    then have un: "fd_loop fd = None" using lt by (auto simp: bnd_def split: if_splits)
    have r1: "fd_ref fd = 1"
      using fd_ok [OF inv fd(1)] fd(2) un by (simp add: owned_def bnd_def)
    let ?w1 = "put_counter t None w"
    let ?w2 = "put_fd (ct_efd ct) None ?w1"
    have g1: "good ({ct_efd ct}, B) w ?w1" by (rule good_forget_counter [OF inv ct])
    have "good ({ct_efd ct}, B) ?w1 ?w2"
      by (rule good_del_fd [OF goodD(1) [OF g1] _ un])
         (use fd in \<open>simp_all add: orphan_def\<close>)
    then have "good ({ct_efd ct}, B) w ?w2" using g1 by (meson good_trans)
    then have g2: "good ({}, B) w ?w2" by (rule good_shrink) auto
    have "good ({}, B) ?w2 (sys_close (ct_fd ct) ?w2)"
      by (rule quiet_good [OF goodD(1) [OF g2] sys_close_quiet])
    then have "good ({}, B) w (sys_close (ct_fd ct) ?w2)" using g2 by (meson good_trans)
    moreover have "ev_counter_unref t w = sys_close (ct_fd ct) ?w2"
      using True ct lt fd(1) r1
      by (simp add: ev_counter_unref_def ev_fd_unref_def put_counter_def put_fd_def sys_close_def
          cong: if_cong)
    ultimately show ?thesis by simp
  qed
qed

lemma good_counter_set_cb:
  assumes inv: "einv_but X w" and ct: "w_counters w t = Some ct"
  shows "good X w (ev_counter_set_cb_data t cb d w)"
proof -
  obtain fd where fd: "w_fds w (ct_efd ct) = Some fd" "bnd fd \<le> ct_ref ct" "0 < ct_ref ct"
    using counters_okD [OF einv_counters [OF inv] ct] by metis
  then have "good X w (put_counter t (Some (ct\<lparr>ct_cb := cb, ct_data := d\<rparr>)) w)"
    by (intro good_put_counter [OF inv ct]) auto
  then show ?thesis using ct by (simp add: ev_counter_set_cb_data_def)
qed

lemma good_counter_new:
  assumes inv: "einv_but ({}, B) w" and new: "ev_counter_new cb d w = (r, w')"
  shows "good ({}, B) w w' \<and>
    (\<forall>t. r = Inr t \<longrightarrow> (\<exists>ct fd. w_counters w' t = Some ct \<and> ct_ref ct = 1 \<and>
        w_fds w' (ct_efd ct) = Some fd \<and> fd_loop fd = None \<and> w_fds w (ct_efd ct) = None) \<and>
        w_loops w' = w_loops w)"
proof (cases "alloc w")
  case (Pair a w1)
  note q1 = alloc_quiet [OF Pair] and eq1 = quiet_eqs [OF alloc_quiet [OF Pair]]
  have g1: "good ({}, B) w w1" by (rule quiet_good [OF inv q1])
  show ?thesis
  proof (cases a)
    case None
    then show ?thesis using new Pair g1 by (auto simp: ev_counter_new_def)
  next
    case (Some t)
    have t: "t = h_next w" "h_next w1 = Suc t" using alloc_Some [of w t w1] Pair Some by auto
    then have fresh: "w_counters w t = None"
      using einv_below(5) [OF inv] by (auto simp: below_def)
    obtain o2 w2 where op: "sys_open w1 = (o2, w2)" by (meson surj_pair)
    note q2 = sys_open_quiet [OF op] and eq2 = quiet_eqs [OF sys_open_quiet [OF op]]
    have g2: "good ({}, B) w w2" using g1 quiet_good [OF goodD(1) [OF g1] q2] by (meson good_trans)
    show ?thesis
    proof (cases o2)
      case (Inl e)
      then show ?thesis using new Pair Some op g2 by (auto simp: ev_counter_new_def)
    next
      case (Inr k)
      obtain f4 w4 where nf: "ev_fd_new (int k) EV_READABLE (Some Fn_counter) t w2 = (f4, w4)"
        by (meson surj_pair)
      note n4 = good_fd_new [OF goodD(1) [OF g2] nf]
      show ?thesis
      proof (cases f4)
        case (Inl e)
        then have g4: "good ({}, B) w w4" using n4 g2 by (simp add: good_trans)
        have "good ({}, B) w4 (sys_close k w4)"
          by (rule quiet_good [OF goodD(1) [OF g4] sys_close_quiet])
        then have "good ({}, B) w (sys_close k w4)" using g4 by (meson good_trans)
        then show ?thesis
          using new Pair \<open>a = _\<close> op \<open>o2 = _\<close> nf Inl by (auto simp: ev_counter_new_def)
      next
        case (Inr f)
        let ?ct = "\<lparr>ct_ref = 1, ct_cb = cb, ct_data = d, ct_fd = k, ct_efd = f\<rparr>"
        from n4 Inr have g4: "good ({f}, B) w2 w4" and fd4: "w_fds w2 f = None"
          "h_next w2 \<le> h_next w4" "w_fds w4 = (w_fds w2)(f \<mapsto> \<lparr>fd_ref = 1, fd_fd = nat (int k),
             fd_mask = EV_READABLE, fd_cb = Some Fn_counter, fd_data = t, fd_enabled = True,
             fd_loop = None\<rparr>)" "w_counters w4 = w_counters w2" "w_loops w4 = w_loops w2" by simp_all
        have lt: "t < h_next w4" using t(2) q2 fd4(2) by (simp add: quiet_def)
        have "good ({}, B) w4 (put_counter t (Some ?ct) w4)"
          by (rule good_new_counter_obj [OF goodD(1) [OF g4]])
             (use fd4 lt fresh eq1 eq2 in auto)
        then have "good ({}, B) w (put_counter t (Some ?ct) w4)"
          using g2 g4 by (meson good_trans)
        moreover have "r = Inr t" "w' = put_counter t (Some ?ct) w4"
          using new Pair \<open>a = _\<close> op \<open>o2 = _\<close> nf Inr by (simp_all add: ev_counter_new_def)
        ultimately show ?thesis using fd4 eq1 eq2 by auto
      qed
    qed
  qed
qed

lemma counter_fd:
  assumes "einv_but X w" and "w_counters w t = Some ct"
  obtains fd where "w_fds w (ct_efd ct) = Some fd" "fd_cb fd = Some Fn_counter" "fd_data fd = t"
    "bnd fd \<le> ct_ref ct" "0 < ct_ref ct"
  using counters_okD [OF einv_counters [OF assms(1)] assms(2)] by blast

lemma good_counter_enable:
  assumes inv: "einv_but ({}, B) w" and ct: "w_counters w t = Some ct" and en: "ev_counter_enable t w = (r, w')"
  shows "good ({}, B) w w'"
proof -
  obtain fd where fd: "w_fds w (ct_efd ct) = Some fd" using counter_fd [OF inv ct] .
  show ?thesis
    by (rule good_fd_enable [OF inv fd]) (use en ct in \<open>simp_all add: ev_counter_enable_def\<close>)
qed

lemma good_counter_disable:
  assumes inv: "einv_but ({}, B) w" and ct: "w_counters w t = Some ct"
  shows "good ({}, B) w (ev_counter_disable t w)"
proof -
  obtain fd where fd: "w_fds w (ct_efd ct) = Some fd" "fd_cb fd = Some Fn_counter"
    using counter_fd [OF inv ct] .
  show ?thesis
    using good_fd_disable [OF inv fd(1)] fd(2) ct by (simp add: ev_counter_disable_def)
qed

lemma good_add_counter:
  assumes inv: "einv_but ({}, B) w" and ct: "w_counters w t = Some ct" and lp: "w_loops w l = Some lp"
    and add: "ev_eloop_add_counter l t w = (r, w')"
  shows "good ({}, B) w w'"
    and "r = ok \<Longrightarrow> w_fds w (ct_efd ct) = Some fd \<Longrightarrow>
      w_counters w' t = Some (ct\<lparr>ct_ref := Suc (ct_ref ct)\<rparr>) \<and> w_fds w' (ct_efd ct) =
        Some (fd\<lparr>fd_loop := Some l, fd_ref := Suc (fd_ref fd)\<rparr>)"
    and "r \<noteq> ok \<Longrightarrow> w_counters w' = w_counters w \<and> w_fds w' = w_fds w"
proof -
  let ?f = "ct_efd ct"
  obtain gd where gd: "w_fds w ?f = Some gd" "fd_cb gd = Some Fn_counter" "bnd gd \<le> ct_ref ct" "0 < ct_ref ct"
    using counter_fd [OF inv ct] by metis
  have ref: "0 < fd_ref gd" using owned_ref fd_ok [OF inv gd(1)] by simp
  have notown: "el_fd lc \<noteq> ?f" if "w_loops w c = Some lc" for c lc
    using loops_okD [OF einv_loops [OF inv] that] gd(1,2) by fastforce
  have "good ({}, B) w w' \<and>
     (r = ok \<longrightarrow> w_counters w' t = Some (ct\<lparr>ct_ref := Suc (ct_ref ct)\<rparr>) \<and>
        w_fds w' ?f = Some (gd\<lparr>fd_loop := Some l, fd_ref := Suc (fd_ref gd)\<rparr>)) \<and>
     (r \<noteq> ok \<longrightarrow> w_counters w' = w_counters w \<and> w_fds w' = w_fds w)"
  proof (cases "fd_loop gd")
    case (Some l')
    then have "r = fails EALREADY" "w' = w"
      using add ct gd(1) by (simp_all add: ev_eloop_add_counter_def ev_fd_is_bound_def)
    then show ?thesis using good_refl [OF inv] by simp
  next
    case None
    obtain r1 w1 where a: "ev_eloop_add_fd l ?f w = (r1, w1)" by (meson surj_pair)
    have g1: "good ({}, B) w w1" by (rule good_add_fd [OF inv gd(1) ref lp _ a]) (use notown in blast)
    note obj = add_fd_objects [OF gd(1) lp None ref a]
    show ?thesis
    proof (cases r1)
      case (Some e)
      then have "r = fails e" "w' = w1"
        using add ct gd(1) None a by (simp_all add: ev_eloop_add_counter_def ev_fd_is_bound_def)
      then show ?thesis using g1 obj Some by simp
    next
      case r1: None
      then have "r = ok" "w' = ev_counter_ref t w1"
        using add ct gd(1) None a by (simp_all add: ev_eloop_add_counter_def ev_fd_is_bound_def)
      moreover have tm1: "w_counters w1 t = Some ct" using obj ct by simp
      moreover have "good ({}, B) w1 (ev_counter_ref t w1)"
        by (rule good_counter_ref [OF goodD(1) [OF g1] tm1])
      moreover have "ev_counter_ref t w1 = put_counter t (Some (ct\<lparr>ct_ref := Suc (ct_ref ct)\<rparr>)) w1"
        using tm1 gd(4) by (simp add: ev_counter_ref_def)
      ultimately show ?thesis using g1 obj r1 by (auto intro: good_trans)
    qed
  qed
  then show "good ({}, B) w w'"
    and "r = ok \<Longrightarrow> w_fds w ?f = Some fd \<Longrightarrow>
      w_counters w' t = Some (ct\<lparr>ct_ref := Suc (ct_ref ct)\<rparr>) \<and>
      w_fds w' ?f = Some (fd\<lparr>fd_loop := Some l, fd_ref := Suc (fd_ref fd)\<rparr>)"
    and "r \<noteq> ok \<Longrightarrow> w_counters w' = w_counters w \<and> w_fds w' = w_fds w"
    using gd(1) by auto
qed


text \<open>Counters that are registered and removed.\<close>

lemma good_rm_counter:
  assumes inv: "einv_but ({}, B) w" and ct: "w_counters w t = Some ct"
  shows "good ({}, B) w (ev_eloop_rm_counter t w)"
proof -
  let ?f = "ct_efd ct"
  obtain fd where fd: "w_fds w ?f = Some fd" "fd_cb fd = Some Fn_counter" "0 < ct_ref ct"
    using counter_fd [OF inv ct] by metis
  show ?thesis
  proof (cases "fd_loop fd")
    case None
    then show ?thesis
      using fd ct by (simp add: ev_eloop_rm_counter_def ev_fd_is_bound_def good_refl [OF inv])
  next
    case (Some l)
    obtain lp where lp: "w_loops w l = Some lp" using bound_loop [OF inv fd(1) Some] .
    have ne: "?f \<noteq> el_fd lp" using loops_okD [OF einv_loops [OF inv] lp] fd(1,2) by fastforce
    let ?w1 = "ev_eloop_rm_fd ?f w"
    have g1: "good ({}, B) w ?w1" by (rule good_rm [OF inv fd(1)]) (use fd(2) in simp)
    have obj: "w_counters ?w1 = w_counters w" "w_fds ?w1 ?f = unbound_fd fd"
      using rm_objects(2,5) [OF inv fd(1) Some lp] fd(2) ne by auto
    have tm1: "w_counters ?w1 t = Some ct" using obj(1) ct by simp
    have "good ({}, B) ?w1 (ev_counter_unref t ?w1)"
      by (rule good_counter_unref [OF goodD(1) [OF g1] tm1])
         (use obj(2) fd(3) in \<open>auto simp: unbound_fd_def bnd_def split: if_splits\<close>)
    then show ?thesis
      using g1 ct fd(1) Some
      by (simp add: ev_eloop_rm_counter_def ev_fd_is_bound_def) (meson good_trans)
  qed
qed

lemma good_new_counter:
  assumes inv: "einv_but ({}, B) w" and lp: "w_loops w l \<noteq> None"
    and new: "ev_eloop_new_counter l cb d w = (r, w')"
  shows "good ({}, B) w w'"
proof -
  obtain r1 w1 where n: "ev_counter_new cb d w = (r1, w1)" by (meson surj_pair)
  note g = good_counter_new [OF inv n]
  show ?thesis
  proof (cases r1)
    case (Inl e)
    then show ?thesis using new n g by (simp add: ev_eloop_new_counter_def)
  next
    case (Inr t)
    obtain ct fd where ct: "w_counters w1 t = Some ct" "ct_ref ct = 1" "w_fds w1 (ct_efd ct) = Some fd"
      "fd_loop fd = None" "w_loops w1 = w_loops w"
      using g Inr by blast
    obtain lp1 where lp1: "w_loops w1 l = Some lp1" using lp ct(5) by auto
    obtain r2 w2 where a: "ev_eloop_add_counter l t w1 = (r2, w2)" by (meson surj_pair)
    have g1: "good ({}, B) w w1" using g by simp
    note add = good_add_counter [OF goodD(1) [OF g1] ct(1) lp1 a]
    have w': "w' = ev_counter_unref t w2"
      using new n Inr a by (auto simp: ev_eloop_new_counter_def split: option.splits)
    have "good ({}, B) w2 (ev_counter_unref t w2)"
    proof (cases "r2 = ok")
      case True
      note ad = add(2) [OF True ct(3)]
      then have tm2: "w_counters w2 t = Some (ct\<lparr>ct_ref := Suc (ct_ref ct)\<rparr>)" by blast
      show ?thesis
        by (rule good_counter_unref [OF goodD(1) [OF add(1)] tm2]) (use ad ct(2) in \<open>auto simp: bnd_def\<close>)
    next
      case False
      then have tm2: "w_counters w2 t = Some ct" and fd2: "w_fds w2 = w_fds w1"
        using add(3) ct(1) by simp_all
      show ?thesis
        by (rule good_counter_unref [OF goodD(1) [OF add(1)] tm2])
           (use fd2 ct in \<open>auto simp: bnd_def\<close>)
    qed
    then show ?thesis using g1 add(1) w' by (meson good_trans)
  qed
qed

section \<open>Hooks\<close>

lemma hook_wf: "einv_but X w \<Longrightarrow> h_hooks w h = Some hk \<Longrightarrow> hook_ok (h_next w) hk"
  using einv_hooks by (auto simp: hooks_wf_def)

lemma good_hook_add:
  assumes inv: "einv_but X w" and hk: "h_hooks w h = Some hk"
    and add: "shl_hook_add h cb d os w = (r, w')"
  shows "good X w w'" and "w_sigs w' = w_sigs w \<and> w_loops w' = w_loops w"
proof -
  have "good X w w' \<and> w_sigs w' = w_sigs w \<and> w_loops w' = w_loops w"
  proof (cases cb)
    case None
    then show ?thesis using add good_refl [OF inv] by (simp add: shl_hook_add_def)
  next
    case (Some c)
    show ?thesis
    proof (cases "alloc w")
      case (Pair a w1)
      note q = alloc_quiet [OF Pair] and eqs = quiet_eqs [OF alloc_quiet [OF Pair]]
      have g1: "good X w w1" by (rule quiet_good [OF inv q])
      show ?thesis
      proof (cases a)
        case None
        then show ?thesis using add Some Pair g1 eqs by (simp add: shl_hook_add_def)
      next
        case (Some i)
        let ?hk = "hk\<lparr>hk_entries := hk_entries hk @
            [\<lparr>he_addr = i, he_cb = c, he_data = d, he_oneshot = os\<rparr>],
          hk_num := Suc (hk_num hk)\<rparr>"
        have hk1: "h_hooks w1 h = Some hk" using hk eqs by simp
        have i: "i = h_next w" "h_next w1 = Suc i" using alloc_Some [of w i w1] Pair Some by auto
        have "good X w1 (put_hook h (Some ?hk) w1)"
          using hook_ok_add [OF hook_wf [OF inv hk], of c d os] i
          by (intro good_put_hook [OF goodD(1) [OF g1] hk1]) (auto simp: slack_def)
        moreover have "w' = put_hook h (Some ?hk) w1"
          using add \<open>cb = _\<close> Pair Some hk1 by (simp add: shl_hook_add_def)
        ultimately show ?thesis using g1 eqs by (auto intro: good_trans simp: put_hook_def)
      qed
    qed
  qed
  then show "good X w w'" "w_sigs w' = w_sigs w \<and> w_loops w' = w_loops w" by simp_all
qed

lemma good_hook_add_single:
  assumes inv: "einv_but X w" and hk: "h_hooks w h = Some hk"
    and add: "shl_hook_add_single h cb d os w = (r, w')"
  shows "good X w w'"
  using good_hook_add [OF inv hk] add hk good_refl [OF inv]
  by (cases cb) (auto simp: shl_hook_add_single_def split: if_splits)

lemma good_rm_entry:
  assumes inv: "einv_but X w" and hk: "h_hooks w h = Some hk" and e: "e \<in> set (hk_entries hk)"
  shows "good X w (put_hook h (Some (rm_entry e hk)) w)"
  using hook_ok_rm [OF hook_wf [OF inv hk] e]
  by (intro good_put_hook [OF inv hk]) (auto simp: slack_def)

lemma good_hook_rm:
  assumes inv: "einv_but X w" and hk: "h_hooks w h = Some hk"
  shows "good X w (shl_hook_rm h cb d w)"
proof (cases cb)
  case None
  then show ?thesis by (simp add: shl_hook_rm_def good_refl [OF inv])
next
  case (Some c)
  show ?thesis
  proof (cases "filter (entry_is c d) (rev (hk_entries hk))")
    case Nil
    then show ?thesis using Some hk by (simp add: shl_hook_rm_def good_refl [OF inv])
  next
    case (Cons e es)
    then have "e \<in> set (hk_entries hk)"
      by (metis (no_types, lifting) filter_is_subset list.set_intros(1) set_rev subsetD)
    then show ?thesis using good_rm_entry [OF inv hk] Some hk Cons by (simp add: shl_hook_rm_def)
  qed
qed

lemma rm_entries_ok:
  assumes "hook_ok n hk" and "distinct (addrs es)" and "set es \<subseteq> set (hk_entries hk)"
  shows "hook_ok n (fold rm_entry es hk) \<and> slack (fold rm_entry es hk) = slack hk \<and>
     (hk_cur (fold rm_entry es hk) = No_entry) = (hk_cur hk = No_entry) \<and>
     hk_dead (fold rm_entry es hk) = hk_dead hk"
  using assms
proof (induction es arbitrary: hk)
  case Nil
  then show ?case by simp
next
  case (Cons e es)
  have e: "e \<in> set (hk_entries hk)" using Cons.prems(3) by simp
  have "he_addr x \<noteq> he_addr e" if "x \<in> set es" for x
    using Cons.prems(2) that by (simp add: addrs_def) (metis image_eqI)
  then have "set es \<subseteq> set (hk_entries (rm_entry e hk))"
    using Cons.prems(3) by (auto simp: rm_entry_def unlink_entry_def)
  then show ?case
    using Cons.IH [OF hook_ok_rm(1) [OF Cons.prems(1) e]] hook_ok_rm(2) [OF Cons.prems(1) e]
      Cons.prems(2) by (simp add: addrs_def slack_def)
qed

lemma good_hook_rm_all:
  assumes inv: "einv_but X w" and hk: "h_hooks w h = Some hk"
  shows "good X w (shl_hook_rm_all h cb d w)"
proof (cases cb)
  case None
  then show ?thesis by (simp add: shl_hook_rm_all_def good_refl [OF inv])
next
  case (Some c)
  let ?es = "filter (entry_is c d) (rev (hk_entries hk))"
  note ok = hook_wf [OF inv hk]
  have "distinct (addrs (rev (hk_entries hk)))"
    using ok by (simp add: hook_ok_def addrs_def rev_map [symmetric])
  then have "distinct (addrs ?es)" by (simp add: addrs_def distinct_map_filter)
  from rm_entries_ok [OF ok this]
  have "good X w (put_hook h (Some (fold rm_entry ?es hk)) w)"
    by (intro good_put_hook [OF inv hk]) auto
  then show ?thesis using Some hk by (simp add: shl_hook_rm_all_def)
qed

lemma hook_rm_fields [simp]:
  "h_hooks w h = Some hk \<Longrightarrow> w_sigs (shl_hook_rm h cb d w) = w_sigs w"
  "h_hooks w h = Some hk \<Longrightarrow> w_loops (shl_hook_rm h cb d w) = w_loops w"
  "h_hooks w h = Some hk \<Longrightarrow> w_fds (shl_hook_rm h cb d w) = w_fds w"
  by (auto simp: shl_hook_rm_def put_hook_def split: option.splits list.splits)

text \<open>The hook of an object is there.\<close>

lemma loop_hook:
  assumes "einv_but X w" and "w_loops w l = Some lp" and "h \<in> set (hooks_of lp)"
  obtains hk where "h_hooks w h = Some hk" "\<not> hk_dead hk"
  using einv_owned [OF assms(1)] assms(2,3) unfolding hooks_owned_def live_def by blast

lemma sig_hook:
  assumes "einv_but X w" and "w_sigs w s = Some sg" and "s \<notin> snd X"
  obtains hk where "h_hooks w (sg_hook sg) = Some hk" "\<not> hk_dead hk"
  using einv_owned [OF assms(1)] assms(2,3) unfolding hooks_owned_def live_def by blast

lemma good_hook_new:
  assumes inv: "einv_but X w" and new: "shl_hook_new w = (r, w')"
  shows "good X w w' \<and>
    (\<forall>h. r = Inr h \<longrightarrow> h_hooks w h = None \<and> h = h_next w \<and>
       h_hooks w' = (h_hooks w)(h \<mapsto> \<lparr>hk_num = 0, hk_entries = [], hk_cur = No_entry, hk_dead = False\<rparr>)) \<and>
    (\<forall>e. r = Inl e \<longrightarrow> h_hooks w' = h_hooks w) \<and>
    w_sigs w' = w_sigs w \<and> w_loops w' = w_loops w \<and> w_fds w' = w_fds w \<and>
    w_timers w' = w_timers w \<and> w_counters w' = w_counters w \<and> h_next w \<le> h_next w' \<and>
    k_next w' = k_next w \<and> k_epoll w' = k_epoll w"
proof (cases "alloc w")
  case (Pair a w1)
  note q = alloc_quiet [OF Pair] and eqs = quiet_eqs [OF alloc_quiet [OF Pair]]
  have g1: "good X w w1" by (rule quiet_good [OF inv q])
  have k: "k_next w1 = k_next w" "k_epoll w1 = k_epoll w" "h_next w \<le> h_next w1"
    using Pair by (auto simp: alloc_def ask_def split: list.splits answer.splits)
  show ?thesis
  proof (cases a)
    case None
    then show ?thesis using new Pair g1 eqs k by (auto simp: shl_hook_new_def)
  next
    case (Some h)
    let ?hk = "\<lparr>hk_num = 0, hk_entries = [], hk_cur = No_entry, hk_dead = False\<rparr> :: hook_fn shl_hook"
    have h: "h = h_next w" "h < h_next w1" using alloc_Some [of w h w1] Pair Some by auto
    then have fresh: "h_hooks w h = None" using einv_below(1) [OF inv] by (auto simp: below_def)
    have H: "h_hooks w1 h = None" using fresh eqs by simp
    let ?H = "(h_hooks w1)(h \<mapsto> ?hk)"
    have i1: "einv_but X w1" by (rule goodD(1) [OF g1])
    have "hooks_wf (h_next w1) ?H"
      using einv_hooks [OF i1] by (simp add: hooks_wf_def hook_ok_def addrs_def)
    moreover have "below (h_next w1) ?H"
      using einv_below(1) [OF i1] h by (simp add: below_def)
    moreover have "hooks_owned (snd X) ?H (w_loops w1) (w_sigs w1)"
      by (rule hooks_owned_sub [OF einv_owned [OF i1]]) (auto simp: live_def H)
    ultimately have "einv_but X (put_hook h (Some ?hk) w1)"
      using i1 by (simp add: einv_but_def put_hook_def)
    moreover have "ev_rely w1 (put_hook h (Some ?hk) w1)"
      using H by (auto simp: ev_rely_def put_hook_def)
    ultimately have "good X w1 (put_hook h (Some ?hk) w1)" by (simp add: good_def)
    then have "good X w (put_hook h (Some ?hk) w1)" using g1 by (meson good_trans)
    moreover have "r = Inr h" "w' = put_hook h (Some ?hk) w1"
      using new Pair Some by (simp_all add: shl_hook_new_def)
    ultimately show ?thesis using eqs fresh h k by (auto simp: put_hook_def)
  qed
qed

end
