(* ===== verification/Eloop_Client.thy ===== *)
theory Eloop_Client
  imports Eloop_Ops
begin

text \<open>
  The operations on loops and on shared signals keep the invariant too, and the type of all the
  operations that a client has, with the condition under which it may use each of them.
\<close>

section \<open>Loops\<close>

lemma good_loop_ref:
  assumes inv: "einv_but X w" and lp: "w_loops w l = Some lp"
  shows "good X w (ev_eloop_ref l w)"
proof -
  have n: "needed (w_fds w) l lp \<le> el_ref lp"
    using loops_okD [OF einv_loops [OF inv] lp] by metis
  have "good X w (put_loop l (Some (lp\<lparr>el_ref := Suc (el_ref lp)\<rparr>)) w)"
    using n by (intro good_put_loop [OF inv lp]) (simp_all add: same_loop_def hooks_of_def needed_def)
  then show ?thesis using lp by (simp add: ev_eloop_ref_def)
qed

lemma good_flush:
  assumes inv: "einv_but X w" and lp: "w_loops w l = Some lp"
  shows "good X w (ev_eloop_flush_fd l f w)"
proof (cases "el_dispatching lp")
  case False
  then show ?thesis using lp by (simp add: ev_eloop_flush_fd_def good_refl [OF inv])
next
  case True
  let ?lp = "lp\<lparr>el_cur := flush_ptr (Ptr_fd f) (el_cur lp)\<rparr>"
  have n: "0 < el_ref lp" "needed (w_fds w) l lp \<le> el_ref lp"
    using loops_okD [OF einv_loops [OF inv] lp] by metis+
  have "einv_but X (put_loop l (Some ?lp) w)"
    by (rule einv_put_loop [OF inv lp]) (use n in \<open>simp_all add: same_loop_def hooks_of_def needed_def\<close>)
  moreover have "snd ` set (el_cur ?lp) \<subseteq> insert Null (snd ` set (el_cur lp))"
    using flush_ptr_ptrs [of "Ptr_fd f" "el_cur lp"] by auto
  then have "ev_rely w (put_loop l (Some ?lp) w)"
    using cur_ok_sub [of "w_fds w" l lp ?lp] True
    by (intro rely_put_loop [OF lp]) (simp add: hooks_of_def flush_ptr_def)
  ultimately show ?thesis using True lp by (simp add: ev_eloop_flush_fd_def good_def)
qed

lemma good_exit_chain:
  assumes "einv_but X w" and "w_loops w l \<noteq> None"
  shows "good X w (exit_chain n l w)"
  using assms
proof (induction n arbitrary: l w)
  case 0
  then show ?case by (simp add: quiet_good stuck_quiet)
next
  case (Suc n)
  obtain lp where lp: "w_loops w l = Some lp" using Suc.prems(2) by auto
  let ?w1 = "put_loop l (Some (lp\<lparr>el_exit := True\<rparr>)) w"
  obtain fd where fd: "w_fds w (el_fd lp) = Some fd" and n: "0 < el_ref lp" "needed (w_fds w) l lp \<le> el_ref lp"
    using loops_okD [OF einv_loops [OF Suc.prems(1)] lp] by metis
  have g1: "good X w ?w1"
    using n by (intro good_put_loop [OF Suc.prems(1) lp])
      (simp_all add: same_loop_def hooks_of_def needed_def)
  show ?case
  proof (cases "fd_loop fd")
    case None
    then show ?thesis using lp fd g1 by simp
  next
    case (Some p)
    have "w_loops ?w1 p \<noteq> None"
      using einv_fds [OF Suc.prems(1)] fd Some unfolding fds_ok_def by simp
    then have "good X ?w1 (exit_chain n p ?w1)" using Suc.IH [OF goodD(1) [OF g1]] by simp
    then show ?thesis using lp fd Some g1 by (simp add: good_trans)
  qed
qed

text \<open>A new loop takes over its source, its hooks and its epoll set.\<close>

lemma good_new_loop_obj:
  assumes inv: "einv_but ({f}, B) w" and l: "w_loops w l = None" "l < h_next w"
    and fd: "w_fds w f = Some fd" "fd_cb fd = Some Fn_eloop" "fd_data fd = l" "fd_ref fd = 1"
      "fd_loop fd = None" "fd_enabled fd" "fd_fd fd = el_efd lp"
    and lp: "el_fd lp = f" "el_ref lp = 1" "el_sigs lp = []" "\<not> el_dispatching lp"
    and hooks: "distinct (hooks_of lp)" "\<And>h. h \<in> set (hooks_of lp) \<Longrightarrow> live (h_hooks w) h"
      "\<And>h k a. h \<in> set (hooks_of lp) \<Longrightarrow> w_loops w k = Some a \<Longrightarrow> h \<notin> set (hooks_of a)"
      "\<And>h s sg. h \<in> set (hooks_of lp) \<Longrightarrow> w_sigs w s = Some sg \<Longrightarrow> sg_hook sg \<noteq> h"
    and efd: "el_efd lp < k_next w" "\<And>k a. w_loops w k = Some a \<Longrightarrow> el_efd a \<noteq> el_efd lp"
      "\<And>j ev p. k_epoll w (el_efd lp) j = Some (ev, p) \<Longrightarrow> p = Ptr_loop l"
  shows "good ({}, B) w (put_loop l (Some lp) w)"
proof -
  let ?L = "(w_loops w)(l \<mapsto> lp)"
  have nb: "bound_set (w_fds w) l = {}"
    using einv_fds [OF inv] l(1) unfolding fds_ok_def bound_set_def by blast
  have "fds_ok {} (w_fds w) ?L (w_timers w) (w_counters w) (w_sigs w)"
    unfolding fds_ok_def
  proof (intro allI impI conjI)
    fix g gd k assume g: "w_fds w g = Some gd"
    show "?L k \<noteq> None" if "fd_loop gd = Some k"
      using einv_fds [OF inv] g that unfolding fds_ok_def by auto
    show "owned ?L (w_timers w) (w_counters w) (w_sigs w) g gd"
    proof (cases "g = f")
      case True
      then show ?thesis using g fd lp by (simp add: owned_def bnd_def)
    next
      case False
      then have "owned (w_loops w) (w_timers w) (w_counters w) (w_sigs w) g gd"
        using einv_fds [OF inv] g unfolding fds_ok_def by simp
      then show ?thesis
        using l(1) by (cases "fd_cb gd") (auto simp: owned_def split: fd_fn.splits)
    qed
  qed
  moreover have "sigs_ok B (w_fds w) ?L (w_sigs w)"
  proof -
    have ne: "sg_list sg \<noteq> l" if "w_sigs w s = Some sg" "s \<notin> B" for s sg
      using einv_sigs [OF inv] that l(1) unfolding sigs_ok_def by fastforce
    show ?thesis
      using einv_sigs [OF inv] lp(3) ne unfolding sigs_ok_def by auto
  qed
  moreover have "loops_ok (w_fds w) ?L"
    using einv_loops [OF inv] fd lp nb unfolding loops_ok_def
    by (auto simp: needed_def is_bound_def)
  moreover have "polls_ok (w_fds w) ?L (k_epoll w) (k_next w)"
    unfolding polls_ok_def
  proof (intro conjI allI impI)
    fix k a assume a: "?L k = Some a"
    show "el_efd a < k_next w"
      using a efd(1) einv_polls [OF inv] unfolding polls_ok_def by (auto split: if_splits)
    fix j ev p assume e: "k_epoll w (el_efd a) j = Some (ev, p)"
    show "p = Ptr_loop k \<or> (\<exists>f fd. p = Ptr_fd f \<and> w_fds w f = Some fd \<and> fd_loop fd = Some k \<and>
        fd_enabled fd \<and> fd_fd fd = j)"
    proof (cases "k = l")
      case True
      then show ?thesis using a e efd(3) by simp
    next
      case False
      then have a': "w_loops w k = Some a" using a by simp
      show ?thesis by (rule polls_okD [OF einv_polls [OF inv] a' e]) auto
    qed
  next
    fix k k' a a' assume "?L k = Some a" "?L k' = Some a'" "el_efd a = el_efd a'"
    then show "k = k'"
      using efd(2) einv_polls [OF inv] unfolding polls_ok_def by (auto split: if_splits)
  qed
  moreover have "hooks_owned B (h_hooks w) ?L (w_sigs w)"
  proof -
    note ok = einv_owned [OF inv, unfolded snd_conv]
    show ?thesis
      unfolding hooks_owned_def
    proof (intro conjI allI impI)
      fix k a assume a: "?L k = Some a"
      show "distinct (hooks_of a)" "\<forall>h \<in> set (hooks_of a). live (h_hooks w) h"
        using a hooks(1,2) ok unfolding hooks_owned_def by (auto split: if_splits)
      fix k' a' h assume b: "?L k' = Some a'" "h \<in> set (hooks_of a)" "h \<in> set (hooks_of a')"
      show "k = k'"
      proof (cases "k = l \<or> k' = l")
        case True
        then show ?thesis using a b hooks(3) by (auto split: if_splits)
      next
        case False
        then have "w_loops w k = Some a" "w_loops w k' = Some a'" using a b by simp_all
        then show ?thesis using ok b unfolding hooks_owned_def by blast
      qed
    next
      fix s sg assume "w_sigs w s = Some sg" "s \<notin> B"
      then show "live (h_hooks w) (sg_hook sg)" using ok unfolding hooks_owned_def by blast
    next
      fix s s' sg sg'
      assume "w_sigs w s = Some sg" "w_sigs w s' = Some sg'" "sg_hook sg = sg_hook sg'"
      then show "s = s'" using ok unfolding hooks_owned_def by blast
    next
      fix s sg k a assume s: "w_sigs w s = Some sg" "?L k = Some a"
      show "sg_hook sg \<notin> set (hooks_of a)"
      proof (cases "k = l")
        case True
        then show ?thesis using s hooks(4) by auto
      next
        case False
        then have "w_loops w k = Some a" using s by simp
        then show ?thesis using ok s(1) unfolding hooks_owned_def by blast
      qed
    qed
  qed
  moreover have "below (h_next w) ?L"
    using einv_below(3) [OF inv] l by (simp add: below_def)
  ultimately have "einv_but ({}, B) (put_loop l (Some lp) w)"
    using inv by (simp add: einv_but_def)
  moreover have "ev_rely w (put_loop l (Some lp) w)"
    using l(1) by (auto simp: ev_rely_def)
  ultimately show ?thesis by (simp add: good_def)
qed

text \<open>Hooks that were made and belong to no object yet.\<close>

definition spare :: "nat list \<Rightarrow> world \<Rightarrow> bool" where
  "spare hs w =
     (distinct hs \<and> (\<forall>h \<in> set hs. live (h_hooks w) h \<and>
        (\<forall>l lp. w_loops w l = Some lp \<longrightarrow> h \<notin> set (hooks_of lp)) \<and>
        (\<forall>s sg. w_sigs w s = Some sg \<longrightarrow> sg_hook sg \<noteq> h)))"

lemma spare_same:
  "spare hs w \<Longrightarrow> h_hooks w' = h_hooks w \<Longrightarrow> w_loops w' = w_loops w \<Longrightarrow> w_sigs w' = w_sigs w \<Longrightarrow>
   spare hs w'"
  by (simp add: spare_def)

lemma spare_quiet: "spare hs w \<Longrightarrow> quiet w w' \<Longrightarrow> spare hs w'"
  by (rule spare_same) (simp_all add: quiet_eqs)

lemma spare_new:
  assumes inv: "einv w" and sp: "spare hs w" and new: "shl_hook_new w = (Inr h, w')"
  shows "spare (h # hs) w'"
proof -
  note n = good_hook_new [OF inv new]
  have h: "h_hooks w h = None" "h_hooks w' = (h_hooks w)(h \<mapsto> \<lparr>hk_num = 0, hk_entries = [],
      hk_cur = No_entry, hk_dead = False\<rparr>)" using n by blast+
  have "h \<notin> set hs" using sp h(1) by (auto simp: spare_def live_def)
  moreover have "h \<notin> set (hooks_of lp)" if "w_loops w l = Some lp" for l lp
    using einv_owned [OF inv] that h(1) unfolding hooks_owned_def live_def by fastforce
  moreover have "sg_hook sg \<noteq> h" if "w_sigs w s = Some sg" for s sg
    using einv_owned [OF inv] that h(1) unfolding hooks_owned_def live_def by fastforce
  ultimately show ?thesis using sp h n by (auto simp: spare_def live_def)
qed

lemma good_free_spare:
  assumes inv: "einv w" and sp: "spare hs w"
  shows "good ({}, {}) w (fold shl_hook_free hs w)"
  using sp by (intro good_free_hooks [OF inv]) (auto simp: spare_def live_def)

text \<open>The steps of \<open>ev_eloop_new\<close> up to the hooks, and the labels that undo them.\<close>

lemma err_posts_fold: "err_posts a b c d w = fold shl_hook_free [a, b, c, d] w"
  by (simp add: err_posts_def err_pres_def err_idlers_def err_childs_def)

definition made :: "world \<Rightarrow> nat list \<Rightarrow> world \<Rightarrow> bool" where
  "made u hs w = (good ({}, {}) u w \<and> spare hs w \<and> w_loops w = w_loops u \<and> w_sigs w = w_sigs u \<and>
     h_next u \<le> h_next w \<and> w_fds w = w_fds u)"

lemma made_quiet:
  assumes m: "made u hs w" and q: "quiet w w'"
  shows "made u hs w'"
proof -
  have g: "good ({}, {}) u w" and sp: "spare hs w" using m by (auto simp: made_def)
  have "good ({}, {}) w w'" by (rule quiet_good [OF goodD(1) [OF g] q])
  then have "good ({}, {}) u w'" using g by (meson good_trans)
  moreover have "h_next w \<le> h_next w'" using q by (simp add: quiet_def)
  ultimately show ?thesis
    using m spare_quiet [OF sp q] quiet_eqs [OF q] by (simp add: made_def)
qed

lemma made_hook:
  assumes m: "made u hs w" and new: "shl_hook_new w = (r, w')"
  shows "case r of Inr h \<Rightarrow> made u (h # hs) w' | Inl e \<Rightarrow> made u hs w'"
proof -
  have inv: "einv w" and sp: "spare hs w" using m by (auto simp: made_def good_def)
  note n = good_hook_new [OF inv new]
  have g: "good ({}, {}) u w'" using m n unfolding made_def by (meson good_trans)
  show ?thesis
  proof (cases r)
    case (Inl e)
    then have "spare hs w'" using n by (intro spare_same [OF sp]) auto
    then show ?thesis using Inl m g n by (simp add: made_def)
  next
    case (Inr h)
    then show ?thesis using spare_new [OF inv sp] new m g n by (simp add: made_def)
  qed
qed

lemma made_free: "made u hs w \<Longrightarrow> good ({}, {}) u (fold shl_hook_free hs w)"
  unfolding made_def using good_free_spare good_trans by blast

lemma ev_fd_new_hooks:
  "ev_fd_new rfd m cb d w = (r, w') \<Longrightarrow>
   h_hooks w' = h_hooks w \<and> w_sigs w' = w_sigs w \<and> k_epoll w' = k_epoll w \<and> k_next w' = k_next w"
  by (auto simp: ev_fd_new_def alloc_def ask_def put_fd_def
      split: if_splits prod.splits option.splits list.splits answer.splits)

lemma made_fd_back:
  assumes m: "made u hs w" and new: "ev_fd_new rfd mk (Some Fn_eloop) l w = (Inr f, w1)"
    and l: "w_loops w l = None" and q: "quiet w1 w2"
  shows "made u hs (ev_fd_unref f w2)"
proof -
  have inv: "einv w" and sp: "spare hs w" using m by (auto simp: made_def good_def)
  let ?fd = "\<lparr>fd_ref = 1, fd_fd = nat rfd, fd_mask = mk, fd_cb = Some Fn_eloop, fd_data = l,
      fd_enabled = True, fd_loop = None\<rparr>"
  have n: "good ({f}, {}) w w1" "w_fds w f = None" "h_next w \<le> h_next w1"
     "w_fds w1 = (w_fds w)(f \<mapsto> ?fd)" "w_loops w1 = w_loops w"
    using good_fd_new [OF inv new] by simp_all
  note n2 = ev_fd_new_hooks [OF new]
  note eqs = quiet_eqs [OF q]
  have g2: "good ({f}, {}) w1 w2" by (rule quiet_good [OF goodD(1) [OF n(1)] q])
  have fd2: "w_fds w2 f = Some ?fd" using n(4) eqs by simp
  have "good ({f}, {}) w2 (put_fd f None w2)"
    by (rule good_del_fd [OF goodD(1) [OF g2] fd2]) (simp_all add: orphan_def eqs n(5) l)
  then have "good ({f}, {}) w (put_fd f None w2)" using n(1) g2 by (meson good_trans)
  then have "good ({}, {}) w (put_fd f None w2)" by (rule good_shrink) auto
  then have "good ({}, {}) u (put_fd f None w2)" using m unfolding made_def by (meson good_trans)
  moreover have "w_fds (put_fd f None w2) = w_fds w" using eqs n(2,4) by (simp add: fun_upd_idem)
  moreover have "spare hs (put_fd f None w2)"
    by (rule spare_same [OF sp]) (simp_all add: eqs n(5) n2)
  moreover have "h_next w1 \<le> h_next w2" using q by (simp add: quiet_def)
  moreover have "ev_fd_unref f w2 = put_fd f None w2" using fd2 by (simp add: ev_fd_unref_def)
  ultimately show ?thesis using m n(3,5) n2 eqs by (simp add: made_def)
qed

lemma hook_new_mono: "shl_hook_new w = (r, w') \<Longrightarrow> h_next w \<le> h_next w'"
  by (auto simp: shl_hook_new_def alloc_def ask_def put_hook_def
      split: prod.splits option.splits list.splits answer.splits)

lemma made_start: "einv w \<Longrightarrow> quiet w w' \<Longrightarrow> made w [] w'"
  by (simp add: made_def spare_def quiet_good quiet_eqs) (simp add: quiet_def)

text \<open>The steps from the epoll descriptor on.\<close>

definition eloop_tail :: "nat \<Rightarrow> nat \<Rightarrow> nat \<Rightarrow> nat \<Rightarrow> nat \<Rightarrow> nat \<Rightarrow> world \<Rightarrow> (errno + nat) \<times> world" where
  "eloop_tail l b chlds idlers pres posts w =
   (case sys_open w of (Inl e, w) \<Rightarrow> (Inl e, err_posts posts pres idlers chlds w) | (Inr efd, w) \<Rightarrow>
   (case ev_fd_new (int efd) EV_READABLE (Some Fn_eloop) l w of
      (Inl e, w) \<Rightarrow> (Inl e, err_posts posts pres idlers chlds (sys_close efd w))
    | (Inr fd, w) \<Rightarrow>
   (case sys_open w of
      (Inl _, w) \<Rightarrow>
        (Inl EFAULT, err_posts posts pres idlers chlds (sys_close efd (ev_fd_unref fd w)))
    | (Inr idle, w) \<Rightarrow>
   (case epoll_ctl_add efd idle EPOLLIN (Ptr_loop l) w of
      (Some _, w) \<Rightarrow>
        (Inl EFAULT, err_posts posts pres idlers chlds
           (sys_close efd (ev_fd_unref fd (sys_close idle w))))
    | (None, w) \<Rightarrow>
        (Inr l, put_loop l
           (Some \<lparr>el_ref = 1, el_efd = efd, el_fd = fd, el_idle_fd = idle, el_sigs = [],
                  el_chlds = chlds, el_idlers = idlers, el_pres = pres, el_posts = posts,
                  el_dispatching = False, el_cur = [], el_size = 32, el_exit = False, el_array = b\<rparr>) w)))))"

lemma epoll_add_loop_cases:
  assumes "epoll_ctl_add e k ev p w = (r, w')"
  shows "(r \<noteq> ok \<and> (\<exists>a. ask w = (a, w'))) \<or>
    (r = ok \<and> (\<exists>a w1. ask w = (a, w1) \<and>
       w' = w1\<lparr>k_epoll := (k_epoll w1)(e := (k_epoll w1 e)(k \<mapsto> (ev, p)))\<rparr>))"
  using assms by (cases "ask w") (auto simp: epoll_ctl_add_def split: option.splits if_splits)

lemma eloop_tail_ok:
  assumes inv: "einv w" and m: "made w [q, p, i, c] w6" and fresh: "w_loops w l = None"
    and lt: "l < h_next w6" and tail: "eloop_tail l b c i p q w6 = (r, w')"
  shows "good ({}, {}) w w' \<and>
    (\<forall>l'. r = Inr l' \<longrightarrow> l' = l \<and> (\<exists>lp. w_loops w' = (w_loops w)(l \<mapsto> lp) \<and> el_ref lp = 1 \<and>
       needed (w_fds w') l lp = 0 \<and> \<not> is_bound (w_fds w') (el_fd lp)))"
proof -
  have err: "good ({}, {}) w (err_posts q p i c v)" if "made w [q, p, i, c] v" for v
    using made_free [OF that] by (simp add: err_posts_fold)
  obtain o7 w7 where s7: "sys_open w6 = (o7, w7)" by (meson surj_pair)
  have m7: "made w [q, p, i, c] w7" by (rule made_quiet [OF m sys_open_quiet [OF s7]])
  note tail1 = tail [unfolded eloop_tail_def s7 prod.case]
  show ?thesis
  proof (cases o7)
    case (Inl e)
    then show ?thesis using tail1 err [OF m7] by auto
  next
    case (Inr efd)
    note k7 = sys_open_Inr [OF s7 [unfolded Inr]]
    obtain f8 w8 where s8: "ev_fd_new (int efd) EV_READABLE (Some Fn_eloop) l w7 = (f8, w8)"
      by (meson surj_pair)
    note tail2 = tail1 [unfolded Inr sum.case s8 prod.case]
    have inv7: "einv w7" using m7 by (auto simp: made_def good_def)
    note n8 = good_fd_new [OF inv7 s8] and n8' = ev_fd_new_hooks [OF s8]
    show ?thesis
    proof (cases f8)
      case (Inl e)
      then have "quiet w7 w8"
        using s8 alloc_quiet by (auto simp: ev_fd_new_def split: if_splits prod.splits option.splits)
      then have "made w [q, p, i, c] (sys_close efd w8)"
        by (meson m7 made_quiet sys_close_quiet)
      then show ?thesis using tail2 Inl err by auto
    next
      case (Inr f)
      note s8' = s8 [unfolded Inr] and tail3 = tail2 [unfolded Inr sum.case]
      have l7: "w_loops w7 l = None" using m7 fresh by (simp add: made_def)
      obtain o9 w9 where s9: "sys_open w8 = (o9, w9)" by (meson surj_pair)
      note q9 = sys_open_quiet [OF s9] and tail4 = tail3 [unfolded s9 prod.case]
      show ?thesis
      proof (cases o9)
        case (Inl e)
        have "made w [q, p, i, c] (sys_close efd (ev_fd_unref f w9))"
          by (rule made_quiet [OF made_fd_back [OF m7 s8' l7 q9] sys_close_quiet])
        then show ?thesis using tail4 Inl err by auto
      next
        case (Inr idle)
        note k9 = sys_open_Inr [OF s9 [unfolded Inr]]
        obtain r10 w10 where s10: "epoll_ctl_add efd idle EPOLLIN (Ptr_loop l) w9 = (r10, w10)"
          by (meson surj_pair)
        note tail5 = tail4 [unfolded Inr sum.case s10 prod.case]
        from epoll_add_loop_cases [OF s10] show ?thesis
        proof (elim disjE conjE exE)
          fix a assume a: "r10 \<noteq> ok" "ask w9 = (a, w10)"
          have "quiet w8 (sys_close idle w10)"
            using q9 ask_quiet [OF a(2)] sys_close_quiet quiet_trans by blast
          then have "made w [q, p, i, c] (sys_close efd (ev_fd_unref f (sys_close idle w10)))"
            by (rule made_quiet [OF made_fd_back [OF m7 s8' l7] sys_close_quiet])
          then show ?thesis using tail5 a(1) err by auto
        next
          fix a v assume a: "r10 = ok" "ask w9 = (a, v)"
            "w10 = v\<lparr>k_epoll := (k_epoll v)(efd := (k_epoll v efd)(idle \<mapsto> (EPOLLIN, Ptr_loop l)))\<rparr>"
          let ?lp = "\<lparr>el_ref = 1, el_efd = efd, el_fd = f, el_idle_fd = idle, el_sigs = [],
                  el_chlds = c, el_idlers = i, el_pres = p, el_posts = q,
                  el_dispatching = False, el_cur = [], el_size = 32, el_exit = False, el_array = b\<rparr>"
          have qv: "quiet w8 v" using q9 ask_quiet [OF a(2)] quiet_trans by blast
          note eqv = quiet_eqs [OF qv]
          from n8 Inr \<open>f8 = _\<close> have g8: "good ({f}, {}) w7 w8" and fd8: "h_next w7 \<le> h_next w8"
            "w_fds w8 = (w_fds w7)(f \<mapsto> \<lparr>fd_ref = 1, fd_fd = nat (int efd), fd_mask = EV_READABLE,
               fd_cb = Some Fn_eloop, fd_data = l, fd_enabled = True, fd_loop = None\<rparr>)"
            "w_loops w8 = w_loops w7" by simp_all
          have gv: "good ({f}, {}) w8 v" by (rule quiet_good [OF goodD(1) [OF g8] qv])
          have invv: "einv_but ({f}, {}) v" by (rule goodD(1) [OF gv])
          have kn: "efd < k_next v"
            using k7 n8' qv by (simp add: quiet_def)
          have ke: "k_epoll v efd j = None" for j
            using k7 n8' qv by (metis quiet_def)
          have le: "el_efd b < efd" if "w_loops w7 k = Some b" for k b
          proof -
            have "w_loops w6 k = Some b" using that quiet_eqs(2) [OF sys_open_quiet [OF s7]] by simp
            moreover have "einv w6" using m by (auto simp: made_def good_def)
            ultimately show ?thesis using einv_polls k7 unfolding polls_ok_def by metis
          qed
          have Lv: "w_loops v = w_loops w7" using fd8(3) eqv by simp
          have "polls_ok (w_fds v) (w_loops v) (k_epoll w10) (k_next v)"
          proof -
            have "k_epoll w10 (el_efd b) = k_epoll v (el_efd b)" if "w_loops v k = Some b" for k b
              using le that a(3) unfolding Lv by fastforce
            then show ?thesis using einv_polls [OF invv] unfolding polls_ok_def by simp
          qed
          then have inv10: "einv_but ({f}, {}) w10"
            using invv a(3) by (simp add: einv_but_def)
          have g10: "good ({f}, {}) v w10" using inv10 a(3) by (simp add: good_def ev_rely_def)
          have sp: "spare [q, p, i, c] w10"
          proof -
            have "spare [q, p, i, c] w7" using m7 by (simp add: made_def)
            then show ?thesis
              by (rule spare_same) (simp_all add: a(3) eqv n8' fd8(3))
          qed
          have "good ({}, {}) w10 (put_loop l (Some ?lp) w10)"
          proof (rule good_new_loop_obj [OF inv10])
            show "w_loops w10 l = None" using l7 Lv a(3) by simp
            have "l < h_next w7" using lt sys_open_quiet [OF s7] by (simp add: quiet_def)
            then show "l < h_next w10" using fd8(1) qv a(3) by (simp add: quiet_def)
            show "w_fds w10 f = Some \<lparr>fd_ref = 1, fd_fd = nat (int efd), fd_mask = EV_READABLE,
               fd_cb = Some Fn_eloop, fd_data = l, fd_enabled = True, fd_loop = None\<rparr>"
              using fd8(2) eqv a(3) by simp
            show "distinct (hooks_of ?lp)" using sp by (auto simp: spare_def hooks_of_def)
            fix h assume h: "h \<in> set (hooks_of ?lp)"
            then have h': "h \<in> set [q, p, i, c]" by (auto simp: hooks_of_def)
            show "live (h_hooks w10) h" using sp h' unfolding spare_def by blast
            show "h \<notin> set (hooks_of b)" if "w_loops w10 k = Some b" for k b
              using sp h' that unfolding spare_def by blast
            show "sg_hook sg \<noteq> h" if "w_sigs w10 s = Some sg" for s sg
              using sp h' that unfolding spare_def by blast
          next
            show "el_efd ?lp < k_next w10" using kn a(3) by simp
            show "el_efd b \<noteq> el_efd ?lp" if "w_loops w10 k = Some b" for k b
              using le [of k b] that a(3) Lv by auto
            show "pp = Ptr_loop l" if "k_epoll w10 (el_efd ?lp) j = Some (ev, pp)" for j ev pp
              using that ke a(3) by (auto split: if_splits)
          qed simp_all
          then have "good ({}, {}) w (put_loop l (Some ?lp) w10)"
            using m7 g8 gv g10 unfolding made_def by (meson good_trans)
          moreover have "r = Inr l" "w' = put_loop l (Some ?lp) w10" using tail5 a(1) by simp_all
          moreover have "w_loops w10 = w_loops w" using m7 Lv a(3) by (simp add: made_def)
          moreover have "w_fds w10 = w_fds w8" using eqv a(3) by simp
          moreover have "bound_set (w_fds w8) l = {}"
            using einv_fds [OF goodD(1) [OF g8]] l7 fd8(3) unfolding fds_ok_def bound_set_def by fastforce
          moreover have "\<not> is_bound (w_fds w8) f" using fd8(2) by (simp add: is_bound_def)
          ultimately show ?thesis by (auto simp: needed_def intro!: exI [of _ ?lp])
        qed
      qed
    qed
  qed
qed

lemma eloop_setup_ok:
  assumes inv: "einv w" and m2: "made w [] w2" and fresh: "w_loops w l = None" and lt: "l < h_next w2"
    and new: "eloop_setup l b w2 = (r, w')"
  shows "good ({}, {}) w w' \<and>
    (\<forall>l'. r = Inr l' \<longrightarrow> l' = l \<and> (\<exists>lp. w_loops w' = (w_loops w)(l \<mapsto> lp) \<and> el_ref lp = 1 \<and>
       needed (w_fds w') l lp = 0 \<and> \<not> is_bound (w_fds w') (el_fd lp)))"
proof -
  obtain h3 w3 where s3: "shl_hook_new w2 = (h3, w3)" by (meson surj_pair)
  note m3 = made_hook [OF m2 s3] and new2 = new [unfolded eloop_setup_def s3 prod.case]
  obtain h4 w4 where s4: "shl_hook_new w3 = (h4, w4)" by (meson surj_pair)
  obtain h5 w5 where s5: "shl_hook_new w4 = (h5, w5)" by (meson surj_pair)
  obtain h6 w6 where s6: "shl_hook_new w5 = (h6, w6)" by (meson surj_pair)
  show ?thesis
  proof (cases h3)
    case (Inl e)
    then show ?thesis using new2 made_free [of w "[]" w3] m3 by auto
  next
    case (Inr c)
    have m3': "made w [c] w3" using m3 Inr by simp
    note new3 = new2 [unfolded Inr sum.case s4 prod.case] and m4 = made_hook [OF m3' s4]
    show ?thesis
    proof (cases h4)
      case (Inl e)
      then show ?thesis using new3 made_free [of w "[c]" w4] m4 by (auto simp: err_childs_def)
    next
      case (Inr i)
      have m4': "made w [i, c] w4" using m4 Inr by simp
      note new4 = new3 [unfolded Inr sum.case s5 prod.case] and m5 = made_hook [OF m4' s5]
      show ?thesis
      proof (cases h5)
        case (Inl e)
        then show ?thesis
          using new4 made_free [of w "[i, c]" w5] m5 by (auto simp: err_idlers_def err_childs_def)
      next
        case (Inr p)
        have m5': "made w [p, i, c] w5" using m5 Inr by simp
        note new5 = new4 [unfolded Inr sum.case s6 prod.case] and m6 = made_hook [OF m5' s6]
        show ?thesis
        proof (cases h6)
          case (Inl e)
          then show ?thesis
            using new5 made_free [of w "[p, i, c]" w6] m6 by (auto simp: err_pres_def err_idlers_def err_childs_def)
        next
          case (Inr q)
          have m6': "made w [q, p, i, c] w6" using m6 Inr by simp
          have lt6: "l < h_next w6"
            using lt hook_new_mono [OF s3] hook_new_mono [OF s4] hook_new_mono [OF s5] hook_new_mono [OF s6]
            by linarith
          have "eloop_tail l b c i p q w6 = (r, w')" using new5 Inr by (simp add: eloop_tail_def)
          from eloop_tail_ok [OF inv m6' fresh lt6 this] show ?thesis .
        qed
      qed
    qed
  qed
qed

lemma good_eloop_new:
  assumes inv: "einv w" and new: "ev_eloop_new w = (r, w')"
  shows "good ({}, {}) w w' \<and>
    (\<forall>l. r = Inr l \<longrightarrow> (\<exists>lp. w_loops w l = None \<and> w_loops w' = (w_loops w)(l \<mapsto> lp) \<and> el_ref lp = 1 \<and>
       needed (w_fds w') l lp = 0 \<and> \<not> is_bound (w_fds w') (el_fd lp)))"
proof -
  obtain a1 w1 where s1: "alloc w = (a1, w1)" by (meson surj_pair)
  note q1 = alloc_quiet [OF s1]
  have frees: "good ({}, {}) w (err_free l v)" "good ({}, {}) w (err_fds l b v)" if "good ({}, {}) w v" for l b v
  proof -
    have "quiet v (err_free l v)" "quiet v (err_fds l b v)"
      unfolding err_fds_def err_free_def by (meson free_memory_quiet quiet_trans)+
    then show "good ({}, {}) w (err_free l v)" "good ({}, {}) w (err_fds l b v)"
      using that quiet_good [OF goodD(1) [OF that]] good_trans by blast+
  qed
  show ?thesis
  proof (cases a1)
    case None
    then show ?thesis using new s1 quiet_good [OF inv q1] by (auto simp: ev_eloop_new_def)
  next
    case (Some l)
    have l: "l = h_next w" "h_next w1 = Suc l" using alloc_Some [of w l w1] s1 Some by auto
    then have fresh: "w_loops w l = None" using einv_below(3) [OF inv] by (auto simp: below_def)
    obtain a2 w2 where s2: "alloc (keep_memory l w1) = (a2, w2)" by (meson surj_pair)
    have q2: "quiet w w2" by (meson q1 keep_memory_quiet alloc_quiet [OF s2] quiet_trans)
    note new1 = new [unfolded ev_eloop_new_def s1 Some prod.case option.case s2]
    show ?thesis
    proof (cases a2)
      case None
      then show ?thesis using new1 frees(1) [OF quiet_good [OF inv q2]] by auto
    next
      case (Some b)
      have m: "made w [] (keep_memory b w2)"
        by (rule made_start [OF inv]) (meson q2 keep_memory_quiet quiet_trans)
      have lt: "l < h_next (keep_memory b w2)"
        using l(2) alloc_quiet [OF s2] by (simp add: quiet_def)
      obtain r3 w3 where s3: "eloop_setup l b (keep_memory b w2) = (r3, w3)" by (meson surj_pair)
      note set = eloop_setup_ok [OF inv m fresh lt s3]
      show ?thesis
        using new1 [unfolded Some option.case s3] set fresh frees(2) [of w3 l b] by (cases r3) auto
    qed
  qed
qed

section \<open>Nested loops\<close>

lemma loop_fd_unique:
  assumes "einv_but X w" and "w_loops w a = Some la" and "w_loops w c = Some lc"
    and "el_fd lc = el_fd la"
  shows "c = a"
  using loops_okD [OF einv_loops [OF assms(1)] assms(2)] loops_okD [OF einv_loops [OF assms(1)] assms(3)]
    assms(4) by (metis option.inject)

lemma good_add_eloop:
  assumes inv: "einv_but ({}, B) w" and lp: "w_loops w l = Some lp" and la: "w_loops w a = Some la"
    and own: "needed (w_fds w) a la < el_ref la"
    and add: "ev_eloop_add_eloop l a w = (r, w')"
  shows "good ({}, B) w w'"
    and "r \<noteq> ok \<Longrightarrow> w_fds w' = w_fds w \<and> w_loops w' = w_loops w"
    and "r = ok \<Longrightarrow> l \<noteq> a \<Longrightarrow> w_loops w' a = Some (la\<lparr>el_ref := Suc (el_ref la)\<rparr>) \<and>
      bound_set (w_fds w') a = bound_set (w_fds w) a"
proof -
  obtain fd where fd: "w_fds w (el_fd la) = Some fd" "fd_cb fd = Some Fn_eloop"
    using loops_okD [OF einv_loops [OF inv] la] by metis
  have ref: "0 < fd_ref fd" using owned_ref fd_ok [OF inv fd(1)] by simp
  have "good ({}, B) w w' \<and> (r \<noteq> ok \<longrightarrow> w_fds w' = w_fds w \<and> w_loops w' = w_loops w) \<and>
    (r = ok \<and> l \<noteq> a \<longrightarrow> w_loops w' a = Some (la\<lparr>el_ref := Suc (el_ref la)\<rparr>) \<and>
      bound_set (w_fds w') a = bound_set (w_fds w) a)"
  proof (cases "fd_loop fd")
    case (Some l')
    then have "r = fails EALREADY" "w' = w"
      using add la fd(1) by (simp_all add: ev_eloop_add_eloop_def)
    then show ?thesis using good_refl [OF inv] by simp
  next
    case None
    obtain r1 w1 where a: "ev_eloop_add_fd l (el_fd la) w = (r1, w1)" by (meson surj_pair)
    have g1: "good ({}, B) w w1"
      by (rule good_add_fd [OF inv fd(1) ref lp _ a])
         (use own loop_fd_unique [OF inv la] la in fastforce)
    note obj = add_fd_objects [OF fd(1) lp None ref a]
    show ?thesis
    proof (cases r1)
      case (Some e)
      then have "r = fails e" "w' = w1"
        using add la fd(1) None a by (simp_all add: ev_eloop_add_eloop_def)
      then show ?thesis using g1 obj Some by simp
    next
      case ok: None
      then have r: "r = ok" "w' = ev_eloop_ref a w1"
        using add la fd(1) None a by (simp_all add: ev_eloop_add_eloop_def)
      obtain la1 where la1: "w_loops w1 a = Some la1"
        using obj ok la by (cases "a = l") auto
      have "good ({}, B) w1 (ev_eloop_ref a w1)"
        by (rule good_loop_ref [OF goodD(1) [OF g1] la1])
      then have "good ({}, B) w w'" using g1 r(2) by (simp add: good_trans)
      moreover have "w_loops w' a = Some (la\<lparr>el_ref := Suc (el_ref la)\<rparr>) \<and>
          bound_set (w_fds w') a = bound_set (w_fds w) a" if "l \<noteq> a"
      proof -
        have "w_loops w1 a = Some la" using obj ok la that by simp
        moreover have "el_fd la \<notin> bound_set (w_fds w) a"
          using fd(1) None by (simp add: bound_set_iff)
        ultimately show ?thesis using r(2) obj ok that
          by (simp add: ev_eloop_ref_def bound_set_upd)
      qed
      ultimately show ?thesis using r by simp
    qed
  qed
  then show "good ({}, B) w w'" "r \<noteq> ok \<Longrightarrow> w_fds w' = w_fds w \<and> w_loops w' = w_loops w"
    "r = ok \<Longrightarrow> l \<noteq> a \<Longrightarrow> w_loops w' a = Some (la\<lparr>el_ref := Suc (el_ref la)\<rparr>) \<and>
      bound_set (w_fds w') a = bound_set (w_fds w) a"
    by blast+
qed

lemma rm_more:
  assumes inv: "einv_but ({}, B) w" and fd: "w_fds w f = Some fd" and loop: "fd_loop fd = Some l"
    and lp: "w_loops w l = Some lp" and sig: "fd_cb fd = Some Fn_signal \<Longrightarrow> fd_data fd \<in> B"
  shows "bound_set (w_fds (ev_eloop_rm_fd f w)) k \<subseteq> bound_set (w_fds w) k"
    and "h \<notin> set (hooks_of lp) \<Longrightarrow> h_hooks (ev_eloop_rm_fd f w) h = h_hooks w h"
proof -
  have r: "0 < fd_ref fd" using owned_ref fd_ok [OF inv fd] by simp
  let ?w3 = "put_fd f (unbound_fd fd) (put_loop l (Some (flushed f lp)) (leave_epoll lp fd w))"
  have eq: "ev_eloop_rm_fd f w = ev_eloop_unref l ?w3"
    unfolding ev_eloop_rm_fd_def by (rule rm_fd_eq [OF fd loop lp r])
  note q = quiet_eqs [OF leave_epoll_quiet [of w lp fd]]
  have g: "good ({}, B) w ?w3" and n: "needed (w_fds ?w3) l (flushed f lp) < el_ref (flushed f lp)"
    using good_rm_fd [OF inv fd loop lp _ sig] by (simp_all add: flushed_same)
  have l3: "w_loops ?w3 l = Some (flushed f lp)" by simp
  have un: "unbound_fd fd = Some fd' \<Longrightarrow> fd_loop fd' = None" for fd'
    by (auto simp: unbound_fd_def split: if_splits)
  have "bound_set (w_fds ?w3) k \<subseteq> bound_set (w_fds w) k"
    using un by (auto simp: bound_set_def q split: if_splits)
  moreover have "bound_set (w_fds (ev_eloop_unref l ?w3)) k \<subseteq> bound_set (w_fds ?w3) k"
    using unref_cases [OF goodD(1) [OF g] l3 n] by (auto simp: bound_set_def split: if_splits)
  ultimately show "bound_set (w_fds (ev_eloop_rm_fd f w)) k \<subseteq> bound_set (w_fds w) k"
    using eq by simp
  show "h_hooks (ev_eloop_rm_fd f w) h = h_hooks w h" if "h \<notin> set (hooks_of lp)"
  proof -
    have "h_hooks (shl_hook_free g v) h = h_hooks v h" if "h \<noteq> g" for g and v :: world
      using that by (simp add: shl_hook_free_def put_hook_def crash_def split: option.splits)
    with unref_cases [OF goodD(1) [OF g] l3 n] that show ?thesis
      by (auto simp: eq q flushed_def hooks_of_def)
  qed
qed

lemma good_rm_eloop:
  assumes inv: "einv_but ({}, B) w" and la: "w_loops w a = Some la"
    and fd: "w_fds w (el_fd la) = Some fd" and ne: "fd_loop fd \<noteq> Some a"
    and own: "el_dispatching la \<Longrightarrow> needed (w_fds w) a la < el_ref la"
  shows "good ({}, B) w (ev_eloop_rm_eloop a w)"
proof (cases "fd_loop fd")
  case None
  then show ?thesis using la fd by (simp add: ev_eloop_rm_eloop_def good_refl [OF inv])
next
  case (Some l)
  have cb: "fd_cb fd = Some Fn_eloop" "fd_data fd = a" and need: "needed (w_fds w) a la \<le> el_ref la"
    using loops_okD [OF einv_loops [OF inv] la] fd by (metis option.inject)+
  obtain lp where lp: "w_loops w l = Some lp" using bound_loop [OF inv fd Some] .
  have la_ne: "a \<noteq> l" using ne Some by auto
  have fne: "el_fd la \<noteq> el_fd lp" using loop_fd_unique [OF inv la lp] la_ne by auto
  let ?f = "el_fd la" let ?w1 = "ev_eloop_rm_fd ?f w"
  have g1: "good ({}, B) w ?w1" by (rule good_rm [OF inv fd]) (use cb in simp)
  have sig: "fd_cb fd = Some Fn_signal \<Longrightarrow> fd_data fd \<in> B" using cb by simp
  have la1: "w_loops ?w1 a = Some la" using rm_objects(4) [OF inv fd Some lp sig la_ne] la by simp
  have f1: "w_fds ?w1 ?f = unbound_fd fd" using rm_objects(5) [OF inv fd Some lp sig fne] by simp
  have unb: "\<not> is_bound (w_fds ?w1) ?f" using f1 by (auto simp: is_bound_def unbound_fd_def split: if_splits)
  have "bound_set (w_fds ?w1) a \<subseteq> bound_set (w_fds w) a" by (rule rm_more(1) [OF inv fd Some lp sig])
  then have card: "card (bound_set (w_fds ?w1) a) \<le> card (bound_set (w_fds w) a)"
    using bound_set_finite [OF einv_below(2) [OF inv]] by (simp add: card_mono)
  have "is_bound (w_fds w) ?f" using fd Some by (simp add: is_bound_def)
  then have "needed (w_fds ?w1) a la < el_ref la"
    using card need own unb by (cases "el_dispatching la") (simp_all add: needed_def)
  then have "good ({}, B) ?w1 (ev_eloop_unref a ?w1)"
    by (intro good_unref [OF goodD(1) [OF g1] la1]) simp_all
  then show ?thesis
    using g1 la fd Some by (simp add: ev_eloop_rm_eloop_def good_trans)
qed

lemma good_new_eloop:
  assumes inv: "einv w" and lp: "w_loops w l = Some lp" and new: "ev_eloop_new_eloop l w = (r, w')"
  shows "good ({}, {}) w w'"
proof -
  obtain r1 w1 where n: "ev_eloop_new w = (r1, w1)" by (meson surj_pair)
  note g = good_eloop_new [OF inv n]
  show ?thesis
  proof (cases r1)
    case (Inl e)
    then show ?thesis using new n g by (simp add: ev_eloop_new_eloop_def)
  next
    case (Inr a)
    from g Inr obtain la where a: "w_loops w a = None" "w_loops w1 = (w_loops w)(a \<mapsto> la)"
      "el_ref la = 1" "needed (w_fds w1) a la = 0" by blast
    then have ne: "l \<noteq> a" using lp by auto
    have la1: "w_loops w1 a = Some la" and lp1: "w_loops w1 l = Some lp" using a lp ne by simp_all
    obtain r2 w2 where ad: "ev_eloop_add_eloop l a w1 = (r2, w2)" by (meson surj_pair)
    have g1: "good ({}, {}) w w1" using g by simp
    have own1: "needed (w_fds w1) a la < el_ref la" using a by simp
    note add = good_add_eloop [OF goodD(1) [OF g1] lp1 la1 own1 ad]
    have w': "w' = ev_eloop_unref a w2"
      using new n Inr ad by (auto simp: ev_eloop_new_eloop_def split: option.splits)
    have "good ({}, {}) w2 (ev_eloop_unref a w2)"
    proof (cases "r2 = ok")
      case True
      let ?la = "la\<lparr>el_ref := Suc (el_ref la)\<rparr>"
      have "card (bound_set (w_fds w1) a) = 0" using a(4) by (simp add: needed_def)
      then have "needed (w_fds w2) a ?la < el_ref ?la"
        using add(3) [OF True ne] a(3) by (simp add: needed_def)
      then show ?thesis
        using add(3) [OF True ne] by (intro good_unref [OF goodD(1) [OF add(1)], where lp = ?la]) auto
    next
      case False
      then show ?thesis
        using add(2) own1 la1 by (intro good_unref [OF goodD(1) [OF add(1)], where lp = la]) auto
    qed
    then show ?thesis using g1 add(1) w' by (meson good_trans)
  qed
qed

section \<open>Shared signals\<close>

lemma put_sig_simps [simp]:
  "w_fds (put_sig t v w) = w_fds w" "w_loops (put_sig t v w) = w_loops w"
  "w_timers (put_sig t v w) = w_timers w" "w_counters (put_sig t v w) = w_counters w"
  "w_sigs (put_sig t v w) = (w_sigs w)(t := v)" "h_hooks (put_sig t v w) = h_hooks w"
  "h_next (put_sig t v w) = h_next w" "k_epoll (put_sig t v w) = k_epoll w"
  "k_next (put_sig t v w) = k_next w" "h_crash (put_sig t v w) = h_crash w"
  "w_trace (put_sig t v w) = w_trace w"
  by (simp_all add: put_sig_def)

text \<open>A loop whose list of signals changes.\<close>

lemma hooks_ownedD:
  assumes "hooks_owned X H L S"
  shows hooks_sig_loop: "S s = Some sg \<Longrightarrow> L l = Some lp \<Longrightarrow> sg_hook sg \<notin> set (hooks_of lp)"
    and hooks_sig_sig: "S s = Some sg \<Longrightarrow> S s' = Some sg' \<Longrightarrow> sg_hook sg = sg_hook sg' \<Longrightarrow> s = s'"
    and hooks_sig_some: "S s = Some sg \<Longrightarrow> s \<notin> X \<Longrightarrow> live H (sg_hook sg)"
  using assms unfolding hooks_owned_def by blast+

lemma loops_ok_sigs:
  assumes ok: "loops_ok F L" and lp: "L l = Some lp"
  shows "loops_ok F (L(l \<mapsto> lp\<lparr>el_sigs := ss\<rparr>))"
proof -
  have "needed F l (lp\<lparr>el_sigs := ss\<rparr>) = needed F l lp" by (simp add: needed_def)
  then show ?thesis using ok lp unfolding loops_ok_def by simp
qed

lemma parts_sigs:
  assumes lp: "L l = Some lp"
  shows "fds_ok A F L T C S \<Longrightarrow> fds_ok A F (L(l \<mapsto> lp\<lparr>el_sigs := ss\<rparr>)) T C S"
    and "polls_ok F L E k \<Longrightarrow> polls_ok F (L(l \<mapsto> lp\<lparr>el_sigs := ss\<rparr>)) E k"
    and "hooks_owned B H L S \<Longrightarrow> hooks_owned B H (L(l \<mapsto> lp\<lparr>el_sigs := ss\<rparr>)) S"
proof -
  let ?L = "L(l \<mapsto> lp\<lparr>el_sigs := ss\<rparr>)"
  have o: "owned L T C S f fd \<Longrightarrow> owned ?L T C S f fd" for f fd
    using lp by (cases "fd_cb fd") (auto simp: owned_def split: fd_fn.splits)
  then show "fds_ok A F L T C S \<Longrightarrow> fds_ok A F ?L T C S" unfolding fds_ok_def by auto
  show "polls_ok F L E k \<Longrightarrow> polls_ok F ?L E k"
    by (erule polls_ok_sub) (use lp in \<open>auto split: if_splits\<close>)
  show "hooks_owned B H L S \<Longrightarrow> hooks_owned B H ?L S"
    by (erule hooks_owned_sub) (use lp in \<open>auto simp: hooks_of_def split: if_splits\<close>)
qed

lemma rely_sigs:
  assumes "w_loops w l = Some lp"
  shows "ev_rely w (put_loop l (Some (lp\<lparr>el_sigs := ss\<rparr>)) w)"
  by (rule rely_put_loop [OF assms]) (simp add: hooks_of_def cur_ok_def)

lemma good_unlink_sig:
  assumes inv: "einv w" and sg: "w_sigs w s = Some sg" and lp: "w_loops w (sg_list sg) = Some lp"
  shows "good ({}, {s}) w (put_loop (sg_list sg)
           (Some (lp\<lparr>el_sigs := filter (\<lambda>x. x \<noteq> s) (el_sigs lp)\<rparr>)) w)"
proof -
  let ?l = "sg_list sg" and ?ss = "filter (\<lambda>x. x \<noteq> s) (el_sigs lp)"
  let ?L = "(w_loops w)(?l \<mapsto> lp\<lparr>el_sigs := ?ss\<rparr>)"
  note so = einv_sigs [OF inv, unfolded snd_conv]
  have "sigs_ok {s} (w_fds w) ?L (w_sigs w)"
    unfolding sigs_ok_def
  proof (intro conjI allI impI)
    fix u ug assume u: "w_sigs w u = Some ug" "u \<notin> {s}"
    then show "\<exists>fd. w_fds w (sg_fd ug) = Some fd \<and> fd_cb fd = Some Fn_signal \<and> fd_data fd = u \<and>
        fd_loop fd = Some (sg_list ug)"
      using so unfolding sigs_ok_def by simp
    obtain a where a: "w_loops w (sg_list ug) = Some a" "u \<in> set (el_sigs a)"
      using so u(1) unfolding sigs_ok_def by blast
    then show "\<exists>a. ?L (sg_list ug) = Some a \<and> u \<in> set (el_sigs a)"
      using lp u(2) by (cases "sg_list ug = ?l") auto
  next
    fix k a assume a: "?L k = Some a"
    show "\<forall>u \<in> set (el_sigs a). u \<notin> {s} \<and> (\<exists>ug. w_sigs w u = Some ug \<and> sg_list ug = k)"
    proof (cases "k = ?l")
      case True
      then have "el_sigs a = ?ss" using a by auto
      then show ?thesis using so lp True unfolding sigs_ok_def by auto
    next
      case False
      then have b: "w_loops w k = Some a" using a by simp
      then have "\<forall>u \<in> set (el_sigs a). \<exists>ug. w_sigs w u = Some ug \<and> sg_list ug = k"
        using so unfolding sigs_ok_def by blast
      then show ?thesis using sg False by fastforce
    qed
  qed
  moreover have "hooks_owned {s} (h_hooks w) (w_loops w) (w_sigs w)"
    using einv_owned [OF inv] by (simp add: hooks_owned_def)
  ultimately have "einv_but ({}, {s}) (put_loop ?l (Some (lp\<lparr>el_sigs := ?ss\<rparr>)) w)"
    using inv parts_sigs [where L = "w_loops w", OF lp] loops_ok_sigs [OF einv_loops [OF inv] lp]
      below_upd [OF einv_below(3) [OF inv], of ?l] lp
    by (simp add: einv_but_def)
  then show ?thesis using rely_sigs [OF lp] by (simp add: good_def)
qed

lemma good_del_sig:
  assumes inv: "einv_but ({}, {s}) w" and sg: "w_sigs w s = Some sg" and fd: "w_fds w (sg_fd sg) = None"
  shows "good ({}, {}) w (put_sig s None w)"
proof -
  let ?S = "(w_sigs w)(s := None)"
  have "fds_ok {} (w_fds w) (w_loops w) (w_timers w) (w_counters w) ?S"
    unfolding fds_ok_def
  proof (intro allI impI conjI)
    fix f gd l assume f: "w_fds w f = Some gd"
    show "w_loops w l \<noteq> None" if "fd_loop gd = Some l"
      using einv_fds [OF inv] f that unfolding fds_ok_def by blast
    have "owned (w_loops w) (w_timers w) (w_counters w) (w_sigs w) f gd"
      using fd_ok [OF inv f] by simp
    then show "owned (w_loops w) (w_timers w) (w_counters w) ?S f gd"
      using f fd sg by (cases "fd_cb gd") (auto simp: owned_def split: fd_fn.splits)
  qed
  moreover have "sigs_ok {} (w_fds w) (w_loops w) ?S"
    using einv_sigs [OF inv] unfolding sigs_ok_def by auto
  moreover have "hooks_owned {} (h_hooks w) (w_loops w) ?S"
    using einv_owned [OF inv] unfolding hooks_owned_def by auto
  moreover have "below (h_next w) ?S" using einv_below(6) [OF inv] by (simp add: below_def)
  ultimately have "einv (put_sig s None w)" using inv by (simp add: einv_but_def)
  then show ?thesis by (simp add: good_def ev_rely_def)
qed

lemma good_signal_free:
  assumes inv: "einv w" and sg: "w_sigs w s = Some sg"
  shows "good ({}, {}) w (signal_free s w)"
proof -
  let ?l = "sg_list sg" and ?f = "sg_fd sg"
  note so = einv_sigs [OF inv, unfolded snd_conv]
  obtain fd where fd: "w_fds w ?f = Some fd" "fd_cb fd = Some Fn_signal" "fd_data fd = s" "fd_loop fd = Some ?l"
    using so sg unfolding sigs_ok_def by blast
  obtain lp where lp: "w_loops w ?l = Some lp" using so sg unfolding sigs_ok_def by blast
  let ?lp = "lp\<lparr>el_sigs := filter (\<lambda>x. x \<noteq> s) (el_sigs lp)\<rparr>"
  let ?w1 = "put_loop ?l (Some ?lp) w"
  let ?w2 = "ev_eloop_rm_fd ?f ?w1"
  let ?w3 = "sys_close (fd_fd fd) ?w2"
  let ?w4 = "shl_hook_free (sg_hook sg) ?w3"
  have g1: "good ({}, {s}) w ?w1" by (rule good_unlink_sig [OF inv sg lp])
  note i1 = goodD(1) [OF g1]
  have fd1: "w_fds ?w1 ?f = Some fd" and lp1: "w_loops ?w1 ?l = Some ?lp" using fd by simp_all
  have sig: "fd_cb fd = Some Fn_signal \<Longrightarrow> fd_data fd \<in> {s}" using fd by simp
  have g2: "good ({}, {s}) ?w1 ?w2" by (rule good_rm [OF i1 fd1 sig])
  have ne: "?f \<noteq> el_fd ?lp" using loops_okD [OF einv_loops [OF i1] lp1] fd1 fd(2) by fastforce
  have ref: "fd_ref fd = 1" using fd_ok [OF inv fd(1)] fd(2) by (simp add: owned_def)
  have f2: "w_fds ?w2 ?f = None"
    using rm_objects(5) [OF i1 fd1 fd(4) lp1 sig ne] ref by (simp add: unbound_fd_def)
  have s2: "w_sigs ?w2 = w_sigs w" using rm_objects(3) [OF i1 fd1 fd(4) lp1 sig] by simp
  have hk: "h_hooks w (sg_hook sg) \<noteq> None" "sg_hook sg \<notin> set (hooks_of ?lp)"
    using live_some [OF hooks_sig_some [OF einv_owned [OF inv] sg]] hooks_sig_loop [OF einv_owned [OF inv] sg lp]
    by (simp_all add: hooks_of_def)
  have h2: "h_hooks ?w2 (sg_hook sg) = h_hooks w (sg_hook sg)"
    using rm_more(2) [OF i1 fd1 fd(4) lp1 sig hk(2)] by simp
  have g3: "good ({}, {s}) ?w2 ?w3" by (rule quiet_good [OF goodD(1) [OF g2] sys_close_quiet])
  note i3 = goodD(1) [OF g3]
  have own3: "hooks_owned {s} (h_hooks ?w2) (w_loops ?w2) (w_sigs ?w2)"
    using einv_owned [OF goodD(1) [OF g2]] by simp
  have g4: "good ({}, {s}) ?w3 ?w4"
  proof (rule good_hook_free [OF i3])
    show "h_hooks ?w3 (sg_hook sg) \<noteq> None" using h2 hk(1) by simp
    have sg2: "w_sigs ?w2 s = Some sg" using sg s2 by simp
    show "sg_hook sg \<notin> set (hooks_of a)" if "w_loops ?w3 k = Some a" for k a
      using hooks_sig_loop [OF own3 sg2] that by simp
    show "sg_hook ug \<noteq> sg_hook sg" if "w_sigs ?w3 u = Some ug" "u \<notin> snd ({}, {s})" for u ug
      using hooks_sig_sig [OF own3 sg2, of u ug] that by auto
  qed
  have "good ({}, {}) ?w4 (put_sig s None ?w4)"
    by (rule good_del_sig [OF goodD(1) [OF g4], where sg = sg]) (simp_all add: s2 sg f2)
  then have "good ({}, {}) w (put_sig s None ?w4)" using g1 g2 g3 g4 by (meson good_trans)
  moreover have "signal_free s w = put_sig s None ?w4"
    using sg lp fd(1) by (simp add: signal_free_def signal_free_with_def ev_eloop_rm_fd_def Let_def)
  ultimately show ?thesis by simp
qed

lemma find_sig_Some: "find_sig m n ss = Some s \<Longrightarrow> s \<in> set ss \<and> (\<exists>sg. m s = Some sg)"
  by (induction ss) (auto split: option.splits if_splits)

lemma good_unregister_signal:
  assumes inv: "einv w" and lp: "w_loops w l = Some lp"
  shows "good ({}, {}) w (ev_eloop_unregister_signal_cb l n cb d w)"
proof (cases "find_sig (w_sigs w) n (el_sigs lp)")
  case None
  then show ?thesis
    using lp good_refl [OF inv] by (simp add: ev_eloop_unregister_signal_cb_def unregister_signal_with_def)
next
  case (Some s)
  obtain sg where sg: "w_sigs w s = Some sg" using find_sig_Some [OF Some] by blast
  obtain hk where hk: "h_hooks w (sg_hook sg) = Some hk" using sig_hook [OF inv sg] by auto
  let ?w1 = "shl_hook_rm (sg_hook sg) cb d w"
  have g1: "good ({}, {}) w ?w1" by (rule good_hook_rm [OF inv hk])
  have "w_sigs ?w1 s = Some sg" using hk sg by simp
  then have "good ({}, {}) w (signal_free s ?w1)"
    using good_signal_free [OF goodD(1) [OF g1]] g1 by (meson good_trans)
  then show ?thesis
    using lp Some sg g1
    by (simp add: ev_eloop_unregister_signal_cb_def unregister_signal_with_def Let_def signal_free_def)
qed

lemma spare_sub:
  assumes "spare hs w" and "h_hooks w' = h_hooks w" and "w_sigs w' = w_sigs w"
    and L: "\<And>k a'. w_loops w' k = Some a' \<Longrightarrow> \<exists>a. w_loops w k = Some a \<and> hooks_of a' = hooks_of a"
  shows "spare hs w'"
proof -
  have "h \<notin> set (hooks_of a')" if "h \<in> set hs" "w_loops w' k = Some a'" for h k a'
    using L [OF that(2)] assms(1) that(1) unfolding spare_def by fastforce
  then show ?thesis using assms(1-3) by (simp add: spare_def)
qed

lemma good_new_sig_obj:
  assumes inv: "einv_but ({f}, {}) w" and lp: "w_loops w l = Some lp"
    and fd: "w_fds w f = Some fd" "fd_cb fd = Some Fn_signal" "fd_data fd = s" "fd_ref fd = 1"
      "fd_loop fd = Some l"
    and s: "w_sigs w s = None" "s < h_next w" and sp: "spare [h] w"
    and sg: "sg_list sg = l" "sg_fd sg = f" "sg_hook sg = h"
  shows "good ({}, {}) w (put_sig s (Some sg) (put_loop l (Some (lp\<lparr>el_sigs := s # el_sigs lp\<rparr>)) w))"
proof -
  let ?lp = "lp\<lparr>el_sigs := s # el_sigs lp\<rparr>"
  let ?L = "(w_loops w)(l \<mapsto> ?lp)" and ?S = "(w_sigs w)(s \<mapsto> sg)"
  have "fds_ok {f} (w_fds w) ?L (w_timers w) (w_counters w) (w_sigs w)"
    using parts_sigs(1) [where L = "w_loops w", OF lp] einv_fds [OF inv] by simp
  then have "fds_ok {} (w_fds w) ?L (w_timers w) (w_counters w) ?S"
    unfolding fds_ok_def
  proof (intro allI impI conjI)
    fix g gd k
    assume all: "\<forall>g gd. w_fds w g = Some gd \<longrightarrow> (\<forall>l. fd_loop gd = Some l \<longrightarrow> ?L l \<noteq> None) \<and>
        (g \<notin> {f} \<longrightarrow> owned ?L (w_timers w) (w_counters w) (w_sigs w) g gd)"
      and g: "w_fds w g = Some gd"
    show "?L k \<noteq> None" if "fd_loop gd = Some k" using all g that by blast
    show "owned ?L (w_timers w) (w_counters w) ?S g gd"
    proof (cases "g = f")
      case True
      then show ?thesis using g fd sg by (simp add: owned_def bnd_def)
    next
      case False
      then have "owned ?L (w_timers w) (w_counters w) (w_sigs w) g gd" using all g by blast
      then show ?thesis using s(1) by (cases "fd_cb gd") (auto simp: owned_def split: fd_fn.splits)
    qed
  qed
  moreover have "sigs_ok {} (w_fds w) ?L ?S"
  proof -
    note so = einv_sigs [OF inv, unfolded snd_conv]
    show ?thesis
      unfolding sigs_ok_def
    proof (intro conjI allI impI)
      fix u ug assume u: "?S u = Some ug" "u \<notin> {}"
      have "(u = s \<and> ug = sg) \<or> w_sigs w u = Some ug" using u(1) by (auto split: if_splits)
      then show "\<exists>fd. w_fds w (sg_fd ug) = Some fd \<and> fd_cb fd = Some Fn_signal \<and> fd_data fd = u \<and>
          fd_loop fd = Some (sg_list ug)"
        using fd sg so unfolding sigs_ok_def by auto
      show "\<exists>a. ?L (sg_list ug) = Some a \<and> u \<in> set (el_sigs a)"
      proof (cases "u = s")
        case True
        then show ?thesis using u sg by auto
      next
        case False
        then have "w_sigs w u = Some ug" using u by simp
        then obtain a where "w_loops w (sg_list ug) = Some a" "u \<in> set (el_sigs a)"
          using so unfolding sigs_ok_def by blast
        then show ?thesis using lp by (cases "sg_list ug = l") auto
      qed
    next
      fix k a assume a: "?L k = Some a"
      show "\<forall>u \<in> set (el_sigs a). u \<notin> {} \<and> (\<exists>ug. ?S u = Some ug \<and> sg_list ug = k)"
      proof
        fix u assume u: "u \<in> set (el_sigs a)"
        show "u \<notin> {} \<and> (\<exists>ug. ?S u = Some ug \<and> sg_list ug = k)"
        proof (cases "k = l \<and> u = s")
          case True
          then show ?thesis using sg by simp
        next
          case False
          then obtain b where "w_loops w k = Some b" "u \<in> set (el_sigs b)"
            using a u lp by (auto split: if_splits)
          then obtain ug where "w_sigs w u = Some ug" "sg_list ug = k"
            using so unfolding sigs_ok_def by blast
          then show ?thesis using s(1) by auto
        qed
      qed
    qed
  qed
  moreover have "hooks_owned {} (h_hooks w) ?L ?S"
  proof -
    have ok: "hooks_owned {} (h_hooks w) ?L (w_sigs w)"
      using parts_sigs(3) [where L = "w_loops w", OF lp] einv_owned [OF inv] by simp
    have sp1: "live (h_hooks w) h" using sp by (simp add: spare_def)
    have "spare [h] (put_loop l (Some ?lp) w)"
      by (rule spare_sub [OF sp]) (use lp in \<open>auto simp: hooks_of_def split: if_splits\<close>)
    then have sp2: "h \<notin> set (hooks_of a)" if "?L k = Some a" for k a
      using that by (simp add: spare_def)
    have sp3: "sg_hook ug \<noteq> h" if "w_sigs w u = Some ug" for u ug
      using sp that by (auto simp: spare_def)
    show ?thesis
      unfolding hooks_owned_def
    proof (intro conjI allI impI)
      fix k a assume "?L k = Some a"
      then show "distinct (hooks_of a)" "\<forall>h \<in> set (hooks_of a). live (h_hooks w) h"
        using ok unfolding hooks_owned_def by blast+
    next
      fix u ug assume "?S u = Some ug" "u \<notin> {}"
      then show "live (h_hooks w) (sg_hook ug)"
        using hooks_sig_some [OF ok] sp1 sg by (auto split: if_splits)
    next
      fix k k' a a' g
      assume "?L k = Some a" "?L k' = Some a'" "g \<in> set (hooks_of a)" "g \<in> set (hooks_of a')"
      then show "k = k'" using ok unfolding hooks_owned_def by blast
    next
      fix u u' ug ug' assume u: "?S u = Some ug" "?S u' = Some ug'" "sg_hook ug = sg_hook ug'"
      show "u = u'"
      proof (cases "u = s \<or> u' = s")
        case True
        then show ?thesis using u sg sp3 by (auto split: if_splits)
      next
        case False
        then show ?thesis using u hooks_sig_sig [OF ok] by simp
      qed
    next
      fix u ug k a assume u: "?S u = Some ug" "?L k = Some a"
      show "sg_hook ug \<notin> set (hooks_of a)"
      proof (cases "u = s")
        case True
        then show ?thesis using u sg sp2 by auto
      next
        case False
        then show ?thesis using u hooks_sig_loop [OF ok] by simp
      qed
    qed
  qed
  moreover have "below (h_next w) ?S" using einv_below(6) [OF inv] s by (simp add: below_def)
  moreover have "below (h_next w) ?L"
    by (rule below_upd [OF einv_below(3) [OF inv]]) (simp add: lp)
  moreover have "polls_ok (w_fds w) ?L (k_epoll w) (k_next w)"
    by (rule parts_sigs(2) [where L = "w_loops w", OF lp einv_polls [OF inv]])
  ultimately have "einv (put_sig s (Some sg) (put_loop l (Some ?lp) w))"
    using inv loops_ok_sigs [OF einv_loops [OF inv] lp, of "s # el_sigs lp"] by (simp add: einv_but_def)
  moreover have "ev_rely w (put_sig s (Some sg) (put_loop l (Some ?lp) w))"
    using rely_sigs [OF lp, of "s # el_sigs lp"] by (simp add: ev_rely_def)
  ultimately show ?thesis by (simp add: good_def)
qed

lemma add_fd_mono: "ev_eloop_add_fd l f w = (r, w') \<Longrightarrow> h_next w \<le> h_next w'"
  by (auto simp: ev_eloop_add_fd_def ev_fd_ref_def ev_eloop_ref_def fd_epoll_add_def with_loop_def
      efault_def epoll_ctl_add_def ask_def crash_def Let_def
      split: option.splits if_splits prod.splits list.splits)

lemma fd_unref_mono: "h_next (ev_fd_unref f w) = h_next w"
  by (simp add: ev_fd_unref_def crash_def split: option.splits)

lemma new_fd_mono: "ev_eloop_new_fd l rfd m cb d w = (r, w') \<Longrightarrow> h_next w \<le> h_next w'"
  using add_fd_mono alloc_quiet
  by (fastforce simp: ev_eloop_new_fd_def ev_fd_new_def fd_unref_mono quiet_def
      split: if_splits prod.splits option.splits sum.splits)

lemma good_signal_new:
  assumes inv: "einv w" and lp: "w_loops w l = Some lp" and new: "signal_new l n w = (r, w')"
  shows "good ({}, {}) w w' \<and> (\<forall>e. r = Inl e \<longrightarrow> w_loops w' = w_loops w) \<and>
    (\<forall>s. r = Inr s \<longrightarrow> (\<exists>sg. w_sigs w' s = Some sg \<and> sg_list sg = l) \<and>
       (\<exists>lp'. w_loops w' l = Some lp' \<and> hooks_of lp' = hooks_of lp \<and> el_ref lp' = Suc (el_ref lp)))"
proof -
  obtain a1 w1 where s1: "alloc w = (a1, w1)" by (meson surj_pair)
  have m1: "made w [] w1" by (rule made_start [OF inv alloc_quiet [OF s1]])
  have g: "good ({}, {}) w v" if "made w hs v" for hs v using that by (simp add: made_def)
  have L: "w_loops v = w_loops w" if "made w hs v" for hs v using that by (simp add: made_def)
  note new1 = new [unfolded signal_new_def s1 prod.case]
  show ?thesis
  proof (cases a1)
    case None
    then show ?thesis using new1 g [OF m1] L [OF m1] by auto
  next
    case (Some s)
    have s: "s = h_next w" "h_next w1 = Suc s" using alloc_Some [of w s w1] s1 Some by auto
    then have fresh: "w_sigs w s = None" using einv_below(6) [OF inv] by (auto simp: below_def)
    obtain h2 w2 where s2: "shl_hook_new w1 = (h2, w2)" by (meson surj_pair)
    note m2 = made_hook [OF m1 s2] and new2 = new1 [unfolded Some option.case s2 prod.case]
    show ?thesis
    proof (cases h2)
      case (Inl e)
      then have "good ({}, {}) w w2" "w_loops w2 = w_loops w" using g [of "[]" w2] L [of "[]" w2] m2 by simp_all
      then show ?thesis using new2 Inl by auto
    next
      case (Inr h)
      have m2': "made w [h] w2" using m2 Inr by simp
      have err: "good ({}, {}) w (shl_hook_free h v)" if "made w [h] v" for v
        using made_free [OF that] by simp
      obtain o3 w3 where s3: "sys_open w2 = (o3, w3)" by (meson surj_pair)
      have m3: "made w [h] w3" by (rule made_quiet [OF m2' sys_open_quiet [OF s3]])
      note new3 = new2 [unfolded Inr sum.case s3 prod.case]
      show ?thesis
      proof (cases o3)
        case (Inl e)
        then show ?thesis using new3 err [OF m3] L [OF m3] by auto
      next
        case (Inr k)
        obtain f4 w4 where s4: "ev_eloop_new_fd l (int k) EV_READABLE (Some Fn_signal) s w3 = (f4, w4)"
          by (meson surj_pair)
        note new4 = new3 [unfolded Inr sum.case s4 prod.case]
        have inv3: "einv w3" using goodD(1) [OF g [OF m3]] .
        have L3: "w_loops w3 = w_loops w" "w_sigs w3 = w_sigs w" using m3 by (simp_all add: made_def)
        have lp3: "w_loops w3 l = Some lp" using lp L3 by simp
        note n4 = good_eloop_new_fd [OF inv3 lp3 _ s4]
        show ?thesis
        proof (cases f4)
          case (Inl e)
          then have 4: "good ({}, {}) w3 w4" "w_sigs w4 = w_sigs w3" "w_loops w4 = w_loops w3"
            "h_hooks w4 = h_hooks w3"
            using n4 fresh L3 by simp_all
          then have gw4: "good ({}, {}) w w4" using g [OF m3] by (meson good_trans)
          have gc: "good ({}, {}) w4 (sys_close k w4)"
            by (rule quiet_good [OF goodD(1) [OF gw4] sys_close_quiet])
          have "spare [h] w3" using m3 by (simp add: made_def)
          then have sp: "spare [h] (sys_close k w4)" by (rule spare_same) (simp_all add: 4)
          have "good ({}, {}) (sys_close k w4) (shl_hook_free h (sys_close k w4))"
            using good_free_spare [OF goodD(1) [OF gc] sp] by simp
          then have "good ({}, {}) w (shl_hook_free h (sys_close k w4))"
            using gw4 gc by (meson good_trans)
          then show ?thesis using new4 Inl 4(3) L3 by auto
        next
          case (Inr f)
          let ?lp = "lp\<lparr>el_ref := Suc (el_ref lp)\<rparr>"
          let ?sg = "\<lparr>sg_list = l, sg_fd = f, sg_signum = n, sg_hook = h\<rparr>"
          from n4 Inr fresh L3 have 4: "good ({f}, {}) w3 w4" "w_sigs w4 = w_sigs w3"
            "w_loops w4 = (w_loops w3)(l \<mapsto> ?lp)" "h_hooks w4 = h_hooks w3"
            "w_fds w4 = (w_fds w3)(f \<mapsto> \<lparr>fd_ref = 1, fd_fd = nat (int k), fd_mask = EV_READABLE,
               fd_cb = Some Fn_signal, fd_data = s, fd_enabled = True, fd_loop = Some l\<rparr>)"
            by simp_all
          have i4: "einv_but ({f}, {}) w4" by (rule goodD(1) [OF 4(1)])
          have "s < h_next w2" using s(2) hook_new_mono [OF s2] by simp
          moreover have "h_next w2 \<le> h_next w3" using sys_open_quiet [OF s3] by (simp add: quiet_def)
          moreover have "h_next w3 \<le> h_next w4"
            using new_fd_mono [OF s4] .
          ultimately have lt: "s < h_next w4" by linarith
          have sp: "spare [h] w4"
          proof -
            have "spare [h] w3" using m3 by (simp add: made_def)
            then show ?thesis
              by (rule spare_sub) (use 4(2-4) lp3 in \<open>auto simp: hooks_of_def split: if_splits\<close>)
          qed
          have "good ({}, {}) w4 (put_sig s (Some ?sg)
              (put_loop l (Some (?lp\<lparr>el_sigs := s # el_sigs ?lp\<rparr>)) w4))"
            by (rule good_new_sig_obj [OF i4, where h = h and
                  fd = "\<lparr>fd_ref = 1, fd_fd = nat (int k), fd_mask = EV_READABLE,
               fd_cb = Some Fn_signal, fd_data = s, fd_enabled = True, fd_loop = Some l\<rparr>"])
               (use 4 fresh L3 lt sp in simp_all)
          then have "good ({}, {}) w (put_sig s (Some ?sg)
              (put_loop l (Some (?lp\<lparr>el_sigs := s # el_sigs ?lp\<rparr>)) w4))"
            using g [OF m3] 4(1) by (meson good_trans)
          then show ?thesis using new4 Inr 4(3) by (auto simp: hooks_of_def)
        qed
      qed
    qed
  qed
qed

text \<open>Taking a signal down leaves its loop when that has another reference.\<close>

lemma bound_card_pos:
  assumes "einv_but X w" and "w_fds w f = Some fd" and "fd_loop fd = Some l"
  shows "0 < card (bound_set (w_fds w) l)"
  using bound_set_finite [OF einv_below(2) [OF assms(1)], of l] bound_set_iff [of "w_fds w" f fd l] assms(2,3)
  by (auto simp: card_gt_0_iff)

lemma sigs_okD:
  assumes "sigs_ok X F L S" and "S s = Some sg" and "s \<notin> X"
  shows "\<exists>fd. F (sg_fd sg) = Some fd \<and> fd_cb fd = Some Fn_signal \<and> fd_data fd = s \<and>
      fd_loop fd = Some (sg_list sg)"
    and "\<exists>lp. L (sg_list sg) = Some lp \<and> s \<in> set (el_sigs lp)"
  using assms unfolding sigs_ok_def by blast+

lemma signal_free_keeps:
  assumes inv: "einv w" and sg: "w_sigs w s = Some sg" and lp: "w_loops w (sg_list sg) = Some lp"
    and two: "1 < el_ref lp"
  shows "\<exists>lp'. w_loops (signal_free s w) (sg_list sg) = Some lp' \<and> hooks_of lp' = hooks_of lp"
proof -
  let ?l = "sg_list sg" and ?f = "sg_fd sg"
  obtain fd where fd: "w_fds w ?f = Some fd" "fd_cb fd = Some Fn_signal" "fd_data fd = s" "fd_loop fd = Some ?l"
    using sigs_okD(1) [OF einv_sigs [OF inv] sg] by auto
  have ref: "0 < fd_ref fd"
    using fd_ok [OF inv fd(1)] fd(2) by (simp add: owned_def)
  let ?lp = "lp\<lparr>el_sigs := filter (\<lambda>x. x \<noteq> s) (el_sigs lp)\<rparr>"
  let ?w1 = "put_loop ?l (Some ?lp) w"
  let ?w2 = "put_fd ?f (unbound_fd fd) (put_loop ?l (Some (flushed ?f ?lp)) (leave_epoll ?lp fd ?w1))"
  have "ev_eloop_rm_fd ?f ?w1 = ev_eloop_unref ?l ?w2"
    unfolding ev_eloop_rm_fd_def by (rule rm_fd_eq) (use fd ref in simp_all)
  also have "\<dots> = put_loop ?l (Some ((flushed ?f ?lp)\<lparr>el_ref := el_ref lp - 1\<rparr>)) ?w2"
    using two by (simp add: ev_eloop_unref_def flushed_same)
  finally have rm: "w_loops (ev_eloop_rm_fd ?f ?w1) ?l = Some ((flushed ?f ?lp)\<lparr>el_ref := el_ref lp - 1\<rparr>)"
    by simp
  have "w_loops (signal_free s w) ?l = w_loops (ev_eloop_rm_fd ?f ?w1) ?l"
    using sg lp fd(1) by (simp add: signal_free_def signal_free_with_def ev_eloop_rm_fd_def Let_def)
  then show ?thesis using rm by (simp add: flushed_def hooks_of_def)
qed

definition held :: "nat \<Rightarrow> world \<Rightarrow> bool" where
  "held l w = (\<exists>lp. w_loops w l = Some lp \<and> (el_dispatching lp \<or> needed (w_fds w) l lp < el_ref lp))"

lemma held_ref:
  assumes inv: "einv w" and "held l w" and lp: "w_loops w l = Some lp"
  shows "card (bound_set (w_fds w) l) < el_ref lp"
proof -
  have "needed (w_fds w) l lp \<le> el_ref lp"
    using einv_loops [OF inv] lp unfolding loops_ok_def by blast
  moreover have "el_dispatching lp \<or> needed (w_fds w) l lp < el_ref lp"
    using assms(2) lp by (simp add: held_def)
  ultimately show ?thesis by (auto simp: needed_def split: if_splits)
qed

lemma good_register_signal:
  assumes inv: "einv w" and lp: "w_loops w l = Some lp"
    and reg: "ev_eloop_register_signal_cb l n cb d w = (r, w')"
  shows "good ({}, {}) w w'"
    and "held l w \<Longrightarrow> \<exists>lp'. w_loops w' l = Some lp' \<and> hooks_of lp' = hooks_of lp"
proof -
  have "good ({}, {}) w w' \<and>
    (held l w \<longrightarrow> (\<exists>lp'. w_loops w' l = Some lp' \<and> hooks_of lp' = hooks_of lp))"
  proof (cases "n < 0 \<or> cb = None")
    case True
    then have "w' = w" using reg by (auto simp: ev_eloop_register_signal_cb_def)
    then show ?thesis using good_refl [OF inv] lp by simp
  next
    case False
    define r1w1 where "r1w1 = (case find_sig (w_sigs w) (nat n) (el_sigs lp) of
        Some s \<Rightarrow> (Inr s, w) | None \<Rightarrow> signal_new l (nat n) w)"
    obtain r1 w1 where r1: "r1w1 = (r1, w1)" by (meson surj_pair)
    have reg1: "(case r1 of Inl e \<Rightarrow> (fails e, w1)
        | Inr s \<Rightarrow> (case w_sigs w1 s of
              None \<Rightarrow> (ok, crash w1)
            | Some sg \<Rightarrow> (case shl_hook_add (sg_hook sg) cb d False w1 of
                 (Some e, w) \<Rightarrow> (fails e, signal_free s w) | (None, w) \<Rightarrow> (ok, w)))) = (r, w')"
      using reg False lp r1 r1w1_def
      by (simp add: ev_eloop_register_signal_cb_def split: option.splits)
    show ?thesis
    proof (cases r1)
      case (Inl e)
      then have "find_sig (w_sigs w) (nat n) (el_sigs lp) = None" "signal_new l (nat n) w = (Inl e, w1)"
        using r1 r1w1_def by (simp_all split: option.splits)
      then show ?thesis using good_signal_new [OF inv lp] reg1 Inl lp by auto
    next
      case (Inr s)
      have 1: "good ({}, {}) w w1 \<and> (\<exists>sg lp1. w_sigs w1 s = Some sg \<and> sg_list sg = l \<and>
          w_loops w1 l = Some lp1 \<and> hooks_of lp1 = hooks_of lp \<and>
          (held l w \<longrightarrow> 1 < el_ref lp1))"
      proof (cases "find_sig (w_sigs w) (nat n) (el_sigs lp)")
        case None
        then have new: "signal_new l (nat n) w = (Inr s, w1)" using r1 r1w1_def Inr by simp
        have "0 < el_ref lp" using loops_okD [OF einv_loops [OF inv] lp] by metis
        then show ?thesis using good_signal_new [OF inv lp new] by auto
      next
        case (Some u)
        then have u: "u = s" "w1 = w" using r1 r1w1_def Inr by simp_all
        have "s \<in> set (el_sigs lp)" using find_sig_Some [OF Some] u by simp
        then obtain sg where sg: "w_sigs w s = Some sg" "sg_list sg = l"
          using einv_sigs [OF inv] lp unfolding sigs_ok_def by blast
        obtain fd where "w_fds w (sg_fd sg) = Some fd" "fd_loop fd = Some l"
          using sigs_okD(1) [OF einv_sigs [OF inv] sg(1)] sg(2) by auto
        then have "0 < card (bound_set (w_fds w) l)" by (rule bound_card_pos [OF inv])
        then have "held l w \<longrightarrow> 1 < el_ref lp" using held_ref [OF inv _ lp] by fastforce
        then show ?thesis using u sg lp good_refl [OF inv] by auto
      qed
      then obtain sg lp1 where sg: "w_sigs w1 s = Some sg" "sg_list sg = l" "w_loops w1 l = Some lp1"
        "hooks_of lp1 = hooks_of lp" "held l w \<longrightarrow> 1 < el_ref lp1" and g1: "good ({}, {}) w w1" by blast
      obtain hk where hk: "h_hooks w1 (sg_hook sg) = Some hk"
        using sig_hook [OF goodD(1) [OF g1] sg(1)] by auto
      obtain r2 w2 where a: "shl_hook_add (sg_hook sg) cb d False w1 = (r2, w2)" by (meson surj_pair)
      note add = good_hook_add [OF goodD(1) [OF g1] hk a]
      have g2: "good ({}, {}) w w2" using g1 add(1) by (meson good_trans)
      show ?thesis
      proof (cases r2)
        case None
        then have "w' = w2" using reg1 Inr sg(1) a by simp
        then show ?thesis using g2 add(2) sg by simp
      next
        case (Some e)
        then have w': "w' = signal_free s w2" using reg1 Inr sg(1) a by simp
        have sg2: "w_sigs w2 s = Some sg" and lp2: "w_loops w2 (sg_list sg) = Some lp1"
          using add(2) sg by simp_all
        have "good ({}, {}) w2 w'" using good_signal_free [OF goodD(1) [OF g2] sg2] w' by simp
        moreover have "\<exists>lp'. w_loops w' l = Some lp' \<and> hooks_of lp' = hooks_of lp" if "held l w"
          using signal_free_keeps [OF goodD(1) [OF g2] sg2 lp2] sg that w' by auto
        ultimately show ?thesis using g2 by (meson good_trans)
      qed
    qed
  qed
  then show "good ({}, {}) w w'"
    and "held l w \<Longrightarrow> \<exists>lp'. w_loops w' l = Some lp' \<and> hooks_of lp' = hooks_of lp" by blast+
qed

lemma hooks_in [simp]:
  "el_chlds lp \<in> set (hooks_of lp)" "el_idlers lp \<in> set (hooks_of lp)"
  "el_pres lp \<in> set (hooks_of lp)" "el_posts lp \<in> set (hooks_of lp)"
  by (simp_all add: hooks_of_def)

lemma hook_add_loops: "h_hooks w h = Some hk \<Longrightarrow> shl_hook_add h cb d os w = (r, w') \<Longrightarrow>
   w_fds w' = w_fds w \<and> w_loops w' = w_loops w"
  by (auto simp: shl_hook_add_def alloc_def ask_def put_hook_def
      split: option.splits list.splits answer.splits prod.splits)

lemma good_register_child:
  assumes inv: "einv w" and lp: "w_loops w l = Some lp" and held: "held l w"
    and reg: "ev_eloop_register_child_cb l cb d w = (r, w')"
  shows "good ({}, {}) w w'"
proof -
  obtain hk where hk: "h_hooks w (el_chlds lp) = Some hk"
    using loop_hook [OF inv lp] hooks_in(1) by blast
  obtain r1 w1 where a: "shl_hook_add (el_chlds lp) cb d False w = (r1, w1)" by (meson surj_pair)
  note add = good_hook_add [OF inv hk a] and same = hook_add_loops [OF hk a]
  have lp1: "w_loops w1 l = Some lp" using same lp by simp
  have held1: "held l w1" using held same by (simp add: held_def)
  obtain r2 w2 where s: "ev_eloop_register_signal_cb l (int SIGCHLD) (Some Hook_sig_child) l w1 = (r2, w2)"
    by (meson surj_pair)
  note sig = good_register_signal [OF goodD(1) [OF add(1)] lp1 s]
  obtain lp2 where lp2: "w_loops w2 l = Some lp2" "hooks_of lp2 = hooks_of lp" using sig(2) [OF held1] by blast
  obtain hk2 where hk2: "h_hooks w2 (el_chlds lp) = Some hk2"
    using loop_hook [OF goodD(1) [OF sig(1)] lp2(1), of "el_chlds lp"] lp2(2) by auto
  have g2: "good ({}, {}) w w2" using add(1) sig(1) by (meson good_trans)
  have g3: "good ({}, {}) w (shl_hook_rm (el_chlds lp) cb d w2)"
    using g2 good_hook_rm [OF goodD(1) [OF g2] hk2] by (meson good_trans)
  show ?thesis
    using reg lp a s add(1) g2 g3
    by (auto simp: ev_eloop_register_child_cb_def Let_def split: option.splits if_splits)
qed

lemma good_unregister_child:
  assumes inv: "einv w" and lp: "w_loops w l = Some lp"
  shows "good ({}, {}) w (ev_eloop_unregister_child_cb l cb d w)"
proof -
  obtain hk where hk: "h_hooks w (el_chlds lp) = Some hk"
    using loop_hook [OF inv lp] hooks_in(1) by blast
  let ?w1 = "shl_hook_rm (el_chlds lp) cb d w"
  have g1: "good ({}, {}) w ?w1" by (rule good_hook_rm [OF inv hk])
  have "w_loops ?w1 l = Some lp" using hk lp by simp
  then have "good ({}, {}) w (ev_eloop_unregister_signal_cb l SIGCHLD (Some Hook_sig_child) l ?w1)"
    using good_unregister_signal [OF goodD(1) [OF g1]] g1 by (meson good_trans)
  then show ?thesis
    using lp g1 good_refl [OF inv] by (simp add: ev_eloop_unregister_child_cb_def Let_def)
qed

lemma good_register_idle:
  assumes inv: "einv w" and lp: "w_loops w l = Some lp"
    and reg: "ev_eloop_register_idle_cb l cb d fl w = (r, w')"
  shows "good ({}, {}) w w'"
proof (cases "fl AND NOT EV_IDLE_ALL = 0")
  case False
  then have "w' = w" using reg lp by (simp add: ev_eloop_register_idle_cb_def)
  then show ?thesis using good_refl [OF inv] by simp
next
  case True
  let ?os = "fl AND EV_ONESHOT \<noteq> 0"
  obtain hk where hk: "h_hooks w (el_idlers lp) = Some hk"
    using loop_hook [OF inv lp] hooks_in(2) by blast
  obtain r1 w1 where a: "(if fl AND EV_SINGLE \<noteq> 0 then shl_hook_add_single (el_idlers lp) cb d ?os w
       else shl_hook_add (el_idlers lp) cb d ?os w) = (r1, w1)" by (meson surj_pair)
  have g1: "good ({}, {}) w w1"
    using good_hook_add_single [OF inv hk] good_hook_add(1) [OF inv hk] a by (auto split: if_splits)
  have "w_loops w1 l = Some lp"
  proof (cases "fl AND EV_SINGLE = 0")
    case True
    then show ?thesis using hook_add_loops [OF hk] a lp by auto
  next
    case False
    then show ?thesis
      using hook_add_loops [OF hk] a lp hk
      by (cases cb) (auto simp: shl_hook_add_single_def split: if_splits)
  qed
  then obtain hk1 where hk1: "h_hooks w1 (el_idlers lp) = Some hk1"
    using loop_hook [OF goodD(1) [OF g1]] hooks_in(2) by blast
  obtain r2 w2 where e: "write_eventfd (el_idle_fd lp) 1 w1 = (r2, w2)" by (meson surj_pair)
  have g2: "good ({}, {}) w w2"
    using g1 quiet_good [OF goodD(1) [OF g1] write_eventfd_quiet [OF e]] by (meson good_trans)
  have hk2: "h_hooks w2 (el_idlers lp) = Some hk1"
    using hk1 quiet_eqs(6) [OF write_eventfd_quiet [OF e]] by simp
  have g3: "good ({}, {}) w (shl_hook_rm (el_idlers lp) cb d w2)"
    using g2 good_hook_rm [OF goodD(1) [OF g2] hk2] by (meson good_trans)
  show ?thesis
    using reg lp True a e g1 g2 g3
    by (auto simp: ev_eloop_register_idle_cb_def Let_def split: option.splits if_splits)
qed

end
