(* ===== verification/Eloop_Api.thy ===== *)
theory Eloop_Api
  imports Eloop_Client
begin

text \<open>
  What a client of the event loop may do: the operations of \<open>src/shl/eloop.h\<close> with callbacks of its
  own, \<open>allowed\<close> the references that it must hold for them. Every allowed operation keeps the
  invariant and what the loops and hooks that are running rely on.
\<close>

section \<open>The operations of a client\<close>

datatype fd_op =
    Fd_new int u32 "nat option" nat
  | Fd_ref nat
  | Fd_unref nat
  | Fd_enable nat
  | Fd_disable nat
  | Fd_set_cb nat "nat option" nat
  | Fd_update nat u32
  | Add_fd nat nat
  | Rm_fd nat
  | New_fd nat int u32 "nat option" nat
  | Flush_fd nat nat

datatype loop_op =
    Loop_new
  | Loop_ref nat
  | Loop_unref nat
  | Loop_exit nat
  | Add_loop nat nat
  | Rm_loop nat
  | New_loop nat

datatype timer_op =
    Timer_new "(nat \<times> nat) option" "nat option" nat
  | Timer_ref nat
  | Timer_unref nat
  | Timer_enable nat
  | Timer_disable nat
  | Timer_set_cb nat "nat option" nat
  | Timer_update nat "(nat \<times> nat) option"
  | Timer_drain nat
  | Add_timer nat nat
  | Rm_timer nat
  | New_timer nat "(nat \<times> nat) option" "nat option" nat

datatype counter_op =
    Counter_new "nat option" nat
  | Counter_ref nat
  | Counter_unref nat
  | Counter_enable nat
  | Counter_disable nat
  | Counter_set_cb nat "nat option" nat
  | Counter_inc nat nat
  | Add_counter nat nat
  | Rm_counter nat
  | New_counter nat "nat option" nat

datatype hook_op =
    Register_signal nat int "nat option" nat
  | Unregister_signal nat nat "nat option" nat
  | Register_child nat "nat option" nat
  | Unregister_child nat "nat option" nat
  | Register_idle nat "nat option" nat u32
  | Unregister_idle nat "nat option" nat u32
  | Register_pre nat "nat option" nat
  | Unregister_pre nat "nat option" nat
  | Register_post nat "nat option" nat
  | Unregister_post nat "nat option" nat

datatype api =
    On_fd fd_op
  | On_loop loop_op
  | On_timer timer_op
  | On_counter counter_op
  | On_hook hook_op

definition user_fd :: "nat option \<Rightarrow> fd_fn option" where
  "user_fd cb = map_option Fn_user cb"

definition user_hook :: "nat option \<Rightarrow> hook_fn option" where
  "user_hook cb = map_option Hook_user cb"

primrec fd_step :: "fd_op \<Rightarrow> world \<Rightarrow> world" where
  "fd_step (Fd_new rfd m cb d) w = snd (ev_fd_new rfd m (user_fd cb) d w)"
| "fd_step (Fd_ref f) w = ev_fd_ref f w"
| "fd_step (Fd_unref f) w = ev_fd_unref f w"
| "fd_step (Fd_enable f) w = snd (ev_fd_enable f w)"
| "fd_step (Fd_disable f) w = ev_fd_disable f w"
| "fd_step (Fd_set_cb f cb d) w = ev_fd_set_cb_data f (user_fd cb) d w"
| "fd_step (Fd_update f m) w = snd (ev_fd_update f m w)"
| "fd_step (Add_fd l f) w = snd (ev_eloop_add_fd l f w)"
| "fd_step (Rm_fd f) w = ev_eloop_rm_fd f w"
| "fd_step (New_fd l rfd m cb d) w = snd (ev_eloop_new_fd l rfd m (user_fd cb) d w)"
| "fd_step (Flush_fd l f) w = ev_eloop_flush_fd l f w"

primrec loop_step :: "loop_op \<Rightarrow> world \<Rightarrow> world" where
  "loop_step Loop_new w = snd (ev_eloop_new w)"
| "loop_step (Loop_ref l) w = ev_eloop_ref l w"
| "loop_step (Loop_unref l) w = ev_eloop_unref l w"
| "loop_step (Loop_exit l) w = ev_eloop_exit l w"
| "loop_step (Add_loop l a) w = snd (ev_eloop_add_eloop l a w)"
| "loop_step (Rm_loop a) w = ev_eloop_rm_eloop a w"
| "loop_step (New_loop l) w = snd (ev_eloop_new_eloop l w)"

primrec timer_step :: "timer_op \<Rightarrow> world \<Rightarrow> world" where
  "timer_step (Timer_new spec cb d) w = snd (ev_timer_new spec cb d w)"
| "timer_step (Timer_ref t) w = ev_timer_ref t w"
| "timer_step (Timer_unref t) w = ev_timer_unref t w"
| "timer_step (Timer_enable t) w = snd (ev_timer_enable t w)"
| "timer_step (Timer_disable t) w = ev_timer_disable t w"
| "timer_step (Timer_set_cb t cb d) w = ev_timer_set_cb_data t cb d w"
| "timer_step (Timer_update t spec) w = snd (ev_timer_update t spec w)"
| "timer_step (Timer_drain t) w = snd (ev_timer_drain t w)"
| "timer_step (Add_timer l t) w = snd (ev_eloop_add_timer l t w)"
| "timer_step (Rm_timer t) w = ev_eloop_rm_timer t w"
| "timer_step (New_timer l spec cb d) w = snd (ev_eloop_new_timer l spec cb d w)"

primrec counter_step :: "counter_op \<Rightarrow> world \<Rightarrow> world" where
  "counter_step (Counter_new cb d) w = snd (ev_counter_new cb d w)"
| "counter_step (Counter_ref c) w = ev_counter_ref c w"
| "counter_step (Counter_unref c) w = ev_counter_unref c w"
| "counter_step (Counter_enable c) w = snd (ev_counter_enable c w)"
| "counter_step (Counter_disable c) w = ev_counter_disable c w"
| "counter_step (Counter_set_cb c cb d) w = ev_counter_set_cb_data c cb d w"
| "counter_step (Counter_inc c v) w = snd (ev_counter_inc c v w)"
| "counter_step (Add_counter l c) w = snd (ev_eloop_add_counter l c w)"
| "counter_step (Rm_counter c) w = ev_eloop_rm_counter c w"
| "counter_step (New_counter l cb d) w = snd (ev_eloop_new_counter l cb d w)"

primrec hook_step :: "hook_op \<Rightarrow> world \<Rightarrow> world" where
  "hook_step (Register_signal l n cb d) w = snd (ev_eloop_register_signal_cb l n (user_hook cb) d w)"
| "hook_step (Unregister_signal l n cb d) w = ev_eloop_unregister_signal_cb l n (user_hook cb) d w"
| "hook_step (Register_child l cb d) w = snd (ev_eloop_register_child_cb l (user_hook cb) d w)"
| "hook_step (Unregister_child l cb d) w = ev_eloop_unregister_child_cb l (user_hook cb) d w"
| "hook_step (Register_idle l cb d fl) w = snd (ev_eloop_register_idle_cb l (user_hook cb) d fl w)"
| "hook_step (Unregister_idle l cb d fl) w = ev_eloop_unregister_idle_cb l (user_hook cb) d fl w"
| "hook_step (Register_pre l cb d) w = snd (ev_eloop_register_pre_cb l (user_hook cb) d w)"
| "hook_step (Unregister_pre l cb d) w = ev_eloop_unregister_pre_cb l (user_hook cb) d w"
| "hook_step (Register_post l cb d) w = snd (ev_eloop_register_post_cb l (user_hook cb) d w)"
| "hook_step (Unregister_post l cb d) w = ev_eloop_unregister_post_cb l (user_hook cb) d w"

primrec api_step :: "api \<Rightarrow> world \<Rightarrow> world" where
  "api_step (On_fd x) w = fd_step x w"
| "api_step (On_loop x) w = loop_step x w"
| "api_step (On_timer x) w = timer_step x w"
| "api_step (On_counter x) w = counter_step x w"
| "api_step (On_hook x) w = hook_step x w"

text \<open>
  The objects that an operation names must be there, and a reference that it gives up must be the
  client's: one beyond those that the objects hold on each other. A source is the client's own
  when its callback is not one of \<open>eloop.c\<close>.
\<close>

definition client_fd :: "nat \<Rightarrow> world \<Rightarrow> bool" where
  "client_fd f w = (case w_fds w f of None \<Rightarrow> False | Some fd \<Rightarrow> client_fn (fd_cb fd))"

definition spare_fd :: "nat \<Rightarrow> world \<Rightarrow> bool" where
  "spare_fd f w = (case w_fds w f of None \<Rightarrow> False | Some fd \<Rightarrow> bnd fd < fd_ref fd)"

definition has_loop :: "nat \<Rightarrow> world \<Rightarrow> bool" where
  "has_loop l w = (w_loops w l \<noteq> None)"

definition spare_loop :: "nat \<Rightarrow> world \<Rightarrow> bool" where
  "spare_loop l w =
     (case w_loops w l of None \<Rightarrow> False | Some lp \<Rightarrow> needed (w_fds w) l lp < el_ref lp)"

text \<open>A loop that removes itself from the loop around it while it dispatches needs another reference.\<close>

definition removable :: "nat \<Rightarrow> world \<Rightarrow> bool" where
  "removable a w =
     (case w_loops w a of
        None \<Rightarrow> False
      | Some la \<Rightarrow>
          (case w_fds w (el_fd la) of
             None \<Rightarrow> False
           | Some fd \<Rightarrow> fd_loop fd \<noteq> Some a \<and> (el_dispatching la \<longrightarrow> spare_loop a w)))"

definition spare_timer :: "nat \<Rightarrow> world \<Rightarrow> bool" where
  "spare_timer t w =
     (case w_timers w t of
        None \<Rightarrow> False
      | Some tm \<Rightarrow> (case w_fds w (tm_efd tm) of None \<Rightarrow> False | Some fd \<Rightarrow> bnd fd < tm_ref tm))"

definition spare_counter :: "nat \<Rightarrow> world \<Rightarrow> bool" where
  "spare_counter c w =
     (case w_counters w c of
        None \<Rightarrow> False
      | Some ct \<Rightarrow> (case w_fds w (ct_efd ct) of None \<Rightarrow> False | Some fd \<Rightarrow> bnd fd < ct_ref ct))"

definition has_timer :: "nat \<Rightarrow> world \<Rightarrow> bool" where
  "has_timer t w = (w_timers w t \<noteq> None)"

definition has_counter :: "nat \<Rightarrow> world \<Rightarrow> bool" where
  "has_counter c w = (w_counters w c \<noteq> None)"

primrec fd_allowed :: "fd_op \<Rightarrow> world \<Rightarrow> bool" where
  "fd_allowed (Fd_new rfd m cb d) w = True"
| "fd_allowed (Fd_ref f) w = client_fd f w"
| "fd_allowed (Fd_unref f) w = (client_fd f w \<and> spare_fd f w)"
| "fd_allowed (Fd_enable f) w = client_fd f w"
| "fd_allowed (Fd_disable f) w = client_fd f w"
| "fd_allowed (Fd_set_cb f cb d) w = client_fd f w"
| "fd_allowed (Fd_update f m) w = client_fd f w"
| "fd_allowed (Add_fd l f) w = (has_loop l w \<and> client_fd f w)"
| "fd_allowed (Rm_fd f) w = client_fd f w"
| "fd_allowed (New_fd l rfd m cb d) w = has_loop l w"
| "fd_allowed (Flush_fd l f) w = has_loop l w"

primrec loop_allowed :: "loop_op \<Rightarrow> world \<Rightarrow> bool" where
  "loop_allowed Loop_new w = True"
| "loop_allowed (Loop_ref l) w = has_loop l w"
| "loop_allowed (Loop_unref l) w = spare_loop l w"
| "loop_allowed (Loop_exit l) w = has_loop l w"
| "loop_allowed (Add_loop l a) w = (has_loop l w \<and> spare_loop a w)"
| "loop_allowed (Rm_loop a) w = removable a w"
| "loop_allowed (New_loop l) w = has_loop l w"

primrec timer_allowed :: "timer_op \<Rightarrow> world \<Rightarrow> bool" where
  "timer_allowed (Timer_new spec cb d) w = True"
| "timer_allowed (Timer_ref t) w = has_timer t w"
| "timer_allowed (Timer_unref t) w = spare_timer t w"
| "timer_allowed (Timer_enable t) w = has_timer t w"
| "timer_allowed (Timer_disable t) w = has_timer t w"
| "timer_allowed (Timer_set_cb t cb d) w = has_timer t w"
| "timer_allowed (Timer_update t spec) w = has_timer t w"
| "timer_allowed (Timer_drain t) w = has_timer t w"
| "timer_allowed (Add_timer l t) w = (has_loop l w \<and> has_timer t w)"
| "timer_allowed (Rm_timer t) w = has_timer t w"
| "timer_allowed (New_timer l spec cb d) w = has_loop l w"

primrec counter_allowed :: "counter_op \<Rightarrow> world \<Rightarrow> bool" where
  "counter_allowed (Counter_new cb d) w = True"
| "counter_allowed (Counter_ref c) w = has_counter c w"
| "counter_allowed (Counter_unref c) w = spare_counter c w"
| "counter_allowed (Counter_enable c) w = has_counter c w"
| "counter_allowed (Counter_disable c) w = has_counter c w"
| "counter_allowed (Counter_set_cb c cb d) w = has_counter c w"
| "counter_allowed (Counter_inc c v) w = has_counter c w"
| "counter_allowed (Add_counter l c) w = (has_loop l w \<and> has_counter c w)"
| "counter_allowed (Rm_counter c) w = has_counter c w"
| "counter_allowed (New_counter l cb d) w = has_loop l w"

primrec hook_allowed :: "hook_op \<Rightarrow> world \<Rightarrow> bool" where
  "hook_allowed (Register_signal l n cb d) w = has_loop l w"
| "hook_allowed (Unregister_signal l n cb d) w = has_loop l w"
| "hook_allowed (Register_child l cb d) w = held l w"
| "hook_allowed (Unregister_child l cb d) w = has_loop l w"
| "hook_allowed (Register_idle l cb d fl) w = has_loop l w"
| "hook_allowed (Unregister_idle l cb d fl) w = has_loop l w"
| "hook_allowed (Register_pre l cb d) w = has_loop l w"
| "hook_allowed (Unregister_pre l cb d) w = has_loop l w"
| "hook_allowed (Register_post l cb d) w = has_loop l w"
| "hook_allowed (Unregister_post l cb d) w = has_loop l w"

primrec allowed :: "api \<Rightarrow> world \<Rightarrow> bool" where
  "allowed (On_fd x) w = fd_allowed x w"
| "allowed (On_loop x) w = loop_allowed x w"
| "allowed (On_timer x) w = timer_allowed x w"
| "allowed (On_counter x) w = counter_allowed x w"
| "allowed (On_hook x) w = hook_allowed x w"

section \<open>Every allowed operation keeps the invariant\<close>

lemma user_fd_client [simp]: "client_fn (user_fd cb)"
  by (cases cb) (simp_all add: user_fd_def)

text \<open>A new source of a client stands on its own.\<close>

lemma good_adopt:
  assumes "good ({f}, B) w w'" and "w_fds w' f = Some fd" and "client_fn (fd_cb fd)"
    and "0 < fd_ref fd" and "bnd fd \<le> fd_ref fd"
  shows "good ({}, B) w w'"
proof -
  have inv: "einv_but ({f}, B) w'" using assms(1) by (rule goodD)
  have "fds_ok {} (w_fds w') (w_loops w') (w_timers w') (w_counters w') (w_sigs w')"
    unfolding fds_ok_def
  proof (intro allI impI conjI)
    fix g gd assume g: "w_fds w' g = Some gd"
    show "w_loops w' l \<noteq> None" if "fd_loop gd = Some l" for l
      using einv_fds [OF inv] g that unfolding fds_ok_def by blast
    show "owned (w_loops w') (w_timers w') (w_counters w') (w_sigs w') g gd"
    proof (cases "g = f")
      case True
      then show ?thesis using assms(2-5) g by (simp add: owned_client)
    next
      case False
      then show ?thesis using fd_ok [OF inv g] by simp
    qed
  qed
  then have "einv_but ({}, B) w'" using inv by (simp add: einv_but_def)
  then show ?thesis using goodD(2) [OF assms(1)] by (simp add: good_def)
qed

lemma good_client_fd_new:
  assumes inv: "einv w"
  shows "good ({}, {}) w (snd (ev_fd_new rfd m (user_fd cb) d w))"
proof -
  obtain r w' where new: "ev_fd_new rfd m (user_fd cb) d w = (r, w')" by (meson surj_pair)
  show ?thesis
  proof (cases r)
    case (Inl e)
    then show ?thesis using good_fd_new [OF inv new] new by simp
  next
    case (Inr f)
    then show ?thesis
      using good_fd_new [OF inv new] new by (auto intro!: good_adopt [where f = f] simp: bnd_def)
  qed
qed

lemma good_client_new_fd:
  assumes inv: "einv w" and lp: "w_loops w l = Some lp"
  shows "good ({}, {}) w (snd (ev_eloop_new_fd l rfd m (user_fd cb) d w))"
proof -
  obtain r w' where new: "ev_eloop_new_fd l rfd m (user_fd cb) d w = (r, w')" by (meson surj_pair)
  have c: "client_fn (user_fd cb) \<or> user_fd cb = Some Fn_signal \<and> w_sigs w d = None" by simp
  show ?thesis
  proof (cases r)
    case (Inl e)
    then show ?thesis using good_eloop_new_fd [OF inv lp c new] new by simp
  next
    case (Inr f)
    then show ?thesis
      using good_eloop_new_fd [OF inv lp c new] new
      by (auto intro!: good_adopt [where f = f] simp: bnd_def)
  qed
qed

lemma good_client_add_fd:
  assumes inv: "einv w" and lp: "w_loops w l = Some lp" and f: "w_fds w f = Some fd"
    and c: "client_fn (fd_cb fd)"
  shows "good ({}, {}) w (snd (ev_eloop_add_fd l f w))"
proof -
  obtain r w' where add: "ev_eloop_add_fd l f w = (r, w')" by (meson surj_pair)
  have ref: "0 < fd_ref fd" using fd_ok [OF inv f] c by (simp add: owned_client)
  have "el_fd lc \<noteq> f" if "w_loops w k = Some lc" for k lc
    using loops_okD [OF einv_loops [OF inv] that] f c by (metis client_fn_simps(3) option.inject)
  then show ?thesis using good_add_fd [OF inv f ref lp _ add] add by auto
qed

text \<open>The requests of clients that only reach the kernel.\<close>

lemma efault_quiet: "quiet w (snd r) \<Longrightarrow> quiet w (snd (efault r))"
  by (auto simp: efault_def split: prod.splits option.splits)

lemma good_timer_update:
  assumes inv: "einv w" and tm: "w_timers w t = Some tm"
  shows "good ({}, {}) w (snd (ev_timer_update t spec w))"
proof -
  have "quiet w (snd (sys_settime (tm_fd tm) (spec_or_zero spec) w))"
    using sys_settime_quiet by (metis surjective_pairing)
  then show ?thesis
    using tm quiet_good [OF inv efault_quiet] by (simp add: ev_timer_update_def)
qed

lemma timer_drain_quiet: "w_timers w t = Some tm \<Longrightarrow> timer_drain t w = (r, w') \<Longrightarrow> quiet w w'"
  using sys_read_quiet
  by (auto simp: timer_drain_def split: prod.splits read_result.splits if_splits)

lemma good_counter_inc:
  assumes inv: "einv w" and ct: "w_counters w c = Some ct"
  shows "good ({}, {}) w (snd (ev_counter_inc c v w))"
proof -
  have "quiet w (snd (write_eventfd (ct_fd ct) v w))"
    using write_eventfd_quiet by (metis surjective_pairing)
  then show ?thesis using ct quiet_good [OF inv] by (simp add: ev_counter_inc_def)
qed

text \<open>The callbacks before and after the events.\<close>

lemma good_register_pre:
  assumes inv: "einv w" and lp: "w_loops w l = Some lp"
  shows "good ({}, {}) w (snd (ev_eloop_register_pre_cb l cb d w))"
    and "good ({}, {}) w (snd (ev_eloop_register_post_cb l cb d w))"
    and "good ({}, {}) w (ev_eloop_unregister_pre_cb l cb d w)"
    and "good ({}, {}) w (ev_eloop_unregister_post_cb l cb d w)"
proof -
  obtain hk where h: "h_hooks w (el_pres lp) = Some hk"
    using loop_hook [OF inv lp] hooks_in(3) by blast
  obtain hk' where h': "h_hooks w (el_posts lp) = Some hk'"
    using loop_hook [OF inv lp] hooks_in(4) by blast
  have "good ({}, {}) w (snd (shl_hook_add (el_pres lp) cb d False w))"
    using good_hook_add(1) [OF inv h] by (metis surjective_pairing)
  then show "good ({}, {}) w (snd (ev_eloop_register_pre_cb l cb d w))"
    using lp by (simp add: ev_eloop_register_pre_cb_def)
  have "good ({}, {}) w (snd (shl_hook_add (el_posts lp) cb d False w))"
    using good_hook_add(1) [OF inv h'] by (metis surjective_pairing)
  then show "good ({}, {}) w (snd (ev_eloop_register_post_cb l cb d w))"
    using lp by (simp add: ev_eloop_register_post_cb_def)
  show "good ({}, {}) w (ev_eloop_unregister_pre_cb l cb d w)"
    using lp good_hook_rm [OF inv h] by (simp add: ev_eloop_unregister_pre_cb_def)
  show "good ({}, {}) w (ev_eloop_unregister_post_cb l cb d w)"
    using lp good_hook_rm [OF inv h'] by (simp add: ev_eloop_unregister_post_cb_def)
qed

lemma good_unregister_idle:
  assumes inv: "einv w" and lp: "w_loops w l = Some lp"
  shows "good ({}, {}) w (ev_eloop_unregister_idle_cb l cb d fl w)"
proof -
  obtain hk where h: "h_hooks w (el_idlers lp) = Some hk"
    using loop_hook [OF inv lp] hooks_in(2) by blast
  show ?thesis
    using lp good_hook_rm [OF inv h] good_hook_rm_all [OF inv h] good_refl [OF inv]
    by (simp add: ev_eloop_unregister_idle_cb_def)
qed

text \<open>The steps that an operation takes, group by group.\<close>

lemma client_fdD: "client_fd f w \<Longrightarrow> \<exists>fd. w_fds w f = Some fd \<and> client_fn (fd_cb fd) \<and>
   fd_cb fd \<noteq> Some Fn_eloop \<and> fd_cb fd \<noteq> Some Fn_signal"
  by (auto simp: client_fd_def client_fn_def split: option.splits)

lemma has_loopD: "has_loop l w \<Longrightarrow> \<exists>lp. w_loops w l = Some lp"
  by (simp add: has_loop_def)

lemma spare_loopD: "spare_loop l w \<Longrightarrow> \<exists>lp. w_loops w l = Some lp \<and> needed (w_fds w) l lp < el_ref lp"
  by (simp add: spare_loop_def split: option.splits)

lemma fd_ops_good:
  assumes inv: "einv w" and a: "fd_allowed x w"
  shows "good ({}, {}) w (fd_step x w)"
proof (cases x)
  case (Fd_new rfd m cb d)
  then show ?thesis using good_client_fd_new [OF inv] by simp
next
  case (Fd_ref f)
  then obtain fd where f: "w_fds w f = Some fd" "client_fn (fd_cb fd)" using a by (auto dest!: client_fdD)
  show ?thesis using good_fd_ref [OF inv f] Fd_ref by simp
next
  case (Fd_unref f)
  then obtain fd where f: "w_fds w f = Some fd" "client_fn (fd_cb fd)" using a by (auto dest!: client_fdD)
  show ?thesis using good_fd_unref [OF inv f] Fd_unref a f by (simp add: spare_fd_def)
next
  case (Fd_enable f)
  then obtain fd where f: "w_fds w f = Some fd" using a by (auto dest!: client_fdD)
  show ?thesis using good_fd_enable [OF inv f _ surjective_pairing] Fd_enable by simp
next
  case (Fd_disable f)
  then obtain fd where f: "w_fds w f = Some fd" "fd_cb fd \<noteq> Some Fn_eloop" using a by (auto dest!: client_fdD)
  show ?thesis using good_fd_disable [OF inv f] Fd_disable by simp
next
  case (Fd_set_cb f cb d)
  then obtain fd where f: "w_fds w f = Some fd" "client_fn (fd_cb fd)" using a by (auto dest!: client_fdD)
  show ?thesis using good_fd_set_cb [OF inv f user_fd_client] Fd_set_cb by simp
next
  case (Fd_update f m)
  then obtain fd where f: "w_fds w f = Some fd" using a by (auto dest!: client_fdD)
  show ?thesis using good_fd_update [OF inv f _ surjective_pairing] Fd_update by simp
next
  case (Add_fd l f)
  then obtain fd where f: "w_fds w f = Some fd" "client_fn (fd_cb fd)" using a by (auto dest!: client_fdD)
  obtain lp where lp: "w_loops w l = Some lp" using a Add_fd by (auto dest!: has_loopD)
  show ?thesis using good_client_add_fd [OF inv lp f] Add_fd by simp
next
  case (Rm_fd f)
  then obtain fd where f: "w_fds w f = Some fd" "fd_cb fd \<noteq> Some Fn_signal" using a by (auto dest!: client_fdD)
  show ?thesis using good_rm [OF inv f(1)] f(2) Rm_fd by simp
next
  case (New_fd l rfd m cb d)
  then obtain lp where lp: "w_loops w l = Some lp" using a by (auto dest!: has_loopD)
  show ?thesis using good_client_new_fd [OF inv lp] New_fd by simp
next
  case (Flush_fd l f)
  then obtain lp where lp: "w_loops w l = Some lp" using a by (auto dest!: has_loopD)
  show ?thesis using good_flush [OF inv lp] Flush_fd by simp
qed

lemma loop_ops_good:
  assumes inv: "einv w" and a: "loop_allowed x w"
  shows "good ({}, {}) w (loop_step x w)"
proof (cases x)
  case Loop_new
  then show ?thesis using good_eloop_new [OF inv surjective_pairing] by simp
next
  case (Loop_ref l)
  then obtain lp where lp: "w_loops w l = Some lp" using a by (auto dest!: has_loopD)
  show ?thesis using good_loop_ref [OF inv lp] Loop_ref by simp
next
  case (Loop_unref l)
  then obtain lp where lp: "w_loops w l = Some lp" "needed (w_fds w) l lp < el_ref lp"
    using a by (auto dest!: spare_loopD)
  show ?thesis using good_unref [OF inv lp] Loop_unref by simp
next
  case (Loop_exit l)
  then show ?thesis
    using good_exit_chain [OF inv] a by (simp add: has_loop_def ev_eloop_exit_def del: exit_chain.simps)
next
  case (Add_loop l k)
  then obtain lp where lp: "w_loops w l = Some lp" using a by (auto dest!: has_loopD)
  obtain lk where lk: "w_loops w k = Some lk" "needed (w_fds w) k lk < el_ref lk"
    using a Add_loop by (auto dest!: spare_loopD)
  show ?thesis using good_add_eloop(1) [OF inv lp lk surjective_pairing] Add_loop by simp
next
  case (Rm_loop k)
  then obtain lk fd where lk: "w_loops w k = Some lk" "w_fds w (el_fd lk) = Some fd"
      "fd_loop fd \<noteq> Some k" "el_dispatching lk \<longrightarrow> needed (w_fds w) k lk < el_ref lk"
    using a by (auto simp: removable_def spare_loop_def split: option.splits)
  show ?thesis using good_rm_eloop [OF inv lk(1-3)] lk(4) Rm_loop by simp
next
  case (New_loop l)
  then obtain lp where lp: "w_loops w l = Some lp" using a by (auto dest!: has_loopD)
  show ?thesis using good_new_eloop [OF inv lp surjective_pairing] New_loop by simp
qed

lemma timer_ops_good:
  assumes inv: "einv w" and a: "timer_allowed x w"
  shows "good ({}, {}) w (timer_step x w)"
proof (cases x)
  case (Timer_new spec cb d)
  then show ?thesis using good_timer_new [OF inv surjective_pairing] by simp
next
  case (Timer_ref t)
  then show ?thesis using good_timer_ref [OF inv] a by (auto simp: has_timer_def)
next
  case (Timer_unref t)
  then obtain tm fd where u: "w_timers w t = Some tm" "w_fds w (tm_efd tm) = Some fd"
      "bnd fd < tm_ref tm"
    using a by (auto simp: spare_timer_def split: option.splits)
  show ?thesis using good_timer_unref [OF inv u(1)] u(2,3) Timer_unref by simp
next
  case (Timer_enable t)
  then show ?thesis using good_timer_enable [OF inv _ surjective_pairing] a by (auto simp: has_timer_def)
next
  case (Timer_disable t)
  then show ?thesis using good_timer_disable [OF inv] a by (auto simp: has_timer_def)
next
  case (Timer_set_cb t cb d)
  then show ?thesis using good_timer_set_cb [OF inv] a by (auto simp: has_timer_def)
next
  case (Timer_update t spec)
  then show ?thesis using good_timer_update [OF inv] a by (auto simp: has_timer_def)
next
  case (Timer_drain t)
  then show ?thesis
    using quiet_good [OF inv timer_drain_quiet [OF _ surjective_pairing]] a
    by (auto simp: has_timer_def ev_timer_drain_def)
next
  case (Add_timer l t)
  then obtain lp where lp: "w_loops w l = Some lp" using a by (auto dest!: has_loopD)
  show ?thesis
    using good_add_timer(1) [OF inv _ lp surjective_pairing] Add_timer a by (auto simp: has_timer_def)
next
  case (Rm_timer t)
  then show ?thesis using good_rm_timer [OF inv] a by (auto simp: has_timer_def)
next
  case (New_timer l spec cb d)
  then show ?thesis using good_new_timer [OF inv _ surjective_pairing] a by (simp add: has_loop_def)
qed

lemma counter_ops_good:
  assumes inv: "einv w" and a: "counter_allowed x w"
  shows "good ({}, {}) w (counter_step x w)"
proof (cases x)
  case (Counter_new cb d)
  then show ?thesis using good_counter_new [OF inv surjective_pairing] by simp
next
  case (Counter_ref c)
  then show ?thesis using good_counter_ref [OF inv] a by (auto simp: has_counter_def)
next
  case (Counter_unref c)
  then obtain ct fd where u: "w_counters w c = Some ct" "w_fds w (ct_efd ct) = Some fd"
      "bnd fd < ct_ref ct"
    using a by (auto simp: spare_counter_def split: option.splits)
  show ?thesis using good_counter_unref [OF inv u(1)] u(2,3) Counter_unref by simp
next
  case (Counter_enable c)
  then show ?thesis
    using good_counter_enable [OF inv _ surjective_pairing] a by (auto simp: has_counter_def)
next
  case (Counter_disable c)
  then show ?thesis using good_counter_disable [OF inv] a by (auto simp: has_counter_def)
next
  case (Counter_set_cb c cb d)
  then show ?thesis using good_counter_set_cb [OF inv] a by (auto simp: has_counter_def)
next
  case (Counter_inc c v)
  then show ?thesis using good_counter_inc [OF inv] a by (auto simp: has_counter_def)
next
  case (Add_counter l c)
  then obtain lp where lp: "w_loops w l = Some lp" using a by (auto dest!: has_loopD)
  show ?thesis
    using good_add_counter(1) [OF inv _ lp surjective_pairing] Add_counter a
    by (auto simp: has_counter_def)
next
  case (Rm_counter c)
  then show ?thesis using good_rm_counter [OF inv] a by (auto simp: has_counter_def)
next
  case (New_counter l cb d)
  then show ?thesis using good_new_counter [OF inv _ surjective_pairing] a by (simp add: has_loop_def)
qed

lemma hook_ops_good:
  assumes inv: "einv w" and a: "hook_allowed x w"
  shows "good ({}, {}) w (hook_step x w)"
proof (cases x)
  case (Register_signal l n cb d)
  then show ?thesis
    using good_register_signal(1) [OF inv _ surjective_pairing] a by (auto simp: has_loop_def)
next
  case (Unregister_signal l n cb d)
  then show ?thesis using good_unregister_signal [OF inv] a by (auto simp: has_loop_def)
next
  case (Register_child l cb d)
  then show ?thesis
    using good_register_child [OF inv _ _ surjective_pairing] a by (auto simp: held_def)
next
  case (Unregister_child l cb d)
  then show ?thesis using good_unregister_child [OF inv] a by (auto simp: has_loop_def)
next
  case (Register_idle l cb d fl)
  then show ?thesis
    using good_register_idle [OF inv _ surjective_pairing] a by (auto simp: has_loop_def)
next
  case (Unregister_idle l cb d fl)
  then show ?thesis using good_unregister_idle [OF inv] a by (auto simp: has_loop_def)
next
  case (Register_pre l cb d)
  then show ?thesis using good_register_pre(1) [OF inv] a by (auto simp: has_loop_def)
next
  case (Unregister_pre l cb d)
  then show ?thesis using good_register_pre(3) [OF inv] a by (auto simp: has_loop_def)
next
  case (Register_post l cb d)
  then show ?thesis using good_register_pre(2) [OF inv] a by (auto simp: has_loop_def)
next
  case (Unregister_post l cb d)
  then show ?thesis using good_register_pre(4) [OF inv] a by (auto simp: has_loop_def)
qed

lemma api_good:
  assumes "einv w" and "allowed a w"
  shows "good ({}, {}) w (api_step a w)"
  using assms by (cases a) (simp_all add: fd_ops_good loop_ops_good timer_ops_good counter_ops_good hook_ops_good)

end
