(* ===== verification/Eloop_Dispatch.thy ===== *)
theory Eloop_Dispatch
  imports Eloop_Api
begin

text \<open>
  The dispatcher with callbacks that change the loops and hooks it is working on. \<open>ev_client\<close> is what
  it asks of its clients: a callback keeps the invariant and leaves alone what running loops and
  hooks rely on. Under that contract a dispatch never touches an object that is gone, however the
  loops are nested and whatever the kernel reports.
\<close>

section \<open>Calling a hook whose callbacks change it\<close>

lemma einv_put_hook:
  assumes inv: "einv w" and hk: "h_hooks w h = Some hk" and ok: "hook_ok (h_next w) hk'"
    and dead: "hk_dead hk' = hk_dead hk"
  shows "einv (put_hook h (Some hk') w)"
proof -
  let ?H = "(h_hooks w)(h \<mapsto> hk')"
  have "hooks_wf (h_next w) ?H"
    using einv_hooks [OF inv] ok by (simp add: hooks_wf_def)
  moreover have "below (h_next w) ?H"
    by (rule below_upd [OF einv_below(1) [OF inv]]) (simp add: hk)
  moreover have "hooks_owned {} ?H (w_loops w) (w_sigs w)"
    using hk dead
    by (intro hooks_owned_sub [OF einv_owned [OF inv, unfolded snd_conv]]) (auto simp: live_def)
  ultimately show ?thesis using inv by (simp add: einv_but_def put_hook_def)
qed

lemma rely_put_hook:
  assumes "ev_rely w v" and "\<And>hk. h_hooks w h = Some hk \<Longrightarrow> hk_cur hk = No_entry"
  shows "ev_rely w (put_hook h x v)"
  using assms unfolding ev_rely_def put_hook_def by auto

lemma good_end_call:
  assumes inv: "einv v" and rely: "ev_rely w v" and rest: "\<And>k. h_hooks w h = Some k \<Longrightarrow> hk_cur k = No_entry"
    and hk: "h_hooks v h = Some hk"
  shows "good ({}, {}) w (end_call h hk v)"
proof -
  let ?hk = "hk\<lparr>hk_cur := No_entry\<rparr>"
  let ?v = "put_hook h (Some ?hk) v"
  have "hook_ok (h_next v) ?hk" using hook_wf [OF inv hk] by (simp add: hook_ok_def)
  then have i: "einv ?v" by (intro einv_put_hook [OF inv hk]) simp_all
  have g: "good ({}, {}) w ?v" using i rely_put_hook [OF rely rest] by (simp add: good_def)
  show ?thesis
  proof (cases "hk_dead hk")
    case False
    then show ?thesis using g by (simp add: end_call_def Let_def)
  next
    case True
    have nl: "h \<notin> set (hooks_of lp)" if lp: "w_loops ?v l = Some lp" for l lp
    proof
      assume "h \<in> set (hooks_of lp)"
      then obtain k where "h_hooks ?v h = Some k" "\<not> hk_dead k" using loop_hook [OF i lp] by blast
      then show False using True by (auto simp: put_hook_def)
    qed
    have ns: "sg_hook sg \<noteq> h" if sg: "w_sigs ?v s = Some sg" for s sg
    proof
      assume h: "sg_hook sg = h"
      obtain k where "h_hooks ?v (sg_hook sg) = Some k" "\<not> hk_dead k" using sig_hook [OF i sg] by auto
      then show False using True h by (auto simp: put_hook_def)
    qed
    have "good ({}, {}) ?v (shl_hook_free h ?v)"
      using nl ns by (intro good_hook_free [OF i]) (auto simp: put_hook_def)
    then show ?thesis using g True by (auto simp: end_call_def Let_def intro: good_trans)
  qed
qed

theorem good_hook_call:
  assumes inv: "einv w" and hk: "h_hooks w h = Some hk"
    and run: "\<And>e v. einv v \<Longrightarrow> ev_rely w v \<Longrightarrow> good ({}, {}) v (run e v)"
  shows "good ({}, {}) w (shl_hook_call run n h w)"
proof (cases "hk_cur hk = No_entry")
  case False
  then show ?thesis using hk good_refl [OF inv] by (simp add: shl_hook_call_def)
next
  case True
  define J where "J k v = (einv v \<and> ev_rely w v \<and>
    (\<exists>a. h_hooks v h = Some a \<and> hk_cur a \<noteq> No_entry \<and> slack a = k))" for k v
  have rest: "hk_cur k = No_entry" if "h_hooks w h = Some k" for k using that hk True by simp
  let ?hk = "hk\<lparr>hk_cur := first_entry (hk_entries hk)\<rparr>"
  have "good ({}, {}) w (hook_loop run h n v)" if J: "J k v" for k v
  proof (rule hook_loop_rule [where J = J and K = "good ({}, {}) w", OF _ _ _ _ _ J])
    fix k and v :: world assume "J k v"
    then show "\<exists>a. h_hooks v h = Some a \<and> hook_ok (h_next v) a \<and> hk_cur a \<noteq> No_entry \<and>
        hk_num a - length (hk_entries a) = k"
      using hook_wf by (auto simp: J_def slack_def)
  next
    fix k and v :: world and a a' :: "hook_fn shl_hook"
    assume "J k v" and a: "h_hooks v h = Some a" "hook_ok (h_next v) a'" "hk_cur a' \<noteq> No_entry"
      "hk_dead a' = hk_dead a"
    then show "J (hk_num a' - length (hk_entries a')) (put_hook h (Some a') v)"
      using einv_put_hook [OF _ a(1,2,4)] rely_put_hook [OF _ rest, where h = h and v = v]
      by (simp add: J_def slack_def)
  next
    fix k and v :: world and e assume J: "J k v"
    then have g: "good ({}, {}) v (run e v)" using run by (simp add: J_def)
    moreover obtain a where "h_hooks v h = Some a" "hk_cur a \<noteq> No_entry" "slack a = k"
      using J by (auto simp: J_def)
    then have "\<exists>a'. h_hooks (run e v) h = Some a' \<and> hk_cur a' \<noteq> No_entry \<and> slack a' = k"
      using goodD(2) [OF g] unfolding ev_rely_def by blast
    ultimately show "J k (run e v)"
      using J ev_rely_trans by (auto simp: J_def good_def)
  next
    fix k and v :: world and a :: "hook_fn shl_hook" assume "J k v" "h_hooks v h = Some a"
    then show "good ({}, {}) w (end_call h a v)" using good_end_call rest by (simp add: J_def)
  next
    fix k and v :: world assume "J k v"
    then show "good ({}, {}) w (v\<lparr>h_stuck := True\<rparr>)"
      using quiet_good [OF _ stuck_quiet] good_trans by (auto simp: J_def good_def intro: ev_rely_trans)
  qed
  moreover have "J (slack hk) (put_hook h (Some ?hk) w)"
    using einv_put_hook [OF inv hk hook_ok_start [OF hook_wf [OF inv hk]]] rely_put_hook [OF ev_rely_refl rest]
    by (simp add: J_def slack_def)
  ultimately show ?thesis using True hk by (simp add: shl_hook_call_def)
qed

section \<open>A loop that is dispatching\<close>

definition disp :: "nat \<Rightarrow> world \<Rightarrow> bool" where
  "disp l w = (\<exists>lp. w_loops w l = Some lp \<and> el_dispatching lp)"

text \<open>The array of the loop has \<open>n\<close> events, and they are of sources that are still bound to it.\<close>

definition events_ok :: "nat \<Rightarrow> nat \<Rightarrow> world \<Rightarrow> bool" where
  "events_ok n l w =
     (\<exists>lp. w_loops w l = Some lp \<and> el_dispatching lp \<and> length (el_cur lp) = n \<and> cur_ok (w_fds w) l lp)"

lemma disp_rely: "disp l w \<Longrightarrow> ev_rely w v \<Longrightarrow> disp l v"
  unfolding disp_def ev_rely_def by blast

lemma disp_good: "disp l w \<Longrightarrow> good X w v \<Longrightarrow> disp l v"
  using disp_rely goodD(2) by blast

lemma events_good: "events_ok n l w \<Longrightarrow> good X w v \<Longrightarrow> events_ok n l v"
  using goodD(2) unfolding events_ok_def ev_rely_def by blast

lemma events_disp: "events_ok n l w \<Longrightarrow> disp l w"
  by (auto simp: events_ok_def disp_def)

lemma disp_same: "w_loops v = w_loops w \<Longrightarrow> disp l v = disp l w"
  by (simp add: disp_def)

text \<open>A loop that may be dispatched: somebody holds a reference on it for as long as that takes.\<close>

definition may_dispatch :: "nat \<Rightarrow> world \<Rightarrow> bool" where
  "may_dispatch l w =
     (\<exists>lp. w_loops w l = Some lp \<and>
        (el_dispatching lp \<or> is_bound (w_fds w) (el_fd lp) \<or> needed (w_fds w) l lp < el_ref lp))"

lemma good_trace:
  assumes "einv w" and "call_ok c"
  shows "good ({}, {}) w (w\<lparr>w_trace := w_trace w @ [c]\<rparr>)"
  using assms by (auto simp: good_def einv_but_def ev_rely_def)

section \<open>The contract of the callbacks\<close>

text \<open>The source behind a timer or a counter while it is dispatched: bound, and enabled or not.\<close>

definition source_is :: "fd_fn \<Rightarrow> nat \<Rightarrow> bool \<Rightarrow> nat \<Rightarrow> world \<Rightarrow> bool" where
  "source_is fn owner on f w =
     (\<exists>fd. w_fds w f = Some fd \<and> fd_cb fd = Some fn \<and> fd_data fd = owner \<and> fd_loop fd \<noteq> None \<and> fd_enabled fd = on)"

lemma source_is_same: "w_fds v = w_fds w \<Longrightarrow> source_is fn owner on f v = source_is fn owner on f w"
  by (simp add: source_is_def)

locale ev_client =
  fixes user :: "ucall \<Rightarrow> world \<Rightarrow> world"
  assumes user_good: "einv w \<Longrightarrow> good ({}, {}) w (user c w)"
begin

lemma call_user_good:
  assumes "einv w" and "call_ok c"
  shows "good ({}, {}) w (call_user user c w)"
proof -
  note g = good_trace [OF assms]
  show ?thesis unfolding call_user_def using g user_good [OF goodD(1) [OF g]] by (meson good_trans)
qed

lemma run_plain_good:
  assumes "einv w" and "\<And>c d. call_ok (mk c d)"
  shows "good ({}, {}) w (run_plain user mk e w)"
  using assms call_user_good good_refl by (simp add: run_plain_def split: hook_fn.splits)

lemma sig_child_loop_good:
  "einv w \<Longrightarrow> disp l w \<Longrightarrow> good ({}, {}) w (sig_child_loop user n m l w)"
proof (induction m arbitrary: w)
  case 0
  then show ?case using quiet_good stuck_quiet by simp
next
  case (Suc m)
  obtain a v where v: "sys_waitpid w = (a, v)" by (meson surj_pair)
  have g: "good ({}, {}) w v" by (rule quiet_good [OF Suc.prems(1) sys_waitpid_quiet [OF v]])
  have d: "disp l v" by (rule disp_good [OF Suc.prems(2) g])
  show ?case
  proof (cases a)
    case (Wait_child pid st)
    obtain lp where lp: "w_loops v l = Some lp" using d by (auto simp: disp_def)
    obtain hk where hk: "h_hooks v (el_chlds lp) = Some hk"
      using loop_hook [OF goodD(1) [OF g] lp] hooks_in(1) by blast
    let ?u = "shl_hook_call (run_plain user (\<lambda>c d. Call_child c l pid st d)) n (el_chlds lp) v"
    have g2: "good ({}, {}) v ?u"
      by (rule good_hook_call [OF goodD(1) [OF g] hk run_plain_good]) (simp_all add: call_ok_def)
    have "good ({}, {}) ?u (sig_child_loop user n m l ?u)"
      by (rule Suc.IH [OF goodD(1) [OF g2] disp_good [OF d g2]])
    then have "good ({}, {}) w (sig_child_loop user n m l ?u)" using g g2 by (meson good_trans)
    then show ?thesis using v Wait_child lp by simp
  qed (use v g in simp_all)
qed

lemma run_signal_good:
  assumes "einv w" and "disp l w"
  shows "good ({}, {}) w (run_signal user n l info e w)"
  using assms call_user_good sig_child_loop_good
  by (simp add: run_signal_def sig_child_def call_ok_def split: hook_fn.splits)

lemma call_timer_good:
  "einv w \<Longrightarrow> w_timers w t = Some tm \<Longrightarrow> source_is Fn_timer t (0 < n) (tm_efd tm) w \<Longrightarrow>
   good ({}, {}) w (call_timer user t n w)"
  by (auto simp: call_timer_def call_ok_def source_is_def split: option.splits intro!: call_user_good good_refl)

lemma call_counter_good:
  "einv w \<Longrightarrow> w_counters w c = Some ct \<Longrightarrow> source_is Fn_counter c on (ct_efd ct) w \<Longrightarrow> (0 < n \<longrightarrow> on) \<Longrightarrow>
   good ({}, {}) w (call_counter user c n w)"
  by (auto simp: call_counter_def call_ok_def source_is_def split: option.splits intro!: call_user_good good_refl)

end

lemma fd_disable_source:
  assumes "source_is fn owner on f w" and "einv w"
  shows "source_is fn owner False f (ev_fd_disable f w)"
  using assms
  by (auto simp: source_is_def ev_fd_disable_def fd_epoll_remove_def with_loop_def crash_def
      epoll_ctl_del_def put_fd_def split: option.splits)

lemma timer_disable_timers: "w_timers w t = Some tm \<Longrightarrow> w_timers (ev_timer_disable t w) = w_timers w"
  by (simp add: ev_timer_disable_def ev_fd_disable_def fd_epoll_remove_def with_loop_def crash_def
      epoll_ctl_del_def put_fd_def split: option.splits)

lemma counter_disable_counters:
  "w_counters w c = Some ct \<Longrightarrow> w_counters (ev_counter_disable c w) = w_counters w"
  by (simp add: ev_counter_disable_def ev_fd_disable_def fd_epoll_remove_def with_loop_def crash_def
      epoll_ctl_del_def put_fd_def split: option.splits)

context ev_client begin

lemma disable_call_timer_good:
  assumes inv: "einv w" and tm: "w_timers w t = Some tm" and src: "source_is Fn_timer t on (tm_efd tm) w"
  shows "good ({}, {}) w (call_timer user t 0 (ev_timer_disable t w))"
proof -
  have g: "good ({}, {}) w (ev_timer_disable t w)" by (rule good_timer_disable [OF inv tm])
  have "w_timers (ev_timer_disable t w) t = Some tm" using timer_disable_timers [OF tm] tm by simp
  moreover have "source_is Fn_timer t (0 < (0::nat)) (tm_efd tm) (ev_timer_disable t w)"
    using fd_disable_source [OF src inv] tm by (simp add: ev_timer_disable_def)
  ultimately have "good ({}, {}) (ev_timer_disable t w) (call_timer user t 0 (ev_timer_disable t w))"
    by (rule call_timer_good [OF goodD(1) [OF g]])
  then show ?thesis using g by (meson good_trans)
qed

lemma timer_cb_good:
  assumes inv: "einv w" and tm: "w_timers w t = Some tm" and src: "source_is Fn_timer t True (tm_efd tm) w"
  shows "good ({}, {}) w (timer_cb user msk t w)"
proof -
  obtain r v where d: "timer_drain t w = (r, v)" by (meson surj_pair)
  note q = timer_drain_quiet [OF tm d]
  have g: "good ({}, {}) w v" by (rule quiet_good [OF inv q])
  have tv: "w_timers v t = Some tm" using quiet_eqs(3) [OF q] tm by simp
  have sv: "source_is Fn_timer t True (tm_efd tm) v" using source_is_same quiet_eqs(1) [OF q] src by blast
  have "good ({}, {}) w (call_timer user t n v)" if "0 < n" for n
    using g call_timer_good [OF goodD(1) [OF g] tv, of n] sv that good_trans by auto
  moreover have "good ({}, {}) w (call_timer user t 0 (ev_timer_disable t v))"
    using g disable_call_timer_good [OF goodD(1) [OF g] tv sv] by (meson good_trans)
  ultimately show ?thesis
    using d g disable_call_timer_good [OF inv tm src] good_refl [OF inv]
    by (simp add: timer_cb_def split: drain.splits)
qed

lemma disable_call_counter_good:
  assumes inv: "einv w" and ct: "w_counters w c = Some ct" and src: "source_is Fn_counter c on (ct_efd ct) w"
  shows "good ({}, {}) w (call_counter user c 0 (ev_counter_disable c w))"
proof -
  have g: "good ({}, {}) w (ev_counter_disable c w)" by (rule good_counter_disable [OF inv ct])
  have "w_counters (ev_counter_disable c w) c = Some ct" using counter_disable_counters [OF ct] ct by simp
  moreover have "source_is Fn_counter c False (ct_efd ct) (ev_counter_disable c w)"
    using fd_disable_source [OF src inv] ct by (simp add: ev_counter_disable_def)
  ultimately have "good ({}, {}) (ev_counter_disable c w) (call_counter user c 0 (ev_counter_disable c w))"
    by (rule call_counter_good [OF goodD(1) [OF g]]) simp
  then show ?thesis using g by (meson good_trans)
qed

lemma counter_event_good:
  assumes inv: "einv w" and ct: "w_counters w c = Some ct" and src: "source_is Fn_counter c True (ct_efd ct) w"
  shows "good ({}, {}) w (counter_event user msk c w)"
proof -
  obtain r v where d: "sys_read (ct_fd ct) w = (r, v)" by (meson surj_pair)
  note q = sys_read_quiet [OF d]
  have g: "good ({}, {}) w v" by (rule quiet_good [OF inv q])
  have cv: "w_counters v c = Some ct" using quiet_eqs(4) [OF q] ct by simp
  have sv: "source_is Fn_counter c True (ct_efd ct) v" using source_is_same quiet_eqs(1) [OF q] src by blast
  have "good ({}, {}) w (call_counter user c n v)" for n
    using g call_counter_good [OF goodD(1) [OF g] cv sv] by (meson good_trans)
  moreover have "good ({}, {}) w (call_counter user c 0 (ev_counter_disable c v))"
    using g disable_call_counter_good [OF goodD(1) [OF g] cv sv] by (meson good_trans)
  moreover have "good ({}, {}) w (call_counter user c 0 w)"
    by (rule call_counter_good [OF inv ct src]) simp
  ultimately show ?thesis
    using d g ct good_refl [OF inv] by (simp add: counter_event_def split: read_result.splits)
qed

lemma shared_signal_good:
  assumes inv: "einv w" and fd: "w_fds w f = Some fd" "fd_cb fd = Some Fn_signal" "fd_loop fd = Some l"
    and d: "disp l w"
  shows "good ({}, {}) w (shared_signal_cb user n fd msk (fd_data fd) w)"
proof -
  obtain sg where sg: "w_sigs w (fd_data fd) = Some sg" "sg_fd sg = f"
    using fd_ok [OF inv fd(1)] fd(2) by (auto simp: owned_def)
  obtain r v where read: "sys_read_siginfo (fd_fd fd) w = (r, v)" by (meson surj_pair)
  note q = sys_read_siginfo_quiet [OF read]
  have g: "good ({}, {}) w v" by (rule quiet_good [OF inv q])
  have dv: "disp l v" by (rule disp_good [OF d g])
  have sgv: "w_sigs v (fd_data fd) = Some sg" "w_fds v f = Some fd" using quiet_eqs [OF q] sg fd by simp_all
  obtain hk where hk: "h_hooks v (sg_hook sg) = Some hk" using sig_hook [OF goodD(1) [OF g] sgv(1)] by auto
  have "good ({}, {}) v (shl_hook_call (run_signal user n l info) n (sg_hook sg) v)" for info
    by (rule good_hook_call [OF goodD(1) [OF g] hk]) (rule run_signal_good, assumption, erule disp_rely [OF dv])
  then have "good ({}, {}) w (shl_hook_call (run_signal user n l info) n (sg_hook sg) v)" for info
    using g by (meson good_trans)
  then show ?thesis
    using read g sgv sg(2) fd(3) good_refl [OF inv]
    by (simp add: shared_signal_cb_def split: option.splits)
qed

lemma idle_event_good:
  assumes inv: "einv w" and d: "disp l w"
  shows "good ({}, {}) w (eloop_idle_event user n l msk w)"
proof -
  obtain lp where lp: "w_loops w l = Some lp" using d by (auto simp: disp_def)
  obtain r v where read: "sys_read (el_idle_fd lp) w = (r, v)" by (meson surj_pair)
  note q = sys_read_quiet [OF read]
  have g: "good ({}, {}) w v" by (rule quiet_good [OF inv q])
  have del: "good ({}, {}) w (epoll_ctl_del e k v)" "good ({}, {}) w (epoll_ctl_del e k w)" for e k
    using g quiet_good [OF goodD(1) [OF g] epoll_ctl_del_quiet] quiet_good [OF inv epoll_ctl_del_quiet]
    by (meson good_trans)+
  have lpv: "w_loops v l = Some lp" using quiet_eqs(2) [OF q] lp by simp
  obtain hk where hk: "h_hooks v (el_idlers lp) = Some hk"
    using loop_hook [OF goodD(1) [OF g] lpv] hooks_in(2) by blast
  let ?u = "shl_hook_call (run_plain user (\<lambda>c d. Call_idle c l d)) n (el_idlers lp) v"
  have g2: "good ({}, {}) v ?u"
    by (rule good_hook_call [OF goodD(1) [OF g] hk run_plain_good]) (simp_all add: call_ok_def)
  obtain lp2 where lp2: "w_loops ?u l = Some lp2"
    using disp_good [OF disp_good [OF d g] g2] by (auto simp: disp_def)
  have gu: "good ({}, {}) w ?u" using g g2 by (meson good_trans)
  obtain r2 u2 where wr: "write_eventfd (el_idle_fd lp2) 1 ?u = (r2, u2)" by (meson surj_pair)
  have "good ({}, {}) w u2"
    using gu quiet_good [OF goodD(1) [OF gu] write_eventfd_quiet [OF wr]] by (meson good_trans)
  then show ?thesis
    using lp read g del gu lp2 wr good_refl [OF inv]
    by (simp add: eloop_idle_event_def Let_def split: read_result.splits)
qed

end

section \<open>A round of events\<close>

text \<open>What the round needs of the dispatcher for the loops inside.\<close>

definition nested_ok :: "(nat \<Rightarrow> world \<Rightarrow> status \<times> world) \<Rightarrow> bool" where
  "nested_ok nested = (\<forall>l w. einv w \<longrightarrow> may_dispatch l w \<longrightarrow> good ({}, {}) w (snd (nested l w)))"

context ev_client begin

lemma run_fd_cb_good:
  assumes inv: "einv w" and nest: "nested_ok nested" and d: "disp l w"
    and fd: "w_fds w f = Some fd" "fd_loop fd = Some l" "fd_enabled fd" "fd_cb fd = Some cb"
  shows "good ({}, {}) w (run_fd_cb user nested n l f fd cb msk w)"
proof (cases cb)
  case (Fn_user c)
  then show ?thesis using call_user_good [OF inv] fd by (simp add: run_fd_cb_def call_ok_def)
next
  case Fn_eloop
  then obtain lc where lc: "w_loops w (fd_data fd) = Some lc" "el_fd lc = f"
    using fd_ok [OF inv fd(1)] fd(4) by (auto simp: owned_def)
  then have "may_dispatch (fd_data fd) w" using fd(1,2) by (simp add: may_dispatch_def is_bound_def)
  then show ?thesis
    using nest inv good_refl [OF inv] Fn_eloop
    by (simp add: run_fd_cb_def eloop_event_def nested_ok_def)
next
  case Fn_signal
  then show ?thesis
    using shared_signal_good [OF inv fd(1) _ fd(2) d] fd(4) by (simp add: run_fd_cb_def)
next
  case Fn_timer
  then obtain tm where "w_timers w (fd_data fd) = Some tm" "tm_efd tm = f"
    using fd_ok [OF inv fd(1)] fd(4) by (auto simp: owned_def)
  then show ?thesis using timer_cb_good [OF inv] Fn_timer fd by (simp add: run_fd_cb_def source_is_def)
next
  case Fn_counter
  then obtain ct where "w_counters w (fd_data fd) = Some ct" "ct_efd ct = f"
    using fd_ok [OF inv fd(1)] fd(4) by (auto simp: owned_def)
  then show ?thesis using counter_event_good [OF inv] Fn_counter fd by (simp add: run_fd_cb_def source_is_def)
qed

lemma dispatch_one_good:
  assumes inv: "einv w" and nest: "nested_ok nested" and ev: "events_ok k l w" and i: "i < k"
  shows "good ({}, {}) w (dispatch_one user nested n l i w)"
proof -
  note d = events_disp [OF ev]
  obtain lp where lp: "w_loops w l = Some lp" "length (el_cur lp) = k" "cur_ok (w_fds w) l lp"
    using ev by (auto simp: events_ok_def)
  obtain e p where ep: "el_cur lp ! i = (e, p)" by (meson surj_pair)
  then have "p \<in> snd ` set (el_cur lp)" using lp(2) i by (metis image_eqI nth_mem snd_conv)
  then consider "p = Null" | "p = Ptr_loop l" | f fd where "p = Ptr_fd f" "w_fds w f = Some fd" "fd_loop fd = Some l"
    using lp(3) unfolding cur_ok_def by blast
  then show ?thesis
  proof cases
    case 1
    then show ?thesis using lp i ep good_refl [OF inv] by (simp add: dispatch_one_def)
  next
    case 2
    then show ?thesis using lp i ep idle_event_good [OF inv d] by (simp add: dispatch_one_def)
  next
    case 3
    then show ?thesis
      using lp i ep good_refl [OF inv] run_fd_cb_good [OF inv nest d 3(2,3)]
      by (simp add: dispatch_one_def split: option.splits)
  qed
qed

lemma dispatch_events_good:
  "einv w \<Longrightarrow> nested_ok nested \<Longrightarrow> events_ok (i + m) l w \<Longrightarrow>
   good ({}, {}) w (dispatch_events user nested n l m i w)"
proof (induction m arbitrary: i w)
  case 0
  then show ?case by (simp add: good_refl)
next
  case (Suc m)
  let ?v = "dispatch_one user nested n l i w"
  have g: "good ({}, {}) w ?v" by (rule dispatch_one_good [OF Suc.prems]) simp
  have "good ({}, {}) ?v (dispatch_events user nested n l m (Suc i) ?v)"
    using Suc.IH [OF goodD(1) [OF g] Suc.prems(2), of "Suc i"] events_good [OF Suc.prems(3) g] by simp
  then show ?case using g by (auto intro: good_trans)
qed

end

lemma grow_good:
  assumes inv: "einv w" and d: "disp l w"
  shows "good ({}, {}) w (grow_events l count w)"
proof -
  obtain lp where lp: "w_loops w l = Some lp" "el_dispatching lp" using d by (auto simp: disp_def)
  obtain r v where a: "alloc w = (r, v)" by (meson surj_pair)
  note q = alloc_quiet [OF a]
  have g: "good ({}, {}) w v" by (rule quiet_good [OF inv q])
  have n: "0 < el_ref lp" "needed (w_fds v) l lp \<le> el_ref lp"
    using loops_okD [OF einv_loops [OF inv] lp(1)] quiet_eqs(1) [OF q] by metis+
  have lpv: "w_loops v l = Some lp" using quiet_eqs(2) [OF q] lp(1) by simp
  have "good ({}, {}) w (put_loop l (Some (lp\<lparr>el_size := el_size lp * 2, el_array := b\<rparr>))
      (keep_memory b (free_memory (el_array lp) v)))" for b
  proof -
    let ?u = "keep_memory b (free_memory (el_array lp) v)"
    have gu: "good ({}, {}) w ?u"
      by (rule quiet_good [OF inv]) (meson q free_memory_quiet keep_memory_quiet quiet_trans)
    have "good ({}, {}) ?u (put_loop l (Some (lp\<lparr>el_size := el_size lp * 2, el_array := b\<rparr>)) ?u)"
      by (rule good_put_loop [OF goodD(1) [OF gu], where lp = lp])
         (use n lpv in \<open>simp_all add: same_loop_def hooks_of_def needed_def\<close>)
    then show ?thesis using gu by (meson good_trans)
  qed
  then show ?thesis
    using a lp g good_refl [OF inv] by (auto simp: grow_events_def split: option.splits)
qed

text \<open>A change of a loop that was not dispatching in the beginning.\<close>

definition idle_loop :: "nat \<Rightarrow> world \<Rightarrow> bool" where
  "idle_loop l w = (\<forall>lp. w_loops w l = Some lp \<longrightarrow> \<not> el_dispatching lp)"

lemma good_set_loop:
  assumes g: "good ({}, {}) w v" and idle: "idle_loop l w" and lp: "w_loops v l = Some lp"
    and same: "same_loop lp lp'" and ref: "0 < el_ref lp'" "needed (w_fds v) l lp' \<le> el_ref lp'"
  shows "good ({}, {}) w (put_loop l (Some lp') v)"
proof -
  have "einv (put_loop l (Some lp') v)" by (rule einv_put_loop [OF goodD(1) [OF g] lp same ref])
  moreover have "ev_rely w (put_loop l (Some lp') v)"
    using goodD(2) [OF g] idle unfolding ev_rely_def idle_loop_def by auto
  ultimately show ?thesis by (simp add: good_def)
qed

text \<open>The events that the kernel reports are of sources that are bound to the loop.\<close>

lemma poll_report_ptr: "(m, p) \<in> set (poll_report ep rs) \<Longrightarrow> \<exists>k ev. ep k = Some (ev, p)"
proof (induction rs)
  case (Cons a rs)
  obtain k r where a: "a = (k, r)" by (meson surj_pair)
  show ?case
  proof (cases "ep k")
    case None
    then show ?thesis using Cons a by simp
  next
    case (Some x)
    then show ?thesis using Cons a by (cases x) (auto simp: Let_def split: if_splits)
  qed
qed simp

lemma epoll_wait_ptr:
  "sys_epoll_wait e sz w = (Inr evs, v) \<Longrightarrow> (m, p) \<in> set evs \<Longrightarrow> \<exists>k ev. k_epoll w e k = Some (ev, p)"
  by (auto simp: sys_epoll_wait_def dest!: in_set_takeD poll_report_ptr split: list.splits poll.splits)

lemma epoll_wait_cur:
  assumes inv: "einv w" and lp: "w_loops w l = Some lp" and wait: "sys_epoll_wait (el_efd lp) sz w = (Inr evs, v)"
  shows "cur_ok (w_fds w) l (lp\<lparr>el_cur := evs\<rparr>)"
  unfolding cur_ok_def
proof
  fix p assume "p \<in> snd ` set (el_cur (lp\<lparr>el_cur := evs\<rparr>))"
  then obtain k ev where "k_epoll w (el_efd lp) k = Some (ev, p)" using epoll_wait_ptr [OF wait] by fastforce
  from polls_okD [OF einv_polls [OF inv] lp this]
  show "p = Null \<or> p = Ptr_loop l \<or> (\<exists>f fd. p = Ptr_fd f \<and> w_fds w f = Some fd \<and> fd_loop fd = Some l)"
    by metis
qed

section \<open>A dispatch\<close>

text \<open>A loop that was dispatched may be dispatched again.\<close>

lemma loop_needs:
  assumes "einv w" and "w_loops w l = Some lp"
  shows "0 < el_ref lp" "needed (w_fds w) l lp \<le> el_ref lp"
  using loops_okD [OF einv_loops [OF assms(1)] assms(2)] by metis+

lemma needed_disp:
  "el_dispatching lp \<Longrightarrow> needed F l (lp\<lparr>el_dispatching := False\<rparr>) \<le> needed F l lp"
  "el_dispatching lp \<Longrightarrow> is_bound F (el_fd lp) \<or> needed F l (lp\<lparr>el_dispatching := False\<rparr>) < needed F l lp"
  by (simp_all add: needed_def)

context ev_client begin

lemma out_dispatch_good:
  assumes g: "good ({}, {}) w v" and idle: "idle_loop l w" and d: "disp l v"
  shows "good ({}, {}) w (snd (out_dispatch user n l ret v))" and "may_dispatch l (snd (out_dispatch user n l ret v))"
proof -
  obtain lp where lp: "w_loops v l = Some lp" using d by (auto simp: disp_def)
  obtain hk where hk: "h_hooks v (el_posts lp) = Some hk"
    using loop_hook [OF goodD(1) [OF g] lp] hooks_in(4) by blast
  let ?u = "shl_hook_call (run_plain user (\<lambda>c d. Call_post c l d)) n (el_posts lp) v"
  have g2: "good ({}, {}) v ?u"
    by (rule good_hook_call [OF goodD(1) [OF g] hk run_plain_good]) (simp_all add: call_ok_def)
  obtain lu where lu: "w_loops ?u l = Some lu" "el_dispatching lu"
    using disp_good [OF d g2] by (auto simp: disp_def)
  have gu: "good ({}, {}) w ?u" using g g2 by (meson good_trans)
  note n = loop_needs [OF goodD(1) [OF gu] lu(1)]
  let ?lu = "lu\<lparr>el_dispatching := False\<rparr>"
  have "good ({}, {}) w (put_loop l (Some ?lu) ?u)"
    by (rule good_set_loop [OF gu idle lu(1)])
       (use n needed_disp(1) [OF lu(2), of "w_fds ?u" l] in \<open>simp_all add: same_loop_def hooks_of_def\<close>)
  moreover have eq: "snd (out_dispatch user n l ret v) = put_loop l (Some ?lu) ?u"
    using lp lu by (simp add: out_dispatch_def Let_def)
  ultimately show "good ({}, {}) w (snd (out_dispatch user n l ret v))" by simp
  show "may_dispatch l (snd (out_dispatch user n l ret v))"
    using n needed_disp(2) [OF lu(2), of "w_fds ?u" l] unfolding eq may_dispatch_def by auto
qed

lemma dispatch_round_good:
  assumes g: "good ({}, {}) w v" and idle: "idle_loop l w" and d: "disp l v" and nest: "nested_ok nested"
  shows "good ({}, {}) w (snd (dispatch_round user nested n timeout l v)) \<and>
     may_dispatch l (snd (dispatch_round user nested n timeout l v))"
proof -
  obtain lp where lp: "w_loops v l = Some lp" "el_dispatching lp" using d by (auto simp: disp_def)
  let ?v = "v\<lparr>w_trace := w_trace v @ [Wait_events l timeout]\<rparr>"
  have g1: "good ({}, {}) v ?v" by (rule good_trace [OF goodD(1) [OF g]]) (simp add: call_ok_def)
  obtain r u where wait: "sys_epoll_wait (el_efd lp) (el_size lp) ?v = (r, u)" by (meson surj_pair)
  note q = sys_epoll_wait_quiet [OF wait]
  have g2: "good ({}, {}) ?v u" by (rule quiet_good [OF goodD(1) [OF g1] q])
  have gu: "good ({}, {}) w u" using g g1 g2 by (meson good_trans)
  show ?thesis
  proof (cases r)
    case (Inl e)
    have "disp l u" using d disp_good [OF _ g1] disp_good [OF _ g2] by blast
    then show ?thesis using out_dispatch_good [OF gu idle] lp wait Inl by (simp add: dispatch_round_def)
  next
    case (Inr evs)
    let ?lp = "lp\<lparr>el_cur := evs\<rparr>"
    let ?u1 = "put_loop l (Some ?lp) u"
    have lpu: "w_loops u l = Some lp" using quiet_eqs(2) [OF q] lp by simp
    note n = loop_needs [OF goodD(1) [OF gu] lpu]
    have gu1: "good ({}, {}) w ?u1"
      by (rule good_set_loop [OF gu idle lpu])
         (use n in \<open>simp_all add: same_loop_def hooks_of_def needed_def\<close>)
    have "w_loops ?v l = Some lp" using lp by simp
    from epoll_wait_cur [OF goodD(1) [OF g1] this] wait Inr
    have "cur_ok (w_fds u) l ?lp" using quiet_eqs(1) [OF q] by simp
    then have ev: "events_ok (length evs) l ?u1" using lp by (simp add: events_ok_def)
    let ?u2 = "dispatch_events user nested n l (length evs) 0 ?u1"
    have g3: "good ({}, {}) ?u1 ?u2" using dispatch_events_good [OF goodD(1) [OF gu1] nest] ev by simp
    have d2: "disp l ?u2" by (rule events_disp [OF events_good [OF ev g3]])
    have g4: "good ({}, {}) ?u2 (grow_events l (length evs) ?u2)" by (rule grow_good [OF goodD(1) [OF g3] d2])
    have "good ({}, {}) w (grow_events l (length evs) ?u2)" using gu1 g3 g4 by (meson good_trans)
    from out_dispatch_good [OF this idle disp_good [OF d2 g4]]
    show ?thesis using lp wait Inr by (simp add: dispatch_round_def)
  qed
qed

lemma dispatch_body_good:
  assumes inv: "einv w" and may: "may_dispatch l w" and nest: "nested_ok nested"
  shows "good ({}, {}) w (snd (dispatch_body user nested n timeout l w)) \<and>
     may_dispatch l (snd (dispatch_body user nested n timeout l w))"
proof -
  obtain lp where lp: "w_loops w l = Some lp" using may by (auto simp: may_dispatch_def)
  show ?thesis
  proof (cases "el_exit lp \<or> el_dispatching lp")
    case True
    then show ?thesis using lp may good_refl [OF inv] by (auto simp: dispatch_body_def)
  next
    case False
    let ?lp = "lp\<lparr>el_dispatching := True\<rparr>"
    let ?w1 = "put_loop l (Some ?lp) w"
    have idle: "idle_loop l w" using lp False by (simp add: idle_loop_def)
    note n = loop_needs [OF inv lp]
    have "needed (w_fds w) l ?lp \<le> el_ref lp"
      using may lp False n by (auto simp: may_dispatch_def needed_def split: if_splits)
    then have g1: "good ({}, {}) w ?w1"
      using n by (intro good_set_loop [OF good_refl [OF inv] idle lp]) (simp_all add: same_loop_def hooks_of_def)
    have d1: "disp l ?w1" by (simp add: disp_def)
    have lp1: "w_loops ?w1 l = Some ?lp" by simp
    obtain hk where hk: "h_hooks ?w1 (el_pres ?lp) = Some hk"
      using loop_hook [OF goodD(1) [OF g1] lp1] hooks_in(3) by blast
    let ?w2 = "shl_hook_call (run_plain user (\<lambda>c d. Call_pre c l d)) n (el_pres ?lp) ?w1"
    have g2: "good ({}, {}) ?w1 ?w2"
      by (rule good_hook_call [OF goodD(1) [OF g1] hk run_plain_good]) (simp_all add: call_ok_def)
    have "good ({}, {}) w ?w2" using g1 g2 by (meson good_trans)
    from dispatch_round_good [OF this idle disp_good [OF d1 g2] nest]
    show ?thesis using lp False by (simp add: dispatch_body_def)
  qed
qed

theorem dispatch_good:
  "einv w \<Longrightarrow> may_dispatch l w \<Longrightarrow>
   good ({}, {}) w (snd (ev_eloop_dispatch user n timeout l w)) \<and>
   may_dispatch l (snd (ev_eloop_dispatch user n timeout l w))"
proof (induction n arbitrary: timeout l w)
  case 0
  then show ?case using quiet_good [OF 0(1) stuck_quiet] by (simp add: may_dispatch_def)
next
  case (Suc n)
  have "nested_ok (ev_eloop_dispatch user n 0)" using Suc.IH by (simp add: nested_ok_def)
  then show ?case using dispatch_body_good [OF Suc.prems] by simp
qed

lemma run_loop_good:
  "einv w \<Longrightarrow> may_dispatch l w \<Longrightarrow>
   good ({}, {}) w (snd (run_loop user n start m timeout l w)) \<and>
   may_dispatch l (snd (run_loop user n start m timeout l w))"
proof (induction m arbitrary: w)
  case 0
  then show ?case using quiet_good [OF 0(1) stuck_quiet] by (simp add: may_dispatch_def)
next
  case (Suc m)
  obtain lp where lp: "w_loops w l = Some lp" using Suc.prems(2) by (auto simp: may_dispatch_def)
  obtain r v where d: "ev_eloop_dispatch user n timeout l w = (r, v)" by (meson surj_pair)
  have g: "good ({}, {}) w v" and may: "may_dispatch l v" using dispatch_good [OF Suc.prems, of n timeout] d by simp_all
  obtain tv u where t: "sys_gettimeofday v = (tv, u)" by (meson surj_pair)
  note q = sys_gettimeofday_quiet [OF t]
  have g2: "good ({}, {}) v u" by (rule quiet_good [OF goodD(1) [OF g] q])
  have gu: "good ({}, {}) w u" and mu: "may_dispatch l u"
    using g g2 may quiet_eqs [OF q] by (auto intro: good_trans simp: may_dispatch_def)
  show ?case
    using lp d t g may gu mu good_refl [OF Suc.prems(1)] Suc.prems(2)
      Suc.IH [OF goodD(1) [OF g] may] Suc.IH [OF goodD(1) [OF gu] mu]
    by (auto split: option.splits intro: good_trans)
qed

theorem run_good:
  assumes inv: "einv w" and may: "may_dispatch l w"
  shows "good ({}, {}) w (snd (ev_eloop_run user n m timeout l w))"
proof -
  obtain lp where lp: "w_loops w l = Some lp" using may by (auto simp: may_dispatch_def)
  let ?lp = "lp\<lparr>el_exit := False\<rparr>"
  let ?w1 = "put_loop l (Some ?lp) w"
  note n = loop_needs [OF inv lp]
  have g1: "good ({}, {}) w ?w1"
    by (rule good_put_loop [OF inv lp]) (use n in \<open>simp_all add: same_loop_def hooks_of_def needed_def\<close>)
  have m1: "may_dispatch l ?w1" using may lp by (auto simp: may_dispatch_def needed_def)
  obtain start v where t: "sys_gettimeofday ?w1 = (start, v)" by (meson surj_pair)
  note q = sys_gettimeofday_quiet [OF t]
  have g2: "good ({}, {}) ?w1 v" by (rule quiet_good [OF goodD(1) [OF g1] q])
  have "may_dispatch l v" using m1 quiet_eqs [OF q] by (simp add: may_dispatch_def)
  then have g3: "good ({}, {}) v (snd (run_loop user n start m timeout l v))"
    using run_loop_good [OF goodD(1) [OF g2]] by blast
  have "good ({}, {}) w (snd (run_loop user n start m timeout l v))" using g1 g2 g3 by (meson good_trans)
  then show ?thesis using lp t by (simp add: ev_eloop_run_def)
qed

end

end
