(* ===== verification/Eloop_Spec.thy ===== *)
theory Eloop_Spec
  imports Eloop_Dispatch
begin

text \<open>
  What the event loop promises to clients that keep to the rules for references, in every run: the
  clients call the operations, from outside or from their callbacks, the kernel answers as it
  likes, and loops are dispatched. The last part shows what goes wrong in the code as it is.
\<close>

section \<open>Runs\<close>

text \<open>
  \<open>beh\<close> is the behaviour of the clients: the operations that each callback performs, depending on
  the state. An operation that is not allowed at its time is not performed.
\<close>

definition perform :: "api \<Rightarrow> world \<Rightarrow> world" where
  "perform a w = (if allowed a w then api_step a w else w)"

definition client_run :: "(ucall \<Rightarrow> world \<Rightarrow> api list) \<Rightarrow> ucall \<Rightarrow> world \<Rightarrow> world" where
  "client_run beh c w = fold perform (beh c w) w"

lemma perform_good: "einv w \<Longrightarrow> good ({}, {}) w (perform a w)"
  using api_good good_refl by (simp add: perform_def)

lemma performs_good: "einv w \<Longrightarrow> good ({}, {}) w (fold perform as w)"
proof (induction as arbitrary: w)
  case Nil
  then show ?case by (simp add: good_refl)
next
  case (Cons a as)
  have g: "good ({}, {}) w (perform a w)" by (rule perform_good [OF Cons.prems])
  show ?case using g Cons.IH [OF goodD(1) [OF g]] by (auto intro: good_trans)
qed

interpretation lc: ev_client "client_run beh" for beh
  by unfold_locales (simp add: client_run_def performs_good)

definition empty_world :: world where
  "empty_world =
     \<lparr>h_hooks = Map.empty, h_next = 0, h_answers = [], h_crash = False, h_stuck = False,
      w_fds = Map.empty, w_loops = Map.empty, w_timers = Map.empty, w_counters = Map.empty,
      w_sigs = Map.empty, k_next = 0, k_open = {}, k_epoll = (\<lambda>_. Map.empty), k_count = (\<lambda>_. 0),
      k_siginfo = (\<lambda>_. []), k_spec = (\<lambda>_. (0, 0)), k_polls = [], k_clock = [], k_wait = [],
      w_trace = [], w_memory = {}\<rparr>"

text \<open>What the kernel does on its own, and what it is going to answer.\<close>

definition kernel_step ::
  "answer list \<Rightarrow> (nat \<Rightarrow> nat) \<Rightarrow> (nat \<Rightarrow> nat list) \<Rightarrow> poll list \<Rightarrow> (int \<times> int) list \<Rightarrow> wait list \<Rightarrow>
   world \<Rightarrow> world" where
  "kernel_step as cs sis ps ts ws w =
     w\<lparr>h_answers := as, k_count := cs, k_siginfo := sis, k_polls := ps, k_clock := ts, k_wait := ws\<rparr>"

inductive reach :: "(ucall \<Rightarrow> world \<Rightarrow> api list) \<Rightarrow> world \<Rightarrow> bool" for beh where
  start: "reach beh empty_world"
| kernel: "reach beh w \<Longrightarrow> reach beh (kernel_step as cs sis ps ts ws w)"
| call: "reach beh w \<Longrightarrow> allowed a w \<Longrightarrow> reach beh (api_step a w)"
| dispatch: "reach beh w \<Longrightarrow> may_dispatch l w \<Longrightarrow>
    reach beh (snd (ev_eloop_dispatch (client_run beh) n timeout l w))"
| run: "reach beh w \<Longrightarrow> may_dispatch l w \<Longrightarrow>
    reach beh (snd (ev_eloop_run (client_run beh) n m timeout l w))"

lemma einv_empty: "einv empty_world"
  by (simp add: empty_world_def einv_but_def below_def fds_ok_def timers_ok_def counters_ok_def
      sigs_ok_def loops_ok_def polls_ok_def hooks_wf_def hooks_owned_def)

lemma einv_kernel: "einv w \<Longrightarrow> einv (kernel_step as cs sis ps ts ws w)"
  by (simp add: kernel_step_def einv_but_def)

lemma reach_einv: "reach beh w \<Longrightarrow> einv w"
proof (induction rule: reach.induct)
  case (call w a)
  then show ?case using goodD(1) [OF api_good] by blast
next
  case (dispatch w l n timeout)
  then show ?case using goodD(1) lc.dispatch_good by blast
next
  case (run w l n m timeout)
  then show ?case using goodD(1) lc.run_good by blast
qed (simp_all add: einv_empty einv_kernel)

section \<open>What every run keeps\<close>

text \<open>
  Property C3. In no run does the event loop touch an object that was freed, whatever the clients
  add, remove, free and register from inside their callbacks, however loops are nested and
  whatever requests fail. It calls the callback of a descriptor only while its source is enabled and
  bound to the loop that calls it, also when an earlier callback of the same round has taken the
  source away. It calls a timer or a counter only while its source is bound, and with expirations only
  while that is enabled; when the source of a timer fails the timer is disabled first and then told
  so with none.
\<close>

theorem event_loop_is_safe:
  assumes "reach beh w"
  shows "\<not> h_crash w \<and> (\<forall>c \<in> set (w_trace w). call_ok c)"
  using einv_crash [OF reach_einv [OF assms]] einv_trace [OF reach_einv [OF assms]] by simp_all

text \<open>
  Property C38. In every run an epoll set leads only to sources that are bound to its loop and
  enabled, with the descriptor they were registered with, or to the loop itself; a loop has a
  reference for every source bound to it; and a bound source has its loop.
\<close>

theorem poll_sets_match_sources:
  assumes "reach beh w" and "w_loops w l = Some lp"
  shows "(\<forall>k ev p. k_epoll w (el_efd lp) k = Some (ev, p) \<longrightarrow>
      p = Ptr_loop l \<or>
      (\<exists>f fd. p = Ptr_fd f \<and> w_fds w f = Some fd \<and> fd_loop fd = Some l \<and> fd_enabled fd \<and> fd_fd fd = k)) \<and>
    card {f. \<exists>fd. w_fds w f = Some fd \<and> fd_loop fd = Some l} \<le> el_ref lp \<and>
    (\<forall>f fd m. w_fds w f = Some fd \<longrightarrow> fd_loop fd = Some m \<longrightarrow> w_loops w m \<noteq> None)"
proof (intro conjI allI impI)
  note inv = reach_einv [OF assms(1)]
  show "p = Ptr_loop l \<or>
      (\<exists>f fd. p = Ptr_fd f \<and> w_fds w f = Some fd \<and> fd_loop fd = Some l \<and> fd_enabled fd \<and> fd_fd fd = k)"
    if "k_epoll w (el_efd lp) k = Some (ev, p)" for k ev p
    using polls_okD [OF einv_polls [OF inv] assms(2) that] by metis
  show "card {f. \<exists>fd. w_fds w f = Some fd \<and> fd_loop fd = Some l} \<le> el_ref lp"
    using loop_needs(2) [OF inv assms(2)] by (simp add: needed_def bound_set_def split: if_splits)
  show "w_loops w m \<noteq> None" if "w_fds w f = Some fd" "fd_loop fd = Some m" for f fd m
    using einv_fds [OF inv] that unfolding fds_ok_def by blast
qed

text \<open>The hooks \<open>hs\<close> are all the hooks that were made since \<open>u\<close>.\<close>

definition only_hooks :: "world \<Rightarrow> nat list \<Rightarrow> world \<Rightarrow> bool" where
  "only_hooks u hs v =
     (w_loops v = w_loops u \<and> k_next u \<le> k_next v \<and>
      h_next u \<le> h_next v \<and> distinct hs \<and> (\<forall>h \<in> set hs. h_next u \<le> h \<and> h < h_next v) \<and>
      (\<forall>h. h \<notin> set hs \<longrightarrow> h_hooks v h = h_hooks u h) \<and>
      (\<forall>h \<in> set hs. \<exists>hk. h_hooks v h = Some hk \<and> hk_cur hk = No_entry))"

text \<open>The sources and the descriptors that are open, which the steps are compared on.\<close>

definition held_now :: "world \<Rightarrow> (nat \<rightharpoonup> ev_fd) \<times> nat set" where
  "held_now w = (w_fds w, k_open w)"

lemma only_hooks_start: "only_hooks w [] w"
  by (simp add: only_hooks_def)

lemma only_hooks_alloc:
  assumes "only_hooks u hs w" and "alloc w = (r, w')"
  shows "only_hooks u hs w'" and "held_now w' = held_now w"
  using assms by (auto simp: only_hooks_def held_now_def alloc_def ask_def split: list.splits answer.splits)

lemma only_hooks_new:
  assumes o: "only_hooks u hs w" and n: "shl_hook_new w = (r, w')"
  shows "case r of Inr h \<Rightarrow> only_hooks u (h # hs) w' | Inl e \<Rightarrow> only_hooks u hs w'"
    and "held_now w' = held_now w"
proof -
  obtain a w1 where a: "alloc w = (a, w1)" by (meson surj_pair)
  note o1 = only_hooks_alloc [OF o a]
  have "(case r of Inr h \<Rightarrow> only_hooks u (h # hs) w' | Inl e \<Rightarrow> only_hooks u hs w') \<and>
    held_now w' = held_now w"
  proof (cases a)
    case None
    then show ?thesis using n a o1 by (auto simp: shl_hook_new_def)
  next
    case (Some h)
    have h: "h = h_next w" "h_next w1 = Suc h" using alloc_Some [of w h w1] a Some by auto
    then have "h \<notin> set hs" "h_next u \<le> h" using o by (auto simp: only_hooks_def)
    then show ?thesis
      using n a Some o1 h by (auto simp: shl_hook_new_def only_hooks_def held_now_def put_hook_def)
  qed
  then show "case r of Inr h \<Rightarrow> only_hooks u (h # hs) w' | Inl e \<Rightarrow> only_hooks u hs w'"
    and "held_now w' = held_now w" by blast+
qed

lemma only_hooks_free:
  assumes "only_hooks u hs w" and "\<And>h. h_next u \<le> h \<Longrightarrow> h_hooks u h = None"
  shows "only_hooks u [] (fold shl_hook_free hs w) \<and> held_now (fold shl_hook_free hs w) = held_now w"
  using assms(1)
proof (induction hs arbitrary: w)
  case (Cons h hs)
  obtain hk where hk: "h_hooks w h = Some hk" "hk_cur hk = No_entry" "h_next u \<le> h" "h \<notin> set hs"
    using Cons.prems by (auto simp: only_hooks_def)
  have "only_hooks u hs (put_hook h None w)"
    using Cons.prems hk assms(2) [OF hk(3)] by (auto simp: only_hooks_def put_hook_def)
  moreover have "held_now (put_hook h None w) = held_now w" by (simp add: held_now_def put_hook_def)
  ultimately show ?case using Cons.IH hk by (simp add: shl_hook_free_def)
qed simp

text \<open>The steps of \<open>ev_eloop_new\<close> after the hooks.\<close>

lemma only_hooks_open:
  assumes "only_hooks u hs w" and "sys_open w = (r, w')"
  shows "only_hooks u hs w'"
    and "case r of Inl e \<Rightarrow> held_now w' = held_now w
      | Inr k \<Rightarrow> k = k_next w \<and> k_next w' = Suc k \<and> held_now w' = (w_fds w, insert k (k_open w))"
  using assms
  by (auto simp: only_hooks_def held_now_def sys_open_def ask_def split: list.splits option.splits)

lemma only_hooks_source:
  assumes "only_hooks u hs w" and "ev_fd_new rfd m cb d w = (r, w')"
  shows "only_hooks u hs w'" and "k_next w' = k_next w"
    and "case r of Inl e \<Rightarrow> held_now w' = held_now w
      | Inr f \<Rightarrow> h_next w \<le> f \<and>
          (\<exists>fd. fd_ref fd = 1 \<and> held_now w' = ((w_fds w)(f \<mapsto> fd), k_open w))"
  using assms
  by (auto simp: only_hooks_def held_now_def ev_fd_new_def alloc_def ask_def put_fd_def
      intro!: exI [of _ "\<lparr>fd_ref = Suc 0, fd_fd = nat rfd, fd_mask = m, fd_cb = cb, fd_data = d,
        fd_enabled = True, fd_loop = None\<rparr>"]
      split: list.splits answer.splits if_splits)

lemma only_hooks_undo:
  assumes "only_hooks u hs w"
  shows "only_hooks u hs (sys_close k w)" and "held_now (sys_close k w) = (w_fds w, k_open w - {k})"
    and "w_fds w f = Some fd \<Longrightarrow> fd_ref fd = 1 \<Longrightarrow> only_hooks u hs (ev_fd_unref f w) \<and>
      held_now (ev_fd_unref f w) = ((w_fds w)(f := None), k_open w)"
  using assms by (simp_all add: only_hooks_def held_now_def sys_close_def ev_fd_unref_def put_fd_def)

lemma only_hooks_epoll:
  assumes "only_hooks u hs w" and "epoll_ctl_add e k ev p w = (r, w')"
  shows "only_hooks u hs w'" and "held_now w' = held_now w"
  using assms
  by (auto simp: only_hooks_def held_now_def epoll_ctl_add_def ask_def
      split: list.splits option.splits if_splits)

lemma failed_open_undone:
  assumes o: "only_hooks u [q, p, i, c] w" and same: "held_now w = held_now u"
    and fresh: "\<And>h. h_next u \<le> h \<Longrightarrow> h_hooks u h = None" "\<And>h. h_next u \<le> h \<Longrightarrow> w_fds u h = None"
    and unused: "\<And>k. k_next u \<le> k \<Longrightarrow> k \<notin> k_open u"
    and fails: "(case sys_open w of (Inl e, w) \<Rightarrow> (Inl e, err_posts q p i c w) | (Inr efd, w) \<Rightarrow>
       (case ev_fd_new (int efd) EV_READABLE (Some Fn_eloop) l w of
          (Inl e, w) \<Rightarrow> (Inl e, err_posts q p i c (sys_close efd w))
        | (Inr fd, w) \<Rightarrow>
       (case sys_open w of
          (Inl _, w) \<Rightarrow> (Inl EFAULT, err_posts q p i c (sys_close efd (ev_fd_unref fd w)))
        | (Inr idle, w) \<Rightarrow>
       (case epoll_ctl_add efd idle EPOLLIN (Ptr_loop l) w of
          (Some _, w) \<Rightarrow>
            (Inl EFAULT, err_posts q p i c (sys_close efd (ev_fd_unref fd (sys_close idle w))))
        | (None, w) \<Rightarrow> (Inr l, fin efd fd idle w))))) = (Inl e, w')"
  shows "only_hooks u [] w' \<and> held_now w' = held_now u"
proof -
  have err: "only_hooks u [] (err_posts q p i c v) \<and> held_now (err_posts q p i c v) = held_now v"
    if "only_hooks u [q, p, i, c] v" for v
    unfolding err_posts_fold by (rule only_hooks_free [OF that fresh(1)])
  obtain r7 w7 where s7: "sys_open w = (r7, w7)" by (meson surj_pair)
  note o7 = only_hooks_open [OF o s7]
  show ?thesis
  proof (cases r7)
    case (Inl e7)
    then show ?thesis using fails s7 o7 err same by auto
  next
    case (Inr efd)
    note e7 = o7(2) [unfolded Inr sum.case]
    have new: "efd \<notin> k_open u" using unused [of efd] e7 o by (simp add: only_hooks_def)
    obtain r8 w8 where s8: "ev_fd_new (int efd) EV_READABLE (Some Fn_eloop) l w7 = (r8, w8)" by (meson surj_pair)
    note o8 = only_hooks_source [OF o7(1) s8]
    show ?thesis
    proof (cases r8)
      case (Inl e8)
      then show ?thesis
        using fails s7 s8 \<open>r7 = _\<close> err [OF only_hooks_undo(1) [OF o8(1)]] only_hooks_undo(2) [OF o8(1)] o8 e7 same new
        by (auto simp: held_now_def)
    next
      case (Inr f)
      obtain fd where f: "h_next w7 \<le> f" "fd_ref fd = 1" "held_now w8 = ((w_fds w7)(f \<mapsto> fd), k_open w7)"
        using o8(3) Inr by auto
      have none: "w_fds u f = None" using fresh(2) [of f] f(1) o7(1) by (simp add: only_hooks_def)
      obtain r9 w9 where s9: "sys_open w8 = (r9, w9)" by (meson surj_pair)
      note o9 = only_hooks_open [OF o8(1) s9]
      show ?thesis
      proof (cases r9)
        case (Inl e9)
        have f9: "w_fds w9 f = Some fd" using o9(2) Inl f by (simp add: held_now_def)
        note un = only_hooks_undo(3) [OF o9(1) f9 f(2)]
        have "only_hooks u [q, p, i, c] (sys_close efd (ev_fd_unref f w9))"
          using only_hooks_undo(1) un by blast
        moreover have "held_now (sys_close efd (ev_fd_unref f w9)) = held_now u"
          using un only_hooks_undo(2) [of u "[q, p, i, c]" "ev_fd_unref f w9" efd] o9(2) Inl f e7 same none new
          by (auto simp: held_now_def fun_upd_idem)
        ultimately show ?thesis
          using fails s7 s8 s9 \<open>r7 = _\<close> \<open>r8 = _\<close> Inl err by auto
      next
        case (Inr idle)
        note e9 = o9(2) [unfolded Inr sum.case]
        have new2: "idle \<notin> k_open u" "idle \<noteq> efd"
          using unused [of idle] e9 e7 o8(2) o by (simp_all add: only_hooks_def)
        obtain ra wa where sa: "epoll_ctl_add efd idle EPOLLIN (Ptr_loop l) w9 = (ra, wa)" by (meson surj_pair)
        note oa = only_hooks_epoll [OF o9(1) sa]
        let ?wb = "sys_close idle wa"
        note ob = only_hooks_undo(1,2) [OF oa(1), of idle]
        have fb: "w_fds ?wb f = Some fd" using ob(2) oa(2) e9 f by (simp add: held_now_def)
        note un = only_hooks_undo(3) [OF ob(1) fb f(2)]
        have "only_hooks u [q, p, i, c] (sys_close efd (ev_fd_unref f ?wb))"
          using only_hooks_undo(1) un by blast
        moreover have "held_now (sys_close efd (ev_fd_unref f ?wb)) = held_now u"
          using un only_hooks_undo(2) [of u "[q, p, i, c]" "ev_fd_unref f ?wb" efd] ob(2) oa(2) e9 f e7 same none
            new new2
          by (auto simp: held_now_def fun_upd_idem)
        ultimately show ?thesis
          using fails s7 s8 s9 sa \<open>r7 = _\<close> \<open>r8 = _\<close> Inr err by (cases ra) auto
      qed
    qed
  qed
qed

text \<open>The making of a loop is undone from the step that fails.\<close>

lemma eloop_setup_undone:
  assumes inv: "einv w" and opened: "\<forall>k \<in> k_open w. k < k_next w"
    and start: "only_hooks w [] w2" "held_now w2 = held_now w" and run: "eloop_setup l b w2 = (Inl e, w')"
  shows "only_hooks w [] w' \<and> held_now w' = held_now w"
proof -
  have fresh: "h_hooks w h = None" "w_fds w h = None" if "h_next w \<le> h" for h
    using einv_below(1,2) [OF inv] that unfolding below_def by (meson domI leD not_None_eq)+
  have unused: "k \<notin> k_open w" if "k_next w \<le> k" for k using opened that by auto
  note undo = only_hooks_free [OF _ fresh(1)]
  obtain r3 w3 where s3: "shl_hook_new w2 = (r3, w3)" by (meson surj_pair)
  obtain r4 w4 where s4: "shl_hook_new w3 = (r4, w4)" by (meson surj_pair)
  obtain r5 w5 where s5: "shl_hook_new w4 = (r5, w5)" by (meson surj_pair)
  obtain r6 w6 where s6: "shl_hook_new w5 = (r6, w6)" by (meson surj_pair)
  note o3 = only_hooks_new [OF start(1) s3] and run3 = run [unfolded eloop_setup_def s3 prod.case]
  show ?thesis
  proof (cases r3)
    case (Inl e3)
    then show ?thesis using run3 o3 start(2) by simp
  next
    case (Inr c)
    note o3c = o3 [unfolded Inr sum.case] and run4 = run3 [unfolded Inr sum.case s4 prod.case]
    note o4 = only_hooks_new [OF o3c(1) s4]
    show ?thesis
    proof (cases r4)
      case (Inl e4)
      then show ?thesis using run4 start(2) o3c(2) o4 undo [of "[c]" w4] by (auto simp: err_childs_def)
    next
      case (Inr i)
      note o4i = o4 [unfolded Inr sum.case] and run5 = run4 [unfolded Inr sum.case s5 prod.case]
      note o5 = only_hooks_new [OF o4i(1) s5]
      show ?thesis
      proof (cases r5)
        case (Inl e5)
        then show ?thesis
          using run5 start(2) o3c(2) o4i(2) o5 undo [of "[i, c]" w5] by (auto simp: err_childs_def err_idlers_def)
      next
        case (Inr p)
        note o5p = o5 [unfolded Inr sum.case] and run6 = run5 [unfolded Inr sum.case s6 prod.case]
        note o6 = only_hooks_new [OF o5p(1) s6]
        show ?thesis
        proof (cases r6)
          case (Inl e6)
          then show ?thesis
            using run6 start(2) o3c(2) o4i(2) o5p(2) o6 undo [of "[p, i, c]" w6]
            by (auto simp: err_childs_def err_idlers_def err_pres_def)
        next
          case (Inr q)
          note o6q = o6 [unfolded Inr sum.case] and run7 = run6 [unfolded Inr sum.case]
          have same: "held_now w6 = held_now w" using start(2) o3c(2) o4i(2) o5p(2) o6q(2) by simp
          show ?thesis by (rule failed_open_undone [OF o6q(1) same fresh unused run7])
        qed
      qed
    qed
  qed
qed

text \<open>The steps in between do not touch the memory of the loop and of its array.\<close>

lemma alloc_memory: "w_memory (snd (alloc w)) = w_memory w" "h_next (snd (alloc w)) \<ge> h_next w"
  by (auto simp: alloc_def ask_def split: list.split answer.split)

lemma setup_memory [simp]:
  "w_memory (snd (shl_hook_new w)) = w_memory w" "w_memory (shl_hook_free h w) = w_memory w"
  "w_memory (snd (sys_open w)) = w_memory w" "w_memory (sys_close k w) = w_memory w"
  "w_memory (ev_fd_unref f w) = w_memory w" "w_memory (put_loop l v w) = w_memory w"
  "w_memory (snd (ev_fd_new rfd m cb d w)) = w_memory w"
  "w_memory (snd (epoll_ctl_add ep k ev p w)) = w_memory w"
  by (auto simp: shl_hook_new_def shl_hook_free_def put_hook_def sys_open_def sys_close_def ev_fd_unref_def put_fd_def
      put_loop_def ev_fd_new_def epoll_ctl_add_def crash_def alloc_def ask_def
      split: list.split answer.split option.split prod.split if_split)

lemma eloop_setup_memory: "w_memory (snd (eloop_setup l b w)) = w_memory w"
  by (simp add: eloop_setup_def case_prod_beta err_posts_def err_pres_def err_idlers_def err_childs_def
      split: sum.split option.split)

text \<open>
  Property C39. A loop that cannot be made leaves nothing behind: every object and hook is as before,
  every descriptor that was opened on the way is closed again, and the memory of the loop and of
  its array of events is free again, wherever it fails.
\<close>

theorem failed_loop_leaves_nothing:
  assumes "reach beh w" and "\<forall>k \<in> k_open w. k < k_next w" and "\<forall>a \<in> w_memory w. a < h_next w"
    and "ev_eloop_new w = (Inl e, w')"
  shows "w_fds w' = w_fds w \<and> w_loops w' = w_loops w \<and> h_hooks w' = h_hooks w \<and> k_open w' = k_open w \<and>
    w_memory w' = w_memory w"
proof -
  obtain a1 w1 where s1: "alloc w = (a1, w1)" by (meson surj_pair)
  note o1 = only_hooks_alloc [OF only_hooks_start s1] and m1 = alloc_memory [of w, unfolded s1 snd_conv]
  have steps: "only_hooks w [] (free_memory a v) \<and> held_now (free_memory a v) = held_now v"
    "only_hooks w [] (keep_memory a v) \<and> held_now (keep_memory a v) = held_now v" if "only_hooks w [] v" for a v
    using that by (simp_all add: only_hooks_def held_now_def free_memory_def keep_memory_def)
  have "only_hooks w [] w' \<and> held_now w' = held_now w \<and> w_memory w' = w_memory w"
  proof (cases a1)
    case None
    then show ?thesis using assms(4) s1 o1 m1 by (simp add: ev_eloop_new_def)
  next
    case (Some l)
    then have l: "l = h_next w" "h_next w1 = Suc l" using alloc_Some [of w l w1] s1 by auto
    obtain a2 w2 where s2: "alloc (keep_memory l w1) = (a2, w2)" by (meson surj_pair)
    note k1 = steps(2) [OF o1(1), of l]
    note o2 = only_hooks_alloc [OF conjunct1 [OF k1] s2] and m2 = alloc_memory [of "keep_memory l w1", unfolded s2 snd_conv]
    have mem2: "w_memory w2 = insert l (w_memory w)" using m1 m2 by (simp add: keep_memory_def)
    note new1 = assms(4) [unfolded ev_eloop_new_def s1 Some prod.case option.case s2]
    have unused: "l \<notin> w_memory w" using assms(3) l(1) by auto
    show ?thesis
    proof (cases a2)
      case None
      then show ?thesis
        using new1 o1(2) o2 k1 steps(1) [OF o2(1), of l] mem2 unused by (auto simp: err_free_def) (simp_all add: free_memory_def)
    next
      case (Some b)
      then have b: "b = Suc l" using alloc_Some [of "keep_memory l w1" b w2] s2 l by simp
      then have "b \<notin> w_memory w" using assms(3) l(1) by auto
      obtain r3 w3 where s3: "eloop_setup l b (keep_memory b w2) = (r3, w3)" by (meson surj_pair)
      have r3: "r3 = Inl e" "w' = err_fds l b w3"
        using new1 [unfolded Some option.case s3 prod.case] by (auto split: sum.splits)
      note k2 = steps(2) [OF o2(1), of b]
      have "held_now (keep_memory b w2) = held_now w" using k2 o2(2) k1 o1(2) by simp
      from eloop_setup_undone [OF reach_einv [OF assms(1)] assms(2) conjunct1 [OF k2] this s3 [unfolded r3(1)]]
      have o3: "only_hooks w [] w3" "held_now w3 = held_now w" by simp_all
      have "w_memory w3 = insert b (insert l (w_memory w))"
        using eloop_setup_memory [of l b "keep_memory b w2", unfolded s3 snd_conv] mem2 by (simp add: keep_memory_def)
      moreover have "w_memory (err_fds l b w3) = w_memory w3 - {b} - {l}" by (simp add: err_fds_def err_free_def free_memory_def)
      ultimately have "w_memory w' = w_memory w" using r3(2) unused \<open>b \<notin> w_memory w\<close> by auto
      moreover have "only_hooks w [] w' \<and> held_now w' = held_now w"
        using steps(1) o3 unfolding r3(2) err_fds_def err_free_def by metis
      ultimately show ?thesis by blast
    qed
  qed
  then show ?thesis by (auto simp: only_hooks_def held_now_def)
qed

section \<open>An example\<close>

lemmas kernel_eqs = alloc_def ask_def fault_def sys_open_def sys_close_def epoll_ctl_add_def
  epoll_ctl_del_def efault_def sys_epoll_wait_def sys_read_def sys_write_eventfd_def write_eventfd_def
  put_fd_def put_loop_def put_timer_def put_counter_def put_sig_def put_hook_def crash_def

lemmas source_eqs = ev_fd_new_def ev_fd_ref_def ev_fd_unref_def fd_epoll_add_def fd_epoll_remove_def
  with_loop_def epoll_mask_def convert_mask_def ev_flags ev_eloop_add_fd_def ev_eloop_new_fd_def
  ev_eloop_rm_fd_def rm_fd_with_def ev_eloop_flush_fd_def flush_ptr_def

lemmas hook_eqs = shl_hook_new_def shl_hook_add_def shl_hook_add_single_def shl_hook_rm_def
  shl_hook_free_def shl_hook_num_def shl_hook_call_def end_call_def first_entry_def entry_is_def
  rm_entry_def unlink_entry_def

lemmas loop_eqs = ev_eloop_new_def eloop_setup_def err_free_def err_fds_def keep_memory_def free_memory_def ev_eloop_new_eloop_def ev_eloop_add_eloop_def ev_eloop_ref_def
  ev_eloop_unref_def ev_eloop_rm_eloop_def

lemmas dispatch_eqs = dispatch_body_def dispatch_round_def out_dispatch_def grow_events_def
  dispatch_one_def run_fd_cb_def call_user_def

text \<open>Loop 7 inside loop 0, with the source 14 on the descriptor 9, which is readable.\<close>

definition two_loops :: world where
  "two_loops = api_step (On_loop (New_loop 0)) (api_step (On_loop Loop_new) empty_world)"

definition with_source :: world where
  "with_source = api_step (On_fd (New_fd 7 9 EV_READABLE (Some 5) 0)) two_loops"

definition with_event :: world where
  "with_event = kernel_step [] (\<lambda>_. 0) (\<lambda>_. []) [Poll_events [(9, EPOLLIN)]] [] [] with_source"

abbreviation fresh_hook :: "hook_fn shl_hook" where
  "fresh_hook \<equiv> \<lparr>hk_num = 0, hk_entries = [], hk_cur = No_entry, hk_dead = False\<rparr>"

abbreviation example_fd :: ev_fd where
  "example_fd \<equiv> \<lparr>fd_ref = 1, fd_fd = 9, fd_mask = EV_READABLE, fd_cb = Some (Fn_user 5), fd_data = 0,
     fd_enabled = True, fd_loop = Some 7\<rparr>"

lemma one_loop_eq:
  "api_step (On_loop Loop_new) empty_world =
     \<lparr>h_hooks = [2 \<mapsto> fresh_hook, 3 \<mapsto> fresh_hook, 4 \<mapsto> fresh_hook, 5 \<mapsto> fresh_hook], h_next = 7,
      h_answers = [], h_crash = False, h_stuck = False,
      w_fds = [6 \<mapsto> \<lparr>fd_ref = 1, fd_fd = 0, fd_mask = 1, fd_cb = Some Fn_eloop, fd_data = 0,
                    fd_enabled = True, fd_loop = None\<rparr>],
      w_loops = [0 \<mapsto> \<lparr>el_ref = 1, el_efd = 0, el_fd = 6, el_idle_fd = 1, el_sigs = [], el_chlds = 2,
                      el_idlers = 3, el_pres = 4, el_posts = 5, el_dispatching = False, el_cur = [],
                      el_size = 32, el_exit = False, el_array = 1\<rparr>],
      w_timers = Map.empty, w_counters = Map.empty, w_sigs = Map.empty, k_next = 2, k_open = {1, 0},
      k_epoll = (\<lambda>_. Map.empty)(1 := Map.empty, 0 := [1 \<mapsto> (1, Ptr_loop 0)]),
      k_count = (\<lambda>_. 0), k_siginfo = (\<lambda>_. []), k_spec = (\<lambda>_. (0, 0)), k_polls = [], k_clock = [],
      k_wait = [], w_trace = [], w_memory = {1, 0}\<rparr>"
  by (simp add: empty_world_def kernel_eqs source_eqs hook_eqs loop_eqs eval_nat_numeral)
     (simp add: fun_upd_def)

lemma with_event_eq:
  "with_event =
     \<lparr>h_hooks = [2 \<mapsto> fresh_hook, 3 \<mapsto> fresh_hook, 4 \<mapsto> fresh_hook, 5 \<mapsto> fresh_hook,
                 9 \<mapsto> fresh_hook, 10 \<mapsto> fresh_hook, 11 \<mapsto> fresh_hook, 12 \<mapsto> fresh_hook],
      h_next = 15, h_answers = [], h_crash = False, h_stuck = False,
      w_fds = [6 \<mapsto> \<lparr>fd_ref = 1, fd_fd = 0, fd_mask = 1, fd_cb = Some Fn_eloop, fd_data = 0,
                    fd_enabled = True, fd_loop = None\<rparr>,
               13 \<mapsto> \<lparr>fd_ref = 2, fd_fd = 2, fd_mask = 1, fd_cb = Some Fn_eloop, fd_data = 7,
                     fd_enabled = True, fd_loop = Some 0\<rparr>,
               14 \<mapsto> example_fd],
      w_loops = [0 \<mapsto> \<lparr>el_ref = 2, el_efd = 0, el_fd = 6, el_idle_fd = 1, el_sigs = [], el_chlds = 2,
                      el_idlers = 3, el_pres = 4, el_posts = 5, el_dispatching = False, el_cur = [],
                      el_size = 32, el_exit = False, el_array = 1\<rparr>,
                 7 \<mapsto> \<lparr>el_ref = 2, el_efd = 2, el_fd = 13, el_idle_fd = 3, el_sigs = [], el_chlds = 9,
                      el_idlers = 10, el_pres = 11, el_posts = 12, el_dispatching = False,
                      el_cur = [], el_size = 32, el_exit = False, el_array = 8\<rparr>],
      w_timers = Map.empty, w_counters = Map.empty, w_sigs = Map.empty, k_next = 4,
      k_open = {3, 2, 1, 0},
      k_epoll = (\<lambda>_. Map.empty)(1 := Map.empty, 3 := Map.empty,
                  0 := [1 \<mapsto> (1, Ptr_loop 0), 2 \<mapsto> (1, Ptr_fd 13)],
                  2 := [3 \<mapsto> (1, Ptr_loop 7), 9 \<mapsto> (1, Ptr_fd 14)]),
      k_count = (\<lambda>_. 0), k_siginfo = (\<lambda>_. []), k_spec = (\<lambda>_. (0, 0)),
      k_polls = [Poll_events [(9, EPOLLIN)]], k_clock = [], k_wait = [], w_trace = [], w_memory = {8, 7, 1, 0}\<rparr>"
  unfolding with_event_def with_source_def two_loops_def one_loop_eq
  by (simp add: kernel_step_def kernel_eqs source_eqs hook_eqs loop_eqs user_fd_def eval_nat_numeral)

text \<open>A client whose callback removes the source it is called for.\<close>

definition example_beh :: "ucall \<Rightarrow> world \<Rightarrow> api list" where
  "example_beh c w = (case c of Call_fd l f fd m \<Rightarrow> [On_fd (Rm_fd f)] | _ \<Rightarrow> [])"

definition after_dispatch :: world where
  "after_dispatch = snd (ev_eloop_dispatch (client_run example_beh) 3 0 7 with_event)"

lemma reach_with_event: "reach beh with_event"
proof -
  have 1: "reach beh (api_step (On_loop Loop_new) empty_world)" by (intro reach.intros) simp
  have 2: "reach beh two_loops"
    unfolding two_loops_def by (rule reach.call [OF 1]) (simp add: one_loop_eq has_loop_def del: api_step.simps)
  have "w_loops two_loops 7 \<noteq> None"
    unfolding two_loops_def one_loop_eq
    by (simp add: kernel_eqs source_eqs hook_eqs loop_eqs eval_nat_numeral)
  then have "reach beh with_source"
    unfolding with_source_def by (intro reach.call [OF 2]) (simp add: has_loop_def)
  then show ?thesis unfolding with_event_def by (rule reach.kernel)
qed

lemma reach_after_dispatch: "reach example_beh after_dispatch"
  unfolding after_dispatch_def
  by (rule reach.dispatch [OF reach_with_event])
     (simp add: with_event_eq may_dispatch_def is_bound_def)

lemma after_dispatch_trace:
  "w_trace after_dispatch = [Wait_events 7 0, Call_fd 7 14 example_fd EV_READABLE]"
  "w_fds after_dispatch 14 = None"
  unfolding after_dispatch_def with_event_eq
  by (simp_all add: dispatch_eqs kernel_eqs source_eqs hook_eqs loop_eqs client_run_def example_beh_def
      perform_def client_fd_def eval_nat_numeral)

theorem event_loop_is_safe_witness:
  "w_trace after_dispatch = [Wait_events 7 0, Call_fd 7 14 example_fd EV_READABLE] \<and>
   \<not> h_crash after_dispatch \<and> call_ok (Call_fd 7 14 example_fd EV_READABLE)"
  using event_loop_is_safe [OF reach_after_dispatch] after_dispatch_trace(1) by simp

theorem poll_sets_match_sources_witness:
  "\<exists>f fd. Ptr_fd 14 = Ptr_fd f \<and> w_fds with_event f = Some fd \<and> fd_loop fd = Some 7 \<and> fd_enabled fd \<and> fd_fd fd = 9"
proof -
  obtain lp where lp: "w_loops with_event 7 = Some lp" "el_efd lp = 2" by (simp add: with_event_eq)
  have "k_epoll with_event (el_efd lp) 9 = Some (1, Ptr_fd 14)" using lp(2) by (simp add: with_event_eq)
  with poll_sets_match_sources [OF reach_with_event lp(1)]
  have "Ptr_fd 14 = Ptr_loop 7 \<or> ?thesis" by blast
  then show ?thesis by simp
qed

lemma failing_new:
  "fst (ev_eloop_new (empty_world\<lparr>h_answers := replicate 8 Yes @ [Fault EAGAIN]\<rparr>)) = Inl EFAULT"
  by (simp add: empty_world_def kernel_eqs source_eqs hook_eqs loop_eqs eval_nat_numeral)

theorem failed_loop_leaves_nothing_witness:
  "k_open (snd (ev_eloop_new (empty_world\<lparr>h_answers := replicate 8 Yes @ [Fault EAGAIN]\<rparr>))) = {} \<and>
   w_memory (snd (ev_eloop_new (empty_world\<lparr>h_answers := replicate 8 Yes @ [Fault EAGAIN]\<rparr>))) = {}"
proof -
  let ?as = "replicate 8 Yes @ [Fault EAGAIN]"
  have w: "empty_world\<lparr>h_answers := ?as\<rparr> = kernel_step ?as (\<lambda>_. 0) (\<lambda>_. []) [] [] [] empty_world"
    by (simp add: kernel_step_def empty_world_def)
  have "reach example_beh (empty_world\<lparr>h_answers := ?as\<rparr>)" unfolding w by (intro reach.intros)
  moreover have "ev_eloop_new (empty_world\<lparr>h_answers := ?as\<rparr>) =
      (Inl EFAULT, snd (ev_eloop_new (empty_world\<lparr>h_answers := ?as\<rparr>)))"
    using failing_new by (metis prod.collapse)
  moreover have "\<forall>k \<in> k_open (empty_world\<lparr>h_answers := ?as\<rparr>). k < k_next (empty_world\<lparr>h_answers := ?as\<rparr>)"
    "\<forall>a \<in> w_memory (empty_world\<lparr>h_answers := ?as\<rparr>). a < h_next (empty_world\<lparr>h_answers := ?as\<rparr>)"
    by (simp_all add: empty_world_def)
  ultimately show ?thesis using failed_loop_leaves_nothing by (simp add: empty_world_def)
qed

end
