(* ===== verification/Eloop_Faults.thy ===== *)
theory Eloop_Faults
  imports Eloop_Spec
begin

text \<open>
  Idle callbacks, and the places where the event loop does not do what its documentation says.
\<close>

section \<open>Idle callbacks\<close>

text \<open>
  Property C40. After an idle callback was registered the counter that wakes its loop is not zero,
  so the next wait for events returns at once and runs the callback.
\<close>

theorem idle_registration_wakes_loop:
  assumes "ev_eloop_register_idle_cb l (Some c) d fl w = (ok, w')" and "reach beh w"
    and "w_loops w l = Some lp"
  shows "0 < k_count w' (el_idle_fd lp) \<and> w_loops w' l = Some lp \<and>
    (\<exists>hk. h_hooks w' (el_idlers lp) = Some hk \<and>
       (\<exists>e \<in> set (hk_entries hk). he_cb e = c \<and> he_data e = d))"
proof (intro conjI)
  note inv = reach_einv [OF assms(2)]
  obtain hk where hk: "h_hooks w (el_idlers lp) = Some hk" using loop_hook [OF inv assms(3)] hooks_in(2) by blast
  have fl: "fl AND NOT EV_IDLE_ALL = 0" using assms(1,3) by (auto simp: ev_eloop_register_idle_cb_def split: if_splits)
  obtain r1 w1 where a: "(if fl AND EV_SINGLE \<noteq> 0
       then shl_hook_add_single (el_idlers lp) (Some c) d (fl AND EV_ONESHOT \<noteq> 0) w
       else shl_hook_add (el_idlers lp) (Some c) d (fl AND EV_ONESHOT \<noteq> 0) w) = (r1, w1)" by (meson surj_pair)
  obtain r2 w2 where e: "write_eventfd (el_idle_fd lp) 1 w1 = (r2, w2)" by (meson surj_pair)
  have r: "r1 = ok" "r2 = ok" "w' = w2"
    using assms(1,3) fl a e by (auto simp: ev_eloop_register_idle_cb_def split: option.splits)
  have added: "w_loops w1 = w_loops w \<and> (\<exists>hk. h_hooks w1 (el_idlers lp) = Some hk \<and>
      (\<exists>e \<in> set (hk_entries hk). he_cb e = c \<and> he_data e = d))"
    using a r(1) hk
    by (auto simp: shl_hook_add_single_def shl_hook_add_def entry_is_def alloc_def ask_def put_hook_def
        split: if_splits option.splits list.splits answer.splits)
  have written: "w_loops w2 = w_loops w1 \<and> h_hooks w2 = h_hooks w1"
    using quiet_eqs(2,6) [OF write_eventfd_quiet [OF e]] by simp
  show "0 < k_count w' (el_idle_fd lp)"
    using e r
    by (auto simp: write_eventfd_def efault_def sys_write_eventfd_def ask_def
        split: prod.splits option.splits list.splits if_splits)
  show "w_loops w' l = Some lp" using added written r(3) assms(3) by simp
  show "\<exists>hk. h_hooks w' (el_idlers lp) = Some hk \<and> (\<exists>e \<in> set (hk_entries hk). he_cb e = c \<and> he_data e = d)"
    using added written r(3) by simp
qed

definition idle_world :: world where
  "idle_world = api_step (On_hook (Register_idle 0 (Some 4) 0 EV_SINGLE)) (api_step (On_loop Loop_new) empty_world)"

lemma reach_one_loop: "reach beh (api_step (On_loop Loop_new) empty_world)"
  by (intro reach.intros) simp

lemma reach_idle_world: "reach beh idle_world"
  unfolding idle_world_def
  by (rule reach.call [OF reach_one_loop]) (simp add: one_loop_eq has_loop_def del: api_step.simps)

lemma idle_flags [simp]: "EV_SINGLE AND NOT EV_IDLE_ALL = 0" "EV_SINGLE \<noteq> 0"
  "EV_SINGLE AND EV_ONESHOT = 0"
  by (simp_all add: EV_IDLE_ALL_def EV_ONESHOT_def EV_SINGLE_def)

lemmas idle_eqs = ev_eloop_register_idle_cb_def user_hook_def

theorem idle_registration_wakes_loop_witness:
  "0 < k_count idle_world 1"
proof -
  let ?w = "api_step (On_loop Loop_new) empty_world"
  obtain lp where lp: "w_loops ?w 0 = Some lp" "el_idle_fd lp = 1" by (simp add: one_loop_eq del: api_step.simps)
  have "fst (ev_eloop_register_idle_cb 0 (Some (Hook_user 4)) 0 EV_SINGLE ?w) = ok"
    unfolding one_loop_eq by (simp add: kernel_eqs hook_eqs idle_eqs)
  then have "ev_eloop_register_idle_cb 0 (Some (Hook_user 4)) 0 EV_SINGLE ?w = (ok, idle_world)"
    by (simp add: idle_world_def user_hook_def prod_eq_iff del: api_step.simps(1))
  from idle_registration_wakes_loop [OF this reach_one_loop lp(1)] show ?thesis using lp(2) by simp
qed

section \<open>Where the code differs from its documentation\<close>

text \<open>
  When the callback of a shared signal cannot be added, the signal is freed, although other
  callbacks are registered for it: they are never called again.
\<close>

theorem failed_signal_registration_drops_others:
  assumes "reach beh w" and "w_loops w l = Some lp" and "0 \<le> n"
    and "find_sig (w_sigs w) (nat n) (el_sigs lp) = Some s" and "h_answers w = Fault e # as"
  shows "fst (ev_eloop_register_signal_cb l n (Some c) d w) \<noteq> ok"
    and "w_sigs w s \<noteq> None" and "w_sigs (snd (ev_eloop_register_signal_cb l n (Some c) d w)) s = None"
proof -
  note inv = reach_einv [OF assms(1)]
  obtain sg where sg: "w_sigs w s = Some sg" using find_sig_Some [OF assms(4)] by blast
  obtain fd where fd: "w_fds w (sg_fd sg) = Some fd"
    using sigs_okD(1) [OF einv_sigs [OF inv] sg] by auto
  obtain lq where lq: "w_loops w (sg_list sg) = Some lq"
    using sigs_okD(2) [OF einv_sigs [OF inv] sg] by auto
  let ?w1 = "w\<lparr>h_answers := as\<rparr>"
  have "shl_hook_add (sg_hook sg) (Some c) d False w = (fails ENOMEM, ?w1)"
    using assms(5) by (simp add: shl_hook_add_def alloc_def ask_def)
  then have "ev_eloop_register_signal_cb l n (Some c) d w = (fails ENOMEM, signal_free s ?w1)"
    using assms(2,3,4) sg by (simp add: ev_eloop_register_signal_cb_def)
  moreover have "w_sigs (signal_free s ?w1) s = None"
    using sg fd lq by (simp add: signal_free_def signal_free_with_def Let_def put_sig_def)
  ultimately show "fst (ev_eloop_register_signal_cb l n (Some c) d w) \<noteq> ok"
    and "w_sigs w s \<noteq> None" and "w_sigs (snd (ev_eloop_register_signal_cb l n (Some c) d w)) s = None"
    using sg by simp_all
qed

text \<open>
  When \<open>EV_SINGLE\<close> is given for a callback that is registered already and the counter cannot be
  written, the old registration is removed.
\<close>

theorem failed_single_idle_unregisters:
  assumes "w_loops w l = Some lp" and "h_hooks w (el_idlers lp) = Some hk"
    and "filter (entry_is c d) (hk_entries hk) = es @ [e]" and "h_answers w = Fault err # as"
  shows "fst (ev_eloop_register_idle_cb l (Some c) d EV_SINGLE w) = fails EFAULT"
    and "h_hooks (snd (ev_eloop_register_idle_cb l (Some c) d EV_SINGLE w)) (el_idlers lp) =
         Some (rm_entry e hk)"
proof -
  have "e \<in> set (filter (entry_is c d) (hk_entries hk))" using assms(3) by simp
  then have ex: "\<exists>x \<in> set (hk_entries hk). entry_is c d x" by auto
  have "filter (entry_is c d) (rev (hk_entries hk)) = e # rev es" using assms(3) by (simp add: rev_filter [symmetric])
  then show "fst (ev_eloop_register_idle_cb l (Some c) d EV_SINGLE w) = fails EFAULT"
    and "h_hooks (snd (ev_eloop_register_idle_cb l (Some c) d EV_SINGLE w)) (el_idlers lp) = Some (rm_entry e hk)"
    using assms ex
    by (auto simp: ev_eloop_register_idle_cb_def shl_hook_add_single_def idle_eqs write_eventfd_def efault_def
        sys_write_eventfd_def ask_def fault_def shl_hook_rm_def put_hook_def)
qed

lemma destroyed_loop: "w_loops w l = Some lp \<Longrightarrow> w_loops (eloop_destroy l w) l = None"
  by (simp add: eloop_destroy_def Let_def put_loop_def)

lemma dispatch_without_loop:
  "w_loops w l = None \<Longrightarrow> h_crash (snd (out_dispatch user n l ret (grow_events l count w)))"
  by (simp add: grow_events_def out_dispatch_def crash_def)

text \<open>The state in which the callback of the example is called.\<close>

definition called_world :: world where
  "called_world = with_event\<lparr>
     h_hooks := (h_hooks with_event)(11 \<mapsto> fresh_hook),
     w_loops := (w_loops with_event)(7 \<mapsto> (the (w_loops with_event 7))
       \<lparr>el_dispatching := True, el_cur := [(EPOLLIN, Ptr_fd 14)]\<rparr>),
     k_polls := [], w_trace := [Wait_events 7 0, Call_fd 7 14 example_fd EV_READABLE]\<rparr>"

lemma dispatch_calls:
  "snd (ev_eloop_dispatch user 3 0 7 with_event) =
     snd (out_dispatch user 3 7 ok
       (grow_events 7 1 (user (Call_fd 7 14 example_fd EV_READABLE) called_world)))"
  unfolding called_world_def with_event_eq
  by (simp add: dispatch_body_def dispatch_round_def dispatch_one_def run_fd_cb_def call_user_def
      kernel_eqs hook_eqs convert_mask_def ev_flags eval_nat_numeral)

text \<open>
  The head of \<open>eloop.c\<close> allows any operation inside a callback, also on the active source. When a
  callback removes its source and then the loop that is calling it from the parent, and nobody else
  holds the loop, as \<open>ev_eloop_new_eloop\<close> leaves it, the loop is freed while it is dispatching: the
  dispatcher goes on with the freed loop. It does not hold a reference of its own.
\<close>

theorem self_removal_is_use_after_free:
  "\<not> h_crash with_event \<and>
   h_crash (snd (ev_eloop_dispatch
     (\<lambda>c w. case c of Call_fd l f fd m \<Rightarrow> ev_eloop_rm_eloop l (ev_eloop_rm_fd f w) | _ \<Rightarrow> w) 3 0 7 with_event))"
proof -
  have "w_loops (ev_eloop_rm_eloop 7 (ev_eloop_rm_fd 14 called_world)) 7 = None"
    unfolding called_world_def with_event_eq
    by (simp add: destroyed_loop Let_def loop_eqs source_eqs kernel_eqs)
  then show ?thesis using dispatch_without_loop by (simp add: dispatch_calls) (simp add: with_event_eq)
qed

text \<open>
  \<open>ev_eloop_run\<close> is documented to run exactly for its timeout, but every dispatch gets the whole
  timeout again: here a run of 100 milliseconds waits another 100 after 90 have passed.
\<close>

theorem run_waits_the_whole_timeout_again:
  "w_trace (snd (ev_eloop_run (\<lambda>_ w. w) 5 5 100 0
     (kernel_step [] (\<lambda>_. 0) (\<lambda>_. []) [] [(0, 0), (0, 90000), (0, 190000)] []
        (api_step (On_loop Loop_new) empty_world)))) =
   [Wait_events 0 100, Wait_events 0 100]"
  unfolding one_loop_eq
  by (rule trans, simp add: kernel_step_def ev_eloop_run_def sys_gettimeofday_def elapsed_def dispatch_eqs
      kernel_eqs source_eqs hook_eqs loop_eqs eval_nat_numeral) simp

end
