(* ===== verification/Spec2Isabelle.thy ===== *)
theory Spec2Isabelle
  imports Ring Misc Terminal_Spec Seat_Spec Sources_Spec Collector_Spec Config_Spec Input_Spec Host_Login_Spec Bbulk_Spec Bbulk_Glyphs Eloop_Faults
begin

text \<open>
  A verification of faceplate, a fork of kmscon: a console for Linux appliances that draws a
  terminal emulator, inside a fixed scene of status lines, straight on the kernel's display
  devices.

  \<^bold>\<open>The program.\<close> One event loop (\<open>src/shl/eloop.c\<close>, on the callback lists of
  \<open>src/shl/hook.h\<close>) drives everything. A seat (\<open>src/seat.c\<close>) owns the displays, the input devices
  and a list of sessions, of which one is current; each session owns a terminal
  (\<open>src/terminal.c\<close>). A terminal feeds the bytes of a pseudo terminal to libtsm, draws its screen
  with a renderer on every display, asks the displays for page flips, and shows the lines that the
  status sources (\<open>src/faceplate_*.c\<close>) read from files under \<open>/run\<close>. When the events file says that
  the console is locked, the terminal closes the login and shows a passive feed instead. Keyboards,
  pointers and touch devices (\<open>src/input/\<close>) become events for the seat and the terminal. The
  options come from the command line and from files (\<open>src/misc/conf.c\<close>, \<open>src/config.c\<close>).

  \<^bold>\<open>How code becomes definitions.\<close> A structure is a record, an enumeration or tagged union a
  datatype, a machine integer a word where its width matters, an operation a function that takes
  the state and returns it, with the names of the source. A failing function returns a \<open>status\<close>
  (\<open>None\<close> for \<open>0\<close>) or a sum with the error on the left. What the code asks of the world (allocator,
  kernel, libtsm, libxkbcommon, display drivers, file system) comes as an argument of the
  definitions or as a list of answers, so that every theorem holds for all answers; calls that leave
  the modelled part are recorded in order in a trace.

  \<^bold>\<open>The theories and the source.\<close>

  \<^item> \<open>Prelude\<close> (words, error numbers, generic facts), \<open>Cstring\<close> and \<open>Strtol\<close> (what the parsers use of
    the C library: character classes, searching, decimal numbers, bounded copies, files read in
    pieces).
  \<^item> \<open>Ring\<close>: the byte ring of \<open>shl/ring.h\<close>, with the queue contract \<open>byte_queue\<close> as a locale.
    \<open>Misc\<close>: \<open>shl/misc.h\<close>. \<open>Lru\<close>: the glyph cache of \<open>shl/lru.h\<close>, with the locale \<open>memo_cache\<close>.
  \<^item> \<open>Hook\<close>: \<open>shl/hook.h\<close>. \<open>Eloop\<close>: all of \<open>shl/eloop.c\<close>; \<open>Eloop_Inv\<close> the invariant (references,
    poll sets, owners of internal sources), \<open>Eloop_Ops\<close> and \<open>Eloop_Client\<close> its preservation by every
    operation, \<open>Eloop_Api\<close> the operations as a type and the rules a client has to keep,
    \<open>Eloop_Dispatch\<close> the dispatcher with callbacks that change what it works on (locale
    \<open>ev_client\<close>), \<open>Eloop_Spec\<close> the runs and their properties, \<open>Eloop_Faults\<close> the places where code
    and documentation differ.
  \<^item> \<open>Status\<close>, \<open>Events\<close>, \<open>Sources\<close>, \<open>Collector\<close>: the three parsers and the publisher of
    \<open>faceplate_status.c\<close>, \<open>faceplate_events.c\<close>, \<open>faceplate_sources.c\<close> and \<open>faceplate_collector.c\<close>;
    \<open>Display_Context\<close> the structure they fill; \<open>Sources_Spec\<close> and \<open>Collector_Spec\<close> their properties
    and those they have together with the terminal.
  \<^item> \<open>Text\<close>: the front end of the renderers, \<open>render/text.c\<close>. \<open>Bbulk\<close>: the software renderer,
    \<open>render/bbulk.c\<close>; \<open>Bbulk_Facts\<close>, \<open>Bbulk_Draw\<close>, \<open>Bbulk_Pixels\<close>, \<open>Bbulk_Chrome\<close>, \<open>Bbulk_Pointer\<close>,
    \<open>Bbulk_Damage\<close> and \<open>Bbulk_Frames\<close> go from one cell to whole frames on a display with two buffers;
    \<open>Bbulk_Spec\<close> and \<open>Bbulk_Glyphs\<close> hold the properties.
  \<^item> \<open>Terminal\<close> and \<open>Terminal_Events\<close>: \<open>terminal.c\<close>; \<open>Terminal_Facts\<close> what the operations leave alone,
    \<open>Terminal_Login\<close> the login and the references to displays, \<open>Terminal_Flip\<close> the page flips as a
    small machine that the terminal refines, \<open>Terminal_Size\<close> sizes and the pointer's cell,
    \<open>Terminal_Spec\<close> the properties.
  \<^item> \<open>Seat\<close> and \<open>Seat_Events\<close>: \<open>seat.c\<close>; \<open>Seat_Facts\<close> (locale \<open>session_contract\<close>: what holds of one
    terminal holds of the terminals of all sessions), \<open>Seat_Sessions\<close> the bookkeeping,
    \<open>Seat_Spec\<close> the properties.
  \<^item> \<open>Conf\<close>: \<open>misc/conf.c\<close> with the option types; \<open>Config\<close>: the table and the loading of \<open>config.c\<close>;
    \<open>Conf_Spec\<close> and \<open>Config_Spec\<close> their properties.
  \<^item> \<open>Input_Types\<close>, \<open>Pointer\<close>, \<open>Keyboard\<close>, \<open>Input\<close>: \<open>input_pointer.c\<close>, \<open>input_uxkb.c\<close> and \<open>input.c\<close>;
    \<open>Input_Spec\<close> the properties, for all passes over the devices at once (locale \<open>device_pass\<close>).
  \<^item> \<open>Host_Login\<close>: the login helper and its client, \<open>misc/host_session.c\<close> and
    \<open>faceplate_host_login.c\<close>; \<open>Host_Login_Spec\<close> what the helper runs, the way of a request through
    both of them, and three places where the helper does less than it means to.

  \<^bold>\<open>What the lemmas show.\<close> Safety: a locked console hands no key, paste or mouse event to libtsm and opens
  no login, only the files of the sources lock it, and nothing that is in the feed can steer the
  terminal; only the terminal of the current session of a foreground seat is awake; the event loop
  touches no freed object in any run of clients that keep the rules, calls a descriptor only while
  its source is enabled and bound, and a timer or a counter only while it is bound (the code calls
  those once more after it has disabled them for a failure); the login helper runs nothing but the
  login program; manifests register only when they are trusted. Bookkeeping: displays, devices,
  sessions and references are taken once and given back once, on the error paths too. Refinement:
  frame scheduling is a machine of three flags, the screen that a run of the renderer shows is the
  picture computed afresh from the cells (upright screens, glyphs of one cell), the ring is a queue,
  the cache is a list of the entries used last, the publisher replaces the snapshot in one step.
  Parsers: bounded output, round trips with what the writers print, reading by lines, termination.
  Where the code falls short of what it means to do, a theorem shows the run in which it does.

  \<^bold>\<open>Runs, fuel, bounds.\<close> Runs are inductive sets (\<open>reach\<close> of the event loop,
  \<open>term_reachable\<close>, \<open>seat_reachable\<close> and their like): invariants are proved by induction on them,
  for every order of events. Where the C code has no bound, neither has the model: \<open>parse_lines\<close>
  and \<open>split_fill\<close> are partial functions whose result \<open>None\<close> would be a loop that does not end. The
  setters of the options turn such a split into the value \<open>ENDLESS\<close>, which no error number of the
  code is, and both loaders turn that into \<open>None\<close> again; \<open>loading_ends\<close> shows that none of them is
  ever the result. Only the calls of hooks, and the dispatcher
  with them, carry fuel, since callbacks may register new entries for ever:
  \<open>two_rearming_callbacks_never_return\<close> shows that then no fuel is enough, and
  \<open>hook_call_runs_each_entry\<close> that for callbacks that leave the hook alone the number of entries
  plus one is. A run that has used up its fuel is marked \<open>h_stuck\<close>; the safety properties hold of
  it as well, they do not suppose that it ends.

  \<^bold>\<open>What is not modelled.\<close> Libraries that are not part of the repository (libtsm, libxkbcommon,
  libdrm, libudev, fontconfig, pango, freetype, systemd) are parameters or traced calls. The video
  backends (\<open>src/video/\<close>) and the renderer on OpenGL consist of requests to the kernel and the
  graphics library; the terminal and the software renderer see of them the result of a swap, the
  size and the damage flag, which are parameters. The font backends give glyphs, a parameter of the
  renderer. The helpers around processes, D-Bus and the VT (\<open>misc/pty.c\<close>,
  \<open>misc/dbus.c\<close>, \<open>uterm/\<close>) are system calls; what they tell the seat and the terminal are the events
  of the runs above. Compiling keymaps, LEDs, logging, modules and the help text have no effect on
  the modelled state. No real time is modelled: a timer that expires is an event that may come at
  any moment.
\<close>

end
